(* ===== verification/Sim_Prelude.thy ===== *)
theory Sim_Prelude
  imports Main "HOL-Library.Word" "HOL-Library.Signed_Division"
begin

text \<open>
  Prelude of the development: the machine types of \<open>src/src/common/types.hpp\<close> as
  type synonyms, the named collections the component theories fill, and the generic
  facts on lists, maps and integers that several components share.
\<close>

section \<open>Types\<close>

text \<open>
  Prices and quantities are 64-bit fixed-point integers scaled by \<open>10^8\<close>; they are
  modelled as \<^typ>\<open>int\<close>, and the places where the width matters carry it explicitly
  (\<open>int64_ok\<close>, or a word type). Identifiers, sequence numbers and times are unsigned
  64-bit counters and are modelled as \<^typ>\<open>nat\<close>.
\<close>

type_synonym price_t = int
type_synonym qty_t = int
type_synonym time_ns = nat
type_synonym seq_t = nat
type_synonym order_num = nat
type_synonym ptr = nat

definition int64_ok :: "int \<Rightarrow> bool" where
  "int64_ok x \<longleftrightarrow> - (2 ^ 63) \<le> x \<and> x < 2 ^ 63"

section \<open>Collections\<close>

named_theorems book_simps \<open>projections of the book operations\<close>
named_theorems engine_simps \<open>projections of the engine operations\<close>

section \<open>Lists\<close>

lemma sum_list_map_nonneg:
  fixes f :: "'a \<Rightarrow> int"
  shows "(\<And>x. x \<in> set xs \<Longrightarrow> 0 \<le> f x) \<Longrightarrow> 0 \<le> sum_list (map f xs)"
  by (induction xs) auto

lemma sum_list_map_pos:
  fixes f :: "'a \<Rightarrow> int"
  assumes "xs \<noteq> []" and "\<And>x. x \<in> set xs \<Longrightarrow> 0 < f x"
  shows "0 < sum_list (map f xs)"
  using assms
proof (induction xs)
  case (Cons a xs)
  then have "0 < f a" and "0 \<le> sum_list (map f xs)"
    by (auto intro!: sum_list_map_nonneg simp: less_imp_le)
  then show ?case by simp
qed simp

lemma takeWhile_idem: "(\<And>x. x \<in> set xs \<Longrightarrow> P x) \<Longrightarrow> takeWhile P xs = xs"
  by (simp add: takeWhile_eq_all_conv)

lemma last_snoc_butlast: "xs \<noteq> [] \<Longrightarrow> \<exists>ys y. xs = ys @ [y]"
  by (metis append_butlast_last_id)

section \<open>Maps\<close>

lemma ran_map_upd_fresh: "m k = None \<Longrightarrow> ran (m(k \<mapsto> v)) = insert v (ran m)"
  by (rule ran_map_upd)

lemma ran_map_remove:
  assumes "inj_on m (dom m)" and "m k = Some v"
  shows "ran (m(k := None)) = ran m - {v}"
proof -
  have uniq: "k' = k" if "m k' = Some v" for k'
    using that assms by (metis domI inj_onD)
  show ?thesis
  proof (intro set_eqI iffI)
    fix w assume "w \<in> ran (m(k := None))"
    then obtain k' where "k' \<noteq> k" and "m k' = Some w"
      by (auto simp: ran_def split: if_splits)
    with uniq show "w \<in> ran m - {v}" by (auto simp: ran_def)
  next
    fix w assume "w \<in> ran m - {v}"
    then obtain k' where "m k' = Some w" and "w \<noteq> v" by (auto simp: ran_def)
    with assms(2) have "(m(k := None)) k' = Some w" by auto
    then show "w \<in> ran (m(k := None))" by (rule ranI)
  qed
qed

lemma inj_on_map_remove: "inj_on m (dom m) \<Longrightarrow> inj_on (m(k := None)) (dom (m(k := None)))"
  by (auto simp: inj_on_def)

end
