(* ===== verification/Fixed_String.thy ===== *)
theory Fixed_String
  imports Sim_Prelude
begin

text \<open>
  \<open>src/src/utils/fixed_string.hpp\<close>: the fixed-width wire field. The buffer is a list of
  exactly \<open>N\<close> bytes; \<open>CHR 0x00\<close> terminates the value.
\<close>

section \<open>The buffer\<close>

definition NUL :: char where
  "NUL = char_of (0 :: nat)"

text \<open>
  \<open>copy_wire_field\<close>: the bytes written over a destination of \<open>N\<close> bytes, and whether the
  source did not fit.
\<close>

definition copy_wire_field :: "nat \<Rightarrow> string \<Rightarrow> string \<times> bool" where
  "copy_wire_field N src =
     (let len = min (length src) (N - 1)
      in (take len src @ replicate (N - len) NUL, len < length src))"

definition fs_assign :: "nat \<Rightarrow> string \<Rightarrow> string" where
  "fs_assign N value = fst (copy_wire_field N value)"

definition fs_clear :: "nat \<Rightarrow> string" where
  "fs_clear N = replicate N NUL"

text \<open>\<open>size\<close> scans at most \<open>N\<close> bytes (\<open>strnlen\<close>); \<open>view\<close> is that prefix.\<close>

definition fs_size :: "string \<Rightarrow> nat" where
  "fs_size data = length (takeWhile (\<lambda>c. c \<noteq> NUL) data)"

definition fs_view :: "string \<Rightarrow> string" where
  "fs_view data = take (fs_size data) data"

definition fs_empty :: "string \<Rightarrow> bool" where
  "fs_empty data \<longleftrightarrow> data ! 0 = NUL"

definition fs_eq :: "string \<Rightarrow> string \<Rightarrow> bool" where
  "fs_eq lhs rhs \<longleftrightarrow> lhs = rhs"

section \<open>Facts\<close>

lemma fs_assign_eq:
  "fs_assign N v = take (N - 1) v @ replicate (N - min (length v) (N - 1)) NUL"
  by (simp add: fs_assign_def copy_wire_field_def Let_def min_def)

lemma length_fs_assign: "0 < N \<Longrightarrow> length (fs_assign N v) = N"
  by (auto simp: fs_assign_eq min_def)

lemma fs_view_takeWhile: "fs_view d = takeWhile (\<lambda>c. c \<noteq> NUL) d"
  by (simp add: fs_view_def fs_size_def takeWhile_eq_take [symmetric])

lemma takeWhile_replicate_stop: "\<not> P x \<Longrightarrow> takeWhile P (replicate n x) = []"
  by (cases n) auto

lemma takeWhile_append_replicate:
  "\<not> P x \<Longrightarrow> takeWhile P (ys @ replicate n x) = takeWhile P ys"
  by (induction ys) (auto simp: takeWhile_replicate_stop)

lemma fs_view_assign:
  "fs_view (fs_assign N v) = takeWhile (\<lambda>c. c \<noteq> NUL) (take (N - 1) v)"
  by (simp add: fs_view_takeWhile fs_assign_eq takeWhile_append_replicate)

lemma fs_view_assign_id:
  "NUL \<notin> set v \<Longrightarrow> length v < N \<Longrightarrow> fs_view (fs_assign N v) = v"
  by (auto simp: fs_view_assign takeWhile_eq_all_conv)

lemma fs_view_of_view [simp]: "fs_view (fs_view d) = fs_view d"
  by (simp add: fs_view_takeWhile)

text \<open>
  A wire field is always terminated inside its buffer and zero-filled behind its value,
  so nothing of a previous value survives; a value without NUL that fits reads back
  unchanged and one that does not fit reads back as its first \<open>N - 1\<close> characters, with the
  truncation reported; and two fields compare equal byte for byte exactly when they were
  assigned the same visible value.
\<close>

theorem fixed_string_assign:
  assumes "1 < N" and "NUL \<notin> set v" and "NUL \<notin> set w"
  shows "length (fs_assign N v) = N \<and> last (fs_assign N v) = NUL \<and>
         (\<forall>i. fs_size (fs_assign N v) \<le> i \<longrightarrow> i < N \<longrightarrow> fs_assign N v ! i = NUL) \<and>
         fs_view (fs_assign N v) = take (N - 1) v \<and>
         (snd (copy_wire_field N v) \<longleftrightarrow> fs_view (fs_assign N v) \<noteq> v) \<and>
         (fs_empty (fs_assign N v) \<longleftrightarrow> v = []) \<and>
         (fs_eq (fs_assign N v) (fs_assign N w) \<longleftrightarrow> fs_view (fs_assign N v) = fs_view (fs_assign N w))"
proof -
  have tk: "takeWhile (\<lambda>c. c \<noteq> NUL) (take n x) = take n x" if "NUL \<notin> set x" for n x
    using that by (intro takeWhile_idem) (auto dest: in_set_takeD)
  have view: "fs_view (fs_assign N v) = take (N - 1) v" "fs_view (fs_assign N w) = take (N - 1) w"
    using assms by (simp_all add: fs_view_assign tk)
  have size: "fs_size (fs_assign N v) = min (length v) (N - 1)"
    using view(1) by (metis fs_size_def fs_view_takeWhile length_take min.commute)
  have len: "length (fs_assign N v) = N" using assms(1) by (simp add: length_fs_assign)
  have last: "last (fs_assign N v) = NUL"
    using assms(1) by (auto simp: fs_assign_eq last_append)
  have tail: "fs_assign N v ! i = NUL" if "fs_size (fs_assign N v) \<le> i" "i < N" for i
  proof -
    from that have "min (length v) (N - 1) \<le> i" by (simp only: size)
    with that(2) show ?thesis by (auto simp: fs_assign_eq nth_append)
  qed
  have trunc: "snd (copy_wire_field N v) \<longleftrightarrow> fs_view (fs_assign N v) \<noteq> v"
    by (simp add: view copy_wire_field_def Let_def min_def not_le)
  have empty: "fs_empty (fs_assign N v) \<longleftrightarrow> v = []"
  proof (cases v)
    case Nil
    then show ?thesis using assms(1) by (simp add: fs_empty_def fs_assign_eq)
  next
    case (Cons c cs)
    then show ?thesis using assms(1,2)
      by (auto simp: fs_empty_def fs_assign_eq nth_append take_Cons' )
  qed
  have eq: "fs_assign N v = fs_assign N w" if "take (N - 1) v = take (N - 1) w"
    using that by (metis fs_assign_eq length_take)
  show ?thesis
    using len last tail view trunc empty eq by (auto simp: fs_eq_def)
qed

theorem fixed_string_assign_witness:
  "1 < (4 :: nat) \<and> fs_view (fs_assign 4 ''abcdef'') = ''abc'' \<and> snd (copy_wire_field 4 ''abcdef'')"
proof -
  have n: "NUL \<notin> set ''abcdef''" by (simp add: NUL_def char_of_def)
  show ?thesis
    using fixed_string_assign [of 4 "''abcdef''" "''abcdef''", OF _ n n] by simp
qed

end
