(* ===== verification/Sim_Types.thy ===== *)
theory Sim_Types
  imports Sim_Prelude
begin

text \<open>
  \<open>src/src/common/types.hpp\<close>: the fixed-point constants, the exact decimal renderer
  \<open>to_fixed_string\<close>, the case-insensitive comparison \<open>iequals\<close> and the venue names.
  The double conversions \<open>to_price_t\<close> and \<open>to_qty_t\<close> are binary floating point and are
  not modelled.
\<close>

section \<open>Constants\<close>

definition INVALID_SYMBOL_ID :: nat where
  "INVALID_SYMBOL_ID = 65535"

definition NULL_PRICE :: price_t where
  "NULL_PRICE = 9223372036854775807"

definition DOUBLE_MULTIPLIER :: nat where
  "DOUBLE_MULTIPLIER = 100000000"

section \<open>Exact decimal rendering\<close>

definition digit_char :: "nat \<Rightarrow> char" where
  "digit_char d = char_of (48 + d)"

text \<open>\<open>std::to_string\<close> on an unsigned value.\<close>

fun to_string_nat :: "nat \<Rightarrow> string" where
  "to_string_nat n =
     (if n < 10 then [digit_char n]
      else to_string_nat (n div 10) @ [digit_char (n mod 10)])"

declare to_string_nat.simps [simp del]

definition to_string_int :: "int \<Rightarrow> string" where
  "to_string_int v = (if v < 0 then CHR ''-'' # to_string_nat (nat (- v)) else to_string_nat (nat v))"

text \<open>
  The loop that fills \<open>digits[7]\<close> down to \<open>digits[0]\<close>, and the loop that removes
  trailing zeros while more than \<open>min_frac_digits\<close> digits remain.
\<close>

fun fill_digits :: "nat \<Rightarrow> nat \<Rightarrow> string \<Rightarrow> string" where
  "fill_digits 0 fraction digits = digits"
| "fill_digits (Suc i) fraction digits =
     fill_digits i (fraction div 10) (digit_char (fraction mod 10) # digits)"

function trim_zeros :: "nat \<Rightarrow> string \<Rightarrow> string" where
  "trim_zeros min_frac_digits significant =
     (if length significant > min_frac_digits \<and> last significant = CHR ''0''
      then trim_zeros min_frac_digits (butlast significant)
      else significant)"
  by pat_completeness auto
termination
  by (relation "measure (\<lambda>(m, ds). length ds)") auto

declare trim_zeros.simps [simp del]

text \<open>
  The magnitude is negated in the unsigned 64-bit domain, so the most negative value
  does not overflow.
\<close>

definition magnitude64 :: "int \<Rightarrow> nat" where
  "magnitude64 v =
     (if v < 0 then unat (0 - (word_of_int v :: 64 word)) else unat (word_of_int v :: 64 word))"

definition to_fixed_string :: "int \<Rightarrow> nat \<Rightarrow> string" where
  "to_fixed_string v min_frac_digits =
     (let negative = v < 0;
          magnitude = magnitude64 v;
          fraction = magnitude mod DOUBLE_MULTIPLIER;
          out = (if negative then [CHR ''-''] else []) @ to_string_nat (magnitude div DOUBLE_MULTIPLIER)
      in if fraction = 0 \<and> min_frac_digits = 0 then out
         else out @ [CHR ''.''] @ trim_zeros min_frac_digits (fill_digits 8 fraction []))"

definition to_price_string :: "price_t \<Rightarrow> string" where
  "to_price_string p = to_fixed_string p 0"

definition to_qty_string :: "qty_t \<Rightarrow> string" where
  "to_qty_string q = to_fixed_string q 0"

section \<open>Case-insensitive comparison\<close>

definition ascii_upper :: "char \<Rightarrow> char" where
  "ascii_upper c =
     (let n = of_char c :: nat in if 97 \<le> n \<and> n \<le> 122 then char_of (n - 32) else c)"

fun iequals_loop :: "string \<Rightarrow> string \<Rightarrow> bool" where
  "iequals_loop (a # as) (b # bs) =
     (if ascii_upper a \<noteq> ascii_upper b then False else iequals_loop as bs)"
| "iequals_loop _ _ = True"

definition iequals :: "string \<Rightarrow> string \<Rightarrow> bool" where
  "iequals a b = (if length a \<noteq> length b then False else iequals_loop a b)"

section \<open>Venues\<close>

datatype Venue = UNKNOWN_VENUE | CME | ICE | COINBASE | HYPERLIQUID | STOCK | COUNT_VENUE

fun to_string_Venue :: "Venue \<Rightarrow> string" where
  "to_string_Venue CME = ''CME''"
| "to_string_Venue ICE = ''ICE''"
| "to_string_Venue COINBASE = ''COINBASE''"
| "to_string_Venue HYPERLIQUID = ''HYPERLIQUID''"
| "to_string_Venue STOCK = ''STOCK''"
| "to_string_Venue COUNT_VENUE = ''UNKNOWN''"
| "to_string_Venue UNKNOWN_VENUE = ''UNKNOWN''"

definition to_venue :: "string \<Rightarrow> Venue" where
  "to_venue exch =
     (if iequals exch ''CME'' then CME
      else if iequals exch ''ICE'' then ICE
      else if iequals exch ''COINBASE'' then COINBASE
      else if iequals exch ''HYPERLIQUID'' then HYPERLIQUID
      else if iequals exch ''STOCK'' then STOCK
      else UNKNOWN_VENUE)"

section \<open>Facts\<close>

lemma unat_word64_of_nonneg: "0 \<le> x \<Longrightarrow> x < 2 ^ 64 \<Longrightarrow> unat (word_of_int x :: 64 word) = nat x"
  unfolding unat_eq_nat_uint uint_word_of_int_eq
  by (subst take_bit_int_eq_self) simp_all

lemma magnitude64_eq:
  assumes "int64_ok v"
  shows "magnitude64 v = nat \<bar>v\<bar>"
proof (cases "v < 0")
  case True
  have "0 - (word_of_int v :: 64 word) = word_of_int (- v)" by simp
  then have "magnitude64 v = unat (word_of_int (- v) :: 64 word)"
    using True by (simp only: magnitude64_def if_True)
  also have "\<dots> = nat (- v)"
    using True assms by (intro unat_word64_of_nonneg) (auto simp: int64_ok_def)
  finally show ?thesis using True by simp
next
  case False
  then have "magnitude64 v = nat v"
    unfolding magnitude64_def if_not_P [OF False]
    using assms by (intro unat_word64_of_nonneg) (auto simp: int64_ok_def)
  with False show ?thesis by simp
qed

lemma iequals_loop_iff:
  "length a = length b \<Longrightarrow> iequals_loop a b \<longleftrightarrow> map ascii_upper a = map ascii_upper b"
  by (induction a b rule: iequals_loop.induct) auto

lemma iequals_iff: "iequals a b \<longleftrightarrow> map ascii_upper a = map ascii_upper b"
  using iequals_loop_iff [of a b] map_eq_imp_length_eq [of ascii_upper a ascii_upper b]
  by (auto simp: iequals_def)


subsection \<open>Reading a rendered value back\<close>

text \<open>
  The reader a receiver applies: an optional sign, decimal digits, and at most eight
  fractional digits, as a fixed-point value. It is the specification
  \<open>to_fixed_string\<close> is measured against.
\<close>

definition char_digit :: "char \<Rightarrow> nat" where
  "char_digit c = of_char c - 48"

fun digits_acc :: "nat \<Rightarrow> string \<Rightarrow> nat" where
  "digits_acc acc [] = acc"
| "digits_acc acc (c # cs) = digits_acc (10 * acc + char_digit c) cs"

definition digits_value :: "string \<Rightarrow> nat" where
  "digits_value ds = digits_acc 0 ds"

definition read_magnitude :: "string \<Rightarrow> nat" where
  "read_magnitude s =
     (let whole = takeWhile (\<lambda>c. c \<noteq> CHR ''.'') s;
          frac = drop (length whole + 1) s
      in digits_value whole * 10 ^ 8 + digits_value frac * 10 ^ (8 - length frac))"

definition read_fixed :: "string \<Rightarrow> int" where
  "read_fixed s =
     (if s \<noteq> [] \<and> hd s = CHR ''-'' then - int (read_magnitude (tl s)) else int (read_magnitude s))"

lemma of_char_digit: "d < 10 \<Longrightarrow> of_char (digit_char d) = 48 + d"
  by (simp add: digit_char_def of_char_of)

lemma char_digit_digit_char [simp]: "d < 10 \<Longrightarrow> char_digit (digit_char d) = d"
  by (simp add: char_digit_def of_char_digit)

lemma digit_char_eq_iff: "d < 10 \<Longrightarrow> of_char c < (256 :: nat) \<Longrightarrow> digit_char d = c \<longleftrightarrow> 48 + d = of_char c"
  by (metis of_char_digit char_of_char)

lemma digit_char_not_dot: "d < 10 \<Longrightarrow> digit_char d \<noteq> CHR ''.''"
proof
  assume "d < 10" and "digit_char d = CHR ''.''"
  then have "48 + d = of_char (CHR ''.'')" by (metis of_char_digit)
  then show False by simp
qed

lemma digit_char_not_minus: "d < 10 \<Longrightarrow> digit_char d \<noteq> CHR ''-''"
proof
  assume "d < 10" and "digit_char d = CHR ''-''"
  then have "48 + d = of_char (CHR ''-'')" by (metis of_char_digit)
  then show False by simp
qed

lemma digits_acc_value: "digits_acc a zs = a * 10 ^ length zs + digits_value zs"
proof (induction zs arbitrary: a)
  case (Cons z zs)
  show ?case
    using Cons.IH [of "10 * a + char_digit z"] Cons.IH [of "char_digit z"]
    by (simp add: digits_value_def algebra_simps)
qed (simp add: digits_value_def)

lemma digits_value_append: "digits_value (xs @ ys) = digits_value xs * 10 ^ length ys + digits_value ys"
proof -
  have "digits_acc a (xs @ ys) = digits_acc (digits_acc a xs) ys" for a
    by (induction xs arbitrary: a) auto
  then have "digits_value (xs @ ys) = digits_acc (digits_value xs) ys" by (simp add: digits_value_def)
  then show ?thesis by (simp only: digits_acc_value)
qed

lemma digits_value_snoc [simp]: "digits_value (xs @ [c]) = digits_value xs * 10 + char_digit c"
  by (simp add: digits_value_append) (simp add: digits_value_def)

lemma digits_value_to_string_nat: "digits_value (to_string_nat n) = n"
proof (induction n rule: to_string_nat.induct)
  case (1 n)
  show ?case
  proof (cases "n < 10")
    case True
    then show ?thesis by (simp add: to_string_nat.simps [of n] digits_value_def)
  next
    case False
    then show ?thesis using 1 by (simp add: to_string_nat.simps [of n])
  qed
qed

lemma to_string_nat_digits: "c \<in> set (to_string_nat n) \<Longrightarrow> \<exists>d<10. c = digit_char d"
proof (induction n rule: to_string_nat.induct)
  case (1 n)
  then show ?case
    by (cases "n < 10") (auto simp: to_string_nat.simps [of n] intro: exI [of _ "n mod 10"])
qed

lemma to_string_nat_no_dot: "c \<in> set (to_string_nat n) \<Longrightarrow> c \<noteq> CHR ''.''"
  using to_string_nat_digits digit_char_not_dot by fastforce

lemma to_string_length: "n < 10 ^ k \<Longrightarrow> 0 < k \<Longrightarrow> length (to_string_nat n) \<le> k"
proof (induction k arbitrary: n)
  case (Suc k)
  show ?case
  proof (cases "n < 10")
    case True
    then show ?thesis by (simp add: to_string_nat.simps)
  next
    case False
    then have "0 < k" using Suc.prems by (cases k) auto
    moreover have "n div 10 < 10 ^ k" using Suc.prems by (simp add: less_mult_imp_div_less)
    ultimately show ?thesis using Suc.IH [of "n div 10"] False by (subst to_string_nat.simps) simp
  qed
qed simp

lemma to_string_nat_ne: "to_string_nat n \<noteq> []"
  by (simp add: to_string_nat.simps)

lemma fill_digits_props:
  "length (fill_digits i f ds) = i + length ds \<and>
   (f < 10 ^ i \<longrightarrow> digits_value (fill_digits i f ds) = f * 10 ^ length ds + digits_value ds)"
proof (induction i arbitrary: f ds)
  case (Suc i)
  have split: "digits_value (digit_char (f mod 10) # ds) = (f mod 10) * 10 ^ length ds + digits_value ds"
    using digits_value_append [of "[digit_char (f mod 10)]" ds] by (simp add: digits_value_def)
  have "f < 10 ^ Suc i \<Longrightarrow> f div 10 < 10 ^ i" by (simp add: less_mult_imp_div_less mult.commute)
  moreover have "f div 10 * 10 ^ Suc (length ds) + f mod 10 * 10 ^ length ds = f * 10 ^ length ds"
    by (metis (no_types) add_mult_distrib div_mult_mod_eq mult.assoc mult.commute power_Suc)
  ultimately show ?case
    using Suc.IH [of "f div 10" "digit_char (f mod 10) # ds"] by (simp add: split algebra_simps)
qed simp

lemma trim_zeros_value:
  "length ds \<le> 8 \<Longrightarrow>
   length (trim_zeros m ds) \<le> 8 \<and>
   digits_value (trim_zeros m ds) * 10 ^ (8 - length (trim_zeros m ds)) = digits_value ds * 10 ^ (8 - length ds)"
proof (induction m ds rule: trim_zeros.induct)
  case (1 m ds)
  show ?case
  proof (cases "length ds > m \<and> last ds = CHR ''0''")
    case True
    then have ne: "ds \<noteq> []" by auto
    then have ds: "ds = butlast ds @ [CHR ''0'']" using True by (metis append_butlast_last_id)
    have v: "digits_value ds = digits_value (butlast ds) * 10"
      by (subst ds) (simp add: char_digit_def)
    have len: "length (butlast ds) = length ds - 1" by simp
    have "8 - (length ds - 1) = Suc (8 - length ds)" using ne 1(2) by (cases ds) auto
    with 1(1) [OF True] 1(2) v len True show ?thesis
      by (simp add: trim_zeros.simps [of m ds])
  next
    case False
    then have "trim_zeros m ds = ds" by (subst trim_zeros.simps) (rule if_not_P)
    with 1(2) show ?thesis by simp
  qed
qed

lemma read_magnitude_whole: "read_magnitude (to_string_nat n) = n * 10 ^ 8"
proof -
  have "takeWhile (\<lambda>c. c \<noteq> CHR ''.'') (to_string_nat n) = to_string_nat n"
    by (rule takeWhile_idem) (rule to_string_nat_no_dot)
  moreover have "digits_value [] = 0" by (simp add: digits_value_def)
  ultimately show ?thesis
    by (simp only: read_magnitude_def Let_def digits_value_to_string_nat) simp
qed

lemma read_magnitude_point:
  "read_magnitude (to_string_nat n @ [CHR ''.''] @ fr) = n * 10 ^ 8 + digits_value fr * 10 ^ (8 - length fr)"
proof -
  have "takeWhile (\<lambda>c. c \<noteq> CHR ''.'') (to_string_nat n @ CHR ''.'' # fr) = to_string_nat n"
    by (subst takeWhile_append2) (auto dest: to_string_nat_no_dot)
  then show ?thesis by (simp add: read_magnitude_def digits_value_to_string_nat)
qed

lemma read_to_fixed_string:
  assumes "int64_ok v"
  shows "read_fixed (to_fixed_string v m) = v"
proof -
  define mag where "mag = magnitude64 v"
  define body where "body = (if mag mod DOUBLE_MULTIPLIER = 0 \<and> m = 0 then to_string_nat (mag div DOUBLE_MULTIPLIER)
    else to_string_nat (mag div DOUBLE_MULTIPLIER) @ [CHR ''.''] @
         trim_zeros m (fill_digits 8 (mag mod DOUBLE_MULTIPLIER) []))"
  have fr: "mag mod DOUBLE_MULTIPLIER < 10 ^ 8" by (simp add: DOUBLE_MULTIPLIER_def)
  have "digits_value (trim_zeros m (fill_digits 8 (mag mod DOUBLE_MULTIPLIER) [])) *
      10 ^ (8 - length (trim_zeros m (fill_digits 8 (mag mod DOUBLE_MULTIPLIER) []))) = mag mod DOUBLE_MULTIPLIER"
    using trim_zeros_value [of "fill_digits 8 (mag mod DOUBLE_MULTIPLIER) []" m]
      fill_digits_props [of 8 "mag mod DOUBLE_MULTIPLIER" "[]"] fr
    by (simp add: digits_value_def)
  then have body: "read_magnitude body = mag"
    by (simp add: body_def read_magnitude_whole read_magnitude_point [simplified])
       (auto simp: DOUBLE_MULTIPLIER_def)
  have out: "to_fixed_string v m = (if v < 0 then [CHR ''-''] else []) @ body"
    by (simp add: to_fixed_string_def body_def mag_def Let_def)
  have "hd body \<in> set (to_string_nat (mag div DOUBLE_MULTIPLIER))" and "body \<noteq> []"
    using to_string_nat_ne by (auto simp: body_def hd_append)
  then have "hd body \<noteq> CHR ''-''" and "body \<noteq> []"
    using to_string_nat_digits digit_char_not_minus by fastforce+
  with body out magnitude64_eq [OF assms] show ?thesis
    by (simp add: read_fixed_def mag_def)
qed

text \<open>
  The rendering of a fixed-point value is exact: whatever floor \<open>min_frac_digits\<close>
  puts on the trimming, reading the text back gives the value, for every 64-bit value
  including the most negative one.
\<close>

theorem to_fixed_string_exact:
  assumes "int64_ok v"
  shows "read_fixed (to_fixed_string v m) = v"
  using assms by (rule read_to_fixed_string)

lemma fill_digits_numeral:
  "fill_digits (numeral k) f ds = fill_digits (pred_numeral k) (f div 10) (digit_char (f mod 10) # ds)"
  by (subst numeral_eq_Suc) (rule fill_digits.simps(2))

theorem to_fixed_string_exact_witness:
  "int64_ok (- 820000000) \<and> to_fixed_string (- 820000000) 0 = ''-8.2'' \<and>
   read_fixed (to_fixed_string (- 820000000) 0) = - 820000000"
proof -
  have h: "int64_ok (- 820000000)" by (simp add: int64_ok_def)
  have "to_fixed_string (- 820000000) 0 = ''-8.2''"
    by (simp add: to_fixed_string_def magnitude64_eq [OF h] DOUBLE_MULTIPLIER_def Let_def
        to_string_nat.simps fill_digits_numeral trim_zeros.simps digit_char_def char_of_def bit_0)
  with h to_fixed_string_exact [OF h, of 0] show ?thesis by simp
qed

text \<open>
  Venue names resolve case-insensitively: every real venue's canonical name comes
  back from \<open>to_venue\<close>, two spellings that differ only in ASCII case resolve alike, and a
  name that resolves is a case variant of the canonical name of the venue it resolves to.
\<close>

theorem to_venue_roundtrip:
  "(v \<notin> {UNKNOWN_VENUE, COUNT_VENUE} \<longrightarrow> to_venue (to_string_Venue v) = v) \<and>
   (map ascii_upper a = map ascii_upper b \<longrightarrow> to_venue a = to_venue b) \<and>
   (to_venue a \<noteq> UNKNOWN_VENUE \<longrightarrow> iequals a (to_string_Venue (to_venue a)))"
proof (intro conjI impI)
  assume "v \<notin> {UNKNOWN_VENUE, COUNT_VENUE}"
  then show "to_venue (to_string_Venue v) = v"
    by (cases v) (simp_all add: to_venue_def iequals_def ascii_upper_def)
next
  assume "map ascii_upper a = map ascii_upper b"
  then have "iequals a x = iequals b x" for x by (simp add: iequals_iff)
  then show "to_venue a = to_venue b" by (simp add: to_venue_def)
next
  assume "to_venue a \<noteq> UNKNOWN_VENUE"
  then show "iequals a (to_string_Venue (to_venue a))"
    by (simp add: to_venue_def split: if_splits)
qed

theorem to_venue_roundtrip_witness:
  "to_venue ''Coinbase'' = COINBASE \<and> to_venue (to_string_Venue ICE) = ICE"
proof -
  have "map ascii_upper ''Coinbase'' = map ascii_upper ''COINBASE''" by code_simp
  then have "to_venue ''Coinbase'' = to_venue (to_string_Venue COINBASE)"
    using to_venue_roundtrip [of COINBASE "''Coinbase''" "''COINBASE''"] by simp
  then show ?thesis
    using to_venue_roundtrip [of COINBASE "[]" "[]"] to_venue_roundtrip [of ICE "[]" "[]"] by simp
qed

end
