(* ===== verification/Sim_Order.thy ===== *)
theory Sim_Order
  imports Sim_Types
begin

text \<open>
  \<open>src/src/common/order.hpp\<close>, \<open>messages.hpp\<close> and \<open>market_data.hpp\<close>: the enumerations
  with their names and FIX codes, the pooled \<open>Order\<close>, the request and response messages,
  and the market-data rows. Floating-point reporting fields (\<open>fee\<close>, \<open>filled_value\<close>) and the
  always empty \<open>edit_history\<close> are left out.
\<close>

section \<open>Enumerations\<close>

datatype Side = BUY | SELL | UNKNOWN_SIDE

fun opposite_side :: "Side \<Rightarrow> Side" where
  "opposite_side BUY = SELL"
| "opposite_side SELL = BUY"
| "opposite_side UNKNOWN_SIDE = UNKNOWN_SIDE"

fun to_string_Side :: "Side \<Rightarrow> string" where
  "to_string_Side BUY = ''BUY''"
| "to_string_Side SELL = ''SELL''"
| "to_string_Side UNKNOWN_SIDE = ''UNKNOWN''"

datatype OrderType =
  OT_UNKNOWN | OT_MARKET | OT_LIMIT | OT_STOP | OT_STOP_LIMIT | OT_BRACKET | OT_TWAP | OT_ROLL_OPEN | OT_ROLL_CLOSE | OT_LIQUIDATION | OT_SCALED

fun to_string_OrderType :: "OrderType \<Rightarrow> string" where
  "to_string_OrderType OT_UNKNOWN = ''UNKNOWN''"
| "to_string_OrderType OT_MARKET = ''MARKET''"
| "to_string_OrderType OT_LIMIT = ''LIMIT''"
| "to_string_OrderType OT_STOP = ''STOP''"
| "to_string_OrderType OT_STOP_LIMIT = ''STOP_LIMIT''"
| "to_string_OrderType OT_BRACKET = ''BRAKET''"
| "to_string_OrderType OT_TWAP = ''TWAP''"
| "to_string_OrderType OT_ROLL_OPEN = ''ROLL_OPEN''"
| "to_string_OrderType OT_ROLL_CLOSE = ''ROLL_CLOSE''"
| "to_string_OrderType OT_LIQUIDATION = ''LIQUIDATION''"
| "to_string_OrderType OT_SCALED = ''SCALED''"

fun code_OrderType :: "OrderType \<Rightarrow> char" where
  "code_OrderType OT_UNKNOWN = CHR ''0''"
| "code_OrderType OT_MARKET = CHR ''1''"
| "code_OrderType OT_LIMIT = CHR ''2''"
| "code_OrderType OT_STOP = CHR ''3''"
| "code_OrderType OT_STOP_LIMIT = CHR ''4''"
| "code_OrderType OT_BRACKET = CHR ''5''"
| "code_OrderType OT_TWAP = CHR ''6''"
| "code_OrderType OT_ROLL_OPEN = CHR ''7''"
| "code_OrderType OT_ROLL_CLOSE = CHR ''8''"
| "code_OrderType OT_LIQUIDATION = CHR ''9''"
| "code_OrderType OT_SCALED = CHR ''A''"

datatype ExecType =
  ET_NEW | ET_CANCELED | ET_REPLACED | ET_PENDING_CANCEL | ET_REJECTED | ET_EXPIRED | ET_PENDING_REPLACE | ET_TRADE | ET_TRADE_CORRECT | ET_TRADE_CANCEL | ET_ORDER_STATUS | ET_RESTATED

fun to_string_ExecType :: "ExecType \<Rightarrow> string" where
  "to_string_ExecType ET_NEW = ''NEW''"
| "to_string_ExecType ET_CANCELED = ''CANCELED''"
| "to_string_ExecType ET_REPLACED = ''REPLACED''"
| "to_string_ExecType ET_PENDING_CANCEL = ''PENDING_CANCEL''"
| "to_string_ExecType ET_REJECTED = ''REJECTED''"
| "to_string_ExecType ET_EXPIRED = ''EXPIRED''"
| "to_string_ExecType ET_PENDING_REPLACE = ''PENDING_REPLACE''"
| "to_string_ExecType ET_TRADE = ''TRADE''"
| "to_string_ExecType ET_TRADE_CORRECT = ''TRADE_CORRECT''"
| "to_string_ExecType ET_TRADE_CANCEL = ''TRADE_CANCEL''"
| "to_string_ExecType ET_ORDER_STATUS = ''ORDER_STATUS''"
| "to_string_ExecType ET_RESTATED = ''RESTATED''"

fun code_ExecType :: "ExecType \<Rightarrow> char" where
  "code_ExecType ET_NEW = CHR ''0''"
| "code_ExecType ET_CANCELED = CHR ''4''"
| "code_ExecType ET_REPLACED = CHR ''5''"
| "code_ExecType ET_PENDING_CANCEL = CHR ''6''"
| "code_ExecType ET_REJECTED = CHR ''8''"
| "code_ExecType ET_EXPIRED = CHR ''C''"
| "code_ExecType ET_PENDING_REPLACE = CHR ''E''"
| "code_ExecType ET_TRADE = CHR ''F''"
| "code_ExecType ET_TRADE_CORRECT = CHR ''G''"
| "code_ExecType ET_TRADE_CANCEL = CHR ''H''"
| "code_ExecType ET_ORDER_STATUS = CHR ''I''"
| "code_ExecType ET_RESTATED = CHR ''D''"

datatype OrderStatus =
  OS_NEW | OS_PARTIALLY_FILLED | OS_FILLED | OS_DONE_FOR_DAY | OS_CANCELED | OS_REPLACED | OS_PENDING_CANCEL | OS_STOPPED | OS_REJECTED | OS_SUSPENDED | OS_PENDING_NEW | OS_CALCULATED | OS_EXPIRED | OS_ACCEPTED_FOR_BIDDING | OS_PENDING_REPLACE

fun to_string_OrderStatus :: "OrderStatus \<Rightarrow> string" where
  "to_string_OrderStatus OS_NEW = ''NEW''"
| "to_string_OrderStatus OS_PARTIALLY_FILLED = ''PARTIALLY_FILLED''"
| "to_string_OrderStatus OS_FILLED = ''FILLED''"
| "to_string_OrderStatus OS_DONE_FOR_DAY = ''DONE_FOR_DAY''"
| "to_string_OrderStatus OS_CANCELED = ''CANCELLED''"
| "to_string_OrderStatus OS_REPLACED = ''REPLACED''"
| "to_string_OrderStatus OS_PENDING_CANCEL = ''PENDING_CANCEL''"
| "to_string_OrderStatus OS_STOPPED = ''STOPPED''"
| "to_string_OrderStatus OS_REJECTED = ''REJECTED''"
| "to_string_OrderStatus OS_SUSPENDED = ''SUSPENDED''"
| "to_string_OrderStatus OS_PENDING_NEW = ''PENDING_NEW''"
| "to_string_OrderStatus OS_CALCULATED = ''CALCULATED''"
| "to_string_OrderStatus OS_EXPIRED = ''EXPIRED''"
| "to_string_OrderStatus OS_ACCEPTED_FOR_BIDDING = ''ACCEPTED_FOR_BIDDING''"
| "to_string_OrderStatus OS_PENDING_REPLACE = ''PENDING_REPLACE''"

fun code_OrderStatus :: "OrderStatus \<Rightarrow> char" where
  "code_OrderStatus OS_NEW = CHR ''0''"
| "code_OrderStatus OS_PARTIALLY_FILLED = CHR ''1''"
| "code_OrderStatus OS_FILLED = CHR ''2''"
| "code_OrderStatus OS_DONE_FOR_DAY = CHR ''3''"
| "code_OrderStatus OS_CANCELED = CHR ''4''"
| "code_OrderStatus OS_REPLACED = CHR ''5''"
| "code_OrderStatus OS_PENDING_CANCEL = CHR ''6''"
| "code_OrderStatus OS_STOPPED = CHR ''7''"
| "code_OrderStatus OS_REJECTED = CHR ''8''"
| "code_OrderStatus OS_SUSPENDED = CHR ''9''"
| "code_OrderStatus OS_PENDING_NEW = CHR ''A''"
| "code_OrderStatus OS_CALCULATED = CHR ''B''"
| "code_OrderStatus OS_EXPIRED = CHR ''C''"
| "code_OrderStatus OS_ACCEPTED_FOR_BIDDING = CHR ''D''"
| "code_OrderStatus OS_PENDING_REPLACE = CHR ''E''"

datatype TimeInForce =
  TIF_DAY | TIF_GOOD_TILL_CANCEL | TIF_AT_THE_OPENING | TIF_IMMEDIATE_OR_CANCEL | TIF_FILL_OR_KILL | TIF_GOOD_TILL_CROSSING | TIF_GOOD_TILL_DATE

fun to_string_TimeInForce :: "TimeInForce \<Rightarrow> string" where
  "to_string_TimeInForce TIF_DAY = ''DAY''"
| "to_string_TimeInForce TIF_GOOD_TILL_CANCEL = ''GOOD_TILL_CANCEL''"
| "to_string_TimeInForce TIF_AT_THE_OPENING = ''AT_THE_OPENING''"
| "to_string_TimeInForce TIF_IMMEDIATE_OR_CANCEL = ''IMMEDIATE_OR_CANCEL''"
| "to_string_TimeInForce TIF_FILL_OR_KILL = ''FILL_OR_KILL''"
| "to_string_TimeInForce TIF_GOOD_TILL_CROSSING = ''GOOD_TILL_CROSSING''"
| "to_string_TimeInForce TIF_GOOD_TILL_DATE = ''GOOD_TILL_DATE''"

fun code_TimeInForce :: "TimeInForce \<Rightarrow> char" where
  "code_TimeInForce TIF_DAY = CHR ''0''"
| "code_TimeInForce TIF_GOOD_TILL_CANCEL = CHR ''1''"
| "code_TimeInForce TIF_AT_THE_OPENING = CHR ''2''"
| "code_TimeInForce TIF_IMMEDIATE_OR_CANCEL = CHR ''3''"
| "code_TimeInForce TIF_FILL_OR_KILL = CHR ''4''"
| "code_TimeInForce TIF_GOOD_TILL_CROSSING = CHR ''5''"
| "code_TimeInForce TIF_GOOD_TILL_DATE = CHR ''6''"

datatype SelfMatchPreventionMode =
  SMP_NONE | SMP_CANCEL_RESTING | SMP_CANCEL_NEWEST

fun to_string_SelfMatchPreventionMode :: "SelfMatchPreventionMode \<Rightarrow> string" where
  "to_string_SelfMatchPreventionMode SMP_NONE = ''none''"
| "to_string_SelfMatchPreventionMode SMP_CANCEL_RESTING = ''cancel_resting''"
| "to_string_SelfMatchPreventionMode SMP_CANCEL_NEWEST = ''cancel_newest''"

definition to_smp_mode :: "string \<Rightarrow> SelfMatchPreventionMode" where
  "to_smp_mode name =
     (if name = ''cancel_resting'' then SMP_CANCEL_RESTING
      else if name = ''cancel_newest'' then SMP_CANCEL_NEWEST
      else SMP_NONE)"

datatype ProductType =
  PT_UNKNOWN | PT_SPOT | PT_FUTURE

fun to_string_ProductType :: "ProductType \<Rightarrow> string" where
  "to_string_ProductType PT_UNKNOWN = ''UNKNOWN_PRODUCT_TYPE''"
| "to_string_ProductType PT_SPOT = ''SPOT''"
| "to_string_ProductType PT_FUTURE = ''FUTURE''"

datatype OrdRejectReason =
  RJ_NONE | RJ_UNKNOWN | RJ_UNKNOWN_CONTRACT | RJ_UNKNOWN_ORDER | RJ_MARKET_CLOSED | RJ_MARKET_HALTED | RJ_SMP | RJ_INVALID_DISPLAY_QTY | RJ_FAK_MUST_BE_LIMIT | RJ_ICEBERG_MUST_BE_LIMIT | RJ_ICEBERG_MUST_BE_DAY_OR_GTC | RJ_PRICE_CANT_BE_BELOW_STOP_PRICE | RJ_PRICE_CANT_BE_ABOVE_STOP_PRICE | RJ_STOP_PRICE_MUST_BE_BELOW_LAST_TRADE_PRICE | RJ_STOP_PRICE_MUST_BE_ABOVE_LAST_TRADE_PRICE | RJ_TIME_IN_FORCE_NOT_ALLOWED_IN_CURRENT_MARKET_STATE | RJ_ORDER_TYPE_NOT_ALLOWED_IN_CURRENT_MARKET_STATE | RJ_INVALID_TICK_SIZE | RJ_INVALID_QTY | RJ_INVALID_MIN_QTY | RJ_CLIENT_ORDER_ID_ALREADY_EXISTS | RJ_FOK_CANNOT_FILL

fun to_string_OrdRejectReason :: "OrdRejectReason \<Rightarrow> string" where
  "to_string_OrdRejectReason RJ_NONE = ''NONE''"
| "to_string_OrdRejectReason RJ_UNKNOWN = ''UNKNOWN''"
| "to_string_OrdRejectReason RJ_UNKNOWN_CONTRACT = ''UNKNOWN_CONTRACT''"
| "to_string_OrdRejectReason RJ_UNKNOWN_ORDER = ''UNKNOWN_ORDER''"
| "to_string_OrdRejectReason RJ_MARKET_CLOSED = ''MARKET_CLOSED''"
| "to_string_OrdRejectReason RJ_MARKET_HALTED = ''MARKET_HALTED''"
| "to_string_OrdRejectReason RJ_SMP = ''SMP''"
| "to_string_OrdRejectReason RJ_INVALID_DISPLAY_QTY = ''INVALID_DISPLAY_QTY''"
| "to_string_OrdRejectReason RJ_FAK_MUST_BE_LIMIT = ''FAK_MUST_BE_LIMIT''"
| "to_string_OrdRejectReason RJ_ICEBERG_MUST_BE_LIMIT = ''ICEBERG_MUST_BE_LIMIT''"
| "to_string_OrdRejectReason RJ_ICEBERG_MUST_BE_DAY_OR_GTC = ''ICEBERG_MUST_BE_DAY_OR_GTC''"
| "to_string_OrdRejectReason RJ_PRICE_CANT_BE_BELOW_STOP_PRICE = ''PRICE_CANT_BE_BELOW_STOP_PRICE''"
| "to_string_OrdRejectReason RJ_PRICE_CANT_BE_ABOVE_STOP_PRICE = ''PRICE_CANT_BE_ABOVE_STOP_PRICE''"
| "to_string_OrdRejectReason RJ_STOP_PRICE_MUST_BE_BELOW_LAST_TRADE_PRICE = ''STOP_PRICE_MUST_BE_BELOW_LAST_TRADE_PRICE''"
| "to_string_OrdRejectReason RJ_STOP_PRICE_MUST_BE_ABOVE_LAST_TRADE_PRICE = ''STOP_PRICE_MUST_BE_ABOVE_LAST_TRADE_PRICE''"
| "to_string_OrdRejectReason RJ_TIME_IN_FORCE_NOT_ALLOWED_IN_CURRENT_MARKET_STATE = ''TIME_IN_FORCE_NOT_ALLOWED_IN_CURRENT_MARKET_STATE''"
| "to_string_OrdRejectReason RJ_ORDER_TYPE_NOT_ALLOWED_IN_CURRENT_MARKET_STATE = ''ORDER_TYPE_NOT_ALLOWED_IN_CURRENT_MARKET_STATE''"
| "to_string_OrdRejectReason RJ_INVALID_TICK_SIZE = ''INVALID_TICK_SIZE''"
| "to_string_OrdRejectReason RJ_INVALID_QTY = ''INVALID_QTY''"
| "to_string_OrdRejectReason RJ_INVALID_MIN_QTY = ''INVALID_MIN_QTY''"
| "to_string_OrdRejectReason RJ_CLIENT_ORDER_ID_ALREADY_EXISTS = ''CLIENT_ORDER_ID_ALREADY_EXISTS''"
| "to_string_OrdRejectReason RJ_FOK_CANNOT_FILL = ''FOK_CANNOT_FILL''"

datatype MessageType =
  MT_UNKNOWN | MT_NEW_ORDER_SINGLE | MT_ORDER_CANCEL_REQUEST | MT_ORDER_REPLACE_REQUEST | MT_EXECUTION_REPORT | MT_ORDER_CANCEL_REJECT | MT_HEARTBEAT | MT_TEST_REQUEST | MT_RE_SEND_REQUEST | MT_REJECT | MT_MD_SUBSCRIPTION | MT_MD_UNSUBSCRIPTION

datatype MDUpdateType = MD_BOOK | MD_LEVEL | MD_ORDER | MD_TRADE_SUMMARY | MD_TRADE |
  MD_BOOK_SNAPSHOT | MD_ORDER_SNAPSHOT | MD_SUB_RESPONSE

datatype MDUpdateAction = ACTION_NEW | ACTION_CHANGE | ACTION_DELETE

text \<open>The bits of \<open>UpdateFlags\<close>: \<open>F_IS_SNAPSHOT\<close> 1, \<open>F_END_EVENT\<close> 2, \<open>F_NOT_IN_BOOK\<close> 4.\<close>

record UpdateFlags =
  F_IS_SNAPSHOT :: bool
  F_END_EVENT :: bool
  F_NOT_IN_BOOK :: bool

definition F_NONE :: UpdateFlags where
  "F_NONE = \<lparr>F_IS_SNAPSHOT = False, F_END_EVENT = False, F_NOT_IN_BOOK = False\<rparr>"

datatype MDSubscriptionRejectReason = SR_NONE | SR_UNKNOWN_CONTRACT | SR_MARKET_CLOSED

fun to_string_MDSubscriptionRejectReason :: "MDSubscriptionRejectReason \<Rightarrow> string" where
  "to_string_MDSubscriptionRejectReason SR_NONE = ''NONE''"
| "to_string_MDSubscriptionRejectReason SR_UNKNOWN_CONTRACT = ''UNKNOWN_CONTRACT''"
| "to_string_MDSubscriptionRejectReason SR_MARKET_CLOSED = ''MARKET_CLOSED''"

section \<open>Orders\<close>

record OrderIdentity =
  symbol :: string
  user_id :: string
  client_order_id :: string
  order_id :: string

record Order = OrderIdentity +
  id_num :: order_num
  priority :: nat
  request_tag :: nat
  side :: Side
  otype :: OrderType
  status :: OrderStatus
  time_in_force :: TimeInForce
  product_type :: ProductType
  post_only :: bool
  pending_cancel :: bool
  size_in_quote :: bool
  price :: price_t
  quantity :: qty_t
  leaves_quantity :: qty_t
  avg_fill_price :: price_t
  cum_quantity :: qty_t
  cum_value :: int
  last_fill_price :: price_t
  last_fill_qty :: qty_t
  num_fills :: nat
  client_id :: int
  created_time :: time_ns
  last_update_time :: time_ns
  last_fill_time :: "time_ns option"
  end_time :: string
  reject_message :: string
  cancel_message :: string

text \<open>The default member initialisers; the pool's memory starts as these. The clock is not read here.\<close>

definition default_order :: Order where
  "default_order = \<lparr>
     symbol = [], user_id = [], client_order_id = [], order_id = [],
     id_num = 0, priority = 0, request_tag = 0,
     side = BUY, otype = OT_MARKET, status = OS_NEW, time_in_force = TIF_DAY, product_type = PT_UNKNOWN,
     post_only = False, pending_cancel = False, size_in_quote = False,
     price = 0, quantity = 0, leaves_quantity = 0, avg_fill_price = 0, cum_quantity = 0, cum_value = 0,
     last_fill_price = 0, last_fill_qty = 0, num_fills = 0,
     client_id = -1, created_time = 0, last_update_time = 0, last_fill_time = None,
     end_time = [], reject_message = [], cancel_message = []\<rparr>"

definition resetFillAccounting :: "qty_t \<Rightarrow> Order \<Rightarrow> Order" where
  "resetFillAccounting new_qty order = order\<lparr>
     quantity := new_qty,
     leaves_quantity := new_qty,
     avg_fill_price := 0,
     cum_quantity := 0,
     cum_value := 0,
     last_fill_price := 0,
     last_fill_qty := 0,
     num_fills := 0,
     last_fill_time := None\<rparr>"

definition restsRemainder :: "Order \<Rightarrow> bool" where
  "restsRemainder order \<longleftrightarrow>
     price order \<noteq> NULL_PRICE \<and>
     (time_in_force order = TIF_DAY \<or> time_in_force order = TIF_GOOD_TILL_CANCEL \<or>
      time_in_force order = TIF_GOOD_TILL_DATE)"

text \<open>
  \<open>utils/order.hpp\<close>: one fill. \<open>cum_value\<close> is an unsigned 128-bit accumulator, so the
  product is added modulo \<open>2^128\<close>; the average is the integer quotient.
  The assertions (a fill is positive and not more than what is open) are not branches; every fill of the engines
  meets them, which is what keeps \<open>acct_ok\<close>.
\<close>

definition executeOrder :: "price_t \<Rightarrow> qty_t \<Rightarrow> time_ns \<Rightarrow> Order \<Rightarrow> Order" where
  "executeOrder px executed_quantity timestamp order =
     (let cv = (cum_value order + px * executed_quantity) mod 2 ^ 128;
          cq = cum_quantity order + executed_quantity
      in order\<lparr>
           leaves_quantity := leaves_quantity order - executed_quantity,
           last_update_time := timestamp,
           cum_value := cv,
           cum_quantity := cq,
           avg_fill_price := (if cq > 0 then cv div cq else 0),
           last_fill_price := px,
           last_fill_qty := executed_quantity,
           last_fill_time := Some timestamp,
           num_fills := num_fills order + 1\<rparr>)"

section \<open>Requests and responses\<close>

record AddOrderMessage =
  ao_user_id :: string
  ao_client_order_id :: string
  ao_side :: Side
  ao_type :: OrderType
  ao_time_in_force :: TimeInForce
  ao_price :: price_t
  ao_qty :: qty_t

record ModifyOrderMessage =
  mo_user_id :: string
  mo_order_id :: string
  mo_client_order_id :: string
  mo_new_price :: price_t
  mo_new_qty :: qty_t

record CancelOrderMessage =
  co_user_id :: string
  co_order_id :: string
  co_client_order_id :: string

text \<open>The union of \<open>Request\<close>, tagged by \<open>msg_type\<close>.\<close>

datatype RequestBody =
  NEW_ORDER_SINGLE AddOrderMessage
| ORDER_REPLACE_REQUEST ModifyOrderMessage
| ORDER_CANCEL_REQUEST CancelOrderMessage
| MD_SUBSCRIPTION nat
| MD_UNSUBSCRIPTION nat
| OTHER_REQUEST MessageType

record Request =
  time_stamp :: time_ns
  req_symbol :: string
  req_request_tag :: nat
  body :: RequestBody

record OrderResponse =
  r_symbol :: string
  r_user_id :: string
  r_client_order_id :: string
  r_order_id :: string
  r_error_message :: string
  r_response_type :: MessageType
  r_exec_type :: ExecType
  r_order_status :: OrderStatus
  r_order_type :: OrderType
  r_time_in_force :: TimeInForce
  r_price :: price_t
  r_last_fill_price :: price_t
  r_avg_fill_price :: price_t
  r_qty :: qty_t
  r_last_qty :: qty_t
  r_cum_qty :: qty_t
  r_leaves_qty :: qty_t
  r_reject_reason :: OrdRejectReason
  r_creation_time :: time_ns
  r_request_time :: time_ns
  r_timestamp :: time_ns
  r_side :: Side
  r_post_only :: bool
  r_order_num :: order_num
  r_request_tag :: nat
  r_aggressor :: bool

text \<open>
  Responses are written into slots of a queue that recycles them, so every writer starts
  from the content the slot already has and overwrites some of its fields.
\<close>

definition setOrderIdentity :: "Order \<Rightarrow> OrderResponse \<Rightarrow> OrderResponse" where
  "setOrderIdentity order response = response\<lparr>
     r_symbol := symbol order,
     r_user_id := user_id order,
     r_client_order_id := client_order_id order,
     r_order_id := order_id order,
     r_order_num := id_num order,
     r_request_tag := request_tag order,
     r_aggressor := False\<rparr>"

record Trade =
  t_order_id :: order_num
  t_qty :: qty_t

record TradeSummaryInfo =
  ts_timestamp :: time_ns
  ts_trade_id :: nat
  ts_aggressor_side :: Side
  ts_price :: price_t
  ts_qty :: qty_t
  ts_phantom_qty :: qty_t
  ts_num_orders :: nat
  ts_Trades :: "Trade list"

section \<open>Market data rows\<close>

record MDLevel =
  ml_event_time :: time_ns
  ml_seq_num :: seq_t
  ml_price :: price_t
  ml_qty :: qty_t
  ml_num_orders :: nat
  ml_level_index :: nat
  ml_update_action :: MDUpdateAction
  ml_flags :: UpdateFlags
  ml_side :: Side

record MDOrder =
  mo_order_num :: order_num
  mo_event_time :: time_ns
  mo_priority :: nat
  mo_price :: price_t
  mo_qty :: qty_t
  mo_side :: Side
  mo_update_action :: MDUpdateAction

record MDTrade =
  mt_trade_id :: nat
  mt_event_time :: time_ns
  mt_seq_num :: seq_t
  mt_price :: price_t
  mt_qty :: qty_t
  mt_flags :: UpdateFlags
  mt_side :: Side

section \<open>Facts\<close>

lemma opposite_side_involutive [simp]: "opposite_side (opposite_side s) = s"
  by (cases s) auto

lemma opposite_side_neq: "s \<noteq> UNKNOWN_SIDE \<Longrightarrow> opposite_side s \<noteq> s"
  by (cases s) auto

lemma opposite_side_known [simp]: "opposite_side s = UNKNOWN_SIDE \<longleftrightarrow> s = UNKNOWN_SIDE"
  by (cases s) auto

text \<open>The accounting of a live order: what is filled and what is left make its total.\<close>

definition acct_ok :: "Order \<Rightarrow> bool" where
  "acct_ok ord \<longleftrightarrow>
     0 \<le> leaves_quantity ord \<and> 0 \<le> cum_quantity ord \<and>
     quantity ord = cum_quantity ord + leaves_quantity ord"

lemma resetFillAccounting_acct: "0 \<le> q \<Longrightarrow> acct_ok (resetFillAccounting q ord)"
  by (simp add: acct_ok_def resetFillAccounting_def)

lemma executeOrder_acct:
  "acct_ok ord \<Longrightarrow> 0 < q \<Longrightarrow> q \<le> leaves_quantity ord \<Longrightarrow> acct_ok (executeOrder px q t ord)"
  by (simp add: acct_ok_def executeOrder_def Let_def)

lemma executeOrder_fields [simp]:
  "leaves_quantity (executeOrder px q t ord) = leaves_quantity ord - q"
  "cum_quantity (executeOrder px q t ord) = cum_quantity ord + q"
  "quantity (executeOrder px q t ord) = quantity ord"
  "price (executeOrder px q t ord) = price ord"
  "side (executeOrder px q t ord) = side ord"
  "id_num (executeOrder px q t ord) = id_num ord"
  "symbol (executeOrder px q t ord) = symbol ord"
  "user_id (executeOrder px q t ord) = user_id ord"
  "client_id (executeOrder px q t ord) = client_id ord"
  "client_order_id (executeOrder px q t ord) = client_order_id ord"
  "order_id (executeOrder px q t ord) = order_id ord"
  "priority (executeOrder px q t ord) = priority ord"
  "time_in_force (executeOrder px q t ord) = time_in_force ord"
  "status (executeOrder px q t ord) = status ord"
  "request_tag (executeOrder px q t ord) = request_tag ord"
  "last_fill_price (executeOrder px q t ord) = px"
  "last_fill_qty (executeOrder px q t ord) = q"
  "num_fills (executeOrder px q t ord) = num_fills ord + 1"
  by (simp_all add: executeOrder_def Let_def)

section \<open>A run of fills\<close>

definition apply_fill :: "time_ns \<Rightarrow> Order \<Rightarrow> price_t \<times> qty_t \<Rightarrow> Order" where
  "apply_fill t ord f = executeOrder (fst f) (snd f) t ord"

definition fills_value :: "(price_t \<times> qty_t) list \<Rightarrow> int" where
  "fills_value fs = (\<Sum>f\<leftarrow>fs. fst f * snd f)"

definition fills_qty :: "(price_t \<times> qty_t) list \<Rightarrow> int" where
  "fills_qty fs = (\<Sum>f\<leftarrow>fs. snd f)"

definition fill_in_range :: "price_t \<Rightarrow> price_t \<Rightarrow> price_t \<times> qty_t \<Rightarrow> bool" where
  "fill_in_range lo hi f \<longleftrightarrow> lo \<le> fst f \<and> fst f \<le> hi \<and> 0 < snd f"

lemma fills_simps [simp]:
  "fills_value [] = 0" "fills_value (f # fs) = fst f * snd f + fills_value fs"
  "fills_qty [] = 0" "fills_qty (f # fs) = snd f + fills_qty fs"
  by (simp_all add: fills_value_def fills_qty_def)

lemma fills_snoc [simp]:
  "fills_value (fs @ [f]) = fills_value fs + fst f * snd f"
  "fills_qty (fs @ [f]) = fills_qty fs + snd f"
  by (simp_all add: fills_value_def fills_qty_def)

lemma fills_value_bounds:
  "list_all (fill_in_range lo hi) fs \<Longrightarrow>
   0 \<le> fills_qty fs \<and> lo * fills_qty fs \<le> fills_value fs \<and> fills_value fs \<le> hi * fills_qty fs"
proof (induction fs)
  case (Cons f fs)
  then have "0 < snd f" "lo \<le> fst f" "fst f \<le> hi" by (auto simp: fill_in_range_def)
  then have "lo * snd f \<le> fst f * snd f" "fst f * snd f \<le> hi * snd f"
    by (auto intro: mult_right_mono)
  moreover have "lo * fills_qty fs \<le> fills_value fs" "fills_value fs \<le> hi * fills_qty fs" "0 \<le> fills_qty fs"
    using Cons by auto
  ultimately show ?case using \<open>0 < snd f\<close> by (simp add: distrib_left add_mono)
qed simp

lemma fills_value_fits:
  assumes "list_all (fill_in_range lo hi) fs" and "0 \<le> lo" and "hi < 2 ^ 63" and "fills_qty fs < 2 ^ 63"
  shows "0 \<le> fills_value fs" and "fills_value fs < 2 ^ 128"
proof -
  note b = fills_value_bounds [OF assms(1)]
  show "0 \<le> fills_value fs"
    using b assms(2) by (meson order_trans zero_le_mult_iff)
  show "fills_value fs < 2 ^ 128"
  proof (cases "fills_qty fs = 0")
    case True
    then show ?thesis using b by simp
  next
    case False
    then have "hi * fills_qty fs \<le> 2 ^ 63 * 2 ^ 63"
      using b assms(3,4) by (intro mult_mono) auto
    with b have "fills_value fs \<le> 2 ^ 63 * 2 ^ 63" by linarith
    then show ?thesis by simp
  qed
qed

lemma fold_fills_state:
  assumes "list_all (fill_in_range lo hi) fs" and "0 \<le> lo" and "hi < 2 ^ 63" and "fills_qty fs < 2 ^ 63"
    and "cum_value ord = 0" and "cum_quantity ord = 0"
  shows "cum_value (foldl (apply_fill t) ord fs) = fills_value fs \<and>
         cum_quantity (foldl (apply_fill t) ord fs) = fills_qty fs \<and>
         leaves_quantity (foldl (apply_fill t) ord fs) = leaves_quantity ord - fills_qty fs \<and>
         num_fills (foldl (apply_fill t) ord fs) = num_fills ord + length fs \<and>
         (fs \<noteq> [] \<longrightarrow> avg_fill_price (foldl (apply_fill t) ord fs) = fills_value fs div fills_qty fs)"
  using assms(1,4)
proof (induction fs rule: rev_induct)
  case Nil
  then show ?case using assms by simp
next
  case (snoc f fs)
  have pos: "0 < snd f" and all: "list_all (fill_in_range lo hi) fs"
    using snoc.prems(1) by (simp_all add: fill_in_range_def [of lo hi f])
  have "fills_qty fs < 2 ^ 63" using snoc.prems(2) pos by simp
  note IH = snoc.IH [OF all this]
  note fit = fills_value_fits [OF snoc.prems(1) assms(2,3) snoc.prems(2)]
  have "0 \<le> fills_qty fs" using fills_value_bounds [OF all] by simp
  then have "0 < fills_qty fs + snd f" using pos by simp
  with IH fit show ?case
    by (simp add: apply_fill_def executeOrder_def [of "fst f" "snd f"] Let_def)
qed

text \<open>
  Average fill price without drift. Applying any run of fills to an order with fresh
  accounting keeps the exact traded value in the 128-bit accumulator, counts the fills, and
  reports as average price the floor of exact value over filled quantity, which lies between
  the lowest and the highest fill price.
\<close>

theorem avg_fill_price_exact:
  assumes "fs \<noteq> []" and "list_all (fill_in_range lo hi) fs" and "0 \<le> lo" and "hi < 2 ^ 63"
    and "fills_qty fs < 2 ^ 63"
  shows "let o' = foldl (apply_fill t) (resetFillAccounting q ord) fs in
           cum_value o' = fills_value fs \<and> cum_quantity o' = fills_qty fs \<and>
           leaves_quantity o' = q - fills_qty fs \<and> num_fills o' = length fs \<and>
           avg_fill_price o' = fills_value fs div fills_qty fs \<and>
           lo \<le> avg_fill_price o' \<and> avg_fill_price o' \<le> hi"
proof -
  note st = fold_fills_state [OF assms(2-5), of "resetFillAccounting q ord" t]
  note b = fills_value_bounds [OF assms(2)]
  have pos: "0 < fills_qty fs"
    using assms(1,2) by (induction fs) (auto simp: fill_in_range_def dest: fills_value_bounds)
  have "lo \<le> fills_value fs div fills_qty fs"
    using b pos zdiv_mono1 [of "lo * fills_qty fs" "fills_value fs" "fills_qty fs"] by simp
  moreover have "fills_value fs div fills_qty fs \<le> hi"
    using b pos zdiv_mono1 [of "fills_value fs" "hi * fills_qty fs" "fills_qty fs"] by simp
  ultimately show ?thesis
    using st assms(1) by (simp add: resetFillAccounting_def)
qed

theorem avg_fill_price_exact_witness:
  "let fs = [(100, 3), (101, 1)] in
     fs \<noteq> [] \<and> list_all (fill_in_range 100 101) fs \<and> fills_qty fs < 2 ^ 63 \<and>
     (\<forall>ord. avg_fill_price (foldl (apply_fill 7) (resetFillAccounting 5 ord) fs) = 100 \<and>
            leaves_quantity (foldl (apply_fill 7) (resetFillAccounting 5 ord) fs) = 1)"
  using avg_fill_price_exact [of "[(100, 3), (101, 1)]" 100 101 7 5]
  by (simp add: fill_in_range_def Let_def)

section \<open>Order-entry sessions\<close>

text \<open>
  The enumerations of \<open>messages.hpp\<close> for order-entry sessions, and the texts of the reasons. A value outside of an
  enumeration, which the code prints as unhandled, has no counterpart here.
\<close>

datatype ExecutionMessageType = EM_UNKNOWN | EM_LOGON_REQUEST | EM_TRADER_LOGON_REQUEST | EM_LOGON_REPLY | EM_LOGON_REJECT | EM_TRADER_LOGON_REPLY | EM_SESSION_REJECT | EM_NEW_ORDER_REQUEST | EM_ORDER_CANCEL_REPLACE_REQUEST | EM_ORDER_CANCEL_REQUEST | EM_ORDER_MASS_STATUS_REQUEST | EM_BUSINESS_REJECT | EM_EXECUTION_REPORT | EM_ORDER_CANCEL_REJECT | EM_ORDER_CANCEL_REPLACE_REJECT | EM_HEARTBEAT | EM_NEWS | EM_RETRANSMIT_REQUEST | EM_RETRANSMIT_RESPONSE

datatype BusinessRejectReason = BR_UNKNOWN | BR_UNKNOWN_SECURITY_ID | BR_DUPLICATE_REQUEST_ID

datatype SessionRejectReason = SE_NONE | SE_ALREADY_LOGGED_IN | SE_NOT_LOGGED_IN | SE_INVALID_SESSION_ID | SE_UNKNOWN

datatype CxlRejectReason = CR_NONE | CR_UNKNOWN | CR_MARKET_CLOSED | CR_MARKET_HALTED | CR_PREOPEN | CR_ORDER_NOT_FOUND | CR_INVALID_DISPLAY_QTY | CR_ICEBERG_REQUEST_ON_NON_ICEBERG | CR_NON_ICEBERG_REQUEST_ON_ICEBERG | CR_ORDER_TYPE_MISMATCH | CR_TIME_IN_FORCE_MISMATCH | CR_PRICE_CANT_BE_BELOW_STOP_PRICE | CR_PRICE_CANT_BE_ABOVE_STOP_PRICE | CR_STOP_PRICE_MUST_BE_BELOW_LAST_TRADE_PRICE | CR_STOP_PRICE_MUST_BE_ABOVE_LAST_TRADE_PRICE | CR_INVALID_TICK_SIZE | CR_INVALID_QTY | CR_INVALID_MIN_QTY | CR_INTERCEPTED

fun to_string_BusinessRejectReason :: "BusinessRejectReason \<Rightarrow> string" where
  "to_string_BusinessRejectReason BR_UNKNOWN = ''UNKNOWN''"
| "to_string_BusinessRejectReason BR_UNKNOWN_SECURITY_ID = ''UNKNOWN_SECURITY_ID''"
| "to_string_BusinessRejectReason BR_DUPLICATE_REQUEST_ID = ''DUPLICATE_REQUEST_ID''"

fun to_string_SessionRejectReason :: "SessionRejectReason \<Rightarrow> string" where
  "to_string_SessionRejectReason SE_NONE = ''NONE''"
| "to_string_SessionRejectReason SE_ALREADY_LOGGED_IN = ''ALREADY_LOGGED_IN''"
| "to_string_SessionRejectReason SE_NOT_LOGGED_IN = ''NOT_LOGGED_IN''"
| "to_string_SessionRejectReason SE_INVALID_SESSION_ID = ''INVALID_SESSION_ID''"
| "to_string_SessionRejectReason SE_UNKNOWN = ''UNKNOWN''"

fun to_string_CxlRejectReason :: "CxlRejectReason \<Rightarrow> string" where
  "to_string_CxlRejectReason CR_NONE = ''NONE''"
| "to_string_CxlRejectReason CR_UNKNOWN = ''UNKNOWN''"
| "to_string_CxlRejectReason CR_MARKET_CLOSED = ''MARKET_CLOSED''"
| "to_string_CxlRejectReason CR_MARKET_HALTED = ''MARKET_HALTED''"
| "to_string_CxlRejectReason CR_PREOPEN = ''PREOPEN''"
| "to_string_CxlRejectReason CR_ORDER_NOT_FOUND = ''ORDER_NOT_FOUND''"
| "to_string_CxlRejectReason CR_INVALID_DISPLAY_QTY = ''INVALID_DISPLAY_QTY''"
| "to_string_CxlRejectReason CR_ICEBERG_REQUEST_ON_NON_ICEBERG = ''ICEBERG_REQUEST_ON_NON_ICEBERG''"
| "to_string_CxlRejectReason CR_NON_ICEBERG_REQUEST_ON_ICEBERG = ''NON_ICEBERG_REQUEST_ON_ICEBERG''"
| "to_string_CxlRejectReason CR_ORDER_TYPE_MISMATCH = ''ORDER_TYPE_MISMATCH''"
| "to_string_CxlRejectReason CR_TIME_IN_FORCE_MISMATCH = ''TIME_IN_FORCE_MISMATCH''"
| "to_string_CxlRejectReason CR_PRICE_CANT_BE_BELOW_STOP_PRICE = ''PRICE_CANT_BE_BELOW_STOP_PRICE''"
| "to_string_CxlRejectReason CR_PRICE_CANT_BE_ABOVE_STOP_PRICE = ''PRICE_CANT_BE_ABOVE_STOP_PRICE''"
| "to_string_CxlRejectReason CR_STOP_PRICE_MUST_BE_BELOW_LAST_TRADE_PRICE = ''STOP_PRICE_MUST_BE_BELOW_LAST_TRADE_PRICE''"
| "to_string_CxlRejectReason CR_STOP_PRICE_MUST_BE_ABOVE_LAST_TRADE_PRICE = ''STOP_PRICE_MUST_BE_ABOVE_LAST_TRADE_PRICE''"
| "to_string_CxlRejectReason CR_INVALID_TICK_SIZE = ''INVALID_TICK_SIZE''"
| "to_string_CxlRejectReason CR_INVALID_QTY = ''INVALID_QTY''"
| "to_string_CxlRejectReason CR_INVALID_MIN_QTY = ''INVALID_MIN_QTY''"
| "to_string_CxlRejectReason CR_INTERCEPTED = ''INTERCEPTED''"

text \<open>A reason can be told from its text.\<close>

theorem reason_texts_distinct:
  "to_string_BusinessRejectReason b = to_string_BusinessRejectReason b' \<longleftrightarrow> b = b'"
  "to_string_SessionRejectReason s = to_string_SessionRejectReason s' \<longleftrightarrow> s = s'"
proof -
  show "to_string_BusinessRejectReason b = to_string_BusinessRejectReason b' \<longleftrightarrow> b = b'" by (cases b; cases b'; simp)
  show "to_string_SessionRejectReason s = to_string_SessionRejectReason s' \<longleftrightarrow> s = s'" by (cases s; cases s'; simp)
qed

lemma cxl_text_inj: "inj to_string_CxlRejectReason"
proof (rule injI)
  fix c c' assume "to_string_CxlRejectReason c = to_string_CxlRejectReason c'"
  then show "c = c'" by (cases c; cases c'; simp)
qed

end
