(* ===== verification/Fixed_Point.thy ===== *)
theory Fixed_Point
  imports Sim_Order
begin

text \<open>
  The small arithmetic helpers: \<open>src/src/utils/price.hpp\<close>, \<open>decimal.hpp\<close> and
  \<open>math.hpp\<close>.
\<close>

section \<open>Price comparisons\<close>

definition isPriceBetter :: "Side \<Rightarrow> price_t \<Rightarrow> price_t \<Rightarrow> bool" where
  "isPriceBetter s a b = (if s = BUY then a > b else a < b)"

definition isPriceBetterOrEqual :: "Side \<Rightarrow> price_t \<Rightarrow> price_t \<Rightarrow> bool" where
  "isPriceBetterOrEqual s a b = (if s = BUY then a \<ge> b else a \<le> b)"

lemma isPriceBetterOrEqual_iff: "isPriceBetterOrEqual s a b \<longleftrightarrow> \<not> isPriceBetter s b a"
  by (simp add: isPriceBetter_def isPriceBetterOrEqual_def not_less)

lemma isPriceBetter_trans: "isPriceBetter s a b \<Longrightarrow> isPriceBetter s b c \<Longrightarrow> isPriceBetter s a c"
  by (auto simp: isPriceBetter_def split: if_splits)

lemma isPriceBetter_irrefl [simp]: "\<not> isPriceBetter s a a"
  by (simp add: isPriceBetter_def)

lemma isPriceBetter_total: "a \<noteq> b \<Longrightarrow> isPriceBetter s a b \<or> isPriceBetter s b a"
  by (auto simp: isPriceBetter_def)

section \<open>Exponent -9 decimals\<close>

definition DECIMAL9_PER_FIXED :: int where
  "DECIMAL9_PER_FIXED = 1000000000 div int DOUBLE_MULTIPLIER"

text \<open>C++ division and remainder truncate towards zero.\<close>

definition from_decimal9 :: "int \<Rightarrow> int option" where
  "from_decimal9 mantissa =
     (if mantissa smod DECIMAL9_PER_FIXED \<noteq> 0 then None else Some (mantissa sdiv DECIMAL9_PER_FIXED))"

text \<open>The multiplication; \<open>None\<close> is the signed overflow the source rules out.\<close>

definition to_decimal9 :: "int \<Rightarrow> int option" where
  "to_decimal9 fixed =
     (if int64_ok (fixed * DECIMAL9_PER_FIXED) then Some (fixed * DECIMAL9_PER_FIXED) else None)"

section \<open>Wide multiplication and division\<close>

definition mul_div_floor :: "64 word \<Rightarrow> 64 word \<Rightarrow> 64 word \<Rightarrow> 64 word" where
  "mul_div_floor a b c = ucast ((ucast a * ucast b :: 128 word) div ucast c)"

section \<open>Facts\<close>

lemma DECIMAL9_PER_FIXED_eq [simp]: "DECIMAL9_PER_FIXED = 10"
  by (simp add: DECIMAL9_PER_FIXED_def DOUBLE_MULTIPLIER_def)

lemma smod_10_zero_iff: "m smod 10 = 0 \<longleftrightarrow> (10 :: int) dvd m"
  by (simp add: signed_modulo_int_def signed_divide_int_def sgn_if dvd_eq_mod_eq_0) presburger

lemma sdiv_10_exact: "(x * 10) sdiv (10 :: int) = x"
proof -
  have "\<bar>x * 10\<bar> div \<bar>10\<bar> = \<bar>x\<bar>" by (simp add: abs_mult)
  then show ?thesis by (simp add: signed_divide_int_def sgn_mult)
       (simp add: mult_sgn_abs)
qed

text \<open>
  The exponent -9 conversions are inverse to each other: a fixed-point value whose
  mantissa fits 64 bits survives the wire, a mantissa is accepted exactly when it is a whole
  number of fixed-point ticks, and an accepted mantissa is the one its value encodes to.
\<close>

theorem decimal9_roundtrip:
  "(int64_ok (x * 10) \<longrightarrow> Option.bind (to_decimal9 x) from_decimal9 = Some x) \<and>
   ((from_decimal9 m \<noteq> None) = (10 dvd m)) \<and>
   (int64_ok m \<longrightarrow> from_decimal9 m = Some y \<longrightarrow> to_decimal9 y = Some m)"
proof (intro conjI impI)
  assume "int64_ok (x * 10)"
  then show "Option.bind (to_decimal9 x) from_decimal9 = Some x"
    by (simp add: to_decimal9_def from_decimal9_def smod_10_zero_iff sdiv_10_exact)
next
  show "(from_decimal9 m \<noteq> None) = (10 dvd m)"
    by (simp add: from_decimal9_def smod_10_zero_iff)
next
  assume ok: "int64_ok m" and "from_decimal9 m = Some y"
  then obtain k where m: "m = k * 10" and y: "y = m sdiv 10"
    by (auto simp: from_decimal9_def smod_10_zero_iff mult.commute elim!: dvdE split: if_splits)
  then have "y = k" by (simp add: sdiv_10_exact)
  with ok m show "to_decimal9 y = Some m" by (simp add: to_decimal9_def)
qed

theorem decimal9_roundtrip_witness:
  "int64_ok (-7 * 10) \<and> Option.bind (to_decimal9 (-7)) from_decimal9 = Some (-7) \<and>
   from_decimal9 15 = None"
  using decimal9_roundtrip [of "-7" 15 0] by (auto simp: int64_ok_def)

lemma ucast_64_128_unat: "unat (ucast (a :: 64 word) :: 128 word) = unat a"
  by (simp add: unsigned_ucast_eq take_bit_nat_eq_self_iff order_less_trans [OF unsigned_less])

lemma mul_div_floor_nat:
  assumes "c \<noteq> 0" and "b \<le> c"
  shows "unat (mul_div_floor a b c) = unat a * unat b div unat c" and "unat a * unat b div unat c \<le> unat a"
proof -
  have "unat a * unat b < 2 ^ 64 * 2 ^ 64"
    using unsigned_less [of a] unsigned_less [of b] by (intro mult_strict_mono) auto
  then have prod: "unat (ucast a * ucast b :: 128 word) = unat a * unat b"
    by (subst unat_mult_lem [THEN iffD1]) (simp_all add: ucast_64_128_unat)
  have q: "unat ((ucast a * ucast b :: 128 word) div ucast c) = unat a * unat b div unat c"
    by (simp add: unat_div prod ucast_64_128_unat)
  have cpos: "0 < unat c" using assms(1) by (simp add: unat_gt_0)
  have "unat b \<le> unat c" using assms(2) by (simp add: word_le_nat_alt)
  then have "unat a * unat b div unat c \<le> unat a * unat c div unat c"
    by (intro div_le_mono) simp
  with cpos show le: "unat a * unat b div unat c \<le> unat a" by simp
  then have "unat a * unat b div unat c < 2 ^ LENGTH(64)"
    using order_le_less_trans [OF le unsigned_less] by simp
  then show "unat (mul_div_floor a b c) = unat a * unat b div unat c"
    unfolding mul_div_floor_def unsigned_ucast_eq q by (simp add: take_bit_nat_eq_self_iff)
qed

text \<open>
  The 128-bit product is exact and the quotient fits: with \<open>b \<le> c\<close> and \<open>c\<close> not zero,
  \<open>mul_div_floor\<close> is the floor of \<open>a * b / c\<close> over the integers, and at most \<open>a\<close>.
\<close>

theorem mul_div_floor_exact:
  assumes "c \<noteq> 0" and "b \<le> c"
  shows "unat (mul_div_floor a b c) = unat a * unat b div unat c \<and> mul_div_floor a b c \<le> a"
  using mul_div_floor_nat [OF assms, of a] by (simp add: word_le_nat_alt)

theorem mul_div_floor_exact_witness:
  "unat (mul_div_floor 1000000000000000000 70 100) = 700000000000000000"
  using mul_div_floor_exact [of 100 70 1000000000000000000] by simp

end
