(* ===== verification/L3_Contract.thy ===== *)
theory L3_Contract
  imports Fixed_Point
begin

text \<open>
  The order-by-order book \<open>OrderBookL3\<close> of the slick-orderbook library. Its code is not
  part of the repository, so it is a parameter of the model: a record \<open>l3_ops\<close> of the
  operations the repository calls. The locale \<open>l3_book\<close> states the behaviour the repository
  relies on, as its comments and \<open>docs/order-book.md\<close> document it: levels best price first,
  a level's queue sorted by priority, a priority of 0 read as the timestamp, a mutation whose
  sequence regresses discarded, the notifications of each mutation, and a \<open>clear\<close> that keeps
  the last sequence number.
\<close>

section \<open>What the book shows\<close>

record l3_order =
  lo_id :: order_num
  lo_qty :: qty_t
  lo_prio :: nat

record l3_level =
  lv_price :: price_t
  lv_orders :: "l3_order list"
  lv_total :: qty_t

record OrderUpdate =
  ou_order_id :: order_num
  ou_side :: Side
  ou_price :: price_t
  ou_quantity :: qty_t
  ou_old_price :: price_t
  ou_old_qty :: qty_t
  ou_priority :: nat
  ou_timestamp :: time_ns

record PriceLevelUpdate =
  pu_side :: Side
  pu_price :: price_t
  pu_quantity :: qty_t
  pu_num_orders :: nat
  pu_level_index :: nat
  pu_timestamp :: time_ns
  pu_seq_num :: seq_t
  pu_last_in_batch :: bool

datatype l3_note = OrderNote OrderUpdate | LevelNote PriceLevelUpdate

type_synonym 'l l3_result = "bool \<times> 'l \<times> l3_note list"

text \<open>
  The operations, in the order: \<open>getLevelsL3\<close>, \<open>getBestLevel\<close>, \<open>getLevel\<close>, \<open>findOrder\<close>,
  \<open>getLastSeqNum\<close>; \<open>addOrder\<close> (id, side, price, quantity, timestamp, priority, sequence, last
  in batch), \<open>modifyOrder\<close> (id, price, quantity, timestamp, priority, sequence, last in
  batch), \<open>deleteOrder\<close> (id, timestamp, sequence, last in batch), \<open>executeOrder\<close> (id,
  quantity, timestamp, sequence, last in batch) and \<open>clear\<close>.
\<close>

record 'l l3_ops =
  l3_levels :: "'l \<Rightarrow> Side \<Rightarrow> l3_level list"
  l3_best :: "'l \<Rightarrow> Side \<Rightarrow> l3_level option"
  l3_level_at :: "'l \<Rightarrow> Side \<Rightarrow> price_t \<Rightarrow> (l3_level \<times> nat) option"
  l3_find :: "'l \<Rightarrow> order_num \<Rightarrow> l3_order option"
  l3_last_seq :: "'l \<Rightarrow> seq_t"
  l3_add :: "'l \<Rightarrow> order_num \<Rightarrow> Side \<Rightarrow> price_t \<Rightarrow> qty_t \<Rightarrow> time_ns \<Rightarrow> nat \<Rightarrow> seq_t \<Rightarrow> bool \<Rightarrow> 'l l3_result"
  l3_modify :: "'l \<Rightarrow> order_num \<Rightarrow> price_t \<Rightarrow> qty_t \<Rightarrow> time_ns \<Rightarrow> nat \<Rightarrow> seq_t \<Rightarrow> bool \<Rightarrow> 'l l3_result"
  l3_delete :: "'l \<Rightarrow> order_num \<Rightarrow> time_ns \<Rightarrow> seq_t \<Rightarrow> bool \<Rightarrow> 'l l3_result"
  l3_execute :: "'l \<Rightarrow> order_num \<Rightarrow> qty_t \<Rightarrow> time_ns \<Rightarrow> seq_t \<Rightarrow> bool \<Rightarrow> 'l l3_result"
  l3_clear :: "'l \<Rightarrow> 'l"

section \<open>The queue view\<close>

text \<open>
  One side of the book as a single queue in matching order: best level first, and each
  level's orders in their order.
\<close>

record entry =
  en_price :: price_t
  en_id :: order_num
  en_qty :: qty_t
  en_prio :: nat

definition entry_of :: "price_t \<Rightarrow> l3_order \<Rightarrow> entry" where
  "entry_of p od = \<lparr>en_price = p, en_id = lo_id od, en_qty = lo_qty od, en_prio = lo_prio od\<rparr>"

definition order_of :: "entry \<Rightarrow> l3_order" where
  "order_of e = \<lparr>lo_id = en_id e, lo_qty = en_qty e, lo_prio = en_prio e\<rparr>"

definition flat :: "l3_level list \<Rightarrow> entry list" where
  "flat ls = concat (map (\<lambda>l. map (entry_of (lv_price l)) (lv_orders l)) ls)"

definition level_wf :: "l3_level \<Rightarrow> bool" where
  "level_wf l \<longleftrightarrow> lv_orders l \<noteq> [] \<and> lv_total l = (\<Sum>od\<leftarrow>lv_orders l. lo_qty od) \<and>
     list_all (\<lambda>od. 0 < lo_qty od) (lv_orders l) \<and>
     sorted_wrt (\<lambda>x y. lo_prio x \<le> lo_prio y) (lv_orders l)"

definition levels_wf :: "Side \<Rightarrow> l3_level list \<Rightarrow> bool" where
  "levels_wf s ls \<longleftrightarrow>
     sorted_wrt (\<lambda>a b. isPriceBetter s (lv_price a) (lv_price b)) ls \<and> list_all level_wf ls"

definition before :: "Side \<Rightarrow> entry \<Rightarrow> entry \<Rightarrow> bool" where
  "before s x y \<longleftrightarrow>
     isPriceBetter s (en_price x) (en_price y) \<or> en_price x = en_price y \<and> en_prio x \<le> en_prio y"

definition insert_entry :: "Side \<Rightarrow> entry \<Rightarrow> entry list \<Rightarrow> entry list" where
  "insert_entry s e es = takeWhile (\<lambda>x. before s x e) es @ [e] @ dropWhile (\<lambda>x. before s x e) es"

definition remove_entry :: "order_num \<Rightarrow> entry list \<Rightarrow> entry list" where
  "remove_entry i es = filter (\<lambda>e. en_id e \<noteq> i) es"

definition resize_entry :: "order_num \<Rightarrow> qty_t \<Rightarrow> entry list \<Rightarrow> entry list" where
  "resize_entry i q es =
     (if q \<le> 0 then remove_entry i es
      else map (\<lambda>e. if en_id e = i then e\<lparr>en_qty := q\<rparr> else e) es)"

definition eff_prio :: "nat \<Rightarrow> time_ns \<Rightarrow> nat" where
  "eff_prio p t = (if p = 0 then t else p)"

definition qty_at :: "price_t \<Rightarrow> entry list \<Rightarrow> qty_t" where
  "qty_at p es = (\<Sum>e\<leftarrow>filter (\<lambda>e. en_price e = p) es. en_qty e)"

definition order_notes :: "l3_note list \<Rightarrow> OrderUpdate list" where
  "order_notes ns = concat (map (\<lambda>n. case n of OrderNote u \<Rightarrow> [u] | LevelNote _ \<Rightarrow> []) ns)"

definition level_notes :: "l3_note list \<Rightarrow> PriceLevelUpdate list" where
  "level_notes ns = concat (map (\<lambda>n. case n of OrderNote _ \<Rightarrow> [] | LevelNote u \<Rightarrow> [u]) ns)"

definition entry_note :: "Side \<Rightarrow> entry \<Rightarrow> price_t \<Rightarrow> qty_t \<Rightarrow> nat \<Rightarrow> time_ns \<Rightarrow> OrderUpdate" where
  "entry_note s e new_price new_qty new_prio t =
     \<lparr>ou_order_id = en_id e, ou_side = s, ou_price = new_price, ou_quantity = new_qty,
      ou_old_price = en_price e, ou_old_qty = en_qty e, ou_priority = new_prio, ou_timestamp = t\<rparr>"

definition next_seq :: "seq_t \<Rightarrow> seq_t \<Rightarrow> seq_t" where
  "next_seq old seq = (if seq = 0 then old else seq)"

definition real_side :: "Side \<Rightarrow> bool" where
  "real_side s \<longleftrightarrow> s = BUY \<or> s = SELL"

text \<open>What a mutation of side \<open>s\<close> leaves: the new queue there, the other side as it was.\<close>

definition l3_step :: "('l, 'z) l3_ops_scheme \<Rightarrow> ('l \<Rightarrow> bool) \<Rightarrow> 'l \<Rightarrow> seq_t \<Rightarrow> Side \<Rightarrow> entry list \<Rightarrow>
    OrderUpdate list \<Rightarrow> 'l l3_result \<Rightarrow> bool" where
  "l3_step L binv b seq s es' ous r \<longleftrightarrow>
     (case r of (ok, b', ns) \<Rightarrow>
        ok \<and> binv b' \<and> flat (l3_levels L b' s) = es' \<and>
        l3_levels L b' (opposite_side s) = l3_levels L b (opposite_side s) \<and>
        l3_last_seq L b' = next_seq (l3_last_seq L b) seq \<and> order_notes ns = ous)"

section \<open>The contract\<close>

locale l3_book =
  fixes L :: "'l l3_ops" and binv :: "'l \<Rightarrow> bool"
  assumes levels_ok: "binv b \<Longrightarrow> real_side s \<Longrightarrow> levels_wf s (l3_levels L b s)"
    and ids_distinct: "binv b \<Longrightarrow>
      distinct (map en_id (flat (l3_levels L b BUY) @ flat (l3_levels L b SELL)))"
    and best_law: "binv b \<Longrightarrow> real_side s \<Longrightarrow>
      l3_best L b s = (case l3_levels L b s of [] \<Rightarrow> None | l # _ \<Rightarrow> Some l)"
    and level_at_law: "binv b \<Longrightarrow> real_side s \<Longrightarrow>
      map_option fst (l3_level_at L b s p) = find (\<lambda>l. lv_price l = p) (l3_levels L b s)"
    and find_law: "binv b \<Longrightarrow>
      l3_find L b i = map_option order_of
        (find (\<lambda>e. en_id e = i) (flat (l3_levels L b BUY) @ flat (l3_levels L b SELL)))"
    and execute_law: "binv b \<Longrightarrow> real_side s \<Longrightarrow> seq = 0 \<or> l3_last_seq L b \<le> seq \<Longrightarrow>
      e \<in> set (flat (l3_levels L b s)) \<Longrightarrow> 0 < q \<Longrightarrow> q \<le> en_qty e \<Longrightarrow>
      l3_step L binv b seq s (resize_entry (en_id e) (en_qty e - q) (flat (l3_levels L b s)))
        [entry_note s e (en_price e) (en_qty e - q) (en_prio e) t]
        (l3_execute L b (en_id e) q t seq lb)"
    and delete_law: "binv b \<Longrightarrow> real_side s \<Longrightarrow> seq = 0 \<or> l3_last_seq L b \<le> seq \<Longrightarrow>
      e \<in> set (flat (l3_levels L b s)) \<Longrightarrow>
      l3_step L binv b seq s (remove_entry (en_id e) (flat (l3_levels L b s)))
        [entry_note s e (en_price e) 0 (en_prio e) t] (l3_delete L b (en_id e) t seq lb)"
    and delete_absent: "binv b \<Longrightarrow>
      i \<notin> en_id ` set (flat (l3_levels L b BUY) @ flat (l3_levels L b SELL)) \<Longrightarrow>
      l3_delete L b i t seq lb = (False, b, [])"
    and add_law: "binv b \<Longrightarrow> real_side s \<Longrightarrow> seq = 0 \<or> l3_last_seq L b \<le> seq \<Longrightarrow>
      i \<notin> en_id ` set (flat (l3_levels L b BUY) @ flat (l3_levels L b SELL)) \<Longrightarrow> 0 < q \<Longrightarrow>
      l3_step L binv b seq s
        (insert_entry s \<lparr>en_price = p, en_id = i, en_qty = q, en_prio = eff_prio prio t\<rparr>
          (flat (l3_levels L b s)))
        [\<lparr>ou_order_id = i, ou_side = s, ou_price = p, ou_quantity = q, ou_old_price = 0, ou_old_qty = 0,
          ou_priority = eff_prio prio t, ou_timestamp = t\<rparr>]
        (l3_add L b i s p q t prio seq lb)"
    and add_present: "binv b \<Longrightarrow>
      i \<in> en_id ` set (flat (l3_levels L b BUY) @ flat (l3_levels L b SELL)) \<Longrightarrow>
      l3_add L b i s p q t prio seq lb = (False, b, [])"
    and modify_zero: "binv b \<Longrightarrow>
      l3_modify L b i p 0 t prio seq lb = l3_delete L b i t seq lb"
    and modify_same: "binv b \<Longrightarrow> real_side s \<Longrightarrow> seq = 0 \<or> l3_last_seq L b \<le> seq \<Longrightarrow>
      e \<in> set (flat (l3_levels L b s)) \<Longrightarrow> 0 < q \<Longrightarrow> q \<noteq> en_qty e \<Longrightarrow>
      l3_step L binv b seq s (resize_entry (en_id e) q (flat (l3_levels L b s)))
        [entry_note s e (en_price e) q (en_prio e) t]
        (l3_modify L b (en_id e) (en_price e) q t (en_prio e) seq lb)"
    and modify_noop: "binv b \<Longrightarrow> real_side s \<Longrightarrow> seq = 0 \<or> l3_last_seq L b \<le> seq \<Longrightarrow>
      e \<in> set (flat (l3_levels L b s)) \<Longrightarrow>
      l3_step L binv b seq s (flat (l3_levels L b s)) []
        (l3_modify L b (en_id e) (en_price e) (en_qty e) t (en_prio e) seq lb)"
    and modify_move: "binv b \<Longrightarrow> real_side s \<Longrightarrow> seq = 0 \<or> l3_last_seq L b \<le> seq \<Longrightarrow>
      e \<in> set (flat (l3_levels L b s)) \<Longrightarrow> 0 < q \<Longrightarrow> 0 < prio \<Longrightarrow> p \<noteq> en_price e \<or> prio \<noteq> en_prio e \<Longrightarrow>
      l3_step L binv b seq s
        (insert_entry s \<lparr>en_price = p, en_id = en_id e, en_qty = q, en_prio = prio\<rparr>
          (remove_entry (en_id e) (flat (l3_levels L b s))))
        [entry_note s e p q prio t] (l3_modify L b (en_id e) p q t prio seq lb)"
    and modify_absent: "binv b \<Longrightarrow>
      i \<notin> en_id ` set (flat (l3_levels L b BUY) @ flat (l3_levels L b SELL)) \<Longrightarrow>
      l3_modify L b i p q t prio seq lb = (False, b, [])"
    and stale_law: "binv b \<Longrightarrow> seq \<noteq> 0 \<Longrightarrow> seq < l3_last_seq L b \<Longrightarrow>
      l3_add L b i s p q t prio seq lb = (False, b, []) \<and>
      l3_modify L b i p q t prio seq lb = (False, b, []) \<and>
      l3_delete L b i t seq lb = (False, b, []) \<and>
      l3_execute L b i q t seq lb = (False, b, [])"
    and clear_law: "binv b \<Longrightarrow> binv (l3_clear L b) \<and> l3_levels L (l3_clear L b) BUY = [] \<and>
      l3_levels L (l3_clear L b) SELL = [] \<and> l3_last_seq L (l3_clear L b) = l3_last_seq L b"

section \<open>Facts on the queue view\<close>

lemma entry_of_order_of [simp]: "entry_of (en_price e) (order_of e) = e"
  by (simp add: entry_of_def order_of_def)

lemma entry_of_sel [simp]:
  "en_price (entry_of p od) = p" "en_id (entry_of p od) = lo_id od"
  "en_qty (entry_of p od) = lo_qty od" "en_prio (entry_of p od) = lo_prio od"
  by (simp_all add: entry_of_def)

lemma order_of_sel [simp]:
  "lo_id (order_of e) = en_id e" "lo_qty (order_of e) = en_qty e" "lo_prio (order_of e) = en_prio e"
  by (simp_all add: order_of_def)

lemma flat_simps [simp]:
  "flat [] = []" "flat (l # ls) = map (entry_of (lv_price l)) (lv_orders l) @ flat ls"
  by (simp_all add: flat_def)

lemma flat_level:
  assumes "levels_wf s ls" and "e \<in> set (flat ls)"
  shows "0 < en_qty e"
  using assms by (auto simp: flat_def levels_wf_def list_all_iff level_wf_def)

lemma flat_sorted:
  "levels_wf s ls \<Longrightarrow> sorted_wrt (before s) (flat ls)"
proof (induction ls)
  case (Cons l ls)
  then have "sorted_wrt (before s) (map (entry_of (lv_price l)) (lv_orders l))"
    by (auto simp: levels_wf_def level_wf_def sorted_wrt_map before_def elim: sorted_wrt_mono_rel [rotated])
  moreover have "before s x y" if "x \<in> entry_of (lv_price l) ` set (lv_orders l)" "y \<in> set (flat ls)" for x y
    using that Cons.prems by (auto simp: levels_wf_def flat_def before_def)
  moreover have "sorted_wrt (before s) (flat ls)" using Cons by (simp add: levels_wf_def)
  ultimately show ?case by (auto simp: sorted_wrt_append)
qed simp

lemma remove_entry_simps [simp]:
  "remove_entry i [] = []"
  "remove_entry i (e # es) = (if en_id e = i then remove_entry i es else e # remove_entry i es)"
  by (simp_all add: remove_entry_def)

lemma remove_entry_absent: "i \<notin> en_id ` set es \<Longrightarrow> remove_entry i es = es"
  by (induction es) auto

lemma set_remove_entry: "set (remove_entry i es) = {e \<in> set es. en_id e \<noteq> i}"
  by (auto simp: remove_entry_def)

lemma set_insert_entry [simp]: "set (insert_entry s e es) = insert e (set es)"
  by (auto simp: insert_entry_def dest: set_takeWhileD set_dropWhileD)
    (metis UnE set_append takeWhile_dropWhile_id)

lemma before_linear: "\<not> before s x y \<Longrightarrow> before s y x"
  by (auto simp: before_def isPriceBetter_def)

lemma before_trans: "before s x y \<Longrightarrow> before s y z \<Longrightarrow> before s x z"
  by (auto simp: before_def isPriceBetter_def split: if_splits)

lemma insert_entry_sorted:
  assumes "sorted_wrt (before s) es"
  shows "sorted_wrt (before s) (insert_entry s e es)"
  using assms
proof (induction es)
  case (Cons x es)
  show ?case
  proof (cases "before s x e")
    case True
    then have "insert_entry s e (x # es) = x # insert_entry s e es" by (simp add: insert_entry_def)
    then show ?thesis using Cons True by auto
  next
    case False
    then have "insert_entry s e (x # es) = e # x # es" by (simp add: insert_entry_def)
    moreover have "before s e x" using False by (rule before_linear)
    ultimately show ?thesis
      using Cons.prems by (auto intro: before_trans)
  qed
qed (simp add: insert_entry_def)

section \<open>A reference book\<close>

text \<open>
  A list implementation of the contract: both queues sorted, and the levels read off by
  grouping equal prices. It shows that the laws can hold together and gives the concrete
  examples of the component theories something to run on.
\<close>

record ref_book =
  rf_buy :: "entry list"
  rf_sell :: "entry list"
  rf_seq :: seq_t

definition level_of :: "entry \<Rightarrow> l3_level" where
  "level_of e = \<lparr>lv_price = en_price e, lv_orders = [order_of e], lv_total = en_qty e\<rparr>"

definition push_entry :: "entry \<Rightarrow> l3_level list \<Rightarrow> l3_level list" where
  "push_entry e ls = (case ls of
      [] \<Rightarrow> [level_of e]
    | l # ls' \<Rightarrow>
        if lv_price l = en_price e
        then l\<lparr>lv_orders := order_of e # lv_orders l, lv_total := en_qty e + lv_total l\<rparr> # ls'
        else level_of e # ls)"

definition group_levels :: "entry list \<Rightarrow> l3_level list" where
  "group_levels es = foldr push_entry es []"

fun rf_queue :: "ref_book \<Rightarrow> Side \<Rightarrow> entry list" where
  "rf_queue b BUY = rf_buy b"
| "rf_queue b SELL = rf_sell b"
| "rf_queue b UNKNOWN_SIDE = []"

fun rf_put :: "Side \<Rightarrow> entry list \<Rightarrow> ref_book \<Rightarrow> ref_book" where
  "rf_put BUY es b = b\<lparr>rf_buy := es\<rparr>"
| "rf_put SELL es b = b\<lparr>rf_sell := es\<rparr>"
| "rf_put UNKNOWN_SIDE es b = b"

definition rf_inv :: "ref_book \<Rightarrow> bool" where
  "rf_inv b \<longleftrightarrow>
     sorted_wrt (before BUY) (rf_buy b) \<and> sorted_wrt (before SELL) (rf_sell b) \<and>
     list_all (\<lambda>e. 0 < en_qty e) (rf_buy b @ rf_sell b) \<and> distinct (map en_id (rf_buy b @ rf_sell b))"

definition rf_stale :: "ref_book \<Rightarrow> seq_t \<Rightarrow> bool" where
  "rf_stale b seq \<longleftrightarrow> seq \<noteq> 0 \<and> seq < rf_seq b"

definition rf_locate :: "ref_book \<Rightarrow> order_num \<Rightarrow> (Side \<times> entry) option" where
  "rf_locate b i = (case find (\<lambda>e. en_id e = i) (rf_buy b) of
      Some e \<Rightarrow> Some (BUY, e)
    | None \<Rightarrow> map_option (\<lambda>e. (SELL, e)) (find (\<lambda>e. en_id e = i) (rf_sell b)))"

definition rf_commit ::
    "ref_book \<Rightarrow> Side \<Rightarrow> entry list \<Rightarrow> seq_t \<Rightarrow> OrderUpdate list \<Rightarrow> time_ns \<Rightarrow> price_t \<Rightarrow> bool \<Rightarrow> ref_book l3_result" where
  "rf_commit b s es seq ous t p lb =
     (let b' = (rf_put s es b)\<lparr>rf_seq := next_seq (rf_seq b) seq\<rparr>
      in (True, b', map OrderNote ous @
            [LevelNote \<lparr>pu_side = s, pu_price = p, pu_quantity = qty_at p es,
               pu_num_orders = length (filter (\<lambda>e. en_price e = p) es), pu_level_index = 0,
               pu_timestamp = t, pu_seq_num = seq, pu_last_in_batch = lb\<rparr>]))"

definition rf_add where
  "rf_add b i s p q t prio seq lb =
     (if rf_stale b seq \<or> rf_locate b i \<noteq> None \<or> q \<le> 0 \<or> \<not> real_side s then (False, b, [])
      else rf_commit b s (insert_entry s \<lparr>en_price = p, en_id = i, en_qty = q, en_prio = eff_prio prio t\<rparr> (rf_queue b s))
             seq [\<lparr>ou_order_id = i, ou_side = s, ou_price = p, ou_quantity = q, ou_old_price = 0, ou_old_qty = 0,
                   ou_priority = eff_prio prio t, ou_timestamp = t\<rparr>] t p lb)"

definition rf_delete where
  "rf_delete b i t seq lb = (case rf_locate b i of
      None \<Rightarrow> (False, b, [])
    | Some (s, e) \<Rightarrow>
        if rf_stale b seq then (False, b, [])
        else rf_commit b s (remove_entry i (rf_queue b s)) seq [entry_note s e (en_price e) 0 (en_prio e) t] t (en_price e) lb)"

definition rf_execute where
  "rf_execute b i q t seq lb = (case rf_locate b i of
      None \<Rightarrow> (False, b, [])
    | Some (s, e) \<Rightarrow>
        if rf_stale b seq \<or> q \<le> 0 \<or> en_qty e < q then (False, b, [])
        else rf_commit b s (resize_entry i (en_qty e - q) (rf_queue b s)) seq
               [entry_note s e (en_price e) (en_qty e - q) (en_prio e) t] t (en_price e) lb)"

definition rf_modify where
  "rf_modify b i p q t prio seq lb =
     (if q = 0 then rf_delete b i t seq lb
      else case rf_locate b i of
        None \<Rightarrow> (False, b, [])
      | Some (s, e) \<Rightarrow>
          if rf_stale b seq \<or> q < 0 then (False, b, [])
          else if p = en_price e \<and> prio = en_prio e then
            rf_commit b s (resize_entry i q (rf_queue b s)) seq
              (if q = en_qty e then [] else [entry_note s e p q prio t]) t p lb
          else
            rf_commit b s
              (insert_entry s \<lparr>en_price = p, en_id = i, en_qty = q, en_prio = eff_prio prio t\<rparr>
                (remove_entry i (rf_queue b s))) seq
              [entry_note s e p q (eff_prio prio t) t] t p lb)"

definition rf_ops :: "ref_book l3_ops" where
  "rf_ops = \<lparr>
     l3_levels = (\<lambda>b s. group_levels (rf_queue b s)),
     l3_best = (\<lambda>b s. case group_levels (rf_queue b s) of [] \<Rightarrow> None | l # _ \<Rightarrow> Some l),
     l3_level_at = (\<lambda>b s p. map_option (\<lambda>l. (l, 0)) (find (\<lambda>l. lv_price l = p) (group_levels (rf_queue b s)))),
     l3_find = (\<lambda>b i. map_option (order_of \<circ> snd) (rf_locate b i)),
     l3_last_seq = rf_seq,
     l3_add = rf_add, l3_modify = rf_modify, l3_delete = rf_delete, l3_execute = rf_execute,
     l3_clear = (\<lambda>b. b\<lparr>rf_buy := [], rf_sell := []\<rparr>)\<rparr>"

lemma group_levels_simps [simp]:
  "group_levels [] = []" "group_levels (e # es) = push_entry e (group_levels es)"
  by (simp_all add: group_levels_def)

lemma flat_push_entry [simp]: "flat (push_entry e ls) = e # flat ls"
  by (cases ls) (auto simp: push_entry_def level_of_def)

lemma flat_group_levels [simp]: "flat (group_levels es) = es"
  by (induction es) auto

lemma flat_has_level:
  assumes "list_all level_wf ls" and "l \<in> set ls"
  shows "\<exists>x \<in> set (flat ls). en_price x = lv_price l"
proof -
  have "lv_orders l \<noteq> []" using assms by (auto simp: list_all_iff level_wf_def)
  then have "entry_of (lv_price l) (hd (lv_orders l)) \<in> set (flat ls)"
    using assms(2) by (auto simp: flat_def intro!: bexI [of _ l])
  then show ?thesis by (rule bexI [rotated]) simp
qed

lemma push_entry_wf:
  assumes "levels_wf s ls" and "\<forall>x \<in> set (flat ls). before s e x" and "0 < en_qty e"
  shows "levels_wf s (push_entry e ls)"
proof (cases ls)
  case Nil
  then show ?thesis
    using assms(3) by (simp add: push_entry_def levels_wf_def level_wf_def level_of_def)
next
  case (Cons l ls')
  have wf: "list_all level_wf ls"
    and sorted: "sorted_wrt (\<lambda>a b. isPriceBetter s (lv_price a) (lv_price b)) ls"
    using assms(1) by (simp_all add: levels_wf_def)
  have ahead: "isPriceBetter s (en_price e) (lv_price x) \<or> en_price e = lv_price x" if "x \<in> set ls" for x
    using flat_has_level [OF wf that] assms(2) by (auto simp: before_def)
  show ?thesis
  proof (cases "lv_price l = en_price e")
    case True
    then have "en_prio e \<le> lo_prio od" if "od \<in> set (lv_orders l)" for od
      using bspec [OF assms(2), of "entry_of (lv_price l) od"] that True by (auto simp: Cons before_def)
    then show ?thesis
      using True wf sorted assms(3) Cons by (auto simp: push_entry_def levels_wf_def level_wf_def)
  next
    case False
    then have "isPriceBetter s (en_price e) (lv_price x)" if "x \<in> set ls" for x
      using that ahead [of l] ahead [of x] sorted Cons by (auto intro: isPriceBetter_trans)
    then show ?thesis
      using False wf sorted assms(3) Cons
      by (auto simp: push_entry_def levels_wf_def level_wf_def level_of_def)
  qed
qed

lemma group_levels_wf:
  "sorted_wrt (before s) es \<Longrightarrow> list_all (\<lambda>e. 0 < en_qty e) es \<Longrightarrow> levels_wf s (group_levels es)"
proof (induction es)
  case Nil
  then show ?case by (simp add: levels_wf_def)
next
  case (Cons e es)
  then show ?case by (simp add: push_entry_wf)
qed

lemma rf_queue_put [simp]: "real_side s \<Longrightarrow> rf_queue (rf_put s es b) s = es"
  by (cases s) (auto simp: real_side_def)

lemma rf_queue_put_other [simp]:
  "real_side s \<Longrightarrow> rf_queue (rf_put s es b) (opposite_side s) = rf_queue b (opposite_side s)"
  by (cases s) (auto simp: real_side_def)

lemma rf_queue_seq [simp]: "rf_queue (b\<lparr>rf_seq := n\<rparr>) s = rf_queue b s"
  by (cases s) auto

lemma rf_inv_seq [simp]: "rf_inv (b\<lparr>rf_seq := n\<rparr>) = rf_inv b"
  by (simp add: rf_inv_def)

text \<open>One criterion for every mutation: the new queue of its side is sorted and positive, and brings no foreign id.\<close>

lemma rf_inv_put:
  assumes "rf_inv b" and "real_side s" and "sorted_wrt (before s) es" and "list_all (\<lambda>e. 0 < en_qty e) es"
    and "distinct (map en_id es)" and "en_id ` set es \<inter> en_id ` set (rf_queue b (opposite_side s)) = {}"
  shows "rf_inv (rf_put s es b)"
  using assms by (cases s) (auto simp: rf_inv_def real_side_def Int_commute)

lemma rf_inv_queue:
  assumes "rf_inv b" and "real_side s"
  shows "sorted_wrt (before s) (rf_queue b s)" and "list_all (\<lambda>e. 0 < en_qty e) (rf_queue b s)"
    and "distinct (map en_id (rf_queue b s))"
    and "en_id ` set (rf_queue b s) \<inter> en_id ` set (rf_queue b (opposite_side s)) = {}"
  using assms by (cases s; auto simp: rf_inv_def real_side_def)+

lemma find_id: "distinct (map en_id es) \<Longrightarrow> e \<in> set es \<Longrightarrow> find (\<lambda>x. en_id x = en_id e) es = Some e"
  by (induction es) (auto simp: image_iff)

lemma find_id_none: "find (\<lambda>x. en_id x = i) es = None \<longleftrightarrow> i \<notin> en_id ` set es"
  by (auto simp: find_None_iff)

lemma find_append_option: "find P (xs @ ys) = (case find P xs of Some x \<Rightarrow> Some x | None \<Rightarrow> find P ys)"
  by (induction xs) auto

lemma rf_locate_hit:
  assumes "rf_inv b" and "real_side s" and "e \<in> set (rf_queue b s)"
  shows "rf_locate b (en_id e) = Some (s, e)"
proof (cases s)
  case BUY
  then show ?thesis using assms rf_inv_queue(3) [OF assms(1,2)] by (simp add: rf_locate_def find_id)
next
  case SELL
  then have "en_id e \<notin> en_id ` set (rf_buy b)"
    using rf_inv_queue(4) [OF assms(1,2)] assms(3) by auto
  then show ?thesis
    using SELL assms rf_inv_queue(3) [OF assms(1,2)]
    by (simp add: rf_locate_def find_id find_id_none [THEN iffD2])
qed (use assms in \<open>simp add: real_side_def\<close>)

lemma rf_locate_miss: "rf_locate b i = None \<longleftrightarrow> i \<notin> en_id ` set (rf_buy b @ rf_sell b)"
proof (cases "find (\<lambda>e. en_id e = i) (rf_buy b)")
  case None
  then have "i \<notin> en_id ` set (rf_buy b)" by (rule find_id_none [THEN iffD1])
  then show ?thesis by (simp add: rf_locate_def None find_id_none image_Un)
next
  case (Some e)
  then have "i \<in> en_id ` set (rf_buy b)" by (metis find_id_none option.distinct(1))
  then show ?thesis using Some by (simp add: rf_locate_def image_Un)
qed

lemma sorted_remove_entry: "sorted_wrt R es \<Longrightarrow> sorted_wrt R (remove_entry i es)"
  by (simp add: remove_entry_def sorted_wrt_filter)

lemma sorted_resize_entry: "sorted_wrt (before s) es \<Longrightarrow> sorted_wrt (before s) (resize_entry i q es)"
proof -
  have "before s (if en_id x = i then x\<lparr>en_qty := q\<rparr> else x) (if en_id y = i then y\<lparr>en_qty := q\<rparr> else y) = before s x y"
    for x y by (simp add: before_def)
  then show "sorted_wrt (before s) es \<Longrightarrow> sorted_wrt (before s) (resize_entry i q es)"
    by (simp add: resize_entry_def sorted_remove_entry sorted_wrt_map)
qed

lemma ids_resize_entry: "en_id ` set (resize_entry i q es) \<subseteq> en_id ` set es"
  by (auto simp: resize_entry_def set_remove_entry)

lemma distinct_remove_entry: "distinct (map en_id es) \<Longrightarrow> distinct (map en_id (remove_entry i es))"
  by (induction es) (auto simp: set_remove_entry)

lemma map_id_resize: "0 < q \<Longrightarrow> map en_id (resize_entry i q es) = map en_id es"
  by (auto simp: resize_entry_def)

lemma distinct_resize_entry: "distinct (map en_id es) \<Longrightarrow> distinct (map en_id (resize_entry i q es))"
  by (cases "0 < q") (auto simp: map_id_resize, simp add: resize_entry_def distinct_remove_entry)

lemma pos_remove_entry: "list_all P es \<Longrightarrow> list_all P (remove_entry i es)"
  by (auto simp: list_all_iff set_remove_entry)

lemma pos_resize_entry:
  "list_all (\<lambda>e. 0 < en_qty e) es \<Longrightarrow> list_all (\<lambda>e. 0 < en_qty e) (resize_entry i q es)"
  by (auto simp: resize_entry_def pos_remove_entry) (auto simp: list_all_iff)

lemma distinct_insert_entry:
  assumes "distinct (map en_id es)" and "en_id e \<notin> en_id ` set es"
  shows "distinct (map en_id (insert_entry s e es))"
proof -
  have "distinct (map en_id (takeWhile (\<lambda>x. before s x e) es @ dropWhile (\<lambda>x. before s x e) es))"
    using assms(1) by simp
  then show ?thesis
    using assms(2) unfolding insert_entry_def map_append distinct_append
    by (auto dest: set_takeWhileD set_dropWhileD)
qed

lemma rf_commit_step:
  assumes "rf_inv b" and "real_side s" and "sorted_wrt (before s) es" and "list_all (\<lambda>e. 0 < en_qty e) es"
    and "distinct (map en_id es)" and "en_id ` set es \<inter> en_id ` set (rf_queue b (opposite_side s)) = {}"
  shows "l3_step rf_ops rf_inv b seq s es ous (rf_commit b s es seq ous t p lb)"
proof -
  have "order_notes (map OrderNote us @ [LevelNote u]) = us" for us u
    by (induction us) (auto simp: order_notes_def)
  then show ?thesis
    using rf_inv_put [OF assms] assms(2)
    by (simp add: l3_step_def rf_commit_def Let_def rf_ops_def)
qed

lemma rf_ops_sel [simp]:
  "l3_levels rf_ops b s = group_levels (rf_queue b s)" "l3_last_seq rf_ops b = rf_seq b"
  "l3_add rf_ops = rf_add" "l3_modify rf_ops = rf_modify" "l3_delete rf_ops = rf_delete"
  "l3_execute rf_ops = rf_execute"
  by (simp_all add: rf_ops_def)

lemma rf_fresh: "seq = 0 \<or> rf_seq b \<le> seq \<Longrightarrow> \<not> rf_stale b seq"
  by (auto simp: rf_stale_def)

lemma rf_shrink_step:
  assumes "rf_inv b" and "real_side s"
  shows "l3_step rf_ops rf_inv b seq s (remove_entry i (rf_queue b s)) ous
           (rf_commit b s (remove_entry i (rf_queue b s)) seq ous t p lb)"
    and "l3_step rf_ops rf_inv b seq s (resize_entry i q (rf_queue b s)) ous
           (rf_commit b s (resize_entry i q (rf_queue b s)) seq ous t p lb)"
proof -
  note q = rf_inv_queue [OF assms]
  show "l3_step rf_ops rf_inv b seq s (remove_entry i (rf_queue b s)) ous
          (rf_commit b s (remove_entry i (rf_queue b s)) seq ous t p lb)"
    using q by (intro rf_commit_step assms)
      (auto simp: sorted_remove_entry pos_remove_entry distinct_remove_entry set_remove_entry)
  show "l3_step rf_ops rf_inv b seq s (resize_entry i q (rf_queue b s)) ous
          (rf_commit b s (resize_entry i q (rf_queue b s)) seq ous t p lb)"
  proof (intro rf_commit_step assms)
    show "en_id ` set (resize_entry i q (rf_queue b s)) \<inter> en_id ` set (rf_queue b (opposite_side s)) = {}"
      using q(4) ids_resize_entry [of i q "rf_queue b s"] by blast
  qed (simp_all add: q sorted_resize_entry pos_resize_entry distinct_resize_entry)
qed

lemma rf_insert_step:
  assumes "rf_inv b" and "real_side s" and "0 < en_qty e"
    and "en_id e \<notin> en_id ` set (rf_queue b (opposite_side s))"
  shows "l3_step rf_ops rf_inv b seq s (insert_entry s e (remove_entry (en_id e) (rf_queue b s))) ous
           (rf_commit b s (insert_entry s e (remove_entry (en_id e) (rf_queue b s))) seq ous t p lb)"
proof (rule rf_commit_step)
  note q = rf_inv_queue [OF assms(1,2)]
  let ?es = "remove_entry (en_id e) (rf_queue b s)"
  show "sorted_wrt (before s) (insert_entry s e ?es)"
    by (intro insert_entry_sorted sorted_remove_entry q)
  show "list_all (\<lambda>e. 0 < en_qty e) (insert_entry s e ?es)"
    using q(2) assms(3) by (auto simp: list_all_iff set_remove_entry)
  show "distinct (map en_id (insert_entry s e ?es))"
    by (intro distinct_insert_entry distinct_remove_entry q) (auto simp: set_remove_entry)
  show "en_id ` set (insert_entry s e ?es) \<inter> en_id ` set (rf_queue b (opposite_side s)) = {}"
    using q(4) assms(4) by (auto simp: set_remove_entry)
qed (use assms in auto)

lemma rf_other_side: "rf_inv b \<Longrightarrow> real_side s \<Longrightarrow> e \<in> set (rf_queue b s) \<Longrightarrow>
    en_id e \<notin> en_id ` set (rf_queue b (opposite_side s))"
  using rf_inv_queue(4) by blast

lemma rf_ids: "real_side s \<Longrightarrow> i \<notin> en_id ` set (rf_buy b @ rf_sell b) \<Longrightarrow>
    i \<notin> en_id ` set (rf_queue b s) \<and> i \<notin> en_id ` set (rf_queue b (opposite_side s))"
  by (cases s) (auto simp: real_side_def)

interpretation ref: l3_book rf_ops rf_inv
proof
  fix b :: ref_book and s :: Side and p q :: int and i t prio seq :: nat and lb :: bool and e :: entry
  assume inv: "rf_inv b"
  note inv_q = rf_inv_queue [OF inv]
  show "distinct (map en_id (flat (l3_levels rf_ops b BUY) @ flat (l3_levels rf_ops b SELL)))"
    using inv by (simp add: rf_inv_def)
  show "l3_find rf_ops b i = map_option order_of
      (find (\<lambda>e. en_id e = i) (flat (l3_levels rf_ops b BUY) @ flat (l3_levels rf_ops b SELL)))"
    by (auto simp: rf_ops_def rf_locate_def find_append_option option.map_comp comp_def split: option.splits)
  show "l3_modify rf_ops b i p 0 t prio seq lb = l3_delete rf_ops b i t seq lb"
    by (simp add: rf_modify_def)
  show "rf_inv (l3_clear rf_ops b) \<and> l3_levels rf_ops (l3_clear rf_ops b) BUY = [] \<and>
      l3_levels rf_ops (l3_clear rf_ops b) SELL = [] \<and> l3_last_seq rf_ops (l3_clear rf_ops b) = l3_last_seq rf_ops b"
    by (simp add: rf_ops_def rf_inv_def)
  {
    assume "seq \<noteq> 0" and "seq < l3_last_seq rf_ops b"
    then have "rf_stale b seq" by (simp add: rf_stale_def)
    then show "l3_add rf_ops b i s p q t prio seq lb = (False, b, []) \<and>
        l3_modify rf_ops b i p q t prio seq lb = (False, b, []) \<and>
        l3_delete rf_ops b i t seq lb = (False, b, []) \<and> l3_execute rf_ops b i q t seq lb = (False, b, [])"
      by (auto simp: rf_add_def rf_modify_def rf_delete_def rf_execute_def split: option.splits)
  }
  {
    assume "i \<notin> en_id ` set (flat (l3_levels rf_ops b BUY) @ flat (l3_levels rf_ops b SELL))"
    then have "rf_locate b i = None" by (simp add: rf_locate_miss)
    then show "l3_delete rf_ops b i t seq lb = (False, b, [])"
      and "l3_modify rf_ops b i p q t prio seq lb = (False, b, [])"
      by (auto simp: rf_modify_def rf_delete_def)
  }
  {
    assume "i \<in> en_id ` set (flat (l3_levels rf_ops b BUY) @ flat (l3_levels rf_ops b SELL))"
    then have "rf_locate b i \<noteq> None" by (auto simp: rf_locate_miss)
    then show "l3_add rf_ops b i s p q t prio seq lb = (False, b, [])" by (simp add: rf_add_def)
  }
  assume s: "real_side s"
  show "levels_wf s (l3_levels rf_ops b s)" using inv_q s by (simp add: group_levels_wf)
  show "l3_best rf_ops b s = (case l3_levels rf_ops b s of [] \<Rightarrow> None | l # _ \<Rightarrow> Some l)"
    by (simp add: rf_ops_def)
  show "map_option fst (l3_level_at rf_ops b s p) = find (\<lambda>l. lv_price l = p) (l3_levels rf_ops b s)"
    by (simp add: rf_ops_def option.map_comp comp_def option.map_ident)
  assume "seq = 0 \<or> l3_last_seq rf_ops b \<le> seq"
  then have fresh: "\<not> rf_stale b seq" by (simp add: rf_fresh)
  {
    assume new: "i \<notin> en_id ` set (flat (l3_levels rf_ops b BUY) @ flat (l3_levels rf_ops b SELL))" and "0 < q"
    let ?e = "\<lparr>en_price = p, en_id = i, en_qty = q, en_prio = eff_prio prio t\<rparr>"
    have out: "i \<notin> en_id ` set (rf_queue b s)" "i \<notin> en_id ` set (rf_queue b (opposite_side s))"
      using rf_ids [OF s] new by auto
    show "l3_step rf_ops rf_inv b seq s (insert_entry s ?e (flat (l3_levels rf_ops b s)))
       [\<lparr>ou_order_id = i, ou_side = s, ou_price = p, ou_quantity = q, ou_old_price = 0, ou_old_qty = 0,
          ou_priority = eff_prio prio t, ou_timestamp = t\<rparr>] (l3_add rf_ops b i s p q t prio seq lb)"
      using rf_insert_step [OF inv s, of ?e] out new \<open>0 < q\<close> fresh s
      by (simp add: rf_add_def rf_locate_miss remove_entry_absent)
  }
  assume "e \<in> set (flat (l3_levels rf_ops b s))"
  then have e: "e \<in> set (rf_queue b s)" by simp
  note loc = rf_locate_hit [OF inv s e]
  show "l3_step rf_ops rf_inv b seq s (remove_entry (en_id e) (flat (l3_levels rf_ops b s)))
      [entry_note s e (en_price e) 0 (en_prio e) t] (l3_delete rf_ops b (en_id e) t seq lb)"
    using rf_shrink_step(1) [OF inv s] fresh by (simp add: rf_delete_def loc)
  show "l3_step rf_ops rf_inv b seq s (flat (l3_levels rf_ops b s)) []
      (l3_modify rf_ops b (en_id e) (en_price e) (en_qty e) t (en_prio e) seq lb)"
  proof -
    have pos: "0 < en_qty e" using inv_q(2) [OF s] e by (auto simp: list_all_iff)
    have "resize_entry (en_id e) (en_qty e) (rf_queue b s) = rf_queue b s"
      using inv_q(3) [OF s] e pos
      by (auto simp: resize_entry_def distinct_map intro!: map_idI) (metis (full_types) entry.surjective entry.update_convs(3) inj_onD)
    then show ?thesis
      using rf_shrink_step(2) [OF inv s, of seq "en_id e" "en_qty e"] fresh pos by (simp add: rf_modify_def loc)
  qed
  assume q: "0 < q"
  show "q \<le> en_qty e \<Longrightarrow> l3_step rf_ops rf_inv b seq s
      (resize_entry (en_id e) (en_qty e - q) (flat (l3_levels rf_ops b s)))
      [entry_note s e (en_price e) (en_qty e - q) (en_prio e) t] (l3_execute rf_ops b (en_id e) q t seq lb)"
    using rf_shrink_step(2) [OF inv s] fresh q by (simp add: rf_execute_def loc)
  show "q \<noteq> en_qty e \<Longrightarrow> l3_step rf_ops rf_inv b seq s (resize_entry (en_id e) q (flat (l3_levels rf_ops b s)))
      [entry_note s e (en_price e) q (en_prio e) t]
      (l3_modify rf_ops b (en_id e) (en_price e) q t (en_prio e) seq lb)"
    using rf_shrink_step(2) [OF inv s] fresh q by (simp add: rf_modify_def loc)
  assume "0 < prio" and "p \<noteq> en_price e \<or> prio \<noteq> en_prio e"
  then show "l3_step rf_ops rf_inv b seq s
      (insert_entry s \<lparr>en_price = p, en_id = en_id e, en_qty = q, en_prio = prio\<rparr>
        (remove_entry (en_id e) (flat (l3_levels rf_ops b s))))
      [entry_note s e p q prio t] (l3_modify rf_ops b (en_id e) p q t prio seq lb)"
    using rf_insert_step [OF inv s, of "\<lparr>en_price = p, en_id = en_id e, en_qty = q, en_prio = prio\<rparr>" seq]
      rf_other_side [OF inv s e] fresh q
    by (auto simp: rf_modify_def loc eff_prio_def)
qed

end
