(* ===== verification/Order_Book.thy ===== *)
theory Order_Book
  imports L3_Contract
begin

text \<open>
  \<open>src/src/order_book/order_book.hpp\<close>: the simulator's book, which owns the clients' resting
  orders and mirrors them, together with the venue's (phantom) liquidity, in an
  \<open>OrderBookL3\<close>. The state is a record; \<open>Order*\<close> is a slot number of the order pool, whose
  memory \<open>ob_buffer\<close> keeps the content of returned slots. The pool itself, the clock and the
  uuid generator are outside the repository, so the slot, the time and the uuid an operation
  draws are its arguments. The observers of the book (the book itself, then
  \<open>OrderBookObserver\<close> of \<open>src/src/exchange/symbol.cpp\<close>) run over the notifications of each
  mutation; the two caches the second one fills are fields of the same record.
\<close>

section \<open>State\<close>

record 'l OrderBook =
  ob_l3 :: 'l
  ob_symbol :: string
  ob_venue :: Venue
  ob_buffer :: "ptr \<Rightarrow> Order"
  ob_live :: "ptr set"
  ob_orders :: "order_num \<rightharpoonup> ptr"
  ob_by_client :: "string \<rightharpoonup> ptr"
  ob_by_order :: "string \<rightharpoonup> ptr"
  ob_md_qty :: "price_t \<rightharpoonup> qty_t"
  ob_last_update_time :: time_ns
  ob_last_seq_num :: seq_t
  ob_level_cache :: "MDLevel list"
  ob_order_cache :: "MDOrder list"
  ob_next_priority :: nat
  ob_next_order_id :: nat

text \<open>A constructed book over an L3 book, with fresh pool memory.\<close>

definition new_book :: "'l \<Rightarrow> string \<Rightarrow> Venue \<Rightarrow> 'l OrderBook" where
  "new_book l name v = \<lparr>
     ob_l3 = l, ob_symbol = name, ob_venue = v,
     ob_buffer = (\<lambda>_. default_order), ob_live = {},
     ob_orders = Map.empty, ob_by_client = Map.empty, ob_by_order = Map.empty,
     ob_md_qty = Map.empty, ob_last_update_time = 0, ob_last_seq_num = 0,
     ob_level_cache = [], ob_order_cache = [],
     ob_next_priority = 0, ob_next_order_id = 1\<rparr>"

type_synonym ('l, 'z) book = "('l, 'z) OrderBook_scheme"

definition set_order :: "ptr \<Rightarrow> (Order \<Rightarrow> Order) \<Rightarrow> ('l, 'z) book \<Rightarrow> ('l, 'z) book" where
  "set_order p f b = b\<lparr>ob_buffer := (ob_buffer b)(p := f (ob_buffer b p))\<rparr>"

text \<open>\<open>std::unordered_map::emplace\<close> leaves an existing entry alone.\<close>

definition emplace :: "'k \<Rightarrow> 'v \<Rightarrow> ('k \<rightharpoonup> 'v) \<Rightarrow> ('k \<rightharpoonup> 'v)" where
  "emplace k v m = (if m k = None then m(k \<mapsto> v) else m)"

section \<open>Ids, the pool and lookups\<close>

definition nextOrderPriority :: "('l, 'z) book \<Rightarrow> nat \<times> ('l, 'z) book" where
  "nextOrderPriority b =
     (ob_next_priority b + 1, b\<lparr>ob_next_priority := ob_next_priority b + 1\<rparr>)"

definition nextOrderId :: "('l, 'z) book \<Rightarrow> order_num \<times> ('l, 'z) book" where
  "nextOrderId b = (ob_next_order_id b, b\<lparr>ob_next_order_id := ob_next_order_id b + 1\<rparr>)"

definition allocateOrder :: "ptr \<Rightarrow> string \<Rightarrow> time_ns \<Rightarrow> ('l, 'z) book \<Rightarrow> ('l, 'z) book" where
  "allocateOrder p uuid now b =
     (let (i, b1) = nextOrderId (b\<lparr>ob_live := insert p (ob_live b)\<rparr>)
      in set_order p (\<lambda>order. resetFillAccounting 0 (order\<lparr>
           order_id := uuid,
           id_num := i,
           request_tag := 0,
           created_time := now,
           last_update_time := now\<rparr>)) b1)"

definition freeOrder :: "ptr \<Rightarrow> ('l, 'z) book \<Rightarrow> ('l, 'z) book" where
  "freeOrder p b = b\<lparr>ob_live := ob_live b - {p}\<rparr>"

definition findOrderByClientOrderId :: "string \<Rightarrow> ('l, 'z) book \<Rightarrow> ptr option" where
  "findOrderByClientOrderId c b = ob_by_client b c"

definition findOrderByOrderId :: "string \<Rightarrow> ('l, 'z) book \<Rightarrow> ptr option" where
  "findOrderByOrderId c b = ob_by_order b c"

definition findOrder :: "order_num \<Rightarrow> ('l, 'z) book \<Rightarrow> ptr option" where
  "findOrder i b = ob_orders b i"

definition getMDLevelQty :: "('l, 'z) book \<Rightarrow> price_t \<Rightarrow> qty_t" where
  "getMDLevelQty b p = (case ob_md_qty b p of None \<Rightarrow> 0 | Some q \<Rightarrow> q)"

definition setLastUpdate :: "time_ns \<Rightarrow> seq_t \<Rightarrow> ('l, 'z) book \<Rightarrow> ('l, 'z) book" where
  "setLastUpdate t seq b = b\<lparr>ob_last_update_time := t, ob_last_seq_num := seq\<rparr>"

section \<open>Observers\<close>

definition add_md_qty :: "price_t \<Rightarrow> qty_t \<Rightarrow> qty_t \<Rightarrow> (price_t \<rightharpoonup> qty_t) \<Rightarrow> (price_t \<rightharpoonup> qty_t)" where
  "add_md_qty p delta fresh m = (case m p of
      Some q \<Rightarrow> m(p \<mapsto> q + delta)
    | None \<Rightarrow> if fresh \<noteq> 0 then m(p \<mapsto> fresh) else m)"

definition onOrderUpdate :: "OrderUpdate \<Rightarrow> ('l, 'z) book \<Rightarrow> ('l, 'z) book" where
  "onOrderUpdate u b = (case findOrder (ou_order_id u) b of
      None \<Rightarrow>
        if ou_price u \<noteq> ou_old_price u then
          (let m1 = add_md_qty (ou_old_price u) (- ou_old_qty u) 0 (ob_md_qty b)
           in b\<lparr>ob_md_qty := add_md_qty (ou_price u) (ou_quantity u) (ou_quantity u) m1\<rparr>)
        else
          b\<lparr>ob_md_qty :=
              add_md_qty (ou_price u) (ou_quantity u - ou_old_qty u) (ou_quantity u) (ob_md_qty b)\<rparr>
    | Some p \<Rightarrow>
        if ou_quantity u = 0 \<and> quantity (ob_buffer b p) \<noteq> ou_quantity u
        then set_order p (\<lambda>order. order\<lparr>leaves_quantity := 0\<rparr>) b
        else b)"

text \<open>The rows \<open>Symbol::onOrderUpdate\<close> and \<open>Symbol::onPriceLevelUpdate\<close> push.\<close>

definition md_order_row :: "OrderUpdate \<Rightarrow> MDOrder" where
  "md_order_row u = \<lparr>
     mo_order_num = ou_order_id u,
     mo_event_time = ou_timestamp u,
     mo_priority = ou_priority u,
     mo_price = ou_price u,
     mo_qty = ou_quantity u,
     mo_side = ou_side u,
     mo_update_action =
       (if ou_quantity u = 0 then ACTION_DELETE
        else if ou_old_qty u = 0 \<and> ou_old_price u = 0 then ACTION_NEW
        else ACTION_CHANGE)\<rparr>"

definition md_level_row :: "PriceLevelUpdate \<Rightarrow> MDLevel" where
  "md_level_row u = \<lparr>
     ml_event_time = pu_timestamp u,
     ml_seq_num = pu_seq_num u,
     ml_price = pu_price u,
     ml_qty = pu_quantity u,
     ml_num_orders = pu_num_orders u,
     ml_level_index = pu_level_index u,
     ml_update_action = ACTION_NEW,
     ml_flags = (if pu_last_in_batch u then F_NONE\<lparr>F_END_EVENT := True\<rparr> else F_NONE),
     ml_side = pu_side u\<rparr>"

definition notify :: "('l, 'z) book \<Rightarrow> l3_note \<Rightarrow> ('l, 'z) book" where
  "notify b n = (case n of
      OrderNote u \<Rightarrow> (onOrderUpdate u b)\<lparr>ob_order_cache := ob_order_cache b @ [md_order_row u]\<rparr>
    | LevelNote u \<Rightarrow> b\<lparr>ob_level_cache := ob_level_cache b @ [md_level_row u]\<rparr>)"

definition l3_apply :: "'l l3_result \<Rightarrow> ('l, 'z) book \<Rightarrow> bool \<times> ('l, 'z) book" where
  "l3_apply r b = (case r of (ok, l', ns) \<Rightarrow> (ok, foldl notify (b\<lparr>ob_l3 := l'\<rparr>) ns))"

section \<open>The inherited mutations\<close>

text \<open>The calls of \<open>OrderBookL3\<close>'s own mutations, with the observers they notify.\<close>

definition base_addOrder where
  "base_addOrder L i s p q t prio seq lb b = l3_apply (l3_add L (ob_l3 b) i s p q t prio seq lb) b"

definition base_modifyOrder where
  "base_modifyOrder L i p q t prio seq lb b = l3_apply (l3_modify L (ob_l3 b) i p q t prio seq lb) b"

definition base_deleteOrder where
  "base_deleteOrder L i t seq lb b = l3_apply (l3_delete L (ob_l3 b) i t seq lb) b"

definition base_executeOrder where
  "base_executeOrder L i q t seq lb b = l3_apply (l3_execute L (ob_l3 b) i q t seq lb) b"

section \<open>Operations on the simulator's orders\<close>

definition indexOrder :: "ptr \<Rightarrow> ('l, 'z) book \<Rightarrow> ('l, 'z) book" where
  "indexOrder p b =
     (let order = ob_buffer b p in b\<lparr>
        ob_orders := emplace (id_num order) p (ob_orders b),
        ob_by_client := (if client_order_id order = [] then ob_by_client b
                         else emplace (client_order_id order) p (ob_by_client b)),
        ob_by_order := (if order_id order = [] then ob_by_order b
                        else emplace (order_id order) p (ob_by_order b))\<rparr>)"

definition eraseOrder :: "ptr \<Rightarrow> ('l, 'z) book \<Rightarrow> ('l, 'z) book" where
  "eraseOrder p b =
     (let order = ob_buffer b p in b\<lparr>
        ob_orders := (ob_orders b)(id_num order := None),
        ob_by_client := (if client_order_id order = [] then ob_by_client b
                         else (ob_by_client b)(client_order_id order := None)),
        ob_by_order := (if order_id order = [] then ob_by_order b
                        else (ob_by_order b)(order_id order := None))\<rparr>)"

definition drawPriority :: "ptr \<Rightarrow> ('l, 'z) book \<Rightarrow> ('l, 'z) book" where
  "drawPriority p b = (let (n, b1) = nextOrderPriority b
     in set_order p (\<lambda>order. order\<lparr>priority := n\<rparr>) b1)"

definition addOrder :: "'l l3_ops \<Rightarrow> ptr \<Rightarrow> time_ns \<Rightarrow> seq_t \<Rightarrow> bool \<Rightarrow> ('l, 'z) book \<Rightarrow> ('l, 'z) book" where
  "addOrder L p t seq lb b =
     (let b1 = indexOrder p (drawPriority p b);
          order = ob_buffer b1 p
      in snd (base_addOrder L (id_num order) (side order) (price order) (leaves_quantity order)
                t (priority order) seq lb b1))"

definition addBookOrder ::
    "'l l3_ops \<Rightarrow> order_num \<Rightarrow> Side \<Rightarrow> price_t \<Rightarrow> qty_t \<Rightarrow> time_ns \<Rightarrow> seq_t \<Rightarrow> bool \<Rightarrow> ('l, 'z) book \<Rightarrow> ('l, 'z) book" where
  "addBookOrder L i s p q t seq lb b =
     (let (n, b1) = nextOrderPriority b in snd (base_addOrder L i s p q t n seq lb b1))"

definition deleteOrder :: "'l l3_ops \<Rightarrow> ptr \<Rightarrow> time_ns \<Rightarrow> seq_t \<Rightarrow> bool \<Rightarrow> ('l, 'z) book \<Rightarrow> ('l, 'z) book" where
  "deleteOrder L p t seq lb b =
     (let b1 = snd (base_deleteOrder L (id_num (ob_buffer b p)) t seq lb b)
      in if ob_orders b1 (id_num (ob_buffer b1 p)) = None then b1 else eraseOrder p b1)"

text \<open>The one-argument overload, for an order the L3 book no longer holds.\<close>

definition dropOrder :: "ptr \<Rightarrow> ('l, 'z) book \<Rightarrow> ('l, 'z) book" where
  "dropOrder p b =
     freeOrder p (if ob_orders b (id_num (ob_buffer b p)) = None then b else eraseOrder p b)"

definition modifyOrder ::
    "'l l3_ops \<Rightarrow> ptr \<Rightarrow> price_t \<Rightarrow> qty_t \<Rightarrow> time_ns \<Rightarrow> seq_t \<Rightarrow> bool \<Rightarrow> ('l, 'z) book \<Rightarrow> ('l, 'z) book" where
  "modifyOrder L p new_price new_qty t seq lb b =
     (let i = id_num (ob_buffer b p);
          found = (ob_orders b i \<noteq> None);
          b1 = (if \<not> found then
                  (let b' = drawPriority p (set_order p (\<lambda>order. order\<lparr>price := new_price\<rparr>) b)
                   in if new_qty \<noteq> 0 then indexOrder p b' else b')
                else if new_price \<noteq> price (ob_buffer b p) then
                  drawPriority p (set_order p (\<lambda>order. order\<lparr>price := new_price\<rparr>) b)
                else b);
          b2 = set_order p (\<lambda>order. order\<lparr>quantity := new_qty\<rparr>) b1;
          order = ob_buffer b2 p;
          b3 = snd (base_modifyOrder L i new_price (leaves_quantity order) t (priority order) seq lb b2)
      in if leaves_quantity (ob_buffer b3 p) = 0 \<and> (found \<or> new_qty \<noteq> 0) then eraseOrder p b3 else b3)"

text \<open>
  \<open>clearMDOrders\<close> walks an unordered map, so the order in which it meets the orders is an
  argument.
\<close>

definition readd :: "'l l3_ops \<Rightarrow> ('l, 'z) book \<Rightarrow> order_num \<times> Order \<Rightarrow> ('l, 'z) book" where
  "readd L b x = (case x of (i, order) \<Rightarrow>
     snd (base_addOrder L i (side order) (price order) (leaves_quantity order)
            (last_update_time order) (priority order) 0 False b))"

definition clearMDOrders :: "'l l3_ops \<Rightarrow> order_num list \<Rightarrow> ('l, 'z) book \<Rightarrow> ('l, 'z) book" where
  "clearMDOrders L ids b =
     (let sim_orders = filter (\<lambda>x. 0 < leaves_quantity (snd x))
            (map (\<lambda>i. (i, ob_buffer b (the (ob_orders b i)))) ids)
      in foldl (readd L) (b\<lparr>ob_l3 := l3_clear L (ob_l3 b), ob_md_qty := Map.empty\<rparr>) sim_orders)"

definition book_executeOrder ::
    "'l l3_ops \<Rightarrow> order_num \<Rightarrow> qty_t \<Rightarrow> time_ns \<Rightarrow> seq_t \<Rightarrow> bool \<Rightarrow> ('l, 'z) book \<Rightarrow> bool \<times> ('l, 'z) book" where
  "book_executeOrder L i q t seq lb b =
     (if seq > 0 \<and> seq < l3_last_seq L (ob_l3 b) then (False, b)
      else case findOrder i b of
        None \<Rightarrow> base_executeOrder L i q t seq lb b
      | Some p \<Rightarrow>
          (let b1 = set_order p (executeOrder (price (ob_buffer b p)) q t) b;
               (rt, b2) = base_executeOrder L i q t seq lb b1
           in if leaves_quantity (ob_buffer b2 p) = 0
              then (rt, (eraseOrder p b2)\<lparr>ob_orders := (ob_orders b2)(i := None)\<rparr>)
              else (rt, b2)))"

section \<open>Snapshots\<close>

record SnapLevel =
  sl_price :: price_t
  sl_qty :: qty_t
  sl_num_orders :: nat

definition snap_level :: "l3_level \<Rightarrow> SnapLevel" where
  "snap_level l = \<lparr>sl_price = lv_price l, sl_qty = lv_total l, sl_num_orders = length (lv_orders l)\<rparr>"

record BookSnapshot =
  num_bid :: nat
  num_ask :: nat
  snap_levels :: "SnapLevel list"

definition populateL2Snapshot :: "'l l3_ops \<Rightarrow> ('l, 'z) book \<Rightarrow> BookSnapshot" where
  "populateL2Snapshot L b =
     (let bids = l3_levels L (ob_l3 b) BUY; asks = l3_levels L (ob_l3 b) SELL
      in \<lparr>num_bid = length bids, num_ask = length asks,
          snap_levels = map snap_level bids @ map snap_level asks\<rparr>)"

text \<open>The ten best levels of each side, asks first, as \<open>MDBookUpdate\<close> lays them out.\<close>

definition populateMDBookUpdate :: "'l l3_ops \<Rightarrow> ('l, 'z) book \<Rightarrow> SnapLevel list \<times> SnapLevel list" where
  "populateMDBookUpdate L b =
     (map snap_level (take 10 (l3_levels L (ob_l3 b) SELL)),
      map snap_level (take 10 (l3_levels L (ob_l3 b) BUY)))"

end
