(* ===== verification/Book_Invariant.thy ===== *)
theory Book_Invariant
  imports Order_Book
begin

text \<open>
  The invariant of the simulator's book and its preservation by every operation of
  \<open>order_book.hpp\<close>, for any L3 book that keeps the contract \<open>l3_book\<close>: the three lookup maps
  are in step, every indexed order is a live pool slot whose leaves, price, priority and side
  are exactly those of its L3 entry, and \<open>getMDLevelQty\<close> is the phantom quantity at a price.
\<close>

section \<open>Views\<close>

definition queue :: "'l l3_ops \<Rightarrow> ('l, 'z) book \<Rightarrow> Side \<Rightarrow> entry list" where
  "queue L b s = flat (l3_levels L (ob_l3 b) s)"

text \<open>The quantity at a price of a queue that no order of \<open>m\<close> owns.\<close>

definition phantom_in :: "(order_num \<rightharpoonup> ptr) \<Rightarrow> price_t \<Rightarrow> entry \<Rightarrow> qty_t" where
  "phantom_in m p e = (if en_price e = p \<and> m (en_id e) = None then en_qty e else 0)"

definition psum :: "(order_num \<rightharpoonup> ptr) \<Rightarrow> price_t \<Rightarrow> entry list \<Rightarrow> qty_t" where
  "psum m p es = (\<Sum>e\<leftarrow>es. phantom_in m p e)"

definition phantom_qty :: "'l l3_ops \<Rightarrow> ('l, 'z) book \<Rightarrow> price_t \<Rightarrow> qty_t" where
  "phantom_qty L b p = psum (ob_orders b) p (queue L b BUY) + psum (ob_orders b) p (queue L b SELL)"

definition entry_for :: "Order \<Rightarrow> entry" where
  "entry_for ord = \<lparr>en_price = price ord, en_id = id_num ord, en_qty = leaves_quantity ord, en_prio = priority ord\<rparr>"

definition linked :: "'l l3_ops \<Rightarrow> ('l, 'z) book \<Rightarrow> ptr \<Rightarrow> bool" where
  "linked L b q \<longleftrightarrow>
     entry_for (ob_buffer b q) \<in> set (queue L b (side (ob_buffer b q))) \<and>
     0 < priority (ob_buffer b q) \<and> acct_ok (ob_buffer b q)"

definition indexed :: "(string \<rightharpoonup> ptr) \<Rightarrow> (Order \<Rightarrow> string) \<Rightarrow> ('l, 'z) book \<Rightarrow> bool" where
  "indexed m key b \<longleftrightarrow> (\<forall>c q. m c = Some q \<longleftrightarrow>
     c \<noteq> [] \<and> key (ob_buffer b q) = c \<and> ob_orders b (id_num (ob_buffer b q)) = Some q)"

text \<open>
  \<open>P\<close> are the orders a request is working on: they stay indexed, but their own record may
  already be ahead of their L3 entry.
\<close>

definition owned :: "'l l3_ops \<Rightarrow> ptr set \<Rightarrow> ('l, 'z) book \<Rightarrow> bool" where
  "owned L P b \<longleftrightarrow> (\<forall>i q. ob_orders b i = Some q \<longrightarrow>
     q \<in> ob_live b \<and> id_num (ob_buffer b q) = i \<and> real_side (side (ob_buffer b q)) \<and>
     (q \<notin> P \<longrightarrow> linked L b q))"

definition obinv :: "'l l3_ops \<Rightarrow> ('l \<Rightarrow> bool) \<Rightarrow> ptr set \<Rightarrow> ('l, 'z) book \<Rightarrow> bool" where
  "obinv L binv P b \<longleftrightarrow>
     binv (ob_l3 b) \<and> owned L P b \<and>
     indexed (ob_by_client b) client_order_id b \<and> indexed (ob_by_order b) order_id b \<and>
     (\<forall>p. getMDLevelQty b p = phantom_qty L b p)"

text \<open>No leak and no dangling pointer: the pool slots handed out are those of the resting orders, and \<open>X\<close>.\<close>

definition pool_exact :: "ptr set \<Rightarrow> ('l, 'z) book \<Rightarrow> bool" where
  "pool_exact X b \<longleftrightarrow> ob_live b = ran (ob_orders b) \<union> X"

section \<open>Phantom sums\<close>

lemma psum_simps [simp]:
  "psum m p [] = 0" "psum m p (e # es) = phantom_in m p e + psum m p es"
  "psum m p (xs @ ys) = psum m p xs + psum m p ys"
  by (simp_all add: psum_def)

lemma psum_cong:
  "(\<And>e. e \<in> set es \<Longrightarrow> m (en_id e) = None \<longleftrightarrow> m' (en_id e) = None) \<Longrightarrow> psum m p es = psum m' p es"
  by (auto simp: psum_def phantom_in_def cong: map_cong)

lemma psum_upd_fresh: "i \<notin> en_id ` set es \<Longrightarrow> psum (m(i := v)) p es = psum m p es"
  by (rule psum_cong) auto

lemma psum_zero: "(\<And>e. e \<in> set es \<Longrightarrow> phantom_in m p e = 0) \<Longrightarrow> psum m p es = 0"
  by (induction es) auto

lemma psum_nonneg: "(\<And>e. e \<in> set es \<Longrightarrow> 0 < en_qty e) \<Longrightarrow> 0 \<le> psum m p es"
  unfolding psum_def by (rule sum_list_map_nonneg) (auto simp: phantom_in_def less_imp_le)

lemma psum_insert_entry [simp]: "psum m p (insert_entry s e es) = phantom_in m p e + psum m p es"
proof -
  have "psum m p (takeWhile P es) + psum m p (dropWhile P es) = psum m p es" for P
    by (metis psum_simps(3) takeWhile_dropWhile_id)
  then show ?thesis by (simp add: insert_entry_def)
qed

lemma psum_remove_entry:
  "distinct (map en_id es) \<Longrightarrow> e \<in> set es \<Longrightarrow>
   psum m p (remove_entry (en_id e) es) = psum m p es - phantom_in m p e"
proof (induction es)
  case (Cons x es)
  show ?case
  proof (cases "x = e")
    case True
    then have "en_id e \<notin> en_id ` set es" using Cons.prems by auto
    then show ?thesis using True by (simp add: remove_entry_absent)
  next
    case False
    then have "e \<in> set es" and "en_id x \<noteq> en_id e" using Cons.prems by (auto simp: image_iff)
    then show ?thesis using Cons by simp
  qed
qed simp

lemma resize_entry_simps [simp]:
  "resize_entry i q [] = []"
  "resize_entry i q (e # es) =
     (if en_id e = i then (if q \<le> 0 then resize_entry i q es else e\<lparr>en_qty := q\<rparr> # resize_entry i q es)
      else e # resize_entry i q es)"
  by (auto simp: resize_entry_def)

lemma resize_entry_absent: "i \<notin> en_id ` set es \<Longrightarrow> resize_entry i q es = es"
  by (induction es) auto

lemma set_resize_entry_other: "en_id e \<noteq> i \<Longrightarrow> e \<in> set (resize_entry i q es) \<longleftrightarrow> e \<in> set es"
  by (induction es) auto

lemma psum_resize_entry:
  "distinct (map en_id es) \<Longrightarrow> e \<in> set es \<Longrightarrow> 0 \<le> q \<Longrightarrow>
   psum m p (resize_entry (en_id e) q es) = psum m p es - phantom_in m p e + phantom_in m p (e\<lparr>en_qty := q\<rparr>)"
proof (induction es)
  case (Cons x es)
  show ?case
  proof (cases "x = e")
    case True
    then have "en_id e \<notin> en_id ` set es" using Cons.prems by auto
    then show ?thesis using True Cons.prems(3) by (auto simp: resize_entry_absent phantom_in_def)
  next
    case False
    then have "e \<in> set es" and "en_id x \<noteq> en_id e" using Cons.prems by (auto simp: image_iff)
    then show ?thesis using Cons by simp
  qed
qed simp

section \<open>Observers\<close>

lemma set_order_sel [simp]:
  "ob_l3 (set_order p f b) = ob_l3 b" "ob_orders (set_order p f b) = ob_orders b"
  "ob_live (set_order p f b) = ob_live b" "ob_by_client (set_order p f b) = ob_by_client b"
  "ob_by_order (set_order p f b) = ob_by_order b" "ob_md_qty (set_order p f b) = ob_md_qty b"
  "ob_symbol (set_order p f b) = ob_symbol b" "ob_venue (set_order p f b) = ob_venue b"
  "ob_last_update_time (set_order p f b) = ob_last_update_time b"
  "ob_last_seq_num (set_order p f b) = ob_last_seq_num b"
  "ob_level_cache (set_order p f b) = ob_level_cache b" "ob_order_cache (set_order p f b) = ob_order_cache b"
  "ob_next_priority (set_order p f b) = ob_next_priority b"
  "ob_next_order_id (set_order p f b) = ob_next_order_id b"
  "OrderBook.more (set_order p f b) = OrderBook.more b"
  "ob_buffer (set_order p f b) = (ob_buffer b)(p := f (ob_buffer b p))"
  by (simp_all add: set_order_def)

text \<open>What no operation on orders touches, and what no notification touches.\<close>

definition book_frame :: "('l, 'z) book \<Rightarrow> ('l, 'z) book \<Rightarrow> bool" where
  "book_frame b b' \<longleftrightarrow>
     ob_symbol b' = ob_symbol b \<and> ob_venue b' = ob_venue b \<and>
     ob_last_update_time b' = ob_last_update_time b \<and> ob_last_seq_num b' = ob_last_seq_num b \<and>
     ob_next_priority b' = ob_next_priority b \<and> ob_next_order_id b' = ob_next_order_id b \<and>
     OrderBook.more b' = OrderBook.more b"

definition same_frame :: "('l, 'z) book \<Rightarrow> ('l, 'z) book \<Rightarrow> bool" where
  "same_frame b b' \<longleftrightarrow>
     ob_orders b' = ob_orders b \<and> ob_live b' = ob_live b \<and> ob_by_client b' = ob_by_client b \<and>
     ob_by_order b' = ob_by_order b \<and> book_frame b b'"

lemma book_frame_refl [simp]: "book_frame b b"
  by (simp add: book_frame_def)

lemma book_frame_trans: "book_frame a b \<Longrightarrow> book_frame b c \<Longrightarrow> book_frame a c"
  by (simp add: book_frame_def)

lemma book_frame_set_order [simp]: "book_frame b (set_order p f b)"
  by (simp add: book_frame_def)

lemma same_frame_refl [simp]: "same_frame b b"
  by (simp add: same_frame_def)

lemma same_frame_trans: "same_frame a b \<Longrightarrow> same_frame b c \<Longrightarrow> same_frame a c"
  by (auto simp: same_frame_def intro: book_frame_trans)

lemma onOrderUpdate_frame: "same_frame b (onOrderUpdate u b) \<and> ob_l3 (onOrderUpdate u b) = ob_l3 b"
  by (simp add: onOrderUpdate_def same_frame_def book_frame_def Let_def split: option.split)

lemma notify_frame: "same_frame b (notify b n) \<and> ob_l3 (notify b n) = ob_l3 b"
  using onOrderUpdate_frame [of b]
  by (cases n) (auto simp: notify_def same_frame_def book_frame_def)

lemma foldl_notify_frame: "same_frame b (foldl notify b ns) \<and> ob_l3 (foldl notify b ns) = ob_l3 b"
proof (induction ns arbitrary: b)
  case (Cons n ns)
  then show ?case using notify_frame [of b n] same_frame_trans by fastforce
qed simp

lemma order_notes_simps [simp]:
  "order_notes [] = []" "order_notes (OrderNote u # ns) = u # order_notes ns"
  "order_notes (LevelNote v # ns) = order_notes ns"
  by (simp_all add: order_notes_def)

lemma onOrderUpdate_cong:
  assumes "ob_orders b = ob_orders b'" "ob_md_qty b = ob_md_qty b'" "ob_buffer b = ob_buffer b'"
  shows "ob_md_qty (onOrderUpdate u b) = ob_md_qty (onOrderUpdate u b') \<and>
         ob_buffer (onOrderUpdate u b) = ob_buffer (onOrderUpdate u b')"
  using assms by (simp add: onOrderUpdate_def findOrder_def Let_def split: option.split)

lemma foldl_notify_none:
  "order_notes ns = [] \<Longrightarrow>
   ob_md_qty (foldl notify b ns) = ob_md_qty b \<and> ob_buffer (foldl notify b ns) = ob_buffer b"
proof (induction ns arbitrary: b)
  case (Cons n ns)
  then show ?case by (cases n) (auto simp: notify_def)
qed simp

lemma foldl_notify_one:
  "order_notes ns = [u] \<Longrightarrow>
   ob_md_qty (foldl notify b ns) = ob_md_qty (onOrderUpdate u b) \<and>
   ob_buffer (foldl notify b ns) = ob_buffer (onOrderUpdate u b)"
proof (induction ns arbitrary: b)
  case (Cons n ns)
  show ?case
  proof (cases n)
    case (OrderNote v)
    with Cons.prems show ?thesis
      by (simp add: notify_def [of b] foldl_notify_none)
  next
    case (LevelNote v)
    with Cons show ?thesis
      using onOrderUpdate_cong [of "b\<lparr>ob_level_cache := ob_level_cache b @ [md_level_row v]\<rparr>" b u]
      by (simp add: notify_def)
  qed
qed simp

lemma l3_apply_frame: "l3_apply (ok, l', ns) b = (ok', b') \<Longrightarrow> ok' = ok \<and> same_frame b b' \<and> ob_l3 b' = l'"
  using foldl_notify_frame [of "b\<lparr>ob_l3 := l'\<rparr>" ns] by (auto simp: l3_apply_def same_frame_def book_frame_def)

lemma l3_apply_step:
  assumes "l3_step L I (ob_l3 b) seq s es' ous r"
  obtains b' where "l3_apply r b = (True, b')" "I (ob_l3 b')" "queue L b' s = es'"
    "queue L b' (opposite_side s) = queue L b (opposite_side s)"
    "l3_last_seq L (ob_l3 b') = next_seq (l3_last_seq L (ob_l3 b)) seq" "same_frame b b'"
    "ous = [] \<Longrightarrow> ob_md_qty b' = ob_md_qty b \<and> ob_buffer b' = ob_buffer b"
    "\<And>u. ous = [u] \<Longrightarrow>
       ob_md_qty b' = ob_md_qty (onOrderUpdate u b) \<and> ob_buffer b' = ob_buffer (onOrderUpdate u b)"
proof -
  obtain ok l' ns where r: "r = (ok, l', ns)" by (cases r) auto
  obtain ok' b' where b': "l3_apply r b = (ok', b')" by (cases "l3_apply r b") auto
  have step: "ok" "I l'" "flat (l3_levels L l' s) = es'"
    "l3_levels L l' (opposite_side s) = l3_levels L (ob_l3 b) (opposite_side s)"
    "l3_last_seq L l' = next_seq (l3_last_seq L (ob_l3 b)) seq" "order_notes ns = ous"
    using assms by (auto simp: l3_step_def r)
  have fr: "ok' = ok" "same_frame b b'" "ob_l3 b' = l'"
    using l3_apply_frame [OF b' [unfolded r]] by auto
  have fold: "b' = foldl notify (b\<lparr>ob_l3 := l'\<rparr>) ns" using b' by (simp add: r l3_apply_def)
  have cong: "ob_md_qty (onOrderUpdate u (b\<lparr>ob_l3 := l'\<rparr>)) = ob_md_qty (onOrderUpdate u b) \<and>
      ob_buffer (onOrderUpdate u (b\<lparr>ob_l3 := l'\<rparr>)) = ob_buffer (onOrderUpdate u b)" for u
    by (rule onOrderUpdate_cong) simp_all
  show thesis
  proof (rule that)
    show "l3_apply r b = (True, b')" using b' fr step by simp
    show "ous = [] \<Longrightarrow> ob_md_qty b' = ob_md_qty b \<and> ob_buffer b' = ob_buffer b"
      using foldl_notify_none [of ns "b\<lparr>ob_l3 := l'\<rparr>"] step(6) by (simp add: fold)
    show "ous = [u] \<Longrightarrow> ob_md_qty b' = ob_md_qty (onOrderUpdate u b) \<and>
        ob_buffer b' = ob_buffer (onOrderUpdate u b)" for u
      using foldl_notify_one [of ns u "b\<lparr>ob_l3 := l'\<rparr>"] step(6) cong by (simp add: fold)
  qed (use fr step in \<open>simp_all add: queue_def\<close>)
qed

lemma md_entry_note:
  assumes "ob_orders b (en_id e) = None" and "ob_md_qty b (en_price e) \<noteq> None"
  shows "getMDLevelQty (onOrderUpdate (entry_note s e p' q' pr t) b) p =
           getMDLevelQty b p - (if en_price e = p then en_qty e else 0) + (if p' = p then q' else 0)"
    and "ob_buffer (onOrderUpdate (entry_note s e p' q' pr t) b) = ob_buffer b"
proof -
  obtain x where x: "ob_md_qty b (en_price e) = Some x" using assms(2) by auto
  show "getMDLevelQty (onOrderUpdate (entry_note s e p' q' pr t) b) p =
      getMDLevelQty b p - (if en_price e = p then en_qty e else 0) + (if p' = p then q' else 0)"
    using assms(1) x
    by (cases "ob_md_qty b p'") (auto simp: onOrderUpdate_def findOrder_def entry_note_def
        getMDLevelQty_def add_md_qty_def Let_def)
  show "ob_buffer (onOrderUpdate (entry_note s e p' q' pr t) b) = ob_buffer b"
    using assms(1) by (simp add: onOrderUpdate_def findOrder_def entry_note_def Let_def)
qed

lemma md_add_note:
  assumes "ob_orders b i = None" and "ou_order_id u = i" and "ou_old_price u = 0" and "ou_old_qty u = 0"
  shows "getMDLevelQty (onOrderUpdate u b) p = getMDLevelQty b p + (if ou_price u = p then ou_quantity u else 0)"
    and "ob_buffer (onOrderUpdate u b) = ob_buffer b"
proof -
  show "getMDLevelQty (onOrderUpdate u b) p = getMDLevelQty b p + (if ou_price u = p then ou_quantity u else 0)"
    using assms
    by (cases "ob_md_qty b (ou_price u)"; cases "ob_md_qty b 0")
      (auto simp: onOrderUpdate_def findOrder_def getMDLevelQty_def add_md_qty_def Let_def)
  show "ob_buffer (onOrderUpdate u b) = ob_buffer b"
    using assms by (simp add: onOrderUpdate_def findOrder_def Let_def)
qed

text \<open>A notification about an order of ours: it can only zero that order's leaves.\<close>

lemma sim_note:
  assumes "ob_orders b (ou_order_id u) = Some q"
  shows "ob_md_qty (onOrderUpdate u b) = ob_md_qty b"
    and "ob_buffer (onOrderUpdate u b) =
           (if ou_quantity u = 0 \<and> quantity (ob_buffer b q) \<noteq> 0
            then (ob_buffer b)(q := (ob_buffer b q)\<lparr>leaves_quantity := 0\<rparr>) else ob_buffer b)"
  using assms by (simp_all add: onOrderUpdate_def findOrder_def)

section \<open>The invariant\<close>

lemma obinv_mono: "obinv L I P b \<Longrightarrow> P \<subseteq> Q \<Longrightarrow> obinv L I Q b"
  unfolding obinv_def owned_def by blast

lemma obinv_id_num: "obinv L I P b \<Longrightarrow> ob_orders b i = Some q \<Longrightarrow> id_num (ob_buffer b q) = i"
  by (simp add: obinv_def owned_def)

lemma obinv_live: "obinv L I P b \<Longrightarrow> ob_orders b i = Some q \<Longrightarrow> q \<in> ob_live b"
  by (simp add: obinv_def owned_def)

lemma obinv_real_side: "obinv L I P b \<Longrightarrow> ob_orders b i = Some q \<Longrightarrow> real_side (side (ob_buffer b q))"
  by (simp add: obinv_def owned_def)

lemma obinv_linked: "obinv L I P b \<Longrightarrow> ob_orders b i = Some q \<Longrightarrow> q \<notin> P \<Longrightarrow> linked L b q"
  by (simp add: obinv_def owned_def)

lemma obinv_inj: "obinv L I P b \<Longrightarrow> inj_on (ob_orders b) (dom (ob_orders b))"
  unfolding inj_on_def by (metis domIff obinv_id_num option.exhaust)

lemma obinv_binv: "obinv L I P b \<Longrightarrow> I (ob_l3 b)"
  by (simp add: obinv_def)

lemma phantom_qty_pair:
  "real_side s \<Longrightarrow> phantom_qty L b p =
     psum (ob_orders b) p (queue L b s) + psum (ob_orders b) p (queue L b (opposite_side s))"
  by (cases s) (auto simp: phantom_qty_def real_side_def)

lemma queue_other:
  "real_side s \<Longrightarrow> real_side s' \<Longrightarrow> s' \<noteq> s \<Longrightarrow> s' = opposite_side s"
  by (cases s; cases s') (auto simp: real_side_def)

lemma linked_relink: "obinv L I (insert q P) b \<Longrightarrow> linked L b q \<Longrightarrow> obinv L I P b"
  unfolding obinv_def owned_def by blast

text \<open>Work on an order that is exempt, or that leaves its entry as it is: its ids and its side stay.\<close>

lemma obinv_set_order:
  assumes "obinv L I P b"
    and "p \<in> P \<or> ob_orders b (id_num (ob_buffer b p)) \<noteq> Some p \<or>
         entry_for (f (ob_buffer b p)) = entry_for (ob_buffer b p) \<and> acct_ok (f (ob_buffer b p)) = acct_ok (ob_buffer b p)"
    and "id_num (f (ob_buffer b p)) = id_num (ob_buffer b p)"
    and "side (f (ob_buffer b p)) = side (ob_buffer b p)"
    and "client_order_id (f (ob_buffer b p)) = client_order_id (ob_buffer b p)"
    and "order_id (f (ob_buffer b p)) = order_id (ob_buffer b p)"
  shows "obinv L I P (set_order p f b)"
proof -
  have q: "queue L (set_order p f b) s = queue L b s" for s by (simp add: queue_def)
  have ph: "phantom_qty L (set_order p f b) x = phantom_qty L b x" for x by (simp add: phantom_qty_def q)
  have md: "getMDLevelQty (set_order p f b) x = getMDLevelQty b x" for x by (simp add: getMDLevelQty_def)
  have lk: "linked L (set_order p f b) r = linked L b r" if "r \<noteq> p" for r
    using that by (simp add: linked_def q)
  have same: "linked L (set_order p f b) p"
    if "linked L b p" "entry_for (f (ob_buffer b p)) = entry_for (ob_buffer b p)"
      "acct_ok (f (ob_buffer b p)) = acct_ok (ob_buffer b p)"
    using that assms(4) by (simp add: linked_def q) (simp add: entry_for_def)
  have "owned L P (set_order p f b)"
    unfolding owned_def
  proof (intro allI impI)
    fix i r
    assume "ob_orders (set_order p f b) i = Some r"
    then have o: "ob_orders b i = Some r" by simp
    note fs = obinv_live [OF assms(1) o] obinv_id_num [OF assms(1) o] obinv_real_side [OF assms(1) o]
    have "linked L (set_order p f b) r" if "r \<notin> P"
      using obinv_linked [OF assms(1) o that] that lk [of r] same assms(2) o fs(2) by (cases "r = p") auto
    then show "r \<in> ob_live (set_order p f b) \<and> id_num (ob_buffer (set_order p f b) r) = i \<and>
        real_side (side (ob_buffer (set_order p f b) r)) \<and> (r \<notin> P \<longrightarrow> linked L (set_order p f b) r)"
      using fs assms(3,4) by auto
  qed
  moreover have "indexed (ob_by_client b) client_order_id (set_order p f b)"
    and "indexed (ob_by_order b) order_id (set_order p f b)"
    using assms by (auto simp: obinv_def indexed_def split: if_splits)
  ultimately show ?thesis using assms(1) by (simp add: obinv_def ph md)
qed

lemma indexed_erase:
  assumes ix: "indexed m key b" and own: "ob_orders b (id_num (ob_buffer b q)) = Some q"
    and buf: "ob_buffer b' = ob_buffer b" and ord: "ob_orders b' = (ob_orders b)(id_num (ob_buffer b q) := None)"
  shows "indexed (if key (ob_buffer b q) = [] then m else m(key (ob_buffer b q) := None)) key b'"
  unfolding indexed_def
proof (intro allI)
  fix c r
  let ?m = "if key (ob_buffer b q) = [] then m else m(key (ob_buffer b q) := None)"
  have hit: "m c = Some r \<longleftrightarrow> c \<noteq> [] \<and> key (ob_buffer b r) = c \<and> ob_orders b (id_num (ob_buffer b r)) = Some r" for r
    using ix by (simp add: indexed_def)
  show "?m c = Some r \<longleftrightarrow> c \<noteq> [] \<and> key (ob_buffer b' r) = c \<and> ob_orders b' (id_num (ob_buffer b' r)) = Some r"
  proof (cases "r = q")
    case True
    then show ?thesis using hit [of q] by (simp add: buf ord)
  next
    case False
    have "m (key (ob_buffer b q)) = Some q" if "key (ob_buffer b q) \<noteq> []"
      using ix own that by (simp add: indexed_def)
    then show ?thesis
      using False hit [of r] own by (auto simp: buf ord split: if_splits)
  qed
qed

lemma obinv_erase:
  assumes inv: "obinv L I (insert q P) b" and own: "ob_orders b i = Some q"
    and gone: "i \<notin> en_id ` set (queue L b BUY)" "i \<notin> en_id ` set (queue L b SELL)"
  shows "obinv L I P (eraseOrder q b)"
proof -
  have i: "id_num (ob_buffer b q) = i" using inv own by (rule obinv_id_num)
  have sel [simp]: "ob_buffer (eraseOrder q b) = ob_buffer b" "ob_l3 (eraseOrder q b) = ob_l3 b"
    "ob_orders (eraseOrder q b) = (ob_orders b)(i := None)" "ob_md_qty (eraseOrder q b) = ob_md_qty b"
    "ob_live (eraseOrder q b) = ob_live b"
    by (simp_all add: eraseOrder_def Let_def i)
  have qu: "queue L (eraseOrder q b) s = queue L b s" for s by (simp add: queue_def)
  have "psum ((ob_orders b)(i := None)) x (queue L b s) = psum (ob_orders b) x (queue L b s)"
    if "s = BUY \<or> s = SELL" for x s
    using gone that psum_upd_fresh by blast
  then have ph: "phantom_qty L (eraseOrder q b) x = phantom_qty L b x" for x
    by (simp add: phantom_qty_def qu)
  have uniq: "i' = i" if "ob_orders b i' = Some q" for i'
    using obinv_id_num [OF inv that] i by simp
  have "owned L P (eraseOrder q b)"
    using inv uniq unfolding obinv_def owned_def linked_def qu by auto
  moreover have "indexed (ob_by_client (eraseOrder q b)) client_order_id (eraseOrder q b)"
    using indexed_erase [of "ob_by_client b" client_order_id b q "eraseOrder q b"] inv own i
    by (simp add: obinv_def) (simp add: eraseOrder_def Let_def)
  moreover have "indexed (ob_by_order (eraseOrder q b)) order_id (eraseOrder q b)"
    using indexed_erase [of "ob_by_order b" order_id b q "eraseOrder q b"] inv own i
    by (simp add: obinv_def) (simp add: eraseOrder_def Let_def)
  ultimately show ?thesis
    using inv by (simp add: obinv_def ph) (simp add: getMDLevelQty_def)
qed

text \<open>What one execution leaves.\<close>

definition executed ::
    "'l l3_ops \<Rightarrow> ('l, 'z) book \<Rightarrow> Side \<Rightarrow> entry \<Rightarrow> qty_t \<Rightarrow> time_ns \<Rightarrow> seq_t \<Rightarrow> ('l, 'z) book \<Rightarrow> bool" where
  "executed L b s e q t seq b' \<longleftrightarrow>
     queue L b' s = resize_entry (en_id e) (en_qty e - q) (queue L b s) \<and>
     queue L b' (opposite_side s) = queue L b (opposite_side s) \<and>
     l3_last_seq L (ob_l3 b') = next_seq (l3_last_seq L (ob_l3 b)) seq \<and>
     ob_orders b' = (if q = en_qty e then (ob_orders b)(en_id e := None) else ob_orders b) \<and>
     ob_live b' = ob_live b \<and> book_frame b b' \<and>
     (\<forall>r. ob_buffer b' r = (if ob_orders b (en_id e) = Some r
        then executeOrder (en_price e) q t (ob_buffer b r) else ob_buffer b r))"

context l3_book
begin

lemma queue_distinct:
  assumes "obinv L binv P b"
  shows "real_side s \<Longrightarrow> distinct (map en_id (queue L b s))"
    and "real_side s \<Longrightarrow> en_id ` set (queue L b s) \<inter> en_id ` set (queue L b (opposite_side s)) = {}"
  using ids_distinct [OF obinv_binv [OF assms]]
  by (cases s; auto simp: queue_def real_side_def)+

lemma queue_pos: "obinv L binv P b \<Longrightarrow> real_side s \<Longrightarrow> e \<in> set (queue L b s) \<Longrightarrow> 0 < en_qty e"
  unfolding queue_def using flat_level levels_ok obinv_binv by blast

lemma md_present:
  assumes "obinv L binv P b" and "real_side s" and "e \<in> set (queue L b s)" and "ob_orders b (en_id e) = None"
  shows "ob_md_qty b (en_price e) \<noteq> None"
proof -
  have pos: "0 < en_qty x" if "x \<in> set (queue L b s')" "real_side s'" for x s'
    using queue_pos assms(1) that by blast
  have "0 < psum (ob_orders b) (en_price e) (queue L b s)"
  proof -
    obtain xs ys where sp: "queue L b s = xs @ e # ys" using assms(3) by (meson split_list)
    have "0 < en_qty x" if "x \<in> set xs \<union> set ys" for x
      using pos [of x s] assms(2) that by (auto simp: sp)
    then have "0 \<le> psum (ob_orders b) (en_price e) xs" "0 \<le> psum (ob_orders b) (en_price e) ys"
      by (auto intro!: psum_nonneg)
    moreover have "phantom_in (ob_orders b) (en_price e) e = en_qty e"
      using assms(4) by (simp add: phantom_in_def)
    ultimately show ?thesis using pos [OF assms(3,2)] sp by simp
  qed
  moreover have "0 \<le> psum (ob_orders b) (en_price e) (queue L b (opposite_side s))"
    using pos assms(2) by (intro psum_nonneg) (auto simp: real_side_def)
  ultimately have "0 < getMDLevelQty b (en_price e)"
    using assms(1) by (simp add: obinv_def phantom_qty_pair [OF assms(2)])
  then show ?thesis by (cases "ob_md_qty b (en_price e)") (simp_all add: getMDLevelQty_def)
qed

text \<open>A mutation of phantom liquidity on side \<open>s\<close> that keeps our entries and books its quantity.\<close>

lemma phantom_step:
  assumes inv: "obinv L binv P b" and s: "real_side s"
    and step: "l3_step L binv (ob_l3 b) seq s es' [u] r"
    and buf: "ob_buffer (onOrderUpdate u b) = ob_buffer b"
    and ours: "\<And>x. ob_orders b (en_id x) \<noteq> None \<Longrightarrow> x \<in> set (queue L b s) \<Longrightarrow> x \<in> set es'"
    and md: "\<And>x. getMDLevelQty (onOrderUpdate u b) x =
               getMDLevelQty b x + psum (ob_orders b) x es' - psum (ob_orders b) x (queue L b s)"
  obtains b' where "l3_apply r b = (True, b')" "obinv L binv P b'" "queue L b' s = es'"
    "queue L b' (opposite_side s) = queue L b (opposite_side s)"
    "l3_last_seq L (ob_l3 b') = next_seq (l3_last_seq L (ob_l3 b)) seq" "same_frame b b'"
    "ob_buffer b' = ob_buffer b"
proof -
  from step obtain b' where b': "l3_apply r b = (True, b')" "binv (ob_l3 b')" "queue L b' s = es'"
    "queue L b' (opposite_side s) = queue L b (opposite_side s)"
    "l3_last_seq L (ob_l3 b') = next_seq (l3_last_seq L (ob_l3 b)) seq" and fr: "same_frame b b'"
    and note': "ob_md_qty b' = ob_md_qty (onOrderUpdate u b)" "ob_buffer b' = ob_buffer (onOrderUpdate u b)"
    by (rule l3_apply_step) blast
  have buf': "ob_buffer b' = ob_buffer b" using buf note' by simp
  have frame: "ob_orders b' = ob_orders b" "ob_live b' = ob_live b" "ob_by_client b' = ob_by_client b"
    "ob_by_order b' = ob_by_order b"
    using fr by (simp_all add: same_frame_def)
  have keep: "x \<in> set (queue L b' s')"
    if "x \<in> set (queue L b s')" "real_side s'" "ob_orders b (en_id x) \<noteq> None" for x s'
    using that b'(3,4) ours queue_other [OF s, of s'] by (cases "s' = s") auto
  have "linked L b' q" if "linked L b q" "ob_orders b (id_num (ob_buffer b q)) = Some q"
    "real_side (side (ob_buffer b q))" for q
    using that keep [of "entry_for (ob_buffer b q)" "side (ob_buffer b q)"]
    by (simp add: linked_def buf') (simp add: entry_for_def)
  then have "owned L P b'"
    using inv by (auto simp: obinv_def owned_def buf' frame)
  moreover have "getMDLevelQty b' x = phantom_qty L b' x" for x
    using inv md [of x] b'(3,4) note'(1)
    by (simp add: obinv_def phantom_qty_pair [OF s] frame) (simp add: getMDLevelQty_def)
  ultimately have "obinv L binv P b'"
    using inv b'(2) by (simp add: obinv_def indexed_def buf' frame)
  then show thesis using that b' fr buf' by blast
qed

text \<open>A mutation of the entry of order \<open>q\<close>, which is exempt while it happens.\<close>

lemma sim_step:
  assumes inv: "obinv L binv (insert q P) b" and s: "real_side s" and own: "ob_orders b (ou_order_id u) = Some q"
    and step: "l3_step L binv (ob_l3 b) seq s es' [u] r"
    and others: "\<And>x. en_id x \<noteq> ou_order_id u \<Longrightarrow> x \<in> set (queue L b s) \<Longrightarrow> x \<in> set es'"
    and md: "\<And>x. psum (ob_orders b) x es' = psum (ob_orders b) x (queue L b s)"
  obtains b' where "l3_apply r b = (True, b')" "obinv L binv (insert q P) b'" "queue L b' s = es'"
    "queue L b' (opposite_side s) = queue L b (opposite_side s)"
    "l3_last_seq L (ob_l3 b') = next_seq (l3_last_seq L (ob_l3 b)) seq" "same_frame b b'"
    "ob_buffer b' = (if ou_quantity u = 0 \<and> quantity (ob_buffer b q) \<noteq> 0
        then (ob_buffer b)(q := (ob_buffer b q)\<lparr>leaves_quantity := 0\<rparr>) else ob_buffer b)"
proof -
  from step obtain b' where b': "l3_apply r b = (True, b')" "binv (ob_l3 b')" "queue L b' s = es'"
    "queue L b' (opposite_side s) = queue L b (opposite_side s)"
    "l3_last_seq L (ob_l3 b') = next_seq (l3_last_seq L (ob_l3 b)) seq" and fr: "same_frame b b'"
    and note': "ob_md_qty b' = ob_md_qty (onOrderUpdate u b)" "ob_buffer b' = ob_buffer (onOrderUpdate u b)"
    by (rule l3_apply_step) blast
  note buf = note'(2) [unfolded sim_note(2) [OF own]]
  have buf_other: "ob_buffer b' r = ob_buffer b r" if "r \<noteq> q" for r using buf that by simp
  have keys: "id_num (ob_buffer b' r) = id_num (ob_buffer b r)" "side (ob_buffer b' r) = side (ob_buffer b r)"
    "client_order_id (ob_buffer b' r) = client_order_id (ob_buffer b r)"
    "order_id (ob_buffer b' r) = order_id (ob_buffer b r)" for r
    using buf by (auto split: if_splits)
  have frame: "ob_orders b' = ob_orders b" "ob_live b' = ob_live b" "ob_by_client b' = ob_by_client b"
    "ob_by_order b' = ob_by_order b"
    using fr by (simp_all add: same_frame_def)
  have "linked L b' r" if l: "linked L b r" "r \<noteq> q" "ob_orders b (id_num (ob_buffer b r)) = Some r"
    "real_side (side (ob_buffer b r))" for r
  proof -
    have "id_num (ob_buffer b r) \<noteq> ou_order_id u" using l own by auto
    then have "entry_for (ob_buffer b r) \<in> set (queue L b' (side (ob_buffer b r)))"
      using l(1,4) b'(3,4) others queue_other [OF s, of "side (ob_buffer b r)"]
      by (cases "side (ob_buffer b r) = s") (auto simp: linked_def entry_for_def)
    then show ?thesis using l(1) by (simp add: linked_def buf_other [OF l(2)])
  qed
  then have "owned L (insert q P) b'"
    using inv unfolding obinv_def owned_def frame keys by blast
  moreover have "getMDLevelQty b' x = phantom_qty L b' x" for x
    using inv md [of x] b'(3,4) note'(1) sim_note(1) [OF own]
    by (simp add: obinv_def phantom_qty_pair [OF s] frame) (simp add: getMDLevelQty_def)
  ultimately have "obinv L binv (insert q P) b'"
    using inv b'(2) by (simp add: obinv_def indexed_def frame keys)
  then show thesis using that b' fr buf by blast
qed

lemma owner_entry:
  assumes inv: "obinv L binv P b" and s: "real_side s" and e: "e \<in> set (queue L b s)"
    and own: "ob_orders b (en_id e) = Some r" "r \<notin> P"
  shows "side (ob_buffer b r) = s" and "e = entry_for (ob_buffer b r)"
proof -
  let ?x = "entry_for (ob_buffer b r)" and ?t = "side (ob_buffer b r)"
  have x: "?x \<in> set (queue L b ?t)" using obinv_linked [OF inv own] by (simp add: linked_def)
  have t: "real_side ?t" and id: "en_id ?x = en_id e"
    using obinv_real_side [OF inv own(1)] obinv_id_num [OF inv own(1)] by (simp_all add: entry_for_def)
  show st: "?t = s"
  proof (rule ccontr)
    assume "?t \<noteq> s"
    then have "?t = opposite_side s" using queue_other s t by blast
    then have "en_id e \<in> en_id ` set (queue L b s) \<inter> en_id ` set (queue L b (opposite_side s))"
      using x e id imageI [of e "set (queue L b s)" en_id] imageI [of ?x "set (queue L b ?t)" en_id] by simp
    then show False using queue_distinct(2) [OF inv s] by simp
  qed
  show "e = ?x"
    using queue_distinct(1) [OF inv s] x e id by (simp add: st distinct_map inj_on_def)
qed

lemma execute_phantom:
  assumes inv: "obinv L binv P b" and s: "real_side s" and e: "e \<in> set (queue L b s)"
    and q: "0 < q" "q \<le> en_qty e" and seq: "seq = 0 \<or> l3_last_seq L (ob_l3 b) \<le> seq"
    and none: "ob_orders b (en_id e) = None"
  obtains b' where "book_executeOrder L (en_id e) q t seq lb b = (True, b')" "obinv L binv P b'"
    "executed L b s e q t seq b'"
proof -
  let ?u = "entry_note s e (en_price e) (en_qty e - q) (en_prio e) t"
  let ?es = "resize_entry (en_id e) (en_qty e - q) (queue L b s)"
  have law: "l3_step L binv (ob_l3 b) seq s ?es [?u] (l3_execute L (ob_l3 b) (en_id e) q t seq lb)"
    using execute_law [OF obinv_binv [OF inv] s seq] e q by (simp add: queue_def)
  note md = md_entry_note [OF none md_present [OF inv s e none]]
  have ours: "x \<in> set ?es" if "ob_orders b (en_id x) \<noteq> None" "x \<in> set (queue L b s)" for x
    using that none by (subst set_resize_entry_other) auto
  have book: "getMDLevelQty (onOrderUpdate ?u b) x =
      getMDLevelQty b x + psum (ob_orders b) x ?es - psum (ob_orders b) x (queue L b s)" for x
    using q none by (simp add: md(1) psum_resize_entry [OF queue_distinct(1) [OF inv s] e] phantom_in_def)
  obtain b' where b': "l3_apply (l3_execute L (ob_l3 b) (en_id e) q t seq lb) b = (True, b')"
    "obinv L binv P b'" "queue L b' s = ?es" "queue L b' (opposite_side s) = queue L b (opposite_side s)"
    "l3_last_seq L (ob_l3 b') = next_seq (l3_last_seq L (ob_l3 b)) seq" "same_frame b b'"
    "ob_buffer b' = ob_buffer b"
    by (rule phantom_step [OF inv s law md(2) ours book]) blast+
  have "book_executeOrder L (en_id e) q t seq lb b = (True, b')"
    using seq b'(1) none by (auto simp: book_executeOrder_def findOrder_def base_executeOrder_def)
  moreover have "executed L b s e q t seq b'"
    using b' none by (auto simp: executed_def same_frame_def fun_upd_idem)
  ultimately show thesis using that b'(2) by blast
qed

text \<open>The part of an execution of our own order that happens before the lookup maps are touched.\<close>

lemma execute_sim_base:
  assumes inv: "obinv L binv P b" and s: "real_side s" and e: "e \<in> set (queue L b s)"
    and q: "0 < q" "q \<le> en_qty e" and seq: "seq = 0 \<or> l3_last_seq L (ob_l3 b) \<le> seq"
    and own: "ob_orders b (en_id e) = Some r" "r \<notin> P"
  obtains b' where
    "base_executeOrder L (en_id e) q t seq lb (set_order r (executeOrder (price (ob_buffer b r)) q t) b) = (True, b')"
    "obinv L binv (insert r P) b'" "ob_orders b' = ob_orders b"
    "executed L b s e q t seq (b'\<lparr>ob_orders := (if q = en_qty e then (ob_orders b)(en_id e := None) else ob_orders b)\<rparr>)"
proof -
  note oe = owner_entry [OF inv s e own]
  let ?o = "ob_buffer b r"
  let ?b1 = "set_order r (executeOrder (price ?o) q t) b"
  let ?u = "entry_note s e (en_price e) (en_qty e - q) (en_prio e) t"
  let ?es = "resize_entry (en_id e) (en_qty e - q) (queue L b s)"
  have sel: "en_price e = price ?o" "en_qty e = leaves_quantity ?o"
    using oe(2) by (simp_all add: entry_for_def)
  have qu1: "queue L ?b1 s' = queue L b s'" for s' by (simp add: queue_def)
  have inv1: "obinv L binv (insert r P) ?b1"
    by (rule obinv_set_order [OF obinv_mono [OF inv]]) auto
  have law: "l3_step L binv (ob_l3 ?b1) seq s ?es [?u] (l3_execute L (ob_l3 ?b1) (en_id e) q t seq lb)"
    using execute_law [OF obinv_binv [OF inv] s seq] e q by (simp add: queue_def)
  have own1: "ob_orders ?b1 (ou_order_id ?u) = Some r" using own by (simp add: entry_note_def)
  have others: "x \<in> set ?es" if "en_id x \<noteq> ou_order_id ?u" "x \<in> set (queue L ?b1 s)" for x
    using that by (subst set_resize_entry_other) (auto simp: entry_note_def qu1)
  have ps: "psum (ob_orders ?b1) x ?es = psum (ob_orders ?b1) x (queue L ?b1 s)" for x
    using q own by (simp add: qu1 psum_resize_entry [OF queue_distinct(1) [OF inv s] e] phantom_in_def)
  obtain b' where b': "l3_apply (l3_execute L (ob_l3 ?b1) (en_id e) q t seq lb) ?b1 = (True, b')"
    "obinv L binv (insert r P) b'" "queue L b' s = ?es" "queue L b' (opposite_side s) = queue L ?b1 (opposite_side s)"
    "l3_last_seq L (ob_l3 b') = next_seq (l3_last_seq L (ob_l3 ?b1)) seq" "same_frame ?b1 b'"
    and buf: "ob_buffer b' = (if ou_quantity ?u = 0 \<and> quantity (ob_buffer ?b1 r) \<noteq> 0
        then (ob_buffer ?b1)(r := (ob_buffer ?b1 r)\<lparr>leaves_quantity := 0\<rparr>) else ob_buffer ?b1)"
    by (rule sim_step [OF inv1 s own1 law others ps]) blast+
  have noop: "w\<lparr>leaves_quantity := 0\<rparr> = w" if "leaves_quantity w = 0" for w :: Order
    using that by (cases w) simp
  have "ob_buffer b' x = (if x = r then executeOrder (en_price e) q t ?o else ob_buffer b x)" for x
    using sel noop [of "executeOrder (price ?o) q t ?o"] by (simp add: buf entry_note_def)
  moreover have "ob_orders b' = ob_orders b" "ob_live b' = ob_live b" "book_frame b b'"
    using b'(6) book_frame_trans [of b ?b1 b'] by (simp_all add: same_frame_def)
  ultimately show thesis
    using that [of b'] b'(1-5) own by (auto simp: executed_def base_executeOrder_def qu1 queue_def book_frame_def)
qed

lemma execute_sim:
  assumes inv: "obinv L binv P b" and s: "real_side s" and e: "e \<in> set (queue L b s)"
    and q: "0 < q" "q \<le> en_qty e" and seq: "seq = 0 \<or> l3_last_seq L (ob_l3 b) \<le> seq"
    and own: "ob_orders b (en_id e) = Some r" "r \<notin> P"
  obtains b' where "book_executeOrder L (en_id e) q t seq lb b = (True, b')" "obinv L binv P b'"
    "executed L b s e q t seq b'"
proof -
  note oe = owner_entry [OF inv s e own]
  let ?o = "ob_buffer b r"
  let ?es = "resize_entry (en_id e) (en_qty e - q) (queue L b s)"
  have sel: "en_price e = price ?o" "en_qty e = leaves_quantity ?o" "en_id e = id_num ?o" "en_prio e = priority ?o"
    using oe(2) by (simp_all add: entry_for_def)
  obtain b2 where run: "base_executeOrder L (en_id e) q t seq lb (set_order r (executeOrder (price ?o) q t) b) = (True, b2)"
    and inv2: "obinv L binv (insert r P) b2" and ord: "ob_orders b2 = ob_orders b"
    and ex: "executed L b s e q t seq (b2\<lparr>ob_orders := (if q = en_qty e then (ob_orders b)(en_id e := None) else ob_orders b)\<rparr>)"
    by (rule execute_sim_base [OF assms])
  have buf: "ob_buffer b2 r = executeOrder (en_price e) q t ?o" using ex own by (simp add: executed_def)
  have qs: "queue L b2 s = ?es" "queue L b2 (opposite_side s) = queue L b (opposite_side s)"
    using ex by (simp_all add: executed_def queue_def)
  show thesis
  proof (cases "q = en_qty e")
    case False
    have "e\<lparr>en_qty := en_qty e - q\<rparr> \<in> set ?es" using e False q unfolding resize_entry_def by force
    moreover have "entry_for (ob_buffer b2 r) = e\<lparr>en_qty := en_qty e - q\<rparr>"
      using oe(2) by (simp add: buf entry_for_def)
    moreover have "0 < priority ?o" "acct_ok (executeOrder (en_price e) q t ?o)"
      using obinv_linked [OF inv own] executeOrder_acct q sel by (auto simp: linked_def)
    ultimately have "linked L b2 r" using qs(1) oe(1) by (simp add: linked_def buf)
    then have "obinv L binv P b2" using linked_relink inv2 by blast
    moreover have "book_executeOrder L (en_id e) q t seq lb b = (True, b2)"
      using seq run own sel False by (auto simp: book_executeOrder_def findOrder_def Let_def buf)
    moreover have "executed L b s e q t seq b2"
      using ex False ord [symmetric] by simp
    ultimately show thesis using that by blast
  next
    case True
    have "en_id e \<notin> en_id ` set ?es" using True by (auto simp: resize_entry_def set_remove_entry)
    moreover have "en_id e \<notin> en_id ` set (queue L b (opposite_side s))"
      using queue_distinct(2) [OF inv s] e by blast
    ultimately have "en_id e \<notin> en_id ` set (queue L b2 s')" if "real_side s'" for s'
      using qs queue_other [OF s that] by (cases "s' = s") auto
    then have "obinv L binv P (eraseOrder r b2)"
      using inv2 own ord by (intro obinv_erase) (auto simp: real_side_def)
    moreover have "book_executeOrder L (en_id e) q t seq lb b = (True, eraseOrder r b2)"
      using seq run own sel True
      by (auto simp: book_executeOrder_def findOrder_def Let_def buf eraseOrder_def)
    moreover have "executed L b s e q t seq (eraseOrder r b2)"
      using ex True ord sel by (simp add: executed_def eraseOrder_def Let_def queue_def book_frame_def buf)
    ultimately show thesis using that by blast
  qed
qed

lemma execute_ok:
  assumes "obinv L binv P b" and "real_side s" and "e \<in> set (queue L b s)"
    and "0 < q" "q \<le> en_qty e" and "seq = 0 \<or> l3_last_seq L (ob_l3 b) \<le> seq"
    and "\<And>r. ob_orders b (en_id e) = Some r \<Longrightarrow> r \<notin> P"
  obtains b' where "book_executeOrder L (en_id e) q t seq lb b = (True, b')" "obinv L binv P b'"
    "executed L b s e q t seq b'"
proof (cases "ob_orders b (en_id e)")
  case None
  show thesis by (rule execute_phantom [OF assms(1-6) None]) (rule that)
next
  case (Some r)
  show thesis by (rule execute_sim [OF assms(1-6) Some assms(7) [OF Some]]) (rule that)
qed

end

end
