(* ===== verification/Book_Operations.thy ===== *)
theory Book_Operations
  imports Book_Invariant
begin

text \<open>
  What the operations of \<open>order_book.hpp\<close> do to the queues and to the invariant: resting,
  cancelling and amending an order of ours, adding, changing and deleting phantom liquidity,
  and \<open>clearMDOrders\<close>. The properties at the end state it over the operations themselves.
\<close>

section \<open>Drawing a priority and indexing\<close>

lemma nextOrderPriority_sel [simp]:
  "fst (nextOrderPriority b) = ob_next_priority b + 1"
  "snd (nextOrderPriority b) = b\<lparr>ob_next_priority := ob_next_priority b + 1\<rparr>"
  by (simp_all add: nextOrderPriority_def)

lemma drawPriority_eq:
  "drawPriority p b = set_order p (\<lambda>order. order\<lparr>priority := ob_next_priority b + 1\<rparr>)
     (b\<lparr>ob_next_priority := ob_next_priority b + 1\<rparr>)"
  by (simp add: drawPriority_def nextOrderPriority_def)

lemma drawPriority_sel [simp]:
  "ob_l3 (drawPriority p b) = ob_l3 b" "ob_orders (drawPriority p b) = ob_orders b"
  "ob_live (drawPriority p b) = ob_live b" "ob_by_client (drawPriority p b) = ob_by_client b"
  "ob_by_order (drawPriority p b) = ob_by_order b" "ob_md_qty (drawPriority p b) = ob_md_qty b"
  "ob_next_priority (drawPriority p b) = ob_next_priority b + 1"
  "ob_buffer (drawPriority p b) = (ob_buffer b)(p := (ob_buffer b p)\<lparr>priority := ob_next_priority b + 1\<rparr>)"
  by (simp_all add: drawPriority_eq)

lemma queue_drawPriority [simp]: "queue L (drawPriority p b) s = queue L b s"
  by (simp add: queue_def)

lemma queue_priority_field [simp]: "queue L (b\<lparr>ob_next_priority := n\<rparr>) s = queue L b s"
  by (simp add: queue_def)

lemma queue_set_order [simp]: "queue L (set_order p f b) s = queue L b s"
  by (simp add: queue_def)

lemma queue_eraseOrder [simp]: "queue L (eraseOrder p b) s = queue L b s"
  by (simp add: queue_def eraseOrder_def Let_def)

lemma obinv_priority_field: "obinv L I P (b\<lparr>ob_next_priority := n\<rparr>) = obinv L I P b"
  by (simp add: obinv_def owned_def linked_def indexed_def phantom_qty_def getMDLevelQty_def)

lemma indexOrder_sel [simp]:
  "ob_buffer (indexOrder p b) = ob_buffer b" "ob_l3 (indexOrder p b) = ob_l3 b"
  "ob_md_qty (indexOrder p b) = ob_md_qty b" "ob_live (indexOrder p b) = ob_live b"
  "ob_next_priority (indexOrder p b) = ob_next_priority b"
  by (simp_all add: indexOrder_def Let_def)

lemma indexOrder_orders:
  "ob_orders b (id_num (ob_buffer b p)) = None \<Longrightarrow>
   ob_orders (indexOrder p b) = (ob_orders b)(id_num (ob_buffer b p) \<mapsto> p)"
  by (simp add: indexOrder_def Let_def emplace_def)

lemma indexed_emplace:
  assumes ix: "indexed m key b" and fresh: "ob_orders b (id_num (ob_buffer b p)) = None"
    and key: "key (ob_buffer b p) = [] \<or> m (key (ob_buffer b p)) = None"
    and buf: "ob_buffer b' = ob_buffer b" and ord: "ob_orders b' = (ob_orders b)(id_num (ob_buffer b p) \<mapsto> p)"
    and noid: "\<And>q. ob_orders b (id_num (ob_buffer b q)) = Some q \<Longrightarrow> q \<noteq> p"
  shows "indexed (if key (ob_buffer b p) = [] then m else emplace (key (ob_buffer b p)) p m) key b'"
  unfolding indexed_def
proof (intro allI)
  fix c r
  let ?m = "if key (ob_buffer b p) = [] then m else emplace (key (ob_buffer b p)) p m"
  have hit: "m c = Some r \<longleftrightarrow> c \<noteq> [] \<and> key (ob_buffer b r) = c \<and> ob_orders b (id_num (ob_buffer b r)) = Some r"
    using ix by (simp add: indexed_def)
  show "?m c = Some r \<longleftrightarrow> c \<noteq> [] \<and> key (ob_buffer b' r) = c \<and> ob_orders b' (id_num (ob_buffer b' r)) = Some r"
  proof (cases "r = p")
    case True
    then show ?thesis using hit key fresh by (auto simp: emplace_def buf ord split: if_splits)
  next
    case False
    then show ?thesis using hit key fresh by (auto simp: emplace_def buf ord split: if_splits)
  qed
qed

text \<open>An order that may be rested: a live slot, not indexed, with ids nobody uses.\<close>

definition restable :: "'l l3_ops \<Rightarrow> ('l, 'z) book \<Rightarrow> ptr \<Rightarrow> bool" where
  "restable L b p \<longleftrightarrow>
     (let ord = ob_buffer b p in
        p \<in> ob_live b \<and> p \<notin> ran (ob_orders b) \<and> ob_orders b (id_num ord) = None \<and>
        id_num ord \<notin> en_id ` set (queue L b BUY) \<and> id_num ord \<notin> en_id ` set (queue L b SELL) \<and>
        (client_order_id ord = [] \<or> ob_by_client b (client_order_id ord) = None) \<and>
        (order_id ord = [] \<or> ob_by_order b (order_id ord) = None) \<and> real_side (side ord))"

lemma obinv_index:
  assumes inv: "obinv L I P b" and rest: "restable L b p"
  shows "obinv L I (insert p P) (indexOrder p b)"
proof -
  let ?i = "id_num (ob_buffer b p)" and ?b = "indexOrder p b"
  have fresh: "ob_orders b ?i = None" and live: "p \<in> ob_live b" and side: "real_side (side (ob_buffer b p))"
    and out: "p \<notin> ran (ob_orders b)"
    using rest by (simp_all add: restable_def Let_def)
  have ord: "ob_orders ?b = (ob_orders b)(?i \<mapsto> p)" using fresh by (rule indexOrder_orders)
  have qu: "queue L ?b s = queue L b s" for s by (simp add: queue_def)
  have "psum ((ob_orders b)(?i \<mapsto> p)) x (queue L b s) = psum (ob_orders b) x (queue L b s)"
    if "s = BUY \<or> s = SELL" for x s
    using rest that by (intro psum_upd_fresh) (auto simp: restable_def Let_def)
  then have ph: "phantom_qty L ?b x = phantom_qty L b x" for x by (simp add: phantom_qty_def qu ord)
  have "owned L (insert p P) ?b"
    using inv live side out unfolding obinv_def owned_def linked_def qu ord by (auto simp: ran_def)
  moreover have noid: "q \<noteq> p" if "ob_orders b (id_num (ob_buffer b q)) = Some q" for q
    using that out by (auto simp: ran_def)
  have "indexed (ob_by_client ?b) client_order_id ?b"
    using indexed_emplace [of "ob_by_client b" client_order_id b p ?b] inv fresh rest ord noid
    by (simp add: obinv_def restable_def Let_def) (simp add: indexOrder_def Let_def)
  moreover have "indexed (ob_by_order ?b) order_id ?b"
    using indexed_emplace [of "ob_by_order b" order_id b p ?b] inv fresh rest ord noid
    by (simp add: obinv_def restable_def Let_def) (simp add: indexOrder_def Let_def)
  ultimately show ?thesis using inv by (simp add: obinv_def ph) (simp add: getMDLevelQty_def)
qed

lemma restable_set_order:
  assumes "restable L b p" and "id_num (f (ob_buffer b p)) = id_num (ob_buffer b p)"
    and "client_order_id (f (ob_buffer b p)) = client_order_id (ob_buffer b p)"
    and "order_id (f (ob_buffer b p)) = order_id (ob_buffer b p)"
    and "side (f (ob_buffer b p)) = side (ob_buffer b p)"
  shows "restable L (set_order p f b) p"
  using assms by (simp add: restable_def Let_def)

section \<open>Resting an order\<close>

definition rested :: "'l l3_ops \<Rightarrow> ptr \<Rightarrow> seq_t \<Rightarrow> ('l, 'z) book \<Rightarrow> ('l, 'z) book \<Rightarrow> bool" where
  "rested L p seq b b' \<longleftrightarrow>
     (let ord = (ob_buffer b p)\<lparr>priority := ob_next_priority b + 1\<rparr> in
        queue L b' (side ord) = insert_entry (side ord) (entry_for ord) (queue L b (side ord)) \<and>
        queue L b' (opposite_side (side ord)) = queue L b (opposite_side (side ord)) \<and>
        ob_orders b' = (ob_orders b)(id_num ord \<mapsto> p) \<and> ob_live b' = ob_live b \<and>
        ob_buffer b' = (ob_buffer b)(p := ord) \<and>
        ob_next_priority b' = ob_next_priority b + 1 \<and>
        l3_last_seq L (ob_l3 b') = next_seq (l3_last_seq L (ob_l3 b)) seq)"

context l3_book
begin

lemma add_sim_base:
  assumes inv: "obinv L binv (insert p P) b" and ord: "ord = ob_buffer b p" and own: "ob_orders b (id_num ord) = Some p"
    and ids: "id_num ord \<notin> en_id ` set (queue L b BUY @ queue L b SELL)" and pos: "0 < leaves_quantity ord"
    and prio: "0 < priority ord" and acct: "acct_ok ord" and seq: "seq = 0 \<or> l3_last_seq L (ob_l3 b) \<le> seq"
  obtains b' where
    "base_addOrder L (id_num ord) (side ord) (price ord) (leaves_quantity ord) t (priority ord) seq lb b = (True, b')"
    "obinv L binv P b'" "queue L b' (side ord) = insert_entry (side ord) (entry_for ord) (queue L b (side ord))"
    "queue L b' (opposite_side (side ord)) = queue L b (opposite_side (side ord))"
    "l3_last_seq L (ob_l3 b') = next_seq (l3_last_seq L (ob_l3 b)) seq" "same_frame b b'" "ob_buffer b' = ob_buffer b"
proof -
  let ?s = "side ord"
  let ?es = "insert_entry ?s (entry_for ord) (queue L b ?s)"
  let ?u = "\<lparr>ou_order_id = id_num ord, ou_side = ?s, ou_price = price ord, ou_quantity = leaves_quantity ord,
      ou_old_price = 0, ou_old_qty = 0, ou_priority = priority ord, ou_timestamp = t\<rparr>"
  let ?r = "l3_add L (ob_l3 b) (id_num ord) ?s (price ord) (leaves_quantity ord) t (priority ord) seq lb"
  have s: "real_side ?s" using obinv_real_side [OF inv own] ord by simp
  have law: "l3_step L binv (ob_l3 b) seq ?s ?es [?u] ?r"
    using add_law [OF obinv_binv [OF inv] s seq, of "id_num ord" "leaves_quantity ord" "price ord" "priority ord" t lb]
      ids pos prio by (simp add: queue_def entry_for_def eff_prio_def)
  have own1: "ob_orders b (ou_order_id ?u) = Some p" using own by simp
  have others: "x \<in> set ?es" if "x \<in> set (queue L b ?s)" for x using that by simp
  have ps: "psum (ob_orders b) x ?es = psum (ob_orders b) x (queue L b ?s)" for x
    using own by (simp add: phantom_in_def entry_for_def)
  obtain b' where b': "l3_apply ?r b = (True, b')" "obinv L binv (insert p P) b'" "queue L b' ?s = ?es"
    "queue L b' (opposite_side ?s) = queue L b (opposite_side ?s)"
    "l3_last_seq L (ob_l3 b') = next_seq (l3_last_seq L (ob_l3 b)) seq" "same_frame b b'"
    and buf: "ob_buffer b' = (if ou_quantity ?u = 0 \<and> quantity (ob_buffer b p) \<noteq> 0
        then (ob_buffer b)(p := (ob_buffer b p)\<lparr>leaves_quantity := 0\<rparr>) else ob_buffer b)"
    by (rule sim_step [OF inv s own1 law others ps]) blast+
  have buf': "ob_buffer b' = ob_buffer b" using buf pos by simp
  have "linked L b' p" using b'(3) acct prio by (simp add: linked_def buf' ord [symmetric])
  then have "obinv L binv P b'" using linked_relink b'(2) by blast
  then show thesis using that b' buf' by (simp add: base_addOrder_def)
qed

lemma addOrder_ok:
  assumes inv: "obinv L binv P b" and rest: "restable L b p" and pos: "0 < leaves_quantity (ob_buffer b p)"
    and acct: "acct_ok (ob_buffer b p)" and seq: "seq = 0 \<or> l3_last_seq L (ob_l3 b) \<le> seq"
  shows "obinv L binv P (addOrder L p t seq lb b)" and "rested L p seq b (addOrder L p t seq lb b)"
proof -
  let ?n = "ob_next_priority b + 1"
  let ?ord = "(ob_buffer b p)\<lparr>priority := ?n\<rparr>"
  let ?b1 = "indexOrder p (drawPriority p b)"
  have out: "p \<notin> ran (ob_orders b)" and new: "ob_orders b (id_num ?ord) = None"
    and ids: "id_num ?ord \<notin> en_id ` set (queue L b BUY @ queue L b SELL)"
    using rest by (auto simp: restable_def Let_def)
  have "obinv L binv P (drawPriority p b)"
    unfolding drawPriority_eq using inv out by (intro obinv_set_order) (auto simp: obinv_priority_field ran_def)
  moreover have "restable L (drawPriority p b) p"
    unfolding drawPriority_eq using rest by (intro restable_set_order) (auto simp: restable_def Let_def)
  ultimately have inv1: "obinv L binv (insert p P) ?b1" by (rule obinv_index)
  have ord1: "ob_orders ?b1 = (ob_orders b)(id_num ?ord \<mapsto> p)" using new by (simp add: indexOrder_orders)
  have buf1: "?ord = ob_buffer ?b1 p" and l31: "ob_l3 ?b1 = ob_l3 b" and qu1: "\<And>s'. queue L ?b1 s' = queue L b s'"
    by (simp_all add: queue_def)
  obtain b' where b': "base_addOrder L (id_num ?ord) (side ?ord) (price ?ord) (leaves_quantity ?ord) t (priority ?ord) seq lb ?b1 = (True, b')"
    "obinv L binv P b'" "queue L b' (side ?ord) = insert_entry (side ?ord) (entry_for ?ord) (queue L ?b1 (side ?ord))"
    "queue L b' (opposite_side (side ?ord)) = queue L ?b1 (opposite_side (side ?ord))"
    "l3_last_seq L (ob_l3 b') = next_seq (l3_last_seq L (ob_l3 ?b1)) seq" "same_frame ?b1 b'" "ob_buffer b' = ob_buffer ?b1"
    by (rule add_sim_base [OF inv1 buf1, of seq])
      (use ord1 ids pos acct seq in \<open>simp_all add: qu1 l31 acct_ok_def\<close>)
  have run: "addOrder L p t seq lb b = b'"
    using b'(1) by (simp add: addOrder_def Let_def)
  show "obinv L binv P (addOrder L p t seq lb b)" using b'(2) run by simp
  show "rested L p seq b (addOrder L p t seq lb b)"
    using b'(3-7) by (simp add: rested_def Let_def run qu1 l31 same_frame_def book_frame_def ord1)
qed

end

section \<open>Cancelling an order\<close>

definition cancelled :: "'l l3_ops \<Rightarrow> ptr \<Rightarrow> seq_t \<Rightarrow> ('l, 'z) book \<Rightarrow> ('l, 'z) book \<Rightarrow> bool" where
  "cancelled L p seq b b' \<longleftrightarrow>
     (let ord = ob_buffer b p in
        queue L b' (side ord) = remove_entry (id_num ord) (queue L b (side ord)) \<and>
        queue L b' (opposite_side (side ord)) = queue L b (opposite_side (side ord)) \<and>
        ob_orders b' = (ob_orders b)(id_num ord := None) \<and> ob_live b' = ob_live b \<and>
        ob_buffer b' = (ob_buffer b)(p := ord\<lparr>leaves_quantity := 0\<rparr>) \<and> book_frame b b' \<and>
        l3_last_seq L (ob_l3 b') = next_seq (l3_last_seq L (ob_l3 b)) seq)"

context l3_book
begin

lemma gone_everywhere:
  assumes "obinv L binv P b" and "real_side s" and "e \<in> set (queue L b s)"
    and "queue L b' s = es'" and "en_id e \<notin> en_id ` set es'"
    and "queue L b' (opposite_side s) = queue L b (opposite_side s)"
  shows "en_id e \<notin> en_id ` set (queue L b' BUY)" and "en_id e \<notin> en_id ` set (queue L b' SELL)"
proof -
  have "en_id e \<notin> en_id ` set (queue L b (opposite_side s))"
    using queue_distinct(2) [OF assms(1,2)] assms(3) by blast
  then have "en_id e \<notin> en_id ` set (queue L b' s')" if "real_side s'" for s'
    using assms(4-6) queue_other [OF assms(2) that] by (cases "s' = s") auto
  then show "en_id e \<notin> en_id ` set (queue L b' BUY)" and "en_id e \<notin> en_id ` set (queue L b' SELL)"
    by (simp_all add: real_side_def)
qed

lemma remove_sim_base:
  assumes inv: "obinv L binv (insert r P) b" and s: "real_side s" and e: "e \<in> set (queue L b s)"
    and own: "ob_orders b (en_id e) = Some r" and seq: "seq = 0 \<or> l3_last_seq L (ob_l3 b) \<le> seq"
  obtains b' where "base_deleteOrder L (en_id e) t seq lb b = (True, b')" "obinv L binv (insert r P) b'"
    "queue L b' s = remove_entry (en_id e) (queue L b s)"
    "queue L b' (opposite_side s) = queue L b (opposite_side s)"
    "l3_last_seq L (ob_l3 b') = next_seq (l3_last_seq L (ob_l3 b)) seq" "same_frame b b'"
    "ob_buffer b' = (if quantity (ob_buffer b r) \<noteq> 0
        then (ob_buffer b)(r := (ob_buffer b r)\<lparr>leaves_quantity := 0\<rparr>) else ob_buffer b)"
    "obinv L binv P (eraseOrder r b')"
proof -
  let ?u = "entry_note s e (en_price e) 0 (en_prio e) t"
  let ?es = "remove_entry (en_id e) (queue L b s)"
  have law: "l3_step L binv (ob_l3 b) seq s ?es [?u] (l3_delete L (ob_l3 b) (en_id e) t seq lb)"
    using delete_law [OF obinv_binv [OF inv] s seq] e by (simp add: queue_def)
  have own1: "ob_orders b (ou_order_id ?u) = Some r" using own by (simp add: entry_note_def)
  have others: "x \<in> set ?es" if "en_id x \<noteq> ou_order_id ?u" "x \<in> set (queue L b s)" for x
    using that by (simp add: set_remove_entry entry_note_def)
  have ps: "psum (ob_orders b) x ?es = psum (ob_orders b) x (queue L b s)" for x
    using own by (simp add: psum_remove_entry [OF queue_distinct(1) [OF inv s] e] phantom_in_def)
  obtain b' where b': "l3_apply (l3_delete L (ob_l3 b) (en_id e) t seq lb) b = (True, b')"
    "obinv L binv (insert r P) b'" "queue L b' s = ?es" "queue L b' (opposite_side s) = queue L b (opposite_side s)"
    "l3_last_seq L (ob_l3 b') = next_seq (l3_last_seq L (ob_l3 b)) seq" "same_frame b b'"
    "ob_buffer b' = (if ou_quantity ?u = 0 \<and> quantity (ob_buffer b r) \<noteq> 0
        then (ob_buffer b)(r := (ob_buffer b r)\<lparr>leaves_quantity := 0\<rparr>) else ob_buffer b)"
    by (rule sim_step [OF inv s own1 law others ps]) blast+
  have "en_id e \<notin> en_id ` set ?es" by (auto simp: set_remove_entry)
  then have "obinv L binv P (eraseOrder r b')"
    using obinv_erase [OF b'(2), of "en_id e"] own b'(6) gone_everywhere [OF inv s e b'(3) _ b'(4)]
    by (simp add: same_frame_def)
  then show thesis
    using that b' by (simp add: base_deleteOrder_def entry_note_def)
qed

lemma deleteOrder_ok:
  assumes inv: "obinv L binv P b" and own: "ob_orders b (id_num (ob_buffer b r)) = Some r" "r \<notin> P"
    and seq: "seq = 0 \<or> l3_last_seq L (ob_l3 b) \<le> seq"
  shows "obinv L binv P (deleteOrder L r t seq lb b)" and "cancelled L r seq b (deleteOrder L r t seq lb b)"
proof -
  let ?o = "ob_buffer b r" and ?e = "entry_for (ob_buffer b r)"
  have s: "real_side (side ?o)" and lk: "linked L b r"
    using obinv_real_side [OF inv own(1)] obinv_linked [OF inv own] by auto
  have e: "?e \<in> set (queue L b (side ?o))" and id: "en_id ?e = id_num ?o"
    using lk by (simp_all add: linked_def entry_for_def)
  have own': "ob_orders b (en_id ?e) = Some r" using own id by simp
  have "0 < leaves_quantity ?o" using queue_pos [OF inv s e] by (simp add: entry_for_def)
  then have q: "quantity ?o \<noteq> 0" using lk by (simp add: linked_def acct_ok_def)
  have inv': "obinv L binv (insert r P) b" using inv by (rule obinv_mono) blast
  obtain b' where b': "base_deleteOrder L (en_id ?e) t seq lb b = (True, b')"
    "queue L b' (side ?o) = remove_entry (en_id ?e) (queue L b (side ?o))"
    "queue L b' (opposite_side (side ?o)) = queue L b (opposite_side (side ?o))"
    "l3_last_seq L (ob_l3 b') = next_seq (l3_last_seq L (ob_l3 b)) seq" "same_frame b b'"
    "ob_buffer b' = (if quantity ?o \<noteq> 0 then (ob_buffer b)(r := ?o\<lparr>leaves_quantity := 0\<rparr>) else ob_buffer b)"
    and fin: "obinv L binv P (eraseOrder r b')"
    by (rule remove_sim_base [OF inv' s e own' seq]) blast
  have run: "deleteOrder L r t seq lb b = eraseOrder r b'"
    using b' q own(1) by (simp add: deleteOrder_def Let_def id same_frame_def)
  show "obinv L binv P (deleteOrder L r t seq lb b)" using fin by (simp add: run)
  show "cancelled L r seq b (deleteOrder L r t seq lb b)"
    unfolding run cancelled_def Let_def queue_eraseOrder
    using b' q id by (simp add: eraseOrder_def Let_def same_frame_def book_frame_def)
qed

end

section \<open>Phantom liquidity\<close>

context l3_book
begin

lemma phantom_add_ok:
  assumes inv: "obinv L binv P b" and s: "real_side s" and none: "ob_orders b i = None" and q: "0 < q"
    and new: "i \<notin> en_id ` set (queue L b BUY @ queue L b SELL)"
    and seq: "seq = 0 \<or> l3_last_seq L (ob_l3 b) \<le> seq"
  obtains b' where "base_addOrder L i s p q t prio seq lb b = (True, b')" "obinv L binv P b'"
    "queue L b' s = insert_entry s \<lparr>en_price = p, en_id = i, en_qty = q, en_prio = eff_prio prio t\<rparr> (queue L b s)"
    "queue L b' (opposite_side s) = queue L b (opposite_side s)"
    "l3_last_seq L (ob_l3 b') = next_seq (l3_last_seq L (ob_l3 b)) seq" "same_frame b b'"
    "ob_buffer b' = ob_buffer b"
proof -
  let ?e = "\<lparr>en_price = p, en_id = i, en_qty = q, en_prio = eff_prio prio t\<rparr>"
  let ?u = "\<lparr>ou_order_id = i, ou_side = s, ou_price = p, ou_quantity = q, ou_old_price = 0, ou_old_qty = 0,
      ou_priority = eff_prio prio t, ou_timestamp = t\<rparr>"
  have law: "l3_step L binv (ob_l3 b) seq s (insert_entry s ?e (queue L b s)) [?u] (l3_add L (ob_l3 b) i s p q t prio seq lb)"
    using add_law [OF obinv_binv [OF inv] s seq] new q by (simp add: queue_def)
  note md = md_add_note [OF none, of ?u, simplified]
  have ours: "x \<in> set (insert_entry s ?e (queue L b s))" if "x \<in> set (queue L b s)" for x using that by simp
  have book: "getMDLevelQty (onOrderUpdate ?u b) x = getMDLevelQty b x +
      psum (ob_orders b) x (insert_entry s ?e (queue L b s)) - psum (ob_orders b) x (queue L b s)" for x
    using none by (simp add: md(1) phantom_in_def)
  show thesis
    by (rule phantom_step [OF inv s law md(2) ours book]) (use that in \<open>auto simp: base_addOrder_def\<close>)
qed

lemma phantom_delete_ok:
  assumes inv: "obinv L binv P b" and s: "real_side s" and e: "e \<in> set (queue L b s)"
    and none: "ob_orders b (en_id e) = None" and seq: "seq = 0 \<or> l3_last_seq L (ob_l3 b) \<le> seq"
  obtains b' where "base_deleteOrder L (en_id e) t seq lb b = (True, b')" "obinv L binv P b'"
    "queue L b' s = remove_entry (en_id e) (queue L b s)"
    "queue L b' (opposite_side s) = queue L b (opposite_side s)"
    "l3_last_seq L (ob_l3 b') = next_seq (l3_last_seq L (ob_l3 b)) seq" "same_frame b b'"
    "ob_buffer b' = ob_buffer b"
proof -
  let ?u = "entry_note s e (en_price e) 0 (en_prio e) t"
  have law: "l3_step L binv (ob_l3 b) seq s (remove_entry (en_id e) (queue L b s)) [?u]
      (l3_delete L (ob_l3 b) (en_id e) t seq lb)"
    using delete_law [OF obinv_binv [OF inv] s seq] e by (simp add: queue_def)
  note md = md_entry_note [OF none md_present [OF inv s e none]]
  have ours: "x \<in> set (remove_entry (en_id e) (queue L b s))"
    if "ob_orders b (en_id x) \<noteq> None" "x \<in> set (queue L b s)" for x
    using that none by (auto simp: set_remove_entry)
  have book: "getMDLevelQty (onOrderUpdate ?u b) x = getMDLevelQty b x +
      psum (ob_orders b) x (remove_entry (en_id e) (queue L b s)) - psum (ob_orders b) x (queue L b s)" for x
    using none by (simp add: md(1) psum_remove_entry [OF queue_distinct(1) [OF inv s] e] phantom_in_def)
  show thesis
    by (rule phantom_step [OF inv s law md(2) ours book]) (use that in \<open>auto simp: base_deleteOrder_def\<close>)
qed

lemma phantom_resize_ok:
  assumes inv: "obinv L binv P b" and s: "real_side s" and e: "e \<in> set (queue L b s)" and q: "0 < q" "q \<noteq> en_qty e"
    and none: "ob_orders b (en_id e) = None" and seq: "seq = 0 \<or> l3_last_seq L (ob_l3 b) \<le> seq"
  obtains b' where "base_modifyOrder L (en_id e) (en_price e) q t (en_prio e) seq lb b = (True, b')" "obinv L binv P b'"
    "queue L b' s = resize_entry (en_id e) q (queue L b s)"
    "queue L b' (opposite_side s) = queue L b (opposite_side s)"
    "l3_last_seq L (ob_l3 b') = next_seq (l3_last_seq L (ob_l3 b)) seq" "same_frame b b'"
    "ob_buffer b' = ob_buffer b"
proof -
  let ?u = "entry_note s e (en_price e) q (en_prio e) t"
  have law: "l3_step L binv (ob_l3 b) seq s (resize_entry (en_id e) q (queue L b s)) [?u]
      (l3_modify L (ob_l3 b) (en_id e) (en_price e) q t (en_prio e) seq lb)"
    using modify_same [OF obinv_binv [OF inv] s seq] e q by (simp add: queue_def)
  note md = md_entry_note [OF none md_present [OF inv s e none]]
  have ours: "x \<in> set (resize_entry (en_id e) q (queue L b s))"
    if "ob_orders b (en_id x) \<noteq> None" "x \<in> set (queue L b s)" for x
    using that none by (subst set_resize_entry_other) auto
  have book: "getMDLevelQty (onOrderUpdate ?u b) x = getMDLevelQty b x +
      psum (ob_orders b) x (resize_entry (en_id e) q (queue L b s)) - psum (ob_orders b) x (queue L b s)" for x
    using none q by (simp add: md(1) psum_resize_entry [OF queue_distinct(1) [OF inv s] e] phantom_in_def)
  show thesis
    by (rule phantom_step [OF inv s law md(2) ours book]) (use that in \<open>auto simp: base_modifyOrder_def\<close>)
qed

end

section \<open>Amending an order\<close>

text \<open>The queue after the entry \<open>e\<close> of an order has been brought to the order's record \<open>ord\<close>.\<close>

definition amended_queue :: "Side \<Rightarrow> entry \<Rightarrow> Order \<Rightarrow> entry list \<Rightarrow> entry list" where
  "amended_queue s e ord es =
     (if leaves_quantity ord = 0 then remove_entry (en_id e) es
      else if en_price e = price ord \<and> en_prio e = priority ord
      then resize_entry (en_id e) (leaves_quantity ord) es
      else insert_entry s (entry_for ord) (remove_entry (en_id e) es))"

lemma amended_queue_other:
  "en_id x \<noteq> en_id e \<Longrightarrow> x \<in> set es \<Longrightarrow> x \<in> set (amended_queue s e ord es)"
  by (auto simp: amended_queue_def set_remove_entry set_resize_entry_other)

lemma amended_queue_self:
  "e \<in> set es \<Longrightarrow> en_id e = id_num ord \<Longrightarrow> 0 < leaves_quantity ord \<Longrightarrow> entry_for ord \<in> set (amended_queue s e ord es)"
  by (auto simp: amended_queue_def resize_entry_def entry_for_def intro!: image_eqI [of _ _ e])

lemma amended_queue_psum:
  assumes "distinct (map en_id es)" and "e \<in> set es" and "en_id e = id_num ord" and "m (id_num ord) = Some r"
    and "0 \<le> leaves_quantity ord"
  shows "psum m p (amended_queue s e ord es) = psum m p es"
proof -
  have "phantom_in m p x = 0" if "en_id x = id_num ord" for x using that assms(4) by (simp add: phantom_in_def)
  then have z: "phantom_in m p e = 0" "phantom_in m p (e\<lparr>en_qty := q\<rparr>) = 0" "phantom_in m p (entry_for ord) = 0" for q
    using assms(3) by (simp_all add: entry_for_def)
  then show ?thesis
    unfolding amended_queue_def
    using assms(5) by (simp add: psum_remove_entry [OF assms(1,2)] psum_resize_entry [OF assms(1,2)])
qed

definition amended ::
    "'l l3_ops \<Rightarrow> ptr \<Rightarrow> entry \<Rightarrow> Order \<Rightarrow> seq_t \<Rightarrow> ('l, 'z) book \<Rightarrow> ('l, 'z) book \<Rightarrow> bool" where
  "amended L r e ord seq b b' \<longleftrightarrow>
     queue L b' (side ord) = amended_queue (side ord) e ord (queue L b (side ord)) \<and>
     queue L b' (opposite_side (side ord)) = queue L b (opposite_side (side ord)) \<and>
     l3_last_seq L (ob_l3 b') = next_seq (l3_last_seq L (ob_l3 b)) seq \<and>
     ob_orders b' = (if leaves_quantity ord = 0 then (ob_orders b)(id_num ord := None) else ob_orders b) \<and>
     ob_live b' = ob_live b \<and> ob_buffer b' = (ob_buffer b)(r := ord)"

context l3_book
begin

lemma sim_noop:
  assumes inv: "obinv L binv P b" and s: "real_side s" and step: "l3_step L binv (ob_l3 b) seq s (queue L b s) [] r"
  obtains b' where "l3_apply r b = (True, b')" "obinv L binv P b'" "queue L b' s = queue L b s"
    "queue L b' (opposite_side s) = queue L b (opposite_side s)"
    "l3_last_seq L (ob_l3 b') = next_seq (l3_last_seq L (ob_l3 b)) seq" "same_frame b b'" "ob_buffer b' = ob_buffer b"
proof -
  from step obtain b' where b': "l3_apply r b = (True, b')" "binv (ob_l3 b')" "queue L b' s = queue L b s"
    "queue L b' (opposite_side s) = queue L b (opposite_side s)"
    "l3_last_seq L (ob_l3 b') = next_seq (l3_last_seq L (ob_l3 b)) seq" "same_frame b b'"
    and same: "ob_md_qty b' = ob_md_qty b" "ob_buffer b' = ob_buffer b"
    by (rule l3_apply_step) blast
  have qu: "queue L b' s' = queue L b s'" if "real_side s'" for s'
    using b'(3,4) queue_other [OF s that] by (cases "s' = s") auto
  have "linked L b' q = linked L b q" if "real_side (side (ob_buffer b q))" for q
    using qu [OF that] by (simp add: linked_def same)
  then have "obinv L binv P b'"
    using inv b'(2,6) qu by (auto simp: obinv_def owned_def indexed_def phantom_qty_def getMDLevelQty_def
        same same_frame_def real_side_def)
  then show thesis using that b' same by blast
qed

lemma modify_sim_base:
  assumes inv: "obinv L binv (insert r P) b" and own: "ob_orders b (id_num (ob_buffer b r)) = Some r"
    and e: "e \<in> set (queue L b (side (ob_buffer b r)))" "en_id e = id_num (ob_buffer b r)"
    and pos: "0 < leaves_quantity (ob_buffer b r)" and prio: "0 < priority (ob_buffer b r)"
    and acct: "acct_ok (ob_buffer b r)" and seq: "seq = 0 \<or> l3_last_seq L (ob_l3 b) \<le> seq"
  obtains b' where
    "base_modifyOrder L (id_num (ob_buffer b r)) (price (ob_buffer b r)) (leaves_quantity (ob_buffer b r)) t
       (priority (ob_buffer b r)) seq lb b = (True, b')"
    "obinv L binv P b'" "amended L r e (ob_buffer b r) seq b b'"
proof -
  let ?o = "ob_buffer b r"
  let ?s = "side ?o"
  let ?es = "amended_queue ?s e ?o (queue L b ?s)"
  let ?u = "entry_note ?s e (price ?o) (leaves_quantity ?o) (priority ?o) t"
  let ?r = "l3_modify L (ob_l3 b) (id_num ?o) (price ?o) (leaves_quantity ?o) t (priority ?o) seq lb"
  have s: "real_side ?s" using obinv_real_side [OF inv own] .
  note ok = obinv_binv [OF inv] s seq e(1) [unfolded queue_def]
  have own1: "ob_orders b (ou_order_id ?u) = Some r" using own e(2) by (simp add: entry_note_def)
  have others: "x \<in> set ?es" if "en_id x \<noteq> ou_order_id ?u" "x \<in> set (queue L b ?s)" for x
    using that by (intro amended_queue_other) (auto simp: entry_note_def)
  have ps: "psum (ob_orders b) x ?es = psum (ob_orders b) x (queue L b ?s)" for x
    by (rule amended_queue_psum [where r = r])
      (use queue_distinct(1) [OF inv s] e own pos in simp_all)
  have "\<exists>b'. l3_apply ?r b = (True, b') \<and> obinv L binv (insert r P) b' \<and> queue L b' ?s = ?es \<and>
      queue L b' (opposite_side ?s) = queue L b (opposite_side ?s) \<and>
      l3_last_seq L (ob_l3 b') = next_seq (l3_last_seq L (ob_l3 b)) seq \<and> same_frame b b' \<and> ob_buffer b' = ob_buffer b"
  proof (cases "en_price e = price ?o \<and> en_prio e = priority ?o \<and> en_qty e = leaves_quantity ?o")
    case True
    have "resize_entry (en_id e) (en_qty e) (queue L b ?s) = queue L b ?s"
      using queue_distinct(1) [OF inv s] e(1) pos True
      by (auto simp: resize_entry_def distinct_map intro!: map_idI)
        (metis (full_types) entry.surjective entry.update_convs(3) inj_onD)
    then have "?es = queue L b ?s" using True pos by (simp add: amended_queue_def)
    moreover have "l3_step L binv (ob_l3 b) seq ?s (queue L b ?s) [] ?r"
      using modify_noop [OF ok, of t lb] True e(2) by (simp add: queue_def)
    ultimately show ?thesis by (metis sim_noop [OF inv s])
  next
    case False
    have "l3_step L binv (ob_l3 b) seq ?s ?es [?u] ?r"
      using False modify_same [OF ok, of "leaves_quantity ?o" t lb] pos prio e(2)
        modify_move [OF ok, of "leaves_quantity ?o" "priority ?o" "price ?o" t lb]
      by (auto simp: amended_queue_def queue_def entry_for_def)
    then show ?thesis
      by (rule sim_step [OF inv s own1 _ others ps]) (use pos in \<open>auto simp: entry_note_def\<close>)
  qed
  then obtain b' where b': "l3_apply ?r b = (True, b')" "obinv L binv (insert r P) b'" "queue L b' ?s = ?es"
    "queue L b' (opposite_side ?s) = queue L b (opposite_side ?s)"
    "l3_last_seq L (ob_l3 b') = next_seq (l3_last_seq L (ob_l3 b)) seq" "same_frame b b'" "ob_buffer b' = ob_buffer b"
    by blast
  have "linked L b' r"
    using b'(3,7) prio acct amended_queue_self [OF e(1,2) pos] by (simp add: linked_def)
  then have "obinv L binv P b'" using linked_relink b'(2) by blast
  then show thesis
    using that b' pos by (simp add: base_modifyOrder_def amended_def same_frame_def)
qed

lemma modify_finish:
  assumes inv: "obinv L binv (insert r P) b" and own: "ob_orders b (id_num (ob_buffer b r)) = Some r"
    and e: "e \<in> set (queue L b (side (ob_buffer b r)))" "en_id e = id_num (ob_buffer b r)"
    and prio: "0 < priority (ob_buffer b r)" and acct: "leaves_quantity (ob_buffer b r) = 0 \<or> acct_ok (ob_buffer b r)"
    and seq: "seq = 0 \<or> l3_last_seq L (ob_l3 b) \<le> seq"
    and b3: "b3 = snd (base_modifyOrder L (id_num (ob_buffer b r)) (price (ob_buffer b r))
        (leaves_quantity (ob_buffer b r)) t (priority (ob_buffer b r)) seq lb b)"
    and b4: "b4 = (if leaves_quantity (ob_buffer b3 r) = 0 then eraseOrder r b3 else b3)"
  shows "obinv L binv P b4 \<and> amended L r e (ob_buffer b r) seq b b4"
proof (cases "leaves_quantity (ob_buffer b r) = 0")
  case False
  then have pos: "0 < leaves_quantity (ob_buffer b r)" "acct_ok (ob_buffer b r)" using acct by (auto simp: acct_ok_def)
  obtain b' where b': "base_modifyOrder L (id_num (ob_buffer b r)) (price (ob_buffer b r))
        (leaves_quantity (ob_buffer b r)) t (priority (ob_buffer b r)) seq lb b = (True, b')"
    "obinv L binv P b'" "amended L r e (ob_buffer b r) seq b b'"
    by (rule modify_sim_base [OF inv own e pos(1) prio pos(2) seq])
  then show ?thesis using False by (simp add: b4 b3 amended_def)
next
  case True
  let ?o = "ob_buffer b r"
  have s: "real_side (side ?o)" using obinv_real_side [OF inv own] .
  have own': "ob_orders b (en_id e) = Some r" using own e(2) by simp
  obtain b' where b': "base_deleteOrder L (en_id e) t seq lb b = (True, b')"
    "queue L b' (side ?o) = remove_entry (en_id e) (queue L b (side ?o))"
    "queue L b' (opposite_side (side ?o)) = queue L b (opposite_side (side ?o))"
    "l3_last_seq L (ob_l3 b') = next_seq (l3_last_seq L (ob_l3 b)) seq" "same_frame b b'"
    "ob_buffer b' = (if quantity ?o \<noteq> 0 then (ob_buffer b)(r := ?o\<lparr>leaves_quantity := 0\<rparr>) else ob_buffer b)"
    "obinv L binv P (eraseOrder r b')"
    by (rule remove_sim_base [OF inv s e(1) own' seq]) blast
  have "?o\<lparr>leaves_quantity := 0\<rparr> = ?o" using True by (cases ?o) simp
  then have buf': "ob_buffer b' = ob_buffer b" using b'(6) by (simp add: fun_upd_idem)
  have "b3 = b'"
    using b'(1) modify_zero [OF obinv_binv [OF inv]] e(2) True
    by (simp add: b3 base_modifyOrder_def base_deleteOrder_def)
  then have run: "b4 = eraseOrder r b'" using True by (simp add: b4 buf')
  show ?thesis
    unfolding run amended_def queue_eraseOrder using b' True e(2)
    by (simp add: amended_queue_def same_frame_def) (simp add: eraseOrder_def Let_def buf')
qed

lemma modifyOrder_ok:
  assumes inv: "obinv L binv (insert r P) b" and own: "ob_orders b (id_num (ob_buffer b r)) = Some r"
    and e: "e \<in> set (queue L b (side (ob_buffer b r)))" "en_id e = id_num (ob_buffer b r)"
    and prio: "0 < priority (ob_buffer b r)" and seq: "seq = 0 \<or> l3_last_seq L (ob_l3 b) \<le> seq"
    and ord: "ord = (ob_buffer b r)\<lparr>price := new_price, quantity := new_qty,
        priority := (if new_price \<noteq> price (ob_buffer b r) then ob_next_priority b + 1 else priority (ob_buffer b r))\<rparr>"
    and acct: "leaves_quantity ord = 0 \<or> acct_ok ord"
  shows "obinv L binv P (modifyOrder L r new_price new_qty t seq lb b) \<and>
         amended L r e ord seq b (modifyOrder L r new_price new_qty t seq lb b)"
proof -
  let ?o = "ob_buffer b r"
  define b1 where "b1 = (if new_price \<noteq> price ?o
     then drawPriority r (set_order r (\<lambda>order. order\<lparr>price := new_price\<rparr>) b) else b)"
  define b2 where "b2 = set_order r (\<lambda>order. order\<lparr>quantity := new_qty\<rparr>) b1"
  have same: "w\<lparr>price := price w, quantity := new_qty, priority := priority w\<rparr> = w\<lparr>quantity := new_qty\<rparr>" for w :: Order
    by (cases w) simp
  have buf2: "ob_buffer b2 = (ob_buffer b)(r := ord)"
    using same [of ?o] by (auto simp: b2_def b1_def ord fun_eq_iff)
  have f2: "ob_orders b2 = ob_orders b" "ob_live b2 = ob_live b" "ob_l3 b2 = ob_l3 b"
    and q2: "\<And>s'. queue L b2 s' = queue L b s'"
    by (simp_all add: b2_def b1_def)
  have inv2: "obinv L binv (insert r P) b2"
    using inv unfolding b2_def b1_def
    by (auto intro!: obinv_set_order simp: drawPriority_eq obinv_priority_field)
  have sel: "id_num ord = id_num ?o" "side ord = side ?o" "price ord = new_price" "0 < priority ord"
    using prio by (simp_all add: ord)
  have i2: "id_num (ob_buffer b2 r) = id_num ?o" "ob_buffer b2 r = ord" by (simp_all add: buf2 sel)
  have "modifyOrder L r new_price new_qty t seq lb b =
      (let b3 = snd (base_modifyOrder L (id_num ?o) new_price
              (leaves_quantity (ob_buffer b2 r)) t (priority (ob_buffer b2 r)) seq lb b2)
       in if leaves_quantity (ob_buffer b3 r) = 0 then eraseOrder r b3 else b3)"
    using own by (simp only: modifyOrder_def Let_def b2_def b1_def option.simps not_True_eq_False
        not_False_eq_True if_True if_False simp_thms)
  then have run: "modifyOrder L r new_price new_qty t seq lb b =
      (let b3 = snd (base_modifyOrder L (id_num (ob_buffer b2 r)) (price (ob_buffer b2 r))
              (leaves_quantity (ob_buffer b2 r)) t (priority (ob_buffer b2 r)) seq lb b2)
       in if leaves_quantity (ob_buffer b3 r) = 0 then eraseOrder r b3 else b3)"
    by (simp only: i2 sel)
  have own2: "ob_orders b2 (id_num (ob_buffer b2 r)) = Some r" using own by (simp only: i2 sel f2)
  have e2: "e \<in> set (queue L b2 (side (ob_buffer b2 r)))" "en_id e = id_num (ob_buffer b2 r)"
    using e by (simp_all only: q2 i2 sel)
  have ok2: "0 < priority (ob_buffer b2 r)" "leaves_quantity (ob_buffer b2 r) = 0 \<or> acct_ok (ob_buffer b2 r)"
    and seq2: "seq = 0 \<or> l3_last_seq L (ob_l3 b2) \<le> seq"
    using sel acct seq by (simp_all only: i2 f2)
  have "obinv L binv P (modifyOrder L r new_price new_qty t seq lb b) \<and>
      amended L r e (ob_buffer b2 r) seq b2 (modifyOrder L r new_price new_qty t seq lb b)"
    by (rule modify_finish [OF inv2 own2 e2 ok2 seq2 refl run [unfolded Let_def]])
  then show ?thesis by (simp add: amended_def q2 f2 i2(2)) (simp add: buf2)
qed

end

section \<open>Clearing the phantom liquidity\<close>

definition our_entries :: "('l, 'z) book \<Rightarrow> Side \<Rightarrow> entry set" where
  "our_entries b s = {entry_for (ob_buffer b q) |i q. ob_orders b i = Some q \<and> side (ob_buffer b q) = s}"

context l3_book
begin

lemma queue_sorted: "obinv L binv P b \<Longrightarrow> real_side s \<Longrightarrow> sorted_wrt (before s) (queue L b s)"
  unfolding queue_def using flat_sorted levels_ok obinv_binv by blast

lemma queue_next_prio: "same_frame b b' \<Longrightarrow> ob_next_priority b' = ob_next_priority b"
  by (simp add: same_frame_def book_frame_def)

lemma readd_all:
  assumes "obinv L binv (snd ` set xs) b" and "distinct (map fst xs)"
    and "\<And>i q. (i, q) \<in> set xs \<Longrightarrow> ob_orders b i = Some q \<and> 0 < leaves_quantity (ob_buffer b q) \<and>
           0 < priority (ob_buffer b q) \<and> acct_ok (ob_buffer b q) \<and>
           i \<notin> en_id ` set (queue L b BUY @ queue L b SELL)"
    and "b' = foldl (readd L) b (map (\<lambda>(i, q). (i, ob_buffer b q)) xs)"
  shows "obinv L binv {} b' \<and>
           same_frame b b' \<and> ob_buffer b' = ob_buffer b \<and> l3_last_seq L (ob_l3 b') = l3_last_seq L (ob_l3 b) \<and>
           (\<forall>s. real_side s \<longrightarrow> set (queue L b' s) =
              set (queue L b s) \<union> {entry_for (ob_buffer b q) |i q. (i, q) \<in> set xs \<and> side (ob_buffer b q) = s})"
  using assms
proof (induction xs arbitrary: b)
  case Nil
  then show ?case by simp
next
  case (Cons x xs)
  obtain i q where x: "x = (i, q)" by fastforce
  let ?o = "ob_buffer b q"
  have own: "ob_orders b i = Some q" "0 < leaves_quantity ?o" "0 < priority ?o" "acct_ok ?o"
    "i \<notin> en_id ` set (queue L b BUY @ queue L b SELL)"
    using Cons.prems(3) [of i q] x by auto
  have id: "id_num ?o = i" using obinv_id_num [OF Cons.prems(1) own(1)] .
  have inv: "obinv L binv (insert q (snd ` set xs)) b" using Cons.prems(1) x by simp
  have s: "real_side (side ?o)" using obinv_real_side [OF inv own(1)] .
  obtain b1 where b1: "base_addOrder L (id_num ?o) (side ?o) (price ?o) (leaves_quantity ?o) (last_update_time ?o)
      (priority ?o) 0 False b = (True, b1)"
    "obinv L binv (snd ` set xs) b1" "queue L b1 (side ?o) = insert_entry (side ?o) (entry_for ?o) (queue L b (side ?o))"
    "queue L b1 (opposite_side (side ?o)) = queue L b (opposite_side (side ?o))"
    "l3_last_seq L (ob_l3 b1) = next_seq (l3_last_seq L (ob_l3 b)) 0" "same_frame b b1" "ob_buffer b1 = ob_buffer b"
    by (rule add_sim_base [OF inv refl, of 0]) (use own id in auto)
  have q1: "set (queue L b1 s') = set (queue L b s') \<union> (if s' = side ?o then {entry_for ?o} else {})"
    if "real_side s'" for s'
    using b1(3,4) queue_other [OF s that] by (cases "s' = side ?o") auto
  have notin: "j \<notin> en_id ` set (queue L b1 BUY @ queue L b1 SELL)"
    if "(j, r) \<in> set xs" for j r
  proof -
    have "j \<noteq> i" using that Cons.prems(2) x by force
    then have "j \<noteq> en_id (entry_for ?o)" using id by (simp add: entry_for_def)
    moreover have "j \<notin> en_id ` set (queue L b BUY)" "j \<notin> en_id ` set (queue L b SELL)"
      using Cons.prems(3) [of j r] that by auto
    ultimately show ?thesis using q1 [of BUY] q1 [of SELL] by (simp add: real_side_def image_Un)
  qed
  have eq: "b' = foldl (readd L) b1 (map (\<lambda>(i, q). (i, ob_buffer b1 q)) xs)"
  proof -
    have "readd L b (i, ob_buffer b q) = b1" using b1(1) id by (simp add: readd_def)
    then show ?thesis using Cons.prems(4) by (simp add: x b1(7))
  qed
  have dist: "distinct (map fst xs)" using Cons.prems(2) by simp
  have rest: "ob_orders b1 j = Some r \<and> 0 < leaves_quantity (ob_buffer b1 r) \<and> 0 < priority (ob_buffer b1 r) \<and>
      acct_ok (ob_buffer b1 r) \<and> j \<notin> en_id ` set (queue L b1 BUY @ queue L b1 SELL)"
    if "(j, r) \<in> set xs" for j r
    using Cons.prems(3) [of j r] notin [OF that] that b1(6) by (simp add: b1(7) same_frame_def)
  note IH = Cons.IH [OF b1(2) dist rest eq]
  then have IHq: "real_side s \<Longrightarrow> set (queue L b' s) =
      set (queue L b1 s) \<union> {entry_for (ob_buffer b1 q) |i q. (i, q) \<in> set xs \<and> side (ob_buffer b1 q) = s}" for s
    by blast
  have "set (queue L b' s) =
      set (queue L b s) \<union> {entry_for (ob_buffer b q) |i q. (i, q) \<in> set (x # xs) \<and> side (ob_buffer b q) = s}"
    if "real_side s" for s
    unfolding IHq [OF that] q1 [OF that] b1(7) x by auto
  then show ?case
    using IH b1(5,7) same_frame_trans [OF b1(6), of b'] by (simp add: next_seq_def)
qed

lemma clearMDOrders_ok:
  assumes inv: "obinv L binv {} b" and ids: "distinct ids" "set ids = dom (ob_orders b)"
  shows "obinv L binv {} (clearMDOrders L ids b)"
    and "ob_orders (clearMDOrders L ids b) = ob_orders b" and "ob_buffer (clearMDOrders L ids b) = ob_buffer b"
    and "ob_live (clearMDOrders L ids b) = ob_live b"
    and "real_side s \<Longrightarrow> set (queue L (clearMDOrders L ids b) s) = our_entries b s"
    and "l3_last_seq L (ob_l3 (clearMDOrders L ids b)) = l3_last_seq L (ob_l3 b)"
proof -
  define xs where "xs = map (\<lambda>i. (i, the (ob_orders b i))) ids"
  let ?b0 = "b\<lparr>ob_l3 := l3_clear L (ob_l3 b), ob_md_qty := Map.empty\<rparr>"
  have mem: "(i, q) \<in> set xs \<longleftrightarrow> ob_orders b i = Some q" for i q using ids(2) by (force simp: xs_def)
  have lk: "linked L b q" if "ob_orders b i = Some q" for i q using obinv_linked [OF inv that] by simp
  have pos: "0 < leaves_quantity (ob_buffer b q)" if "ob_orders b i = Some q" for i q
    using lk [OF that] queue_pos [OF inv obinv_real_side [OF inv that], of "entry_for (ob_buffer b q)"]
    by (simp add: linked_def) (simp add: entry_for_def)
  note cl = clear_law [OF obinv_binv [OF inv]]
  have q0: "queue L ?b0 s' = []" if "real_side s'" for s' using cl that by (auto simp: queue_def real_side_def)
  have ran: "snd ` set xs = ran (ob_orders b)" using mem by (force simp: ran_def)
  have "obinv L binv (ran (ob_orders b)) ?b0"
    using inv cl q0 unfolding obinv_def owned_def indexed_def phantom_qty_def getMDLevelQty_def
    by (auto simp: ranI real_side_def)
  then have inv0: "obinv L binv (snd ` set xs) ?b0" by (simp only: ran)
  have all: "ob_orders ?b0 i = Some q \<and> 0 < leaves_quantity (ob_buffer ?b0 q) \<and> 0 < priority (ob_buffer ?b0 q) \<and>
      acct_ok (ob_buffer ?b0 q) \<and> i \<notin> en_id ` set (queue L ?b0 BUY @ queue L ?b0 SELL)"
    if "(i, q) \<in> set xs" for i q
    using that [unfolded mem] pos lk q0 by (auto simp: linked_def real_side_def)
  have "filter (\<lambda>x. 0 < leaves_quantity (snd x)) (map (\<lambda>i. (i, ob_buffer b (the (ob_orders b i)))) ids) =
      map (\<lambda>(i, q). (i, ob_buffer ?b0 q)) xs"
    using ids(2) pos by (auto simp: xs_def filter_id_conv comp_def)
  then have run: "clearMDOrders L ids b = foldl (readd L) ?b0 (map (\<lambda>(i, q). (i, ob_buffer ?b0 q)) xs)"
    by (simp add: clearMDOrders_def Let_def)
  have "distinct (map fst xs)" using ids(1) by (simp add: xs_def comp_def)
  note fin = readd_all [OF inv0 this all run]
  show "obinv L binv {} (clearMDOrders L ids b)" using fin by simp
  show "ob_orders (clearMDOrders L ids b) = ob_orders b" "ob_live (clearMDOrders L ids b) = ob_live b"
    "ob_buffer (clearMDOrders L ids b) = ob_buffer b"
    "l3_last_seq L (ob_l3 (clearMDOrders L ids b)) = l3_last_seq L (ob_l3 b)"
    using fin cl by (simp_all add: same_frame_def)
  show "set (queue L (clearMDOrders L ids b) s) = our_entries b s" if "real_side s"
  proof -
    have "set (queue L (clearMDOrders L ids b) s) =
        {entry_for (ob_buffer b q) |i q. (i, q) \<in> set xs \<and> side (ob_buffer b q) = s}"
      using fin that q0 [OF that] by simp
    then show ?thesis unfolding mem our_entries_def .
  qed
qed

end

section \<open>A new book\<close>

lemma new_book_inv:
  assumes "binv l" and "l3_levels L l BUY = []" and "l3_levels L l SELL = []"
  shows "obinv L binv P (new_book l name v)"
  using assms
  by (simp add: obinv_def owned_def indexed_def new_book_def phantom_qty_def queue_def getMDLevelQty_def)

definition ref_empty :: ref_book where
  "ref_empty = \<lparr>rf_buy = [], rf_sell = [], rf_seq = 0\<rparr>"

lemma ref_empty_inv [simp]: "rf_inv ref_empty" "rf_queue ref_empty s = []"
  by (simp add: rf_inv_def ref_empty_def) (cases s; simp add: ref_empty_def)

text \<open>A book over the reference L3 book with one allocated, not yet resting buy order, for the examples.\<close>

definition ex_book :: "ref_book OrderBook" where
  "ex_book = set_order 7 (\<lambda>ord. (resetFillAccounting 5 ord)\<lparr>client_order_id := ''c1'', client_id := 3,
       price := 100, side := BUY\<rparr>)
     (allocateOrder 7 ''u1'' 3 (new_book ref_empty ''BTC'' COINBASE))"

lemma ex_book_sel:
  "ob_l3 ex_book = ref_empty" "ob_orders ex_book = Map.empty" "ob_live ex_book = {7}"
  "ob_by_client ex_book = Map.empty" "ob_by_order ex_book = Map.empty" "ob_md_qty ex_book = Map.empty"
  "ob_next_priority ex_book = 0"
  "id_num (ob_buffer ex_book 7) = 1" "side (ob_buffer ex_book 7) = BUY" "price (ob_buffer ex_book 7) = 100"
  "leaves_quantity (ob_buffer ex_book 7) = 5" "client_order_id (ob_buffer ex_book 7) = ''c1''"
  "order_id (ob_buffer ex_book 7) = ''u1''" "acct_ok (ob_buffer ex_book 7)" "quantity (ob_buffer ex_book 7) = 5"
  "client_id (ob_buffer ex_book 7) = 3"
  by (simp_all add: ex_book_def allocateOrder_def nextOrderId_def new_book_def resetFillAccounting_def
      acct_ok_def default_order_def)

lemma ex_book_queue [simp]: "queue rf_ops ex_book s = []"
  by (simp add: queue_def ex_book_sel)

lemma ex_book_inv: "obinv rf_ops rf_inv {} ex_book"
  by (simp add: obinv_def owned_def indexed_def phantom_qty_def getMDLevelQty_def ex_book_sel)

lemma ex_book_restable: "restable rf_ops ex_book 7"
  by (simp add: restable_def Let_def ex_book_sel real_side_def)

lemma obinv_unowned:
  assumes "obinv L I P b" and "p \<notin> ran (ob_orders b)"
  shows "obinv L I P (set_order p f b)"
proof -
  have no: "ob_orders b i \<noteq> Some p" for i using assms(2) by (auto intro: ranI)
  have lk: "linked L (set_order p f b) r = linked L b r" if "r \<noteq> p" for r using that by (simp add: linked_def)
  have "owned L P (set_order p f b)" using assms(1) no lk unfolding obinv_def owned_def by fastforce
  moreover have "indexed (ob_by_client b) client_order_id (set_order p f b)"
    and "indexed (ob_by_order b) order_id (set_order p f b)"
    using assms(1) no by (auto simp: obinv_def indexed_def)
  ultimately show ?thesis
    using assms(1) by (simp add: obinv_def phantom_qty_def getMDLevelQty_def)
qed

text \<open>Allocating a slot the pool does not have out keeps the invariant.\<close>

lemma allocateOrder_eq:
  "allocateOrder p uuid now b = set_order p (\<lambda>order. resetFillAccounting 0 (order\<lparr>order_id := uuid,
     id_num := ob_next_order_id b, request_tag := 0, created_time := now, last_update_time := now\<rparr>))
     (b\<lparr>ob_live := insert p (ob_live b), ob_next_order_id := ob_next_order_id b + 1\<rparr>)"
  by (simp add: allocateOrder_def nextOrderId_def)

lemma obinv_allocate:
  assumes "obinv L I P b" and "p \<notin> ob_live b"
  shows "obinv L I P (allocateOrder p uuid now b)"
proof -
  have "obinv L I P (b\<lparr>ob_live := insert p (ob_live b), ob_next_order_id := n\<rparr>)" for n
    using assms(1) by (auto simp: obinv_def owned_def linked_def indexed_def phantom_qty_def queue_def getMDLevelQty_def)
  moreover have "p \<notin> ran (ob_orders b)" using assms obinv_live by (fastforce simp: ran_def)
  ultimately show ?thesis unfolding allocateOrder_eq by (intro obinv_unowned) auto
qed

lemma allocateOrder_sel [simp]:
  "ob_l3 (allocateOrder p u t b) = ob_l3 b" "ob_orders (allocateOrder p u t b) = ob_orders b"
  "ob_live (allocateOrder p u t b) = insert p (ob_live b)" "ob_by_client (allocateOrder p u t b) = ob_by_client b"
  "ob_by_order (allocateOrder p u t b) = ob_by_order b" "ob_md_qty (allocateOrder p u t b) = ob_md_qty b"
  "ob_next_priority (allocateOrder p u t b) = ob_next_priority b"
  "ob_next_order_id (allocateOrder p u t b) = ob_next_order_id b + 1"
  "queue L (allocateOrder p u t b) s = queue L b s"
  by (simp_all add: allocateOrder_eq) (simp add: queue_def)

section \<open>Properties\<close>

definition prio_bounded :: "'l l3_ops \<Rightarrow> ('l, 'z) book \<Rightarrow> bool" where
  "prio_bounded L b \<longleftrightarrow> (\<forall>s. real_side s \<longrightarrow> (\<forall>e\<in>set (queue L b s). en_prio e \<le> ob_next_priority b))"

lemma insert_entry_last:
  assumes "\<forall>x\<in>set es. en_prio x \<le> en_prio e"
  shows "insert_entry s e es =
    takeWhile (\<lambda>x. isPriceBetterOrEqual s (en_price x) (en_price e)) es @ [e] @
    dropWhile (\<lambda>x. isPriceBetterOrEqual s (en_price x) (en_price e)) es"
proof -
  have "before s x e = isPriceBetterOrEqual s (en_price x) (en_price e)" if "x \<in> set es" for x
    using assms that by (auto simp: before_def isPriceBetter_def isPriceBetterOrEqual_def)
  then have "takeWhile (\<lambda>x. before s x e) es = takeWhile (\<lambda>x. isPriceBetterOrEqual s (en_price x) (en_price e)) es"
    and "dropWhile (\<lambda>x. before s x e) es = dropWhile (\<lambda>x. isPriceBetterOrEqual s (en_price x) (en_price e)) es"
    by (auto intro: takeWhile_cong dropWhile_cong)
  then show ?thesis by (simp add: insert_entry_def)
qed

text \<open>
  Resting an order. On any L3 book that keeps its contract, \<open>addOrder\<close> puts the order behind
  every order of its price and better and in front of every worse price, finds it again under
  its number, its client id and its order id, changes no phantom quantity and keeps the book's
  invariant.
\<close>

theorem addOrder_rests_last:
  assumes "l3_book L binv" and "obinv L binv {} b" and "prio_bounded L b" and "restable L b p"
    and "0 < leaves_quantity (ob_buffer b p)" and "acct_ok (ob_buffer b p)"
  shows "let b' = addOrder L p t 0 lb b; ord = ob_buffer b' p;
             worse = (\<lambda>x. \<not> isPriceBetterOrEqual (side ord) (en_price x) (price ord)) in
           obinv L binv {} b' \<and> prio_bounded L b' \<and>
           queue L b' (side ord) =
             takeWhile (Not \<circ> worse) (queue L b (side ord)) @ [entry_for ord] @
             dropWhile (Not \<circ> worse) (queue L b (side ord)) \<and>
           queue L b' (opposite_side (side ord)) = queue L b (opposite_side (side ord)) \<and>
           findOrder (id_num ord) b' = Some p \<and>
           (client_order_id ord \<noteq> [] \<longrightarrow> findOrderByClientOrderId (client_order_id ord) b' = Some p) \<and>
           (order_id ord \<noteq> [] \<longrightarrow> findOrderByOrderId (order_id ord) b' = Some p) \<and>
           (\<forall>x. getMDLevelQty b' x = getMDLevelQty b x)"
proof -
  let ?b = "addOrder L p t 0 lb b"
  let ?s = "side (ob_buffer b p)"
  note ok = l3_book.addOrder_ok [OF assms(1,2,4-6), of 0 t lb, simplified]
  have buf: "ob_buffer ?b = (ob_buffer b)(p := (ob_buffer b p)\<lparr>priority := ob_next_priority b + 1\<rparr>)"
    and ord: "ob_orders ?b = (ob_orders b)(id_num (ob_buffer b p) \<mapsto> p)"
    and np: "ob_next_priority ?b = ob_next_priority b + 1"
    and qs: "queue L ?b ?s = insert_entry ?s (entry_for (ob_buffer ?b p)) (queue L b ?s)"
    and qo: "queue L ?b (opposite_side ?s) = queue L b (opposite_side ?s)"
    using ok(2) by (simp_all add: rested_def Let_def)
  have s: "real_side ?s" and new: "id_num (ob_buffer b p) \<notin> en_id ` set (queue L b BUY)"
    "id_num (ob_buffer b p) \<notin> en_id ` set (queue L b SELL)"
    using assms(4) by (auto simp: restable_def Let_def)
  have low: "\<forall>x\<in>set (queue L b s'). en_prio x \<le> ob_next_priority b" if "real_side s'" for s'
    using assms(3) that by (simp add: prio_bounded_def)
  have q': "queue L ?b ?s = takeWhile (\<lambda>x. isPriceBetterOrEqual ?s (en_price x) (price (ob_buffer b p))) (queue L b ?s) @
      [entry_for (ob_buffer ?b p)] @
      dropWhile (\<lambda>x. isPriceBetterOrEqual ?s (en_price x) (price (ob_buffer b p))) (queue L b ?s)"
  proof -
    have "\<forall>x\<in>set (queue L b ?s). en_prio x \<le> en_prio (entry_for (ob_buffer ?b p))"
      using low [OF s] by (force simp: buf entry_for_def)
    moreover have "en_price (entry_for (ob_buffer ?b p)) = price (ob_buffer b p)" by (simp add: buf entry_for_def)
    ultimately show ?thesis using insert_entry_last [of "queue L b ?s" "entry_for (ob_buffer ?b p)" ?s] by (simp add: qs)
  qed
  have mem: "set (queue L ?b s') \<subseteq> insert (entry_for (ob_buffer ?b p)) (set (queue L b s'))" if "real_side s'" for s'
    using queue_other [OF s that] qs qo by (cases "s' = ?s") auto
  have pb: "prio_bounded L ?b"
    unfolding prio_bounded_def np
    using mem low by (fastforce simp: buf entry_for_def)
  have "psum ((ob_orders b)(id_num (ob_buffer b p) \<mapsto> p)) x (queue L b s') = psum (ob_orders b) x (queue L b s')"
    if "s' = BUY \<or> s' = SELL" for x s'
    using new that psum_upd_fresh by blast
  then have md: "getMDLevelQty ?b x = getMDLevelQty b x" for x
    using assms(2) ok(1) qo qs s
    by (simp add: obinv_def phantom_qty_pair [OF s] ord phantom_in_def entry_for_def buf)
       (cases ?s; simp add: real_side_def)
  have look: "findOrderByClientOrderId c ?b = Some p" if "c \<noteq> []" "c = client_order_id (ob_buffer b p)" for c
    using ok(1) that by (simp add: obinv_def indexed_def findOrderByClientOrderId_def buf ord)
  have look': "findOrderByOrderId c ?b = Some p" if "c \<noteq> []" "c = order_id (ob_buffer b p)" for c
    using ok(1) that by (simp add: obinv_def indexed_def findOrderByOrderId_def buf ord)
  show ?thesis
    using ok(1) q' qo pb md look look' by (simp add: Let_def buf ord findOrder_def comp_def)
qed

theorem addOrder_rests_last_witness:
  "let b' = addOrder rf_ops 7 4 0 True ex_book in
     restable rf_ops ex_book 7 \<and> queue rf_ops b' BUY = [\<lparr>en_price = 100, en_id = 1, en_qty = 5, en_prio = 1\<rparr>] \<and>
     findOrder 1 b' = Some 7 \<and> findOrderByClientOrderId ''c1'' b' = Some 7"
proof -
  have "prio_bounded rf_ops ex_book" by (simp add: prio_bounded_def)
  moreover have "ob_buffer (addOrder rf_ops 7 4 0 True ex_book) 7 = (ob_buffer ex_book 7)\<lparr>priority := 1\<rparr>"
    using ref.addOrder_ok(2) [OF ex_book_inv ex_book_restable, of 0 4 True]
    by (simp add: rested_def Let_def ex_book_sel)
  ultimately show ?thesis
    using addOrder_rests_last [OF ref.l3_book_axioms ex_book_inv _ ex_book_restable, of 4 True] ex_book_restable
    by (simp add: Let_def ex_book_sel entry_for_def)
qed

lemma phantom_after_remove:
  assumes "l3_book L binv" and "obinv L binv {} b" and "obinv L binv {} b'" and "cancelled L r seq b b'"
    and "ob_orders b (id_num (ob_buffer b r)) = Some r"
  shows "getMDLevelQty b' x = getMDLevelQty b x"
proof -
  let ?s = "side (ob_buffer b r)" and ?i = "id_num (ob_buffer b r)" and ?e = "entry_for (ob_buffer b r)"
  have s: "real_side ?s" using obinv_real_side [OF assms(2,5)] .
  have e: "?e \<in> set (queue L b ?s)" "en_id ?e = ?i"
    using obinv_linked [OF assms(2,5)] by (simp_all add: linked_def entry_for_def)
  note d = l3_book.queue_distinct [OF assms(1,2) s]
  have "?i \<notin> en_id ` set (queue L b (opposite_side ?s))" using d(2) e imageI [OF e(1), of en_id] by auto
  moreover have "?i \<notin> en_id ` set (remove_entry ?i (queue L b ?s))" by (auto simp: set_remove_entry)
  ultimately show ?thesis
    using assms psum_remove_entry [OF d(1) e(1), of "ob_orders b" x] e(2)
    by (simp add: obinv_def phantom_qty_pair [OF s] cancelled_def Let_def psum_upd_fresh phantom_in_def)
qed

text \<open>
  Cancelling an order. \<open>deleteOrder\<close> takes exactly that order out of its queue and out of all
  three lookup maps, zeroes its leaves, and touches neither the other side, the other orders nor
  the phantom quantities.
\<close>

theorem deleteOrder_removes:
  assumes "l3_book L binv" and "obinv L binv {} b" and "findOrder i b = Some r"
  shows "let b' = deleteOrder L r t 0 lb b; ord = ob_buffer b r in
           obinv L binv {} b' \<and>
           queue L b' (side ord) = remove_entry i (queue L b (side ord)) \<and>
           queue L b' (opposite_side (side ord)) = queue L b (opposite_side (side ord)) \<and>
           findOrder i b' = None \<and> (\<forall>j. j \<noteq> i \<longrightarrow> findOrder j b' = findOrder j b) \<and>
           findOrderByClientOrderId (client_order_id ord) b' = None \<and>
           findOrderByOrderId (order_id ord) b' = None \<and>
           ob_buffer b' = (ob_buffer b)(r := ord\<lparr>leaves_quantity := 0\<rparr>) \<and>
           (\<forall>x. getMDLevelQty b' x = getMDLevelQty b x)"
proof -
  let ?b = "deleteOrder L r t 0 lb b"
  have own: "ob_orders b (id_num (ob_buffer b r)) = Some r" and i: "id_num (ob_buffer b r) = i"
    using assms(3) obinv_id_num [OF assms(2)] by (simp_all add: findOrder_def)
  note ok = l3_book.deleteOrder_ok [OF assms(1,2) own, of 0 t lb, simplified]
  have c: "cancelled L r 0 b ?b" by (rule ok(2))
  have ix: "m c = None"
    if "indexed m key ?b" "c = key (ob_buffer b r)" "key (ob_buffer ?b r) = key (ob_buffer b r)"
      "indexed m' key b" "\<And>q. q \<noteq> r \<Longrightarrow> m c = Some q \<Longrightarrow> m' c = Some q" for m m' c and key :: "Order \<Rightarrow> string"
  proof (cases "m c")
    case (Some q)
    then have "ob_orders ?b (id_num (ob_buffer ?b q)) = Some q" and k: "c \<noteq> []" using that(1) by (auto simp: indexed_def)
    then have "q \<noteq> r" using c i by (auto simp: cancelled_def Let_def)
    moreover have "m' c = Some r" using that(2,4) own k by (simp add: indexed_def)
    ultimately show ?thesis using that(5) Some by auto
  qed
  have cl: "findOrderByClientOrderId (client_order_id (ob_buffer b r)) ?b = None"
    unfolding findOrderByClientOrderId_def using ok(1) c assms(2)
    by (intro ix [of _ client_order_id _ "ob_by_client b"])
      (auto simp: obinv_def indexed_def cancelled_def Let_def split: if_splits)
  have oi: "findOrderByOrderId (order_id (ob_buffer b r)) ?b = None"
    unfolding findOrderByOrderId_def using ok(1) c assms(2)
    by (intro ix [of _ order_id _ "ob_by_order b"])
      (auto simp: obinv_def indexed_def cancelled_def Let_def split: if_splits)
  show ?thesis
    using ok(1) c cl oi i phantom_after_remove [OF assms(1,2) ok own]
    by (simp add: Let_def cancelled_def findOrder_def)
qed

lemma ex_rested:
  "obinv rf_ops rf_inv {} (addOrder rf_ops 7 4 0 True ex_book)"
  "ob_orders (addOrder rf_ops 7 4 0 True ex_book) = [1 \<mapsto> 7]"
  "ob_buffer (addOrder rf_ops 7 4 0 True ex_book) = (ob_buffer ex_book)(7 := (ob_buffer ex_book 7)\<lparr>priority := 1\<rparr>)"
  "queue rf_ops (addOrder rf_ops 7 4 0 True ex_book) BUY = [\<lparr>en_price = 100, en_id = 1, en_qty = 5, en_prio = 1\<rparr>]"
  "queue rf_ops (addOrder rf_ops 7 4 0 True ex_book) SELL = []"
  "ob_live (addOrder rf_ops 7 4 0 True ex_book) = {7}"
  using ref.addOrder_ok [OF ex_book_inv ex_book_restable, of 0 4 True]
  by (simp_all add: rested_def Let_def ex_book_sel insert_entry_def entry_for_def)

theorem deleteOrder_removes_witness:
  "let b = addOrder rf_ops 7 4 0 True ex_book; b' = deleteOrder rf_ops 7 9 0 True b in
     findOrder 1 b = Some 7 \<and> findOrder 1 b' = None \<and> findOrderByClientOrderId ''c1'' b' = None \<and>
     queue rf_ops b' BUY = []"
  using deleteOrder_removes [OF ref.l3_book_axioms ex_rested(1), of 1 7 9 True]
  by (simp add: Let_def findOrder_def ex_rested(2-4) ex_book_sel)

text \<open>
  A snapshot rebuild keeps the clients' orders. Whatever order the hash map is walked in,
  \<open>clearMDOrders\<close> leaves the book holding exactly the simulator's own resting orders, each with
  its price, remaining quantity and priority, sorted by price and priority; no phantom quantity
  is left anywhere, and lookups, order records and pool slots are as they were.
\<close>

theorem clearMDOrders_keeps_orders:
  assumes "l3_book L binv" and "obinv L binv {} b" and "distinct ids" and "set ids = dom (ob_orders b)"
  shows "let b' = clearMDOrders L ids b in
           obinv L binv {} b' \<and> ob_orders b' = ob_orders b \<and> ob_buffer b' = ob_buffer b \<and> ob_live b' = ob_live b \<and>
           (\<forall>x. getMDLevelQty b' x = 0) \<and>
           (\<forall>s. real_side s \<longrightarrow> set (queue L b' s) = our_entries b s \<and> sorted_wrt (before s) (queue L b' s))"
proof -
  let ?b = "clearMDOrders L ids b"
  note ok = l3_book.clearMDOrders_ok [OF assms]
  have "phantom_in (ob_orders b) x e = 0" if "e \<in> set (queue L ?b s)" "real_side s" for x e s
  proof -
    have "e \<in> our_entries b s" using ok(5) [OF that(2)] that(1) by simp
    then show ?thesis using obinv_id_num [OF assms(2)]
      by (auto simp: our_entries_def phantom_in_def entry_for_def)
  qed
  then have "psum (ob_orders b) x (queue L ?b s) = 0" if "real_side s" for x s
    using that by (blast intro: psum_zero)
  then have "phantom_qty L ?b x = 0" for x by (simp add: phantom_qty_def ok(2) real_side_def)
  then have "getMDLevelQty ?b x = 0" for x using ok(1) by (simp add: obinv_def)
  then show ?thesis
    using ok(1-5) l3_book.queue_sorted [OF assms(1) ok(1)] by (simp add: Let_def)
qed

theorem clearMDOrders_keeps_orders_witness:
  "let b = addOrder rf_ops 7 4 0 True ex_book; b' = clearMDOrders rf_ops [1] b in
     set [1] = dom (ob_orders b) \<and> set (queue rf_ops b' BUY) = {\<lparr>en_price = 100, en_id = 1, en_qty = 5, en_prio = 1\<rparr>} \<and>
     getMDLevelQty b' 100 = 0"
  using clearMDOrders_keeps_orders [OF ref.l3_book_axioms ex_rested(1), of "[1]"]
  by (simp add: Let_def ex_rested(2,3) real_side_def our_entries_def ex_book_sel entry_for_def)

end
