(* ===== verification/Match_Common.thy ===== *)
theory Match_Common
  imports Book_Operations
begin

text \<open>
  \<open>src/src/matching_engine/matching_engine.cpp\<close> and \<open>match_common.hpp\<close>: the reports an engine
  publishes and the building blocks both engines share. The engine state extends the book
  with the response queue and the trade id counter. A response is written into the slot the
  queue reserves, whose previous content is \<open>response_slot\<close>.
\<close>

section \<open>Engine state and reports\<close>

record 'l Engine = "'l OrderBook" +
  response_queue :: "OrderResponse list"
  response_slot :: "nat \<Rightarrow> OrderResponse"
  next_trade_id :: nat

type_synonym ('l, 'z) engine = "('l, 'z) Engine_scheme"

definition publish :: "(OrderResponse \<Rightarrow> OrderResponse) \<Rightarrow> ('l, 'z) engine \<Rightarrow> ('l, 'z) engine" where
  "publish f st = st\<lparr>response_queue :=
     response_queue st @ [f (response_slot st (length (response_queue st)))]\<rparr>"

definition nextTradeId :: "('l, 'z) engine \<Rightarrow> nat \<times> ('l, 'z) engine" where
  "nextTradeId st = (next_trade_id st, st\<lparr>next_trade_id := next_trade_id st + 1\<rparr>)"

definition ack_report :: "Order \<Rightarrow> time_ns \<Rightarrow> OrderResponse \<Rightarrow> OrderResponse" where
  "ack_report order request_time response = (setOrderIdentity order response)\<lparr>
     r_response_type := MT_EXECUTION_REPORT,
     r_exec_type := ET_NEW,
     r_order_status := OS_NEW,
     r_order_type := otype order,
     r_time_in_force := time_in_force order,
     r_price := price order,
     r_last_fill_price := last_fill_price order,
     r_avg_fill_price := avg_fill_price order,
     r_qty := quantity order,
     r_cum_qty := 0,
     r_leaves_qty := leaves_quantity order,
     r_creation_time := created_time order,
     r_timestamp := last_update_time order,
     r_request_time := request_time,
     r_side := side order,
     r_post_only := post_only order\<rparr>"

definition publishOrderAck :: "Order \<Rightarrow> time_ns \<Rightarrow> ('l, 'z) engine \<Rightarrow> ('l, 'z) engine" where
  "publishOrderAck order request_time st = publish (ack_report order request_time) st"

definition execution_report :: "Order \<Rightarrow> bool \<Rightarrow> OrderResponse \<Rightarrow> OrderResponse" where
  "execution_report order aggressor response = (setOrderIdentity order response)\<lparr>
     r_aggressor := aggressor,
     r_response_type := MT_EXECUTION_REPORT,
     r_exec_type := ET_TRADE,
     r_order_status := (if leaves_quantity order \<noteq> 0 then OS_PARTIALLY_FILLED else OS_FILLED),
     r_order_type := otype order,
     r_time_in_force := time_in_force order,
     r_price := price order,
     r_last_fill_price := last_fill_price order,
     r_avg_fill_price := avg_fill_price order,
     r_qty := quantity order,
     r_last_qty := last_fill_qty order,
     r_cum_qty := cum_quantity order,
     r_leaves_qty := leaves_quantity order,
     r_creation_time := created_time order,
     r_timestamp := last_update_time order,
     r_side := side order,
     r_post_only := post_only order\<rparr>"

definition publishOrderExecution :: "Order \<Rightarrow> bool \<Rightarrow> ('l, 'z) engine \<Rightarrow> ('l, 'z) engine" where
  "publishOrderExecution order aggressor st = publish (execution_report order aggressor) st"

definition modify_report :: "Order \<Rightarrow> price_t \<Rightarrow> qty_t \<Rightarrow> time_ns \<Rightarrow> OrderResponse \<Rightarrow> OrderResponse" where
  "modify_report order new_price new_qty request_time response = (setOrderIdentity order response)\<lparr>
     r_response_type := MT_EXECUTION_REPORT,
     r_exec_type := ET_REPLACED,
     r_order_status := OS_REPLACED,
     r_order_type := otype order,
     r_time_in_force := time_in_force order,
     r_price := new_price,
     r_qty := new_qty,
     r_last_qty := last_fill_qty order,
     r_cum_qty := cum_quantity order,
     r_leaves_qty := leaves_quantity order,
     r_creation_time := created_time order,
     r_timestamp := last_update_time order,
     r_request_time := request_time,
     r_side := side order,
     r_post_only := post_only order\<rparr>"

definition publishOrderModify ::
    "Order \<Rightarrow> price_t \<Rightarrow> qty_t \<Rightarrow> time_ns \<Rightarrow> ('l, 'z) engine \<Rightarrow> ('l, 'z) engine" where
  "publishOrderModify order new_price new_qty request_time st =
     publish (modify_report order new_price new_qty request_time) st"

definition cancel_report :: "Order \<Rightarrow> time_ns \<Rightarrow> OrderResponse \<Rightarrow> OrderResponse" where
  "cancel_report order request_time response = (setOrderIdentity order response)\<lparr>
     r_response_type := MT_EXECUTION_REPORT,
     r_exec_type := ET_CANCELED,
     r_order_status := OS_CANCELED,
     r_order_type := otype order,
     r_time_in_force := time_in_force order,
     r_price := price order,
     r_last_fill_price := last_fill_price order,
     r_avg_fill_price := avg_fill_price order,
     r_qty := quantity order,
     r_last_qty := last_fill_qty order,
     r_cum_qty := cum_quantity order,
     r_leaves_qty := 0,
     r_creation_time := created_time order,
     r_timestamp := last_update_time order,
     r_request_time := request_time,
     r_side := side order,
     r_post_only := post_only order\<rparr>"

definition publishOrderCancel :: "Order \<Rightarrow> time_ns \<Rightarrow> ('l, 'z) engine \<Rightarrow> ('l, 'z) engine" where
  "publishOrderCancel order request_time st = publish (cancel_report order request_time) st"

section \<open>Self-match prevention\<close>

datatype Reach = Queue | Level

definition isSelfMatch :: "Order \<Rightarrow> Order option \<Rightarrow> bool" where
  "isSelfMatch incoming book_order = (case book_order of
      None \<Rightarrow> False
    | Some resting \<Rightarrow>
        if client_id incoming = -1 \<or> client_id resting = -1 then False
        else client_id incoming = client_id resting)"

text \<open>The full order of a book order, as \<open>book.findOrder\<close> resolves it.\<close>

definition fullOrder :: "order_num \<Rightarrow> ('l, 'z) book \<Rightarrow> Order option" where
  "fullOrder i b = map_option (ob_buffer b) (findOrder i b)"

definition handleSelfMatch ::
    "'l l3_ops \<Rightarrow> ptr \<Rightarrow> time_ns \<Rightarrow> time_ns \<Rightarrow> seq_t \<Rightarrow> SelfMatchPreventionMode \<Rightarrow> ('l, 'z) engine \<Rightarrow>
     bool \<times> ('l, 'z) engine" where
  "handleSelfMatch L r request_time event_time seq smp st = (case smp of
      SMP_NONE \<Rightarrow> (True, st)
    | SMP_CANCEL_RESTING \<Rightarrow>
        (let st1 = deleteOrder L r event_time seq False st;
             st2 = publishOrderCancel (ob_buffer st1 r) request_time st1
         in (True, freeOrder r st2))
    | SMP_CANCEL_NEWEST \<Rightarrow> (False, st))"

definition crosses :: "Side \<Rightarrow> price_t \<Rightarrow> price_t \<Rightarrow> bool" where
  "crosses s order_price level_price \<longleftrightarrow>
     order_price = NULL_PRICE \<or> isPriceBetterOrEqual s level_price order_price"

fun wsm_orders :: "Reach \<Rightarrow> Order \<Rightarrow> ('l, 'z) book \<Rightarrow> qty_t \<Rightarrow> l3_order list \<Rightarrow> bool + qty_t" where
  "wsm_orders reach order b remaining [] = Inr remaining"
| "wsm_orders reach order b remaining (bo # bos) =
     (if reach = Queue \<and> remaining \<le> 0 then Inl False
      else if isSelfMatch order (fullOrder (lo_id bo) b) then Inl True
      else wsm_orders reach order b
             (if reach = Queue then remaining - min (lo_qty bo) remaining else remaining) bos)"

fun wsm_levels :: "Reach \<Rightarrow> Side \<Rightarrow> Order \<Rightarrow> price_t \<Rightarrow> ('l, 'z) book \<Rightarrow> qty_t \<Rightarrow> l3_level list \<Rightarrow> bool" where
  "wsm_levels reach s order order_price b remaining [] = False"
| "wsm_levels reach s order order_price b remaining (l # ls) =
     (if remaining \<le> 0 then False
      else if \<not> crosses s order_price (lv_price l) then False
      else case wsm_orders reach order b remaining (lv_orders l) of
        Inl found \<Rightarrow> found
      | Inr remaining' \<Rightarrow>
          wsm_levels reach s order order_price b
            (if reach = Level then remaining' - min (lv_total l) remaining' else remaining') ls)"

definition wouldSelfMatch ::
    "'l l3_ops \<Rightarrow> Reach \<Rightarrow> Side \<Rightarrow> Order \<Rightarrow> price_t \<Rightarrow> qty_t \<Rightarrow> ('l, 'z) book \<Rightarrow> bool" where
  "wouldSelfMatch L reach s order order_price order_qty b =
     wsm_levels reach s order order_price b order_qty (l3_levels L (ob_l3 b) s)"

section \<open>Fill-or-kill\<close>

fun cfc_orders ::
    "Order \<Rightarrow> SelfMatchPreventionMode \<Rightarrow> ('l, 'z) book \<Rightarrow> qty_t \<Rightarrow> l3_order list \<Rightarrow> bool + qty_t" where
  "cfc_orders order smp b remaining [] = Inr remaining"
| "cfc_orders order smp b remaining (bo # bos) =
     (if smp \<noteq> SMP_NONE \<and> isSelfMatch order (fullOrder (lo_id bo) b) then
        (if smp = SMP_CANCEL_NEWEST then Inl False else cfc_orders order smp b remaining bos)
      else
        (let remaining' = remaining - min (lo_qty bo) remaining
         in if remaining' = 0 then Inl True else cfc_orders order smp b remaining' bos))"

fun cfc_levels ::
    "Side \<Rightarrow> Order \<Rightarrow> price_t \<Rightarrow> SelfMatchPreventionMode \<Rightarrow> ('l, 'z) book \<Rightarrow> qty_t \<Rightarrow> l3_level list \<Rightarrow> bool" where
  "cfc_levels s order order_price smp b remaining [] = (remaining = 0)"
| "cfc_levels s order order_price smp b remaining (l # ls) =
     (if \<not> crosses s order_price (lv_price l) then remaining = 0
      else case cfc_orders order smp b remaining (lv_orders l) of
        Inl r \<Rightarrow> r
      | Inr remaining' \<Rightarrow> cfc_levels s order order_price smp b remaining' ls)"

definition canFillCompletely ::
    "'l l3_ops \<Rightarrow> Side \<Rightarrow> Order \<Rightarrow> price_t \<Rightarrow> qty_t \<Rightarrow> SelfMatchPreventionMode \<Rightarrow> ('l, 'z) book \<Rightarrow> bool" where
  "canFillCompletely L s order order_price order_qty smp b =
     cfc_levels s order order_price smp b order_qty (l3_levels L (ob_l3 b) s)"

section \<open>Before matching\<close>

definition effective_qty :: "Order \<Rightarrow> qty_t \<Rightarrow> qty_t" where
  "effective_qty order order_qty =
     (if status order = OS_PENDING_REPLACE
      then max 0 (leaves_quantity order + (order_qty - quantity order))
      else leaves_quantity order)"

definition applyReplace :: "price_t \<Rightarrow> qty_t \<Rightarrow> Order \<Rightarrow> Order" where
  "applyReplace order_price order_qty order = order\<lparr>
     quantity := order_qty,
     price := order_price,
     leaves_quantity := (if cum_quantity order \<ge> order_qty then 0 else order_qty - cum_quantity order)\<rparr>"

definition prepareOrder ::
    "'l l3_ops \<Rightarrow> Reach \<Rightarrow> Side \<Rightarrow> ptr \<Rightarrow> price_t \<Rightarrow> qty_t \<Rightarrow> time_ns \<Rightarrow> SelfMatchPreventionMode \<Rightarrow>
     ('l, 'z) engine \<Rightarrow> OrdRejectReason option \<times> ('l, 'z) engine" where
  "prepareOrder L reach s p order_price order_qty request_time smp st =
     (let order = ob_buffer st p; eff = effective_qty order order_qty in
      if smp = SMP_CANCEL_NEWEST \<and> eff > 0 \<and> wouldSelfMatch L reach s order order_price eff st
      then (Some RJ_SMP, st)
      else
        (let st1 = (if status order = OS_PENDING_NEW then publishOrderAck order request_time st else st) in
         if time_in_force order = TIF_FILL_OR_KILL \<and>
            \<not> canFillCompletely L s order order_price order_qty smp st1
         then (Some RJ_FOK_CANNOT_FILL, publishOrderCancel order request_time st1)
         else
           (let st2 = (if status order = OS_PENDING_REPLACE then
                         (let st' = set_order p (applyReplace order_price order_qty) st1
                          in publishOrderModify (ob_buffer st' p) order_price order_qty request_time st')
                       else st1)
            in if leaves_quantity (ob_buffer st2 p) = 0
               then (Some RJ_NONE, publishOrderCancel (ob_buffer st2 p) request_time st2)
               else (None, st2))))"

section \<open>Fills\<close>

record MatchContext =
  mc_event_time :: time_ns
  mc_seq_num :: seq_t
  mc_summaries :: "TradeSummaryInfo list"
  mc_last_fill_price :: price_t

definition new_context :: "time_ns \<Rightarrow> seq_t \<Rightarrow> MatchContext" where
  "new_context event_time seq =
     \<lparr>mc_event_time = event_time, mc_seq_num = seq, mc_summaries = [], mc_last_fill_price = NULL_PRICE\<rparr>"

definition add_leg :: "order_num \<Rightarrow> qty_t \<Rightarrow> qty_t \<Rightarrow> TradeSummaryInfo \<Rightarrow> TradeSummaryInfo" where
  "add_leg book_order_id trade_qty ph_qty sm = sm\<lparr>
     ts_num_orders := ts_num_orders sm + 1,
     ts_qty := ts_qty sm + trade_qty,
     ts_phantom_qty := ts_phantom_qty sm + ph_qty,
     ts_Trades := (case ts_Trades sm of
         [] \<Rightarrow> []
       | t # ts \<Rightarrow> t\<lparr>t_qty := t_qty t + trade_qty\<rparr> # ts) @ [\<lparr>t_order_id = book_order_id, t_qty = trade_qty\<rparr>]\<rparr>"

definition recordTrade ::
    "Side \<Rightarrow> order_num \<Rightarrow> order_num \<Rightarrow> price_t \<Rightarrow> qty_t \<Rightarrow> qty_t \<Rightarrow> MatchContext \<Rightarrow> ('l, 'z) engine \<Rightarrow>
     MatchContext \<times> ('l, 'z) engine" where
  "recordTrade s aggressor_id book_order_id px trade_qty ph_qty ctx st =
     (if mc_last_fill_price ctx \<noteq> px then
        (let (tid, st1) = nextTradeId st;
             sm = \<lparr>ts_timestamp = mc_event_time ctx, ts_trade_id = tid, ts_aggressor_side = opposite_side s,
                   ts_price = px, ts_qty = trade_qty, ts_phantom_qty = ph_qty, ts_num_orders = 2,
                   ts_Trades = [\<lparr>t_order_id = aggressor_id, t_qty = trade_qty\<rparr>,
                                \<lparr>t_order_id = book_order_id, t_qty = trade_qty\<rparr>]\<rparr>
         in (ctx\<lparr>mc_summaries := mc_summaries ctx @ [sm], mc_last_fill_price := px\<rparr>, st1))
      else
        (ctx\<lparr>mc_summaries :=
             butlast (mc_summaries ctx) @
             [add_leg book_order_id trade_qty ph_qty (last (mc_summaries ctx))]\<rparr>, st))"

text \<open>What happens to a resting order of ours once the book has executed it.\<close>

definition reportResting :: "ptr option \<Rightarrow> ('l, 'z) engine \<Rightarrow> ('l, 'z) engine" where
  "reportResting owner st = (case owner of
      None \<Rightarrow> st
    | Some r \<Rightarrow>
        (let st1 = publishOrderExecution (ob_buffer st r) False st
         in if leaves_quantity (ob_buffer st1 r) = 0 then dropOrder r st1 else st1))"

definition fillResting ::
    "'l l3_ops \<Rightarrow> Side \<Rightarrow> ptr \<Rightarrow> order_num \<Rightarrow> ptr option \<Rightarrow> price_t \<Rightarrow> qty_t \<Rightarrow> qty_t \<Rightarrow> MatchContext \<Rightarrow>
     ('l, 'z) engine \<Rightarrow> bool \<times> MatchContext \<times> ('l, 'z) engine" where
  "fillResting L s p book_order_id owner px trade_qty remaining ctx st =
     (let st1 = set_order p (executeOrder px trade_qty (mc_event_time ctx)) st;
          st2 = publishOrderExecution (ob_buffer st1 p) True st1;
          (ok, st3) = book_executeOrder L book_order_id trade_qty (mc_event_time ctx) (mc_seq_num ctx)
                        (remaining = 0) st2
      in if \<not> ok then (False, ctx, st3)
         else
           (let st4 = reportResting owner st3;
                (ctx', st5) = recordTrade s (id_num (ob_buffer st4 p)) book_order_id px trade_qty
                                (if owner \<noteq> None then 0 else trade_qty) ctx st4
            in (True, ctx', st5)))"

definition fillRestingFromFeed ::
    "'l l3_ops \<Rightarrow> Side \<Rightarrow> order_num \<Rightarrow> order_num \<Rightarrow> price_t \<Rightarrow> qty_t \<Rightarrow> qty_t \<Rightarrow> MatchContext \<Rightarrow>
     ('l, 'z) engine \<Rightarrow> bool \<times> qty_t \<times> MatchContext \<times> ('l, 'z) engine" where
  "fillRestingFromFeed L s aggressor_id book_order_id px trade_qty qty ctx st =
     (let owner = findOrder book_order_id st;
          qty1 = qty - trade_qty;
          (ok, st1) = book_executeOrder L book_order_id trade_qty (mc_event_time ctx) (mc_seq_num ctx)
                        (qty1 = 0) st
      in if \<not> ok then (False, qty1 + trade_qty, ctx, st1)
         else
           (let st2 = reportResting owner st1;
                (ctx', st3) = recordTrade s aggressor_id book_order_id px trade_qty
                                (if owner \<noteq> None then 0 else trade_qty) ctx st2
            in (True, qty1, ctx', st3)))"

definition cancelUnrestableRemainder :: "ptr \<Rightarrow> qty_t \<Rightarrow> time_ns \<Rightarrow> ('l, 'z) engine \<Rightarrow> ('l, 'z) engine" where
  "cancelUnrestableRemainder p remaining request_time st =
     (if remaining > 0 \<and> \<not> restsRemainder (ob_buffer st p)
      then publishOrderCancel (ob_buffer st p) request_time st else st)"

end
