(* ===== verification/Match_Facts.thy ===== *)
theory Match_Facts
  imports Match_Common
begin

text \<open>
  What the shared building blocks of \<open>match_common.hpp\<close> do to the book, the pool, the reports
  and the trade summaries. Both engines' theories rest on these facts.
\<close>

section \<open>Publishing leaves the book alone\<close>

lemma publish_sel [simp]:
  "ob_l3 (publish f st) = ob_l3 st" "ob_orders (publish f st) = ob_orders st"
  "ob_live (publish f st) = ob_live st" "ob_by_client (publish f st) = ob_by_client st"
  "ob_by_order (publish f st) = ob_by_order st" "ob_md_qty (publish f st) = ob_md_qty st"
  "ob_symbol (publish f st) = ob_symbol st" "ob_venue (publish f st) = ob_venue st"
  "ob_buffer (publish f st) = ob_buffer st"
  "ob_last_update_time (publish f st) = ob_last_update_time st" "ob_last_seq_num (publish f st) = ob_last_seq_num st"
  "ob_level_cache (publish f st) = ob_level_cache st" "ob_order_cache (publish f st) = ob_order_cache st"
  "ob_next_priority (publish f st) = ob_next_priority st" "ob_next_order_id (publish f st) = ob_next_order_id st"
  "response_slot (publish f st) = response_slot st" "next_trade_id (publish f st) = next_trade_id st"
  "Engine.more (publish f st) = Engine.more st"
  "response_queue (publish f st) = response_queue st @ [f (response_slot st (length (response_queue st)))]"
  by (simp_all add: publish_def)

lemmas publishers [simp] =
  publishOrderAck_def publishOrderExecution_def publishOrderModify_def publishOrderCancel_def

lemma queue_cong: "ob_l3 b = ob_l3 b' \<Longrightarrow> queue L b s = queue L b' s"
  by (simp add: queue_def)

text \<open>The invariant reads only the fields of the book.\<close>

lemma obinv_cong:
  assumes "ob_l3 b = ob_l3 b'" "ob_orders b = ob_orders b'" "ob_live b = ob_live b'" "ob_buffer b = ob_buffer b'"
    "ob_by_client b = ob_by_client b'" "ob_by_order b = ob_by_order b'" "ob_md_qty b = ob_md_qty b'"
  shows "obinv L I P b = obinv L I P b'"
  using assms queue_cong [OF assms(1)]
  by (simp add: obinv_def owned_def linked_def indexed_def phantom_qty_def getMDLevelQty_def)

lemma obinv_publish [simp]: "obinv L I P (publish f st) = obinv L I P st"
  by (rule obinv_cong) simp_all

lemma queue_publish [simp]: "queue L (publish f st) s = queue L st s"
  by (simp add: queue_def)

lemma obinv_trade_id [simp]: "obinv L I P (st\<lparr>next_trade_id := n\<rparr>) = obinv L I P st"
  by (rule obinv_cong) simp_all

lemma queue_trade_id [simp]: "queue L (st\<lparr>next_trade_id := n\<rparr>) s = queue L st s"
  by (simp add: queue_def)

lemma obinv_free: "obinv L I P b \<Longrightarrow> r \<notin> ran (ob_orders b) \<Longrightarrow> obinv L I P (freeOrder r b)"
  unfolding obinv_def owned_def linked_def indexed_def phantom_qty_def getMDLevelQty_def
  by (auto simp: freeOrder_def queue_def ran_def)

lemma freeOrder_sel [simp]:
  "ob_l3 (freeOrder r b) = ob_l3 b" "ob_orders (freeOrder r b) = ob_orders b" "ob_buffer (freeOrder r b) = ob_buffer b"
  "ob_live (freeOrder r b) = ob_live b - {r}" "queue L (freeOrder r b) s = queue L b s"
  "ob_next_priority (freeOrder r b) = ob_next_priority b" "book_frame b (freeOrder r b)"
  "ob_level_cache (freeOrder r b) = ob_level_cache b" "ob_order_cache (freeOrder r b) = ob_order_cache b"
  by (simp_all add: freeOrder_def queue_def book_frame_def)

lemma engine_more:
  "book_frame st st' \<Longrightarrow>
     response_queue st' = response_queue st \<and> response_slot st' = response_slot st \<and>
     next_trade_id st' = next_trade_id st \<and> Engine.more st' = Engine.more st"
  for st :: "('l, 'z) engine"
  by (cases st; cases st') (simp add: book_frame_def)

section \<open>One fill\<close>

definition eng_frame :: "('l, 'z) engine \<Rightarrow> ('l, 'z) engine \<Rightarrow> bool" where
  "eng_frame st st' \<longleftrightarrow>
     ob_symbol st' = ob_symbol st \<and> ob_venue st' = ob_venue st \<and>
     ob_last_update_time st' = ob_last_update_time st \<and> ob_last_seq_num st' = ob_last_seq_num st \<and>
     ob_next_priority st' = ob_next_priority st \<and> ob_next_order_id st' = ob_next_order_id st \<and>
     response_slot st' = response_slot st \<and> Engine.more st' = Engine.more st"

lemma eng_frame_refl [simp]: "eng_frame st st"
  by (simp add: eng_frame_def)

lemma eng_frame_trans: "eng_frame a b \<Longrightarrow> eng_frame b c \<Longrightarrow> eng_frame a c"
  by (simp add: eng_frame_def)

lemma eng_frame_book: "book_frame st st' \<Longrightarrow> eng_frame st st'"
  using engine_more [of st st'] by (simp add: eng_frame_def book_frame_def)

lemma eng_frame_publish [simp]: "eng_frame st (publish f st)"
  by (simp add: eng_frame_def)

text \<open>
  The effect of filling entry \<open>e\<close> of side \<open>s\<close> by \<open>q\<close>: its queue, its owner if it is ours, and the
  aggressor \<open>A\<close> if there is one.
\<close>

definition fill_effect ::
    "'l l3_ops \<Rightarrow> ptr option \<Rightarrow> Side \<Rightarrow> entry \<Rightarrow> qty_t \<Rightarrow> time_ns \<Rightarrow> seq_t \<Rightarrow> ('l, 'z) engine \<Rightarrow> ('l, 'z) engine \<Rightarrow> bool" where
  "fill_effect L A s e q t seq st st' \<longleftrightarrow>
     queue L st' s = resize_entry (en_id e) (en_qty e - q) (queue L st s) \<and>
     queue L st' (opposite_side s) = queue L st (opposite_side s) \<and>
     l3_last_seq L (ob_l3 st') = next_seq (l3_last_seq L (ob_l3 st)) seq \<and>
     ob_orders st' = (if q = en_qty e then (ob_orders st)(en_id e := None) else ob_orders st) \<and>
     ob_live st' = ob_live st - (if q = en_qty e then set_option (ob_orders st (en_id e)) else {}) \<and>
     (\<forall>r. ob_buffer st' r = (if ob_orders st (en_id e) = Some r \<or> A = Some r
        then executeOrder (en_price e) q t (ob_buffer st r) else ob_buffer st r)) \<and>
     eng_frame st st'"

context l3_book
begin

lemma execute_report:
  fixes st :: "('l, 'z) engine"
  assumes inv: "obinv L binv P st" and s: "real_side s" and e: "e \<in> set (queue L st s)"
    and q: "0 < q" "q \<le> en_qty e" and seq: "seq = 0 \<or> l3_last_seq L (ob_l3 st) \<le> seq"
    and free: "\<And>r. ob_orders st (en_id e) = Some r \<Longrightarrow> r \<notin> P"
  obtains st1 st2 where "book_executeOrder L (en_id e) q t seq lb st = (True, st1)"
    "reportResting (ob_orders st (en_id e)) st1 = st2" "obinv L binv P st2"
    "fill_effect L None s e q t seq st st2" "next_trade_id st2 = next_trade_id st"
    "response_queue st2 = response_queue st @ (case ob_orders st (en_id e) of None \<Rightarrow> []
       | Some r \<Rightarrow> [execution_report (executeOrder (en_price e) q t (ob_buffer st r)) False
                      (response_slot st (length (response_queue st)))])"
proof -
  obtain st1 where run: "book_executeOrder L (en_id e) q t seq lb st = (True, st1)"
    and inv1: "obinv L binv P st1" and ex: "executed L st s e q t seq st1"
    by (rule execute_ok [OF assms])
  note em = engine_more [of st st1]
  show thesis
  proof (cases "ob_orders st (en_id e)")
    case None
    then show thesis
      using that [of st1 st1] run inv1 ex em
      by (simp add: reportResting_def executed_def fill_effect_def eng_frame_book)
  next
    case (Some r)
    have buf: "ob_buffer st1 r = executeOrder (en_price e) q t (ob_buffer st r)"
      and ord: "ob_orders st1 = (if q = en_qty e then (ob_orders st)(en_id e := None) else ob_orders st)"
      and fr: "book_frame st st1"
      using ex Some by (simp_all add: executed_def)
    note oe = owner_entry [OF inv s e Some free [OF Some]]
    have lv: "leaves_quantity (ob_buffer st1 r) = en_qty e - q" using oe(2) by (simp add: buf entry_for_def)
    have id: "id_num (ob_buffer st1 r) = en_id e" using obinv_id_num [OF inv Some] by (simp add: buf)
    let ?pub = "publishOrderExecution (ob_buffer st1 r) False st1"
    let ?st2 = "if q = en_qty e then freeOrder r ?pub else ?pub"
    have rep: "reportResting (Some r) st1 = ?st2"
      using lv id by (simp add: reportResting_def Let_def dropOrder_def ord)
    have "r \<notin> ran (ob_orders st1)" if "q = en_qty e"
      using that ran_map_remove [OF obinv_inj [OF inv] Some] by (simp add: ord)
    then have inv2: "obinv L binv P ?st2" using inv1 by (simp add: obinv_free)
    have fr2: "eng_frame st ?st2"
      using eng_frame_trans [OF eng_frame_book [OF fr], of ?st2]
      by (simp add: eng_frame_def freeOrder_def)
    have fe: "fill_effect L None s e q t seq st ?st2"
      using ex Some fr2 by (cases "q = en_qty e") (simp_all add: fill_effect_def executed_def)
    have nt: "next_trade_id ?st2 = next_trade_id st" using em [OF fr] by (simp add: freeOrder_def)
    have rq: "response_queue ?st2 = response_queue st @
        [execution_report (executeOrder (en_price e) q t (ob_buffer st r)) False
           (response_slot st (length (response_queue st)))]"
      using em [OF fr] buf by (simp add: freeOrder_def)
    show thesis
      by (rule that [OF run]) (use rep inv2 fe nt rq Some in \<open>simp_all\<close>)
  qed
qed

end

text \<open>The pool: a slot leaves it exactly when its order leaves the book.\<close>

lemma pool_fill:
  assumes "fill_effect L A s e q t seq st st'" and "pool_exact X st" and "X \<inter> ran (ob_orders st) = {}"
    and "obinv L I P st"
  shows "pool_exact X st'" and "X \<inter> ran (ob_orders st') = {}"
proof -
  have "ran ((ob_orders st)(en_id e := None)) = ran (ob_orders st) - set_option (ob_orders st (en_id e))"
    using ran_map_remove [OF obinv_inj [OF assms(4)], of "en_id e"]
    by (cases "ob_orders st (en_id e)") (auto simp: fun_upd_idem)
  moreover have "set_option (ob_orders st (en_id e)) \<inter> X = {}"
    using assms(3) by (cases "ob_orders st (en_id e)") (auto intro: ranI)
  ultimately show "pool_exact X st'" and "X \<inter> ran (ob_orders st') = {}"
    using assms(1-3) by (auto simp: fill_effect_def pool_exact_def split: if_splits)
qed

section \<open>Trade summaries\<close>

definition summary_legs :: "TradeSummaryInfo \<Rightarrow> (price_t \<times> order_num \<times> qty_t) list" where
  "summary_legs sm = map (\<lambda>t. (ts_price sm, t_order_id t, t_qty t)) (tl (ts_Trades sm))"

definition legs :: "TradeSummaryInfo list \<Rightarrow> (price_t \<times> order_num \<times> qty_t) list" where
  "legs sms = concat (map summary_legs sms)"

text \<open>
  A summary leads with the aggressor's running total, which is its quantity and the sum of its
  resting legs, and counts its legs.
\<close>

definition summary_ok :: "Side \<Rightarrow> order_num \<Rightarrow> TradeSummaryInfo \<Rightarrow> bool" where
  "summary_ok s aid sm \<longleftrightarrow>
     (\<exists>rest. rest \<noteq> [] \<and> ts_Trades sm = \<lparr>t_order_id = aid, t_qty = ts_qty sm\<rparr> # rest \<and>
        ts_qty sm = (\<Sum>t\<leftarrow>rest. t_qty t)) \<and>
     ts_num_orders sm = length (ts_Trades sm) \<and> ts_aggressor_side sm = opposite_side s \<and>
     0 \<le> ts_phantom_qty sm \<and> ts_phantom_qty sm \<le> ts_qty sm"

definition ctx_ok :: "Side \<Rightarrow> order_num \<Rightarrow> MatchContext \<Rightarrow> bool" where
  "ctx_ok s aid ctx \<longleftrightarrow>
     list_all (summary_ok s aid) (mc_summaries ctx) \<and>
     mc_last_fill_price ctx = (if mc_summaries ctx = [] then NULL_PRICE else ts_price (last (mc_summaries ctx)))"

definition phantom_traded :: "TradeSummaryInfo list \<Rightarrow> qty_t" where
  "phantom_traded sms = (\<Sum>sm\<leftarrow>sms. ts_phantom_qty sm)"

lemma new_context_ok [simp]:
  "ctx_ok s aid (new_context t seq)" "legs (mc_summaries (new_context t seq)) = []"
  "phantom_traded (mc_summaries (new_context t seq)) = 0"
  "mc_event_time (new_context t seq) = t" "mc_seq_num (new_context t seq) = seq"
  by (simp_all add: ctx_ok_def legs_def new_context_def phantom_traded_def)

lemma legs_snoc [simp]: "legs (sms @ [sm]) = legs sms @ summary_legs sm"
  by (simp add: legs_def)

lemma phantom_snoc [simp]: "phantom_traded (sms @ [sm]) = phantom_traded sms + ts_phantom_qty sm"
  by (simp add: phantom_traded_def)

lemma add_leg_ok:
  assumes "summary_ok s aid sm" and "0 < q" and "0 \<le> ph" and "ph \<le> q"
  shows "summary_ok s aid (add_leg i q ph sm)" and "summary_legs (add_leg i q ph sm) = summary_legs sm @ [(ts_price sm, i, q)]"
    and "ts_phantom_qty (add_leg i q ph sm) = ts_phantom_qty sm + ph" and "ts_price (add_leg i q ph sm) = ts_price sm"
  using assms by (auto simp: summary_ok_def add_leg_def summary_legs_def)

lemma recordTrade_ok:
  assumes ok: "ctx_ok s aid ctx" and px: "px \<noteq> NULL_PRICE" and q: "0 < q" and ph: "0 \<le> ph" "ph \<le> q"
    and run: "recordTrade s aid i px q ph ctx st = (ctx', st')"
  shows "ctx_ok s aid ctx'" and "legs (mc_summaries ctx') = legs (mc_summaries ctx) @ [(px, i, q)]"
    and "phantom_traded (mc_summaries ctx') = phantom_traded (mc_summaries ctx) + ph"
    and "mc_event_time ctx' = mc_event_time ctx" and "mc_seq_num ctx' = mc_seq_num ctx"
    and "st' = st\<lparr>next_trade_id := next_trade_id st'\<rparr>"
proof -
  have "ctx_ok s aid ctx' \<and> legs (mc_summaries ctx') = legs (mc_summaries ctx) @ [(px, i, q)] \<and>
      phantom_traded (mc_summaries ctx') = phantom_traded (mc_summaries ctx) + ph \<and>
      mc_event_time ctx' = mc_event_time ctx \<and> mc_seq_num ctx' = mc_seq_num ctx \<and>
      st' = st\<lparr>next_trade_id := next_trade_id st'\<rparr>"
  proof (cases "mc_last_fill_price ctx = px")
    case False
    then show ?thesis
      using run ok q ph by (auto simp: recordTrade_def nextTradeId_def ctx_ok_def summary_ok_def summary_legs_def)
  next
    case True
    then obtain sms sm where sms: "mc_summaries ctx = sms @ [sm]"
      using ok px by (auto simp: ctx_ok_def dest: last_snoc_butlast split: if_splits)
    then have sm: "summary_ok s aid sm" "ts_price sm = px" using ok True by (auto simp: ctx_ok_def)
    have run': "ctx' = ctx\<lparr>mc_summaries := sms @ [add_leg i q ph sm]\<rparr>" "st' = st"
      using run True by (auto simp: recordTrade_def sms)
    show ?thesis
      using ok True add_leg_ok [OF sm(1) q ph, of i] sm(2) by (simp add: run' sms ctx_ok_def)
  qed
  then show "ctx_ok s aid ctx'" and "legs (mc_summaries ctx') = legs (mc_summaries ctx) @ [(px, i, q)]"
    and "phantom_traded (mc_summaries ctx') = phantom_traded (mc_summaries ctx) + ph"
    and "mc_event_time ctx' = mc_event_time ctx" and "mc_seq_num ctx' = mc_seq_num ctx"
    and "st' = st\<lparr>next_trade_id := next_trade_id st'\<rparr>" by auto
qed

lemma fill_effect_trade_id: "fill_effect L A s e q t seq st (st'\<lparr>next_trade_id := n\<rparr>) = fill_effect L A s e q t seq st st'"
  by (simp add: fill_effect_def eng_frame_def)

text \<open>What a fill adds to the context.\<close>

definition booked :: "Side \<Rightarrow> order_num \<Rightarrow> entry \<Rightarrow> qty_t \<Rightarrow> bool \<Rightarrow> MatchContext \<Rightarrow> MatchContext \<Rightarrow> bool" where
  "booked s aid e q ours ctx ctx' \<longleftrightarrow>
     ctx_ok s aid ctx' \<and>
     legs (mc_summaries ctx') = legs (mc_summaries ctx) @ [(en_price e, en_id e, q)] \<and>
     phantom_traded (mc_summaries ctx') = phantom_traded (mc_summaries ctx) + (if ours then 0 else q) \<and>
     mc_event_time ctx' = mc_event_time ctx \<and> mc_seq_num ctx' = mc_seq_num ctx"

context l3_book
begin

lemma fillRestingFromFeed_ok:
  fixes st :: "('l, 'z) engine"
  assumes inv: "obinv L binv P st" and s: "real_side s" and e: "e \<in> set (queue L st s)"
    and q: "0 < q" "q \<le> en_qty e" and seq: "mc_seq_num ctx = 0 \<or> l3_last_seq L (ob_l3 st) \<le> mc_seq_num ctx"
    and free: "\<And>r. ob_orders st (en_id e) = Some r \<Longrightarrow> r \<notin> P"
    and ctx: "ctx_ok s aid ctx" and px: "en_price e \<noteq> NULL_PRICE"
  obtains ctx' st' where
    "fillRestingFromFeed L s aid (en_id e) (en_price e) q qty ctx st = (True, qty - q, ctx', st')"
    "obinv L binv P st'" "fill_effect L None s e q (mc_event_time ctx) (mc_seq_num ctx) st st'"
    "booked s aid e q (ob_orders st (en_id e) \<noteq> None) ctx ctx'"
    "response_queue st' = response_queue st @ (case ob_orders st (en_id e) of None \<Rightarrow> []
       | Some r \<Rightarrow> [execution_report (ob_buffer st' r) False (response_slot st (length (response_queue st)))])"
proof -
  obtain st1 st2 where ex: "book_executeOrder L (en_id e) q (mc_event_time ctx) (mc_seq_num ctx) (qty - q = 0) st = (True, st1)"
    "reportResting (ob_orders st (en_id e)) st1 = st2" "obinv L binv P st2"
    "fill_effect L None s e q (mc_event_time ctx) (mc_seq_num ctx) st st2"
    and rq: "response_queue st2 = response_queue st @ (case ob_orders st (en_id e) of None \<Rightarrow> []
       | Some r \<Rightarrow> [execution_report (executeOrder (en_price e) q (mc_event_time ctx) (ob_buffer st r)) False
                      (response_slot st (length (response_queue st)))])"
    by (rule execute_report [OF inv s e q seq free]) blast
  let ?ph = "if ob_orders st (en_id e) \<noteq> None then 0 else q"
  obtain ctx' st' where rt: "recordTrade s aid (en_id e) (en_price e) q ?ph ctx st2 = (ctx', st')" by fastforce
  have ph: "0 \<le> ?ph" "?ph \<le> q" using q by auto
  note ro = recordTrade_ok [OF ctx px q(1) ph rt]
  have st': "st' = st2\<lparr>next_trade_id := next_trade_id st'\<rparr>" by (rule ro(6))
  have "fillRestingFromFeed L s aid (en_id e) (en_price e) q qty ctx st = (True, qty - q, ctx', st')"
    using ex rt by (simp add: fillRestingFromFeed_def Let_def findOrder_def)
  moreover have "obinv L binv P st'" using ex(3) by (subst st') simp
  moreover have fe: "fill_effect L None s e q (mc_event_time ctx) (mc_seq_num ctx) st st'"
    using ex(4) by (subst st') (simp add: fill_effect_trade_id)
  moreover have "booked s aid e q (ob_orders st (en_id e) \<noteq> None) ctx ctx'"
    using ro(1-5) by (simp add: booked_def)
  moreover have "response_queue st' = response_queue st @ (case ob_orders st (en_id e) of None \<Rightarrow> []
       | Some r \<Rightarrow> [execution_report (ob_buffer st' r) False (response_slot st (length (response_queue st)))])"
  proof -
    have "response_queue st' = response_queue st2" by (subst st') simp
    then show ?thesis using rq fe by (cases "ob_orders st (en_id e)") (simp_all add: fill_effect_def)
  qed
  ultimately show thesis by (rule that)
qed

lemma fillResting_ok:
  fixes st :: "('l, 'z) engine"
  assumes inv: "obinv L binv P st" and p: "p \<in> P" and s: "real_side s" and e: "e \<in> set (queue L st s)"
    and q: "0 < q" "q \<le> en_qty e" and seq: "mc_seq_num ctx = 0 \<or> l3_last_seq L (ob_l3 st) \<le> mc_seq_num ctx"
    and free: "\<And>r. ob_orders st (en_id e) = Some r \<Longrightarrow> r \<notin> P"
    and ctx: "ctx_ok s (id_num (ob_buffer st p)) ctx" and px: "en_price e \<noteq> NULL_PRICE"
  obtains ctx' st' where
    "fillResting L s p (en_id e) (ob_orders st (en_id e)) (en_price e) q rem ctx st = (True, ctx', st')"
    "obinv L binv P st'" "fill_effect L (Some p) s e q (mc_event_time ctx) (mc_seq_num ctx) st st'"
    "booked s (id_num (ob_buffer st p)) e q (ob_orders st (en_id e) \<noteq> None) ctx ctx'"
    "response_queue st' = response_queue st @
       [execution_report (ob_buffer st' p) True (response_slot st (length (response_queue st)))] @
       (case ob_orders st (en_id e) of None \<Rightarrow> []
        | Some r \<Rightarrow> [execution_report (ob_buffer st' r) False (response_slot st (length (response_queue st) + 1))])"
proof -
  let ?t = "mc_event_time ctx" and ?sq = "mc_seq_num ctx" and ?id = "id_num (ob_buffer st p)"
  define st0 where "st0 = publishOrderExecution (executeOrder (en_price e) q ?t (ob_buffer st p)) True
      (set_order p (executeOrder (en_price e) q ?t) st)"
  have buf0: "ob_buffer st0 = (ob_buffer st)(p := executeOrder (en_price e) q ?t (ob_buffer st p))"
    and f0: "ob_orders st0 = ob_orders st" "ob_l3 st0 = ob_l3 st" "ob_live st0 = ob_live st"
    and q0: "\<And>s'. queue L st0 s' = queue L st s'" and sl0: "response_slot st0 = response_slot st"
    by (simp_all add: st0_def set_order_def queue_def)
  have rq0: "response_queue st0 = response_queue st @
      [execution_report (ob_buffer st0 p) True (response_slot st (length (response_queue st)))]"
    by (simp add: st0_def set_order_def)
  have fr0: "eng_frame st st0" by (simp add: st0_def eng_frame_def set_order_def)
  have inv0: "obinv L binv P st0"
    unfolding st0_def publishers obinv_publish using inv p by (intro obinv_set_order) auto
  obtain st1 st2 where ex: "book_executeOrder L (en_id e) q ?t ?sq (rem = 0) st0 = (True, st1)"
    "reportResting (ob_orders st0 (en_id e)) st1 = st2" "obinv L binv P st2"
    "fill_effect L None s e q ?t ?sq st0 st2"
    and rq: "response_queue st2 = response_queue st0 @ (case ob_orders st0 (en_id e) of None \<Rightarrow> []
       | Some r \<Rightarrow> [execution_report (executeOrder (en_price e) q ?t (ob_buffer st0 r)) False
                      (response_slot st0 (length (response_queue st0)))])"
    by (rule execute_report [OF inv0 s e [folded q0] q seq [folded f0] free [folded f0]]) blast
  let ?ph = "if ob_orders st (en_id e) \<noteq> None then 0 else q"
  obtain ctx' st' where rt: "recordTrade s ?id (en_id e) (en_price e) q ?ph ctx st2 = (ctx', st')" by fastforce
  have ph: "0 \<le> ?ph" "?ph \<le> q" using q by auto
  note ro = recordTrade_ok [OF ctx px q(1) ph rt]
  have np: "ob_orders st (en_id e) \<noteq> Some p" using free p by blast
  have fe2: "fill_effect L (Some p) s e q ?t ?sq st st2"
    using ex(4) np eng_frame_trans [OF fr0, of st2] by (auto simp: fill_effect_def buf0 f0 q0)
  have id2: "id_num (ob_buffer st2 p) = ?id" using fe2 by (simp add: fill_effect_def)
  have st': "st' = st2\<lparr>next_trade_id := next_trade_id st'\<rparr>" by (rule ro(6))
  have fe: "fill_effect L (Some p) s e q ?t ?sq st st'" using fe2 by (subst st') (simp add: fill_effect_trade_id)
  show thesis
  proof (rule that [OF _ _ fe])
    show "fillResting L s p (en_id e) (ob_orders st (en_id e)) (en_price e) q rem ctx st = (True, ctx', st')"
      using ex(1,2) rt id2 unfolding st0_def f0(1) [unfolded st0_def]
      by (simp add: fillResting_def Let_def)
    show "obinv L binv P st'" using ex(3) by (subst st') simp
    show "booked s ?id e q (ob_orders st (en_id e) \<noteq> None) ctx ctx'" using ro(1-5) by (simp add: booked_def)
    have "response_queue st' = response_queue st2" by (subst st') simp
    then show "response_queue st' = response_queue st @
       [execution_report (ob_buffer st' p) True (response_slot st (length (response_queue st)))] @
       (case ob_orders st (en_id e) of None \<Rightarrow> []
        | Some r \<Rightarrow> [execution_report (ob_buffer st' r) False (response_slot st (length (response_queue st) + 1))])"
      using rq rq0 fe np by (cases "ob_orders st (en_id e)") (auto simp: f0 sl0 buf0 fill_effect_def)
  qed
qed

end

end
