(* ===== verification/Sweep_Facts.thy ===== *)
theory Sweep_Facts
  imports Match_Facts
begin

text \<open>
  The abstract specification of matching, price-time priority on one queue, and the bookkeeping
  that relates a run of fills and self-match cancels to it.
\<close>

section \<open>The abstract sweep\<close>

text \<open>
  Orders are taken from the front while quantity is left and the price is acceptable; an own
  order is cancelled instead of traded. The result lists the fills, the cancelled entries, the
  queue that is left and the unfilled quantity.
\<close>

fun sweep :: "(price_t \<Rightarrow> bool) \<Rightarrow> (order_num \<Rightarrow> bool) \<Rightarrow> qty_t \<Rightarrow> entry list \<Rightarrow>
    (entry \<times> qty_t) list \<times> entry list \<times> entry list \<times> qty_t" where
  "sweep acc own q [] = ([], [], [], q)"
| "sweep acc own q (e # es) =
     (if q \<le> 0 \<or> \<not> acc (en_price e) then ([], [], e # es, q)
      else if own (en_id e) then
        (case sweep acc own q es of (fs, cs, es', q') \<Rightarrow> (fs, e # cs, es', q'))
      else if en_qty e \<le> q then
        (case sweep acc own (q - en_qty e) es of (fs, cs, es', q') \<Rightarrow> ((e, en_qty e) # fs, cs, es', q'))
      else ([(e, q)], [], e\<lparr>en_qty := en_qty e - q\<rparr> # es, 0))"

lemma sweep_cong:
  "(\<And>e. e \<in> set es \<Longrightarrow> own (en_id e) = own' (en_id e)) \<Longrightarrow> sweep acc own q es = sweep acc own' q es"
  by (induction es arbitrary: q) auto

definition filled_qty :: "(entry \<times> qty_t) list \<Rightarrow> qty_t" where
  "filled_qty fs = (\<Sum>f\<leftarrow>fs. snd f)"

lemma filled_qty_simps [simp]:
  "filled_qty [] = 0" "filled_qty (f # fs) = snd f + filled_qty fs" "filled_qty (xs @ ys) = filled_qty xs + filled_qty ys"
  by (simp_all add: filled_qty_def)

lemma sweep_Cons_cases [consumes 1, case_names stop own full part]:
  assumes "sweep acc own q (e # es) = (fs, cs, es', q')"
  obtains "q \<le> 0 \<or> \<not> acc (en_price e)" "fs = []" "cs = []" "es' = e # es" "q' = q"
  | cs1 where "0 < q" "acc (en_price e)" "own (en_id e)" "cs = e # cs1" "sweep acc own q es = (fs, cs1, es', q')"
  | fs1 where "0 < q" "acc (en_price e)" "\<not> own (en_id e)" "en_qty e \<le> q" "fs = (e, en_qty e) # fs1"
      "sweep acc own (q - en_qty e) es = (fs1, cs, es', q')"
  | "0 < q" "acc (en_price e)" "\<not> own (en_id e)" "q < en_qty e" "fs = [(e, q)]" "cs = []"
      "es' = e\<lparr>en_qty := en_qty e - q\<rparr> # es" "q' = 0"
  using assms by (fastforce split: if_splits prod.splits)

lemma sweep_balance:
  "sweep acc own q es = (fs, cs, es', q') \<Longrightarrow> 0 \<le> q \<Longrightarrow> q = filled_qty fs + q' \<and> 0 \<le> q'"
proof (induction es arbitrary: q fs cs)
  case (Cons e es)
  from Cons.prems(1) show ?case
    by (cases rule: sweep_Cons_cases) (use Cons in fastforce)+
qed auto

lemma sweep_fills:
  "sweep acc own q es = (fs, cs, es', q') \<Longrightarrow> \<forall>e\<in>set es. 0 < en_qty e \<Longrightarrow> (e, x) \<in> set fs \<Longrightarrow>
   e \<in> set es \<and> acc (en_price e) \<and> \<not> own (en_id e) \<and> 0 < x \<and> x \<le> en_qty e"
proof (induction es arbitrary: q fs cs)
  case (Cons a es)
  from Cons.prems(1) show ?case
  proof (cases rule: sweep_Cons_cases)
    case (own cs1)
    then show ?thesis using Cons.IH [OF own(5)] Cons.prems by auto
  next
    case (full fs1)
    then show ?thesis using Cons.IH [OF full(6)] Cons.prems by auto
  qed (use Cons.prems in auto)
qed auto

lemma sweep_cancels:
  "sweep acc own q es = (fs, cs, es', q') \<Longrightarrow> e \<in> set cs \<Longrightarrow> e \<in> set es \<and> own (en_id e) \<and> acc (en_price e)"
proof (induction es arbitrary: q fs cs)
  case (Cons a es)
  from Cons.prems(1) show ?case
  proof (cases rule: sweep_Cons_cases)
    case (own cs1)
    then show ?thesis using Cons.IH [OF own(5)] Cons.prems by auto
  next
    case (full fs1)
    then show ?thesis using Cons.IH [OF full(6)] Cons.prems by auto
  qed (use Cons.prems in auto)
qed auto

lemma sweep_ids: "sweep acc own q es = (fs, cs, es', q') \<Longrightarrow> en_id ` set es' \<subseteq> en_id ` set es"
proof (induction es arbitrary: q fs cs)
  case (Cons a es)
  from Cons.prems(1) show ?case
  proof (cases rule: sweep_Cons_cases)
    case (own cs1)
    then show ?thesis using Cons.IH [OF own(5)] by auto
  next
    case (full fs1)
    then show ?thesis using Cons.IH [OF full(6)] by auto
  qed auto
qed auto

text \<open>A sweep moves no order: what is left keeps its price and its priority.\<close>

definition place :: "entry \<Rightarrow> order_num \<times> price_t \<times> nat" where
  "place e = (en_id e, en_price e, en_prio e)"

lemma place_resized [simp]: "place (e\<lparr>en_qty := q\<rparr>) = place e"
  by (simp add: place_def)

lemma places_ids: "place ` A \<subseteq> place ` B \<Longrightarrow> en_id ` A \<subseteq> en_id ` B"
  by (force simp: place_def)

lemma sweep_places: "sweep acc own q es = (fs, cs, es', q') \<Longrightarrow> place ` set es' \<subseteq> place ` set es"
proof (induction es arbitrary: q fs cs)
  case (Cons a es)
  from Cons.prems(1) show ?case
  proof (cases rule: sweep_Cons_cases)
    case (own cs1)
    then show ?thesis using Cons.IH [OF own(5)] by auto
  next
    case (full fs1)
    then show ?thesis using Cons.IH [OF full(6)] by auto
  qed auto
qed auto

text \<open>When quantity is left over, nothing acceptable remains in front.\<close>

lemma sweep_leftover:
  "sweep acc own q es = (fs, cs, es', q') \<Longrightarrow> 0 < q' \<Longrightarrow> es' = [] \<or> \<not> acc (en_price (hd es'))"
proof (induction es arbitrary: q fs cs)
  case (Cons a es)
  from Cons.prems(1) show ?case
    by (cases rule: sweep_Cons_cases) (use Cons in auto)
qed auto

text \<open>Priority: what is left is a tail of the queue, whose head may be partly filled.\<close>

definition tail_of :: "entry list \<Rightarrow> entry list \<Rightarrow> bool" where
  "tail_of es' es \<longleftrightarrow> (\<exists>front e rest x. es = front @ rest \<and> es' = rest \<or>
     es = front @ e # rest \<and> 0 < x \<and> x < en_qty e \<and> es' = e\<lparr>en_qty := en_qty e - x\<rparr> # rest)"

lemma tail_of_Cons: "tail_of es' es \<Longrightarrow> tail_of es' (e # es)"
  unfolding tail_of_def by (metis append_Cons)

lemma sweep_tail: "sweep acc own q es = (fs, cs, es', q') \<Longrightarrow> tail_of es' es"
proof (induction es arbitrary: q fs cs)
  case Nil
  then show ?case by (simp add: tail_of_def)
next
  case (Cons a es)
  from Cons.prems(1) show ?case
  proof (cases rule: sweep_Cons_cases)
    case stop
    then show ?thesis unfolding tail_of_def by (metis append_Nil)
  next
    case (own cs1)
    then show ?thesis using Cons.IH tail_of_Cons by blast
  next
    case (full fs1)
    then show ?thesis using Cons.IH tail_of_Cons by blast
  next
    case part
    then show ?thesis unfolding tail_of_def by (metis append_Nil)
  qed
qed

section \<open>Relating a run to the sweep\<close>

definition fill_legs :: "(entry \<times> qty_t) list \<Rightarrow> (price_t \<times> order_num \<times> qty_t) list" where
  "fill_legs fs = map (\<lambda>(e, q). (en_price e, en_id e, q)) fs"

definition fill_prices :: "(entry \<times> qty_t) list \<Rightarrow> (price_t \<times> qty_t) list" where
  "fill_prices fs = map (\<lambda>(e, q). (en_price e, q)) fs"

definition phantom_fills :: "(order_num \<rightharpoonup> ptr) \<Rightarrow> (entry \<times> qty_t) list \<Rightarrow> qty_t" where
  "phantom_fills m fs = (\<Sum>f\<leftarrow>fs. if m (en_id (fst f)) = None then snd f else 0)"

lemma fill_lists_simps [simp]:
  "fill_legs [] = []" "fill_legs ((e, q) # fs) = (en_price e, en_id e, q) # fill_legs fs"
  "fill_prices [] = []" "fill_prices ((e, q) # fs) = (en_price e, q) # fill_prices fs"
  "phantom_fills m [] = 0"
  "phantom_fills m ((e, q) # fs) = (if m (en_id e) = None then q else 0) + phantom_fills m fs"
  by (simp_all add: fill_legs_def fill_prices_def phantom_fills_def)

text \<open>The context a run can continue from.\<close>

definition ctx_fresh :: "'l l3_ops \<Rightarrow> Side \<Rightarrow> order_num \<Rightarrow> MatchContext \<Rightarrow> ('l, 'z) engine \<Rightarrow> bool" where
  "ctx_fresh L s aid ctx st \<longleftrightarrow>
     ctx_ok s aid ctx \<and> (mc_seq_num ctx = 0 \<or> l3_last_seq L (ob_l3 st) \<le> mc_seq_num ctx)"

text \<open>Orders whose entry left the queue are dropped from the lookup map, the others stay.\<close>

definition orders_after :: "(order_num \<rightharpoonup> ptr) \<Rightarrow> entry list \<Rightarrow> entry list \<Rightarrow> (order_num \<rightharpoonup> ptr)" where
  "orders_after m es es' = m |` (- (en_id ` set es - en_id ` set es'))"

text \<open>What names an order and places it, and what an engine therefore never rewrites.\<close>

definition ident :: "Order \<Rightarrow> order_num \<times> nat \<times> Side \<times> string \<times> string \<times> int \<times> TimeInForce \<times> OrderStatus" where
  "ident ord = (id_num ord, priority ord, side ord, client_order_id ord, order_id ord, client_id ord, time_in_force ord,
     status ord)"

definition pool_kept :: "('l, 'z) book \<Rightarrow> ('l, 'z) book \<Rightarrow> bool" where
  "pool_kept b b' \<longleftrightarrow> (\<forall>r. ident (ob_buffer b' r) = ident (ob_buffer b r)) \<and> (\<forall>X. pool_exact X b \<and> X \<inter> ran (ob_orders b) = {} \<longrightarrow>
     pool_exact X b' \<and> X \<inter> ran (ob_orders b') = {})"

definition swept ::
    "'l l3_ops \<Rightarrow> ptr option \<Rightarrow> Side \<Rightarrow> order_num \<Rightarrow> (entry \<times> qty_t) list \<Rightarrow> entry list \<Rightarrow>
     MatchContext \<Rightarrow> ('l, 'z) engine \<Rightarrow> MatchContext \<Rightarrow> ('l, 'z) engine \<Rightarrow> bool" where
  "swept L A s aid fs es' ctx st ctx' st' \<longleftrightarrow>
     queue L st' s = es' \<and> queue L st' (opposite_side s) = queue L st (opposite_side s) \<and>
     ctx_fresh L s aid ctx' st' \<and>
     mc_event_time ctx' = mc_event_time ctx \<and> mc_seq_num ctx' = mc_seq_num ctx \<and>
     legs (mc_summaries ctx') = legs (mc_summaries ctx) @ fill_legs fs \<and>
     phantom_traded (mc_summaries ctx') = phantom_traded (mc_summaries ctx) + phantom_fills (ob_orders st) fs \<and>
     (\<forall>p. A = Some p \<longrightarrow>
        ob_buffer st' p = foldl (apply_fill (mc_event_time ctx)) (ob_buffer st p) (fill_prices fs)) \<and>
     ob_orders st' = orders_after (ob_orders st) (queue L st s) es' \<and>
     eng_frame st st' \<and> pool_kept st st'"

lemma orders_after_same [simp]: "orders_after m es es = m"
  by (simp add: orders_after_def restrict_map_def)

lemma orders_after_Cons:
  assumes "en_id e \<notin> en_id ` set es'"
  shows "orders_after (m(en_id e := None)) es es' = orders_after m (e # es) es'"
  using assms by (auto simp: orders_after_def restrict_map_def fun_eq_iff)

lemma pool_kept_refl [simp]: "pool_kept b b"
  by (simp add: pool_kept_def)

lemma pool_kept_trans: "pool_kept a b \<Longrightarrow> pool_kept b c \<Longrightarrow> pool_kept a c"
  by (simp add: pool_kept_def)

lemma ident_fill: "fill_effect L A s e q t seq st st' \<Longrightarrow> ident (ob_buffer st' r) = ident (ob_buffer st r)"
  by (auto simp: fill_effect_def ident_def)

lemma pool_kept_fill: "fill_effect L A s e q t seq st st' \<Longrightarrow> obinv L I P st \<Longrightarrow> pool_kept st st'"
  unfolding pool_kept_def using ident_fill by (blast intro: pool_fill(1) dest: pool_fill(2))

lemma swept_refl: "ctx_fresh L s aid ctx st \<Longrightarrow> swept L A s aid [] (queue L st s) ctx st ctx st"
  by (simp add: swept_def)

lemma resize_head:
  assumes "distinct (map en_id (e # es))" and "x \<le> en_qty e"
  shows "resize_entry (en_id e) (en_qty e - x) (e # es) =
    (if x = en_qty e then es else e\<lparr>en_qty := en_qty e - x\<rparr> # es)"
  using assms by (auto simp: resize_entry_absent)

lemma fresh_after_fill:
  assumes "fill_effect L A s e q (mc_event_time ctx) (mc_seq_num ctx) st st'" and "booked s aid e q ours ctx ctx'"
    and "ctx_fresh L s aid ctx st"
  shows "ctx_fresh L s aid ctx' st'"
  using assms by (auto simp: fill_effect_def booked_def ctx_fresh_def next_seq_def)

lemma phantom_fills_upd:
  assumes "i \<notin> en_id ` set es" and "\<forall>(x, y)\<in>set fs. x \<in> set es"
  shows "phantom_fills (m(i := v)) fs = phantom_fills m fs"
proof -
  have "en_id (fst f) \<noteq> i" if "f \<in> set fs" for f
  proof -
    have "fst f \<in> set es" using assms(2) that by (cases f) auto
    then show ?thesis using assms(1) by (metis imageI)
  qed
  then show ?thesis unfolding phantom_fills_def by (intro arg_cong [of _ _ sum_list] map_cong) simp_all
qed

text \<open>A complete fill of the front order, followed by a run on the rest.\<close>

lemma swept_full:
  assumes fe: "fill_effect L A s e (en_qty e) (mc_event_time ctx) (mc_seq_num ctx) st st1"
    and bk: "booked s aid e (en_qty e) (ob_orders st (en_id e) \<noteq> None) ctx ctx1"
    and inv: "obinv L I P st" and qu: "queue L st s = e # es" and dist: "distinct (map en_id (e # es))"
    and sub: "en_id ` set es' \<subseteq> en_id ` set es" and fl: "\<forall>(x, y)\<in>set fs. x \<in> set es"
    and rest: "swept L A s aid fs es' ctx1 st1 ctx' st'"
  shows "swept L A s aid ((e, en_qty e) # fs) es' ctx st ctx' st'"
proof -
  have q1: "queue L st1 s = es" using fe qu resize_head [OF dist, of "en_qty e"] by (simp add: fill_effect_def)
  have o1: "ob_orders st1 = (ob_orders st)(en_id e := None)" using fe by (simp add: fill_effect_def)
  have out: "en_id e \<notin> en_id ` set es" using dist by auto
  have "phantom_fills (ob_orders st1) fs = phantom_fills (ob_orders st) fs"
    unfolding o1 by (rule phantom_fills_upd [OF out fl])
  moreover have "orders_after (ob_orders st1) es es' = orders_after (ob_orders st) (e # es) es'"
    unfolding o1 using out sub by (intro orders_after_Cons) blast
  moreover have "pool_kept st st'"
    using pool_kept_trans [OF pool_kept_fill [OF fe inv]] rest by (simp add: swept_def)
  moreover have "eng_frame st st'" using fe rest eng_frame_trans unfolding fill_effect_def swept_def by blast
  moreover have "ob_buffer st1 p = apply_fill (mc_event_time ctx) (ob_buffer st p) (en_price e, en_qty e)"
    if "A = Some p" for p
    using fe that by (simp add: fill_effect_def apply_fill_def)
  ultimately show ?thesis
    using rest bk fe qu q1 by (simp add: swept_def booked_def fill_effect_def)
qed

text \<open>The last, partial fill.\<close>

lemma swept_part:
  assumes fe: "fill_effect L A s e q (mc_event_time ctx) (mc_seq_num ctx) st st1"
    and bk: "booked s aid e q (ob_orders st (en_id e) \<noteq> None) ctx ctx1" and fr: "ctx_fresh L s aid ctx st"
    and inv: "obinv L I P st" and qu: "queue L st s = e # es" and dist: "distinct (map en_id (e # es))"
    and q: "q < en_qty e"
  shows "swept L A s aid [(e, q)] (e\<lparr>en_qty := en_qty e - q\<rparr> # es) ctx st ctx1 st1"
proof -
  have q1: "queue L st1 s = e\<lparr>en_qty := en_qty e - q\<rparr> # es"
    using fe qu q resize_head [OF dist, of q] by (simp add: fill_effect_def)
  have "orders_after (ob_orders st) (e # es) (e\<lparr>en_qty := en_qty e - q\<rparr> # es) = ob_orders st"
    by (auto simp: orders_after_def)
  then show ?thesis
    using fe bk q1 q qu fresh_after_fill [OF fe bk fr] pool_kept_fill [OF fe inv]
    by (simp add: swept_def booked_def fill_effect_def apply_fill_def)
qed

section \<open>Cancelling an own resting order\<close>

definition cancel_effect ::
    "'l l3_ops \<Rightarrow> ptr \<Rightarrow> Side \<Rightarrow> entry \<Rightarrow> time_ns \<Rightarrow> seq_t \<Rightarrow> ('l, 'z) engine \<Rightarrow> ('l, 'z) engine \<Rightarrow> bool" where
  "cancel_effect L r s e request_time seq st st' \<longleftrightarrow>
     queue L st' s = remove_entry (en_id e) (queue L st s) \<and>
     queue L st' (opposite_side s) = queue L st (opposite_side s) \<and>
     l3_last_seq L (ob_l3 st') = next_seq (l3_last_seq L (ob_l3 st)) seq \<and>
     ob_orders st' = (ob_orders st)(en_id e := None) \<and> ob_live st' = ob_live st - {r} \<and>
     ob_buffer st' = (ob_buffer st)(r := (ob_buffer st r)\<lparr>leaves_quantity := 0\<rparr>) \<and>
     next_trade_id st' = next_trade_id st \<and> eng_frame st st' \<and>
     response_queue st' = response_queue st @
       [cancel_report (ob_buffer st' r) request_time (response_slot st (length (response_queue st)))]"

context l3_book
begin

lemma handleSelfMatch_ok:
  fixes st :: "('l, 'z) engine"
  assumes inv: "obinv L binv P st" and s: "real_side s" and e: "e \<in> set (queue L st s)"
    and own: "ob_orders st (en_id e) = Some r" "r \<notin> P"
    and seq: "seq = 0 \<or> l3_last_seq L (ob_l3 st) \<le> seq"
  obtains st' where "handleSelfMatch L r request_time event_time seq SMP_CANCEL_RESTING st = (True, st')"
    "obinv L binv P st'" "cancel_effect L r s e request_time seq st st'"
proof -
  note oe = owner_entry [OF inv s e own]
  have id: "id_num (ob_buffer st r) = en_id e" using obinv_id_num [OF inv own(1)] .
  have own': "ob_orders st (id_num (ob_buffer st r)) = Some r" using own id by simp
  define st1 where "st1 = deleteOrder L r event_time seq False st"
  note ok = deleteOrder_ok [OF inv own' own(2) seq, of event_time False, folded st1_def]
  have c: "queue L st1 s = remove_entry (en_id e) (queue L st s)"
    "queue L st1 (opposite_side s) = queue L st (opposite_side s)"
    "ob_orders st1 = (ob_orders st)(en_id e := None)" "ob_live st1 = ob_live st"
    "ob_buffer st1 = (ob_buffer st)(r := (ob_buffer st r)\<lparr>leaves_quantity := 0\<rparr>)" "book_frame st st1"
    "l3_last_seq L (ob_l3 st1) = next_seq (l3_last_seq L (ob_l3 st)) seq"
    using ok(2) by (simp_all add: cancelled_def Let_def oe(1) id)
  let ?st2 = "freeOrder r (publishOrderCancel (ob_buffer st1 r) request_time st1)"
  have "r \<notin> ran (ob_orders st1)"
    using ran_map_remove [OF obinv_inj [OF inv] own(1)] by (simp add: c(3))
  then have "obinv L binv P ?st2" using ok(1) by (simp add: obinv_free)
  moreover have "handleSelfMatch L r request_time event_time seq SMP_CANCEL_RESTING st = (True, ?st2)"
    by (simp add: handleSelfMatch_def st1_def Let_def)
  moreover have "cancel_effect L r s e request_time seq st ?st2"
    using c engine_more [OF c(6)] eng_frame_book [OF c(6)]
    by (simp add: cancel_effect_def eng_frame_def freeOrder_def) (simp add: queue_def)
  ultimately show thesis using that by blast
qed

end

lemma remove_head: "distinct (map en_id (e # es)) \<Longrightarrow> remove_entry (en_id e) (e # es) = es"
  by (simp add: remove_entry_absent)

lemma pool_kept_cancel:
  assumes "cancel_effect L r s e rt seq st st'" and "ob_orders st (en_id e) = Some r" and "obinv L I P st"
  shows "pool_kept st st'"
proof -
  have "ran ((ob_orders st)(en_id e := None)) = ran (ob_orders st) - {r}"
    by (rule ran_map_remove [OF obinv_inj [OF assms(3)] assms(2)])
  moreover have "r \<in> ran (ob_orders st)" using assms(2) by (rule ranI)
  ultimately show ?thesis
    using assms(1) by (auto simp: pool_kept_def pool_exact_def cancel_effect_def ident_def)
qed

lemma swept_cancel:
  assumes ce: "cancel_effect L r s e rt (mc_seq_num ctx) st st1" and own: "ob_orders st (en_id e) = Some r"
    and A: "A \<noteq> Some r"
    and inv: "obinv L I P st" and qu: "queue L st s = e # es" and dist: "distinct (map en_id (e # es))"
    and sub: "en_id ` set es' \<subseteq> en_id ` set es" and fl: "\<forall>(x, y)\<in>set fs. x \<in> set es"
    and rest: "swept L A s aid fs es' ctx st1 ctx' st'"
  shows "swept L A s aid fs es' ctx st ctx' st'"
proof -
  have q1: "queue L st1 s = es" using ce qu remove_head [OF dist] by (simp add: cancel_effect_def)
  have o1: "ob_orders st1 = (ob_orders st)(en_id e := None)" using ce by (simp add: cancel_effect_def)
  have out: "en_id e \<notin> en_id ` set es" using dist by auto
  have "phantom_fills (ob_orders st1) fs = phantom_fills (ob_orders st) fs"
    unfolding o1 by (rule phantom_fills_upd [OF out fl])
  moreover have "orders_after (ob_orders st1) es es' = orders_after (ob_orders st) (e # es) es'"
    unfolding o1 using out sub by (intro orders_after_Cons) blast
  moreover have "pool_kept st st'"
    using pool_kept_trans [OF pool_kept_cancel [OF ce own inv]] rest by (simp add: swept_def)
  moreover have "eng_frame st st'" using ce rest eng_frame_trans unfolding cancel_effect_def swept_def by blast
  moreover have "ob_buffer st1 p = ob_buffer st p" if "A = Some p" for p
    using ce that A by (auto simp: cancel_effect_def)
  ultimately show ?thesis
    using rest ce qu q1 by (simp add: swept_def cancel_effect_def)
qed

section \<open>Runs that do not follow the queue\<close>

text \<open>One fill, and one cancel, anywhere in the queue, and the composition of two runs.\<close>

lemma ids_resize: "en_id ` set (resize_entry i q es) \<subseteq> en_id ` set es"
  by (induction es) auto

lemma ids_remove: "en_id ` set (remove_entry i es) \<subseteq> en_id ` set es"
  by (auto simp: set_remove_entry)

lemma orders_after_resize:
  assumes "e \<in> set es" and "x \<le> en_qty e"
  shows "orders_after m es (resize_entry (en_id e) (en_qty e - x) es) = (if x = en_qty e then m(en_id e := None) else m)"
proof (cases "x = en_qty e")
  case True
  then have "en_id ` set es - en_id ` set (resize_entry (en_id e) (en_qty e - x) es) = {en_id e}"
    using assms(1) by (auto simp: resize_entry_def set_remove_entry)
  then show ?thesis using True by (simp add: orders_after_def restrict_map_def fun_eq_iff)
next
  case False
  then have "map en_id (resize_entry (en_id e) (en_qty e - x) es) = map en_id es"
    using assms(2) by (simp add: resize_entry_def)
  then have "en_id ` set (resize_entry (en_id e) (en_qty e - x) es) = en_id ` set es" by (metis list.set_map)
  then show ?thesis using False by (simp add: orders_after_def restrict_map_def)
qed

lemma orders_after_remove:
  "e \<in> set es \<Longrightarrow> orders_after m es (remove_entry (en_id e) es) = m(en_id e := None)"
  using orders_after_resize [of e es "en_qty e" m] by (simp add: resize_entry_def)

lemma orders_after_trans:
  assumes "en_id ` set es2 \<subseteq> en_id ` set es1" and "en_id ` set es1 \<subseteq> en_id ` set es"
  shows "orders_after (orders_after m es es1) es1 es2 = orders_after m es es2"
  using assms by (auto simp: orders_after_def restrict_map_def fun_eq_iff)

lemma swept_one:
  assumes fe: "fill_effect L A s e x (mc_event_time ctx) (mc_seq_num ctx) st st1"
    and bk: "booked s aid e x (ob_orders st (en_id e) \<noteq> None) ctx ctx1" and fr: "ctx_fresh L s aid ctx st"
    and inv: "obinv L I P st" and e: "e \<in> set (queue L st s)" and x: "x \<le> en_qty e"
  shows "swept L A s aid [(e, x)] (resize_entry (en_id e) (en_qty e - x) (queue L st s)) ctx st ctx1 st1"
  using fe bk fresh_after_fill [OF fe bk fr] pool_kept_fill [OF fe inv] orders_after_resize [OF e x]
  by (simp add: swept_def booked_def fill_effect_def apply_fill_def)

lemma swept_cancel_one:
  assumes ce: "cancel_effect L r s e rt (mc_seq_num ctx) st st1" and own: "ob_orders st (en_id e) = Some r"
    and A: "A \<noteq> Some r" and inv: "obinv L I P st" and e: "e \<in> set (queue L st s)" and fr: "ctx_fresh L s aid ctx st"
  shows "swept L A s aid [] (remove_entry (en_id e) (queue L st s)) ctx st ctx st1"
proof -
  have "ctx_fresh L s aid ctx st1" using fr ce by (auto simp: ctx_fresh_def cancel_effect_def next_seq_def)
  then show ?thesis
    using ce A pool_kept_cancel [OF ce own inv] orders_after_remove [OF e]
    by (auto simp: swept_def cancel_effect_def)
qed

lemma phantom_fills_after:
  assumes "\<forall>(x, y)\<in>set fs. en_id x \<in> en_id ` set es1"
  shows "phantom_fills (orders_after m es es1) fs = phantom_fills m fs"
proof -
  have "en_id (fst f) \<in> en_id ` set es1" if "f \<in> set fs" for f using assms that by (cases f) auto
  then show ?thesis
    unfolding phantom_fills_def orders_after_def by (intro arg_cong [of _ _ sum_list] map_cong) auto
qed

lemma fill_lists_append [simp]:
  "fill_legs (fs @ gs) = fill_legs fs @ fill_legs gs" "fill_prices (fs @ gs) = fill_prices fs @ fill_prices gs"
  "phantom_fills m (fs @ gs) = phantom_fills m fs + phantom_fills m gs"
  by (simp_all add: fill_legs_def fill_prices_def phantom_fills_def)

lemma swept_trans:
  assumes s1: "swept L A s aid fs1 es1 ctx st ctx1 st1" and s2: "swept L A s aid fs2 es2 ctx1 st1 ctx2 st2"
    and sub: "en_id ` set es1 \<subseteq> en_id ` set (queue L st s)" "en_id ` set es2 \<subseteq> en_id ` set es1"
    and fl: "\<forall>(x, y)\<in>set fs2. en_id x \<in> en_id ` set es1"
  shows "swept L A s aid (fs1 @ fs2) es2 ctx st ctx2 st2"
proof -
  have q1: "queue L st1 s = es1" and o1: "ob_orders st1 = orders_after (ob_orders st) (queue L st s) es1"
    using s1 by (simp_all add: swept_def)
  have "ob_orders st2 = orders_after (ob_orders st) (queue L st s) es2"
    using s2 orders_after_trans [OF sub(2,1)] by (simp add: swept_def q1 o1)
  moreover have "phantom_fills (ob_orders st1) fs2 = phantom_fills (ob_orders st) fs2"
    unfolding o1 by (rule phantom_fills_after [OF fl])
  moreover have "eng_frame st st2" using s1 s2 eng_frame_trans unfolding swept_def by blast
  moreover have "pool_kept st st2" using s1 s2 pool_kept_trans unfolding swept_def by blast
  ultimately show ?thesis using s1 s2 by (simp add: swept_def)
qed

section \<open>The front of the book\<close>

context l3_book
begin

lemma best_none:
  assumes "obinv L binv P b" and "real_side s" and "queue L b s = []"
  shows "l3_best L (ob_l3 b) s = None"
proof -
  have "l3_levels L (ob_l3 b) s = []"
    using levels_ok [OF obinv_binv [OF assms(1)] assms(2)] assms(3)
    by (cases "l3_levels L (ob_l3 b) s") (auto simp: queue_def levels_wf_def level_wf_def)
  then show ?thesis using best_law [OF obinv_binv [OF assms(1)] assms(2)] by simp
qed

lemma best_some:
  assumes "obinv L binv P b" and "real_side s" and "queue L b s = e # es"
  obtains l bos where "l3_best L (ob_l3 b) s = Some l" "lv_price l = en_price e" "lv_orders l = order_of e # bos"
proof -
  obtain l ls where ls: "l3_levels L (ob_l3 b) s = l # ls"
    using assms(3) by (cases "l3_levels L (ob_l3 b) s") (auto simp: queue_def)
  then obtain od bos where od: "lv_orders l = od # bos"
    using levels_ok [OF obinv_binv [OF assms(1)] assms(2)]
    by (cases "lv_orders l") (auto simp: levels_wf_def level_wf_def)
  then have e: "e = entry_of (lv_price l) od" using assms(3) ls by (simp add: queue_def)
  have "order_of (entry_of (lv_price l) od) = od" by (simp add: order_of_def)
  then show thesis
    using that [of l bos] best_law [OF obinv_binv [OF assms(1)] assms(2)] ls od by (simp add: e)
qed

text \<open>The best level is the part of the queue at the front price.\<close>

lemma best_level:
  assumes "obinv L binv P b" and "real_side s" and "queue L b s = e # es"
  obtains l where "l3_best L (ob_l3 b) s = Some l" "lv_price l = en_price e" "level_wf l"
    "map (entry_of (en_price e)) (lv_orders l) = takeWhile (\<lambda>x. en_price x = en_price e) (e # es)"
proof -
  note wf = levels_ok [OF obinv_binv [OF assms(1)] assms(2)]
  obtain l ls where ls: "l3_levels L (ob_l3 b) s = l # ls"
    using assms(3) by (cases "l3_levels L (ob_l3 b) s") (auto simp: queue_def)
  have lw: "level_wf l" and tl: "\<forall>m\<in>set ls. isPriceBetter s (lv_price l) (lv_price m)"
    using wf ls by (auto simp: levels_wf_def)
  have fl: "e # es = map (entry_of (lv_price l)) (lv_orders l) @ flat ls" using assms(3) ls by (simp add: queue_def)
  then have pe: "lv_price l = en_price e" using lw by (cases "lv_orders l") (auto simp: level_wf_def)
  have "en_price x \<noteq> en_price e" if "x \<in> set (flat ls)" for x
    using that tl pe by (auto simp: flat_def)
  then have "takeWhile (\<lambda>x. en_price x = en_price e) (flat ls) = []" by (cases "flat ls") auto
  then have "map (entry_of (en_price e)) (lv_orders l) = takeWhile (\<lambda>x. en_price x = en_price e) (e # es)"
    unfolding fl pe by (subst takeWhile_append2) auto
  then show thesis
    using that [of l] best_law [OF obinv_binv [OF assms(1)] assms(2)] ls pe lw by simp
qed

end

end
