(* ===== verification/Prepare_Facts.thy ===== *)
theory Prepare_Facts
  imports Sweep_Facts
begin

text \<open>
  The checks an order passes before it matches, against the abstract sweep: \<open>wouldSelfMatch\<close>
  finds exactly the orders a sweep would have to cancel, \<open>canFillCompletely\<close> answers exactly
  whether a sweep would leave nothing, and \<open>prepareOrder\<close> touches nothing but the order itself
  and the reports.
\<close>

section \<open>Self matches\<close>

definition own_order :: "SelfMatchPreventionMode \<Rightarrow> ptr \<Rightarrow> ('l, 'z) engine \<Rightarrow> order_num \<Rightarrow> bool" where
  "own_order smp p st i \<longleftrightarrow> smp \<noteq> SMP_NONE \<and> isSelfMatch (ob_buffer st p) (fullOrder i st)"

text \<open>The two nested loops of \<open>wouldSelfMatch\<close> as one walk along the queue.\<close>

fun reaches_own :: "(price_t \<Rightarrow> bool) \<Rightarrow> (order_num \<Rightarrow> bool) \<Rightarrow> qty_t \<Rightarrow> entry list \<Rightarrow> bool" where
  "reaches_own acc own q [] = False"
| "reaches_own acc own q (e # es) =
     (if q \<le> 0 \<or> \<not> acc (en_price e) then False
      else if own (en_id e) then True
      else reaches_own acc own (q - min (en_qty e) q) es)"

lemma reaches_own_zero: "q \<le> 0 \<Longrightarrow> \<not> reaches_own acc own q es"
  by (cases es) auto

lemma wsm_orders_flat:
  assumes "acc px"
  shows "reaches_own acc (\<lambda>i. isSelfMatch order (fullOrder i b)) q (map (entry_of px) ods @ es) =
    (case wsm_orders Queue order b q ods of
       Inl r \<Rightarrow> r
     | Inr q' \<Rightarrow> reaches_own acc (\<lambda>i. isSelfMatch order (fullOrder i b)) q' es)"
  using assms by (induction ods arbitrary: q) auto

lemma wsm_levels_flat:
  "list_all level_wf ls \<Longrightarrow>
   wsm_levels Queue s order px b q ls =
     reaches_own (crosses s px) (\<lambda>i. isSelfMatch order (fullOrder i b)) q (flat ls)"
proof (induction ls arbitrary: q)
  case (Cons l ls)
  then obtain od ods where od: "lv_orders l = od # ods" by (cases "lv_orders l") (auto simp: level_wf_def)
  show ?case
  proof (cases "q \<le> 0 \<or> \<not> crosses s px (lv_price l)")
    case True
    then show ?thesis by (auto simp: od)
  next
    case False
    then have "reaches_own (crosses s px) (\<lambda>i. isSelfMatch order (fullOrder i b)) q (flat (l # ls)) =
        (case wsm_orders Queue order b q (lv_orders l) of Inl r \<Rightarrow> r
         | Inr q' \<Rightarrow> reaches_own (crosses s px) (\<lambda>i. isSelfMatch order (fullOrder i b)) q' (flat ls))"
      using wsm_orders_flat [of "crosses s px" "lv_price l" order b q "lv_orders l" "flat ls"] by simp
    then show ?thesis using Cons False by (auto split: sum.splits)
  qed
qed simp

lemma sweep_cancels_iff:
  "\<forall>e\<in>set es. 0 < en_qty e \<Longrightarrow> sweep acc own q es = (fs, cs, es', q') \<Longrightarrow> cs \<noteq> [] \<longleftrightarrow> reaches_own acc own q es"
proof (induction es arbitrary: q fs cs)
  case (Cons e es)
  from Cons.prems(2) show ?case
  proof (cases rule: sweep_Cons_cases)
    case (full fs1)
    then show ?thesis using Cons.IH [OF _ full(6)] Cons.prems(1) by (auto simp: min_absorb1)
  next
    case part
    then show ?thesis by (auto simp: min_absorb2 reaches_own_zero)
  qed auto
qed auto

section \<open>Fill or kill\<close>

fun fills_all :: "(price_t \<Rightarrow> bool) \<Rightarrow> (order_num \<Rightarrow> bool) \<Rightarrow> bool \<Rightarrow> qty_t \<Rightarrow> entry list \<Rightarrow> bool" where
  "fills_all acc own newest q [] = (q = 0)"
| "fills_all acc own newest q (e # es) =
     (if \<not> acc (en_price e) then q = 0
      else if own (en_id e) then (if newest then False else fills_all acc own newest q es)
      else (let q' = q - min (en_qty e) q in if q' = 0 then True else fills_all acc own newest q' es))"

definition smp_own :: "SelfMatchPreventionMode \<Rightarrow> Order \<Rightarrow> ('l, 'z) book \<Rightarrow> order_num \<Rightarrow> bool" where
  "smp_own smp order b i \<longleftrightarrow> smp \<noteq> SMP_NONE \<and> isSelfMatch order (fullOrder i b)"

lemma cfc_orders_Cons:
  "q' = q - min (lo_qty od) q \<Longrightarrow> cfc_orders order smp b q (od # ods) =
     (if smp_own smp order b (lo_id od) then
        (if smp = SMP_CANCEL_NEWEST then Inl False else cfc_orders order smp b q ods)
      else if q' = 0 then Inl True else cfc_orders order smp b q' ods)"
  by (simp only: cfc_orders.simps smp_own_def Let_def)

lemma fills_all_Cons:
  "q' = q - min (en_qty e) q \<Longrightarrow> acc (en_price e) \<Longrightarrow> fills_all acc own newest q (e # es) =
     (if own (en_id e) then (if newest then False else fills_all acc own newest q es)
      else if q' = 0 then True else fills_all acc own newest q' es)"
  by (simp only: fills_all.simps Let_def simp_thms if_False)

lemma cfc_orders_flat:
  assumes "acc px" and "newest = (smp = SMP_CANCEL_NEWEST)"
  shows "fills_all acc (smp_own smp order b) newest q (map (entry_of px) ods @ es) =
    (case cfc_orders order smp b q ods of
       Inl r \<Rightarrow> r
     | Inr q' \<Rightarrow> fills_all acc (smp_own smp order b) newest q' es)"
proof (induction ods arbitrary: q)
  case (Cons od ods)
  define q' where q': "q' = q - min (lo_qty od) q"
  then have q'': "q' = q - min (en_qty (entry_of px od)) q" by simp
  have acc: "acc (en_price (entry_of px od))" using assms(1) by simp
  show ?case
    unfolding list.map append_Cons fills_all_Cons [where acc = acc, OF q'' acc] cfc_orders_Cons [OF q'] assms(2) [symmetric]
    using Cons.IH by (auto split: sum.split)
qed simp

lemma cfc_levels_flat:
  "list_all level_wf ls \<Longrightarrow>
   cfc_levels s order px smp b q ls =
     fills_all (crosses s px) (smp_own smp order b) (smp = SMP_CANCEL_NEWEST) q (flat ls)"
proof (induction ls arbitrary: q)
  case (Cons l ls)
  then obtain od ods where od: "lv_orders l = od # ods" by (cases "lv_orders l") (auto simp: level_wf_def)
  show ?case
  proof (cases "crosses s px (lv_price l)")
    case True
    then show ?thesis
      using cfc_orders_flat [where acc = "crosses s px", OF True refl, of smp order b q "lv_orders l" "flat ls"] Cons
      by (auto split: sum.splits)
  qed (auto simp: od)
qed simp

lemma fills_all_sweep:
  "\<forall>e\<in>set es. 0 < en_qty e \<Longrightarrow> 0 < q \<Longrightarrow> sweep acc own q es = (fs, cs, es', q') \<Longrightarrow>
   fills_all acc own newest q es \<longleftrightarrow> q' = 0 \<and> (newest \<longrightarrow> cs = [])"
proof (induction es arbitrary: q fs cs)
  case (Cons e es)
  from Cons.prems(3) show ?case
  proof (cases rule: sweep_Cons_cases)
    case (own cs1)
    then show ?thesis using Cons.IH [OF _ _ own(5)] Cons.prems(1) by auto
  next
    case (full fs1)
    show ?thesis
    proof (cases "q = en_qty e")
      case True
      then have "sweep acc own 0 es = (fs1, cs, es', q')" using full(6) by simp
      then have "cs = []" "q' = 0" by (cases es; auto)+
      then show ?thesis using full True by simp
    next
      case False
      then show ?thesis
        using full Cons.IH [OF _ _ full(6)] Cons.prems(1) by (auto simp: min_absorb1 Let_def)
    qed
  qed (use Cons.prems(2) in \<open>auto simp: min_absorb2\<close>)
qed auto

context l3_book
begin

lemma wouldSelfMatch_sweep:
  fixes st :: "('l, 'z) engine"
  assumes "obinv L binv P st" and "real_side s"
    and "sweep (crosses s px) (\<lambda>i. isSelfMatch order (fullOrder i st)) q (queue L st s) = (fs, cs, es', q')"
  shows "wouldSelfMatch L Queue s order px q st \<longleftrightarrow> cs \<noteq> []"
  unfolding wouldSelfMatch_def
  using wsm_levels_flat sweep_cancels_iff [OF _ assms(3)] queue_pos [OF assms(1,2)]
    levels_ok [OF obinv_binv [OF assms(1)] assms(2)]
  by (metis queue_def levels_wf_def)

lemma canFillCompletely_sweep:
  fixes st :: "('l, 'z) engine"
  assumes "obinv L binv P st" and "real_side s" and "0 < q"
    and "sweep (crosses s px) (smp_own smp order st) q (queue L st s) = (fs, cs, es', q')"
  shows "canFillCompletely L s order px q smp st \<longleftrightarrow> q' = 0 \<and> (smp = SMP_CANCEL_NEWEST \<longrightarrow> cs = [])"
  unfolding canFillCompletely_def
  using cfc_levels_flat fills_all_sweep [OF _ assms(3,4)] queue_pos [OF assms(1,2)]
    levels_ok [OF obinv_binv [OF assms(1)] assms(2)]
  by (metis queue_def levels_wf_def)

end

section \<open>Preparing an order\<close>

text \<open>The record an order enters the matching loop with.\<close>

definition prepared :: "price_t \<Rightarrow> qty_t \<Rightarrow> Order \<Rightarrow> Order" where
  "prepared order_price order_qty order =
     (if status order = OS_PENDING_REPLACE then applyReplace order_price order_qty order else order)"

lemma prepared_sel [simp]:
  "id_num (prepared px q ord) = id_num ord" "side (prepared px q ord) = side ord"
  "client_id (prepared px q ord) = client_id ord" "status (prepared px q ord) = status ord"
  "client_order_id (prepared px q ord) = client_order_id ord" "order_id (prepared px q ord) = order_id ord"
  "cum_quantity (prepared px q ord) = cum_quantity ord" "priority (prepared px q ord) = priority ord"
  "time_in_force (prepared px q ord) = time_in_force ord"
  by (simp_all add: prepared_def applyReplace_def)

text \<open>The quantity the pre-check scans is the one the loop will match.\<close>

lemma effective_qty_prepared:
  "acct_ok order \<Longrightarrow> effective_qty order order_qty = leaves_quantity (prepared order_price order_qty order)"
  by (auto simp: effective_qty_def prepared_def applyReplace_def acct_ok_def max_def)

text \<open>Only the order's record and the reports change.\<close>

definition reports_only :: "ptr \<Rightarrow> Order \<Rightarrow> ('l, 'z) engine \<Rightarrow> ('l, 'z) engine \<Rightarrow> bool" where
  "reports_only p ord st st' \<longleftrightarrow>
     ob_buffer st' = (ob_buffer st)(p := ord) \<and> next_trade_id st' = next_trade_id st \<and>
     ob_l3 st' = ob_l3 st \<and> ob_orders st' = ob_orders st \<and> ob_live st' = ob_live st \<and>
     ob_by_client st' = ob_by_client st \<and> ob_by_order st' = ob_by_order st \<and> ob_md_qty st' = ob_md_qty st \<and>
     ob_level_cache st' = ob_level_cache st \<and> ob_order_cache st' = ob_order_cache st \<and> eng_frame st st'"

lemma fullOrder_publish [simp]: "fullOrder i (publish f st) = fullOrder i st"
  by (simp add: fullOrder_def findOrder_def)

lemma cfc_orders_cong:
  assumes "\<And>i. fullOrder i b = fullOrder i b'"
  shows "cfc_orders order smp b q ods = cfc_orders order smp b' q ods"
proof (induction ods arbitrary: q)
  case (Cons od ods)
  show ?case by (simp only: cfc_orders.simps Let_def assms Cons.IH)
qed simp

lemma cfc_levels_cong:
  assumes "\<And>i. fullOrder i b = fullOrder i b'"
  shows "cfc_levels s order px smp b q ls = cfc_levels s order px smp b' q ls"
proof (induction ls arbitrary: q)
  case (Cons l ls)
  show ?case by (simp only: cfc_levels.simps cfc_orders_cong [of b b', OF assms] Cons.IH)
qed simp

lemma canFillCompletely_publish [simp]:
  "canFillCompletely L s order px q smp (publish f st) = canFillCompletely L s order px q smp st"
  using cfc_levels_cong [of "publish f st" st] by (simp add: canFillCompletely_def)

lemma reports_only_publish:
  "reports_only p (ob_buffer st p) st (publish f st)"
  "reports_only p ord st st' \<Longrightarrow> reports_only p ord st (publish f st')"
  by (simp_all add: reports_only_def eng_frame_def)

lemma reports_only_set_order: "reports_only p (f (ob_buffer st p)) st (set_order p f st)"
  by (simp add: reports_only_def eng_frame_def set_order_def)

lemma reports_only_refl: "reports_only p (ob_buffer st p) st st"
  by (simp add: reports_only_def)

lemma reports_only_trans:
  "reports_only p o1 st st1 \<Longrightarrow> reports_only p o2 st1 st2 \<Longrightarrow> reports_only p o2 st st2"
  by (auto simp: reports_only_def eng_frame_def)

definition smp_rejects ::
    "'l l3_ops \<Rightarrow> Reach \<Rightarrow> Side \<Rightarrow> Order \<Rightarrow> price_t \<Rightarrow> qty_t \<Rightarrow> SelfMatchPreventionMode \<Rightarrow> ('l, 'z) book \<Rightarrow> bool" where
  "smp_rejects L reach s ord px q smp b \<longleftrightarrow>
     smp = SMP_CANCEL_NEWEST \<and> effective_qty ord q > 0 \<and> wouldSelfMatch L reach s ord px (effective_qty ord q) b"

definition fok_kills ::
    "'l l3_ops \<Rightarrow> Side \<Rightarrow> Order \<Rightarrow> price_t \<Rightarrow> qty_t \<Rightarrow> SelfMatchPreventionMode \<Rightarrow> ('l, 'z) book \<Rightarrow> bool" where
  "fok_kills L s ord px q smp b \<longleftrightarrow>
     time_in_force ord = TIF_FILL_OR_KILL \<and> \<not> canFillCompletely L s ord px q smp b"

lemma prepareOrder_smp:
  "smp_rejects L reach s (ob_buffer st p) px q smp st \<Longrightarrow>
   prepareOrder L reach s p px q rt smp st = (Some RJ_SMP, st)"
  by (simp add: prepareOrder_def smp_rejects_def)

lemma prepareOrder_fok:
  assumes "\<not> smp_rejects L reach s (ob_buffer st p) px q smp st" and "fok_kills L s (ob_buffer st p) px q smp st"
  shows "\<exists>st'. prepareOrder L reach s p px q rt smp st = (Some RJ_FOK_CANNOT_FILL, st') \<and>
    reports_only p (ob_buffer st p) st st'"
proof -
  define st1 where "st1 = (if status (ob_buffer st p) = OS_PENDING_NEW then publishOrderAck (ob_buffer st p) rt st else st)"
  have r1: "reports_only p (ob_buffer st p) st st1" by (simp add: st1_def reports_only_publish reports_only_refl)
  have "canFillCompletely L s (ob_buffer st p) px q smp st1 = canFillCompletely L s (ob_buffer st p) px q smp st"
    by (simp add: st1_def)
  then have "prepareOrder L reach s p px q rt smp st =
      (Some RJ_FOK_CANNOT_FILL, publishOrderCancel (ob_buffer st p) rt st1)"
    using assms unfolding prepareOrder_def Let_def smp_rejects_def fok_kills_def st1_def [symmetric] by simp
  then show ?thesis using reports_only_publish(2) [OF r1] by simp
qed

lemma prepareOrder_pass:
  assumes "\<not> smp_rejects L reach s (ob_buffer st p) px q smp st" and "\<not> fok_kills L s (ob_buffer st p) px q smp st"
  shows "\<exists>st'. prepareOrder L reach s p px q rt smp st =
      (if leaves_quantity (prepared px q (ob_buffer st p)) = 0 then Some RJ_NONE else None, st') \<and>
    reports_only p (prepared px q (ob_buffer st p)) st st'"
proof -
  let ?ord = "ob_buffer st p"
  define st1 where "st1 = (if status ?ord = OS_PENDING_NEW then publishOrderAck ?ord rt st else st)"
  define st2 where "st2 = (if status ?ord = OS_PENDING_REPLACE then
      publishOrderModify (applyReplace px q (ob_buffer st1 p)) px q rt (set_order p (applyReplace px q) st1) else st1)"
  have buf1: "ob_buffer st1 = ob_buffer st" by (simp add: st1_def)
  have r1: "reports_only p ?ord st st1" by (simp add: st1_def reports_only_publish reports_only_refl)
  have "reports_only p (prepared px q ?ord) st1 st2"
    using reports_only_set_order [of p "applyReplace px q" st1] reports_only_refl [of p st1]
    by (simp add: st2_def prepared_def buf1 reports_only_publish)
  then have r2: "reports_only p (prepared px q ?ord) st st2" by (rule reports_only_trans [OF r1])
  have buf2: "ob_buffer st2 p = prepared px q ?ord" using r2 by (simp add: reports_only_def)
  have cf: "canFillCompletely L s ?ord px q smp st1 = canFillCompletely L s ?ord px q smp st" by (simp add: st1_def)
  have run: "prepareOrder L reach s p px q rt smp st =
      (if leaves_quantity (ob_buffer st2 p) = 0 then (Some RJ_NONE, publishOrderCancel (ob_buffer st2 p) rt st2)
       else (None, st2))"
    using assms cf unfolding prepareOrder_def Let_def smp_rejects_def fok_kills_def st2_def st1_def [symmetric]
    by (simp add: set_order_def)
  show ?thesis
    using r2 reports_only_publish(2) [OF r2] by (simp add: run buf2)
qed

end
