(* ===== verification/Match_Outcome.thy ===== *)
theory Match_Outcome
  imports Prepare_Facts
begin

text \<open>
  Matching a client order: both engines prepare the order, run a loop and cancel what cannot rest.
  Given that the pre-check finds exactly the self matches and that the loop books a list of fills,
  the outcome is the same for both: rejected without a trace, killed, or matched.
\<close>

section \<open>Matching an order\<close>

lemma obinv_reports_only:
  assumes "reports_only p ord st st'" and "obinv L I P st" and "p \<in> P"
    and "id_num ord = id_num (ob_buffer st p)" and "side ord = side (ob_buffer st p)"
    and "client_order_id ord = client_order_id (ob_buffer st p)" and "order_id ord = order_id (ob_buffer st p)"
  shows "obinv L I P st'"
proof -
  have "obinv L I P (set_order p (\<lambda>_. ord) st)" using assms(2-7) by (intro obinv_set_order) auto
  then show ?thesis
    using assms(1) by (subst obinv_cong [of _ "set_order p (\<lambda>_. ord) st"]) (simp_all add: reports_only_def)
qed

lemma queue_reports_only: "reports_only p ord st st' \<Longrightarrow> queue L st' s = queue L st s"
  by (simp add: reports_only_def queue_def)

lemma own_order_reports_only:
  "reports_only p ord st st' \<Longrightarrow> client_id ord = client_id (ob_buffer st p) \<Longrightarrow> own_order smp p st' i = own_order smp p st i"
  by (cases "ob_orders st i")
    (auto simp: reports_only_def own_order_def isSelfMatch_def fullOrder_def findOrder_def)

lemma reports_only_pool:
  "reports_only p ord st st' \<Longrightarrow> ident ord = ident (ob_buffer st p) \<Longrightarrow> pool_kept st st'"
  by (simp add: reports_only_def pool_kept_def pool_exact_def)

lemma fold_fill_leaves:
  "leaves_quantity (foldl (apply_fill t) ord (fill_prices fs)) = leaves_quantity ord - filled_qty fs"
  by (induction fs arbitrary: ord) (auto simp: apply_fill_def)

lemma fold_fill_sel:
  "id_num (foldl (apply_fill t) ord fs) = id_num ord" "side (foldl (apply_fill t) ord fs) = side ord"
  "price (foldl (apply_fill t) ord fs) = price ord" "time_in_force (foldl (apply_fill t) ord fs) = time_in_force ord"
  "quantity (foldl (apply_fill t) ord fs) = quantity ord" "client_id (foldl (apply_fill t) ord fs) = client_id ord"
  "client_order_id (foldl (apply_fill t) ord fs) = client_order_id ord"
  "order_id (foldl (apply_fill t) ord fs) = order_id ord" "priority (foldl (apply_fill t) ord fs) = priority ord"
  by (induction fs arbitrary: ord) (simp_all add: apply_fill_def)

lemma own_order_fill:
  assumes "fill_effect L (Some p) s e q t seq st st'" and "i \<noteq> en_id e"
  shows "own_order smp p st' i = own_order smp p st i"
  using assms
  by (cases "ob_orders st i") (auto simp: own_order_def isSelfMatch_def fullOrder_def findOrder_def fill_effect_def)

lemma own_order_cancel:
  assumes "cancel_effect L r s e rt seq st st'" and "i \<noteq> en_id e"
  shows "own_order smp p st' i = own_order smp p st i"
  using assms
  by (cases "ob_orders st i") (auto simp: own_order_def isSelfMatch_def fullOrder_def findOrder_def cancel_effect_def)

text \<open>The outcome of a match that went through: the sweep's fills, booked and reported.\<close>

definition matched ::
    "'l l3_ops \<Rightarrow> ptr \<Rightarrow> Order \<Rightarrow> Side \<Rightarrow> time_ns \<Rightarrow> (entry \<times> qty_t) list \<Rightarrow> entry list \<Rightarrow>
     TradeSummaryInfo list \<Rightarrow> ('l, 'z) engine \<Rightarrow> ('l, 'z) engine \<Rightarrow> bool" where
  "matched L p ord s t fs es' sms st st' \<longleftrightarrow>
     queue L st' s = es' \<and> queue L st' (opposite_side s) = queue L st (opposite_side s) \<and>
     legs sms = fill_legs fs \<and> list_all (summary_ok s (id_num ord)) sms \<and>
     phantom_traded sms = phantom_fills (ob_orders st) fs \<and>
     ob_buffer st' p = foldl (apply_fill t) ord (fill_prices fs) \<and>
     leaves_quantity (ob_buffer st' p) = leaves_quantity ord - filled_qty fs \<and>
     ob_orders st' = orders_after (ob_orders st) (queue L st s) es' \<and> eng_frame st st' \<and> pool_kept st st'"

lemma matched_publish: "matched L p ord s t fs es' sms st (publish f st') = matched L p ord s t fs es' sms st st'"
  by (simp add: matched_def eng_frame_def pool_kept_def pool_exact_def)

text \<open>The resting side of a match: none of its orders is the aggressor, and every order has a price.\<close>

definition hittable :: "'l l3_ops \<Rightarrow> ptr option \<Rightarrow> Side \<Rightarrow> ('l, 'z) book \<Rightarrow> bool" where
  "hittable L A s b \<longleftrightarrow>
     (\<forall>e\<in>set (queue L b s). en_price e \<noteq> NULL_PRICE \<and> (A \<noteq> None \<longrightarrow> ob_orders b (en_id e) \<noteq> A))"

lemma hittable_reports_only: "reports_only p ord st st1 \<Longrightarrow> hittable L A s st \<Longrightarrow> hittable L A s st1"
  by (simp add: hittable_def queue_reports_only) (simp add: reports_only_def)

context l3_book
begin

lemma order_outcome:
  fixes st :: "('l, 'z) engine"
  assumes inv: "obinv L binv {p} st" and ord: "ord = prepared px q (ob_buffer st p)"
    and rej: "smp_rejects L reach s (ob_buffer st p) px q smp st \<longleftrightarrow> smp = SMP_CANCEL_NEWEST \<and> cs \<noteq> []"
    and zero: "leaves_quantity ord = 0 \<Longrightarrow> fs = [] \<and> es' = queue L st s"
    and run: "run = (case prepareOrder L reach s p px q rt smp st of
        (Some finished, st1) \<Rightarrow> Some (finished, [], st1)
      | (None, st1) \<Rightarrow>
          (case loop st1 of
             None \<Rightarrow> None
           | Some (go, order_qty', ctx, st2) \<Rightarrow>
               if \<not> go then Some (RJ_SMP, mc_summaries ctx, st2)
               else Some (RJ_NONE, mc_summaries ctx, cancelUnrestableRemainder p order_qty' rt st2)))"
    and loop: "\<And>st1. \<not> (smp = SMP_CANCEL_NEWEST \<and> cs \<noteq> []) \<Longrightarrow> reports_only p ord st st1 \<Longrightarrow> obinv L binv {p} st1 \<Longrightarrow>
      leaves_quantity ord \<noteq> 0 \<Longrightarrow>
      \<exists>ctx st2. loop st1 = Some (True, q', ctx, st2) \<and> obinv L binv {p} st2 \<and>
        swept L (Some p) s (id_num ord) fs es' (new_context et seq) st1 ctx st2"
  shows "smp = SMP_CANCEL_NEWEST \<and> cs \<noteq> [] \<Longrightarrow> run = Some (RJ_SMP, [], st)"
    and "\<not> (smp = SMP_CANCEL_NEWEST \<and> cs \<noteq> []) \<Longrightarrow> fok_kills L s (ob_buffer st p) px q smp st \<Longrightarrow>
           \<exists>st'. run = Some (RJ_FOK_CANNOT_FILL, [], st') \<and> reports_only p (ob_buffer st p) st st'"
    and "\<not> (smp = SMP_CANCEL_NEWEST \<and> cs \<noteq> []) \<Longrightarrow> \<not> fok_kills L s (ob_buffer st p) px q smp st \<Longrightarrow>
           \<exists>sms st'. run = Some (RJ_NONE, sms, st') \<and> obinv L binv {p} st' \<and> matched L p ord s et fs es' sms st st'"
proof -
  let ?Q = "leaves_quantity ord"
  show "smp = SMP_CANCEL_NEWEST \<and> cs \<noteq> [] \<Longrightarrow> run = Some (RJ_SMP, [], st)"
    using prepareOrder_smp [of L reach s st p px q smp rt] rej by (simp add: run)
  assume no: "\<not> (smp = SMP_CANCEL_NEWEST \<and> cs \<noteq> [])"
  show "fok_kills L s (ob_buffer st p) px q smp st \<Longrightarrow>
      \<exists>st'. run = Some (RJ_FOK_CANNOT_FILL, [], st') \<and> reports_only p (ob_buffer st p) st st'"
    using prepareOrder_fok [OF _ , of L reach s st p px q smp rt] rej no by (auto simp: run)
  assume nofok: "\<not> fok_kills L s (ob_buffer st p) px q smp st"
  obtain st1 where prep: "prepareOrder L reach s p px q rt smp st = (if ?Q = 0 then Some RJ_NONE else None, st1)"
    and ro: "reports_only p ord st st1"
    using prepareOrder_pass [OF _ nofok, of reach rt] rej no ord by auto
  have inv1: "obinv L binv {p} st1" using obinv_reports_only [OF ro inv] ord by simp
  have id1: "ident ord = ident (ob_buffer st p)" by (simp add: ord ident_def prepared_def applyReplace_def)
  have buf1: "ob_buffer st1 p = ord" and o1: "ob_orders st1 = ob_orders st"
    using ro by (simp_all add: reports_only_def)
  have q1: "queue L st1 s' = queue L st s'" for s' by (rule queue_reports_only [OF ro])
  show "\<exists>sms st'. run = Some (RJ_NONE, sms, st') \<and> obinv L binv {p} st' \<and> matched L p ord s et fs es' sms st st'"
  proof (cases "?Q = 0")
    case True
    then show ?thesis
      using prep zero inv1 buf1 o1 q1 ro reports_only_pool [OF ro id1]
      by (auto simp: run matched_def legs_def phantom_traded_def reports_only_def)
  next
    case False
    then obtain ctx st2 where lp: "loop st1 = Some (True, q', ctx, st2)"
      and inv2: "obinv L binv {p} st2" and swp: "swept L (Some p) s (id_num ord) fs es' (new_context et seq) st1 ctx st2"
      using loop [OF no ro inv1] by blast
    let ?st3 = "cancelUnrestableRemainder p q' rt st2"
    have "run = Some (RJ_NONE, mc_summaries ctx, ?st3)" using prep False lp by (simp add: run)
    moreover have "obinv L binv {p} ?st3" using inv2 by (simp add: cancelUnrestableRemainder_def)
    moreover have "matched L p ord s et fs es' (mc_summaries ctx) st ?st3"
    proof -
      have "pool_kept st st2" using pool_kept_trans [OF reports_only_pool [OF ro id1]] swp by (simp add: swept_def)
      moreover have "eng_frame st st2" using ro swp eng_frame_trans unfolding reports_only_def swept_def by blast
      ultimately have "matched L p ord s et fs es' (mc_summaries ctx) st st2"
        using swp fold_fill_leaves [of et ord fs]
        by (simp add: matched_def swept_def ctx_fresh_def ctx_ok_def buf1 o1 q1)
      then show ?thesis by (simp add: cancelUnrestableRemainder_def matched_publish)
    qed
    ultimately show ?thesis by blast
  qed
qed

end

end
