(* ===== verification/Fifo_Engine.thy ===== *)
theory Fifo_Engine
  imports Match_Outcome
begin

text \<open>
  \<open>src/src/matching_engine/fifo_matching_engine.cpp\<close>. The two matching loops may in principle
  run forever (a book that accepted an execution without consuming quantity would keep them
  going), so they are partial functions: \<open>None\<close> is not returning, or the assertion on an empty
  level. That they do return, with the outcome of the price-time sweep \<open>sweep\<close>, is proved.
\<close>

section \<open>The loops\<close>

partial_function (option) fifo_order_loop ::
    "'l l3_ops \<Rightarrow> Side \<Rightarrow> ptr \<Rightarrow> price_t \<Rightarrow> time_ns \<Rightarrow> SelfMatchPreventionMode \<Rightarrow> qty_t \<Rightarrow> MatchContext \<Rightarrow>
     ('l, 'z) engine \<Rightarrow> (bool \<times> qty_t \<times> MatchContext \<times> ('l, 'z) engine) option" where
  "fifo_order_loop L s p order_price request_time smp order_qty ctx st =
     (if order_qty \<le> 0 then Some (True, order_qty, ctx, st)
      else case l3_best L (ob_l3 st) s of
        None \<Rightarrow> Some (True, order_qty, ctx, st)
      | Some best_level \<Rightarrow>
          if \<not> crosses s order_price (lv_price best_level) then Some (True, order_qty, ctx, st)
          else case lv_orders best_level of
            [] \<Rightarrow> None
          | book_order # _ \<Rightarrow>
              (let owner = findOrder (lo_id book_order) st in
               if smp \<noteq> SMP_NONE \<and> isSelfMatch (ob_buffer st p) (fullOrder (lo_id book_order) st) then
                 (case handleSelfMatch L (the owner) request_time (mc_event_time ctx) (mc_seq_num ctx) smp st of
                    (continue, st') \<Rightarrow>
                      if \<not> continue then Some (False, order_qty, ctx, st')
                      else fifo_order_loop L s p order_price request_time smp order_qty ctx st')
               else
                 (let trade_qty = min order_qty (lo_qty book_order);
                      order_qty' = order_qty - trade_qty
                  in case fillResting L s p (lo_id book_order) owner (lv_price best_level) trade_qty order_qty' ctx st of
                       (ok, ctx', st') \<Rightarrow>
                         if \<not> ok then Some (True, order_qty', ctx', st')
                         else fifo_order_loop L s p order_price request_time smp order_qty' ctx' st')))"

partial_function (option) fifo_feed_loop ::
    "'l l3_ops \<Rightarrow> Side \<Rightarrow> order_num \<Rightarrow> price_t \<Rightarrow> qty_t \<Rightarrow> MatchContext \<Rightarrow> ('l, 'z) engine \<Rightarrow>
     (qty_t \<times> MatchContext \<times> ('l, 'z) engine) option" where
  "fifo_feed_loop L s agg_id px qty ctx st =
     (if qty \<le> 0 then Some (qty, ctx, st)
      else case l3_best L (ob_l3 st) s of
        None \<Rightarrow> Some (qty, ctx, st)
      | Some best_level \<Rightarrow>
          if \<not> crosses s px (lv_price best_level) then Some (qty, ctx, st)
          else case lv_orders best_level of
            [] \<Rightarrow> None
          | book_order # _ \<Rightarrow>
              (case fillRestingFromFeed L s agg_id (lo_id book_order) (lv_price best_level)
                      (min qty (lo_qty book_order)) qty ctx st of
                 (ok, qty', ctx', st') \<Rightarrow>
                   if \<not> ok then Some (qty', ctx', st')
                   else fifo_feed_loop L s agg_id px qty' ctx' st'))"

definition fifo_matchOrder ::
    "'l l3_ops \<Rightarrow> Side \<Rightarrow> ptr \<Rightarrow> price_t \<Rightarrow> qty_t \<Rightarrow> time_ns \<Rightarrow> time_ns \<Rightarrow> seq_t \<Rightarrow> SelfMatchPreventionMode \<Rightarrow>
     ('l, 'z) engine \<Rightarrow> (OrdRejectReason \<times> TradeSummaryInfo list \<times> ('l, 'z) engine) option" where
  "fifo_matchOrder L s p order_price order_qty request_time event_time seq smp st =
     (case prepareOrder L Queue s p order_price order_qty request_time smp st of
        (Some finished, st1) \<Rightarrow> Some (finished, [], st1)
      | (None, st1) \<Rightarrow>
          (case fifo_order_loop L s p order_price request_time smp (leaves_quantity (ob_buffer st1 p))
                  (new_context event_time seq) st1 of
             None \<Rightarrow> None
           | Some (go, order_qty', ctx, st2) \<Rightarrow>
               if \<not> go then Some (RJ_SMP, mc_summaries ctx, st2)
               else Some (RJ_NONE, mc_summaries ctx, cancelUnrestableRemainder p order_qty' request_time st2)))"

definition fifo_matchFeed ::
    "'l l3_ops \<Rightarrow> Side \<Rightarrow> order_num \<Rightarrow> price_t \<Rightarrow> qty_t \<Rightarrow> time_ns \<Rightarrow> seq_t \<Rightarrow> ('l, 'z) engine \<Rightarrow>
     (TradeSummaryInfo list \<times> qty_t \<times> ('l, 'z) engine) option" where
  "fifo_matchFeed L s agg_id px qty event_time seq st =
     (case fifo_feed_loop L s agg_id px qty (new_context event_time seq) st of
        None \<Rightarrow> None
      | Some (qty', ctx, st') \<Rightarrow> Some (mc_summaries ctx, qty', st'))"

definition fifo_match_order ::
    "'l l3_ops \<Rightarrow> ptr \<Rightarrow> price_t \<Rightarrow> qty_t \<Rightarrow> time_ns \<Rightarrow> time_ns \<Rightarrow> seq_t \<Rightarrow> SelfMatchPreventionMode \<Rightarrow>
     ('l, 'z) engine \<Rightarrow> (OrdRejectReason \<times> TradeSummaryInfo list \<times> ('l, 'z) engine) option" where
  "fifo_match_order L p order_price order_qty request_time event_time seq smp st =
     fifo_matchOrder L (if side (ob_buffer st p) = BUY then SELL else BUY) p order_price order_qty
       request_time event_time seq smp st"

definition fifo_match_feed ::
    "'l l3_ops \<Rightarrow> Side \<Rightarrow> order_num \<Rightarrow> price_t \<Rightarrow> qty_t \<Rightarrow> time_ns \<Rightarrow> seq_t \<Rightarrow> ('l, 'z) engine \<Rightarrow>
     (TradeSummaryInfo list \<times> qty_t \<times> ('l, 'z) engine) option" where
  "fifo_match_feed L aggressor_side agg_id px qty event_time seq st =
     fifo_matchFeed L (if aggressor_side = BUY then SELL else BUY) agg_id px qty event_time seq st"

section \<open>The loops refine the sweep\<close>

lemma hittable_rest:
  assumes "hittable L A s b" and "queue L b s = e # es" and "queue L b' s = es" and "ob_orders b' = (ob_orders b)(en_id e := None)"
  shows "hittable L A s b'"
  using assms by (auto simp: hittable_def)

context l3_book
begin

lemma feed_loop_sweep:
  fixes st :: "('l, 'z) engine"
  assumes "queue L st s = es" and "obinv L binv {} st" and "real_side s" and "hittable L None s st"
    and "ctx_fresh L s aid ctx st" and "0 \<le> q" and "sweep (crosses s px) (\<lambda>_. False) q es = (fs, cs, es', q')"
  shows "\<exists>ctx' st'. fifo_feed_loop L s aid px q ctx st = Some (q', ctx', st') \<and> obinv L binv {} st' \<and>
    swept L None s aid fs es' ctx st ctx' st'"
  using assms
proof (induction es arbitrary: st ctx q fs cs)
  case Nil
  then show ?case
    using best_none [OF Nil.prems(2,3)] swept_refl [OF Nil.prems(5), of None]
    by (subst fifo_feed_loop.simps) auto
next
  case (Cons e es)
  note s = Cons.prems(3) and inv = Cons.prems(2) and fr = Cons.prems(5)
  obtain l bos where best: "l3_best L (ob_l3 st) s = Some l" "lv_price l = en_price e" "lv_orders l = order_of e # bos"
    by (rule best_some [OF inv s Cons.prems(1)])
  have e: "e \<in> set (queue L st s)" and dist: "distinct (map en_id (e # es))"
    using Cons.prems(1) queue_distinct(1) [OF inv s] by auto
  have pos: "0 < en_qty e" "en_price e \<noteq> NULL_PRICE"
    using queue_pos [OF inv s e] Cons.prems(4) e by (auto simp: hittable_def)
  have seq: "mc_seq_num ctx = 0 \<or> l3_last_seq L (ob_l3 st) \<le> mc_seq_num ctx" and cok: "ctx_ok s aid ctx"
    using fr by (auto simp: ctx_fresh_def)
  from Cons.prems(7) show ?case
  proof (cases rule: sweep_Cons_cases)
    case stop
    then show ?thesis
      using best inv swept_refl [OF fr, of None] Cons.prems(1)
      by (subst fifo_feed_loop.simps) auto
  next
    case (own cs1)
    then show ?thesis by simp
  next
    case (full fs1)
    obtain ctx1 st1 where f: "fillRestingFromFeed L s aid (en_id e) (en_price e) (en_qty e) q ctx st = (True, q - en_qty e, ctx1, st1)"
      and inv1: "obinv L binv {} st1" and fe: "fill_effect L None s e (en_qty e) (mc_event_time ctx) (mc_seq_num ctx) st st1"
      and bk: "booked s aid e (en_qty e) (ob_orders st (en_id e) \<noteq> None) ctx ctx1"
      by (rule fillRestingFromFeed_ok [OF inv s e pos(1) order_refl seq _ cok pos(2)]) auto
    have q1: "queue L st1 s = es" and o1: "ob_orders st1 = (ob_orders st)(en_id e := None)"
      using fe Cons.prems(1) resize_head [OF dist, of "en_qty e"] by (simp_all add: fill_effect_def)
    have "hittable L None s st1" using hittable_rest Cons.prems(4,1) q1 o1 by blast
    then obtain ctx' st' where r: "fifo_feed_loop L s aid px (q - en_qty e) ctx1 st1 = Some (q', ctx', st')"
      "obinv L binv {} st'" "swept L None s aid fs1 es' ctx1 st1 ctx' st'"
      using Cons.IH [OF q1 inv1 s _ fresh_after_fill [OF fe bk fr] _ full(6)] full(4) by auto
    have fl: "\<forall>(x, y)\<in>set fs1. x \<in> set es"
      using sweep_fills [OF full(6)] queue_pos [OF inv s] Cons.prems(1) by auto
    have "fifo_feed_loop L s aid px q ctx st = Some (q', ctx', st')"
      using full best f r(1) by (subst fifo_feed_loop.simps) (simp add: min_absorb2)
    then show ?thesis
      using r(2) swept_full [OF fe bk inv Cons.prems(1) dist sweep_ids [OF full(6)] fl r(3)] full(5) by auto
  next
    case part
    obtain ctx1 st1 where f: "fillRestingFromFeed L s aid (en_id e) (en_price e) q q ctx st = (True, q - q, ctx1, st1)"
      and inv1: "obinv L binv {} st1" and fe: "fill_effect L None s e q (mc_event_time ctx) (mc_seq_num ctx) st st1"
      and bk: "booked s aid e q (ob_orders st (en_id e) \<noteq> None) ctx ctx1"
      by (rule fillRestingFromFeed_ok [where qty = q, OF inv s e part(1) less_imp_le [OF part(4)] seq _ cok pos(2)]) auto
    have "fifo_feed_loop L s aid px q ctx st = Some (0, ctx1, st1)"
      using part best f by (subst fifo_feed_loop.simps) (simp add: min_absorb1, subst fifo_feed_loop.simps, simp)
    then show ?thesis
      using inv1 part swept_part [OF fe bk fr inv Cons.prems(1) dist part(4)] by auto
  qed
qed

lemma order_loop_sweep:
  fixes st :: "('l, 'z) engine"
  assumes "queue L st s = es" and "obinv L binv {p} st" and "real_side s" and "hittable L (Some p) s st"
    and "ctx_fresh L s aid ctx st" and "aid = id_num (ob_buffer st p)"
    and "sweep (crosses s px) (own_order smp p st) q es = (fs, cs, es', q')"
    and "smp = SMP_CANCEL_NEWEST \<Longrightarrow> cs = []" and "0 \<le> q"
  shows "\<exists>ctx' st'. fifo_order_loop L s p px rt smp q ctx st = Some (True, q', ctx', st') \<and> obinv L binv {p} st' \<and>
    swept L (Some p) s aid fs es' ctx st ctx' st'"
  using assms
proof (induction es arbitrary: st ctx q fs cs)
  case Nil
  then show ?case
    using best_none [OF Nil.prems(2,3)] swept_refl [OF Nil.prems(5), of "Some p"]
    by (subst fifo_order_loop.simps) auto
next
  case (Cons e es)
  note s = Cons.prems(3) and inv = Cons.prems(2) and fr = Cons.prems(5) and qu = Cons.prems(1)
  obtain l bos where best: "l3_best L (ob_l3 st) s = Some l" "lv_price l = en_price e" "lv_orders l = order_of e # bos"
    by (rule best_some [OF inv s qu])
  have e: "e \<in> set (queue L st s)" and dist: "distinct (map en_id (e # es))"
    using qu queue_distinct(1) [OF inv s] by auto
  have np: "r \<notin> {p}" if "ob_orders st (en_id e) = Some r" for r
    using Cons.prems(4) e that by (auto simp: hittable_def)
  have px0: "en_price e \<noteq> NULL_PRICE" and pos0: "0 < en_qty e"
    using queue_pos [OF inv s e] Cons.prems(4) e by (auto simp: hittable_def)
  have seq: "mc_seq_num ctx = 0 \<or> l3_last_seq L (ob_l3 st) \<le> mc_seq_num ctx"
    and cok: "ctx_ok s (id_num (ob_buffer st p)) ctx"
    using fr Cons.prems(6) by (auto simp: ctx_fresh_def)
  have out: "x \<in> set es \<Longrightarrow> en_id x \<noteq> en_id e" for x using dist by (auto simp: image_iff)
  from Cons.prems(7) show ?case
  proof (cases rule: sweep_Cons_cases)
    case stop
    then show ?thesis
      using best inv swept_refl [OF fr, of "Some p"] qu by (subst fifo_order_loop.simps) auto
  next
    case (own cs1)
    obtain r where r: "ob_orders st (en_id e) = Some r"
      using own(3) by (auto simp: own_order_def isSelfMatch_def fullOrder_def findOrder_def split: option.splits)
    have smp: "smp = SMP_CANCEL_RESTING"
      using own(3,4) Cons.prems(8) by (cases smp) (auto simp: own_order_def)
    obtain st1 where h: "handleSelfMatch L r rt (mc_event_time ctx) (mc_seq_num ctx) SMP_CANCEL_RESTING st = (True, st1)"
      and inv1: "obinv L binv {p} st1" and ce: "cancel_effect L r s e rt (mc_seq_num ctx) st st1"
      by (rule handleSelfMatch_ok [OF inv s e r np [OF r] seq])
    have q1: "queue L st1 s = es" and o1: "ob_orders st1 = (ob_orders st)(en_id e := None)"
      using ce qu remove_head [OF dist] by (simp_all add: cancel_effect_def)
    have hit: "hittable L (Some p) s st1" using hittable_rest Cons.prems(4) qu q1 o1 by blast
    have rp: "r \<noteq> p" using np [OF r] by simp
    have "ob_buffer st1 p = ob_buffer st p" using ce rp by (simp add: cancel_effect_def)
    then have aid: "aid = id_num (ob_buffer st1 p)" using Cons.prems(6) by simp
    have fr1: "ctx_fresh L s aid ctx st1" using fr ce by (auto simp: ctx_fresh_def cancel_effect_def next_seq_def)
    have sw: "sweep (crosses s px) (own_order smp p st1) q es = (fs, cs1, es', q')"
      using own(5) sweep_cong [of es "own_order smp p st1" "own_order smp p st"] own_order_cancel [OF ce] out by simp
    obtain ctx' st' where res: "fifo_order_loop L s p px rt smp q ctx st1 = Some (True, q', ctx', st')"
      "obinv L binv {p} st'" "swept L (Some p) s aid fs es' ctx st1 ctx' st'"
      using Cons.IH [OF q1 inv1 s hit fr1 aid sw] smp Cons.prems(9) by auto
    have fl: "\<forall>(x, y)\<in>set fs. x \<in> set es"
      using sweep_fills [OF own(5)] queue_pos [OF inv s] qu by auto
    have "fifo_order_loop L s p px rt smp q ctx st = Some (True, q', ctx', st')"
      using own best h r res(1) smp
      by (subst fifo_order_loop.simps) (simp add: own_order_def findOrder_def Let_def)
    then show ?thesis
      using res(2) swept_cancel [OF ce r _ inv qu dist sweep_ids [OF own(5)] fl res(3)] rp by auto
  next
    case (full fs1)
    obtain ctx1 st1 where f: "fillResting L s p (en_id e) (ob_orders st (en_id e)) (en_price e) (en_qty e) (q - en_qty e) ctx st = (True, ctx1, st1)"
      and inv1: "obinv L binv {p} st1" and fe: "fill_effect L (Some p) s e (en_qty e) (mc_event_time ctx) (mc_seq_num ctx) st st1"
      and bk: "booked s (id_num (ob_buffer st p)) e (en_qty e) (ob_orders st (en_id e) \<noteq> None) ctx ctx1"
      by (rule fillResting_ok [where rem = "q - en_qty e", OF inv _ s e pos0 order_refl seq np cok px0]) auto
    have q1: "queue L st1 s = es" and o1: "ob_orders st1 = (ob_orders st)(en_id e := None)"
      using fe qu resize_head [OF dist, of "en_qty e"] by (simp_all add: fill_effect_def)
    have hit: "hittable L (Some p) s st1" using hittable_rest Cons.prems(4) qu q1 o1 by blast
    have aid: "aid = id_num (ob_buffer st1 p)" using fe Cons.prems(6) by (simp add: fill_effect_def)
    have sw: "sweep (crosses s px) (own_order smp p st1) (q - en_qty e) es = (fs1, cs, es', q')"
      using full(6) sweep_cong [of es "own_order smp p st1" "own_order smp p st"] own_order_fill [OF fe] out by simp
    obtain ctx' st' where res: "fifo_order_loop L s p px rt smp (q - en_qty e) ctx1 st1 = Some (True, q', ctx', st')"
      "obinv L binv {p} st'" "swept L (Some p) s aid fs1 es' ctx1 st1 ctx' st'"
      using Cons.IH [OF q1 inv1 s hit fresh_after_fill [OF fe bk [folded Cons.prems(6)] fr] aid sw] Cons.prems(8) full(4) by auto
    have fl: "\<forall>(x, y)\<in>set fs1. x \<in> set es"
      using sweep_fills [OF full(6)] queue_pos [OF inv s] qu by auto
    have "fifo_order_loop L s p px rt smp q ctx st = Some (True, q', ctx', st')"
      using full best f res(1)
      by (subst fifo_order_loop.simps) (auto simp: own_order_def findOrder_def Let_def min_absorb2)
    then show ?thesis
      using res(2) swept_full [OF fe bk [folded Cons.prems(6)] inv qu dist sweep_ids [OF full(6)] fl res(3)] full(5) by auto
  next
    case part
    obtain ctx1 st1 where f: "fillResting L s p (en_id e) (ob_orders st (en_id e)) (en_price e) q (q - q) ctx st = (True, ctx1, st1)"
      and inv1: "obinv L binv {p} st1" and fe: "fill_effect L (Some p) s e q (mc_event_time ctx) (mc_seq_num ctx) st st1"
      and bk: "booked s (id_num (ob_buffer st p)) e q (ob_orders st (en_id e) \<noteq> None) ctx ctx1"
      by (rule fillResting_ok [where rem = "q - q", OF inv _ s e part(1) less_imp_le [OF part(4)] seq np cok px0]) auto
    have z: "fifo_order_loop L s p px rt smp 0 ctx1 st1 = Some (True, 0, ctx1, st1)"
      by (subst fifo_order_loop.simps) simp
    have "fifo_order_loop L s p px rt smp q ctx st = Some (True, 0, ctx1, st1)"
      using part best f z
      by (subst fifo_order_loop.simps) (auto simp: own_order_def findOrder_def Let_def min_absorb1)
    then show ?thesis
      using inv1 part swept_part [OF fe bk [folded Cons.prems(6)] fr inv qu dist part(4)] by auto
  qed
qed

end

section \<open>Matching an order\<close>

context l3_book
begin

lemma smp_rejects_iff:
  fixes st :: "('l, 'z) engine"
  assumes inv: "obinv L binv {p} st" and s: "real_side s" and acct: "acct_ok (ob_buffer st p)"
    and ord: "ord = prepared px q (ob_buffer st p)"
    and sw: "sweep (crosses s px) (own_order smp p st) (leaves_quantity ord) (queue L st s) = (fs, cs, es', q')"
  shows "smp_rejects L Queue s (ob_buffer st p) px q smp st \<longleftrightarrow> smp = SMP_CANCEL_NEWEST \<and> cs \<noteq> []"
proof (cases "smp = SMP_CANCEL_NEWEST")
  case True
  let ?Q = "leaves_quantity ord"
  have eff: "effective_qty (ob_buffer st p) q = ?Q" using effective_qty_prepared [OF acct] ord by simp
  have pos: "\<forall>e\<in>set (queue L st s). 0 < en_qty e" using queue_pos [OF inv s] by blast
  have "wouldSelfMatch L Queue s (ob_buffer st p) px ?Q st \<longleftrightarrow> cs \<noteq> []"
    using True wouldSelfMatch_sweep [OF inv s] sw by (simp add: own_order_def cong: sweep_cong)
  moreover have "cs \<noteq> [] \<Longrightarrow> 0 < ?Q"
    using sweep_cancels_iff [OF pos sw] reaches_own_zero by (meson linorder_not_less)
  ultimately show ?thesis using True by (auto simp: smp_rejects_def eff)
qed (simp add: smp_rejects_def)

lemma fifo_order_outcome:
  fixes st :: "('l, 'z) engine"
  assumes inv: "obinv L binv {p} st" and s: "real_side s" and hit: "hittable L (Some p) s st"
    and seq: "seq = 0 \<or> l3_last_seq L (ob_l3 st) \<le> seq" and acct: "acct_ok (ob_buffer st p)"
    and ord: "ord = prepared px q (ob_buffer st p)"
    and sw: "sweep (crosses s px) (own_order smp p st) (leaves_quantity ord) (queue L st s) = (fs, cs, es', q')"
  shows "smp = SMP_CANCEL_NEWEST \<and> cs \<noteq> [] \<Longrightarrow>
           fifo_matchOrder L s p px q rt et seq smp st = Some (RJ_SMP, [], st)"
    and "\<not> (smp = SMP_CANCEL_NEWEST \<and> cs \<noteq> []) \<Longrightarrow> fok_kills L s (ob_buffer st p) px q smp st \<Longrightarrow>
           \<exists>st'. fifo_matchOrder L s p px q rt et seq smp st = Some (RJ_FOK_CANNOT_FILL, [], st') \<and>
             reports_only p (ob_buffer st p) st st'"
    and "\<not> (smp = SMP_CANCEL_NEWEST \<and> cs \<noteq> []) \<Longrightarrow> \<not> fok_kills L s (ob_buffer st p) px q smp st \<Longrightarrow>
           \<exists>sms st'. fifo_matchOrder L s p px q rt et seq smp st = Some (RJ_NONE, sms, st') \<and>
             obinv L binv {p} st' \<and> matched L p ord s et fs es' sms st st'"
proof -
  let ?Q = "leaves_quantity ord"
  have Q0: "0 \<le> ?Q" using acct by (auto simp: ord prepared_def applyReplace_def acct_ok_def)
  have rej: "smp_rejects L Queue s (ob_buffer st p) px q smp st \<longleftrightarrow> smp = SMP_CANCEL_NEWEST \<and> cs \<noteq> []"
    by (rule smp_rejects_iff [OF inv s acct ord sw])
  have zero: "fs = [] \<and> es' = queue L st s" if "?Q = 0" using that sw by (cases "queue L st s") auto
  have loop: "\<exists>ctx st2. fifo_order_loop L s p px rt smp (leaves_quantity (ob_buffer st1 p)) (new_context et seq) st1 =
        Some (True, q', ctx, st2) \<and> obinv L binv {p} st2 \<and>
        swept L (Some p) s (id_num ord) fs es' (new_context et seq) st1 ctx st2"
    if no: "\<not> (smp = SMP_CANCEL_NEWEST \<and> cs \<noteq> [])" and ro: "reports_only p ord st st1" and inv1: "obinv L binv {p} st1" for st1
  proof -
    have buf1: "ob_buffer st1 p = ord" and l1: "ob_l3 st1 = ob_l3 st" using ro by (simp_all add: reports_only_def)
    have q1: "queue L st1 s = queue L st s" by (rule queue_reports_only [OF ro])
    have fr1: "ctx_fresh L s (id_num ord) (new_context et seq) st1" using seq by (simp add: ctx_fresh_def l1)
    have "own_order smp p st1 = own_order smp p st" using own_order_reports_only [OF ro] ord by (simp add: fun_eq_iff)
    then have "sweep (crosses s px) (own_order smp p st1) ?Q (queue L st1 s) = (fs, cs, es', q')"
      using sw by (simp add: q1)
    then show ?thesis
      using order_loop_sweep [OF refl inv1 s hittable_reports_only [OF ro hit] fr1, of px smp ?Q fs cs es' q' rt] no Q0
      by (auto simp: buf1)
  qed
  note out = order_outcome [OF inv ord rej zero refl loop, of rt, folded fifo_matchOrder_def]
  show "smp = SMP_CANCEL_NEWEST \<and> cs \<noteq> [] \<Longrightarrow>
      fifo_matchOrder L s p px q rt et seq smp st = Some (RJ_SMP, [], st)" by (rule out(1))
  show "\<not> (smp = SMP_CANCEL_NEWEST \<and> cs \<noteq> []) \<Longrightarrow> fok_kills L s (ob_buffer st p) px q smp st \<Longrightarrow>
      \<exists>st'. fifo_matchOrder L s p px q rt et seq smp st = Some (RJ_FOK_CANNOT_FILL, [], st') \<and>
        reports_only p (ob_buffer st p) st st'" by (rule out(2))
  show "\<not> (smp = SMP_CANCEL_NEWEST \<and> cs \<noteq> []) \<Longrightarrow> \<not> fok_kills L s (ob_buffer st p) px q smp st \<Longrightarrow>
      \<exists>sms st'. fifo_matchOrder L s p px q rt et seq smp st = Some (RJ_NONE, sms, st') \<and>
        obinv L binv {p} st' \<and> matched L p ord s et fs es' sms st st'" by (rule out(3))
qed

end

end
