(* ===== verification/Pro_Rata_Alloc.thy ===== *)
theory Pro_Rata_Alloc
  imports Match_Common
begin

text \<open>
  \<open>src/src/matching_engine/matching_config.hpp\<close> and the allocation of
  \<open>pro_rata_matching_engine.cpp\<close>: how an aggressor that cannot take a whole price level is split
  across the level's orders.
\<close>

section \<open>Configuration\<close>

record ProRataConfig =
  lot_size :: qty_t
  min_allocation :: qty_t
  fifo_percent :: nat

definition default_pro_rata :: ProRataConfig where
  "default_pro_rata = \<lparr>lot_size = int DOUBLE_MULTIPLIER, min_allocation = 0, fifo_percent = 0\<rparr>"

datatype config_error =
    LotSizeNotPositive | MinAllocationNegative | FifoPercentOver100
  | PercentOutOfRange string | QtyOutOfRange string | UnknownAlgorithm string | ProRataNotObject | BadJson

definition validate :: "ProRataConfig \<Rightarrow> config_error + unit" where
  "validate c =
     (if lot_size c \<le> 0 then Inl LotSizeNotPositive
      else if min_allocation c < 0 then Inl MinAllocationNegative
      else if fifo_percent c > 100 then Inl FifoPercentOver100
      else Inr ())"

datatype EngineType = FIFO | ProRata

record MatchingConfig =
  mc_type :: EngineType
  mc_pro_rata :: ProRataConfig

text \<open>
  The JSON values a configuration can hold: an integer before any narrowing, a double as its bit
  pattern, a string, an object, anything else. The conversion of a number to a fixed-point
  quantity is floating-point arithmetic (\<open>get<double>\<close>, \<open>isfinite\<close>, the range check and
  \<open>to_qty_t\<close>), so it is the parameter \<open>to_qty\<close>: \<open>None\<close> for a number that is refused.
\<close>

datatype json_value =
    JInt int
  | JFloat "64 word"
  | JString string
  | JObject "string \<rightharpoonup> json_value"
  | JOther

definition is_number :: "json_value \<Rightarrow> bool" where
  "is_number v = (case v of JInt _ \<Rightarrow> True | JFloat _ \<Rightarrow> True | _ \<Rightarrow> False)"

definition wrap64 :: "int \<Rightarrow> int" where
  "wrap64 x = sint (word_of_int x :: 64 word)"

definition read_percent :: "(string \<rightharpoonup> json_value) \<Rightarrow> string \<Rightarrow> config_error + nat" where
  "read_percent params key = (case params key of
      None \<Rightarrow> Inr 0
    | Some (JInt i) \<Rightarrow>
        (let v = wrap64 i in if 0 \<le> v \<and> v \<le> 100 then Inr (nat v) else Inl (PercentOutOfRange key))
    | Some _ \<Rightarrow> Inl (PercentOutOfRange key))"

definition read_qty ::
    "(json_value \<Rightarrow> qty_t option) \<Rightarrow> (string \<rightharpoonup> json_value) \<Rightarrow> string \<Rightarrow> qty_t \<Rightarrow> config_error + qty_t" where
  "read_qty to_qty params key fallback = (case params key of
      None \<Rightarrow> Inr fallback
    | Some v \<Rightarrow>
        (case (if is_number v then to_qty v else None) of
           Some q \<Rightarrow> Inr q
         | None \<Rightarrow> Inl (QtyOutOfRange key)))"

text \<open>\<open>json::value\<close> throws when the member has the wrong type, which \<open>from_json\<close> rethrows.\<close>

definition from_json :: "(json_value \<Rightarrow> qty_t option) \<Rightarrow> (string \<rightharpoonup> json_value) \<Rightarrow> config_error + MatchingConfig" where
  "from_json to_qty config =
     (let out = \<lparr>mc_type = FIFO, mc_pro_rata = default_pro_rata\<rparr> in
      case config ''matching_algorithm'' of
        None \<Rightarrow> Inr out
      | Some (JString algorithm) \<Rightarrow>
          if algorithm = ''fifo'' then Inr out
          else if algorithm \<noteq> ''pro_rata'' then Inl (UnknownAlgorithm algorithm)
          else
            (case (case config ''pro_rata'' of None \<Rightarrow> JObject Map.empty | Some v \<Rightarrow> v) of
               JObject params \<Rightarrow>
                 (case read_qty to_qty params ''lot_size'' (int DOUBLE_MULTIPLIER) of
                    Inl e \<Rightarrow> Inl e
                  | Inr lot \<Rightarrow>
                      (case read_qty to_qty params ''min_allocation'' 0 of
                         Inl e \<Rightarrow> Inl e
                       | Inr mn \<Rightarrow>
                           (case read_percent params ''fifo_percent'' of
                              Inl e \<Rightarrow> Inl e
                            | Inr pct \<Rightarrow>
                                (let c = \<lparr>lot_size = lot, min_allocation = mn, fifo_percent = pct\<rparr> in
                                 case validate c of
                                   Inl e \<Rightarrow> Inl e
                                 | Inr _ \<Rightarrow> Inr \<lparr>mc_type = ProRata, mc_pro_rata = c\<rparr>))))
             | _ \<Rightarrow> Inl ProRataNotObject)
      | Some _ \<Rightarrow> Inl BadJson)"

section \<open>Allocation\<close>

record Allocation =
  al_order_id :: order_num
  al_size :: qty_t
  al_qty :: qty_t
  al_order :: "ptr option"

definition floorLot :: "ProRataConfig \<Rightarrow> qty_t \<Rightarrow> qty_t" where
  "floorLot c q = q - q smod lot_size c"

definition share_of :: "qty_t \<Rightarrow> qty_t \<Rightarrow> qty_t \<Rightarrow> qty_t" where
  "share_of a b c = sint (mul_div_floor (word_of_int a) (word_of_int b) (word_of_int c))"

fun fifo_slice :: "qty_t \<Rightarrow> Allocation list \<Rightarrow> Allocation list" where
  "fifo_slice fifo [] = []"
| "fifo_slice fifo (a # as) =
     (if fifo = 0 then a # as
      else (let x = min fifo (al_size a) in a\<lparr>al_qty := x\<rparr> # fifo_slice (fifo - x) as))"

fun pro_rata_shares ::
    "ProRataConfig \<Rightarrow> qty_t \<Rightarrow> qty_t \<Rightarrow> qty_t \<Rightarrow> Allocation list \<Rightarrow> Allocation list \<times> qty_t" where
  "pro_rata_shares c pro_rata base left [] = ([], left)"
| "pro_rata_shares c pro_rata base left (a # as) =
     (let share0 = floorLot c (share_of pro_rata (al_size a - al_qty a) base);
          share = (if share0 < min_allocation c then 0 else share0);
          (as', left') = pro_rata_shares c pro_rata base (left - share) as
      in (a\<lparr>al_qty := al_qty a + share\<rparr> # as', left'))"

fun fifo_rest :: "qty_t \<Rightarrow> Allocation list \<Rightarrow> Allocation list \<times> qty_t" where
  "fifo_rest left [] = ([], left)"
| "fifo_rest left (a # as) =
     (if left = 0 then (a # as, left)
      else (let extra = min left (al_size a - al_qty a);
                (as', left') = fifo_rest (left - extra) as
            in (a\<lparr>al_qty := al_qty a + extra\<rparr> # as', left')))"

text \<open>The second component is what the final \<open>assert(left == 0)\<close> checks.\<close>

definition split_level :: "ProRataConfig \<Rightarrow> qty_t \<Rightarrow> qty_t \<Rightarrow> Allocation list \<Rightarrow> Allocation list \<times> qty_t" where
  "split_level c qty total_qty as =
     (if qty \<ge> total_qty then (map (\<lambda>a. a\<lparr>al_qty := al_size a\<rparr>) as, 0)
      else
        (let fifo = (if fifo_percent c > 0 then floorLot c (share_of qty (int (fifo_percent c)) 100) else 0);
             left = qty - fifo;
             as1 = (if fifo_percent c > 0 then fifo_slice fifo as else as);
             (as2, left2) = (if left > 0 then pro_rata_shares c left (total_qty - (qty - left)) left as1 else (as1, left))
         in fifo_rest left2 as2))"

definition level_allocations :: "l3_level \<Rightarrow> ('l, 'z) book \<Rightarrow> bool \<Rightarrow> Allocation list" where
  "level_allocations level b resolve = map (\<lambda>bo. \<lparr>al_order_id = lo_id bo, al_size = lo_qty bo, al_qty = 0,
     al_order = (if resolve then findOrder (lo_id bo) b else None)\<rparr>) (lv_orders level)"

definition allocate :: "ProRataConfig \<Rightarrow> l3_level \<Rightarrow> qty_t \<Rightarrow> ('l, 'z) book \<Rightarrow> bool \<Rightarrow> Allocation list \<times> qty_t" where
  "allocate c level qty b resolve =
     split_level c qty (\<Sum>bo\<leftarrow>lv_orders level. lo_qty bo) (level_allocations level b resolve)"

section \<open>Shares\<close>

lemma validate_ok:
  "validate c = Inr u \<longleftrightarrow> 0 < lot_size c \<and> 0 \<le> min_allocation c \<and> fifo_percent c \<le> 100"
  by (auto simp: validate_def)

lemma floorLot_bounds:
  assumes "0 < lot_size c" and "0 \<le> q"
  shows "0 \<le> floorLot c q" and "floorLot c q \<le> q" and "lot_size c dvd floorLot c q"
proof -
  have m: "q smod lot_size c = q mod lot_size c"
    using assms by (simp add: signed_modulo_int_def signed_divide_int_def sgn_if minus_div_mult_eq_mod)
  have "0 \<le> q mod lot_size c" "q mod lot_size c \<le> q"
    using assms by (simp_all add: zmod_le_nonneg_dividend)
  then show "0 \<le> floorLot c q" "floorLot c q \<le> q" by (simp_all add: floorLot_def m)
  show "lot_size c dvd floorLot c q" by (simp add: floorLot_def m)
qed

lemma share_of_eq:
  assumes "0 \<le> a" "a < 2 ^ 63" "0 \<le> b" "b \<le> c" "0 < c" "c < 2 ^ 63"
  shows "share_of a b c = a * b div c"
proof -
  have u: "uint (word_of_int x :: 64 word) = x" if "0 \<le> x" "x < 2 ^ 63" for x
    using that by (simp add: uint_word_of_int)
  have n: "int (unat (word_of_int x :: 64 word)) = x" if "0 \<le> x" "x < 2 ^ 63" for x
    using u [OF that] by simp
  have "(word_of_int c :: 64 word) \<noteq> 0" using n [of c] assms by auto
  moreover have "(word_of_int b :: 64 word) \<le> word_of_int c"
    using u [of b] u [of c] assms by (simp add: word_le_def)
  ultimately have m: "int (unat (mul_div_floor (word_of_int a) (word_of_int b) (word_of_int c))) = a * b div c"
    using mul_div_floor_nat(1) [of "word_of_int c" "word_of_int b" "word_of_int a"] n [of a] n [of b] n [of c] assms
    by (simp add: zdiv_int del: of_nat_unat)
  have "a * b div c \<le> a * c div c" using assms by (intro zdiv_mono1 mult_left_mono) auto
  then have le: "a * b div c \<le> a" using assms by simp
  have nn: "0 \<le> a * b div c" using assms by (simp add: pos_imp_zdiv_nonneg_iff)
  let ?w = "mul_div_floor (word_of_int a) (word_of_int b) (word_of_int c)"
  have "uint ?w = a * b div c" using m by simp
  then show ?thesis
    using le nn assms(2) by (simp add: share_of_def sint_uint signed_take_bit_int_eq_self)
qed

section \<open>The split is exact\<close>

definition al_ok :: "Allocation \<Rightarrow> bool" where
  "al_ok a \<longleftrightarrow> 0 \<le> al_qty a \<and> al_qty a \<le> al_size a"

definition allocated :: "Allocation list \<Rightarrow> qty_t" where
  "allocated as = (\<Sum>a\<leftarrow>as. al_qty a)"

definition room :: "Allocation list \<Rightarrow> qty_t" where
  "room as = (\<Sum>a\<leftarrow>as. al_size a - al_qty a)"

definition grown :: "Allocation \<Rightarrow> Allocation \<Rightarrow> bool" where
  "grown a a' \<longleftrightarrow> al_order_id a' = al_order_id a \<and> al_size a' = al_size a \<and> al_order a' = al_order a \<and> al_qty a \<le> al_qty a'"

lemma sums_simps [simp]:
  "allocated [] = 0" "allocated (a # as) = al_qty a + allocated as"
  "room [] = 0" "room (a # as) = al_size a - al_qty a + room as"
  by (simp_all add: allocated_def room_def)

lemma room_nonneg: "list_all al_ok as \<Longrightarrow> 0 \<le> room as"
  by (induction as) (auto simp: al_ok_def)

lemma grown_self [simp]: "grown a a"
  by (simp add: grown_def)

lemma grown_refl: "list_all2 grown as as"
  by (simp add: list_all2_refl)

lemma al_ok_upd: "al_ok a \<Longrightarrow> 0 \<le> x \<Longrightarrow> x \<le> al_size a - al_qty a \<Longrightarrow>
    al_ok (a\<lparr>al_qty := al_qty a + x\<rparr>) \<and> grown a (a\<lparr>al_qty := al_qty a + x\<rparr>)"
  by (simp add: al_ok_def grown_def)

lemma al_ok_zero: "0 < al_size a \<Longrightarrow> al_qty a = 0 \<Longrightarrow> al_ok a"
  by (simp add: al_ok_def)

lemma grown_trans: "list_all2 grown as bs \<Longrightarrow> list_all2 grown bs cs \<Longrightarrow> list_all2 grown as cs"
  by (rule list_all2_trans [of grown grown grown]) (auto simp: grown_def)

lemma fifo_slice_ok:
  assumes "list_all (\<lambda>a. 0 < al_size a \<and> al_qty a = 0) as" and "0 \<le> f" and "f \<le> room as"
  shows "list_all al_ok (fifo_slice f as) \<and> allocated (fifo_slice f as) = f \<and>
    room (fifo_slice f as) = room as - f \<and> list_all2 grown as (fifo_slice f as)"
  using assms
proof (induction as arbitrary: f)
  case (Cons a as)
  have all: "list_all al_ok as" and z: "allocated as = 0" if "list_all (\<lambda>a. 0 < al_size a \<and> al_qty a = 0) as"
    using that by (induction as) (auto simp: al_ok_def)
  show ?case
  proof (cases "f = 0")
    case True
    then show ?thesis using Cons.prems all z by (simp add: al_ok_zero grown_refl)
  next
    case False
    have "0 \<le> f - min f (al_size a)" "f - min f (al_size a) \<le> room as"
      using Cons.prems room_nonneg [OF all] by (auto simp: min_def)
    then show ?thesis using Cons.IH [of "f - min f (al_size a)"] Cons.prems False
      by (auto simp: al_ok_def grown_def Let_def)
  qed
qed simp

definition share :: "ProRataConfig \<Rightarrow> qty_t \<Rightarrow> qty_t \<Rightarrow> qty_t \<Rightarrow> qty_t" where
  "share c pr base rem = (let s = floorLot c (pr * rem div base) in if s < min_allocation c then 0 else s)"

lemma share_bounds:
  assumes "validate c = Inr ()" and "0 \<le> pr" "pr \<le> base" "0 < base" "0 \<le> rem"
  shows "0 \<le> share c pr base rem" and "base * share c pr base rem \<le> pr * rem" and "share c pr base rem \<le> rem"
proof -
  let ?d = "pr * rem div base"
  have v: "0 < lot_size c" "0 \<le> min_allocation c" using assms(1) by (simp_all add: validate_ok)
  have d: "0 \<le> ?d" using assms by (simp add: pos_imp_zdiv_nonneg_iff)
  have s: "0 \<le> share c pr base rem" "share c pr base rem \<le> ?d"
    using floorLot_bounds [OF v(1) d] d by (auto simp: share_def Let_def)
  have "base * ?d \<le> pr * rem" using assms(4) by (simp add: minus_mod_eq_mult_div [symmetric])
  moreover have "base * share c pr base rem \<le> base * ?d" using s(2) assms(4) by (intro mult_left_mono) auto
  ultimately show le: "base * share c pr base rem \<le> pr * rem" by linarith
  show "0 \<le> share c pr base rem" by (rule s(1))
  have "pr * rem \<le> base * rem" using assms by (intro mult_right_mono) auto
  with le show "share c pr base rem \<le> rem" using assms(4) by (metis mult_le_cancel_left_pos order_trans)
qed

lemma pro_rata_shares_ok:
  assumes "validate c = Inr ()" and "0 \<le> pr" "pr \<le> base" "0 < base" "base < 2 ^ 63"
    and "list_all al_ok as" and "room as \<le> base" and "pro_rata_shares c pr base left as = (as', left')"
  shows "list_all al_ok as' \<and> allocated as' = allocated as + (left - left') \<and> room as' = room as - (left - left') \<and>
    0 \<le> left - left' \<and> base * (left - left') \<le> pr * room as \<and> list_all2 grown as as' \<and>
    list_all2 (\<lambda>a a'. al_qty a' = al_qty a + share c pr base (al_size a - al_qty a)) as as'"
  using assms(6-8)
proof (induction as arbitrary: left as')
  case (Cons a as)
  let ?rem = "al_size a - al_qty a"
  have ok: "al_ok a" "list_all al_ok as" and r0: "0 \<le> room as" using Cons.prems(1) room_nonneg by auto
  have rem: "0 \<le> ?rem" "?rem \<le> base" using ok(1) Cons.prems(2) r0 by (auto simp: al_ok_def)
  note sb = share_bounds [OF assms(1-4) rem(1)]
  have so: "share_of pr ?rem base = pr * ?rem div base" using assms(2-5) rem by (intro share_of_eq) auto
  obtain as1 where r: "pro_rata_shares c pr base (left - share c pr base ?rem) as = (as1, left')"
    and as': "as' = a\<lparr>al_qty := al_qty a + share c pr base ?rem\<rparr> # as1"
    using Cons.prems(3) by (auto simp: so share_def Let_def split: prod.splits)
  have "room as \<le> base" using Cons.prems(2) rem(1) by simp
  note IH = Cons.IH [OF ok(2) this r]
  have d: "base * (left - left') = base * share c pr base ?rem + base * (left - share c pr base ?rem - left')"
    by (simp add: algebra_simps)
  show ?case using IH sb ok(1) by (auto simp: as' al_ok_def grown_def d algebra_simps)
qed simp

lemma fifo_rest_ok:
  assumes "list_all al_ok as" and "0 \<le> left" and "left \<le> room as"
  shows "\<exists>as'. fifo_rest left as = (as', 0) \<and> list_all al_ok as' \<and> allocated as' = allocated as + left \<and>
    list_all2 grown as as'"
  using assms
proof (induction as arbitrary: left)
  case (Cons a as)
  show ?case
  proof (cases "left = 0")
    case True
    then show ?thesis using Cons.prems by (simp add: grown_refl)
  next
    case False
    let ?x = "min left (al_size a - al_qty a)"
    have x: "0 \<le> left - ?x" "left - ?x \<le> room as"
      using Cons.prems room_nonneg [of as] by (auto simp: min_def)
    obtain as1 where "fifo_rest (left - ?x) as = (as1, 0)" "list_all al_ok as1"
      "allocated as1 = allocated as + (left - ?x)" "list_all2 grown as as1"
      using Cons.IH [OF _ x] Cons.prems(1) by auto
    moreover have "0 \<le> al_size a - al_qty a" using Cons.prems(1) by (simp add: al_ok_def)
    moreover have "0 \<le> ?x" using Cons.prems(2) calculation(5) by simp
    ultimately show ?thesis using False Cons.prems(1) al_ok_upd [of a ?x] by (simp add: Let_def)
  qed
qed simp

lemma allocations_start:
  "list_all (\<lambda>od. 0 < lo_qty od) (lv_orders level) \<Longrightarrow>
   list_all (\<lambda>a. 0 < al_size a \<and> al_qty a = 0) (level_allocations level b resolve) \<and>
   room (level_allocations level b resolve) = (\<Sum>bo\<leftarrow>lv_orders level. lo_qty bo)"
  by (simp add: level_allocations_def room_def list_all_iff comp_def)

lemma split_level_ok:
  assumes val: "validate c = Inr ()" and start: "list_all (\<lambda>a. 0 < al_size a \<and> al_qty a = 0) as"
    and T: "T = room as" and bnd: "T < 2 ^ 63" and q: "0 < q"
  shows "\<exists>as'. split_level c q T as = (as', 0) \<and> list_all al_ok as' \<and> allocated as' = min q T \<and>
    list_all2 grown as as' \<and> (q < T \<longrightarrow> fifo_percent c = 0 \<longrightarrow>
      list_all2 (\<lambda>a a'. share c q T (al_size a) \<le> al_qty a') as as')"
proof (cases "q \<ge> T")
  case True
  have "list_all al_ok (map (\<lambda>a. a\<lparr>al_qty := al_size a\<rparr>) as) \<and> allocated (map (\<lambda>a. a\<lparr>al_qty := al_size a\<rparr>) as) = room as \<and>
      list_all2 grown as (map (\<lambda>a. a\<lparr>al_qty := al_size a\<rparr>) as)"
    using start by (induction as) (auto simp: al_ok_def grown_def)
  then show ?thesis using True T by (simp add: split_level_def min_def)
next
  case False
  let ?f = "if fifo_percent c > 0 then floorLot c (share_of q (int (fifo_percent c)) 100) else 0"
  let ?as1 = "if fifo_percent c > 0 then fifo_slice ?f as else as"
  have v: "0 < lot_size c" "fifo_percent c \<le> 100" using val by (simp_all add: validate_ok)
  have so: "share_of q (int (fifo_percent c)) 100 = q * int (fifo_percent c) div 100"
    using False bnd q v(2) by (intro share_of_eq) auto
  have sb: "0 \<le> q * int (fifo_percent c) div 100" "q * int (fifo_percent c) div 100 \<le> q"
  proof -
    have "q * int (fifo_percent c) div 100 \<le> q * 100 div 100"
      using q v(2) by (intro zdiv_mono1 mult_left_mono) auto
    then show "q * int (fifo_percent c) div 100 \<le> q" by simp
    show "0 \<le> q * int (fifo_percent c) div 100" using q by (simp add: pos_imp_zdiv_nonneg_iff)
  qed
  have f: "0 \<le> ?f" "?f \<le> q" using floorLot_bounds [OF v(1) sb(1)] sb(2) q by (auto simp: so)
  have ok0: "list_all al_ok as" "allocated as = 0" using start by (induction as) (auto simp: al_ok_def)
  have a1: "list_all al_ok ?as1" "allocated ?as1 = ?f" "room ?as1 = T - ?f" "list_all2 grown as ?as1"
    using fifo_slice_ok [OF start f(1)] f(2) False T ok0 by (auto simp: grown_refl)
  let ?l = "q - ?f"
  obtain as2 l2 where p2: "(if ?l > 0 then pro_rata_shares c ?l (T - (q - ?l)) ?l ?as1 else (?as1, ?l)) = (as2, l2)"
    by fastforce
  have base: "T - (q - ?l) = T - ?f" "0 < T - ?f" "?l \<le> T - ?f" "T - ?f < 2 ^ 63" using False f bnd by auto
  have a2: "list_all al_ok as2" "allocated as2 = q - l2" "room as2 = T - q + l2" "0 \<le> l2" "list_all2 grown ?as1 as2"
    and sh: "fifo_percent c = 0 \<Longrightarrow> list_all2 (\<lambda>a a'. al_qty a' = al_qty a + share c q T (al_size a - al_qty a)) as as2"
  proof -
    have "list_all al_ok as2 \<and> allocated as2 = q - l2 \<and> room as2 = T - q + l2 \<and> 0 \<le> l2 \<and> list_all2 grown ?as1 as2 \<and>
      (fifo_percent c = 0 \<longrightarrow> list_all2 (\<lambda>a a'. al_qty a' = al_qty a + share c q T (al_size a - al_qty a)) as as2)"
    proof (cases "?l > 0")
      case True
      have r: "pro_rata_shares c ?l (T - ?f) ?l ?as1 = (as2, l2)" using p2 True base(1) by simp
      note ok = pro_rata_shares_ok [OF val _ base(3,2,4) a1(1) _ r]
      have "(T - ?f) * (?l - l2) \<le> ?l * (T - ?f)" using ok True a1(3) by simp
      then have "?l - l2 \<le> ?l" using base(2) by (simp add: mult.commute [of ?l])
      then show ?thesis using ok True a1 by auto
    next
      case F: False
      then show ?thesis using p2 a1 f q by (auto simp: grown_refl split: if_splits)
    qed
    then show "list_all al_ok as2" "allocated as2 = q - l2" "room as2 = T - q + l2" "0 \<le> l2" "list_all2 grown ?as1 as2"
      "fifo_percent c = 0 \<Longrightarrow> list_all2 (\<lambda>a a'. al_qty a' = al_qty a + share c q T (al_size a - al_qty a)) as as2"
      by blast+
  qed
  obtain as3 where r3: "fifo_rest l2 as2 = (as3, 0)" "list_all al_ok as3" "allocated as3 = allocated as2 + l2"
    "list_all2 grown as2 as3"
    using fifo_rest_ok [OF a2(1,4)] a2(3) False by auto
  have "split_level c q T as = (as3, 0)"
    using False p2 r3(1) by (simp only: split_level_def Let_def if_False prod.case)
  moreover have "list_all2 grown as as3" using grown_trans a1(4) a2(5) r3(4) by blast
  moreover have "list_all2 (\<lambda>a a'. share c q T (al_size a) \<le> al_qty a') as as3" if "fifo_percent c = 0"
    using sh [OF that] r3(4) start
    by (fastforce simp: list_all2_conv_all_nth list_all_length grown_def)
  ultimately show ?thesis using r3(2,3) a2(2) False by auto
qed

text \<open>
  C12. The pro-rata split of a level is exact. With a validated configuration, on a level of
  positive orders whose total fits 64 bits, \<open>allocate\<close> gives every order of the level, in queue
  order, between nothing and its size; the allocations add up to exactly the smaller of the
  incoming quantity and the level's total, so the final assertion never fails; and without a FIFO
  share no order gets less than its proportional share rounded down to lots, unless that is under
  the minimum allocation.
\<close>

theorem pro_rata_allocation_exact:
  assumes "validate c = Inr ()" and "list_all (\<lambda>od. 0 < lo_qty od) (lv_orders level)" and "0 < qty"
    and "T = (\<Sum>bo\<leftarrow>lv_orders level. lo_qty bo)" and "T < 2 ^ 63"
  shows "\<exists>as. allocate c level qty b resolve = (as, 0) \<and>
    map al_order_id as = map lo_id (lv_orders level) \<and> map al_size as = map lo_qty (lv_orders level) \<and>
    list_all (\<lambda>a. 0 \<le> al_qty a \<and> al_qty a \<le> al_size a) as \<and> (\<Sum>a\<leftarrow>as. al_qty a) = min qty T \<and>
    (qty < T \<longrightarrow> fifo_percent c = 0 \<longrightarrow>
      list_all (\<lambda>a. let s = floorLot c (qty * al_size a div T) in s \<ge> min_allocation c \<longrightarrow> s \<le> al_qty a) as)"
proof -
  let ?as = "level_allocations level b resolve"
  note st = allocations_start [OF assms(2), of b resolve]
  have T: "T = room ?as" using st assms(4) by simp
  obtain as where as: "split_level c qty T ?as = (as, 0)" "list_all al_ok as" "allocated as = min qty T"
    "list_all2 grown ?as as"
    and sh: "qty < T \<Longrightarrow> fifo_percent c = 0 \<Longrightarrow> list_all2 (\<lambda>a a'. share c qty T (al_size a) \<le> al_qty a') ?as as"
    using split_level_ok [OF assms(1) _ T assms(5,3)] st by auto
  have len: "length as = length (lv_orders level)" using as(4) by (auto dest: list_all2_lengthD simp: level_allocations_def)
  have nth: "al_order_id (as ! i) = lo_id (lv_orders level ! i)" "al_size (as ! i) = lo_qty (lv_orders level ! i)"
    if "i < length as" for i
    using list_all2_nthD2 [OF as(4) that] that len by (auto simp: grown_def level_allocations_def)
  have "map al_order_id as = map lo_id (lv_orders level)" "map al_size as = map lo_qty (lv_orders level)"
    using nth len by (auto intro!: nth_equalityI)
  moreover have "(let s = floorLot c (qty * al_size a div T) in s \<ge> min_allocation c \<longrightarrow> s \<le> al_qty a)"
    if "qty < T" "fifo_percent c = 0" "a \<in> set as" for a
  proof -
    note pre = that
    obtain i where i: "i < length as" "a = as ! i" using pre(3) by (auto simp: in_set_conv_nth)
    have "share c qty T (al_size a) \<le> al_qty a"
      using list_all2_nthD2 [OF sh [OF pre(1,2)] i(1)] list_all2_nthD2 [OF as(4) i(1)] i(2)
      by (simp add: grown_def)
    then show ?thesis by (auto simp: share_def Let_def)
  qed
  ultimately show ?thesis
    using as(1-3) assms(4) by (auto simp: allocate_def al_ok_def allocated_def list_all_iff)
qed

definition ex_level :: l3_level where
  "ex_level = \<lparr>lv_price = 100, lv_orders = [\<lparr>lo_id = 1, lo_qty = 30, lo_prio = 1\<rparr>, \<lparr>lo_id = 2, lo_qty = 70, lo_prio = 2\<rparr>],
     lv_total = 100\<rparr>"

definition ex_rules :: ProRataConfig where
  "ex_rules = \<lparr>lot_size = 10, min_allocation = 0, fifo_percent = 0\<rparr>"

theorem pro_rata_allocation_exact_witness:
  "validate ex_rules = Inr () \<and>
   (\<exists>as. allocate ex_rules ex_level 50 (new_book (0 :: nat) ''BTC'' UNKNOWN_VENUE) False = (as, 0) \<and>
      (\<Sum>a\<leftarrow>as. al_qty a) = 50 \<and> map al_order_id as = [1, 2])"
proof -
  have v: "validate ex_rules = Inr ()" by (simp add: validate_def ex_rules_def)
  have l: "list_all (\<lambda>od. 0 < lo_qty od) (lv_orders ex_level)" "map lo_id (lv_orders ex_level) = [1, 2]"
    "100 = (\<Sum>bo\<leftarrow>lv_orders ex_level. lo_qty bo)"
    by (simp_all add: ex_level_def)
  have "min (50 :: int) 100 = 50" by simp
  then show ?thesis
    using v l(2) pro_rata_allocation_exact [OF v l(1) _ l(3), of 50 "new_book (0 :: nat) ''BTC'' UNKNOWN_VENUE" False]
    by auto
qed

text \<open>
  A matching configuration never falls back silently. Whatever the conversion of numbers
  does, a configuration that reads without an error has validated pro-rata rules, and it selects
  FIFO only when the algorithm is absent or spelled \<open>fifo\<close>, pro-rata only when it is spelled
  \<open>pro_rata\<close>.
\<close>

theorem from_json_validated:
  assumes "from_json to_qty config = Inr mc"
  shows "validate (mc_pro_rata mc) = Inr () \<and>
    (mc_type mc = FIFO \<longleftrightarrow> config ''matching_algorithm'' \<in> {None, Some (JString ''fifo'')}) \<and>
    (mc_type mc = ProRata \<longleftrightarrow> config ''matching_algorithm'' = Some (JString ''pro_rata''))"
proof -
  have "validate default_pro_rata = Inr ()"
    by (simp add: validate_def default_pro_rata_def DOUBLE_MULTIPLIER_def)
  then show ?thesis
    using assms
    by (auto simp: from_json_def Let_def split: option.splits json_value.splits if_splits sum.splits)
qed

theorem from_json_validated_witness:
  "let config = [''matching_algorithm'' \<mapsto> JString ''pro_rata'',
                 ''pro_rata'' \<mapsto> JObject [''fifo_percent'' \<mapsto> JInt 40]]
   in map_sum id mc_type (from_json (\<lambda>_. None) config) = Inr ProRata \<and>
      from_json (\<lambda>_. None) (config(''matching_algorithm'' \<mapsto> JString ''lifo'')) = Inl (UnknownAlgorithm ''lifo'')"
  using from_json_validated [of "\<lambda>_. None" "[''matching_algorithm'' \<mapsto> JString ''pro_rata'',
     ''pro_rata'' \<mapsto> JObject [''fifo_percent'' \<mapsto> JInt 40]]"]
  by (auto simp: from_json_def Let_def read_qty_def read_percent_def wrap64_def validate_def DOUBLE_MULTIPLIER_def)

end
