(* ===== verification/Pro_Rata_Engine.thy ===== *)
theory Pro_Rata_Engine
  imports Match_Outcome Pro_Rata_Alloc
begin

text \<open>
  The matching loops of \<open>src/src/matching_engine/pro_rata_matching_engine.cpp\<close>. As in the FIFO
  engine, \<open>None\<close> is a loop that does not return or an assertion that fails; that neither happens
  is proved, with the outcome of the abstract level-by-level sweep \<open>pr_sweep\<close>.
\<close>

section \<open>The loops\<close>

text \<open>Cancel every own order of the level; the first flag is false when matching has to stop.\<close>

fun pr_cancel_own ::
    "'l l3_ops \<Rightarrow> ptr \<Rightarrow> time_ns \<Rightarrow> MatchContext \<Rightarrow> SelfMatchPreventionMode \<Rightarrow> Allocation list \<Rightarrow> bool \<Rightarrow>
     ('l, 'z) engine \<Rightarrow> bool \<times> bool \<times> ('l, 'z) engine" where
  "pr_cancel_own L p request_time ctx smp [] any st = (True, any, st)"
| "pr_cancel_own L p request_time ctx smp (a # as) any st =
     (if \<not> isSelfMatch (ob_buffer st p) (map_option (ob_buffer st) (al_order a)) then
        pr_cancel_own L p request_time ctx smp as any st
      else
        (case handleSelfMatch L (the (al_order a)) request_time (mc_event_time ctx) (mc_seq_num ctx) smp st of
           (continue, st') \<Rightarrow>
             if \<not> continue then (False, any, st')
             else pr_cancel_own L p request_time ctx smp as True st'))"

fun pr_fill_order ::
    "'l l3_ops \<Rightarrow> Side \<Rightarrow> ptr \<Rightarrow> price_t \<Rightarrow> bool \<Rightarrow> Allocation list \<Rightarrow> qty_t \<Rightarrow> MatchContext \<Rightarrow>
     ('l, 'z) engine \<Rightarrow> bool \<times> qty_t \<times> MatchContext \<times> ('l, 'z) engine" where
  "pr_fill_order L s p level_price check [] order_qty ctx st = (True, order_qty, ctx, st)"
| "pr_fill_order L s p level_price check (a # as) order_qty ctx st =
     (if al_qty a = 0 then pr_fill_order L s p level_price check as order_qty ctx st
      else
        (let order_qty' = order_qty - al_qty a;
             owner = (if check then al_order a else findOrder (al_order_id a) st)
         in case fillResting L s p (al_order_id a) owner level_price (al_qty a) order_qty' ctx st of
              (ok, ctx', st') \<Rightarrow>
                if \<not> ok then (False, order_qty', ctx', st')
                else pr_fill_order L s p level_price check as order_qty' ctx' st'))"

fun pr_fill_feed ::
    "'l l3_ops \<Rightarrow> Side \<Rightarrow> order_num \<Rightarrow> price_t \<Rightarrow> Allocation list \<Rightarrow> qty_t \<Rightarrow> MatchContext \<Rightarrow>
     ('l, 'z) engine \<Rightarrow> bool \<times> qty_t \<times> MatchContext \<times> ('l, 'z) engine" where
  "pr_fill_feed L s agg_id level_price [] qty ctx st = (True, qty, ctx, st)"
| "pr_fill_feed L s agg_id level_price (a # as) qty ctx st =
     (if al_qty a = 0 then pr_fill_feed L s agg_id level_price as qty ctx st
      else
        (case fillRestingFromFeed L s agg_id (al_order_id a) level_price (al_qty a) qty ctx st of
           (ok, qty', ctx', st') \<Rightarrow>
             if \<not> ok then (False, qty', ctx', st')
             else pr_fill_feed L s agg_id level_price as qty' ctx' st'))"

partial_function (option) pr_order_loop ::
    "ProRataConfig \<Rightarrow> 'l l3_ops \<Rightarrow> Side \<Rightarrow> ptr \<Rightarrow> price_t \<Rightarrow> time_ns \<Rightarrow> SelfMatchPreventionMode \<Rightarrow> qty_t \<Rightarrow>
     MatchContext \<Rightarrow> ('l, 'z) engine \<Rightarrow> (bool \<times> qty_t \<times> MatchContext \<times> ('l, 'z) engine) option" where
  "pr_order_loop c L s p order_price request_time smp order_qty ctx st =
     (if order_qty \<le> 0 then Some (True, order_qty, ctx, st)
      else case l3_best L (ob_l3 st) s of
        None \<Rightarrow> Some (True, order_qty, ctx, st)
      | Some best_level \<Rightarrow>
          if \<not> crosses s order_price (lv_price best_level) then Some (True, order_qty, ctx, st)
          else if lv_orders best_level = [] then None
          else
            (case allocate c best_level order_qty st (smp \<noteq> SMP_NONE) of
               (as, left) \<Rightarrow>
                 if left \<noteq> 0 then None
                 else
                   (case (if smp \<noteq> SMP_NONE then pr_cancel_own L p request_time ctx smp as False st
                          else (True, False, st)) of
                      (go, any, st1) \<Rightarrow>
                        if \<not> go then Some (False, order_qty, ctx, st1)
                        else if any then pr_order_loop c L s p order_price request_time smp order_qty ctx st1
                        else
                          (case pr_fill_order L s p (lv_price best_level) (smp \<noteq> SMP_NONE) as order_qty ctx st1 of
                             (ok, order_qty', ctx', st2) \<Rightarrow>
                               if \<not> ok then Some (True, order_qty', ctx', st2)
                               else pr_order_loop c L s p order_price request_time smp order_qty' ctx' st2))))"

partial_function (option) pr_feed_loop ::
    "ProRataConfig \<Rightarrow> 'l l3_ops \<Rightarrow> Side \<Rightarrow> order_num \<Rightarrow> price_t \<Rightarrow> qty_t \<Rightarrow> MatchContext \<Rightarrow> ('l, 'z) engine \<Rightarrow>
     (qty_t \<times> MatchContext \<times> ('l, 'z) engine) option" where
  "pr_feed_loop c L s agg_id px qty ctx st =
     (if qty \<le> 0 then Some (qty, ctx, st)
      else case l3_best L (ob_l3 st) s of
        None \<Rightarrow> Some (qty, ctx, st)
      | Some best_level \<Rightarrow>
          if \<not> crosses s px (lv_price best_level) then Some (qty, ctx, st)
          else if lv_orders best_level = [] then None
          else
            (case allocate c best_level qty st False of
               (as, left) \<Rightarrow>
                 if left \<noteq> 0 then None
                 else
                   (case pr_fill_feed L s agg_id (lv_price best_level) as qty ctx st of
                      (ok, qty', ctx', st') \<Rightarrow>
                        if \<not> ok then Some (qty', ctx', st')
                        else pr_feed_loop c L s agg_id px qty' ctx' st')))"

definition pr_matchOrder ::
    "ProRataConfig \<Rightarrow> 'l l3_ops \<Rightarrow> Side \<Rightarrow> ptr \<Rightarrow> price_t \<Rightarrow> qty_t \<Rightarrow> time_ns \<Rightarrow> time_ns \<Rightarrow> seq_t \<Rightarrow>
     SelfMatchPreventionMode \<Rightarrow> ('l, 'z) engine \<Rightarrow>
     (OrdRejectReason \<times> TradeSummaryInfo list \<times> ('l, 'z) engine) option" where
  "pr_matchOrder c L s p order_price order_qty request_time event_time seq smp st =
     (case prepareOrder L Level s p order_price order_qty request_time smp st of
        (Some finished, st1) \<Rightarrow> Some (finished, [], st1)
      | (None, st1) \<Rightarrow>
          (case pr_order_loop c L s p order_price request_time smp (leaves_quantity (ob_buffer st1 p))
                  (new_context event_time seq) st1 of
             None \<Rightarrow> None
           | Some (go, order_qty', ctx, st2) \<Rightarrow>
               if \<not> go then Some (RJ_SMP, mc_summaries ctx, st2)
               else Some (RJ_NONE, mc_summaries ctx, cancelUnrestableRemainder p order_qty' request_time st2)))"

definition pr_matchFeed ::
    "ProRataConfig \<Rightarrow> 'l l3_ops \<Rightarrow> Side \<Rightarrow> order_num \<Rightarrow> price_t \<Rightarrow> qty_t \<Rightarrow> time_ns \<Rightarrow> seq_t \<Rightarrow> ('l, 'z) engine \<Rightarrow>
     (TradeSummaryInfo list \<times> qty_t \<times> ('l, 'z) engine) option" where
  "pr_matchFeed c L s agg_id px qty event_time seq st =
     (case pr_feed_loop c L s agg_id px qty (new_context event_time seq) st of
        None \<Rightarrow> None
      | Some (qty', ctx, st') \<Rightarrow> Some (mc_summaries ctx, qty', st'))"

definition pr_match_order ::
    "ProRataConfig \<Rightarrow> 'l l3_ops \<Rightarrow> ptr \<Rightarrow> price_t \<Rightarrow> qty_t \<Rightarrow> time_ns \<Rightarrow> time_ns \<Rightarrow> seq_t \<Rightarrow>
     SelfMatchPreventionMode \<Rightarrow> ('l, 'z) engine \<Rightarrow>
     (OrdRejectReason \<times> TradeSummaryInfo list \<times> ('l, 'z) engine) option" where
  "pr_match_order c L p order_price order_qty request_time event_time seq smp st =
     pr_matchOrder c L (if side (ob_buffer st p) = BUY then SELL else BUY) p order_price order_qty
       request_time event_time seq smp st"

definition pr_match_feed ::
    "ProRataConfig \<Rightarrow> 'l l3_ops \<Rightarrow> Side \<Rightarrow> order_num \<Rightarrow> price_t \<Rightarrow> qty_t \<Rightarrow> time_ns \<Rightarrow> seq_t \<Rightarrow> ('l, 'z) engine \<Rightarrow>
     (TradeSummaryInfo list \<times> qty_t \<times> ('l, 'z) engine) option" where
  "pr_match_feed c L aggressor_side agg_id px qty event_time seq st =
     pr_matchFeed c L (if aggressor_side = BUY then SELL else BUY) agg_id px qty event_time seq st"

section \<open>The abstract sweep\<close>

definition entry_alloc :: "entry \<Rightarrow> Allocation" where
  "entry_alloc e = \<lparr>al_order_id = en_id e, al_size = en_qty e, al_qty = 0, al_order = None\<rparr>"

definition level_qty :: "entry list \<Rightarrow> qty_t" where
  "level_qty es = (\<Sum>e\<leftarrow>es. en_qty e)"

definition level_split :: "ProRataConfig \<Rightarrow> qty_t \<Rightarrow> entry list \<Rightarrow> qty_t list" where
  "level_split c q es = map al_qty (fst (split_level c q (level_qty es) (map entry_alloc es)))"

definition split_fills :: "entry list \<Rightarrow> qty_t list \<Rightarrow> (entry \<times> qty_t) list" where
  "split_fills es xs = filter (\<lambda>f. snd f \<noteq> 0) (zip es xs)"

definition split_left :: "entry list \<Rightarrow> qty_t list \<Rightarrow> entry list" where
  "split_left es xs = concat (map (\<lambda>(e, x). if x = 0 then [e] else if x = en_qty e then [] else [e\<lparr>en_qty := en_qty e - x\<rparr>]) (zip es xs))"

text \<open>
  Level by level while quantity is left and the price is acceptable: own orders of a reached
  level are cancelled, the others share the quantity by the split.
\<close>

function pr_sweep :: "ProRataConfig \<Rightarrow> (price_t \<Rightarrow> bool) \<Rightarrow> (order_num \<Rightarrow> bool) \<Rightarrow> qty_t \<Rightarrow> entry list \<Rightarrow>
    (entry \<times> qty_t) list \<times> entry list \<times> entry list \<times> qty_t" where
  "pr_sweep c acc own q [] = ([], [], [], q)"
| "pr_sweep c acc own q (e # es) =
     (if q \<le> 0 \<or> \<not> acc (en_price e) then ([], [], e # es, q)
      else
        (let lv = takeWhile (\<lambda>x. en_price x = en_price e) (e # es);
             rest = dropWhile (\<lambda>x. en_price x = en_price e) (e # es);
             others = filter (\<lambda>x. \<not> own (en_id x)) lv;
             xs = level_split c q others;
             (fs, cs, es', q') = pr_sweep c acc own (q - min q (level_qty others)) rest
         in (split_fills others xs @ fs, filter (\<lambda>x. own (en_id x)) lv @ cs, split_left others xs @ es', q')))"
  by pat_completeness auto
termination
  by (relation "measure (\<lambda>(c, acc, own, q, es). length es)") (auto simp: less_Suc_eq_le length_dropWhile_le)

section \<open>The split of a level\<close>

definition strip :: "Allocation \<Rightarrow> Allocation" where
  "strip a = a\<lparr>al_order := None\<rparr>"

lemma strip_sel [simp]: "al_qty (strip a) = al_qty a" "al_size (strip a) = al_size a" "al_order_id (strip a) = al_order_id a"
  by (simp_all add: strip_def)

lemma strip_upd: "strip (a\<lparr>al_qty := x\<rparr>) = (strip a)\<lparr>al_qty := x\<rparr>"
  by (simp add: strip_def)

lemma fifo_slice_strip: "fifo_slice f (map strip as) = map strip (fifo_slice f as)"
  by (induction as arbitrary: f) (auto simp: Let_def strip_upd)

lemma pro_rata_shares_strip:
  "pro_rata_shares c pr base l (map strip as) = map_prod (map strip) id (pro_rata_shares c pr base l as)"
  by (induction as arbitrary: l) (auto simp: Let_def strip_upd split: prod.splits)

lemma fifo_rest_strip: "fifo_rest l (map strip as) = map_prod (map strip) id (fifo_rest l as)"
  by (induction as arbitrary: l) (auto simp: Let_def strip_upd split: prod.splits)

lemma split_level_strip: "split_level c q T (map strip as) = map_prod (map strip) id (split_level c q T as)"
  by (auto simp: split_level_def Let_def fifo_slice_strip pro_rata_shares_strip fifo_rest_strip strip_upd
      split: prod.splits)

text \<open>A list of positive orders whose total fits 64 bits.\<close>

definition fits :: "entry list \<Rightarrow> bool" where
  "fits es \<longleftrightarrow> (\<forall>e\<in>set es. 0 < en_qty e) \<and> level_qty es < 2 ^ 63"

lemma level_qty_simps [simp]:
  "level_qty [] = 0" "level_qty (e # es) = en_qty e + level_qty es" "level_qty (xs @ ys) = level_qty xs + level_qty ys"
  by (simp_all add: level_qty_def)

lemma level_qty_nonneg: "\<forall>e\<in>set es. 0 < en_qty e \<Longrightarrow> 0 \<le> level_qty es"
  by (induction es) auto

lemma fits_append: "fits (xs @ ys) \<Longrightarrow> fits xs \<and> fits ys"
  using level_qty_nonneg [of xs] level_qty_nonneg [of ys] by (auto simp: fits_def)

lemma level_qty_filter: "\<forall>e\<in>set es. 0 < en_qty e \<Longrightarrow> level_qty (filter P es) \<le> level_qty es"
  by (induction es) auto

lemma fits_filter: "fits es \<Longrightarrow> fits (filter P es)"
  using level_qty_filter [of es P] by (auto simp: fits_def)

lemma level_split_ok:
  assumes "validate c = Inr ()" and "fits es" and "0 < q"
  shows "list_all2 (\<lambda>e x. 0 \<le> x \<and> x \<le> en_qty e) es (level_split c q es)"
    and "sum_list (level_split c q es) = min q (level_qty es)"
proof -
  have st: "list_all (\<lambda>a. 0 < al_size a \<and> al_qty a = 0) (map entry_alloc es)"
    using assms(2) by (simp add: fits_def entry_alloc_def list_all_iff)
  have T: "level_qty es = room (map entry_alloc es)"
    by (simp add: room_def level_qty_def entry_alloc_def comp_def)
  obtain as where as: "split_level c q (level_qty es) (map entry_alloc es) = (as, 0)" "list_all al_ok as"
    "allocated as = min q (level_qty es)" "list_all2 grown (map entry_alloc es) as"
    using split_level_ok [OF assms(1) st T _ assms(3)] assms(2) by (auto simp: fits_def)
  show "sum_list (level_split c q es) = min q (level_qty es)"
    using as by (simp add: level_split_def allocated_def)
  show "list_all2 (\<lambda>e x. 0 \<le> x \<and> x \<le> en_qty e) es (level_split c q es)"
    using as by (simp add: level_split_def list_all2_conv_all_nth list_all_length al_ok_def grown_def entry_alloc_def)
qed

text \<open>The allocations of a level, entry by entry.\<close>

definition alloc_for :: "(order_num \<rightharpoonup> ptr) \<Rightarrow> bool \<Rightarrow> Allocation \<Rightarrow> entry \<times> qty_t \<Rightarrow> bool" where
  "alloc_for m check a f \<longleftrightarrow> al_order_id a = en_id (fst f) \<and> al_qty a = snd f \<and> (check \<longrightarrow> al_order a = m (en_id (fst f)))"

lemma allocate_level:
  assumes c: "validate c = Inr ()" and lv: "lv = map (entry_of px) (lv_orders l)" and "fits lv" and q: "0 < q"
  obtains as where "allocate c l q b check = (as, 0)"
    "list_all2 (alloc_for (ob_orders b) check) as (zip lv (level_split c q lv))"
proof -
  let ?as = "level_allocations l b check"
  have pos: "list_all (\<lambda>od. 0 < lo_qty od) (lv_orders l)" using assms(3) by (auto simp: fits_def lv list_all_iff)
  note st = allocations_start [OF pos, of b check]
  have T: "(\<Sum>bo\<leftarrow>lv_orders l. lo_qty bo) = level_qty lv" by (simp add: level_qty_def lv comp_def)
  have Tr: "level_qty lv = room ?as" using st T by simp
  obtain as where as: "split_level c q (level_qty lv) ?as = (as, 0)" "list_all2 grown ?as as"
    using split_level_ok [OF c _ Tr _ q] st assms(3) by (auto simp: fits_def)
  have "map strip ?as = map entry_alloc lv"
    by (simp add: level_allocations_def lv entry_alloc_def strip_def)
  then have "map strip as = fst (split_level c q (level_qty lv) (map entry_alloc lv))"
    using split_level_strip [of c q "level_qty lv" ?as] as(1) by simp
  then have xs: "level_split c q lv = map al_qty as" by (simp add: level_split_def comp_def flip: \<open>map strip as = _\<close>)
  have "list_all2 (alloc_for (ob_orders b) check) as (zip lv (map al_qty as))"
    using as(2) by (auto simp: list_all2_conv_all_nth alloc_for_def grown_def level_allocations_def lv findOrder_def)
  then show thesis using that [of as] as(1) T xs by (simp add: allocate_def)
qed

section \<open>Filling a level\<close>

fun apply_fills :: "(entry \<times> qty_t) list \<Rightarrow> entry list \<Rightarrow> entry list" where
  "apply_fills [] es = es"
| "apply_fills ((e, x) # fs) es = apply_fills fs (if x = 0 then es else resize_entry (en_id e) (en_qty e - x) es)"

lemma apply_fills_ids: "en_id ` set (apply_fills fs es) \<subseteq> en_id ` set es"
proof (induction fs es rule: apply_fills.induct)
  case (2 e x fs es)
  then show ?case using ids_resize [of "en_id e" "en_qty e - x" es] by (auto split: if_splits)
qed simp

lemma apply_fills_skip: "en_id e \<notin> (\<lambda>f. en_id (fst f)) ` set fs \<Longrightarrow> apply_fills fs (e # es) = e # apply_fills fs es"
  by (induction fs es rule: apply_fills.induct) auto

lemma apply_fills_level:
  assumes "distinct (map en_id (lv @ rest))" and "list_all2 (\<lambda>e x. 0 \<le> x \<and> x \<le> en_qty e) lv xs"
  shows "apply_fills (zip lv xs) (lv @ rest) = split_left lv xs @ rest"
  using assms(2,1)
proof (induction rule: list_all2_induct)
  case (Cons e lv x xs)
  have out: "en_id e' \<notin> (\<lambda>f. en_id (fst f)) ` set (zip lv xs)" if "en_id e' = en_id e" for e'
    using Cons.prems that by (auto dest!: set_zip_leftD simp: image_iff)
  have ab: "resize_entry (en_id e) y (lv @ rest) = lv @ rest" for y
    using Cons.prems by (intro resize_entry_absent) auto
  show ?case
    using Cons ab out [of e] out [of "e\<lparr>en_qty := en_qty e - x\<rparr>"]
    by (auto simp: split_left_def apply_fills_skip)
qed (simp add: split_left_def)

lemma split_fills_Cons: "split_fills (e # es) (x # xs) = (if x = 0 then [] else [(e, x)]) @ split_fills es xs"
  by (simp add: split_fills_def)

lemma split_left_all: "split_left es (map en_qty es) = filter (\<lambda>e. en_qty e = 0) es"
  by (induction es) (auto simp: split_left_def)

lemma split_all:
  assumes "list_all2 (\<lambda>e x. 0 \<le> x \<and> x \<le> en_qty e) es xs" and "sum_list xs = level_qty es"
  shows "xs = map en_qty es"
  using assms
proof (induction rule: list_all2_induct)
  case (Cons e es x xs)
  have "sum_list xs \<le> level_qty es" using Cons.hyps(2) by (induction rule: list_all2_induct) auto
  then show ?case using Cons by auto
qed simp

text \<open>What a fill of one entry leaves for the others.\<close>

lemma kept_after_fill:
  assumes "fill_effect L A s e x t seq st st1" and "en_id e' \<noteq> en_id e"
  shows "e' \<in> set (queue L st s) \<Longrightarrow> e' \<in> set (queue L st1 s)" and "ob_orders st1 (en_id e') = ob_orders st (en_id e')"
  using assms set_resize_entry_other [of e' "en_id e"] by (auto simp: fill_effect_def)

lemma hittable_after_fill:
  assumes "fill_effect L A s e x t seq st st1" and "hittable L A s st"
  shows "hittable L A s st1"
proof -
  have "en_price e' \<noteq> NULL_PRICE \<and> (A \<noteq> None \<longrightarrow> ob_orders st1 (en_id e') \<noteq> A)" if "e' \<in> set (queue L st1 s)" for e'
  proof -
    have "e' \<in> set (resize_entry (en_id e) (en_qty e - x) (queue L st s))"
      using that assms(1) by (simp add: fill_effect_def)
    then obtain e0 where "e0 \<in> set (queue L st s)" "en_id e0 = en_id e'" "en_price e0 = en_price e'"
      by (auto simp: resize_entry_def set_remove_entry split: if_splits)
    then show ?thesis using assms by (fastforce simp: fill_effect_def hittable_def split: if_splits)
  qed
  then show ?thesis by (simp add: hittable_def)
qed

lemma alloc_for_cong: "m (en_id (fst f)) = m' (en_id (fst f)) \<Longrightarrow> alloc_for m check a f = alloc_for m' check a f"
  by (simp add: alloc_for_def)

lemma allocs_after:
  assumes "list_all2 (alloc_for m check) as fs" and "\<And>f. f \<in> set fs \<Longrightarrow> m' (en_id (fst f)) = m (en_id (fst f))"
  shows "list_all2 (alloc_for m' check) as fs"
  using assms by (auto simp: list_all2_conv_all_nth alloc_for_def)

definition fillable :: "'l l3_ops \<Rightarrow> Side \<Rightarrow> price_t \<Rightarrow> ('l, 'z) book \<Rightarrow> (entry \<times> qty_t) list \<Rightarrow> bool" where
  "fillable L s px b fs \<longleftrightarrow> distinct (map (\<lambda>f. en_id (fst f)) fs) \<and>
     (\<forall>f\<in>set fs. fst f \<in> set (queue L b s) \<and> 0 \<le> snd f \<and> snd f \<le> en_qty (fst f) \<and> en_price (fst f) = px)"

lemma fillable_step:
  assumes "fillable L s px st ((e, x) # fs)" and "fill_effect L A s e y t seq st st1"
  shows "fillable L s px st1 fs" and "\<And>f. f \<in> set fs \<Longrightarrow> ob_orders st1 (en_id (fst f)) = ob_orders st (en_id (fst f))"
proof -
  have ne: "en_id (fst f) \<noteq> en_id e" if "f \<in> set fs" for f
    using assms(1) that unfolding fillable_def by (fastforce simp: image_iff)
  show "fillable L s px st1 fs"
    using assms(1) ne kept_after_fill(1) [OF assms(2)] by (auto simp: fillable_def)
  show "\<And>f. f \<in> set fs \<Longrightarrow> ob_orders st1 (en_id (fst f)) = ob_orders st (en_id (fst f))"
    using ne kept_after_fill(2) [OF assms(2)] by blast
qed

text \<open>A fill, then a run over the remaining entries.\<close>

lemma swept_fill_run:
  assumes "fill_effect L A s e x (mc_event_time ctx) (mc_seq_num ctx) st st1"
    and "booked s aid e x (ob_orders st (en_id e) \<noteq> None) ctx ctx1" and "ctx_fresh L s aid ctx st" and "obinv L I P st"
    and "fillable L s px st ((e, x) # fs)"
    and "swept L A s aid (filter (\<lambda>f. snd f \<noteq> 0) fs) (apply_fills fs (queue L st1 s)) ctx1 st1 ctx2 st2"
  shows "swept L A s aid ((e, x) # filter (\<lambda>f. snd f \<noteq> 0) fs)
    (apply_fills fs (resize_entry (en_id e) (en_qty e - x) (queue L st s))) ctx st ctx2 st2"
proof -
  have e: "e \<in> set (queue L st s)" "x \<le> en_qty e" using assms(5) by (auto simp: fillable_def)
  note one = swept_one [OF assms(1-4) e]
  have q1: "queue L st1 s = resize_entry (en_id e) (en_qty e - x) (queue L st s)" using one by (simp add: swept_def)
  have "\<forall>(y, z)\<in>set (filter (\<lambda>f. snd f \<noteq> 0) fs). en_id y \<in> en_id ` set (queue L st1 s)"
    using fillable_step(1) [OF assms(5,1)] by (auto simp: fillable_def)
  then show ?thesis
    using swept_trans [OF one assms(6) [unfolded q1] ids_resize apply_fills_ids] by (simp add: q1)
qed

context l3_book
begin

lemma pr_fill_feed_ok:
  fixes st :: "('l, 'z) engine"
  assumes "list_all2 (alloc_for m False) as fs" and "fillable L s px st fs" and "obinv L binv {} st" and "real_side s"
    and "hittable L None s st" and "ctx_fresh L s aid ctx st"
  shows "\<exists>ctx' st'. pr_fill_feed L s aid px as q ctx st = (True, q - filled_qty fs, ctx', st') \<and> obinv L binv {} st' \<and>
    swept L None s aid (filter (\<lambda>f. snd f \<noteq> 0) fs) (apply_fills fs (queue L st s)) ctx st ctx' st' \<and> hittable L None s st'"
  using assms
proof (induction as fs arbitrary: st ctx q rule: list_all2_induct)
  case Nil
  then show ?case using swept_refl [OF Nil.prems(5)] by simp
next
  case (Cons a as f fs)
  note s = Cons.prems(3) and inv = Cons.prems(2) and hit = Cons.prems(4) and fr = Cons.prems(5)
  obtain e x where f: "f = (e, x)" by (cases f)
  have a: "al_order_id a = en_id e" "al_qty a = x" using Cons.hyps(1) by (simp_all add: alloc_for_def f)
  have e: "e \<in> set (queue L st s)" "0 \<le> x" "x \<le> en_qty e" "en_price e = px"
    using Cons.prems(1) by (auto simp: fillable_def f)
  show ?case
  proof (cases "x = 0")
    case True
    have "fillable L s px st fs" using Cons.prems(1) by (simp add: fillable_def f)
    then show ?thesis using Cons.IH [OF _ inv s hit fr, of q] True a by (simp add: f)
  next
    case False
    have px0: "en_price e \<noteq> NULL_PRICE" using hit e(1) by (simp add: hittable_def)
    have x0: "0 < x" using False e(2) by simp
    have seq: "mc_seq_num ctx = 0 \<or> l3_last_seq L (ob_l3 st) \<le> mc_seq_num ctx" and cok: "ctx_ok s aid ctx"
      using fr by (auto simp: ctx_fresh_def)
    obtain ctx1 st1 where run: "fillRestingFromFeed L s aid (en_id e) (en_price e) x q ctx st = (True, q - x, ctx1, st1)"
      and inv1: "obinv L binv {} st1" and fe: "fill_effect L None s e x (mc_event_time ctx) (mc_seq_num ctx) st st1"
      and bk: "booked s aid e x (ob_orders st (en_id e) \<noteq> None) ctx ctx1"
      by (rule fillRestingFromFeed_ok [OF inv s e(1) x0 e(3) seq _ cok px0]) auto
    obtain ctx2 st2 where r: "pr_fill_feed L s aid px as (q - x) ctx1 st1 = (True, q - x - filled_qty fs, ctx2, st2)"
      "obinv L binv {} st2" "swept L None s aid (filter (\<lambda>f. snd f \<noteq> 0) fs) (apply_fills fs (queue L st1 s)) ctx1 st1 ctx2 st2"
      "hittable L None s st2"
      using Cons.IH [OF fillable_step(1) [OF Cons.prems(1) [unfolded f] fe] inv1 s hittable_after_fill [OF fe hit]
        fresh_after_fill [OF fe bk fr]] by blast
    show ?thesis
      using swept_fill_run [OF fe bk fr inv Cons.prems(1) [unfolded f] r(3)] r run False a e(4)
      by (auto simp: f)
  qed
qed

lemma pr_fill_order_ok:
  fixes st :: "('l, 'z) engine"
  assumes "list_all2 (alloc_for m check) as fs" and "\<And>f. f \<in> set fs \<Longrightarrow> m (en_id (fst f)) = ob_orders st (en_id (fst f))"
    and "fillable L s px st fs" and "obinv L binv {p} st" and "real_side s"
    and "hittable L (Some p) s st" and "ctx_fresh L s aid ctx st" and "aid = id_num (ob_buffer st p)"
  shows "\<exists>ctx' st'. pr_fill_order L s p px check as q ctx st = (True, q - filled_qty fs, ctx', st') \<and> obinv L binv {p} st' \<and>
    swept L (Some p) s aid (filter (\<lambda>f. snd f \<noteq> 0) fs) (apply_fills fs (queue L st s)) ctx st ctx' st' \<and>
    hittable L (Some p) s st' \<and> (\<forall>i. (\<forall>f\<in>set fs. en_id (fst f) \<noteq> i) \<longrightarrow> own_order smp p st' i = own_order smp p st i)"
  using assms
proof (induction as fs arbitrary: st ctx q rule: list_all2_induct)
  case Nil
  then show ?case using swept_refl [OF Nil.prems(6)] by simp
next
  case (Cons a as f fs)
  note s = Cons.prems(4) and inv = Cons.prems(3) and hit = Cons.prems(5) and fr = Cons.prems(6)
  obtain e x where f: "f = (e, x)" by (cases f)
  have own: "m (en_id e) = ob_orders st (en_id e)" using Cons.prems(1) [of f] by (simp add: f)
  have a: "al_order_id a = en_id e" "al_qty a = x" "check \<Longrightarrow> al_order a = ob_orders st (en_id e)"
    using Cons.hyps(1) own by (simp_all add: alloc_for_def f)
  have e: "e \<in> set (queue L st s)" "0 \<le> x" "x \<le> en_qty e" "en_price e = px"
    using Cons.prems(2) by (auto simp: fillable_def f)
  show ?case
  proof (cases "x = 0")
    case True
    have "fillable L s px st fs" using Cons.prems(2) by (simp add: fillable_def f)
    then show ?thesis using Cons.IH [OF _ _ inv s hit fr Cons.prems(7), of q] Cons.prems(1) True a by (simp add: f) blast
  next
    case False
    have px0: "en_price e \<noteq> NULL_PRICE" and np: "\<And>r. ob_orders st (en_id e) = Some r \<Longrightarrow> r \<notin> {p}"
      using hit e(1) by (auto simp: hittable_def)
    have x0: "0 < x" using False e(2) by simp
    have seq: "mc_seq_num ctx = 0 \<or> l3_last_seq L (ob_l3 st) \<le> mc_seq_num ctx" and cok: "ctx_ok s (id_num (ob_buffer st p)) ctx"
      using fr Cons.prems(7) by (auto simp: ctx_fresh_def)
    obtain ctx1 st1 where run: "fillResting L s p (en_id e) (ob_orders st (en_id e)) (en_price e) x (q - x) ctx st = (True, ctx1, st1)"
      and inv1: "obinv L binv {p} st1" and fe: "fill_effect L (Some p) s e x (mc_event_time ctx) (mc_seq_num ctx) st st1"
      and bk: "booked s (id_num (ob_buffer st p)) e x (ob_orders st (en_id e) \<noteq> None) ctx ctx1"
      by (rule fillResting_ok [where rem = "q - x", OF inv _ s e(1) x0 e(3) seq np cok px0]) auto
    note bk = bk [folded Cons.prems(7)] and st1 = fillable_step [OF Cons.prems(2) [unfolded f] fe]
    have aid1: "aid = id_num (ob_buffer st1 p)" using fe Cons.prems(7) by (simp add: fill_effect_def)
    have m1: "m (en_id (fst g)) = ob_orders st1 (en_id (fst g))" if "g \<in> set fs" for g
      using st1(2) [OF that] Cons.prems(1) [of g] that by simp
    obtain ctx2 st2 where r: "pr_fill_order L s p px check as (q - x) ctx1 st1 = (True, q - x - filled_qty fs, ctx2, st2)"
      "obinv L binv {p} st2" "swept L (Some p) s aid (filter (\<lambda>f. snd f \<noteq> 0) fs) (apply_fills fs (queue L st1 s)) ctx1 st1 ctx2 st2"
      "hittable L (Some p) s st2" "\<forall>i. (\<forall>f\<in>set fs. en_id (fst f) \<noteq> i) \<longrightarrow> own_order smp p st2 i = own_order smp p st1 i"
      using Cons.IH [OF m1 st1(1) inv1 s hittable_after_fill [OF fe hit] fresh_after_fill [OF fe bk fr] aid1] by blast
    have step: "pr_fill_order L s p px check (a # as) q ctx st = pr_fill_order L s p px check as (q - x) ctx1 st1"
      using run False a e(4) by (simp add: Let_def findOrder_def)
    show ?thesis
      using swept_fill_run [OF fe bk fr inv Cons.prems(2) [unfolded f] r(3)] r own_order_fill [OF fe] False
      unfolding step by (auto simp: f)
  qed
qed

end

section \<open>The loops refine the sweep\<close>

lemma takeWhile_of_rest: "takeWhile P (dropWhile P xs) = []"
  by (induction xs) auto

lemma dropWhile_of_rest: "dropWhile P (dropWhile P xs) = dropWhile P xs"
  by (induction xs) auto

lemma level_split_Nil [simp]: "0 < q \<Longrightarrow> level_split c q [] = []"
  by (simp add: level_split_def split_level_def)

lemma pr_sweep_zero: "q \<le> 0 \<Longrightarrow> pr_sweep c acc own q es = ([], [], es, q)"
  by (cases es) auto

lemma pr_sweep_Cons:
  assumes "0 < q" and "acc (en_price e)"
    and "lv = takeWhile (\<lambda>x. en_price x = en_price e) (e # es)" and "rest = dropWhile (\<lambda>x. en_price x = en_price e) (e # es)"
    and "others = filter (\<lambda>x. \<not> own (en_id x)) lv"
    and "pr_sweep c acc own q (e # es) = (fs, cs, es', q')"
  obtains fs1 cs1 es1 where "pr_sweep c acc own (q - min q (level_qty others)) rest = (fs1, cs1, es1, q')"
    "fs = split_fills others (level_split c q others) @ fs1" "cs = filter (\<lambda>x. own (en_id x)) lv @ cs1"
    "es' = split_left others (level_split c q others) @ es1"
proof -
  obtain fs1 cs1 es1 q1 where r: "pr_sweep c acc own (q - min q (level_qty others)) rest = (fs1, cs1, es1, q1)"
    by (metis prod_cases4)
  show thesis
    using assms(1,2) assms(6) r that
    unfolding pr_sweep.simps Let_def assms(3) [symmetric] assms(4) [symmetric] assms(5) [symmetric] by auto
qed

text \<open>Cancelling the own orders of the front level first leaves the same fills.\<close>

lemma pr_sweep_cancel:
  assumes q: "0 < q" and acc: "acc (en_price e)"
    and lv: "lv = takeWhile (\<lambda>x. en_price x = en_price e) (e # es)" and rest: "rest = dropWhile (\<lambda>x. en_price x = en_price e) (e # es)"
    and others: "others = filter (\<lambda>x. \<not> own (en_id x)) lv"
    and sw: "pr_sweep c acc own q (e # es) = (fs, cs, es', q')"
  shows "\<exists>cs1. pr_sweep c acc own q (others @ rest) = (fs, cs1, es', q')"
proof -
  obtain fs1 cs1 es1 where r: "pr_sweep c acc own (q - min q (level_qty others)) rest = (fs1, cs1, es1, q')"
    "fs = split_fills others (level_split c q others) @ fs1" "es' = split_left others (level_split c q others) @ es1"
    by (rule pr_sweep_Cons [where acc = acc, OF q acc lv rest others sw])
  show ?thesis
  proof (cases others)
    case Nil
    then show ?thesis using r q by (simp add: split_fills_def split_left_def)
  next
    case (Cons x xs)
    have pr: "en_price y = en_price e" if "y \<in> set others" for y
      using that unfolding others lv by (auto dest!: set_takeWhileD simp del: takeWhile.simps)
    have px: "en_price x = en_price e" using pr [of x] Cons by simp
    have all: "\<forall>y\<in>set xs. en_price y = en_price x" by (metis Cons list.set_intros(2) pr px)
    have "takeWhile (\<lambda>y. en_price y = en_price x) (xs @ rest) = xs"
      using all by (subst takeWhile_append2) (auto simp: rest px takeWhile_of_rest simp del: dropWhile.simps)
    then have tk: "takeWhile (\<lambda>y. en_price y = en_price x) (x # xs @ rest) = x # xs" by simp
    have "dropWhile (\<lambda>y. en_price y = en_price x) (xs @ rest) = rest"
      using all by (subst dropWhile_append2) (auto simp: rest px dropWhile_of_rest simp del: dropWhile.simps)
    then have dr: "dropWhile (\<lambda>y. en_price y = en_price x) (x # xs @ rest) = rest" by simp
    have no: "filter (\<lambda>x. \<not> own (en_id x)) (x # xs) = x # xs"
    proof -
      have "filter (\<lambda>x. \<not> own (en_id x)) others = others" unfolding others filter_filter by simp
      then show ?thesis unfolding Cons .
    qed
    have cond: "\<not> (q \<le> 0 \<or> \<not> acc (en_price x))" using q acc px by simp
    have "pr_sweep c acc own q (x # xs @ rest) =
        (case pr_sweep c acc own (q - min q (level_qty (x # xs))) rest of (fs, cs, es', q') \<Rightarrow>
           (split_fills (x # xs) (level_split c q (x # xs)) @ fs, filter (\<lambda>x. own (en_id x)) (x # xs) @ cs,
            split_left (x # xs) (level_split c q (x # xs)) @ es', q'))"
      unfolding pr_sweep.simps(2) [of c acc own q x "xs @ rest"] if_not_P [OF cond] Let_def tk dr no ..
    then show ?thesis using r unfolding Cons append_Cons by simp
  qed
qed

context l3_book
begin

text \<open>The fills of the front level \<open>lv\<close>, and what they leave.\<close>

lemma level_facts:
  fixes st :: "('l, 'z) engine"
  assumes "validate c = Inr ()" and "obinv L binv P st" and "real_side s" and "queue L st s = lv @ rest" and "fits lv" and "0 < q"
    and "\<forall>x\<in>set lv. en_price x = px"
  shows "filled_qty (zip lv (level_split c q lv)) = min q (level_qty lv)"
    and "fillable L s px st (zip lv (level_split c q lv))"
    and "apply_fills (zip lv (level_split c q lv)) (queue L st s) = split_left lv (level_split c q lv) @ rest"
    and "level_qty lv \<le> q \<Longrightarrow> split_left lv (level_split c q lv) = []"
    and "en_id ` set (split_left lv (level_split c q lv)) \<subseteq> en_id ` set lv"
proof -
  let ?xs = "level_split c q lv"
  note xs = level_split_ok [OF assms(1,5,6)]
  have len: "length ?xs = length lv" using list_all2_lengthD [OF xs(1)] by simp
  have dist: "distinct (map en_id (lv @ rest))" using queue_distinct(1) [OF assms(2,3)] assms(4) by simp
  have "filled_qty (zip lv ?xs) = sum_list (map snd (zip lv ?xs))" by (simp add: filled_qty_def)
  then show "filled_qty (zip lv ?xs) = min q (level_qty lv)" using len xs(2) by (simp add: map_snd_zip)
  have "map (\<lambda>f. en_id (fst f)) (zip lv ?xs) = map en_id (map fst (zip lv ?xs))" by simp
  then have "distinct (map (\<lambda>f. en_id (fst f)) (zip lv ?xs))" using dist len by (simp add: map_fst_zip)
  moreover have "fst f \<in> set (queue L st s) \<and> 0 \<le> snd f \<and> snd f \<le> en_qty (fst f) \<and> en_price (fst f) = px"
    if "f \<in> set (zip lv ?xs)" for f
  proof (cases f)
    case (Pair e x)
    then have "e \<in> set lv" using that by (auto dest: set_zip_leftD)
    then show ?thesis using that xs(1) assms(4,7) Pair by (auto simp: list_all2_iff)
  qed
  ultimately show "fillable L s px st (zip lv ?xs)" by (simp add: fillable_def)
  show ap: "apply_fills (zip lv ?xs) (queue L st s) = split_left lv ?xs @ rest"
    unfolding assms(4) by (rule apply_fills_level [OF dist xs(1)])
  show "split_left lv ?xs = []" if "level_qty lv \<le> q"
  proof -
    have "?xs = map en_qty lv" using split_all [OF xs(1)] xs(2) that by simp
    moreover have "filter (\<lambda>e. en_qty e = 0) lv = []" using assms(5) by (fastforce simp: fits_def filter_empty_conv)
    ultimately show ?thesis using split_left_all by metis
  qed
  show "en_id ` set (split_left lv ?xs) \<subseteq> en_id ` set lv"
    by (auto simp: split_left_def image_iff dest!: set_zip_leftD split: if_splits)
qed

lemma pr_feed_loop_sweep:
  fixes st :: "('l, 'z) engine"
  assumes "validate c = Inr ()" and "queue L st s = es" and "obinv L binv {} st" and "real_side s" and "hittable L None s st"
    and "ctx_fresh L s aid ctx st" and "fits es" and "0 \<le> q" and "pr_sweep c (crosses s px) (\<lambda>_. False) q es = (fs, cs, es', q')"
  shows "\<exists>ctx' st'. pr_feed_loop c L s aid px q ctx st = Some (q', ctx', st') \<and> obinv L binv {} st' \<and>
    swept L None s aid fs es' ctx st ctx' st' \<and> en_id ` set es' \<subseteq> en_id ` set es \<and> (\<forall>(x, y)\<in>set fs. en_id x \<in> en_id ` set es)"
  using assms(2-9)
proof (induction "length es" arbitrary: es st ctx q fs cs es' rule: less_induct)
  case less
  note inv = less.prems(2) and s = less.prems(3) and hit = less.prems(4) and fr = less.prems(5)
  show ?case
  proof (cases es)
    case Nil
    then show ?thesis
      using best_none [OF inv s] less.prems swept_refl [OF fr, of None] by (subst pr_feed_loop.simps) auto
  next
    case (Cons e es1)
    define lv where "lv = takeWhile (\<lambda>x. en_price x = en_price e) (e # es1)"
    define rest where "rest = dropWhile (\<lambda>x. en_price x = en_price e) (e # es1)"
    have qu: "queue L st s = e # es1" using less.prems(1) Cons by simp
    obtain l where best: "l3_best L (ob_l3 st) s = Some l" "lv_price l = en_price e" "level_wf l"
      "map (entry_of (en_price e)) (lv_orders l) = lv"
      unfolding lv_def by (rule best_level [OF inv s qu])
    show ?thesis
    proof (cases "0 < q \<and> crosses s px (en_price e)")
      case False
      then show ?thesis
        using best inv less.prems swept_refl [OF fr, of None] Cons
        by (subst pr_feed_loop.simps) (auto simp: Cons)
    next
      case True
      then have q: "0 < q" and acc: "crosses s px (en_price e)" by auto
      have split: "es = lv @ rest" by (simp add: Cons lv_def rest_def)
      have fit: "fits lv" "fits rest" using less.prems(6) fits_append unfolding split by blast+
      have others: "lv = filter (\<lambda>x. \<not> False) lv" by simp
      obtain fs1 cs1 es2 where r: "pr_sweep c (crosses s px) (\<lambda>_. False) (q - min q (level_qty lv)) rest = (fs1, cs1, es2, q')"
        "fs = split_fills lv (level_split c q lv) @ fs1" "es' = split_left lv (level_split c q lv) @ es2"
        by (rule pr_sweep_Cons [where acc = "crosses s px" and own = "\<lambda>_. False", OF q acc lv_def rest_def others less.prems(8) [unfolded Cons]])
      have pr: "\<forall>x\<in>set lv. en_price x = en_price e"
        unfolding lv_def by (auto dest!: set_takeWhileD simp del: takeWhile.simps)
      have qu': "queue L st s = lv @ rest" using less.prems(1) split by simp
      note lf = level_facts [OF assms(1) inv s qu' fit(1) q pr]
      let ?fs = "zip lv (level_split c q lv)"
      obtain as where al: "allocate c l q st False = (as, 0)" "list_all2 (alloc_for (ob_orders st) False) as ?fs"
        by (rule allocate_level [OF assms(1) best(4) [symmetric] fit(1) q])
      obtain ctx1 st1 where fill: "pr_fill_feed L s aid (en_price e) as q ctx st = (True, q - filled_qty ?fs, ctx1, st1)"
        and inv1: "obinv L binv {} st1" and hit1: "hittable L None s st1"
        and sw0: "swept L None s aid (filter (\<lambda>f. snd f \<noteq> 0) ?fs) (apply_fills ?fs (queue L st s)) ctx st ctx1 st1"
        using pr_fill_feed_ok [OF al(2) lf(2) inv s hit fr, of q] by blast
      have sw1: "swept L None s aid (split_fills lv (level_split c q lv)) (split_left lv (level_split c q lv) @ rest) ctx st ctx1 st1"
        using sw0 lf(3) by (simp add: split_fills_def)
      have lo: "lv_orders l \<noteq> []" using best(3) by (simp add: level_wf_def)
      have step: "pr_feed_loop c L s aid px q ctx st = pr_feed_loop c L s aid px (q - min q (level_qty lv)) ctx1 st1"
        using q acc best lo al(1) fill lf(1) by (subst pr_feed_loop.simps) simp
      have fid: "\<forall>(x, y)\<in>set (split_fills lv (level_split c q lv)). en_id x \<in> en_id ` set es"
        unfolding split split_fills_def by (auto dest!: set_zip_leftD)
      have fr1: "ctx_fresh L s aid ctx1 st1" and q1: "queue L st1 s = split_left lv (level_split c q lv) @ rest"
        using sw1 by (simp_all add: swept_def)
      show ?thesis
      proof (cases "level_qty lv \<le> q")
        case le: True
        have "length rest < length es" using lo best(4) by (auto simp: split)
        then obtain ctx2 st2 where IH: "pr_feed_loop c L s aid px (q - min q (level_qty lv)) ctx1 st1 = Some (q', ctx2, st2)"
          "obinv L binv {} st2" "swept L None s aid fs1 es2 ctx1 st1 ctx2 st2" "en_id ` set es2 \<subseteq> en_id ` set rest"
          "\<forall>(x, y)\<in>set fs1. en_id x \<in> en_id ` set rest"
          using less.hyps [OF _ _ inv1 s hit1 fr1 fit(2) _ r(1)] q1 lf(4) [OF le] by auto
        note nil = lf(4) [OF le]
        have ids: "en_id ` set rest \<subseteq> en_id ` set es" by (auto simp: split)
        have sw1': "swept L None s aid (split_fills lv (level_split c q lv)) rest ctx st ctx1 st1" using sw1 nil by simp
        have "swept L None s aid fs es' ctx st ctx2 st2"
          unfolding r nil append_Nil using less.prems(1) ids IH(4,5) by (intro swept_trans [OF sw1' IH(3)]) auto
        moreover have "\<forall>(x, y)\<in>set fs. en_id x \<in> en_id ` set es" using fid IH(5) ids by (fastforce simp: r)
        ultimately show ?thesis using IH(1,2,4) step ids by (auto simp: r nil)
      next
        case False
        then have z: "fs1 = []" "es2 = rest" "q' = 0" using r(1) pr_sweep_zero [of 0] by (auto simp: min_def)
        have "pr_feed_loop c L s aid px 0 ctx1 st1 = Some (0, ctx1, st1)" by (subst pr_feed_loop.simps) simp
        then show ?thesis using False sw1 inv1 step r z fid lf(5) by (auto simp: split min_def)
      qed
    qed
  qed
qed

end

end
