(* ===== verification/Pro_Rata_Orders.thy ===== *)
theory Pro_Rata_Orders
  imports Pro_Rata_Engine
begin

text \<open>
  Client orders in the pro-rata engine: the cancels of self-match prevention, the loop of
  \<open>matchOrder\<close> against the abstract sweep, and the pre-checks, which must answer for a whole level.
\<close>

section \<open>Cancelling own orders\<close>

lemma own_order_alloc:
  assumes "al_order a = ob_orders st (en_id e)" and "smp \<noteq> SMP_NONE"
  shows "isSelfMatch (ob_buffer st p) (map_option (ob_buffer st) (al_order a)) \<longleftrightarrow> own_order smp p st (en_id e)"
  using assms by (simp add: own_order_def fullOrder_def findOrder_def)

lemma pr_cancel_none:
  assumes "list_all2 (\<lambda>a e. al_order a = ob_orders st (en_id e)) as lv" and "smp \<noteq> SMP_NONE"
    and "\<forall>e\<in>set lv. \<not> own_order smp p st (en_id e)"
  shows "pr_cancel_own L p rt ctx smp as any st = (True, any, st)"
  using assms(1,3)
proof (induction as lv rule: list_all2_induct)
  case (Cons a as e lv)
  then show ?case using own_order_alloc [OF Cons.hyps(1) assms(2), of p] by simp
qed simp

lemma filter_remove: "filter P (remove_entry i es) = filter (\<lambda>x. P x \<and> en_id x \<noteq> i) es"
  by (auto simp: remove_entry_def intro: filter_cong)

lemma hittable_after_cancel:
  assumes "cancel_effect L r s e rt seq st st1" and "hittable L A s st"
  shows "hittable L A s st1"
  using assms by (auto simp: cancel_effect_def hittable_def set_remove_entry)

context l3_book
begin

lemma pr_cancel_resting:
  fixes st :: "('l, 'z) engine"
  assumes "list_all2 (\<lambda>a e. al_order a = m (en_id e)) as lv" and "\<forall>e\<in>set lv. m (en_id e) = ob_orders st (en_id e)"
    and "distinct (map en_id lv)" and "set lv \<subseteq> set (queue L st s)" and "obinv L binv {p} st" and "real_side s"
    and "hittable L (Some p) s st" and "ctx_fresh L s aid ctx st"
  shows "\<exists>st'. pr_cancel_own L p rt ctx SMP_CANCEL_RESTING as any st =
      (True, any \<or> (\<exists>e\<in>set lv. own_order SMP_CANCEL_RESTING p st (en_id e)), st') \<and> obinv L binv {p} st' \<and>
    swept L (Some p) s aid []
      (filter (\<lambda>x. \<not> (en_id x \<in> en_id ` set lv \<and> own_order SMP_CANCEL_RESTING p st (en_id x))) (queue L st s)) ctx st ctx st' \<and>
    hittable L (Some p) s st' \<and> ob_buffer st' p = ob_buffer st p \<and>
    (\<forall>i. (\<forall>e\<in>set lv. en_id e = i \<longrightarrow> \<not> own_order SMP_CANCEL_RESTING p st i) \<longrightarrow>
      own_order SMP_CANCEL_RESTING p st' i = own_order SMP_CANCEL_RESTING p st i)"
  using assms
proof (induction as lv arbitrary: st any rule: list_all2_induct)
  case Nil
  then show ?case using swept_refl [OF Nil.prems(7)] by simp
next
  case (Cons a as e lv)
  let ?own = "own_order SMP_CANCEL_RESTING p"
  note inv = Cons.prems(4) and s = Cons.prems(5) and hit = Cons.prems(6) and fr = Cons.prems(7)
  have a: "al_order a = ob_orders st (en_id e)" using Cons.hyps(1) Cons.prems(1) by simp
  have sm: "isSelfMatch (ob_buffer st p) (map_option (ob_buffer st) (al_order a)) \<longleftrightarrow> ?own st (en_id e)"
    by (rule own_order_alloc [OF a]) simp
  have e: "e \<in> set (queue L st s)" and ne: "\<forall>x\<in>set lv. en_id x \<noteq> en_id e"
    using Cons.prems(2,3) by (auto simp: image_iff)
  have dist: "distinct (map en_id lv)" and sub: "set lv \<subseteq> set (queue L st s)" using Cons.prems by auto
  show ?case
  proof (cases "?own st (en_id e)")
    case False
    have flt: "filter (\<lambda>x. \<not> (en_id x \<in> en_id ` set (e # lv) \<and> ?own st (en_id x))) (queue L st s) =
        filter (\<lambda>x. \<not> (en_id x \<in> en_id ` set lv \<and> ?own st (en_id x))) (queue L st s)"
      using False by (intro filter_cong) auto
    show ?thesis
      using Cons.IH [OF _ dist sub inv s hit fr, of any] Cons.prems(1) False sm unfolding flt by auto
  next
    case True
    obtain r where r: "ob_orders st (en_id e) = Some r"
      using True by (auto simp: own_order_def isSelfMatch_def fullOrder_def findOrder_def split: option.splits)
    have rp: "r \<noteq> p" using hit e r by (auto simp: hittable_def)
    have seq: "mc_seq_num ctx = 0 \<or> l3_last_seq L (ob_l3 st) \<le> mc_seq_num ctx" using fr by (simp add: ctx_fresh_def)
    obtain st1 where h: "handleSelfMatch L r rt (mc_event_time ctx) (mc_seq_num ctx) SMP_CANCEL_RESTING st = (True, st1)"
      and inv1: "obinv L binv {p} st1" and ce: "cancel_effect L r s e rt (mc_seq_num ctx) st st1"
      by (rule handleSelfMatch_ok [OF inv s e r _ seq]) (use rp in auto)
    have q1: "queue L st1 s = remove_entry (en_id e) (queue L st s)" and o1: "ob_orders st1 = (ob_orders st)(en_id e := None)"
      and b1: "ob_buffer st1 p = ob_buffer st p" using ce rp by (simp_all add: cancel_effect_def)
    have m1: "\<forall>x\<in>set lv. m (en_id x) = ob_orders st1 (en_id x)" using Cons.prems(1) ne by (simp add: o1)
    have sub1: "set lv \<subseteq> set (queue L st1 s)" using sub ne by (auto simp: q1 set_remove_entry)
    have sw1: "swept L (Some p) s aid [] (queue L st1 s) ctx st ctx st1"
      unfolding q1 using rp by (intro swept_cancel_one [OF ce r _ inv e fr]) simp
    have fr1: "ctx_fresh L s aid ctx st1" using sw1 by (simp add: swept_def)
    note oc = own_order_cancel [OF ce]
    obtain st2 where IH: "pr_cancel_own L p rt ctx SMP_CANCEL_RESTING as True st1 = (True, True, st2)" "obinv L binv {p} st2"
      "swept L (Some p) s aid [] (filter (\<lambda>x. \<not> (en_id x \<in> en_id ` set lv \<and> ?own st1 (en_id x))) (queue L st1 s)) ctx st1 ctx st2"
      "hittable L (Some p) s st2" "ob_buffer st2 p = ob_buffer st1 p"
      "\<forall>i. (\<forall>e\<in>set lv. en_id e = i \<longrightarrow> \<not> ?own st1 i) \<longrightarrow> ?own st2 i = ?own st1 i"
      using Cons.IH [OF m1 dist sub1 inv1 s hittable_after_cancel [OF ce hit] fr1, of True] by auto
    have flt: "filter (\<lambda>x. \<not> (en_id x \<in> en_id ` set lv \<and> ?own st1 (en_id x))) (queue L st1 s) =
        filter (\<lambda>x. \<not> (en_id x \<in> en_id ` set (e # lv) \<and> ?own st (en_id x))) (queue L st s)"
      unfolding q1 filter_remove using oc True ne by (intro filter_cong) auto
    have sub2: "en_id ` set (queue L st1 s) \<subseteq> en_id ` set (queue L st s)" unfolding q1 by (rule ids_remove)
    have sw: "swept L (Some p) s aid ([] @ []) (filter (\<lambda>x. \<not> (en_id x \<in> en_id ` set (e # lv) \<and> ?own st (en_id x))) (queue L st s)) ctx st ctx st2"
      using IH(3) unfolding flt [symmetric] by (intro swept_trans [OF sw1 _ sub2]) auto
    have run: "pr_cancel_own L p rt ctx SMP_CANCEL_RESTING (a # as) any st = (True, True, st2)"
      using sm True a r h IH(1) by simp
    have ownk: "?own st2 i = ?own st i" if "\<forall>x\<in>set (e # lv). en_id x = i \<longrightarrow> \<not> ?own st i" for i
      using IH(6) oc [of i] that True by auto
    show ?thesis
      by (intro exI [of _ st2] conjI) (use run IH(2,4,5) sw b1 True ownk in auto)
  qed
qed

end

section \<open>The loop refines the sweep\<close>

lemma pr_sweep_cong:
  "(\<And>e. e \<in> set es \<Longrightarrow> own (en_id e) = own' (en_id e)) \<Longrightarrow> pr_sweep c acc own q es = pr_sweep c acc own' q es"
proof (induction c acc own q es rule: pr_sweep.induct)
  case (2 c acc own q e es)
  let ?lv = "takeWhile (\<lambda>x. en_price x = en_price e) (e # es)" and ?rest = "dropWhile (\<lambda>x. en_price x = en_price e) (e # es)"
  have lv: "own (en_id x) = own' (en_id x)" if "x \<in> set ?lv" for x using that 2(2) set_takeWhileD by metis
  have rs: "own (en_id x) = own' (en_id x)" if "x \<in> set ?rest" for x using that 2(2) set_dropWhileD by metis
  have f: "filter (\<lambda>x. \<not> own (en_id x)) ?lv = filter (\<lambda>x. \<not> own' (en_id x)) ?lv"
    "filter (\<lambda>x. own (en_id x)) ?lv = filter (\<lambda>x. own' (en_id x)) ?lv"
    using lv by (auto intro!: filter_cong simp del: takeWhile.simps)
  show ?case
  proof (cases "q \<le> 0 \<or> \<not> acc (en_price e)")
    case False
    have "pr_sweep c acc own (q - min q (level_qty (filter (\<lambda>x. \<not> own (en_id x)) ?lv))) ?rest =
        pr_sweep c acc own' (q - min q (level_qty (filter (\<lambda>x. \<not> own (en_id x)) ?lv))) ?rest"
      using "2.IH" [OF False refl refl refl refl] rs by blast
    then show ?thesis unfolding pr_sweep.simps(2) Let_def f by simp
  qed simp
qed simp

text \<open>The front level \<open>l\<close> of a queue, as entries \<open>lv\<close>, and the \<open>rest\<close>.\<close>

definition front :: "'l l3_ops \<Rightarrow> Side \<Rightarrow> ('l, 'z) book \<Rightarrow> entry \<Rightarrow> l3_level \<Rightarrow> entry list \<Rightarrow> entry list \<Rightarrow> bool" where
  "front L s b e l lv rest \<longleftrightarrow>
     l3_best L (ob_l3 b) s = Some l \<and> lv_price l = en_price e \<and> lv_orders l \<noteq> [] \<and>
     map (entry_of (en_price e)) (lv_orders l) = lv \<and> queue L b s = lv @ rest \<and>
     lv = takeWhile (\<lambda>x. en_price x = en_price e) (queue L b s) \<and>
     rest = dropWhile (\<lambda>x. en_price x = en_price e) (queue L b s)"

lemma frontD:
  assumes "front L s b e l lv rest"
  shows "l3_best L (ob_l3 b) s = Some l" and "lv_price l = en_price e" and "lv_orders l \<noteq> []"
    and "map (entry_of (en_price e)) (lv_orders l) = lv" and "queue L b s = lv @ rest"
    and "lv = takeWhile (\<lambda>x. en_price x = en_price e) (queue L b s)"
    and "rest = dropWhile (\<lambda>x. en_price x = en_price e) (queue L b s)"
  using assms unfolding front_def by blast+

lemma front_price: "front L s b e l lv rest \<Longrightarrow> \<forall>x\<in>set lv. en_price x = en_price e"
  unfolding front_def by (metis set_takeWhileD)

context l3_book
begin

lemma front_exists:
  assumes "obinv L binv P b" and "real_side s" and "queue L b s = e # es"
  obtains l lv rest where "front L s b e l lv rest"
proof -
  obtain l where "l3_best L (ob_l3 b) s = Some l" "lv_price l = en_price e" "level_wf l"
    "map (entry_of (en_price e)) (lv_orders l) = takeWhile (\<lambda>x. en_price x = en_price e) (e # es)"
    by (rule best_level [OF assms])
  then show thesis
    using that [of l "takeWhile (\<lambda>x. en_price x = en_price e) (e # es)" "dropWhile (\<lambda>x. en_price x = en_price e) (e # es)"] assms(3)
    by (simp add: front_def level_wf_def del: takeWhile.simps dropWhile.simps)
qed

text \<open>An iteration that cancels own orders of the level.\<close>

lemma pr_cancel_step:
  fixes st :: "('l, 'z) engine"
  assumes c: "validate c = Inr ()" and inv: "obinv L binv {p} st" and s: "real_side s" and hit: "hittable L (Some p) s st"
    and fr: "ctx_fresh L s aid ctx st" and ft: "front L s st e l lv rest" and fit: "fits lv" and q: "0 < q"
    and acc: "crosses s px (en_price e)" and smp: "smp = SMP_CANCEL_RESTING" and mine: "\<exists>x\<in>set lv. own_order smp p st (en_id x)"
  obtains st1 where "pr_order_loop c L s p px rt smp q ctx st = pr_order_loop c L s p px rt smp q ctx st1"
    "obinv L binv {p} st1" "hittable L (Some p) s st1" "ob_buffer st1 p = ob_buffer st p"
    "swept L (Some p) s aid [] (filter (\<lambda>x. \<not> own_order smp p st (en_id x)) lv @ rest) ctx st ctx st1"
    "\<And>x. x \<in> set (filter (\<lambda>x. \<not> own_order smp p st (en_id x)) lv @ rest) \<Longrightarrow> own_order smp p st1 (en_id x) = own_order smp p st (en_id x)"
proof -
  let ?own = "own_order smp p st" and ?xs = "level_split c q lv"
  note best = frontD(1-4) [OF ft] and qu = frontD(5) [OF ft]
  have dist: "distinct (map en_id (lv @ rest))" using queue_distinct(1) [OF inv s] qu by simp
  obtain as where al: "allocate c l q st True = (as, 0)" "list_all2 (alloc_for (ob_orders st) True) as (zip lv ?xs)"
    by (rule allocate_level [OF c best(4) [symmetric] fit q])
  have "length ?xs = length lv" using list_all2_lengthD [OF level_split_ok(1) [OF c fit q]] by simp
  then have al2: "list_all2 (\<lambda>a e. al_order a = ob_orders st (en_id e)) as lv"
    using al(2) by (auto simp: list_all2_conv_all_nth alloc_for_def)
  have sub: "set lv \<subseteq> set (queue L st s)" and dl: "distinct (map en_id lv)" using qu dist by auto
  have out: "en_id x \<notin> en_id ` set lv" if "x \<in> set rest" for x using dist that by auto
  have flt: "filter (\<lambda>x. \<not> (en_id x \<in> en_id ` set lv \<and> ?own (en_id x))) (queue L st s) = filter (\<lambda>x. \<not> ?own (en_id x)) lv @ rest"
    unfolding qu using out by (auto intro!: filter_cong simp: filter_id_conv)
  obtain st1 where can: "pr_cancel_own L p rt ctx smp as False st = (True, True, st1)" and st1: "obinv L binv {p} st1"
    "swept L (Some p) s aid [] (filter (\<lambda>x. \<not> ?own (en_id x)) lv @ rest) ctx st ctx st1" "hittable L (Some p) s st1"
    "ob_buffer st1 p = ob_buffer st p"
    and ow: "\<forall>i. (\<forall>e\<in>set lv. en_id e = i \<longrightarrow> \<not> ?own i) \<longrightarrow> own_order smp p st1 i = ?own i"
    using pr_cancel_resting [OF al2 _ dl sub inv s hit fr, of rt False] mine smp flt by auto
  have "pr_order_loop c L s p px rt smp q ctx st = pr_order_loop c L s p px rt smp q ctx st1"
    using q acc best al(1) can smp by (subst pr_order_loop.simps) simp
  moreover have "own_order smp p st1 (en_id x) = ?own (en_id x)" if "x \<in> set (filter (\<lambda>x. \<not> ?own (en_id x)) lv @ rest)" for x
  proof -
    have "\<forall>e\<in>set lv. en_id e = en_id x \<longrightarrow> \<not> ?own (en_id x)" using that out [of x] by (fastforce simp: image_iff)
    then show ?thesis using ow by blast
  qed
  ultimately show thesis using that st1 by blast
qed

text \<open>An iteration that fills the level.\<close>

lemma pr_fill_step:
  fixes st :: "('l, 'z) engine"
  assumes c: "validate c = Inr ()" and inv: "obinv L binv {p} st" and s: "real_side s" and hit: "hittable L (Some p) s st"
    and fr: "ctx_fresh L s aid ctx st" and aid: "aid = id_num (ob_buffer st p)"
    and ft: "front L s st e l lv rest" and fit: "fits lv" and q: "0 < q"
    and acc: "crosses s px (en_price e)" and clean: "\<forall>x\<in>set lv. \<not> own_order smp p st (en_id x)"
  obtains ctx1 st1 where
    "pr_order_loop c L s p px rt smp q ctx st = pr_order_loop c L s p px rt smp (q - min q (level_qty lv)) ctx1 st1"
    "obinv L binv {p} st1" "hittable L (Some p) s st1" "aid = id_num (ob_buffer st1 p)"
    "swept L (Some p) s aid (split_fills lv (level_split c q lv)) (split_left lv (level_split c q lv) @ rest) ctx st ctx1 st1"
    "\<And>x. x \<in> set rest \<Longrightarrow> own_order smp p st1 (en_id x) = own_order smp p st (en_id x)"
proof -
  let ?own = "own_order smp p st" and ?xs = "level_split c q lv" and ?fs = "zip lv (level_split c q lv)"
  note best = frontD(1-4) [OF ft] and qu = frontD(5) [OF ft]
  have dist: "distinct (map en_id (lv @ rest))" using queue_distinct(1) [OF inv s] qu by simp
  obtain as where al: "allocate c l q st (smp \<noteq> SMP_NONE) = (as, 0)"
    "list_all2 (alloc_for (ob_orders st) (smp \<noteq> SMP_NONE)) as ?fs"
    by (rule allocate_level [OF c best(4) [symmetric] fit q])
  have len: "length ?xs = length lv" using list_all2_lengthD [OF level_split_ok(1) [OF c fit q]] by simp
  have al2: "list_all2 (\<lambda>a e. al_order a = ob_orders st (en_id e)) as lv" if "smp \<noteq> SMP_NONE"
    using al(2) that len by (auto simp: list_all2_conv_all_nth alloc_for_def)
  note lf = level_facts [OF c inv s qu fit q front_price [OF ft]]
  have can: "(if smp \<noteq> SMP_NONE then pr_cancel_own L p rt ctx smp as False st else (True, False, st)) = (True, False, st)"
    using pr_cancel_none [OF al2, of smp p L rt ctx False] clean by auto
  obtain ctx1 st1 where fill: "pr_fill_order L s p (en_price e) (smp \<noteq> SMP_NONE) as q ctx st = (True, q - filled_qty ?fs, ctx1, st1)"
    and st1: "obinv L binv {p} st1" "hittable L (Some p) s st1"
    and sw0: "swept L (Some p) s aid (filter (\<lambda>f. snd f \<noteq> 0) ?fs) (apply_fills ?fs (queue L st s)) ctx st ctx1 st1"
    and ow: "\<forall>i. (\<forall>f\<in>set ?fs. en_id (fst f) \<noteq> i) \<longrightarrow> own_order smp p st1 i = ?own i"
    using pr_fill_order_ok [OF al(2) refl lf(2) inv s hit fr aid, of q smp] by blast
  have sw1: "swept L (Some p) s aid (split_fills lv ?xs) (split_left lv ?xs @ rest) ctx st ctx1 st1"
    using sw0 lf(3) by (simp add: split_fills_def)
  moreover have "aid = id_num (ob_buffer st1 p)" using sw1 aid by (simp add: swept_def fold_fill_sel)
  moreover have "pr_order_loop c L s p px rt smp q ctx st = pr_order_loop c L s p px rt smp (q - min q (level_qty lv)) ctx1 st1"
    using q acc best al(1) can fill lf(1) by (subst pr_order_loop.simps) simp
  moreover have "own_order smp p st1 (en_id x) = ?own (en_id x)" if "x \<in> set rest" for x
  proof -
    have "en_id x \<notin> en_id ` set lv" using dist that by auto
    then have "\<forall>f\<in>set ?fs. en_id (fst f) \<noteq> en_id x" by (auto simp: image_iff dest!: set_zip_leftD)
    then show ?thesis using ow by blast
  qed
  ultimately show thesis using that st1 by blast
qed

definition order_run_ok where
  "order_run_ok p s aid fs es' q' ctx st es r \<longleftrightarrow> (\<exists>ctx' st'. r = Some (True, q', ctx', st') \<and> obinv L binv {p} st' \<and>
     swept L (Some p) s aid fs es' ctx st ctx' st' \<and> en_id ` set es' \<subseteq> en_id ` set es \<and> (\<forall>(x, y)\<in>set fs. en_id x \<in> en_id ` set es))"

lemma order_run_compose:
  assumes run: "order_run_ok p s aid fs2 es2 q' ctx1 st1 es1 r" and sw1: "swept L (Some p) s aid fs1 es1 ctx st ctx1 st1"
    and qu: "queue L st s = es" and ids: "en_id ` set es1 \<subseteq> en_id ` set es" and fl: "\<forall>(x, y)\<in>set fs1. en_id x \<in> en_id ` set es"
  shows "order_run_ok p s aid (fs1 @ fs2) es2 q' ctx st es r"
proof -
  obtain ctx2 st2 where r: "r = Some (True, q', ctx2, st2)" "obinv L binv {p} st2" "swept L (Some p) s aid fs2 es2 ctx1 st1 ctx2 st2"
    "en_id ` set es2 \<subseteq> en_id ` set es1" "\<forall>(x, y)\<in>set fs2. en_id x \<in> en_id ` set es1"
    using run by (auto simp: order_run_ok_def)
  have "swept L (Some p) s aid (fs1 @ fs2) es2 ctx st ctx2 st2" using swept_trans [OF sw1 r(3) _ r(4,5)] qu ids by simp
  then show ?thesis using r ids fl by (fastforce simp: order_run_ok_def)
qed

lemma pr_order_loop_sweep:
  fixes st :: "('l, 'z) engine"
  assumes "validate c = Inr ()" and "queue L st s = es" and "obinv L binv {p} st" and "real_side s" and "hittable L (Some p) s st"
    and "ctx_fresh L s aid ctx st" and "fits es" and "0 \<le> q" and "aid = id_num (ob_buffer st p)"
    and "pr_sweep c (crosses s px) (own_order smp p st) q es = (fs, cs, es', q')" and "smp = SMP_CANCEL_NEWEST \<longrightarrow> cs = []"
  shows "order_run_ok p s aid fs es' q' ctx st es (pr_order_loop c L s p px rt smp q ctx st)"
  using assms(2-11)
proof (induction "length es" arbitrary: es st ctx q fs cs es' rule: less_induct)
  case less
  note inv = less.prems(2) and s = less.prems(3) and hit = less.prems(4) and fr = less.prems(5) and aid = less.prems(8)
    and sw = less.prems(9)
  have stop: "order_run_ok p s aid [] es q ctx st es (Some (True, q, ctx, st))"
    using inv swept_refl [OF fr, of "Some p"] less.prems(1) by (auto simp: order_run_ok_def)
  show ?case
  proof (cases es)
    case Nil
    then show ?thesis using best_none [OF inv s] less.prems(1) sw stop by (subst pr_order_loop.simps) auto
  next
    case (Cons e es1)
    have qu: "queue L st s = e # es1" using less.prems(1) Cons by simp
    obtain l lv rest where ft: "front L s st e l lv rest" by (rule front_exists [OF inv s qu])
    have lv: "lv = takeWhile (\<lambda>x. en_price x = en_price e) (e # es1)" "rest = dropWhile (\<lambda>x. en_price x = en_price e) (e # es1)"
      using frontD(6,7) [OF ft] unfolding qu .
    have split: "es = lv @ rest" using frontD(5) [OF ft] less.prems(1) by simp
    have lvne: "lv \<noteq> []" using frontD(3,4) [OF ft] by auto
    show ?thesis
    proof (cases "0 < q \<and> crosses s px (en_price e)")
      case False
      then show ?thesis using frontD(1,2) [OF ft] sw stop Cons by (subst pr_order_loop.simps) auto
    next
      case True
      then have q: "0 < q" and acc: "crosses s px (en_price e)" by auto
      let ?own = "own_order smp p st" and ?xs = "level_split c q lv" and ?others = "filter (\<lambda>x. \<not> own_order smp p st (en_id x)) lv"
      have fit: "fits lv" "fits rest" using less.prems(6) fits_append unfolding split by blast+
      obtain fs1 cs1 es2 where r: "pr_sweep c (crosses s px) ?own (q - min q (level_qty ?others)) rest = (fs1, cs1, es2, q')"
        "fs = split_fills ?others (level_split c q ?others) @ fs1" "cs = filter (\<lambda>x. ?own (en_id x)) lv @ cs1"
        "es' = split_left ?others (level_split c q ?others) @ es2"
        by (rule pr_sweep_Cons [where acc = "crosses s px", OF q acc lv refl sw [unfolded Cons]])
      show ?thesis
      proof (cases "\<exists>x\<in>set lv. ?own (en_id x)")
        case mine: True
        then have "cs \<noteq> []" and "smp \<noteq> SMP_NONE" using r(3) by (auto simp: filter_empty_conv own_order_def)
        then have smp: "smp = SMP_CANCEL_RESTING" using less.prems(10) by (cases smp) auto
        obtain st1 where st1: "pr_order_loop c L s p px rt smp q ctx st = pr_order_loop c L s p px rt smp q ctx st1"
          "obinv L binv {p} st1" "hittable L (Some p) s st1" "ob_buffer st1 p = ob_buffer st p"
          "swept L (Some p) s aid [] (?others @ rest) ctx st ctx st1"
          "\<And>x. x \<in> set (?others @ rest) \<Longrightarrow> own_order smp p st1 (en_id x) = ?own (en_id x)"
          by (rule pr_cancel_step [OF assms(1) inv s hit fr ft fit(1) q acc smp mine]) blast
        obtain cs2 where "pr_sweep c (crosses s px) ?own q (?others @ rest) = (fs, cs2, es', q')"
          using pr_sweep_cancel [where acc = "crosses s px", OF q acc lv refl sw [unfolded Cons]] by blast
        then have sw': "pr_sweep c (crosses s px) (own_order smp p st1) q (?others @ rest) = (fs, cs2, es', q')"
          using pr_sweep_cong [of "?others @ rest" "own_order smp p st1" ?own] st1(6) by simp
        have shorter: "length (?others @ rest) < length es" using mine unfolding split by (auto intro!: length_filter_less)
        have fit1: "fits (?others @ rest)"
          using less.prems(6) level_qty_filter [of lv "\<lambda>x. \<not> ?own (en_id x)"] by (auto simp: split fits_def)
        have fr1: "ctx_fresh L s aid ctx st1" and q1: "queue L st1 s = ?others @ rest" using st1(5) by (simp_all add: swept_def)
        have "order_run_ok p s aid fs es' q' ctx st1 (?others @ rest) (pr_order_loop c L s p px rt smp q ctx st1)"
          using less.hyps [OF shorter q1 st1(2) s st1(3) fr1 fit1 less.prems(7) _ sw'] smp aid st1(4) by simp
        from order_run_compose [OF this st1(5) less.prems(1)] show ?thesis using st1(1) by (auto simp: split)
      next
        case clean: False
        then have others: "?others = lv" by (simp add: filter_id_conv)
        note r = r [unfolded others]
        obtain ctx1 st1 where st1:
          "pr_order_loop c L s p px rt smp q ctx st = pr_order_loop c L s p px rt smp (q - min q (level_qty lv)) ctx1 st1"
          "obinv L binv {p} st1" "hittable L (Some p) s st1" "aid = id_num (ob_buffer st1 p)"
          "swept L (Some p) s aid (split_fills lv ?xs) (split_left lv ?xs @ rest) ctx st ctx1 st1"
          "\<And>x. x \<in> set rest \<Longrightarrow> own_order smp p st1 (en_id x) = ?own (en_id x)"
          by (rule pr_fill_step [OF assms(1) inv s hit fr aid ft fit(1) q acc, of smp rt]) (use clean in blast)+
        note qu' = frontD(5) [OF ft]
        note lf = level_facts [OF assms(1) inv s qu' fit(1) q front_price [OF ft]]
        have fid: "\<forall>(x, y)\<in>set (split_fills lv ?xs). en_id x \<in> en_id ` set es"
          unfolding split split_fills_def by (auto dest!: set_zip_leftD)
        have ids: "en_id ` set (split_left lv ?xs @ rest) \<subseteq> en_id ` set es" using lf(5) by (auto simp: split)
        have fr1: "ctx_fresh L s aid ctx1 st1" and q1: "queue L st1 s = split_left lv ?xs @ rest"
          using st1(5) by (simp_all add: swept_def)
        have "order_run_ok p s aid fs1 es' q' ctx1 st1 (split_left lv ?xs @ rest)
            (pr_order_loop c L s p px rt smp (q - min q (level_qty lv)) ctx1 st1)"
        proof (cases "level_qty lv \<le> q")
          case le: True
          have sw': "pr_sweep c (crosses s px) (own_order smp p st1) (q - min q (level_qty lv)) rest = (fs1, cs1, es2, q')"
            using r(1) pr_sweep_cong [of rest "own_order smp p st1" ?own] st1(6) by simp
          have "length rest < length es" using lvne by (simp add: split)
          then show ?thesis
            using less.hyps [OF _ _ st1(2) s st1(3) fr1 fit(2) _ st1(4) sw'] q1 lf(4) [OF le] less.prems(10) r(3,4) by auto
        next
          case False
          then have z: "fs1 = []" "es2 = rest" "q' = 0" "q - min q (level_qty lv) = 0"
            using r(1) pr_sweep_zero [of 0] by (auto simp: min_def)
          have "pr_order_loop c L s p px rt smp 0 ctx1 st1 = Some (True, 0, ctx1, st1)" by (subst pr_order_loop.simps) simp
          then show ?thesis
            using st1(2) swept_refl [OF fr1, of "Some p"] q1 by (auto simp: order_run_ok_def z r(4))
        qed
        from order_run_compose [OF this st1(5) less.prems(1) ids fid] show ?thesis by (simp add: st1(1) r(2))
      qed
    qed
  qed
qed

end

end
