(* ===== verification/Pro_Rata_Properties.thy ===== *)
theory Pro_Rata_Properties
  imports Pro_Rata_Orders
begin

text \<open>
  The pre-checks of the pro-rata engine against its sweep, the facts of the sweep, and what the
  engine promises for every L3 book that keeps its contract.
\<close>

section \<open>Facts of the sweep\<close>

lemma pr_sweep_induct [consumes 1, case_names stop level]:
  assumes "fits es"
    and stop: "\<And>q es. es = [] \<or> q \<le> 0 \<or> \<not> acc (en_price (hd es)) \<Longrightarrow> fits es \<Longrightarrow> pr_sweep c acc own q es = ([], [], es, q) \<Longrightarrow> P q es"
    and level: "\<And>q (e :: entry) lv rest others. 0 < q \<Longrightarrow> acc (en_price e) \<Longrightarrow> fits lv \<Longrightarrow> fits rest \<Longrightarrow> lv \<noteq> [] \<Longrightarrow>
      \<forall>x\<in>set lv. en_price x = en_price e \<Longrightarrow> others = filter (\<lambda>x. \<not> own (en_id x)) lv \<Longrightarrow>
      (\<And>fs cs es' q'. pr_sweep c acc own (q - min q (level_qty others)) rest = (fs, cs, es', q') \<Longrightarrow>
         pr_sweep c acc own q (lv @ rest) = (split_fills others (level_split c q others) @ fs,
           filter (\<lambda>x. own (en_id x)) lv @ cs, split_left others (level_split c q others) @ es', q')) \<Longrightarrow>
      P (q - min q (level_qty others)) rest \<Longrightarrow> P q (lv @ rest)"
  shows "P q es"
  using assms(1)
proof (induction "length es" arbitrary: es q rule: less_induct)
  case less
  show ?case
  proof (cases "es = [] \<or> q \<le> 0 \<or> \<not> acc (en_price (hd es))")
    case True
    then show ?thesis using stop [OF True less.prems] by (cases es) auto
  next
    case False
    then obtain e es1 where es: "es = e # es1" and q: "0 < q" "acc (en_price e)" by (cases es) auto
    define lv where "lv = takeWhile (\<lambda>x. en_price x = en_price e) (e # es1)"
    define rest where "rest = dropWhile (\<lambda>x. en_price x = en_price e) (e # es1)"
    have split: "es = lv @ rest" by (simp add: es lv_def rest_def)
    have ne: "lv \<noteq> []" by (simp add: lv_def)
    have fit: "fits lv" "fits rest" using less.prems fits_append unfolding split by blast+
    have pr: "\<forall>x\<in>set lv. en_price x = en_price e"
      unfolding lv_def by (auto dest!: set_takeWhileD simp del: takeWhile.simps)
    have cond: "\<not> (q \<le> 0 \<or> \<not> acc (en_price e))" using q by simp
    have step: "pr_sweep c acc own q (lv @ rest) = (split_fills (filter (\<lambda>x. \<not> own (en_id x)) lv) (level_split c q (filter (\<lambda>x. \<not> own (en_id x)) lv)) @ fs,
           filter (\<lambda>x. own (en_id x)) lv @ cs, split_left (filter (\<lambda>x. \<not> own (en_id x)) lv) (level_split c q (filter (\<lambda>x. \<not> own (en_id x)) lv)) @ es', q')"
      if "pr_sweep c acc own (q - min q (level_qty (filter (\<lambda>x. \<not> own (en_id x)) lv))) rest = (fs, cs, es', q')" for fs cs es' q'
      unfolding split [symmetric] es pr_sweep.simps(2) if_not_P [OF cond] Let_def lv_def [symmetric] rest_def [symmetric] that by simp
    have "length rest < length es" using ne by (simp add: split)
    then have IH: "P (q - min q (level_qty (filter (\<lambda>x. \<not> own (en_id x)) lv))) rest" using less.hyps fit(2) by blast
    show ?thesis unfolding split by (rule level [OF q fit ne pr refl]) (erule step, rule IH)
  qed
qed

lemma split_fills_qty: "length xs = length es \<Longrightarrow> filled_qty (split_fills es xs) = sum_list xs"
  by (induction es xs rule: list_induct2') (auto simp: split_fills_def)

lemma pr_sweep_balance:
  assumes "fits es" and "validate c = Inr ()" and "0 \<le> q" and "pr_sweep c acc own q es = (fs, cs, es', q')"
  shows "q = filled_qty fs + q' \<and> 0 \<le> q'"
  using assms(1,3,4)
proof (induction q es arbitrary: fs cs es' q' rule: pr_sweep_induct [where c = c and acc = acc and own = own])
  case (level q e lv rest others)
  obtain fs1 cs1 es1 q1 where r: "pr_sweep c acc own (q - min q (level_qty others)) rest = (fs1, cs1, es1, q1)" by (metis prod_cases4)
  have fo: "fits others" using fits_filter level.hyps(3,7) by blast
  note ls = level_split_ok [OF assms(2) fo level.hyps(1)]
  have "filled_qty (split_fills others (level_split c q others)) = min q (level_qty others)"
    using split_fills_qty list_all2_lengthD [OF ls(1)] ls(2) by metis
  then show ?case
    using level.hyps(8) [OF r] level.IH [OF _ r] level.prems by auto
qed auto

lemma pr_sweep_fills:
  assumes "fits es" and "validate c = Inr ()" and "pr_sweep c acc own q es = (fs, cs, es', q')" and "(e, x) \<in> set fs"
  shows "e \<in> set es \<and> acc (en_price e) \<and> \<not> own (en_id e) \<and> 0 < x \<and> x \<le> en_qty e"
  using assms(1,3,4)
proof (induction q es arbitrary: fs cs es' q' rule: pr_sweep_induct [where c = c and acc = acc and own = own])
  case (level q e1 lv rest others)
  obtain fs1 cs1 es1 q1 where r: "pr_sweep c acc own (q - min q (level_qty others)) rest = (fs1, cs1, es1, q1)" by (metis prod_cases4)
  have fo: "fits others" using fits_filter level.hyps(3,7) by blast
  have fs: "fs = split_fills others (level_split c q others) @ fs1" using level.hyps(8) [OF r] level.prems(1) by simp
  show ?case
  proof (cases "(e, x) \<in> set fs1")
    case True
    have "q1 = q'" using level.hyps(8) [OF r] level.prems(1) by simp
    then show ?thesis using level.IH [OF r True] by simp
  next
    case False
    then have z: "(e, x) \<in> set (zip others (level_split c q others))" "x \<noteq> 0" using level.prems(2) fs by (auto simp: split_fills_def)
    then have "e \<in> set others" by (auto dest: set_zip_leftD)
    moreover have "0 \<le> x \<and> x \<le> en_qty e"
      using level_split_ok(1) [OF assms(2) fo level.hyps(1)] z(1) by (auto simp: list_all2_iff)
    ultimately show ?thesis using z(2) level.hyps(2,6,7) by auto
  qed
qed auto

lemma pr_sweep_cancels:
  assumes "fits es" and "pr_sweep c acc own q es = (fs, cs, es', q')" and "e \<in> set cs"
  shows "e \<in> set es \<and> own (en_id e)"
  using assms
proof (induction q es arbitrary: fs cs es' q' rule: pr_sweep_induct [where c = c and acc = acc and own = own])
  case (level q e1 lv rest others)
  obtain fs1 cs1 es1 q1 where r: "pr_sweep c acc own (q - min q (level_qty others)) rest = (fs1, cs1, es1, q1)" by (metis prod_cases4)
  have "cs = filter (\<lambda>x. own (en_id x)) lv @ cs1" "q1 = q'" using level.hyps(8) [OF r] level.prems(1) by simp_all
  then show ?case using level.IH [of fs1 cs1 es1] r level.prems(2) by auto
qed auto

lemma split_left_places: "place ` set (split_left es xs) \<subseteq> place ` set es"
  by (auto simp: split_left_def dest!: set_zip_leftD split: if_splits)

lemma pr_sweep_places:
  assumes "fits es" and "pr_sweep c acc own q es = (fs, cs, es', q')"
  shows "place ` set es' \<subseteq> place ` set es"
  using assms
proof (induction q es arbitrary: fs cs es' q' rule: pr_sweep_induct [where c = c and acc = acc and own = own])
  case (level q e lv rest others)
  obtain fs1 cs1 es1 q1 where r: "pr_sweep c acc own (q - min q (level_qty others)) rest = (fs1, cs1, es1, q1)" by (metis prod_cases4)
  have es': "es' = split_left others (level_split c q others) @ es1" using level.hyps(8) [OF r] level.prems by simp
  have "place ` set others \<subseteq> place ` set lv" by (auto simp: level.hyps(7))
  then have "place ` set (split_left others (level_split c q others)) \<subseteq> place ` set (lv @ rest)"
    using split_left_places [of others "level_split c q others"] by (simp add: image_Un) blast
  moreover have "place ` set es1 \<subseteq> place ` set (lv @ rest)" using level.IH [OF r] by (simp add: image_Un le_supI2)
  ultimately show ?case by (simp add: es' image_Un)
qed auto

lemma pr_sweep_leftover:
  assumes "fits es" and "validate c = Inr ()" and "pr_sweep c acc own q es = (fs, cs, es', q')" and "0 < q'"
  shows "es' = [] \<or> \<not> acc (en_price (hd es'))"
  using assms(1,3,4)
proof (induction q es arbitrary: fs cs es' q' rule: pr_sweep_induct [where c = c and acc = acc and own = own])
  case (level q e lv rest others)
  obtain fs1 cs1 es1 q1 where r: "pr_sweep c acc own (q - min q (level_qty others)) rest = (fs1, cs1, es1, q1)" by (metis prod_cases4)
  have res: "es' = split_left others (level_split c q others) @ es1" "q1 = q'"
    using level.hyps(8) [OF r] level.prems by simp_all
  have fo: "fits others" using fits_filter level.hyps(3,7) by blast
  have "q - min q (level_qty others) \<noteq> 0"
  proof
    assume "q - min q (level_qty others) = 0"
    then have "q1 = 0" using r by (cases rest) auto
    then show False using res level.prems by simp
  qed
  then have "sum_list (level_split c q others) = level_qty others" using level_split_ok(2) [OF assms(2) fo level.hyps(1)] by simp
  then have "level_split c q others = map en_qty others" by (rule split_all [OF level_split_ok(1) [OF assms(2) fo level.hyps(1)]])
  then have "split_left others (level_split c q others) = []"
    using fo by (auto simp: split_left_all fits_def filter_empty_conv)
  then show ?case using level.IH [OF r] level.prems res by simp
qed auto

text \<open>The unfilled quantity does not depend on the way a level is shared out.\<close>

lemma sweep_leftover_level:
  assumes "\<forall>x\<in>set lv. 0 < en_qty x \<and> acc (en_price x)" and "0 \<le> q"
    and "sweep acc own q (lv @ rest) = (fs, cs, es', q')"
    and "sweep acc own (q - min q (level_qty (filter (\<lambda>x. \<not> own (en_id x)) lv))) rest = (fs1, cs1, es1, q1)"
  shows "q' = q1"
  using assms
proof (induction lv arbitrary: q fs cs es')
  case (Cons e lv)
  have nn: "0 \<le> level_qty (filter (\<lambda>x. \<not> own (en_id x)) lv)"
    using Cons.prems(1) level_qty_nonneg [of "filter (\<lambda>x. \<not> own (en_id x)) lv"] by auto
  have zero: "sweep acc own 0 es = ([], [], es, 0)" for es by (cases es) auto
  have "sweep acc own q (e # (lv @ rest)) = (fs, cs, es', q')" using Cons.prems(3) by simp
  then show ?case
  proof (cases rule: sweep_Cons_cases)
    case stop
    then have "q = 0" using Cons.prems(1,2) by auto
    then show ?thesis using Cons.prems(1,4) stop nn zero by auto
  next
    case (own cs2)
    then show ?thesis using Cons.IH [OF _ Cons.prems(2) own(5)] Cons.prems(1,4) by simp
  next
    case (full fs2)
    have eq: "q - min q (en_qty e + X) = q - en_qty e - min (q - en_qty e) X" for X :: int by (simp add: min_def)
    have f: "filter (\<lambda>x. \<not> own (en_id x)) (e # lv) = e # filter (\<lambda>x. \<not> own (en_id x)) lv" using full(3) by simp
    have "sweep acc own (q - en_qty e - min (q - en_qty e) (level_qty (filter (\<lambda>x. \<not> own (en_id x)) lv))) rest = (fs1, cs1, es1, q1)"
      using Cons.prems(4) unfolding f level_qty_simps eq .
    then show ?thesis using Cons.IH [OF _ _ full(6)] Cons.prems(1) full(4) by simp
  next
    case part
    then have "q - min q (en_qty e + level_qty (filter (\<lambda>x. \<not> own (en_id x)) lv)) = 0" using nn by (simp add: min_def)
    then show ?thesis using Cons.prems(4) part zero by simp
  qed
qed simp

lemma pr_sweep_leftover_eq:
  assumes "fits es" and "0 \<le> q" and "pr_sweep c acc own q es = (fs, cs, es', q')" and "sweep acc own q es = (fs2, cs2, es2, q2)"
  shows "q' = q2"
  using assms
proof (induction q es arbitrary: fs cs es' q' fs2 cs2 es2 q2 rule: pr_sweep_induct [where c = c and acc = acc and own = own])
  case (stop q es)
  then show ?case by (cases es) auto
next
  case (level q e lv rest others)
  obtain fs1 cs1 es1 q1 where r: "pr_sweep c acc own (q - min q (level_qty others)) rest = (fs1, cs1, es1, q1)" by (metis prod_cases4)
  obtain fs3 cs3 es3 q3 where r3: "sweep acc own (q - min q (level_qty others)) rest = (fs3, cs3, es3, q3)" by (metis prod_cases4)
  have "q1 = q'" using level.hyps(8) [OF r] level.prems(2) by simp
  moreover have "\<forall>x\<in>set lv. 0 < en_qty x \<and> acc (en_price x)" using level.hyps(2,3,6) by (simp add: fits_def)
  ultimately show ?case
    using level.IH [OF _ r r3] sweep_leftover_level [OF _ level.prems(1,3) r3 [unfolded level.hyps(7)]] by simp
qed

section \<open>The pre-checks\<close>

lemma wsm_orders_level:
  "wsm_orders Level order b q ods =
     (if \<exists>od\<in>set ods. isSelfMatch order (fullOrder (lo_id od) b) then Inl True else Inr q)"
  by (induction ods arbitrary: q) auto

lemma flat_front:
  assumes "levels_wf s (l # ls)"
  shows "takeWhile (\<lambda>x. en_price x = lv_price l) (flat (l # ls)) = map (entry_of (lv_price l)) (lv_orders l)"
    and "dropWhile (\<lambda>x. en_price x = lv_price l) (flat (l # ls)) = flat ls"
proof -
  have ne: "en_price x \<noteq> lv_price l" if "x \<in> set (flat ls)" for x
    using that assms by (auto simp: flat_def levels_wf_def)
  have nil: "takeWhile (\<lambda>x. en_price x = lv_price l) (flat ls) = []" "dropWhile (\<lambda>x. en_price x = lv_price l) (flat ls) = flat ls"
    using ne by (cases "flat ls"; auto)+
  show "takeWhile (\<lambda>x. en_price x = lv_price l) (flat (l # ls)) = map (entry_of (lv_price l)) (lv_orders l)"
    unfolding flat_simps by (subst takeWhile_append2) (auto simp: nil)
  show "dropWhile (\<lambda>x. en_price x = lv_price l) (flat (l # ls)) = flat ls"
    unfolding flat_simps by (subst dropWhile_append2) (auto simp: nil)
qed

lemma wsm_levels_level:
  assumes "levels_wf s ls" and "own = (\<lambda>i. isSelfMatch order (fullOrder i b))"
    and "pr_sweep c (crosses s px) own q (flat ls) = (fs, cs, es', q')"
  shows "wsm_levels Level s order px b q ls \<longleftrightarrow> cs \<noteq> []"
  using assms(1,3)
proof (induction ls arbitrary: q fs cs es')
  case (Cons l ls)
  have lw: "level_wf l" and wf: "levels_wf s ls" using Cons.prems(1) by (auto simp: levels_wf_def)
  obtain od ods where od: "lv_orders l = od # ods" using lw by (cases "lv_orders l") (auto simp: level_wf_def)
  define e where "e = entry_of (lv_price l) od"
  define es where "es = map (entry_of (lv_price l)) ods @ flat ls"
  define lv where "lv = map (entry_of (lv_price l)) (lv_orders l)"
  have ep: "en_price e = lv_price l" by (simp add: e_def)
  have fl: "flat (l # ls) = e # es" by (simp add: od e_def es_def)
  have lv: "lv = takeWhile (\<lambda>x. en_price x = en_price e) (e # es)" and rest: "flat ls = dropWhile (\<lambda>x. en_price x = en_price e) (e # es)"
    using flat_front [OF Cons.prems(1)] unfolding fl ep lv_def by simp_all
  show ?case
  proof (cases "0 < q \<and> crosses s px (lv_price l)")
    case False
    then show ?thesis using Cons.prems(2) unfolding fl by (auto simp: ep)
  next
    case True
    then have q: "0 < q" and acc: "crosses s px (en_price e)" by (simp_all add: ep)
    obtain fs1 cs1 es1 where r: "pr_sweep c (crosses s px) own (q - min q (level_qty (filter (\<lambda>x. \<not> own (en_id x)) lv))) (flat ls) = (fs1, cs1, es1, q')"
      "cs = filter (\<lambda>x. own (en_id x)) lv @ cs1"
      by (rule pr_sweep_Cons [where acc = "crosses s px" and own = own, OF q acc lv rest refl Cons.prems(2) [unfolded fl]])
    have hit: "(\<exists>od\<in>set (lv_orders l). isSelfMatch order (fullOrder (lo_id od) b)) \<longleftrightarrow> filter (\<lambda>x. own (en_id x)) lv \<noteq> []"
      by (auto simp: assms(2) lv_def filter_empty_conv)
    show ?thesis
    proof (cases "filter (\<lambda>x. own (en_id x)) lv = []")
      case False
      then show ?thesis using True hit r(2) by (simp add: wsm_orders_level)
    next
      case none: True
      then have "filter (\<lambda>x. \<not> own (en_id x)) lv = lv" by (simp add: filter_empty_conv filter_id_conv)
      moreover have "level_qty lv = lv_total l" using lw by (simp add: level_qty_def lv_def level_wf_def comp_def)
      ultimately have "pr_sweep c (crosses s px) own (q - min (lv_total l) q) (flat ls) = (fs1, cs1, es1, q')"
        using r(1) by (simp add: min.commute)
      then show ?thesis using True hit none r(2) Cons.IH [OF wf] by (auto simp: wsm_orders_level)
    qed
  qed
qed simp

context l3_book
begin

lemma pr_order_outcome:
  fixes st :: "('l, 'z) engine"
  assumes c: "validate c = Inr ()" and inv: "obinv L binv {p} st" and s: "real_side s" and hit: "hittable L (Some p) s st"
    and seq: "seq = 0 \<or> l3_last_seq L (ob_l3 st) \<le> seq" and acct: "acct_ok (ob_buffer st p)" and fit: "fits (queue L st s)"
    and ord: "ord = prepared px q (ob_buffer st p)"
    and sw: "pr_sweep c (crosses s px) (own_order smp p st) (leaves_quantity ord) (queue L st s) = (fs, cs, es', q')"
  shows "smp = SMP_CANCEL_NEWEST \<and> cs \<noteq> [] \<Longrightarrow>
           pr_matchOrder c L s p px q rt et seq smp st = Some (RJ_SMP, [], st)"
    and "\<not> (smp = SMP_CANCEL_NEWEST \<and> cs \<noteq> []) \<Longrightarrow> fok_kills L s (ob_buffer st p) px q smp st \<Longrightarrow>
           \<exists>st'. pr_matchOrder c L s p px q rt et seq smp st = Some (RJ_FOK_CANNOT_FILL, [], st') \<and>
             reports_only p (ob_buffer st p) st st'"
    and "\<not> (smp = SMP_CANCEL_NEWEST \<and> cs \<noteq> []) \<Longrightarrow> \<not> fok_kills L s (ob_buffer st p) px q smp st \<Longrightarrow>
           \<exists>sms st'. pr_matchOrder c L s p px q rt et seq smp st = Some (RJ_NONE, sms, st') \<and>
             obinv L binv {p} st' \<and> matched L p ord s et fs es' sms st st'"
proof -
  let ?Q = "leaves_quantity ord"
  have Q0: "0 \<le> ?Q" using acct by (auto simp: ord prepared_def applyReplace_def acct_ok_def)
  have eff: "effective_qty (ob_buffer st p) q = ?Q" using effective_qty_prepared [OF acct] ord by simp
  note wf = levels_ok [OF obinv_binv [OF inv] s]
  have rej: "smp_rejects L Level s (ob_buffer st p) px q smp st \<longleftrightarrow> smp = SMP_CANCEL_NEWEST \<and> cs \<noteq> []"
  proof (cases "smp = SMP_CANCEL_NEWEST \<and> 0 < ?Q")
    case True
    have own: "own_order smp p st = (\<lambda>i. isSelfMatch (ob_buffer st p) (fullOrder i st))" using True by (simp add: own_order_def fun_eq_iff)
    show ?thesis
      using wsm_levels_level [OF wf own] sw True by (simp add: smp_rejects_def eff wouldSelfMatch_def queue_def)
  next
    case False
    then show ?thesis using sw pr_sweep_zero [of ?Q c "crosses s px"] Q0 by (auto simp: smp_rejects_def eff)
  qed
  have zero: "fs = [] \<and> es' = queue L st s" if "?Q = 0" using that sw pr_sweep_zero [of ?Q] by simp
  have loop: "\<exists>ctx st2. pr_order_loop c L s p px rt smp (leaves_quantity (ob_buffer st1 p)) (new_context et seq) st1 =
        Some (True, q', ctx, st2) \<and> obinv L binv {p} st2 \<and>
        swept L (Some p) s (id_num ord) fs es' (new_context et seq) st1 ctx st2"
    if no: "\<not> (smp = SMP_CANCEL_NEWEST \<and> cs \<noteq> [])" and ro: "reports_only p ord st st1" and inv1: "obinv L binv {p} st1" for st1
  proof -
    have buf1: "ob_buffer st1 p = ord" and l1: "ob_l3 st1 = ob_l3 st" using ro by (simp_all add: reports_only_def)
    have q1: "queue L st1 s = queue L st s" by (rule queue_reports_only [OF ro])
    have fr1: "ctx_fresh L s (id_num ord) (new_context et seq) st1" using seq by (simp add: ctx_fresh_def l1)
    have "own_order smp p st1 = own_order smp p st" using own_order_reports_only [OF ro] ord by (simp add: fun_eq_iff)
    then have "pr_sweep c (crosses s px) (own_order smp p st1) ?Q (queue L st s) = (fs, cs, es', q')" using sw by simp
    then show ?thesis
      using pr_order_loop_sweep [OF c q1 inv1 s hittable_reports_only [OF ro hit] fr1 fit Q0, of px smp fs cs es' q' rt] no
      by (auto simp: buf1 order_run_ok_def)
  qed
  note out = order_outcome [OF inv ord rej zero refl loop, of rt, folded pr_matchOrder_def]
  show "smp = SMP_CANCEL_NEWEST \<and> cs \<noteq> [] \<Longrightarrow>
      pr_matchOrder c L s p px q rt et seq smp st = Some (RJ_SMP, [], st)" by (rule out(1))
  show "\<not> (smp = SMP_CANCEL_NEWEST \<and> cs \<noteq> []) \<Longrightarrow> fok_kills L s (ob_buffer st p) px q smp st \<Longrightarrow>
      \<exists>st'. pr_matchOrder c L s p px q rt et seq smp st = Some (RJ_FOK_CANNOT_FILL, [], st') \<and>
        reports_only p (ob_buffer st p) st st'" by (rule out(2))
  show "\<not> (smp = SMP_CANCEL_NEWEST \<and> cs \<noteq> []) \<Longrightarrow> \<not> fok_kills L s (ob_buffer st p) px q smp st \<Longrightarrow>
      \<exists>sms st'. pr_matchOrder c L s p px q rt et seq smp st = Some (RJ_NONE, sms, st') \<and>
        obinv L binv {p} st' \<and> matched L p ord s et fs es' sms st st'" by (rule out(3))
qed

end

end
