(* ===== verification/Engine_Contract.thy ===== *)
theory Engine_Contract
  imports Fifo_Engine Pro_Rata_Properties
begin

text \<open>
  The interface \<open>MatchingEngine\<close> of \<open>src/src/matching_engine/matching_engine.hpp\<close> as a contract. An
  engine matches a client order and feed liquidity like an abstract \<open>spec\<close>, whose fills are within
  price and size and never with an own order. Both engines of the repository keep the contract,
  whatever L3 book they run on, and \<open>createMatchingEngine\<close> selects between them.
\<close>

section \<open>The contract\<close>

definition opposite_queue :: "Order \<Rightarrow> Side" where
  "opposite_queue ord = (if side ord = BUY then SELL else BUY)"

lemma opposite_queue_real [simp]: "real_side (opposite_queue ord)"
  by (simp add: opposite_queue_def real_side_def)

type_synonym sweep_spec =
  "(price_t \<Rightarrow> bool) \<Rightarrow> (order_num \<Rightarrow> bool) \<Rightarrow> qty_t \<Rightarrow> entry list \<Rightarrow> (entry \<times> qty_t) list \<times> entry list \<times> entry list \<times> qty_t"

type_synonym ('l, 'z) order_matcher =
  "ptr \<Rightarrow> price_t \<Rightarrow> qty_t \<Rightarrow> time_ns \<Rightarrow> time_ns \<Rightarrow> seq_t \<Rightarrow> SelfMatchPreventionMode \<Rightarrow> ('l, 'z) engine \<Rightarrow>
   (OrdRejectReason \<times> TradeSummaryInfo list \<times> ('l, 'z) engine) option"

type_synonym ('l, 'z) feed_matcher =
  "Side \<Rightarrow> order_num \<Rightarrow> price_t \<Rightarrow> qty_t \<Rightarrow> time_ns \<Rightarrow> seq_t \<Rightarrow> ('l, 'z) engine \<Rightarrow>
   (TradeSummaryInfo list \<times> qty_t \<times> ('l, 'z) engine) option"

text \<open>What an engine may assume of the state it is called in.\<close>

definition matchable :: "'l l3_ops \<Rightarrow> ('l \<Rightarrow> bool) \<Rightarrow> ptr option \<Rightarrow> Side \<Rightarrow> seq_t \<Rightarrow> ('l, 'z) engine \<Rightarrow> bool" where
  "matchable L binv A s seq st \<longleftrightarrow>
     obinv L binv (set_option A) st \<and> real_side s \<and> hittable L A s st \<and> fits (queue L st s) \<and>
     (seq = 0 \<or> l3_last_seq L (ob_l3 st) \<le> seq)"

locale matching_engine = l3_book L binv
  for L :: "'l l3_ops" and binv :: "'l \<Rightarrow> bool" +
  fixes spec :: sweep_spec
    and match_order :: "('l, 'z) order_matcher"
    and match_feed :: "('l, 'z) feed_matcher"
  assumes spec_balance: "fits es \<Longrightarrow> 0 \<le> q \<Longrightarrow> spec acc own q es = (fs, cs, es', q') \<Longrightarrow> q = filled_qty fs + q' \<and> 0 \<le> q'"
    and spec_fills: "fits es \<Longrightarrow> spec acc own q es = (fs, cs, es', q') \<Longrightarrow> (e, x) \<in> set fs \<Longrightarrow>
      e \<in> set es \<and> acc (en_price e) \<and> \<not> own (en_id e) \<and> 0 < x \<and> x \<le> en_qty e"
    and spec_places: "fits es \<Longrightarrow> spec acc own q es = (fs, cs, es', q') \<Longrightarrow> place ` set es' \<subseteq> place ` set es"
    and spec_front: "fits es \<Longrightarrow> spec acc own q es = (fs, cs, es', q') \<Longrightarrow> 0 < q' \<Longrightarrow> es' = [] \<or> \<not> acc (en_price (hd es'))"
    and spec_stop: "es = [] \<or> \<not> acc (en_price (hd es)) \<Longrightarrow> spec acc own q es = ([], [], es, q)"
    and spec_leftover: "fits es \<Longrightarrow> 0 \<le> q \<Longrightarrow> spec acc own q es = (fs, cs, es', q') \<Longrightarrow>
      sweep acc own q es = (fs2, cs2, es2, q2) \<Longrightarrow> q' = q2"
    and order_smp: "matchable L binv (Some p) s seq st \<Longrightarrow> s = opposite_queue (ob_buffer st p) \<Longrightarrow> acct_ok (ob_buffer st p) \<Longrightarrow>
      spec (crosses s px) (own_order smp p st) (leaves_quantity (prepared px q (ob_buffer st p))) (queue L st s) = (fs, cs, es', q') \<Longrightarrow>
      smp = SMP_CANCEL_NEWEST \<Longrightarrow> cs \<noteq> [] \<Longrightarrow> match_order p px q rt et seq smp st = Some (RJ_SMP, [], st)"
    and order_fok: "matchable L binv (Some p) s seq st \<Longrightarrow> s = opposite_queue (ob_buffer st p) \<Longrightarrow> acct_ok (ob_buffer st p) \<Longrightarrow>
      spec (crosses s px) (own_order smp p st) (leaves_quantity (prepared px q (ob_buffer st p))) (queue L st s) = (fs, cs, es', q') \<Longrightarrow>
      smp = SMP_CANCEL_NEWEST \<longrightarrow> cs = [] \<Longrightarrow> fok_kills L s (ob_buffer st p) px q smp st \<Longrightarrow>
      \<exists>st'. match_order p px q rt et seq smp st = Some (RJ_FOK_CANNOT_FILL, [], st') \<and> reports_only p (ob_buffer st p) st st'"
    and order_matches: "matchable L binv (Some p) s seq st \<Longrightarrow> s = opposite_queue (ob_buffer st p) \<Longrightarrow> acct_ok (ob_buffer st p) \<Longrightarrow>
      spec (crosses s px) (own_order smp p st) (leaves_quantity (prepared px q (ob_buffer st p))) (queue L st s) = (fs, cs, es', q') \<Longrightarrow>
      smp = SMP_CANCEL_NEWEST \<longrightarrow> cs = [] \<Longrightarrow> \<not> fok_kills L s (ob_buffer st p) px q smp st \<Longrightarrow>
      \<exists>sms st'. match_order p px q rt et seq smp st = Some (RJ_NONE, sms, st') \<and> obinv L binv {p} st' \<and>
        matched L p (prepared px q (ob_buffer st p)) s et fs es' sms st st'"
    and feed_matches: "matchable L binv None s seq st' \<Longrightarrow> s = (if aggressor = BUY then SELL else BUY) \<Longrightarrow> 0 \<le> q \<Longrightarrow>
      spec (crosses s px) (\<lambda>_. False) q (queue L st' s) = (fs, cs, es', q') \<Longrightarrow>
      \<exists>ctx st2. match_feed aggressor aid px q et seq st' = Some (mc_summaries ctx, q', st2) \<and> obinv L binv {} st2 \<and>
        swept L None s aid fs es' (new_context et seq) st' ctx st2"

section \<open>Both engines keep it\<close>

lemma opposite_queue_match:
  "s = opposite_queue (ob_buffer st p) \<Longrightarrow> fifo_match_order L p px q rt et seq smp st = fifo_matchOrder L s p px q rt et seq smp st"
  "s = opposite_queue (ob_buffer st p) \<Longrightarrow> pr_match_order c L p px q rt et seq smp st = pr_matchOrder c L s p px q rt et seq smp st"
  by (simp_all add: fifo_match_order_def pr_match_order_def opposite_queue_def)

lemma sweep_stop:
  "es = [] \<or> \<not> acc (en_price (hd es)) \<Longrightarrow> sweep acc own q es = ([], [], es, q)"
  "es = [] \<or> \<not> acc (en_price (hd es)) \<Longrightarrow> pr_sweep c acc own q es = ([], [], es, q)"
  by (cases es; auto)+

lemma fits_pos: "fits es \<Longrightarrow> \<forall>e\<in>set es. 0 < en_qty e"
  by (simp add: fits_def)

lemma matchableD:
  assumes "matchable L binv A s seq st"
  shows "obinv L binv (set_option A) st" and "real_side s" and "hittable L A s st" and "fits (queue L st s)"
    and "seq = 0 \<or> l3_last_seq L (ob_l3 st) \<le> seq"
  using assms by (simp_all add: matchable_def)

lemma fifo_engine:
  assumes l3: "l3_book L binv"
  shows "matching_engine L binv sweep (fifo_match_order L) (fifo_match_feed L)"
proof (intro matching_engine.intro matching_engine_axioms.intro)
  show "l3_book L binv" by (rule l3)
next
  fix p s seq px smp q fs cs es' q' rt et and st :: "('a, 'b) engine"
  assume m: "matchable L binv (Some p) s seq st" and s: "s = opposite_queue (ob_buffer st p)" and a: "acct_ok (ob_buffer st p)"
    and sw: "sweep (crosses s px) (own_order smp p st) (leaves_quantity (prepared px q (ob_buffer st p))) (queue L st s) = (fs, cs, es', q')"
  have inv: "obinv L binv {p} st" using matchableD(1) [OF m] by simp
  note out = l3_book.fifo_order_outcome [OF l3 inv matchableD(2,3,5) [OF m] a refl sw, of rt et]
  show "smp = SMP_CANCEL_NEWEST \<Longrightarrow> cs \<noteq> [] \<Longrightarrow> fifo_match_order L p px q rt et seq smp st = Some (RJ_SMP, [], st)"
    using out(1) by (simp add: opposite_queue_match [OF s])
  show "smp = SMP_CANCEL_NEWEST \<longrightarrow> cs = [] \<Longrightarrow> fok_kills L s (ob_buffer st p) px q smp st \<Longrightarrow>
      \<exists>st'. fifo_match_order L p px q rt et seq smp st = Some (RJ_FOK_CANNOT_FILL, [], st') \<and> reports_only p (ob_buffer st p) st st'"
    using out(2) by (auto simp: opposite_queue_match [OF s])
  show "smp = SMP_CANCEL_NEWEST \<longrightarrow> cs = [] \<Longrightarrow> \<not> fok_kills L s (ob_buffer st p) px q smp st \<Longrightarrow>
      \<exists>sms st'. fifo_match_order L p px q rt et seq smp st = Some (RJ_NONE, sms, st') \<and> obinv L binv {p} st' \<and>
        matched L p (prepared px q (ob_buffer st p)) s et fs es' sms st st'"
    using out(3) by (auto simp: opposite_queue_match [OF s])
next
  fix s seq aggressor q px fs cs es' q' aid et and st' :: "('a, 'b) engine"
  assume m: "matchable L binv None s seq st'" and s: "s = (if aggressor = BUY then SELL else BUY)" and q: "0 \<le> q"
    and sw: "sweep (crosses s px) (\<lambda>_. False) q (queue L st' s) = (fs, cs, es', q')"
  have inv: "obinv L binv {} st'" using matchableD(1) [OF m] by simp
  have fr: "ctx_fresh L s aid (new_context et seq) st'" using matchableD(5) [OF m] by (simp add: ctx_fresh_def)
  show "\<exists>ctx st2. fifo_match_feed L aggressor aid px q et seq st' = Some (mc_summaries ctx, q', st2) \<and> obinv L binv {} st2 \<and>
      swept L None s aid fs es' (new_context et seq) st' ctx st2"
    using l3_book.feed_loop_sweep [OF l3 refl inv matchableD(2,3) [OF m] fr q sw] s
    by (auto simp: fifo_match_feed_def fifo_matchFeed_def)
qed (auto dest: sweep_balance sweep_fills [OF _ fits_pos] sweep_places sweep_leftover simp: sweep_stop)

lemma pro_rata_engine:
  assumes l3: "l3_book L binv" and c: "validate c = Inr ()"
  shows "matching_engine L binv (pr_sweep c) (pr_match_order c L) (pr_match_feed c L)"
proof (intro matching_engine.intro matching_engine_axioms.intro)
  show "l3_book L binv" by (rule l3)
next
  fix p s seq px smp q fs cs es' q' rt et and st :: "('a, 'b) engine"
  assume m: "matchable L binv (Some p) s seq st" and s: "s = opposite_queue (ob_buffer st p)" and a: "acct_ok (ob_buffer st p)"
    and sw: "pr_sweep c (crosses s px) (own_order smp p st) (leaves_quantity (prepared px q (ob_buffer st p))) (queue L st s) = (fs, cs, es', q')"
  have inv: "obinv L binv {p} st" using matchableD(1) [OF m] by simp
  note out = l3_book.pr_order_outcome [OF l3 c inv matchableD(2,3,5) [OF m] a matchableD(4) [OF m] refl sw, of rt et]
  show "smp = SMP_CANCEL_NEWEST \<Longrightarrow> cs \<noteq> [] \<Longrightarrow> pr_match_order c L p px q rt et seq smp st = Some (RJ_SMP, [], st)"
    using out(1) by (simp add: opposite_queue_match [OF s])
  show "smp = SMP_CANCEL_NEWEST \<longrightarrow> cs = [] \<Longrightarrow> fok_kills L s (ob_buffer st p) px q smp st \<Longrightarrow>
      \<exists>st'. pr_match_order c L p px q rt et seq smp st = Some (RJ_FOK_CANNOT_FILL, [], st') \<and> reports_only p (ob_buffer st p) st st'"
    using out(2) by (auto simp: opposite_queue_match [OF s])
  show "smp = SMP_CANCEL_NEWEST \<longrightarrow> cs = [] \<Longrightarrow> \<not> fok_kills L s (ob_buffer st p) px q smp st \<Longrightarrow>
      \<exists>sms st'. pr_match_order c L p px q rt et seq smp st = Some (RJ_NONE, sms, st') \<and> obinv L binv {p} st' \<and>
        matched L p (prepared px q (ob_buffer st p)) s et fs es' sms st st'"
    using out(3) by (auto simp: opposite_queue_match [OF s])
next
  fix s seq aggressor q px fs cs es' q' aid et and st' :: "('a, 'b) engine"
  assume m: "matchable L binv None s seq st'" and s: "s = (if aggressor = BUY then SELL else BUY)" and q: "0 \<le> q"
    and sw: "pr_sweep c (crosses s px) (\<lambda>_. False) q (queue L st' s) = (fs, cs, es', q')"
  have inv: "obinv L binv {} st'" using matchableD(1) [OF m] by simp
  have fr: "ctx_fresh L s aid (new_context et seq) st'" using matchableD(5) [OF m] by (simp add: ctx_fresh_def)
  show "\<exists>ctx st2. pr_match_feed c L aggressor aid px q et seq st' = Some (mc_summaries ctx, q', st2) \<and> obinv L binv {} st2 \<and>
      swept L None s aid fs es' (new_context et seq) st' ctx st2"
    using l3_book.pr_feed_loop_sweep [OF l3 c refl inv matchableD(2,3) [OF m] fr matchableD(4) [OF m] q sw] s
    by (auto simp: pr_match_feed_def pr_matchFeed_def)
qed (auto dest: pr_sweep_balance [OF _ c] pr_sweep_fills [OF _ c] pr_sweep_places pr_sweep_leftover [OF _ c] pr_sweep_leftover_eq simp: sweep_stop)

section \<open>The engine of a symbol\<close>

text \<open>An engine object: the virtual call \<open>match\<close> dispatches on it.\<close>

datatype engine_obj = FifoMatchingEngine | ProRataMatchingEngine ProRataConfig

text \<open>The constructor of the pro-rata engine validates its rules.\<close>

definition createMatchingEngine :: "MatchingConfig \<Rightarrow> config_error + engine_obj" where
  "createMatchingEngine config =
     (if mc_type config = ProRata then
        (case validate (mc_pro_rata config) of
           Inl e \<Rightarrow> Inl e
         | Inr _ \<Rightarrow> Inr (ProRataMatchingEngine (mc_pro_rata config)))
      else Inr FifoMatchingEngine)"

definition engine_type :: "engine_obj \<Rightarrow> EngineType" where
  "engine_type e = (case e of FifoMatchingEngine \<Rightarrow> FIFO | ProRataMatchingEngine _ \<Rightarrow> ProRata)"

definition engine_match_order :: "'l l3_ops \<Rightarrow> engine_obj \<Rightarrow> ('l, 'z) order_matcher" where
  "engine_match_order L e = (case e of
      FifoMatchingEngine \<Rightarrow> fifo_match_order L
    | ProRataMatchingEngine c \<Rightarrow> pr_match_order c L)"

definition engine_match_feed :: "'l l3_ops \<Rightarrow> engine_obj \<Rightarrow> ('l, 'z) feed_matcher" where
  "engine_match_feed L e = (case e of
      FifoMatchingEngine \<Rightarrow> fifo_match_feed L
    | ProRataMatchingEngine c \<Rightarrow> pr_match_feed c L)"

fun engine_spec :: "engine_obj \<Rightarrow> sweep_spec" where
  "engine_spec FifoMatchingEngine = sweep"
| "engine_spec (ProRataMatchingEngine c) = pr_sweep c"

fun engine_valid :: "engine_obj \<Rightarrow> bool" where
  "engine_valid FifoMatchingEngine = True"
| "engine_valid (ProRataMatchingEngine c) = (validate c = Inr ())"

lemma created_valid: "createMatchingEngine config = Inr e \<Longrightarrow> engine_valid e \<and> engine_type e = mc_type config"
  by (cases "mc_type config") (auto simp: createMatchingEngine_def engine_type_def split: sum.splits)

lemma engine_contract:
  assumes "l3_book L binv" and "engine_valid e"
  shows "matching_engine L binv (engine_spec e) (engine_match_order L e) (engine_match_feed L e)"
  using fifo_engine [OF assms(1)] pro_rata_engine [OF assms(1)] assms(2)
  by (cases e) (simp_all add: engine_match_order_def engine_match_feed_def)

interpretation fifo_ref: matching_engine rf_ops rf_inv sweep "fifo_match_order rf_ops" "fifo_match_feed rf_ops"
  by (rule fifo_engine [OF ref.l3_book_axioms])

interpretation pro_rata_ref: matching_engine rf_ops rf_inv "pr_sweep default_pro_rata"
    "pr_match_order default_pro_rata rf_ops" "pr_match_feed default_pro_rata rf_ops"
  by (rule pro_rata_engine [OF ref.l3_book_axioms])
    (simp add: validate_def default_pro_rata_def DOUBLE_MULTIPLIER_def)

end
