(* ===== verification/Fifo_Properties.thy ===== *)
theory Fifo_Properties
  imports Fifo_Engine
begin

text \<open>
  What the FIFO engine promises, for every L3 book that keeps its contract, with concrete runs
  on the reference book.
\<close>

section \<open>Example states\<close>

definition blank_response :: OrderResponse where
  "blank_response = \<lparr>r_symbol = [], r_user_id = [], r_client_order_id = [], r_order_id = [], r_error_message = [],
     r_response_type = MT_UNKNOWN, r_exec_type = ET_NEW, r_order_status = OS_NEW, r_order_type = OT_UNKNOWN,
     r_time_in_force = TIF_DAY, r_price = NULL_PRICE, r_last_fill_price = NULL_PRICE, r_avg_fill_price = NULL_PRICE,
     r_qty = 0, r_last_qty = 0, r_cum_qty = 0, r_leaves_qty = 0, r_reject_reason = RJ_NONE, r_creation_time = 0,
     r_request_time = 0, r_timestamp = 0, r_side = UNKNOWN_SIDE, r_post_only = False, r_order_num = 0,
     r_request_tag = 0, r_aggressor = False\<rparr>"

definition new_engine :: "'l OrderBook \<Rightarrow> 'l Engine" where
  "new_engine b = OrderBook.extend b (Engine.fields [] (\<lambda>_. blank_response) 1)"

lemma new_engine_sel [simp]:
  "ob_l3 (new_engine b) = ob_l3 b" "ob_orders (new_engine b) = ob_orders b" "ob_live (new_engine b) = ob_live b"
  "ob_buffer (new_engine b) = ob_buffer b" "ob_by_client (new_engine b) = ob_by_client b"
  "ob_by_order (new_engine b) = ob_by_order b" "ob_md_qty (new_engine b) = ob_md_qty b"
  "queue L (new_engine b) s = queue L b s" "obinv L I P (new_engine b) = obinv L I P b"
proof -
  show 1: "ob_l3 (new_engine b) = ob_l3 b" "ob_orders (new_engine b) = ob_orders b" "ob_live (new_engine b) = ob_live b"
    "ob_buffer (new_engine b) = ob_buffer b" "ob_by_client (new_engine b) = ob_by_client b"
    "ob_by_order (new_engine b) = ob_by_order b" "ob_md_qty (new_engine b) = ob_md_qty b"
    by (simp_all add: new_engine_def OrderBook.defs)
  show "queue L (new_engine b) s = queue L b s" by (simp add: queue_def 1)
  show "obinv L I P (new_engine b) = obinv L I P b" by (rule obinv_cong) (simp_all add: 1)
qed

text \<open>One of our buy orders (id 1, price 100, 5 left, slot 7) rests.\<close>

definition ex_engine :: "ref_book Engine" where
  "ex_engine = new_engine (addOrder rf_ops 7 4 0 True ex_book)"

text \<open>The same, with an incoming sell order of 8 at 90 in slot 8.\<close>

definition ex_incoming :: "TimeInForce \<Rightarrow> int \<Rightarrow> ref_book Engine" where
  "ex_incoming tif cid = set_order 8 (\<lambda>ord. (resetFillAccounting 8 ord)\<lparr>price := 90, side := SELL, status := OS_PENDING_NEW,
      time_in_force := tif, client_id := cid\<rparr>) (allocateOrder 8 ''u2'' 5 ex_engine)"

lemma ex_engine_sel:
  "ob_l3 ex_engine = ob_l3 (addOrder rf_ops 7 4 0 True ex_book)" "ob_orders ex_engine = [1 \<mapsto> 7]"
  "queue rf_ops ex_engine BUY = [\<lparr>en_price = 100, en_id = 1, en_qty = 5, en_prio = 1\<rparr>]"
  "queue rf_ops ex_engine SELL = []" "obinv rf_ops rf_inv {} ex_engine" "ob_live ex_engine = {7}"
  "client_id (ob_buffer ex_engine 7) = 3"
  by (simp_all add: ex_engine_def ex_rested ex_book_sel)

lemma ex_incoming_sel:
  "ob_orders (ex_incoming tif c) = [1 \<mapsto> 7]" "ob_l3 (ex_incoming tif c) = ob_l3 ex_engine"
  "queue rf_ops (ex_incoming tif c) s = queue rf_ops ex_engine s"
  "leaves_quantity (ob_buffer (ex_incoming tif c) 8) = 8" "side (ob_buffer (ex_incoming tif c) 8) = SELL"
  "status (ob_buffer (ex_incoming tif c) 8) = OS_PENDING_NEW" "time_in_force (ob_buffer (ex_incoming tif c) 8) = tif"
  "acct_ok (ob_buffer (ex_incoming tif c) 8)" "client_id (ob_buffer (ex_incoming tif c) 8) = c"
  "client_id (ob_buffer (ex_incoming tif c) 7) = 3" "quantity (ob_buffer (ex_incoming tif c) 8) = 8"
  using ex_engine_sel
  by (simp_all add: ex_incoming_def resetFillAccounting_def acct_ok_def) (simp_all add: allocateOrder_eq)

lemma ex_incoming_inv: "obinv rf_ops rf_inv P (ex_incoming tif c)"
proof -
  have "obinv rf_ops rf_inv {} (allocateOrder 8 ''u2'' 5 ex_engine)"
    using ex_engine_sel by (intro obinv_allocate) auto
  then have "obinv rf_ops rf_inv {} (ex_incoming tif c)"
    unfolding ex_incoming_def by (intro obinv_unowned) (auto simp: ex_engine_sel)
  then show ?thesis by (rule obinv_mono) simp
qed

lemma rf_seq_ref [simp]: "l3_last_seq rf_ops l = rf_seq l"
  by simp

section \<open>Liquidity from the feed\<close>

text \<open>
  C9. FIFO matching of feed liquidity is price-time priority. On a well-formed book the loop of
  \<open>matchFeed\<close> always returns; its fills, in order, are exactly those of the abstract sweep of the
  resting queue (best price first, queue order within a price, never beyond the limit price),
  the book that remains is the sweep's, the other side is untouched, the quantity filled plus
  the quantity left over is the quantity that came in, the phantom part of the trades is what
  was taken from liquidity the simulator does not own, and no pool slot leaks.
\<close>

theorem fifo_feed_refines_sweep:
  assumes "l3_book L binv" and "obinv L binv {} st" and "s = (if aggressor = BUY then SELL else BUY)"
    and "hittable L None s st" and "0 \<le> qty" and "seq = 0 \<or> l3_last_seq L (ob_l3 st) \<le> seq"
  shows "\<exists>sms qty' st' fs es'.
    fifo_match_feed L aggressor aid px qty et seq st = Some (sms, qty', st') \<and>
    sweep (crosses s px) (\<lambda>_. False) qty (queue L st s) = (fs, [], es', qty') \<and>
    queue L st' s = es' \<and> queue L st' (opposite_side s) = queue L st (opposite_side s) \<and>
    obinv L binv {} st' \<and> legs sms = fill_legs fs \<and> list_all (summary_ok s aid) sms \<and>
    phantom_traded sms = phantom_fills (ob_orders st) fs \<and> qty = filled_qty fs + qty' \<and> pool_kept st st'"
proof -
  have s: "real_side s" using assms(3) by (simp add: real_side_def)
  obtain fs cs es' qty' where sw: "sweep (crosses s px) (\<lambda>_. False) qty (queue L st s) = (fs, cs, es', qty')"
    by (metis prod_cases4)
  have cs: "cs = []" using sweep_cancels [OF sw] by (cases cs) auto
  have fr: "ctx_fresh L s aid (new_context et seq) st" using assms(6) by (simp add: ctx_fresh_def)
  obtain ctx st' where "fifo_feed_loop L s aid px qty (new_context et seq) st = Some (qty', ctx, st')"
    "obinv L binv {} st'" "swept L None s aid fs es' (new_context et seq) st ctx st'"
    using l3_book.feed_loop_sweep [OF assms(1) refl assms(2) s assms(4) fr assms(5) sw] by blast
  then show ?thesis
    using sw sweep_balance [OF sw assms(5)] assms(3)
    by (intro exI [of _ "mc_summaries ctx"] exI [of _ qty'] exI [of _ st'] exI [of _ fs] exI [of _ es'])
      (auto simp: fifo_match_feed_def fifo_matchFeed_def swept_def ctx_fresh_def ctx_ok_def cs)
qed

theorem fifo_feed_refines_sweep_witness:
  "\<exists>sms st'. fifo_match_feed rf_ops SELL 99 100 3 10 0 ex_engine = Some (sms, 0, st') \<and>
     legs sms = [(100, 1, 3)] \<and> queue rf_ops st' BUY = [\<lparr>en_price = 100, en_id = 1, en_qty = 2, en_prio = 1\<rparr>]"
proof -
  have "hittable rf_ops None BUY ex_engine" by (simp add: hittable_def ex_engine_sel NULL_PRICE_def)
  then show ?thesis
    using fifo_feed_refines_sweep [OF ref.l3_book_axioms ex_engine_sel(5), of BUY SELL 3 0 99 100 10]
    by (auto simp: ex_engine_sel crosses_def isPriceBetterOrEqual_def)
qed

section \<open>Client orders\<close>

text \<open>The side an order matches against.\<close>

definition resting_side :: "Order \<Rightarrow> Side" where
  "resting_side ord = (if side ord = BUY then SELL else BUY)"

lemma resting_side_real [simp]: "real_side (resting_side ord)"
  by (simp add: resting_side_def real_side_def)

text \<open>
  C8. FIFO matching of a client order, new or amended, without fill-or-kill. The loop of
  \<open>matchOrder\<close> always returns and performs exactly the abstract sweep with the client's own
  orders cancelled (\<open>CANCEL_RESTING\<close>) or traded (no prevention): every trade is at a price the
  limit accepts and with nobody's own order under prevention, the order's record is its prepared
  record with these fills applied and its leaves are what the sweep leaves over, what remains on
  the other side is a tail of the old queue in unchanged order, and if quantity is left then
  nothing the limit accepts remains in front.
\<close>

theorem fifo_order_refines_sweep:
  assumes "l3_book L binv" and "obinv L binv {p} st" and "s = resting_side (ob_buffer st p)"
    and "hittable L (Some p) s st" and "seq = 0 \<or> l3_last_seq L (ob_l3 st) \<le> seq" and "acct_ok (ob_buffer st p)"
    and "smp \<noteq> SMP_CANCEL_NEWEST" and "time_in_force (ob_buffer st p) \<noteq> TIF_FILL_OR_KILL"
  shows "\<exists>sms st' fs cs es' q'. let ord = prepared px q (ob_buffer st p) in
    sweep (crosses s px) (own_order smp p st) (leaves_quantity ord) (queue L st s) = (fs, cs, es', q') \<and>
    fifo_match_order L p px q rt et seq smp st = Some (RJ_NONE, sms, st') \<and>
    obinv L binv {p} st' \<and> matched L p ord s et fs es' sms st st' \<and>
    leaves_quantity (ob_buffer st' p) = q' \<and> 0 \<le> q' \<and>
    (\<forall>(e, x)\<in>set fs. crosses s px (en_price e) \<and> \<not> own_order smp p st (en_id e) \<and> 0 < x \<and> x \<le> en_qty e) \<and>
    tail_of es' (queue L st s) \<and> (0 < q' \<longrightarrow> es' = [] \<or> \<not> crosses s px (en_price (hd es')))"
proof -
  let ?ord = "prepared px q (ob_buffer st p)"
  have s: "real_side s" using assms(3) by simp
  have Q: "0 \<le> leaves_quantity ?ord" using assms(6) by (auto simp: prepared_def applyReplace_def acct_ok_def)
  have pos: "\<forall>e\<in>set (queue L st s). 0 < en_qty e" using l3_book.queue_pos [OF assms(1,2) s] by blast
  obtain fs cs es' q' where sw:
    "sweep (crosses s px) (own_order smp p st) (leaves_quantity ?ord) (queue L st s) = (fs, cs, es', q')"
    by (metis prod_cases4)
  have nf: "\<not> fok_kills L s (ob_buffer st p) px q smp st" using assms(8) by (simp add: fok_kills_def)
  obtain sms st' where run: "fifo_matchOrder L s p px q rt et seq smp st = Some (RJ_NONE, sms, st')"
    "obinv L binv {p} st'" and m: "matched L p ?ord s et fs es' sms st st'"
    using l3_book.fifo_order_outcome(3) [OF assms(1,2) s assms(4-6) refl sw _ nf] assms(7) by blast
  have "leaves_quantity (ob_buffer st' p) = leaves_quantity ?ord - filled_qty fs" using m unfolding matched_def by blast
  then have "leaves_quantity (ob_buffer st' p) = q'" using sweep_balance [OF sw Q] by linarith
  then show ?thesis
    using sw run m sweep_balance [OF sw Q] sweep_fills [OF sw pos] sweep_tail [OF sw] sweep_leftover [OF sw] assms(3)
    unfolding Let_def fifo_match_order_def resting_side_def
    by (intro exI [of _ sms] exI [of _ st'] exI [of _ fs] exI [of _ cs] exI [of _ es'] exI [of _ q']) auto
qed

lemma ex_hittable: "hittable rf_ops (Some 8) BUY (ex_incoming tif c)"
  by (simp add: hittable_def ex_incoming_sel ex_engine_sel NULL_PRICE_def)

lemma ex_resting_side: "resting_side (ob_buffer (ex_incoming tif c) 8) = BUY"
  by (simp add: resting_side_def ex_incoming_sel)

theorem fifo_order_refines_sweep_witness:
  "\<exists>sms st'. fifo_match_order rf_ops 8 90 8 1 2 0 SMP_NONE (ex_incoming TIF_DAY 4) = Some (RJ_NONE, sms, st') \<and>
     legs sms = [(100, 1, 5)] \<and> queue rf_ops st' BUY = [] \<and> leaves_quantity (ob_buffer st' 8) = 3"
  using fifo_order_refines_sweep [where seq = 0 and smp = SMP_NONE and px = 90 and q = 8 and rt = 1 and et = 2,
      OF ref.l3_book_axioms ex_incoming_inv [of _ TIF_DAY 4] ex_resting_side [symmetric] ex_hittable]
  by (auto simp: Let_def ex_incoming_sel ex_engine_sel own_order_def crosses_def isPriceBetterOrEqual_def
      prepared_def matched_def NULL_PRICE_def)





end
