(* ===== verification/Ring_Buffer.thy ===== *)
theory Ring_Buffer
  imports Sim_Prelude
begin

text \<open>
  \<open>src/src/utils/ring_buffer.hpp\<close>: the power-of-two ring behind the trade history. The
  indices count up for ever and are masked on access; the abstraction \<open>ring_list\<close> reads
  the live items from the oldest to the newest.
\<close>

unbundle bit_operations_syntax

section \<open>State and operations\<close>

record 'a ring =
  rb_capacity :: nat
  rb_buffer :: "'a list"
  rb_head :: nat
  rb_tail :: nat
  rb_mask :: nat

text \<open>\<open>new T[capacity]\<close> default-constructs the items; \<open>d\<close> is that value.\<close>

definition rb_new :: "'a \<Rightarrow> nat \<Rightarrow> 'a ring" where
  "rb_new d capacity =
     \<lparr>rb_capacity = capacity, rb_buffer = replicate capacity d, rb_head = 0, rb_tail = 0,
      rb_mask = capacity - 1\<rparr>"

definition rb_size :: "'a ring \<Rightarrow> nat" where
  "rb_size r = rb_head r - rb_tail r"

definition rb_isEmpty :: "'a ring \<Rightarrow> bool" where
  "rb_isEmpty r \<longleftrightarrow> rb_head r = rb_tail r"

definition rb_isFull :: "'a ring \<Rightarrow> bool" where
  "rb_isFull r \<longleftrightarrow> rb_size r = rb_capacity r"

definition rb_store :: "'a \<Rightarrow> 'a ring \<Rightarrow> 'a ring" where
  "rb_store item r = r\<lparr>rb_buffer := (rb_buffer r)[rb_head r AND rb_mask r := item],
                       rb_head := rb_head r + 1\<rparr>"

definition rb_push :: "'a \<Rightarrow> 'a ring \<Rightarrow> 'a ring" where
  "rb_push item r =
     (let r1 = rb_store item r
      in if (rb_head r1 AND rb_mask r1) = (rb_tail r1 AND rb_mask r1)
         then r1\<lparr>rb_tail := rb_tail r1 + 1\<rparr> else r1)"

definition rb_try_push :: "'a \<Rightarrow> 'a ring \<Rightarrow> bool \<times> 'a ring" where
  "rb_try_push item r = (if rb_size r = rb_capacity r then (False, r) else (True, rb_store item r))"

definition rb_pop_front :: "'a ring \<Rightarrow> ('a \<times> 'a ring) option" where
  "rb_pop_front r =
     (if rb_isEmpty r then None
      else Some (rb_buffer r ! (rb_tail r AND rb_mask r), r\<lparr>rb_tail := rb_tail r + 1\<rparr>))"

definition rb_pop_back :: "'a ring \<Rightarrow> ('a \<times> 'a ring) option" where
  "rb_pop_back r =
     (if rb_isEmpty r then None
      else Some (rb_buffer r ! ((rb_head r - 1) AND rb_mask r), r\<lparr>rb_head := rb_head r - 1\<rparr>))"

definition rb_front :: "'a ring \<Rightarrow> 'a" where
  "rb_front r = rb_buffer r ! (rb_tail r AND rb_mask r)"

definition rb_back :: "'a ring \<Rightarrow> 'a" where
  "rb_back r = rb_buffer r ! ((rb_head r - 1) AND rb_mask r)"

definition rb_at :: "'a ring \<Rightarrow> nat \<Rightarrow> 'a option" where
  "rb_at r index =
     (if index \<ge> rb_size r then None else Some (rb_buffer r ! ((rb_tail r + index) AND rb_mask r)))"

section \<open>Invariant and abstraction\<close>

definition rb_inv :: "'a ring \<Rightarrow> bool" where
  "rb_inv r \<longleftrightarrow>
     (\<exists>k. rb_capacity r = 2 ^ k) \<and> rb_mask r = rb_capacity r - 1 \<and>
     length (rb_buffer r) = rb_capacity r \<and> rb_tail r \<le> rb_head r \<and> rb_size r \<le> rb_capacity r"

definition ring_list :: "'a ring \<Rightarrow> 'a list" where
  "ring_list r = map (\<lambda>i. rb_buffer r ! (i mod rb_capacity r)) [rb_tail r..<rb_head r]"

lemma and_mask_mod: "rb_inv r \<Longrightarrow> n AND rb_mask r = n mod rb_capacity r"
proof -
  assume "rb_inv r"
  then obtain k where "rb_capacity r = 2 ^ k" and "rb_mask r = 2 ^ k - 1"
    by (auto simp: rb_inv_def)
  moreover have "n AND (2 ^ k - 1) = n mod 2 ^ k"
    by (metis mask_eq_exp_minus_1 take_bit_eq_mask take_bit_eq_mod)
  ultimately show ?thesis by simp
qed

lemma rb_inv_cap_pos: "rb_inv r \<Longrightarrow> 0 < rb_capacity r"
  by (auto simp: rb_inv_def)

lemma length_ring_list [simp]: "length (ring_list r) = rb_size r"
  by (simp add: ring_list_def rb_size_def)

lemma mod_window_neq:
  fixes i j n :: nat
  assumes "i < j" and "j < i + n"
  shows "i mod n \<noteq> j mod n"
proof
  assume "i mod n = j mod n"
  with assms(1) have "n dvd j - i" by (metis mod_eq_dvd_iff_nat less_imp_le_nat)
  moreover have "0 < j - i" "j - i < n" using assms by auto
  ultimately show False using nat_dvd_not_less by blast
qed

lemma rb_store_list:
  assumes "rb_inv r" and "rb_size r < rb_capacity r"
  shows "rb_inv (rb_store x r)" and "ring_list (rb_store x r) = ring_list r @ [x]"
proof -
  show "rb_inv (rb_store x r)"
    using assms by (auto simp: rb_inv_def rb_store_def rb_size_def)
  have neq: "rb_head r mod rb_capacity r \<noteq> i mod rb_capacity r"
    if "i \<in> {rb_tail r..<rb_head r}" for i
  proof -
    have "rb_head r < i + rb_capacity r" using that assms(2) by (auto simp: rb_size_def)
    with that mod_window_neq [of i "rb_head r" "rb_capacity r"] show ?thesis by auto
  qed
  have head: "rb_head r mod rb_capacity r < length (rb_buffer r)"
    using assms rb_inv_cap_pos [of r] by (simp add: rb_inv_def)
  have "rb_tail r \<le> rb_head r" using assms(1) by (simp add: rb_inv_def)
  then show "ring_list (rb_store x r) = ring_list r @ [x]"
    using head by (simp add: ring_list_def rb_store_def and_mask_mod [OF assms(1)] neq)
qed

lemma rb_drop_oldest:
  assumes "rb_tail r < rb_head r"
  shows "ring_list (r\<lparr>rb_tail := rb_tail r + 1\<rparr>) = tl (ring_list r)"
  using assms by (simp add: ring_list_def upt_conv_Cons)

lemma rb_push_list:
  assumes "rb_inv r" and "rb_size r < rb_capacity r"
  shows "rb_inv (rb_push x r)"
    and "ring_list (rb_push x r) =
           (if rb_size r + 1 = rb_capacity r then tl (ring_list r @ [x]) else ring_list r @ [x])"
    and "rb_size (rb_push x r) = (if rb_size r + 1 = rb_capacity r then rb_size r else rb_size r + 1)"
proof -
  let ?s = "rb_store x r"
  note st = rb_store_list [OF assms, of x]
  have fields: "rb_head ?s = rb_head r + 1" "rb_tail ?s = rb_tail r" "rb_capacity ?s = rb_capacity r"
    by (simp_all add: rb_store_def)
  have le: "rb_tail r \<le> rb_head r" using assms(1) by (simp add: rb_inv_def)
  have full: "(rb_head ?s AND rb_mask ?s) = (rb_tail ?s AND rb_mask ?s) \<longleftrightarrow> rb_size r + 1 = rb_capacity r"
  proof -
    have "(rb_head r + 1) mod rb_capacity r = rb_tail r mod rb_capacity r \<longleftrightarrow> rb_size r + 1 = rb_capacity r"
    proof
      assume eq: "rb_size r + 1 = rb_capacity r"
      then have "rb_head r + 1 = rb_tail r + rb_capacity r" using le by (simp add: rb_size_def)
      then show "(rb_head r + 1) mod rb_capacity r = rb_tail r mod rb_capacity r" by simp
    next
      assume eq: "(rb_head r + 1) mod rb_capacity r = rb_tail r mod rb_capacity r"
      show "rb_size r + 1 = rb_capacity r"
      proof (rule ccontr)
        assume "rb_size r + 1 \<noteq> rb_capacity r"
        then have "rb_head r + 1 < rb_tail r + rb_capacity r"
          using assms(2) le by (simp add: rb_size_def)
        then show False using mod_window_neq [of "rb_tail r" "rb_head r + 1" "rb_capacity r"] le eq by simp
      qed
    qed
    then show ?thesis by (simp add: and_mask_mod [OF st(1)] fields)
  qed
  have lt: "rb_tail ?s < rb_head ?s" using le by (simp add: fields)
  show "rb_inv (rb_push x r)"
    using st(1) lt by (auto simp: rb_push_def Let_def rb_inv_def rb_size_def)
  show "ring_list (rb_push x r) =
      (if rb_size r + 1 = rb_capacity r then tl (ring_list r @ [x]) else ring_list r @ [x])"
    using rb_drop_oldest [OF lt] st(2) full by (simp add: rb_push_def Let_def)
  show "rb_size (rb_push x r) = (if rb_size r + 1 = rb_capacity r then rb_size r else rb_size r + 1)"
    using full le by (simp add: rb_push_def Let_def rb_size_def fields Suc_diff_le)
qed

lemma rb_new_inv: "rb_inv (rb_new d (2 ^ k))" "ring_list (rb_new d n) = []" "rb_size (rb_new d n) = 0"
  by (auto simp: rb_inv_def rb_new_def rb_size_def ring_list_def)

lemma rb_at_ring_list: "rb_inv r \<Longrightarrow> rb_at r i = (if i < rb_size r then Some (ring_list r ! i) else None)"
  by (auto simp: rb_at_def ring_list_def and_mask_mod rb_size_def)

lemma ring_pushes:
  assumes "0 < k" and "r = foldl (\<lambda>r x. rb_push x r) (rb_new d (2 ^ k)) xs"
  shows "rb_inv r" "rb_capacity r = 2 ^ k" "rb_size r = min (length xs) (2 ^ k - 1)" "ring_list r = drop (length xs - (2 ^ k - 1)) xs"
proof -
  define run where "run ys = foldl (\<lambda>r x. rb_push x r) (rb_new d (2 ^ k)) ys" for ys
  have cap2: "2 \<le> (2 :: nat) ^ k" using assms(1) by (cases k) auto
  have cap: "rb_capacity (rb_push x s) = rb_capacity s" for x s
    by (simp add: rb_push_def rb_store_def Let_def)
  have "rb_inv (run xs) \<and> rb_capacity (run xs) = 2 ^ k \<and> rb_size (run xs) = min (length xs) (2 ^ k - 1) \<and>
        ring_list (run xs) = drop (length xs - (2 ^ k - 1)) xs"
  proof (induction xs rule: rev_induct)
    case Nil
    have "rb_capacity (rb_new d (2 ^ k)) = 2 ^ k" by (simp add: rb_new_def)
    with rb_new_inv(1) [of d k] rb_new_inv(2,3) [of d "2 ^ k"] show ?case by (simp add: run_def)
  next
    case (snoc x xs)
    have step: "run (xs @ [x]) = rb_push x (run xs)" by (simp add: run_def)
    have lt: "rb_size (run xs) < rb_capacity (run xs)" using snoc cap2 by auto
    note p = rb_push_list [of "run xs" x, OF _ lt]
    show ?case
    proof (cases "length xs < 2 ^ k - 1")
      case True
      then show ?thesis using snoc p cap2 by (simp add: step cap min_def)
    next
      case False
      define ys where "ys = drop (length xs - (2 ^ k - 1)) xs"
      have ne: "ys \<noteq> []" using False cap2 by (auto simp: ys_def)
      have suc: "length (xs @ [x]) - (2 ^ k - 1) = Suc (length xs - (2 ^ k - 1))" using False by simp
      have "drop (Suc (length xs - (2 ^ k - 1))) (xs @ [x]) = tl ys @ [x]"
        using ne by (simp add: ys_def drop_Suc tl_drop)
      moreover have "rb_size (run xs) + 1 = rb_capacity (run xs)" using False snoc cap2 by simp
      moreover have "tl (ys @ [x]) = tl ys @ [x]" using ne by simp
      ultimately show ?thesis using snoc p False cap2 suc
        by (simp only: step cap) (simp add: ys_def)
    qed
  qed
  then show "rb_inv r" "rb_capacity r = 2 ^ k" "rb_size r = min (length xs) (2 ^ k - 1)" "ring_list r = drop (length xs - (2 ^ k - 1)) xs"
    by (simp_all add: run_def assms(2))
qed

text \<open>
  A ring that is only pushed to holds exactly the newest \<open>capacity - 1\<close> items, oldest
  first, whatever the number of pushes: pushing never fills the last slot. Indexing reads
  that list and answers null behind it.
\<close>

theorem ring_push_keeps_newest:
  assumes "0 < k"
  shows "let r = foldl (\<lambda>r x. rb_push x r) (rb_new d (2 ^ k)) xs in
           ring_list r = drop (length xs - (2 ^ k - 1)) xs \<and>
           rb_size r = min (length xs) (2 ^ k - 1) \<and> \<not> rb_isFull r \<and>
           (\<forall>i. rb_at r i = (if i < rb_size r then Some (ring_list r ! i) else None))"
proof -
  have "(2 :: nat) \<le> 2 ^ k" using assms by (cases k) auto
  then show ?thesis using ring_pushes [OF assms refl, of d xs] by (simp add: Let_def rb_isFull_def rb_at_ring_list)
qed

theorem ring_push_keeps_newest_witness:
  "0 < (2 :: nat) \<and> ring_list (foldl (\<lambda>r x. rb_push x r) (rb_new 0 (2 ^ 2)) [1, 2, 3, 4, 5 :: int]) = [3, 4, 5]"
  using ring_push_keeps_newest [of 2 0 "[1, 2, 3, 4, 5 :: int]"] by (simp add: Let_def)

text \<open>
  The bounded operations form a double-ended queue over the abstraction: below capacity
  \<open>try_push\<close> appends and at capacity it refuses and changes nothing, \<open>pop_front\<close> and
  \<open>pop_back\<close> take the oldest and the newest item and fail exactly on the empty ring, and
  every one of them keeps the ring well formed.
\<close>

theorem ring_deque:
  assumes "rb_inv r"
  shows "(rb_size r < rb_capacity r \<longrightarrow>
            (\<exists>r'. rb_try_push x r = (True, r') \<and> rb_inv r' \<and> ring_list r' = ring_list r @ [x])) \<and>
         (rb_size r = rb_capacity r \<longrightarrow> rb_try_push x r = (False, r)) \<and>
         (case rb_pop_front r of None \<Rightarrow> ring_list r = []
          | Some (y, r') \<Rightarrow> rb_inv r' \<and> ring_list r = y # ring_list r' \<and> y = rb_front r) \<and>
         (case rb_pop_back r of None \<Rightarrow> ring_list r = []
          | Some (y, r') \<Rightarrow> rb_inv r' \<and> ring_list r = ring_list r' @ [y] \<and> y = rb_back r)"
proof -
  have le: "rb_tail r \<le> rb_head r" using assms by (simp add: rb_inv_def)
  have inv: "rb_inv (r\<lparr>rb_tail := rb_tail r + 1\<rparr>)" "rb_inv (r\<lparr>rb_head := rb_head r - 1\<rparr>)"
    if "\<not> rb_isEmpty r"
    using assms that by (auto simp: rb_inv_def rb_size_def rb_isEmpty_def)
  have empty: "ring_list r = []" if "rb_isEmpty r"
    using that by (simp add: ring_list_def rb_isEmpty_def)
  have front: "ring_list r = rb_front r # ring_list (r\<lparr>rb_tail := rb_tail r + 1\<rparr>)" if "\<not> rb_isEmpty r"
    using that le by (simp add: ring_list_def rb_isEmpty_def rb_front_def and_mask_mod [OF assms] upt_conv_Cons)
  have newest: "ring_list r = ring_list (r\<lparr>rb_head := rb_head r - 1\<rparr>) @ [rb_back r]" if "\<not> rb_isEmpty r"
  proof -
    from that le obtain h where h: "rb_head r = Suc h" "rb_tail r \<le> h"
      by (cases "rb_head r") (auto simp: rb_isEmpty_def)
    then show ?thesis by (simp add: ring_list_def rb_back_def and_mask_mod [OF assms])
  qed
  show ?thesis
    using rb_store_list [OF assms, of x] empty front newest inv
    by (auto simp: rb_try_push_def rb_pop_front_def rb_pop_back_def rb_front_def rb_back_def)
qed

theorem ring_deque_witness:
  "rb_inv (rb_new (0 :: int) (2 ^ 1)) \<and> fst (rb_try_push 7 (rb_new (0 :: int) (2 ^ 1)))"
proof -
  have "rb_size (rb_new (0 :: int) (2 ^ 1)) < rb_capacity (rb_new (0 :: int) (2 ^ 1))"
    by (simp add: rb_new_def rb_size_def)
  then show ?thesis
    using ring_deque [OF rb_new_inv(1) [of "0 :: int" 1], of 7] rb_new_inv(1) [of "0 :: int" 1] by auto
qed

text \<open>
  Push must not be mixed with \<open>try_push\<close>: pushing onto a ring that \<open>try_push\<close> filled
  makes the ring report one item more than its capacity, and its front is then the item just
  pushed instead of the oldest one.
\<close>

theorem ring_push_on_full:
  assumes "rb_inv r" and "rb_isFull r" and "1 < rb_capacity r"
  shows "rb_size (rb_push x r) = rb_capacity r + 1 \<and> rb_front (rb_push x r) = x"
proof -
  let ?s = "rb_store x r"
  have le: "rb_tail r \<le> rb_head r" and h: "rb_head r = rb_tail r + rb_capacity r"
    using assms by (auto simp: rb_inv_def rb_isFull_def rb_size_def)
  have mask: "n AND rb_mask ?s = n mod rb_capacity r" for n
    using and_mask_mod [OF assms(1)] by (simp add: rb_store_def)
  have "(rb_head r + 1) mod rb_capacity r = (rb_tail r + 1) mod rb_capacity r"
    by (metis h add.assoc add.commute mod_add_self2)
  then have "(rb_head r + 1) mod rb_capacity r \<noteq> rb_tail r mod rb_capacity r"
    using assms(3) mod_window_neq [of "rb_tail r" "rb_tail r + 1" "rb_capacity r"] by simp
  then have push: "rb_push x r = ?s"
    by (simp add: rb_push_def Let_def mask) (simp add: rb_store_def)
  have "rb_tail r mod rb_capacity r = rb_head r mod rb_capacity r" by (simp add: h)
  moreover have "rb_head r mod rb_capacity r < length (rb_buffer r)"
    using assms(1) rb_inv_cap_pos [OF assms(1)] by (simp add: rb_inv_def)
  ultimately show ?thesis
    using h by (simp add: push rb_front_def mask)
       (simp add: rb_store_def rb_size_def and_mask_mod [OF assms(1)])
qed

theorem ring_push_on_full_witness:
  "let r = snd (rb_try_push 2 (snd (rb_try_push 1 (rb_new (0 :: int) (2 ^ 1))))) in
     rb_inv r \<and> rb_isFull r \<and> rb_size (rb_push 3 r) = 3 \<and> rb_front (rb_push 3 r) = 3"
proof -
  let ?r = "snd (rb_try_push 2 (snd (rb_try_push 1 (rb_new (0 :: int) (2 ^ 1)))))"
  have "rb_inv ?r" and "rb_isFull ?r" and "1 < rb_capacity ?r" and "rb_capacity ?r = 2"
    by (auto simp: rb_try_push_def rb_store_def rb_new_def rb_size_def rb_inv_def rb_isFull_def
        intro!: exI [of _ 1])
  then show ?thesis using ring_push_on_full [of ?r 3] by (simp add: Let_def)
qed

end
