(* ===== verification/Sim_Symbol.thy ===== *)
theory Sim_Symbol
  imports Engine_Contract Fifo_Properties Ring_Buffer
begin

text \<open>
  \<open>src/src/exchange/symbol.hpp\<close> and \<open>symbol.cpp\<close>: one instrument. Its state extends the engine
  state (the book, the two market-data caches and the response queue) with the engine it matches
  on, the self-match mode, the tape history and the trade credits. \<open>addOrder\<close>, \<open>modifyOrder\<close> and
  \<open>cancelOrder\<close> run the engine and then rest, move or free the order.
\<close>

section \<open>State\<close>

record TradedCredit =
  tc_qty :: qty_t
  tc_event_time :: time_ns

record 'l Symbol = "'l Engine" +
  sy_id :: nat
  sy_engine :: engine_obj
  sy_smp_mode :: SelfMatchPreventionMode
  sy_trade_history :: "MDTrade ring"
  sy_credit :: "Side \<Rightarrow> price_t \<rightharpoonup> TradedCredit list"

type_synonym ('l, 'z) instrument = "('l, 'z) Symbol_scheme"

definition TRADE_HISTORY_CAPACITY :: nat where
  "TRADE_HISTORY_CAPACITY = 64"

text \<open>An instrument over a fresh book, bound to its engine; \<open>d\<close> is what the history's memory holds.\<close>

definition new_symbol :: "'l Engine \<Rightarrow> nat \<Rightarrow> engine_obj \<Rightarrow> SelfMatchPreventionMode \<Rightarrow> MDTrade \<Rightarrow> 'l Symbol" where
  "new_symbol e i eng smp d = Engine.extend e
     (Symbol.fields i eng smp (rb_new d TRADE_HISTORY_CAPACITY) (\<lambda>_ _. None))"

section \<open>Trade credits\<close>

text \<open>One credit per timestamp: a second print with the same stamp adds to it.\<close>

fun add_credit :: "qty_t \<Rightarrow> time_ns \<Rightarrow> TradedCredit list \<Rightarrow> TradedCredit list" where
  "add_credit q t [] = [\<lparr>tc_qty = q, tc_event_time = t\<rparr>]"
| "add_credit q t (c # cs) =
     (if tc_event_time c = t then c\<lparr>tc_qty := tc_qty c + q\<rparr> # cs else c # add_credit q t cs)"

definition credits_at :: "Side \<Rightarrow> price_t \<Rightarrow> ('l, 'z) instrument \<Rightarrow> TradedCredit list" where
  "credits_at s p st = (case sy_credit st s p of None \<Rightarrow> [] | Some cs \<Rightarrow> cs)"

definition creditTradedQty :: "Side \<Rightarrow> price_t \<Rightarrow> qty_t \<Rightarrow> time_ns \<Rightarrow> ('l, 'z) instrument \<Rightarrow> ('l, 'z) instrument" where
  "creditTradedQty s p phantom_consumed event_time st =
     (if phantom_consumed \<le> 0 \<or> s = UNKNOWN_SIDE then st
      else st\<lparr>sy_credit := (sy_credit st)(s := (sy_credit st s)
             (p \<mapsto> add_credit phantom_consumed event_time (credits_at s p st)))\<rparr>)"

text \<open>The erasing walk over the credits: what the update does not reflect is summed and kept.\<close>

fun resolve_credits :: "time_ns \<Rightarrow> TradedCredit list \<Rightarrow> qty_t \<times> TradedCredit list" where
  "resolve_credits as_of [] = (0, [])"
| "resolve_credits as_of (c # cs) =
     (case resolve_credits as_of cs of (unreflected, kept) \<Rightarrow>
        if as_of < tc_event_time c then (tc_qty c + unreflected, c # kept) else (unreflected, kept))"

definition takeTradedQty :: "Side \<Rightarrow> price_t \<Rightarrow> time_ns \<Rightarrow> ('l, 'z) instrument \<Rightarrow> qty_t \<times> ('l, 'z) instrument" where
  "takeTradedQty s p as_of st =
     (if s = UNKNOWN_SIDE then (0, st)
      else case sy_credit st s p of
        None \<Rightarrow> (0, st)
      | Some credits \<Rightarrow>
          (case resolve_credits as_of credits of (unreflected, kept) \<Rightarrow>
             (unreflected, st\<lparr>sy_credit := (sy_credit st)(s := (sy_credit st s)
                (p := (if kept = [] then None else Some kept)))\<rparr>)))"

section \<open>Tape history\<close>

definition sym_recordTrade :: "MDTrade \<Rightarrow> ('l, 'z) instrument \<Rightarrow> ('l, 'z) instrument" where
  "sym_recordTrade trade st = st\<lparr>sy_trade_history := rb_push trade (sy_trade_history st)\<rparr>"

text \<open>A fresh ring; \<open>d\<close> is whatever its new memory holds.\<close>

definition clearTradeHistory :: "MDTrade \<Rightarrow> ('l, 'z) instrument \<Rightarrow> ('l, 'z) instrument" where
  "clearTradeHistory d st = st\<lparr>sy_trade_history := rb_new d TRADE_HISTORY_CAPACITY\<rparr>"

section \<open>Orders\<close>

text \<open>The end-of-event flag on the last cached level update.\<close>

definition close_event :: "('l, 'z) book \<Rightarrow> ('l, 'z) book" where
  "close_event b =
     (if ob_level_cache b = [] then b
      else b\<lparr>ob_level_cache := butlast (ob_level_cache b) @
             [(last (ob_level_cache b))\<lparr>ml_flags := (ml_flags (last (ob_level_cache b)))\<lparr>F_END_EVENT := True\<rparr>\<rparr>]\<rparr>)"

definition sym_addOrder ::
    "'l l3_ops \<Rightarrow> ptr \<Rightarrow> time_ns \<Rightarrow> ('l, 'z) instrument \<Rightarrow>
     (OrdRejectReason \<times> TradeSummaryInfo list \<times> ('l, 'z) instrument) option" where
  "sym_addOrder L p request_time st =
     (let order = ob_buffer st p in
      case engine_match_order L (sy_engine st) p (price order) (quantity order) request_time (created_time order) 0
             (sy_smp_mode st) st of
        None \<Rightarrow> None
      | Some (reject_reason, trade_summaries, st1) \<Rightarrow>
          if reject_reason = RJ_NONE \<and> leaves_quantity (ob_buffer st1 p) > 0 \<and> restsRemainder (ob_buffer st1 p)
          then Some (reject_reason, trade_summaries,
                 addOrder L p (created_time (ob_buffer st1 p)) 0 True st1)
          else Some (reject_reason, trade_summaries, freeOrder p (close_event st1)))"

definition sym_modifyOrder ::
    "'l l3_ops \<Rightarrow> ptr \<Rightarrow> price_t \<Rightarrow> qty_t \<Rightarrow> time_ns \<Rightarrow> time_ns \<Rightarrow> ('l, 'z) instrument \<Rightarrow>
     (OrdRejectReason \<times> TradeSummaryInfo list \<times> ('l, 'z) instrument) option" where
  "sym_modifyOrder L p new_price new_qty request_time now st =
     (let order = ob_buffer st p;
          requeue = (new_price \<noteq> price order \<or> new_qty > quantity order) in
      case engine_match_order L (sy_engine st) p new_price new_qty request_time (last_update_time order) 0
             (sy_smp_mode st) st of
        None \<Rightarrow> None
      | Some (reject_reason, trade_summaries, st1) \<Rightarrow>
          (let st2 = set_order p (\<lambda>ord. ord\<lparr>last_update_time := now\<rparr>) st1;
               st3 = (if reject_reason = RJ_NONE then
                        (let st' = (if requeue then drawPriority p st2 else st2)
                         in modifyOrder L p new_price (quantity (ob_buffer st' p))
                              (last_update_time (ob_buffer st' p)) 0 True st')
                      else st2);
               st4 = (if leaves_quantity (ob_buffer st3 p) = 0 then freeOrder p st3 else st3)
           in Some (reject_reason, trade_summaries, st4)))"

definition sym_cancelOrder :: "'l l3_ops \<Rightarrow> ptr \<Rightarrow> time_ns \<Rightarrow> time_ns \<Rightarrow> ('l, 'z) instrument \<Rightarrow> ('l, 'z) instrument" where
  "sym_cancelOrder L p request_time now st =
     (let st1 = set_order p (\<lambda>ord. ord\<lparr>last_update_time := now\<rparr>) st;
          st2 = deleteOrder L p (last_update_time (ob_buffer st1 p)) 0 True st1;
          st3 = publishOrderCancel (ob_buffer st2 p) request_time st2
      in freeOrder p st3)"

section \<open>Projections\<close>

lemma new_symbol_sel [simp]:
  "ob_l3 (new_symbol e i g m d) = ob_l3 e" "ob_orders (new_symbol e i g m d) = ob_orders e"
  "ob_live (new_symbol e i g m d) = ob_live e" "ob_buffer (new_symbol e i g m d) = ob_buffer e"
  "ob_by_client (new_symbol e i g m d) = ob_by_client e" "ob_by_order (new_symbol e i g m d) = ob_by_order e"
  "ob_md_qty (new_symbol e i g m d) = ob_md_qty e" "ob_next_order_id (new_symbol e i g m d) = ob_next_order_id e"
  "ob_next_priority (new_symbol e i g m d) = ob_next_priority e" "ob_symbol (new_symbol e i g m d) = ob_symbol e"
  "response_queue (new_symbol e i g m d) = response_queue e" "response_slot (new_symbol e i g m d) = response_slot e"
  "sy_engine (new_symbol e i g m d) = g" "sy_smp_mode (new_symbol e i g m d) = m"
  "sy_credit (new_symbol e i g m d) = (\<lambda>_ _. None)"
  "sy_trade_history (new_symbol e i g m d) = rb_new d TRADE_HISTORY_CAPACITY"
  by (simp_all add: new_symbol_def Engine.defs Symbol.defs)

lemma new_symbol_inv [simp]:
  "queue L (new_symbol e i g m d) s = queue L e s" "obinv L I P (new_symbol e i g m d) = obinv L I P e"
  by (simp add: queue_def) (rule obinv_cong; simp)

section \<open>Facts on credits\<close>

text \<open>The credited quantity stamped after a time.\<close>

definition credit_after :: "time_ns \<Rightarrow> TradedCredit list \<Rightarrow> qty_t" where
  "credit_after t cs = (\<Sum>c\<leftarrow>cs. if t < tc_event_time c then tc_qty c else 0)"

lemma credit_after_simps [simp]:
  "credit_after t [] = 0" "credit_after t (c # cs) = (if t < tc_event_time c then tc_qty c else 0) + credit_after t cs"
  by (simp_all add: credit_after_def)

lemma credit_after_add: "credit_after a (add_credit q t cs) = credit_after a cs + (if a < t then q else 0)"
  by (induction cs) auto

lemma resolve_credits_ok:
  "resolve_credits a cs = (u, kept) \<Longrightarrow> u = credit_after a cs \<and> credit_after b kept = credit_after (max a b) cs"
  by (induction cs arbitrary: u kept) (auto split: prod.splits if_splits simp: max_def)

lemma credits_at_credit:
  "credit_after a (credits_at s' p' (creditTradedQty s p q t st)) = credit_after a (credits_at s' p' st) +
     (if s' = s \<and> p' = p \<and> 0 < q \<and> s \<noteq> UNKNOWN_SIDE \<and> a < t then q else 0)"
  by (auto simp: creditTradedQty_def credits_at_def credit_after_add)

lemma credits_at_take:
  assumes "takeTradedQty s p a st = (u, st')" and "s \<noteq> UNKNOWN_SIDE"
  shows "u = credit_after a (credits_at s p st)"
    and "credit_after b (credits_at s' p' st') =
           credit_after (if s' = s \<and> p' = p then max a b else b) (credits_at s' p' st)"
  using assms resolve_credits_ok [of a]
  by (auto simp: takeTradedQty_def credits_at_def split: option.splits prod.splits if_splits) (metis credit_after_simps(1))

text \<open>A history of trade prints and level updates at one instrument.\<close>

datatype credit_op = Print Side price_t qty_t time_ns | LevelUpdate Side price_t time_ns

fun credit_step :: "('l, 'z) instrument \<Rightarrow> credit_op \<Rightarrow> ('l, 'z) instrument" where
  "credit_step st (Print s p q t) = creditTradedQty s p q t st"
| "credit_step st (LevelUpdate s p t) = snd (takeTradedQty s p t st)"

text \<open>
  What an update stamped \<open>a\<close> has not seen: the prints of that level stamped later, unless an update
  that came in between and is stamped at or after the print has accounted for it.
\<close>

fun unreflected :: "credit_op list \<Rightarrow> Side \<Rightarrow> price_t \<Rightarrow> time_ns \<Rightarrow> qty_t" where
  "unreflected [] s p a = 0"
| "unreflected (LevelUpdate _ _ _ # ops) s p a = unreflected ops s p a"
| "unreflected (Print s' p' q t # ops) s p a =
     (if s' = s \<and> p' = p \<and> 0 < q \<and> a < t \<and> list_all (\<lambda>x. \<forall>b. x = LevelUpdate s p b \<longrightarrow> b < t) ops then q else 0) +
     unreflected ops s p a"

fun latest :: "credit_op list \<Rightarrow> Side \<Rightarrow> price_t \<Rightarrow> time_ns" where
  "latest [] s p = 0"
| "latest (Print _ _ _ _ # ops) s p = latest ops s p"
| "latest (LevelUpdate s' p' b # ops) s p = (if s' = s \<and> p' = p then max b (latest ops s p) else latest ops s p)"

lemma latest_less: "a < t \<Longrightarrow> latest ops s p < t \<longleftrightarrow> list_all (\<lambda>x. \<forall>b. x = LevelUpdate s p b \<longrightarrow> b < t) ops"
  by (induction ops s p rule: latest.induct) auto

lemma credit_run:
  assumes "s \<noteq> UNKNOWN_SIDE"
  shows "credit_after a (credits_at s p (foldl credit_step st ops)) =
    credit_after (max a (latest ops s p)) (credits_at s p st) + unreflected ops s p a"
proof (induction ops arbitrary: st a)
  case (Cons x ops)
  show ?case
  proof (cases x)
    case (Print s' p' q t)
    then show ?thesis using Cons assms latest_less [of a t ops s p] by (auto simp: credits_at_credit)
  next
    case (LevelUpdate s' p' b)
    obtain u st' where take: "takeTradedQty s' p' b st = (u, st')" by (cases "takeTradedQty s' p' b st") auto
    show ?thesis
    proof (cases "s' = UNKNOWN_SIDE")
      case True
      then show ?thesis using Cons assms LevelUpdate by (auto simp: takeTradedQty_def)
    next
      case False
      then show ?thesis
        using Cons LevelUpdate take credits_at_take(2) [OF take False]
        by (simp add: max.commute max.left_commute)
    qed
  qed
qed simp

text \<open>
  Trade credits are exact. Whatever trade prints and level updates an instrument has seen,
  \<open>takeTradedQty\<close> for a level update returns exactly the phantom quantity of the prints at that side
  and price which neither this update nor any earlier update of the level can have reflected: no
  print is offset twice, none is lost, and prints of other levels or with no quantity do not count.
\<close>

theorem traded_credit_exact:
  assumes "s \<noteq> UNKNOWN_SIDE" and "\<forall>s p. sy_credit st s p = None"
  shows "fst (takeTradedQty s p a (foldl credit_step st ops)) = unreflected ops s p a"
proof -
  have "credits_at s p st = []" using assms(2) by (simp add: credits_at_def)
  then show ?thesis
    using credits_at_take(1) [of s p a "foldl credit_step st ops"] credit_run [OF assms(1), of a p st ops] assms(1)
    by (cases "takeTradedQty s p a (foldl credit_step st ops)") simp
qed

definition blank_trade :: MDTrade where
  "blank_trade = \<lparr>mt_trade_id = 0, mt_event_time = 0, mt_seq_num = 0, mt_price = 0, mt_qty = 0, mt_flags = F_NONE, mt_side = BUY\<rparr>"

text \<open>Two prints, and an update between them: the next update offsets the later print only.\<close>

theorem traded_credit_exact_witness:
  "fst (takeTradedQty SELL 100 5 (foldl credit_step (new_symbol ex_engine 0 FifoMatchingEngine SMP_NONE blank_trade)
     [Print SELL 100 3 7, LevelUpdate SELL 100 7, Print SELL 100 2 8, Print SELL 101 9 9])) = 2"
  by (subst traded_credit_exact) simp_all

end
