(* ===== verification/Symbol_Facts.thy ===== *)
theory Symbol_Facts
  imports Sim_Symbol
begin

text \<open>
  The invariant of an instrument between requests, and what matching, resting, moving and removing
  an order do to it.
\<close>

section \<open>Invariant\<close>

definition uncrossed :: "'l l3_ops \<Rightarrow> ('l, 'z) book \<Rightarrow> bool" where
  "uncrossed L b \<longleftrightarrow> (\<forall>x\<in>set (queue L b BUY). \<forall>y\<in>set (queue L b SELL). en_price x < en_price y)"

text \<open>Every number and priority in the book has been drawn, and every price is a real one.\<close>

definition drawn :: "'l l3_ops \<Rightarrow> ('l, 'z) book \<Rightarrow> bool" where
  "drawn L b \<longleftrightarrow> (\<forall>s. real_side s \<longrightarrow> (\<forall>e\<in>set (queue L b s).
     en_id e < ob_next_order_id b \<and> en_prio e \<le> ob_next_priority b \<and> en_price e \<noteq> NULL_PRICE))"

text \<open>\<open>X\<close> are the pool slots a request holds that do not rest.\<close>

definition symbol_ok :: "'l l3_ops \<Rightarrow> ('l \<Rightarrow> bool) \<Rightarrow> ptr set \<Rightarrow> ('l, 'z) instrument \<Rightarrow> bool" where
  "symbol_ok L binv X st \<longleftrightarrow>
     obinv L binv {} st \<and> pool_exact X st \<and> X \<inter> ran (ob_orders st) = {} \<and>
     drawn L st \<and> uncrossed L st \<and> engine_valid (sy_engine st)"

lemma symbol_okD:
  assumes "symbol_ok L binv X st"
  shows "obinv L binv {} st" "pool_exact X st" "X \<inter> ran (ob_orders st) = {}" "drawn L st" "uncrossed L st"
    "engine_valid (sy_engine st)"
  using assms by (simp_all add: symbol_ok_def)

lemma real_side_cases: "real_side s \<Longrightarrow> real_side s' \<Longrightarrow> s' = s \<or> s' = opposite_side s"
  by (auto simp: real_side_def)

lemma uncrossed_side:
  "real_side s \<Longrightarrow> uncrossed L b \<longleftrightarrow>
     (\<forall>x\<in>set (queue L b s). \<forall>y\<in>set (queue L b (opposite_side s)). \<not> isPriceBetterOrEqual s (en_price x) (en_price y))"
  by (auto simp: uncrossed_def real_side_def isPriceBetterOrEqual_def not_le)

text \<open>Orders only leave a queue, or keep their place.\<close>

lemma drawn_places:
  assumes "drawn L b" and "ob_next_order_id b \<le> ob_next_order_id b'" and "ob_next_priority b \<le> ob_next_priority b'"
    and "\<And>s. real_side s \<Longrightarrow> place ` set (queue L b' s) \<subseteq> place ` set (queue L b s)"
  shows "drawn L b'"
  unfolding drawn_def
proof (intro allI impI ballI)
  fix s e assume "real_side s" "e \<in> set (queue L b' s)"
  then obtain e0 where "e0 \<in> set (queue L b s)" "place e = place e0" using assms(4) [of s] by blast
  then show "en_id e < ob_next_order_id b' \<and> en_prio e \<le> ob_next_priority b' \<and> en_price e \<noteq> NULL_PRICE"
    using assms(1-3) \<open>real_side s\<close> by (fastforce simp: drawn_def place_def)
qed

lemma uncrossed_places:
  assumes "uncrossed L b" and "\<And>s. real_side s \<Longrightarrow> place ` set (queue L b' s) \<subseteq> place ` set (queue L b s)"
  shows "uncrossed L b'"
  unfolding uncrossed_def
proof (intro ballI)
  fix x y assume "x \<in> set (queue L b' BUY)" "y \<in> set (queue L b' SELL)"
  moreover have "place ` set (queue L b' BUY) \<subseteq> place ` set (queue L b BUY)"
    and "place ` set (queue L b' SELL) \<subseteq> place ` set (queue L b SELL)"
    using assms(2) by (simp_all add: real_side_def)
  ultimately obtain x0 y0 where "x0 \<in> set (queue L b BUY)" "place x = place x0" "y0 \<in> set (queue L b SELL)" "place y = place y0"
    by blast
  then show "en_price x < en_price y" using assms(1) by (auto simp: uncrossed_def place_def)
qed

lemma obinv_unindexed: "obinv L I (insert p P) b \<Longrightarrow> p \<notin> ran (ob_orders b) \<Longrightarrow> obinv L I P b"
  unfolding obinv_def owned_def by (auto simp: ran_def)

section \<open>Frames\<close>

lemma close_event_sel [simp]:
  "ob_l3 (close_event b) = ob_l3 b" "ob_orders (close_event b) = ob_orders b" "ob_live (close_event b) = ob_live b"
  "ob_buffer (close_event b) = ob_buffer b" "ob_by_client (close_event b) = ob_by_client b"
  "ob_by_order (close_event b) = ob_by_order b" "ob_md_qty (close_event b) = ob_md_qty b"
  "ob_next_order_id (close_event b) = ob_next_order_id b" "ob_next_priority (close_event b) = ob_next_priority b"
  "OrderBook.more (close_event b) = OrderBook.more b" "queue L (close_event b) s = queue L b s"
  "ob_symbol (close_event b) = ob_symbol b" "ob_venue (close_event b) = ob_venue b"
  "ob_last_update_time (close_event b) = ob_last_update_time b"
  by (simp_all add: close_event_def queue_def)

lemma obinv_close_event [simp]: "obinv L I P (close_event b) = obinv L I P b"
  by (rule obinv_cong) simp_all

lemma symbol_more:
  "Engine.more st' = Engine.more st \<Longrightarrow>
     sy_id st' = sy_id st \<and> sy_engine st' = sy_engine st \<and> sy_smp_mode st' = sy_smp_mode st \<and>
     sy_trade_history st' = sy_trade_history st \<and> sy_credit st' = sy_credit st \<and> Symbol.more st' = Symbol.more st"
  for st :: "('l, 'z) instrument"
  by (cases st; cases st') simp

lemma book_more:
  "OrderBook.more st' = OrderBook.more st \<Longrightarrow>
     response_queue st' = response_queue st \<and> response_slot st' = response_slot st \<and> next_trade_id st' = next_trade_id st \<and>
     Engine.more st' = Engine.more st"
  for st :: "('l, 'z) engine"
  by (cases st; cases st') simp

lemma l3_apply_book_frame: "book_frame b (snd (l3_apply r b))"
  using l3_apply_frame [of "fst r" "fst (snd r)" "snd (snd r)" b] by (cases "l3_apply r b") (auto simp: same_frame_def)

lemma base_frames:
  "book_frame b (snd (base_addOrder L i s p q t prio seq lb b))" "book_frame b (snd (base_modifyOrder L i p q t prio seq lb b))"
  "book_frame b (snd (base_deleteOrder L i t seq lb b))" "book_frame b (snd (base_executeOrder L i q t seq lb b))"
  by (simp_all add: base_addOrder_def base_modifyOrder_def base_deleteOrder_def base_executeOrder_def l3_apply_book_frame)

text \<open>As \<open>book_frame\<close>, but a priority may have been drawn.\<close>

definition near_frame :: "('l, 'z) book \<Rightarrow> ('l, 'z) book \<Rightarrow> bool" where
  "near_frame b b' \<longleftrightarrow> book_frame (b\<lparr>ob_next_priority := ob_next_priority b'\<rparr>) b' \<and> ob_next_priority b \<le> ob_next_priority b'"

lemma near_frameI: "book_frame b b' \<Longrightarrow> near_frame b b'"
  by (simp add: near_frame_def book_frame_def)

lemma near_frame_refl [simp]: "near_frame b b"
  by (simp add: near_frame_def book_frame_def)

lemma near_frame_trans: "near_frame a b \<Longrightarrow> near_frame b c \<Longrightarrow> near_frame a c"
  by (simp add: near_frame_def book_frame_def)

lemma near_frame_step:
  "near_frame b (drawPriority p b)" "near_frame b (set_order p f b)" "near_frame b (indexOrder p b)"
  "near_frame b (eraseOrder p b)" "near_frame b (freeOrder p b)" "near_frame b (close_event b)"
  by (simp_all add: near_frame_def book_frame_def drawPriority_eq indexOrder_def eraseOrder_def freeOrder_def
      close_event_def Let_def set_order_def)

lemmas near_frame_simps [simp] =
  near_frame_step [THEN [2] near_frame_trans] base_frames [THEN near_frameI, THEN [2] near_frame_trans]

lemma near_frame_if: "near_frame a x \<Longrightarrow> near_frame a y \<Longrightarrow> near_frame a (if c then x else y)"
  by simp

lemma near_frame_ops:
  "near_frame b (addOrder L p t seq lb b)" "near_frame b (deleteOrder L p t seq lb b)"
  by (simp_all add: addOrder_def deleteOrder_def Let_def)

lemma near_frame_modify: "near_frame b (modifyOrder L p np nq t seq lb b)"
  unfolding modifyOrder_def Let_def by (intro near_frame_if near_frame_simps near_frame_refl)

lemma near_frameD:
  assumes "near_frame b b'"
  shows "OrderBook.more b' = OrderBook.more b" "ob_next_order_id b' = ob_next_order_id b"
    "ob_next_priority b \<le> ob_next_priority b'" "ob_symbol b' = ob_symbol b" "ob_venue b' = ob_venue b"
    "ob_last_update_time b' = ob_last_update_time b"
  using assms by (simp_all add: near_frame_def book_frame_def)

lemma near_frame_symbol:
  "near_frame st st' \<Longrightarrow> sy_engine st' = sy_engine st \<and> sy_smp_mode st' = sy_smp_mode st"
  for st :: "('l, 'z) instrument"
  using symbol_more [of st' st] book_more [of st' st] near_frameD(1) [of st st'] by simp

text \<open>What no operation on one order changes at an instrument.\<close>

definition sym_frame :: "('l, 'z) instrument \<Rightarrow> ('l, 'z) instrument \<Rightarrow> bool" where
  "sym_frame st st' \<longleftrightarrow>
     ob_symbol st' = ob_symbol st \<and> ob_venue st' = ob_venue st \<and> ob_last_update_time st' = ob_last_update_time st \<and>
     ob_next_order_id st' = ob_next_order_id st \<and> ob_next_priority st \<le> ob_next_priority st' \<and>
     response_slot st' = response_slot st \<and> Engine.more st' = Engine.more st"

lemma sym_frame_refl [simp]: "sym_frame st st"
  by (simp add: sym_frame_def)

lemma sym_frame_trans: "sym_frame a b \<Longrightarrow> sym_frame b c \<Longrightarrow> sym_frame a c"
  by (simp add: sym_frame_def)

lemma sym_frame_eng: "eng_frame st st' \<Longrightarrow> sym_frame st st'"
  by (simp add: eng_frame_def sym_frame_def)

lemma sym_frame_near: "near_frame st st' \<Longrightarrow> sym_frame st st'"
  using near_frameD [of st st'] book_more [of st' st] by (simp add: sym_frame_def)

lemma sym_frame_publish [simp]: "sym_frame st (publish f st)"
  by (rule sym_frame_eng) simp

section \<open>After a match\<close>

lemma opposite_queue_side: "real_side (side ord) \<Longrightarrow> opposite_queue ord = opposite_side (side ord)"
  by (auto simp: opposite_queue_def real_side_def)

lemma matchedD:
  assumes "matched L p ord s t fs es' sms st st'"
  shows "queue L st' s = es'" "queue L st' (opposite_side s) = queue L st (opposite_side s)" "legs sms = fill_legs fs"
    "list_all (summary_ok s (id_num ord)) sms" "leaves_quantity (ob_buffer st' p) = leaves_quantity ord - filled_qty fs"
    "ob_buffer st' p = foldl (apply_fill t) ord (fill_prices fs)"
    "ob_orders st' = orders_after (ob_orders st) (queue L st s) es'" "eng_frame st st'"
    "ident (ob_buffer st' r) = ident (ob_buffer st r)"
    "ob_next_priority st' = ob_next_priority st" "ob_next_order_id st' = ob_next_order_id st"
  using assms unfolding matched_def pool_kept_def eng_frame_def by blast+

lemma no_legs: "list_all (summary_ok s aid) sms \<Longrightarrow> legs sms = [] \<Longrightarrow> sms = []"
  by (cases sms) (auto simp: legs_def summary_legs_def summary_ok_def)

lemma matched_places:
  assumes "matched L p ord s t fs es' sms st st'" and "place ` set es' \<subseteq> place ` set (queue L st s)"
    and "real_side s" and "real_side s'"
  shows "place ` set (queue L st' s') \<subseteq> place ` set (queue L st s')"
  using real_side_cases [OF assms(3,4)] assms(1,2) by (auto simp: matched_def)

lemma matched_ok:
  fixes st :: "('l, 'z) instrument"
  assumes m: "matched L p ord s t fs es' sms st st'" and pl: "place ` set es' \<subseteq> place ` set (queue L st s)"
    and s: "real_side s" and dr: "drawn L st" and un: "uncrossed L st"
    and pool: "pool_exact X st" "X \<inter> ran (ob_orders st) = {}" and eng: "engine_valid (sy_engine st)"
  shows "drawn L st'" and "uncrossed L st'" and "pool_exact X st'" and "X \<inter> ran (ob_orders st') = {}"
    and "engine_valid (sy_engine st')" and "ident (ob_buffer st' r) = ident (ob_buffer st r)"
    and "eng_frame st st'"
proof -
  have fr: "eng_frame st st'" and pk: "pool_kept st st'" using m by (simp_all add: matched_def)
  note places = matched_places [OF m pl s]
  show "drawn L st'" using drawn_places [OF dr _ _ places] fr by (simp add: eng_frame_def)
  show "uncrossed L st'" by (rule uncrossed_places [OF un places])
  show "pool_exact X st'" "X \<inter> ran (ob_orders st') = {}" using pk pool by (simp_all add: pool_kept_def)
  show "engine_valid (sy_engine st')" using fr eng symbol_more [of st' st] by (simp add: eng_frame_def)
  show "ident (ob_buffer st' r) = ident (ob_buffer st r)" using pk by (simp add: pool_kept_def)
  show "eng_frame st st'" by (rule fr)
qed

text \<open>A client id, or an order id, nobody uses stays unused.\<close>

lemma index_unused:
  assumes "indexed m key b" and "indexed m' key b'" and "m c = None"
    and "\<And>r. key (ob_buffer b' r) = key (ob_buffer b r) \<and> id_num (ob_buffer b' r) = id_num (ob_buffer b r)"
    and "\<And>i r. ob_orders b' i = Some r \<Longrightarrow> ob_orders b i = Some r"
  shows "m' c = None"
proof (cases "m' c")
  case (Some r)
  then have "c \<noteq> []" "key (ob_buffer b' r) = c" "ob_orders b' (id_num (ob_buffer b' r)) = Some r"
    using assms(2) by (auto simp: indexed_def)
  then have "m c = Some r" using assms(1,4,5) by (simp add: indexed_def)
  then show ?thesis using assms(3) by simp
qed simp

lemma restable_matched:
  assumes m: "matched L p ord s t fs es' sms st st'" and pl: "place ` set es' \<subseteq> place ` set (queue L st s)"
    and s: "real_side s" and inv: "obinv L I {p} st" "obinv L I {p} st'" and rest: "restable L st p"
    and pool: "pool_exact {p} st'" "{p} \<inter> ran (ob_orders st') = {}"
  shows "restable L st' p"
proof -
  have id: "ident (ob_buffer st' r) = ident (ob_buffer st r)" for r using m by (simp add: matched_def pool_kept_def)
  have sub: "ob_orders st' i = Some r \<Longrightarrow> ob_orders st i = Some r" for i r
    using m by (auto simp: matched_def orders_after_def restrict_map_def split: if_splits)
  have ids: "en_id ` set (queue L st' s') \<subseteq> en_id ` set (queue L st s')" if "real_side s'" for s'
    using places_ids [OF matched_places [OF m pl s that]] .
  have idq: "id_num (ob_buffer st p) \<notin> en_id ` set (queue L st' s')" if "real_side s'" for s'
    using ids [OF that] rest that by (auto simp: restable_def Let_def real_side_def)
  have keys: "id_num (ob_buffer st' r) = id_num (ob_buffer st r)" "side (ob_buffer st' r) = side (ob_buffer st r)"
    "client_order_id (ob_buffer st' r) = client_order_id (ob_buffer st r)" "order_id (ob_buffer st' r) = order_id (ob_buffer st r)" for r
    using id [of r] by (simp_all add: ident_def)
  have ix: "indexed (ob_by_client st) client_order_id st" "indexed (ob_by_order st) order_id st"
    "indexed (ob_by_client st') client_order_id st'" "indexed (ob_by_order st') order_id st'"
    using inv by (simp_all add: obinv_def)
  have c: "ob_by_client st' c = None" if "ob_by_client st c = None" for c
    by (rule index_unused [OF ix(1,3) that _ sub]) (simp_all add: keys)
  have o: "ob_by_order st' c = None" if "ob_by_order st c = None" for c
    by (rule index_unused [OF ix(2,4) that _ sub]) (simp_all add: keys)
  have "ob_orders st' (id_num (ob_buffer st p)) = None"
    using sub rest by (cases "ob_orders st' (id_num (ob_buffer st p))") (auto simp: restable_def Let_def)
  moreover have "p \<in> ob_live st'" "p \<notin> ran (ob_orders st')" using pool by (auto simp: pool_exact_def)
  ultimately show ?thesis
    using rest c o idq [of BUY] idq [of SELL] by (auto simp: restable_def Let_def keys real_side_def)
qed

section \<open>Resting what is left\<close>

text \<open>If the front of a sorted queue does not cross a price, nothing in it does.\<close>

lemma nothing_crosses:
  assumes "sorted_wrt (before s) es" and "es = [] \<or> \<not> crosses s px (en_price (hd es))" and "e \<in> set es"
  shows "\<not> crosses s px (en_price e)"
proof -
  obtain a es1 where es: "es = a # es1" using assms(3) by (cases es) auto
  have "before s a e \<or> e = a" using assms(1,3) es by auto
  then show ?thesis using assms(2) es
    by (auto simp: crosses_def before_def isPriceBetter_def isPriceBetterOrEqual_def split: if_splits)
qed

lemma rest_ok:
  fixes st :: "('l, 'z) instrument"
  assumes l3: "l3_book L binv" and ok: "symbol_ok L binv {p} st" and rest: "restable L st p"
    and ord: "ord = ob_buffer st p" and pos: "0 < leaves_quantity ord" and acct: "acct_ok ord"
    and id: "id_num ord < ob_next_order_id st" and px: "price ord \<noteq> NULL_PRICE"
    and free: "\<forall>e\<in>set (queue L st (opposite_side (side ord))). \<not> crosses (opposite_side (side ord)) (price ord) (en_price e)"
  shows "symbol_ok L binv {} (addOrder L p t 0 lb st)" and "rested L p 0 st (addOrder L p t 0 lb st)"
proof -
  let ?st = "addOrder L p t 0 lb st" and ?s = "side ord"
  note sok = symbol_okD [OF ok]
  have s: "real_side ?s" and none: "ob_orders st (id_num ord) = None"
    using rest ord by (simp_all add: restable_def Let_def)
  have add: "obinv L binv {} ?st" "rested L p 0 st ?st"
    using l3_book.addOrder_ok [OF l3 sok(1) rest, of 0 t lb] pos acct by (simp_all add: ord)
  show "rested L p 0 st ?st" by (rule add(2))
  let ?ord = "ord\<lparr>priority := ob_next_priority st + 1\<rparr>"
  have r: "queue L ?st ?s = insert_entry ?s (entry_for ?ord) (queue L st ?s)"
    "queue L ?st (opposite_side ?s) = queue L st (opposite_side ?s)"
    "ob_orders ?st = (ob_orders st)(id_num ord \<mapsto> p)" "ob_live ?st = ob_live st"
    "ob_next_priority ?st = ob_next_priority st + 1"
    using add(2) by (simp_all add: rested_def Let_def ord)
  note nf = near_frame_ops(1) [of st L p t 0 lb]
  have "drawn L ?st" unfolding drawn_def
  proof (intro allI impI)
    fix s' assume s': "real_side s'"
    show "\<forall>e\<in>set (queue L ?st s'). en_id e < ob_next_order_id ?st \<and> en_prio e \<le> ob_next_priority ?st \<and> en_price e \<noteq> NULL_PRICE"
      using real_side_cases [OF s s'] sok(4) s' r id px near_frameD(2) [OF nf]
      by (auto simp: drawn_def entry_for_def le_SucI)
  qed
  moreover have "uncrossed L ?st"
    using sok(5) s free px by (auto simp: uncrossed_side [of "opposite_side ?s"] uncrossed_side [of ?s] r crosses_def entry_for_def
        real_side_def isPriceBetterOrEqual_def split: if_splits)
  moreover have "pool_exact {} ?st" using sok(2) none by (auto simp: pool_exact_def r)
  ultimately show "symbol_ok L binv {} ?st"
    using add(1) sok(6) near_frame_symbol [OF nf] by (simp add: symbol_ok_def)
qed

end
