(* ===== verification/Symbol_Properties.thy ===== *)
theory Symbol_Properties
  imports Symbol_Facts
begin

text \<open>
  What \<open>Symbol::addOrder\<close>, \<open>modifyOrder\<close> and \<open>cancelOrder\<close> do, for either engine and every L3 book that
  keeps its contract.
\<close>

section \<open>Adding an order\<close>

lemma free_ok:
  fixes st :: "('l, 'z) instrument"
  assumes "symbol_ok L binv (insert p X) st" and "p \<notin> X"
  shows "symbol_ok L binv X (freeOrder p st)"
proof -
  note ok = symbol_okD [OF assms(1)]
  have out: "p \<notin> ran (ob_orders st)" using ok(3) by auto
  have "near_frame st (freeOrder p st)" by simp
  then show ?thesis
    using ok obinv_free [OF ok(1) out] out near_frame_symbol [of st "freeOrder p st"] assms(2)
    by (auto simp: symbol_ok_def pool_exact_def drawn_def uncrossed_def freeOrder_def queue_def)
qed

lemma close_event_ok: "symbol_ok L binv X (close_event st) = symbol_ok L binv X st"
  for st :: "('l, 'z) instrument"
proof -
  have "near_frame st (close_event st)" by simp
  then show ?thesis
    using near_frame_symbol [of st "close_event st"]
    by (auto simp: symbol_ok_def pool_exact_def drawn_def uncrossed_def)
qed

lemma symbol_publish [simp]:
  "sy_engine (publish f st) = sy_engine st" "sy_smp_mode (publish f st) = sy_smp_mode st" "sy_id (publish f st) = sy_id st"
  "sy_trade_history (publish f st) = sy_trade_history st" "sy_credit (publish f st) = sy_credit st"
  by (simp_all add: publish_def)

lemma publish_ok [simp]: "symbol_ok L binv X (publish f st) = symbol_ok L binv X st"
  for st :: "('l, 'z) instrument"
  by (simp add: symbol_ok_def pool_exact_def drawn_def uncrossed_def)

lemma reports_only_ok:
  fixes st :: "('l, 'z) instrument"
  assumes "reports_only p (ob_buffer st p) st st'" and "symbol_ok L binv X st"
  shows "symbol_ok L binv X st'"
proof -
  have "ob_buffer st' = ob_buffer st" using assms(1) by (simp add: reports_only_def)
  then have "obinv L binv {} st' = obinv L binv {} st" using assms(1) by (intro obinv_cong) (simp_all add: reports_only_def)
  then show ?thesis
    using assms queue_reports_only [OF assms(1)] symbol_more [of st' st]
    by (simp add: symbol_ok_def reports_only_def pool_exact_def drawn_def uncrossed_def eng_frame_def)
qed

text \<open>A client order on its way in: its slot is held, it is acceptable to the book and has no fills yet.\<close>

definition incoming :: "'l l3_ops \<Rightarrow> ('l \<Rightarrow> bool) \<Rightarrow> ptr \<Rightarrow> ('l, 'z) instrument \<Rightarrow> bool" where
  "incoming L binv p st \<longleftrightarrow>
     (let ord = ob_buffer st p in
        symbol_ok L binv {p} st \<and> restable L st p \<and> id_num ord < ob_next_order_id st \<and>
        acct_ok ord \<and> status ord = OS_PENDING_NEW \<and> fits (queue L st (opposite_side (side ord))))"

lemma incomingD:
  assumes "incoming L binv p st" and "ord = ob_buffer st p"
  shows "symbol_ok L binv {p} st" "restable L st p" "id_num ord < ob_next_order_id st" "acct_ok ord"
    "status ord = OS_PENDING_NEW" "fits (queue L st (opposite_side (side ord)))" "real_side (side ord)"
  using assms by (simp_all add: incoming_def Let_def restable_def)

lemma incoming_matchable:
  assumes "incoming L binv p st" and "ord = ob_buffer st p"
  shows "matchable L binv (Some p) (opposite_side (side ord)) 0 st"
proof -
  let ?s = "opposite_side (side ord)"
  note d = incomingD [OF assms]
  note ok = symbol_okD [OF d(1)]
  have s: "real_side ?s" using d(7) by (auto simp: real_side_def)
  have "obinv L binv {p} st" using ok(1) by (rule obinv_mono) simp
  moreover have "hittable L (Some p) ?s st"
    using ok(3,4) s by (auto simp: hittable_def drawn_def ran_def)
  ultimately show ?thesis using s d(6) by (simp add: matchable_def)
qed

lemma fold_fill_cum:
  "cum_quantity (foldl (apply_fill t) ord (fill_prices fs)) = cum_quantity ord + filled_qty fs"
  by (induction fs arbitrary: ord) (auto simp: apply_fill_def)

lemma spec_filled_nonneg:
  assumes "matching_engine L binv spec mo mf" and "fits es" and "spec acc own q es = (fs, cs, es', q')"
  shows "0 \<le> filled_qty fs"
proof -
  have "0 < x" if "(e, x) \<in> set fs" for e x using matching_engine.spec_fills [OF assms that] by blast
  then show ?thesis unfolding filled_qty_def by (intro sum_list_map_nonneg) (auto simp: less_imp_le)
qed

lemma not_resting_frame: "sym_frame st (freeOrder p (close_event st))"
  by (rule sym_frame_near) simp

text \<open>The three ways an order can come out, in terms of the abstract sweep of the opposite queue.\<close>

lemma sym_addOrder_ok:
  fixes st :: "('l, 'z) instrument"
  assumes l3: "l3_book L binv" and inc: "incoming L binv p st" and ord: "ord = ob_buffer st p"
    and s: "s = opposite_side (side ord)"
    and sp: "engine_spec (sy_engine st) (crosses s (price ord)) (own_order (sy_smp_mode st) p st) (leaves_quantity ord) (queue L st s) =
      (fs, cs, es', q')"
  shows "sy_smp_mode st = SMP_CANCEL_NEWEST \<Longrightarrow> cs \<noteq> [] \<Longrightarrow>
      sym_addOrder L p rt st = Some (RJ_SMP, [], freeOrder p (close_event st)) \<and>
      symbol_ok L binv {} (freeOrder p (close_event st))"
    and "sy_smp_mode st = SMP_CANCEL_NEWEST \<longrightarrow> cs = [] \<Longrightarrow> fok_kills L s ord (price ord) (quantity ord) (sy_smp_mode st) st \<Longrightarrow>
      \<exists>st'. sym_addOrder L p rt st = Some (RJ_FOK_CANNOT_FILL, [], st') \<and> symbol_ok L binv {} st' \<and>
        ob_l3 st' = ob_l3 st \<and> ob_orders st' = ob_orders st \<and> sym_frame st st'"
    and "sy_smp_mode st = SMP_CANCEL_NEWEST \<longrightarrow> cs = [] \<Longrightarrow> \<not> fok_kills L s ord (price ord) (quantity ord) (sy_smp_mode st) st \<Longrightarrow>
      \<exists>sms st1. matched L p ord s (created_time ord) fs es' sms st st1 \<and> obinv L binv {} st1 \<and>
        (let rests = 0 < q' \<and> restsRemainder ord;
             st' = (if rests then addOrder L p (created_time (ob_buffer st1 p)) 0 True st1 else freeOrder p (close_event st1)) in
         sym_addOrder L p rt st = Some (RJ_NONE, sms, st') \<and> symbol_ok L binv {} st' \<and>
         leaves_quantity (ob_buffer st1 p) = q' \<and> (rests \<longrightarrow> rested L p 0 st1 st'))"
proof -
  note d = incomingD [OF inc ord]
  note ok = symbol_okD [OF d(1)]
  have rs: "real_side s" using d(7) s by (auto simp: real_side_def)
  note eng = engine_contract [OF l3 ok(6)]
  have m: "matchable L binv (Some p) s 0 st" using incoming_matchable [OF inc ord] s by simp
  have oq: "s = opposite_queue (ob_buffer st p)" using d(7) by (simp add: opposite_queue_side s ord)
  have prep: "prepared px q ord = ord" for px q using d(5) by (simp add: prepared_def)
  have acct: "acct_ok (ob_buffer st p)" using d(4) ord by simp
  have sp': "engine_spec (sy_engine st) (crosses s (price ord)) (own_order (sy_smp_mode st) p st)
      (leaves_quantity (prepared (price ord) (quantity ord) (ob_buffer st p))) (queue L st s) = (fs, cs, es', q')"
    using sp by (simp only: ord [symmetric] prep)
  { assume 1: "sy_smp_mode st = SMP_CANCEL_NEWEST" "cs \<noteq> []"
    have "engine_match_order L (sy_engine st) p (price ord) (quantity ord) rt (created_time ord) 0 (sy_smp_mode st) st =
        Some (RJ_SMP, [], st)"
      by (rule matching_engine.order_smp [OF eng m oq acct sp' 1])
    then show "sym_addOrder L p rt st = Some (RJ_SMP, [], freeOrder p (close_event st)) \<and>
        symbol_ok L binv {} (freeOrder p (close_event st))"
      using free_ok [of L binv p "{}" "close_event st"] d(1) by (simp add: sym_addOrder_def Let_def ord close_event_ok) }
  assume 2: "sy_smp_mode st = SMP_CANCEL_NEWEST \<longrightarrow> cs = []"
  { assume fok: "fok_kills L s ord (price ord) (quantity ord) (sy_smp_mode st) st"
    then obtain st1 where st1: "engine_match_order L (sy_engine st) p (price ord) (quantity ord) rt (created_time ord) 0 (sy_smp_mode st) st =
        Some (RJ_FOK_CANNOT_FILL, [], st1)" "reports_only p (ob_buffer st p) st st1"
      using matching_engine.order_fok [OF eng m oq acct sp' 2] ord by blast
    then show "\<exists>st'. sym_addOrder L p rt st = Some (RJ_FOK_CANNOT_FILL, [], st') \<and> symbol_ok L binv {} st' \<and>
        ob_l3 st' = ob_l3 st \<and> ob_orders st' = ob_orders st \<and> sym_frame st st'"
      using free_ok [of L binv p "{}" "close_event st1"] reports_only_ok [OF st1(2) d(1)] sym_frame_trans [OF sym_frame_eng not_resting_frame, of st st1 p]
      by (simp add: sym_addOrder_def Let_def ord close_event_ok reports_only_def) }
  assume nofok: "\<not> fok_kills L s ord (price ord) (quantity ord) (sy_smp_mode st) st"
  then obtain sms st1 where st1: "engine_match_order L (sy_engine st) p (price ord) (quantity ord) rt (created_time ord) 0 (sy_smp_mode st) st =
        Some (RJ_NONE, sms, st1)" "obinv L binv {p} st1" "matched L p ord s (created_time ord) fs es' sms st st1"
    using matching_engine.order_matches [OF eng m oq acct sp' 2, of rt "created_time ord"]
    by (simp only: ord [symmetric] prep) auto
  have f: "fits (queue L st s)" using d(6) s by simp
  note pl = matching_engine.spec_places [OF eng f sp]
  note mo = matched_ok [OF st1(3) pl rs ok(4,5,2,3,6)]
  have inv1: "obinv L binv {} st1" using obinv_unindexed [of L binv p "{}"] st1(2) mo(4) by auto
  have ok1: "symbol_ok L binv {p} st1" using inv1 mo(1-5) by (simp add: symbol_ok_def)
  have bal: "leaves_quantity ord = filled_qty fs + q'" "0 \<le> q'"
    using matching_engine.spec_balance [OF eng f _ sp] d(4) by (auto simp: acct_ok_def)
  have buf: "ob_buffer st1 p = foldl (apply_fill (created_time ord)) ord (fill_prices fs)" using st1(3) by (simp add: matched_def)
  have lv: "leaves_quantity (ob_buffer st1 p) = q'" using bal by (simp add: buf fold_fill_leaves)
  have keep: "price (ob_buffer st1 p) = price ord" "side (ob_buffer st1 p) = side ord" "id_num (ob_buffer st1 p) = id_num ord"
    "restsRemainder (ob_buffer st1 p) = restsRemainder ord"
    by (simp_all add: buf fold_fill_sel restsRemainder_def)
  have rest1: "restable L st1 p"
    by (rule restable_matched [OF st1(3) pl rs _ st1(2) d(2) mo(3,4)]) (rule obinv_mono [OF ok(1)], simp)
  have acct1: "acct_ok (ob_buffer st1 p)"
    using d(4) bal lv spec_filled_nonneg [OF eng f sp] by (simp add: acct_ok_def buf fold_fill_sel fold_fill_cum)
  have free: "\<forall>e\<in>set (queue L st1 s). \<not> crosses s (price ord) (en_price e)" if "0 < q'"
  proof -
    have "queue L st1 s = es'" using st1(3) by (simp add: matched_def)
    then show ?thesis
      using nothing_crosses [OF l3_book.queue_sorted [OF l3 inv1 rs]] matching_engine.spec_front [OF eng f sp that] by auto
  qed
  have id1: "id_num ord < ob_next_order_id st1" using d(3) mo(7) by (simp add: eng_frame_def)
  show "\<exists>sms st1. matched L p ord s (created_time ord) fs es' sms st st1 \<and> obinv L binv {} st1 \<and>
        (let rests = 0 < q' \<and> restsRemainder ord;
             st' = (if rests then addOrder L p (created_time (ob_buffer st1 p)) 0 True st1 else freeOrder p (close_event st1)) in
         sym_addOrder L p rt st = Some (RJ_NONE, sms, st') \<and> symbol_ok L binv {} st' \<and>
         leaves_quantity (ob_buffer st1 p) = q' \<and> (rests \<longrightarrow> rested L p 0 st1 st'))"
  proof (intro exI conjI, rule st1(3), rule inv1)
    show "let rests = 0 < q' \<and> restsRemainder ord;
             st' = (if rests then addOrder L p (created_time (ob_buffer st1 p)) 0 True st1 else freeOrder p (close_event st1)) in
         sym_addOrder L p rt st = Some (RJ_NONE, sms, st') \<and> symbol_ok L binv {} st' \<and>
         leaves_quantity (ob_buffer st1 p) = q' \<and> (rests \<longrightarrow> rested L p 0 st1 st')"
    proof (cases "0 < q' \<and> restsRemainder ord")
      case True
      then show ?thesis
        using rest_ok [OF l3 ok1 rest1 refl] acct1 id1 free lv st1(1) keep s
        by (simp add: sym_addOrder_def ord [symmetric] restsRemainder_def)
    next
      case False
      then show ?thesis
        using free_ok [of L binv p "{}" "close_event st1"] ok1 lv st1(1) keep
        by (auto simp: sym_addOrder_def ord [symmetric] close_event_ok)
    qed
  qed
qed

section \<open>Cancelling an order\<close>

lemma same_entry_ok:
  fixes st :: "('l, 'z) instrument"
  assumes "symbol_ok L binv X st" and "id_num (f (ob_buffer st p)) = id_num (ob_buffer st p)"
    and "side (f (ob_buffer st p)) = side (ob_buffer st p)"
    and "client_order_id (f (ob_buffer st p)) = client_order_id (ob_buffer st p)"
    and "order_id (f (ob_buffer st p)) = order_id (ob_buffer st p)"
    and "entry_for (f (ob_buffer st p)) = entry_for (ob_buffer st p)"
    and "acct_ok (f (ob_buffer st p)) = acct_ok (ob_buffer st p)"
  shows "symbol_ok L binv X (set_order p f st)"
proof -
  note ok = symbol_okD [OF assms(1)]
  have "obinv L binv {} (set_order p f st)" by (rule obinv_set_order [OF ok(1)]) (use assms(2-7) in auto)
  moreover have "near_frame st (set_order p f st)" by simp
  ultimately show ?thesis
    using ok near_frame_symbol [of st "set_order p f st"]
    by (auto simp: symbol_ok_def pool_exact_def drawn_def uncrossed_def)
qed

lemma remove_places: "place ` set (remove_entry i es) \<subseteq> place ` set es"
  by (auto simp: set_remove_entry)

lemma sym_cancelOrder_ok:
  fixes st :: "('l, 'z) instrument"
  assumes l3: "l3_book L binv" and ok: "symbol_ok L binv {} st" and own: "ob_orders st i = Some p"
    and ord: "ord = ob_buffer st p" and st': "st' = sym_cancelOrder L p rt now st"
  shows "symbol_ok L binv {} st'" and "queue L st' (side ord) = remove_entry i (queue L st (side ord))"
    and "queue L st' (opposite_side (side ord)) = queue L st (opposite_side (side ord))"
    and "ob_orders st' = (ob_orders st)(i := None)" and "ob_live st' = ob_live st - {p}"
    and "response_queue st' = response_queue st @
      [cancel_report (ord\<lparr>last_update_time := now, leaves_quantity := 0\<rparr>) rt (response_slot st (length (response_queue st)))]"
proof -
  define st1 where "st1 = set_order p (\<lambda>ord. ord\<lparr>last_update_time := now\<rparr>) st"
  define st2 where "st2 = deleteOrder L p now 0 True st1"
  have ok1: "symbol_ok L binv {} st1"
    unfolding st1_def using ok by (rule same_entry_ok) (simp_all add: entry_for_def acct_ok_def)
  note k1 = symbol_okD [OF ok1]
  have buf1: "ob_buffer st1 p = ord\<lparr>last_update_time := now\<rparr>" by (simp add: st1_def ord)
  have id: "id_num ord = i" using obinv_id_num [OF symbol_okD(1) [OF ok] own] ord by simp
  have own1: "ob_orders st1 (id_num (ob_buffer st1 p)) = Some p" using own by (simp add: buf1 id) (simp add: st1_def)
  note del = l3_book.deleteOrder_ok [OF l3 k1(1) own1, of 0 now True, folded st2_def, simplified]
  have run: "st' = freeOrder p (publishOrderCancel (ob_buffer st2 p) rt st2)"
    by (simp add: st' sym_cancelOrder_def Let_def st1_def st2_def)
  have c: "queue L st2 (side ord) = remove_entry i (queue L st (side ord))"
    "queue L st2 (opposite_side (side ord)) = queue L st (opposite_side (side ord))"
    "ob_orders st2 = (ob_orders st)(i := None)" "ob_live st2 = ob_live st"
    "ob_buffer st2 p = ord\<lparr>last_update_time := now, leaves_quantity := 0\<rparr>" "book_frame st1 st2"
    using del(2) by (simp_all add: cancelled_def Let_def buf1 id) (simp_all add: st1_def)
  have "near_frame st st2" using near_frame_trans [OF _ near_frameI [OF c(6)]] by (simp add: st1_def)
  note nf = near_frameD [OF this] near_frame_symbol [OF this] book_more [OF near_frameD(1) [OF this]]
  have s: "real_side (side ord)" using obinv_real_side [OF symbol_okD(1) [OF ok] own] by (simp add: ord)
  have pl: "place ` set (queue L st2 s') \<subseteq> place ` set (queue L st s')" if "real_side s'" for s'
    using real_side_cases [OF s that] c(1,2) remove_places [of i "queue L st (side ord)"] by auto
  have "drawn L st2" using drawn_places [OF symbol_okD(4) [OF ok] _ _ pl] nf by simp
  moreover have "uncrossed L st2" by (rule uncrossed_places [OF symbol_okD(5) [OF ok] pl])
  moreover have "ran (ob_orders st2) = ran (ob_orders st) - {p}"
    using ran_map_remove [OF obinv_inj [OF symbol_okD(1) [OF ok]] own] by (simp add: c(3))
  moreover have "p \<in> ran (ob_orders st)" using own by (rule ranI)
  ultimately have "symbol_ok L binv {p} st2"
    using del(1) symbol_okD(2,6) [OF ok] c nf by (auto simp: symbol_ok_def pool_exact_def)
  then have "symbol_ok L binv {p} (publishOrderCancel (ob_buffer st2 p) rt st2)"
    by (simp add: publishOrderCancel_def)
  then show "symbol_ok L binv {} st'" unfolding run by (rule free_ok) simp
  show "queue L st' (side ord) = remove_entry i (queue L st (side ord))"
    "queue L st' (opposite_side (side ord)) = queue L st (opposite_side (side ord))"
    "ob_orders st' = (ob_orders st)(i := None)" "ob_live st' = ob_live st - {p}"
    using c by (simp_all add: run)
  show "response_queue st' = response_queue st @
      [cancel_report (ord\<lparr>last_update_time := now, leaves_quantity := 0\<rparr>) rt (response_slot st (length (response_queue st)))]"
    using c(5) nf by (simp add: run freeOrder_def publishOrderCancel_def publish_def)
qed

lemma sym_cancelOrder_frame: "sym_frame st (sym_cancelOrder L p rt now st)"
proof -
  let ?st1 = "set_order p (\<lambda>ord. ord\<lparr>last_update_time := now\<rparr>) st"
  let ?st2 = "deleteOrder L p (last_update_time (ob_buffer ?st1 p)) 0 True ?st1"
  have "near_frame st ?st2" by (rule near_frame_trans [OF _ near_frame_ops(2)]) simp
  then have "sym_frame st ?st2" by (rule sym_frame_near)
  then have "sym_frame st (publishOrderCancel (ob_buffer ?st2 p) rt ?st2)"
    unfolding publishOrderCancel_def using sym_frame_trans sym_frame_publish by blast
  moreover have "sym_frame b (freeOrder p b)" for b :: "('a, 'b) instrument" by (rule sym_frame_near) simp
  ultimately show ?thesis unfolding sym_cancelOrder_def Let_def using sym_frame_trans by blast
qed

end
