(* ===== verification/Symbol_Amend.thy ===== *)
theory Symbol_Amend
  imports Symbol_Properties
begin

text \<open>
  \<open>Symbol::modifyOrder\<close>: the amendment is matched first, and what is left of the order moves to its
  new place in the book.
\<close>

lemma amended_set:
  assumes "e \<in> set es" and "distinct (map en_id es)" and "en_id e = id_num ord" and "0 \<le> leaves_quantity ord"
  shows "set (amended_queue s e ord es) =
    {x \<in> set es. en_id x \<noteq> id_num ord} \<union> (if leaves_quantity ord = 0 then {} else {entry_for ord})"
proof -
  have uniq: "x = e" if "x \<in> set es" "en_id x = id_num ord" for x
    using that assms(1-3) by (metis distinct_map inj_onD)
  show ?thesis
  proof (cases "leaves_quantity ord \<noteq> 0 \<and> en_price e = price ord \<and> en_prio e = priority ord")
    case True
    then have new: "e\<lparr>en_qty := leaves_quantity ord\<rparr> = entry_for ord" using assms(3) by (cases e) (simp add: entry_for_def)
    let ?f = "\<lambda>x. if en_id x = id_num ord then x\<lparr>en_qty := leaves_quantity ord\<rparr> else x"
    have "set es = {x \<in> set es. en_id x \<noteq> id_num ord} \<union> {e}" using uniq assms(1,3) by blast
    then have "?f ` set es = ?f ` ({x \<in> set es. en_id x \<noteq> id_num ord} \<union> {e})" by (rule arg_cong)
    then have "?f ` set es = ?f ` {x \<in> set es. en_id x \<noteq> id_num ord} \<union> {?f e}" unfolding image_Un by simp
    moreover have "?f ` {x \<in> set es. en_id x \<noteq> id_num ord} = {x \<in> set es. en_id x \<noteq> id_num ord}" by (auto simp: image_iff)
    ultimately show ?thesis using True assms(3,4) new by (simp add: amended_queue_def resize_entry_def)
  next
    case False
    then show ?thesis using assms by (auto simp: amended_queue_def set_remove_entry)
  qed
qed

lemma move_ok:
  fixes st :: "('l, 'z) instrument"
  assumes l3: "l3_book L binv" and inv: "obinv L binv {p} st" and own: "ob_orders st i = Some p"
    and ord: "ord = ob_buffer st p" and e: "e \<in> set (queue L st (side ord))" "en_id e = i"
    and prio: "0 < priority ord" "priority ord \<le> ob_next_priority st" and px: "price ord \<noteq> NULL_PRICE"
    and acct: "leaves_quantity ord = 0 \<or> acct_ok ord"
    and pool: "pool_exact {} st" and dr: "drawn L st" and un: "uncrossed L st" and eng: "engine_valid (sy_engine st)"
    and free: "0 < leaves_quantity ord \<Longrightarrow>
      \<forall>x\<in>set (queue L st (opposite_side (side ord))). \<not> crosses (opposite_side (side ord)) (price ord) (en_price x)"
    and st': "st' = modifyOrder L p (price ord) (quantity ord) t 0 lb st"
  shows "symbol_ok L binv (if leaves_quantity ord = 0 then {p} else {}) st'" and "amended L p e ord 0 st st'"
proof -
  let ?s = "side ord"
  have id: "id_num ord = i" using obinv_id_num [OF inv own] ord by simp
  have own': "ob_orders st (id_num (ob_buffer st p)) = Some p" using own id ord by simp
  have eq: "ord = (ob_buffer st p)\<lparr>price := price ord, quantity := quantity ord,
      priority := (if price ord \<noteq> price (ob_buffer st p) then ob_next_priority st + 1 else priority (ob_buffer st p))\<rparr>"
    by (simp add: ord)
  have fin: "obinv L binv {} st' \<and> amended L p e ord 0 st st'"
    unfolding st' using l3_book.modifyOrder_ok [OF l3, of p "{}" st e 0 ord "price ord" "quantity ord" t lb] inv own' e prio acct eq
    by (simp add: id ord [symmetric])
  then show am: "amended L p e ord 0 st st'" by simp
  have s: "real_side ?s" using obinv_real_side [OF inv own] by (simp add: ord)
  note dist = l3_book.queue_distinct(1) [OF l3 inv s]
  have nn: "0 \<le> leaves_quantity ord" using acct by (auto simp: acct_ok_def)
  have eid: "en_id e = id_num ord" using e(2) id by simp
  have q: "set (queue L st' ?s) = {x \<in> set (queue L st ?s). en_id x \<noteq> id_num ord} \<union>
      (if leaves_quantity ord = 0 then {} else {entry_for ord})"
    "queue L st' (opposite_side ?s) = queue L st (opposite_side ?s)"
    "ob_orders st' = (if leaves_quantity ord = 0 then (ob_orders st)(i := None) else ob_orders st)" "ob_live st' = ob_live st"
    using am amended_set [OF e(1) dist eid nn, of ?s] by (simp_all add: amended_def id)
  note nf = near_frame_modify [of st L p "price ord" "quantity ord" t 0 lb, folded st']
  have old: "en_id x < ob_next_order_id st' \<and> en_prio x \<le> ob_next_priority st' \<and> en_price x \<noteq> NULL_PRICE"
    if "x \<in> set (queue L st s')" "real_side s'" for x s'
    using dr that near_frameD(2,3) [OF nf] by (fastforce simp: drawn_def)
  have new: "en_id (entry_for ord) < ob_next_order_id st' \<and> en_prio (entry_for ord) \<le> ob_next_priority st' \<and>
      en_price (entry_for ord) \<noteq> NULL_PRICE"
    using old [OF e(1) s] prio(2) px e(2) near_frameD(3) [OF nf] by (simp add: entry_for_def id)
  have "drawn L st'" unfolding drawn_def
  proof (intro allI impI ballI)
    fix s' x assume "real_side s'" "x \<in> set (queue L st' s')"
    then show "en_id x < ob_next_order_id st' \<and> en_prio x \<le> ob_next_priority st' \<and> en_price x \<noteq> NULL_PRICE"
      using real_side_cases [OF s, of s'] q(1,2) old new by (auto split: if_splits)
  qed
  moreover have "uncrossed L st'"
  proof -
    have "\<not> isPriceBetterOrEqual ?s (en_price x) (en_price y)"
      if "x \<in> set (queue L st' ?s)" "y \<in> set (queue L st' (opposite_side ?s))" for x y
    proof (cases "x \<in> set (queue L st ?s)")
      case True
      then show ?thesis using un that(2) q(2) by (simp add: uncrossed_side [OF s])
    next
      case False
      then have "x = entry_for ord" "0 < leaves_quantity ord" using that(1) q(1) nn by (auto split: if_splits)
      then show ?thesis using free that(2) q(2) s px
        by (auto simp: crosses_def entry_for_def real_side_def isPriceBetterOrEqual_def split: if_splits)
    qed
    then show ?thesis by (simp add: uncrossed_side [OF s])
  qed
  moreover have "pool_exact (if leaves_quantity ord = 0 then {p} else {}) st' \<and>
      (if leaves_quantity ord = 0 then {p} else {}) \<inter> ran (ob_orders st') = {}"
    using pool ran_map_remove [OF obinv_inj [OF inv] own] ranI [of "ob_orders st", OF own] by (auto simp: pool_exact_def q(3,4))
  ultimately show "symbol_ok L binv (if leaves_quantity ord = 0 then {p} else {}) st'"
    using fin eng near_frame_symbol [OF nf] by (simp add: symbol_ok_def)
qed

section \<open>The whole amendment\<close>

text \<open>A resting order about to be amended.\<close>

definition amending :: "'l l3_ops \<Rightarrow> ('l \<Rightarrow> bool) \<Rightarrow> ptr \<Rightarrow> ('l, 'z) instrument \<Rightarrow> bool" where
  "amending L binv p st \<longleftrightarrow>
     (let ord = ob_buffer st p in
        symbol_ok L binv {} st \<and> findOrder (id_num ord) st = Some p \<and> status ord = OS_PENDING_REPLACE \<and>
        fits (queue L st (opposite_side (side ord))))"

lemma amendingD:
  assumes "amending L binv p st" and "ord = ob_buffer st p" and that: "l3_book L binv"
  shows "symbol_ok L binv {} st" "ob_orders st (id_num ord) = Some p" "status ord = OS_PENDING_REPLACE"
    "fits (queue L st (opposite_side (side ord)))" "real_side (side ord)" "linked L st p" "0 < leaves_quantity ord"
proof -
  show d: "symbol_ok L binv {} st" "ob_orders st (id_num ord) = Some p" "status ord = OS_PENDING_REPLACE"
    "fits (queue L st (opposite_side (side ord)))"
    using assms by (simp_all add: amending_def Let_def findOrder_def)
  show s: "real_side (side ord)" and lk: "linked L st p"
    using obinv_real_side [OF symbol_okD(1) [OF d(1)] d(2)] obinv_linked [OF symbol_okD(1) [OF d(1)] d(2)] assms(2) by auto
  show "0 < leaves_quantity ord"
    using l3_book.queue_pos [OF that symbol_okD(1) [OF d(1)] s, of "entry_for ord"] lk assms(2)
    by (auto simp: linked_def entry_for_def)
qed

lemma amending_matchable:
  assumes l3: "l3_book L binv" and am: "amending L binv p st" and ord: "ord = ob_buffer st p"
  shows "matchable L binv (Some p) (opposite_side (side ord)) 0 st"
proof -
  let ?s = "opposite_side (side ord)"
  note d = amendingD [OF am ord l3]
  note ok = symbol_okD [OF d(1)]
  have s: "real_side ?s" using d(5) by (auto simp: real_side_def)
  have "ob_orders st (en_id e) \<noteq> Some p" if "e \<in> set (queue L st ?s)" for e
  proof
    assume "ob_orders st (en_id e) = Some p"
    then have "side (ob_buffer st p) = ?s" using l3_book.owner_entry(1) [OF l3 ok(1) s that] by simp
    then show False using d(5) ord by (auto simp: real_side_def)
  qed
  then have "hittable L (Some p) ?s st" using ok(4) s by (auto simp: hittable_def drawn_def)
  moreover have "obinv L binv {p} st" using ok(1) by (rule obinv_mono) simp
  ultimately show ?thesis using s d(4) by (simp add: matchable_def)
qed

lemma stamp_ok:
  fixes st :: "('l, 'z) instrument"
  assumes "symbol_ok L binv X st"
  shows "symbol_ok L binv X (set_order p (\<lambda>ord. ord\<lparr>last_update_time := now\<rparr>) st)"
  using assms by (rule same_entry_ok) (simp_all add: entry_for_def acct_ok_def)

text \<open>A rejected amendment only stamps the order.\<close>

lemma sym_modifyOrder_rejected:
  fixes st :: "('l, 'z) instrument"
  assumes "engine_match_order L (sy_engine st) p px q rt (last_update_time (ob_buffer st p)) 0 (sy_smp_mode st) st = Some (rr, [], st1)"
    and "rr \<noteq> RJ_NONE" and "symbol_ok L binv {} st1" and "0 < leaves_quantity (ob_buffer st1 p)"
    and "st' = set_order p (\<lambda>ord. ord\<lparr>last_update_time := now\<rparr>) st1"
  shows "sym_modifyOrder L p px q rt now st = Some (rr, [], st')" and "symbol_ok L binv {} st'"
  using assms stamp_ok [OF assms(3)] by (simp_all add: sym_modifyOrder_def Let_def)

text \<open>An accepted one leaves what the match left, at its new place, or nothing.\<close>

lemma sym_modifyOrder_accepted:
  fixes st :: "('l, 'z) instrument"
  assumes l3: "l3_book L binv" and am: "amending L binv p st" and o: "ord0 = ob_buffer st p" and s: "s = opposite_side (side ord0)"
    and run: "engine_match_order L (sy_engine st) p px q rt (last_update_time ord0) 0 (sy_smp_mode st) st = Some (RJ_NONE, sms, st1)"
    and inv: "obinv L binv {p} st1" and m: "matched L p (prepared px q ord0) s t fs es' sms st st1"
    and pl: "place ` set es' \<subseteq> place ` set (queue L st s)" and acct: "leaves_quantity (ob_buffer st1 p) = 0 \<or> acct_ok (ob_buffer st1 p)"
    and px: "px \<noteq> NULL_PRICE"
    and free: "0 < leaves_quantity (ob_buffer st1 p) \<Longrightarrow> es' = [] \<or> \<not> crosses s px (en_price (hd es'))"
    and ord: "ord = (ob_buffer st1 p)\<lparr>last_update_time := now, priority := (if px \<noteq> price ord0 \<or> q > quantity ord0
      then ob_next_priority st + 1 else priority ord0)\<rparr>"
  obtains st' where "sym_modifyOrder L p px q rt now st = Some (RJ_NONE, sms, st')" "symbol_ok L binv {} st'"
    "queue L st' s = es'" "queue L st' (side ord0) = amended_queue (side ord0) (entry_for ord0) ord (queue L st (side ord0))"
    "ob_orders st' = (if leaves_quantity ord = 0 then (ob_orders st1)(id_num ord0 := None) else ob_orders st1)"
    "ob_buffer st' p = ord" "sym_frame st st'"
proof -
  note d = amendingD [OF am o l3]
  note ok = symbol_okD [OF d(1)]
  let ?req = "px \<noteq> price ord0 \<or> q > quantity ord0"
  have rs: "real_side s" "opposite_side s = side ord0" using d(5) s by (auto simp: real_side_def)
  have dj: "{} \<inter> ran (ob_orders st) = {}" by simp
  note mo = matched_ok [OF m pl rs(1) ok(4,5,2) dj ok(6)]
  have q1: "queue L st1 s = es'" "queue L st1 (side ord0) = queue L st (side ord0)"
    and o1: "ob_orders st1 = orders_after (ob_orders st) (queue L st s) es'"
    and buf: "ob_buffer st1 p = foldl (apply_fill t) (prepared px q ord0) (fill_prices fs)"
    using m rs(2) by (simp_all add: matched_def)
  have keep: "price (ob_buffer st1 p) = px" "side (ob_buffer st1 p) = side ord0" "id_num (ob_buffer st1 p) = id_num ord0"
    "priority (ob_buffer st1 p) = priority ord0" "quantity (ob_buffer st1 p) = q"
    using d(3) by (simp_all add: buf fold_fill_sel prepared_def applyReplace_def)
  have fr: "ob_next_priority st1 = ob_next_priority st" using mo(7) by (simp add: eng_frame_def)
  define st2 where "st2 = set_order p (\<lambda>ord. ord\<lparr>last_update_time := now\<rparr>) st1"
  define st3 where "st3 = (if ?req then drawPriority p st2 else st2)"
  define st4 where "st4 = modifyOrder L p (price ord) (quantity ord) now 0 True st3"
  have b3: "ob_buffer st3 p = ord" by (cases ?req) (simp_all add: st3_def st2_def ord fr keep drawPriority_eq)
  have q3: "queue L st3 s' = queue L st1 s'" for s' by (simp add: st3_def st2_def)
  have o3: "ob_orders st3 = ob_orders st1" "ob_live st3 = ob_live st1" by (simp_all add: st3_def st2_def)
  have inv3: "obinv L binv {p} st3"
    unfolding st3_def st2_def drawPriority_eq using inv by (auto intro!: obinv_set_order simp: obinv_priority_field)
  have nf: "near_frame st1 st3" unfolding st3_def st2_def by (intro near_frame_if near_frame_simps near_frame_refl)
  have e: "entry_for ord0 \<in> set (queue L st (side ord0))" "0 < priority ord0" using d(6) o by (auto simp: linked_def)
  have own3: "ob_orders st3 (id_num ord0) = Some p"
  proof -
    have "id_num ord0 \<notin> en_id ` set (queue L st s)"
      using l3_book.queue_distinct(2) [OF l3 ok(1) rs(1)] imageI [OF e(1), of en_id] rs(2) by (auto simp: entry_for_def)
    then show ?thesis using d(2) by (simp add: o3 o1 orders_after_def)
  qed
  have sel: "side ord = side ord0" "price ord = px" "quantity ord = q" "id_num ord = id_num ord0"
    "leaves_quantity ord = leaves_quantity (ob_buffer st1 p)" "leaves_quantity ord = 0 \<or> acct_ok ord"
    using keep acct by (simp_all add: ord acct_ok_def)
  have "en_prio (entry_for ord0) \<le> ob_next_priority st" using ok(4) e(1) d(5) unfolding drawn_def by blast
  then have pr: "0 < priority ord" "priority ord \<le> ob_next_priority st3"
    using e(2) fr by (auto simp: ord entry_for_def st3_def st2_def)
  have nx: "\<forall>x\<in>set (queue L st3 (opposite_side (side ord))). \<not> crosses (opposite_side (side ord)) (price ord) (en_price x)"
    if "0 < leaves_quantity ord"
    using nothing_crosses [OF l3_book.queue_sorted [OF l3 inv rs(1)], of px] free that sel s q1 q3 by simp
  have pool3: "pool_exact {} st3" using mo(3) by (simp add: pool_exact_def o3)
  have dr3: "drawn L st3" by (rule drawn_places [OF mo(1)]) (simp_all add: near_frameD [OF nf] q3)
  have un3: "uncrossed L st3" by (rule uncrossed_places [OF mo(2)]) (simp add: q3)
  have en3: "engine_valid (sy_engine st3)" using mo(5) near_frame_symbol [OF nf] by simp
  note mv = move_ok [OF l3 inv3 own3 b3 [symmetric] _ _ pr _ sel(6) pool3 dr3 un3 en3 nx st4_def, of "entry_for ord0"]
  have e3: "entry_for ord0 \<in> set (queue L st3 (side ord))" "en_id (entry_for ord0) = id_num ord0"
    using e q1 q3 sel by (simp_all add: entry_for_def)
  have fin: "symbol_ok L binv (if leaves_quantity ord = 0 then {p} else {}) st4" "amended L p (entry_for ord0) ord 0 st3 st4"
    using mv [OF e3] px sel by simp_all
  let ?st = "if leaves_quantity ord = 0 then freeOrder p st4 else st4"
  have b4: "ob_buffer st4 p = ord" using fin(2) by (simp add: amended_def)
  have "sym_modifyOrder L p px q rt now st = Some (RJ_NONE, sms,
      (let st4 = modifyOrder L p px (quantity (ob_buffer st3 p)) (last_update_time (ob_buffer st3 p)) 0 True st3
       in if leaves_quantity (ob_buffer st4 p) = 0 then freeOrder p st4 else st4))"
    by (simp only: sym_modifyOrder_def Let_def o [symmetric] run option.case prod.case if_True simp_thms st2_def st3_def)
  moreover have "last_update_time ord = now" by (simp add: ord)
  ultimately have "sym_modifyOrder L p px q rt now st = Some (RJ_NONE, sms, ?st)"
    by (simp only: b3 sel st4_def [unfolded sel, symmetric] Let_def b4)
  moreover have "symbol_ok L binv {} ?st" using fin(1) free_ok [of L binv p "{}" st4] by (simp split: if_splits)
  moreover have "queue L ?st s = es'" "queue L ?st (side ord0) = amended_queue (side ord0) (entry_for ord0) ord (queue L st (side ord0))"
    "ob_orders ?st = (if leaves_quantity ord = 0 then (ob_orders st1)(id_num ord0 := None) else ob_orders st1)" "ob_buffer ?st p = ord"
    using fin(2) q1 q3 o3 sel s b4 by (simp_all add: amended_def)
  moreover have "near_frame st1 ?st"
    using near_frame_trans [OF nf near_frame_modify, of L p "price ord" "quantity ord" now 0 True] by (simp add: st4_def)
  then have "sym_frame st ?st" using sym_frame_trans [OF sym_frame_eng [OF mo(7)] sym_frame_near] by blast
  ultimately show thesis by (rule that)
qed

section \<open>Every outcome\<close>

text \<open>Whatever an order meets, the operation returns and leaves the instrument in good order.\<close>

lemma sym_addOrder_total:
  fixes st :: "('l, 'z) instrument"
  assumes "l3_book L binv" and "incoming L binv p st"
  obtains rr sms st' where "sym_addOrder L p rt st = Some (rr, sms, st')" "symbol_ok L binv {} st'" "sym_frame st st'"
    "rr \<in> {RJ_NONE, RJ_SMP, RJ_FOK_CANNOT_FILL}"
proof -
  let ?ord = "ob_buffer st p" let ?s = "opposite_side (side ?ord)"
  obtain fs cs es' q' where sp: "engine_spec (sy_engine st) (crosses ?s (price ?ord)) (own_order (sy_smp_mode st) p st)
      (leaves_quantity ?ord) (queue L st ?s) = (fs, cs, es', q')"
    by (metis prod_cases4)
  note out = sym_addOrder_ok [OF assms refl refl sp, of rt]
  consider (smp) "sy_smp_mode st = SMP_CANCEL_NEWEST" "cs \<noteq> []"
    | (fok) "sy_smp_mode st = SMP_CANCEL_NEWEST \<longrightarrow> cs = []" "fok_kills L ?s ?ord (price ?ord) (quantity ?ord) (sy_smp_mode st) st"
    | (go) "sy_smp_mode st = SMP_CANCEL_NEWEST \<longrightarrow> cs = []" "\<not> fok_kills L ?s ?ord (price ?ord) (quantity ?ord) (sy_smp_mode st) st"
    by blast
  then show thesis
  proof cases
    case smp
    then show thesis using that out(1) not_resting_frame by blast
  next
    case fok
    then show thesis using that out(2) by blast
  next
    case go
    then obtain sms st1 where m: "matched L p ?ord ?s (created_time ?ord) fs es' sms st st1"
      and r: "let st' = (if 0 < q' \<and> restsRemainder ?ord then addOrder L p (created_time (ob_buffer st1 p)) 0 True st1
          else freeOrder p (close_event st1)) in sym_addOrder L p rt st = Some (RJ_NONE, sms, st') \<and> symbol_ok L binv {} st'"
      using out(3) by (auto simp: Let_def)
    have "sym_frame st1 (addOrder L p t 0 True st1)" for t by (rule sym_frame_near [OF near_frame_ops(1)])
    then show thesis
      using that [of RJ_NONE sms] r sym_frame_trans [OF sym_frame_eng [OF matchedD(8) [OF m]]] not_resting_frame [of st1 p]
      by (auto simp: Let_def split: if_splits)
  qed
qed

text \<open>What an accepted amendment leaves of the accounting.\<close>

lemma prepared_acct: "acct_ok ord \<Longrightarrow> status ord = OS_PENDING_REPLACE \<Longrightarrow> cum_quantity ord \<le> q \<Longrightarrow> acct_ok (prepared px q ord)"
  by (auto simp: acct_ok_def prepared_def applyReplace_def)

lemma amend_rejected_smp:
  fixes st :: "('l, 'z) instrument"
  assumes l3: "l3_book L binv" and am: "amending L binv p st" and ord: "ord = ob_buffer st p" and s: "s = opposite_side (side ord)"
    and sp: "engine_spec (sy_engine st) (crosses s px) (own_order (sy_smp_mode st) p st) (max 0 (q - cum_quantity ord)) (queue L st s) =
      (fs, cs, es', q')"
    and smp: "sy_smp_mode st = SMP_CANCEL_NEWEST" "cs \<noteq> []"
  shows "sym_modifyOrder L p px q rt now st = Some (RJ_SMP, [], set_order p (\<lambda>ord. ord\<lparr>last_update_time := now\<rparr>) st) \<and>
    symbol_ok L binv {} (set_order p (\<lambda>ord. ord\<lparr>last_update_time := now\<rparr>) st)"
proof -
  note d = amendingD [OF am ord l3]
  note eng = engine_contract [OF l3 symbol_okD(6) [OF d(1)]]
  have lv: "leaves_quantity (prepared px q (ob_buffer st p)) = max 0 (q - cum_quantity ord)"
    using d(3) by (auto simp: prepared_def applyReplace_def ord)
  have "engine_match_order L (sy_engine st) p px q rt (last_update_time (ob_buffer st p)) 0 (sy_smp_mode st) st = Some (RJ_SMP, [], st)"
    by (rule matching_engine.order_smp [OF eng _ _ _ _ smp])
      (use amending_matchable [OF l3 am ord] s d(5,6) ord sp lv in \<open>simp_all add: opposite_queue_side linked_def\<close>)
  then show ?thesis
    using sym_modifyOrder_rejected [OF _ _ d(1) _ refl, of st p px q rt RJ_SMP now] d(7) ord by simp
qed

lemma amend_still_owned:
  fixes st :: "('l, 'z) instrument"
  assumes l3: "l3_book L binv" and am: "amending L binv p st" and ord: "ord = ob_buffer st p" and s: "s = opposite_side (side ord)"
    and m: "matched L p ord' s t fs es' sms st st1"
  shows "ob_orders st1 (id_num ord) = Some p"
proof -
  note d = amendingD [OF am ord l3]
  have e: "entry_for ord \<in> set (queue L st (side ord))" using d(6) ord by (simp add: linked_def)
  have rs: "real_side s" "opposite_side s = side ord" using d(5) s by (auto simp: real_side_def)
  have "id_num ord \<notin> en_id ` set (queue L st s)"
    using l3_book.queue_distinct(2) [OF l3 symbol_okD(1) [OF d(1)] rs(1)] imageI [OF e, of en_id] rs(2) by (auto simp: entry_for_def)
  then show ?thesis using d(2) by (simp add: matchedD(7) [OF m] orders_after_def)
qed

lemma amend_accepted:
  fixes st :: "('l, 'z) instrument"
  assumes l3: "l3_book L binv" and am: "amending L binv p st" and ord: "ord = ob_buffer st p" and s: "s = opposite_side (side ord)"
    and px: "px \<noteq> NULL_PRICE"
    and sp: "engine_spec (sy_engine st) (crosses s px) (own_order (sy_smp_mode st) p st) (max 0 (q - cum_quantity ord)) (queue L st s) =
      (fs, cs, es', q')"
    and cs: "sy_smp_mode st = SMP_CANCEL_NEWEST \<longrightarrow> cs = []" and nofok: "\<not> fok_kills L s ord px q (sy_smp_mode st) st"
  obtains sms st1 st' where "sym_modifyOrder L p px q rt now st = Some (RJ_NONE, sms, st')" "symbol_ok L binv {} st'"
    "matched L p (prepared px q ord) s (last_update_time ord) fs es' sms st st1" "obinv L binv {p} st1" "queue L st' s = es'"
    "ob_buffer st' p = (ob_buffer st1 p)\<lparr>last_update_time := now, priority := (if px \<noteq> price ord \<or> quantity ord < q
       then ob_next_priority st + 1 else priority ord)\<rparr>"
    "ob_orders st' = (if q' = 0 then (ob_orders st1)(id_num ord := None) else ob_orders st1)"
    "max 0 (q - cum_quantity ord) = filled_qty fs + q'" "leaves_quantity (ob_buffer st1 p) = q'" "sym_frame st st'"
    "queue L st' (side ord) = amended_queue (side ord) (entry_for ord) (ob_buffer st' p) (queue L st (side ord))"
proof -
  note d = amendingD [OF am ord l3]
  note ok = symbol_okD [OF d(1)]
  note eng = engine_contract [OF l3 ok(6)]
  have e: "acct_ok ord" using d(6) ord by (simp add: linked_def)
  have lv: "leaves_quantity (prepared px q ord) = max 0 (q - cum_quantity ord)" using d(3) by (auto simp: prepared_def applyReplace_def)
  have f: "fits (queue L st s)" using d(4) s by simp
  have m: "matchable L binv (Some p) s 0 st" using amending_matchable [OF l3 am ord] s by simp
  have oq: "s = opposite_queue (ob_buffer st p)" using d(5) ord s by (simp add: opposite_queue_side)
  obtain sms st1 where st1: "engine_match_order L (sy_engine st) p px q rt (last_update_time ord) 0 (sy_smp_mode st) st =
      Some (RJ_NONE, sms, st1)" "obinv L binv {p} st1" "matched L p (prepared px q ord) s (last_update_time ord) fs es' sms st st1"
    using matching_engine.order_matches [OF eng m oq _ _ cs, of px q fs es' q' rt "last_update_time ord"] nofok sp lv e ord by auto
  have bal: "max 0 (q - cum_quantity ord) = filled_qty fs + q'" "0 \<le> q'" using matching_engine.spec_balance [OF eng f _ sp] by auto
  have pos: "0 \<le> filled_qty fs" by (rule spec_filled_nonneg [OF eng f sp])
  note mD = matchedD [OF st1(3)]
  have lv1: "leaves_quantity (ob_buffer st1 p) = q'" using mD(5) bal lv by simp
  have acct: "leaves_quantity (ob_buffer st1 p) = 0 \<or> acct_ok (ob_buffer st1 p)"
  proof (cases "cum_quantity ord \<le> q")
    case True
    then show ?thesis using prepared_acct [OF e d(3) True, of px] lv1 bal pos
      by (simp add: acct_ok_def mD(6) fold_fill_sel fold_fill_cum fold_fill_leaves)
  qed (use lv1 bal pos in auto)
  have fr: "0 < leaves_quantity (ob_buffer st1 p) \<Longrightarrow> es' = [] \<or> \<not> crosses s px (en_price (hd es'))"
    using lv1 matching_engine.spec_front [OF eng f sp] by simp
  let ?ord = "(ob_buffer st1 p)\<lparr>last_update_time := now, priority := (if px \<noteq> price ord \<or> quantity ord < q
      then ob_next_priority st + 1 else priority ord)\<rparr>"
  obtain st' where st': "sym_modifyOrder L p px q rt now st = Some (RJ_NONE, sms, st')" "symbol_ok L binv {} st'" "queue L st' s = es'"
    "queue L st' (side ord) = amended_queue (side ord) (entry_for ord) ?ord (queue L st (side ord))"
    "ob_orders st' = (if leaves_quantity ?ord = 0 then (ob_orders st1)(id_num ord := None) else ob_orders st1)"
    "ob_buffer st' p = ?ord" "sym_frame st st'"
    by (rule sym_modifyOrder_accepted [OF l3 am ord s st1 matching_engine.spec_places [OF eng f sp] acct px fr refl, where now = now])
      (simp, blast)
  show thesis
    by (rule that [OF st'(1,2) st1(3,2) st'(3,6) _ bal(1) lv1 st'(7)]) (simp_all only: st'(4-6), simp add: lv1)
qed

lemma sym_modifyOrder_total:
  fixes st :: "('l, 'z) instrument"
  assumes l3: "l3_book L binv" and am: "amending L binv p st" and px: "px \<noteq> NULL_PRICE"
  obtains rr sms st' where "sym_modifyOrder L p px q rt now st = Some (rr, sms, st')" "symbol_ok L binv {} st'" "sym_frame st st'"
proof -
  let ?ord = "ob_buffer st p" let ?s = "opposite_side (side ?ord)"
  note d = amendingD [OF am refl l3]
  note eng = engine_contract [OF l3 symbol_okD(6) [OF d(1)]]
  obtain fs cs es' q' where sp: "engine_spec (sy_engine st) (crosses ?s px) (own_order (sy_smp_mode st) p st)
      (max 0 (q - cum_quantity ?ord)) (queue L st ?s) = (fs, cs, es', q')"
    by (metis prod_cases4)
  consider (smp) "sy_smp_mode st = SMP_CANCEL_NEWEST" "cs \<noteq> []"
    | (fok) "sy_smp_mode st = SMP_CANCEL_NEWEST \<longrightarrow> cs = []" "fok_kills L ?s ?ord px q (sy_smp_mode st) st"
    | (go) "sy_smp_mode st = SMP_CANCEL_NEWEST \<longrightarrow> cs = []" "\<not> fok_kills L ?s ?ord px q (sy_smp_mode st) st"
    by blast
  then show thesis
  proof cases
    case smp
    then show thesis
      using that amend_rejected_smp [OF l3 am refl refl sp smp, of rt now] sym_frame_near [of st] by (meson near_frame_step(2))
  next
    case fok
    have lv: "leaves_quantity (prepared px q ?ord) = max 0 (q - cum_quantity ?ord)" using d(3) by (auto simp: prepared_def applyReplace_def)
    have oq: "?s = opposite_queue ?ord" using d(5) by (simp add: opposite_queue_side)
    obtain st1 where st1: "engine_match_order L (sy_engine st) p px q rt (last_update_time ?ord) 0 (sy_smp_mode st) st =
        Some (RJ_FOK_CANNOT_FILL, [], st1)" "reports_only p ?ord st st1"
      using matching_engine.order_fok [OF eng amending_matchable [OF l3 am refl] oq _ _ fok, of fs es' q'] sp lv d(6)
      by (auto simp: linked_def)
    let ?st = "set_order p (\<lambda>ord. ord\<lparr>last_update_time := now\<rparr>) st1"
    have "sym_frame st st1" using st1(2) by (auto simp: reports_only_def intro: sym_frame_eng)
    then have "sym_frame st ?st" using sym_frame_trans sym_frame_near [OF near_frame_step(2)] by blast
    then show thesis
      using that sym_modifyOrder_rejected [OF st1(1) _ reports_only_ok [OF st1(2) d(1)] _ refl] st1(2) d(7) by (simp add: reports_only_def)
  next
    case go
    then show thesis using that amend_accepted [OF l3 am refl refl px sp go, of rt now thesis] by blast
  qed
qed

section \<open>Properties\<close>

text \<open>
  C3. A new order, for either engine. \<open>Symbol::addOrder\<close> always returns, and leaves an instrument
  whose invariant holds: lookups, pool slots and L3 entries in step, no slot leaked, the book not
  crossed. With cancel-newest and an own order within reach it is rejected, an unfillable
  fill-or-kill order is rejected, both without trades and with the book as it was. Otherwise the
  trades are exactly those of the engine's abstract sweep, and the order rests with exactly the
  unfilled quantity behind every order of its price and better if it may rest, or is returned to
  the pool.
\<close>

theorem addOrder_outcome:
  fixes st :: "('l, 'z) instrument"
  assumes "l3_book L binv" and "incoming L binv p st" and "ord = ob_buffer st p" and "s = opposite_side (side ord)"
    and "engine_spec (sy_engine st) (crosses s (price ord)) (own_order (sy_smp_mode st) p st) (leaves_quantity ord) (queue L st s) =
      (fs, cs, es', q')"
  shows "\<exists>rr sms st'. sym_addOrder L p rt st = Some (rr, sms, st') \<and> symbol_ok L binv {} st' \<and>
    (if sy_smp_mode st = SMP_CANCEL_NEWEST \<and> cs \<noteq> [] then rr = RJ_SMP \<and> sms = [] \<and> ob_l3 st' = ob_l3 st \<and> ob_orders st' = ob_orders st
     else if fok_kills L s ord (price ord) (quantity ord) (sy_smp_mode st) st
     then rr = RJ_FOK_CANNOT_FILL \<and> sms = [] \<and> ob_l3 st' = ob_l3 st \<and> ob_orders st' = ob_orders st
     else rr = RJ_NONE \<and> legs sms = fill_legs fs \<and> filled_qty fs + q' = leaves_quantity ord \<and> queue L st' s = es' \<and>
       (if 0 < q' \<and> restsRemainder ord
        then findOrder (id_num ord) st' = Some p \<and> leaves_quantity (ob_buffer st' p) = q' \<and>
          queue L st' (side ord) = insert_entry (side ord) (entry_for (ob_buffer st' p)) (queue L st (side ord)) \<and>
          priority (ob_buffer st' p) = ob_next_priority st + 1
        else findOrder (id_num ord) st' = None \<and> p \<notin> ob_live st' \<and> queue L st' (side ord) = queue L st (side ord)))"
proof -
  note d = incomingD [OF assms(2,3)]
  note out = sym_addOrder_ok [OF assms, of rt]
  have ss: "opposite_side s = side ord" using assms(4) by simp
  have none: "ob_orders st (id_num ord) = None" using d(2) assms(3) by (simp add: restable_def Let_def)
  consider (smp) "sy_smp_mode st = SMP_CANCEL_NEWEST" "cs \<noteq> []"
    | (fok) "sy_smp_mode st = SMP_CANCEL_NEWEST \<longrightarrow> cs = []" "fok_kills L s ord (price ord) (quantity ord) (sy_smp_mode st) st"
    | (go) "sy_smp_mode st = SMP_CANCEL_NEWEST \<longrightarrow> cs = []" "\<not> fok_kills L s ord (price ord) (quantity ord) (sy_smp_mode st) st"
    by blast
  then show ?thesis
  proof cases
    case smp
    then show ?thesis using out(1) by simp
  next
    case fok
    then show ?thesis using out(2) by fastforce
  next
    case go
    let ?rests = "0 < q' \<and> restsRemainder ord"
    obtain sms st1 st' where r: "matched L p ord s (created_time ord) fs es' sms st st1"
      "st' = (if ?rests then addOrder L p (created_time (ob_buffer st1 p)) 0 True st1 else freeOrder p (close_event st1))"
      "sym_addOrder L p rt st = Some (RJ_NONE, sms, st')" "symbol_ok L binv {} st'"
      "leaves_quantity (ob_buffer st1 p) = q'" "?rests \<Longrightarrow> rested L p 0 st1 st'"
      using out(3) [OF go] by (auto simp: Let_def)
    have m: "queue L st1 s = es'" "queue L st1 (side ord) = queue L st (side ord)" "legs sms = fill_legs fs"
      "leaves_quantity (ob_buffer st1 p) = leaves_quantity ord - filled_qty fs"
      "ob_next_priority st1 = ob_next_priority st" "ident (ob_buffer st1 p) = ident ord"
      "ob_orders st1 = orders_after (ob_orders st) (queue L st s) es'"
      using matchedD [OF r(1)] ss assms(3) by metis+
    have id: "id_num (ob_buffer st1 p) = id_num ord" "side (ob_buffer st1 p) = side ord" using m(6) by (simp_all add: ident_def)
    have "ob_orders st1 (id_num ord) = None" using none by (simp add: m(7) orders_after_def restrict_map_def)
    then show ?thesis
      using go r m id assms(4)
      by (cases ?rests) (auto simp: rested_def Let_def findOrder_def entry_for_def)
  qed
qed

text \<open>
  Cancelling. From an instrument in good order, \<open>Symbol::cancelOrder\<close> removes exactly that order
  from its queue and from the lookups, gives its slot back, publishes one CANCELED report for it
  and keeps the instrument's invariant.
\<close>

theorem cancelOrder_outcome:
  fixes st :: "('l, 'z) instrument"
  assumes "l3_book L binv" and "symbol_ok L binv {} st" and "findOrder i st = Some p"
  shows "let ord = ob_buffer st p; st' = sym_cancelOrder L p rt now st in
    symbol_ok L binv {} st' \<and> findOrder i st' = None \<and> (\<forall>j. j \<noteq> i \<longrightarrow> findOrder j st' = findOrder j st) \<and>
    p \<notin> ob_live st' \<and> queue L st' (side ord) = remove_entry i (queue L st (side ord)) \<and>
    queue L st' (opposite_side (side ord)) = queue L st (opposite_side (side ord)) \<and>
    (\<exists>r. response_queue st' = response_queue st @ [r] \<and> r_exec_type r = ET_CANCELED \<and> r_order_num r = i \<and>
       r_leaves_qty r = 0 \<and> r_request_tag r = request_tag ord \<and> r_cum_qty r = cum_quantity ord)"
proof -
  have own: "ob_orders st i = Some p" using assms(3) by (simp add: findOrder_def)
  note ok = sym_cancelOrder_ok [OF assms(1,2) own refl refl, of rt now]
  have "id_num (ob_buffer st p) = i" using obinv_id_num [OF symbol_okD(1) [OF assms(2)] own] .
  then show ?thesis
    using ok by (simp add: Let_def findOrder_def cancel_report_def setOrderIdentity_def)
qed

text \<open>
  Reducing an order keeps its place. Amending a resting order to a smaller total at the same
  price, larger than what is filled, trades nothing and changes one thing in the book: the
  order's own quantity, at its old position in the queue.
\<close>

theorem reduce_keeps_place:
  fixes st :: "('l, 'z) instrument"
  assumes "l3_book L binv" and "amending L binv p st" and "ord = ob_buffer st p"
    and "new_qty \<le> quantity ord" and "cum_quantity ord < new_qty" and "time_in_force ord \<noteq> TIF_FILL_OR_KILL"
  shows "\<exists>st'. sym_modifyOrder L p (price ord) new_qty rt now st = Some (RJ_NONE, [], st') \<and> symbol_ok L binv {} st' \<and>
    queue L st' (side ord) = resize_entry (id_num ord) (new_qty - cum_quantity ord) (queue L st (side ord)) \<and>
    queue L st' (opposite_side (side ord)) = queue L st (opposite_side (side ord)) \<and>
    ob_orders st' = ob_orders st \<and> priority (ob_buffer st' p) = priority ord"
proof -
  let ?s = "opposite_side (side ord)" and ?px = "price ord"
  note d = amendingD [OF assms(2,3,1)]
  note ok = symbol_okD [OF d(1)]
  note eng = engine_contract [OF assms(1) ok(6)]
  have rs: "real_side ?s" using d(5) by (auto simp: real_side_def)
  have e: "entry_for ord \<in> set (queue L st (side ord))" "acct_ok ord" using d(6) assms(3) by (simp_all add: linked_def)
  have px: "?px \<noteq> NULL_PRICE" using ok(4) d(5) e(1) by (force simp: drawn_def entry_for_def)
  have "\<not> crosses ?s ?px (en_price y)" if "y \<in> set (queue L st ?s)" for y
  proof -
    have "\<not> isPriceBetterOrEqual ?s (en_price y) (en_price (entry_for ord))"
      using ok(5) that e(1) unfolding uncrossed_side [OF rs] opposite_side_involutive by blast
    then show ?thesis using px by (simp add: crosses_def entry_for_def)
  qed
  then have stop: "queue L st ?s = [] \<or> \<not> crosses ?s ?px (en_price (hd (queue L st ?s)))"
    by (cases "queue L st ?s") auto
  let ?q = "new_qty - cum_quantity ord" and ?ord = "prepared ?px new_qty ord"
  have lv: "leaves_quantity ?ord = ?q" using d(3) assms(5) by (simp add: prepared_def applyReplace_def)
  have sp: "engine_spec (sy_engine st) (crosses ?s ?px) (own_order (sy_smp_mode st) p st)
      (leaves_quantity (prepared ?px new_qty (ob_buffer st p))) (queue L st ?s) = ([], [], queue L st ?s, ?q)"
    using matching_engine.spec_stop [OF eng, where acc = "crosses ?s ?px", OF stop] lv assms(3) by simp
  have oq: "?s = opposite_queue (ob_buffer st p)" using d(5) assms(3) by (simp add: opposite_queue_side)
  have m: "matchable L binv (Some p) ?s 0 st" by (rule amending_matchable [OF assms(1-3)])
  have nofok: "\<not> fok_kills L ?s (ob_buffer st p) ?px new_qty (sy_smp_mode st) st"
    using assms(3,6) by (simp add: fok_kills_def)
  have ac: "acct_ok (ob_buffer st p)" using e(2) assms(3) by simp
  obtain sms st1 where st1: "engine_match_order L (sy_engine st) p ?px new_qty rt (last_update_time ord) 0 (sy_smp_mode st) st =
      Some (RJ_NONE, sms, st1)" "obinv L binv {p} st1" "matched L p ?ord ?s (last_update_time ord) [] (queue L st ?s) sms st st1"
    using matching_engine.order_matches [OF eng m oq ac sp _ nofok, of rt "last_update_time ord"] assms(3) by auto
  have buf: "ob_buffer st1 p = ?ord" using st1(3) by (simp add: matched_def)
  have acct: "leaves_quantity (ob_buffer st1 p) = 0 \<or> acct_ok (ob_buffer st1 p)"
    using e(2) lv assms(5) d(3) unfolding buf by (auto simp: acct_ok_def prepared_def applyReplace_def)
  have sms: "sms = []" using matchedD(3,4) [OF st1(3)] by (intro no_legs) auto
  show ?thesis
    by (rule sym_modifyOrder_accepted [OF assms(1-3) refl st1 _ acct px stop refl, where now = now])
      (use sms buf lv assms(4,5) d(3) matchedD(7) [OF st1(3)] in \<open>auto simp: amended_queue_def entry_for_def prepared_def applyReplace_def\<close>)
qed

text \<open>The outcome of an amendment on every branch, the priority included.\<close>

lemma amend_outcome:
  fixes st :: "('l, 'z) instrument"
  assumes "l3_book L binv" and "amending L binv p st" and "ord = ob_buffer st p" and "s = opposite_side (side ord)"
    and "px \<noteq> NULL_PRICE" and "time_in_force ord \<noteq> TIF_FILL_OR_KILL"
    and "engine_spec (sy_engine st) (crosses s px) (own_order (sy_smp_mode st) p st) (max 0 (q - cum_quantity ord)) (queue L st s) =
      (fs, cs, es', q')"
  shows "\<exists>rr sms st'. sym_modifyOrder L p px q rt now st = Some (rr, sms, st') \<and> symbol_ok L binv {} st' \<and>
    (if sy_smp_mode st = SMP_CANCEL_NEWEST \<and> cs \<noteq> [] then rr = RJ_SMP \<and> sms = [] \<and> ob_l3 st' = ob_l3 st \<and> ob_orders st' = ob_orders st
     else rr = RJ_NONE \<and> legs sms = fill_legs fs \<and> filled_qty fs + q' = max 0 (q - cum_quantity ord) \<and> queue L st' s = es' \<and>
       (if q' = 0 then findOrder (id_num ord) st' = None \<and> p \<notin> ob_live st'
        else findOrder (id_num ord) st' = Some p \<and> entry_for (ob_buffer st' p) \<in> set (queue L st' (side ord)) \<and>
          price (ob_buffer st' p) = px \<and> quantity (ob_buffer st' p) = q \<and> leaves_quantity (ob_buffer st' p) = q' \<and>
          priority (ob_buffer st' p) =
            (if px \<noteq> price ord \<or> quantity ord < q then ob_next_priority st + 1 else priority ord)))"
proof -
  note d = amendingD [OF assms(2,3,1)]
  have nofok: "\<not> fok_kills L s ord px q (sy_smp_mode st) st" using assms(6) by (simp add: fok_kills_def)
  show ?thesis
  proof (cases "sy_smp_mode st = SMP_CANCEL_NEWEST \<and> cs \<noteq> []")
    case True
    then have "sym_modifyOrder L p px q rt now st = Some (RJ_SMP, [], set_order p (\<lambda>ord. ord\<lparr>last_update_time := now\<rparr>) st)"
      "symbol_ok L binv {} (set_order p (\<lambda>ord. ord\<lparr>last_update_time := now\<rparr>) st)"
      using amend_rejected_smp [OF assms(1-4,7)] by blast+
    then show ?thesis using True by (auto simp: set_order_def)
  next
    case False
    then have cs: "sy_smp_mode st = SMP_CANCEL_NEWEST \<longrightarrow> cs = []" by simp
    obtain sms st1 st' where r: "sym_modifyOrder L p px q rt now st = Some (RJ_NONE, sms, st')" "symbol_ok L binv {} st'"
      "matched L p (prepared px q ord) s (last_update_time ord) fs es' sms st st1" "obinv L binv {p} st1" "queue L st' s = es'"
      "ob_buffer st' p = (ob_buffer st1 p)\<lparr>last_update_time := now, priority := (if px \<noteq> price ord \<or> quantity ord < q
         then ob_next_priority st + 1 else priority ord)\<rparr>"
      "ob_orders st' = (if q' = 0 then (ob_orders st1)(id_num ord := None) else ob_orders st1)"
      "max 0 (q - cum_quantity ord) = filled_qty fs + q'" "leaves_quantity (ob_buffer st1 p) = q'"
      by (rule amend_accepted [OF assms(1-5,7) cs nofok]) blast
    note mD = matchedD [OF r(3)]
    have own1: "ob_orders st1 (id_num ord) = Some p" by (rule amend_still_owned [OF assms(1-4) r(3)])
    have keep: "price (ob_buffer st1 p) = px" "quantity (ob_buffer st1 p) = q" "id_num (ob_buffer st1 p) = id_num ord"
      using d(3) by (simp_all add: mD(6) fold_fill_sel prepared_def applyReplace_def)
    have gone: "p \<notin> ob_live st'" if "q' = 0"
      using that r(7) own1 symbol_okD(2) [OF r(2)] ran_map_remove [OF obinv_inj [OF r(4)] own1] by (simp add: pool_exact_def)
    have there: "entry_for (ob_buffer st' p) \<in> set (queue L st' (side ord))" if "q' \<noteq> 0"
    proof -
      have "side (ob_buffer st' p) = side ord" using mD(9) [of p] assms(3) by (simp add: r(6) ident_def)
      moreover have "linked L st' p" using obinv_linked [OF symbol_okD(1) [OF r(2)], of "id_num ord" p] that r(7) own1 by simp
      ultimately show ?thesis by (simp add: linked_def)
    qed
    show ?thesis
      using False r mD(3) keep own1 gone there
      by (intro exI [of _ RJ_NONE] exI [of _ sms] exI [of _ st']) (auto simp: findOrder_def)
  qed
qed

text \<open>
  C4. Amending an order. \<open>Symbol::modifyOrder\<close> of an order that is not fill-or-kill (such an order never rests) to a real
  price and any total always returns and keeps the instrument's invariant. If cancel-newest finds an own order
  within reach the amendment is rejected with the book as it was. Otherwise it trades exactly like
  the engine's sweep at the new price for the new remaining quantity (none, if the total is already filled); the order is gone and its
  slot free if nothing is left of it, or rests with exactly what is left: with a new priority if its price changed, with its
  old one if the price stayed and the total did not grow. What the code does when only the total grows is stated apart,
  in \<open>size_increase_requeues\<close>, because the repository's documents disagree about it.
\<close>

theorem modifyOrder_outcome:
  fixes st :: "('l, 'z) instrument"
  assumes "l3_book L binv" and "amending L binv p st" and "ord = ob_buffer st p" and "s = opposite_side (side ord)"
    and "px \<noteq> NULL_PRICE" and "time_in_force ord \<noteq> TIF_FILL_OR_KILL"
    and "engine_spec (sy_engine st) (crosses s px) (own_order (sy_smp_mode st) p st) (max 0 (q - cum_quantity ord)) (queue L st s) =
      (fs, cs, es', q')"
  shows "\<exists>rr sms st'. sym_modifyOrder L p px q rt now st = Some (rr, sms, st') \<and> symbol_ok L binv {} st' \<and>
    (if sy_smp_mode st = SMP_CANCEL_NEWEST \<and> cs \<noteq> [] then rr = RJ_SMP \<and> sms = [] \<and> ob_l3 st' = ob_l3 st \<and> ob_orders st' = ob_orders st
     else rr = RJ_NONE \<and> legs sms = fill_legs fs \<and> filled_qty fs + q' = max 0 (q - cum_quantity ord) \<and> queue L st' s = es' \<and>
       (if q' = 0 then findOrder (id_num ord) st' = None \<and> p \<notin> ob_live st'
        else findOrder (id_num ord) st' = Some p \<and> entry_for (ob_buffer st' p) \<in> set (queue L st' (side ord)) \<and>
          price (ob_buffer st' p) = px \<and> quantity (ob_buffer st' p) = q \<and> leaves_quantity (ob_buffer st' p) = q' \<and>
          (px \<noteq> price ord \<longrightarrow> priority (ob_buffer st' p) = ob_next_priority st + 1) \<and>
          (px = price ord \<and> q \<le> quantity ord \<longrightarrow> priority (ob_buffer st' p) = priority ord)))"
proof -
  obtain rr sms st' where r: "sym_modifyOrder L p px q rt now st = Some (rr, sms, st')" "symbol_ok L binv {} st'"
    and o: "if sy_smp_mode st = SMP_CANCEL_NEWEST \<and> cs \<noteq> [] then rr = RJ_SMP \<and> sms = [] \<and> ob_l3 st' = ob_l3 st \<and> ob_orders st' = ob_orders st
     else rr = RJ_NONE \<and> legs sms = fill_legs fs \<and> filled_qty fs + q' = max 0 (q - cum_quantity ord) \<and> queue L st' s = es' \<and>
       (if q' = 0 then findOrder (id_num ord) st' = None \<and> p \<notin> ob_live st'
        else findOrder (id_num ord) st' = Some p \<and> entry_for (ob_buffer st' p) \<in> set (queue L st' (side ord)) \<and>
          price (ob_buffer st' p) = px \<and> quantity (ob_buffer st' p) = q \<and> leaves_quantity (ob_buffer st' p) = q' \<and>
          priority (ob_buffer st' p) =
            (if px \<noteq> price ord \<or> quantity ord < q then ob_next_priority st + 1 else priority ord))"
    using amend_outcome [OF assms, of rt now] by blast
  show ?thesis by (intro exI [of _ rr] exI [of _ sms] exI [of _ st'] conjI r) (use o in \<open>simp split: if_splits\<close>)
qed

text \<open>
  The code also moves an order whose size grows at an unchanged price to the back, with a new priority, as the
  comment in symbol.cpp and matching-engine.md say; integration-coinbase.md (line 196) says that changing only the
  size keeps the priority, and order-lifecycle.md and order-book.md name the change of price only.
\<close>

theorem size_increase_requeues:
  fixes st :: "('l, 'z) instrument"
  assumes "l3_book L binv" and "amending L binv p st" and "ord = ob_buffer st p" and "s = opposite_side (side ord)"
    and "price ord \<noteq> NULL_PRICE" and "time_in_force ord \<noteq> TIF_FILL_OR_KILL" and "quantity ord < q"
    and "engine_spec (sy_engine st) (crosses s (price ord)) (own_order (sy_smp_mode st) p st) (max 0 (q - cum_quantity ord)) (queue L st s) =
      (fs, [], es', q')" and "q' \<noteq> 0"
  shows "\<exists>sms st'. sym_modifyOrder L p (price ord) q rt now st = Some (RJ_NONE, sms, st') \<and>
    findOrder (id_num ord) st' = Some p \<and> priority (ob_buffer st' p) = ob_next_priority st + 1"
  using amend_outcome [OF assms(1-6,8), of rt now] assms(7,9) by auto

end
