(* ===== verification/Sim_Exchange.thy ===== *)
theory Sim_Exchange
  imports Symbol_Amend
begin

text \<open>
  \<open>src/src/exchange/exchange.cpp\<close>, \<open>exchange.hpp\<close> and \<open>market_events.hpp\<close>: the exchange thread. It
  owns the request and response queues, the market-data queue and the identities of its clients,
  and runs one request or feed event at a time. Counters and the response queue are shared by all
  instruments of the process: \<open>enter\<close> hands them to the instrument a request works on and
  \<open>leave\<close> takes them back. The clock, the pool slot and the uuid a request draws are its
  environment.
\<close>

section \<open>Market-data frames\<close>

text \<open>The frame's security id is a signed 16-bit field written from the unsigned symbol id.\<close>

definition to_int16 :: "nat \<Rightarrow> int" where
  "to_int16 n = signed_take_bit 15 (int n)"

record TradeSummary =
  tm_timestamp :: time_ns
  tm_trade_id :: nat
  tm_security_id :: int
  tm_aggressor_side :: Side
  tm_price :: price_t
  tm_qty :: qty_t
  tm_num_orders :: nat
  tm_trades :: "Trade list"

datatype md_body =
  BookBody nat nat "SnapLevel list \<times> SnapLevel list"
| LevelBody "MDLevel list"
| OrderBody "MDOrder list"
| TradeSummaryBody TradeSummary
| RejectBody nat MDSubscriptionRejectReason
| TradeSnapshotBody nat nat nat "MDTrade list"
| SnapshotBody BookSnapshot
| SubSnapshotBody nat BookSnapshot

record MarketDataUpdate =
  md_symbol :: string
  md_venue :: Venue
  md_type :: MDUpdateType
  md_body :: md_body

section \<open>State\<close>

record 'l Exchange =
  x_venue :: Venue
  x_symbols :: "string \<rightharpoonup> 'l Symbol"
  x_md_queue :: "MarketDataUpdate list"
  x_publish_order_updates :: bool
  x_next_trade_id :: nat
  x_market_changed :: "string list"
  x_smp_mode :: SelfMatchPreventionMode
  x_matching :: MatchingConfig
  x_matching_keys_unread :: bool
  x_matching_engines :: "EngineType \<rightharpoonup> engine_obj"
  x_client_ids :: "string \<rightharpoonup> int"
  x_next_client_id :: int
  x_response_queue :: "OrderResponse list"
  x_response_slot :: "nat \<Rightarrow> OrderResponse"
  x_next_priority :: nat
  x_next_order_id :: nat
  x_engine_trade_id :: nat

text \<open>
  Construction: both queues empty, the self-match mode read from the config, no engine yet. The
  process-wide counters and the memory of the response queue are what they are at that moment.
\<close>

datatype init_error = MissingOrderGateway | MissingMdPublisher | BadSmpMode

definition config_smp_mode :: "(string \<rightharpoonup> json_value) \<Rightarrow> init_error + SelfMatchPreventionMode" where
  "config_smp_mode config = (case config ''self_match_prevention'' of
      None \<Rightarrow> Inr SMP_NONE
    | Some (JString mode) \<Rightarrow> Inr (to_smp_mode mode)
    | Some _ \<Rightarrow> Inl BadSmpMode)"

definition new_exchange ::
    "Venue \<Rightarrow> (string \<rightharpoonup> json_value) \<Rightarrow> (nat \<Rightarrow> OrderResponse) \<Rightarrow> nat \<Rightarrow> nat \<Rightarrow> nat \<Rightarrow> init_error + 'l Exchange" where
  "new_exchange venue config slots prio oid tid =
     (if config ''order_gateway'' = None then Inl MissingOrderGateway
      else if config ''md_publisher'' = None then Inl MissingMdPublisher
      else case config_smp_mode config of
        Inl e \<Rightarrow> Inl e
      | Inr smp \<Rightarrow> Inr \<lparr>
          x_venue = venue, x_symbols = (\<lambda>_. None), x_md_queue = [], x_publish_order_updates = False,
          x_next_trade_id = 1, x_market_changed = [], x_smp_mode = smp,
          x_matching = \<lparr>mc_type = FIFO, mc_pro_rata = default_pro_rata\<rparr>,
          x_matching_keys_unread = (config ''matching_algorithm'' \<noteq> None \<or> config ''pro_rata'' \<noteq> None),
          x_matching_engines = (\<lambda>_. None), x_client_ids = (\<lambda>_. None), x_next_client_id = 0,
          x_response_queue = [], x_response_slot = slots, x_next_priority = prio, x_next_order_id = oid,
          x_engine_trade_id = tid\<rparr>)"

text \<open>The instrument with the process-wide counters and the response queue, and back.\<close>

definition load :: "'l Exchange \<Rightarrow> 'l Symbol \<Rightarrow> 'l Symbol" where
  "load x sy = sy\<lparr>
     response_queue := x_response_queue x, response_slot := x_response_slot x, next_trade_id := x_engine_trade_id x,
     ob_next_priority := x_next_priority x, ob_next_order_id := x_next_order_id x\<rparr>"

definition getSymbol :: "string \<Rightarrow> 'l Exchange \<Rightarrow> 'l Symbol option" where
  "getSymbol name x = map_option (load x) (x_symbols x name)"

definition leave :: "string \<Rightarrow> 'l Symbol \<times> 'l Exchange \<Rightarrow> 'l Exchange" where
  "leave name v = (case v of (sy, x) \<Rightarrow> x\<lparr>
     x_symbols := (x_symbols x)(name \<mapsto> sy),
     x_response_queue := response_queue sy, x_engine_trade_id := next_trade_id sy,
     x_next_priority := ob_next_priority sy, x_next_order_id := ob_next_order_id sy\<rparr>)"

text \<open>
  What a request draws from outside the repository: a free pool slot, a uuid, clock readings in order,
  and whether the program was compiled with its assertions (a Debug build) or without (\<open>NDEBUG\<close>, a Release build).
\<close>

record request_env =
  env_slot :: ptr
  env_uuid :: string
  env_clock :: "nat \<Rightarrow> time_ns"
  env_asserts :: bool

section \<open>Rejections\<close>

definition reject_report ::
    "string \<Rightarrow> string \<Rightarrow> string \<Rightarrow> string \<Rightarrow> nat \<Rightarrow> time_ns \<Rightarrow> price_t \<Rightarrow> qty_t \<Rightarrow> OrdRejectReason \<Rightarrow> time_ns \<Rightarrow>
     OrderResponse \<Rightarrow> OrderResponse" where
  "reject_report nm uid coid oid tag request_time px qty reason now response = response\<lparr>
     r_symbol := nm,
     r_user_id := uid,
     r_client_order_id := coid,
     r_order_id := oid,
     r_order_num := 0,
     r_request_tag := tag,
     r_aggressor := False,
     r_request_time := request_time,
     r_response_type := MT_REJECT,
     r_order_status := OS_REJECTED,
     r_exec_type := ET_REJECTED,
     r_price := px,
     r_qty := qty,
     r_cum_qty := 0,
     r_leaves_qty := 0,
     r_reject_reason := reason,
     r_timestamp := now\<rparr>"

definition new_reject :: "Request \<Rightarrow> AddOrderMessage \<Rightarrow> OrdRejectReason \<Rightarrow> time_ns \<Rightarrow> OrderResponse \<Rightarrow> OrderResponse" where
  "new_reject request msg reason now = reject_report (req_symbol request) (ao_user_id msg) (ao_client_order_id msg) []
     (req_request_tag request) (time_stamp request) (ao_price msg) (ao_qty msg) reason now"

definition modify_reject :: "Request \<Rightarrow> ModifyOrderMessage \<Rightarrow> OrdRejectReason \<Rightarrow> time_ns \<Rightarrow> OrderResponse \<Rightarrow> OrderResponse" where
  "modify_reject request msg reason now = reject_report (req_symbol request) (mo_user_id msg) (mo_client_order_id msg)
     (mo_order_id msg) (req_request_tag request) (time_stamp request) (mo_new_price msg) (mo_new_qty msg) reason now"

definition cancel_reject :: "Request \<Rightarrow> CancelOrderMessage \<Rightarrow> OrdRejectReason \<Rightarrow> time_ns \<Rightarrow> OrderResponse \<Rightarrow> OrderResponse" where
  "cancel_reject request msg reason now = reject_report (req_symbol request) (co_user_id msg) (co_client_order_id msg)
     (co_order_id msg) (req_request_tag request) (time_stamp request) NULL_PRICE 0 reason now"

text \<open>A reject is written into the next slot of the response queue, inside an instrument or outside any.\<close>

definition x_publish :: "(OrderResponse \<Rightarrow> OrderResponse) \<Rightarrow> 'l Exchange \<Rightarrow> 'l Exchange" where
  "x_publish f x = x\<lparr>x_response_queue :=
     x_response_queue x @ [f (x_response_slot x (length (x_response_queue x)))]\<rparr>"

section \<open>Pending reports\<close>

definition pending_new_report :: "Order \<Rightarrow> time_ns \<Rightarrow> OrderResponse \<Rightarrow> OrderResponse" where
  "pending_new_report order request_time response = (setOrderIdentity order response)\<lparr>
     r_response_type := MT_EXECUTION_REPORT,
     r_exec_type := ET_NEW,
     r_order_status := OS_PENDING_NEW,
     r_order_type := otype order,
     r_price := price order,
     r_avg_fill_price := avg_fill_price order,
     r_qty := quantity order,
     r_cum_qty := 0,
     r_leaves_qty := leaves_quantity order,
     r_timestamp := created_time order,
     r_request_time := request_time,
     r_side := side order,
     r_post_only := post_only order\<rparr>"

definition pending_replace_report :: "Order \<Rightarrow> time_ns \<Rightarrow> OrderResponse \<Rightarrow> OrderResponse" where
  "pending_replace_report order request_time response = (setOrderIdentity order response)\<lparr>
     r_response_type := MT_EXECUTION_REPORT,
     r_exec_type := ET_PENDING_REPLACE,
     r_order_status := OS_PENDING_REPLACE,
     r_order_type := otype order,
     r_request_time := request_time,
     r_price := price order,
     r_avg_fill_price := avg_fill_price order,
     r_qty := quantity order,
     r_cum_qty := 0,
     r_leaves_qty := leaves_quantity order,
     r_timestamp := created_time order,
     r_side := side order,
     r_post_only := post_only order\<rparr>"

text \<open>
  The fields of a pending cancel. The function that sends it asserts that the open quantity is the whole
  quantity before it publishes; the assertion stands in \<open>sendOrderCancelPending\<close> below, and ends the program, \<open>None\<close>.
\<close>

definition pending_cancel_report :: "Order \<Rightarrow> time_ns \<Rightarrow> OrderResponse \<Rightarrow> OrderResponse" where
  "pending_cancel_report order request_time response = (setOrderIdentity order response)\<lparr>
     r_response_type := MT_EXECUTION_REPORT,
     r_exec_type := ET_PENDING_CANCEL,
     r_order_status := OS_PENDING_CANCEL,
     r_order_type := otype order,
     r_request_time := request_time,
     r_price := price order,
     r_avg_fill_price := avg_fill_price order,
     r_last_fill_price := last_fill_price order,
     r_last_qty := last_fill_qty order,
     r_qty := quantity order,
     r_cum_qty := 0,
     r_leaves_qty := leaves_quantity order,
     r_timestamp := created_time order,
     r_side := side order,
     r_post_only := post_only order\<rparr>"

definition sendOrderCancelPending :: "bool \<Rightarrow> Order \<Rightarrow> time_ns \<Rightarrow> 'l Symbol \<Rightarrow> 'l Symbol option" where
  "sendOrderCancelPending asserts order request_time sy =
     (if asserts \<and> leaves_quantity order \<noteq> quantity order then None
      else Some (publish (pending_cancel_report order request_time) sy))"

section \<open>Publishing market data\<close>

definition md_push :: "string \<Rightarrow> MDUpdateType \<Rightarrow> md_body \<Rightarrow> 'l Exchange \<Rightarrow> 'l Exchange" where
  "md_push name ty bd x = x\<lparr>x_md_queue := x_md_queue x @
     [\<lparr>md_symbol = name, md_venue = x_venue x, md_type = ty, md_body = bd\<rparr>]\<rparr>"

definition rejectMdSubscription :: "string \<Rightarrow> nat \<Rightarrow> MDSubscriptionRejectReason \<Rightarrow> 'l Exchange \<Rightarrow> 'l Exchange" where
  "rejectMdSubscription name channel reason x = md_push name MD_SUB_RESPONSE (RejectBody channel reason) x"

definition publishMDBookUpdate :: "'l l3_ops \<Rightarrow> nat \<Rightarrow> nat \<Rightarrow> 'l Symbol \<times> 'l Exchange \<Rightarrow> 'l Symbol \<times> 'l Exchange" where
  "publishMDBookUpdate L i0 i1 v = (case v of (sy, x) \<Rightarrow>
     (sy, md_push (ob_symbol sy) MD_BOOK (BookBody i0 i1 (populateMDBookUpdate L sy)) x))"

text \<open>The book's own frames: the whole book, as an update or as the answer to a subscription.\<close>

definition pushL2Snapshot :: "'l l3_ops \<Rightarrow> 'l Symbol \<Rightarrow> 'l Exchange \<Rightarrow> 'l Exchange" where
  "pushL2Snapshot L sy x = md_push (ob_symbol sy) MD_BOOK_SNAPSHOT (SnapshotBody (populateL2Snapshot L sy)) x"

definition populateL2SubscriptionResponse :: "'l l3_ops \<Rightarrow> nat \<Rightarrow> 'l Symbol \<Rightarrow> 'l Exchange \<Rightarrow> 'l Exchange" where
  "populateL2SubscriptionResponse L channel sy x =
     md_push (ob_symbol sy) MD_SUB_RESPONSE (SubSnapshotBody channel (populateL2Snapshot L sy)) x"

definition publishLevelUpdate :: "string \<Rightarrow> MDLevel list \<Rightarrow> 'l Exchange \<Rightarrow> 'l Exchange" where
  "publishLevelUpdate name level_updates x = md_push name MD_LEVEL (LevelBody level_updates) x"

definition publishMDOrderUpdate :: "string \<Rightarrow> MDOrder list \<Rightarrow> 'l Exchange \<Rightarrow> 'l Exchange" where
  "publishMDOrderUpdate name order_updates x = md_push name MD_ORDER (OrderBody order_updates) x"

definition flushMarketDataCaches :: "'l Symbol \<times> 'l Exchange \<Rightarrow> 'l Symbol \<times> 'l Exchange" where
  "flushMarketDataCaches v = (case v of (sy, x) \<Rightarrow>
     (let (sy1, x1) = (if ob_level_cache sy \<noteq> []
            then (sy\<lparr>ob_level_cache := []\<rparr>, publishLevelUpdate (ob_symbol sy) (ob_level_cache sy) x) else (sy, x))
      in if ob_order_cache sy1 \<noteq> []
         then (sy1\<lparr>ob_order_cache := []\<rparr>,
               (if x_publish_order_updates x1 then publishMDOrderUpdate (ob_symbol sy1) (ob_order_cache sy1) x1 else x1))
         else (sy1, x1)))"

definition nextVenueTradeId :: "'l Exchange \<Rightarrow> nat \<times> 'l Exchange" where
  "nextVenueTradeId x = (x_next_trade_id x, x\<lparr>x_next_trade_id := x_next_trade_id x + 1\<rparr>)"

definition publishTradeSummary :: "'l Symbol \<times> 'l Exchange \<Rightarrow> TradeSummaryInfo \<Rightarrow> 'l Symbol \<times> 'l Exchange" where
  "publishTradeSummary v sm = (case v of (sy, x) \<Rightarrow>
     (let (tid, x1) = nextVenueTradeId x;
          summary = \<lparr>tm_timestamp = ts_timestamp sm, tm_trade_id = tid, tm_security_id = to_int16 (sy_id sy),
            tm_aggressor_side = ts_aggressor_side sm, tm_price = ts_price sm, tm_qty = ts_qty sm,
            tm_num_orders = ts_num_orders sm, tm_trades = ts_Trades sm\<rparr>;
          x2 = md_push (ob_symbol sy) MD_TRADE_SUMMARY (TradeSummaryBody summary) x1
      in (sym_recordTrade \<lparr>mt_trade_id = tid, mt_event_time = ts_timestamp sm, mt_seq_num = 0, mt_price = ts_price sm,
            mt_qty = ts_qty sm, mt_flags = F_NONE, mt_side = ts_aggressor_side sm\<rparr> sy, x2)))"

text \<open>The history read through \<open>operator[]\<close>, skipping what it does not hold.\<close>

definition history_items :: "MDTrade ring \<Rightarrow> MDTrade list" where
  "history_items r = concat (map (\<lambda>i. case rb_at r i of None \<Rightarrow> [] | Some t \<Rightarrow> [t]) [0..<rb_size r])"

definition reflected_in_book :: "time_ns \<Rightarrow> MDTrade \<Rightarrow> bool" where
  "reflected_in_book book_time trade \<longleftrightarrow> \<not> F_NOT_IN_BOOK (mt_flags trade) \<or> mt_event_time trade \<le> book_time"

definition publishTradeSubscriptionResponse :: "nat \<Rightarrow> 'l Symbol \<times> 'l Exchange \<Rightarrow> 'l Symbol \<times> 'l Exchange" where
  "publishTradeSubscriptionResponse channel v = (case v of (sy, x) \<Rightarrow>
     (let items = history_items (sy_trade_history sy);
          book_time = ob_last_update_time sy;
          settled = filter (reflected_in_book book_time) items;
          later = filter (\<lambda>t. \<not> reflected_in_book book_time t) items
      in (sy, md_push (ob_symbol sy) MD_SUB_RESPONSE
            (TradeSnapshotBody channel (length settled) (length later) (settled @ later)) x)))"

section \<open>Clients and engines\<close>

definition clientIdFor :: "string \<Rightarrow> 'l Exchange \<Rightarrow> int \<times> 'l Exchange" where
  "clientIdFor uid x =
     (if uid = [] then (-1, x)
      else case x_client_ids x uid of
        Some i \<Rightarrow> (i, x)
      | None \<Rightarrow> (x_next_client_id x,
          x\<lparr>x_client_ids := (x_client_ids x)(uid \<mapsto> x_next_client_id x), x_next_client_id := x_next_client_id x + 1\<rparr>))"

datatype matching_error = ConfiguredTooLate | BadMatchingConfig config_error

definition configureMatching ::
    "(json_value \<Rightarrow> qty_t option) \<Rightarrow> (string \<rightharpoonup> json_value) \<Rightarrow> 'l Exchange \<Rightarrow> matching_error + 'l Exchange" where
  "configureMatching to_qty config x =
     (if x_matching_engines x FIFO \<noteq> None \<or> x_matching_engines x ProRata \<noteq> None then Inl ConfiguredTooLate
      else case from_json to_qty config of
        Inl e \<Rightarrow> Inl (BadMatchingConfig e)
      | Inr m \<Rightarrow> Inr (x\<lparr>x_matching := m, x_matching_keys_unread := False\<rparr>))"

text \<open>
  The instrument has no engine yet, which the source asserts (line 220): the function is called on the instrument
  \<open>createSymbol\<close> has just made.
\<close>

definition assignMatching :: "'l Symbol \<Rightarrow> 'l Exchange \<Rightarrow> config_error + 'l Symbol \<times> 'l Exchange" where
  "assignMatching sy x =
     (case x_matching_engines x (mc_type (x_matching x)) of
        Some e \<Rightarrow> Inr (sy\<lparr>sy_engine := e, sy_smp_mode := x_smp_mode x\<rparr>, x)
      | None \<Rightarrow>
          (case createMatchingEngine (x_matching x) of
             Inl err \<Rightarrow> Inl err
           | Inr e \<Rightarrow> Inr (sy\<lparr>sy_engine := e, sy_smp_mode := x_smp_mode x\<rparr>,
               x\<lparr>x_matching_engines := (x_matching_engines x)(mc_type (x_matching x) \<mapsto> e)\<rparr>)))"

section \<open>Requests\<close>

text \<open>The order a new-order request fills in.\<close>

definition fill_in :: "string \<Rightarrow> Request \<Rightarrow> AddOrderMessage \<Rightarrow> int \<Rightarrow> Order \<Rightarrow> Order" where
  "fill_in name request msg cid order = (resetFillAccounting (ao_qty msg) (order\<lparr>
     symbol := name,
     client_order_id := ao_client_order_id msg,
     user_id := ao_user_id msg,
     client_id := cid,
     side := ao_side msg,
     otype := ao_type msg,
     time_in_force := ao_time_in_force msg,
     price := ao_price msg\<rparr>))\<lparr>
     status := OS_PENDING_NEW,
     request_tag := req_request_tag request\<rparr>"

text \<open>
  The pending-new report asserts the same equality (\<open>sendOrderNewPending\<close>); there it holds of every order,
  since a new order's open quantity is set to its quantity just before.
\<close>

lemma fill_in_unfilled: "leaves_quantity (fill_in name request msg cid order) = quantity (fill_in name request msg cid order)"
  by (simp add: fill_in_def resetFillAccounting_def)

definition handleNewOrderRequest ::
    "'l l3_ops \<Rightarrow> request_env \<Rightarrow> Request \<Rightarrow> AddOrderMessage \<Rightarrow> 'l Exchange \<Rightarrow> 'l Exchange option" where
  "handleNewOrderRequest L env request msg x = (case getSymbol (req_symbol request) x of
      None \<Rightarrow> Some (x_publish (new_reject request msg RJ_UNKNOWN_CONTRACT (env_clock env 0)) x)
    | Some sy \<Rightarrow>
        if ao_client_order_id msg \<noteq> [] \<and> findOrderByClientOrderId (ao_client_order_id msg) sy \<noteq> None
        then Some (x_publish (new_reject request msg RJ_CLIENT_ORDER_ID_ALREADY_EXISTS (env_clock env 0)) x)
        else
          (let p = env_slot env;
               sy1 = allocateOrder p (env_uuid env) (env_clock env 0) sy;
               (cid, x1) = clientIdFor (ao_user_id msg) x;
               sy2 = set_order p (fill_in (ob_symbol sy) request msg cid) sy1;
               sy3 = publish (pending_new_report (ob_buffer sy2 p) (time_stamp request)) sy2
           in case sym_addOrder L p (time_stamp request) sy3 of
                None \<Rightarrow> None
              | Some (reject_reason, trade_summaries, sy4) \<Rightarrow>
                  (let (sy5, x2) = foldl publishTradeSummary (sy4, x1) trade_summaries;
                       sy6 = (if reject_reason \<noteq> RJ_NONE \<and> reject_reason \<noteq> RJ_FOK_CANNOT_FILL
                              then publish (new_reject request msg reject_reason (env_clock env 1)) sy5 else sy5)
                   in Some (leave (req_symbol request) (flushMarketDataCaches (sy6, x2))))))"

definition lookup_order :: "string \<Rightarrow> string \<Rightarrow> ('l, 'z) book \<Rightarrow> ptr option" where
  "lookup_order coid oid b =
     (if coid \<noteq> [] then findOrderByClientOrderId coid b else findOrderByOrderId oid b)"

definition handleModifyOrderRequest ::
    "'l l3_ops \<Rightarrow> request_env \<Rightarrow> Request \<Rightarrow> ModifyOrderMessage \<Rightarrow> 'l Exchange \<Rightarrow> 'l Exchange option" where
  "handleModifyOrderRequest L env request msg x = (case getSymbol (req_symbol request) x of
      None \<Rightarrow> Some (x_publish (modify_reject request msg RJ_UNKNOWN_CONTRACT (env_clock env 0)) x)
    | Some sy \<Rightarrow>
        (case lookup_order (mo_client_order_id msg) (mo_order_id msg) sy of
           None \<Rightarrow> Some (x_publish (modify_reject request msg RJ_UNKNOWN_ORDER (env_clock env 0)) x)
         | Some p \<Rightarrow>
             (let accepted_tag = request_tag (ob_buffer sy p);
                  sy1 = set_order p (\<lambda>order. order\<lparr>status := OS_PENDING_REPLACE, last_update_time := env_clock env 0,
                          request_tag := req_request_tag request\<rparr>) sy;
                  sy2 = publish (pending_replace_report (ob_buffer sy1 p) (time_stamp request)) sy1
              in case sym_modifyOrder L p (mo_new_price msg) (mo_new_qty msg) (time_stamp request) (env_clock env 1) sy2 of
                   None \<Rightarrow> None
                 | Some (reject_reason, trade_summaries, sy3) \<Rightarrow>
                     (let (sy4, x1) = foldl publishTradeSummary (sy3, x) trade_summaries;
                          sy5 = (if reject_reason \<noteq> RJ_NONE
                                 then publish (modify_reject request msg reject_reason (env_clock env 2))
                                        (set_order p (\<lambda>order. order\<lparr>request_tag := accepted_tag\<rparr>) sy4)
                                 else sy4)
                      in Some (leave (req_symbol request) (flushMarketDataCaches (sy5, x1)))))))"

definition handleCancelOrderRequest ::
    "'l l3_ops \<Rightarrow> request_env \<Rightarrow> Request \<Rightarrow> CancelOrderMessage \<Rightarrow> 'l Exchange \<Rightarrow> 'l Exchange option" where
  "handleCancelOrderRequest L env request msg x = (case getSymbol (req_symbol request) x of
      None \<Rightarrow> Some (x_publish (cancel_reject request msg RJ_UNKNOWN_CONTRACT (env_clock env 0)) x)
    | Some sy \<Rightarrow>
        (case lookup_order (co_client_order_id msg) (co_order_id msg) sy of
           None \<Rightarrow> Some (x_publish (cancel_reject request msg RJ_UNKNOWN_ORDER (env_clock env 0)) x)
         | Some p \<Rightarrow>
             (let sy1 = set_order p (\<lambda>order. order\<lparr>status := OS_PENDING_CANCEL, request_tag := req_request_tag request\<rparr>) sy
              in case sendOrderCancelPending (env_asserts env) (ob_buffer sy1 p) (time_stamp request) sy1 of
                   None \<Rightarrow> None
                 | Some sy2 \<Rightarrow>
                     (let sy3 = sym_cancelOrder L p (time_stamp request) (env_clock env 0) sy2
                      in Some (leave (req_symbol request) (flushMarketDataCaches (sy3, x)))))))"

text \<open>
  What one read of the request queue gives, possibly nothing. The base class ignores subscriptions;
  a venue overrides them.
\<close>

definition processRequest :: "'l l3_ops \<Rightarrow> request_env \<Rightarrow> Request option \<Rightarrow> 'l Exchange \<Rightarrow> 'l Exchange option" where
  "processRequest L env read x = (case read of
      None \<Rightarrow> Some x
    | Some request \<Rightarrow>
        (case body request of
           NEW_ORDER_SINGLE msg \<Rightarrow> handleNewOrderRequest L env request msg x
         | ORDER_REPLACE_REQUEST msg \<Rightarrow> handleModifyOrderRequest L env request msg x
         | ORDER_CANCEL_REQUEST msg \<Rightarrow> handleCancelOrderRequest L env request msg x
         | MD_SUBSCRIPTION _ \<Rightarrow> Some x
         | MD_UNSUBSCRIPTION _ \<Rightarrow> Some x
         | OTHER_REQUEST _ \<Rightarrow> Some x))"

section \<open>Level feeds: reconciling the phantom quantity\<close>

record PhantomReduction =
  pr_order_id :: order_num
  pr_new_qty :: qty_t
  pr_priority :: nat

text \<open>The walk from the back of the level, skipping the simulator's own orders.\<close>

fun choose_reductions :: "('l, 'z) book \<Rightarrow> qty_t \<Rightarrow> l3_order list \<Rightarrow> PhantomReduction list" where
  "choose_reductions b diff [] = []"
| "choose_reductions b diff (od # ods) =
     (if diff \<le> 0 then []
      else if findOrder (lo_id od) b \<noteq> None then choose_reductions b diff ods
      else (let to_reduce = min diff (lo_qty od)
            in \<lparr>pr_order_id = lo_id od, pr_new_qty = lo_qty od - to_reduce, pr_priority = lo_prio od\<rparr> #
               choose_reductions b (diff - to_reduce) ods))"

fun apply_reductions ::
    "'l l3_ops \<Rightarrow> price_t \<Rightarrow> time_ns \<Rightarrow> seq_t \<Rightarrow> bool \<Rightarrow> PhantomReduction list \<Rightarrow> ('l, 'z) book \<Rightarrow> ('l, 'z) book" where
  "apply_reductions L px event_time seq end_event [] b = b"
| "apply_reductions L px event_time seq end_event (r # rs) b =
     apply_reductions L px event_time seq end_event rs
       (snd (base_modifyOrder L (pr_order_id r) px (pr_new_qty r) event_time (pr_priority r) seq (end_event \<and> rs = []) b))"

definition reconcilePhantomQty ::
    "'l l3_ops \<Rightarrow> Side \<Rightarrow> price_t \<Rightarrow> qty_t \<Rightarrow> time_ns \<Rightarrow> seq_t \<Rightarrow> bool \<Rightarrow> ('l, 'z) instrument \<Rightarrow> ('l, 'z) instrument" where
  "reconcilePhantomQty L s px target_qty event_time seq end_event st = (case l3_level_at L (ob_l3 st) s px of
      None \<Rightarrow> st
    | Some (level, _) \<Rightarrow>
        (let (unrefl, st1) = takeTradedQty s px event_time st;
             target = (if unrefl > 0 then (if target_qty > unrefl then target_qty - unrefl else 0) else target_qty);
             md_level_qty = getMDLevelQty st1 px
         in if target > md_level_qty then
              (let (i, st2) = nextOrderId st1
               in addBookOrder L i s px (target - md_level_qty) event_time seq end_event st2)
            else if target < md_level_qty then
              apply_reductions L px event_time seq end_event
                (choose_reductions st1 (md_level_qty - target) (rev (lv_orders level))) st1
            else st1))"

section \<open>Order-by-order feeds\<close>

record MarketOrderEvent =
  me_book_order_id :: order_num
  me_book_priority :: nat
  me_price :: price_t
  me_transact_time :: time_ns
  me_qty :: qty_t
  me_side :: Side
  me_action :: MDUpdateAction
  me_requeue :: bool

record MarketTradeEvent =
  mte_price :: price_t
  mte_qty :: qty_t
  mte_aggressor :: Side
  mte_transact_time :: time_ns

definition markMarketChanged :: "string \<Rightarrow> 'l Exchange \<Rightarrow> 'l Exchange" where
  "markMarketChanged name x =
     (if name \<in> set (x_market_changed x) then x else x\<lparr>x_market_changed := x_market_changed x @ [name]\<rparr>)"

text \<open>
  The assertions of \<open>restMarketOrder\<close> are not branches: that the event has a priority and a price (lines 774 and 775) is
  what the events of a feed are assumed to have wherever the function is used, and that the id did not rest already
  (line 790) follows there, since a new order's id is not in the book and a requeued one has been taken out.
\<close>

definition restMarketOrder ::
    "'l l3_ops \<Rightarrow> MarketOrderEvent \<Rightarrow> 'l Symbol \<times> 'l Exchange \<Rightarrow> ('l Symbol \<times> 'l Exchange) option" where
  "restMarketOrder L event v = (case v of (sy, x) \<Rightarrow>
     (case engine_match_feed L (sy_engine sy) (me_side event) (me_book_order_id event) (me_price event) (me_qty event)
             (me_transact_time event) 0 sy of
        None \<Rightarrow> None
      | Some (trades, qty, sy1) \<Rightarrow>
          (let (sy2, x1) = foldl publishTradeSummary (sy1, x) trades
           in Some (if qty > 0
                then (snd (base_addOrder L (me_book_order_id event) (me_side event) (me_price event) qty
                             (me_transact_time event) (me_book_priority event) 0 True sy2), x1)
                else (sy2, x1)))))"

definition applyMarketOrder ::
    "'l l3_ops \<Rightarrow> MarketOrderEvent \<Rightarrow> 'l Symbol \<times> 'l Exchange \<Rightarrow> ('l Symbol \<times> 'l Exchange) option" where
  "applyMarketOrder L event v = (case v of (sy, x) \<Rightarrow>
     map_option (\<lambda>(sy', x'). (sy', markMarketChanged (ob_symbol sy') x'))
      (case me_action event of
         ACTION_NEW \<Rightarrow> restMarketOrder L event (sy, x)
       | ACTION_DELETE \<Rightarrow> Some (snd (base_deleteOrder L (me_book_order_id event) (me_transact_time event) 0 True sy), x)
       | ACTION_CHANGE \<Rightarrow>
           (case l3_find L (ob_l3 sy) (me_book_order_id event) of
              Some resting \<Rightarrow>
                if \<not> me_requeue event then
                  Some (snd (base_modifyOrder L (me_book_order_id event) (me_price event) (me_qty event)
                          (me_transact_time event) (lo_prio resting) 0 True sy), x)
                else restMarketOrder L event
                       (snd (base_deleteOrder L (me_book_order_id event) (me_transact_time event) 0 True sy), x)
            | None \<Rightarrow> restMarketOrder L event (sy, x))))"

definition replayMarketTrade ::
    "'l l3_ops \<Rightarrow> MarketTradeEvent \<Rightarrow> 'l Symbol \<times> 'l Exchange \<Rightarrow> ('l Symbol \<times> 'l Exchange) option" where
  "replayMarketTrade L event v = (case v of (sy, x) \<Rightarrow>
     (let (i, sy1) = nextOrderId sy in
      case engine_match_feed L (sy_engine sy1) (mte_aggressor event) i (mte_price event) (mte_qty event)
             (mte_transact_time event) 0 sy1 of
        None \<Rightarrow> None
      | Some (trades, _, sy2) \<Rightarrow>
          (case foldl publishTradeSummary (sy2, x) trades of (sy3, x1) \<Rightarrow>
             Some (sy3, markMarketChanged (ob_symbol sy3) x1))))"

definition flush_symbol :: "'l Exchange \<Rightarrow> string \<Rightarrow> 'l Exchange" where
  "flush_symbol x name = (case getSymbol name x of
      None \<Rightarrow> x
    | Some sy \<Rightarrow> leave name (flushMarketDataCaches (sy, x)))"

definition flushMarketEvents :: "'l Exchange \<Rightarrow> 'l Exchange" where
  "flushMarketEvents x = (foldl flush_symbol x (x_market_changed x))\<lparr>x_market_changed := []\<rparr>"

end
