(* ===== verification/Exchange_Facts.thy ===== *)
theory Exchange_Facts
  imports Sim_Exchange
begin

text \<open>The invariant of the exchange between events, and the frames of its publishing operations.\<close>

section \<open>Invariant\<close>

definition history_ok :: "MDTrade ring \<Rightarrow> bool" where
  "history_ok r \<longleftrightarrow> rb_inv r \<and> rb_capacity r = TRADE_HISTORY_CAPACITY \<and> rb_size r < TRADE_HISTORY_CAPACITY"

definition clients_ok :: "'l Exchange \<Rightarrow> bool" where
  "clients_ok x \<longleftrightarrow>
     (\<forall>u i. x_client_ids x u = Some i \<longrightarrow> u \<noteq> [] \<and> 0 \<le> i \<and> i < x_next_client_id x) \<and>
     (\<forall>u v i. x_client_ids x u = Some i \<and> x_client_ids x v = Some i \<longrightarrow> u = v) \<and> 0 \<le> x_next_client_id x"

definition tables_ok :: "'l Exchange \<Rightarrow> bool" where
  "tables_ok x \<longleftrightarrow> clients_ok x \<and> (\<forall>ty e. x_matching_engines x ty = Some e \<longrightarrow> engine_valid e \<and> engine_type e = ty)"

text \<open>An update still cached belongs to an instrument whose flush is due.\<close>

definition quiet :: "'l Symbol \<Rightarrow> bool" where
  "quiet sy \<longleftrightarrow> ob_level_cache sy = [] \<and> ob_order_cache sy = []"

definition instrument_ok :: "'l l3_ops \<Rightarrow> ('l \<Rightarrow> bool) \<Rightarrow> 'l Exchange \<Rightarrow> string \<Rightarrow> 'l Symbol \<Rightarrow> bool" where
  "instrument_ok L binv x n sy \<longleftrightarrow>
     symbol_ok L binv {} (load x sy) \<and> ob_symbol sy = n \<and> history_ok (sy_trade_history sy) \<and>
     (quiet sy \<or> n \<in> set (x_market_changed x))"

definition exchange_ok :: "'l l3_ops \<Rightarrow> ('l \<Rightarrow> bool) \<Rightarrow> 'l Exchange \<Rightarrow> bool" where
  "exchange_ok L binv x \<longleftrightarrow>
     (\<forall>n sy. x_symbols x n = Some sy \<longrightarrow> instrument_ok L binv x n sy) \<and> tables_ok x"

section \<open>Loading and leaving\<close>

lemma load_sel [simp]:
  "ob_l3 (load x sy) = ob_l3 sy" "ob_orders (load x sy) = ob_orders sy" "ob_live (load x sy) = ob_live sy"
  "ob_buffer (load x sy) = ob_buffer sy" "ob_by_client (load x sy) = ob_by_client sy" "ob_by_order (load x sy) = ob_by_order sy"
  "ob_md_qty (load x sy) = ob_md_qty sy" "ob_next_order_id (load x sy) = x_next_order_id x"
  "ob_next_priority (load x sy) = x_next_priority x" "sy_engine (load x sy) = sy_engine sy" "ob_symbol (load x sy) = ob_symbol sy"
  "sy_trade_history (load x sy) = sy_trade_history sy" "ob_level_cache (load x sy) = ob_level_cache sy"
  "ob_order_cache (load x sy) = ob_order_cache sy" "queue L (load x sy) s = queue L sy s" "sy_smp_mode (load x sy) = sy_smp_mode sy"
  "response_queue (load x sy) = x_response_queue x" "response_slot (load x sy) = x_response_slot x"
  by (simp_all add: load_def queue_def)

lemma obinv_load [simp]: "obinv L I P (load x sy) = obinv L I P sy"
  by (rule obinv_cong) simp_all

lemma symbol_ok_load:
  "symbol_ok L binv X sy \<Longrightarrow> ob_next_order_id sy \<le> x_next_order_id x \<Longrightarrow> ob_next_priority sy \<le> x_next_priority x \<Longrightarrow>
   symbol_ok L binv X (load x sy)"
  by (fastforce simp: symbol_ok_def pool_exact_def drawn_def uncrossed_def)

lemma symbol_ok_reload:
  "symbol_ok L binv X (load x sy) \<Longrightarrow> x_next_order_id x \<le> x_next_order_id x' \<Longrightarrow> x_next_priority x \<le> x_next_priority x' \<Longrightarrow>
   symbol_ok L binv X (load x' sy)"
  by (fastforce simp: symbol_ok_def pool_exact_def drawn_def uncrossed_def)

lemma leave_sel [simp]:
  "x_symbols (leave n (sy, x)) = (x_symbols x)(n \<mapsto> sy)" "x_next_order_id (leave n (sy, x)) = ob_next_order_id sy"
  "x_next_priority (leave n (sy, x)) = ob_next_priority sy" "x_client_ids (leave n (sy, x)) = x_client_ids x"
  "x_next_client_id (leave n (sy, x)) = x_next_client_id x" "x_market_changed (leave n (sy, x)) = x_market_changed x"
  "x_response_queue (leave n (sy, x)) = response_queue sy" "x_md_queue (leave n (sy, x)) = x_md_queue x"
  "x_venue (leave n (sy, x)) = x_venue x" "x_publish_order_updates (leave n (sy, x)) = x_publish_order_updates x"
  "x_response_slot (leave n (sy, x)) = x_response_slot x" "x_matching_engines (leave n (sy, x)) = x_matching_engines x"
  by (simp_all add: leave_def)

lemma getSymbol_ok:
  assumes "exchange_ok L binv x" and "getSymbol n x = Some sy"
  shows "symbol_ok L binv {} sy" "ob_symbol sy = n" "history_ok (sy_trade_history sy)" "quiet sy \<or> n \<in> set (x_market_changed x)"
    "ob_next_order_id sy = x_next_order_id x" "ob_next_priority sy = x_next_priority x" "response_queue sy = x_response_queue x"
    "response_slot sy = x_response_slot x"
proof -
  obtain sy0 where s: "x_symbols x n = Some sy0" "sy = load x sy0" using assms(2) by (auto simp: getSymbol_def)
  then have i: "instrument_ok L binv x n sy0" using assms(1) by (simp add: exchange_ok_def)
  then show "quiet sy \<or> n \<in> set (x_market_changed x)" by (auto simp: instrument_ok_def quiet_def s)
  show "symbol_ok L binv {} sy" "ob_symbol sy = n" "history_ok (sy_trade_history sy)"
    "ob_next_order_id sy = x_next_order_id x" "ob_next_priority sy = x_next_priority x" "response_queue sy = x_response_queue x"
    "response_slot sy = x_response_slot x"
    using i by (simp_all add: instrument_ok_def s)
qed

text \<open>What publishing market data leaves of the exchange.\<close>

definition x_frame :: "'l Exchange \<Rightarrow> 'l Exchange \<Rightarrow> bool" where
  "x_frame x x' \<longleftrightarrow>
     x_symbols x' = x_symbols x \<and> x_market_changed x' = x_market_changed x \<and> x_client_ids x' = x_client_ids x \<and>
     x_next_client_id x' = x_next_client_id x \<and> x_next_order_id x' = x_next_order_id x \<and>
     x_next_priority x' = x_next_priority x \<and> x_venue x' = x_venue x \<and> x_response_slot x' = x_response_slot x \<and>
     x_publish_order_updates x' = x_publish_order_updates x \<and> x_matching_engines x' = x_matching_engines x \<and>
     x_matching x' = x_matching x \<and> x_smp_mode x' = x_smp_mode x"

lemma x_frame_refl [simp]: "x_frame x x"
  by (simp add: x_frame_def)

lemma x_frame_trans: "x_frame a b \<Longrightarrow> x_frame b c \<Longrightarrow> x_frame a c"
  by (simp add: x_frame_def)

lemma x_frame_md_push [simp]: "x_frame x (md_push n ty bd x)"
  by (simp add: md_push_def x_frame_def)

lemma tables_ok_frame: "x_frame x x' \<Longrightarrow> tables_ok x' = tables_ok x"
  by (simp add: x_frame_def tables_ok_def clients_ok_def)

lemma leave_ok:
  assumes ok: "exchange_ok L binv x" and sy: "symbol_ok L binv {} sy" "ob_symbol sy = n" "history_ok (sy_trade_history sy)"
    and cnt: "x_next_order_id x \<le> ob_next_order_id sy" "x_next_priority x \<le> ob_next_priority sy"
    and fr: "x_symbols x' = x_symbols x" "tables_ok x'" "set (x_market_changed x) \<subseteq> set (x_market_changed x')"
    and q: "quiet sy \<or> n \<in> set (x_market_changed x')"
  shows "exchange_ok L binv (leave n (sy, x'))"
proof -
  let ?x = "leave n (sy, x')"
  have "instrument_ok L binv ?x m s" if m: "x_symbols ?x m = Some s" for m s
  proof (cases "m = n")
    case True
    then show ?thesis using m sy q by (auto simp: instrument_ok_def intro!: symbol_ok_load)
  next
    case False
    then have "instrument_ok L binv x m s" using m ok fr(1) by (simp add: exchange_ok_def)
    then show ?thesis using cnt fr(3) by (auto simp: instrument_ok_def intro: symbol_ok_reload)
  qed
  then show ?thesis using fr(2) by (simp add: exchange_ok_def tables_ok_def clients_ok_def)
qed

section \<open>Publishing\<close>

lemma history_push: "history_ok r \<Longrightarrow> history_ok (rb_push t r)"
  using rb_push_list(1,3) [of r t]
  by (auto simp: history_ok_def TRADE_HISTORY_CAPACITY_def rb_push_def rb_store_def Let_def split: if_splits)

text \<open>An instrument up to its tape history.\<close>

definition but_history :: "'l Symbol \<Rightarrow> 'l Symbol \<Rightarrow> bool" where
  "but_history sy sy' \<longleftrightarrow> (\<exists>h. sy' = sy\<lparr>sy_trade_history := h\<rparr>)"

lemma but_history_refl [simp]: "but_history sy sy"
  unfolding but_history_def by (rule exI [of _ "sy_trade_history sy"]) simp

lemma but_history_trans: "but_history a b \<Longrightarrow> but_history b c \<Longrightarrow> but_history a c"
  by (auto simp: but_history_def)

lemma but_historyD:
  assumes "but_history sy sy'"
  shows "symbol_ok L binv X sy' = symbol_ok L binv X sy" "ob_symbol sy' = ob_symbol sy" "queue L sy' s = queue L sy s"
    "ob_next_order_id sy' = ob_next_order_id sy" "ob_next_priority sy' = ob_next_priority sy" "ob_orders sy' = ob_orders sy"
    "ob_live sy' = ob_live sy" "response_queue sy' = response_queue sy" "ob_level_cache sy' = ob_level_cache sy"
    "ob_order_cache sy' = ob_order_cache sy" "ob_buffer sy' = ob_buffer sy" "sy_engine sy' = sy_engine sy"
    "ob_l3 sy' = ob_l3 sy" "ob_md_qty sy' = ob_md_qty sy" "response_slot sy' = response_slot sy"
proof -
  obtain h where h: "sy' = sy\<lparr>sy_trade_history := h\<rparr>" using assms by (auto simp: but_history_def)
  have q: "queue L (sy\<lparr>sy_trade_history := h\<rparr>) s = queue L sy s" for s by (simp add: queue_def)
  have "obinv L binv {} (sy\<lparr>sy_trade_history := h\<rparr>) = obinv L binv {} sy" by (rule obinv_cong) simp_all
  then show "symbol_ok L binv X sy' = symbol_ok L binv X sy"
    by (simp add: h symbol_ok_def pool_exact_def drawn_def uncrossed_def q)
  show "queue L sy' s = queue L sy s" by (simp add: h q)
qed (use assms in \<open>auto simp: but_history_def\<close>)

lemma publishTradeSummary_frame:
  assumes "publishTradeSummary (sy, x) sm = (sy', x')"
  shows "but_history sy sy'" "history_ok (sy_trade_history sy) \<Longrightarrow> history_ok (sy_trade_history sy')" "x_frame x x'"
    "x_next_trade_id x' = x_next_trade_id x + 1" "x_market_changed x' = x_market_changed x"
  using assms history_push
  by (auto simp: publishTradeSummary_def nextVenueTradeId_def sym_recordTrade_def but_history_def x_frame_def md_push_def)

lemma publish_all_frame:
  assumes "foldl publishTradeSummary (sy, x) sms = (sy', x')"
  shows "but_history sy sy' \<and> (history_ok (sy_trade_history sy) \<longrightarrow> history_ok (sy_trade_history sy')) \<and> x_frame x x' \<and>
    x_next_trade_id x' = x_next_trade_id x + length sms"
  using assms
proof (induction sms arbitrary: sy x)
  case (Cons sm sms)
  obtain sy1 x1 where 1: "publishTradeSummary (sy, x) sm = (sy1, x1)" by fastforce
  note f = publishTradeSummary_frame [OF 1]
  show ?case
    using Cons.IH [of sy1 x1] Cons.prems 1 f but_history_trans [OF f(1)] x_frame_trans [OF f(3)] by auto
qed auto

lemma flush_frame:
  assumes "flushMarketDataCaches (sy, x) = (sy', x')"
  shows "sy' = sy\<lparr>ob_level_cache := [], ob_order_cache := []\<rparr>" "x_frame x x'"
    "x_next_trade_id x' = x_next_trade_id x"
  using assms
  by (auto simp: flushMarketDataCaches_def publishLevelUpdate_def publishMDOrderUpdate_def md_push_def x_frame_def split: if_splits)

lemma flushed_ok:
  assumes "sy' = sy\<lparr>ob_level_cache := [], ob_order_cache := []\<rparr>"
  shows "symbol_ok L binv X sy' = symbol_ok L binv X sy" "quiet sy'"
proof -
  have q: "queue L sy' s = queue L sy s" for s by (simp add: queue_def assms)
  have "obinv L binv {} sy' = obinv L binv {} sy" by (rule obinv_cong) (simp_all add: assms)
  then show "symbol_ok L binv X sy' = symbol_ok L binv X sy"
    using q by (simp add: symbol_ok_def pool_exact_def drawn_def uncrossed_def) (simp add: assms)
  show "quiet sy'" by (simp add: quiet_def assms)
qed

section \<open>Identities\<close>

lemma clientIdFor_ok:
  assumes "clients_ok x" and "clientIdFor u x = (i, x')"
  shows "clients_ok x'" "u \<noteq> [] \<Longrightarrow> x_client_ids x' u = Some i" "\<And>v j. x_client_ids x v = Some j \<Longrightarrow> x_client_ids x' v = Some j"
    "u = [] \<Longrightarrow> i = -1"
proof -
  show "u \<noteq> [] \<Longrightarrow> x_client_ids x' u = Some i" "u = [] \<Longrightarrow> i = -1" "\<And>v j. x_client_ids x v = Some j \<Longrightarrow> x_client_ids x' v = Some j"
    using assms(2) by (auto simp: clientIdFor_def split: if_splits option.splits)
  show "clients_ok x'"
  proof (cases "u = [] \<or> x_client_ids x u \<noteq> None")
    case True
    then have "x' = x" using assms(2) by (auto simp: clientIdFor_def split: if_splits option.splits)
    then show ?thesis using assms(1) by simp
  next
    case False
    then have x': "x_client_ids x' = (x_client_ids x)(u \<mapsto> x_next_client_id x)" "x_next_client_id x' = x_next_client_id x + 1"
      using assms(2) by (auto simp: clientIdFor_def)
    have lt: "j < x_next_client_id x \<and> 0 \<le> j \<and> v \<noteq> []" if "x_client_ids x v = Some j" for v j
      using assms(1) that by (simp add: clients_ok_def)
    have ne: "x_client_ids x v \<noteq> Some (x_next_client_id x)" for v using lt by blast
    have "0 \<le> x_next_client_id x" and inj: "\<And>v w j. x_client_ids x v = Some j \<Longrightarrow> x_client_ids x w = Some j \<Longrightarrow> v = w"
      using assms(1) by (auto simp: clients_ok_def)
    then show ?thesis using False lt ne by (auto simp: clients_ok_def x' dest: lt intro: order_less_imp_le)
  qed
qed

lemma clientIdFor_frame:
  assumes "clientIdFor u x = (i, x')"
  shows "x_symbols x' = x_symbols x" "x_market_changed x' = x_market_changed x" "x_next_order_id x' = x_next_order_id x"
    "x_next_priority x' = x_next_priority x" "x_md_queue x' = x_md_queue x" "x_matching_engines x' = x_matching_engines x"
    "tables_ok x \<Longrightarrow> tables_ok x'"
proof -
  show "x_symbols x' = x_symbols x" "x_market_changed x' = x_market_changed x" "x_next_order_id x' = x_next_order_id x"
    "x_next_priority x' = x_next_priority x" "x_md_queue x' = x_md_queue x" and e: "x_matching_engines x' = x_matching_engines x"
    using assms by (auto simp: clientIdFor_def split: if_splits option.splits)
  show "tables_ok x \<Longrightarrow> tables_ok x'" using clientIdFor_ok(1) [OF _ assms] by (simp add: tables_ok_def e)
qed

end
