(* ===== verification/Exchange_Feed.thy ===== *)
theory Exchange_Feed
  imports Exchange_Facts
begin

text \<open>
  Liquidity from the venue's own feeds: reconciling the phantom quantity of a level, and the
  order-by-order mirror.
\<close>

section \<open>Reducing phantom orders\<close>

lemma choose_cong: "ob_orders b = ob_orders b' \<Longrightarrow> choose_reductions b diff ods = choose_reductions b' diff ods"
  by (induction ods arbitrary: diff) (simp_all add: findOrder_def)

definition phantom_of :: "('l, 'z) book \<Rightarrow> l3_order list \<Rightarrow> qty_t" where
  "phantom_of b ods = (\<Sum>od\<leftarrow>ods. if ob_orders b (lo_id od) = None then lo_qty od else 0)"

text \<open>One phantom order of a level resized, possibly to nothing.\<close>

text \<open>What reducing leaves: the orders of the simulator and of other prices, and the places of the rest.\<close>

definition reduced :: "'l l3_ops \<Rightarrow> Side \<Rightarrow> price_t \<Rightarrow> qty_t \<Rightarrow> ('l, 'z) book \<Rightarrow> ('l, 'z) book \<Rightarrow> bool" where
  "reduced L s px diff b b' \<longleftrightarrow>
     same_frame b b' \<and> ob_buffer b' = ob_buffer b \<and> queue L b' (opposite_side s) = queue L b (opposite_side s) \<and>
     place ` set (queue L b' s) \<subseteq> place ` set (queue L b s) \<and>
     (\<forall>e\<in>set (queue L b s). ob_orders b (en_id e) \<noteq> None \<or> en_price e \<noteq> px \<longrightarrow> e \<in> set (queue L b' s)) \<and>
     (\<forall>y. getMDLevelQty b' y = getMDLevelQty b y - (if y = px then diff else 0))"

context l3_book
begin

lemma phantom_reduce_ok:
  assumes inv: "obinv L binv P b" and s: "real_side s" and e: "e \<in> set (queue L b s)" and none: "ob_orders b (en_id e) = None"
    and q: "0 \<le> q" "q < en_qty e" and seq: "seq = 0 \<or> l3_last_seq L (ob_l3 b) \<le> seq"
  obtains b' where "base_modifyOrder L (en_id e) (en_price e) q t (en_prio e) seq lb b = (True, b')" "obinv L binv P b'"
    "queue L b' s = resize_entry (en_id e) q (queue L b s)" "queue L b' (opposite_side s) = queue L b (opposite_side s)"
    "seq = 0 \<or> l3_last_seq L (ob_l3 b') \<le> seq" "same_frame b b'" "ob_buffer b' = ob_buffer b"
    "\<forall>y. getMDLevelQty b' y = getMDLevelQty b y - (if y = en_price e then en_qty e - q else 0)"
proof -
  obtain b' where b': "base_modifyOrder L (en_id e) (en_price e) q t (en_prio e) seq lb b = (True, b')" "obinv L binv P b'"
    "queue L b' s = resize_entry (en_id e) q (queue L b s)" "queue L b' (opposite_side s) = queue L b (opposite_side s)"
    "l3_last_seq L (ob_l3 b') = next_seq (l3_last_seq L (ob_l3 b)) seq" "same_frame b b'" "ob_buffer b' = ob_buffer b"
  proof (cases "q = 0")
    case True
    show thesis
      by (rule phantom_delete_ok [OF inv s e none seq])
        (use True that modify_zero [OF obinv_binv [OF inv]] in \<open>auto simp: base_modifyOrder_def base_deleteOrder_def resize_entry_def\<close>)
  next
    case False
    then have "0 < q" "q \<noteq> en_qty e" using q by auto
    then show thesis using that phantom_resize_ok [OF inv s e _ _ none seq] by metis
  qed
  have "getMDLevelQty b' y = getMDLevelQty b y - (if y = en_price e then en_qty e - q else 0)" for y
    using inv b'(2,3,4,6) none q(1) psum_resize_entry [OF queue_distinct(1) [OF inv s] e, where m = "ob_orders b" and p = y and q = q]
    by (auto simp: obinv_def phantom_qty_pair [OF s] same_frame_def phantom_in_def)
  moreover have "seq = 0 \<or> l3_last_seq L (ob_l3 b') \<le> seq" using b'(5) by (simp add: next_seq_def)
  ultimately show thesis using that b' by blast
qed

lemma reductions_ok:
  assumes "obinv L binv {} b" and s: "real_side s" and "\<forall>od\<in>set ods. entry_of px od \<in> set (queue L b s)"
    and "distinct (map lo_id ods)" and "seq = 0 \<or> l3_last_seq L (ob_l3 b) \<le> seq" and "0 \<le> diff" and "diff \<le> phantom_of b ods"
  shows "obinv L binv {} (apply_reductions L px t seq ee (choose_reductions b diff ods) b) \<and>
    reduced L s px diff b (apply_reductions L px t seq ee (choose_reductions b diff ods) b)"
  using assms(1,3-)
proof (induction ods arbitrary: b diff)
  case Nil
  then show ?case by (simp add: reduced_def phantom_of_def)
next
  case (Cons od ods)
  let ?e = "entry_of px od"
  show ?case
  proof (cases "diff = 0 \<or> ob_orders b (lo_id od) \<noteq> None")
    case True
    then have "diff \<noteq> 0 \<Longrightarrow> diff \<le> phantom_of b ods" using Cons.prems(6) by (auto simp: phantom_of_def)
    then show ?thesis using True Cons by (cases "diff = 0") (auto simp: findOrder_def reduced_def)
  next
    case False
    then have pos: "0 < diff" and none: "ob_orders b (en_id ?e) = None" using Cons.prems(5) by auto
    let ?r = "min diff (lo_qty od)"
    have e: "?e \<in> set (queue L b s)" using Cons.prems(2) by simp
    have qp: "0 < lo_qty od" using queue_pos [OF Cons.prems(1) s e] by simp
    have q: "0 \<le> lo_qty od - ?r" "lo_qty od - ?r < en_qty ?e" using pos qp by auto
    obtain b1 where raw: "base_modifyOrder L (en_id ?e) (en_price ?e) (lo_qty od - ?r) t (en_prio ?e) seq
        (ee \<and> choose_reductions b (diff - ?r) ods = []) b = (True, b1)" "obinv L binv {} b1"
      "queue L b1 s = resize_entry (en_id ?e) (lo_qty od - ?r) (queue L b s)" "queue L b1 (opposite_side s) = queue L b (opposite_side s)"
      "seq = 0 \<or> l3_last_seq L (ob_l3 b1) \<le> seq" "same_frame b b1" "ob_buffer b1 = ob_buffer b"
      "\<forall>y. getMDLevelQty b1 y = getMDLevelQty b y - (if y = en_price ?e then en_qty ?e - (lo_qty od - ?r) else 0)"
      by (rule phantom_reduce_ok [OF Cons.prems(1) s e none q Cons.prems(4), where t = t and
          lb = "ee \<and> choose_reductions b (diff - ?r) ods = []"]) blast
    note b1 = raw [unfolded entry_of_sel]
    let ?b' = "apply_reductions L px t seq ee (choose_reductions b1 (diff - ?r) ods) b1"
    have o1: "ob_orders b1 = ob_orders b" using b1(6) by (simp add: same_frame_def)
    have run: "apply_reductions L px t seq ee (choose_reductions b diff (od # ods)) b = ?b'"
      using pos none b1(1) choose_cong [OF o1, of "diff - ?r" ods] by (simp add: findOrder_def Let_def)
    have "entry_of px od' \<in> set (queue L b1 s)" if "od' \<in> set ods" for od'
    proof -
      have "lo_id od' \<in> lo_id ` set ods" using that by (rule imageI)
      then have "lo_id od' \<noteq> lo_id od" using Cons.prems(3) by auto
      then show ?thesis using Cons.prems(2) that by (simp add: b1(3) set_resize_entry_other)
    qed
    moreover have "diff - ?r \<le> phantom_of b1 ods"
    proof -
      have "0 < lo_qty od'" if "od' \<in> set ods" for od' using queue_pos [OF Cons.prems(1) s, of "entry_of px od'"] Cons.prems(2) that by simp
      then have "0 \<le> phantom_of b ods" unfolding phantom_of_def by (intro sum_list_map_nonneg) (simp add: less_imp_le)
      then show ?thesis using Cons.prems(6) none by (simp add: phantom_of_def o1)
    qed
    ultimately have IH: "obinv L binv {} ?b' \<and> reduced L s px (diff - ?r) b1 ?b'"
      using Cons.IH [OF b1(2), of "diff - ?r"] Cons.prems(3) b1(5) by simp
    have pl: "place ` set (queue L b1 s) \<subseteq> place ` set (queue L b s)"
      unfolding b1(3) by (auto simp: resize_entry_def set_remove_entry)
    have keep: "e \<in> set (queue L b1 s)" if "e \<in> set (queue L b s)" "ob_orders b (en_id e) \<noteq> None \<or> en_price e \<noteq> px" for e
    proof -
      have "en_id e \<noteq> lo_id od"
      proof
        assume "en_id e = lo_id od"
        then have "e = ?e" using queue_distinct(1) [OF Cons.prems(1) s] that(1) e by (simp add: distinct_map inj_on_def)
        then show False using that(2) none by simp
      qed
      then show ?thesis using that(1) by (simp add: b1(3) set_resize_entry_other)
    qed
    have "reduced L s px diff b ?b'"
      using IH b1(4,7,8) pl keep same_frame_trans [OF b1(6), of ?b'] o1
      unfolding reduced_def by simp blast
    then show ?thesis using IH run by simp
  qed
qed

end

section \<open>Reconciling a level\<close>

lemma flat_filter:
  "levels_wf s ls \<Longrightarrow> l \<in> set ls \<Longrightarrow>
   filter (\<lambda>e. en_price e = lv_price l) (flat ls) = map (entry_of (lv_price l)) (lv_orders l)"
proof (induction ls)
  case (Cons a ls)
  have ne: "lv_price m \<noteq> lv_price a" if "m \<in> set ls" for m
    using Cons.prems(1) that by (auto simp: levels_wf_def isPriceBetter_def split: if_splits)
  show ?case
  proof (cases "l = a")
    case True
    then show ?thesis using ne by (auto simp: flat_def filter_empty_conv)
  next
    case False
    then have "l \<in> set ls" "lv_price l \<noteq> lv_price a" using Cons.prems(2) ne by auto
    then show ?thesis using Cons by (simp add: levels_wf_def)
  qed
qed simp

lemma psum_filter: "psum m px (filter (\<lambda>e. en_price e = px) es) = psum m px es"
  by (induction es) (simp_all add: phantom_in_def)

lemma phantom_of_psum: "phantom_of b ods = psum (ob_orders b) px (map (entry_of px) ods)"
  by (induction ods) (simp_all add: phantom_of_def phantom_in_def)

lemma phantom_of_rev [simp]: "phantom_of b (rev ods) = phantom_of b ods"
  by (simp add: phantom_of_def rev_map [symmetric])

lemma level_entries:
  assumes l3: "l3_book L binv" and inv: "obinv L binv P b" and s: "real_side s" and lv: "l3_level_at L (ob_l3 b) s px = Some (level, k)"
  shows "lv_price level = px" "map (entry_of px) (lv_orders level) = filter (\<lambda>e. en_price e = px) (queue L b s)" "lv_orders level \<noteq> []"
proof -
  note wf = l3_book.levels_ok [OF l3 obinv_binv [OF inv] s]
  have f: "find (\<lambda>l. lv_price l = px) (l3_levels L (ob_l3 b) s) = Some level"
    using l3_book.level_at_law [OF l3 obinv_binv [OF inv] s, of px] lv by simp
  then show px: "lv_price level = px" by (auto simp: find_Some_iff)
  have mem: "level \<in> set (l3_levels L (ob_l3 b) s)" using f by (auto simp: find_Some_iff)
  show "map (entry_of px) (lv_orders level) = filter (\<lambda>e. en_price e = px) (queue L b s)"
    using flat_filter [OF wf mem] px by (simp add: queue_def)
  show "lv_orders level \<noteq> []" using wf mem by (auto simp: levels_wf_def list_all_iff level_wf_def)
qed

text \<open>Below an uncrossed book's level the other side has nothing, so the level's phantom orders carry all of it.\<close>

lemma level_phantom:
  fixes st :: "('l, 'z) instrument"
  assumes l3: "l3_book L binv" and ok: "symbol_ok L binv X st" and s: "real_side s"
    and lv: "l3_level_at L (ob_l3 st) s px = Some (level, k)"
  shows "getMDLevelQty st px = phantom_of st (lv_orders level)"
proof -
  note k = symbol_okD [OF ok] and le = level_entries [OF l3 symbol_okD(1) [OF ok] s lv]
  obtain od where od: "od \<in> set (lv_orders level)" using le(3) by (cases "lv_orders level") auto
  have "entry_of px od \<in> set (map (entry_of px) (lv_orders level))" using od by simp
  then have e: "entry_of px od \<in> set (queue L st s)" unfolding le(2) by simp
  have "en_price y \<noteq> px" if "y \<in> set (queue L st (opposite_side s))" for y
    using k(5) e that s by (fastforce simp: uncrossed_side [OF s] isPriceBetterOrEqual_def real_side_def split: if_splits)
  then have "psum (ob_orders st) px (queue L st (opposite_side s)) = 0" by (intro psum_zero) (simp add: phantom_in_def)
  then show ?thesis
    using k(1) psum_filter [of "ob_orders st" px "queue L st s"] le(2)
    by (simp add: obinv_def phantom_qty_pair [OF s] phantom_of_psum [of st _ px])
qed

lemma take_frame:
  fixes st :: "('l, 'z) instrument"
  assumes "takeTradedQty s p a st = (u, st')"
  obtains c where "st' = st\<lparr>sy_credit := c\<rparr>"
  using assms that [of "sy_credit st"] by (auto simp: takeTradedQty_def split: if_splits option.splits prod.splits)

lemma credit_field [simp]:
  fixes st :: "('l, 'z) instrument"
  shows "queue L (st\<lparr>sy_credit := c\<rparr>) s = queue L st s" "obinv L I P (st\<lparr>sy_credit := c\<rparr>) = obinv L I P st"
    "symbol_ok L binv X (st\<lparr>sy_credit := c\<rparr>) = symbol_ok L binv X st" "getMDLevelQty (st\<lparr>sy_credit := c\<rparr>) = getMDLevelQty st"
proof -
  show 1: "queue L (st\<lparr>sy_credit := c\<rparr>) s = queue L st s" for s by (simp add: queue_def)
  show 2: "obinv L I P (st\<lparr>sy_credit := c\<rparr>) = obinv L I P st" for I P by (rule obinv_cong) simp_all
  show "symbol_ok L binv X (st\<lparr>sy_credit := c\<rparr>) = symbol_ok L binv X st"
    by (simp add: symbol_ok_def pool_exact_def drawn_def uncrossed_def 1 2)
  show "getMDLevelQty (st\<lparr>sy_credit := c\<rparr>) = getMDLevelQty st" by (simp add: fun_eq_iff getMDLevelQty_def)
qed

text \<open>The invariant after a step that leaves lookups, records and slots alone.\<close>

lemma symbol_ok_step:
  fixes st st' :: "('l, 'z) instrument"
  assumes "symbol_ok L binv X st" and "obinv L binv {} st'" and "same_frame st st'"
    and "\<And>s. real_side s \<Longrightarrow> place ` set (queue L st' s) \<subseteq> place ` set (queue L st s)"
  shows "symbol_ok L binv X st'"
proof -
  note k = symbol_okD [OF assms(1)]
  have nf: "near_frame st st'" using assms(3) by (intro near_frameI) (simp add: same_frame_def)
  have "drawn L st'" by (rule drawn_places [OF k(4) _ _ assms(4)]) (simp_all add: near_frameD [OF nf])
  moreover have "uncrossed L st'" by (rule uncrossed_places [OF k(5) assms(4)])
  ultimately show ?thesis
    using k assms(2,3) near_frame_symbol [OF nf] by (simp add: symbol_ok_def pool_exact_def same_frame_def)
qed

text \<open>Phantom liquidity at a price nothing on the other side reaches.\<close>

lemma phantom_rests_eff:
  fixes st :: "('l, 'z) instrument"
  assumes l3: "l3_book L binv" and ok: "symbol_ok L binv X st" and s: "real_side s" and q: "0 < q"
    and new: "ob_orders st i = None" "i \<notin> en_id ` set (queue L st BUY @ queue L st SELL)" "i < ob_next_order_id st"
    and prio: "eff_prio prio t \<le> ob_next_priority st" and px: "px \<noteq> NULL_PRICE"
    and free: "\<forall>y\<in>set (queue L st (opposite_side s)). \<not> isPriceBetterOrEqual s px (en_price y)"
    and seq: "seq = 0 \<or> l3_last_seq L (ob_l3 st) \<le> seq"
    and st': "st' = snd (base_addOrder L i s px q t prio seq lb st)"
  shows "symbol_ok L binv X st'" "same_frame st st'" "ob_buffer st' = ob_buffer st"
    "queue L st' s = insert_entry s \<lparr>en_price = px, en_id = i, en_qty = q, en_prio = eff_prio prio t\<rparr> (queue L st s)"
    "queue L st' (opposite_side s) = queue L st (opposite_side s)"
    "\<And>y. getMDLevelQty st' y = getMDLevelQty st y + (if y = px then q else 0)" "seq = 0 \<or> l3_last_seq L (ob_l3 st') \<le> seq"
proof -
  note k = symbol_okD [OF ok]
  let ?e = "\<lparr>en_price = px, en_id = i, en_qty = q, en_prio = eff_prio prio t\<rparr>"
  obtain b' where b': "base_addOrder L i s px q t prio seq lb st = (True, b')" "obinv L binv {} b'"
    "queue L b' s = insert_entry s \<lparr>en_price = px, en_id = i, en_qty = q, en_prio = eff_prio prio t\<rparr> (queue L st s)"
    "queue L b' (opposite_side s) = queue L st (opposite_side s)" "same_frame st b'" "ob_buffer b' = ob_buffer st"
    "l3_last_seq L (ob_l3 b') = next_seq (l3_last_seq L (ob_l3 st)) seq"
    by (rule l3_book.phantom_add_ok [OF l3 k(1) s new(1) q new(2) seq]) blast
  have eq: "st' = b'" by (simp add: st' b'(1))
  show "seq = 0 \<or> l3_last_seq L (ob_l3 st') \<le> seq" using b'(7) by (simp add: eq next_seq_def)
  show sf: "same_frame st st'" "ob_buffer st' = ob_buffer st" "queue L st' s = insert_entry s ?e (queue L st s)"
    "queue L st' (opposite_side s) = queue L st (opposite_side s)"
    using b' by (simp_all add: eq)
  show "getMDLevelQty st' y = getMDLevelQty st y + (if y = px then q else 0)" for y
    using b'(2) k(1) sf new(1) by (auto simp: eq obinv_def phantom_qty_pair [OF s] same_frame_def phantom_in_def)
  have nf: "near_frame st st'" using sf(1) by (intro near_frameI) (simp add: same_frame_def)
  have "drawn L st'" unfolding drawn_def
  proof (intro allI impI)
    fix s' assume s': "real_side s'"
    show "\<forall>e\<in>set (queue L st' s'). en_id e < ob_next_order_id st' \<and> en_prio e \<le> ob_next_priority st' \<and> en_price e \<noteq> NULL_PRICE"
      using real_side_cases [OF s s'] k(4) s' sf(3,4) new(3) prio px sf(1) by (auto simp: drawn_def same_frame_def book_frame_def)
  qed
  moreover have "uncrossed L st'" using k(5) free by (auto simp: uncrossed_side [OF s] sf(3,4))
  ultimately show "symbol_ok L binv X st'"
    using k b'(2) sf(1) near_frame_symbol [OF nf] by (simp add: symbol_ok_def pool_exact_def same_frame_def eq)
qed

lemma phantom_rests:
  fixes st :: "('l, 'z) instrument"
  assumes l3: "l3_book L binv" and ok: "symbol_ok L binv X st" and s: "real_side s" and q: "0 < q"
    and new: "ob_orders st i = None" "i \<notin> en_id ` set (queue L st BUY @ queue L st SELL)" "i < ob_next_order_id st"
    and prio: "0 < prio" "prio \<le> ob_next_priority st" and px: "px \<noteq> NULL_PRICE"
    and free: "\<forall>y\<in>set (queue L st (opposite_side s)). \<not> isPriceBetterOrEqual s px (en_price y)"
    and seq: "seq = 0 \<or> l3_last_seq L (ob_l3 st) \<le> seq"
    and st': "st' = snd (base_addOrder L i s px q t prio seq lb st)"
  shows "symbol_ok L binv X st'" "same_frame st st'" "ob_buffer st' = ob_buffer st"
    "queue L st' s = insert_entry s \<lparr>en_price = px, en_id = i, en_qty = q, en_prio = prio\<rparr> (queue L st s)"
    "queue L st' (opposite_side s) = queue L st (opposite_side s)"
    "\<And>y. getMDLevelQty st' y = getMDLevelQty st y + (if y = px then q else 0)" "seq = 0 \<or> l3_last_seq L (ob_l3 st') \<le> seq"
proof -
  have ep: "eff_prio prio t = prio" using prio(1) by (simp add: eff_prio_def)
  have le: "eff_prio prio t \<le> ob_next_priority st" using prio(2) ep by simp
  note r = phantom_rests_eff [OF l3 ok s q new le px free seq st', unfolded ep]
  show "symbol_ok L binv X st'" "same_frame st st'" "ob_buffer st' = ob_buffer st"
    "queue L st' s = insert_entry s \<lparr>en_price = px, en_id = i, en_qty = q, en_prio = prio\<rparr> (queue L st s)"
    "queue L st' (opposite_side s) = queue L st (opposite_side s)"
    "\<And>y. getMDLevelQty st' y = getMDLevelQty st y + (if y = px then q else 0)" "seq = 0 \<or> l3_last_seq L (ob_l3 st') \<le> seq" by (rule r)+
qed

end
