(* ===== verification/Exchange_Requests.thy ===== *)
theory Exchange_Requests
  imports Exchange_Facts
begin

text \<open>The order requests of the exchange thread: every request returns and keeps the exchange in good order.\<close>

section \<open>New orders\<close>

text \<open>
  What a new order brings along: a slot the pool does not have out, a uuid no order uses, a side, a
  quantity that is not negative, and an opposite queue whose total fits 64 bits.
\<close>

definition admissible :: "'l l3_ops \<Rightarrow> request_env \<Rightarrow> AddOrderMessage \<Rightarrow> 'l Symbol \<Rightarrow> bool" where
  "admissible L env msg sy \<longleftrightarrow>
     env_slot env \<notin> ob_live sy \<and> (env_uuid env = [] \<or> ob_by_order sy (env_uuid env) = None) \<and>
     real_side (ao_side msg) \<and> 0 \<le> ao_qty msg \<and> fits (queue L sy (opposite_side (ao_side msg)))"

lemma next_id_unused:
  fixes st :: "('l, 'z) instrument"
  assumes "l3_book L binv" and "symbol_ok L binv X st"
  shows "ob_orders st (ob_next_order_id st) = None" "real_side s \<Longrightarrow> ob_next_order_id st \<notin> en_id ` set (queue L st s)"
proof -
  note ok = symbol_okD [OF assms(2)]
  show q: "ob_next_order_id st \<notin> en_id ` set (queue L st s)" if "real_side s" for s
    using ok(4) that unfolding drawn_def by force
  show "ob_orders st (ob_next_order_id st) = None"
  proof (cases "ob_orders st (ob_next_order_id st)")
    case (Some r)
    have "entry_for (ob_buffer st r) \<in> set (queue L st (side (ob_buffer st r)))"
      using obinv_linked [OF ok(1) Some] by (simp add: linked_def)
    then have "en_id (entry_for (ob_buffer st r)) \<in> en_id ` set (queue L st (side (ob_buffer st r)))" by (rule imageI)
    then show ?thesis using q [OF obinv_real_side [OF ok(1) Some]] obinv_id_num [OF ok(1) Some] by (simp add: entry_for_def)
  qed simp
qed

lemma new_incoming:
  fixes sy :: "'l Symbol"
  assumes l3: "l3_book L binv" and ok: "symbol_ok L binv {} sy" and adm: "admissible L env msg sy"
    and coid: "ao_client_order_id msg = [] \<or> findOrderByClientOrderId (ao_client_order_id msg) sy = None"
    and p: "p = env_slot env"
    and sy2: "sy2 = set_order p (fill_in (ob_symbol sy) request msg cid) (allocateOrder p (env_uuid env) now sy)"
  shows "incoming L binv p (publish f sy2)" "sym_frame (sy\<lparr>ob_next_order_id := ob_next_order_id sy + 1\<rparr>) (publish f sy2)"
proof -
  note k = symbol_okD [OF ok]
  have out: "p \<notin> ob_live sy" "p \<notin> ran (ob_orders sy)"
    using adm p k(2) by (auto simp: admissible_def pool_exact_def)
  have inv2: "obinv L binv {} sy2"
    unfolding sy2 using obinv_allocate [OF k(1) out(1)] out(2) by (intro obinv_unowned) simp_all
  have buf: "id_num (ob_buffer sy2 p) = ob_next_order_id sy" "order_id (ob_buffer sy2 p) = env_uuid env"
    "client_order_id (ob_buffer sy2 p) = ao_client_order_id msg" "side (ob_buffer sy2 p) = ao_side msg"
    "status (ob_buffer sy2 p) = OS_PENDING_NEW" "acct_ok (ob_buffer sy2 p)"
    using adm by (simp_all add: sy2 fill_in_def resetFillAccounting_def admissible_def acct_ok_def)
      (simp_all add: allocateOrder_eq resetFillAccounting_def)
  have fields: "ob_orders sy2 = ob_orders sy" "ob_live sy2 = insert p (ob_live sy)" "ob_by_client sy2 = ob_by_client sy"
    "ob_by_order sy2 = ob_by_order sy" "ob_next_order_id sy2 = ob_next_order_id sy + 1" "ob_next_priority sy2 = ob_next_priority sy"
    "queue L sy2 s = queue L sy s" for s
    by (simp_all add: sy2)
  have fr: "sym_frame (sy\<lparr>ob_next_order_id := ob_next_order_id sy + 1\<rparr>) sy2"
    by (simp add: sym_frame_def sy2 allocateOrder_eq set_order_def)
  then show "sym_frame (sy\<lparr>ob_next_order_id := ob_next_order_id sy + 1\<rparr>) (publish f sy2)"
    using sym_frame_trans sym_frame_publish by blast
  have "sy_engine sy2 = sy_engine sy" by (simp add: sy2 allocateOrder_eq set_order_def)
  then have "symbol_ok L binv {p} sy2"
    using inv2 k out by (auto simp: symbol_ok_def pool_exact_def drawn_def uncrossed_def fields less_Suc_eq)
  moreover have "restable L sy2 p"
    using next_id_unused [OF l3 ok] out adm [unfolded p [symmetric]] coid
    by (simp add: restable_def Let_def fields buf admissible_def findOrderByClientOrderId_def real_side_def)
  ultimately show "incoming L binv p (publish f sy2)"
    using adm by (simp add: incoming_def Let_def fields buf admissible_def restable_def)
qed

text \<open>The common end of a request: trades published, caches flushed, the instrument put back.\<close>

lemma finish_ok:
  fixes x :: "'l Exchange"
  assumes ok: "exchange_ok L binv x" and sy: "symbol_ok L binv {} sy" "ob_symbol sy = n" "history_ok (sy_trade_history sy)"
    and cnt: "x_next_order_id x \<le> ob_next_order_id sy" "x_next_priority x \<le> ob_next_priority sy"
    and fr: "x_symbols x1 = x_symbols x" "tables_ok x1" "x_market_changed x1 = x_market_changed x"
    and all: "foldl publishTradeSummary (sy, x1) sms = (sy2, x2)"
    and sy3: "symbol_ok L binv {} sy2 \<Longrightarrow> symbol_ok L binv {} sy3" "sym_frame sy2 sy3"
  shows "exchange_ok L binv (leave n (flushMarketDataCaches (sy3, x2)))"
    and "\<exists>sy'. x_symbols (leave n (flushMarketDataCaches (sy3, x2))) = (x_symbols x)(n \<mapsto> sy') \<and> quiet sy' \<and> queue L sy' = queue L sy3 \<and>
      ob_orders sy' = ob_orders sy3"
proof -
  note al = publish_all_frame [OF all]
  obtain sy4 x4 where fl: "flushMarketDataCaches (sy3, x2) = (sy4, x4)" by fastforce
  note f4 = flush_frame [OF fl] and s4 = flushed_ok [OF flush_frame(1) [OF fl]]
  have s2: "symbol_ok L binv {} sy2" using but_historyD(1) al sy(1) by blast
  have more: "sy_trade_history sy3 = sy_trade_history sy2" using symbol_more [of sy3 sy2] sy3(2) by (simp add: sym_frame_def)
  have sel: "ob_symbol sy2 = ob_symbol sy" "ob_next_order_id sy2 = ob_next_order_id sy" "ob_next_priority sy2 = ob_next_priority sy"
    using but_historyD(2,4,5) [of sy sy2] al by auto
  show "exchange_ok L binv (leave n (flushMarketDataCaches (sy3, x2)))"
    unfolding fl
  proof (rule leave_ok [OF ok])
    show "symbol_ok L binv {} sy4" using s4(1) sy3(1) s2 by simp
    show "ob_symbol sy4 = n" "history_ok (sy_trade_history sy4)" "x_next_order_id x \<le> ob_next_order_id sy4"
      "x_next_priority x \<le> ob_next_priority sy4"
      using sel sy(2,3) cnt al sy3(2) more by (auto simp: f4(1) sym_frame_def)
    show "x_symbols x4 = x_symbols x" "set (x_market_changed x) \<subseteq> set (x_market_changed x4)"
      using f4(2) al fr by (simp_all add: x_frame_def)
    show "tables_ok x4" using tables_ok_frame [OF f4(2)] tables_ok_frame [of x1 x2] al fr(2) by simp
    show "quiet sy4 \<or> n \<in> set (x_market_changed x4)" using s4(2) by simp
  qed
  have "x_symbols x4 = x_symbols x" using f4(2) al fr by (simp add: x_frame_def)
  then show "\<exists>sy'. x_symbols (leave n (flushMarketDataCaches (sy3, x2))) = (x_symbols x)(n \<mapsto> sy') \<and> quiet sy' \<and> queue L sy' = queue L sy3 \<and>
      ob_orders sy' = ob_orders sy3"
    unfolding fl by (intro exI [of _ sy4]) (use s4(2) in \<open>simp add: f4(1) queue_def fun_eq_iff\<close>)
qed

lemma x_publish_ok: "exchange_ok L binv x \<Longrightarrow> exchange_ok L binv (x_publish f x)"
proof -
  have "symbol_ok L binv {} (load (x_publish f x) sy)" if "symbol_ok L binv {} (load x sy)" for sy
    using that by (rule symbol_ok_reload) (simp_all add: x_publish_def)
  then show "exchange_ok L binv x \<Longrightarrow> exchange_ok L binv (x_publish f x)"
    by (simp add: exchange_ok_def instrument_ok_def tables_ok_def clients_ok_def) (simp add: x_publish_def)
qed

lemma handleNew_ok:
  assumes l3: "l3_book L binv" and ok: "exchange_ok L binv x" and get: "getSymbol (req_symbol request) x = Some sy"
    and adm: "admissible L env msg sy"
    and coid: "ao_client_order_id msg = [] \<or> findOrderByClientOrderId (ao_client_order_id msg) sy = None"
  obtains x' sy' where "handleNewOrderRequest L env request msg x = Some x'" "exchange_ok L binv x'"
    "x_symbols x' = (x_symbols x)(req_symbol request \<mapsto> sy')" "quiet sy'"
proof -
  let ?p = "env_slot env"
  note g = getSymbol_ok [OF ok get]
  obtain cid x1 where cl: "clientIdFor (ao_user_id msg) x = (cid, x1)" by fastforce
  define sy2 where "sy2 = set_order ?p (fill_in (ob_symbol sy) request msg cid) (allocateOrder ?p (env_uuid env) (env_clock env 0) sy)"
  define sy3 where "sy3 = publish (pending_new_report (ob_buffer sy2 ?p) (time_stamp request)) sy2"
  have inc: "incoming L binv ?p sy3" "sym_frame (sy\<lparr>ob_next_order_id := ob_next_order_id sy + 1\<rparr>) sy3"
    using new_incoming [OF l3 g(1) adm coid refl sy2_def] by (simp_all add: sy3_def)
  obtain rr sms sy4 where add: "sym_addOrder L ?p (time_stamp request) sy3 = Some (rr, sms, sy4)" "symbol_ok L binv {} sy4" "sym_frame sy3 sy4"
    by (rule sym_addOrder_total [OF l3 inc(1)])
  obtain sy5 x2 where all: "foldl publishTradeSummary (sy4, x1) sms = (sy5, x2)" by fastforce
  let ?sy6 = "if rr \<noteq> RJ_NONE \<and> rr \<noteq> RJ_FOK_CANNOT_FILL then publish (new_reject request msg rr (env_clock env 1)) sy5 else sy5"
  have guard: "(ao_client_order_id msg \<noteq> [] \<and> findOrderByClientOrderId (ao_client_order_id msg) sy \<noteq> None) = False" using coid by auto
  have run: "handleNewOrderRequest L env request msg x = Some (leave (req_symbol request) (flushMarketDataCaches (?sy6, x2)))"
    by (simp only: handleNewOrderRequest_def get option.case guard if_False Let_def cl prod.case sy2_def [symmetric]
        sy3_def [symmetric] add(1) all)
  have fr: "sym_frame (sy\<lparr>ob_next_order_id := ob_next_order_id sy + 1\<rparr>) sy4" using sym_frame_trans inc(2) add(3) by blast
  then have h: "sy_trade_history sy4 = sy_trade_history sy" using symbol_more [of sy4 "sy\<lparr>ob_next_order_id := ob_next_order_id sy + 1\<rparr>"]
    by (simp add: sym_frame_def)
  have sy4: "ob_symbol sy4 = req_symbol request" "history_ok (sy_trade_history sy4)"
    "x_next_order_id x \<le> ob_next_order_id sy4" "x_next_priority x \<le> ob_next_priority sy4"
    using fr g h by (simp_all add: sym_frame_def)
  have cl1: "tables_ok x1" using clientIdFor_frame(7) [OF cl] ok by (simp add: exchange_ok_def)
  have sy6: "symbol_ok L binv {} sy5 \<Longrightarrow> symbol_ok L binv {} ?sy6" "sym_frame sy5 ?sy6" by simp_all
  note fin = finish_ok [OF ok add(2) sy4 clientIdFor_frame(1) [OF cl] cl1 clientIdFor_frame(2) [OF cl] all sy6]
  obtain sy' where "x_symbols (leave (req_symbol request) (flushMarketDataCaches (?sy6, x2))) = (x_symbols x)(req_symbol request \<mapsto> sy')" "quiet sy'"
    using fin(2) by blast
  then show thesis using that [OF run fin(1)] by blast
qed

section \<open>Amendments\<close>

lemma lookup_owned:
  assumes "obinv L binv P b" and "lookup_order coid oid b = Some p"
  shows "ob_orders b (id_num (ob_buffer b p)) = Some p"
  using assms
  by (auto simp: lookup_order_def findOrderByClientOrderId_def findOrderByOrderId_def obinv_def indexed_def split: if_splits)

lemma marked_ok:
  fixes st :: "('l, 'z) instrument"
  assumes "symbol_ok L binv X st"
  shows "symbol_ok L binv X (set_order p (\<lambda>ord. ord\<lparr>status := a, last_update_time := t, request_tag := g\<rparr>) st)"
    "symbol_ok L binv X (set_order p (\<lambda>ord. ord\<lparr>status := a, request_tag := g\<rparr>) st)"
    "symbol_ok L binv X (set_order p (\<lambda>ord. ord\<lparr>request_tag := g\<rparr>) st)"
  by (rule same_entry_ok [OF assms]; simp add: entry_for_def acct_ok_def)+

lemma handleModify_ok:
  assumes l3: "l3_book L binv" and ok: "exchange_ok L binv x" and get: "getSymbol (req_symbol request) x = Some sy"
    and look: "lookup_order (mo_client_order_id msg) (mo_order_id msg) sy = Some p"
    and px: "mo_new_price msg \<noteq> NULL_PRICE" and fit: "fits (queue L sy (opposite_side (side (ob_buffer sy p))))"
  obtains x' sy' where "handleModifyOrderRequest L env request msg x = Some x'" "exchange_ok L binv x'"
    "x_symbols x' = (x_symbols x)(req_symbol request \<mapsto> sy')" "quiet sy'"
proof -
  note g = getSymbol_ok [OF ok get]
  define sy1 where "sy1 = set_order p (\<lambda>order. order\<lparr>status := OS_PENDING_REPLACE, last_update_time := env_clock env 0,
      request_tag := req_request_tag request\<rparr>) sy"
  define sy2 where "sy2 = publish (pending_replace_report (ob_buffer sy1 p) (time_stamp request)) sy1"
  have own: "ob_orders sy (id_num (ob_buffer sy p)) = Some p" by (rule lookup_owned [OF symbol_okD(1) [OF g(1)] look])
  have "amending L binv p sy2"
    using own fit marked_ok(1) [OF g(1), where p = p and a = OS_PENDING_REPLACE and t = "env_clock env 0" and g = "req_request_tag request", folded sy1_def]
    by (simp add: amending_def Let_def sy2_def findOrder_def) (simp add: sy1_def)
  from sym_modifyOrder_total [OF l3 this px]
  obtain rr sms sy3 where mod: "sym_modifyOrder L p (mo_new_price msg) (mo_new_qty msg) (time_stamp request) (env_clock env 1) sy2 =
      Some (rr, sms, sy3)" "symbol_ok L binv {} sy3" "sym_frame sy2 sy3"
    by metis
  obtain sy4 x1 where all: "foldl publishTradeSummary (sy3, x) sms = (sy4, x1)" by fastforce
  let ?sy5 = "if rr \<noteq> RJ_NONE then publish (modify_reject request msg rr (env_clock env 2))
      (set_order p (\<lambda>order. order\<lparr>request_tag := request_tag (ob_buffer sy p)\<rparr>) sy4) else sy4"
  have run: "handleModifyOrderRequest L env request msg x = Some (leave (req_symbol request) (flushMarketDataCaches (?sy5, x1)))"
    by (simp only: handleModifyOrderRequest_def get look option.case Let_def prod.case sy1_def [symmetric] sy2_def [symmetric] mod(1) all)
  have "sym_frame sy sy1" unfolding sy1_def by (rule sym_frame_near) simp
  then have "sym_frame sy sy2" unfolding sy2_def using sym_frame_trans sym_frame_publish by blast
  then have fr: "sym_frame sy sy3" using sym_frame_trans mod(3) by blast
  then have "sy_trade_history sy3 = sy_trade_history sy" using symbol_more [of sy3 sy] by (simp add: sym_frame_def)
  then have sy3: "ob_symbol sy3 = req_symbol request" "history_ok (sy_trade_history sy3)"
    "x_next_order_id x \<le> ob_next_order_id sy3" "x_next_priority x \<le> ob_next_priority sy3"
    using fr g by (simp_all add: sym_frame_def)
  have cl: "tables_ok x" using ok by (simp add: exchange_ok_def)
  have "sym_frame sy4 (publish f (set_order p (\<lambda>order. order\<lparr>request_tag := request_tag (ob_buffer sy p)\<rparr>) sy4))" for f
    by (rule sym_frame_trans [OF sym_frame_near sym_frame_publish]) simp
  then have "sym_frame sy4 ?sy5" by simp
  moreover have "symbol_ok L binv {} sy4 \<Longrightarrow> symbol_ok L binv {} ?sy5" by (simp add: marked_ok(3))
  ultimately have fin: "exchange_ok L binv (leave (req_symbol request) (flushMarketDataCaches (?sy5, x1)))"
    "\<exists>sy'. x_symbols (leave (req_symbol request) (flushMarketDataCaches (?sy5, x1))) = (x_symbols x)(req_symbol request \<mapsto> sy') \<and> quiet sy'"
    using finish_ok [OF ok mod(2) sy3 refl cl refl all, of ?sy5] by blast+
  then show thesis using that [OF run] by blast
qed

section \<open>Cancels\<close>

text \<open>The order a cancel finds, if it finds one, has not been filled in part: what the pending report asserts.\<close>

definition cancel_unfilled :: "Request \<Rightarrow> 'l Exchange \<Rightarrow> bool" where
  "cancel_unfilled request x \<longleftrightarrow> (case (body request, getSymbol (req_symbol request) x) of
      (ORDER_CANCEL_REQUEST msg, Some sy) \<Rightarrow>
        (case lookup_order (co_client_order_id msg) (co_order_id msg) sy of
           None \<Rightarrow> True
         | Some p \<Rightarrow> leaves_quantity (ob_buffer sy p) = quantity (ob_buffer sy p))
    | _ \<Rightarrow> True)"

lemma cancel_aborts:
  assumes "getSymbol (req_symbol request) x = Some sy" and "lookup_order (co_client_order_id msg) (co_order_id msg) sy = Some p"
    and "env_asserts env" and "leaves_quantity (ob_buffer sy p) \<noteq> quantity (ob_buffer sy p)"
  shows "handleCancelOrderRequest L env request msg x = None"
  using assms by (simp add: handleCancelOrderRequest_def sendOrderCancelPending_def Let_def)

lemma request_aborts:
  assumes "env_asserts env" and "\<not> cancel_unfilled request x"
  shows "processRequest L env (Some request) x = None"
proof -
  obtain msg sy p where "body request = ORDER_CANCEL_REQUEST msg" "getSymbol (req_symbol request) x = Some sy"
    "lookup_order (co_client_order_id msg) (co_order_id msg) sy = Some p" "leaves_quantity (ob_buffer sy p) \<noteq> quantity (ob_buffer sy p)"
    using assms(2) by (auto simp: cancel_unfilled_def split: RequestBody.splits option.splits)
  then show ?thesis using cancel_aborts assms(1) by (simp add: processRequest_def)
qed

lemma handleCancel_ok:
  assumes l3: "l3_book L binv" and ok: "exchange_ok L binv x" and get: "getSymbol (req_symbol request) x = Some sy"
    and look: "lookup_order (co_client_order_id msg) (co_order_id msg) sy = Some p" and ord: "ord = ob_buffer sy p"
    and whole: "env_asserts env \<longrightarrow> leaves_quantity ord = quantity ord"
  obtains x' sy' where "handleCancelOrderRequest L env request msg x = Some x'" "exchange_ok L binv x'" "x_symbols x' = (x_symbols x)(req_symbol request \<mapsto> sy')" "quiet sy'"
    "queue L sy' (side ord) = remove_entry (id_num ord) (queue L sy (side ord))"
    "queue L sy' (opposite_side (side ord)) = queue L sy (opposite_side (side ord))" "ob_orders sy' = (ob_orders sy)(id_num ord := None)"
    "x_response_queue x' = x_response_queue x @
       [pending_cancel_report (ord\<lparr>status := OS_PENDING_CANCEL, request_tag := req_request_tag request\<rparr>) (time_stamp request)
          (x_response_slot x (length (x_response_queue x))),
        cancel_report (ord\<lparr>status := OS_PENDING_CANCEL, request_tag := req_request_tag request, last_update_time := env_clock env 0,
          leaves_quantity := 0\<rparr>) (time_stamp request) (x_response_slot x (length (x_response_queue x) + 1))]"
proof -
  note g = getSymbol_ok [OF ok get]
  define sy1 where "sy1 = set_order p (\<lambda>order. order\<lparr>status := OS_PENDING_CANCEL, request_tag := req_request_tag request\<rparr>) sy"
  define sy2 where "sy2 = publish (pending_cancel_report (ob_buffer sy1 p) (time_stamp request)) sy1"
  define sy3 where "sy3 = sym_cancelOrder L p (time_stamp request) (env_clock env 0) sy2"
  have own: "ob_orders sy2 (id_num ord) = Some p"
    using lookup_owned [OF symbol_okD(1) [OF g(1)] look] by (simp add: sy2_def sy1_def ord)
  have ok2: "symbol_ok L binv {} sy2" using marked_ok(2) [OF g(1)] by (simp add: sy2_def sy1_def)
  note c = sym_cancelOrder_ok [OF l3 ok2 own refl sy3_def]
  have buf2: "ob_buffer sy2 p = ord\<lparr>status := OS_PENDING_CANCEL, request_tag := req_request_tag request\<rparr>" "queue L sy2 s = queue L sy s"
    "ob_orders sy2 = ob_orders sy" for s
    by (simp_all add: sy2_def sy1_def ord)
  have "leaves_quantity (ob_buffer sy1 p) = leaves_quantity ord" "quantity (ob_buffer sy1 p) = quantity ord" by (simp_all add: sy1_def ord)
  then have "\<not> (env_asserts env \<and> leaves_quantity (ob_buffer sy1 p) \<noteq> quantity (ob_buffer sy1 p))" using whole by simp
  then have sent: "sendOrderCancelPending (env_asserts env) (ob_buffer sy1 p) (time_stamp request) sy1 = Some sy2"
    by (simp only: sendOrderCancelPending_def sy2_def if_False)
  define x' where "x' = leave (req_symbol request) (flushMarketDataCaches (sy3, x))"
  note run = x'_def
  have ret: "handleCancelOrderRequest L env request msg x = Some x'"
    by (simp only: x'_def handleCancelOrderRequest_def get look option.case Let_def sent sy1_def [symmetric] sy3_def [symmetric])
  have "sym_frame sy sy1" unfolding sy1_def by (rule sym_frame_near) simp
  then have f2: "sym_frame sy sy2" using sym_frame_trans [OF _ sym_frame_publish] by (simp add: sy2_def)
  have fr: "sym_frame sy2 sy3" unfolding sy3_def by (rule sym_cancelOrder_frame)
  then have "sym_frame sy sy3" using sym_frame_trans f2 by blast
  moreover from this have "sy_trade_history sy3 = sy_trade_history sy" using symbol_more [of sy3 sy] by (simp add: sym_frame_def)
  ultimately have sy3: "ob_symbol sy3 = req_symbol request" "history_ok (sy_trade_history sy3)"
    "x_next_order_id x \<le> ob_next_order_id sy3" "x_next_priority x \<le> ob_next_priority sy3"
    using g by (simp_all add: sym_frame_def)
  have cl: "tables_ok x" using ok by (simp add: exchange_ok_def)
  have all: "foldl publishTradeSummary (sy3, x) [] = (sy3, x)" by simp
  note fin = finish_ok [OF ok c(1) sy3 refl cl refl all, of sy3, simplified, folded run]
  then obtain sy' where sy': "x_symbols x' = (x_symbols x)(req_symbol request \<mapsto> sy')" "quiet sy'" "queue L sy' = queue L sy3"
    "ob_orders sy' = ob_orders sy3" by blast
  have "x_response_queue x' = response_queue sy3"
    using flush_frame(1) [of sy3 x] by (cases "flushMarketDataCaches (sy3, x)") (simp add: run)
  moreover have "response_queue sy2 = x_response_queue x @
      [pending_cancel_report (ord\<lparr>status := OS_PENDING_CANCEL, request_tag := req_request_tag request\<rparr>) (time_stamp request)
          (x_response_slot x (length (x_response_queue x)))]" "response_slot sy2 = x_response_slot x"
    using g(7,8) by (simp_all add: sy2_def publish_def) (simp_all add: sy1_def set_order_def ord)
  ultimately show thesis
    using that [OF ret fin(1) sy'(1,2)] c(2-4,6) sy'(3,4) by (simp add: buf2)
qed

end
