(* ===== verification/Feed_Reconcile.thy ===== *)
theory Feed_Reconcile
  imports Exchange_Feed Exchange_Requests
begin

text \<open>
  \<open>Exchange::reconcilePhantomQty\<close>: after a level update the phantom quantity of the level is exactly
  what the venue reports, less the trades the update has not seen; nothing else of the book moves.
\<close>

section \<open>Drawing numbers\<close>

definition draw :: "('l, 'z) instrument \<Rightarrow> ('l, 'z) instrument" where
  "draw st = st\<lparr>ob_next_order_id := ob_next_order_id st + 1, ob_next_priority := ob_next_priority st + 1\<rparr>"

lemma draw_sel [simp]:
  "ob_orders (draw st) = ob_orders st" "ob_live (draw st) = ob_live st" "ob_buffer (draw st) = ob_buffer st"
  "ob_by_client (draw st) = ob_by_client st" "ob_by_order (draw st) = ob_by_order st" "ob_l3 (draw st) = ob_l3 st"
  "ob_md_qty (draw st) = ob_md_qty st" "ob_next_order_id (draw st) = ob_next_order_id st + 1"
  "ob_next_priority (draw st) = ob_next_priority st + 1" "ob_symbol (draw st) = ob_symbol st"
  "queue L (draw st) s = queue L st s" "sy_engine (draw st) = sy_engine st" "sy_trade_history (draw st) = sy_trade_history st"
  "getMDLevelQty (draw st) = getMDLevelQty st"
  by (simp_all add: draw_def queue_def getMDLevelQty_def fun_eq_iff)

lemma obinv_draw [simp]: "obinv L I P (draw st) = obinv L I P st"
  by (rule obinv_cong) simp_all

lemma draw_ok: "symbol_ok L binv X st \<Longrightarrow> symbol_ok L binv X (draw st)"
  by (fastforce simp: symbol_ok_def pool_exact_def drawn_def uncrossed_def)

section \<open>Reconciling\<close>

text \<open>What a level feed may change: phantom entries at one price of one side, and the counters.\<close>

definition level_frame :: "'l l3_ops \<Rightarrow> Side \<Rightarrow> price_t \<Rightarrow> ('l, 'z) instrument \<Rightarrow> ('l, 'z) instrument \<Rightarrow> bool" where
  "level_frame L s px st st' \<longleftrightarrow>
     ob_orders st' = ob_orders st \<and> ob_buffer st' = ob_buffer st \<and> ob_live st' = ob_live st \<and>
     queue L st' (opposite_side s) = queue L st (opposite_side s) \<and>
     (\<forall>e\<in>set (queue L st s). ob_orders st (en_id e) \<noteq> None \<or> en_price e \<noteq> px \<longrightarrow> e \<in> set (queue L st' s)) \<and>
     (\<forall>y. y \<noteq> px \<longrightarrow> getMDLevelQty st' y = getMDLevelQty st y)"

lemma add_liquidity:
  fixes st :: "('l, 'z) instrument"
  assumes l3: "l3_book L binv" and ok: "symbol_ok L binv X st" and s: "real_side s" and q: "0 < q"
    and e: "e \<in> set (queue L st s)" "en_price e = px" and seq: "seq = 0 \<or> l3_last_seq L (ob_l3 st) \<le> seq"
    and st': "st' = addBookOrder L (fst (nextOrderId st)) s px q t seq lb (snd (nextOrderId st))"
  shows "symbol_ok L binv X st'" "level_frame L s px st st'" "getMDLevelQty st' px = getMDLevelQty st px + q"
proof -
  note k = symbol_okD [OF ok]
  have eq: "st' = snd (base_addOrder L (ob_next_order_id st) s px q t (ob_next_priority (draw st)) seq lb (draw st))"
    by (simp add: st' addBookOrder_def nextOrderId_def nextOrderPriority_def draw_def)
  have px: "px \<noteq> NULL_PRICE" using k(4) s e by (auto simp: drawn_def)
  have opp: "real_side (opposite_side s)" using s by (auto simp: real_side_def)
  have "ob_next_order_id st \<notin> en_id ` set (queue L st BUY @ queue L st SELL)"
    using next_id_unused(2) [OF l3 ok, of BUY] next_id_unused(2) [OF l3 ok, of SELL] by (simp add: real_side_def image_Un)
  moreover have "\<forall>y\<in>set (queue L st (opposite_side s)). \<not> isPriceBetterOrEqual s px (en_price y)"
    using k(5) e by (fastforce simp: uncrossed_side [OF s])
  ultimately have r: "symbol_ok L binv X st'" "same_frame (draw st) st'" "ob_buffer st' = ob_buffer st"
    "queue L st' s = insert_entry s \<lparr>en_price = px, en_id = ob_next_order_id st, en_qty = q, en_prio = ob_next_priority st + 1\<rparr> (queue L st s)"
    "queue L st' (opposite_side s) = queue L st (opposite_side s)"
    "\<And>y. getMDLevelQty st' y = getMDLevelQty st y + (if y = px then q else 0)"
    using phantom_rests [OF l3 draw_ok [OF ok] s q _ _ _ _ _ px _ _ eq] next_id_unused(1) [OF l3 ok] seq by simp_all
  then show "symbol_ok L binv X st'" "getMDLevelQty st' px = getMDLevelQty st px + q" by simp_all
  show "level_frame L s px st st'" using r(2-6) by (auto simp: level_frame_def same_frame_def)
qed

lemma remove_liquidity:
  fixes st :: "('l, 'z) instrument"
  assumes l3: "l3_book L binv" and ok: "symbol_ok L binv X st" and s: "real_side s"
    and lv: "l3_level_at L (ob_l3 st) s px = Some (level, k)" and d: "0 \<le> diff" "diff \<le> getMDLevelQty st px"
    and seq: "seq = 0 \<or> l3_last_seq L (ob_l3 st) \<le> seq"
    and st': "st' = apply_reductions L px t seq ee (choose_reductions st diff (rev (lv_orders level))) st"
  shows "symbol_ok L binv X st'" "level_frame L s px st st'" "getMDLevelQty st' px = getMDLevelQty st px - diff"
proof -
  note k = symbol_okD [OF ok] and le = level_entries [OF l3 symbol_okD(1) [OF ok] s lv]
  have mem: "\<forall>od\<in>set (rev (lv_orders level)). entry_of px od \<in> set (queue L st s)"
  proof
    fix od assume "od \<in> set (rev (lv_orders level))"
    then have "entry_of px od \<in> set (map (entry_of px) (lv_orders level))" by simp
    then show "entry_of px od \<in> set (queue L st s)" unfolding le(2) by simp
  qed
  have "distinct (map en_id (map (entry_of px) (lv_orders level)))"
    unfolding le(2) by (rule distinct_map_filter) (rule l3_book.queue_distinct(1) [OF l3 k(1) s])
  then have "distinct (map lo_id (rev (lv_orders level)))" by (simp add: comp_def rev_map [symmetric])
  then have r: "obinv L binv {} st'" "reduced L s px diff st st'"
    using l3_book.reductions_ok [OF l3 k(1) s mem _ seq d(1)] d(2) level_phantom [OF l3 ok s lv] by (simp_all add: st')
  have "place ` set (queue L st' s') \<subseteq> place ` set (queue L st s')" if "real_side s'" for s'
    using real_side_cases [OF s that] r(2) by (auto simp: reduced_def)
  then show "symbol_ok L binv X st'" using symbol_ok_step [OF ok r(1)] r(2) by (simp add: reduced_def)
  show "level_frame L s px st st'" "getMDLevelQty st' px = getMDLevelQty st px - diff"
    using r(2) by (auto simp: level_frame_def reduced_def same_frame_def)
qed

definition reconciled_qty :: "qty_t \<Rightarrow> qty_t \<Rightarrow> qty_t" where
  "reconciled_qty target_qty unrefl = (if unrefl > 0 then max 0 (target_qty - unrefl) else target_qty)"

lemma reconcile_ok:
  fixes st :: "('l, 'z) instrument"
  assumes l3: "l3_book L binv" and ok: "symbol_ok L binv X st" and s: "real_side s" and tgt: "0 \<le> target"
    and lv: "l3_level_at L (ob_l3 st) s px = Some (level, k)" and seq: "seq = 0 \<or> l3_last_seq L (ob_l3 st) \<le> seq"
    and st': "st' = reconcilePhantomQty L s px target t seq ee st"
  shows "symbol_ok L binv X st'" "level_frame L s px st st'"
    "getMDLevelQty st' px = reconciled_qty target (credit_after t (credits_at s px st))"
proof -
  obtain u st1 where take: "takeTradedQty s px t st = (u, st1)" by fastforce
  obtain c where c: "st1 = st\<lparr>sy_credit := c\<rparr>" by (rule take_frame [OF take])
  have u: "u = credit_after t (credits_at s px st)" using credits_at_take(1) [OF take] s by (auto simp: real_side_def)
  have ok1: "symbol_ok L binv X st1" and lv1: "l3_level_at L (ob_l3 st1) s px = Some (level, k)"
    and seq1: "seq = 0 \<or> l3_last_seq L (ob_l3 st1) \<le> seq"
    using ok lv seq by (simp_all add: c)
  have lf: "level_frame L s px st st' = level_frame L s px st1 st'" by (simp add: level_frame_def c)
  define tg where "tg = (if u > 0 then (if target > u then target - u else 0) else target)"
  define md where "md = getMDLevelQty st1 px"
  have tg: "tg = reconciled_qty target u" "0 \<le> tg" using tgt by (auto simp: tg_def reconciled_qty_def)
  have run: "st' = (if tg > md then addBookOrder L (fst (nextOrderId st1)) s px (tg - md) t seq ee (snd (nextOrderId st1))
      else if tg < md then apply_reductions L px t seq ee (choose_reductions st1 (md - tg) (rev (lv_orders level))) st1 else st1)"
    by (simp add: st' reconcilePhantomQty_def lv take tg_def md_def split_beta)
  obtain e where e: "e \<in> set (queue L st1 s)" "en_price e = px"
  proof -
    note le = level_entries [OF l3 symbol_okD(1) [OF ok1] s lv1]
    have "filter (\<lambda>e. en_price e = px) (queue L st1 s) \<noteq> []" using le(2,3) by (metis map_is_Nil_conv)
    then show thesis using that by (auto simp: filter_empty_conv)
  qed
  have "symbol_ok L binv X st' \<and> level_frame L s px st1 st' \<and> getMDLevelQty st' px = tg"
  proof (cases md tg rule: linorder_cases)
    case less
    then have "0 < tg - md" and "st' = addBookOrder L (fst (nextOrderId st1)) s px (tg - md) t seq ee (snd (nextOrderId st1))"
      by (simp_all add: run)
    from add_liquidity [OF l3 ok1 s this(1) e seq1 this(2)] show ?thesis by (simp add: md_def)
  next
    case equal
    then show ?thesis using ok1 by (simp add: run level_frame_def md_def)
  next
    case greater
    then have d: "0 \<le> md - tg" "md - tg \<le> getMDLevelQty st1 px" and
      "st' = apply_reductions L px t seq ee (choose_reductions st1 (md - tg) (rev (lv_orders level))) st1"
      using tg(2) by (simp_all add: run md_def)
    from remove_liquidity [OF l3 ok1 s lv1 d seq1 this(3)] show ?thesis by (simp add: md_def)
  qed
  then show "symbol_ok L binv X st'" "level_frame L s px st st'"
    "getMDLevelQty st' px = reconciled_qty target (credit_after t (credits_at s px st))"
    using lf tg(1) u by simp_all
qed

end
