(* ===== verification/Feed_Mirror.thy ===== *)
theory Feed_Mirror
  imports Feed_Reconcile
begin

text \<open>
  The order-by-order mirror: \<open>Exchange::applyMarketOrder\<close>, \<open>restMarketOrder\<close>, \<open>replayMarketTrade\<close>
  and \<open>flushMarketEvents\<close>. A venue order that would cross fills the clients in front of it first
  and rests with what is left; every event keeps the instrument in good order.
\<close>

section \<open>Matching feed liquidity\<close>

lemma swept_ok:
  fixes st :: "('l, 'z) instrument"
  assumes sw: "swept L None s aid fs es' ctx st ctx' st'" and inv: "obinv L binv {} st'"
    and pl: "place ` set es' \<subseteq> place ` set (queue L st s)" and s: "real_side s" and ok: "symbol_ok L binv {} st"
  shows "symbol_ok L binv {} st'" "eng_frame st st'"
proof -
  note k = symbol_okD [OF ok]
  show fr: "eng_frame st st'" using sw by (simp add: swept_def)
  have pk: "pool_kept st st'" using sw by (simp add: swept_def)
  have places: "place ` set (queue L st' s') \<subseteq> place ` set (queue L st s')" if "real_side s'" for s'
    using real_side_cases [OF s that] sw pl by (auto simp: swept_def)
  have "drawn L st'" using drawn_places [OF k(4) _ _ places] fr by (simp add: eng_frame_def)
  moreover have "uncrossed L st'" by (rule uncrossed_places [OF k(5) places])
  moreover have "pool_exact {} st'" using pk k(2) by (simp add: pool_kept_def)
  moreover have "engine_valid (sy_engine st')" using fr k(6) symbol_more [of st' st] by (simp add: eng_frame_def)
  ultimately show "symbol_ok L binv {} st'" using inv by (simp add: symbol_ok_def)
qed

lemma feed_match_seq:
  fixes st :: "('l, 'z) instrument"
  assumes l3: "l3_book L binv" and ok: "symbol_ok L binv {} st" and s: "real_side s" and fit: "fits (queue L st (opposite_side s))"
    and q: "0 \<le> q" and seq: "seq = 0 \<or> l3_last_seq L (ob_l3 st) \<le> seq"
    and spec: "engine_spec (sy_engine st) (crosses (opposite_side s) px) (\<lambda>_. False) q (queue L st (opposite_side s)) = (fs, cs, es', q')"
  obtains sms st' where "engine_match_feed L (sy_engine st) s aid px q t seq st = Some (sms, q', st')" "symbol_ok L binv {} st'"
    "eng_frame st st'" "queue L st' (opposite_side s) = es'" "queue L st' s = queue L st s" "0 \<le> q'" "q = filled_qty fs + q'"
    "0 < q' \<longrightarrow> (\<forall>e\<in>set es'. \<not> crosses (opposite_side s) px (en_price e))" "legs sms = fill_legs fs"
    "ob_orders st' = orders_after (ob_orders st) (queue L st (opposite_side s)) es'" "seq = 0 \<or> l3_last_seq L (ob_l3 st') \<le> seq"
proof -
  note k = symbol_okD [OF ok] and eng = engine_contract [OF l3 symbol_okD(6) [OF ok]]
  have so: "real_side (opposite_side s)" "opposite_side s = (if s = BUY then SELL else BUY)" "opposite_side (opposite_side s) = s"
    using s by (auto simp: real_side_def)
  have "hittable L None (opposite_side s) st" using k(4) so(1) by (auto simp: hittable_def drawn_def)
  then have m: "matchable L binv None (opposite_side s) seq st" using k(1) so(1) fit seq by (simp add: matchable_def)
  obtain ctx st' where r: "engine_match_feed L (sy_engine st) s aid px q t seq st = Some (mc_summaries ctx, q', st')" "obinv L binv {} st'"
    "swept L None (opposite_side s) aid fs es' (new_context t seq) st ctx st'"
    using matching_engine.feed_matches [OF eng m so(2) q spec, of aid t] by blast
  note pl = matching_engine.spec_places [OF eng fit spec]
  note sok = swept_ok [OF r(3,2) pl so(1) ok]
  have bal: "q = filled_qty fs + q'" "0 \<le> q'" using matching_engine.spec_balance [OF eng fit q spec] by simp_all
  have "\<not> crosses (opposite_side s) px (en_price e)" if "0 < q'" "e \<in> set es'" for e
  proof (rule nothing_crosses [OF _ _ that(2)])
    show "sorted_wrt (before (opposite_side s)) es'"
      using l3_book.queue_sorted [OF l3 r(2) so(1)] r(3) by (simp add: swept_def)
    show "es' = [] \<or> \<not> crosses (opposite_side s) px (en_price (hd es'))"
      by (rule matching_engine.spec_front [OF eng fit spec that(1)])
  qed
  moreover have "seq = 0 \<or> l3_last_seq L (ob_l3 st') \<le> seq" using r(3) by (auto simp: swept_def ctx_fresh_def new_context_def)
  ultimately show thesis
    using that [OF r(1) sok] r(3) bal so(3) by (simp add: swept_def legs_def new_context_def)
qed

lemma feed_match_ok:
  fixes st :: "('l, 'z) instrument"
  assumes l3: "l3_book L binv" and ok: "symbol_ok L binv {} st" and s: "real_side s" and fit: "fits (queue L st (opposite_side s))"
    and q: "0 \<le> q" and spec: "engine_spec (sy_engine st) (crosses (opposite_side s) px) (\<lambda>_. False) q (queue L st (opposite_side s)) = (fs, cs, es', q')"
  obtains sms st' where "engine_match_feed L (sy_engine st) s aid px q t 0 st = Some (sms, q', st')" "symbol_ok L binv {} st'"
    "eng_frame st st'" "queue L st' (opposite_side s) = es'" "queue L st' s = queue L st s" "0 \<le> q'" "q = filled_qty fs + q'"
    "0 < q' \<longrightarrow> (\<forall>e\<in>set es'. \<not> crosses (opposite_side s) px (en_price e))" "legs sms = fill_legs fs"
    "ob_orders st' = orders_after (ob_orders st) (queue L st (opposite_side s)) es'"
  by (rule feed_match_seq [OF l3 ok s fit q disjI1 [OF refl] spec]) (rule that)

section \<open>Resting a venue order\<close>

text \<open>
  The venue's part: an id and a priority the simulator has drawn, an id that is no client order, at
  rest on no other side, a change in place keeps the price, and a new order is new.
\<close>

definition mirror_event :: "'l l3_ops \<Rightarrow> MarketOrderEvent \<Rightarrow> ('l, 'z) instrument \<Rightarrow> bool" where
  "mirror_event L ev st \<longleftrightarrow>
     real_side (me_side ev) \<and> 0 \<le> me_qty ev \<and> (me_action ev \<noteq> ACTION_DELETE \<longrightarrow> me_price ev \<noteq> NULL_PRICE) \<and>
     0 < me_book_priority ev \<and> me_book_priority ev \<le> ob_next_priority st \<and> me_book_order_id ev < ob_next_order_id st \<and>
     ob_orders st (me_book_order_id ev) = None \<and> fits (queue L st (opposite_side (me_side ev))) \<and>
     me_book_order_id ev \<notin> en_id ` set (queue L st (opposite_side (me_side ev))) \<and>
     (\<forall>e\<in>set (queue L st (me_side ev)). en_id e = me_book_order_id ev \<longrightarrow>
        me_action ev \<noteq> ACTION_NEW \<and> (me_requeue ev \<or> en_price e = me_price ev))"

text \<open>The quantity the engine leaves of a venue order.\<close>

definition feed_leftover :: "'l l3_ops \<Rightarrow> MarketOrderEvent \<Rightarrow> ('l, 'z) instrument \<Rightarrow> qty_t" where
  "feed_leftover L ev st = snd (snd (snd (engine_spec (sy_engine st) (crosses (opposite_side (me_side ev)) (me_price ev)) (\<lambda>_. False)
     (me_qty ev) (queue L st (opposite_side (me_side ev))))))"

definition mirror_entry :: "MarketOrderEvent \<Rightarrow> qty_t \<Rightarrow> entry" where
  "mirror_entry ev q = \<lparr>en_price = me_price ev, en_id = me_book_order_id ev, en_qty = q, en_prio = me_book_priority ev\<rparr>"

lemma rest_market_ok:
  fixes sy :: "'l Symbol"
  assumes l3: "l3_book L binv" and ok: "symbol_ok L binv {} sy" and hist: "history_ok (sy_trade_history sy)"
    and ev: "mirror_event L ev sy" "me_action ev \<noteq> ACTION_DELETE" and new: "me_book_order_id ev \<notin> en_id ` set (queue L sy (me_side ev))"
  obtains sy' x' where "restMarketOrder L ev (sy, x) = Some (sy', x')" "symbol_ok L binv {} sy'" "history_ok (sy_trade_history sy')"
    "x_frame x x'" "ob_symbol sy' = ob_symbol sy" "ob_next_order_id sy' = ob_next_order_id sy" "ob_next_priority sy' = ob_next_priority sy"
    "queue L sy' (me_side ev) = (if 0 < feed_leftover L ev sy
       then insert_entry (me_side ev) (mirror_entry ev (feed_leftover L ev sy)) (queue L sy (me_side ev)) else queue L sy (me_side ev))"
proof -
  let ?s = "me_side ev" and ?o = "opposite_side (me_side ev)" and ?i = "me_book_order_id ev"
  have e: "real_side ?s" "0 \<le> me_qty ev" "me_price ev \<noteq> NULL_PRICE" "0 < me_book_priority ev" "me_book_priority ev \<le> ob_next_priority sy"
    "?i < ob_next_order_id sy" "ob_orders sy ?i = None" "fits (queue L sy ?o)" "?i \<notin> en_id ` set (queue L sy ?o)"
    using ev by (simp_all add: mirror_event_def)
  obtain fs cs es' q' where spec: "engine_spec (sy_engine sy) (crosses ?o (me_price ev)) (\<lambda>_. False) (me_qty ev) (queue L sy ?o) = (fs, cs, es', q')"
    by (metis prod_cases4)
  have left: "feed_leftover L ev sy = q'" by (simp add: feed_leftover_def spec)
  obtain sms sy1 where m: "engine_match_feed L (sy_engine sy) ?s ?i (me_price ev) (me_qty ev) (me_transact_time ev) 0 sy = Some (sms, q', sy1)"
    "symbol_ok L binv {} sy1" "eng_frame sy sy1" "queue L sy1 ?o = es'" "queue L sy1 ?s = queue L sy ?s" "0 \<le> q'"
    "0 < q' \<longrightarrow> (\<forall>e\<in>set es'. \<not> crosses ?o (me_price ev) (en_price e))" "ob_orders sy1 = orders_after (ob_orders sy) (queue L sy ?o) es'"
    by (rule feed_match_ok [OF l3 ok e(1,8,2) spec]) blast
  obtain sy2 x1 where all: "foldl publishTradeSummary (sy1, x) sms = (sy2, x1)" by fastforce
  note al = publish_all_frame [OF all] and bh = but_historyD [OF conjunct1 [OF publish_all_frame [OF all]]]
  have hist1: "history_ok (sy_trade_history sy1)" using m(3) hist symbol_more [of sy1 sy] by (simp add: eng_frame_def)
  have ok2: "symbol_ok L binv {} sy2" using bh(1) m(2) by simp
  have nx: "ob_symbol sy2 = ob_symbol sy" "ob_next_order_id sy2 = ob_next_order_id sy" "ob_next_priority sy2 = ob_next_priority sy"
    using bh m(3) by (simp_all add: eng_frame_def)
  let ?sy3 = "snd (base_addOrder L ?i ?s (me_price ev) q' (me_transact_time ev) (me_book_priority ev) 0 True sy2)"
  have run: "restMarketOrder L ev (sy, x) = Some (if q' > 0 then (?sy3, x1) else (sy2, x1))"
    by (simp add: restMarketOrder_def m(1) all)
  show thesis
  proof (cases "0 < q'")
    case False
    then show thesis using that [OF run [simplified False if_False] ok2 _ conjunct1 [OF conjunct2 [OF conjunct2 [OF al]]] nx] al hist1 bh(3) m(5)
      by (simp add: left)
  next
    case True
    have o2: "ob_orders sy2 ?i = None" using e(7) by (simp add: bh m(8) orders_after_def restrict_map_def)
    have sub: "en_id ` set es' \<subseteq> en_id ` set (queue L sy ?o)"
      using places_ids [OF matching_engine.spec_places [OF engine_contract [OF l3 symbol_okD(6) [OF ok]] e(8) spec]] .
    have ids: "?i \<notin> en_id ` set (queue L sy2 BUY @ queue L sy2 SELL)"
      using subsetD [OF sub, of ?i] new e(1,9) m(4,5) by (cases ?s) (simp_all add: bh real_side_def image_Un, blast+)
    have free: "\<forall>y\<in>set (queue L sy2 ?o). \<not> isPriceBetterOrEqual ?s (me_price ev) (en_price y)"
      using True m(4,7) e(1,3) by (auto simp: bh crosses_def isPriceBetterOrEqual_def real_side_def)
    note r = phantom_rests [OF l3 ok2 e(1) True o2 ids e(6,4,5) [folded nx] e(3) free disjI1 [OF refl] refl,
        where t = "me_transact_time ev" and lb = True]
    have "ob_symbol ?sy3 = ob_symbol sy" "ob_next_order_id ?sy3 = ob_next_order_id sy" "ob_next_priority ?sy3 = ob_next_priority sy"
      using r(2) nx by (simp_all add: same_frame_def book_frame_def)
    moreover have "history_ok (sy_trade_history ?sy3)"
      using r(2) al hist1 book_more [of ?sy3 sy2] symbol_more [of ?sy3 sy2] by (simp add: same_frame_def book_frame_def)
    ultimately show thesis
      using that [of ?sy3 x1] run True r(1,4) al bh(3) m(5) by (simp add: left mirror_entry_def)
  qed
qed

section \<open>Venue order events\<close>

lemma remove_insert_entry: "en_id e \<notin> en_id ` set es \<Longrightarrow> remove_entry (en_id e) (insert_entry s e es) = es"
proof -
  assume "en_id e \<notin> en_id ` set es"
  then have "remove_entry (en_id e) es = es" by (rule remove_entry_absent)
  then show ?thesis
    by (simp add: insert_entry_def remove_entry_def) (metis filter_append takeWhile_dropWhile_id)
qed

lemma remove_resize_entry [simp]: "remove_entry i (resize_entry i q es) = remove_entry i es"
  by (induction es) auto

lemma resize_same: "distinct (map en_id es) \<Longrightarrow> e \<in> set es \<Longrightarrow> 0 < en_qty e \<Longrightarrow> resize_entry (en_id e) (en_qty e) es = es"
  by (auto simp: resize_entry_def distinct_map intro!: map_idI)
    (metis (full_types) entry.surjective entry.update_convs(3) inj_onD)

context l3_book
begin

text \<open>One phantom order set to any quantity, in place.\<close>

lemma phantom_set_ok:
  assumes inv: "obinv L binv P b" and s: "real_side s" and e: "e \<in> set (queue L b s)" and none: "ob_orders b (en_id e) = None"
    and q: "0 \<le> q"
  obtains b' where "base_modifyOrder L (en_id e) (en_price e) q t (en_prio e) 0 lb b = (True, b')" "obinv L binv P b'"
    "queue L b' s = resize_entry (en_id e) q (queue L b s)" "queue L b' (opposite_side s) = queue L b (opposite_side s)"
    "same_frame b b'" "ob_buffer b' = ob_buffer b"
proof (cases q "en_qty e" rule: linorder_cases)
  case less
  then show thesis using that phantom_reduce_ok [OF inv s e none q less disjI1 [OF refl]] by metis
next
  case equal
  have "resize_entry (en_id e) q (queue L b s) = queue L b s"
    using resize_same [OF queue_distinct(1) [OF inv s] e queue_pos [OF inv s e]] by (simp add: equal)
  moreover have "l3_step L binv (ob_l3 b) 0 s (queue L b s) [] (l3_modify L (ob_l3 b) (en_id e) (en_price e) (en_qty e) t (en_prio e) 0 lb)"
    using modify_noop [OF obinv_binv [OF inv] s, of 0 e t lb] e by (simp add: queue_def)
  ultimately show thesis using that sim_noop [OF inv s] by (metis base_modifyOrder_def equal)
next
  case greater
  then have "0 < q" "q \<noteq> en_qty e" using queue_pos [OF inv s e] by simp_all
  then show thesis using that by (rule phantom_resize_ok [OF inv s e _ _ none disjI1 [OF refl]])
qed

lemma find_queue:
  assumes "obinv L binv P b" and "real_side s" and "i \<notin> en_id ` set (queue L b (opposite_side s))"
  shows "l3_find L (ob_l3 b) i = map_option order_of (find (\<lambda>e. en_id e = i) (queue L b s))"
proof -
  have none: "find (\<lambda>e. en_id e = i) (queue L b (opposite_side s)) = None" using assms(3) by (simp only: find_id_none not_False_eq_True)
  show ?thesis
    using find_law [OF obinv_binv [OF assms(1)], of i] assms(2) none
    by (cases s) (simp_all add: queue_def real_side_def find_append_option split: option.splits)
qed

end

lemma place_resize: "place ` set (resize_entry i q es) \<subseteq> place ` set es"
  by (auto simp: resize_entry_def set_remove_entry)

lemma place_remove: "place ` set (remove_entry i es) \<subseteq> place ` set es"
  by (auto simp: set_remove_entry)

lemma mirror_delete_ok:
  fixes st :: "('l, 'z) instrument"
  assumes l3: "l3_book L binv" and ok: "symbol_ok L binv {} st" and ev: "mirror_event L ev st"
    and st': "st' = snd (base_deleteOrder L (me_book_order_id ev) t 0 lb st)"
  shows "symbol_ok L binv {} st'" "same_frame st st'" "queue L st' (me_side ev) = remove_entry (me_book_order_id ev) (queue L st (me_side ev))"
    "queue L st' (opposite_side (me_side ev)) = queue L st (opposite_side (me_side ev))"
proof -
  let ?s = "me_side ev" and ?i = "me_book_order_id ev"
  note k = symbol_okD [OF ok]
  have s: "real_side ?s" and none: "ob_orders st ?i = None" and opp: "?i \<notin> en_id ` set (queue L st (opposite_side ?s))"
    using ev by (simp_all add: mirror_event_def)
  have r: "obinv L binv {} st' \<and> same_frame st st' \<and> queue L st' ?s = remove_entry ?i (queue L st ?s) \<and>
      queue L st' (opposite_side ?s) = queue L st (opposite_side ?s)"
  proof (cases "?i \<in> en_id ` set (queue L st ?s)")
    case True
    then obtain e where e: "e \<in> set (queue L st ?s)" "en_id e = ?i" by auto
    from none have "ob_orders st (en_id e) = None" by (simp add: e(2))
    then show ?thesis
      by (rule l3_book.phantom_delete_ok [OF l3 k(1) s e(1) _ disjI1 [OF refl], where t = t and lb = lb]) (simp add: st' e(2))
  next
    case False
    then have "?i \<notin> en_id ` set (flat (l3_levels L (ob_l3 st) BUY) @ flat (l3_levels L (ob_l3 st) SELL))"
      using opp s by (cases ?s) (auto simp: queue_def real_side_def)
    then have "st' = st" using l3_book.delete_absent [OF l3 obinv_binv [OF k(1)]] by (simp add: st' base_deleteOrder_def l3_apply_def)
    then show ?thesis using k(1) False by (simp add: remove_entry_absent)
  qed
  then show "same_frame st st'" "queue L st' ?s = remove_entry ?i (queue L st ?s)"
    "queue L st' (opposite_side ?s) = queue L st (opposite_side ?s)" by simp_all
  show "symbol_ok L binv {} st'"
  proof (rule symbol_ok_step [OF ok])
    show "place ` set (queue L st' s') \<subseteq> place ` set (queue L st s')" if "real_side s'" for s'
      using real_side_cases [OF s that] r by (elim disjE) (simp_all add: place_remove)
  qed (use r in simp_all)
qed

lemma mirror_set_ok:
  fixes st :: "('l, 'z) instrument"
  assumes l3: "l3_book L binv" and ok: "symbol_ok L binv {} st" and ev: "mirror_event L ev st"
    and e: "e \<in> set (queue L st (me_side ev))" "en_id e = me_book_order_id ev" "en_price e = me_price ev"
    and st': "st' = snd (base_modifyOrder L (me_book_order_id ev) (me_price ev) (me_qty ev) t (en_prio e) 0 lb st)"
  shows "symbol_ok L binv {} st'" "same_frame st st'" "queue L st' (me_side ev) = resize_entry (me_book_order_id ev) (me_qty ev) (queue L st (me_side ev))"
proof -
  let ?s = "me_side ev" and ?i = "me_book_order_id ev"
  note k = symbol_okD [OF ok]
  have s: "real_side ?s" and none: "ob_orders st (en_id e) = None" and q: "0 \<le> me_qty ev"
    using ev e(2) by (simp_all add: mirror_event_def)
  have r: "obinv L binv {} st' \<and> same_frame st st' \<and> queue L st' ?s = resize_entry ?i (me_qty ev) (queue L st ?s) \<and>
      queue L st' (opposite_side ?s) = queue L st (opposite_side ?s)"
    by (rule l3_book.phantom_set_ok [OF l3 k(1) s e(1) none q, where t = t and lb = lb]) (simp add: st' e(2,3))
  then show "same_frame st st'" "queue L st' ?s = resize_entry ?i (me_qty ev) (queue L st ?s)" by simp_all
  show "symbol_ok L binv {} st'"
  proof (rule symbol_ok_step [OF ok])
    show "place ` set (queue L st' s') \<subseteq> place ` set (queue L st s')" if "real_side s'" for s'
      using real_side_cases [OF s that] r by (elim disjE) (simp_all add: place_resize)
  qed (use r in simp_all)
qed

text \<open>The quantity an event leaves resting under its id.\<close>

definition mirror_rest :: "'l l3_ops \<Rightarrow> MarketOrderEvent \<Rightarrow> ('l, 'z) instrument \<Rightarrow> qty_t" where
  "mirror_rest L ev st = (case me_action ev of
      ACTION_DELETE \<Rightarrow> 0
    | ACTION_NEW \<Rightarrow> feed_leftover L ev st
    | ACTION_CHANGE \<Rightarrow>
        (if me_book_order_id ev \<in> en_id ` set (queue L st (me_side ev)) \<and> \<not> me_requeue ev then me_qty ev else feed_leftover L ev st))"

definition mirrored :: "'l l3_ops \<Rightarrow> MarketOrderEvent \<Rightarrow> ('l, 'z) instrument \<Rightarrow> ('l, 'z) instrument \<Rightarrow> bool" where
  "mirrored L ev st st' \<longleftrightarrow>
     remove_entry (me_book_order_id ev) (queue L st' (me_side ev)) = remove_entry (me_book_order_id ev) (queue L st (me_side ev)) \<and>
     (\<forall>e\<in>set (queue L st' (me_side ev)). en_id e = me_book_order_id ev \<longrightarrow>
        0 < mirror_rest L ev st \<and> en_price e = me_price ev \<and> en_qty e = mirror_rest L ev st) \<and>
     (0 < mirror_rest L ev st \<longrightarrow> me_book_order_id ev \<in> en_id ` set (queue L st' (me_side ev)))"

lemma mirrored_remove:
  assumes "queue L st' (me_side ev) = remove_entry (me_book_order_id ev) (queue L st (me_side ev))" and "mirror_rest L ev st \<le> 0"
  shows "mirrored L ev st st'"
  using assms by (auto simp: mirrored_def set_remove_entry remove_entry_def)

lemma mirrored_rested:
  assumes "queue L st' (me_side ev) = (if 0 < mirror_rest L ev st
      then insert_entry (me_side ev) (mirror_entry ev (mirror_rest L ev st)) (remove_entry (me_book_order_id ev) (queue L st (me_side ev)))
      else remove_entry (me_book_order_id ev) (queue L st (me_side ev)))"
  shows "mirrored L ev st st'"
proof (cases "0 < mirror_rest L ev st")
  case True
  have "me_book_order_id ev \<notin> en_id ` set (remove_entry (me_book_order_id ev) (queue L st (me_side ev)))" by (auto simp: set_remove_entry)
  then show ?thesis
    using assms True remove_insert_entry [of "mirror_entry ev (mirror_rest L ev st)"]
    by (auto simp: mirrored_def mirror_entry_def set_remove_entry)
next
  case False
  then show ?thesis using assms by (intro mirrored_remove) simp_all
qed

lemma mirrored_resized:
  assumes "queue L st' (me_side ev) = resize_entry (me_book_order_id ev) (me_qty ev) (queue L st (me_side ev))"
    and "mirror_event L ev st" and "me_action ev = ACTION_CHANGE" and "\<not> me_requeue ev"
    and "me_book_order_id ev \<in> en_id ` set (queue L st (me_side ev))"
  shows "mirrored L ev st st'"
proof -
  let ?i = "me_book_order_id ev" and ?q = "me_qty ev" and ?es = "queue L st (me_side ev)"
  have q: "mirror_rest L ev st = ?q" using assms(3-5) by (simp add: mirror_rest_def)
  have px: "\<forall>e\<in>set ?es. en_id e = ?i \<longrightarrow> en_price e = me_price ev" using assms(2,4) by (simp add: mirror_event_def)
  show ?thesis
  proof (cases "0 < ?q")
    case False
    then show ?thesis using assms(1) q by (intro mirrored_remove) (simp_all add: resize_entry_def)
  next
    case True
    then have "\<forall>e\<in>set (resize_entry ?i ?q ?es). en_id e = ?i \<longrightarrow> en_price e = me_price ev \<and> en_qty e = ?q"
      using px by (simp add: resize_entry_def ball_Un)
    moreover have "?i \<in> en_id ` set (resize_entry ?i ?q ?es)" using map_id_resize [OF True, of ?i ?es] assms(5) by (metis list.set_map)
    ultimately show ?thesis using True unfolding mirrored_def q assms(1) remove_resize_entry by blast
  qed
qed

text \<open>Whatever a market event does, the instrument may go back to its exchange.\<close>

definition market_done :: "'l l3_ops \<Rightarrow> ('l \<Rightarrow> bool) \<Rightarrow> 'l Symbol \<times> 'l Exchange \<Rightarrow> 'l Symbol \<times> 'l Exchange \<Rightarrow> bool" where
  "market_done L binv v v' \<longleftrightarrow> (case (v, v') of ((sy, x), (sy', x')) \<Rightarrow>
     symbol_ok L binv {} sy' \<and> history_ok (sy_trade_history sy') \<and> x_frame x x' \<and> ob_symbol sy' = ob_symbol sy \<and>
     ob_next_order_id sy \<le> ob_next_order_id sy' \<and> ob_next_priority sy \<le> ob_next_priority sy')"

lemma market_done_step:
  assumes "symbol_ok L binv {} sy1" and "same_frame sy sy1" and "history_ok (sy_trade_history sy)"
  shows "market_done L binv (sy, x) (sy1, x)"
  using assms book_more [of sy1 sy] symbol_more [of sy1 sy] by (simp add: market_done_def same_frame_def book_frame_def)

lemma rest_done:
  fixes sy :: "'l Symbol"
  assumes l3: "l3_book L binv" and ok: "symbol_ok L binv {} sy" and hist: "history_ok (sy_trade_history sy)"
    and ev: "mirror_event L ev sy" "me_action ev \<noteq> ACTION_DELETE" and new: "me_book_order_id ev \<notin> en_id ` set (queue L sy (me_side ev))"
    and rest: "mirror_rest L ev sy = feed_leftover L ev sy"
  obtains v' where "restMarketOrder L ev (sy, x) = Some v'" "market_done L binv (sy, x) v'" "mirrored L ev sy (fst v')"
proof -
  obtain sy' x' where r: "restMarketOrder L ev (sy, x) = Some (sy', x')" "symbol_ok L binv {} sy'" "history_ok (sy_trade_history sy')"
    "x_frame x x'" "ob_symbol sy' = ob_symbol sy" "ob_next_order_id sy' = ob_next_order_id sy" "ob_next_priority sy' = ob_next_priority sy"
    "queue L sy' (me_side ev) = (if 0 < feed_leftover L ev sy
       then insert_entry (me_side ev) (mirror_entry ev (feed_leftover L ev sy)) (queue L sy (me_side ev)) else queue L sy (me_side ev))"
    by (rule rest_market_ok [OF l3 ok hist ev new])
  have "mirrored L ev sy sy'" using r(8) new by (intro mirrored_rested) (simp add: rest remove_entry_absent)
  then show thesis using that [OF r(1)] r(2-7) by (simp add: market_done_def)
qed

text \<open>An order taken out and rested again: the event still holds of the book without it.\<close>

lemma mirror_requeued:
  fixes sy sy1 :: "'l Symbol"
  assumes ev: "mirror_event L ev sy" "me_action ev = ACTION_CHANGE" "me_requeue ev"
    and sf: "same_frame sy sy1" and q: "queue L sy1 (me_side ev) = remove_entry (me_book_order_id ev) (queue L sy (me_side ev))"
      "queue L sy1 (opposite_side (me_side ev)) = queue L sy (opposite_side (me_side ev))"
  shows "mirror_event L ev sy1" "me_book_order_id ev \<notin> en_id ` set (queue L sy1 (me_side ev))"
    "feed_leftover L ev sy1 = feed_leftover L ev sy" "mirror_rest L ev sy1 = mirror_rest L ev sy"
    "mirrored L ev sy1 sy2 \<longleftrightarrow> mirrored L ev sy sy2"
proof -
  have "sy_engine sy1 = sy_engine sy"
    using sf book_more [of sy1 sy] symbol_more [of sy1 sy] by (simp add: same_frame_def book_frame_def)
  then show fl: "feed_leftover L ev sy1 = feed_leftover L ev sy" by (simp add: feed_leftover_def q)
  then show mr: "mirror_rest L ev sy1 = mirror_rest L ev sy" using ev(2,3) by (simp add: mirror_rest_def)
  show "me_book_order_id ev \<notin> en_id ` set (queue L sy1 (me_side ev))" by (auto simp: q(1) set_remove_entry)
  show "mirror_event L ev sy1" using ev sf by (simp add: mirror_event_def q same_frame_def book_frame_def)
  have "remove_entry i (remove_entry i es) = remove_entry i es" for i es by (simp add: remove_entry_def)
  then show "mirrored L ev sy1 sy2 \<longleftrightarrow> mirrored L ev sy sy2" by (simp add: mirrored_def mr q)
qed

lemma market_event_ok:
  fixes sy :: "'l Symbol"
  assumes l3: "l3_book L binv" and ok: "symbol_ok L binv {} sy" and hist: "history_ok (sy_trade_history sy)" and ev: "mirror_event L ev sy"
  obtains v' where "applyMarketOrder L ev (sy, x) = Some (fst v', markMarketChanged (ob_symbol (fst v')) (snd v'))"
    "market_done L binv (sy, x) v'" "mirrored L ev sy (fst v')"
proof -
  let ?s = "me_side ev" and ?i = "me_book_order_id ev" and ?t = "me_transact_time ev"
  let ?del = "snd (base_deleteOrder L ?i ?t 0 True sy)"
  note del = mirror_delete_ok [OF l3 ok ev refl, where t = ?t and lb = True]
  have s: "real_side ?s" and opp: "?i \<notin> en_id ` set (queue L sy (opposite_side ?s))" using ev by (simp_all add: mirror_event_def)
  note find = l3_book.find_queue [OF l3 symbol_okD(1) [OF ok] s opp]
  show thesis
  proof (cases "me_action ev")
    case ACTION_NEW
    then have new: "?i \<notin> en_id ` set (queue L sy ?s)" "me_action ev \<noteq> ACTION_DELETE" "mirror_rest L ev sy = feed_leftover L ev sy"
      using ev by (auto simp: mirror_event_def mirror_rest_def)
    show thesis
      by (rule rest_done [OF l3 ok hist ev new(2,1,3), of x]) (use that ACTION_NEW in \<open>simp add: applyMarketOrder_def split_beta\<close>)
  next
    case ACTION_DELETE
    have "market_done L binv (sy, x) (?del, x)" by (rule market_done_step [OF del(1,2) hist])
    moreover have "mirrored L ev sy ?del" using mirrored_remove [OF del(3)] ACTION_DELETE by (simp add: mirror_rest_def)
    ultimately show thesis using that [of "(?del, x)"] ACTION_DELETE by (simp add: applyMarketOrder_def)
  next
    case ACTION_CHANGE
    then have nd: "me_action ev \<noteq> ACTION_DELETE" by simp
    show thesis
    proof (cases "find (\<lambda>e. en_id e = ?i) (queue L sy ?s)")
      case None
      then have new: "?i \<notin> en_id ` set (queue L sy ?s)" by (simp add: find_id_none [symmetric])
      then have rest: "mirror_rest L ev sy = feed_leftover L ev sy" by (simp add: mirror_rest_def ACTION_CHANGE)
      show thesis
        by (rule rest_done [OF l3 ok hist ev nd new rest, of x])
          (use that in \<open>simp add: applyMarketOrder_def ACTION_CHANGE find None split_beta\<close>)
    next
      case (Some e)
      then have e: "e \<in> set (queue L sy ?s)" "en_id e = ?i" by (auto simp: find_Some_iff)
      then have mem: "?i \<in> en_id ` set (queue L sy ?s)" by force
      show thesis
      proof (cases "me_requeue ev")
        case False
        let ?set = "snd (base_modifyOrder L ?i (me_price ev) (me_qty ev) ?t (en_prio e) 0 True sy)"
        have "en_price e = me_price ev" using ev e False by (simp add: mirror_event_def)
        note st = mirror_set_ok [OF l3 ok ev e this refl, where t = ?t and lb = True]
        have "market_done L binv (sy, x) (?set, x)" by (rule market_done_step [OF st(1,2) hist])
        moreover have "mirrored L ev sy ?set" by (rule mirrored_resized [OF st(3) ev ACTION_CHANGE False mem])
        ultimately show thesis using that [of "(?set, x)"] False by (simp add: applyMarketOrder_def ACTION_CHANGE find Some)
      next
        case True
        note rq = mirror_requeued [OF ev ACTION_CHANGE True del(2-4)]
        have h: "history_ok (sy_trade_history ?del)"
          using del(2) hist book_more [of ?del sy] symbol_more [of ?del sy] by (simp add: same_frame_def book_frame_def)
        have "mirror_rest L ev ?del = feed_leftover L ev ?del" using ACTION_CHANGE True by (simp add: mirror_rest_def)
        from rest_done [OF l3 del(1) h rq(1) nd rq(2) this, of x]
        obtain v' where v': "restMarketOrder L ev (?del, x) = Some v'" "market_done L binv (?del, x) v'" "mirrored L ev ?del (fst v')" by blast
        have "market_done L binv (sy, x) v'"
          using v'(2) del(2) by (auto simp: market_done_def same_frame_def book_frame_def split: prod.splits)
        then show thesis using that [of v'] v'(1,3) True rq(5) by (simp add: applyMarketOrder_def ACTION_CHANGE find Some split_beta)
      qed
    qed
  qed
qed

section \<open>Replaying a venue trade\<close>

definition replayable :: "'l l3_ops \<Rightarrow> MarketTradeEvent \<Rightarrow> ('l, 'z) instrument \<Rightarrow> bool" where
  "replayable L ev st \<longleftrightarrow>
     real_side (mte_aggressor ev) \<and> 0 \<le> mte_qty ev \<and> fits (queue L st (opposite_side (mte_aggressor ev)))"

lemma next_id_ok: "symbol_ok L binv X st \<Longrightarrow> symbol_ok L binv X (st\<lparr>ob_next_order_id := ob_next_order_id st + 1\<rparr>)"
proof -
  let ?st = "st\<lparr>ob_next_order_id := ob_next_order_id st + 1\<rparr>"
  have "obinv L binv {} ?st = obinv L binv {} st" by (rule obinv_cong) simp_all
  then show "symbol_ok L binv X st \<Longrightarrow> symbol_ok L binv X ?st"
    by (auto simp: symbol_ok_def pool_exact_def drawn_def uncrossed_def queue_def less_Suc_eq)
qed

lemma replay_ok:
  fixes sy :: "'l Symbol"
  assumes l3: "l3_book L binv" and ok: "symbol_ok L binv {} sy" and hist: "history_ok (sy_trade_history sy)" and ev: "replayable L ev sy"
    and spec: "engine_spec (sy_engine sy) (crosses (opposite_side (mte_aggressor ev)) (mte_price ev)) (\<lambda>_. False) (mte_qty ev)
      (queue L sy (opposite_side (mte_aggressor ev))) = (fs, cs, es', q')"
  obtains v' where "replayMarketTrade L ev (sy, x) = Some (fst v', markMarketChanged (ob_symbol (fst v')) (snd v'))"
    "market_done L binv (sy, x) v'" "queue L (fst v') (opposite_side (mte_aggressor ev)) = es'"
    "queue L (fst v') (mte_aggressor ev) = queue L sy (mte_aggressor ev)" "mte_qty ev = filled_qty fs + q'"
proof -
  let ?s = "mte_aggressor ev"
  define sy1 where "sy1 = sy\<lparr>ob_next_order_id := ob_next_order_id sy + 1\<rparr>"
  have q1: "queue L sy1 s = queue L sy s" for s by (simp add: sy1_def queue_def)
  have ok1: "symbol_ok L binv {} sy1" unfolding sy1_def by (rule next_id_ok [OF ok])
  have e: "real_side ?s" "0 \<le> mte_qty ev" "fits (queue L sy1 (opposite_side ?s))" using ev by (simp_all add: replayable_def q1)
  have sp: "engine_spec (sy_engine sy1) (crosses (opposite_side ?s) (mte_price ev)) (\<lambda>_. False) (mte_qty ev) (queue L sy1 (opposite_side ?s)) =
      (fs, cs, es', q')" unfolding q1 using spec by (simp add: sy1_def)
  obtain sms sy2 where m: "engine_match_feed L (sy_engine sy1) ?s (ob_next_order_id sy) (mte_price ev) (mte_qty ev) (mte_transact_time ev) 0 sy1 =
      Some (sms, q', sy2)" "symbol_ok L binv {} sy2" "eng_frame sy1 sy2" "queue L sy2 (opposite_side ?s) = es'"
    "queue L sy2 ?s = queue L sy1 ?s" "mte_qty ev = filled_qty fs + q'"
    by (rule feed_match_ok [OF l3 ok1 e(1,3,2) sp]) blast
  obtain sy3 x1 where all: "foldl publishTradeSummary (sy2, x) sms = (sy3, x1)" by fastforce
  note al = publish_all_frame [OF all] and bh = but_historyD [OF conjunct1 [OF publish_all_frame [OF all]]]
  have "history_ok (sy_trade_history sy2)" using m(3) hist symbol_more [of sy2 sy1] by (simp add: eng_frame_def sy1_def)
  then have "market_done L binv (sy, x) (sy3, x1)"
    using al bh m(2,3) by (simp add: market_done_def eng_frame_def) (simp add: sy1_def)
  moreover have "replayMarketTrade L ev (sy, x) = Some (sy3, markMarketChanged (ob_symbol sy3) x1)"
    by (simp only: replayMarketTrade_def nextOrderId_def Let_def prod.case sy1_def [symmetric] m(1) option.case all)
  ultimately show thesis using that [of "(sy3, x1)"] m(4-6) bh(3) q1 by simp
qed

end
