(* ===== verification/Exchange_Steps.thy ===== *)
theory Exchange_Steps
  imports Feed_Mirror
begin

text \<open>
  The exchange thread as a step relation: it takes one request from its queue, or one event from
  a venue feed, or flushes, or lists an instrument. Every reachable exchange is in good order, and
  no admissible request is left without an answer.
\<close>

section \<open>Steps\<close>

text \<open>What a request needs of its environment when its instrument is listed.\<close>

definition request_ok :: "'l l3_ops \<Rightarrow> request_env \<Rightarrow> Request \<Rightarrow> 'l Exchange \<Rightarrow> bool" where
  "request_ok L env request x \<longleftrightarrow> (\<forall>sy. getSymbol (req_symbol request) x = Some sy \<longrightarrow>
     (case body request of
        NEW_ORDER_SINGLE msg \<Rightarrow> admissible L env msg sy
      | ORDER_REPLACE_REQUEST msg \<Rightarrow> mo_new_price msg \<noteq> NULL_PRICE \<and>
          (\<forall>p. lookup_order (mo_client_order_id msg) (mo_order_id msg) sy = Some p \<longrightarrow>
             fits (queue L sy (opposite_side (side (ob_buffer sy p)))))
      | _ \<Rightarrow> True))"

text \<open>A venue's level updates of one message, applied in turn.\<close>

fun reconcile_all :: "'l l3_ops \<Rightarrow> Side \<Rightarrow> time_ns \<Rightarrow> (price_t \<times> qty_t) list \<Rightarrow> ('l, 'z) instrument \<Rightarrow> ('l, 'z) instrument" where
  "reconcile_all L s t [] st = st"
| "reconcile_all L s t ((px, q) # us) st = reconcile_all L s t us (reconcilePhantomQty L s px q t 0 (us = []) st)"

text \<open>An instrument over a fresh book, not bound to an engine yet.\<close>

definition unbound :: "'l \<Rightarrow> string \<Rightarrow> nat \<Rightarrow> MDTrade \<Rightarrow> 'l Exchange \<Rightarrow> 'l Symbol" where
  "unbound e0 n i d x = new_symbol (new_engine (new_book e0 n (x_venue x))) i FifoMatchingEngine SMP_NONE d"

inductive xstep :: "'l l3_ops \<Rightarrow> 'l \<Rightarrow> 'l Exchange \<Rightarrow> 'l Exchange \<Rightarrow> bool" for L :: "'l l3_ops" and e0 :: 'l where
  Request: "request_ok L env request x \<Longrightarrow> processRequest L env (Some request) x = Some x' \<Longrightarrow> xstep L e0 x x'"
| LevelUpdate: "getSymbol n x = Some sy \<Longrightarrow> real_side s \<Longrightarrow> \<forall>u\<in>set us. 0 \<le> snd u \<Longrightarrow>
    xstep L e0 x (leave n (flushMarketDataCaches (reconcile_all L s t us sy, x)))"
| MarketOrder: "getSymbol n x = Some sy \<Longrightarrow> mirror_event L ev sy \<Longrightarrow> applyMarketOrder L ev (sy, x) = Some v \<Longrightarrow>
    xstep L e0 x (leave n v)"
| MarketTrade: "getSymbol n x = Some sy \<Longrightarrow> replayable L tr sy \<Longrightarrow> replayMarketTrade L tr (sy, x) = Some v \<Longrightarrow>
    xstep L e0 x (leave n v)"
| Flush: "xstep L e0 x (flushMarketEvents x)"
| Listing: "x_symbols x n = None \<Longrightarrow> assignMatching (unbound e0 n i d x) x = Inr (sy, x') \<Longrightarrow>
    xstep L e0 x (x'\<lparr>x_symbols := (x_symbols x')(n \<mapsto> sy)\<rparr>)"

inductive_cases xstepE: "xstep L e0 x x'"

section \<open>Each step\<close>

lemma getSymbol_frame: "x_frame x x' \<Longrightarrow> x_symbols x' = x_symbols x \<and> x_market_changed x' = x_market_changed x"
  by (simp add: x_frame_def)

lemma others_kept:
  assumes "x_symbols x' = (x_symbols x)(n \<mapsto> sy')"
  shows "\<forall>m. m \<noteq> n \<longrightarrow> x_symbols x' m = x_symbols x m"
  using assms by simp

text \<open>
  A request: whatever the branch, it returns, in good order, and only its instrument changes; except that a
  build with assertions does not survive the cancel of a partly filled order.
\<close>

lemma request_done:
  assumes l3: "l3_book L binv" and ok: "exchange_ok L binv x" and req: "request_ok L env request x"
    and whole: "env_asserts env \<longrightarrow> cancel_unfilled request x"
  obtains x' where "processRequest L env (Some request) x = Some x'" "exchange_ok L binv x'"
    "\<forall>m. m \<noteq> req_symbol request \<longrightarrow> x_symbols x' m = x_symbols x m"
proof (cases "getSymbol (req_symbol request) x")
  case None
  have pub: "x_symbols (x_publish f x) = x_symbols x" for f by (simp add: x_publish_def)
  show thesis
    by (cases "body request") (use that ok pub x_publish_ok [OF ok] None in
      \<open>auto simp: processRequest_def handleNewOrderRequest_def handleModifyOrderRequest_def handleCancelOrderRequest_def\<close>)
next
  case (Some sy)
  have pub: "x_symbols (x_publish f x) = x_symbols x" for f by (simp add: x_publish_def)
  show thesis
  proof (cases "body request")
    case (NEW_ORDER_SINGLE msg)
    show thesis
    proof (cases "ao_client_order_id msg \<noteq> [] \<and> findOrderByClientOrderId (ao_client_order_id msg) sy \<noteq> None")
      case True
      then show thesis using that x_publish_ok [OF ok] pub Some NEW_ORDER_SINGLE
        by (auto simp: processRequest_def handleNewOrderRequest_def)
    next
      case False
      then have coid: "ao_client_order_id msg = [] \<or> findOrderByClientOrderId (ao_client_order_id msg) sy = None" by blast
      have adm: "admissible L env msg sy" using req Some NEW_ORDER_SINGLE by (simp add: request_ok_def)
      show thesis
        by (rule handleNew_ok [OF l3 ok Some adm coid]) (use that NEW_ORDER_SINGLE in \<open>auto simp: processRequest_def\<close>)
    qed
  next
    case (ORDER_REPLACE_REQUEST msg)
    show thesis
    proof (cases "lookup_order (mo_client_order_id msg) (mo_order_id msg) sy")
      case None
      then show thesis using that x_publish_ok [OF ok] pub Some ORDER_REPLACE_REQUEST
        by (auto simp: processRequest_def handleModifyOrderRequest_def)
    next
      case p: (Some p)
      have px: "mo_new_price msg \<noteq> NULL_PRICE" and fit: "fits (queue L sy (opposite_side (side (ob_buffer sy p))))"
        using req Some p ORDER_REPLACE_REQUEST by (simp_all add: request_ok_def)
      show thesis
        by (rule handleModify_ok [OF l3 ok Some p px fit, where env = env]) (use that ORDER_REPLACE_REQUEST in \<open>auto simp: processRequest_def\<close>)
    qed
  next
    case (ORDER_CANCEL_REQUEST msg)
    show thesis
    proof (cases "lookup_order (co_client_order_id msg) (co_order_id msg) sy")
      case None
      then show thesis using that x_publish_ok [OF ok] pub Some ORDER_CANCEL_REQUEST
        by (auto simp: processRequest_def handleCancelOrderRequest_def)
    next
      case p: (Some p)
      have w: "env_asserts env \<longrightarrow> leaves_quantity (ob_buffer sy p) = quantity (ob_buffer sy p)"
        using whole Some p ORDER_CANCEL_REQUEST by (simp add: cancel_unfilled_def)
      show thesis
        by (rule handleCancel_ok [OF l3 ok Some p refl w]) (use that ORDER_CANCEL_REQUEST in \<open>auto simp: processRequest_def\<close>)
    qed
  qed (use that ok in \<open>auto simp: processRequest_def\<close>)
qed

text \<open>A message of level updates.\<close>

lemma reconcile_step:
  fixes st :: "('l, 'z) instrument"
  assumes l3: "l3_book L binv" and ok: "symbol_ok L binv {} st" and s: "real_side s" and q: "0 \<le> q"
    and st': "st' = reconcilePhantomQty L s px q t 0 ee st"
  shows "symbol_ok L binv {} st'"
proof (cases "l3_level_at L (ob_l3 st) s px")
  case None
  then show ?thesis using ok by (simp add: st' reconcilePhantomQty_def)
next
  case (Some lk)
  then obtain level k where "l3_level_at L (ob_l3 st) s px = Some (level, k)" by (cases lk) auto
  from reconcile_ok(1) [OF l3 ok s q this _ st'] show ?thesis by simp
qed

text \<open>What reconciling never touches: the tape, the name, and no number goes back.\<close>

definition feed_frame :: "'l Symbol \<Rightarrow> 'l Symbol \<Rightarrow> bool" where
  "feed_frame sy sy' \<longleftrightarrow> ob_symbol sy' = ob_symbol sy \<and> sy_trade_history sy' = sy_trade_history sy \<and>
     ob_next_order_id sy \<le> ob_next_order_id sy' \<and> ob_next_priority sy \<le> ob_next_priority sy'"

lemma feed_frame_refl [simp]: "feed_frame sy sy"
  by (simp add: feed_frame_def)

lemma feed_frame_trans: "feed_frame a b \<Longrightarrow> feed_frame b c \<Longrightarrow> feed_frame a c"
  by (simp add: feed_frame_def)

lemma feed_frame_same: "same_frame sy sy' \<Longrightarrow> feed_frame sy sy'"
  using book_more [of sy' sy] symbol_more [of sy' sy] by (simp add: feed_frame_def same_frame_def book_frame_def)

lemma same_frame_apply: "same_frame b (snd (l3_apply r b))"
  by (cases r) (metis l3_apply_frame prod.collapse)

lemma feed_frame_reductions: "feed_frame sy (apply_reductions L px t seq ee rs sy)"
proof (induction rs arbitrary: sy)
  case (Cons r rs)
  have "feed_frame sy (snd (base_modifyOrder L (pr_order_id r) px (pr_new_qty r) t (pr_priority r) seq (ee \<and> rs = []) sy))"
    unfolding base_modifyOrder_def by (intro feed_frame_same same_frame_apply)
  then show ?case using Cons.IH feed_frame_trans by fastforce
qed simp

lemma feed_frame_reconcile: "feed_frame sy (reconcilePhantomQty L s px q t seq ee sy)"
proof (cases "l3_level_at L (ob_l3 sy) s px")
  case (Some lk)
  obtain u sy1 where take: "takeTradedQty s px t sy = (u, sy1)" by fastforce
  obtain c where c: "sy1 = sy\<lparr>sy_credit := c\<rparr>" by (rule take_frame [OF take])
  have f1: "feed_frame sy sy1" by (simp add: c feed_frame_def)
  have "feed_frame sy1 (draw sy1)" by (simp add: feed_frame_def)
  moreover have "addBookOrder L (fst (nextOrderId sy1)) s px a t seq ee (snd (nextOrderId sy1)) =
      snd (base_addOrder L (ob_next_order_id sy1) s px a t (ob_next_priority sy1 + 1) seq ee (draw sy1))" for a
    by (simp add: addBookOrder_def nextOrderId_def nextOrderPriority_def draw_def)
  ultimately have "feed_frame sy1 (addBookOrder L (fst (nextOrderId sy1)) s px a t seq ee (snd (nextOrderId sy1)))" for a
    unfolding base_addOrder_def using feed_frame_trans feed_frame_same [OF same_frame_apply] by metis
  then have add: "feed_frame sy (addBookOrder L (fst (nextOrderId sy1)) s px a t seq ee (snd (nextOrderId sy1)))" for a
    using feed_frame_trans [OF f1] by blast
  have red: "feed_frame sy (apply_reductions L px t seq ee rs sy1)" for rs using feed_frame_trans [OF f1 feed_frame_reductions] .
  show ?thesis using f1 add red Some take by (simp add: reconcilePhantomQty_def split_beta Let_def)
qed (simp add: reconcilePhantomQty_def)

lemma reconcile_all_ok:
  fixes sy :: "'l Symbol"
  assumes l3: "l3_book L binv" and s: "real_side s"
  shows "symbol_ok L binv {} sy \<Longrightarrow> \<forall>u\<in>set us. 0 \<le> snd u \<Longrightarrow> symbol_ok L binv {} (reconcile_all L s t us sy) \<and> feed_frame sy (reconcile_all L s t us sy)"
proof (induction us arbitrary: sy)
  case (Cons u us)
  obtain px q where u: "u = (px, q)" by (cases u) auto
  let ?sy = "reconcilePhantomQty L s px q t 0 (us = []) sy"
  have "symbol_ok L binv {} ?sy" using reconcile_step [OF l3 Cons.prems(1) s _ refl] Cons.prems(2) u by simp
  then have "symbol_ok L binv {} (reconcile_all L s t us ?sy)" "feed_frame ?sy (reconcile_all L s t us ?sy)"
    using Cons.IH [of ?sy] Cons.prems(2) by simp_all
  then show ?case using feed_frame_trans [OF feed_frame_reconcile] u by auto
qed simp

lemma level_step_ok:
  assumes l3: "l3_book L binv" and ok: "exchange_ok L binv x" and get: "getSymbol n x = Some sy" and s: "real_side s"
    and us: "\<forall>u\<in>set us. 0 \<le> snd u"
  shows "exchange_ok L binv (leave n (flushMarketDataCaches (reconcile_all L s t us sy, x)))"
proof -
  note g = getSymbol_ok [OF ok get]
  let ?sy = "reconcile_all L s t us sy"
  have r: "symbol_ok L binv {} ?sy" "feed_frame sy ?sy" using reconcile_all_ok [OF l3 s g(1) us] by simp_all
  have tab: "tables_ok x" using ok by (simp add: exchange_ok_def)
  show ?thesis
    using finish_ok(1) [OF ok r(1) _ _ _ _ refl tab refl, where n = n and sms = "[]" and ?sy2.0 = ?sy and ?x2.0 = x and ?sy3.0 = ?sy] r(2) g by (simp add: feed_frame_def)
qed

text \<open>A market event: its instrument is marked, so its cached updates are not forgotten.\<close>

lemma markMarketChanged_sel [simp]:
  "x_symbols (markMarketChanged n x) = x_symbols x" "tables_ok (markMarketChanged n x) = tables_ok x"
  "set (x_market_changed (markMarketChanged n x)) = insert n (set (x_market_changed x))"
  by (auto simp: markMarketChanged_def tables_ok_def clients_ok_def)

lemma market_leave_ok:
  assumes ok: "exchange_ok L binv x" and get: "getSymbol n x = Some sy" and md: "market_done L binv (sy, x) v"
  shows "exchange_ok L binv (leave n (fst v, markMarketChanged (ob_symbol (fst v)) (snd v)))"
proof -
  note g = getSymbol_ok [OF ok get]
  have d: "symbol_ok L binv {} (fst v)" "history_ok (sy_trade_history (fst v))" "x_frame x (snd v)" "ob_symbol (fst v) = n"
    "x_next_order_id x \<le> ob_next_order_id (fst v)" "x_next_priority x \<le> ob_next_priority (fst v)"
    using md g by (auto simp: market_done_def split: prod.splits)
  have "tables_ok x" using ok by (simp add: exchange_ok_def)
  then have tab: "tables_ok (snd v)" using tables_ok_frame [OF d(3)] by simp
  show ?thesis
    by (rule leave_ok [OF ok d(1,4,2,5,6)]) (use d(3,4) tab in \<open>auto simp: x_frame_def\<close>)
qed

section \<open>Flushing\<close>

lemma flush_symbol_ok:
  assumes ok: "exchange_ok L binv x" and x': "x' = flush_symbol x n"
  shows "exchange_ok L binv x'" "x_market_changed x' = x_market_changed x"
    "\<And>m sy'. x_symbols x' m = Some sy' \<Longrightarrow> \<exists>sy. x_symbols x m = Some sy \<and> queue L sy' = queue L sy \<and> ob_orders sy' = ob_orders sy \<and>
       (m = n \<or> quiet sy \<longrightarrow> quiet sy')"
proof -
  have r: "exchange_ok L binv x' \<and> x_market_changed x' = x_market_changed x \<and> (\<forall>m sy'. x_symbols x' m = Some sy' \<longrightarrow>
      (\<exists>sy. x_symbols x m = Some sy \<and> queue L sy' = queue L sy \<and> ob_orders sy' = ob_orders sy \<and> (m = n \<or> quiet sy \<longrightarrow> quiet sy')))"
  proof (cases "getSymbol n x")
    case None
    then show ?thesis using ok by (auto simp: x' flush_symbol_def getSymbol_def)
  next
    case (Some sy)
    note g = getSymbol_ok [OF ok Some]
    obtain sy1 x1 where fl: "flushMarketDataCaches (sy, x) = (sy1, x1)" by fastforce
    note f = flush_frame [OF fl] and k = flushed_ok [OF flush_frame(1) [OF fl]]
    have x'e: "x' = leave n (sy1, x1)" by (simp add: x' flush_symbol_def Some fl)
    obtain sy0 where sy0: "x_symbols x n = Some sy0" "sy = load x sy0" using Some by (auto simp: getSymbol_def)
    have sel: "queue L sy1 = queue L sy0" "ob_orders sy1 = ob_orders sy0" by (auto simp: f(1) sy0 queue_def load_def)
    have tab: "tables_ok x1" using tables_ok_frame [OF f(2)] ok by (simp add: exchange_ok_def)
    have "symbol_ok L binv {} sy1" using k(1) g(1) by simp
    moreover have "ob_symbol sy1 = n" "history_ok (sy_trade_history sy1)" "x_next_order_id x \<le> ob_next_order_id sy1"
      "x_next_priority x \<le> ob_next_priority sy1" using g by (simp_all add: f(1))
    ultimately have "exchange_ok L binv x'"
      unfolding x'e by (rule leave_ok [OF ok]) (use f(2) tab k(2) in \<open>simp_all add: x_frame_def\<close>)
    then show ?thesis using f(2) k(2) sy0(1) sel by (auto simp: x'e x_frame_def)
  qed
  then show "exchange_ok L binv x'" "x_market_changed x' = x_market_changed x" by simp_all
  show "\<exists>sy. x_symbols x m = Some sy \<and> queue L sy' = queue L sy \<and> ob_orders sy' = ob_orders sy \<and> (m = n \<or> quiet sy \<longrightarrow> quiet sy')"
    if "x_symbols x' m = Some sy'" for m sy'
    using r that by blast
qed

lemma flush_symbols_ok:
  assumes "exchange_ok L binv x" and "x' = foldl flush_symbol x ns"
  shows "exchange_ok L binv x' \<and> x_market_changed x' = x_market_changed x \<and> (\<forall>m sy'. x_symbols x' m = Some sy' \<longrightarrow>
      (\<exists>sy. x_symbols x m = Some sy \<and> queue L sy' = queue L sy \<and> ob_orders sy' = ob_orders sy \<and> (m \<in> set ns \<or> quiet sy \<longrightarrow> quiet sy')))"
  using assms
proof (induction ns arbitrary: x)
  case (Cons n ns)
  note f = flush_symbol_ok [OF Cons.prems(1) refl, of n]
  have "exchange_ok L binv x' \<and> x_market_changed x' = x_market_changed (flush_symbol x n) \<and> (\<forall>m sy'. x_symbols x' m = Some sy' \<longrightarrow>
      (\<exists>sy. x_symbols (flush_symbol x n) m = Some sy \<and> queue L sy' = queue L sy \<and> ob_orders sy' = ob_orders sy \<and> (m \<in> set ns \<or> quiet sy \<longrightarrow> quiet sy')))"
    using Cons.IH [OF f(1)] Cons.prems(2) by simp
  then show ?case using f(2,3) by (metis set_ConsD list.set_intros(1,2))
qed auto

lemma flushMarketEvents_ok:
  assumes "exchange_ok L binv x" and "x' = flushMarketEvents x"
  shows "exchange_ok L binv x'" "x_market_changed x' = []"
    "\<forall>m sy'. x_symbols x' m = Some sy' \<longrightarrow> quiet sy' \<and> (\<exists>sy. x_symbols x m = Some sy \<and> queue L sy' = queue L sy \<and> ob_orders sy' = ob_orders sy)"
proof -
  let ?y = "foldl flush_symbol x (x_market_changed x)"
  have x'e: "x' = ?y\<lparr>x_market_changed := []\<rparr>" by (simp add: assms(2) flushMarketEvents_def)
  have y: "exchange_ok L binv ?y" and orig: "\<And>m sy'. x_symbols ?y m = Some sy' \<Longrightarrow>
      \<exists>sy. x_symbols x m = Some sy \<and> queue L sy' = queue L sy \<and> ob_orders sy' = ob_orders sy \<and> (m \<in> set (x_market_changed x) \<or> quiet sy \<longrightarrow> quiet sy')"
    using flush_symbols_ok [OF assms(1) refl, of "x_market_changed x"] by auto
  have q: "quiet sy'" if "x_symbols ?y m = Some sy'" for m sy'
    using orig [OF that] assms(1) by (auto simp: exchange_ok_def instrument_ok_def)
  have ld: "load x' sy = load ?y sy" for sy by (simp add: x'e load_def)
  show "exchange_ok L binv x'"
    using y q by (simp add: exchange_ok_def instrument_ok_def ld) (simp add: x'e tables_ok_def clients_ok_def)
  show "x_market_changed x' = []" by (simp add: x'e)
  show "\<forall>m sy'. x_symbols x' m = Some sy' \<longrightarrow> quiet sy' \<and> (\<exists>sy. x_symbols x m = Some sy \<and> queue L sy' = queue L sy \<and> ob_orders sy' = ob_orders sy)"
    using q orig by (fastforce simp: x'e)
qed

section \<open>Listing\<close>

lemma unbound_sel [simp]:
  "ob_orders (unbound e0 n i d x) = Map.empty" "ob_live (unbound e0 n i d x) = {}" "ob_symbol (unbound e0 n i d x) = n"
  "sy_trade_history (unbound e0 n i d x) = rb_new d TRADE_HISTORY_CAPACITY" "ob_level_cache (unbound e0 n i d x) = []"
  "ob_order_cache (unbound e0 n i d x) = []" "ob_l3 (unbound e0 n i d x) = e0" "ob_next_order_id (unbound e0 n i d x) = 1"
  "ob_next_priority (unbound e0 n i d x) = 0"
  by (simp_all add: unbound_def new_symbol_def new_engine_def new_book_def OrderBook.defs Engine.defs Symbol.defs)

lemma new_history_ok: "history_ok (rb_new d TRADE_HISTORY_CAPACITY)"
proof -
  have "(2 :: nat) ^ 6 = 64" by simp
  then have "\<exists>k. (2 :: nat) ^ k = 64" by blast
  then show ?thesis by (simp add: history_ok_def rb_new_def rb_inv_def TRADE_HISTORY_CAPACITY_def rb_size_def)
qed

lemma assignMatching_ok:
  assumes "tables_ok x" and "assignMatching sy x = Inr (sy', x')"
  shows "tables_ok x'" "x_symbols x' = x_symbols x" "load x' = load x" "x_market_changed x' = x_market_changed x"
    "x_matching_engines x' (mc_type (x_matching x)) = Some (sy_engine sy')" "engine_valid (sy_engine sy')"
    "engine_type (sy_engine sy') = mc_type (x_matching x)" "sy' = sy\<lparr>sy_engine := sy_engine sy', sy_smp_mode := x_smp_mode x\<rparr>"
proof -
  have "tables_ok x' \<and> x_symbols x' = x_symbols x \<and> load x' = load x \<and> x_market_changed x' = x_market_changed x \<and>
    x_matching_engines x' (mc_type (x_matching x)) = Some (sy_engine sy') \<and> engine_valid (sy_engine sy') \<and>
    engine_type (sy_engine sy') = mc_type (x_matching x) \<and> sy' = sy\<lparr>sy_engine := sy_engine sy', sy_smp_mode := x_smp_mode x\<rparr>"
  proof (cases "x_matching_engines x (mc_type (x_matching x))")
    case (Some e)
    then have "sy' = sy\<lparr>sy_engine := e, sy_smp_mode := x_smp_mode x\<rparr>" "x' = x" using assms(2) by (auto simp: assignMatching_def)
    then show ?thesis using assms(1) Some by (simp add: tables_ok_def)
  next
    case None
    then obtain e where e: "createMatchingEngine (x_matching x) = Inr e" using assms(2) by (cases "createMatchingEngine (x_matching x)") (simp_all add: assignMatching_def)
    have eq: "sy' = sy\<lparr>sy_engine := e, sy_smp_mode := x_smp_mode x\<rparr>"
      "x' = x\<lparr>x_matching_engines := (x_matching_engines x)(mc_type (x_matching x) \<mapsto> e)\<rparr>"
      using assms(2) None e by (simp_all add: assignMatching_def)
    show ?thesis using assms(1) created_valid [OF e] by (simp add: eq tables_ok_def clients_ok_def load_def fun_eq_iff)
  qed
  then show "tables_ok x'" "x_symbols x' = x_symbols x" "load x' = load x" "x_market_changed x' = x_market_changed x"
    "x_matching_engines x' (mc_type (x_matching x)) = Some (sy_engine sy')" "engine_valid (sy_engine sy')"
    "engine_type (sy_engine sy') = mc_type (x_matching x)" "sy' = sy\<lparr>sy_engine := sy_engine sy', sy_smp_mode := x_smp_mode x\<rparr>"
    by blast+
qed

text \<open>The L3 constructor gives an empty book.\<close>

definition empty_l3 :: "'l l3_ops \<Rightarrow> ('l \<Rightarrow> bool) \<Rightarrow> 'l \<Rightarrow> bool" where
  "empty_l3 L binv e0 \<longleftrightarrow> binv e0 \<and> l3_levels L e0 BUY = [] \<and> l3_levels L e0 SELL = []"

lemma listing_ok:
  assumes ok: "exchange_ok L binv x" and e0: "empty_l3 L binv e0" and asg: "assignMatching (unbound e0 n i d x) x = Inr (sy, x')"
    and new: "x_symbols x n = None"
  shows "exchange_ok L binv (x'\<lparr>x_symbols := (x_symbols x')(n \<mapsto> sy)\<rparr>)"
proof -
  have tab: "tables_ok x" using ok by (simp add: exchange_ok_def)
  note a = assignMatching_ok [OF tab asg]
  let ?x = "x'\<lparr>x_symbols := (x_symbols x')(n \<mapsto> sy)\<rparr>"
  have ld: "load ?x = load x" using a(3) by (simp add: load_def fun_eq_iff)
  have q: "queue L (load x sy) s = []" if "real_side s" for s
    using e0 that by (subst a(8)) (auto simp: queue_def empty_l3_def real_side_def)
  have "obinv L binv {} (new_book e0 n (x_venue x))" using e0 by (intro new_book_inv) (simp_all add: empty_l3_def)
  then have "obinv L binv {} (unbound e0 n i d x)" by (simp add: unbound_def)
  then have "obinv L binv {} sy" by (subst a(8)) (subst obinv_cong; simp)
  moreover have "ob_orders sy = Map.empty" "ob_live sy = {}" by (subst a(8), simp)+
  ultimately have "symbol_ok L binv {} (load x sy)"
    using a(6) q by (simp add: symbol_ok_def drawn_def uncrossed_def pool_exact_def real_side_def)
  moreover have "ob_symbol sy = n" "history_ok (sy_trade_history sy)" "quiet sy"
    by (subst a(8), simp add: quiet_def new_history_ok)+
  ultimately have "instrument_ok L binv ?x n sy" by (simp add: instrument_ok_def ld)
  moreover have "instrument_ok L binv ?x m s" if "m \<noteq> n" "x_symbols x m = Some s" for m s
    using ok that a(4) by (simp add: exchange_ok_def instrument_ok_def ld)
  moreover have "tables_ok ?x" using a(1) by (simp add: tables_ok_def clients_ok_def)
  ultimately show ?thesis using a(2) by (simp add: exchange_ok_def)
qed

section \<open>Reachable exchanges\<close>

lemma xstep_ok:
  assumes "xstep L e0 x x'" and l3: "l3_book L binv" and e0: "empty_l3 L binv e0" and ok: "exchange_ok L binv x"
  shows "exchange_ok L binv x'"
  using assms(1)
proof cases
  case (Request env request)
  have "env_asserts env \<longrightarrow> cancel_unfilled request x" using request_aborts [of env request x L] Request(2) by auto
  from request_done [OF l3 ok Request(1) this] show ?thesis using Request(2) by (metis option.inject)
next
  case (LevelUpdate n sy s us t)
  show ?thesis unfolding LevelUpdate(1) by (rule level_step_ok [OF l3 ok LevelUpdate(2-4)])
next
  case (MarketOrder n sy ev v)
  note g = getSymbol_ok [OF ok MarketOrder(2)]
  show ?thesis
    by (rule market_event_ok [OF l3 g(1,3) MarketOrder(3), of x])
      (use market_leave_ok [OF ok MarketOrder(2)] MarketOrder(1,4) in auto)
next
  case (MarketTrade n sy tr v)
  note g = getSymbol_ok [OF ok MarketTrade(2)]
  obtain fs cs es' q' where spec: "engine_spec (sy_engine sy) (crosses (opposite_side (mte_aggressor tr)) (mte_price tr)) (\<lambda>_. False)
      (mte_qty tr) (queue L sy (opposite_side (mte_aggressor tr))) = (fs, cs, es', q')" by (metis prod_cases4)
  show ?thesis
    by (rule replay_ok [OF l3 g(1,3) MarketTrade(3) spec, of x])
      (use market_leave_ok [OF ok MarketTrade(2)] MarketTrade(1,4) in auto)
next
  case Flush
  show ?thesis by (rule flushMarketEvents_ok(1) [OF ok Flush])
next
  case (Listing n i d sy x1)
  show ?thesis unfolding Listing(1) by (rule listing_ok [OF ok e0 Listing(3,2)])
qed

lemma xsteps_ok:
  assumes "(xstep L e0)\<^sup>*\<^sup>* x x'" and "l3_book L binv" and "empty_l3 L binv e0" and "exchange_ok L binv x"
  shows "exchange_ok L binv x'"
  using assms(1)
proof (induction rule: rtranclp_induct)
  case base
  show ?case by (rule assms(4))
next
  case (step y z)
  show ?case by (rule xstep_ok [OF step(2) assms(2,3) step(3)])
qed

lemma new_exchange_sel:
  assumes "new_exchange v config slots prio oid tid = Inr x"
  shows "x_symbols x = Map.empty" "x_client_ids x = Map.empty" "x_next_client_id x = 0" "x_matching_engines x = Map.empty"
    "config_smp_mode config = Inr (x_smp_mode x)" "x_response_queue x = []" "x_md_queue x = []"
proof -
  obtain smp where "config_smp_mode config = Inr smp"
    using assms by (cases "config_smp_mode config") (simp_all add: new_exchange_def split: if_splits)
  then show "x_symbols x = Map.empty" "x_client_ids x = Map.empty" "x_next_client_id x = 0" "x_matching_engines x = Map.empty"
    "config_smp_mode config = Inr (x_smp_mode x)" "x_response_queue x = []" "x_md_queue x = []"
    using assms [symmetric] by (simp_all add: new_exchange_def split: if_splits)
qed

lemma new_exchange_ok: "new_exchange v config slots prio oid tid = Inr x \<Longrightarrow> exchange_ok L binv x"
  using new_exchange_sel [of v config slots prio oid tid x] by (simp add: exchange_ok_def tables_ok_def clients_ok_def)

end
