(* ===== verification/Symbol_Examples.thy ===== *)
theory Symbol_Examples
  imports Symbol_Amend
begin

text \<open>Concrete runs of the instrument on the reference L3 book.\<close>

section \<open>States\<close>

lemma new_engine_counters [simp]:
  "ob_next_order_id (new_engine b) = ob_next_order_id b" "ob_next_priority (new_engine b) = ob_next_priority b"
  by (simp_all add: new_engine_def OrderBook.defs)

lemma ex_counters:
  "ob_next_order_id ex_engine = 2" "ob_next_priority ex_engine = 1"
  "ob_next_order_id (ex_incoming tif c) = 3" "ob_next_priority (ex_incoming tif c) = 1"
proof -
  have "ob_next_order_id ex_book = 2" by (simp add: ex_book_def new_book_def allocateOrder_def nextOrderId_def)
  then show 1: "ob_next_order_id ex_engine = 2"
    using near_frameD(2) [OF near_frame_ops(1) [of ex_book rf_ops 7 4 0 True]] by (simp add: ex_engine_def)
  show 2: "ob_next_priority ex_engine = 1"
    using ref.addOrder_ok(2) [OF ex_book_inv ex_book_restable, of 0 4 True]
    by (simp add: ex_engine_def rested_def Let_def ex_book_sel)
  show "ob_next_order_id (ex_incoming tif c) = 3" "ob_next_priority (ex_incoming tif c) = 1"
    by (simp_all add: ex_incoming_def 1 2)
qed

text \<open>The instrument with one resting buy, and the same with the sell order on its way in.\<close>

definition ex_symbol :: "engine_obj \<Rightarrow> ref_book Symbol" where
  "ex_symbol eng = new_symbol ex_engine 0 eng SMP_NONE blank_trade"

definition ex_symbol_in :: "engine_obj \<Rightarrow> ref_book Symbol" where
  "ex_symbol_in eng = new_symbol (ex_incoming TIF_DAY 4) 0 eng SMP_NONE blank_trade"

lemma ex_symbol_ok: "engine_valid eng \<Longrightarrow> symbol_ok rf_ops rf_inv {} (ex_symbol eng)"
  using ex_engine_sel ex_counters
  by (auto simp: symbol_ok_def ex_symbol_def pool_exact_def drawn_def uncrossed_def real_side_def NULL_PRICE_def)

lemma ex_symbol_incoming: "engine_valid eng \<Longrightarrow> incoming rf_ops rf_inv 8 (ex_symbol_in eng)"
proof -
  assume v: "engine_valid eng"
  have live: "ob_live (ex_incoming TIF_DAY 4) = {7, 8}" by (auto simp: ex_incoming_def ex_engine_sel)
  have idx: "ob_by_order (ex_incoming TIF_DAY 4) = ob_by_order ex_engine" "ob_by_client (ex_incoming TIF_DAY 4) = ob_by_client ex_engine"
    by (simp_all add: ex_incoming_def)
  have new: "id_num (ob_buffer (ex_incoming TIF_DAY 4) 8) = 2" "order_id (ob_buffer (ex_incoming TIF_DAY 4) 8) = ''u2''"
    "client_order_id (ob_buffer (ex_incoming TIF_DAY 4) 8) = client_order_id (ob_buffer ex_engine 8)"
    using ex_counters by (simp_all add: ex_incoming_def resetFillAccounting_def allocateOrder_eq)
  have b7: "order_id (ob_buffer ex_engine 7) = ''u1''" "client_order_id (ob_buffer ex_engine 8) = []" "id_num (ob_buffer ex_engine 7) = 1"
    by (simp_all add: ex_engine_def ex_rested ex_book_sel)
      (simp add: ex_book_def allocateOrder_def nextOrderId_def new_book_def default_order_def)
  have "indexed (ob_by_order ex_engine) order_id ex_engine" using ex_engine_sel(5) by (simp add: obinv_def)
  then have "ob_by_order ex_engine ''u2'' = None"
    using b7 by (cases "ob_by_order ex_engine ''u2''") (auto simp: indexed_def ex_engine_sel split: if_splits)
  then show ?thesis
    using v ex_incoming_inv [of "{}" TIF_DAY 4] ex_incoming_sel ex_engine_sel ex_counters live idx new b7
    by (auto simp: incoming_def Let_def symbol_ok_def ex_symbol_in_def pool_exact_def drawn_def uncrossed_def
        real_side_def NULL_PRICE_def restable_def fits_def)
qed

text \<open>The resting buy, marked for amendment.\<close>

definition ex_symbol_am :: "engine_obj \<Rightarrow> ref_book Symbol" where
  "ex_symbol_am eng = set_order 7 (\<lambda>ord. ord\<lparr>status := OS_PENDING_REPLACE\<rparr>) (ex_symbol eng)"

lemma ex_resting:
  "ob_buffer (ex_symbol eng) 7 = ob_buffer ex_engine 7" "ob_orders (ex_symbol eng) = [1 \<mapsto> 7]"
  "queue rf_ops (ex_symbol eng) s = queue rf_ops ex_engine s" "sy_smp_mode (ex_symbol eng) = SMP_NONE"
  "id_num (ob_buffer ex_engine 7) = 1" "side (ob_buffer ex_engine 7) = BUY" "price (ob_buffer ex_engine 7) = 100"
  "quantity (ob_buffer ex_engine 7) = 5" "cum_quantity (ob_buffer ex_engine 7) = 0" "leaves_quantity (ob_buffer ex_engine 7) = 5"
  "time_in_force (ob_buffer ex_engine 7) = TIF_DAY" "sy_engine (ex_symbol eng) = eng" "ob_next_priority (ex_symbol eng) = 1"
proof -
  show "cum_quantity (ob_buffer ex_engine 7) = 0" "time_in_force (ob_buffer ex_engine 7) = TIF_DAY"
    by (simp_all add: ex_engine_def ex_rested ex_book_sel)
      (simp_all add: ex_book_def allocateOrder_def nextOrderId_def new_book_def default_order_def resetFillAccounting_def)
  show "ob_next_priority (ex_symbol eng) = 1" by (simp add: ex_symbol_def ex_counters)
qed (simp_all add: ex_symbol_def ex_engine_def ex_rested ex_book_sel)

lemma ex_symbol_amending: "engine_valid eng \<Longrightarrow> amending rf_ops rf_inv 7 (ex_symbol_am eng)"
proof -
  assume "engine_valid eng"
  then have "symbol_ok rf_ops rf_inv {} (ex_symbol_am eng)"
    unfolding ex_symbol_am_def by (intro same_entry_ok ex_symbol_ok) (simp_all add: entry_for_def acct_ok_def)
  then show ?thesis
    by (simp add: amending_def Let_def findOrder_def)
      (simp add: ex_symbol_am_def ex_resting ex_engine_sel fits_def)
qed

section \<open>Runs\<close>

text \<open>A sell of 8 at 90 takes the buy of 5 at 100 and rests with 3.\<close>

theorem addOrder_outcome_witness:
  "\<exists>sms st'. sym_addOrder rf_ops 8 6 (ex_symbol_in FifoMatchingEngine) = Some (RJ_NONE, sms, st') \<and> legs sms = [(100, 1, 5)] \<and>
     findOrder 2 st' = Some 8 \<and> leaves_quantity (ob_buffer st' 8) = 3 \<and> queue rf_ops st' BUY = []"
proof -
  let ?st = "ex_symbol_in FifoMatchingEngine"
  have sel: "ob_buffer ?st = ob_buffer (ex_incoming TIF_DAY 4)" "queue rf_ops ?st s = queue rf_ops ex_engine s" "sy_engine ?st = FifoMatchingEngine"
    "sy_smp_mode ?st = SMP_NONE" "price (ob_buffer (ex_incoming TIF_DAY 4) 8) = 90" "id_num (ob_buffer (ex_incoming TIF_DAY 4) 8) = 2" for s
    using ex_counters ex_incoming_sel
    by (simp_all add: ex_symbol_in_def) (simp_all add: ex_incoming_def resetFillAccounting_def allocateOrder_eq)
  have sp: "engine_spec (sy_engine ?st) (crosses BUY (price (ob_buffer ?st 8))) (own_order (sy_smp_mode ?st) 8 ?st)
      (leaves_quantity (ob_buffer ?st 8)) (queue rf_ops ?st BUY) = ([(\<lparr>en_price = 100, en_id = 1, en_qty = 5, en_prio = 1\<rparr>, 5)], [], [], 3)"
    by (simp add: sel ex_incoming_sel ex_engine_sel crosses_def isPriceBetterOrEqual_def own_order_def)
  show ?thesis
    using addOrder_outcome [OF ref.l3_book_axioms ex_symbol_incoming refl _ sp, of 6]
    by (auto simp: sel ex_incoming_sel fok_kills_def restsRemainder_def NULL_PRICE_def)
qed

theorem cancelOrder_outcome_witness:
  "let st = ex_symbol FifoMatchingEngine; st' = sym_cancelOrder rf_ops 7 6 9 st in
     findOrder 1 st = Some 7 \<and> findOrder 1 st' = None \<and> 7 \<notin> ob_live st' \<and> queue rf_ops st' BUY = []"
  using cancelOrder_outcome [OF ref.l3_book_axioms ex_symbol_ok, of FifoMatchingEngine 1 7 6 9]
  by (simp add: Let_def ex_resting ex_engine_sel findOrder_def)

theorem reduce_keeps_place_witness:
  "\<exists>st'. sym_modifyOrder rf_ops 7 100 2 6 9 (ex_symbol_am FifoMatchingEngine) = Some (RJ_NONE, [], st') \<and>
     queue rf_ops st' BUY = [\<lparr>en_price = 100, en_id = 1, en_qty = 2, en_prio = 1\<rparr>]"
proof -
  have sel: "ob_buffer (ex_symbol_am FifoMatchingEngine) 7 = (ob_buffer ex_engine 7)\<lparr>status := OS_PENDING_REPLACE\<rparr>"
    "queue rf_ops (ex_symbol_am FifoMatchingEngine) BUY = [\<lparr>en_price = 100, en_id = 1, en_qty = 5, en_prio = 1\<rparr>]"
    by (simp_all add: ex_symbol_am_def ex_resting ex_engine_sel)
  show ?thesis
    using reduce_keeps_place [OF ref.l3_book_axioms ex_symbol_amending refl, of FifoMatchingEngine 2 6 9]
    by (auto simp: sel ex_resting resize_entry_def)
qed

text \<open>Raising the price to 101 with a total of 7 requeues the order with priority 2.\<close>

theorem modifyOrder_outcome_witness:
  "\<exists>sms st'. sym_modifyOrder rf_ops 7 101 7 6 9 (ex_symbol_am FifoMatchingEngine) = Some (RJ_NONE, sms, st') \<and> legs sms = [] \<and>
     findOrder 1 st' = Some 7 \<and> leaves_quantity (ob_buffer st' 7) = 7 \<and> priority (ob_buffer st' 7) = 2"
proof -
  let ?st = "ex_symbol_am FifoMatchingEngine"
  have sel: "ob_buffer ?st 7 = (ob_buffer ex_engine 7)\<lparr>status := OS_PENDING_REPLACE\<rparr>" "queue rf_ops ?st SELL = []"
    "sy_engine ?st = FifoMatchingEngine" "sy_smp_mode ?st = SMP_NONE" "ob_next_priority ?st = 1"
    by (simp_all add: ex_symbol_am_def ex_resting ex_engine_sel) (simp_all add: set_order_def ex_resting)
  have sp: "engine_spec (sy_engine ?st) (crosses SELL 101) (own_order (sy_smp_mode ?st) 7 ?st)
      (max 0 (7 - cum_quantity (ob_buffer ?st 7))) (queue rf_ops ?st SELL) = ([], [], [], 7)"
    by (simp add: sel ex_resting)
  show ?thesis
    using modifyOrder_outcome [OF ref.l3_book_axioms ex_symbol_amending refl _ _ _ sp, of 6 9]
    by (auto simp: sel ex_resting NULL_PRICE_def)
qed

end
