(* ===== verification/Exchange_Properties.thy ===== *)
theory Exchange_Properties
  imports Exchange_Steps Symbol_Examples
begin

text \<open>The properties of the exchange thread, each with a run on the reference L3 book.\<close>

section \<open>An exchange with one listed instrument\<close>

text \<open>The instrument of the examples, with one resting buy of 5 at 100, on an exchange.\<close>

definition ex_exchange :: "ref_book Exchange" where
  "ex_exchange = \<lparr>
     x_venue = COINBASE, x_symbols = [''BTC'' \<mapsto> ex_symbol FifoMatchingEngine], x_md_queue = [], x_publish_order_updates = True,
     x_next_trade_id = 1, x_market_changed = [''BTC''], x_smp_mode = SMP_NONE,
     x_matching = \<lparr>mc_type = FIFO, mc_pro_rata = default_pro_rata\<rparr>, x_matching_keys_unread = False,
     x_matching_engines = [FIFO \<mapsto> FifoMatchingEngine], x_client_ids = Map.empty, x_next_client_id = 0,
     x_response_queue = [], x_response_slot = (\<lambda>_. blank_response), x_next_priority = 1, x_next_order_id = 2, x_engine_trade_id = 1\<rparr>"

lemma ex_exchange_sel [simp]:
  "x_symbols ex_exchange = [''BTC'' \<mapsto> ex_symbol FifoMatchingEngine]" "x_market_changed ex_exchange = [''BTC'']"
  "x_client_ids ex_exchange = Map.empty" "x_next_client_id ex_exchange = 0" "x_response_queue ex_exchange = []"
  "x_next_priority ex_exchange = 1" "x_next_order_id ex_exchange = 2" "x_matching_engines ex_exchange = [FIFO \<mapsto> FifoMatchingEngine]"
  by (simp_all add: ex_exchange_def)

lemma ex_symbol_static [simp]:
  "ob_symbol (ex_symbol eng) = ''BTC''" "sy_trade_history (ex_symbol eng) = rb_new blank_trade TRADE_HISTORY_CAPACITY"
  "sy_credit (ex_symbol eng) = (\<lambda>_ _. None)"
proof -
  have "ob_symbol ex_book = ''BTC''" by (simp add: ex_book_def new_book_def allocateOrder_def nextOrderId_def)
  then have "ob_symbol ex_engine = ''BTC''"
    using near_frameD(4) [OF near_frame_ops(1) [of ex_book rf_ops 7 4 0 True]] by (simp add: ex_engine_def new_engine_def OrderBook.defs)
  then show "ob_symbol (ex_symbol eng) = ''BTC''" by (simp add: ex_symbol_def)
qed (simp_all add: ex_symbol_def)

lemma ex_exchange_ok: "exchange_ok rf_ops rf_inv ex_exchange"
proof -
  have "symbol_ok rf_ops rf_inv {} (load ex_exchange (ex_symbol FifoMatchingEngine))"
    by (rule symbol_ok_load [OF ex_symbol_ok]) (simp_all add: ex_resting, simp add: ex_symbol_def ex_counters)
  then show ?thesis
    by (simp add: exchange_ok_def instrument_ok_def tables_ok_def clients_ok_def new_history_ok engine_type_def)
qed

lemma ex_getSymbol:
  "getSymbol ''BTC'' ex_exchange = Some (load ex_exchange (ex_symbol FifoMatchingEngine))" "getSymbol ''ETH'' ex_exchange = None"
  by (simp_all add: getSymbol_def)

lemma ex_live: "ob_live (ex_symbol eng) = {7}"
  by (simp add: ex_symbol_def ex_engine_sel)

lemma ex_lookup:
  "ob_by_order (ex_symbol eng) u = (if u = ''u1'' then Some 7 else None)" "ob_by_client (ex_symbol eng) u = (if u = ''c1'' then Some 7 else None)"
proof -
  have id: "order_id (ob_buffer ex_engine 7) = ''u1''" "client_order_id (ob_buffer ex_engine 7) = ''c1''"
    by (simp_all add: ex_engine_def ex_rested ex_book_sel)
  have ix: "indexed (ob_by_order ex_engine) order_id ex_engine" "indexed (ob_by_client ex_engine) client_order_id ex_engine"
    using ex_engine_sel(5) by (simp_all add: obinv_def)
  have "m u = (if u = key (ob_buffer ex_engine 7) then Some 7 else None)" if "indexed m key ex_engine" "key (ob_buffer ex_engine 7) \<noteq> []" for m key
  proof -
    have "m (key (ob_buffer ex_engine 7)) = Some 7" using that ex_engine_sel(2) ex_resting(5) by (simp add: indexed_def)
    moreover have "u = key (ob_buffer ex_engine 7) \<and> q = 7" if "m u = Some q" for q
      using that \<open>indexed m key ex_engine\<close> ex_engine_sel(2) ex_resting(5) by (auto simp: indexed_def split: if_splits)
    ultimately show ?thesis by (cases "m u") auto
  qed
  from this [OF ix(1)] this [OF ix(2)]
  show "ob_by_order (ex_symbol eng) u = (if u = ''u1'' then Some 7 else None)" "ob_by_client (ex_symbol eng) u = (if u = ''c1'' then Some 7 else None)"
    using id by (simp_all add: ex_symbol_def)
qed

section \<open>The exchange in good order\<close>

text \<open>
  C1. Every reachable exchange is in good order. Starting from a constructed exchange, whatever
  requests, level updates, venue orders, venue trades, flushes and listings the thread runs, every
  instrument's book is consistent with its indexes and its pool, uncrossed, built from drawn ids and
  priorities only, its tape is a well-formed ring, no cached market-data update is left behind
  unmarked, client identities are distinct, and every engine slot holds a valid engine of its type.
\<close>

theorem exchange_invariant:
  assumes "l3_book L binv" and "empty_l3 L binv e0"
    and "new_exchange v config slots prio oid tid = Inr x0" and "(xstep L e0)\<^sup>*\<^sup>* x0 x"
  shows "exchange_ok L binv x"
  by (rule xsteps_ok [OF assms(4,1,2) new_exchange_ok [OF assms(3)]])

text \<open>
  C2. Every admissible request is answered, but for one assertion. On an exchange in good order a
  request is run to its end, leaves the exchange in good order, and changes no instrument but the one it
  names. The one exception is the assertion of \<open>sendOrderCancelPending\<close> (exchange.cpp:889): a program
  built with assertions ends, \<open>None\<close>, on exactly the cancels of an order that has been filled in part; a program
  built without them runs these to their end too.
\<close>

theorem processRequest_total:
  assumes "l3_book L binv" and "exchange_ok L binv x" and "request_ok L env request x"
  shows "if env_asserts env \<and> \<not> cancel_unfilled request x then processRequest L env (Some request) x = None
    else \<exists>x'. processRequest L env (Some request) x = Some x' \<and> exchange_ok L binv x' \<and>
      (\<forall>m. m \<noteq> req_symbol request \<longrightarrow> x_symbols x' m = x_symbols x m)"
  using request_done [OF assms] request_aborts by metis

text \<open>An exchange built from a config and one listing.\<close>

definition ex_config :: "string \<rightharpoonup> json_value" where
  "ex_config = [''order_gateway'' \<mapsto> JObject Map.empty, ''md_publisher'' \<mapsto> JObject Map.empty, ''self_match_prevention'' \<mapsto> JString ''cancel_newest'']"

theorem exchange_invariant_witness:
  "\<exists>x0 x. new_exchange COINBASE ex_config (\<lambda>_. blank_response) 0 1 1 = Inr x0 \<and> (xstep rf_ops ref_empty)\<^sup>*\<^sup>* x0 x \<and>
     x_symbols x ''BTC'' \<noteq> None \<and> exchange_ok rf_ops rf_inv x"
proof -
  obtain x0 :: "ref_book Exchange" where x0: "new_exchange COINBASE ex_config (\<lambda>_. blank_response) 0 1 1 = Inr x0"
    and m: "x_matching x0 = \<lparr>mc_type = FIFO, mc_pro_rata = default_pro_rata\<rparr>"
    by (simp add: new_exchange_def ex_config_def config_smp_mode_def)
  let ?u = "unbound ref_empty ''BTC'' 0 blank_trade x0"
  have "\<exists>sy x1. assignMatching ?u x0 = Inr (sy, x1)"
    by (simp add: assignMatching_def createMatchingEngine_def m split: option.splits)
  then obtain sy x1 where a: "assignMatching ?u x0 = Inr (sy, x1)" by blast
  let ?x = "x1\<lparr>x_symbols := (x_symbols x1)(''BTC'' \<mapsto> sy)\<rparr>"
  have "x_symbols x0 ''BTC'' = None" using new_exchange_sel(1) [OF x0] by simp
  then have st: "(xstep rf_ops ref_empty)\<^sup>*\<^sup>* x0 ?x" using xstep.Listing [OF _ a] by blast
  have "empty_l3 rf_ops rf_inv ref_empty" by (simp add: empty_l3_def ref_empty_def rf_inv_def rf_ops_def group_levels_def)
  from exchange_invariant [OF ref.l3_book_axioms this x0 st] show ?thesis
    using x0 st by (intro exI [of _ x0] exI [of _ ?x]) simp
qed

text \<open>A cancel of the resting order, and a new order for an instrument the venue does not list.\<close>

definition ex_cancel :: Request where
  "ex_cancel = \<lparr>time_stamp = 6, req_symbol = ''BTC'', req_request_tag = 4,
     body = ORDER_CANCEL_REQUEST \<lparr>co_user_id = ''ann'', co_order_id = ''u1'', co_client_order_id = []\<rparr>\<rparr>"

definition ex_env :: request_env where
  "ex_env = \<lparr>env_slot = 9, env_uuid = ''u3'', env_clock = (\<lambda>n. 10 + n), env_asserts = True\<rparr>"

definition ex_new :: "string \<Rightarrow> string \<Rightarrow> Request" where
  "ex_new n coid = \<lparr>time_stamp = 6, req_symbol = n, req_request_tag = 4, body = NEW_ORDER_SINGLE
     \<lparr>ao_user_id = ''ann'', ao_client_order_id = coid, ao_side = SELL, ao_type = OT_LIMIT, ao_time_in_force = TIF_DAY, ao_price = 90, ao_qty = 8\<rparr>\<rparr>"

theorem processRequest_total_witness:
  "\<exists>x'. processRequest rf_ops ex_env (Some (ex_new ''BTC'' ''c2'')) ex_exchange = Some x' \<and> exchange_ok rf_ops rf_inv x' \<and>
    x_symbols x' ''ETH'' = None"
proof -
  have "request_ok rf_ops ex_env (ex_new ''BTC'' ''c2'') ex_exchange"
    by (simp add: request_ok_def ex_new_def ex_getSymbol admissible_def ex_env_def ex_lookup ex_resting ex_live ex_engine_sel fits_def real_side_def)
  moreover have "cancel_unfilled (ex_new ''BTC'' ''c2'') ex_exchange" by (simp add: cancel_unfilled_def ex_new_def)
  ultimately show ?thesis using processRequest_total [OF ref.l3_book_axioms ex_exchange_ok] by (fastforce simp: ex_new_def)
qed

section \<open>Refusals\<close>

text \<open>Why a request is refused before it reaches the book.\<close>

definition refusal :: "Request \<Rightarrow> 'l Exchange \<Rightarrow> OrdRejectReason option" where
  "refusal request x = (case (body request, getSymbol (req_symbol request) x) of
      (NEW_ORDER_SINGLE msg, None) \<Rightarrow> Some RJ_UNKNOWN_CONTRACT
    | (ORDER_REPLACE_REQUEST msg, None) \<Rightarrow> Some RJ_UNKNOWN_CONTRACT
    | (ORDER_CANCEL_REQUEST msg, None) \<Rightarrow> Some RJ_UNKNOWN_CONTRACT
    | (NEW_ORDER_SINGLE msg, Some sy) \<Rightarrow>
        if ao_client_order_id msg \<noteq> [] \<and> findOrderByClientOrderId (ao_client_order_id msg) sy \<noteq> None
        then Some RJ_CLIENT_ORDER_ID_ALREADY_EXISTS else None
    | (ORDER_REPLACE_REQUEST msg, Some sy) \<Rightarrow>
        if lookup_order (mo_client_order_id msg) (mo_order_id msg) sy = None then Some RJ_UNKNOWN_ORDER else None
    | (ORDER_CANCEL_REQUEST msg, Some sy) \<Rightarrow>
        if lookup_order (co_client_order_id msg) (co_order_id msg) sy = None then Some RJ_UNKNOWN_ORDER else None
    | _ \<Rightarrow> None)"

fun request_ids :: "RequestBody \<Rightarrow> string \<times> string" where
  "request_ids (NEW_ORDER_SINGLE msg) = (ao_user_id msg, ao_client_order_id msg)"
| "request_ids (ORDER_REPLACE_REQUEST msg) = (mo_user_id msg, mo_client_order_id msg)"
| "request_ids (ORDER_CANCEL_REQUEST msg) = (co_user_id msg, co_client_order_id msg)"
| "request_ids _ = ([], [])"

text \<open>The answer to a request that is refused before it reaches the book, on every kind of request.\<close>

lemma refused_answer:
  assumes "refusal request x = Some reason"
  shows "\<exists>r. processRequest L env (Some request) x = Some (x\<lparr>x_response_queue := x_response_queue x @ [r]\<rparr>) \<and>
    r_response_type r = MT_REJECT \<and> r_order_status r = OS_REJECTED \<and> r_exec_type r = ET_REJECTED \<and> r_reject_reason r = reason \<and>
    r_symbol r = req_symbol request \<and> (r_user_id r, r_client_order_id r) = request_ids (body request) \<and>
    r_request_tag r = req_request_tag request \<and> r_leaves_qty r = 0 \<and> r_cum_qty r = 0"
proof (cases "body request")
  case (NEW_ORDER_SINGLE msg)
  then have "processRequest L env (Some request) x = Some (x_publish (new_reject request msg reason (env_clock env 0)) x)"
    using assms by (auto simp: refusal_def processRequest_def handleNewOrderRequest_def split: option.splits if_splits)
  then show ?thesis by (auto simp: x_publish_def new_reject_def reject_report_def NEW_ORDER_SINGLE)
next
  case (ORDER_REPLACE_REQUEST msg)
  then have "processRequest L env (Some request) x = Some (x_publish (modify_reject request msg reason (env_clock env 0)) x)"
    using assms by (auto simp: refusal_def processRequest_def handleModifyOrderRequest_def split: option.splits if_splits)
  then show ?thesis by (auto simp: x_publish_def modify_reject_def reject_report_def ORDER_REPLACE_REQUEST)
next
  case (ORDER_CANCEL_REQUEST msg)
  then have "processRequest L env (Some request) x = Some (x_publish (cancel_reject request msg reason (env_clock env 0)) x)"
    using assms by (auto simp: refusal_def processRequest_def handleCancelOrderRequest_def split: option.splits if_splits)
  then show ?thesis by (auto simp: x_publish_def cancel_reject_def reject_report_def ORDER_CANCEL_REQUEST)
qed (use assms in \<open>auto simp: refusal_def\<close>)

text \<open>
  A refused amendment or cancel carries its own request's user and client order id. The warning in order-lifecycle.md (line
  161), that the reject helpers always read \<open>request.add_order\<close> and the identity of such a reject is garbage,
  describes an earlier version: the helpers read \<open>modify_order\<close> and \<open>cancel_order\<close>.
\<close>

theorem amend_reject_identity:
  assumes "refusal request x = Some reason"
  shows "\<exists>r. processRequest L env (Some request) x = Some (x\<lparr>x_response_queue := x_response_queue x @ [r]\<rparr>) \<and>
    (\<forall>msg. body request = ORDER_REPLACE_REQUEST msg \<longrightarrow> (r_user_id r, r_client_order_id r) = (mo_user_id msg, mo_client_order_id msg)) \<and>
    (\<forall>msg. body request = ORDER_CANCEL_REQUEST msg \<longrightarrow> (r_user_id r, r_client_order_id r) = (co_user_id msg, co_client_order_id msg))"
  using refused_answer [OF assms, of L env] by fastforce

text \<open>
  C37. A refused request only answers. A request that names an instrument the venue does not list, a
  client order id in use, or an order that does not exist appends exactly one reject to the response
  queue, with the right reason, the instrument and the tag of its own request and no open or filled quantity, and for a
  new order its user and client order id, and changes nothing else:
  no book, no tape, no market data, no identity. Whose ids the reject of an amendment or a cancel carries is stated apart, in
  \<open>amend_reject_identity\<close>, because order-lifecycle.md (line 161) has an out-of-date warning about it.
\<close>

theorem refused_request:
  assumes "refusal request x = Some reason"
  shows "\<exists>r. processRequest L env (Some request) x = Some (x\<lparr>x_response_queue := x_response_queue x @ [r]\<rparr>) \<and>
    r_response_type r = MT_REJECT \<and> r_order_status r = OS_REJECTED \<and> r_exec_type r = ET_REJECTED \<and> r_reject_reason r = reason \<and>
    r_symbol r = req_symbol request \<and>
    (\<forall>msg. body request = NEW_ORDER_SINGLE msg \<longrightarrow> (r_user_id r, r_client_order_id r) = (ao_user_id msg, ao_client_order_id msg)) \<and>
    r_request_tag r = req_request_tag request \<and> r_leaves_qty r = 0 \<and> r_cum_qty r = 0"
proof -
  obtain r where r: "processRequest L env (Some request) x = Some (x\<lparr>x_response_queue := x_response_queue x @ [r]\<rparr>)"
    "r_response_type r = MT_REJECT" "r_order_status r = OS_REJECTED" "r_exec_type r = ET_REJECTED" "r_reject_reason r = reason"
    "r_symbol r = req_symbol request" "(r_user_id r, r_client_order_id r) = request_ids (body request)"
    "r_request_tag r = req_request_tag request" "r_leaves_qty r = 0" "r_cum_qty r = 0"
    using refused_answer [OF assms, of L env] by blast
  then show ?thesis by (intro exI [of _ r]) simp
qed

theorem refused_request_witness:
  "\<exists>r. processRequest rf_ops ex_env (Some (ex_new ''BTC'' ''c1'')) ex_exchange = Some (ex_exchange\<lparr>x_response_queue := [r]\<rparr>) \<and>
     r_reject_reason r = RJ_CLIENT_ORDER_ID_ALREADY_EXISTS \<and> r_client_order_id r = ''c1'' \<and> r_request_tag r = 4"
proof -
  have "refusal (ex_new ''BTC'' ''c1'') ex_exchange = Some RJ_CLIENT_ORDER_ID_ALREADY_EXISTS"
    by (simp add: refusal_def ex_new_def ex_getSymbol findOrderByClientOrderId_def ex_lookup)
  from refused_request [OF this, of rf_ops ex_env] show ?thesis by (auto simp: ex_new_def)
qed

section \<open>Cancels\<close>

text \<open>
  C36. A cancel takes the order out and says so. A cancel that finds its order removes exactly that
  order from its side of the book and from the lookup, leaves the other side and every other order
  alone, and answers twice: pending cancel, then canceled with no open quantity, both carrying the
  tag of the cancel. When the order has been filled in part, the assertion at exchange.cpp:889 fails: a program
  built with assertions ends there, \<open>None\<close>, and one built without them behaves as for any other order. The
  comment at coinbase_rest_order_gateway.cpp:598, that a successful cancel produces no response, is out of date.
\<close>

theorem cancel_request_outcome:
  assumes "l3_book L binv" and "exchange_ok L binv x" and "body request = ORDER_CANCEL_REQUEST msg"
    and "getSymbol (req_symbol request) x = Some sy" and "lookup_order (co_client_order_id msg) (co_order_id msg) sy = Some p"
  shows "if env_asserts env \<and> leaves_quantity (ob_buffer sy p) \<noteq> quantity (ob_buffer sy p)
    then processRequest L env (Some request) x = None
    else \<exists>x' sy' r1 r2. processRequest L env (Some request) x = Some x' \<and> exchange_ok L binv x' \<and>
    x_symbols x' = (x_symbols x)(req_symbol request \<mapsto> sy') \<and> quiet sy' \<and>
    (let ord = ob_buffer sy p in
       queue L sy' (side ord) = remove_entry (id_num ord) (queue L sy (side ord)) \<and>
       queue L sy' (opposite_side (side ord)) = queue L sy (opposite_side (side ord)) \<and>
       ob_orders sy' = (ob_orders sy)(id_num ord := None) \<and> x_response_queue x' = x_response_queue x @ [r1, r2] \<and>
       (r_order_status r1, r_leaves_qty r1) = (OS_PENDING_CANCEL, leaves_quantity ord) \<and>
       (r_order_status r2, r_leaves_qty r2) = (OS_CANCELED, 0) \<and>
       (\<forall>r\<in>{r1, r2}. r_order_num r = id_num ord \<and> r_request_tag r = req_request_tag request))"
proof (cases "env_asserts env \<and> leaves_quantity (ob_buffer sy p) \<noteq> quantity (ob_buffer sy p)")
  case True
  then show ?thesis using cancel_aborts [OF assms(4,5)] by (simp add: processRequest_def assms(3))
next
  case False
  then have whole: "env_asserts env \<longrightarrow> leaves_quantity (ob_buffer sy p) = quantity (ob_buffer sy p)" by blast
  obtain x' sy' where ret: "handleCancelOrderRequest L env request msg x = Some x'" and "exchange_ok L binv x'" "x_symbols x' = (x_symbols x)(req_symbol request \<mapsto> sy')" "quiet sy'"
    "queue L sy' (side (ob_buffer sy p)) = remove_entry (id_num (ob_buffer sy p)) (queue L sy (side (ob_buffer sy p)))"
    "queue L sy' (opposite_side (side (ob_buffer sy p))) = queue L sy (opposite_side (side (ob_buffer sy p)))"
    "ob_orders sy' = (ob_orders sy)(id_num (ob_buffer sy p) := None)"
    "x_response_queue x' = x_response_queue x @
       [pending_cancel_report ((ob_buffer sy p)\<lparr>status := OS_PENDING_CANCEL, request_tag := req_request_tag request\<rparr>) (time_stamp request)
          (x_response_slot x (length (x_response_queue x))),
        cancel_report ((ob_buffer sy p)\<lparr>status := OS_PENDING_CANCEL, request_tag := req_request_tag request, last_update_time := env_clock env 0,
          leaves_quantity := 0\<rparr>) (time_stamp request) (x_response_slot x (length (x_response_queue x) + 1))]"
    by (rule handleCancel_ok [OF assms(1,2,4,5) refl whole])
  moreover have "processRequest L env (Some request) x = Some x'" by (simp add: processRequest_def assms(3) ret)
  moreover have "r_order_status (pending_cancel_report ord t slot) = OS_PENDING_CANCEL" "r_leaves_qty (pending_cancel_report ord t slot) = leaves_quantity ord"
    "r_order_num (pending_cancel_report ord t slot) = id_num ord" "r_request_tag (pending_cancel_report ord t slot) = request_tag ord"
    "r_order_status (cancel_report ord t slot) = OS_CANCELED" "r_leaves_qty (cancel_report ord t slot) = 0"
    "r_order_num (cancel_report ord t slot) = id_num ord" "r_request_tag (cancel_report ord t slot) = request_tag ord" for ord t slot
    by (simp_all add: pending_cancel_report_def cancel_report_def setOrderIdentity_def)
  ultimately show ?thesis
    unfolding if_not_P [OF False] by (intro exI [of _ x'] exI [of _ sy']) (simp add: Let_def)
qed

theorem cancel_request_outcome_witness:
  "\<exists>x' sy' r1 r2. processRequest rf_ops ex_env (Some ex_cancel) ex_exchange = Some x' \<and> x_symbols x' = [''BTC'' \<mapsto> sy'] \<and>
     queue rf_ops sy' BUY = [] \<and> x_response_queue x' = [r1, r2] \<and> r_order_status r2 = OS_CANCELED \<and> r_request_tag r2 = 4"
proof -
  have "body ex_cancel = ORDER_CANCEL_REQUEST \<lparr>co_user_id = ''ann'', co_order_id = ''u1'', co_client_order_id = []\<rparr>"
    "getSymbol (req_symbol ex_cancel) ex_exchange = Some (load ex_exchange (ex_symbol FifoMatchingEngine))"
    by (simp_all add: ex_cancel_def ex_getSymbol)
  from cancel_request_outcome [OF ref.l3_book_axioms ex_exchange_ok this, of 7 ex_env] show ?thesis
    by (auto simp: Let_def ex_cancel_def lookup_order_def findOrderByOrderId_def ex_lookup ex_resting ex_engine_sel)
qed

section \<open>Client identities\<close>

text \<open>
  Client identities are stable and distinct. However many users the exchange has seen, in any
  order and any number of times, asking again returns the identity given on first sight, two users
  have the same identity only if they are the same user, and a user without a name gets -1, which no
  named user ever gets.
\<close>

theorem client_identity:
  assumes "clients_ok x" and "x' = foldl (\<lambda>x u. snd (clientIdFor u x)) x us"
  shows "(\<forall>u\<in>set us. \<forall>v\<in>set us. fst (clientIdFor u x') = fst (clientIdFor v x') \<longleftrightarrow> u = v) \<and>
    (\<forall>u\<in>set us. snd (clientIdFor u x') = x' \<and> (fst (clientIdFor u x') = -1 \<longleftrightarrow> u = [])) \<and>
    (\<forall>u i. x_client_ids x u = Some i \<longrightarrow> fst (clientIdFor u x') = i)"
proof -
  have run: "clients_ok x' \<and> (\<forall>u\<in>set us. u \<noteq> [] \<longrightarrow> x_client_ids x' u \<noteq> None) \<and>
      (\<forall>u i. x_client_ids x u = Some i \<longrightarrow> x_client_ids x' u = Some i)"
    using assms(2)
  proof (induction us arbitrary: x' rule: rev_induct)
    case Nil
    then show ?case using assms(1) by simp
  next
    case (snoc u us)
    let ?y = "foldl (\<lambda>x u. snd (clientIdFor u x)) x us"
    obtain i where i: "clientIdFor u ?y = (i, x')" using snoc.prems by (cases "clientIdFor u ?y") simp
    note y = snoc.IH [OF refl] and c = clientIdFor_ok [OF conjunct1 [OF snoc.IH [OF refl]] i]
    show ?case using y c by fastforce
  qed
  then have hit: "clientIdFor u x' = (if u = [] then -1 else the (x_client_ids x' u), x')" if "u \<in> set us" for u
    using that by (auto simp: clientIdFor_def)
  have dist: "u = v" if "x_client_ids x' u = Some i" "x_client_ids x' v = Some i" for u v i
    using run that unfolding clients_ok_def by blast
  have nonneg: "0 \<le> i" if "x_client_ids x' u = Some i" for u i using run that by (simp add: clients_ok_def)
  have some: "u \<noteq> [] \<Longrightarrow> \<exists>i. x_client_ids x' u = Some i \<and> 0 \<le> i" if "u \<in> set us" for u
    using run that nonneg by (cases "x_client_ids x' u") auto
  have "snd (clientIdFor u x') = x' \<and> (fst (clientIdFor u x') = -1 \<longleftrightarrow> u = [])" if "u \<in> set us" for u
    using hit [OF that] some [OF that] by (cases "u = []") auto
  moreover have "fst (clientIdFor u x') = i" if "x_client_ids x u = Some i" for u i
  proof -
    have "u \<noteq> []" using assms(1) that by (simp add: clients_ok_def)
    then show ?thesis using run that by (simp add: clientIdFor_def)
  qed
  moreover have "fst (clientIdFor u x') = fst (clientIdFor v x') \<longleftrightarrow> u = v" if m: "u \<in> set us" "v \<in> set us" for u v
    using hit [OF m(1)] hit [OF m(2)] some [OF m(1)] some [OF m(2)] dist by (cases "u = []"; cases "v = []") auto
  ultimately show ?thesis by blast
qed

theorem client_identity_witness:
  "let x' = foldl (\<lambda>x u. snd (clientIdFor u x)) ex_exchange [''ann'', [], ''bob'', ''ann''] in
     fst (clientIdFor ''ann'' x') \<noteq> fst (clientIdFor ''bob'' x') \<and> fst (clientIdFor [] x') = -1"
proof -
  have "clients_ok ex_exchange" using ex_exchange_ok by (simp add: exchange_ok_def tables_ok_def)
  from client_identity [OF this refl, of "[''ann'', [], ''bob'', ''ann'']"] show ?thesis by (auto simp: Let_def simp del: foldl.simps)
qed

end
