(* ===== verification/Feed_Properties.thy ===== *)
theory Feed_Properties
  imports Exchange_Properties "HOL-Library.Multiset"
begin

text \<open>The properties of the venue feeds and of the public tape, each with a run on the reference L3 book.\<close>

section \<open>Level feeds\<close>

text \<open>
  C33. Reconciling a level is exact. After a level update the phantom quantity at the price is what
  the venue reports, less the traded quantity the update cannot have seen, and never negative. The
  client orders, everything at other prices, the other side and the order records stay as they were,
  and the book stays consistent and uncrossed.
\<close>

theorem reconcile_exact:
  fixes st :: "('l, 'z) instrument"
  assumes "l3_book L binv" and "symbol_ok L binv {} st" and "real_side s" and "0 \<le> target"
    and "l3_level_at L (ob_l3 st) s px = Some (level, k)" and "seq = 0 \<or> l3_last_seq L (ob_l3 st) \<le> seq"
  shows "let st' = reconcilePhantomQty L s px target t seq ee st; u = credit_after t (credits_at s px st) in
    getMDLevelQty st' px = (if 0 < u then max 0 (target - u) else target) \<and> symbol_ok L binv {} st' \<and>
    ob_orders st' = ob_orders st \<and> ob_buffer st' = ob_buffer st \<and> queue L st' (opposite_side s) = queue L st (opposite_side s) \<and>
    (\<forall>e\<in>set (queue L st s). ob_orders st (en_id e) \<noteq> None \<or> en_price e \<noteq> px \<longrightarrow> e \<in> set (queue L st' s)) \<and>
    (\<forall>y. y \<noteq> px \<longrightarrow> getMDLevelQty st' y = getMDLevelQty st y)"
  using reconcile_ok [OF assms refl, of t ee] by (simp add: Let_def level_frame_def reconciled_qty_def)

lemma ex_rf_queue: "rf_queue (ob_l3 ex_engine) s = queue rf_ops ex_engine s"
  by (simp add: queue_def rf_ops_def)

text \<open>The venue shows 4 at the price of the client's buy: 4 of phantom quantity join it.\<close>

theorem reconcile_exact_witness:
  "let st' = reconcilePhantomQty rf_ops BUY 100 4 5 0 True (ex_symbol FifoMatchingEngine) in
     getMDLevelQty st' 100 = 4 \<and> ob_orders st' = [1 \<mapsto> 7] \<and> \<lparr>en_price = 100, en_id = 1, en_qty = 5, en_prio = 1\<rparr> \<in> set (queue rf_ops st' BUY)"
proof -
  let ?st = "ex_symbol FifoMatchingEngine"
  have "rf_queue (ob_l3 ?st) BUY = [\<lparr>en_price = 100, en_id = 1, en_qty = 5, en_prio = 1\<rparr>]"
    using ex_rf_queue [of BUY] ex_engine_sel(3) by (simp add: ex_symbol_def)
  then have "\<exists>level k. l3_level_at rf_ops (ob_l3 ?st) BUY 100 = Some (level, k)"
    by (simp add: rf_ops_def push_entry_def level_of_def del: rf_queue.simps)
  then obtain level k where lv: "l3_level_at rf_ops (ob_l3 ?st) BUY 100 = Some (level, k)" by blast
  show ?thesis
    using reconcile_exact [OF ref.l3_book_axioms ex_symbol_ok _ _ lv, of 4 0 5 True]
    by (simp add: Let_def real_side_def credits_at_def ex_resting ex_engine_sel)
qed

section \<open>Order-by-order feeds\<close>

text \<open>
  C34. The mirror follows the venue. A new venue order first fills the client orders it crosses and
  rests with what is left; a change in place sets the order to the venue's quantity, whatever clients
  had taken of it; a requeue takes it out and rests it again under its new priority; a delete removes
  it. The event returns, the entry under the event's id is exactly that, every other entry of that side
  stays in its place, and the instrument can go back to its exchange with its update still to flush.
\<close>

theorem market_order_mirrored:
  fixes sy :: "'l Symbol"
  assumes "l3_book L binv" and "exchange_ok L binv x" and "getSymbol n x = Some sy" and "mirror_event L ev sy"
  shows "\<exists>sy' x'. applyMarketOrder L ev (sy, x) = Some (sy', x') \<and> exchange_ok L binv (leave n (sy', x')) \<and> n \<in> set (x_market_changed x') \<and>
    (let i = me_book_order_id ev; s = me_side ev; q = mirror_rest L ev sy in
       remove_entry i (queue L sy' s) = remove_entry i (queue L sy s) \<and>
       (\<forall>e\<in>set (queue L sy' s). en_id e = i \<longrightarrow> 0 < q \<and> en_price e = me_price ev \<and> en_qty e = q) \<and>
       (0 < q \<longrightarrow> i \<in> en_id ` set (queue L sy' s)))"
proof -
  note g = getSymbol_ok [OF assms(2,3)]
  obtain v' where v': "applyMarketOrder L ev (sy, x) = Some (fst v', markMarketChanged (ob_symbol (fst v')) (snd v'))"
    "market_done L binv (sy, x) v'" "mirrored L ev sy (fst v')"
    by (rule market_event_ok [OF assms(1) g(1,3) assms(4)])
  have "ob_symbol (fst v') = n" using v'(2) g(2) by (auto simp: market_done_def split: prod.splits)
  then show ?thesis
    using v'(1,3) market_leave_ok [OF assms(2,3) v'(2)] by (simp add: mirrored_def Let_def)
qed

text \<open>A venue sell of 8 at 100 takes the client's buy of 5 and rests with 3.\<close>

definition ex_market_sell :: MarketOrderEvent where
  "ex_market_sell = \<lparr>me_book_order_id = 0, me_book_priority = 1, me_price = 100, me_transact_time = 5, me_qty = 8, me_side = SELL,
     me_action = ACTION_NEW, me_requeue = False\<rparr>"

theorem market_order_mirrored_witness:
  "\<exists>sy' x'. applyMarketOrder rf_ops ex_market_sell (load ex_exchange (ex_symbol FifoMatchingEngine), ex_exchange) = Some (sy', x') \<and>
     (\<exists>e\<in>set (queue rf_ops sy' SELL). en_id e = 0 \<and> en_price e = 100 \<and> en_qty e = 3)"
proof -
  let ?sy = "load ex_exchange (ex_symbol FifoMatchingEngine)"
  have ev: "mirror_event rf_ops ex_market_sell ?sy"
    by (simp add: mirror_event_def ex_market_sell_def real_side_def NULL_PRICE_def ex_resting ex_engine_sel fits_def)
  have "mirror_rest rf_ops ex_market_sell ?sy = 3"
    by (simp add: mirror_rest_def ex_market_sell_def feed_leftover_def ex_resting ex_engine_sel crosses_def isPriceBetterOrEqual_def)
  moreover have "me_book_order_id ex_market_sell = 0" "me_side ex_market_sell = SELL" "me_price ex_market_sell = 100"
    by (simp_all add: ex_market_sell_def)
  ultimately show ?thesis
    using market_order_mirrored [OF ref.l3_book_axioms ex_exchange_ok ex_getSymbol(1) ev] by (auto simp: Let_def image_iff)
qed

text \<open>
  C35. A venue trade fills the queue in front of it. Replaying a venue trade of some quantity at some
  price takes from the opposite side what the instrument's matching algorithm gives an aggressor of
  that price and quantity: the entries left are those of the algorithm, filled and left-over quantity
  add up to the trade, the aggressor's own side is untouched and nothing of the remainder rests.
\<close>

theorem market_trade_replayed:
  fixes sy :: "'l Symbol"
  assumes "l3_book L binv" and "exchange_ok L binv x" and "getSymbol n x = Some sy" and "replayable L ev sy"
    and "engine_spec (sy_engine sy) (crosses (opposite_side (mte_aggressor ev)) (mte_price ev)) (\<lambda>_. False) (mte_qty ev)
      (queue L sy (opposite_side (mte_aggressor ev))) = (fs, cs, es', q')"
  shows "\<exists>sy' x'. replayMarketTrade L ev (sy, x) = Some (sy', x') \<and> exchange_ok L binv (leave n (sy', x')) \<and>
    queue L sy' (opposite_side (mte_aggressor ev)) = es' \<and> mte_qty ev = filled_qty fs + q' \<and>
    queue L sy' (mte_aggressor ev) = queue L sy (mte_aggressor ev)"
proof -
  note g = getSymbol_ok [OF assms(2,3)]
  obtain v' where "replayMarketTrade L ev (sy, x) = Some (fst v', markMarketChanged (ob_symbol (fst v')) (snd v'))"
    "market_done L binv (sy, x) v'" "queue L (fst v') (opposite_side (mte_aggressor ev)) = es'"
    "queue L (fst v') (mte_aggressor ev) = queue L sy (mte_aggressor ev)" "mte_qty ev = filled_qty fs + q'"
    by (rule replay_ok [OF assms(1) g(1,3) assms(4,5)])
  then show ?thesis using market_leave_ok [OF assms(2,3)] by blast
qed

definition ex_market_trade :: MarketTradeEvent where
  "ex_market_trade = \<lparr>mte_price = 99, mte_qty = 2, mte_aggressor = SELL, mte_transact_time = 5\<rparr>"

theorem market_trade_replayed_witness:
  "\<exists>sy' x'. replayMarketTrade rf_ops ex_market_trade (load ex_exchange (ex_symbol FifoMatchingEngine), ex_exchange) = Some (sy', x') \<and>
     queue rf_ops sy' BUY = [\<lparr>en_price = 100, en_id = 1, en_qty = 3, en_prio = 1\<rparr>]"
proof -
  let ?sy = "load ex_exchange (ex_symbol FifoMatchingEngine)"
  have ev: "replayable rf_ops ex_market_trade ?sy"
    by (simp add: replayable_def ex_market_trade_def real_side_def ex_resting ex_engine_sel fits_def)
  have "engine_spec (sy_engine ?sy) (crosses (opposite_side (mte_aggressor ex_market_trade)) (mte_price ex_market_trade)) (\<lambda>_. False)
      (mte_qty ex_market_trade) (queue rf_ops ?sy (opposite_side (mte_aggressor ex_market_trade))) =
      ([(\<lparr>en_price = 100, en_id = 1, en_qty = 5, en_prio = 1\<rparr>, 2)], [], [\<lparr>en_price = 100, en_id = 1, en_qty = 3, en_prio = 1\<rparr>], 0)"
    by (simp add: ex_market_trade_def ex_resting ex_engine_sel crosses_def isPriceBetterOrEqual_def)
  from market_trade_replayed [OF ref.l3_book_axioms ex_exchange_ok ex_getSymbol(1) ev this] show ?thesis by (auto simp: ex_market_trade_def)
qed

text \<open>
  Flushing strands nothing. After \<open>flushMarketEvents\<close> no instrument of the exchange holds an
  unpublished level or order update and none is marked any more, while every book and every order is
  as it was.
\<close>

theorem flush_strands_nothing:
  assumes "exchange_ok L binv x"
  shows "let x' = flushMarketEvents x in exchange_ok L binv x' \<and> x_market_changed x' = [] \<and>
    (\<forall>m sy'. x_symbols x' m = Some sy' \<longrightarrow> ob_level_cache sy' = [] \<and> ob_order_cache sy' = [] \<and>
       (\<exists>sy. x_symbols x m = Some sy \<and> queue L sy' = queue L sy \<and> ob_orders sy' = ob_orders sy))"
  using flushMarketEvents_ok [OF assms refl] by (simp add: Let_def quiet_def)

theorem flush_strands_nothing_witness:
  "x_market_changed ex_exchange = [''BTC''] \<and> x_market_changed (flushMarketEvents ex_exchange) = [] \<and>
     exchange_ok rf_ops rf_inv (flushMarketEvents ex_exchange)"
  using flush_strands_nothing [OF ex_exchange_ok] by (simp add: Let_def)

section \<open>The public tape\<close>

lemma history_items_list: "rb_inv r \<Longrightarrow> history_items r = ring_list r"
proof -
  assume inv: "rb_inv r"
  have "history_items r = concat (map (\<lambda>i. [ring_list r ! i]) [0..<rb_size r])"
    unfolding history_items_def by (rule arg_cong [where f = concat]) (simp add: rb_at_ring_list [OF inv])
  also have "\<dots> = map ((!) (ring_list r)) [0..<length (ring_list r)]" by (simp add: concat_map_singleton)
  also have "\<dots> = ring_list r" by (rule map_nth)
  finally show ?thesis .
qed

text \<open>
  The trade snapshot is complete and split. A subscriber gets exactly the newest 63 trades recorded
  on the instrument, each once: first those the book reflects, then the prints it does not, each block
  in the order of the tape, with the counts of the two blocks in the frame.
\<close>

theorem trade_snapshot_split:
  assumes "sy_trade_history sy = rb_new d TRADE_HISTORY_CAPACITY"
  shows "let sy' = foldl (\<lambda>sy t. sym_recordTrade t sy) sy ts; newest = drop (length ts - 63) ts; seen = reflected_in_book (ob_last_update_time sy') in
    \<exists>frame. snd (publishTradeSubscriptionResponse ch (sy', x)) = x\<lparr>x_md_queue := x_md_queue x @ [frame]\<rparr> \<and>
      md_symbol frame = ob_symbol sy' \<and> md_type frame = MD_SUB_RESPONSE \<and>
      md_body frame = TradeSnapshotBody ch (length (filter seen newest)) (length (filter (\<lambda>t. \<not> seen t) newest))
        (filter seen newest @ filter (\<lambda>t. \<not> seen t) newest) \<and>
      mset (filter seen newest @ filter (\<lambda>t. \<not> seen t) newest) = mset newest"
proof -
  let ?sy = "foldl (\<lambda>sy t. sym_recordTrade t sy) sy ts"
  have cap: "TRADE_HISTORY_CAPACITY = 2 ^ 6" by (simp add: TRADE_HISTORY_CAPACITY_def)
  have rec: "sy_trade_history (foldl (\<lambda>sy t. sym_recordTrade t sy) sy us) = foldl (\<lambda>r t. rb_push t r) (sy_trade_history sy) us" for us
    by (induction us arbitrary: sy) (simp_all add: sym_recordTrade_def)
  have "sy_trade_history ?sy = foldl (\<lambda>r t. rb_push t r) (rb_new d (2 ^ 6)) ts" using assms by (simp only: rec cap)
  from ring_pushes [OF _ this] have items: "history_items (sy_trade_history ?sy) = drop (length ts - 63) ts" by (simp add: history_items_list)
  define news where "news = drop (length ts - 63) ts"
  define seen where "seen = reflected_in_book (ob_last_update_time ?sy)"
  let ?frame = "\<lparr>md_symbol = ob_symbol ?sy, md_venue = x_venue x, md_type = MD_SUB_RESPONSE, md_body =
      TradeSnapshotBody ch (length (filter seen news)) (length (filter (\<lambda>t. \<not> seen t) news)) (filter seen news @ filter (\<lambda>t. \<not> seen t) news)\<rparr>"
  have "snd (publishTradeSubscriptionResponse ch (?sy, x)) = x\<lparr>x_md_queue := x_md_queue x @ [?frame]\<rparr>"
    by (simp add: Let_def publishTradeSubscriptionResponse_def md_push_def items news_def seen_def)
  moreover have "mset (filter seen news @ filter (\<lambda>t. \<not> seen t) news) = mset news"
    using multiset_partition [of "mset news" seen] by simp
  ultimately show ?thesis
    unfolding Let_def news_def [symmetric] seen_def [symmetric] by (intro exI [of _ ?frame]) simp
qed

theorem trade_snapshot_split_witness:
  "let t1 = blank_trade\<lparr>mt_event_time := 9, mt_flags := F_NONE\<lparr>F_NOT_IN_BOOK := True\<rparr>\<rparr>;
       sy' = foldl (\<lambda>sy t. sym_recordTrade t sy) (ex_symbol FifoMatchingEngine) [t1, blank_trade] in
     \<exists>frame. snd (publishTradeSubscriptionResponse 2 (sy', ex_exchange)) = ex_exchange\<lparr>x_md_queue := x_md_queue ex_exchange @ [frame]\<rparr> \<and>
       md_type frame = MD_SUB_RESPONSE"
proof -
  have "sy_trade_history (ex_symbol FifoMatchingEngine) = rb_new blank_trade TRADE_HISTORY_CAPACITY" by simp
  from trade_snapshot_split [OF this, of "[blank_trade\<lparr>mt_event_time := 9, mt_flags := F_NONE\<lparr>F_NOT_IN_BOOK := True\<rparr>\<rparr>, blank_trade]" 2 ex_exchange]
  show ?thesis unfolding Let_def by blast
qed

section \<open>Which engine an instrument gets\<close>

text \<open>
  An instrument matches by the venue's algorithm. Binding an instrument gives it an engine of the
  configured type, valid, the same one for every instrument of the venue, and the venue's self-match
  mode. Once an instrument is bound the algorithm cannot be configured any more.
\<close>

theorem matching_assigned:
  assumes "tables_ok x" and "assignMatching sy x = Inr (sy', x')"
  shows "engine_type (sy_engine sy') = mc_type (x_matching x) \<and> engine_valid (sy_engine sy') \<and> sy_smp_mode sy' = x_smp_mode x \<and>
    (\<forall>sz. assignMatching sz x' = Inr (sz\<lparr>sy_engine := sy_engine sy', sy_smp_mode := x_smp_mode x'\<rparr>, x')) \<and>
    (\<forall>to_qty config. configureMatching to_qty config x' = Inl ConfiguredTooLate)"
proof -
  note a = assignMatching_ok [OF assms]
  have m: "x_matching x' = x_matching x" using assms(2) by (auto simp: assignMatching_def split: option.splits sum.splits)
  have "sy_smp_mode sy' = x_smp_mode x" by (subst a(8)) simp
  moreover have "x_matching_engines x' FIFO \<noteq> None \<or> x_matching_engines x' ProRata \<noteq> None"
    using a(5) by (cases "mc_type (x_matching x)") auto
  ultimately show ?thesis using a(5-7) by (simp add: assignMatching_def m configureMatching_def)
qed

theorem matching_assigned_witness:
  "\<exists>sy' x'. assignMatching (unbound ref_empty ''ETH'' 1 blank_trade ex_exchange) ex_exchange = Inr (sy', x') \<and>
     engine_type (sy_engine sy') = FIFO \<and> configureMatching (\<lambda>_. None) Map.empty x' = Inl ConfiguredTooLate"
proof -
  have "x_matching ex_exchange = \<lparr>mc_type = FIFO, mc_pro_rata = default_pro_rata\<rparr>" by (simp add: ex_exchange_def)
  moreover from this obtain sy' x' where a: "assignMatching (unbound ref_empty ''ETH'' 1 blank_trade ex_exchange) ex_exchange = Inr (sy', x')"
    by (simp add: assignMatching_def)
  moreover have "tables_ok ex_exchange" using ex_exchange_ok by (simp add: exchange_ok_def)
  ultimately show ?thesis using matching_assigned by fastforce
qed

end
