(* ===== verification/Order_Store.thy ===== *)
theory Order_Store
  imports Sim_Order
begin

text \<open>
  \<open>src/src/order_gateway/order_store.hpp\<close>: the orders a gateway shows to its clients, rebuilt from
  the response stream on the gateway's own thread. The store holds a map from order ids to records
  and, per user, the ids in the order they were first seen. The record's two floating-point members
  (\<open>fee\<close>, \<open>filled_value\<close>) are not part of the model. The response queue is the list of the responses
  published so far, and the store's cursor an index into it.
\<close>

section \<open>State and operations\<close>

record OrderStore =
  os_attached :: bool
  os_cursor :: nat
  os_by_order_id :: "string \<rightharpoonup> Order"
  os_ids_by_user :: "string \<rightharpoonup> string list"

definition new_store :: "nat option \<Rightarrow> OrderStore" where
  "new_store initial_reading_index = \<lparr>
     os_attached = (initial_reading_index \<noteq> None),
     os_cursor = (case initial_reading_index of None \<Rightarrow> 0 | Some i \<Rightarrow> i),
     os_by_order_id = Map.empty, os_ids_by_user = Map.empty\<rparr>"

definition os_find :: "string \<Rightarrow> OrderStore \<Rightarrow> Order option" where
  "os_find oid st = os_by_order_id st oid"

definition orders_of :: "string \<Rightarrow> OrderStore \<Rightarrow> Order list" where
  "orders_of uid st = (case os_ids_by_user st uid of
      None \<Rightarrow> []
    | Some ids \<Rightarrow> concat (map (\<lambda>i. case os_by_order_id st i of None \<Rightarrow> [] | Some order \<Rightarrow> [order]) (rev ids)))"

text \<open>What the first report of an order fixes, and what every report overwrites.\<close>

definition first_sight :: "OrderResponse \<Rightarrow> Order" where
  "first_sight response = default_order\<lparr>
     order_id := r_order_id response,
     symbol := r_symbol response,
     user_id := r_user_id response,
     client_order_id := r_client_order_id response,
     created_time := r_creation_time response,
     product_type := PT_SPOT\<rparr>"

definition fold_report :: "OrderResponse \<Rightarrow> Order \<Rightarrow> Order" where
  "fold_report response order =
     (let order1 = order\<lparr>
            side := r_side response,
            otype := r_order_type response,
            time_in_force := r_time_in_force response,
            status := r_order_status response,
            post_only := r_post_only response,
            price := r_price response,
            quantity := r_qty response,
            leaves_quantity := r_leaves_qty response,
            cum_quantity := r_cum_qty response,
            avg_fill_price := r_avg_fill_price response,
            last_update_time := r_timestamp response,
            pending_cancel := (r_order_status response = OS_PENDING_CANCEL)\<rparr>;
          order2 = (if r_exec_type response = ET_TRADE
                    then order1\<lparr>
                      last_fill_price := r_last_fill_price response,
                      last_fill_qty := r_last_qty response,
                      last_fill_time := Some (r_timestamp response),
                      num_fills := num_fills order1 + 1\<rparr>
                    else order1)
      in if r_order_status response = OS_REJECTED then order2\<lparr>reject_message := r_error_message response\<rparr>
         else if r_order_status response = OS_CANCELED then order2\<lparr>cancel_message := r_error_message response\<rparr>
         else order2)"

definition os_apply :: "OrderStore \<Rightarrow> OrderResponse \<Rightarrow> OrderStore" where
  "os_apply st response =
     (let oid = r_order_id response in
      if oid = [] then st
      else case os_by_order_id st oid of
        Some order \<Rightarrow> st\<lparr>os_by_order_id := (os_by_order_id st)(oid \<mapsto> fold_report response order)\<rparr>
      | None \<Rightarrow>
          (let order = first_sight response;
               ids = (case os_ids_by_user st (user_id order) of None \<Rightarrow> [] | Some l \<Rightarrow> l)
           in st\<lparr>os_by_order_id := (os_by_order_id st)(oid \<mapsto> fold_report response order),
                 os_ids_by_user := (os_ids_by_user st)(user_id order \<mapsto> ids @ [oid])\<rparr>))"

fun drain_loop :: "nat \<Rightarrow> OrderResponse list \<Rightarrow> OrderStore \<Rightarrow> OrderStore" where
  "drain_loop 0 queue st = st"
| "drain_loop (Suc n) queue st =
     (if os_cursor st < length queue
      then drain_loop n queue (os_apply (st\<lparr>os_cursor := os_cursor st + 1\<rparr>) (queue ! os_cursor st))
      else st)"

definition drain :: "nat \<Rightarrow> OrderResponse list \<Rightarrow> OrderStore \<Rightarrow> OrderStore" where
  "drain max_batch queue st = (if os_attached st then drain_loop max_batch queue st else st)"

section \<open>The projection\<close>

text \<open>The reports of one order, and the ids of a user in order of first sight.\<close>

definition reports :: "string \<Rightarrow> OrderResponse list \<Rightarrow> OrderResponse list" where
  "reports oid rs = filter (\<lambda>r. r_order_id r = oid) rs"

fun first_ids :: "string set \<Rightarrow> OrderResponse list \<Rightarrow> (string \<times> string) list" where
  "first_ids seen [] = []"
| "first_ids seen (r # rs) =
     (if r_order_id r = [] \<or> r_order_id r \<in> seen then first_ids seen rs
      else (r_user_id r, r_order_id r) # first_ids (insert (r_order_id r) seen) rs)"

lemma reports_simps [simp]:
  "reports i [] = []" "reports i (r # rs) = (if r_order_id r = i then r # reports i rs else reports i rs)"
  "reports i (xs @ ys) = reports i xs @ reports i ys"
  by (simp_all add: reports_def)

lemma first_ids_snoc:
  "first_ids seen (rs @ [r]) = first_ids seen rs @
     (if r_order_id r = [] \<or> r_order_id r \<in> seen \<or> reports (r_order_id r) rs \<noteq> [] then [] else [(r_user_id r, r_order_id r)])"
  by (induction rs arbitrary: seen) auto

lemma first_ids_set: "snd ` set (first_ids seen rs) = {i. i \<noteq> [] \<and> i \<notin> seen \<and> reports i rs \<noteq> []}"
  by (induction rs arbitrary: seen) auto

lemma first_sight_sel [simp]:
  "order_id (first_sight r) = r_order_id r" "symbol (first_sight r) = r_symbol r" "user_id (first_sight r) = r_user_id r"
  "client_order_id (first_sight r) = r_client_order_id r" "created_time (first_sight r) = r_creation_time r" "num_fills (first_sight r) = 0"
  by (simp_all add: first_sight_def default_order_def)

lemma fold_report_sel [simp]:
  "order_id (fold_report r ord) = order_id ord" "symbol (fold_report r ord) = symbol ord" "user_id (fold_report r ord) = user_id ord"
  "client_order_id (fold_report r ord) = client_order_id ord" "created_time (fold_report r ord) = created_time ord"
  "status (fold_report r ord) = r_order_status r" "leaves_quantity (fold_report r ord) = r_leaves_qty r"
  "cum_quantity (fold_report r ord) = r_cum_qty r" "quantity (fold_report r ord) = r_qty r" "price (fold_report r ord) = r_price r"
  "num_fills (fold_report r ord) = num_fills ord + (if r_exec_type r = ET_TRADE then 1 else 0)"
  by (simp_all add: fold_report_def Let_def)

lemma os_apply_known:
  assumes "r_order_id r \<noteq> []" and "os_by_order_id st (r_order_id r) = Some ord"
  shows "os_by_order_id (os_apply st r) = (os_by_order_id st)(r_order_id r \<mapsto> fold_report r ord)" "os_ids_by_user (os_apply st r) = os_ids_by_user st"
  using assms by (simp_all add: os_apply_def)

lemma os_apply_new:
  assumes "r_order_id r \<noteq> []" and "os_by_order_id st (r_order_id r) = None"
  shows "os_by_order_id (os_apply st r) = (os_by_order_id st)(r_order_id r \<mapsto> fold_report r (first_sight r))"
    "os_ids_by_user (os_apply st r) = (os_ids_by_user st)(r_user_id r \<mapsto>
       (case os_ids_by_user st (r_user_id r) of None \<Rightarrow> [] | Some l \<Rightarrow> l) @ [r_order_id r])"
  using assms by (simp_all add: os_apply_def Let_def)

lemma store_run:
  assumes "st = foldl os_apply st0 rs" and "os_by_order_id st0 = Map.empty" and "os_ids_by_user st0 = Map.empty"
  shows "(\<forall>i. os_by_order_id st i = (if i = [] \<or> reports i rs = [] then None
            else Some (foldl (\<lambda>ord r. fold_report r ord) (first_sight (hd (reports i rs))) (reports i rs)))) \<and>
    (\<forall>u. (case os_ids_by_user st u of None \<Rightarrow> [] | Some l \<Rightarrow> l) = map snd (filter (\<lambda>p. fst p = u) (first_ids {} rs)))"
  using assms(1)
proof (induction rs arbitrary: st rule: rev_induct)
  case Nil
  then show ?case by (simp add: assms(2,3))
next
  case (snoc r rs)
  define s where "s = foldl os_apply st0 rs"
  have st: "st = os_apply s r" using snoc.prems by (simp add: s_def)
  have IH: "os_by_order_id s i = (if i = [] \<or> reports i rs = [] then None
        else Some (foldl (\<lambda>ord r. fold_report r ord) (first_sight (hd (reports i rs))) (reports i rs)))"
    "(case os_ids_by_user s u of None \<Rightarrow> [] | Some l \<Rightarrow> l) = map snd (filter (\<lambda>p. fst p = u) (first_ids {} rs))" for i u
    using snoc.IH [OF s_def] by blast+
  consider "r_order_id r = []" | "r_order_id r \<noteq> []" "reports (r_order_id r) rs = []" | "r_order_id r \<noteq> []" "reports (r_order_id r) rs \<noteq> []"
    by blast
  then show ?case
  proof cases
    case 1
    then have "os_apply s r = s" by (simp add: os_apply_def)
    then show ?thesis using IH 1 by (simp add: st first_ids_snoc)
  next
    case 2
    then have "os_by_order_id s (r_order_id r) = None" by (simp add: IH(1))
    note n = os_apply_new [OF 2(1) this]
    show ?thesis using IH 2 by (simp add: st n first_ids_snoc)
  next
    case 3
    then have "os_by_order_id s (r_order_id r) = Some (foldl (\<lambda>ord r. fold_report r ord)
        (first_sight (hd (reports (r_order_id r) rs))) (reports (r_order_id r) rs))" by (simp add: IH(1))
    note n = os_apply_known [OF 3(1) this]
    show ?thesis using IH 3 by (simp add: st n first_ids_snoc)
  qed
qed

lemma fold_reports_sel:
  defines "run \<equiv> foldl (\<lambda>ord r. fold_report r ord)"
  shows "order_id (run o0 rs) = order_id o0" "user_id (run o0 rs) = user_id o0" "symbol (run o0 rs) = symbol o0"
    "client_order_id (run o0 rs) = client_order_id o0" "created_time (run o0 rs) = created_time o0"
    "num_fills (run o0 rs) = num_fills o0 + length (filter (\<lambda>r. r_exec_type r = ET_TRADE) rs)"
    "rs \<noteq> [] \<Longrightarrow> status (run o0 rs) = r_order_status (last rs) \<and> leaves_quantity (run o0 rs) = r_leaves_qty (last rs) \<and>
       cum_quantity (run o0 rs) = r_cum_qty (last rs) \<and> quantity (run o0 rs) = r_qty (last rs) \<and> price (run o0 rs) = r_price (last rs)"
  unfolding run_def by (induction rs rule: rev_induct) simp_all

text \<open>
  C23. The store is a projection of the response stream. After any stream of responses an order is
  known exactly if some response carried its non-empty id; its identity and creation time are those of
  its first response, its state those of its last, its fill count the number of its trade reports; and
  a user's listing is the user's orders, each once, most recently first seen first.
\<close>

theorem order_store_projection:
  assumes "st = foldl os_apply (new_store c) rs"
  shows "(\<forall>i. os_find i st = None \<longleftrightarrow> i = [] \<or> reports i rs = []) \<and>
    (\<forall>i ord. os_find i st = Some ord \<longrightarrow> (let r0 = hd (reports i rs); r = last (reports i rs) in
       order_id ord = i \<and> user_id ord = r_user_id r0 \<and> symbol ord = r_symbol r0 \<and> client_order_id ord = r_client_order_id r0 \<and>
       created_time ord = r_creation_time r0 \<and> status ord = r_order_status r \<and> leaves_quantity ord = r_leaves_qty r \<and>
       cum_quantity ord = r_cum_qty r \<and> quantity ord = r_qty r \<and> price ord = r_price r \<and>
       num_fills ord = length (filter (\<lambda>r. r_exec_type r = ET_TRADE) (reports i rs)))) \<and>
    (\<forall>u. orders_of u st = map (\<lambda>p. the (os_find (snd p) st)) (rev (filter (\<lambda>p. fst p = u) (first_ids {} rs))))"
proof -
  have fresh: "os_by_order_id (new_store c) = Map.empty" "os_ids_by_user (new_store c) = Map.empty" by (simp_all add: new_store_def)
  have find: "os_by_order_id st i = (if i = [] \<or> reports i rs = [] then None
      else Some (foldl (\<lambda>ord r. fold_report r ord) (first_sight (hd (reports i rs))) (reports i rs)))"
    and ids: "(case os_ids_by_user st u of None \<Rightarrow> [] | Some l \<Rightarrow> l) = map snd (filter (\<lambda>p. fst p = u) (first_ids {} rs))" for i u
    using store_run [OF assms fresh] by blast+
  have hd: "r_order_id (hd (reports i rs)) = i" if "reports i rs \<noteq> []" for i
    using list.set_sel(1) [OF that] by (simp add: reports_def)
  have known: "os_by_order_id st i \<noteq> None" if "i \<in> snd ` set (first_ids {} rs)" for i
    using that find [of i] unfolding first_ids_set by simp
  have "orders_of u st = map (\<lambda>p. the (os_find (snd p) st)) (rev (filter (\<lambda>p. fst p = u) (first_ids {} rs)))" for u
  proof -
    let ?l = "case os_ids_by_user st u of None \<Rightarrow> [] | Some l \<Rightarrow> l"
    have "orders_of u st = concat (map (\<lambda>i. case os_by_order_id st i of None \<Rightarrow> [] | Some order \<Rightarrow> [order]) (rev ?l))"
      by (simp add: orders_of_def split: option.splits)
    also have "map (\<lambda>i. case os_by_order_id st i of None \<Rightarrow> [] | Some order \<Rightarrow> [order]) (rev ?l) = map (\<lambda>i. [the (os_find i st)]) (rev ?l)"
      using known unfolding ids by (force simp: os_find_def split: option.splits)
    finally show ?thesis unfolding ids by (simp add: concat_map_singleton rev_map comp_def)
  qed
  moreover have "let r0 = hd (reports i rs); r = last (reports i rs) in
       order_id ord = i \<and> user_id ord = r_user_id r0 \<and> symbol ord = r_symbol r0 \<and> client_order_id ord = r_client_order_id r0 \<and>
       created_time ord = r_creation_time r0 \<and> status ord = r_order_status r \<and> leaves_quantity ord = r_leaves_qty r \<and>
       cum_quantity ord = r_cum_qty r \<and> quantity ord = r_qty r \<and> price ord = r_price r \<and>
       num_fills ord = length (filter (\<lambda>r. r_exec_type r = ET_TRADE) (reports i rs))" if "os_find i st = Some ord" for i ord
    using that find [of i] hd [of i] fold_reports_sel [where rs = "reports i rs" and ?o0.0 = "first_sight (hd (reports i rs))"]
    by (auto simp: os_find_def Let_def split: if_splits)
  ultimately show ?thesis using find by (simp add: os_find_def)
qed

section \<open>Draining\<close>

lemma os_apply_cursor [simp]:
  "os_cursor (os_apply st r) = os_cursor st" "os_attached (os_apply st r) = os_attached st"
  "os_apply (st\<lparr>os_cursor := n\<rparr>) r = (os_apply st r)\<lparr>os_cursor := n\<rparr>"
  by (simp_all add: os_apply_def Let_def split: option.splits)

lemma drain_loop_eq:
  "os_cursor st \<le> length queue \<Longrightarrow> drain_loop n queue st =
     (foldl os_apply st (take n (drop (os_cursor st) queue)))\<lparr>os_cursor := min (os_cursor st + n) (length queue)\<rparr>"
proof (induction n arbitrary: st)
  case (Suc n)
  show ?case
  proof (cases "os_cursor st < length queue")
    case True
    let ?st = "(os_apply st (queue ! os_cursor st))\<lparr>os_cursor := os_cursor st + 1\<rparr>"
    have fl: "foldl os_apply (s\<lparr>os_cursor := k\<rparr>) rs = (foldl os_apply s rs)\<lparr>os_cursor := k\<rparr>" for s k rs
      by (induction rs arbitrary: s) simp_all
    have "drain_loop n queue ?st = (foldl os_apply ?st (take n (drop (os_cursor st + 1) queue)))\<lparr>os_cursor := min (os_cursor st + 1 + n) (length queue)\<rparr>"
      using Suc.IH [of ?st] True by simp
    moreover have "take (Suc n) (drop (os_cursor st) queue) = queue ! os_cursor st # take n (drop (os_cursor st + 1) queue)"
      using True by (simp add: Cons_nth_drop_Suc [symmetric])
    ultimately show ?thesis using True by (simp add: fl)
  qed (use Suc.prems in simp)
qed simp

text \<open>
  Draining is bounded and loses nothing. One drain of an attached store applies the next
  \<open>max_batch\<close> responses at most, in order and each once, and draining again goes on where it stopped:
  two drains are one drain of both batches, and a batch as large as the backlog brings the store up to
  the whole stream. A store without a queue is left alone.
\<close>

theorem drain_catches_up:
  assumes "os_cursor st \<le> length queue" and "os_attached st"
  shows "drain n queue st = (foldl os_apply st (take n (drop (os_cursor st) queue)))\<lparr>os_cursor := min (os_cursor st + n) (length queue)\<rparr> \<and>
    drain m queue (drain n queue st) = drain (n + m) queue st \<and>
    (length queue - os_cursor st \<le> n \<longrightarrow> os_by_order_id (drain n queue st) = os_by_order_id (foldl os_apply st (drop (os_cursor st) queue))) \<and>
    drain n queue (st\<lparr>os_attached := False\<rparr>) = st\<lparr>os_attached := False\<rparr>"
proof -
  have att: "os_attached (foldl os_apply s rs) = os_attached s" for s rs by (induction rs arbitrary: s) simp_all
  have fl: "foldl os_apply (s\<lparr>os_cursor := k\<rparr>) rs = (foldl os_apply s rs)\<lparr>os_cursor := k\<rparr>" for s k rs
    by (induction rs arbitrary: s) simp_all
  note run = drain_loop_eq [OF assms(1)]
  let ?d = "drain_loop n queue st"
  have d: "os_cursor ?d = min (os_cursor st + n) (length queue)" "os_attached ?d" by (simp_all add: run att assms(2))
  have "take (n + m) (drop (os_cursor st) queue) = take n (drop (os_cursor st) queue) @ take m (drop (os_cursor ?d) queue)"
  proof (cases "os_cursor st + n \<le> length queue")
    case True
    then show ?thesis by (simp add: take_add d(1) add.commute [of "os_cursor st" n])
  qed (simp add: d(1))
  then have "drain_loop m queue ?d = drain_loop (n + m) queue st"
    using drain_loop_eq [of ?d queue m] assms(1) by (simp add: run d(1)) (simp add: fl min_def run [symmetric] d(1))
  then show ?thesis using assms(2) d(2) run by (simp add: drain_def)
qed

section \<open>A stream\<close>

definition ex_report :: "string \<Rightarrow> ExecType \<Rightarrow> OrderStatus \<Rightarrow> qty_t \<Rightarrow> OrderResponse" where
  "ex_report oid et st leaves = \<lparr>r_symbol = ''BTC'', r_user_id = ''ann'', r_client_order_id = [], r_order_id = oid, r_error_message = [],
     r_response_type = MT_EXECUTION_REPORT, r_exec_type = et, r_order_status = st, r_order_type = OT_LIMIT, r_time_in_force = TIF_DAY,
     r_price = 100, r_last_fill_price = 100, r_avg_fill_price = 100, r_qty = 5, r_last_qty = 2, r_cum_qty = 5 - leaves, r_leaves_qty = leaves,
     r_reject_reason = RJ_NONE, r_creation_time = 1, r_request_time = 1, r_timestamp = 2, r_side = BUY, r_post_only = False,
     r_order_num = 1, r_request_tag = 0, r_aggressor = False\<rparr>"

definition ex_stream :: "OrderResponse list" where
  "ex_stream = [ex_report ''u1'' ET_NEW OS_PENDING_NEW 5, ex_report ''u2'' ET_NEW OS_PENDING_NEW 5, ex_report ''u1'' ET_TRADE OS_PARTIALLY_FILLED 3]"

theorem order_store_projection_witness:
  "let st = foldl os_apply (new_store None) ex_stream in
     (\<exists>ord. os_find ''u1'' st = Some ord \<and> leaves_quantity ord = 3 \<and> num_fills ord = 1 \<and> created_time ord = 1) \<and>
     map order_id (orders_of ''ann'' st) = [''u2'', ''u1'']"
proof -
  define st where "st = foldl os_apply (new_store None) ex_stream"
  note p = order_store_projection [OF st_def]
  have r: "reports ''u1'' ex_stream = [ex_report ''u1'' ET_NEW OS_PENDING_NEW 5, ex_report ''u1'' ET_TRADE OS_PARTIALLY_FILLED 3]"
    "reports ''u2'' ex_stream = [ex_report ''u2'' ET_NEW OS_PENDING_NEW 5]"
    "first_ids {} ex_stream = [(''ann'', ''u1''), (''ann'', ''u2'')]"
    by (simp_all add: ex_stream_def ex_report_def)
  obtain o1 o2 where o: "os_find ''u1'' st = Some o1" "os_find ''u2'' st = Some o2" using p r by fastforce
  then have "leaves_quantity o1 = 3 \<and> num_fills o1 = 1 \<and> created_time o1 = 1 \<and> order_id o1 = ''u1''" "order_id o2 = ''u2''"
    using p r by (simp_all add: Let_def ex_report_def)
  moreover have "orders_of ''ann'' st = [o2, o1]" using p r o by simp
  ultimately show ?thesis using o(1) unfolding Let_def st_def [symmetric] by simp
qed

theorem drain_catches_up_witness:
  "let st = new_store (Some 1) in os_cursor (drain 1 ex_stream st) = 2 \<and> drain 5 ex_stream (drain 1 ex_stream st) = drain 6 ex_stream st"
proof -
  have "os_cursor (new_store (Some 1)) \<le> length ex_stream" "os_attached (new_store (Some 1))" "os_cursor (new_store (Some 1)) = 1" "length ex_stream = 3"
    by (simp_all add: new_store_def ex_stream_def)
  then show ?thesis using drain_catches_up [of "new_store (Some 1)" ex_stream 1 5] by (auto simp: Let_def)
qed

end
