(* ===== verification/Pending_Responses.thy ===== *)
theory Pending_Responses
  imports Order_Store
begin

text \<open>
  \<open>src/src/order_gateway/pending_responses.hpp\<close>: the waiters of a gateway's HTTP handlers. A waiter
  holds a predicate on reports and a completion. Dispatch, expiry and abandoning take the waiter out
  before its completion runs, so an operation returns the completion to run with its argument (the
  report, or nothing on a timeout) together with the state the completion then finds: a completion
  that registers a waiter works on that state. The 64-bit \<open>Id\<close> counts the requests of one process and is a natural
  number here.
\<close>

section \<open>State and operations\<close>

record 'c Waiter =
  w_id :: nat
  w_matches :: "OrderResponse \<Rightarrow> bool"
  w_complete :: 'c

record 'c PendingResponses =
  pq_waiters :: "'c Waiter list"
  pq_next_id :: nat

definition kNoId :: nat where
  "kNoId = 0"

definition new_pending :: "'c PendingResponses" where
  "new_pending = \<lparr>pq_waiters = [], pq_next_id = kNoId\<rparr>"

definition pq_add :: "(OrderResponse \<Rightarrow> bool) \<Rightarrow> 'c \<Rightarrow> 'c PendingResponses \<Rightarrow> nat \<times> 'c PendingResponses" where
  "pq_add matches complete st =
     (let i = pq_next_id st + 1
      in (i, st\<lparr>pq_waiters := pq_waiters st @ [\<lparr>w_id = i, w_matches = matches, w_complete = complete\<rparr>], pq_next_id := i\<rparr>))"

text \<open>The walk to the first waiter of a kind, which is taken out.\<close>

fun take_first :: "('c Waiter \<Rightarrow> bool) \<Rightarrow> 'c Waiter list \<Rightarrow> ('c Waiter \<times> 'c Waiter list) option" where
  "take_first P [] = None"
| "take_first P (w # ws) =
     (if P w then Some (w, ws) else map_option (\<lambda>(v, vs). (v, w # vs)) (take_first P ws))"

definition dispatch :: "OrderResponse \<Rightarrow> 'c PendingResponses \<Rightarrow> ('c Waiter \<times> OrderResponse) option \<times> 'c PendingResponses" where
  "dispatch response st = (case take_first (\<lambda>w. w_matches w response) (pq_waiters st) of
      None \<Rightarrow> (None, st)
    | Some (w, ws) \<Rightarrow> (Some (w, response), st\<lparr>pq_waiters := ws\<rparr>))"

definition expire :: "nat \<Rightarrow> 'c PendingResponses \<Rightarrow> 'c Waiter option \<times> 'c PendingResponses" where
  "expire i st = (case take_first (\<lambda>w. w_id w = i) (pq_waiters st) of
      None \<Rightarrow> (None, st)
    | Some (w, ws) \<Rightarrow> (Some w, st\<lparr>pq_waiters := ws\<rparr>))"

definition abandon :: "nat \<Rightarrow> 'c PendingResponses \<Rightarrow> 'c PendingResponses" where
  "abandon i st = (case take_first (\<lambda>w. w_id w = i) (pq_waiters st) of
      None \<Rightarrow> st
    | Some (w, ws) \<Rightarrow> st\<lparr>pq_waiters := ws\<rparr>)"

definition pq_waiting :: "nat \<Rightarrow> 'c PendingResponses \<Rightarrow> bool" where
  "pq_waiting i st \<longleftrightarrow> list_ex (\<lambda>w. w_id w = i) (pq_waiters st)"

section \<open>Runs\<close>

text \<open>How a waiter ends, and a run that records it.\<close>

datatype ending = Answered OrderResponse | TimedOut | Dropped

datatype 'c pq_op = Add "OrderResponse \<Rightarrow> bool" 'c | Dispatch OrderResponse | Expire nat | Abandon nat

fun pq_step :: "'c PendingResponses \<times> (nat \<times> ending) list \<Rightarrow> 'c pq_op \<Rightarrow> 'c PendingResponses \<times> (nat \<times> ending) list" where
  "pq_step (st, ends) (Add m c) = (snd (pq_add m c st), ends)"
| "pq_step (st, ends) (Dispatch r) = (case dispatch r st of
      (None, st') \<Rightarrow> (st', ends) | (Some (w, r'), st') \<Rightarrow> (st', ends @ [(w_id w, Answered r')]))"
| "pq_step (st, ends) (Expire i) = (case expire i st of (None, st') \<Rightarrow> (st', ends) | (Some w, st') \<Rightarrow> (st', ends @ [(w_id w, TimedOut)]))"
| "pq_step (st, ends) (Abandon i) = (abandon i st, if pq_waiting i st then ends @ [(i, Dropped)] else ends)"

lemma take_first_eq:
  "take_first P ws = (case filter P ws of [] \<Rightarrow> None
     | w # _ \<Rightarrow> Some (w, takeWhile (\<lambda>x. \<not> P x) ws @ tl (dropWhile (\<lambda>x. \<not> P x) ws)))"
  by (induction ws) (auto split: list.splits)

lemma take_firstD:
  assumes "take_first P ws = Some (w, vs)"
  shows "P w" "\<exists>as bs. ws = as @ w # bs \<and> vs = as @ bs \<and> (\<forall>a\<in>set as. \<not> P a)"
  using assms
proof (induction ws arbitrary: vs)
  case (Cons a ws)
  { case 1 then show ?case using Cons.IH by (auto split: if_splits) }
  { case 2
    show ?case
    proof (cases "P a")
      case True
      then show ?thesis using 2 by (intro exI [of _ "[]"] exI [of _ ws]) simp
    next
      case False
      then obtain us where us: "take_first P ws = Some (w, us)" "vs = a # us" using 2 by auto
      then obtain as bs where "ws = as @ w # bs" "us = as @ bs" "\<forall>a\<in>set as. \<not> P a" using Cons.IH(2) by blast
      then show ?thesis using us False by (intro exI [of _ "a # as"] exI [of _ bs]) simp
    qed }
qed simp_all

lemma take_first_none: "take_first P ws = None \<longleftrightarrow> (\<forall>w\<in>set ws. \<not> P w)"
  by (induction ws) auto

text \<open>Waiting and ended waiters share out the ids handed out so far.\<close>

definition pq_ok :: "'c PendingResponses \<Rightarrow> (nat \<times> ending) list \<Rightarrow> bool" where
  "pq_ok st ends \<longleftrightarrow>
     sorted_wrt (<) (map w_id (pq_waiters st)) \<and> distinct (map fst ends) \<and>
     set (map w_id (pq_waiters st)) \<inter> set (map fst ends) = {} \<and>
     set (map w_id (pq_waiters st)) \<union> set (map fst ends) = {1..pq_next_id st}"

lemma pq_ok_take:
  assumes "pq_ok st ends" and "take_first P (pq_waiters st) = Some (w, ws)"
  shows "pq_ok (st\<lparr>pq_waiters := ws\<rparr>) (ends @ [(w_id w, e)])"
proof -
  obtain as bs where ws: "pq_waiters st = as @ w # bs" "ws = as @ bs" using take_firstD(2) [OF assms(2)] by blast
  then have "sorted_wrt (<) (map w_id ws)" using assms(1) by (auto simp: pq_ok_def sorted_wrt_append)
  moreover have "w_id w \<notin> set (map w_id ws)" using assms(1) ws by (auto simp: pq_ok_def sorted_wrt_append)
  moreover have "set (map w_id (pq_waiters st)) = insert (w_id w) (set (map w_id ws))" by (simp add: ws)
  ultimately show ?thesis using assms(1) by (simp add: pq_ok_def)
qed

lemma pq_step_ok:
  assumes "pq_ok st ends" and "pq_step (st, ends) op = (st', ends')"
  shows "pq_ok st' ends'"
proof (cases op)
  case (Add m c)
  let ?new = "\<lparr>w_id = pq_next_id st + 1, w_matches = m, w_complete = c\<rparr>"
  have st': "pq_waiters st' = pq_waiters st @ [?new]" "pq_next_id st' = pq_next_id st + 1" "ends' = ends"
    using assms(2) Add by (auto simp: pq_add_def Let_def)
  have ok: "sorted_wrt (<) (map w_id (pq_waiters st))" "distinct (map fst ends)"
    "set (map w_id (pq_waiters st)) \<inter> set (map fst ends) = {}"
    "set (map w_id (pq_waiters st)) \<union> set (map fst ends) = {1..pq_next_id st}"
    using assms(1) unfolding pq_ok_def by blast+
  have small: "i \<le> pq_next_id st" if "i \<in> set (map w_id (pq_waiters st)) \<union> set (map fst ends)" for i
    using that unfolding ok(4) by simp
  have "sorted_wrt (<) (map w_id (pq_waiters st'))" using ok(1) small by (fastforce simp: st' sorted_wrt_append)
  moreover have ids: "set (map w_id (pq_waiters st')) = insert (pq_next_id st + 1) (set (map w_id (pq_waiters st)))" by (simp add: st')
  moreover have "pq_next_id st + 1 \<notin> set (map fst ends)" using small by fastforce
  moreover have "{1..pq_next_id st + 1} = insert (pq_next_id st + 1) {1..pq_next_id st}" by auto
  ultimately show ?thesis using ok(2-4) unfolding pq_ok_def by (simp only: st' Int_insert_left_if0 Un_insert_left simp_thms)
next
  case (Dispatch r)
  show ?thesis
  proof (cases "take_first (\<lambda>w. w_matches w r) (pq_waiters st)")
    case (Some p)
    then show ?thesis using assms Dispatch pq_ok_take [OF assms(1)] by (cases p) (auto simp: dispatch_def)
  qed (use assms Dispatch in \<open>simp add: dispatch_def\<close>)
next
  case (Expire i)
  show ?thesis
  proof (cases "take_first (\<lambda>w. w_id w = i) (pq_waiters st)")
    case (Some p)
    then show ?thesis using assms Expire pq_ok_take [OF assms(1)] by (cases p) (auto simp: expire_def)
  qed (use assms Expire in \<open>simp add: expire_def\<close>)
next
  case (Abandon i)
  show ?thesis
  proof (cases "take_first (\<lambda>w. w_id w = i) (pq_waiters st)")
    case None
    then have "\<not> pq_waiting i st" by (auto simp: take_first_none pq_waiting_def list_ex_iff)
    then show ?thesis using assms Abandon None by (simp add: abandon_def)
  next
    case (Some p)
    obtain w ws where p: "p = (w, ws)" by (cases p) auto
    have "w_id w = i" using take_firstD(1) Some p by fastforce
    moreover have "pq_waiting i st" using Some by (metis (mono_tags, lifting) list_ex_iff option.distinct(1) pq_waiting_def take_first_none)
    ultimately show ?thesis using assms Abandon Some p pq_ok_take [OF assms(1), of _ w ws Dropped] by (auto simp: abandon_def)
  qed
qed

lemma pq_run_ok: "pq_ok (fst v) (snd v) \<Longrightarrow> foldl pq_step v ops = (st, ends) \<Longrightarrow> pq_ok st ends"
proof (induction ops arbitrary: v)
  case (Cons op ops)
  then show ?case using pq_step_ok [of "fst v" "snd v" op] by (cases "pq_step v op") auto
qed simp

text \<open>
  C24. A waiter ends once. Whatever is registered, dispatched, expired and abandoned, in any order,
  every id handed out is either still waiting or has ended exactly one way: answered, timed out or
  dropped. A report completes at most one waiter: the longest registered of those that match it, and
  one exists whenever any waiter matches. A late timer or a repeated abandon changes nothing.
\<close>

theorem waiter_ends_once:
  assumes "foldl pq_step (new_pending, []) ops = (st, ends)"
  shows "distinct (map fst ends) \<and> distinct (map w_id (pq_waiters st)) \<and>
    set (map w_id (pq_waiters st)) \<inter> set (map fst ends) = {} \<and> set (map w_id (pq_waiters st)) \<union> set (map fst ends) = {1..pq_next_id st} \<and>
    (\<forall>r. case dispatch r st of
       (None, st') \<Rightarrow> st' = st \<and> (\<forall>w\<in>set (pq_waiters st). \<not> w_matches w r)
     | (Some (w, r'), st') \<Rightarrow> r' = r \<and> w \<in> set (pq_waiters st) \<and> w_matches w r \<and> \<not> pq_waiting (w_id w) st' \<and>
         (\<forall>v\<in>set (pq_waiters st). w_matches v r \<longrightarrow> w_id w \<le> w_id v)) \<and>
    (\<forall>i\<in>set (map fst ends). expire i st = (None, st) \<and> abandon i st = st)"
proof -
  have "pq_ok new_pending []" by (simp add: pq_ok_def new_pending_def kNoId_def)
  then have ok: "pq_ok st ends" using pq_run_ok [of "(new_pending, [])" ops st ends] assms by simp
  have disp: "case dispatch r st of
       (None, st') \<Rightarrow> st' = st \<and> (\<forall>w\<in>set (pq_waiters st). \<not> w_matches w r)
     | (Some (w, r'), st') \<Rightarrow> r' = r \<and> w \<in> set (pq_waiters st) \<and> w_matches w r \<and> \<not> pq_waiting (w_id w) st' \<and>
         (\<forall>v\<in>set (pq_waiters st). w_matches v r \<longrightarrow> w_id w \<le> w_id v)" for r
  proof (cases "take_first (\<lambda>w. w_matches w r) (pq_waiters st)")
    case None
    show ?thesis using take_first_none [THEN iffD1, OF None] by (simp only: dispatch_def None option.case prod.case simp_thms)
  next
    case (Some p)
    obtain w ws where p: "p = (w, ws)" by (cases p) auto
    note d = take_firstD [OF Some [unfolded p]]
    then obtain as bs where ab: "pq_waiters st = as @ w # bs" "ws = as @ bs" "\<forall>a\<in>set as. \<not> w_matches a r" by blast
    have "sorted_wrt (<) (map w_id as @ w_id w # map w_id bs)" using ok ab(1) by (simp add: pq_ok_def)
    then show ?thesis using d(1) ab Some p
      by (fastforce simp: dispatch_def pq_waiting_def list_ex_iff sorted_wrt_append less_imp_le)
  qed
  have gone: "expire i st = (None, st) \<and> abandon i st = st" if "i \<in> set (map fst ends)" for i
  proof -
    have "take_first (\<lambda>w. w_id w = i) (pq_waiters st) = None" using ok that by (force simp: take_first_none pq_ok_def)
    then show ?thesis by (simp add: expire_def abandon_def)
  qed
  have "distinct (map w_id (pq_waiters st))" using ok by (simp add: pq_ok_def strict_sorted_iff)
  then show ?thesis using ok disp gone by (simp add: pq_ok_def)
qed

theorem waiter_ends_once_witness:
  "let r = ex_report ''u1'' ET_NEW OS_PENDING_NEW 5;
       ops = [Add (\<lambda>r. r_order_id r = ''u2'') ''first'', Add (\<lambda>r. r_order_id r = ''u1'') ''second'', Dispatch r, Expire 2, Abandon 1];
       (st, ends) = foldl pq_step (new_pending, []) ops
   in distinct (map fst ends) \<and> set (map w_id (pq_waiters st)) \<union> set (map fst ends) = {1..2} \<and>
      ends = [(2, Answered r), (1, Dropped)] \<and> expire 2 st = (None, st)"
proof -
  let ?r = "ex_report ''u1'' ET_NEW OS_PENDING_NEW 5"
  let ?ops = "[Add (\<lambda>r. r_order_id r = ''u2'') ''first'', Add (\<lambda>r. r_order_id r = ''u1'') ''second'', Dispatch ?r, Expire 2, Abandon 1]"
  let ?st = "\<lparr>pq_waiters = [], pq_next_id = 2\<rparr> :: string PendingResponses" and ?ends = "[(2, Answered ?r), (1, Dropped)]"
  have run: "foldl pq_step (new_pending, []) ?ops = (?st, ?ends)"
    by (simp add: new_pending_def kNoId_def pq_add_def dispatch_def expire_def abandon_def pq_waiting_def ex_report_def)
  show ?thesis using waiter_ends_once [OF run] unfolding Let_def run by simp
qed

end
