(* ===== verification/Cl_Ord_Id.thy ===== *)
theory Cl_Ord_Id
  imports Sim_Prelude
begin

text \<open>
  \<open>src/src/order_gateway/cl_ord_id_index.hpp\<close>: the ClOrdIDs of one session. An id is claimed by the
  requests in flight that named it and held by the working order it names; the entry remembers which
  order. Order number 0 means none. The assertions of \<open>assign\<close> are preconditions of its callers; the
  32-bit count of the claims is a natural number, as the requests in flight of one session are few.
\<close>

section \<open>State and operations\<close>

record Entry =
  e_order :: nat
  e_claims :: nat
  e_held :: bool

type_synonym 'k ClOrdIdIndex = "'k \<rightharpoonup> Entry"

definition ci_find :: "'k \<Rightarrow> 'k ClOrdIdIndex \<Rightarrow> nat" where
  "ci_find k ids = (case ids k of None \<Rightarrow> 0 | Some e \<Rightarrow> if \<not> e_held e then 0 else e_order e)"

definition ci_claim :: "'k \<Rightarrow> nat \<Rightarrow> 'k ClOrdIdIndex \<Rightarrow> bool \<times> 'k ClOrdIdIndex" where
  "ci_claim k order_num ids = (case ids k of
      None \<Rightarrow> (True, ids(k \<mapsto> \<lparr>e_order = order_num, e_claims = 1, e_held = False\<rparr>))
    | Some e \<Rightarrow> if order_num = 0 \<or> e_order e \<noteq> order_num then (False, ids)
               else (True, ids(k \<mapsto> e\<lparr>e_claims := e_claims e + 1\<rparr>)))"

definition erase_if_unused :: "'k \<Rightarrow> 'k ClOrdIdIndex \<Rightarrow> 'k ClOrdIdIndex" where
  "erase_if_unused k ids = (case ids k of
      None \<Rightarrow> ids
    | Some e \<Rightarrow> if e_claims e = 0 \<and> \<not> e_held e then ids(k := None) else ids)"

definition ci_release :: "'k \<Rightarrow> 'k ClOrdIdIndex \<Rightarrow> 'k ClOrdIdIndex" where
  "ci_release k ids = (case ids k of
      None \<Rightarrow> ids
    | Some e \<Rightarrow> if e_claims e > 0 then erase_if_unused k (ids(k \<mapsto> e\<lparr>e_claims := e_claims e - 1\<rparr>)) else ids)"

text \<open>
  The two assertions of \<open>assign\<close> (cl_ord_id_index.hpp:57 and 61: the number is not 0; an entry held is held by this
  order) are not branches here. Callers keep them: in a session an order that is accepted has a number, and its
  id was claimed when nobody else held it, or by the order itself.
\<close>

definition ci_assign :: "'k \<Rightarrow> nat \<Rightarrow> 'k ClOrdIdIndex \<Rightarrow> 'k ClOrdIdIndex" where
  "ci_assign k order_num ids =
     (let e = (case ids k of None \<Rightarrow> \<lparr>e_order = 0, e_claims = 0, e_held = False\<rparr> | Some e \<Rightarrow> e)
      in ids(k \<mapsto> e\<lparr>e_order := order_num, e_held := True\<rparr>))"

definition forget :: "'k \<Rightarrow> nat \<Rightarrow> 'k ClOrdIdIndex \<Rightarrow> 'k ClOrdIdIndex" where
  "forget k order_num ids = (case ids k of
      None \<Rightarrow> ids
    | Some e \<Rightarrow> if e_order e = order_num then erase_if_unused k (ids(k \<mapsto> e\<lparr>e_held := False\<rparr>)) else ids)"

definition ci_rename :: "'k \<Rightarrow> 'k \<Rightarrow> nat \<Rightarrow> 'k ClOrdIdIndex \<Rightarrow> 'k ClOrdIdIndex" where
  "ci_rename from_id to_id order_num ids = ci_assign to_id order_num (forget from_id order_num ids)"

lemmas ci_defs = ci_find_def ci_claim_def erase_if_unused_def ci_release_def ci_assign_def forget_def ci_rename_def

section \<open>The session\<close>

text \<open>
  A session as the callers run it: a new order claims its id with order number 0, a replace claims for
  the order it amends, each request in flight releases its claim once when it is answered, an accepted
  new order is given a fresh number and an accepted replace renames its order before the claim is
  released, and an order that is done forgets its id. \<open>requests\<close> are the requests in flight with the
  order they are for, \<open>working\<close> the id of every working order.
\<close>

record 'k session =
  s_index :: "'k ClOrdIdIndex"
  s_requests :: "('k \<times> nat) list"
  s_working :: "nat \<rightharpoonup> 'k"

definition new_session :: "'k session" where
  "new_session = \<lparr>s_index = Map.empty, s_requests = [], s_working = Map.empty\<rparr>"

text \<open>The abstract contract: who an id belongs to.\<close>

definition holders :: "'k \<Rightarrow> 'k session \<Rightarrow> nat set" where
  "holders k s = {n. s_working s n = Some k}"

definition claims_on :: "'k \<Rightarrow> 'k session \<Rightarrow> nat list" where
  "claims_on k s = map snd (filter (\<lambda>q. fst q = k) (s_requests s))"

inductive sstep :: "'k session \<Rightarrow> 'k session \<Rightarrow> bool" where
  claim_new: "ci_claim k 0 (s_index s) = (True, ids) \<Longrightarrow>
     sstep s (s\<lparr>s_index := ids, s_requests := s_requests s @ [(k, 0)]\<rparr>)"
| claim_replace: "s_working s n \<noteq> None \<Longrightarrow> ci_claim k n (s_index s) = (True, ids) \<Longrightarrow>
     sstep s (s\<lparr>s_index := ids, s_requests := s_requests s @ [(k, n)]\<rparr>)"
| claim_refused: "ci_claim k n (s_index s) = (False, ids) \<Longrightarrow> sstep s (s\<lparr>s_index := ids\<rparr>)"
| accept_new: "(k, 0) \<in> set (s_requests s) \<Longrightarrow> n \<noteq> 0 \<Longrightarrow> s_working s n = None \<Longrightarrow> n \<notin> snd ` set (s_requests s) \<Longrightarrow>
     sstep s (s\<lparr>s_index := ci_release k (ci_assign k n (s_index s)), s_requests := remove1 (k, 0) (s_requests s),
                 s_working := (s_working s)(n \<mapsto> k)\<rparr>)"
| accept_replace: "(k, n) \<in> set (s_requests s) \<Longrightarrow> n \<noteq> 0 \<Longrightarrow> s_working s n = Some j \<Longrightarrow>
     sstep s (s\<lparr>s_index := ci_release k (ci_rename j k n (s_index s)), s_requests := remove1 (k, n) (s_requests s),
                 s_working := (s_working s)(n \<mapsto> k)\<rparr>)"
| refuse: "(k, n) \<in> set (s_requests s) \<Longrightarrow>
     sstep s (s\<lparr>s_index := ci_release k (s_index s), s_requests := remove1 (k, n) (s_requests s)\<rparr>)"
| finish: "s_working s n = Some k \<Longrightarrow>
     sstep s (s\<lparr>s_index := forget k n (s_index s), s_working := (s_working s)(n := None)\<rparr>)"

inductive_cases sstepE: "sstep s s'"

section \<open>The index follows the session\<close>

definition entry_ok :: "Entry option \<Rightarrow> nat list \<Rightarrow> (nat \<Rightarrow> bool) \<Rightarrow> bool" where
  "entry_ok v claims works = (case v of
      None \<Rightarrow> claims = [] \<and> (\<forall>n. \<not> works n)
    | Some e \<Rightarrow> e_claims e = length claims \<and> (\<forall>c\<in>set claims. c = e_order e) \<and> (\<forall>n. works n \<longleftrightarrow> e_held e \<and> n = e_order e) \<and>
        (e_claims e > 0 \<or> e_held e) \<and> (e_order e = 0 \<longrightarrow> e_claims e = 1 \<and> \<not> e_held e))"

definition session_ok :: "'k session \<Rightarrow> bool" where
  "session_ok s \<longleftrightarrow> (\<forall>k. entry_ok (s_index s k) (claims_on k s) (\<lambda>n. s_working s n = Some k))"

lemma entry_ok_zero: "entry_ok v claims works \<Longrightarrow> \<not> works 0"
  by (auto simp: entry_ok_def split: option.splits)

lemma entry_ok_claimed:
  assumes "entry_ok v claims works" and "n \<in> set claims"
  obtains e where "v = Some e" "e_order e = n" "e_claims e = length claims" "e_claims e > 0"
proof (cases v)
  case None
  then show thesis using assms by (simp add: entry_ok_def)
next
  case (Some e)
  then have "e_order e = n \<and> e_claims e = length claims \<and> e_claims e > 0" using assms by (auto simp: entry_ok_def length_pos_if_in_set)
  then show thesis using that Some by blast
qed

lemma entry_ok_holder: "entry_ok v claims works \<Longrightarrow> works m \<Longrightarrow> works n \<Longrightarrow> m = n"
  by (auto simp: entry_ok_def split: option.splits)

lemma entry_ok_claim_holder:
  assumes "entry_ok v claims works" and "n \<in> set claims" and "works m"
  shows "m = n"
proof -
  obtain e where "v = Some e" "e_order e = n" using assms(1,2) by (rule entry_ok_claimed)
  then show ?thesis using assms(1,3) by (simp add: entry_ok_def)
qed

lemma claims_on_append [simp]:
  "claims_on k (s\<lparr>s_index := ids, s_requests := s_requests s @ [q]\<rparr>) = claims_on k s @ (if fst q = k then [snd q] else [])"
  by (simp add: claims_on_def)

lemma claims_on_index [simp]: "claims_on k (s\<lparr>s_index := ids\<rparr>) = claims_on k s"
  by (simp add: claims_on_def)

lemma claims_on_working [simp]: "claims_on k (s\<lparr>s_working := w\<rparr>) = claims_on k s"
  by (simp add: claims_on_def)

lemma filter_fst_remove1:
  "map snd (filter (\<lambda>q. fst q = j) (remove1 (k, n) qs)) =
     (if j = k then remove1 n (map snd (filter (\<lambda>q. fst q = j) qs)) else map snd (filter (\<lambda>q. fst q = j) qs))"
  by (induction qs) auto

lemma claims_on_remove [simp]:
  "claims_on j (s\<lparr>s_requests := remove1 (k, n) (s_requests s)\<rparr>) = (if j = k then remove1 n (claims_on j s) else claims_on j s)"
  by (simp add: claims_on_def filter_fst_remove1)

lemma in_claims_on: "(k, n) \<in> set (s_requests s) \<Longrightarrow> n \<in> set (claims_on k s)"
  by (force simp: claims_on_def)

lemma claim_ok:
  assumes "entry_ok (ids k) claims works" and "ci_claim k n ids = (True, ids')"
  shows "entry_ok (ids' k) (claims @ [n]) works" "j \<noteq> k \<Longrightarrow> ids' j = ids j"
  using assms by (auto simp: entry_ok_def ci_claim_def split: option.splits if_splits)

lemma release_ok:
  assumes "entry_ok (ids k) claims works" and "n \<in> set claims"
  shows "entry_ok (ci_release k ids k) (remove1 n claims) works" "j \<noteq> k \<Longrightarrow> ci_release k ids j = ids j"
proof -
  obtain e where e: "ids k = Some e" "e_order e = n" "e_claims e = length claims" "e_claims e > 0" using assms by (rule entry_ok_claimed)
  have "\<forall>c\<in>set claims. c = n" using assms(1) e(1,2) by (simp add: entry_ok_def)
  then have cs: "\<forall>c\<in>set (remove1 n claims). c = n" using set_remove1_subset [of n claims] by blast
  have len: "length (remove1 n claims) = length claims - 1" using assms(2) by (simp add: length_remove1)
  show "entry_ok (ci_release k ids k) (remove1 n claims) works"
  proof (cases "length claims = 1 \<and> \<not> e_held e")
    case True
    then show ?thesis using assms(1) e len by (simp add: entry_ok_def ci_release_def erase_if_unused_def)
  next
    case False
    moreover have "n = 0 \<longrightarrow> length claims = 1 \<and> \<not> e_held e" using assms(1) e by (simp add: entry_ok_def)
    ultimately have "n \<noteq> 0" "length claims - 1 = 0 \<longrightarrow> e_held e" using e(3,4) by (auto simp: le_Suc_eq)
    then show ?thesis using assms(1) e cs len by (cases "e_held e") (simp_all add: entry_ok_def ci_release_def erase_if_unused_def not_le)
  qed
  show "j \<noteq> k \<Longrightarrow> ci_release k ids j = ids j" by (simp add: ci_release_def erase_if_unused_def split: option.split)
qed

lemma forget_ok:
  assumes "entry_ok (ids k) claims works" and "works n"
  shows "entry_ok (forget k n ids k) claims (\<lambda>_. False)" "j \<noteq> k \<Longrightarrow> forget k n ids j = ids j"
proof -
  obtain e where "ids k = Some e" "e_order e = n" using assms by (auto simp: entry_ok_def split: option.splits)
  then show "entry_ok (forget k n ids k) claims (\<lambda>_. False)" using assms by (auto simp: entry_ok_def forget_def erase_if_unused_def)
  show "j \<noteq> k \<Longrightarrow> forget k n ids j = ids j" by (simp add: forget_def erase_if_unused_def split: option.split)
qed

lemma assign_release_ok:
  assumes "entry_ok (ids k) claims (\<lambda>_. False)" and "m \<in> set claims" and "m = 0 \<or> m = n" and "n \<noteq> 0"
  shows "entry_ok (ci_release k (ci_assign k n ids) k) (remove1 m claims) (\<lambda>i. i = n)"
    "j \<noteq> k \<Longrightarrow> ci_release k (ci_assign k n ids) j = ids j"
proof -
  obtain e where e: "ids k = Some e" "e_order e = m" "e_claims e = length claims" "e_claims e > 0" using assms(1,2) by (rule entry_ok_claimed)
  have cs: "\<forall>c\<in>set claims. c = m" "m = 0 \<longrightarrow> length claims = 1" using assms(1) e by (auto simp: entry_ok_def)
  have "\<forall>c\<in>set (remove1 m claims). c = n"
  proof (cases "m = 0")
    case True
    then obtain c where "claims = [c]" using cs(2) by (auto simp: length_Suc_conv)
    then show ?thesis using assms(2) by simp
  qed (use assms(3) cs(1) set_remove1_subset [of m claims] in auto)
  then show "entry_ok (ci_release k (ci_assign k n ids) k) (remove1 m claims) (\<lambda>i. i = n)"
    using assms(2,4) e by (simp add: entry_ok_def ci_release_def ci_assign_def erase_if_unused_def length_remove1)
  show "j \<noteq> k \<Longrightarrow> ci_release k (ci_assign k n ids) j = ids j"
    by (simp add: ci_release_def ci_assign_def erase_if_unused_def split: option.split)
qed

lemma sstep_ok:
  assumes "session_ok s" and "sstep s s'"
  shows "session_ok s'"
proof -
  have ok: "entry_ok (s_index s k) (claims_on k s) (\<lambda>n. s_working s n = Some k)" for k using assms(1) by (simp add: session_ok_def)
  have other_idle: "entry_ok (s_index s j) (claims_on j s) (\<lambda>_. False)" if "\<And>n. s_working s n \<noteq> Some j" for j
  proof -
    have "(\<lambda>n. s_working s n = Some j) = (\<lambda>_. False)" using that by (intro ext) simp
    then show ?thesis using ok [of j] by simp
  qed
  show ?thesis
    using assms(2)
  proof (cases rule: sstep.cases)
    case (claim_new k ids)
    show ?thesis unfolding session_ok_def
    proof
      fix j
      show "entry_ok (s_index s' j) (claims_on j s') (\<lambda>n. s_working s' n = Some j)"
        using claim_ok [where ids = "s_index s" and k = k, OF ok [of k] claim_new(2)] ok [of j] by (cases "j = k") (simp_all add: claim_new(1))
    qed
  next
    case (claim_replace n k ids)
    show ?thesis unfolding session_ok_def
    proof
      fix j
      show "entry_ok (s_index s' j) (claims_on j s') (\<lambda>n. s_working s' n = Some j)"
        using claim_ok [where ids = "s_index s" and k = k, OF ok [of k] claim_replace(3)] ok [of j] by (cases "j = k") (simp_all add: claim_replace(1))
    qed
  next
    case (claim_refused k n ids)
    then have "ids = s_index s" by (auto simp: ci_claim_def split: option.splits if_splits)
    then show ?thesis using assms(1) claim_refused(1) by simp
  next
    case (accept_new k n)
    have idle: "s_working s i \<noteq> Some k" for i
      using entry_ok_claim_holder [OF ok in_claims_on [OF accept_new(2)], of i] entry_ok_zero [OF ok [of k]] by blast
    have "entry_ok (s_index s k) (claims_on k s) (\<lambda>_. False)" by (rule other_idle) (simp add: idle)
    note r = assign_release_ok [where ids = "s_index s" and k = k, OF this in_claims_on [OF accept_new(2)] disjI1 [OF refl] accept_new(3)]
    show ?thesis unfolding session_ok_def
    proof
      fix j
      have "(\<lambda>i. s_working s' i = Some j) = (if j = k then (\<lambda>i. i = n) else (\<lambda>i. s_working s i = Some j))"
        using idle accept_new(4) by (auto simp: accept_new(1) fun_eq_iff)
      then show "entry_ok (s_index s' j) (claims_on j s') (\<lambda>i. s_working s' i = Some j)"
        using r ok [of j] by (cases "j = k") (simp_all add: accept_new(1) claims_on_def filter_fst_remove1)
    qed
  next
    case (accept_replace k n i)
    let ?ids = "forget i n (s_index s)"
    note f = forget_ok [where ids = "s_index s" and k = i and n = n, OF ok [of i] accept_replace(4)]
    have idle: "s_working s m = Some k \<longleftrightarrow> m = n \<and> i = k" for m
      using entry_ok_claim_holder [OF ok in_claims_on [OF accept_replace(2)], of m] accept_replace(4) by auto
    have "entry_ok (?ids k) (claims_on k s) (\<lambda>_. False)"
    proof (cases "i = k")
      case False
      then show ?thesis using other_idle [of k] idle f(2) [of k] by simp
    qed (use f(1) in simp)
    note r = assign_release_ok [where ids = ?ids and k = k, OF this in_claims_on [OF accept_replace(2)] disjI2 [OF refl] accept_replace(3)]
    show ?thesis unfolding session_ok_def
    proof
      fix j
      have "(\<lambda>m. s_working s' m = Some j) = (if j = k then (\<lambda>m. m = n) else if j = i then (\<lambda>_. False) else (\<lambda>m. s_working s m = Some j))"
      proof
        fix m
        show "(s_working s' m = Some j) = (if j = k then (\<lambda>m. m = n) else if j = i then (\<lambda>_. False) else (\<lambda>m. s_working s m = Some j)) m"
          using idle [of m] accept_replace(4) entry_ok_holder [OF ok [of i], of m n]
          by (cases "m = n"; cases "j = k"; cases "j = i") (auto simp: accept_replace(1))
      qed
      then show "entry_ok (s_index s' j) (claims_on j s') (\<lambda>m. s_working s' m = Some j)"
        using r f ok [of j] by (cases "j = k"; cases "j = i") (simp_all add: accept_replace(1) ci_rename_def claims_on_def filter_fst_remove1)
    qed
  next
    case (refuse k n)
    show ?thesis unfolding session_ok_def
    proof
      fix j
      show "entry_ok (s_index s' j) (claims_on j s') (\<lambda>n. s_working s' n = Some j)"
        using release_ok [where ids = "s_index s" and k = k, OF ok [of k] in_claims_on [OF refuse(2)]] ok [of j] by (cases "j = k") (simp_all add: refuse(1) claims_on_def filter_fst_remove1)
    qed
  next
    case (finish n k)
    note f = forget_ok [where ids = "s_index s" and k = k and n = n, OF ok [of k] finish(2)]
    show ?thesis unfolding session_ok_def
    proof
      fix j
      have "(\<lambda>m. s_working s' m = Some j) = (if j = k then (\<lambda>_. False) else (\<lambda>m. s_working s m = Some j))"
      proof
        fix m
        show "(s_working s' m = Some j) = (if j = k then (\<lambda>_. False) else (\<lambda>m. s_working s m = Some j)) m"
          using finish(2) entry_ok_holder [OF ok [of k], of m n] by (cases "m = n"; cases "j = k") (auto simp: finish(1))
      qed
      then show "entry_ok (s_index s' j) (claims_on j s') (\<lambda>m. s_working s' m = Some j)"
        using f ok [of j] by (cases "j = k") (simp_all add: finish(1) claims_on_def)
    qed
  qed
qed

lemma session_reachable: "sstep\<^sup>*\<^sup>* new_session s \<Longrightarrow> session_ok s"
proof (induction rule: rtranclp_induct)
  case base
  then show ?case by (simp add: session_ok_def new_session_def entry_ok_def claims_on_def)
qed (blast intro: sstep_ok)

text \<open>
  C25. An id names one order. However requests, answers and completions interleave in a session, an id
  is taken exactly while a request in flight named it or a working order holds it; it is found as the
  working order that holds it, which is unique; and a claim is granted exactly when the id is free or
  everything on it, claims and holder alike, belongs to the one order the claim is for. A new order
  is therefore never granted an id that is in use.
\<close>

theorem cl_ord_id_exclusive:
  assumes "sstep\<^sup>*\<^sup>* new_session s"
  shows "(s_index s k = None \<longleftrightarrow> claims_on k s = [] \<and> holders k s = {}) \<and>
    (n \<noteq> 0 \<longrightarrow> (ci_find k (s_index s) = n \<longleftrightarrow> s_working s n = Some k)) \<and>
    (ci_find k (s_index s) = 0 \<longleftrightarrow> holders k s = {}) \<and>
    (m \<in> holders k s \<and> n \<in> holders k s \<longrightarrow> m = n) \<and>
    (fst (ci_claim k n (s_index s)) \<longleftrightarrow>
       claims_on k s = [] \<and> holders k s = {} \<or> n \<noteq> 0 \<and> set (claims_on k s) \<subseteq> {n} \<and> holders k s \<subseteq> {n})"
proof -
  have ok: "entry_ok (s_index s k) (claims_on k s) (\<lambda>n. s_working s n = Some k)" using session_reachable [OF assms] by (simp add: session_ok_def)
  have uniq: "m \<in> holders k s \<and> n \<in> holders k s \<longrightarrow> m = n" using entry_ok_holder [OF ok] by (simp add: holders_def)
  show ?thesis
  proof (cases "s_index s k")
    case None
    then have "claims_on k s = []" "holders k s = {}" "\<forall>i. s_working s i \<noteq> Some k" using ok by (simp_all add: entry_ok_def holders_def)
    then show ?thesis using None uniq by (simp add: ci_find_def ci_claim_def)
  next
    case (Some e)
    have e: "e_claims e = length (claims_on k s)" "\<forall>c\<in>set (claims_on k s). c = e_order e" "e_claims e > 0 \<or> e_held e" "e_held e \<longrightarrow> e_order e \<noteq> 0"
      using ok Some by (simp_all add: entry_ok_def) auto
    have w: "s_working s i = Some k \<longleftrightarrow> e_held e \<and> i = e_order e" for i using ok Some by (simp add: entry_ok_def)
    then have h: "holders k s = (if e_held e then {e_order e} else {})" by (auto simp: holders_def)
    have "claims_on k s \<noteq> [] \<or> holders k s \<noteq> {}" using e(1,3) h by auto
    moreover have "n \<noteq> 0 \<Longrightarrow> ci_find k (s_index s) = n \<longleftrightarrow> s_working s n = Some k" using Some w by (auto simp: ci_find_def)
    moreover have "ci_find k (s_index s) = 0 \<longleftrightarrow> holders k s = {}" using Some h e(4) by (simp add: ci_find_def)
    moreover have "set (claims_on k s) \<subseteq> {n} \<and> holders k s \<subseteq> {n} \<longleftrightarrow> n = e_order e"
    proof (cases "claims_on k s")
      case Nil
      then show ?thesis using e(1,3) h by auto
    next
      case (Cons c cs)
      then show ?thesis using e(2) h by auto
    qed
    moreover have "fst (ci_claim k n (s_index s)) \<longleftrightarrow> n \<noteq> 0 \<and> n = e_order e" using Some by (auto simp: ci_claim_def)
    ultimately show ?thesis using uniq Some by auto
  qed
qed

text \<open>Order 7 is named A and has a replace to B in flight: a new order is refused both ids.\<close>

theorem cl_ord_id_exclusive_witness:
  "\<exists>s. sstep\<^sup>*\<^sup>* new_session s \<and> s_working s 7 = Some ''A'' \<and> claims_on ''B'' s = [7] \<and>
     ci_find ''A'' (s_index s) = 7 \<and> \<not> fst (ci_claim ''A'' 0 (s_index s)) \<and> \<not> fst (ci_claim ''B'' 0 (s_index s)) \<and> fst (ci_claim ''B'' 7 (s_index s))"
proof -
  let ?s1 = "\<lparr>s_index = [''A'' \<mapsto> \<lparr>e_order = 0, e_claims = 1, e_held = False\<rparr>], s_requests = [(''A'', 0)], s_working = Map.empty\<rparr> :: string session"
  let ?s2 = "\<lparr>s_index = [''A'' \<mapsto> \<lparr>e_order = 7, e_claims = 0, e_held = True\<rparr>], s_requests = [], s_working = [7 \<mapsto> ''A'']\<rparr> :: string session"
  let ?s3 = "\<lparr>s_index = [''A'' \<mapsto> \<lparr>e_order = 7, e_claims = 0, e_held = True\<rparr>, ''B'' \<mapsto> \<lparr>e_order = 7, e_claims = 1, e_held = False\<rparr>],
    s_requests = [(''B'', 7)], s_working = [7 \<mapsto> ''A'']\<rparr> :: string session"
  have "sstep new_session ?s1" using sstep.claim_new [of "''A''" new_session] by (simp add: ci_claim_def new_session_def)
  moreover have "sstep ?s1 ?s2"
    using sstep.accept_new [of "''A''" ?s1 7] by (simp add: ci_release_def ci_assign_def erase_if_unused_def)
  moreover have "sstep ?s2 ?s3" using sstep.claim_replace [of ?s2 7 "''B''"] by (simp add: ci_claim_def)
  ultimately have run: "sstep\<^sup>*\<^sup>* new_session ?s3" by (meson converse_rtranclp_into_rtranclp rtranclp.rtrancl_refl)
  have h: "claims_on ''B'' ?s3 = [7]" "claims_on ''A'' ?s3 = []" "holders ''A'' ?s3 = {7}" "holders ''B'' ?s3 = {}" "s_working ?s3 7 = Some ''A''"
    by (auto simp: claims_on_def holders_def)
  show ?thesis
    using cl_ord_id_exclusive [OF run, of "''A''" 7 7] cl_ord_id_exclusive [OF run, of "''A''" 0 7] cl_ord_id_exclusive [OF run, of "''B''" 0 7]
      cl_ord_id_exclusive [OF run, of "''B''" 7 7] run unfolding h by (intro exI [of _ ?s3]) (simp add: claims_on_def)
qed

end
