(* ===== verification/Retransmit_Ring.thy ===== *)
theory Retransmit_Ring
  imports Sim_Prelude
begin

text \<open>
  \<open>src/src/order_gateway/retransmit_ring.hpp\<close>: the messages a binary session has sent, kept by
  sequence number in slots indexed by \<open>seq % capacity\<close>. Sequence numbers are 32-bit words; 0 marks an
  empty slot. \<open>rt_claim\<close> returns the index of the slot the caller encodes its message into; \<open>rt_send\<close>
  is that use of it.
\<close>

section \<open>State and operations\<close>

record Slot =
  sl_seq :: "32 word"
  sl_size :: "16 word"
  sl_replay_flag_offset :: "16 word"
  sl_data :: "8 word list"

definition empty_slot :: "nat \<Rightarrow> Slot" where
  "empty_slot message_capacity = \<lparr>sl_seq = 0, sl_size = 0, sl_replay_flag_offset = 0, sl_data = replicate message_capacity 0\<rparr>"

type_synonym RetransmitRing = "Slot list"

definition rt_new :: "nat \<Rightarrow> nat \<Rightarrow> RetransmitRing" where
  "rt_new message_capacity capacity = replicate (max capacity 1) (empty_slot message_capacity)"

text \<open>
  The assertion that the ring is not empty (retransmit_ring.hpp:38) is not a branch: the constructor makes at least
  one slot (\<open>rt_new\<close>), and no operation changes the number of slots.
\<close>

definition rt_claim :: "32 word \<Rightarrow> RetransmitRing \<Rightarrow> nat \<times> RetransmitRing" where
  "rt_claim s ring = (let i = unat s mod length ring in (i, ring[i := (ring ! i)\<lparr>sl_seq := s\<rparr>]))"

definition rt_find :: "32 word \<Rightarrow> RetransmitRing \<Rightarrow> Slot option" where
  "rt_find s ring =
     (if s = 0 \<or> ring = [] then None
      else let slot = ring ! (unat s mod length ring) in if sl_seq slot = s then Some slot else None)"

definition holds :: "32 word \<Rightarrow> 32 word \<Rightarrow> RetransmitRing \<Rightarrow> bool" where
  "holds from_seq cnt ring = list_all (\<lambda>i. rt_find (from_seq + of_nat i) ring \<noteq> None) [0..<unat cnt]"

definition rt_clear :: "RetransmitRing \<Rightarrow> RetransmitRing" where
  "rt_clear ring = map (\<lambda>slot. slot\<lparr>sl_seq := 0\<rparr>) ring"

definition rt_resize :: "nat \<Rightarrow> nat \<Rightarrow> RetransmitRing \<Rightarrow> RetransmitRing" where
  "rt_resize message_capacity capacity ring =
     (let n = max capacity 1 in take n ring @ replicate (n - length ring) (empty_slot message_capacity))"

text \<open>A session sends: it claims the slot of the next number and encodes the message there.\<close>

definition rt_send :: "(32 word \<Rightarrow> Slot \<Rightarrow> Slot) \<Rightarrow> 32 word \<Rightarrow> RetransmitRing \<Rightarrow> RetransmitRing" where
  "rt_send encode s ring = (let (i, ring') = rt_claim s ring in ring'[i := encode s (ring' ! i)])"

definition send_all :: "(32 word \<Rightarrow> Slot \<Rightarrow> Slot) \<Rightarrow> nat \<Rightarrow> RetransmitRing \<Rightarrow> RetransmitRing" where
  "send_all encode n ring = foldl (\<lambda>r i. rt_send encode (of_nat i) r) ring [1..<Suc n]"

section \<open>What is still held\<close>

lemma length_rt_send [simp]: "length (rt_send encode s ring) = length ring"
  by (simp add: rt_send_def rt_claim_def Let_def)

lemma rt_send_nth:
  assumes "i < length ring"
  shows "rt_send encode s ring ! i = (if i = unat s mod length ring then encode s ((ring ! i)\<lparr>sl_seq := s\<rparr>) else ring ! i)"
  using assms by (auto simp: rt_send_def rt_claim_def Let_def)

lemma send_all_0 [simp]: "send_all encode 0 ring = ring"
  by (simp add: send_all_def)

lemma send_all_Suc [simp]: "send_all encode (Suc n) ring = rt_send encode (of_nat (Suc n)) (send_all encode n ring)"
  by (simp add: send_all_def)

lemma length_send_all [simp]: "length (send_all encode n ring) = length ring"
  by (induction n) simp_all

text \<open>The newest number up to \<open>n\<close> that falls on slot \<open>i\<close> of \<open>c\<close>, or 0.\<close>

fun newest :: "nat \<Rightarrow> nat \<Rightarrow> nat \<Rightarrow> nat" where
  "newest c 0 i = 0"
| "newest c (Suc n) i = (if Suc n mod c = i then Suc n else newest c n i)"

lemma newest_le: "newest c n i \<le> n"
  by (induction n) (auto simp: le_Suc_eq)

lemma newest_mod: "newest c n i = 0 \<or> newest c n i mod c = i"
  by (induction n) auto

lemma newest_eq_iff:
  assumes "0 < s" and "s \<le> n" and "0 < c"
  shows "newest c n (s mod c) = s \<longleftrightarrow> n < s + c"
  using assms(2)
proof (induction n)
  case (Suc n)
  show ?case
  proof (cases "s = Suc n")
    case False
    then have s: "s \<le> n" using Suc.prems by simp
    show ?thesis
    proof (cases "Suc n mod c = s mod c")
      case True
      then have "c dvd Suc n - s" using s by (simp add: mod_eq_dvd_iff_nat)
      then have "c \<le> Suc n - s" using s False by (intro dvd_imp_le) auto
      then show ?thesis using True False s by simp
    next
      case neq: False
      then have "Suc n \<noteq> s + c" by auto
      then show ?thesis using Suc.IH [OF s] neq by auto
    qed
  qed (use assms(3) in simp)
qed (use assms in simp)

lemma send_all_seq:
  assumes enc: "\<And>s slot. sl_seq (encode s slot) = sl_seq slot" and c: "0 < c" "i < c" and n: "n < 2 ^ 32"
  shows "sl_seq (send_all encode n (rt_new mc c) ! i) = of_nat (newest c n i)"
  using n
proof (induction n)
  case 0
  then show ?case using c by (simp add: rt_new_def empty_slot_def max_def)
next
  case (Suc n)
  have len: "length (rt_new mc c) = c" using c by (simp add: rt_new_def)
  have "unat (of_nat (Suc n) :: 32 word) = Suc n" using Suc.prems by (simp add: unat_of_nat del: of_nat_Suc)
  then show ?case using Suc c rt_send_nth [of i "send_all encode n (rt_new mc c)" encode "of_nat (Suc n)"] by (simp add: len enc)
qed

lemma send_all_written:
  assumes enc: "\<And>s slot. payload (encode s slot) = msg s" "\<And>s slot. sl_seq (encode s slot) = sl_seq slot"
    and c: "0 < c" "i < c" and n: "n < 2 ^ 32" and "newest c n i \<noteq> 0"
  shows "payload (send_all encode n (rt_new mc c) ! i) = msg (of_nat (newest c n i))"
  using n assms(6)
proof (induction n)
  case (Suc n)
  have len: "length (rt_new mc c) = c" using c by (simp add: rt_new_def)
  have "unat (of_nat (Suc n) :: 32 word) = Suc n" using Suc.prems by (simp add: unat_of_nat del: of_nat_Suc)
  then show ?case using Suc c rt_send_nth [of i "send_all encode n (rt_new mc c)" encode "of_nat (Suc n)"] by (auto simp: len enc split: if_splits)
qed simp

text \<open>What a caller encodes: some function of the slot, judged by the message read back from it.\<close>

definition message :: "Slot \<Rightarrow> 8 word list" where
  "message slot = take (unat (sl_size slot)) (sl_data slot)"

lemma find_sent:
  assumes enc: "\<And>s slot. message (encode s slot) = msg s" "\<And>s slot. sl_seq (encode s slot) = sl_seq slot"
    and c: "0 < c" and n: "n < 2 ^ 32"
  shows "map_option message (rt_find s (send_all encode n (rt_new mc c))) =
    (if 0 < unat s \<and> unat s \<le> n \<and> n < unat s + c then Some (msg s) else None)"
proof (cases "s = 0")
  case False
  let ?i = "unat s mod c" and ?ring = "send_all encode n (rt_new mc c)"
  have len: "length ?ring = c" "?ring \<noteq> []" using c by (auto simp: rt_new_def simp flip: length_greater_0_conv)
  have i: "?i < c" using c by simp
  have sq: "sl_seq (?ring ! ?i) = of_nat (newest c n ?i)" by (rule send_all_seq [where encode = encode, OF enc(2) c i n])
  have "newest c n ?i < 2 ^ 32" using newest_le [of c n ?i] n by simp
  then have w: "of_nat (newest c n ?i) = s \<longleftrightarrow> newest c n ?i = unat s" by (auto simp: unat_of_nat word_unat_eq_iff)
  have s0: "0 < unat s" using False by (simp add: unat_gt_0)
  have iff: "newest c n ?i = unat s \<longleftrightarrow> unat s \<le> n \<and> n < unat s + c"
    using newest_eq_iff [OF s0 _ c, of n] newest_le [of c n ?i] by (cases "unat s \<le> n") auto
  have "message (?ring ! ?i) = msg s" if "newest c n ?i = unat s"
    using send_all_written [where payload = message and encode = encode and msg = msg and mc = mc, OF enc c i n] that s0 by simp
  then show ?thesis using False s0 len iff w sq by (auto simp: rt_find_def Let_def)
qed (simp add: rt_find_def)

lemma range_held:
  fixes cnt start n c :: nat
  assumes "start < 2 ^ 32" and "n < 2 ^ 32 - 1"
  shows "(\<forall>i<cnt. 0 < (start + i) mod 2 ^ 32 \<and> (start + i) mod 2 ^ 32 \<le> n \<and> n < (start + i) mod 2 ^ 32 + c) \<longleftrightarrow>
    cnt = 0 \<or> 0 < start \<and> start + cnt \<le> n + 1 \<and> n < start + c"
    (is "?all \<longleftrightarrow> ?range")
proof
  assume all: ?all
  show ?range
  proof (cases "cnt = 0")
    case False
    then have s: "0 < start" "n < start + c" using all [rule_format, of 0] assms(1) by auto
    have "start + cnt \<le> n + 1"
    proof (rule ccontr)
      assume "\<not> start + cnt \<le> n + 1"
      moreover have "start \<le> n" using all [rule_format, of 0] False assms(1) by simp
      ultimately have "n + 1 - start < cnt" "start + (n + 1 - start) = n + 1" by auto
      then show False using all [rule_format, of "n + 1 - start"] assms(2) by simp
    qed
    then show ?thesis using s by simp
  qed simp
next
  assume ?range
  then show ?all using assms(2) by auto
qed

text \<open>
  C26. Retransmission. After the messages 1 to \<open>n\<close> of a session have been sent through a ring, asking
  for a number gives back exactly the message sent under it when it is one of the newest \<open>capacity\<close>,
  and nothing for every other number: never another message. A range is held exactly when it lies
  within those, as a range of whole numbers: one that runs over the end of the 32-bit space is not.
  Clearing forgets every message and keeps the capacity.
\<close>

theorem retransmit_window:
  assumes "\<And>s slot. message (encode s slot) = msg s" and "\<And>s slot. sl_seq (encode s slot) = sl_seq slot"
    and "0 < c" and "n < 2 ^ 32 - 1"
  shows "map_option message (rt_find s (send_all encode n (rt_new mc c))) =
      (if 0 < unat s \<and> unat s \<le> n \<and> n < unat s + c then Some (msg s) else None) \<and>
    (holds from_seq cnt (send_all encode n (rt_new mc c)) \<longleftrightarrow>
      cnt = 0 \<or> 0 < unat from_seq \<and> unat from_seq + unat cnt \<le> n + 1 \<and> n < unat from_seq + c) \<and>
    rt_find s (rt_clear (send_all encode n (rt_new mc c))) = None \<and>
    length (rt_clear (send_all encode n (rt_new mc c))) = c"
proof -
  let ?ring = "send_all encode n (rt_new mc c)"
  have n: "n < 2 ^ 32" using assms(4) by simp
  note f = find_sent [where encode = encode and msg = msg and mc = mc, OF assms(1-3) n]
  have "rt_find (from_seq + of_nat i) ?ring \<noteq> None \<longleftrightarrow>
      0 < (unat from_seq + i) mod 2 ^ 32 \<and> (unat from_seq + i) mod 2 ^ 32 \<le> n \<and> n < (unat from_seq + i) mod 2 ^ 32 + c" for i
    using f [of "from_seq + of_nat i"] by (auto simp: unat_word_ariths unat_of_nat mod_simps split: if_splits)
  then have h: "holds from_seq cnt ?ring \<longleftrightarrow> (\<forall>i<unat cnt. 0 < (unat from_seq + i) mod 2 ^ 32 \<and>
      (unat from_seq + i) mod 2 ^ 32 \<le> n \<and> n < (unat from_seq + i) mod 2 ^ 32 + c)"
    by (auto simp: holds_def list_all_iff)
  have "unat cnt < 2 ^ 32" "unat from_seq < 2 ^ 32" using unsigned_less [of cnt, where ?'a = nat] unsigned_less [of from_seq, where ?'a = nat] by simp_all
  moreover have "cnt = 0 \<longleftrightarrow> unat cnt = 0" by (simp add: unat_eq_0)
  ultimately have "holds from_seq cnt ?ring \<longleftrightarrow> cnt = 0 \<or> 0 < unat from_seq \<and> unat from_seq + unat cnt \<le> n + 1 \<and> n < unat from_seq + c"
    unfolding h using range_held [of "unat from_seq" n "unat cnt" c] assms(4) by simp
  moreover have "rt_find s (rt_clear ?ring) = None" using assms(3) by (auto simp: rt_find_def rt_clear_def rt_new_def Let_def)
  moreover have "length (rt_clear ?ring) = c" using assms(3) by (simp add: rt_clear_def rt_new_def)
  ultimately show ?thesis using f by blast
qed

theorem retransmit_window_witness:
  "let encode = (\<lambda>s slot. slot\<lparr>sl_size := 1, sl_data := [ucast s]\<rparr>); ring = send_all encode 3 (rt_new 1 2)
   in map_option message (rt_find 1 ring) = None \<and> map_option message (rt_find 2 ring) = Some [2] \<and> holds 2 2 ring \<and> \<not> holds 3 4294967295 ring"
proof -
  let ?encode = "\<lambda>s slot. slot\<lparr>sl_size := 1, sl_data := [ucast s]\<rparr>"
  have "message (?encode s slot) = [ucast s]" "sl_seq (?encode s slot) = sl_seq slot" for s slot by (simp_all add: message_def)
  note w = retransmit_window [where encode = ?encode and mc = 1, OF this, of 2 3, simplified]
  show ?thesis using w [of 1 2 2] w [of 2 3 4294967295] by (simp add: Let_def)
qed

end
