(* ===== verification/Tcp_Gateway.thy ===== *)
theory Tcp_Gateway
  imports Order_Store
begin

text \<open>
  \<open>src/src/order_gateway/tcp_order_gateway.cpp\<close>: the transport half of a binary gateway. A venue's
  protocol is code outside this repository, so its callbacks \<open>on_data\<close>, \<open>on_disconnect\<close>,
  \<open>on_response\<close> and \<open>on_poll\<close> are parameters working on a protocol state \<open>'s\<close>. The model keeps, per
  connection, the bytes received and not consumed, and the cursor into the response queue, which is
  the list of the responses published so far.
\<close>

section \<open>State and operations\<close>

type_synonym bytes = "8 word list"

record TcpOrderGateway =
  tg_partial :: "int \<rightharpoonup> bytes"
  tg_response_cursor :: nat

type_synonym 's on_data = "int \<Rightarrow> bytes \<Rightarrow> 's \<Rightarrow> nat \<times> 's"

text \<open>The constructor starts behind the responses published before the gateway existed.\<close>

definition new_gateway :: "OrderResponse list \<Rightarrow> TcpOrderGateway" where
  "new_gateway response_queue = \<lparr>tg_partial = Map.empty, tg_response_cursor = length response_queue\<rparr>"

definition onClientDisconnected :: "(int \<Rightarrow> 's \<Rightarrow> 's) \<Rightarrow> int \<Rightarrow> TcpOrderGateway \<times> 's \<Rightarrow> TcpOrderGateway \<times> 's" where
  "onClientDisconnected on_disconnect cid gs =
     ((fst gs)\<lparr>tg_partial := (tg_partial (fst gs))(cid := None)\<rparr>, on_disconnect cid (snd gs))"

definition onClientData :: "'s on_data \<Rightarrow> int \<Rightarrow> bytes \<Rightarrow> TcpOrderGateway \<times> 's \<Rightarrow> TcpOrderGateway \<times> 's" where
  "onClientData on_data cid data gs =
     (let g = fst gs; p = tg_partial g cid
      in if p = None \<or> p = Some []
         then let (consumed, s) = on_data cid data (snd gs)
              in (if consumed < length data then g\<lparr>tg_partial := (tg_partial g)(cid \<mapsto> drop consumed data)\<rparr> else g, s)
         else let buffer = the p @ data; (consumed, s) = on_data cid buffer (snd gs)
              in (g\<lparr>tg_partial := (tg_partial g)(cid \<mapsto> drop consumed buffer)\<rparr>, s))"

definition MAX_RESPONSES_PER_POLL :: nat where
  "MAX_RESPONSES_PER_POLL = 1024"

fun poll_loop :: "(OrderResponse \<Rightarrow> 's \<Rightarrow> 's) \<Rightarrow> OrderResponse list \<Rightarrow> nat \<Rightarrow> nat \<times> 's \<Rightarrow> nat \<times> 's" where
  "poll_loop on_response queue 0 cs = cs"
| "poll_loop on_response queue (Suc i) (cursor, s) =
     (if cursor < length queue then poll_loop on_response queue i (cursor + 1, on_response (queue ! cursor) s) else (cursor, s))"

definition onPoll :: "(OrderResponse \<Rightarrow> 's \<Rightarrow> 's) \<Rightarrow> ('s \<Rightarrow> 's) \<Rightarrow> OrderResponse list \<Rightarrow> TcpOrderGateway \<times> 's \<Rightarrow> TcpOrderGateway \<times> 's" where
  "onPoll on_response on_poll queue gs =
     (let (cursor, s) = poll_loop on_response queue MAX_RESPONSES_PER_POLL (tg_response_cursor (fst gs), snd gs)
      in ((fst gs)\<lparr>tg_response_cursor := cursor\<rparr>, on_poll s))"

section \<open>What the protocol promises\<close>

text \<open>
  \<open>on_data\<close> is documented to consume as many whole messages from the front as are there and to return
  how many bytes that was. A framing \<open>next_message\<close> says how long the message at the front is, once
  all of it is there: what follows the message does not change that.
\<close>

definition framing :: "(bytes \<Rightarrow> nat option) \<Rightarrow> bool" where
  "framing next_message \<longleftrightarrow>
     (\<forall>bs n. next_message bs = Some n \<longrightarrow> 0 < n \<and> n \<le> length bs \<and> (\<forall>xs. next_message (bs @ xs) = Some n))"

text \<open>The guard on \<open>n\<close> is the framing's first law; it makes the walk terminate for any argument.\<close>

function messages :: "(bytes \<Rightarrow> nat option) \<Rightarrow> bytes \<Rightarrow> bytes list \<times> bytes" where
  "messages next_message bs = (case next_message bs of
      None \<Rightarrow> ([], bs)
    | Some n \<Rightarrow> if 0 < n \<and> n \<le> length bs
               then let (ms, rest) = messages next_message (drop n bs) in (take n bs # ms, rest) else ([], bs))"
  by pat_completeness auto
termination by (relation "measure (length \<circ> snd)") auto

declare messages.simps [simp del]

definition whole_messages :: "(bytes \<Rightarrow> nat option) \<Rightarrow> (int \<Rightarrow> 's \<Rightarrow> bytes \<Rightarrow> 's) \<Rightarrow> 's on_data \<Rightarrow> bool" where
  "whole_messages next_message handle on_data \<longleftrightarrow>
     (\<forall>c bs s. on_data c bs s = (length bs - length (snd (messages next_message bs)), foldl (handle c) s (fst (messages next_message bs))))"

lemma messages_split: "bs = concat (fst (messages nm bs)) @ snd (messages nm bs)"
proof (induction nm bs rule: messages.induct)
  case (1 nm bs)
  show ?case
  proof (cases "nm bs")
    case (Some n)
    show ?thesis
    proof (cases "0 < n \<and> n \<le> length bs")
      case True
      then have "drop n bs = concat (fst (messages nm (drop n bs))) @ snd (messages nm (drop n bs))" using 1 [OF Some] by simp
      then have "take n bs @ concat (fst (messages nm (drop n bs))) @ snd (messages nm (drop n bs)) = bs" by (metis append_take_drop_id)
      then show ?thesis using True Some by (subst (1 2) messages.simps) (simp add: split_beta Let_def)
    qed (use Some in \<open>auto simp: messages.simps [of nm bs]\<close>)
  qed (simp add: messages.simps)
qed

lemma drop_consumed: "drop (length bs - length (snd (messages nm bs))) bs = snd (messages nm bs)"
  using messages_split [of bs nm] by (metis add_diff_cancel_right' append_eq_conv_conj length_append)

text \<open>Reading on after the unconsumed tail is reading the whole run.\<close>

lemma messages_append:
  assumes "framing nm"
  shows "messages nm (bs @ xs) =
    (fst (messages nm bs) @ fst (messages nm (snd (messages nm bs) @ xs)), snd (messages nm (snd (messages nm bs) @ xs)))"
  using assms
proof (induction nm bs rule: messages.induct)
  case (1 nm bs)
  show ?case
  proof (cases "nm bs")
    case (Some n)
    then have n: "0 < n" "n \<le> length bs" "nm (bs @ xs) = Some n" using "1.prems" by (auto simp: framing_def)
    then have a: "messages nm (bs @ xs) = (take n bs # fst (messages nm (drop n bs @ xs)), snd (messages nm (drop n bs @ xs)))"
      by (subst messages.simps) (simp add: split_beta Let_def)
    have b: "messages nm bs = (take n bs # fst (messages nm (drop n bs)), snd (messages nm (drop n bs)))"
      using n Some by (subst messages.simps) (simp add: split_beta Let_def)
    show ?thesis unfolding a b using "1.IH" [OF Some _ "1.prems"] n by simp
  qed (simp add: messages.simps [of nm bs])
qed

section \<open>A run of the server thread\<close>

datatype tcp_event = Data int bytes | Disconnect int

fun tcp_step :: "'s on_data \<Rightarrow> (int \<Rightarrow> 's \<Rightarrow> 's) \<Rightarrow> TcpOrderGateway \<times> 's \<Rightarrow> tcp_event \<Rightarrow> TcpOrderGateway \<times> 's" where
  "tcp_step on_data on_disconnect gs (Data c bs) = onClientData on_data c bs gs"
| "tcp_step on_data on_disconnect gs (Disconnect c) = onClientDisconnected on_disconnect c gs"

text \<open>What a connection's client sent, one byte run per life of the connection.\<close>

fun lives :: "int \<Rightarrow> tcp_event list \<Rightarrow> bytes list" where
  "lives c [] = [[]]"
| "lives c (Data d bs # evs) = (if d = c then (bs @ hd (lives c evs)) # tl (lives c evs) else lives c evs)"
| "lives c (Disconnect d # evs) = (if d = c then [] # lives c evs else lives c evs)"

text \<open>What the protocol is handed: a message or the end of a connection.\<close>

fun handed :: "(int \<Rightarrow> 's \<Rightarrow> bytes \<Rightarrow> 's) \<Rightarrow> (int \<Rightarrow> 's \<Rightarrow> 's) \<Rightarrow> 's \<Rightarrow> int \<times> bytes option \<Rightarrow> 's" where
  "handed handle on_disconnect s (c, Some m) = handle c s m"
| "handed handle on_disconnect s (c, None) = on_disconnect c s"

definition life_log :: "(bytes \<Rightarrow> nat option) \<Rightarrow> bytes list \<Rightarrow> bytes option list" where
  "life_log nm ls = concat (map (\<lambda>l. map Some (fst (messages nm l)) @ [None]) (butlast ls)) @ map Some (fst (messages nm (last ls)))"

definition buffered :: "int \<Rightarrow> TcpOrderGateway \<Rightarrow> bytes" where
  "buffered c g = (case tg_partial g c of None \<Rightarrow> [] | Some bs \<Rightarrow> bs)"

lemma onClientData_handed:
  assumes "whole_messages nm handle on_data"
  shows "\<exists>g'. onClientData on_data c bs (g, s) =
      (g', foldl (handed handle on_disconnect) s (map (\<lambda>m. (c, Some m)) (fst (messages nm (buffered c g @ bs))))) \<and>
    buffered c g' = snd (messages nm (buffered c g @ bs)) \<and> (\<forall>d. d \<noteq> c \<longrightarrow> buffered d g' = buffered d g)"
proof -
  have od: "on_data c bs s = (length bs - length (snd (messages nm bs)), foldl (handle c) s (fst (messages nm bs)))" for bs
    using assms by (simp add: whole_messages_def)
  have fl: "foldl (handed handle on_disconnect) s (map (\<lambda>m. (c, Some m)) ms) = foldl (handle c) s ms" for s ms
    by (induction ms arbitrary: s) simp_all
  show ?thesis
  proof (cases "tg_partial g c = None \<or> tg_partial g c = Some []")
    case True
    then have "buffered c g = []" by (auto simp: buffered_def)
    moreover have "\<not> length bs - length (snd (messages nm bs)) < length bs \<Longrightarrow> snd (messages nm bs) = []"
      using drop_consumed [of bs nm] by (metis drop_eq_Nil not_less)
    ultimately show ?thesis using True drop_consumed [of bs nm] by (auto simp: onClientData_def Let_def od fl buffered_def)
  next
    case False
    then obtain p where p: "tg_partial g c = Some p" "p \<noteq> []" by auto
    then show ?thesis using drop_consumed [of "p @ bs" nm] by (simp add: onClientData_def Let_def od fl buffered_def)
  qed
qed

lemma lives_nonempty [simp]: "lives c evs \<noteq> []"
  by (induction c evs rule: lives.induct) auto

lemma lives_data: "lives c (evs @ [Data d bs]) = (if d = c then butlast (lives c evs) @ [last (lives c evs) @ bs] else lives c evs)"
proof (induction c evs rule: lives.induct)
  case (2 c e xs evs)
  then show ?case by (cases "lives c evs") (auto simp: butlast_append)
next
  case (3 c e evs)
  then show ?case by (cases "e = c") auto
qed simp

lemma lives_disconnect: "lives c (evs @ [Disconnect d]) = (if d = c then lives c evs @ [[]] else lives c evs)"
proof (induction c evs rule: lives.induct)
  case (2 c e xs evs)
  then show ?case by (cases "lives c evs") auto
next
  case (3 c e evs)
  then show ?case by (cases "e = c") auto
qed simp

lemmas lives_snoc = lives_data lives_disconnect

lemma messages_nil: "framing nm \<Longrightarrow> messages nm [] = ([], [])"
  unfolding framing_def by (cases "nm []") (fastforce simp: messages.simps)+

lemma life_log_end: "ls \<noteq> [] \<Longrightarrow> framing nm \<Longrightarrow> life_log nm (ls @ [[]]) = life_log nm ls @ [None]"
  by (cases ls rule: rev_cases) (simp_all add: life_log_def messages_nil butlast_append)

lemma tcp_run:
  assumes "framing nm" and "whole_messages nm handle on_data"
  shows "\<exists>L. snd (foldl (tcp_step on_data on_disconnect) (new_gateway q, s) evs) = foldl (handed handle on_disconnect) s L \<and>
    (\<forall>c. map snd (filter (\<lambda>e. fst e = c) L) = life_log nm (lives c evs) \<and>
         buffered c (fst (foldl (tcp_step on_data on_disconnect) (new_gateway q, s) evs)) = snd (messages nm (last (lives c evs))))"
proof (induction evs rule: rev_induct)
  case Nil
  show ?case using messages_nil [OF assms(1)] by (intro exI [of _ "[]"]) (simp add: life_log_def buffered_def new_gateway_def)
next
  case (snoc ev evs)
  obtain g t where gt: "foldl (tcp_step on_data on_disconnect) (new_gateway q, s) evs = (g, t)" by fastforce
  obtain L where L: "t = foldl (handed handle on_disconnect) s L"
    "\<And>c. map snd (filter (\<lambda>e. fst e = c) L) = life_log nm (lives c evs)" "\<And>c. buffered c g = snd (messages nm (last (lives c evs)))"
    using snoc unfolding gt by auto
  show ?case
  proof (cases ev)
    case (Data c bs)
    let ?ms = "fst (messages nm (buffered c g @ bs))"
    obtain g' where g': "onClientData on_data c bs (g, t) = (g', foldl (handed handle on_disconnect) t (map (\<lambda>m. (c, Some m)) ?ms))"
      "buffered c g' = snd (messages nm (buffered c g @ bs))" "\<And>d. d \<noteq> c \<Longrightarrow> buffered d g' = buffered d g"
      using onClientData_handed [OF assms(2), of c bs g t on_disconnect] by blast
    have log: "map snd (filter (\<lambda>e. fst e = d) (L @ map (\<lambda>m. (c, Some m)) ?ms)) = life_log nm (lives d (evs @ [ev]))" for d
      using L(2) [of d] messages_append [OF assms(1), of "last (lives c evs)" bs] L(3) [of c]
      by (cases "d = c") (simp_all add: Data lives_snoc life_log_def filter_map o_def)
    have buf: "buffered d g' = snd (messages nm (last (lives d (evs @ [ev]))))" for d
      using g'(2,3) L(3) messages_append [OF assms(1), of "last (lives c evs)" bs] by (cases "d = c") (simp_all add: Data lives_snoc)
    show ?thesis using log buf g'(1) L(1) by (intro exI [of _ "L @ map (\<lambda>m. (c, Some m)) ?ms"]) (simp add: gt Data)
  next
    case (Disconnect c)
    have "map snd (filter (\<lambda>e. fst e = d) (L @ [(c, None)])) = life_log nm (lives d (evs @ [ev]))" for d
      using L(2) [of d] by (simp add: Disconnect lives_snoc life_log_end [OF _ assms(1)])
    moreover have "buffered d (g\<lparr>tg_partial := (tg_partial g)(c := None)\<rparr>) = snd (messages nm (last (lives d (evs @ [ev]))))" for d
      using L(3) [of d] by (simp add: Disconnect lives_snoc messages_nil [OF assms(1)] buffered_def)
    ultimately show ?thesis using L(1) by (intro exI [of _ "L @ [(c, None)]"]) (simp add: gt Disconnect onClientDisconnected_def)
  qed
qed

lemma poll_loop_eq:
  "c \<le> length queue \<Longrightarrow> poll_loop on_response queue n (c, s) =
     (min (c + n) (length queue), foldl (\<lambda>s r. on_response r s) s (take n (drop c queue)))"
proof (induction n arbitrary: c s)
  case (Suc n)
  then show ?case by (cases "c < length queue") (simp_all add: Cons_nth_drop_Suc [symmetric] min_def)
qed simp

lemma onPoll_in_order:
  assumes "tg_response_cursor g \<le> length queue"
  shows "onPoll on_response on_poll queue (g, s) =
    (g\<lparr>tg_response_cursor := min (tg_response_cursor g + 1024) (length queue)\<rparr>,
     on_poll (foldl (\<lambda>s r. on_response r s) s (take 1024 (drop (tg_response_cursor g) queue))))"
  by (simp add: onPoll_def MAX_RESPONSES_PER_POLL_def poll_loop_eq [OF assms])

text \<open>
  C27. Framing does not depend on how the bytes arrive. However the data of the connections is cut into
  reads and interleaved, the protocol is handed, per connection and per life of it, exactly the
  messages of the whole byte run the client sent, in order, each once, with the end of the connection
  after them; the bytes kept for a connection are exactly the tail that is not a whole message yet. A
  poll hands the protocol the next responses in order, at most 1024, and none is skipped or repeated.
\<close>

theorem tcp_stream_framed:
  assumes "framing nm" and "whole_messages nm handle on_data"
    and "foldl (tcp_step on_data on_disconnect) (new_gateway q, s) evs = (g, s')"
  shows "(\<exists>L. s' = foldl (handed handle on_disconnect) s L \<and>
      (\<forall>c. map snd (filter (\<lambda>e. fst e = c) L) = life_log nm (lives c evs) \<and> buffered c g = snd (messages nm (last (lives c evs))))) \<and>
    (length q \<le> length queue \<longrightarrow> onPoll on_response on_poll queue (new_gateway q, s) =
       ((new_gateway q)\<lparr>tg_response_cursor := min (length q + 1024) (length queue)\<rparr>,
        on_poll (foldl (\<lambda>s r. on_response r s) s (take 1024 (drop (length q) queue)))))"
proof (intro conjI impI)
  assume "length q \<le> length queue"
  then show "onPoll on_response on_poll queue (new_gateway q, s) =
       ((new_gateway q)\<lparr>tg_response_cursor := min (length q + 1024) (length queue)\<rparr>,
        on_poll (foldl (\<lambda>s r. on_response r s) s (take 1024 (drop (length q) queue))))"
    using onPoll_in_order [of "new_gateway q" queue on_response on_poll s] by (simp add: new_gateway_def)
qed (use tcp_run [OF assms(1,2), of on_disconnect q s evs] in \<open>simp add: assms(3)\<close>)

text \<open>A length-prefixed protocol that records what it is handed.\<close>

definition ex_next :: "bytes \<Rightarrow> nat option" where
  "ex_next bs = (case bs of [] \<Rightarrow> None | b # _ \<Rightarrow> if unat b + 1 \<le> length bs then Some (unat b + 1) else None)"

definition ex_handle :: "int \<Rightarrow> (int \<times> bytes option) list \<Rightarrow> bytes \<Rightarrow> (int \<times> bytes option) list" where
  "ex_handle c s m = s @ [(c, Some m)]"

definition ex_on_data :: "(int \<times> bytes option) list on_data" where
  "ex_on_data c bs s = (length bs - length (snd (messages ex_next bs)), foldl (ex_handle c) s (fst (messages ex_next bs)))"

lemma ex_protocol: "framing ex_next" "whole_messages ex_next ex_handle ex_on_data"
proof -
  have "ex_next (bs @ xs) = Some n" if "ex_next bs = Some n" for bs xs n
    using that by (cases bs) (auto simp: ex_next_def split: if_splits)
  then show "framing ex_next" unfolding framing_def by (auto simp: ex_next_def split: list.splits if_splits)
  show "whole_messages ex_next ex_handle ex_on_data" by (simp add: whole_messages_def ex_on_data_def)
qed

theorem tcp_stream_framed_witness:
  "\<exists>L g. foldl (tcp_step ex_on_data (\<lambda>c s. s @ [(c, None)])) (new_gateway [], []) [Data 1 [2, 7], Data 2 [0], Data 1 [8, 1], Disconnect 2] = (g, L) \<and>
     map snd (filter (\<lambda>e. fst e = 1) L) = [Some [2, 7, 8]] \<and> map snd (filter (\<lambda>e. fst e = 2) L) = [Some [0], None] \<and> buffered 1 g = [1]"
proof -
  let ?od = "\<lambda>c s. s @ [(c, None)]" and ?evs = "[Data 1 [2, 7], Data 2 [0], Data 1 [8, 1], Disconnect 2]"
  obtain g s where run: "foldl (tcp_step ex_on_data ?od) (new_gateway [], []) ?evs = (g, s)" by fastforce
  obtain L where L: "s = foldl (handed ex_handle ?od) [] L"
    "\<And>c. map snd (filter (\<lambda>e. fst e = c) L) = life_log ex_next (lives c ?evs)" "\<And>c. buffered c g = snd (messages ex_next (last (lives c ?evs)))"
    using tcp_stream_framed [OF ex_protocol run] by blast
  have "handed ex_handle ?od s e = s @ [e]" for s e by (cases e; cases "snd e") (auto simp: ex_handle_def)
  then have "foldl (handed ex_handle ?od) t M = t @ M" for t M by (induction M arbitrary: t) simp_all
  then have s: "s = L" using L(1) by simp
  have m: "messages ex_next [2, 7, 8, 1] = ([[2, 7, 8]], [1])" "messages ex_next [0] = ([[0]], [])" "messages ex_next [] = ([], [])"
    by (simp_all add: messages.simps ex_next_def)
  show ?thesis using run L(2) [of 1] L(2) [of 2] L(3) [of 1] by (intro exI [of _ s] exI [of _ g]) (simp add: s life_log_def m)
qed

end
