(* ===== verification/Hyperliquid_L2.thy ===== *)
theory Hyperliquid_L2
  imports Order_Book
begin

text \<open>
  \<open>src/src/venues/hyperliquid/hyperliquid_l2_diff.cpp\<close>, \<open>hyperliquid_wire_format.hpp\<close>, and the index
  mirror of \<open>HyperliquidExchange::processL2Diff\<close>: the two ends of the venue's incremental book
  channel. The publisher turns two book states into changed levels and removed indices; the exchange
  resolves the same shape against the ordered prices it last saw. Numbers travel as text; reading one
  back is \<open>std::stod\<close> and a floating-point rounding, a parameter here.
\<close>

section \<open>The publisher's side\<close>

definition to_hyperliquid_number :: "int \<Rightarrow> string" where
  "to_hyperliquid_number v = to_fixed_string v 1"

type_synonym L2Levels = "(price_t \<times> qty_t) list"

definition L2_PUBLISH_DEPTH :: nat where
  "L2_PUBLISH_DEPTH = 20"

text \<open>A row of the venue's book: price, size and number of orders.\<close>

type_synonym l2_row = "string \<times> string \<times> nat"

definition emit :: "SnapLevel \<Rightarrow> l2_row \<times> price_t \<times> qty_t" where
  "emit level = ((to_hyperliquid_number (sl_price level), to_hyperliquid_number (sl_qty level), sl_num_orders level),
     sl_price level, sl_qty level)"

definition split_book_snapshot :: "SnapLevel list \<Rightarrow> nat \<Rightarrow> nat \<Rightarrow> (l2_row list \<times> l2_row list) \<times> L2Levels \<times> L2Levels" where
  "split_book_snapshot levels num_bids num_asks =
     (let bid_count = min num_bids L2_PUBLISH_DEPTH;
          ask_count = min num_asks L2_PUBLISH_DEPTH;
          bids = map (\<lambda>i. emit (levels ! i)) [0..<bid_count];
          asks = map (\<lambda>i. emit (levels ! (num_bids + i))) [0..<ask_count]
      in ((map fst bids, map fst asks), map snd bids, map snd asks))"

text \<open>\<open>emplace\<close> keeps the first of equal prices, as \<open>map_of\<close> does.\<close>

definition diff_side :: "L2Levels \<Rightarrow> L2Levels \<Rightarrow> bool \<Rightarrow> (string \<times> string) list \<times> nat list" where
  "diff_side prev cur descending_index =
     (let changed = filter (\<lambda>(px, qty). map_of prev px \<noteq> Some qty) cur;
          gone = (\<lambda>i. fst (prev ! i) \<notin> fst ` set cur)
      in (map (\<lambda>(px, qty). (to_hyperliquid_number px, to_hyperliquid_number qty)) changed,
          if descending_index then filter gone (rev [0..<length prev]) else filter gone [0..<length prev]))"

record L2Diff =
  dl :: "(string \<times> string) list \<times> (string \<times> string) list"
  dr :: "nat list \<times> nat list"

definition compute_l2_diff :: "L2Levels \<Rightarrow> L2Levels \<Rightarrow> L2Levels \<Rightarrow> L2Levels \<Rightarrow> L2Diff" where
  "compute_l2_diff prev_bid prev_ask curr_bid curr_ask =
     (let (l_bid, r_bid) = diff_side prev_bid curr_bid True;
          (l_ask, r_ask) = diff_side prev_ask curr_ask False
      in \<lparr>dl = (l_bid, l_ask), dr = (r_bid, r_ask)\<rparr>)"

section \<open>The exchange's mirror of the venue's prices\<close>

text \<open>Indices are resolved before anything moves; one out of range is only logged.\<close>

definition resolve_removed :: "nat list \<Rightarrow> price_t list \<Rightarrow> price_t list" where
  "resolve_removed indices ref_side = map (\<lambda>i. ref_side ! i) (filter (\<lambda>i. i < length ref_side) indices)"

definition drop_prices :: "price_t list \<Rightarrow> price_t list \<Rightarrow> price_t list" where
  "drop_prices removed_prices ref_side = foldl (\<lambda>ref px. remove1 px ref) ref_side removed_prices"

text \<open>\<open>std::lower_bound\<close>: the binary search over the range of \<open>len\<close> elements from \<open>first\<close>.\<close>

function lower_bound :: "('a \<Rightarrow> bool) \<Rightarrow> 'a list \<Rightarrow> nat \<Rightarrow> nat \<Rightarrow> nat" where
  "lower_bound before_value xs first len =
     (if len = 0 then first
      else let half = len div 2; mid = first + half
           in if before_value (xs ! mid) then lower_bound before_value xs (mid + 1) (len - half - 1)
              else lower_bound before_value xs first half)"
  by pat_completeness auto
termination by (relation "measure (\<lambda>(_, _, _, len). len)") auto

declare lower_bound.simps [simp del]

definition insert_price :: "Side \<Rightarrow> price_t list \<Rightarrow> price_t \<Rightarrow> price_t list" where
  "insert_price s ref_side px =
     (let i = lower_bound (\<lambda>a. isPriceBetter s a px) ref_side 0 (length ref_side)
      in if i = length ref_side \<or> ref_side ! i \<noteq> px then take i ref_side @ px # drop i ref_side else ref_side)"

section \<open>The search\<close>

text \<open>On a range whose elements before the value come first, it finds the end of those.\<close>

lemma lower_bound_partition:
  assumes "\<And>i j. i \<le> j \<Longrightarrow> j < length xs \<Longrightarrow> P (xs ! j) \<Longrightarrow> P (xs ! i)" and "first + len \<le> length xs"
    and "\<And>i. i < first \<Longrightarrow> P (xs ! i)" and "\<And>i. first + len \<le> i \<Longrightarrow> i < length xs \<Longrightarrow> \<not> P (xs ! i)"
  shows "lower_bound P xs first len = length (takeWhile P xs)"
  using assms
proof (induction P xs first len rule: lower_bound.induct)
  case (1 P xs first len)
  show ?case
  proof (cases "len = 0")
    case True
    have "takeWhile P xs = take first xs"
      by (rule takeWhile_eq_take_P_nth) (use 1 True in auto)
    then show ?thesis using True "1.prems"(2) by (simp add: lower_bound.simps)
  next
    case False
    let ?half = "len div 2" and ?mid = "first + len div 2"
    have mid: "?mid < length xs" using "1.prems"(2) False by linarith
    show ?thesis
    proof (cases "P (xs ! ?mid)")
      case True
      have "P (xs ! i)" if "i < ?mid + 1" for i using "1.prems"(1) [of i ?mid] that mid True by simp
      then have "lower_bound P xs (?mid + 1) (len - ?half - 1) = length (takeWhile P xs)"
        using "1.IH"(1) [OF False refl refl True "1.prems"(1)] "1.prems"(2,4) False by simp
      then show ?thesis using False True by (subst lower_bound.simps) (simp add: Let_def)
    next
      case nP: False
      have "\<not> P (xs ! i)" if "first + ?half \<le> i" "i < length xs" for i using "1.prems"(1) [of ?mid i] that nP by blast
      then have "lower_bound P xs first ?half = length (takeWhile P xs)"
        using "1.IH"(2) [OF False refl refl nP "1.prems"(1)] "1.prems"(2,3) False by simp
      then show ?thesis using False nP by (subst lower_bound.simps) (simp add: Let_def)
    qed
  qed
qed

abbreviation best_first :: "Side \<Rightarrow> price_t list \<Rightarrow> bool" where
  "best_first s \<equiv> sorted_wrt (isPriceBetter s)"

lemma lower_bound_prices:
  assumes "best_first s ps"
  shows "lower_bound (\<lambda>a. isPriceBetter s a px) ps 0 (length ps) = length (takeWhile (\<lambda>a. isPriceBetter s a px) ps)"
proof (rule lower_bound_partition)
  fix i j assume "i \<le> j" "j < length ps" "isPriceBetter s (ps ! j) px"
  then show "isPriceBetter s (ps ! i) px"
    using sorted_wrt_nth_less [OF assms, of i j] isPriceBetter_trans by (cases "i = j") auto
qed simp_all

lemma insert_price_ok:
  assumes "best_first s ps"
  shows "best_first s (insert_price s ps px)" "set (insert_price s ps px) = insert px (set ps)"
proof -
  let ?P = "\<lambda>a. isPriceBetter s a px"
  let ?i = "length (takeWhile ?P ps)"
  have eq: "take ?i ps = takeWhile ?P ps" "drop ?i ps = dropWhile ?P ps"
    by (rule takeWhile_eq_take [symmetric], rule dropWhile_eq_drop [symmetric])
  have srt: "best_first s (takeWhile ?P ps @ dropWhile ?P ps)" using assms by simp
  have ins: "insert_price s ps px = (if ?i = length ps \<or> ps ! ?i \<noteq> px then takeWhile ?P ps @ px # dropWhile ?P ps else ps)"
    by (simp add: insert_price_def lower_bound_prices [OF assms] eq Let_def)
  have "best_first s (insert_price s ps px) \<and> set (insert_price s ps px) = insert px (set ps)"
  proof (cases "dropWhile ?P ps")
    case Nil
    then have "takeWhile ?P ps = ps" by (metis append_Nil2 takeWhile_dropWhile_id)
    then have "insert_price s ps px = ps @ [px]" using ins by (simp only: Nil simp_thms if_True)
    moreover have "\<forall>a\<in>set ps. isPriceBetter s a px" using Nil by (simp add: dropWhile_eq_Nil_conv)
    ultimately show ?thesis using assms by (simp add: sorted_wrt_append)
  next
    case (Cons q qs)
    have d: "drop ?i ps = q # qs" using eq(2) Cons by simp
    have i: "?i < length ps" "ps ! ?i = q" using d nth_via_drop [OF d] by (cases "?i < length ps"; simp)+
    have nq: "\<not> isPriceBetter s q px" using Cons by (metis dropWhile_eq_Cons_conv)
    show ?thesis
    proof (cases "q = px")
      case True
      then show ?thesis using ins i assms nth_mem [OF i(1)] by auto
    next
      case False
      then have q: "isPriceBetter s px q" using nq isPriceBetter_total by blast
      moreover have "\<forall>r\<in>set qs. isPriceBetter s px r"
      proof
        fix r assume "r \<in> set qs"
        then have "isPriceBetter s q r" using srt unfolding Cons by (simp add: sorted_wrt_append)
        then show "isPriceBetter s px r" by (rule isPriceBetter_trans [OF q])
      qed
      moreover define tw where "tw = takeWhile ?P ps"
      moreover have "\<forall>a\<in>set tw. isPriceBetter s a px" unfolding tw_def by (meson set_takeWhileD)
      moreover have "ps = tw @ q # qs" unfolding tw_def by (metis Cons takeWhile_dropWhile_id)
      moreover have "insert_price s ps px = tw @ px # q # qs" using ins i(2) False unfolding tw_def by (simp only: Cons simp_thms if_True)
      ultimately show ?thesis using assms by (simp add: sorted_wrt_append)
    qed
  qed
  then show "best_first s (insert_price s ps px)" "set (insert_price s ps px) = insert px (set ps)" by simp_all
qed

lemma best_first_eq:
  assumes "best_first s xs" and "best_first s ys" and "set xs = set ys"
  shows "xs = ys"
proof (cases "s = BUY")
  case True
  then have "isPriceBetter s = (\<lambda>a b. b < a)" by (intro ext) (simp add: isPriceBetter_def)
  then have "sorted_wrt (<) (rev xs)" "sorted_wrt (<) (rev ys)" using assms by (simp_all add: sorted_wrt_rev)
  then show ?thesis using strict_sorted_equal [of "rev xs" "rev ys"] assms(3) by simp
next
  case False
  then have "isPriceBetter s = (<)" by (intro ext) (simp add: isPriceBetter_def)
  then show ?thesis using strict_sorted_equal [of xs ys] assms by simp
qed

lemma insert_prices_ok:
  "best_first s ps \<Longrightarrow> best_first s (foldl (insert_price s) ps qs) \<and> set (foldl (insert_price s) ps qs) = set ps \<union> set qs"
proof (induction qs arbitrary: ps)
  case (Cons q qs)
  then show ?case using insert_price_ok [OF Cons.prems, of q] by simp
qed simp

text \<open>
  The binary search of the mirror always returns, and on prices listed best first it returns what
  a walk from the front would: the number of prices better than the one searched. Inserting a price
  by it keeps the list ordered and adds the price exactly once.
\<close>

theorem price_search_equiv:
  assumes "best_first s ps"
  shows "lower_bound (\<lambda>a. isPriceBetter s a px) ps 0 (length ps) = length (takeWhile (\<lambda>a. isPriceBetter s a px) ps) \<and>
    best_first s (insert_price s ps px) \<and> set (insert_price s ps px) = insert px (set ps) \<and> distinct (insert_price s ps px)"
proof -
  have "best_first s qs \<Longrightarrow> distinct qs" for qs by (induction qs) auto
  then show ?thesis using lower_bound_prices [OF assms] insert_price_ok [OF assms] by blast
qed

theorem price_search_equiv_witness:
  "let ps = [105, 103, 100] in lower_bound (\<lambda>a. isPriceBetter BUY a 102) ps 0 (length ps) = 2 \<and> set (insert_price BUY ps 102) = {102, 105, 103, 100}"
proof -
  have "best_first BUY [105, 103, 100]" by (simp add: isPriceBetter_def)
  then show ?thesis using price_search_equiv [of BUY "[105, 103, 100]" 102] by (simp add: Let_def isPriceBetter_def)
qed

section \<open>The two ends agree\<close>

lemma drop_prices_eq: "drop_prices qs ps = foldr remove1 (rev qs) ps"
  by (simp add: drop_prices_def foldr_conv_foldl)

lemma drop_prices_distinct:
  "distinct ps \<Longrightarrow> drop_prices qs ps = filter (\<lambda>px. px \<notin> set qs) ps"
proof (induction qs arbitrary: ps)
  case (Cons q qs)
  then show ?case by (simp add: drop_prices_def distinct_remove1_removeAll removeAll_filter_not_eq filter_filter conj_commute) (metis (mono_tags, lifting))
qed (simp add: drop_prices_def)

lemma set_resolve_gone:
  assumes "set is = {i. i < length prev \<and> fst (prev ! i) \<notin> C}"
  shows "set (resolve_removed is (map fst prev)) = fst ` set prev - C"
  using assms by (auto simp: resolve_removed_def in_set_conv_nth image_iff) (metis fst_conv nth_mem)+

lemma best_first_distinct: "best_first s ps \<Longrightarrow> distinct ps"
  by (induction ps) auto

text \<open>What a subscriber keeps: prices to sizes, less the removed levels, with the changed ones over them.\<close>

definition client_apply :: "(string \<Rightarrow> int) \<Rightarrow> (string \<times> string) list \<times> nat list \<Rightarrow> L2Levels \<Rightarrow> price_t \<rightharpoonup> qty_t" where
  "client_apply read d prev =
     (map_of prev |` (- set (resolve_removed (snd d) (map fst prev)))) ++ map_of (map (\<lambda>(p, q). (read p, read q)) (fst d))"

definition mirror_apply :: "(string \<Rightarrow> int) \<Rightarrow> Side \<Rightarrow> (string \<times> string) list \<times> nat list \<Rightarrow> price_t list \<Rightarrow> price_t list" where
  "mirror_apply read s d ref =
     foldl (insert_price s) (drop_prices (resolve_removed (snd d) ref) ref) (map (read \<circ> fst) (fst d))"

text \<open>Erasing one index after the other, as the order of the removals invites.\<close>

definition erase_each :: "nat list \<Rightarrow> 'a list \<Rightarrow> 'a list" where
  "erase_each is xs = foldl (\<lambda>ys i. take i ys @ drop (Suc i) ys) xs is"

lemma erase_each_descending:
  "erase_each (filter P (rev [0..<length xs])) xs = map (\<lambda>i. xs ! i) (filter (\<lambda>i. \<not> P i) [0..<length xs])"
proof -
  have "erase_each (filter P (rev [0..<n])) xs = map (\<lambda>i. xs ! i) (filter (\<lambda>i. \<not> P i) [0..<n]) @ drop n xs" if "n \<le> length xs" for n
    using that
  proof (induction n arbitrary: xs)
    case (Suc n)
    have n: "n < length xs" using Suc.prems by simp
    show ?case
    proof (cases "P n")
      case True
      let ?ys = "take n xs @ drop (Suc n) xs"
      have "map (\<lambda>i. ?ys ! i) (filter (\<lambda>i. \<not> P i) [0..<n]) = map (\<lambda>i. xs ! i) (filter (\<lambda>i. \<not> P i) [0..<n])"
        using n by (intro map_cong) (auto simp: nth_append)
      moreover have "drop n ?ys = drop (Suc n) xs" using n by simp
      ultimately show ?thesis using True Suc.IH [of ?ys] n by (simp add: erase_each_def)
    next
      case False
      then show ?thesis using Suc.IH [of xs] n by (simp add: erase_each_def Cons_nth_drop_Suc)
    qed
  qed (simp add: erase_each_def)
  then show ?thesis by simp
qed

lemma diff_side_removed:
  "resolve_removed (snd (diff_side prev cur d)) (map fst prev) = map (\<lambda>i. fst (prev ! i)) (snd (diff_side prev cur d))"
  "set (snd (diff_side prev cur d)) = {i. i < length prev \<and> fst (prev ! i) \<notin> fst ` set cur}"
  by (auto simp: diff_side_def resolve_removed_def Let_def filter_id_conv)

text \<open>The levels a diff reports, read back, are those that differ from before; the indices it removes name the prices that went.\<close>

definition changed_levels :: "L2Levels \<Rightarrow> L2Levels \<Rightarrow> L2Levels" where
  "changed_levels prev cur = filter (\<lambda>(px, qty). map_of prev px \<noteq> Some qty) cur"

definition numbers_read :: "(string \<Rightarrow> int) \<Rightarrow> L2Levels \<Rightarrow> bool" where
  "numbers_read read cur \<longleftrightarrow> (\<forall>(p, q) \<in> set cur. read (to_hyperliquid_number p) = p \<and> read (to_hyperliquid_number q) = q)"

lemma diff_changed:
  assumes "numbers_read read cur"
  shows "map (\<lambda>(p, q). (read p, read q)) (fst (diff_side prev cur d)) = changed_levels prev cur"
    "map (read \<circ> fst) (fst (diff_side prev cur d)) = map fst (changed_levels prev cur)"
proof -
  have "map (\<lambda>(p, q). (read p, read q)) (map (\<lambda>(px, qty). (to_hyperliquid_number px, to_hyperliquid_number qty)) (changed_levels prev cur)) =
      map id (changed_levels prev cur)"
    unfolding map_map using assms by (intro map_cong) (auto simp: changed_levels_def numbers_read_def)
  then show l: "map (\<lambda>(p, q). (read p, read q)) (fst (diff_side prev cur d)) = changed_levels prev cur"
    by (simp add: diff_side_def changed_levels_def Let_def)
  show "map (read \<circ> fst) (fst (diff_side prev cur d)) = map fst (changed_levels prev cur)"
    unfolding l [symmetric] by (simp add: case_prod_beta comp_def)
qed

lemma diff_gone: "set (resolve_removed (snd (diff_side prev cur d)) (map fst prev)) = fst ` set prev - fst ` set cur"
  by (rule set_resolve_gone) (rule diff_side_removed(2))

lemma changed_cover: "distinct (map fst prev) \<Longrightarrow> set cur \<subseteq> set (changed_levels prev cur) \<union> set prev" "set (changed_levels prev cur) \<subseteq> set cur"
  by (auto simp: changed_levels_def map_of_eq_Some_iff)

lemma diff_prices_applied:
  assumes prev: "best_first s (map fst prev)" and cur: "best_first s (map fst cur)" and read: "numbers_read read cur"
  shows "mirror_apply read s (diff_side prev cur d) (map fst prev) = map fst cur"
proof (rule best_first_eq [OF _ cur])
  have dist: "distinct (map fst prev)" by (rule best_first_distinct [OF prev])
  have kept: "drop_prices (resolve_removed (snd (diff_side prev cur d)) (map fst prev)) (map fst prev) =
      filter (\<lambda>px. px \<in> fst ` set cur) (map fst prev)"
    unfolding drop_prices_distinct [OF dist] diff_gone by (intro filter_cong) auto
  have bf: "best_first s (filter (\<lambda>px. px \<in> fst ` set cur) (map fst prev))" using prev by (rule sorted_wrt_filter)
  note i = insert_prices_ok [OF bf, of "map fst (changed_levels prev cur)"]
  show "best_first s (mirror_apply read s (diff_side prev cur d) (map fst prev))"
    unfolding mirror_apply_def kept diff_changed(2) [OF read] using i by blast
  show "set (mirror_apply read s (diff_side prev cur d) (map fst prev)) = set (map fst cur)"
    unfolding mirror_apply_def kept diff_changed(2) [OF read] conjunct2 [OF i] using changed_cover(1) [OF dist, of cur] changed_cover(2) [of prev cur] by auto
qed

lemma diff_sizes_applied:
  assumes dist: "distinct (map fst prev)" "distinct (map fst cur)" and read: "numbers_read read cur"
  shows "client_apply read (diff_side prev cur d) prev = map_of cur"
proof
  fix px
  let ?changed = "changed_levels prev cur"
  have eq: "client_apply read (diff_side prev cur d) prev px = (case map_of ?changed px of Some q \<Rightarrow> Some q
      | None \<Rightarrow> if px \<in> fst ` set prev - fst ` set cur then None else map_of prev px)"
    by (auto simp: client_apply_def diff_changed(1) [OF read] diff_gone map_add_def restrict_map_def split: option.split)
  show "client_apply read (diff_side prev cur d) prev px = map_of cur px"
  proof (cases "map_of ?changed px")
    case (Some q)
    then have "(px, q) \<in> set cur" using map_of_SomeD changed_cover(2) by fastforce
    then show ?thesis using Some dist(2) eq by (simp add: map_of_eq_Some_iff)
  next
    case None
    show ?thesis
    proof (cases "map_of cur px")
      case c: (Some q)
      then have "(px, q) \<in> set cur" by (rule map_of_SomeD)
      moreover have "(px, q) \<notin> set ?changed" using None by (force simp: map_of_eq_None_iff)
      ultimately have "map_of prev px = Some q" by (simp add: changed_levels_def)
      then show ?thesis using None c eq \<open>(px, q) \<in> set cur\<close> by force
    next
      case c: None
      then have "px \<notin> fst ` set cur" by (simp add: map_of_eq_None_iff)
      then show ?thesis unfolding eq None option.case c by (auto simp: map_of_eq_None_iff)
    qed
  qed
qed

lemma bid_removals_erased: "erase_each (snd (diff_side prev cur True)) prev = filter (\<lambda>(p, q). p \<in> fst ` set cur) prev"
proof -
  have "erase_each (snd (diff_side prev cur True)) prev = map (\<lambda>i. prev ! i) (filter (\<lambda>i. fst (prev ! i) \<in> fst ` set cur) [0..<length prev])"
    by (simp add: diff_side_def Let_def erase_each_descending)
  also have "\<dots> = filter (\<lambda>e. fst e \<in> fst ` set cur) (map (\<lambda>i. prev ! i) [0..<length prev])" by (simp add: filter_map comp_def)
  finally show ?thesis by (simp add: map_nth case_prod_unfold)
qed

text \<open>
  C18. The incremental book channel loses nothing. For two book states listed best price first, the
  diff the publisher computes, applied as the exchange applies it, turns the mirror of the previous
  prices into exactly the current prices in order; applied to sizes it turns the previous book into
  exactly the current one. Bid removals may also be erased one at a time in the order they are sent.
\<close>

theorem l2_diff_roundtrip:
  assumes prev: "best_first s (map fst prev)" and cur: "best_first s (map fst cur)"
    and read: "\<forall>(p, q) \<in> set cur. read (to_hyperliquid_number p) = p \<and> read (to_hyperliquid_number q) = q"
  shows "mirror_apply read s (diff_side prev cur (s = BUY)) (map fst prev) = map fst cur \<and>
    client_apply read (diff_side prev cur (s = BUY)) prev = map_of cur \<and>
    erase_each (snd (diff_side prev cur True)) prev = filter (\<lambda>(p, q). p \<in> fst ` set cur) prev"
proof -
  have "numbers_read read cur" using read by (simp add: numbers_read_def)
  then show ?thesis using diff_prices_applied [OF prev cur] diff_sizes_applied best_first_distinct [OF prev] best_first_distinct [OF cur] bid_removals_erased
    by blast
qed

lemma number_reads: "int64_ok v \<Longrightarrow> read_fixed (to_hyperliquid_number v) = v"
  by (simp add: to_hyperliquid_number_def read_to_fixed_string)

theorem l2_diff_roundtrip_witness:
  "let prev = [(100, 5), (99, 7), (98, 1)]; cur = [(101, 2), (100, 6), (98, 1)]; d = diff_side prev cur True
   in mirror_apply read_fixed BUY d (map fst prev) = [101, 100, 98] \<and> client_apply read_fixed d prev = map_of cur \<and>
      snd d = [1] \<and> erase_each (snd d) prev = [(100, 5), (98, 1)]"
proof -
  let ?prev = "[(100, 5), (99, 7), (98, 1)] :: L2Levels" and ?cur = "[(101, 2), (100, 6), (98, 1)] :: L2Levels"
  have "best_first BUY (map fst ?prev)" "best_first BUY (map fst ?cur)" by (simp_all add: isPriceBetter_def)
  moreover have "\<forall>(p, q) \<in> set ?cur. read_fixed (to_hyperliquid_number p) = p \<and> read_fixed (to_hyperliquid_number q) = q"
    by (simp add: number_reads int64_ok_def)
  ultimately have r: "mirror_apply read_fixed BUY (diff_side ?prev ?cur True) (map fst ?prev) = map fst ?cur"
    "client_apply read_fixed (diff_side ?prev ?cur True) ?prev = map_of ?cur"
    "erase_each (snd (diff_side ?prev ?cur True)) ?prev = filter (\<lambda>(p, q). p \<in> fst ` set ?cur) ?prev"
    using l2_diff_roundtrip [of BUY ?prev ?cur read_fixed] by simp_all
  have "snd (diff_side ?prev ?cur True) = [1]" by (simp add: diff_side_def Let_def)
  then show ?thesis unfolding Let_def using r by simp
qed

lemma map_nth_slice: "k + n \<le> length xs \<Longrightarrow> map (\<lambda>i. f (xs ! (k + i))) [0..<n] = map f (take n (drop k xs))"
  by (intro nth_equalityI) auto

text \<open>
  What a subscriber is sent is what the diff is computed against: the rows of a book snapshot and
  the baseline kept for the next diff list the same levels, the best twenty of each side, the asks
  being read from behind all the bids of the frame, however many of those are published.
\<close>

theorem split_snapshot_baseline:
  assumes "length levels = num_bids + num_asks"
  shows "case split_book_snapshot levels num_bids num_asks of ((bids, asks), cur_bid, cur_ask) \<Rightarrow>
    cur_bid = map (\<lambda>l. (sl_price l, sl_qty l)) (take 20 (take num_bids levels)) \<and>
    cur_ask = map (\<lambda>l. (sl_price l, sl_qty l)) (take 20 (drop num_bids levels)) \<and>
    map (\<lambda>(p, q, n). (p, q)) bids = map (\<lambda>(p, q). (to_hyperliquid_number p, to_hyperliquid_number q)) cur_bid \<and>
    map (\<lambda>(p, q, n). (p, q)) asks = map (\<lambda>(p, q). (to_hyperliquid_number p, to_hyperliquid_number q)) cur_ask"
proof -
  have b: "map (\<lambda>i. emit (levels ! i)) [0..<min num_bids 20] = map emit (take 20 (take num_bids levels))"
    using map_nth_slice [of 0 "min num_bids 20" levels emit] assms by (simp add: min.commute)
  have a: "map (\<lambda>i. emit (levels ! (num_bids + i))) [0..<min num_asks 20] = map emit (take 20 (drop num_bids levels))"
    using map_nth_slice [of num_bids "min num_asks 20" levels emit] assms by (simp add: min_def)
  show ?thesis unfolding split_book_snapshot_def L2_PUBLISH_DEPTH_def Let_def b a by (simp add: emit_def comp_def)
qed

theorem split_snapshot_baseline_witness:
  "let l = (\<lambda>p. \<lparr>sl_price = p, sl_qty = 2, sl_num_orders = 1\<rparr>); levels = map l [9, 8, 11] in
   snd (split_book_snapshot levels 2 1) = ([(9, 2), (8, 2)], [(11, 2)])"
  using split_snapshot_baseline [of "map (\<lambda>p. \<lparr>sl_price = p, sl_qty = 2, sl_num_orders = 1\<rparr>) [9, 8, 11]" 2 1]
  by (simp add: split_beta Let_def prod_eq_iff)

end
