(* ===== verification/Coinbase_Events.thy ===== *)
theory Coinbase_Events
  imports Sim_Order "HOL-Library.Multiset"
begin

text \<open>
  \<open>src/src/venues/coinbase/coinbase_exchange.hpp\<close>, and the enqueueing callbacks of
  \<open>coinbase_feed_callbacks.cpp\<close>: the per-symbol queue that brings level updates and trades, which
  arrive on independent channels, into one dispatch order. The priority queue is the list of its
  events in the order it pops them. Prices and sizes of an update are the fixed-point values the
  callbacks convert them to.
\<close>

section \<open>Events\<close>

datatype EventType = LEVEL_UPDATE | TRADE

record Event =
  ev_type :: EventType
  ev_received_time :: time_ns
  ev_event_time :: time_ns
  ev_sequence_id :: nat
  ev_seq_num :: seq_t
  ev_price :: price_t
  ev_qty :: qty_t
  ev_side :: Side
  ev_flags :: UpdateFlags

text \<open>\<open>EventCompare a b\<close>: \<open>a\<close> is processed after \<open>b\<close>.\<close>

definition EventCompare :: "Event \<Rightarrow> Event \<Rightarrow> bool" where
  "EventCompare a b =
     (if ev_event_time a \<noteq> ev_event_time b then ev_event_time a > ev_event_time b
      else if ev_type a \<noteq> ev_type b then ev_type a \<noteq> TRADE
      else ev_sequence_id a < ev_sequence_id b)"

record SymbolEventState =
  ps_pending_events :: "Event list"
  ps_last_event_time :: time_ns
  ps_last_sequence_id :: nat
  ps_last_seq_num :: seq_t
  ps_next_sequence_id :: nat
  ps_last_published_level_seq_num :: seq_t
  ps_level_update_buffer :: "MDLevel list"
  ps_next_book_seq_num :: seq_t

definition new_event_state :: SymbolEventState where
  "new_event_state = \<lparr>ps_pending_events = [], ps_last_event_time = 0, ps_last_sequence_id = 0, ps_last_seq_num = 0,
     ps_next_sequence_id = 0, ps_last_published_level_seq_num = 0, ps_level_update_buffer = [], ps_next_book_seq_num = 0\<rparr>"

text \<open>The queue's push: behind everything popped before the event.\<close>

fun push_event :: "Event \<Rightarrow> Event list \<Rightarrow> Event list" where
  "push_event e [] = [e]"
| "push_event e (x # xs) = (if EventCompare x e then e # x # xs else x # push_event e xs)"

section \<open>Enqueueing\<close>

text \<open>An update of a level 2 batch and a trade, as the callbacks read them.\<close>

record feed_update =
  fu_event_time :: time_ns
  fu_price :: price_t
  fu_qty :: qty_t
  fu_side :: Side

definition F_END :: UpdateFlags where
  "F_END = \<lparr>F_IS_SNAPSHOT = False, F_END_EVENT = True, F_NOT_IN_BOOK = False\<rparr>"

definition enqueue :: "EventType \<Rightarrow> seq_t \<Rightarrow> time_ns \<Rightarrow> bool \<Rightarrow> feed_update \<Rightarrow> SymbolEventState \<Rightarrow> SymbolEventState" where
  "enqueue ty sq received marked u st =
     (let evt = \<lparr>ev_type = ty, ev_received_time = received, ev_event_time = fu_event_time u,
            ev_sequence_id = ps_next_sequence_id st, ev_seq_num = sq, ev_price = fu_price u, ev_qty = fu_qty u,
            ev_side = fu_side u, ev_flags = (if marked then F_END else F_NONE)\<rparr>
      in st\<lparr>ps_next_sequence_id := ps_next_sequence_id st + 1,
            ps_last_event_time := (if ps_last_event_time st < fu_event_time u then fu_event_time u else ps_last_event_time st),
            ps_pending_events := push_event evt (ps_pending_events st)\<rparr>)"

text \<open>The loop over a batch; the first element visited carries the end marker. \<open>clock i\<close> is the i-th reading.\<close>

fun enqueue_loop :: "EventType \<Rightarrow> seq_t \<Rightarrow> (nat \<Rightarrow> time_ns) \<Rightarrow> nat \<Rightarrow> feed_update list \<Rightarrow> SymbolEventState \<Rightarrow> SymbolEventState" where
  "enqueue_loop ty sq clock i [] st = st"
| "enqueue_loop ty sq clock i (u # us) st = enqueue_loop ty sq clock (Suc i) us (enqueue ty sq (clock i) (i = 0) u st)"

definition enqueueLevel2Updates :: "seq_t \<Rightarrow> (nat \<Rightarrow> time_ns) \<Rightarrow> feed_update list \<Rightarrow> SymbolEventState \<Rightarrow> SymbolEventState" where
  "enqueueLevel2Updates sq clock updates st = enqueue_loop LEVEL_UPDATE sq clock 0 (rev updates) st"

section \<open>Release\<close>

definition ONE_SECOND_NS :: nat where
  "ONE_SECOND_NS = 1000000000"

text \<open>Unsigned 64-bit arithmetic: a clock behind the receipt wraps round.\<close>

definition event_ready :: "bool \<Rightarrow> time_ns \<Rightarrow> time_ns \<Rightarrow> Event \<Rightarrow> bool" where
  "event_ready force now last_time e \<longleftrightarrow>
     force \<or>
     0 < last_time \<and> (ev_event_time e + ONE_SECOND_NS) mod 2 ^ 64 \<le> last_time \<or>
     (2 ^ 64 + now - ev_received_time e) mod 2 ^ 64 \<ge> ONE_SECOND_NS"

section \<open>The dispatch order\<close>

lemma EventCompare_irrefl [simp]: "\<not> EventCompare e e"
  by (simp add: EventCompare_def)

lemma EventCompare_iff:
  "EventCompare a b \<longleftrightarrow> ev_event_time b < ev_event_time a \<or> ev_event_time a = ev_event_time b \<and>
     (ev_type a = LEVEL_UPDATE \<and> ev_type b = TRADE \<or> ev_type a = ev_type b \<and> ev_sequence_id a < ev_sequence_id b)"
  by (cases "ev_type a"; cases "ev_type b"; cases "ev_event_time a = ev_event_time b") (simp_all add: EventCompare_def)

lemma EventCompare_trans: "EventCompare a b \<Longrightarrow> EventCompare b c \<Longrightarrow> EventCompare a c"
  unfolding EventCompare_iff by (elim disjE conjE) simp_all

lemma EventCompare_total: "ev_sequence_id a \<noteq> ev_sequence_id b \<Longrightarrow> EventCompare a b \<or> EventCompare b a"
  unfolding EventCompare_iff by (cases "ev_type a"; cases "ev_type b") (simp_all, linarith+)

abbreviation pop_order :: "Event list \<Rightarrow> bool" where
  "pop_order \<equiv> sorted_wrt (\<lambda>a b. EventCompare b a)"

lemma pop_order_keys:
  "pop_order q \<Longrightarrow> sorted_wrt (\<lambda>a b. ev_event_time a < ev_event_time b \<or> ev_event_time a = ev_event_time b \<and>
     (ev_type a = TRADE \<and> ev_type b = LEVEL_UPDATE \<or> ev_type a = ev_type b \<and> ev_sequence_id b < ev_sequence_id a)) q"
  by (erule sorted_wrt_mono_rel [rotated]) (auto simp: EventCompare_iff)

lemma mset_push_event [simp]: "mset (push_event e q) = add_mset e (mset q)"
  by (induction q) auto

lemma set_push_event [simp]: "set (push_event e q) = insert e (set q)"
  by (induction q) auto

lemma push_event_sorted:
  "pop_order q \<Longrightarrow> \<forall>x\<in>set q. ev_sequence_id x \<noteq> ev_sequence_id e \<Longrightarrow> pop_order (push_event e q)"
proof (induction q)
  case (Cons x q)
  show ?case
  proof (cases "EventCompare x e")
    case True
    then show ?thesis using Cons.prems EventCompare_trans [OF _ True] by auto
  next
    case False
    then have "EventCompare e x" using EventCompare_total [of x e] Cons.prems(2) by auto
    then show ?thesis using Cons False by auto
  qed
qed simp

text \<open>The invariant of a symbol's queue: popped in order, every event under its own id.\<close>

definition events_ok :: "SymbolEventState \<Rightarrow> bool" where
  "events_ok st \<longleftrightarrow> pop_order (ps_pending_events st) \<and> distinct (map ev_sequence_id (ps_pending_events st)) \<and>
     (\<forall>e\<in>set (ps_pending_events st). ev_sequence_id e < ps_next_sequence_id st \<and> ev_event_time e \<le> ps_last_event_time st)"

lemma new_event_state_ok [simp]: "events_ok new_event_state"
  by (simp add: events_ok_def new_event_state_def)

lemma enqueue_ok:
  assumes "events_ok st"
  shows "events_ok (enqueue ty sq r m u st)"
proof -
  let ?e = "\<lparr>ev_type = ty, ev_received_time = r, ev_event_time = fu_event_time u, ev_sequence_id = ps_next_sequence_id st,
    ev_seq_num = sq, ev_price = fu_price u, ev_qty = fu_qty u, ev_side = fu_side u, ev_flags = (if m then F_END else F_NONE)\<rparr>"
  have small: "\<forall>x\<in>set (ps_pending_events st). ev_sequence_id x < ps_next_sequence_id st" using assms by (simp add: events_ok_def)
  then have "pop_order (push_event ?e (ps_pending_events st))" using assms by (intro push_event_sorted) (auto simp: events_ok_def)
  moreover have "distinct (map ev_sequence_id (push_event ?e (ps_pending_events st)))"
  proof -
    have "mset (map ev_sequence_id (push_event ?e (ps_pending_events st))) = mset (map ev_sequence_id (?e # ps_pending_events st))"
      by (simp only: mset_map mset_push_event mset.simps)
    then have "distinct (map ev_sequence_id (push_event ?e (ps_pending_events st))) \<longleftrightarrow> distinct (map ev_sequence_id (?e # ps_pending_events st))"
      by (rule mset_eq_imp_distinct_iff)
    then show ?thesis using small assms by (auto simp: events_ok_def)
  qed
  ultimately show ?thesis using assms small by (auto simp: events_ok_def enqueue_def Let_def less_SucI intro: order_trans)
qed

lemma enqueue_loop_ok: "events_ok st \<Longrightarrow> events_ok (enqueue_loop ty sq clock i us st)"
  by (induction us arbitrary: i st) (simp_all add: enqueue_ok)

text \<open>What a batch enqueues, and where it ends up when its elements share a time.\<close>

fun batch_events :: "EventType \<Rightarrow> seq_t \<Rightarrow> (nat \<Rightarrow> time_ns) \<Rightarrow> nat \<Rightarrow> nat \<Rightarrow> feed_update list \<Rightarrow> Event list" where
  "batch_events ty sq clock i n [] = []"
| "batch_events ty sq clock i n (u # us) =
     \<lparr>ev_type = ty, ev_received_time = clock i, ev_event_time = fu_event_time u, ev_sequence_id = n, ev_seq_num = sq,
      ev_price = fu_price u, ev_qty = fu_qty u, ev_side = fu_side u, ev_flags = (if i = 0 then F_END else F_NONE)\<rparr> #
     batch_events ty sq clock (Suc i) (Suc n) us"

lemma enqueue_loop_events:
  "mset (ps_pending_events (enqueue_loop ty sq clock i us st)) =
     mset (ps_pending_events st) + mset (batch_events ty sq clock i (ps_next_sequence_id st) us)"
  "ps_next_sequence_id (enqueue_loop ty sq clock i us st) = ps_next_sequence_id st + length us"
  by (induction us arbitrary: i st) (simp_all add: enqueue_def Let_def)

lemma batch_events_sorted:
  assumes "\<forall>u\<in>set us. fu_event_time u = t"
  shows "pop_order (rev (batch_events ty sq clock i n us)) \<and>
    (\<forall>e\<in>set (batch_events ty sq clock i n us). ev_event_time e = t \<and> ev_type e = ty \<and> n \<le> ev_sequence_id e)"
  using assms
proof (induction us arbitrary: i n)
  case (Cons u us)
  have "n \<le> ev_sequence_id e \<and> Suc n \<le> ev_sequence_id e" if "e \<in> set (batch_events ty sq clock (Suc i) (Suc n) us)" for e
    using Cons.IH [of "Suc i" "Suc n"] Cons.prems that by auto
  then show ?case using Cons.IH [of "Suc i" "Suc n"] Cons.prems by (fastforce simp: sorted_wrt_append EventCompare_def Suc_le_eq)
qed simp

lemma pop_order_unique:
  assumes "pop_order xs" and "pop_order ys" and "mset xs = mset ys"
  shows "xs = ys"
  using assms
proof (induction xs arbitrary: ys)
  case (Cons x xs)
  then obtain y ys' where ys: "ys = y # ys'" by (cases ys) auto
  have "x = y"
  proof (rule ccontr)
    assume "x \<noteq> y"
    then have "x \<in> set ys'" "y \<in> set xs" using Cons.prems(3) ys by (metis insert_iff list.simps(15) mset_eq_setD)+
    then have "EventCompare x y" "EventCompare y x" using Cons.prems(1,2) ys by auto
    then show False using EventCompare_trans EventCompare_irrefl by blast
  qed
  then show ?case using Cons ys by simp
qed simp

text \<open>Any history of batches, level updates and trades alike.\<close>

fun enqueue_batch :: "SymbolEventState \<Rightarrow> EventType \<times> seq_t \<times> (nat \<Rightarrow> time_ns) \<times> feed_update list \<Rightarrow> SymbolEventState" where
  "enqueue_batch st (ty, sq, clock, us) = enqueue_loop ty sq clock 0 us st"

lemma enqueue_batches_ok: "events_ok st \<Longrightarrow> events_ok (foldl enqueue_batch st bs)"
proof (induction bs arbitrary: st)
  case (Cons b bs)
  then show ?case by (cases b) (simp add: enqueue_loop_ok)
qed simp

lemma new_events_filter:
  assumes ok: "events_ok st" and t: "\<forall>u\<in>set us. fu_event_time u = t" and st': "st' = enqueue_loop ty sq clock 0 us st"
  shows "filter (\<lambda>e. ps_next_sequence_id st \<le> ev_sequence_id e) (ps_pending_events st') =
      rev (batch_events ty sq clock 0 (ps_next_sequence_id st) us)"
    "filter (\<lambda>e. ev_sequence_id e < ps_next_sequence_id st) (ps_pending_events st') = ps_pending_events st"
proof -
  let ?n = "ps_next_sequence_id st" and ?new = "batch_events ty sq clock 0 (ps_next_sequence_id st) us"
  have ok': "events_ok st'" unfolding st' by (rule enqueue_loop_ok [OF ok])
  note new = batch_events_sorted [OF t, of ty sq clock 0 ?n]
  have old: "\<forall>e\<in>#mset (ps_pending_events st). ev_sequence_id e < ?n" using ok by (simp add: events_ok_def)
  have new': "\<forall>e\<in>#mset ?new. ?n \<le> ev_sequence_id e" using new by simp
  have ms: "mset (ps_pending_events st') = mset (ps_pending_events st) + mset ?new" unfolding st' by (rule enqueue_loop_events(1))
  have "filter_mset (\<lambda>e. ?n \<le> ev_sequence_id e) (mset (ps_pending_events st)) = {#}" "filter_mset (\<lambda>e. ?n \<le> ev_sequence_id e) (mset ?new) = mset ?new"
    "filter_mset (\<lambda>e. ev_sequence_id e < ?n) (mset (ps_pending_events st)) = mset (ps_pending_events st)"
    "filter_mset (\<lambda>e. ev_sequence_id e < ?n) (mset ?new) = {#}"
    using old new' by (auto simp: filter_mset_eq_conv multiset_eq_iff not_le not_less simp flip: mset_filter)
  then have f: "mset (filter (\<lambda>e. ?n \<le> ev_sequence_id e) (ps_pending_events st')) = mset (rev ?new)"
    "mset (filter (\<lambda>e. ev_sequence_id e < ?n) (ps_pending_events st')) = mset (ps_pending_events st)"
    by (simp_all add: mset_filter ms)
  show "filter (\<lambda>e. ?n \<le> ev_sequence_id e) (ps_pending_events st') = rev ?new"
    by (rule pop_order_unique [OF _ _ f(1)]) (use ok' new in \<open>simp_all add: events_ok_def sorted_wrt_filter\<close>)
  show "filter (\<lambda>e. ev_sequence_id e < ?n) (ps_pending_events st') = ps_pending_events st"
    by (rule pop_order_unique [OF _ _ f(2)]) (use ok ok' in \<open>simp_all add: events_ok_def sorted_wrt_filter\<close>)
qed

lemma batch_events_content:
  "map (\<lambda>e. (ev_price e, ev_qty e, ev_side e)) (batch_events ty sq clock i n us) = map (\<lambda>u. (fu_price u, fu_qty u, fu_side u)) us"
  "map ev_flags (batch_events ty sq clock (Suc i) n us) = replicate (length us) F_NONE"
  by (induction us arbitrary: i n) simp_all

text \<open>
  C13. One dispatch order out of two channels. Whatever batches of level updates and trades have been
  received, a symbol's queue pops its events by venue time, earliest first, a trade before the level updates of the
  same instant, and among events of one channel and one instant the one received last first; each stands under an id
  of its own, so every event is dispatched exactly once. A batch of
  level updates of one instant is popped in the order the venue listed it, with the end-of-event
  marker on its last update and on no other, and leaves the order of everything before it alone.
\<close>

theorem coinbase_dispatch_order:
  assumes "st = foldl enqueue_batch new_event_state bs" and "\<forall>u\<in>set us. fu_event_time u = t"
    and "st' = enqueueLevel2Updates sq clock us st" and "mine = filter (\<lambda>e. ps_next_sequence_id st \<le> ev_sequence_id e) (ps_pending_events st')"
  shows "sorted_wrt (\<lambda>a b. ev_event_time a < ev_event_time b \<or> ev_event_time a = ev_event_time b \<and>
        (ev_type a = TRADE \<and> ev_type b = LEVEL_UPDATE \<or> ev_type a = ev_type b \<and> ev_sequence_id b < ev_sequence_id a))
      (ps_pending_events st') \<and> distinct (map ev_sequence_id (ps_pending_events st')) \<and>
    filter (\<lambda>e. ev_sequence_id e < ps_next_sequence_id st) (ps_pending_events st') = ps_pending_events st \<and>
    map (\<lambda>e. (ev_price e, ev_qty e, ev_side e)) mine = map (\<lambda>u. (fu_price u, fu_qty u, fu_side u)) us \<and>
    map (F_END_EVENT \<circ> ev_flags) mine = (if us = [] then [] else replicate (length us - 1) False @ [True])"
proof -
  have ok: "events_ok st" unfolding assms(1) by (rule enqueue_batches_ok) simp
  have st': "st' = enqueue_loop LEVEL_UPDATE sq clock 0 (rev us) st" by (simp add: assms(3) enqueueLevel2Updates_def)
  have t: "\<forall>u\<in>set (rev us). fu_event_time u = t" using assms(2) by simp
  note f = new_events_filter [OF ok t st']
  have ok': "events_ok st'" unfolding st' by (rule enqueue_loop_ok [OF ok])
  have mine: "mine = rev (batch_events LEVEL_UPDATE sq clock 0 (ps_next_sequence_id st) (rev us))" unfolding assms(4) by (rule f(1))
  have "map (F_END_EVENT \<circ> ev_flags) mine = (if us = [] then [] else replicate (length us - 1) False @ [True])"
  proof (cases us rule: rev_cases)
    case (snoc vs u)
    have "map (F_END_EVENT \<circ> ev_flags) (batch_events LEVEL_UPDATE sq clock (Suc 0) n (rev vs)) = replicate (length vs) False" for n
      using batch_events_content(2) [of LEVEL_UPDATE sq clock 0 n "rev vs"] by (simp add: F_NONE_def flip: map_map)
    then show ?thesis by (simp add: mine snoc F_END_def flip: rev_map)
  qed (simp add: mine)
  moreover have "map (\<lambda>e. (ev_price e, ev_qty e, ev_side e)) mine = map (\<lambda>u. (fu_price u, fu_qty u, fu_side u)) us"
    by (simp add: mine batch_events_content rev_map [symmetric])
  moreover have "pop_order (ps_pending_events st')" using ok' by (simp add: events_ok_def)
  ultimately show ?thesis using ok' f(2) pop_order_keys by (simp add: events_ok_def)
qed

text \<open>Of two batches of one instant the later is popped first: its levels are then overwritten by the earlier ones.\<close>

theorem later_batch_overtakes:
  assumes "events_ok st" and "e \<in> set (ps_pending_events st)" and "ev_type e = LEVEL_UPDATE" and "ev_event_time e = t"
    and "\<forall>u\<in>set us. fu_event_time u = t" and "f \<in> set (batch_events LEVEL_UPDATE sq clock 0 (ps_next_sequence_id st) (rev us))"
  shows "EventCompare e f"
proof -
  have "ev_sequence_id e < ps_next_sequence_id st" using assms(1,2) by (simp add: events_ok_def)
  then show ?thesis
    using batch_events_sorted [of "rev us" t LEVEL_UPDATE sq clock 0 "ps_next_sequence_id st"] assms by (auto simp: EventCompare_iff)
qed

theorem coinbase_dispatch_order_witness:
  "let u = (\<lambda>p. \<lparr>fu_event_time = 5, fu_price = p, fu_qty = 1, fu_side = BUY\<rparr>);
       st = foldl enqueue_batch new_event_state [(TRADE, 3, (\<lambda>_. 9), [u 50])];
       st' = enqueueLevel2Updates 4 (\<lambda>_. 10) [u 100, u 101] st;
       mine = filter (\<lambda>e. ps_next_sequence_id st \<le> ev_sequence_id e) (ps_pending_events st')
   in map ev_price mine = [100, 101] \<and> map (F_END_EVENT \<circ> ev_flags) mine = [False, True] \<and> map ev_price (ps_pending_events st') = [50, 100, 101]"
proof -
  let ?u = "\<lambda>p. \<lparr>fu_event_time = 5, fu_price = p, fu_qty = 1, fu_side = BUY\<rparr>"
  have "\<forall>u\<in>set [?u 100, ?u 101]. fu_event_time u = 5" by simp
  note c = coinbase_dispatch_order [OF refl this refl refl, where bs = "[(TRADE, 3, (\<lambda>_. 9), [?u 50])]" and sq = 4 and clock = "\<lambda>_. 10"]
  have "map ev_price mine = [100, 101]" if "map (\<lambda>e. (ev_price e, ev_qty e, ev_side e)) mine = [(100, 1, BUY), (101, 1, BUY)]" for mine
    using arg_cong [OF that, of "map fst"] by (simp add: comp_def)
  then show ?thesis using c
    by (simp add: Let_def) (simp add: enqueueLevel2Updates_def enqueue_def new_event_state_def EventCompare_def Let_def)
qed

end
