(* ===== verification/Coinbase_Exchange.thy ===== *)
theory Coinbase_Exchange
  imports Exchange_Steps Coinbase_Events
begin

text \<open>
  \<open>src/src/venues/coinbase/coinbase_exchange.cpp\<close> and \<open>coinbase_feed_callbacks.cpp\<close>: the Coinbase
  exchange. It adds to the exchange a queue of feed events per instrument, the subscriptions that
  wait for a snapshot, and its live feeds, of which only the identity matters. The channel numbers
  are those of the venue's SDK, a parameter. The order in which the walk over the hash map of event
  states meets the instruments is an argument.
\<close>

section \<open>State\<close>

record channels =
  ch_level2 :: nat
  ch_market_trades :: nat
  ch_heartbeats :: nat

record 'l CoinbaseExchange =
  cb_base :: "'l Exchange"
  cb_states :: "string \<rightharpoonup> SymbolEventState"
  cb_pending_l2 :: "string set"
  cb_pending_trades :: "string set"
  cb_use_live_feed :: bool
  cb_md_feeds :: "nat list"
  cb_map_symbol_feed :: "(string \<times> nat) list"
  cb_num_subscriptions :: "string \<Rightarrow> 16 word"

text \<open>An instrument the exchange works on, with its queue.\<close>

type_synonym 'l cb_work = "'l Symbol \<times> SymbolEventState \<times> 'l Exchange"

section \<open>Dispatch\<close>

definition nextBookSeqNum :: "'l l3_ops \<Rightarrow> 'l Symbol \<Rightarrow> SymbolEventState \<Rightarrow> seq_t \<times> SymbolEventState" where
  "nextBookSeqNum L sy st =
     (let book_seq = l3_last_seq L (ob_l3 sy);
          st1 = (if ps_next_book_seq_num st < book_seq then st\<lparr>ps_next_book_seq_num := book_seq\<rparr> else st);
          n = ps_next_book_seq_num st1 + 1
      in (n, st1\<lparr>ps_next_book_seq_num := n\<rparr>))"

text \<open>
  Venue liquidity that may cross: it is matched under a fresh number and what is left rests under
  that number. The new-level branch, the trade branch and the snapshot loop all do this.
\<close>

definition match_and_rest ::
    "'l l3_ops \<Rightarrow> Side \<Rightarrow> price_t \<Rightarrow> qty_t \<Rightarrow> time_ns \<Rightarrow> seq_t \<Rightarrow> bool \<Rightarrow> 'l Symbol \<Rightarrow>
     (TradeSummaryInfo list \<times> qty_t \<times> 'l Symbol) option" where
  "match_and_rest L s px q t seq end_event sy =
     (let (i, sy1) = nextOrderId sy in
      case engine_match_feed L (sy_engine sy1) s i px q t seq sy1 of
        None \<Rightarrow> None
      | Some (trade_summaries, qty, sy2) \<Rightarrow>
          Some (trade_summaries, qty, if qty \<noteq> 0 then addBookOrder L i s px qty t seq end_event sy2 else sy2))"

text \<open>\<open>no_index\<close> is the index the book returns with no level.\<close>

definition book_index :: "nat \<Rightarrow> (l3_level \<times> nat) option \<Rightarrow> nat" where
  "book_index no_index lv = (case lv of None \<Rightarrow> no_index | Some (_, i) \<Rightarrow> i)"

definition level_row :: "nat \<Rightarrow> Event \<Rightarrow> (l3_level \<times> nat) option \<Rightarrow> (l3_level \<times> nat) option \<Rightarrow> MDUpdateAction \<Rightarrow> MDLevel" where
  "level_row no_index event level new_level action = \<lparr>
     ml_event_time = ev_event_time event,
     ml_seq_num = ev_seq_num event,
     ml_price = ev_price event,
     ml_qty = (case new_level of None \<Rightarrow> 0 | Some (l, _) \<Rightarrow> lv_total l),
     ml_num_orders = (case new_level of None \<Rightarrow> 0 | Some (l, _) \<Rightarrow> length (lv_orders l)),
     ml_level_index = (if level = None \<and> new_level \<noteq> None then book_index no_index new_level else book_index no_index level),
     ml_update_action = (if \<not> (level = None \<and> new_level \<noteq> None) \<and> new_level = None then ACTION_DELETE else action),
     ml_flags = ev_flags event,
     ml_side = ev_side event\<rparr>"

text \<open>The batch of level rows goes out when an event of another sequence follows.\<close>

definition buffer_row :: "Event \<Rightarrow> MDLevel \<Rightarrow> 'l cb_work \<Rightarrow> 'l cb_work" where
  "buffer_row event row w = (case w of (sy, st, x) \<Rightarrow>
     (let st1 = (if ps_last_published_level_seq_num st = 0 then st\<lparr>ps_last_published_level_seq_num := ev_seq_num event\<rparr> else st);
          (st2, x2) = (if ps_level_update_buffer st1 \<noteq> [] \<and> ev_seq_num event \<noteq> ps_last_published_level_seq_num st1
            then (st1\<lparr>ps_last_published_level_seq_num := ml_seq_num (last (ps_level_update_buffer st1)), ps_level_update_buffer := []\<rparr>,
                  publishLevelUpdate (ob_symbol sy) (ps_level_update_buffer st1) x)
            else (st1, x))
      in (sy, st2\<lparr>ps_level_update_buffer := ps_level_update_buffer st2 @ [row]\<rparr>, x2)))"

definition dispatchLevelUpdate :: "'l l3_ops \<Rightarrow> nat \<Rightarrow> Event \<Rightarrow> seq_t \<Rightarrow> 'l cb_work \<Rightarrow> 'l cb_work option" where
  "dispatchLevelUpdate L no_index event book_seq_num w = (case w of (sy, st, x) \<Rightarrow>
     if ev_event_time event < ob_last_update_time sy then Some (sy, st, x)
     else
       (let level = l3_level_at L (ob_l3 sy) (ev_side event) (ev_price event);
            end_event = F_END_EVENT (ev_flags event)
        in case (if level = None
             then map_option (\<lambda>(trade_summaries, qty, sy1).
                    (if qty \<noteq> 0 then ACTION_NEW else ACTION_CHANGE,
                     flushMarketDataCaches (foldl publishTradeSummary (sy1, x) trade_summaries)))
                  (match_and_rest L (ev_side event) (ev_price event) (ev_qty event) (ev_event_time event) book_seq_num end_event sy)
             else Some (ACTION_CHANGE,
                    (reconcilePhantomQty L (ev_side event) (ev_price event) (ev_qty event) (ev_event_time event) book_seq_num end_event sy, x)))
           of None \<Rightarrow> None
            | Some (action, sy2, x2) \<Rightarrow>
                (let sy3 = setLastUpdate (ev_event_time event) (ev_seq_num event) sy2;
                     new_level = l3_level_at L (ob_l3 sy3) (ev_side event) (ev_price event)
                 in Some (buffer_row event (level_row no_index event level new_level action) (sy3, st, x2)))))"

text \<open>A print credits what it took of the venue's own liquidity, then goes on the tape.\<close>

definition credit_and_publish :: "Event \<Rightarrow> 'l Symbol \<times> 'l Exchange \<Rightarrow> TradeSummaryInfo \<Rightarrow> 'l Symbol \<times> 'l Exchange" where
  "credit_and_publish event v summary =
     publishTradeSummary (creditTradedQty (opposite_side (ev_side event)) (ts_price summary) (ts_phantom_qty summary) (ev_event_time event) (fst v), snd v)
       summary"

definition dispatchTrade :: "'l l3_ops \<Rightarrow> Event \<Rightarrow> seq_t \<Rightarrow> 'l cb_work \<Rightarrow> 'l cb_work option" where
  "dispatchTrade L event book_seq_num w = (case w of (sy, st, x) \<Rightarrow>
     map_option (\<lambda>(trade_summaries, qty, sy1).
        (case flushMarketDataCaches (foldl (credit_and_publish event) (sy1, x) trade_summaries) of (sy2, x2) \<Rightarrow> (sy2, st, x2)))
       (match_and_rest L (ev_side event) (ev_price event) (ev_qty event) (ev_event_time event) book_seq_num
          (F_END_EVENT (ev_flags event)) sy))"

definition dispatchEvent :: "'l l3_ops \<Rightarrow> nat \<Rightarrow> Event \<Rightarrow> seq_t \<Rightarrow> 'l cb_work \<Rightarrow> 'l cb_work option" where
  "dispatchEvent L no_index event book_seq_num w = (case ev_type event of
      LEVEL_UPDATE \<Rightarrow> dispatchLevelUpdate L no_index event book_seq_num w
    | TRADE \<Rightarrow> dispatchTrade L event book_seq_num w)"

text \<open>The loop over one queue; an event is popped before it is dispatched, and dispatch adds none.\<close>

fun drain_events :: "'l l3_ops \<Rightarrow> nat \<Rightarrow> bool \<Rightarrow> time_ns \<Rightarrow> Event list \<Rightarrow> 'l cb_work \<Rightarrow> 'l cb_work option" where
  "drain_events L no_index force now [] w = Some w"
| "drain_events L no_index force now (event # events) (sy, st, x) =
     (if event_ready force now (ps_last_event_time st) event then
        (let (n, st1) = nextBookSeqNum L sy (st\<lparr>ps_pending_events := events\<rparr>) in
         case dispatchEvent L no_index event n (sy, st1, x) of
           None \<Rightarrow> None
         | Some (sy2, st2, x2) \<Rightarrow> drain_events L no_index force now events
             (sy2, st2\<lparr>ps_last_sequence_id := ev_sequence_id event, ps_last_seq_num := ev_seq_num event\<rparr>, x2))
      else Some (sy, st, x))"

definition process_symbol :: "'l l3_ops \<Rightarrow> nat \<Rightarrow> bool \<Rightarrow> time_ns \<Rightarrow> string \<Rightarrow> 'l CoinbaseExchange \<Rightarrow> 'l CoinbaseExchange option" where
  "process_symbol L no_index force now name cb = (case (getSymbol name (cb_base cb), cb_states cb name) of
      (Some sy, Some st) \<Rightarrow>
        map_option (\<lambda>(sy', st', x'). cb\<lparr>cb_base := leave name (sy', x'), cb_states := (cb_states cb)(name \<mapsto> st')\<rparr>)
          (drain_events L no_index force now (ps_pending_events st) (sy, st, cb_base cb))
    | _ \<Rightarrow> Some cb)"

fun processSequencedEvents :: "'l l3_ops \<Rightarrow> nat \<Rightarrow> bool \<Rightarrow> time_ns \<Rightarrow> string list \<Rightarrow> 'l CoinbaseExchange \<Rightarrow> 'l CoinbaseExchange option" where
  "processSequencedEvents L no_index force now [] cb = Some cb"
| "processSequencedEvents L no_index force now (name # names) cb =
     Option.bind (process_symbol L no_index force now name cb) (processSequencedEvents L no_index force now names)"

section \<open>Feed callbacks\<close>

text \<open>\<open>symbol_event_state_[symbol]\<close> makes the state on first use.\<close>

definition state_of :: "string \<Rightarrow> 'l CoinbaseExchange \<Rightarrow> SymbolEventState" where
  "state_of name cb = (case cb_states cb name of None \<Rightarrow> new_event_state | Some st \<Rightarrow> st)"

text \<open>The walk over a snapshot's updates, newest first; the last one visited closes the batch.\<close>

fun snapshot_walk :: "'l l3_ops \<Rightarrow> seq_t \<Rightarrow> seq_t \<Rightarrow> feed_update list \<Rightarrow> 'l Symbol \<times> 'l Exchange \<Rightarrow> ('l Symbol \<times> 'l Exchange) option" where
  "snapshot_walk L seq_num book_seq_num [] v = Some v"
| "snapshot_walk L seq_num book_seq_num (u # us) (sy, x) =
     (case match_and_rest L (fu_side u) (fu_price u) (fu_qty u) (fu_event_time u) book_seq_num (us = []) sy of
        None \<Rightarrow> None
      | Some (trade_summaries, qty, sy1) \<Rightarrow>
          (case foldl publishTradeSummary (sy1, x) trade_summaries of (sy2, x2) \<Rightarrow>
             snapshot_walk L seq_num book_seq_num us
               (if fu_event_time u > ob_last_update_time sy2 then setLastUpdate (fu_event_time u) seq_num sy2 else sy2, x2)))"

text \<open>
  The loop's first statement takes \<open>std::prev(rend())\<close> of the updates, which is undefined when there are none:
  a snapshot without levels has no defined outcome, \<open>None\<close>.
\<close>

definition snapshot_loop :: "'l l3_ops \<Rightarrow> seq_t \<Rightarrow> seq_t \<Rightarrow> feed_update list \<Rightarrow> 'l Symbol \<times> 'l Exchange \<Rightarrow> ('l Symbol \<times> 'l Exchange) option" where
  "snapshot_loop L seq_num book_seq_num us v = (if us = [] then None else snapshot_walk L seq_num book_seq_num us v)"

definition onLevel2Snapshot ::
    "'l l3_ops \<Rightarrow> channels \<Rightarrow> order_num list \<Rightarrow> seq_t \<Rightarrow> string \<Rightarrow> feed_update list \<Rightarrow> 'l CoinbaseExchange \<Rightarrow> 'l CoinbaseExchange option" where
  "onLevel2Snapshot L ch ids seq_num product_id updates cb = (case getSymbol product_id (cb_base cb) of
      None \<Rightarrow> Some cb
    | Some sy \<Rightarrow>
        (let sy1 = clearMDOrders L ids sy;
             st1 = (state_of product_id cb)\<lparr>ps_pending_events := [], ps_level_update_buffer := [], ps_last_published_level_seq_num := 0\<rparr>;
             (book_seq_num, st2) = nextBookSeqNum L sy1 st1
         in case snapshot_loop L seq_num book_seq_num (rev updates) (sy1, cb_base cb) of
              None \<Rightarrow> None
            | Some (sy2, x2) \<Rightarrow>
                (let was_pending = product_id \<in> cb_pending_l2 cb;
                     x3 = (if was_pending then populateL2SubscriptionResponse L (ch_level2 ch) sy2 x2 else pushL2Snapshot L sy2 x2);
                     sy3 = sy2\<lparr>ob_level_cache := [], ob_order_cache := []\<rparr>
                 in Some (cb\<lparr>cb_base := leave product_id (sy3, x3), cb_states := (cb_states cb)(product_id \<mapsto> st2),
                      cb_pending_l2 := cb_pending_l2 cb - {product_id}\<rparr>))))"

definition onLevel2Updates ::
    "seq_t \<Rightarrow> (nat \<Rightarrow> time_ns) \<Rightarrow> string \<Rightarrow> feed_update list \<Rightarrow> 'l CoinbaseExchange \<Rightarrow> 'l CoinbaseExchange" where
  "onLevel2Updates seq_num clock product_id updates cb =
     (if x_symbols (cb_base cb) product_id = None then cb
      else cb\<lparr>cb_states := (cb_states cb)(product_id \<mapsto> enqueueLevel2Updates seq_num clock updates (state_of product_id cb))\<rparr>)"

text \<open>One message may carry trades of several products; only its first trade is marked.\<close>

fun trades_loop :: "seq_t \<Rightarrow> (nat \<Rightarrow> time_ns) \<Rightarrow> nat \<Rightarrow> (string \<times> feed_update) list \<Rightarrow> 'l CoinbaseExchange \<Rightarrow> 'l CoinbaseExchange" where
  "trades_loop seq_num clock i [] cb = cb"
| "trades_loop seq_num clock i ((product_id, u) # trades) cb =
     trades_loop seq_num clock (Suc i) trades
       (if x_symbols (cb_base cb) product_id = None then cb
        else cb\<lparr>cb_states := (cb_states cb)(product_id \<mapsto> enqueue TRADE seq_num (clock i) (i = 0) u (state_of product_id cb))\<rparr>)"

definition onMarketTrades :: "seq_t \<Rightarrow> (nat \<Rightarrow> time_ns) \<Rightarrow> (string \<times> feed_update) list \<Rightarrow> 'l CoinbaseExchange \<Rightarrow> 'l CoinbaseExchange" where
  "onMarketTrades seq_num clock trades cb = trades_loop seq_num clock 0 trades cb"

text \<open>\<open>std::from_chars\<close> on an unsigned 64-bit number: the leading digits, an error when there are none or too many.\<close>

definition from_chars_u64 :: "string \<Rightarrow> nat option" where
  "from_chars_u64 cs =
     (let ds = takeWhile (\<lambda>c. 48 \<le> (of_char c :: nat) \<and> (of_char c :: nat) \<le> 57) cs;
          v = foldl (\<lambda>v c. 10 * v + ((of_char c :: nat) - 48)) 0 ds
      in if ds = [] \<or> v \<ge> 2 ^ 64 then None else Some v)"

definition venue_trade_id :: "string \<Rightarrow> 'l Exchange \<Rightarrow> nat \<times> 'l Exchange" where
  "venue_trade_id text x = (case from_chars_u64 text of
      None \<Rightarrow> nextVenueTradeId x
    | Some i \<Rightarrow> (i, if i \<ge> x_next_trade_id x then x\<lparr>x_next_trade_id := (i + 1) mod 2 ^ 64\<rparr> else x))"

fun seed_history :: "seq_t \<Rightarrow> (string \<times> feed_update) list \<Rightarrow> 'l Symbol \<times> 'l Exchange \<Rightarrow> 'l Symbol \<times> 'l Exchange" where
  "seed_history seq_num [] v = v"
| "seed_history seq_num ((tid, u) # trades) (sy, x) =
     (let (i, x1) = venue_trade_id tid x
      in seed_history seq_num trades
           (sym_recordTrade \<lparr>mt_trade_id = i, mt_event_time = fu_event_time u, mt_seq_num = seq_num, mt_price = fu_price u,
              mt_qty = fu_qty u, mt_flags = F_NONE\<lparr>F_NOT_IN_BOOK := True\<rparr>, mt_side = fu_side u\<rparr> sy, x1))"

text \<open>Trades as product, trade id and content, newest first.\<close>

definition onMarketTradesSnapshot ::
    "channels \<Rightarrow> seq_t \<Rightarrow> (string \<times> string \<times> feed_update) list \<Rightarrow> 'l CoinbaseExchange \<Rightarrow> 'l CoinbaseExchange" where
  "onMarketTradesSnapshot ch seq_num snapshots cb =
     (if cb_pending_trades cb = {} \<or> snapshots = [] then cb
      else let name = fst (hd snapshots) in
        case getSymbol name (cb_base cb) of
          None \<Rightarrow> cb
        | Some sy \<Rightarrow>
            if name \<notin> cb_pending_trades cb then cb
            else cb\<lparr>cb_base := leave name (publishTradeSubscriptionResponse (ch_market_trades ch)
                       (seed_history seq_num (rev (map snd snapshots)) (sy, cb_base cb))),
                    cb_pending_trades := cb_pending_trades cb - {name}\<rparr>)"

definition mark_pending :: "MDTrade \<Rightarrow> 'l CoinbaseExchange \<Rightarrow> string \<Rightarrow> 'l CoinbaseExchange" where
  "mark_pending d cb name = (case x_symbols (cb_base cb) name of
      None \<Rightarrow> cb
    | Some sy \<Rightarrow> cb\<lparr>cb_pending_l2 := insert name (cb_pending_l2 cb), cb_pending_trades := insert name (cb_pending_trades cb),
        cb_base := (cb_base cb)\<lparr>x_symbols := (x_symbols (cb_base cb))(name \<mapsto> clearTradeHistory d sy)\<rparr>\<rparr>)"

definition onMarketDataDisconnected :: "MDTrade \<Rightarrow> nat \<Rightarrow> 'l CoinbaseExchange \<Rightarrow> 'l CoinbaseExchange" where
  "onMarketDataDisconnected d client cb =
     (if client \<notin> set (cb_md_feeds cb) then cb
      else foldl (mark_pending d) cb (map fst (filter (\<lambda>(_, feed). feed = client) (cb_map_symbol_feed cb))))"

section \<open>Subscriptions\<close>

text \<open>A new instrument over an empty book, bound to the engine of the venue's configuration.\<close>

definition addSymbol :: "'l \<Rightarrow> nat \<Rightarrow> MDTrade \<Rightarrow> string \<Rightarrow> 'l Exchange \<Rightarrow> config_error + 'l Exchange" where
  "addSymbol e0 i d product_id x = (case assignMatching (unbound e0 product_id i d x) x of
      Inl e \<Rightarrow> Inl e
    | Inr (sy, x') \<Rightarrow> Inr (x'\<lparr>x_symbols := (x_symbols x')(product_id \<mapsto> sy)\<rparr>))"

definition populateMDTradesResponse :: "channels \<Rightarrow> 'l Symbol \<times> 'l Exchange \<Rightarrow> 'l Symbol \<times> 'l Exchange" where
  "populateMDTradesResponse ch v = publishTradeSubscriptionResponse (ch_market_trades ch) v"

definition count_subscription :: "string \<Rightarrow> 'l CoinbaseExchange \<Rightarrow> 'l CoinbaseExchange" where
  "count_subscription name cb = cb\<lparr>cb_num_subscriptions := (cb_num_subscriptions cb)(name := cb_num_subscriptions cb name + 1)\<rparr>"

text \<open>Answer from the book or the tape at once.\<close>

definition answer_now :: "'l l3_ops \<Rightarrow> channels \<Rightarrow> nat \<Rightarrow> string \<Rightarrow> 'l CoinbaseExchange \<Rightarrow> 'l CoinbaseExchange" where
  "answer_now L ch channel name cb = (case getSymbol name (cb_base cb) of
      None \<Rightarrow> cb
    | Some sy \<Rightarrow>
        if channel = ch_level2 ch then cb\<lparr>cb_base := populateL2SubscriptionResponse L channel sy (cb_base cb)\<rparr>
        else if channel = ch_market_trades ch then cb\<lparr>cb_base := leave name (populateMDTradesResponse ch (sy, cb_base cb))\<rparr>
        else cb)"

text \<open>\<open>feed\<close> is the identity of the live feed a first subscription starts.\<close>

definition handleMdSubscription ::
    "'l l3_ops \<Rightarrow> channels \<Rightarrow> 'l \<Rightarrow> nat \<Rightarrow> MDTrade \<Rightarrow> nat \<Rightarrow> nat \<Rightarrow> string \<Rightarrow> 'l CoinbaseExchange \<Rightarrow> config_error + 'l CoinbaseExchange" where
  "handleMdSubscription L ch e0 i d feed channel name cb =
     (if x_symbols (cb_base cb) name = None then
        (case addSymbol e0 i d name (cb_base cb) of
           Inl e \<Rightarrow> Inl e
         | Inr x \<Rightarrow>
             (let cb1 = cb\<lparr>cb_base := x\<rparr>;
                  known = (channel = ch_level2 ch \<or> channel = ch_market_trades ch \<or> channel = ch_heartbeats ch)
              in if \<not> known then Inr cb1
                 else if cb_use_live_feed cb1 then
                   Inr (count_subscription name (cb1\<lparr>
                     cb_pending_l2 := (if channel = ch_level2 ch then insert name (cb_pending_l2 cb1) else cb_pending_l2 cb1),
                     cb_pending_trades := (if channel = ch_market_trades ch then insert name (cb_pending_trades cb1) else cb_pending_trades cb1),
                     cb_md_feeds := cb_md_feeds cb1 @ [feed],
                     cb_map_symbol_feed := cb_map_symbol_feed cb1 @ (if name \<in> fst ` set (cb_map_symbol_feed cb1) then [] else [(name, feed)])\<rparr>))
                 else Inr (count_subscription name (answer_now L ch channel name cb1))))
      else
        (let cb1 = count_subscription name cb
         in if channel = ch_level2 ch \<and> name \<notin> cb_pending_l2 cb1 \<or> channel = ch_market_trades ch \<and> name \<notin> cb_pending_trades cb1
            then Inr (answer_now L ch channel name cb1) else Inr cb1))"

definition handleMdUnsubscription :: "string \<Rightarrow> 'l CoinbaseExchange \<Rightarrow> 'l CoinbaseExchange" where
  "handleMdUnsubscription name cb =
     (if x_symbols (cb_base cb) name = None then cb
      else let before = cb_num_subscriptions cb name;
               cb1 = cb\<lparr>cb_num_subscriptions := (cb_num_subscriptions cb)(name := before - 1)\<rparr>
           in if before = 1 then
                (case map_of (cb_map_symbol_feed cb1) name of
                   None \<Rightarrow> cb1
                 | Some feed \<Rightarrow> cb1\<lparr>cb_md_feeds := removeAll feed (cb_md_feeds cb1),
                     cb_map_symbol_feed := filter (\<lambda>(n, _). n \<noteq> name) (cb_map_symbol_feed cb1)\<rparr>)
              else cb1)"

end
