(* ===== verification/Coinbase_Facts.thy ===== *)
theory Coinbase_Facts
  imports Coinbase_Exchange
begin

text \<open>
  What the Coinbase feed does to an instrument: every event is stamped above the sequence the book
  holds, so the book takes it; the venue's liquidity is matched and rested, or the level reconciled;
  and the instrument stays in good order.
\<close>

section \<open>Stamps\<close>

lemma nextBookSeqNum_fresh:
  assumes "nextBookSeqNum L sy st = (n, st')"
  shows "l3_last_seq L (ob_l3 sy) < n" "ps_next_book_seq_num st < n" "st' = st\<lparr>ps_next_book_seq_num := n\<rparr>"
proof -
  have "l3_last_seq L (ob_l3 sy) < n \<and> ps_next_book_seq_num st < n \<and> st' = st\<lparr>ps_next_book_seq_num := n\<rparr>"
    using assms by (cases "ps_next_book_seq_num st < l3_last_seq L (ob_l3 sy)") (auto simp: nextBookSeqNum_def Let_def)
  then show "l3_last_seq L (ob_l3 sy) < n" "ps_next_book_seq_num st < n" "st' = st\<lparr>ps_next_book_seq_num := n\<rparr>" by simp_all
qed

section \<open>Instruments up to what a feed notes on them\<close>

text \<open>Last update and credits do not touch the book.\<close>

lemma noted_ok:
  "symbol_ok L binv X (st\<lparr>ob_last_update_time := t, ob_last_seq_num := n\<rparr>) = symbol_ok L binv X st"
  "symbol_ok L binv X (st\<lparr>sy_credit := c\<rparr>) = symbol_ok L binv X st"
  "symbol_ok L binv X (st\<lparr>ob_level_cache := lc, ob_order_cache := oc\<rparr>) = symbol_ok L binv X st"
proof -
  have "obinv L binv {} (st\<lparr>ob_last_update_time := t, ob_last_seq_num := n\<rparr>) = obinv L binv {} st"
    "obinv L binv {} (st\<lparr>sy_credit := c\<rparr>) = obinv L binv {} st"
    "obinv L binv {} (st\<lparr>ob_level_cache := lc, ob_order_cache := oc\<rparr>) = obinv L binv {} st" by (rule obinv_cong, simp_all)+
  then show "symbol_ok L binv X (st\<lparr>ob_last_update_time := t, ob_last_seq_num := n\<rparr>) = symbol_ok L binv X st"
    "symbol_ok L binv X (st\<lparr>sy_credit := c\<rparr>) = symbol_ok L binv X st"
    "symbol_ok L binv X (st\<lparr>ob_level_cache := lc, ob_order_cache := oc\<rparr>) = symbol_ok L binv X st"
    by (simp_all add: symbol_ok_def pool_exact_def drawn_def uncrossed_def queue_def)
qed

lemma credit_frame: obtains c where "creditTradedQty s p q t st = st\<lparr>sy_credit := c\<rparr>"
proof (cases "q \<le> 0 \<or> s = UNKNOWN_SIDE")
  case True
  then show thesis using that [of "sy_credit st"] by (simp add: creditTradedQty_def)
next
  case False
  show thesis by (rule that) (simp only: creditTradedQty_def False if_False)
qed

lemma market_done_refl: "symbol_ok L binv {} sy \<Longrightarrow> history_ok (sy_trade_history sy) \<Longrightarrow> market_done L binv (sy, x) (sy, x)"
  by (simp add: market_done_def)

lemma market_done_trans: "market_done L binv u v \<Longrightarrow> market_done L binv v w \<Longrightarrow> market_done L binv u w"
  by (cases u; cases v; cases w) (auto simp: market_done_def intro: x_frame_trans)

lemma market_doneD:
  assumes "market_done L binv (sy, x) (sy', x')"
  shows "symbol_ok L binv {} sy'" "history_ok (sy_trade_history sy')" "x_frame x x'" "ob_symbol sy' = ob_symbol sy"
    "ob_next_order_id sy \<le> ob_next_order_id sy'" "ob_next_priority sy \<le> ob_next_priority sy'"
  using assms by (simp_all add: market_done_def)

section \<open>Matching and resting\<close>

lemma match_and_rest_ok:
  fixes sy :: "'l Symbol"
  assumes l3: "l3_book L binv" and ok: "symbol_ok L binv {} sy" and s: "real_side s" and q: "0 \<le> q" and px: "px \<noteq> NULL_PRICE"
    and fit: "fits (queue L sy (opposite_side s))" and seq: "seq = 0 \<or> l3_last_seq L (ob_l3 sy) \<le> seq"
    and spec: "engine_spec (sy_engine sy) (crosses (opposite_side s) px) (\<lambda>_. False) q (queue L sy (opposite_side s)) = (fs, cs, es', q')"
  obtains sms sy' where "match_and_rest L s px q t seq ee sy = Some (sms, q', sy')" "symbol_ok L binv {} sy'"
    "sy_trade_history sy' = sy_trade_history sy" "ob_symbol sy' = ob_symbol sy" "ob_last_update_time sy' = ob_last_update_time sy"
    "ob_next_order_id sy' = ob_next_order_id sy + 1" "ob_next_priority sy' = (if 0 < q' then ob_next_priority sy + 1 else ob_next_priority sy)"
    "queue L sy' (opposite_side s) = es'"
    "queue L sy' s = (if 0 < q' then insert_entry s \<lparr>en_price = px, en_id = ob_next_order_id sy, en_qty = q', en_prio = ob_next_priority sy + 1\<rparr> (queue L sy s)
       else queue L sy s)" "q = filled_qty fs + q'" "legs sms = fill_legs fs" "sy_engine sy' = sy_engine sy"
    "seq = 0 \<or> l3_last_seq L (ob_l3 sy') \<le> seq"
proof -
  define sy1 where "sy1 = sy\<lparr>ob_next_order_id := ob_next_order_id sy + 1\<rparr>"
  let ?i = "ob_next_order_id sy" and ?o = "opposite_side s"
  have q1: "queue L sy1 s = queue L sy s" for s by (simp add: sy1_def queue_def)
  have ok1: "symbol_ok L binv {} sy1" unfolding sy1_def by (rule next_id_ok [OF ok])
  have fit1: "fits (queue L sy1 ?o)" and seq1: "seq = 0 \<or> l3_last_seq L (ob_l3 sy1) \<le> seq" using fit seq by (simp_all add: q1, simp add: sy1_def)
  have sp1: "engine_spec (sy_engine sy1) (crosses ?o px) (\<lambda>_. False) q (queue L sy1 ?o) = (fs, cs, es', q')"
    unfolding q1 using spec by (simp add: sy1_def)
  obtain sms sy2 where m: "engine_match_feed L (sy_engine sy1) s ?i px q t seq sy1 = Some (sms, q', sy2)" "symbol_ok L binv {} sy2"
    "eng_frame sy1 sy2" "queue L sy2 ?o = es'" "queue L sy2 s = queue L sy1 s" "0 \<le> q'" "q = filled_qty fs + q'"
    "0 < q' \<longrightarrow> (\<forall>e\<in>set es'. \<not> crosses ?o px (en_price e))" "legs sms = fill_legs fs"
    "ob_orders sy2 = orders_after (ob_orders sy1) (queue L sy1 ?o) es'" "seq = 0 \<or> l3_last_seq L (ob_l3 sy2) \<le> seq"
    by (rule feed_match_seq [OF l3 ok1 s fit1 q seq1 sp1]) blast
  have run: "match_and_rest L s px q t seq ee sy = Some (sms, q', if q' \<noteq> 0 then addBookOrder L ?i s px q' t seq ee sy2 else sy2)"
    by (simp only: match_and_rest_def nextOrderId_def Let_def prod.case sy1_def [symmetric] m(1) option.case)
  have nx: "ob_symbol sy2 = ob_symbol sy" "ob_next_order_id sy2 = ob_next_order_id sy + 1" "ob_next_priority sy2 = ob_next_priority sy"
    "ob_last_update_time sy2 = ob_last_update_time sy" "sy_trade_history sy2 = sy_trade_history sy" "sy_engine sy2 = sy_engine sy"
    using m(3) symbol_more [of sy2 sy1] by (simp_all add: eng_frame_def, simp_all add: sy1_def)
  show thesis
  proof (cases "0 < q'")
    case False
    then have "q' = 0" using m(6) by simp
    then show thesis using that [of sms sy2] run m nx q1 by simp
  next
    case True
    let ?b = "sy2\<lparr>ob_next_priority := ob_next_priority sy2 + 1\<rparr>" and ?p = "ob_next_priority sy + 1"
    let ?sy3 = "snd (base_addOrder L ?i s px q' t ?p seq ee ?b)"
    have eq: "addBookOrder L ?i s px q' t seq ee sy2 = ?sy3" by (simp add: addBookOrder_def nextOrderPriority_def nx(3))
    have qb: "queue L ?b s = queue L sy2 s" for s by (simp add: queue_def)
    have okb: "symbol_ok L binv {} ?b"
    proof -
      have "obinv L binv {} ?b = obinv L binv {} sy2" by (rule obinv_cong) simp_all
      then show ?thesis using m(2) by (fastforce simp: symbol_ok_def pool_exact_def drawn_def uncrossed_def qb)
    qed
    have un: "ob_orders sy ?i = None" "\<And>s. real_side s \<Longrightarrow> ?i \<notin> en_id ` set (queue L sy s)" using next_id_unused [OF l3 ok] by blast+
    have o2: "ob_orders ?b ?i = None" using un(1) by (simp add: m(10) orders_after_def restrict_map_def sy1_def)
    have sub: "en_id ` set es' \<subseteq> en_id ` set (queue L sy ?o)"
      using places_ids [OF matching_engine.spec_places [OF engine_contract [OF l3 symbol_okD(6) [OF ok]] fit spec]] .
    have so: "real_side ?o" using s by (auto simp: real_side_def)
    have "?i \<notin> en_id ` set (queue L ?b s)" "?i \<notin> en_id ` set (queue L ?b ?o)"
      using un(2) [OF s] un(2) [OF so] subsetD [OF sub, of ?i] m(4,5) by (auto simp: qb q1)
    then have ids: "?i \<notin> en_id ` set (queue L ?b BUY @ queue L ?b SELL)" using s by (auto simp: real_side_def)
    have free: "\<forall>y\<in>set (queue L ?b ?o). \<not> isPriceBetterOrEqual s px (en_price y)"
      using True m(4,8) s px by (auto simp: qb crosses_def isPriceBetterOrEqual_def real_side_def)
    have seqb: "seq = 0 \<or> l3_last_seq L (ob_l3 ?b) \<le> seq" using m(11) by simp
    have small: "?i < ob_next_order_id ?b" "0 < ?p" "?p \<le> ob_next_priority ?b" by (simp_all add: nx)
    note r = phantom_rests [OF l3 okb s True o2 ids small px free seqb refl, where t = t and lb = ee]
    have fr: "ob_symbol ?sy3 = ob_symbol sy" "ob_next_order_id ?sy3 = ob_next_order_id sy + 1" "ob_next_priority ?sy3 = ob_next_priority sy + 1"
      "ob_last_update_time ?sy3 = ob_last_update_time sy"
      using r(2) nx by (simp_all add: same_frame_def book_frame_def)
    have h: "sy_trade_history ?sy3 = sy_trade_history sy"
      using r(2) nx(5) book_more [of ?sy3 ?b] symbol_more [of ?sy3 ?b] by (simp add: same_frame_def book_frame_def)
    have eng: "sy_engine ?sy3 = sy_engine sy"
      using near_frame_symbol [OF near_frameI, of ?b ?sy3] r(2) nx(6) by (simp add: same_frame_def)
    have run3: "match_and_rest L s px q t seq ee sy = Some (sms, q', ?sy3)" using run True eq by simp
    have qs: "queue L ?sy3 ?o = es'" "queue L ?sy3 s = insert_entry s \<lparr>en_price = px, en_id = ?i, en_qty = q', en_prio = ?p\<rparr> (queue L sy s)"
      using r(4,5) m(4,5) by (simp_all add: qb q1)
    show thesis by (rule that [OF run3 r(1) h fr(1,4) _ _ qs(1) _ m(7,9) eng r(7)]) (use True fr qs in simp_all)
  qed
qed

section \<open>Dispatch\<close>

text \<open>What an event needs of the instrument it is dispatched to.\<close>

definition event_fits :: "'l l3_ops \<Rightarrow> Event \<Rightarrow> ('l, 'z) instrument \<Rightarrow> bool" where
  "event_fits L e st \<longleftrightarrow> real_side (ev_side e) \<and> 0 \<le> ev_qty e \<and> ev_price e \<noteq> NULL_PRICE \<and> fits (queue L st (opposite_side (ev_side e)))"

lemma publish_done:
  assumes "symbol_ok L binv {} sy" and "history_ok (sy_trade_history sy)" and "foldl publishTradeSummary (sy, x) sms = (sy', x')"
  shows "market_done L binv (sy, x) (sy', x')" "but_history sy sy'"
  using publish_all_frame [OF assms(3)] but_historyD(1,2,4,5) [of sy sy'] assms(1,2) by (simp_all add: market_done_def)

lemma flush_done:
  assumes "symbol_ok L binv {} sy" and "history_ok (sy_trade_history sy)" and "flushMarketDataCaches (sy, x) = (sy', x')"
  shows "market_done L binv (sy, x) (sy', x')"
  using flush_frame [OF assms(3)] assms(1,2) by (simp add: market_done_def noted_ok(3))

lemma credit_publish_done:
  fixes sy :: "'l Symbol"
  assumes "symbol_ok L binv {} sy" and "history_ok (sy_trade_history sy)" and "foldl (credit_and_publish e) (sy, x) sms = (sy', x')"
  shows "market_done L binv (sy, x) (sy', x') \<and> queue L sy' = queue L sy"
  using assms
proof (induction sms arbitrary: sy x)
  case (Cons sm sms)
  obtain c where c: "creditTradedQty (opposite_side (ev_side e)) (ts_price sm) (ts_phantom_qty sm) (ev_event_time e) sy = sy\<lparr>sy_credit := c\<rparr>" by (rule credit_frame)
  let ?syc = "sy\<lparr>sy_credit := c\<rparr>"
  obtain sy1 x1 where p: "publishTradeSummary (?syc, x) sm = (sy1, x1)" by fastforce
  have okc: "symbol_ok L binv {} ?syc" "history_ok (sy_trade_history ?syc)" using Cons.prems by (simp_all add: noted_ok(2))
  note f = publishTradeSummary_frame [OF p]
  have d: "market_done L binv (sy, x) (sy1, x1)" using f but_historyD(1,2,4,5) [OF f(1)] okc by (simp add: market_done_def)
  have q: "queue L sy1 = queue L sy" using but_historyD(13) [OF f(1)] by (auto simp: queue_def)
  have "credit_and_publish e (sy, x) sm = (sy1, x1)" by (simp add: credit_and_publish_def c p)
  then have "foldl (credit_and_publish e) (sy1, x1) sms = (sy', x')" using Cons.prems(3) by simp
  then show ?case using Cons.IH [of sy1 x1] market_doneD(1,2) [OF d] market_done_trans [OF d] q by simp
qed (simp add: market_done_refl)

lemma match_done:
  fixes sy :: "'l Symbol"
  assumes "symbol_ok L binv {} sy'" and "sy_trade_history sy' = sy_trade_history sy" and "ob_symbol sy' = ob_symbol sy"
    and "ob_next_order_id sy' = ob_next_order_id sy + 1" and "ob_next_priority sy' = (if c then ob_next_priority sy + 1 else ob_next_priority sy)"
    and "history_ok (sy_trade_history sy)"
  shows "market_done L binv (sy, x) (sy', x)"
  using assms by (simp add: market_done_def)

lemma dispatchTrade_ok:
  fixes sy :: "'l Symbol"
  assumes l3: "l3_book L binv" and ok: "symbol_ok L binv {} sy" and hist: "history_ok (sy_trade_history sy)" and ev: "event_fits L e sy"
    and seq: "n = 0 \<or> l3_last_seq L (ob_l3 sy) \<le> n"
    and spec: "engine_spec (sy_engine sy) (crosses (opposite_side (ev_side e)) (ev_price e)) (\<lambda>_. False) (ev_qty e) (queue L sy (opposite_side (ev_side e))) = (fs, cs, es', q')"
  obtains sy' x' where "dispatchTrade L e n (sy, st, x) = Some (sy', st, x')" "market_done L binv (sy, x) (sy', x')"
    "queue L sy' (opposite_side (ev_side e)) = es'"
    "queue L sy' (ev_side e) = (if 0 < q' then insert_entry (ev_side e) \<lparr>en_price = ev_price e, en_id = ob_next_order_id sy, en_qty = q',
       en_prio = ob_next_priority sy + 1\<rparr> (queue L sy (ev_side e)) else queue L sy (ev_side e))"
    "quiet sy'" "ev_qty e = filled_qty fs + q'"
proof -
  have e: "real_side (ev_side e)" "0 \<le> ev_qty e" "ev_price e \<noteq> NULL_PRICE" "fits (queue L sy (opposite_side (ev_side e)))"
    using ev by (simp_all add: event_fits_def)
  obtain sms sy1 where m: "match_and_rest L (ev_side e) (ev_price e) (ev_qty e) (ev_event_time e) n (F_END_EVENT (ev_flags e)) sy = Some (sms, q', sy1)"
    "symbol_ok L binv {} sy1" "sy_trade_history sy1 = sy_trade_history sy" "ob_symbol sy1 = ob_symbol sy"
    "ob_next_order_id sy1 = ob_next_order_id sy + 1" "ob_next_priority sy1 = (if 0 < q' then ob_next_priority sy + 1 else ob_next_priority sy)" "queue L sy1 (opposite_side (ev_side e)) = es'"
    "queue L sy1 (ev_side e) = (if 0 < q' then insert_entry (ev_side e) \<lparr>en_price = ev_price e, en_id = ob_next_order_id sy, en_qty = q',
       en_prio = ob_next_priority sy + 1\<rparr> (queue L sy (ev_side e)) else queue L sy (ev_side e))" "ev_qty e = filled_qty fs + q'"
    by (rule match_and_rest_ok [OF l3 ok e seq spec]) blast
  note d1 = match_done [OF m(2-6) hist, of x]
  obtain sy2 x2 where p: "foldl (credit_and_publish e) (sy1, x) sms = (sy2, x2)" by fastforce
  have d2: "market_done L binv (sy1, x) (sy2, x2)" "queue L sy2 = queue L sy1"
    using credit_publish_done [OF market_doneD(1,2) [OF d1] p] by simp_all
  obtain sy3 x3 where f: "flushMarketDataCaches (sy2, x2) = (sy3, x3)" by fastforce
  have d3: "market_done L binv (sy2, x2) (sy3, x3)" by (rule flush_done [OF market_doneD(1,2) [OF d2(1)] f])
  have q3: "queue L sy3 = queue L sy2" "quiet sy3" using flush_frame(1) [OF f] by (auto simp: queue_def quiet_def)
  have "dispatchTrade L e n (sy, st, x) = Some (sy3, st, x3)" by (simp add: dispatchTrade_def m(1) p f)
  then show thesis
    using that [OF _ market_done_trans [OF market_done_trans [OF d1 d2(1)] d3]] m(7-9) d2(2) q3 by simp
qed

text \<open>Buffering a row touches neither the instrument nor the queue of events.\<close>

definition queue_kept :: "SymbolEventState \<Rightarrow> SymbolEventState \<Rightarrow> bool" where
  "queue_kept st st' \<longleftrightarrow> ps_pending_events st' = ps_pending_events st \<and> ps_last_event_time st' = ps_last_event_time st \<and>
     ps_next_book_seq_num st' = ps_next_book_seq_num st \<and> ps_next_sequence_id st' = ps_next_sequence_id st"

lemma buffer_row_frame:
  assumes "buffer_row e row (sy, st, x) = (sy', st', x')"
  shows "sy' = sy" "queue_kept st st'" "x_frame x x'" "ps_level_update_buffer st' \<noteq> [] \<and> last (ps_level_update_buffer st') = row"
proof -
  define st1 where "st1 = (if ps_last_published_level_seq_num st = 0 then st\<lparr>ps_last_published_level_seq_num := ev_seq_num e\<rparr> else st)"
  have k: "queue_kept st st1" by (simp add: st1_def queue_kept_def)
  have "sy' = sy \<and> queue_kept st st' \<and> x_frame x x' \<and> ps_level_update_buffer st' \<noteq> [] \<and> last (ps_level_update_buffer st') = row"
    using assms k by (cases "ps_level_update_buffer st1 \<noteq> [] \<and> ev_seq_num e \<noteq> ps_last_published_level_seq_num st1")
      (auto simp: buffer_row_def Let_def st1_def [symmetric] queue_kept_def publishLevelUpdate_def)
  then show "sy' = sy" "queue_kept st st'" "x_frame x x'" "ps_level_update_buffer st' \<noteq> [] \<and> last (ps_level_update_buffer st') = row" by simp_all
qed

text \<open>The part of a level update before its row: the book's new state, and whether a level is new.\<close>

definition apply_level :: "'l l3_ops \<Rightarrow> Event \<Rightarrow> seq_t \<Rightarrow> 'l Symbol \<times> 'l Exchange \<Rightarrow> (MDUpdateAction \<times> 'l Symbol \<times> 'l Exchange) option" where
  "apply_level L e n v = (case v of (sy, x) \<Rightarrow>
     if l3_level_at L (ob_l3 sy) (ev_side e) (ev_price e) = None
     then map_option (\<lambda>(trade_summaries, qty, sy1). (if qty \<noteq> 0 then ACTION_NEW else ACTION_CHANGE,
            flushMarketDataCaches (foldl publishTradeSummary (sy1, x) trade_summaries)))
          (match_and_rest L (ev_side e) (ev_price e) (ev_qty e) (ev_event_time e) n (F_END_EVENT (ev_flags e)) sy)
     else Some (ACTION_CHANGE, (reconcilePhantomQty L (ev_side e) (ev_price e) (ev_qty e) (ev_event_time e) n (F_END_EVENT (ev_flags e)) sy, x)))"

lemma dispatchLevelUpdate_apply:
  assumes "\<not> ev_event_time e < ob_last_update_time sy" and "apply_level L e n (sy, x) = Some (act, sy2, x2)"
  shows "dispatchLevelUpdate L ni e n (sy, st, x) =
    Some (buffer_row e (level_row ni e (l3_level_at L (ob_l3 sy) (ev_side e) (ev_price e)) (l3_level_at L (ob_l3 sy2) (ev_side e) (ev_price e)) act)
      (setLastUpdate (ev_event_time e) (ev_seq_num e) sy2, st, x2))"
proof -
  have "l3_level_at L (ob_l3 (setLastUpdate t m sy2)) s p = l3_level_at L (ob_l3 sy2) s p" for t m s p by (simp add: setLastUpdate_def)
  then show ?thesis using assms(1) assms(2) [unfolded apply_level_def prod.case]
    by (simp only: dispatchLevelUpdate_def prod.case if_False Let_def option.case)
qed

lemma apply_level_reconcile:
  fixes sy :: "'l Symbol"
  assumes l3: "l3_book L binv" and ok: "symbol_ok L binv {} sy" and hist: "history_ok (sy_trade_history sy)" and ev: "event_fits L e sy"
    and seq: "n = 0 \<or> l3_last_seq L (ob_l3 sy) \<le> n" and lv: "l3_level_at L (ob_l3 sy) (ev_side e) (ev_price e) = Some (level, k)"
  obtains sy2 where "apply_level L e n (sy, x) = Some (ACTION_CHANGE, sy2, x)" "market_done L binv (sy, x) (sy2, x)"
    "level_frame L (ev_side e) (ev_price e) sy sy2"
    "getMDLevelQty sy2 (ev_price e) = reconciled_qty (ev_qty e) (credit_after (ev_event_time e) (credits_at (ev_side e) (ev_price e) sy))"
proof -
  let ?sy2 = "reconcilePhantomQty L (ev_side e) (ev_price e) (ev_qty e) (ev_event_time e) n (F_END_EVENT (ev_flags e)) sy"
  have e: "real_side (ev_side e)" "0 \<le> ev_qty e" using ev by (simp_all add: event_fits_def)
  note r = reconcile_ok [OF l3 ok e lv seq refl, where t = "ev_event_time e" and ee = "F_END_EVENT (ev_flags e)"]
  have "feed_frame sy ?sy2" by (rule feed_frame_reconcile)
  then have "market_done L binv (sy, x) (?sy2, x)" using r(1) hist by (simp add: market_done_def feed_frame_def)
  then show thesis using that [of ?sy2] r(2,3) by (simp add: apply_level_def lv)
qed

lemma apply_level_new:
  fixes sy :: "'l Symbol"
  assumes l3: "l3_book L binv" and ok: "symbol_ok L binv {} sy" and hist: "history_ok (sy_trade_history sy)" and ev: "event_fits L e sy"
    and seq: "n = 0 \<or> l3_last_seq L (ob_l3 sy) \<le> n" and lv: "l3_level_at L (ob_l3 sy) (ev_side e) (ev_price e) = None"
    and spec: "engine_spec (sy_engine sy) (crosses (opposite_side (ev_side e)) (ev_price e)) (\<lambda>_. False) (ev_qty e) (queue L sy (opposite_side (ev_side e))) = (fs, cs, es', q')"
  obtains sy2 x2 where "apply_level L e n (sy, x) = Some (if q' \<noteq> 0 then ACTION_NEW else ACTION_CHANGE, sy2, x2)" "market_done L binv (sy, x) (sy2, x2)"
    "queue L sy2 (opposite_side (ev_side e)) = es'"
    "queue L sy2 (ev_side e) = (if 0 < q' then insert_entry (ev_side e) \<lparr>en_price = ev_price e, en_id = ob_next_order_id sy, en_qty = q',
       en_prio = ob_next_priority sy + 1\<rparr> (queue L sy (ev_side e)) else queue L sy (ev_side e))"
    "quiet sy2" "ev_qty e = filled_qty fs + q'"
proof -
  have e: "real_side (ev_side e)" "0 \<le> ev_qty e" "ev_price e \<noteq> NULL_PRICE" "fits (queue L sy (opposite_side (ev_side e)))"
    using ev by (simp_all add: event_fits_def)
  obtain sms sy1 where m: "match_and_rest L (ev_side e) (ev_price e) (ev_qty e) (ev_event_time e) n (F_END_EVENT (ev_flags e)) sy = Some (sms, q', sy1)"
    "symbol_ok L binv {} sy1" "sy_trade_history sy1 = sy_trade_history sy" "ob_symbol sy1 = ob_symbol sy"
    "ob_next_order_id sy1 = ob_next_order_id sy + 1" "ob_next_priority sy1 = (if 0 < q' then ob_next_priority sy + 1 else ob_next_priority sy)" "queue L sy1 (opposite_side (ev_side e)) = es'"
    "queue L sy1 (ev_side e) = (if 0 < q' then insert_entry (ev_side e) \<lparr>en_price = ev_price e, en_id = ob_next_order_id sy, en_qty = q',
       en_prio = ob_next_priority sy + 1\<rparr> (queue L sy (ev_side e)) else queue L sy (ev_side e))" "ev_qty e = filled_qty fs + q'"
    by (rule match_and_rest_ok [OF l3 ok e seq spec]) blast
  note d1 = match_done [OF m(2-6) hist, of x]
  obtain sy2 x2 where p: "foldl publishTradeSummary (sy1, x) sms = (sy2, x2)" by fastforce
  note d2 = publish_done [OF market_doneD(1,2) [OF d1] p]
  have q2: "queue L sy2 = queue L sy1" using but_historyD(13) [OF d2(2)] by (auto simp: queue_def)
  obtain sy3 x3 where f: "flushMarketDataCaches (sy2, x2) = (sy3, x3)" by fastforce
  have d3: "market_done L binv (sy2, x2) (sy3, x3)" by (rule flush_done [OF market_doneD(1,2) [OF d2(1)] f])
  have q3: "queue L sy3 = queue L sy2" "quiet sy3" using flush_frame(1) [OF f] by (auto simp: queue_def quiet_def)
  have "apply_level L e n (sy, x) = Some (if q' \<noteq> 0 then ACTION_NEW else ACTION_CHANGE, sy3, x3)" by (simp add: apply_level_def lv m(1) p f)
  then show thesis
    using that [OF _ market_done_trans [OF market_done_trans [OF d1 d2(1)] d3]] m(7-9) q2 q3 by simp
qed

lemma dispatchEvent_ok:
  fixes sy :: "'l Symbol"
  assumes l3: "l3_book L binv" and ok: "symbol_ok L binv {} sy" and hist: "history_ok (sy_trade_history sy)" and ev: "event_fits L e sy"
    and seq: "n = 0 \<or> l3_last_seq L (ob_l3 sy) \<le> n"
  obtains sy' st' x' where "dispatchEvent L ni e n (sy, st, x) = Some (sy', st', x')" "market_done L binv (sy, x) (sy', x')" "queue_kept st st'"
proof -
  obtain fs cs es' q' where spec: "engine_spec (sy_engine sy) (crosses (opposite_side (ev_side e)) (ev_price e)) (\<lambda>_. False) (ev_qty e)
      (queue L sy (opposite_side (ev_side e))) = (fs, cs, es', q')" by (metis prod_cases4)
  show thesis
  proof (cases "ev_type e")
    case TRADE
    show thesis by (rule dispatchTrade_ok [OF l3 ok hist ev seq spec, of st x]) (use that TRADE in \<open>simp add: dispatchEvent_def queue_kept_def\<close>)
  next
    case LEVEL_UPDATE
    show thesis
    proof (cases "ev_event_time e < ob_last_update_time sy")
      case True
      then show thesis using that [of sy st x] LEVEL_UPDATE market_done_refl [OF ok hist] by (simp add: dispatchEvent_def dispatchLevelUpdate_def queue_kept_def)
    next
      case False
      obtain act sy2 x2 where a: "apply_level L e n (sy, x) = Some (act, sy2, x2)" "market_done L binv (sy, x) (sy2, x2)"
      proof (cases "l3_level_at L (ob_l3 sy) (ev_side e) (ev_price e)")
        case None
        show ?thesis by (rule apply_level_new [OF l3 ok hist ev seq None spec, of x]) (rule that)
      next
        case (Some lk)
        then obtain level k where "l3_level_at L (ob_l3 sy) (ev_side e) (ev_price e) = Some (level, k)" by (cases lk) auto
        then show ?thesis by (rule apply_level_reconcile [OF l3 ok hist ev seq, of _ _ x]) (rule that)
      qed
      let ?sy3 = "setLastUpdate (ev_event_time e) (ev_seq_num e) sy2"
      have d: "market_done L binv (sy2, x2) (?sy3, x2)"
        using market_doneD(1,2) [OF a(2)] by (simp add: market_done_def setLastUpdate_def noted_ok(1))
      obtain sy4 st4 x4 where b: "dispatchLevelUpdate L ni e n (sy, st, x) = Some (sy4, st4, x4)"
        "sy4 = ?sy3" "queue_kept st st4" "x_frame x2 x4"
        unfolding dispatchLevelUpdate_apply [OF False a(1)] using buffer_row_frame by (metis prod_cases3)
      have "market_done L binv (?sy3, x2) (sy4, x4)" using b market_doneD(1,2) [OF d] by (simp add: market_done_def)
      then show thesis
        using that [OF _ market_done_trans [OF market_done_trans [OF a(2) d]] b(3)] b(1) LEVEL_UPDATE by (simp add: dispatchEvent_def)
    qed
  qed
qed

end
