(* ===== verification/Coinbase_Properties.thy ===== *)
theory Coinbase_Properties
  imports Coinbase_Facts Feed_Properties
begin

text \<open>
  The properties of the Coinbase exchange: draining the event queues returns and keeps every
  instrument in good order, a level update sets the level exactly, and a snapshot replaces the
  venue's part of the book.
\<close>

section \<open>Listed instruments\<close>

text \<open>Between events: every listed instrument is in good order. Its caches may hold updates still to be flushed.\<close>

definition listed_ok :: "'l l3_ops \<Rightarrow> ('l \<Rightarrow> bool) \<Rightarrow> 'l Exchange \<Rightarrow> bool" where
  "listed_ok L binv x \<longleftrightarrow> (\<forall>n sy. x_symbols x n = Some sy \<longrightarrow>
     symbol_ok L binv {} (load x sy) \<and> ob_symbol sy = n \<and> history_ok (sy_trade_history sy)) \<and> tables_ok x"

lemma exchange_ok_listed: "exchange_ok L binv x \<Longrightarrow> listed_ok L binv x"
  by (auto simp: exchange_ok_def listed_ok_def instrument_ok_def)

lemma listed_get:
  assumes "listed_ok L binv x" and "getSymbol n x = Some sy"
  shows "symbol_ok L binv {} sy" "ob_symbol sy = n" "history_ok (sy_trade_history sy)"
    "ob_next_order_id sy = x_next_order_id x" "ob_next_priority sy = x_next_priority x"
  using assms by (auto simp: listed_ok_def getSymbol_def)

lemma listed_leave:
  assumes ok: "listed_ok L binv x" and get: "getSymbol n x = Some sy" and md: "market_done L binv (sy, x) (sy', x')"
  shows "listed_ok L binv (leave n (sy', x'))"
proof -
  note g = listed_get [OF ok get] and d = market_doneD [OF md]
  let ?x = "leave n (sy', x')"
  have "symbol_ok L binv {} (load ?x s) \<and> ob_symbol s = m \<and> history_ok (sy_trade_history s)" if m: "x_symbols ?x m = Some s" for m s
  proof (cases "m = n")
    case True
    then show ?thesis using m d g by (auto intro!: symbol_ok_load)
  next
    case False
    then have "x_symbols x m = Some s" using m d(3) by (simp add: x_frame_def)
    then have "symbol_ok L binv {} (load x s)" "ob_symbol s = m" "history_ok (sy_trade_history s)" using ok by (auto simp: listed_ok_def)
    then show ?thesis using d(5,6) g(4,5) by (auto intro: symbol_ok_reload)
  qed
  moreover have "tables_ok ?x" using tables_ok_frame [OF d(3)] ok by (simp add: listed_ok_def tables_ok_def clients_ok_def)
  ultimately show ?thesis by (simp add: listed_ok_def)
qed

section \<open>Draining\<close>

text \<open>
  The venue's part of a run: each event that is dispatched has a real side, a quantity that is not
  negative and a price, and meets a book whose resting quantity is within 64 bits.
\<close>

fun run_fits :: "'l l3_ops \<Rightarrow> nat \<Rightarrow> bool \<Rightarrow> time_ns \<Rightarrow> Event list \<Rightarrow> 'l cb_work \<Rightarrow> bool" where
  "run_fits L ni force now [] w \<longleftrightarrow> True"
| "run_fits L ni force now (e # es) (sy, st, x) \<longleftrightarrow>
     (event_ready force now (ps_last_event_time st) e \<longrightarrow> event_fits L e sy \<and>
        (case nextBookSeqNum L sy (st\<lparr>ps_pending_events := es\<rparr>) of (n, st1) \<Rightarrow>
           case dispatchEvent L ni e n (sy, st1, x) of
             None \<Rightarrow> True
           | Some (sy2, st2, x2) \<Rightarrow>
               run_fits L ni force now es (sy2, st2\<lparr>ps_last_sequence_id := ev_sequence_id e, ps_last_seq_num := ev_seq_num e\<rparr>, x2)))"

text \<open>
  What draining is meant to do: every event of a list leaves the queue, takes a book sequence number, is dispatched,
  and is recorded as the last one; of each instrument, the events before the first that is not ready.
\<close>

definition dispatch_one :: "'l l3_ops \<Rightarrow> nat \<Rightarrow> Event \<Rightarrow> 'l cb_work \<Rightarrow> 'l cb_work option" where
  "dispatch_one L ni e w = (case w of (sy, st, x) \<Rightarrow>
     (case nextBookSeqNum L sy (st\<lparr>ps_pending_events := tl (ps_pending_events st)\<rparr>) of (n, st1) \<Rightarrow>
        map_option (\<lambda>(sy2, st2, x2). (sy2, st2\<lparr>ps_last_sequence_id := ev_sequence_id e, ps_last_seq_num := ev_seq_num e\<rparr>, x2))
          (dispatchEvent L ni e n (sy, st1, x))))"

fun dispatch_list :: "'l l3_ops \<Rightarrow> nat \<Rightarrow> Event list \<Rightarrow> 'l cb_work \<Rightarrow> 'l cb_work option" where
  "dispatch_list L ni [] w = Some w"
| "dispatch_list L ni (e # es) w = Option.bind (dispatch_one L ni e w) (dispatch_list L ni es)"

definition dispatch_symbol :: "'l l3_ops \<Rightarrow> nat \<Rightarrow> bool \<Rightarrow> time_ns \<Rightarrow> string \<Rightarrow> 'l CoinbaseExchange \<Rightarrow> 'l CoinbaseExchange option" where
  "dispatch_symbol L ni force now name cb = (case (getSymbol name (cb_base cb), cb_states cb name) of
      (Some sy, Some st) \<Rightarrow>
        map_option (\<lambda>(sy', st', x'). cb\<lparr>cb_base := leave name (sy', x'), cb_states := (cb_states cb)(name \<mapsto> st')\<rparr>)
          (dispatch_list L ni (takeWhile (event_ready force now (ps_last_event_time st)) (ps_pending_events st)) (sy, st, cb_base cb))
    | _ \<Rightarrow> Some cb)"

fun dispatch_symbols :: "'l l3_ops \<Rightarrow> nat \<Rightarrow> bool \<Rightarrow> time_ns \<Rightarrow> string list \<Rightarrow> 'l CoinbaseExchange \<Rightarrow> 'l CoinbaseExchange option" where
  "dispatch_symbols L ni force now [] cb = Some cb"
| "dispatch_symbols L ni force now (name # names) cb =
     Option.bind (dispatch_symbol L ni force now name cb) (dispatch_symbols L ni force now names)"

lemma drain_events_ok:
  fixes sy :: "'l Symbol"
  assumes l3: "l3_book L binv"
  shows "symbol_ok L binv {} sy \<Longrightarrow> history_ok (sy_trade_history sy) \<Longrightarrow> ps_pending_events st = events \<Longrightarrow>
    run_fits L ni force now events (sy, st, x) \<Longrightarrow>
    \<exists>sy' st' x'. drain_events L ni force now events (sy, st, x) = Some (sy', st', x') \<and> market_done L binv (sy, x) (sy', x') \<and>
      dispatch_list L ni (takeWhile (event_ready force now (ps_last_event_time st)) events) (sy, st, x) = Some (sy', st', x') \<and>
      ps_pending_events st' = dropWhile (event_ready force now (ps_last_event_time st)) events \<and> ps_last_event_time st' = ps_last_event_time st \<and>
      ps_next_sequence_id st' = ps_next_sequence_id st \<and>
      ps_next_book_seq_num st + length (takeWhile (event_ready force now (ps_last_event_time st)) events) \<le> ps_next_book_seq_num st'"
proof (induction events arbitrary: sy st x)
  case Nil
  then show ?case using market_done_refl [of L binv sy x] by (intro exI [of _ sy] exI [of _ st] exI [of _ x]) simp
next
  case (Cons e events)
  show ?case
  proof (cases "event_ready force now (ps_last_event_time st) e")
    case False
    then show ?thesis using Cons.prems market_done_refl [of L binv sy x] by (intro exI [of _ sy] exI [of _ st] exI [of _ x]) simp
  next
    case True
    obtain n st1 where n: "nextBookSeqNum L sy (st\<lparr>ps_pending_events := events\<rparr>) = (n, st1)" by fastforce
    note f = nextBookSeqNum_fresh [OF n]
    have fit: "event_fits L e sy" using Cons.prems(4) True by simp
    obtain sy2 st2 x2 where d: "dispatchEvent L ni e n (sy, st1, x) = Some (sy2, st2, x2)" "market_done L binv (sy, x) (sy2, x2)" "queue_kept st1 st2"
      by (rule dispatchEvent_ok [OF l3 Cons.prems(1,2) fit, of n ni st1 x]) (use f(1) in auto)
    let ?st3 = "st2\<lparr>ps_last_sequence_id := ev_sequence_id e, ps_last_seq_num := ev_seq_num e\<rparr>"
    have st3: "ps_pending_events ?st3 = events" "ps_last_event_time ?st3 = ps_last_event_time st" "ps_next_book_seq_num ?st3 = n"
      "ps_next_sequence_id ?st3 = ps_next_sequence_id st"
      using d(3) f(3) by (simp_all add: queue_kept_def)
    have "run_fits L ni force now events (sy2, ?st3, x2)" using Cons.prems(4) True n d(1) by simp
    from Cons.IH [OF market_doneD(1,2) [OF d(2)] st3(1) this]
    obtain sy' st' x' where r: "drain_events L ni force now events (sy2, ?st3, x2) = Some (sy', st', x')" "market_done L binv (sy2, x2) (sy', x')"
      "dispatch_list L ni (takeWhile (event_ready force now (ps_last_event_time st)) events) (sy2, ?st3, x2) = Some (sy', st', x')"
      "ps_pending_events st' = dropWhile (event_ready force now (ps_last_event_time st)) events" "ps_last_event_time st' = ps_last_event_time st"
      "ps_next_sequence_id st' = ps_next_sequence_id st"
      "n + length (takeWhile (event_ready force now (ps_last_event_time st)) events) \<le> ps_next_book_seq_num st'"
      unfolding st3 by blast
    have "drain_events L ni force now (e # events) (sy, st, x) = Some (sy', st', x')" using True n d(1) r(1) by simp
    moreover have "dispatch_one L ni e (sy, st, x) = Some (sy2, ?st3, x2)" using n d(1) Cons.prems(3) by (simp add: dispatch_one_def)
    then have "dispatch_list L ni (takeWhile (event_ready force now (ps_last_event_time st)) (e # events)) (sy, st, x) = Some (sy', st', x')"
      using True r(3) by simp
    moreover have "ps_next_book_seq_num st < n" using f(2) by simp
    ultimately show ?thesis using r market_done_trans [OF d(2) r(2)] True by (intro exI [of _ sy'] exI [of _ st'] exI [of _ x']) simp
  qed
qed

text \<open>The same along the walk over the instruments.\<close>

fun names_fit :: "'l l3_ops \<Rightarrow> nat \<Rightarrow> bool \<Rightarrow> time_ns \<Rightarrow> string list \<Rightarrow> 'l CoinbaseExchange \<Rightarrow> bool" where
  "names_fit L ni force now [] cb \<longleftrightarrow> True"
| "names_fit L ni force now (n # ns) cb \<longleftrightarrow>
     (case (getSymbol n (cb_base cb), cb_states cb n) of
        (Some sy, Some st) \<Rightarrow> run_fits L ni force now (ps_pending_events st) (sy, st, cb_base cb)
      | _ \<Rightarrow> True) \<and>
     (case process_symbol L ni force now n cb of None \<Rightarrow> True | Some cb' \<Rightarrow> names_fit L ni force now ns cb')"

lemma process_symbol_ok:
  assumes l3: "l3_book L binv" and ok: "listed_ok L binv (cb_base cb)" and get: "getSymbol n (cb_base cb) = Some sy" and st: "cb_states cb n = Some st"
    and fit: "run_fits L ni force now (ps_pending_events st) (sy, st, cb_base cb)"
  obtains cb' sy' st' where "process_symbol L ni force now n cb = Some cb'" "dispatch_symbol L ni force now n cb = Some cb'" "listed_ok L binv (cb_base cb')"
    "x_symbols (cb_base cb') = (x_symbols (cb_base cb))(n \<mapsto> sy')" "cb_states cb' = (cb_states cb)(n \<mapsto> st')"
    "ps_pending_events st' = dropWhile (event_ready force now (ps_last_event_time st)) (ps_pending_events st)"
    "ps_next_book_seq_num st + length (takeWhile (event_ready force now (ps_last_event_time st)) (ps_pending_events st)) \<le> ps_next_book_seq_num st'"
proof -
  note g = listed_get [OF ok get]
  obtain sy' st' x' where r: "drain_events L ni force now (ps_pending_events st) (sy, st, cb_base cb) = Some (sy', st', x')"
    "market_done L binv (sy, cb_base cb) (sy', x')"
    "dispatch_list L ni (takeWhile (event_ready force now (ps_last_event_time st)) (ps_pending_events st)) (sy, st, cb_base cb) = Some (sy', st', x')"
    "ps_pending_events st' = dropWhile (event_ready force now (ps_last_event_time st)) (ps_pending_events st)"
    "ps_next_book_seq_num st + length (takeWhile (event_ready force now (ps_last_event_time st)) (ps_pending_events st)) \<le> ps_next_book_seq_num st'"
    using drain_events_ok [OF l3 g(1,3) refl fit] by blast
  let ?cb = "cb\<lparr>cb_base := leave n (sy', x'), cb_states := (cb_states cb)(n \<mapsto> st')\<rparr>"
  have "process_symbol L ni force now n cb = Some ?cb" by (simp add: process_symbol_def get st r(1))
  moreover have "dispatch_symbol L ni force now n cb = Some ?cb" by (simp add: dispatch_symbol_def get st r(3))
  moreover have "x_symbols (cb_base ?cb) = (x_symbols (cb_base cb))(n \<mapsto> sy')" using market_doneD(3) [OF r(2)] by (simp add: x_frame_def)
  ultimately show thesis using that [of ?cb sy' st'] listed_leave [OF ok get r(2)] r(4,5) by simp
qed

lemma process_names_ok:
  assumes l3: "l3_book L binv"
  shows "distinct ns \<Longrightarrow> listed_ok L binv (cb_base cb) \<Longrightarrow> names_fit L ni force now ns cb \<Longrightarrow>
    \<exists>cb'. processSequencedEvents L ni force now ns cb = Some cb' \<and> dispatch_symbols L ni force now ns cb = Some cb' \<and>
      listed_ok L binv (cb_base cb') \<and>
      dom (x_symbols (cb_base cb')) = dom (x_symbols (cb_base cb)) \<and>
      (\<forall>n. n \<notin> set ns \<longrightarrow> x_symbols (cb_base cb') n = x_symbols (cb_base cb) n \<and> cb_states cb' n = cb_states cb n) \<and>
      (\<forall>n\<in>set ns. x_symbols (cb_base cb) n \<noteq> None \<longrightarrow> (\<forall>st. cb_states cb n = Some st \<longrightarrow> (\<exists>st'. cb_states cb' n = Some st' \<and>
         ps_pending_events st' = dropWhile (event_ready force now (ps_last_event_time st)) (ps_pending_events st) \<and>
         ps_next_book_seq_num st + length (takeWhile (event_ready force now (ps_last_event_time st)) (ps_pending_events st)) \<le> ps_next_book_seq_num st')))"
proof (induction ns arbitrary: cb)
  case (Cons n ns)
  show ?case
  proof (cases "x_symbols (cb_base cb) n = None \<or> cb_states cb n = None")
    case True
    then have p: "process_symbol L ni force now n cb = Some cb"
      by (cases "x_symbols (cb_base cb) n"; cases "cb_states cb n") (auto simp: process_symbol_def getSymbol_def)
    have p': "dispatch_symbol L ni force now n cb = Some cb"
      using True by (cases "x_symbols (cb_base cb) n"; cases "cb_states cb n") (auto simp: dispatch_symbol_def getSymbol_def)
    have "names_fit L ni force now ns cb" using Cons.prems(3) p by simp
    then obtain cb' where "processSequencedEvents L ni force now ns cb = Some cb'" using Cons by fastforce
    then show ?thesis using Cons.IH [of cb] Cons.prems \<open>names_fit L ni force now ns cb\<close> p p' True by auto
  next
    case False
    then obtain sy st where get: "getSymbol n (cb_base cb) = Some sy" "cb_states cb n = Some st" by (auto simp: getSymbol_def)
    have fit: "run_fits L ni force now (ps_pending_events st) (sy, st, cb_base cb)" using Cons.prems(3) get by simp
    obtain cb1 sy1 st1 where p: "process_symbol L ni force now n cb = Some cb1" and p': "dispatch_symbol L ni force now n cb = Some cb1"
      and q: "listed_ok L binv (cb_base cb1)"
      "x_symbols (cb_base cb1) = (x_symbols (cb_base cb))(n \<mapsto> sy1)" "cb_states cb1 = (cb_states cb)(n \<mapsto> st1)"
      "ps_pending_events st1 = dropWhile (event_ready force now (ps_last_event_time st)) (ps_pending_events st)"
      "ps_next_book_seq_num st + length (takeWhile (event_ready force now (ps_last_event_time st)) (ps_pending_events st)) \<le> ps_next_book_seq_num st1"
      by (rule process_symbol_ok [OF l3 Cons.prems(2) get fit])
    have "names_fit L ni force now ns cb1" using Cons.prems(3) p by simp
    from Cons.IH [OF _ q(1) this] Cons.prems(1) obtain cb' where r': "dispatch_symbols L ni force now ns cb1 = Some cb'"
      and r: "processSequencedEvents L ni force now ns cb1 = Some cb'"
      "listed_ok L binv (cb_base cb')" "dom (x_symbols (cb_base cb')) = dom (x_symbols (cb_base cb1))"
      "\<forall>m. m \<notin> set ns \<longrightarrow> x_symbols (cb_base cb') m = x_symbols (cb_base cb1) m \<and> cb_states cb' m = cb_states cb1 m"
      "\<forall>m\<in>set ns. x_symbols (cb_base cb1) m \<noteq> None \<longrightarrow> (\<forall>st. cb_states cb1 m = Some st \<longrightarrow> (\<exists>st'. cb_states cb' m = Some st' \<and>
         ps_pending_events st' = dropWhile (event_ready force now (ps_last_event_time st)) (ps_pending_events st) \<and>
         ps_next_book_seq_num st + length (takeWhile (event_ready force now (ps_last_event_time st)) (ps_pending_events st)) \<le> ps_next_book_seq_num st'))"
      by auto
    have new: "n \<notin> set ns" using Cons.prems(1) by simp
    have at_n: "cb_states cb' n = Some st1" using r(4) new q(3) by simp
    have step: "processSequencedEvents L ni force now (n # ns) cb = Some cb'" using p r(1) by simp
    have spec: "dispatch_symbols L ni force now (n # ns) cb = Some cb'" using p' r' by simp
    have dom: "dom (x_symbols (cb_base cb')) = dom (x_symbols (cb_base cb))" using r(3) q(2) False by auto
    have others: "x_symbols (cb_base cb') m = x_symbols (cb_base cb) m \<and> cb_states cb' m = cb_states cb m" if "m \<notin> set (n # ns)" for m
      using r(4) q(2,3) that by simp
    have drained: "\<exists>st'. cb_states cb' m = Some st' \<and>
         ps_pending_events st' = dropWhile (event_ready force now (ps_last_event_time s)) (ps_pending_events s) \<and>
         ps_next_book_seq_num s + length (takeWhile (event_ready force now (ps_last_event_time s)) (ps_pending_events s)) \<le> ps_next_book_seq_num st'"
      if m: "m \<in> set (n # ns)" "x_symbols (cb_base cb) m \<noteq> None" "cb_states cb m = Some s" for m s
    proof (cases "m = n")
      case True
      then show ?thesis using at_n q(4,5) m(3) get(2) by simp
    next
      case False
      then have "m \<in> set ns" "x_symbols (cb_base cb1) m \<noteq> None" "cb_states cb1 m = Some s" using m q(2,3) by simp_all
      then show ?thesis using r(5) by blast
    qed
    show ?thesis by (intro exI [of _ cb'] conjI allI ballI impI) (use step spec r(2) dom others drained in blast)+
  qed
qed simp


text \<open>
  C14. Draining the queues returns. \<open>processSequencedEvents\<close> goes through the instruments in any order,
  dispatches from each queue exactly the events before the first that is not ready, one after the other in the
  queue's order, each once and under a book sequence number of its own (\<open>dispatch_symbols\<close>: the exchange it
  returns is the result of just these calls of \<open>dispatchEvent\<close>), and leaves the rest queued; when it is forced it
  leaves nothing. Every instrument stays in good order, and the instruments it does not visit are as they were. The
  events it dispatches have a side, a price and a quantity that is not negative, and meet books within 64 bits.
\<close>

theorem coinbase_events_processed:
  assumes "l3_book L binv" and "listed_ok L binv (cb_base cb)" and "distinct names" and "names_fit L ni force now names cb"
  shows "\<exists>cb'. processSequencedEvents L ni force now names cb = Some cb' \<and>
    dispatch_symbols L ni force now names cb = Some cb' \<and> listed_ok L binv (cb_base cb') \<and>
    dom (x_symbols (cb_base cb')) = dom (x_symbols (cb_base cb)) \<and>
    (\<forall>n. n \<notin> set names \<longrightarrow> x_symbols (cb_base cb') n = x_symbols (cb_base cb) n \<and> cb_states cb' n = cb_states cb n) \<and>
    (\<forall>n\<in>set names. x_symbols (cb_base cb) n \<noteq> None \<longrightarrow> (\<forall>st. cb_states cb n = Some st \<longrightarrow> (\<exists>st'. cb_states cb' n = Some st' \<and>
       (let ready = event_ready force now (ps_last_event_time st); events = ps_pending_events st in
          ps_pending_events st' = dropWhile ready events \<and> (force \<longrightarrow> ps_pending_events st' = []) \<and>
          ps_next_book_seq_num st + length (takeWhile ready events) \<le> ps_next_book_seq_num st'))))"
proof -
  have "dropWhile (event_ready force now t) es = []" if force for t es using that by (simp add: event_ready_def)
  then show ?thesis using process_names_ok [OF assms(1,3,2,4)] unfolding Let_def by metis
qed

text \<open>A print of 2 sold at 99 is waiting when the client's buy of 5 rests at 100.\<close>

definition ex_print :: Event where
  "ex_print = \<lparr>ev_type = TRADE, ev_received_time = 7, ev_event_time = 5, ev_sequence_id = 0, ev_seq_num = 3, ev_price = 99, ev_qty = 2,
     ev_side = SELL, ev_flags = F_END\<rparr>"

definition ex_level :: "Side \<Rightarrow> price_t \<Rightarrow> qty_t \<Rightarrow> Event" where
  "ex_level s p q = ex_print\<lparr>ev_type := LEVEL_UPDATE, ev_side := s, ev_price := p, ev_qty := q\<rparr>"

definition ex_coinbase :: "ref_book CoinbaseExchange" where
  "ex_coinbase = \<lparr>cb_base = ex_exchange, cb_states = [''BTC'' \<mapsto> new_event_state\<lparr>ps_pending_events := [ex_print], ps_last_event_time := 5\<rparr>],
     cb_pending_l2 = {''BTC''}, cb_pending_trades = {}, cb_use_live_feed = True, cb_md_feeds = [], cb_map_symbol_feed = [],
     cb_num_subscriptions = (\<lambda>_. 0)\<rparr>"

abbreviation ex_work :: "ref_book Symbol" where
  "ex_work \<equiv> load ex_exchange (ex_symbol FifoMatchingEngine)"

lemma ex_work_ok: "symbol_ok rf_ops rf_inv {} ex_work" "history_ok (sy_trade_history ex_work)"
  using getSymbol_ok [OF ex_exchange_ok ex_getSymbol(1)] by simp_all

lemma ex_event_fits:
  "event_fits rf_ops ex_print ex_work" "event_fits rf_ops (ex_level BUY 100 4) ex_work"
  by (simp_all add: event_fits_def ex_print_def ex_level_def real_side_def NULL_PRICE_def ex_resting ex_engine_sel fits_def)

theorem coinbase_events_processed_witness:
  "\<exists>cb'. processSequencedEvents rf_ops 0 True 8 [''BTC''] ex_coinbase = Some cb' \<and>
     (\<exists>st'. cb_states cb' ''BTC'' = Some st' \<and> ps_pending_events st' = [] \<and> 0 < ps_next_book_seq_num st')"
proof -
  have "names_fit rf_ops 0 True 8 [''BTC''] ex_coinbase"
    using ex_event_fits(1) by (simp add: ex_coinbase_def ex_getSymbol new_event_state_def split: option.splits prod.splits)
  moreover have "listed_ok rf_ops rf_inv (cb_base ex_coinbase)" using exchange_ok_listed [OF ex_exchange_ok] by (simp add: ex_coinbase_def)
  ultimately show ?thesis
    using coinbase_events_processed [OF ref.l3_book_axioms, of ex_coinbase "[''BTC'']" 0 True 8]
    by (fastforce simp: ex_coinbase_def Let_def event_ready_def)
qed

section \<open>Level updates\<close>


text \<open>The venue shows 4 at the price of the client's buy.\<close>

lemma ex_work_time: "ob_last_update_time ex_work = 0"
proof -
  have "ob_last_update_time ex_book = 0" by (simp add: ex_book_def new_book_def allocateOrder_def nextOrderId_def)
  then have "ob_last_update_time ex_engine = 0"
    using near_frameD(6) [OF near_frame_ops(1) [of ex_book rf_ops 7 4 0 True]] by (simp add: ex_engine_def new_engine_def OrderBook.defs)
  then show ?thesis by (simp add: load_def ex_symbol_def new_symbol_def Engine.defs Symbol.defs)
qed

lemma ex_work_level: "l3_level_at rf_ops (ob_l3 ex_work) BUY 100 \<noteq> None"
proof -
  have "rf_queue (ob_l3 ex_work) BUY = [\<lparr>en_price = 100, en_id = 1, en_qty = 5, en_prio = 1\<rparr>]"
    using ex_rf_queue [of BUY] ex_engine_sel(3) by (simp add: ex_symbol_def)
  then show ?thesis by (simp add: rf_ops_def push_entry_def level_of_def del: rf_queue.simps)
qed


end
