(* ===== verification/Coinbase_Snapshot.thy ===== *)
theory Coinbase_Snapshot
  imports Coinbase_Properties
begin

text \<open>
  A level 2 snapshot on the Coinbase exchange: the venue's part of the book is replaced while the
  simulator's own orders stay. The result refines a description over queues of entries alone.
\<close>

section \<open>Clearing the venue's part\<close>

lemma same_frame_readd: "same_frame b (readd L b x)"
  by (cases x) (simp add: readd_def base_addOrder_def same_frame_apply)

lemma same_frame_clear: "same_frame b (clearMDOrders L ids b)"
proof -
  have "same_frame c (foldl (readd L) c xs)" for c xs
  proof (induction xs arbitrary: c)
    case (Cons x xs)
    then show ?case using same_frame_trans [OF same_frame_readd] by fastforce
  qed (simp add: same_frame_def)
  then have "same_frame (b\<lparr>ob_l3 := l3_clear L (ob_l3 b), ob_md_qty := Map.empty\<rparr>) (clearMDOrders L ids b)" by (simp add: clearMDOrders_def Let_def)
  then show ?thesis by (simp add: same_frame_def book_frame_def)
qed

lemma clear_symbol_ok:
  fixes sy :: "'l Symbol"
  assumes l3: "l3_book L binv" and ok: "symbol_ok L binv {} sy" and hist: "history_ok (sy_trade_history sy)"
    and ids: "distinct ids" "set ids = dom (ob_orders sy)"
  shows "symbol_ok L binv {} (clearMDOrders L ids sy)" "market_done L binv (sy, x) (clearMDOrders L ids sy, x)"
    "sy_engine (clearMDOrders L ids sy) = sy_engine sy" "ob_next_order_id (clearMDOrders L ids sy) = ob_next_order_id sy"
    "ob_next_priority (clearMDOrders L ids sy) = ob_next_priority sy"
proof -
  let ?sy = "clearMDOrders L ids sy"
  note c = l3_book.clearMDOrders_ok [OF l3 symbol_okD(1) [OF ok] ids] and f = same_frame_clear [of sy L ids]
  have e: "sy_engine ?sy = sy_engine sy" using near_frame_symbol [OF near_frameI, of sy ?sy] f by (simp add: same_frame_def)
  have n: "ob_next_order_id ?sy = ob_next_order_id sy" "ob_next_priority ?sy = ob_next_priority sy" using f by (simp_all add: same_frame_def book_frame_def)
  have sub: "set (queue L ?sy s) \<subseteq> set (queue L sy s)" if "real_side s" for s
    using c(5) [OF that] obinv_linked [OF symbol_okD(1) [OF ok]] by (auto simp: our_entries_def linked_def)
  have "drawn L ?sy" using symbol_okD(4) [OF ok] sub by (auto simp: drawn_def n subset_iff)
  moreover have "uncrossed L ?sy" using symbol_okD(5) [OF ok] sub [of BUY] sub [of SELL] by (auto simp: uncrossed_def real_side_def)
  ultimately show s: "symbol_ok L binv {} ?sy" using ok c(1,2,4) e by (simp add: symbol_ok_def pool_exact_def)
  show "market_done L binv (sy, x) (?sy, x)" using feed_frame_same [OF f] s hist by (simp add: market_done_def feed_frame_def)
qed (use same_frame_clear [of sy L ids] near_frame_symbol [OF near_frameI, of sy "clearMDOrders L ids sy"] in \<open>simp_all add: same_frame_def book_frame_def\<close>)

section \<open>The snapshot on queues\<close>

definition sides :: "'l l3_ops \<Rightarrow> ('l, 'z) book \<Rightarrow> Side \<Rightarrow> entry list" where
  "sides L b s = (if real_side s then queue L b s else [])"

text \<open>
  A level of the venue takes what it crosses and rests with what is left, under the next number and
  the next priority.
\<close>

fun absorb :: "engine_obj \<Rightarrow> feed_update \<Rightarrow> (Side \<Rightarrow> entry list) \<times> nat \<times> nat \<Rightarrow> (Side \<Rightarrow> entry list) \<times> nat \<times> nat" where
  "absorb eng u (qs, i, p) =
     (let s = fu_side u in
      case engine_spec eng (crosses (opposite_side s) (fu_price u)) (\<lambda>_. False) (fu_qty u) (qs (opposite_side s)) of
        (fs, cs, es', q') \<Rightarrow>
          (qs(opposite_side s := es', s := (if 0 < q' then
             insert_entry s \<lparr>en_price = fu_price u, en_id = i, en_qty = q', en_prio = p + 1\<rparr> (qs s) else qs s)),
           i + 1, if 0 < q' then p + 1 else p))"

text \<open>Each level is one a venue can send, and meets a book within 64 bits.\<close>

fun levels_fit :: "engine_obj \<Rightarrow> feed_update list \<Rightarrow> (Side \<Rightarrow> entry list) \<times> nat \<times> nat \<Rightarrow> bool" where
  "levels_fit eng [] a \<longleftrightarrow> True"
| "levels_fit eng (u # us) a \<longleftrightarrow>
     real_side (fu_side u) \<and> 0 \<le> fu_qty u \<and> fu_price u \<noteq> NULL_PRICE \<and> fits (fst a (opposite_side (fu_side u))) \<and>
     levels_fit eng us (absorb eng u a)"

abbreviation snap :: "'l l3_ops \<Rightarrow> 'l Symbol \<Rightarrow> (Side \<Rightarrow> entry list) \<times> nat \<times> nat" where
  "snap L sy \<equiv> (sides L sy, ob_next_order_id sy, ob_next_priority sy)"

lemma sides_eqI:
  assumes "real_side s" and "queue L b' (opposite_side s) = es" and "queue L b' s = es'"
  shows "sides L b' = (sides L b)(opposite_side s := es, s := es')"
  using assms by (auto simp: fun_eq_iff sides_def real_side_def)

lemma snapshot_walk_ok:
  fixes sy :: "'l Symbol"
  assumes l3: "l3_book L binv"
  shows "symbol_ok L binv {} sy \<Longrightarrow> history_ok (sy_trade_history sy) \<Longrightarrow> levels_fit (sy_engine sy) us (snap L sy) \<Longrightarrow>
    n = 0 \<or> l3_last_seq L (ob_l3 sy) \<le> n \<Longrightarrow>
    \<exists>sy' x'. snapshot_walk L seq_num n us (sy, x) = Some (sy', x') \<and> market_done L binv (sy, x) (sy', x') \<and>
      snap L sy' = foldl (\<lambda>a u. absorb (sy_engine sy) u a) (snap L sy) us"
proof (induction us arbitrary: sy x)
  case Nil
  then show ?case using market_done_refl [of L binv sy x] by (intro exI [of _ sy] exI [of _ x]) simp
next
  case (Cons u us)
  let ?s = "fu_side u"
  have u: "real_side ?s" "0 \<le> fu_qty u" "fu_price u \<noteq> NULL_PRICE" "fits (queue L sy (opposite_side ?s))"
    using Cons.prems(3) by (auto simp: sides_def real_side_def)
  obtain fs cs es' q' where sp: "engine_spec (sy_engine sy) (crosses (opposite_side ?s) (fu_price u)) (\<lambda>_. False) (fu_qty u)
      (queue L sy (opposite_side ?s)) = (fs, cs, es', q')" by (metis prod_cases4)
  let ?own = "if 0 < q' then insert_entry ?s \<lparr>en_price = fu_price u, en_id = ob_next_order_id sy, en_qty = q', en_prio = ob_next_priority sy + 1\<rparr> (queue L sy ?s)
    else queue L sy ?s"
  obtain sms sy1 where m: "match_and_rest L ?s (fu_price u) (fu_qty u) (fu_event_time u) n (us = []) sy = Some (sms, q', sy1)"
    "symbol_ok L binv {} sy1" "sy_trade_history sy1 = sy_trade_history sy" "ob_symbol sy1 = ob_symbol sy"
    "ob_next_order_id sy1 = ob_next_order_id sy + 1" "ob_next_priority sy1 = (if 0 < q' then ob_next_priority sy + 1 else ob_next_priority sy)"
    "queue L sy1 (opposite_side ?s) = es'" "queue L sy1 ?s = ?own" "sy_engine sy1 = sy_engine sy" "n = 0 \<or> l3_last_seq L (ob_l3 sy1) \<le> n"
    by (rule match_and_rest_ok [OF l3 Cons.prems(1) u Cons.prems(4) sp]) blast
  note d1 = match_done [OF m(2-6) Cons.prems(2), of x]
  obtain sy2 x2 where p: "foldl publishTradeSummary (sy1, x) sms = (sy2, x2)" by fastforce
  note d2 = publish_done [OF market_doneD(1,2) [OF d1] p]
  define sy3 where "sy3 = (if fu_event_time u > ob_last_update_time sy2 then setLastUpdate (fu_event_time u) seq_num sy2 else sy2)"
  have d3: "market_done L binv (sy2, x2) (sy3, x2)"
    using market_doneD(1,2) [OF d2(1)] by (simp add: sy3_def market_done_def setLastUpdate_def noted_ok(1))
  have l3s: "ob_l3 sy3 = ob_l3 sy1" "sy_engine sy3 = sy_engine sy" "ob_next_order_id sy3 = ob_next_order_id sy1" "ob_next_priority sy3 = ob_next_priority sy1"
    using but_historyD(4,5,12,13) [OF d2(2)] m(9) by (simp_all add: sy3_def setLastUpdate_def)
  have q3: "queue L sy3 s = queue L sy1 s" for s by (simp add: queue_def l3s)
  have so: "real_side (opposite_side ?s)" using u(1) by (auto simp: real_side_def)
  have a: "snap L sy3 = absorb (sy_engine sy) u (snap L sy)"
    using sides_eqI [OF u(1), of L sy3 es' ?own sy] m(5-8) u(1) so sp by (simp add: q3 l3s(3,4) Let_def) (simp add: sides_def)
  have "levels_fit (sy_engine sy3) us (snap L sy3)" using Cons.prems(3) unfolding a l3s(2) by simp
  from Cons.IH [OF market_doneD(1,2) [OF d3] this, of x2] m(10)
  obtain sy' x' where r: "snapshot_walk L seq_num n us (sy3, x2) = Some (sy', x')" "market_done L binv (sy3, x2) (sy', x')"
    "snap L sy' = foldl (\<lambda>a u. absorb (sy_engine sy) u a) (snap L sy3) us"
    unfolding l3s(1,2) by blast
  have "snapshot_walk L seq_num n (u # us) (sy, x) = Some (sy', x')" using r(1) by (simp add: m(1) p sy3_def)
  moreover note market_done_trans [OF market_done_trans [OF market_done_trans [OF d1 d2(1)] d3] r(2)]
  ultimately show ?case using r(3) unfolding a by auto
qed

text \<open>
  C16. A snapshot replaces the venue's part of the book. A snapshot with at least one level returns; the book restarts
  from what \<open>clearMDOrders\<close> leaves of it and takes in the venue's levels from the last listed to the first, each
  trading with the orders it crosses and resting with what is left. Queued events and unsent rows of the
  product are dropped, a subscription that waited for the snapshot is answered with the new book and no
  longer waits, otherwise the new book goes out as a snapshot, and no cached update is left behind. Every level has a
  side, a price and a quantity that is not negative, and meets a book within 64 bits. What \<open>clearMDOrders\<close> leaves,
  the simulator's own orders, is stated apart in \<open>snapshot_keeps_own_orders\<close>: order-book.md (line 106) still says
  that the callback calls \<open>clear()\<close> and discards them, against the code, its comment, its test and market-data.md.
\<close>

theorem coinbase_snapshot_replaces:
  assumes "l3_book L binv" and "listed_ok L binv (cb_base cb)" and "getSymbol n (cb_base cb) = Some sy" and "distinct ids" and "set ids = dom (ob_orders sy)"
    and "levels_fit (sy_engine sy) (rev updates) (sides L (clearMDOrders L ids sy), ob_next_order_id sy, ob_next_priority sy)"
    and "updates \<noteq> []"
  shows "\<exists>cb' sy' frames. onLevel2Snapshot L ch ids seq_num n updates cb = Some cb' \<and> listed_ok L binv (cb_base cb') \<and>
    x_symbols (cb_base cb') = (x_symbols (cb_base cb))(n \<mapsto> sy') \<and> ob_level_cache sy' = [] \<and> ob_order_cache sy' = [] \<and>
    (sides L sy', ob_next_order_id sy', ob_next_priority sy') =
      foldl (\<lambda>a u. absorb (sy_engine sy) u a) (sides L (clearMDOrders L ids sy), ob_next_order_id sy, ob_next_priority sy) (rev updates) \<and>
    cb_pending_l2 cb' = cb_pending_l2 cb - {n} \<and>
    (\<exists>st'. cb_states cb' n = Some st' \<and> ps_pending_events st' = [] \<and> ps_level_update_buffer st' = []) \<and>
    x_md_queue (cb_base cb') = frames @ [\<lparr>md_symbol = n, md_venue = x_venue (cb_base cb'),
      md_type = (if n \<in> cb_pending_l2 cb then MD_SUB_RESPONSE else MD_BOOK_SNAPSHOT),
      md_body = (if n \<in> cb_pending_l2 cb then SubSnapshotBody (ch_level2 ch) else SnapshotBody) (populateL2Snapshot L sy')\<rparr>]"
proof -
  note g = listed_get [OF assms(2,3)]
  let ?x = "cb_base cb"
  define sy1 where "sy1 = clearMDOrders L ids sy"
  define st1 where "st1 = (state_of n cb)\<lparr>ps_pending_events := [], ps_level_update_buffer := [], ps_last_published_level_seq_num := 0\<rparr>"
  note c = clear_symbol_ok [OF assms(1) g(1,3) assms(4,5), folded sy1_def]
  obtain bs st2 where b: "nextBookSeqNum L sy1 st1 = (bs, st2)" by fastforce
  note f = nextBookSeqNum_fresh [OF b]
  have fit: "levels_fit (sy_engine sy1) (rev updates) (snap L sy1)" using assms(6) c(3-5) by (simp add: sy1_def)
  obtain sy2 x2 where r: "snapshot_loop L seq_num bs (rev updates) (sy1, ?x) = Some (sy2, x2)" "market_done L binv (sy1, ?x) (sy2, x2)"
    "snap L sy2 = foldl (\<lambda>a u. absorb (sy_engine sy1) u a) (snap L sy1) (rev updates)"
    using snapshot_walk_ok [OF assms(1) c(1) market_doneD(2) [OF c(2)] fit, of bs seq_num ?x] f(1) assms(7) by (auto simp: snapshot_loop_def)
  let ?sy3 = "sy2\<lparr>ob_level_cache := [], ob_order_cache := []\<rparr>"
  define x3 where "x3 = (if n \<in> cb_pending_l2 cb then populateL2SubscriptionResponse L (ch_level2 ch) sy2 x2 else pushL2Snapshot L sy2 x2)"
  have "market_done L binv (sy2, x2) (?sy3, x3)"
    using market_doneD(1,2) [OF r(2)]
    by (simp add: market_done_def noted_ok(3) x3_def x_frame_def populateL2SubscriptionResponse_def pushL2Snapshot_def md_push_def)
  note md = market_done_trans [OF c(2) market_done_trans [OF r(2) this]]
  let ?cb = "cb\<lparr>cb_base := leave n (?sy3, x3), cb_states := (cb_states cb)(n \<mapsto> st2), cb_pending_l2 := cb_pending_l2 cb - {n}\<rparr>"
  have run: "onLevel2Snapshot L ch ids seq_num n updates cb = Some ?cb"
    by (simp add: onLevel2Snapshot_def assms(3) sy1_def [symmetric] st1_def [symmetric] b r(1) x3_def Let_def)
  have same: "sides L ?sy3 = sides L sy2" "populateL2Snapshot L ?sy3 = populateL2Snapshot L sy2" "ob_symbol sy2 = n"
    using market_doneD(4) [OF md] g(2) by (auto simp: sides_def queue_def populateL2Snapshot_def)
  have sent: "x_md_queue (leave n (?sy3, x3)) = x_md_queue x2 @ [\<lparr>md_symbol = n, md_venue = x_venue (leave n (?sy3, x3)),
      md_type = (if n \<in> cb_pending_l2 cb then MD_SUB_RESPONSE else MD_BOOK_SNAPSHOT),
      md_body = (if n \<in> cb_pending_l2 cb then SubSnapshotBody (ch_level2 ch) else SnapshotBody) (populateL2Snapshot L sy2)\<rparr>]"
    by (simp add: x3_def same(3) populateL2SubscriptionResponse_def pushL2Snapshot_def md_push_def leave_def)
  have tab: "x_symbols (leave n (?sy3, x3)) = (x_symbols ?x)(n \<mapsto> ?sy3)" using market_doneD(3) [OF md] by (simp add: x_frame_def)
  have st2: "ps_pending_events st2 = []" "ps_level_update_buffer st2 = []" using f(3) by (simp_all add: st1_def)
  show ?thesis
    by (rule exI [of _ ?cb], rule exI [of _ ?sy3], rule exI [of _ "x_md_queue x2"])
      (use run same sent tab st2 r(3) listed_leave [OF assms(2,3) md] c(3-5) in \<open>simp add: sy1_def [symmetric]\<close>)
qed

text \<open>
  The book restarts from exactly the simulator's own resting orders, each at its price, size and priority, as
  market-data.md and the unit test say; order-book.md says that they are discarded.
\<close>

theorem snapshot_keeps_own_orders:
  assumes "l3_book L binv" and "listed_ok L binv (cb_base cb)" and "getSymbol n (cb_base cb) = Some sy" and "distinct ids" and "set ids = dom (ob_orders sy)"
    and "real_side s"
  shows "set (sides L (clearMDOrders L ids sy) s) = our_entries sy s"
  using l3_book.clearMDOrders_ok(5) [OF assms(1) symbol_okD(1) [OF listed_get(1) [OF assms(2,3)]] assms(4-6)] assms(6) by (simp add: sides_def)

text \<open>A snapshot without levels has no defined outcome.\<close>

theorem empty_snapshot_undefined:
  assumes "getSymbol n (cb_base cb) = Some sy"
  shows "onLevel2Snapshot L ch ids seq_num n [] cb = None"
  by (simp add: onLevel2Snapshot_def assms snapshot_loop_def Let_def split: prod.splits)

text \<open>A snapshot of one level, 2 offered at 99: it takes 2 of the client's 5 at 100.\<close>

definition ex_offer :: feed_update where
  "ex_offer = \<lparr>fu_event_time = 5, fu_price = 99, fu_qty = 2, fu_side = SELL\<rparr>"

lemma singleton_list: "distinct (map f xs) \<Longrightarrow> set xs = {e} \<Longrightarrow> xs = [e]"
  by (cases xs rule: remdups_adj.cases) (auto simp: insert_eq_iff)

lemma ex_cleared:
  "sides rf_ops (clearMDOrders rf_ops [1] ex_work) = (\<lambda>s. if s = BUY then [\<lparr>en_price = 100, en_id = 1, en_qty = 5, en_prio = 1\<rparr>] else [])"
proof -
  let ?b = "clearMDOrders rf_ops [1] ex_work"
  have "distinct [1::order_num]" "set [1] = dom (ob_orders ex_work)" by (simp_all add: ex_resting)
  note c = l3_book.clearMDOrders_ok [OF ref.l3_book_axioms symbol_okD(1) [OF ex_work_ok(1)] this]
  have d: "distinct (map en_id (queue rf_ops ?b BUY))" "distinct (map en_id (queue rf_ops ?b SELL))"
    using ref.ids_distinct [OF obinv_binv [OF c(1)]] by (simp_all add: queue_def)
  have e: "our_entries ex_work BUY = {\<lparr>en_price = 100, en_id = 1, en_qty = 5, en_prio = 1\<rparr>}" "our_entries ex_work SELL = {}"
    using obinv_linked [OF symbol_okD(1) [OF ex_work_ok(1)], of 1 7]
    by (auto simp: our_entries_def ex_resting entry_for_def linked_def ex_engine_sel)
  have "queue rf_ops ?b BUY = [\<lparr>en_price = 100, en_id = 1, en_qty = 5, en_prio = 1\<rparr>]" "queue rf_ops ?b SELL = []"
    using singleton_list [OF d(1), of "\<lparr>en_price = 100, en_id = 1, en_qty = 5, en_prio = 1\<rparr>"] c(5) [of BUY] c(5) [of SELL] e by (simp_all add: real_side_def)
  then show ?thesis by (auto simp: fun_eq_iff sides_def real_side_def)
qed

theorem coinbase_snapshot_replaces_witness:
  "\<exists>cb' sy'. onLevel2Snapshot rf_ops \<lparr>ch_level2 = 1, ch_market_trades = 2, ch_heartbeats = 3\<rparr> [1] 9 ''BTC'' [ex_offer] ex_coinbase = Some cb' \<and>
     x_symbols (cb_base cb') ''BTC'' = Some sy' \<and> queue rf_ops sy' BUY = [\<lparr>en_price = 100, en_id = 1, en_qty = 3, en_prio = 1\<rparr>] \<and>
     queue rf_ops sy' SELL = [] \<and> cb_pending_l2 cb' = {} \<and> md_type (last (x_md_queue (cb_base cb'))) = MD_SUB_RESPONSE"
proof -
  let ?ch = "\<lparr>ch_level2 = 1, ch_market_trades = 2, ch_heartbeats = 3\<rparr>" and ?start = "(sides rf_ops (clearMDOrders rf_ops [1] ex_work), ob_next_order_id ex_work, ob_next_priority ex_work)"
  have ok: "listed_ok rf_ops rf_inv (cb_base ex_coinbase)" using exchange_ok_listed [OF ex_exchange_ok] by (simp add: ex_coinbase_def)
  have get: "getSymbol ''BTC'' (cb_base ex_coinbase) = Some ex_work" by (simp add: ex_coinbase_def ex_getSymbol)
  have ids: "distinct [1::order_num]" "set [1] = dom (ob_orders ex_work)" by (simp_all add: ex_resting)
  have fit: "levels_fit (sy_engine ex_work) (rev [ex_offer]) ?start"
    unfolding ex_cleared by (simp add: ex_offer_def real_side_def NULL_PRICE_def fits_def)
  have fin: "foldl (\<lambda>a u. absorb (sy_engine ex_work) u a) ?start (rev [ex_offer]) =
      ((\<lambda>s. if s = BUY then [\<lparr>en_price = 100, en_id = 1, en_qty = 3, en_prio = 1\<rparr>] else []), 3, 1)"
    unfolding ex_cleared by (simp add: ex_offer_def ex_resting crosses_def isPriceBetterOrEqual_def fun_eq_iff)
  obtain cb' sy' frames where r: "onLevel2Snapshot rf_ops ?ch [1] 9 ''BTC'' [ex_offer] ex_coinbase = Some cb'"
    "x_symbols (cb_base cb') = (x_symbols (cb_base ex_coinbase))(''BTC'' \<mapsto> sy')"
    "(sides rf_ops sy', ob_next_order_id sy', ob_next_priority sy') = ((\<lambda>s. if s = BUY then [\<lparr>en_price = 100, en_id = 1, en_qty = 3, en_prio = 1\<rparr>] else []), 3, 1)"
    "cb_pending_l2 cb' = cb_pending_l2 ex_coinbase - {''BTC''}"
    "x_md_queue (cb_base cb') = frames @ [\<lparr>md_symbol = ''BTC'', md_venue = x_venue (cb_base cb'),
      md_type = (if ''BTC'' \<in> cb_pending_l2 ex_coinbase then MD_SUB_RESPONSE else MD_BOOK_SNAPSHOT),
      md_body = (if ''BTC'' \<in> cb_pending_l2 ex_coinbase then SubSnapshotBody (ch_level2 ?ch) else SnapshotBody) (populateL2Snapshot rf_ops sy')\<rparr>]"
    using coinbase_snapshot_replaces [OF ref.l3_book_axioms ok get ids fit list.distinct(2), of ?ch 9] unfolding fin
    by (elim exE conjE) (rule that, assumption+)
  have "sides rf_ops sy' BUY = queue rf_ops sy' BUY" "sides rf_ops sy' SELL = queue rf_ops sy' SELL" by (simp_all add: sides_def real_side_def)
  then have "queue rf_ops sy' BUY = [\<lparr>en_price = 100, en_id = 1, en_qty = 3, en_prio = 1\<rparr>]" "queue rf_ops sy' SELL = []" using r(3) by simp_all
  then show ?thesis using r(1,2,4,5) by (simp add: ex_coinbase_def)
qed

end
