(* ===== verification/Multicast_Feed.thy ===== *)
theory Multicast_Feed
  imports Sim_Prelude "HOL-Library.Sublist"
begin

text \<open>
  \<open>src/src/md_feed/multicast_packet_feed.hpp\<close>: the transport half of a live multicast feed. Packets
  of all lines go through one queue; group membership is a state machine per line, kept in 32-bit
  masks. The queue, \<open>slick::queue\<close>, is fixed and lossy: it is the list of the slots ever reserved, each with
  a mark once it is published, the exchange thread's cursor and the count of the bytes lost. Which
  slots have been overwritten by the time of a read is an argument, \<open>lap\<close>: where the reader at a
  cursor goes on, given the sizes of the slots reserved so far. Receivers run on threads of their own: a delivery is the three
  steps that other threads can come between. The answer of the socket to a membership change is an argument. A line out of range, which the code
  asserts against and which it could not shift by, is \<open>None\<close>.
\<close>

unbundle bit_operations_syntax

section \<open>State\<close>

definition MAX_LINES :: nat where
  "MAX_LINES = 32"

definition MEMBERSHIP_RETRY_NS :: nat where
  "MEMBERSHIP_RETRY_NS = 100000000"

record MulticastPacketFeed =
  pf_packets :: "(bool \<times> nat \<times> 8 word list) list"
  pf_cursor :: nat
  pf_loss_count :: nat
  pf_queue_size :: nat
  pf_max_packets_per_poll :: nat
  pf_muted :: "32 word"
  pf_oversized :: nat
  pf_wanted_left :: "32 word"
  pf_left :: "32 word"
  pf_failing :: "32 word"
  pf_retry_at_ns :: "nat \<Rightarrow> nat"
  pf_started :: bool
  pf_by_line :: "nat set"

datatype feed_error = MaxPacketsPerPollZero

definition new_feed :: "nat \<Rightarrow> nat \<Rightarrow> feed_error + MulticastPacketFeed" where
  "new_feed queue_size max_packets_per_poll =
     (if max_packets_per_poll = 0 then Inl MaxPacketsPerPollZero
      else Inr \<lparr>pf_packets = [], pf_cursor = 0, pf_loss_count = 0, pf_queue_size = queue_size, pf_max_packets_per_poll = max_packets_per_poll,
        pf_muted = 0, pf_oversized = 0, pf_wanted_left = 0, pf_left = 0, pf_failing = 0, pf_retry_at_ns = (\<lambda>_. 0),
        pf_started = False, pf_by_line = {}\<rparr>)"

section \<open>Operations\<close>

text \<open>
  \<open>has_group\<close> says whether the configuration names a group for the line's key; \<open>asserts\<close>, whether the program was
  built with its assertions: then a line added after the start ends it.
\<close>

definition add_line :: "bool \<Rightarrow> bool \<Rightarrow> nat \<Rightarrow> MulticastPacketFeed \<Rightarrow> (bool \<times> MulticastPacketFeed) option" where
  "add_line asserts has_group line f =
     (if asserts \<and> pf_started f then None
      else Some (if \<not> has_group \<or> line \<ge> MAX_LINES then (False, f) else (True, f\<lparr>pf_by_line := insert line (pf_by_line f)\<rparr>)))"

definition feed_start :: "MulticastPacketFeed \<Rightarrow> MulticastPacketFeed" where
  "feed_start f = f\<lparr>pf_started := True, pf_left := 0, pf_failing := 0, pf_retry_at_ns := (\<lambda>_. 0)\<rparr>"

definition feed_stop :: "MulticastPacketFeed \<Rightarrow> MulticastPacketFeed" where
  "feed_stop f = f\<lparr>pf_started := False\<rparr>"

definition line_bit :: "nat \<Rightarrow> 32 word" where
  "line_bit line = push_bit line 1"

text \<open>
  A delivery, step by step: the mask is read and the size compared with the queue's; a slot is reserved, and
  filled by this thread alone; the slot is published.
\<close>

definition deliver_admit :: "nat \<Rightarrow> 8 word list \<Rightarrow> MulticastPacketFeed \<Rightarrow> (bool \<times> MulticastPacketFeed) option" where
  "deliver_admit line data f =
     (if line \<ge> MAX_LINES then None
      else if pf_muted f AND line_bit line \<noteq> 0 then Some (False, f)
      else if length data + 1 > pf_queue_size f then Some (False, f\<lparr>pf_oversized := pf_oversized f + 1\<rparr>)
      else Some (True, f))"

definition deliver_reserve :: "nat \<Rightarrow> 8 word list \<Rightarrow> MulticastPacketFeed \<Rightarrow> nat \<times> MulticastPacketFeed" where
  "deliver_reserve line data f = (length (pf_packets f), f\<lparr>pf_packets := pf_packets f @ [(False, line, data)]\<rparr>)"

definition deliver_publish :: "nat \<Rightarrow> MulticastPacketFeed \<Rightarrow> MulticastPacketFeed" where
  "deliver_publish index f = f\<lparr>pf_packets := (pf_packets f)[index := (True, snd (pf_packets f ! index))]\<rparr>"

text \<open>The whole call, when no other thread comes between.\<close>

definition deliver :: "nat \<Rightarrow> 8 word list \<Rightarrow> MulticastPacketFeed \<Rightarrow> (bool \<times> MulticastPacketFeed) option" where
  "deliver line data f = (case deliver_admit line data f of
      None \<Rightarrow> None
    | Some (False, f1) \<Rightarrow> Some (False, f1)
    | Some (True, f1) \<Rightarrow> (case deliver_reserve line data f1 of (index, f2) \<Rightarrow> Some (True, deliver_publish index f2)))"

definition mute_bits :: "nat \<Rightarrow> bool \<Rightarrow> MulticastPacketFeed \<Rightarrow> MulticastPacketFeed" where
  "mute_bits line muted f =
     (if muted then f\<lparr>pf_muted := pf_muted f OR line_bit line\<rparr> else f\<lparr>pf_muted := pf_muted f AND NOT (line_bit line)\<rparr>)"

definition mute :: "nat \<Rightarrow> bool \<Rightarrow> MulticastPacketFeed \<Rightarrow> MulticastPacketFeed option" where
  "mute line muted f = (if line \<ge> MAX_LINES then None else Some (mute_bits line muted f))"

text \<open>0, or the socket's error; a line with no receiver has nothing to change.\<close>

definition change_membership :: "int \<Rightarrow> nat \<Rightarrow> MulticastPacketFeed \<Rightarrow> int" where
  "change_membership socket_error line f = (if line \<in> pf_by_line f then socket_error else 0)"

text \<open>The call past its assertion. The first component says whether the membership was tried.\<close>

definition apply_joined :: "nat \<Rightarrow> bool \<Rightarrow> nat \<Rightarrow> int \<Rightarrow> MulticastPacketFeed \<Rightarrow> bool \<times> MulticastPacketFeed" where
  "apply_joined line joined now_ns socket_error f =
     (let bt = line_bit line;
          want_left = (if joined then 0 else bt);
          f1 = (if pf_wanted_left f AND bt \<noteq> want_left
                then (mute_bits line (\<not> joined) (f\<lparr>pf_wanted_left := pf_wanted_left f XOR bt\<rparr>))\<lparr>
                       pf_failing := pf_failing f AND NOT bt, pf_retry_at_ns := (pf_retry_at_ns f)(line := 0)\<rparr>
                else f)
      in if pf_left f1 AND bt = want_left \<or> now_ns < pf_retry_at_ns f1 line then (False, f1)
         else if change_membership socket_error line f1 \<noteq> 0
              then (True, f1\<lparr>pf_retry_at_ns := (pf_retry_at_ns f1)(line := (now_ns + MEMBERSHIP_RETRY_NS) mod 2 ^ 64),
                             pf_failing := (if pf_failing f1 AND bt = 0 then pf_failing f1 OR bt else pf_failing f1)\<rparr>)
              else (True, f1\<lparr>pf_left := pf_left f1 XOR bt, pf_failing := pf_failing f1 AND NOT bt\<rparr>))"

definition set_joined :: "nat \<Rightarrow> bool \<Rightarrow> nat \<Rightarrow> int \<Rightarrow> MulticastPacketFeed \<Rightarrow> (bool \<times> MulticastPacketFeed) option" where
  "set_joined line joined now_ns socket_error f =
     (if line \<ge> MAX_LINES then None else Some (apply_joined line joined now_ns socket_error f))"

text \<open>
  \<open>packets_.read(cursor_)\<close>: the reader first steps over what has been overwritten, which the queue counts in bytes, and then
  takes the slot there if it is published. A slot holds the packet and the byte of its line.
\<close>

definition slot_size :: "bool \<times> nat \<times> 8 word list \<Rightarrow> nat" where
  "slot_size e = length (snd (snd e)) + 1"

definition queue_read :: "(nat list \<Rightarrow> nat \<Rightarrow> nat) \<Rightarrow> MulticastPacketFeed \<Rightarrow> (nat \<times> 8 word list) option \<times> MulticastPacketFeed" where
  "queue_read lap f =
     (let i = lap (map slot_size (pf_packets f)) (pf_cursor f);
          lost = sum_list (map slot_size (take (i - pf_cursor f) (drop (pf_cursor f) (pf_packets f))));
          f1 = f\<lparr>pf_cursor := i, pf_loss_count := pf_loss_count f + lost\<rparr>
      in if i < length (pf_packets f) \<and> fst (pf_packets f ! i) then (Some (snd (pf_packets f ! i)), f1\<lparr>pf_cursor := i + 1\<rparr>)
         else (None, f1))"

text \<open>The loop of \<open>drain\<close>: every slot holds at least its line byte, so none is skipped for being empty.\<close>

fun feed_drain_loop :: "(nat list \<Rightarrow> nat \<Rightarrow> nat) \<Rightarrow> nat \<Rightarrow> MulticastPacketFeed \<Rightarrow> (nat \<times> 8 word list) list \<times> MulticastPacketFeed" where
  "feed_drain_loop lap 0 f = ([], f)"
| "feed_drain_loop lap (Suc n) f = (case queue_read lap f of
      (None, f1) \<Rightarrow> ([], f1)
    | (Some e, f1) \<Rightarrow> (let (out, f') = feed_drain_loop lap n f1 in (e # out, f')))"

definition feed_drain :: "(nat list \<Rightarrow> nat \<Rightarrow> nat) \<Rightarrow> MulticastPacketFeed \<Rightarrow> (nat \<times> 8 word list) list \<times> MulticastPacketFeed" where
  "feed_drain lap f = feed_drain_loop lap (pf_max_packets_per_poll f) f"

section \<open>Bits\<close>

lemma line_bit_bit: "l < 32 \<Longrightarrow> bit (line_bit l) n \<longleftrightarrow> n = l"
  by (auto simp: line_bit_def bit_simps)

lemma and_line_bit: "l < 32 \<Longrightarrow> w AND line_bit l = (if bit w l then line_bit l else 0)"
  by (rule bit_word_eqI) (auto simp: line_bit_def bit_simps)

lemma line_bit_neq_0: "l < 32 \<Longrightarrow> line_bit l \<noteq> 0"
  using line_bit_bit [of l l] by (metis bit_0_eq bot_apply bot_bool_def)

lemma wanted_iff: "l < 32 \<Longrightarrow> (w AND line_bit l = (if j then 0 else line_bit l)) \<longleftrightarrow> bit w l = (\<not> j)"
  using line_bit_neq_0 [of l] by (simp add: and_line_bit)

lemma bit_line_ops:
  assumes "l < 32"
  shows "bit (w XOR line_bit l) k \<longleftrightarrow> bit w k \<noteq> (k = l)" "bit (w OR line_bit l) k \<longleftrightarrow> bit w k \<or> k = l"
    "bit (w AND NOT (line_bit l)) k \<longleftrightarrow> bit w k \<and> k \<noteq> l"
  using assms bit_imp_le_length [of w k] by (auto simp: line_bit_def bit_simps)

text \<open>The state of one line: muted, wanted left, left, failing, and when it may try again.\<close>

definition line_of :: "nat \<Rightarrow> MulticastPacketFeed \<Rightarrow> bool \<times> bool \<times> bool \<times> bool \<times> nat" where
  "line_of l f = (bit (pf_muted f) l, bit (pf_wanted_left f) l, bit (pf_left f) l, bit (pf_failing f) l, pf_retry_at_ns f l)"

text \<open>What a call does to its own line.\<close>

definition join_step :: "bool \<Rightarrow> nat \<Rightarrow> bool \<Rightarrow> bool \<times> bool \<times> bool \<times> bool \<times> nat \<Rightarrow> bool \<times> bool \<times> bool \<times> bool \<times> bool \<times> nat" where
  "join_step joined now ok x = (case x of (m, w, lf, fl, r) \<Rightarrow>
     (let r' = (if w = joined then 0 else r); m' = (if w = joined then \<not> joined else m); fl' = (fl \<and> w \<noteq> joined)
      in if lf = joined \<and> r' \<le> now
         then if ok then (True, m', \<not> joined, \<not> joined, False, r')
              else (True, m', \<not> joined, lf, True, (now + MEMBERSHIP_RETRY_NS) mod 2 ^ 64)
         else (False, m', \<not> joined, lf, fl', r')))"

lemma set_joined_line:
  assumes l: "l < 32" and res: "apply_joined l joined now e f = (a, f')"
  shows "(a, line_of l f') = join_step joined now (change_membership e l f = 0) (line_of l f)"
    "\<And>k. k \<noteq> l \<Longrightarrow> line_of k f' = line_of k f"
    "pf_packets f' = pf_packets f" "pf_cursor f' = pf_cursor f" "pf_by_line f' = pf_by_line f" "pf_queue_size f' = pf_queue_size f"
    "pf_max_packets_per_poll f' = pf_max_packets_per_poll f"
proof -
  have turn: "(pf_wanted_left f AND line_bit l \<noteq> (if joined then 0 else line_bit l)) \<longleftrightarrow> bit (pf_wanted_left f) l = joined"
    using wanted_iff [OF l, of "pf_wanted_left f" joined] by blast
  define f1 where "f1 = (if bit (pf_wanted_left f) l = joined
      then (mute_bits l (\<not> joined) (f\<lparr>pf_wanted_left := pf_wanted_left f XOR line_bit l\<rparr>))\<lparr>
        pf_failing := pf_failing f AND NOT (line_bit l), pf_retry_at_ns := (pf_retry_at_ns f)(l := 0)\<rparr> else f)"
  have own1: "line_of l f1 = (if bit (pf_wanted_left f) l = joined then (\<not> joined, \<not> joined, bit (pf_left f) l, False, 0) else line_of l f)"
    by (auto simp: f1_def line_of_def mute_bits_def bit_line_ops [OF l])
  have other1: "line_of k f1 = line_of k f" if "k \<noteq> l" for k
    using that by (simp add: f1_def line_of_def mute_bits_def bit_line_ops [OF l])
  have same1: "pf_packets f1 = pf_packets f" "pf_cursor f1 = pf_cursor f" "pf_by_line f1 = pf_by_line f" "pf_queue_size f1 = pf_queue_size f"
    "pf_max_packets_per_poll f1 = pf_max_packets_per_poll f" "change_membership e l f1 = change_membership e l f"
    by (simp_all add: f1_def mute_bits_def change_membership_def)
  have here: "(pf_left f1 AND line_bit l = (if joined then 0 else line_bit l)) \<longleftrightarrow> bit (pf_left f1) l = (\<not> joined)" by (rule wanted_iff [OF l])
  have eq: "(a, f') = (if bit (pf_left f1) l = (\<not> joined) \<or> now < pf_retry_at_ns f1 l then (False, f1)
     else if change_membership e l f \<noteq> 0
          then (True, f1\<lparr>pf_retry_at_ns := (pf_retry_at_ns f1)(l := (now + MEMBERSHIP_RETRY_NS) mod 2 ^ 64),
                         pf_failing := (if pf_failing f1 AND line_bit l = 0 then pf_failing f1 OR line_bit l else pf_failing f1)\<rparr>)
          else (True, f1\<lparr>pf_left := pf_left f1 XOR line_bit l, pf_failing := pf_failing f1 AND NOT (line_bit l)\<rparr>))"
    unfolding res [symmetric] apply_joined_def Let_def turn by (simp only: f1_def [symmetric] here same1(6))
  have fail: "(pf_failing f1 AND line_bit l = 0) \<longleftrightarrow> \<not> bit (pf_failing f1) l" using wanted_iff [OF l, of "pf_failing f1" True] by simp
  have own: "line_of l f1 = (m, w, lf, fl, r) \<Longrightarrow>
      (a, line_of l f') = (if lf = (\<not> joined) \<or> now < r then (False, m, w, lf, fl, r)
        else if change_membership e l f \<noteq> 0 then (True, m, w, lf, True, (now + MEMBERSHIP_RETRY_NS) mod 2 ^ 64) else (True, m, w, \<not> lf, False, r))" for m w lf fl r
    using eq by (auto simp: line_of_def bit_line_ops [OF l] fail split: if_splits)
  show "(a, line_of l f') = join_step joined now (change_membership e l f = 0) (line_of l f)"
  proof (cases "bit (pf_wanted_left f) l = joined")
    case True
    then show ?thesis using own [of "\<not> joined" "\<not> joined" "bit (pf_left f) l" False 0] own1
      by (auto simp: join_step_def line_of_def)
  next
    case False
    then show ?thesis using own own1 by (auto simp: join_step_def line_of_def)
  qed
  show "line_of k f' = line_of k f" if "k \<noteq> l" for k
    using eq other1 [OF that] that by (auto simp: line_of_def bit_line_ops [OF l] split: if_splits)
  show "pf_packets f' = pf_packets f" "pf_cursor f' = pf_cursor f" "pf_by_line f' = pf_by_line f" "pf_queue_size f' = pf_queue_size f"
    "pf_max_packets_per_poll f' = pf_max_packets_per_poll f"
    using eq same1 by (auto split: if_splits)
qed

section \<open>Membership\<close>

text \<open>Polls of one line, in range, that all want the same thing, with the attempts they made.\<close>

fun join_calls :: "nat \<Rightarrow> bool \<Rightarrow> (nat \<times> int) list \<Rightarrow> MulticastPacketFeed \<Rightarrow> (nat \<times> int) list \<times> MulticastPacketFeed" where
  "join_calls l joined [] f = ([], f)"
| "join_calls l joined ((now, e) # calls) f =
     (let (a, f1) = apply_joined l joined now e f; (ts, f2) = join_calls l joined calls f1 in (if a then (now, e) # ts else ts, f2))"

type_synonym line_state = "bool \<times> bool \<times> bool \<times> bool \<times> nat"

fun join_run :: "bool \<Rightarrow> (int \<Rightarrow> bool) \<Rightarrow> (nat \<times> int) list \<Rightarrow> line_state \<Rightarrow> (nat \<times> int) list \<times> line_state" where
  "join_run joined ok [] x = ([], x)"
| "join_run joined ok ((now, e) # calls) x =
     (let (a, x1) = join_step joined now (ok e) x; (ts, x2) = join_run joined ok calls x1 in (if a then (now, e) # ts else ts, x2))"

lemma join_calls_run:
  assumes "l < 32"
  shows "join_calls l joined calls f = (ts, f') \<Longrightarrow>
    join_run joined (\<lambda>e. l \<in> pf_by_line f \<longrightarrow> e = 0) calls (line_of l f) = (ts, line_of l f') \<and>
    (\<forall>k. k \<noteq> l \<longrightarrow> line_of k f' = line_of k f) \<and> pf_packets f' = pf_packets f \<and> pf_cursor f' = pf_cursor f"
proof (induction calls arbitrary: f f' ts)
  case (Cons c calls)
  obtain now e where c: "c = (now, e)" by fastforce
  obtain a f1 where s: "apply_joined l joined now e f = (a, f1)" by fastforce
  obtain ts1 f2 where r: "join_calls l joined calls f1 = (ts1, f2)" by fastforce
  note sj = set_joined_line [OF assms s]
  have eqs: "ts = (if a then (now, e) # ts1 else ts1)" "f' = f2" using Cons.prems by (simp_all add: c s r)
  have ok: "(change_membership e l f = 0) = (l \<in> pf_by_line f \<longrightarrow> e = 0)" by (simp add: change_membership_def)
  show ?case using Cons.IH [OF r] sj(1) [symmetric] sj(2-5) by (auto simp: c eqs ok)
qed simp

definition ready_at :: "bool \<Rightarrow> line_state \<Rightarrow> nat" where
  "ready_at joined x = (case x of (m, w, lf, fl, r) \<Rightarrow> if w = joined then 0 else r)"

definition is_left :: "line_state \<Rightarrow> bool" where
  "is_left x = (case x of (m, w, lf, fl, r) \<Rightarrow> lf)"

lemma join_step_cases:
  assumes "join_step j now ok x = (a, x1)" and "now + MEMBERSHIP_RETRY_NS < 2 ^ 64"
  shows "a \<longleftrightarrow> is_left x = j \<and> ready_at j x \<le> now"
    "is_left x1 = (if a \<and> ok then \<not> j else is_left x)"
    "ready_at j x1 = (if a \<and> \<not> ok then now + MEMBERSHIP_RETRY_NS else ready_at j x)"
    "fst (snd x1) = (\<not> j)"
  using assms by (auto simp: join_step_def is_left_def ready_at_def Let_def split: prod.splits if_splits)

abbreviation clock_ok :: "(nat \<times> int) list \<Rightarrow> bool" where
  "clock_ok calls \<equiv> sorted (map fst calls) \<and> (\<forall>c\<in>set calls. fst c + MEMBERSHIP_RETRY_NS < 2 ^ 64)"

lemma join_run_attempts:
  "join_run j ok calls x = (ts, x') \<Longrightarrow> clock_ok calls \<Longrightarrow>
     sorted_wrt (\<lambda>a b. fst a + MEMBERSHIP_RETRY_NS \<le> fst b \<and> \<not> ok (snd a)) ts \<and> (\<forall>t\<in>set ts. ready_at j x \<le> fst t) \<and>
     (is_left x = (\<not> j) \<longrightarrow> ts = []) \<and> (is_left x' = (\<not> j) \<longleftrightarrow> is_left x = (\<not> j) \<or> (\<exists>t\<in>set ts. ok (snd t))) \<and>
     (calls \<noteq> [] \<longrightarrow> fst (snd x') = (\<not> j)) \<and> set ts \<subseteq> set calls"
proof (induction calls arbitrary: x x' ts)
  case (Cons c calls)
  obtain now e where c: "c = (now, e)" by fastforce
  obtain a x1 where s: "join_step j now (ok e) x = (a, x1)" by (meson surj_pair)
  obtain ts1 x2 where r: "join_run j ok calls x1 = (ts1, x2)" by (meson surj_pair)
  have eqs: "ts = (if a then (now, e) # ts1 else ts1)" "x' = x2" using Cons.prems(1) by (simp_all add: c s r)
  have ck: "clock_ok calls" "now + MEMBERSHIP_RETRY_NS < 2 ^ 64" using Cons.prems(2) by (simp_all add: c)
  note st = join_step_cases [OF s ck(2)] and ih = Cons.IH [OF r ck(1)]
  have w: "fst (snd x2) = (\<not> j)"
  proof (cases calls)
    case Nil
    then show ?thesis using r st(4) by simp
  next
    case (Cons c' calls')
    then show ?thesis using ih by blast
  qed
  have i: "sorted_wrt (\<lambda>a b. fst a + MEMBERSHIP_RETRY_NS \<le> fst b \<and> \<not> ok (snd a)) ts1" "\<forall>t\<in>set ts1. ready_at j x1 \<le> fst t"
    "is_left x1 = (\<not> j) \<longrightarrow> ts1 = []" "is_left x2 = (\<not> j) \<longleftrightarrow> is_left x1 = (\<not> j) \<or> (\<exists>t\<in>set ts1. ok (snd t))" "set ts1 \<subseteq> set (c # calls)"
    using ih by auto
  show ?case
  proof (cases a)
    case False
    then have "is_left x1 = is_left x" "ready_at j x1 = ready_at j x" using st(2,3) by simp_all
    then show ?thesis using i w False by (simp only: eqs if_False) blast
  next
    case True
    then have here: "is_left x = j" "ready_at j x \<le> now" using st(1) by simp_all
    show ?thesis
    proof (cases "ok e")
      case ok: True
      then have "ts1 = []" "is_left x1 = (\<not> j)" using i(3) st(2) True by simp_all
      then show ?thesis using i(4) here True ok w by (simp add: eqs c)
    next
      case nok: False
      then have x1: "is_left x1 = is_left x" "ready_at j x1 = now + MEMBERSHIP_RETRY_NS" using st(2,3) True by simp_all
      have late: "\<forall>t\<in>set ts1. ready_at j x \<le> fst t" using i(2) here(2) x1(2) by fastforce
      show ?thesis using i(1,2,4,5) x1 here late True nok w by (simp add: eqs c)
    qed
  qed
qed simp

lemma join_run_converges:
  "join_run j ok calls x = (ts, x') \<Longrightarrow> clock_ok calls \<Longrightarrow> ready_at j x \<le> T + MEMBERSHIP_RETRY_NS \<Longrightarrow>
     (\<forall>c\<in>set calls. T \<le> fst c \<longrightarrow> ok (snd c)) \<Longrightarrow> (\<exists>c\<in>set calls. T + MEMBERSHIP_RETRY_NS \<le> fst c) \<Longrightarrow> is_left x' = (\<not> j)"
proof (induction calls arbitrary: x x' ts)
  case (Cons c calls)
  obtain now e where c: "c = (now, e)" by fastforce
  obtain a x1 where s: "join_step j now (ok e) x = (a, x1)" by (meson surj_pair)
  obtain ts1 x2 where r: "join_run j ok calls x1 = (ts1, x2)" by (meson surj_pair)
  have x': "x' = x2" using Cons.prems(1) by (simp add: c s r)
  have ck: "clock_ok calls" "now + MEMBERSHIP_RETRY_NS < 2 ^ 64" using Cons.prems(2) by (simp_all add: c)
  note st = join_step_cases [OF s ck(2)]
  show ?case
  proof (cases "is_left x1 = (\<not> j)")
    case True
    then show ?thesis using join_run_attempts [OF r ck(1)] x' by blast
  next
    case False
    have early: "now < T + MEMBERSHIP_RETRY_NS"
    proof (rule ccontr)
      assume late: "\<not> now < T + MEMBERSHIP_RETRY_NS"
      then have "ok e" "ready_at j x \<le> now" using Cons.prems(3,4) by (auto simp: c)
      then show False using st(1,2) False by (cases a; cases j; cases "is_left x") simp_all
    qed
    have "ready_at j x1 \<le> T + MEMBERSHIP_RETRY_NS" using st(3) Cons.prems(3,4) by (auto simp: c not_le [symmetric])
    moreover have "\<exists>c\<in>set calls. T + MEMBERSHIP_RETRY_NS \<le> fst c" using Cons.prems(5) early by (auto simp: c)
    ultimately show ?thesis using Cons.IH [OF r ck(1)] Cons.prems(4) x' by simp
  qed
qed simp

text \<open>
  Membership follows what the venue wants. While it keeps asking for one line, attempts on the
  socket are at least the retry interval apart, stop at the first that succeeds, and the group counts
  as left or joined exactly when one did. Once the socket answers well from some time on, a poll one
  interval later is enough. No other line is touched, and no packet is.
\<close>

theorem membership_converges:
  assumes "l < MAX_LINES" and "sorted (map fst calls)" and "\<forall>c\<in>set calls. fst c + MEMBERSHIP_RETRY_NS < 2 ^ 64"
    and "join_calls l joined calls f = (attempts, f')" and "calls \<noteq> []"
  shows "sorted_wrt (\<lambda>a b. fst a + MEMBERSHIP_RETRY_NS \<le> fst b) attempts \<and> set attempts \<subseteq> set calls \<and>
    bit (pf_wanted_left f') l = (\<not> joined) \<and>
    (bit (pf_left f') l = (\<not> joined) \<longleftrightarrow>
       bit (pf_left f) l = (\<not> joined) \<or> (\<exists>t\<in>set attempts. l \<in> pf_by_line f \<longrightarrow> snd t = 0)) \<and>
    (pf_retry_at_ns f l \<le> T + MEMBERSHIP_RETRY_NS \<and> (\<forall>c\<in>set calls. T \<le> fst c \<longrightarrow> snd c = 0) \<and>
       (\<exists>c\<in>set calls. T + MEMBERSHIP_RETRY_NS \<le> fst c) \<longrightarrow> bit (pf_left f') l = (\<not> joined)) \<and>
    (\<forall>k. k \<noteq> l \<longrightarrow> bit (pf_left f') k = bit (pf_left f) k \<and> bit (pf_muted f') k = bit (pf_muted f) k) \<and> pf_packets f' = pf_packets f"
proof -
  have l: "l < 32" using assms(1) by (simp add: MAX_LINES_def)
  note r = join_calls_run [OF l assms(4)]
  have run: "join_run joined (\<lambda>e. l \<in> pf_by_line f \<longrightarrow> e = 0) calls (line_of l f) = (attempts, line_of l f')" using r by simp
  have ck: "clock_ok calls" using assms(2,3) by simp
  note a = join_run_attempts [OF run ck] and c = join_run_converges [OF run ck, of T]
  have left: "is_left (line_of l g) = bit (pf_left g) l" "fst (snd (line_of l g)) = bit (pf_wanted_left g) l" for g
    by (simp_all add: is_left_def line_of_def)
  have ready: "ready_at joined (line_of l f) \<le> pf_retry_at_ns f l" by (simp add: ready_at_def line_of_def)
  have gaps: "sorted_wrt (\<lambda>a b. fst a + MEMBERSHIP_RETRY_NS \<le> fst b) attempts"
    using conjunct1 [OF a] by (rule sorted_wrt_mono_rel [rotated]) simp
  have others: "bit (pf_left f') k = bit (pf_left f) k \<and> bit (pf_muted f') k = bit (pf_muted f) k" if "k \<noteq> l" for k
    using r that by (force simp: line_of_def)
  show ?thesis using gaps others r a c assms(5) ready unfolding left by auto
qed

text \<open>Leaving a group whose socket fails once: tried at 0, again 100 ms later, then left.\<close>

definition ex_feed :: MulticastPacketFeed where
  "ex_feed = snd (the (add_line True True 3 (projr (new_feed 1024 256))))"

theorem membership_converges_witness:
  "let (attempts, f') = join_calls 3 False [(0, 22), (50000000, 22), (100000000, 0), (200000000, 0)] ex_feed
   in attempts = [(0, 22), (100000000, 0)] \<and> bit (pf_left f') 3 \<and> \<not> bit (pf_left f') 2"
proof -
  let ?calls = "[(0, 22), (50000000, 22), (100000000, 0), (200000000, 0)] :: (nat \<times> int) list"
  obtain ts f' where r: "join_calls 3 False ?calls ex_feed = (ts, f')" by fastforce
  have f: "pf_retry_at_ns ex_feed 3 = 0" "bit (pf_left ex_feed) k = False" "pf_by_line ex_feed = {3}" for k
    by (simp_all add: ex_feed_def new_feed_def add_line_def MAX_LINES_def)
  have "ts = [(0, 22), (100000000, 0)]"
    using conjunct1 [OF join_calls_run [OF _ r]]
    by (simp add: f line_of_def join_step_def Let_def MEMBERSHIP_RETRY_NS_def)
  moreover from this have "bit (pf_left f') 3 \<and> \<not> bit (pf_left f') 2"
    using membership_converges [OF _ _ _ r, of 0] by (simp add: f MAX_LINES_def MEMBERSHIP_RETRY_NS_def)
  ultimately show ?thesis unfolding r by simp
qed

section \<open>Packets\<close>

text \<open>
  What the class relies on of the queue: a reader only ever goes forward, and not past the last slot reserved. It
  says nothing of how far it is thrown.
\<close>

definition lossy_queue :: "(nat list \<Rightarrow> nat \<Rightarrow> nat) \<Rightarrow> bool" where
  "lossy_queue lap \<longleftrightarrow> (\<forall>sizes c. c \<le> length sizes \<longrightarrow> c \<le> lap sizes c \<and> lap sizes c \<le> length sizes)"

text \<open>
  The threads' steps in any order. A delivery that has passed its check waits to reserve its slot, and a
  reserved slot to be published, while other steps happen.
\<close>

datatype feed_op = Joined nat bool nat int | Admit nat "8 word list" | Reserve nat | Publish nat | Drain | Start | Stop

record feed_run =
  fr_feed :: MulticastPacketFeed
  fr_admitted :: "(nat \<times> 8 word list) list"
  fr_handed :: "(nat \<times> 8 word list) list"

fun feed_step :: "(nat list \<Rightarrow> nat \<Rightarrow> nat) \<Rightarrow> feed_op \<Rightarrow> feed_run \<Rightarrow> feed_run option" where
  "feed_step lap (Joined l j now e) r = map_option (\<lambda>v. r\<lparr>fr_feed := snd v\<rparr>) (set_joined l j now e (fr_feed r))"
| "feed_step lap (Admit l data) r = map_option (\<lambda>v. r\<lparr>fr_feed := snd v, fr_admitted := (if fst v then fr_admitted r @ [(l, data)] else fr_admitted r)\<rparr>)
     (deliver_admit l data (fr_feed r))"
| "feed_step lap (Reserve k) r = Some (if k < length (fr_admitted r)
     then r\<lparr>fr_feed := snd (deliver_reserve (fst (fr_admitted r ! k)) (snd (fr_admitted r ! k)) (fr_feed r)),
            fr_admitted := take k (fr_admitted r) @ drop (Suc k) (fr_admitted r)\<rparr>
     else r)"
| "feed_step lap (Publish i) r = Some (if i < length (pf_packets (fr_feed r)) then r\<lparr>fr_feed := deliver_publish i (fr_feed r)\<rparr> else r)"
| "feed_step lap Drain r = (case feed_drain lap (fr_feed r) of (out, f) \<Rightarrow> Some (r\<lparr>fr_feed := f, fr_handed := fr_handed r @ out\<rparr>))"
| "feed_step lap Start r = Some (r\<lparr>fr_feed := feed_start (fr_feed r)\<rparr>)"
| "feed_step lap Stop r = Some (r\<lparr>fr_feed := feed_stop (fr_feed r)\<rparr>)"

fun feed_steps :: "(nat list \<Rightarrow> nat \<Rightarrow> nat) \<Rightarrow> feed_op list \<Rightarrow> feed_run \<Rightarrow> feed_run option" where
  "feed_steps lap [] r = Some r"
| "feed_steps lap (op # ops) r = Option.bind (feed_step lap op r) (feed_steps lap ops)"

text \<open>A delivery nothing comes between is its three steps.\<close>

lemma deliver_is_steps:
  assumes "deliver l data (fr_feed r) = Some (True, f)"
  shows "feed_steps lap [Admit l data, Reserve (length (fr_admitted r)), Publish (length (pf_packets (fr_feed r)))] r = Some (r\<lparr>fr_feed := f\<rparr>)"
proof -
  have a: "deliver_admit l data (fr_feed r) = Some (True, fr_feed r)"
    using assms by (auto simp: deliver_def deliver_admit_def split: if_splits)
  then show ?thesis using assms by (auto simp: deliver_def deliver_reserve_def)
qed

fun op_line_ok :: "feed_op \<Rightarrow> bool" where
  "op_line_ok (Joined l j now e) \<longleftrightarrow> l < MAX_LINES"
| "op_line_ok (Admit l data) \<longleftrightarrow> l < MAX_LINES"
| "op_line_ok _ \<longleftrightarrow> True"

text \<open>The packets in the order of their slots, and their bytes in the queue.\<close>

definition reserved :: "MulticastPacketFeed \<Rightarrow> (nat \<times> 8 word list) list" where
  "reserved f = map snd (pf_packets f)"

definition queue_bytes :: "(nat \<times> 8 word list) list \<Rightarrow> nat" where
  "queue_bytes ps = sum_list (map (\<lambda>p. length (snd p) + 1) ps)"

lemma queue_bytes_simps [simp]: "queue_bytes [] = 0" "queue_bytes (p # ps) = length (snd p) + 1 + queue_bytes ps"
  "queue_bytes (ps @ qs) = queue_bytes ps + queue_bytes qs"
  by (simp_all add: queue_bytes_def)

text \<open>Which of the first slots were handed over, which were lost: a mask over them.\<close>

definition masked :: "bool \<Rightarrow> bool list \<Rightarrow> 'a list \<Rightarrow> 'a list" where
  "masked b ms xs = map snd (filter (\<lambda>v. fst v = b) (zip ms xs))"

lemma masked_Nil [simp]: "masked b [] xs = []" "masked b ms [] = []"
  by (simp_all add: masked_def)

lemma masked_Cons [simp]: "masked b (m # ms) (x # xs) = (if m = b then x # masked b ms xs else masked b ms xs)"
  by (simp add: masked_def)

lemma masked_more: "length ms \<le> length xs \<Longrightarrow> masked b ms (xs @ ys) = masked b ms xs"
  by (simp add: masked_def zip_append2)

lemma masked_append: "length ms \<le> length xs \<Longrightarrow> masked b (ms @ ns) xs = masked b ms xs @ masked b ns (drop (length ms) xs)"
proof (induction ms arbitrary: xs)
  case (Cons m ms)
  then show ?case by (cases xs) simp_all
qed simp

lemma masked_replicate: "masked b (replicate k c) xs = (if b = c then take k xs else [])"
proof (induction k arbitrary: xs)
  case (Suc k)
  then show ?case by (cases xs) (auto split: if_splits)
qed simp

lemma masked_subseq: "subseq (masked b ms xs) xs"
proof (induction ms arbitrary: xs)
  case (Cons m ms)
  then show ?case by (cases xs) (auto intro: list_emb_Cons)
qed simp

lemma masked_split:
  "length ms \<le> length xs \<Longrightarrow> queue_bytes (masked True ms xs) + queue_bytes (masked False ms xs) = queue_bytes (take (length ms) xs)"
proof (induction ms arbitrary: xs)
  case (Cons m ms)
  then obtain x ys where "xs = x # ys" by (cases xs) auto
  then show ?case using Cons.IH [of ys] Cons.prems by (cases m) simp_all
qed simp

lemma masked_all:
  "length ms \<le> length xs \<Longrightarrow> queue_bytes (masked False ms xs) = 0 \<Longrightarrow> masked True ms xs = take (length ms) xs"
proof (induction ms arbitrary: xs)
  case (Cons m ms)
  then obtain x ys where "xs = x # ys" by (cases xs) auto
  then show ?case using Cons.IH [of ys] Cons.prems by (cases m) simp_all
qed simp

definition accounted :: "bool list \<Rightarrow> (nat \<times> 8 word list) list \<Rightarrow> MulticastPacketFeed \<Rightarrow> bool" where
  "accounted ms handed f \<longleftrightarrow> length ms = pf_cursor f \<and> pf_cursor f \<le> length (pf_packets f) \<and>
     handed = masked True ms (reserved f) \<and> pf_loss_count f = queue_bytes (masked False ms (reserved f))"

lemma queue_read_accounted:
  assumes q: "lossy_queue lap" and acc: "accounted ms handed f" and rd: "queue_read lap f = (e, f')"
  shows "\<exists>ms'. accounted ms' (handed @ (case e of None \<Rightarrow> [] | Some p \<Rightarrow> [p])) f'" "pf_packets f' = pf_packets f" "pf_muted f' = pf_muted f"
    "pf_wanted_left f' = pf_wanted_left f" "pf_max_packets_per_poll f' = pf_max_packets_per_poll f"
    "(e = None) = (\<not> (lap (map slot_size (pf_packets f)) (pf_cursor f) < length (pf_packets f) \<and>
       fst (pf_packets f ! lap (map slot_size (pf_packets f)) (pf_cursor f))))"
proof -
  define i where "i = lap (map slot_size (pf_packets f)) (pf_cursor f)"
  define gap where "gap = replicate (i - pf_cursor f) False"
  define lost where "lost = sum_list (map slot_size (take (i - pf_cursor f) (drop (pf_cursor f) (pf_packets f))))"
  note a = acc [unfolded accounted_def]
  have i: "pf_cursor f \<le> i" "i \<le> length (pf_packets f)" using q a unfolding lossy_queue_def i_def by (metis length_map)+
  have len: "length ms \<le> length (reserved f)" "length (reserved f) = length (pf_packets f)" using a by (simp_all add: reserved_def)
  have sz: "lost = queue_bytes (take (i - pf_cursor f) (drop (pf_cursor f) (reserved f)))"
    by (simp add: lost_def reserved_def queue_bytes_def slot_size_def [abs_def] take_map drop_map comp_def)
  have rd': "(e, f') = (if i < length (pf_packets f) \<and> fst (pf_packets f ! i)
      then (Some (snd (pf_packets f ! i)), f\<lparr>pf_cursor := i + 1, pf_loss_count := pf_loss_count f + lost\<rparr>)
      else (None, f\<lparr>pf_cursor := i, pf_loss_count := pf_loss_count f + lost\<rparr>))"
    unfolding rd [symmetric] queue_read_def Let_def i_def [symmetric] lost_def [symmetric] by simp
  have gapped: "masked True (ms @ gap) (reserved f) = handed" "queue_bytes (masked False (ms @ gap) (reserved f)) = pf_loss_count f + lost"
    "length (ms @ gap) = i"
    using a i by (simp_all add: gap_def masked_append [OF len(1)] masked_replicate sz)
  show "pf_packets f' = pf_packets f" "pf_muted f' = pf_muted f" "pf_wanted_left f' = pf_wanted_left f"
    "pf_max_packets_per_poll f' = pf_max_packets_per_poll f" using rd' by (auto split: if_splits)
  show "(e = None) = (\<not> (lap (map slot_size (pf_packets f)) (pf_cursor f) < length (pf_packets f) \<and>
       fst (pf_packets f ! lap (map slot_size (pf_packets f)) (pf_cursor f))))" using rd' by (auto simp: i_def split: if_splits)
  show "\<exists>ms'. accounted ms' (handed @ (case e of None \<Rightarrow> [] | Some p \<Rightarrow> [p])) f'"
  proof (cases "i < length (pf_packets f) \<and> fst (pf_packets f ! i)")
    case False
    then have "e = None" "f' = f\<lparr>pf_cursor := i, pf_loss_count := pf_loss_count f + lost\<rparr>" using rd' unfolding if_not_P [OF False] by simp_all
    then have "accounted (ms @ gap) (handed @ (case e of None \<Rightarrow> [] | Some p \<Rightarrow> [p])) f'"
      using gapped i by (simp add: accounted_def reserved_def)
    then show ?thesis by blast
  next
    case True
    then have e: "e = Some (reserved f ! i)" "f' = f\<lparr>pf_cursor := i + 1, pf_loss_count := pf_loss_count f + lost\<rparr>" using rd' True unfolding if_P [OF True] by (simp_all add: reserved_def)
    have r: "reserved f' = reserved f" by (simp add: e(2) reserved_def)
    have "drop i (reserved f) = reserved f ! i # drop (Suc i) (reserved f)" using True len(2) by (simp add: Cons_nth_drop_Suc)
    then have "masked b ((ms @ gap) @ [True]) (reserved f) = masked b (ms @ gap) (reserved f) @ (if b then [reserved f ! i] else [])" for b
      using masked_append [of "ms @ gap" "reserved f" b "[True]"] gapped(3) i(2) len(2) by (cases b) simp_all
    then have "accounted ((ms @ gap) @ [True]) (handed @ [reserved f ! i]) f'"
      unfolding accounted_def r using gapped True by (simp add: e(2))
    then show ?thesis using e(1) by auto
  qed
qed

lemma feed_drain_accounted:
  assumes q: "lossy_queue lap"
  shows "accounted ms handed f \<Longrightarrow> feed_drain_loop lap n f = (out, f') \<Longrightarrow>
    (\<exists>ms'. accounted ms' (handed @ out) f') \<and> pf_packets f' = pf_packets f \<and> pf_muted f' = pf_muted f \<and> pf_wanted_left f' = pf_wanted_left f \<and>
    pf_max_packets_per_poll f' = pf_max_packets_per_poll f \<and> length out \<le> n \<and>
    (0 < n \<and> lap (map slot_size (pf_packets f)) (pf_cursor f) < length (pf_packets f) \<and>
       fst (pf_packets f ! lap (map slot_size (pf_packets f)) (pf_cursor f)) \<longrightarrow> out \<noteq> [])"
proof (induction n arbitrary: ms handed f out)
  case (Suc n)
  obtain e f1 where rd: "queue_read lap f = (e, f1)" by fastforce
  note r = queue_read_accounted [OF q Suc.prems(1) rd]
  show ?case
  proof (cases e)
    case None
    then have "out = []" "f' = f1" using Suc.prems(2) by (simp_all add: rd)
    then show ?thesis using r None by auto
  next
    case (Some p)
    obtain out1 where out: "feed_drain_loop lap n f1 = (out1, f')" "out = p # out1"
      using Suc.prems(2) by (auto simp: rd Some split: prod.splits)
    obtain ms1 where "accounted ms1 (handed @ [p]) f1" using r(1) Some by auto
    from Suc.IH [OF this out(1)] show ?thesis using r(2-5) out(2) by auto
  qed
qed auto

definition feed_ok :: "nat \<Rightarrow> feed_run \<Rightarrow> bool" where
  "feed_ok mx r \<longleftrightarrow> (\<exists>ms. accounted ms (fr_handed r) (fr_feed r)) \<and> pf_max_packets_per_poll (fr_feed r) = mx \<and>
     (\<forall>l. bit (pf_muted (fr_feed r)) l = bit (pf_wanted_left (fr_feed r)) l)"

lemma accounted_cong:
  assumes "accounted ms handed f" and "pf_cursor f' = pf_cursor f" and "pf_loss_count f' = pf_loss_count f"
    and "reserved f' = reserved f @ xs"
  shows "accounted ms handed f'"
proof -
  have "length (pf_packets f') = length (pf_packets f) + length xs" using arg_cong [OF assms(4), of length] by (simp add: reserved_def)
  moreover have "length ms \<le> length (reserved f)" using assms(1) by (simp add: accounted_def reserved_def)
  ultimately show ?thesis using assms by (simp add: accounted_def masked_more)
qed

lemma apply_joined_frame:
  assumes "apply_joined l j now e f = (a, f')"
  shows "pf_packets f' = pf_packets f" "pf_cursor f' = pf_cursor f" "pf_loss_count f' = pf_loss_count f"
    "pf_max_packets_per_poll f' = pf_max_packets_per_poll f"
  using assms by (auto simp: apply_joined_def mute_bits_def Let_def split: if_splits)

lemma apply_joined_mask:
  assumes "l < 32" and "apply_joined l j now e f = (a, f')" and "\<forall>k. bit (pf_muted f) k = bit (pf_wanted_left f) k"
  shows "bit (pf_muted f') k = bit (pf_wanted_left f') k"
proof (cases "k = l")
  case True
  then show ?thesis using set_joined_line(1) [OF assms(1,2)] assms(3)
    by (auto simp: join_step_def line_of_def Let_def split: if_splits)
next
  case False
  then show ?thesis using set_joined_line(2) [OF assms(1,2) False] assms(3) by (simp add: line_of_def)
qed

lemma feed_step_ok:
  assumes q: "lossy_queue lap" and ok: "feed_ok mx r" and l: "op_line_ok op"
  shows "\<exists>r'. feed_step lap op r = Some r' \<and> feed_ok mx r'"
proof -
  obtain ms where acc: "accounted ms (fr_handed r) (fr_feed r)" using ok by (auto simp: feed_ok_def)
  have keep: "\<exists>ms. accounted ms (fr_handed r) f'" if "pf_cursor f' = pf_cursor (fr_feed r)" "pf_loss_count f' = pf_loss_count (fr_feed r)"
    "reserved f' = reserved (fr_feed r) @ xs" for f' xs using accounted_cong [OF acc that] by blast
  show ?thesis
  proof (cases op)
    case (Joined k j now e)
    then have k: "k < 32" "k < MAX_LINES" using l by (simp_all add: MAX_LINES_def)
    obtain a f' where s: "apply_joined k j now e (fr_feed r) = (a, f')" by fastforce
    note fr = apply_joined_frame [OF s] and mask = apply_joined_mask [OF k(1) s]
    have "reserved f' = reserved (fr_feed r) @ []" by (simp add: reserved_def fr(1))
    then show ?thesis using ok keep [OF fr(2,3)] fr(4) mask k(2) s by (auto simp: Joined set_joined_def feed_ok_def)
  next
    case (Admit k data)
    have "deliver_admit k data (fr_feed r) \<noteq> None" using l by (simp add: Admit deliver_admit_def del: not_None_eq)
    then obtain v where v: "deliver_admit k data (fr_feed r) = Some v" by blast
    then have "reserved (snd v) = reserved (fr_feed r) @ []" "pf_cursor (snd v) = pf_cursor (fr_feed r)" "pf_loss_count (snd v) = pf_loss_count (fr_feed r)"
      "pf_max_packets_per_poll (snd v) = pf_max_packets_per_poll (fr_feed r)" "pf_muted (snd v) = pf_muted (fr_feed r)" "pf_wanted_left (snd v) = pf_wanted_left (fr_feed r)"
      by (auto simp: deliver_admit_def reserved_def split: if_splits)
    then show ?thesis using ok keep [of "snd v" "[]"] by (simp add: Admit v feed_ok_def)
  next
    case (Reserve k)
    have "\<exists>ms. accounted ms (fr_handed r) (snd (deliver_reserve a d (fr_feed r)))" for a d
      by (rule keep [where xs = "[(a, d)]"]) (simp_all add: deliver_reserve_def reserved_def)
    then show ?thesis using ok by (auto simp: Reserve feed_ok_def) (auto simp: deliver_reserve_def)
  next
    case (Publish i)
    have "reserved (deliver_publish i (fr_feed r)) = reserved (fr_feed r) @ []" if "i < length (pf_packets (fr_feed r))"
      using that list_update_id [of "map snd (pf_packets (fr_feed r))" i] by (simp add: deliver_publish_def reserved_def map_update)
    then have "\<exists>ms. accounted ms (fr_handed r) (deliver_publish i (fr_feed r))" if "i < length (pf_packets (fr_feed r))"
      using keep that by (simp add: deliver_publish_def)
    then show ?thesis using ok by (auto simp: Publish feed_ok_def) (auto simp: deliver_publish_def)
  next
    case Drain
    obtain out f' where d: "feed_drain lap (fr_feed r) = (out, f')" by fastforce
    from feed_drain_accounted [OF q acc d [unfolded feed_drain_def]] show ?thesis using ok by (auto simp: Drain d feed_ok_def)
  qed (use ok keep [where xs = "[]"] in \<open>auto simp: feed_ok_def feed_start_def feed_stop_def reserved_def\<close>)
qed

lemma feed_steps_ok:
  assumes "lossy_queue lap"
  shows "feed_ok mx r \<Longrightarrow> \<forall>op\<in>set ops. op_line_ok op \<Longrightarrow> \<exists>r'. feed_steps lap ops r = Some r' \<and> feed_ok mx r'"
proof (induction ops arbitrary: r)
  case (Cons op ops)
  then obtain r1 where "feed_step lap op r = Some r1" "feed_ok mx r1" using feed_step_ok [OF assms, of mx r op] by auto
  then show ?case using Cons.IH [of r1] Cons.prems(2) by simp
qed simp

text \<open>
  C28. No packet is reordered, repeated or invented, and every lost byte is counted. Whatever the receiver threads and
  the exchange thread do, step by step and in whatever order, on lines in range, nothing fails. What the exchange thread has been
  handed is a subsequence of the packets in the order their slots were reserved; the bytes handed over and the bytes in the loss
  count add up to the bytes of all slots the reader has passed; and while the loss count is 0 the reader has been handed
  all of them, a prefix. The queue may overwrite what was not drained, as much and as early as it likes: of it is only
  assumed that a reader goes forward and not past the last slot. A poll hands over at most its limit, and at least one
  packet when the slot the reader goes on at is published; a slot still being filled holds back those behind
  it. A delivery that begins on a line the venue does not want is refused.
\<close>

theorem packets_in_order:
  assumes "new_feed queue_size max_packets = Inr f0" and "lossy_queue lap" and "\<forall>op\<in>set ops. op_line_ok op"
  shows "\<exists>r. feed_steps lap ops \<lparr>fr_feed = f0, fr_admitted = [], fr_handed = []\<rparr> = Some r \<and>
    (let f = fr_feed r; passed = take (pf_cursor f) (reserved f); i = lap (map slot_size (pf_packets f)) (pf_cursor f) in
       subseq (fr_handed r) passed \<and> queue_bytes (fr_handed r) + pf_loss_count f = queue_bytes passed \<and>
       (pf_loss_count f = 0 \<longrightarrow> fr_handed r = passed) \<and>
       (\<exists>r' out. feed_step lap Drain r = Some r' \<and> fr_handed r' = fr_handed r @ out \<and> length out \<le> max_packets \<and>
          (i < length (pf_packets f) \<and> fst (pf_packets f ! i) \<longrightarrow> out \<noteq> [])) \<and>
       (\<forall>l data. l < MAX_LINES \<and> bit (pf_wanted_left f) l \<longrightarrow> feed_step lap (Admit l data) r = Some r))"
proof -
  let ?r0 = "\<lparr>fr_feed = f0, fr_admitted = [], fr_handed = []\<rparr>"
  have mx: "0 < max_packets" and f0: "feed_ok max_packets ?r0"
    using assms(1) by (auto simp: new_feed_def feed_ok_def accounted_def split: if_splits)
  obtain r where r: "feed_steps lap ops ?r0 = Some r" "feed_ok max_packets r" using feed_steps_ok [OF assms(2) f0 assms(3)] by blast
  let ?f = "fr_feed r"
  let ?passed = "take (pf_cursor ?f) (reserved ?f)"
  obtain ms where acc: "accounted ms (fr_handed r) ?f" using r(2) by (auto simp: feed_ok_def)
  note a = acc [unfolded accounted_def]
  have len: "length ms \<le> length (reserved ?f)" using a by (simp add: reserved_def)
  have tk: "masked b ms (reserved ?f) = masked b ms ?passed" for b
    using masked_more [of ms ?passed b "drop (pf_cursor ?f) (reserved ?f)"] a len by (simp add: min_def)
  have 1: "subseq (fr_handed r) ?passed" using masked_subseq [of True ms ?passed] a tk by simp
  have 2: "queue_bytes (fr_handed r) + pf_loss_count ?f = queue_bytes ?passed" using masked_split [OF len] a by simp
  have 3: "fr_handed r = ?passed" if "pf_loss_count ?f = 0" using masked_all [OF len] a that by simp
  obtain out f' where d: "feed_drain lap ?f = (out, f')" by fastforce
  have m: "pf_max_packets_per_poll ?f = max_packets" using r(2) by (simp add: feed_ok_def)
  have 4: "length out \<le> max_packets" "lap (map slot_size (pf_packets ?f)) (pf_cursor ?f) < length (pf_packets ?f) \<and>
      fst (pf_packets ?f ! lap (map slot_size (pf_packets ?f)) (pf_cursor ?f)) \<longrightarrow> out \<noteq> []"
    using feed_drain_accounted [OF assms(2) acc d [unfolded feed_drain_def]] m mx by auto
  have 5: "feed_step lap (Admit l data) r = Some r" if l: "l < MAX_LINES" "bit (pf_wanted_left ?f) l" for l data
  proof -
    have "l < 32" "bit (pf_muted ?f) l" using l r(2) by (simp_all add: MAX_LINES_def feed_ok_def)
    then have "pf_muted ?f AND line_bit l \<noteq> 0" using line_bit_neq_0 by (simp add: and_line_bit)
    then show ?thesis using l(1) by (simp add: deliver_admit_def)
  qed
  have 6: "\<exists>r' out. feed_step lap Drain r = Some r' \<and> fr_handed r' = fr_handed r @ out \<and> length out \<le> max_packets \<and>
      (lap (map slot_size (pf_packets ?f)) (pf_cursor ?f) < length (pf_packets ?f) \<and>
       fst (pf_packets ?f ! lap (map slot_size (pf_packets ?f)) (pf_cursor ?f)) \<longrightarrow> out \<noteq> [])"
    by (rule exI [of _ "r\<lparr>fr_feed := f', fr_handed := fr_handed r @ out\<rparr>"], rule exI [of _ out]) (use d 4 in simp)
  show ?thesis unfolding Let_def by (rule exI [of _ r], intro conjI allI impI) (use r(1) 1 2 3 5 6 in blast)+
qed

text \<open>
  A ring of 8 bytes that keeps the latest slots that fit: three packets of 4 bytes each with their line, none drained in
  time. The first is lost, and its bytes counted; the others are handed over in order.
\<close>

definition ring_lap :: "nat \<Rightarrow> nat list \<Rightarrow> nat \<Rightarrow> nat" where
  "ring_lap cap sizes c = (if c \<le> length sizes then hd (filter (\<lambda>i. sum_list (drop i sizes) \<le> cap) [c..<Suc (length sizes)]) else c)"

lemma ring_lossy: "lossy_queue (ring_lap cap)"
  unfolding lossy_queue_def
proof (intro allI impI)
  fix sizes :: "nat list" and c assume c: "c \<le> length sizes"
  let ?fs = "filter (\<lambda>i. sum_list (drop i sizes) \<le> cap) [c..<Suc (length sizes)]"
  have "length sizes \<in> set ?fs" using c by simp
  then have "hd ?fs \<in> set ?fs" by (metis empty_iff empty_set hd_in_set)
  then show "c \<le> ring_lap cap sizes c \<and> ring_lap cap sizes c \<le> length sizes" using c by (auto simp: ring_lap_def)
qed

definition ex_deliveries :: "feed_op list" where
  "ex_deliveries = [Admit 0 [1, 1, 1], Reserve 0, Publish 0, Admit 1 [2, 2, 2], Admit 0 [3, 3, 3], Reserve 1, Reserve 0, Publish 2, Publish 1,
     Joined 1 False 0 0, Drain]"

theorem packets_in_order_witness:
  "\<exists>r. feed_steps (ring_lap 8) ex_deliveries \<lparr>fr_feed = projr (new_feed 8 5), fr_admitted = [], fr_handed = []\<rparr> = Some r \<and>
     fr_handed r = [(0, [3, 3, 3]), (1, [2, 2, 2])] \<and> queue_bytes (fr_handed r) + pf_loss_count (fr_feed r) = 12 \<and>
     feed_step (ring_lap 8) (Admit 1 [9]) r = Some r"
proof -
  have f0: "new_feed 8 5 = Inr (projr (new_feed 8 5))" by (simp add: new_feed_def)
  have ops: "\<forall>op\<in>set ex_deliveries. op_line_ok op" by (simp add: ex_deliveries_def MAX_LINES_def)
  obtain r where r: "feed_steps (ring_lap 8) ex_deliveries \<lparr>fr_feed = projr (new_feed 8 5), fr_admitted = [], fr_handed = []\<rparr> = Some r"
    "queue_bytes (fr_handed r) + pf_loss_count (fr_feed r) = queue_bytes (take (pf_cursor (fr_feed r)) (reserved (fr_feed r)))"
    "\<forall>l data. l < MAX_LINES \<and> bit (pf_wanted_left (fr_feed r)) l \<longrightarrow> feed_step (ring_lap 8) (Admit l data) r = Some r"
    using packets_in_order [OF f0 ring_lossy ops, of 8] unfolding Let_def by blast
  have "fr_handed r = [(0, [3, 3, 3]), (1, [2, 2, 2])] \<and> pf_cursor (fr_feed r) = 3 \<and> length (reserved (fr_feed r)) = 3 \<and>
      queue_bytes (reserved (fr_feed r)) = 12 \<and> bit (pf_wanted_left (fr_feed r)) 1"
    using r(1) by (auto simp: ex_deliveries_def new_feed_def deliver_admit_def deliver_reserve_def deliver_publish_def MAX_LINES_def set_joined_def
        apply_joined_def mute_bits_def line_bit_def change_membership_def feed_drain_def queue_read_def ring_lap_def slot_size_def reserved_def
        Let_def numeral_eq_Suc upt_rec bit_simps)
  then show ?thesis using r by (auto simp: MAX_LINES_def)
qed

end
