(* ===== verification/Coinbase_Ws_Gateway.thy ===== *)
theory Coinbase_Ws_Gateway
  imports Order_Store Sim_Types "HOL-Library.Sublist"
begin

text \<open>
  \<open>src/src/venues/coinbase/coinbase_ws_order_gateway.cpp\<close>: the Coinbase user channel, one event loop.
  Sockets are numbered; closing one takes its data away, so a pointer kept to a closed socket dangles.
  An incoming message is seen through the members the gateway reads of the parsed document. The JWT
  decoder is a parameter. Sent frames are kept as values: the clock readings and the floating-point
  columns of a row are left out. \<open>None\<close> is an exception that leaves the handler, which ends the
  process, or the use of a closed socket.
\<close>

section \<open>Messages\<close>

text \<open>A member of a document: a string, or anything else with the text of the exception that reading it as a string raises.\<close>

datatype json_field = Text string | NotText string

record ws_request =
  wr_type :: "json_field option"
  wr_jwt :: "json_field option"
  wr_channel :: json_field

datatype ws_parsed = ParseError string | NotAnObject | Document ws_request

datatype jwt_error = TokenVerification string | OtherException string

datatype CbOrderStatus = CB_OPEN | CB_PENDING | CB_EDIT_QUEUED | CB_CANCEL_QUEUED | CB_CANCELLED | CB_FILLED | CB_EXPIRED | CB_FAILED |
  CB_UNKNOWN_ORDER_STATUS

fun to_coinbase_order_status :: "OrderStatus \<Rightarrow> CbOrderStatus" where
  "to_coinbase_order_status OS_NEW = CB_OPEN"
| "to_coinbase_order_status OS_PENDING_NEW = CB_PENDING"
| "to_coinbase_order_status OS_PENDING_REPLACE = CB_EDIT_QUEUED"
| "to_coinbase_order_status OS_PENDING_CANCEL = CB_CANCEL_QUEUED"
| "to_coinbase_order_status OS_REPLACED = CB_OPEN"
| "to_coinbase_order_status OS_CANCELED = CB_CANCELLED"
| "to_coinbase_order_status OS_FILLED = CB_FILLED"
| "to_coinbase_order_status OS_PARTIALLY_FILLED = CB_FILLED"
| "to_coinbase_order_status OS_EXPIRED = CB_EXPIRED"
| "to_coinbase_order_status OS_REJECTED = CB_FAILED"
| "to_coinbase_order_status _ = CB_UNKNOWN_ORDER_STATUS"

text \<open>The row of an update.\<close>

record order_row =
  row_avg_price :: string
  row_client_order_id :: string
  row_cumulative_quantity :: string
  row_leaves_quantity :: string
  row_limit_price :: string
  row_number_of_fills :: int
  row_order_id :: string
  row_order_side :: string
  row_order_type :: string
  row_post_only :: bool
  row_product_id :: string
  row_reject_reason :: OrdRejectReason
  row_status :: CbOrderStatus
  row_time_in_force :: string
  row_creation_time :: time_ns

definition order_row_of :: "OrderResponse \<Rightarrow> order_row" where
  "order_row_of response = \<lparr>
     row_avg_price = to_price_string (r_avg_fill_price response),
     row_client_order_id = r_client_order_id response,
     row_cumulative_quantity = to_qty_string (r_cum_qty response),
     row_leaves_quantity = to_qty_string (r_leaves_qty response),
     row_limit_price = to_price_string (r_price response),
     row_number_of_fills = (if r_last_qty response > 0 then r_cum_qty response div r_last_qty response else 0),
     row_order_id = r_order_id response,
     row_order_side = (if r_side response = BUY then ''BUY'' else ''SELL''),
     row_order_type = to_string_OrderType (r_order_type response),
     row_post_only = r_post_only response,
     row_product_id = r_symbol response,
     row_reject_reason = r_reject_reason response,
     row_status = to_coinbase_order_status (r_order_status response),
     row_time_in_force = to_string_TimeInForce (r_time_in_force response),
     row_creation_time = r_creation_time response\<rparr>"

datatype ws_frame =
    UserSnapshot "64 word" "Order list"
  | UserSubscribed "64 word" string
  | HeartbeatsSubscribed "64 word"
  | FuturesBalance "64 word"
  | UserUpdate "64 word" order_row
  | Heartbeat "64 word" "64 word"
  | Ping
  | ErrorFrame string

section \<open>State\<close>

record PerSocketData =
  sd_sub :: string
  sd_user_id :: string
  sd_seq_num :: "64 word"
  sd_last_pong :: nat
  sd_authenticated :: bool
  sd_subscribed_heartbeat :: bool

record WsGateway =
  wg_sockets :: "nat \<rightharpoonup> PerSocketData"
  wg_clients :: "string \<rightharpoonup> nat"
  wg_heartbeat_count :: "64 word"
  wg_orders :: OrderStore
  wg_response_read_index :: nat
  wg_sent :: "(nat \<times> ws_frame) list"
  wg_pong_timeout :: nat

definition new_ws_gateway :: "nat \<Rightarrow> nat \<Rightarrow> WsGateway" where
  "new_ws_gateway initial_reading_index pong_timeout = \<lparr>wg_sockets = Map.empty, wg_clients = Map.empty, wg_heartbeat_count = 0,
     wg_orders = new_store None, wg_response_read_index = initial_reading_index, wg_sent = [], wg_pong_timeout = pong_timeout\<rparr>"

section \<open>Operations\<close>

definition ws_send :: "nat \<Rightarrow> ws_frame \<Rightarrow> WsGateway \<Rightarrow> WsGateway" where
  "ws_send ws frame g = g\<lparr>wg_sent := wg_sent g @ [(ws, frame)]\<rparr>"

definition set_socket :: "nat \<Rightarrow> PerSocketData \<Rightarrow> WsGateway \<Rightarrow> WsGateway" where
  "set_socket ws d g = g\<lparr>wg_sockets := (wg_sockets g)(ws \<mapsto> d)\<rparr>"

text \<open>\<open>d\<close> is the fresh data of the connection, whose sequence number is left as it is.\<close>

definition ws_open :: "nat \<Rightarrow> PerSocketData \<Rightarrow> nat \<Rightarrow> WsGateway \<Rightarrow> WsGateway" where
  "ws_open ws d now g = set_socket ws (d\<lparr>sd_last_pong := now, sd_authenticated := False\<rparr>) g"

definition ws_pong :: "nat \<Rightarrow> nat \<Rightarrow> WsGateway \<Rightarrow> WsGateway option" where
  "ws_pong ws now g = map_option (\<lambda>d. set_socket ws (d\<lparr>sd_last_pong := now\<rparr>) g) (wg_sockets g ws)"

text \<open>The close handler; the connection's data is gone afterwards.\<close>

definition handle_close :: "nat \<Rightarrow> WsGateway \<Rightarrow> WsGateway option" where
  "handle_close ws g = (case wg_sockets g ws of
      None \<Rightarrow> None
    | Some d \<Rightarrow> Some (g\<lparr>wg_clients := (if sd_user_id d \<noteq> [] then (wg_clients g)(sd_user_id d := None) else wg_clients g),
                        wg_sockets := (wg_sockets g)(ws := None)\<rparr>))"

definition send_error :: "nat \<Rightarrow> string \<Rightarrow> WsGateway \<Rightarrow> WsGateway" where
  "send_error ws error_msg g = ws_send ws (ErrorFrame error_msg) g"

text \<open>The next number of a socket goes into the frame.\<close>

definition send_numbered :: "nat \<Rightarrow> ('s \<Rightarrow> ws_frame) \<Rightarrow> (PerSocketData \<Rightarrow> 's) \<Rightarrow> WsGateway \<Rightarrow> WsGateway option" where
  "send_numbered ws frame key g = (case wg_sockets g ws of
      None \<Rightarrow> None
    | Some d \<Rightarrow> Some (ws_send ws (frame (key d)) (set_socket ws (d\<lparr>sd_seq_num := sd_seq_num d + 1\<rparr>) g)))"

definition after_last_slash :: "string \<Rightarrow> string" where
  "after_last_slash sub = rev (takeWhile (\<lambda>c. c \<noteq> CHR ''/'') (rev sub))"

text \<open>Storing the identity; a user with no connection on record gets this one.\<close>

definition register :: "nat \<Rightarrow> string \<Rightarrow> PerSocketData \<Rightarrow> WsGateway \<Rightarrow> WsGateway" where
  "register ws sub d g =
     (let u = after_last_slash sub;
          d1 = d\<lparr>sd_sub := sub, sd_user_id := u, sd_authenticated := True\<rparr>
      in if wg_clients g u = None
         then set_socket ws (d1\<lparr>sd_seq_num := 0\<rparr>) (g\<lparr>wg_clients := (wg_clients g)(u \<mapsto> ws)\<rparr>)
         else set_socket ws d1 g)"

definition handle_channel :: "nat \<Rightarrow> string \<Rightarrow> WsGateway \<Rightarrow> WsGateway option" where
  "handle_channel ws channel g =
     (if channel = ''user'' then
        Option.bind (send_numbered ws (\<lambda>(n, u). UserSnapshot n (orders_of u (wg_orders g))) (\<lambda>d. (sd_seq_num d, sd_user_id d)) g)
          (send_numbered ws (\<lambda>(n, u). UserSubscribed n u) (\<lambda>d. (sd_seq_num d, sd_user_id d)))
      else if channel = ''heartbeats'' then
        (case wg_sockets g ws of None \<Rightarrow> None
         | Some d \<Rightarrow> send_numbered ws HeartbeatsSubscribed sd_seq_num (set_socket ws (d\<lparr>sd_subscribed_heartbeat := True\<rparr>) g))
      else if channel = ''futures_balance_summary'' then send_numbered ws FuturesBalance sd_seq_num g
      else Some (ws_send ws (ErrorFrame (''channel `'' @ channel @ ''` is not supported'')) g))"

definition handle_subscribe :: "(string \<Rightarrow> jwt_error + string) \<Rightarrow> nat \<Rightarrow> string \<Rightarrow> json_field \<Rightarrow> WsGateway \<Rightarrow> WsGateway option" where
  "handle_subscribe decode ws token channel g = (case decode token of
      Inl (TokenVerification what) \<Rightarrow> handle_close ws (send_error ws (''JWT verification failed: '' @ what) g)
    | Inl (OtherException what) \<Rightarrow> handle_close ws (send_error ws (''JWT decode error: '' @ what) g)
    | Inr sub \<Rightarrow>
        (case wg_sockets g ws of
           None \<Rightarrow> None
         | Some d \<Rightarrow>
             (let g1 = register ws sub d g
              in case channel of
                   NotText what \<Rightarrow> handle_close ws (send_error ws (''JWT decode error: '' @ what) g1)
                 | Text c \<Rightarrow> handle_channel ws c g1)))"

definition handle_message :: "(string \<Rightarrow> jwt_error + string) \<Rightarrow> nat \<Rightarrow> ws_parsed \<Rightarrow> WsGateway \<Rightarrow> WsGateway option" where
  "handle_message decode ws message g = (case message of
      ParseError what \<Rightarrow> Some (send_error ws (''Invalid JSON: '' @ what) g)
    | NotAnObject \<Rightarrow> None
    | Document msg \<Rightarrow>
        if wr_type msg = Some (Text ''subscribe'') then
          (case wr_jwt msg of
             None \<Rightarrow> Some (send_error ws ''Missing JWT token'' g)
           | Some (NotText what) \<Rightarrow> None
           | Some (Text token) \<Rightarrow> handle_subscribe decode ws token (wr_channel msg) g)
        else (case wr_type msg of
             Some (NotText what) \<Rightarrow> None
           | Some (Text ty) \<Rightarrow> Some (ws_send ws (ErrorFrame (''type `'' @ ty @ ''` is not supported'')) g)
           | None \<Rightarrow> Some (ws_send ws (ErrorFrame (''type `'' @ ''` is not supported'')) g)))"

definition handle_order_response :: "OrderResponse \<Rightarrow> nat \<Rightarrow> WsGateway \<Rightarrow> WsGateway option" where
  "handle_order_response response ws g =
     (if r_order_status response = OS_PENDING_NEW then Some g
      else send_numbered ws (\<lambda>n. UserUpdate n (order_row_of response)) sd_seq_num g)"

definition process_response :: "OrderResponse \<Rightarrow> WsGateway \<Rightarrow> WsGateway option" where
  "process_response response g =
     (let g1 = g\<lparr>wg_response_read_index := wg_response_read_index g + 1, wg_orders := os_apply (wg_orders g) response\<rparr>
      in if r_user_id response = [] then Some g1
         else case wg_clients g1 (r_user_id response) of
                None \<Rightarrow> Some g1
              | Some ws \<Rightarrow> handle_order_response response ws g1)"

fun responses_loop :: "nat \<Rightarrow> OrderResponse list \<Rightarrow> WsGateway \<Rightarrow> WsGateway option" where
  "responses_loop 0 queue g = Some g"
| "responses_loop (Suc n) queue g =
     (if wg_response_read_index g < length queue
      then Option.bind (process_response (queue ! wg_response_read_index g) g) (responses_loop n queue)
      else Some g)"

definition process_all_responses :: "OrderResponse list \<Rightarrow> WsGateway \<Rightarrow> WsGateway option" where
  "process_all_responses queue g = responses_loop 100 queue g"

text \<open>One client of the heartbeat walk; \<open>now\<close> and the last pong are in nanoseconds.\<close>

definition check_client :: "nat \<Rightarrow> string \<Rightarrow> WsGateway \<Rightarrow> WsGateway option" where
  "check_client now u g = (case wg_clients g u of
      None \<Rightarrow> Some g
    | Some ws \<Rightarrow>
        (case wg_sockets g ws of
           None \<Rightarrow> None
         | Some d \<Rightarrow>
             if (now - sd_last_pong d) div 1000000000 > wg_pong_timeout g
             then handle_close ws (g\<lparr>wg_clients := (wg_clients g)(u := None)\<rparr>)
             else Option.bind (if sd_subscribed_heartbeat d
                     then send_numbered ws (\<lambda>n. Heartbeat n (wg_heartbeat_count g)) sd_seq_num (g\<lparr>wg_heartbeat_count := wg_heartbeat_count g + 1\<rparr>)
                     else Some g)
                  (\<lambda>g1. Some (ws_send ws Ping g1))))"

text \<open>\<open>users\<close> is the order in which the walk meets the clients.\<close>

fun check_heartbeats :: "nat \<Rightarrow> string list \<Rightarrow> WsGateway \<Rightarrow> WsGateway option" where
  "check_heartbeats now [] g = Some g"
| "check_heartbeats now (u # users) g = Option.bind (check_client now u g) (check_heartbeats now users)"

definition ws_stop :: "WsGateway \<Rightarrow> WsGateway" where
  "ws_stop g = g\<lparr>wg_clients := Map.empty\<rparr>"

end
