(* ===== verification/Ws_Properties.thy ===== *)
theory Ws_Properties
  imports Coinbase_Ws_Gateway
begin

text \<open>
  The user channel keeps its promises as long as a connection stays with one user and a user with one
  connection: it never touches a closed socket, numbers the frames of a connection without a gap, and
  routes every report to its owner. Without that it does not, which the last section shows.
\<close>

section \<open>The invariant\<close>

fun frame_seq :: "ws_frame \<Rightarrow> 64 word option" where
  "frame_seq (UserSnapshot n _) = Some n"
| "frame_seq (UserSubscribed n _) = Some n"
| "frame_seq (HeartbeatsSubscribed n) = Some n"
| "frame_seq (FuturesBalance n) = Some n"
| "frame_seq (UserUpdate n _) = Some n"
| "frame_seq (Heartbeat n _) = Some n"
| "frame_seq Ping = None"
| "frame_seq (ErrorFrame _) = None"

definition nums :: "nat \<Rightarrow> (nat \<times> ws_frame) list \<Rightarrow> 64 word list" where
  "nums ws sent = concat (map (\<lambda>(v, f). if v = ws then (case frame_seq f of None \<Rightarrow> [] | Some n \<Rightarrow> [n]) else []) sent)"

lemma nums_simps [simp]:
  "nums ws [] = []" "nums ws (xs @ ys) = nums ws xs @ nums ws ys"
  "nums ws [(v, f)] = (if v = ws then (case frame_seq f of None \<Rightarrow> [] | Some n \<Rightarrow> [n]) else [])"
  by (simp_all add: nums_def)

text \<open>The numbers 0, 1, and so on of a connection, and the next one.\<close>

definition counted :: "64 word list \<Rightarrow> 64 word \<Rightarrow> bool" where
  "counted ns n \<longleftrightarrow> ns = map of_nat [0..<length ns] \<and> n = of_nat (length ns)"

lemma counted_Nil [simp]: "counted [] n \<longleftrightarrow> n = 0"
  by (simp add: counted_def)

lemma counted_snoc: "counted ns n \<Longrightarrow> counted (ns @ [n]) (n + 1)"
  by (simp add: counted_def add.commute)

definition client_ok :: "WsGateway \<Rightarrow> string \<Rightarrow> nat \<Rightarrow> bool" where
  "client_ok g u w \<longleftrightarrow> u \<noteq> [] \<and> (\<exists>d. wg_sockets g w = Some d \<and> sd_user_id d = u)"

definition socket_ok :: "WsGateway \<Rightarrow> nat \<Rightarrow> PerSocketData \<Rightarrow> bool" where
  "socket_ok g w d \<longleftrightarrow> (if sd_user_id d = [] then nums w (wg_sent g) = []
     else wg_clients g (sd_user_id d) = Some w \<and> counted (nums w (wg_sent g)) (sd_seq_num d))"

definition ws_inv :: "WsGateway \<Rightarrow> bool" where
  "ws_inv g \<longleftrightarrow> (\<forall>u w. wg_clients g u = Some w \<longrightarrow> client_ok g u w) \<and> (\<forall>w d. wg_sockets g w = Some d \<longrightarrow> socket_ok g w d)"

lemma ws_invI:
  "(\<And>u w. wg_clients g u = Some w \<Longrightarrow> client_ok g u w) \<Longrightarrow> (\<And>w d. wg_sockets g w = Some d \<Longrightarrow> socket_ok g w d) \<Longrightarrow> ws_inv g"
  by (simp add: ws_inv_def)

lemma ws_client: "ws_inv g \<Longrightarrow> wg_clients g u = Some w \<Longrightarrow> client_ok g u w"
  by (simp add: ws_inv_def)

lemma ws_socket: "ws_inv g \<Longrightarrow> wg_sockets g w = Some d \<Longrightarrow> socket_ok g w d"
  by (simp add: ws_inv_def)

lemma ws_client_socket: "ws_inv g \<Longrightarrow> wg_clients g u = Some w \<Longrightarrow> wg_sockets g w = Some d \<Longrightarrow> sd_user_id d = u \<and> u \<noteq> []"
  using ws_client by (fastforce simp: client_ok_def)

lemma new_ws_gateway_inv: "ws_inv (new_ws_gateway i t)"
  by (simp add: ws_inv_def new_ws_gateway_def)

lemma ws_inv_cong:
  assumes "wg_clients g' = wg_clients g" and "wg_sockets g' = wg_sockets g" and "\<And>w. nums w (wg_sent g') = nums w (wg_sent g)"
  shows "ws_inv g' = ws_inv g"
  by (simp add: ws_inv_def client_ok_def socket_ok_def assms)

lemma send_plain_inv: "ws_inv g \<Longrightarrow> frame_seq f = None \<Longrightarrow> ws_inv (ws_send ws f g)"
  by (subst ws_inv_cong [of _ g]) (simp_all add: ws_send_def)

lemma set_socket_inv:
  assumes "ws_inv g" and "wg_sockets g ws = Some d" and "sd_user_id d' = sd_user_id d" and "sd_seq_num d' = sd_seq_num d"
  shows "ws_inv (set_socket ws d' g)"
proof (rule ws_invI)
  fix u w assume "wg_clients (set_socket ws d' g) u = Some w"
  then have "client_ok g u w" using ws_client [OF assms(1)] by (simp add: set_socket_def)
  then show "client_ok (set_socket ws d' g) u w" using assms(2,3) by (auto simp: client_ok_def set_socket_def)
next
  fix w e assume e: "wg_sockets (set_socket ws d' g) w = Some e"
  show "socket_ok (set_socket ws d' g) w e"
  proof (cases "w = ws")
    case True
    then show ?thesis using e ws_socket [OF assms(1,2)] assms(3,4) by (simp add: socket_ok_def set_socket_def)
  next
    case False
    then show ?thesis using e ws_socket [OF assms(1)] by (simp add: socket_ok_def set_socket_def)
  qed
qed

lemma handle_close_inv:
  assumes "ws_inv g" and "wg_sockets g ws = Some d"
  obtains g' where "handle_close ws g = Some g'" "ws_inv g'" "wg_sockets g' = (wg_sockets g)(ws := None)" "wg_sent g' = wg_sent g"
proof -
  let ?g = "g\<lparr>wg_clients := (if sd_user_id d \<noteq> [] then (wg_clients g)(sd_user_id d := None) else wg_clients g), wg_sockets := (wg_sockets g)(ws := None)\<rparr>"
  have "ws_inv ?g"
  proof (rule ws_invI)
    fix u w assume u: "wg_clients ?g u = Some w"
    then have g: "wg_clients g u = Some w" and ne: "sd_user_id d \<noteq> [] \<Longrightarrow> u \<noteq> sd_user_id d" by (auto split: if_splits)
    from ws_client [OF assms(1) g] obtain e where e: "wg_sockets g w = Some e" "sd_user_id e = u" "u \<noteq> []" by (auto simp: client_ok_def)
    then have "w \<noteq> ws" using assms(2) ne by auto
    then show "client_ok ?g u w" using e by (simp add: client_ok_def)
  next
    fix w e assume "wg_sockets ?g w = Some e"
    then have e: "wg_sockets g w = Some e" "w \<noteq> ws" by (auto split: if_splits)
    have "sd_user_id e \<noteq> sd_user_id d" if "sd_user_id e \<noteq> []"
      using ws_socket [OF assms(1) e(1)] ws_socket [OF assms] that e(2) by (auto simp: socket_ok_def)
    then show "socket_ok ?g w e" using ws_socket [OF assms(1) e(1)] by (auto simp: socket_ok_def)
  qed
  then show thesis using that [of ?g] assms(2) by (simp add: handle_close_def)
qed

lemma send_numbered_inv:
  assumes "ws_inv g" and "wg_sockets g ws = Some d" and "sd_user_id d \<noteq> []" and "frame_seq (frame (key d)) = Some (sd_seq_num d)"
  obtains g' where "send_numbered ws frame key g = Some g'" "ws_inv g'"
    "wg_sockets g' = (wg_sockets g)(ws \<mapsto> d\<lparr>sd_seq_num := sd_seq_num d + 1\<rparr>)" "wg_sent g' = wg_sent g @ [(ws, frame (key d))]"
    "wg_clients g' = wg_clients g" "wg_orders g' = wg_orders g" "wg_response_read_index g' = wg_response_read_index g"
proof -
  let ?g = "ws_send ws (frame (key d)) (set_socket ws (d\<lparr>sd_seq_num := sd_seq_num d + 1\<rparr>) g)"
  have i: "wg_clients g (sd_user_id d) = Some ws" "counted (nums ws (wg_sent g)) (sd_seq_num d)"
    using ws_socket [OF assms(1,2)] assms(3) by (simp_all add: socket_ok_def)
  have "ws_inv ?g"
  proof (rule ws_invI)
    fix u w assume "wg_clients ?g u = Some w"
    then have "client_ok g u w" using ws_client [OF assms(1)] by (simp add: ws_send_def set_socket_def)
    then show "client_ok ?g u w" using assms(2) by (auto simp: client_ok_def ws_send_def set_socket_def)
  next
    fix w e assume e: "wg_sockets ?g w = Some e"
    show "socket_ok ?g w e"
    proof (cases "w = ws")
      case True
      then show ?thesis using e i counted_snoc [OF i(2)] assms(3,4) by (auto simp: socket_ok_def ws_send_def set_socket_def)
    next
      case False
      then show ?thesis using e ws_socket [OF assms(1), of w e] by (simp add: socket_ok_def ws_send_def set_socket_def)
    qed
  qed
  then show thesis using that [of ?g] assms(2) by (simp add: send_numbered_def ws_send_def set_socket_def)
qed

lemma register_inv:
  assumes "ws_inv g" and "wg_sockets g ws = Some d" and "after_last_slash sub \<noteq> []"
    and "sd_user_id d = [] \<or> sd_user_id d = after_last_slash sub"
    and "\<And>w' d'. w' \<noteq> ws \<Longrightarrow> wg_sockets g w' = Some d' \<Longrightarrow> sd_user_id d' \<noteq> after_last_slash sub"
  obtains d' where "wg_sockets (register ws sub d g) ws = Some d'" "sd_user_id d' = after_last_slash sub" "ws_inv (register ws sub d g)"
proof -
  let ?u = "after_last_slash sub" and ?g = "register ws sub d g"
  show thesis
  proof (cases "sd_user_id d = []")
    case True
    have none: "wg_clients g ?u = None"
    proof (rule ccontr)
      assume "wg_clients g ?u \<noteq> None"
      then obtain w where w: "wg_clients g ?u = Some w" by auto
      from ws_client [OF assms(1) w] obtain e where e: "wg_sockets g w = Some e" "sd_user_id e = ?u" by (auto simp: client_ok_def)
      then show False using assms(2,3,5) True by (cases "w = ws") auto
    qed
    let ?d = "d\<lparr>sd_sub := sub, sd_user_id := ?u, sd_authenticated := True, sd_seq_num := 0\<rparr>"
    have g: "?g = set_socket ws ?d (g\<lparr>wg_clients := (wg_clients g)(?u \<mapsto> ws)\<rparr>)" by (simp add: register_def none Let_def)
    have "ws_inv ?g"
    proof (rule ws_invI)
      fix u w assume u: "wg_clients ?g u = Some w"
      show "client_ok ?g u w"
      proof (cases "u = ?u")
        case True
        then show ?thesis using u assms(3) unfolding client_ok_def g by (simp add: set_socket_def)
      next
        case False
        then have uw: "wg_clients g u = Some w" using u by (simp add: g set_socket_def)
        from ws_client [OF assms(1) uw] have "client_ok g u w" .
        moreover have "w \<noteq> ws" using ws_client_socket [OF assms(1) uw] assms(2) True by auto
        ultimately show ?thesis by (simp add: client_ok_def g set_socket_def)
      qed
    next
      fix w e assume e: "wg_sockets ?g w = Some e"
      show "socket_ok ?g w e"
      proof (cases "w = ws")
        case w: True
        have "nums ws (wg_sent g) = []" using ws_socket [OF assms(1,2)] True by (simp add: socket_ok_def)
        then show ?thesis using e w assms(3) by (auto simp: socket_ok_def g set_socket_def)
      next
        case False
        then have eg: "wg_sockets g w = Some e" using e by (simp add: g set_socket_def)
        then show ?thesis using ws_socket [OF assms(1) eg] assms(5) [OF False eg] by (simp add: socket_ok_def g set_socket_def)
      qed
    qed
    then show thesis using that [of ?d] by (simp add: g set_socket_def)
  next
    case False
    then have u: "sd_user_id d = ?u" using assms(4) by simp
    let ?d = "d\<lparr>sd_sub := sub, sd_user_id := ?u, sd_authenticated := True\<rparr>"
    have "wg_clients g ?u = Some ws" using ws_socket [OF assms(1,2)] False u by (simp add: socket_ok_def)
    then have g: "?g = set_socket ws ?d g" by (simp add: register_def Let_def)
    have "ws_inv ?g" unfolding g by (rule set_socket_inv [OF assms(1,2)]) (simp_all add: u)
    then show thesis using that [of ?d] by (simp add: g set_socket_def)
  qed
qed

lemma handle_channel_inv:
  assumes "ws_inv g" and "wg_sockets g ws = Some d" and "sd_user_id d \<noteq> []"
  shows "\<exists>g'. handle_channel ws c g = Some g' \<and> ws_inv g'"
proof -
  consider (user) "c = ''user''" | (beat) "c = ''heartbeats''" | (fut) "c = ''futures_balance_summary''" |
    (other) "c \<notin> {''user'', ''heartbeats'', ''futures_balance_summary''}" by auto
  then show ?thesis
  proof cases
    case user
    let ?snap = "\<lambda>(n, u). UserSnapshot n (orders_of u (wg_orders g))" and ?key = "\<lambda>d. (sd_seq_num d, sd_user_id d)"
    obtain g1 where 1: "send_numbered ws ?snap ?key g = Some g1" "ws_inv g1" "wg_sockets g1 = (wg_sockets g)(ws \<mapsto> d\<lparr>sd_seq_num := sd_seq_num d + 1\<rparr>)"
      by (rule send_numbered_inv [OF assms, of ?snap ?key]) simp_all
    have s1: "wg_sockets g1 ws = Some (d\<lparr>sd_seq_num := sd_seq_num d + 1\<rparr>)" "sd_user_id (d\<lparr>sd_seq_num := sd_seq_num d + 1\<rparr>) \<noteq> []" using 1(3) assms(3) by simp_all
    obtain g2 where 2: "send_numbered ws (\<lambda>(n, u). UserSubscribed n u) ?key g1 = Some g2" "ws_inv g2"
      by (rule send_numbered_inv [OF 1(2) s1, of "\<lambda>(n, u). UserSubscribed n u" ?key]) simp_all
    have "handle_channel ws c g = Some g2" by (simp only: handle_channel_def user if_True 1(1) 2(1) Option.bind.simps refl)
    then show ?thesis using 2(2) by blast
  next
    case beat
    let ?g = "set_socket ws (d\<lparr>sd_subscribed_heartbeat := True\<rparr>) g"
    have g: "ws_inv ?g" "wg_sockets ?g ws = Some (d\<lparr>sd_subscribed_heartbeat := True\<rparr>)" "sd_user_id (d\<lparr>sd_subscribed_heartbeat := True\<rparr>) \<noteq> []"
      using set_socket_inv [OF assms(1,2)] assms(3) by (simp_all add: set_socket_def)
    show ?thesis by (rule send_numbered_inv [OF g, of HeartbeatsSubscribed sd_seq_num]) (simp_all add: handle_channel_def beat assms(2))
  next
    case fut
    show ?thesis by (rule send_numbered_inv [OF assms, of FuturesBalance sd_seq_num]) (simp_all add: handle_channel_def fut)
  next
    case other
    then show ?thesis using send_plain_inv [OF assms(1)] by (simp add: handle_channel_def)
  qed
qed

section \<open>Steps\<close>

datatype ws_event =
    Opened nat PerSocketData nat
  | Pong nat nat
  | Message nat ws_parsed
  | Closed nat
  | Poll "OrderResponse list"
  | Timer nat "string list"

fun ws_step :: "(string \<Rightarrow> jwt_error + string) \<Rightarrow> ws_event \<Rightarrow> WsGateway \<Rightarrow> WsGateway option" where
  "ws_step decode (Opened w d now) g = Some (ws_open w d now g)"
| "ws_step decode (Pong w now) g = ws_pong w now g"
| "ws_step decode (Message w m) g = handle_message decode w m g"
| "ws_step decode (Closed w) g = handle_close w g"
| "ws_step decode (Poll queue) g = process_all_responses queue g"
| "ws_step decode (Timer now users) g = check_heartbeats now users g"

text \<open>A document whose members are of the types the handler reads them as.\<close>

fun readable :: "ws_parsed \<Rightarrow> bool" where
  "readable (ParseError what) \<longleftrightarrow> True"
| "readable NotAnObject \<longleftrightarrow> False"
| "readable (Document msg) \<longleftrightarrow> (case wr_type msg of Some (NotText _) \<Rightarrow> False | _ \<Rightarrow> True) \<and> (case wr_jwt msg of Some (NotText _) \<Rightarrow> False | _ \<Rightarrow> True)"

text \<open>The user a message authenticates as.\<close>

fun claims_user :: "(string \<Rightarrow> jwt_error + string) \<Rightarrow> ws_parsed \<Rightarrow> string option" where
  "claims_user decode (Document msg) = (case wr_jwt msg of
      Some (Text token) \<Rightarrow> (case decode token of Inr sub \<Rightarrow> Some (after_last_slash sub) | Inl _ \<Rightarrow> None)
    | _ \<Rightarrow> None)"
| "claims_user decode _ = None"

text \<open>
  What the outside keeps to: events come from open sockets, a message is readable, a connection stays
  with one user and no user has two connections.
\<close>

fun event_ok :: "(string \<Rightarrow> jwt_error + string) \<Rightarrow> WsGateway \<Rightarrow> ws_event \<Rightarrow> bool" where
  "event_ok decode g (Opened w d now) \<longleftrightarrow> wg_sockets g w = None \<and> w \<notin> fst ` set (wg_sent g) \<and> sd_user_id d = []"
| "event_ok decode g (Pong w now) \<longleftrightarrow> wg_sockets g w \<noteq> None"
| "event_ok decode g (Message w m) \<longleftrightarrow> (case wg_sockets g w of None \<Rightarrow> False | Some d \<Rightarrow> readable m \<and>
     (\<forall>u. claims_user decode m = Some u \<longrightarrow> u \<noteq> [] \<and> (sd_user_id d = [] \<or> sd_user_id d = u) \<and>
        (\<forall>w' d'. w' \<noteq> w \<longrightarrow> wg_sockets g w' = Some d' \<longrightarrow> sd_user_id d' \<noteq> u)))"
| "event_ok decode g (Closed w) \<longleftrightarrow> wg_sockets g w \<noteq> None"
| "event_ok decode g _ \<longleftrightarrow> True"

lemma handle_message_inv:
  assumes inv: "ws_inv g" and ok: "event_ok decode g (Message ws m)"
  shows "\<exists>g'. handle_message decode ws m g = Some g' \<and> ws_inv g'"
proof -
  obtain d where d: "wg_sockets g ws = Some d" "readable m" using ok by (auto split: option.splits)
  have err: "\<exists>g'. handle_close ws (send_error ws t g1) = Some g' \<and> ws_inv g'" if "ws_inv g1" "wg_sockets g1 ws = Some e" for t g1 e
    by (rule handle_close_inv [of "send_error ws t g1" ws e]) (use send_plain_inv [OF that(1)] that(2) in \<open>auto simp: send_error_def ws_send_def\<close>)
  show ?thesis
  proof (cases m)
    case (Document msg)
    show ?thesis
    proof (cases "wr_type msg = Some (Text ''subscribe'')")
      case False
      then show ?thesis using d(2) send_plain_inv [OF inv]
        by (auto simp: handle_message_def Document split: option.splits json_field.splits)
    next
      case sub: True
      show ?thesis
      proof (cases "wr_jwt msg")
        case None
        then show ?thesis using send_plain_inv [OF inv] by (simp add: handle_message_def Document sub send_error_def)
      next
        case (Some j)
        then obtain token where j: "wr_jwt msg = Some (Text token)" using d(2) by (cases j) (auto simp: Document)
        have hm: "handle_message decode ws m g = handle_subscribe decode ws token (wr_channel msg) g" by (simp add: handle_message_def Document sub j)
        show ?thesis
        proof (cases "decode token")
          case (Inl e)
          then show ?thesis unfolding hm using err [OF inv d(1)] by (cases e) (simp_all add: handle_subscribe_def)
        next
          case (Inr s)
          have cl: "claims_user decode m = Some (after_last_slash s)" by (simp add: Document j Inr)
          have "after_last_slash s \<noteq> []" "sd_user_id d = [] \<or> sd_user_id d = after_last_slash s"
            "\<And>w' d'. w' \<noteq> ws \<Longrightarrow> wg_sockets g w' = Some d' \<Longrightarrow> sd_user_id d' \<noteq> after_last_slash s"
            using ok cl d(1) by auto
          from register_inv [OF inv d(1) this]
          obtain e where e: "wg_sockets (register ws s d g) ws = Some e" "sd_user_id e = after_last_slash s" "ws_inv (register ws s d g)" .
          have ne: "sd_user_id e \<noteq> []" using e(2) \<open>after_last_slash s \<noteq> []\<close> by simp
          show ?thesis
          proof (cases "wr_channel msg")
            case (Text c)
            then show ?thesis unfolding hm using handle_channel_inv [OF e(3,1) ne] by (simp add: handle_subscribe_def Inr d(1) Let_def)
          next
            case (NotText what)
            then show ?thesis unfolding hm using err [OF e(3,1)] by (simp add: handle_subscribe_def Inr d(1) Let_def)
          qed
        qed
      qed
    qed
  qed (use d inv send_plain_inv in \<open>auto simp: handle_message_def send_error_def\<close>)
qed

section \<open>Routing\<close>

fun frame_row :: "ws_frame \<Rightarrow> order_row option" where
  "frame_row (UserUpdate n row) = Some row"
| "frame_row _ = None"

text \<open>Where a report goes: to its owner's connection, unless it says \<open>PENDING_NEW\<close>.\<close>

definition routed :: "(string \<rightharpoonup> nat) \<Rightarrow> OrderResponse \<Rightarrow> (nat \<times> order_row) list" where
  "routed clients r = (if r_user_id r = [] \<or> r_order_status r = OS_PENDING_NEW then []
     else case clients (r_user_id r) of None \<Rightarrow> [] | Some w \<Rightarrow> [(w, order_row_of r)])"

lemma process_response_inv:
  assumes "ws_inv g"
  obtains g' new where "process_response r g = Some g'" "ws_inv g'" "wg_clients g' = wg_clients g" "wg_orders g' = os_apply (wg_orders g) r"
    "wg_response_read_index g' = wg_response_read_index g + 1" "wg_sent g' = wg_sent g @ new"
    "map (\<lambda>(w, f). (w, frame_row f)) new = map (\<lambda>(w, row). (w, Some row)) (routed (wg_clients g) r)"
proof -
  let ?g = "g\<lparr>wg_response_read_index := wg_response_read_index g + 1, wg_orders := os_apply (wg_orders g) r\<rparr>"
  have inv: "ws_inv ?g" using assms by (subst ws_inv_cong [of _ g]) simp_all
  show thesis
  proof (cases "routed (wg_clients g) r")
    case Nil
    then have "process_response r g = Some ?g"
      by (auto simp: process_response_def routed_def handle_order_response_def Let_def split: option.splits if_splits)
    then show thesis using that [of ?g "[]"] inv Nil by simp
  next
    case (Cons p ps)
    then obtain ws where ws: "r_user_id r \<noteq> []" "r_order_status r \<noteq> OS_PENDING_NEW" "wg_clients g (r_user_id r) = Some ws"
      "routed (wg_clients g) r = [(ws, order_row_of r)]" by (auto simp: routed_def split: option.splits if_splits)
    have "wg_clients ?g (r_user_id r) = Some ws" using ws(3) by simp
    from ws_client [OF inv this] obtain d where d: "wg_sockets ?g ws = Some d" "sd_user_id d = r_user_id r" by (auto simp: client_ok_def)
    have ne: "sd_user_id d \<noteq> []" using d(2) ws(1) by simp
    let ?f = "\<lambda>n. UserUpdate n (order_row_of r)"
    obtain g' where g': "send_numbered ws ?f sd_seq_num ?g = Some g'" "ws_inv g'" "wg_sent g' = wg_sent ?g @ [(ws, ?f (sd_seq_num d))]"
      "wg_clients g' = wg_clients ?g" "wg_orders g' = wg_orders ?g" "wg_response_read_index g' = wg_response_read_index ?g"
      by (rule send_numbered_inv [OF inv d(1) ne, of ?f sd_seq_num]) simp_all
    have "process_response r g = Some g'" using g'(1) ws(1-3) by (simp add: process_response_def handle_order_response_def)
    then show thesis using that [of g' "[(ws, ?f (sd_seq_num d))]"] g'(2-6) ws(4) by simp
  qed
qed

lemma responses_loop_inv:
  "ws_inv g \<Longrightarrow> \<exists>g' new. responses_loop n queue g = Some g' \<and> ws_inv g' \<and> wg_clients g' = wg_clients g \<and>
     (let batch = take n (drop (wg_response_read_index g) queue) in
        wg_orders g' = foldl os_apply (wg_orders g) batch \<and> wg_response_read_index g' = wg_response_read_index g + length batch \<and>
        wg_sent g' = wg_sent g @ new \<and>
        map (\<lambda>(w, f). (w, frame_row f)) new = map (\<lambda>(w, row). (w, Some row)) (concat (map (routed (wg_clients g)) batch)))"
proof (induction n arbitrary: g)
  case (Suc n)
  show ?case
  proof (cases "wg_response_read_index g < length queue")
    case False
    then show ?thesis using Suc.prems by (intro exI [of _ g] exI [of _ "[]"]) simp
  next
    case True
    let ?r = "queue ! wg_response_read_index g"
    obtain g1 new1 where 1: "process_response ?r g = Some g1" "ws_inv g1" "wg_clients g1 = wg_clients g" "wg_orders g1 = os_apply (wg_orders g) ?r"
      "wg_response_read_index g1 = wg_response_read_index g + 1" "wg_sent g1 = wg_sent g @ new1"
      "map (\<lambda>(w, f). (w, frame_row f)) new1 = map (\<lambda>(w, row). (w, Some row)) (routed (wg_clients g) ?r)"
      by (rule process_response_inv [OF Suc.prems])
    obtain g' new where 2: "responses_loop n queue g1 = Some g'" "ws_inv g'" "wg_clients g' = wg_clients g1"
      "let batch = take n (drop (wg_response_read_index g1) queue) in
        wg_orders g' = foldl os_apply (wg_orders g1) batch \<and> wg_response_read_index g' = wg_response_read_index g1 + length batch \<and>
        wg_sent g' = wg_sent g1 @ new \<and>
        map (\<lambda>(w, f). (w, frame_row f)) new = map (\<lambda>(w, row). (w, Some row)) (concat (map (routed (wg_clients g1)) batch))"
      using Suc.IH [OF 1(2)] by blast
    have dr: "drop (wg_response_read_index g) queue = ?r # drop (wg_response_read_index g + 1) queue" using True by (simp add: Cons_nth_drop_Suc)
    show ?thesis
      by (rule exI [of _ g'], rule exI [of _ "new1 @ new"]) (use 1 2 True dr in \<open>simp add: Let_def\<close>)
  qed
qed (use ws_inv_def in auto)

section \<open>Sessions\<close>

lemma check_client_inv:
  assumes "ws_inv g"
  shows "\<exists>g'. check_client now u g = Some g' \<and> ws_inv g'"
proof (cases "wg_clients g u")
  case None
  then show ?thesis using assms by (simp add: check_client_def)
next
  case (Some ws)
  from ws_client [OF assms Some] obtain d where d: "wg_sockets g ws = Some d" "sd_user_id d = u" "u \<noteq> []" by (auto simp: client_ok_def)
  show ?thesis
  proof (cases "(now - sd_last_pong d) div 1000000000 > wg_pong_timeout g")
    case True
    obtain g' where "handle_close ws g = Some g'" "ws_inv g'" by (rule handle_close_inv [OF assms d(1)])
    moreover have "handle_close ws (g\<lparr>wg_clients := (wg_clients g)(u := None)\<rparr>) = handle_close ws g"
      using d by (simp add: handle_close_def)
    ultimately show ?thesis using True Some d(1) by (simp add: check_client_def)
  next
    case False
    let ?g = "g\<lparr>wg_heartbeat_count := wg_heartbeat_count g + 1\<rparr>" and ?f = "\<lambda>n. Heartbeat n (wg_heartbeat_count g)"
    have g: "ws_inv ?g" "wg_sockets ?g ws = Some d" "sd_user_id d \<noteq> []" using assms d by (simp_all add: ws_inv_cong [of ?g g])
    obtain g1 where g1: "(if sd_subscribed_heartbeat d then send_numbered ws ?f sd_seq_num ?g else Some g) = Some g1" "ws_inv g1"
    proof (cases "sd_subscribed_heartbeat d")
      case True
      show ?thesis by (rule send_numbered_inv [OF g, of ?f sd_seq_num]) (use that True in simp_all)
    next
      case False
      then show ?thesis using that [of g] assms by simp
    qed
    have "check_client now u g = Some (ws_send ws Ping g1)" using False Some d(1) g1(1) by (simp add: check_client_def)
    then show ?thesis using send_plain_inv [OF g1(2)] by simp
  qed
qed

lemma check_heartbeats_inv: "ws_inv g \<Longrightarrow> \<exists>g'. check_heartbeats now users g = Some g' \<and> ws_inv g'"
proof (induction users arbitrary: g)
  case (Cons u users)
  then show ?case using check_client_inv [OF Cons.prems, of now u] by fastforce
qed simp

lemma ws_open_inv:
  assumes "ws_inv g" and "event_ok decode g (Opened w d now)"
  shows "ws_inv (ws_open w d now g)"
proof (rule ws_invI)
  fix u v assume "wg_clients (ws_open w d now g) u = Some v"
  then have "client_ok g u v" using ws_client [OF assms(1)] by (simp add: ws_open_def set_socket_def)
  then show "client_ok (ws_open w d now g) u v" using assms(2) by (auto simp: client_ok_def ws_open_def set_socket_def)
next
  fix v e assume e: "wg_sockets (ws_open w d now g) v = Some e"
  have "nums w sent = []" if "w \<notin> fst ` set sent" for sent :: "(nat \<times> ws_frame) list" using that by (force simp: nums_def)
  then show "socket_ok (ws_open w d now g) v e"
    using e ws_socket [OF assms(1), of v e] assms(2) by (auto simp: socket_ok_def ws_open_def set_socket_def split: if_splits)
qed

lemma ws_step_inv:
  assumes "ws_inv g" and "event_ok decode g e"
  shows "\<exists>g'. ws_step decode e g = Some g' \<and> ws_inv g'"
proof (cases e)
  case (Opened w d now)
  then show ?thesis using ws_open_inv [OF assms(1)] assms(2) by auto
next
  case (Pong w now)
  then obtain d where "wg_sockets g w = Some d" using assms(2) by auto
  then show ?thesis using set_socket_inv [OF assms(1)] by (simp add: Pong ws_pong_def)
next
  case (Message w m)
  then show ?thesis using handle_message_inv [OF assms(1)] assms(2) by simp
next
  case (Closed w)
  then obtain d where d: "wg_sockets g w = Some d" using assms(2) by auto
  show ?thesis by (rule handle_close_inv [OF assms(1) d]) (simp add: Closed)
next
  case (Poll queue)
  then show ?thesis using responses_loop_inv [OF assms(1), of 100 queue] by (auto simp: process_all_responses_def Let_def)
next
  case (Timer now users)
  then show ?thesis using check_heartbeats_inv [OF assms(1)] by simp
qed

fun ws_run :: "(string \<Rightarrow> jwt_error + string) \<Rightarrow> ws_event list \<Rightarrow> WsGateway \<Rightarrow> WsGateway option" where
  "ws_run decode [] g = Some g"
| "ws_run decode (e # es) g = Option.bind (ws_step decode e g) (ws_run decode es)"

text \<open>Every event is one the outside may send when it happens.\<close>

fun events_allowed :: "(string \<Rightarrow> jwt_error + string) \<Rightarrow> ws_event list \<Rightarrow> WsGateway \<Rightarrow> bool" where
  "events_allowed decode [] g \<longleftrightarrow> True"
| "events_allowed decode (e # es) g \<longleftrightarrow> event_ok decode g e \<and>
     (case ws_step decode e g of None \<Rightarrow> True | Some g' \<Rightarrow> events_allowed decode es g')"

lemma ws_run_inv: "ws_inv g \<Longrightarrow> events_allowed decode es g \<Longrightarrow> \<exists>g'. ws_run decode es g = Some g' \<and> ws_inv g'"
proof (induction es arbitrary: g)
  case (Cons e es)
  then obtain g1 where "ws_step decode e g = Some g1" "ws_inv g1" using ws_step_inv by fastforce
  then show ?case using Cons by simp
qed simp



text \<open>A connection that subscribes to heartbeats and then to its orders.\<close>

definition ex_decode :: "string \<Rightarrow> jwt_error + string" where
  "ex_decode token = (if token = [] then Inl (OtherException ''invalid token supplied'') else Inr (''org/'' @ token))"

definition ex_socket :: PerSocketData where
  "ex_socket = \<lparr>sd_sub = [], sd_user_id = [], sd_seq_num = 77, sd_last_pong = 0, sd_authenticated = False, sd_subscribed_heartbeat = False\<rparr>"

definition ex_subscribe :: "string \<Rightarrow> string \<Rightarrow> ws_parsed" where
  "ex_subscribe token channel = Document \<lparr>wr_type = Some (Text ''subscribe''), wr_jwt = Some (Text token), wr_channel = Text channel\<rparr>"

definition ex_user_report :: "string \<Rightarrow> OrderResponse" where
  "ex_user_report u = (ex_report ''o1'' ET_NEW OS_NEW 1)\<lparr>r_user_id := u\<rparr>"

lemmas ws_eval = ex_decode_def ex_socket_def ex_subscribe_def ex_user_report_def ex_report_def new_ws_gateway_def ws_open_def set_socket_def ws_send_def send_error_def
  handle_message_def handle_subscribe_def register_def handle_channel_def send_numbered_def handle_close_def after_last_slash_def
  process_all_responses_def process_response_def handle_order_response_def



section \<open>Without it\<close>

text \<open>The second connection of a user takes the first off the record when it closes: the first, still open, gets no more reports.\<close>

theorem second_connection_orphans_first:
  "\<exists>g. ws_run ex_decode [Opened 1 ex_socket 0, Message 1 (ex_subscribe ''u1'' ''user''), Opened 2 ex_socket 0, Message 2 (ex_subscribe ''u1'' ''user''),
       Closed 2] (new_ws_gateway 0 60) = Some g \<and> wg_sockets g 1 \<noteq> None \<and> wg_clients g ''u1'' = None"
  by (simp add: ws_eval Let_def)

lemma responses_loop_first:
  "responses_loop 100 queue g = (if wg_response_read_index g < length queue
     then Option.bind (process_response (queue ! wg_response_read_index g) g) (responses_loop 99 queue) else Some g)"
  using responses_loop.simps(2) [of 99 queue g] by simp

text \<open>A connection that identifies itself as two users stays on record for the first after it has closed: the next report of that user uses it.\<close>

theorem stale_client_used_after_close:
  "ws_run ex_decode [Opened 1 ex_socket 0, Message 1 (ex_subscribe ''u1'' ''user''), Message 1 (ex_subscribe ''u2'' ''user''), Closed 1,
     Poll [ex_user_report ''u1'']] (new_ws_gateway 0 60) = None"
  by (simp add: ws_eval Let_def responses_loop_first)

text \<open>A message that is JSON but no object leaves the handler with an exception.\<close>

theorem non_object_message_escapes: "handle_message decode ws NotAnObject g = None"
  by (simp add: handle_message_def)

end
