(* ===== verification/Hyperliquid_Exchange.thy ===== *)
theory Hyperliquid_Exchange
  imports Coinbase_Exchange Hyperliquid_L2
begin

text \<open>
  \<open>src/src/venues/hyperliquid/hyperliquid_exchange.cpp\<close>: the Hyperliquid exchange. Feed payloads are
  seen as what the handlers read of the JSON document, with prices and sizes as the fixed-point values
  they are converted to. The venue's liquidity rests with priority 0, which the book replaces by the
  event's time.
\<close>

section \<open>State\<close>

datatype HyperliquidChannel = L2_BOOK | TRADES | L2

fun channel_number :: "HyperliquidChannel \<Rightarrow> nat" where
  "channel_number L2_BOOK = 0"
| "channel_number TRADES = 1"
| "channel_number L2 = 2"

text \<open>A book message: a snapshot names its levels, a diff its changes and removals.\<close>

record hl_levels =
  hm_coin :: "string option"
  hm_levels :: "(price_t \<times> qty_t) list list"
  hm_time_ms :: nat

record hl_diff = hl_levels +
  hm_removed :: "nat list list"

record hl_trade =
  ht_buy :: bool
  ht_price :: price_t
  ht_qty :: qty_t
  ht_time_ms :: nat

datatype FeedEvent = L2Snapshot hl_levels | L2DiffEvent hl_diff | L2Other | TradesEvent string "hl_trade list"

record 'l HyperliquidExchange =
  hl_base :: "'l Exchange"
  hl_pending :: "HyperliquidChannel \<Rightarrow> string set"
  hl_ref_levels :: "string \<Rightarrow> Side \<Rightarrow> price_t list"
  hl_use_live_feed :: bool
  hl_md_feeds :: "nat list"
  hl_map_coin_feed :: "(string \<times> nat) list"
  hl_event_queue :: "FeedEvent list"
  hl_num_subscriptions :: "string \<Rightarrow> 16 word"

definition event_time_ns :: "nat \<Rightarrow> time_ns" where
  "event_time_ns time_ms = (time_ms * 1000000) mod 2 ^ 64"

section \<open>The book\<close>

text \<open>Venue liquidity that may cross takes what it can under a fresh number; what is left may rest under it.\<close>

definition hl_match :: "'l l3_ops \<Rightarrow> Side \<Rightarrow> price_t \<Rightarrow> qty_t \<Rightarrow> time_ns \<Rightarrow> 'l Symbol \<Rightarrow> (order_num \<times> TradeSummaryInfo list \<times> qty_t \<times> 'l Symbol) option" where
  "hl_match L s px q t sy =
     (let (i, sy1) = nextOrderId sy
      in map_option (\<lambda>(trade_summaries, qty, sy2). (i, trade_summaries, qty, sy2)) (engine_match_feed L (sy_engine sy1) s i px q t 0 sy1))"

definition hl_rest :: "'l l3_ops \<Rightarrow> order_num \<Rightarrow> Side \<Rightarrow> price_t \<Rightarrow> qty_t \<Rightarrow> time_ns \<Rightarrow> 'l Symbol \<Rightarrow> 'l Symbol" where
  "hl_rest L i s px qty t sy = (if qty > 0 then snd (base_addOrder L i s px qty t 0 0 True sy) else sy)"

definition hl_match_and_rest :: "'l l3_ops \<Rightarrow> Side \<Rightarrow> price_t \<Rightarrow> qty_t \<Rightarrow> time_ns \<Rightarrow> 'l Symbol \<times> 'l Exchange \<Rightarrow> ('l Symbol \<times> 'l Exchange) option" where
  "hl_match_and_rest L s px q t v = (case hl_match L s px q t (fst v) of
      None \<Rightarrow> None
    | Some (i, trade_summaries, qty, sy1) \<Rightarrow>
        (case foldl publishTradeSummary (sy1, snd v) trade_summaries of (sy2, x2) \<Rightarrow> Some (hl_rest L i s px qty t sy2, x2)))"

definition applyPhantomLevelUpdate ::
    "'l l3_ops \<Rightarrow> Side \<Rightarrow> price_t \<Rightarrow> qty_t \<Rightarrow> time_ns \<Rightarrow> 'l Symbol \<times> 'l Exchange \<Rightarrow> ('l Symbol \<times> 'l Exchange) option" where
  "applyPhantomLevelUpdate L s px target_qty t v = (case v of (sy, x) \<Rightarrow>
     if l3_level_at L (ob_l3 sy) s px = None then
       if target_qty \<le> 0 then Some (sy, x) else hl_match_and_rest L s px target_qty t (sy, x)
     else Some (reconcilePhantomQty L s px target_qty t 0 True sy, x))"

fun process_side :: "'l l3_ops \<Rightarrow> Side \<Rightarrow> time_ns \<Rightarrow> (price_t \<times> qty_t) list \<Rightarrow> 'l Symbol \<times> 'l Exchange \<times> price_t list \<Rightarrow>
    ('l Symbol \<times> 'l Exchange \<times> price_t list) option" where
  "process_side L s t [] v = Some v"
| "process_side L s t ((px, qty) # levels) (sy, x, ref_side) =
     (if qty \<le> 0 then process_side L s t levels (sy, x, ref_side)
      else case hl_match_and_rest L s px qty t (sy, x) of
             None \<Rightarrow> None
           | Some (sy1, x1) \<Rightarrow> process_side L s t levels (sy1, x1, ref_side @ [px]))"

fun apply_levels :: "'l l3_ops \<Rightarrow> Side \<Rightarrow> time_ns \<Rightarrow> (price_t \<times> qty_t) list \<Rightarrow> 'l Symbol \<times> 'l Exchange \<Rightarrow> ('l Symbol \<times> 'l Exchange) option" where
  "apply_levels L s t [] v = Some v"
| "apply_levels L s t ((px, qty) # levels) v = Option.bind (applyPhantomLevelUpdate L s px qty t v) (apply_levels L s t levels)"

text \<open>Removals set their levels to nothing and leave the mirror; the mirror is not read in between.\<close>

definition apply_removals :: "'l l3_ops \<Rightarrow> Side \<Rightarrow> time_ns \<Rightarrow> nat list \<Rightarrow> 'l Symbol \<times> 'l Exchange \<times> price_t list \<Rightarrow>
    ('l Symbol \<times> 'l Exchange \<times> price_t list) option" where
  "apply_removals L s t indices v = (case v of (sy, x, ref_side) \<Rightarrow>
     (let removed_prices = resolve_removed indices ref_side
      in map_option (\<lambda>(sy', x'). (sy', x', drop_prices removed_prices ref_side))
           (apply_levels L s t (map (\<lambda>p. (p, 0)) removed_prices) (sy, x))))"

definition apply_changes :: "'l l3_ops \<Rightarrow> Side \<Rightarrow> time_ns \<Rightarrow> (price_t \<times> qty_t) list \<Rightarrow> 'l Symbol \<times> 'l Exchange \<times> price_t list \<Rightarrow>
    ('l Symbol \<times> 'l Exchange \<times> price_t list) option" where
  "apply_changes L s t levels v = (case v of (sy, x, ref_side) \<Rightarrow>
     map_option (\<lambda>(sy', x'). (sy', x', foldl (insert_price s) ref_side (map fst levels))) (apply_levels L s t levels (sy, x)))"

section \<open>Events\<close>

definition hl_addSymbol :: "'l \<Rightarrow> nat \<Rightarrow> MDTrade \<Rightarrow> string \<Rightarrow> 'l HyperliquidExchange \<Rightarrow> config_error + 'l HyperliquidExchange" where
  "hl_addSymbol e0 i d coin h = (case assignMatching (unbound e0 coin i d (hl_base h)) (hl_base h) of
      Inl e \<Rightarrow> Inl e
    | Inr (sy, x') \<Rightarrow> Inr (h\<lparr>hl_base := x'\<lparr>x_symbols := (x_symbols x')(coin \<mapsto> sy)\<rparr>\<rparr>))"

text \<open>The instrument of a coin, made on first sight; \<open>i\<close> is the identity the symbol manager gives it.\<close>

definition hl_find_or_add :: "'l \<Rightarrow> nat \<Rightarrow> MDTrade \<Rightarrow> string \<Rightarrow> 'l HyperliquidExchange \<Rightarrow> config_error + 'l HyperliquidExchange" where
  "hl_find_or_add e0 i d coin h = (if x_symbols (hl_base h) coin = None then hl_addSymbol e0 i d coin h else Inr h)"

definition finalizeL2Event :: "'l l3_ops \<Rightarrow> string \<Rightarrow> 'l Symbol \<Rightarrow> 'l Exchange \<Rightarrow> (HyperliquidChannel \<Rightarrow> string set) \<Rightarrow>
    'l Exchange \<times> (HyperliquidChannel \<Rightarrow> string set)" where
  "finalizeL2Event L coin sy x pending =
     (let l2book_was_pending = coin \<in> pending L2_BOOK;
          l2_was_pending = coin \<in> pending L2;
          x1 = (if l2book_was_pending then populateL2SubscriptionResponse L (channel_number L2_BOOK) sy x else x);
          x2 = (if l2_was_pending then populateL2SubscriptionResponse L (channel_number L2) sy x1 else x1);
          x3 = (if \<not> l2book_was_pending \<or> \<not> l2_was_pending then pushL2Snapshot L sy x2 else x2)
      in (x3, pending(L2_BOOK := pending L2_BOOK - {coin}, L2 := pending L2 - {coin})))"

text \<open>The common tail: stamp the book, answer or publish, drop the cached updates, put everything back.\<close>

definition finish_l2 :: "'l l3_ops \<Rightarrow> string \<Rightarrow> time_ns \<Rightarrow> (Side \<Rightarrow> price_t list) \<Rightarrow> 'l Symbol \<times> 'l Exchange \<Rightarrow> 'l HyperliquidExchange \<Rightarrow>
    'l HyperliquidExchange" where
  "finish_l2 L coin t ref v h = (case v of (sy, x) \<Rightarrow>
     (let sy1 = setLastUpdate t 0 sy;
          (x1, pending) = finalizeL2Event L coin sy1 x (hl_pending h)
      in h\<lparr>hl_base := leave coin (sy1\<lparr>ob_level_cache := [], ob_order_cache := []\<rparr>, x1), hl_pending := pending,
           hl_ref_levels := (hl_ref_levels h)(coin := ref)\<rparr>))"

text \<open>A result of \<open>None\<close> is a matching loop that does not end, an error a venue that cannot bind an engine.\<close>

definition processL2Snapshot ::
    "'l l3_ops \<Rightarrow> 'l \<Rightarrow> nat \<Rightarrow> MDTrade \<Rightarrow> order_num list \<Rightarrow> hl_levels \<Rightarrow> 'l HyperliquidExchange \<Rightarrow> config_error + 'l HyperliquidExchange option" where
  "processL2Snapshot L e0 i d ids data h = (case hm_coin data of
      None \<Rightarrow> Inr (Some h)
    | Some coin \<Rightarrow>
        (case hl_find_or_add e0 i d coin h of
           Inl e \<Rightarrow> Inl e
         | Inr h1 \<Rightarrow>
             (case (getSymbol coin (hl_base h1), hm_levels data) of
                (Some sy, bids # asks # _) \<Rightarrow>
                  (let t = event_time_ns (hm_time_ms data);
                       sy1 = clearMDOrders L ids sy
                   in Inr (case process_side L BUY t bids (sy1, hl_base h1, []) of
                             None \<Rightarrow> None
                           | Some (sy2, x2, ref_bid) \<Rightarrow>
                               (case process_side L SELL t asks (sy2, x2, []) of
                                  None \<Rightarrow> None
                                | Some (sy3, x3, ref_ask) \<Rightarrow>
                                    Some (finish_l2 L coin t (\<lambda>s. if s = BUY then ref_bid else ref_ask) (sy3, x3) h1))))
              | _ \<Rightarrow> Inr (Some h1))))"

definition processL2Diff ::
    "'l l3_ops \<Rightarrow> 'l \<Rightarrow> nat \<Rightarrow> MDTrade \<Rightarrow> hl_diff \<Rightarrow> 'l HyperliquidExchange \<Rightarrow> config_error + 'l HyperliquidExchange option" where
  "processL2Diff L e0 i d data h = (case hm_coin data of
      None \<Rightarrow> Inr (Some h)
    | Some coin \<Rightarrow>
        (case hl_find_or_add e0 i d coin h of
           Inl e \<Rightarrow> Inl e
         | Inr h1 \<Rightarrow>
             (case (getSymbol coin (hl_base h1), hm_levels data) of
                (Some sy, bids # asks # _) \<Rightarrow>
                  (let t = event_time_ns (hm_time_ms data);
                       ref = hl_ref_levels h1 coin;
                       removed = (case hm_removed data of
                           [rb, ra] \<Rightarrow>
                             (case apply_removals L BUY t rb (sy, hl_base h1, ref BUY) of
                                None \<Rightarrow> None
                              | Some (sy2, x2, ref_bid) \<Rightarrow>
                                  map_option (\<lambda>(sy3, x3, ref_ask). (sy3, x3, ref_bid, ref_ask)) (apply_removals L SELL t ra (sy2, x2, ref SELL)))
                         | _ \<Rightarrow> Some (sy, hl_base h1, ref BUY, ref SELL))
                   in Inr (case removed of
                             None \<Rightarrow> None
                           | Some (sy3, x3, ref_bid, ref_ask) \<Rightarrow>
                               (case apply_changes L BUY t bids (sy3, x3, ref_bid) of
                                  None \<Rightarrow> None
                                | Some (sy4, x4, ref_bid') \<Rightarrow>
                                    (case apply_changes L SELL t asks (sy4, x4, ref_ask) of
                                       None \<Rightarrow> None
                                     | Some (sy5, x5, ref_ask') \<Rightarrow>
                                         Some (finish_l2 L coin t (\<lambda>s. if s = BUY then ref_bid' else ref_ask') (sy5, x5) h1)))))
              | _ \<Rightarrow> Inr (Some h1))))"

definition hl_credit_and_publish :: "Side \<Rightarrow> time_ns \<Rightarrow> 'l Symbol \<times> 'l Exchange \<Rightarrow> TradeSummaryInfo \<Rightarrow> 'l Symbol \<times> 'l Exchange" where
  "hl_credit_and_publish s t v summary =
     publishTradeSummary (creditTradedQty (opposite_side s) (ts_price summary) (ts_phantom_qty summary) t (fst v), snd v) summary"

fun replay_trades :: "'l l3_ops \<Rightarrow> hl_trade list \<Rightarrow> 'l Symbol \<times> 'l Exchange \<Rightarrow> ('l Symbol \<times> 'l Exchange) option" where
  "replay_trades L [] v = Some v"
| "replay_trades L (trade # trades) (sy, x) =
     (let s = (if ht_buy trade then BUY else SELL);
          t = event_time_ns (ht_time_ms trade)
      in case hl_match L s (ht_price trade) (ht_qty trade) t sy of
           None \<Rightarrow> None
         | Some (i, trade_summaries, qty, sy1) \<Rightarrow>
             replay_trades L trades (foldl (hl_credit_and_publish s t) (hl_rest L i s (ht_price trade) qty t sy1, x) trade_summaries))"

definition processTradesEvent :: "'l l3_ops \<Rightarrow> string \<Rightarrow> hl_trade list \<Rightarrow> 'l HyperliquidExchange \<Rightarrow> 'l HyperliquidExchange option" where
  "processTradesEvent L coin trades h =
     (if trades = [] \<or> coin = [] then Some h
      else case getSymbol coin (hl_base h) of
             None \<Rightarrow> Some h
           | Some sy \<Rightarrow>
               (case replay_trades L trades (sy, hl_base h) of
                  None \<Rightarrow> None
                | Some (sy1, x1) \<Rightarrow>
                    Some (h\<lparr>hl_base := leave coin (sy1\<lparr>ob_level_cache := [], ob_order_cache := []\<rparr>, pushL2Snapshot L sy1 x1)\<rparr>)))"

text \<open>\<open>ids\<close> is the order in which the book's unordered map is walked, per coin; \<open>fresh\<close> the identity a new instrument gets.\<close>

definition processEvent :: "'l l3_ops \<Rightarrow> 'l \<Rightarrow> (string \<Rightarrow> nat) \<Rightarrow> MDTrade \<Rightarrow> (string \<Rightarrow> order_num list) \<Rightarrow> FeedEvent \<Rightarrow>
    'l HyperliquidExchange \<Rightarrow> config_error + 'l HyperliquidExchange option" where
  "processEvent L e0 fresh d ids ev h = (case ev of
      L2Snapshot data \<Rightarrow> processL2Snapshot L e0 (fresh (case hm_coin data of None \<Rightarrow> [] | Some c \<Rightarrow> c)) d
        (ids (case hm_coin data of None \<Rightarrow> [] | Some c \<Rightarrow> c)) data h
    | L2DiffEvent data \<Rightarrow> processL2Diff L e0 (fresh (case hm_coin data of None \<Rightarrow> [] | Some c \<Rightarrow> c)) d data h
    | L2Other \<Rightarrow> Inr (Some h)
    | TradesEvent coin trades \<Rightarrow> Inr (processTradesEvent L coin trades h))"

fun drain_feed :: "'l l3_ops \<Rightarrow> 'l \<Rightarrow> (string \<Rightarrow> nat) \<Rightarrow> MDTrade \<Rightarrow> (string \<Rightarrow> order_num list) \<Rightarrow> FeedEvent list \<Rightarrow>
    'l HyperliquidExchange \<Rightarrow> config_error + 'l HyperliquidExchange option" where
  "drain_feed L e0 fresh d ids [] h = Inr (Some h)"
| "drain_feed L e0 fresh d ids (ev # evs) h = (case processEvent L e0 fresh d ids ev h of
      Inr (Some h1) \<Rightarrow> drain_feed L e0 fresh d ids evs h1
    | other \<Rightarrow> other)"

definition drainEventQueue :: "'l l3_ops \<Rightarrow> 'l \<Rightarrow> (string \<Rightarrow> nat) \<Rightarrow> MDTrade \<Rightarrow> (string \<Rightarrow> order_num list) \<Rightarrow>
    'l HyperliquidExchange \<Rightarrow> config_error + 'l HyperliquidExchange option" where
  "drainEventQueue L e0 fresh d ids h = (case drain_feed L e0 fresh d ids (hl_event_queue h) h of
      Inr (Some h1) \<Rightarrow> Inr (Some (h1\<lparr>hl_event_queue := []\<rparr>))
    | other \<Rightarrow> other)"

definition onL2BookUpdate :: "FeedEvent \<Rightarrow> 'l HyperliquidExchange \<Rightarrow> 'l HyperliquidExchange" where
  "onL2BookUpdate ev h = h\<lparr>hl_event_queue := hl_event_queue h @ [ev]\<rparr>"

text \<open>A message without \<open>data\<close> is dropped.\<close>

definition onTradesUpdate :: "(string \<times> hl_trade list) option \<Rightarrow> 'l HyperliquidExchange \<Rightarrow> 'l HyperliquidExchange" where
  "onTradesUpdate data h = (case data of
      None \<Rightarrow> h
    | Some (coin, trades) \<Rightarrow> h\<lparr>hl_event_queue := hl_event_queue h @ [TradesEvent coin trades]\<rparr>)"

definition onHyperliquidDisconnected :: "'l HyperliquidExchange \<Rightarrow> 'l HyperliquidExchange" where
  "onHyperliquidDisconnected h =
     (let coins = {c. c \<in> fst ` set (hl_map_coin_feed h) \<and> x_symbols (hl_base h) c \<noteq> None}
      in h\<lparr>hl_pending := (\<lambda>ch. hl_pending h ch \<union> coins)\<rparr>)"

section \<open>Subscriptions\<close>

definition hl_answer :: "'l l3_ops \<Rightarrow> HyperliquidChannel \<Rightarrow> string \<Rightarrow> 'l HyperliquidExchange \<Rightarrow> 'l HyperliquidExchange" where
  "hl_answer L channel coin h = (case getSymbol coin (hl_base h) of
      None \<Rightarrow> h
    | Some sy \<Rightarrow>
        if channel = TRADES then h\<lparr>hl_base := leave coin (publishTradeSubscriptionResponse (channel_number channel) (sy, hl_base h))\<rparr>
        else h\<lparr>hl_base := populateL2SubscriptionResponse L (channel_number channel) sy (hl_base h)\<rparr>)"

text \<open>A coin with no feed joins the first one, or \<open>feed\<close>, a new one.\<close>

definition track_coin :: "nat \<Rightarrow> string \<Rightarrow> 'l HyperliquidExchange \<Rightarrow> 'l HyperliquidExchange" where
  "track_coin feed coin h =
     (if coin \<in> fst ` set (hl_map_coin_feed h) then h
      else case hl_md_feeds h of
             [] \<Rightarrow> h\<lparr>hl_md_feeds := [feed], hl_map_coin_feed := hl_map_coin_feed h @ [(coin, feed)]\<rparr>
           | f # _ \<Rightarrow> h\<lparr>hl_map_coin_feed := hl_map_coin_feed h @ [(coin, f)]\<rparr>)"

definition hl_handleMdSubscription ::
    "'l l3_ops \<Rightarrow> 'l \<Rightarrow> nat \<Rightarrow> MDTrade \<Rightarrow> nat \<Rightarrow> HyperliquidChannel \<Rightarrow> string \<Rightarrow> 'l HyperliquidExchange \<Rightarrow> config_error + 'l HyperliquidExchange" where
  "hl_handleMdSubscription L e0 i d feed channel coin h =
     (let is_new = (x_symbols (hl_base h) coin = None)
      in case hl_find_or_add e0 i d coin h of
           Inl e \<Rightarrow> Inl e
         | Inr h1 \<Rightarrow>
             (let h2 = h1\<lparr>hl_num_subscriptions := (hl_num_subscriptions h1)(coin := hl_num_subscriptions h1 coin + 1)\<rparr>
              in if hl_use_live_feed h2 then
                   if is_new then
                     (let h3 = track_coin feed coin h2
                      in if channel = TRADES then Inr (hl_answer L channel coin h3)
                         else Inr (h3\<lparr>hl_pending := (hl_pending h3)(channel := insert coin (hl_pending h3 channel))\<rparr>))
                   else if coin \<notin> hl_pending h2 channel then Inr (hl_answer L channel coin h2) else Inr h2
                 else Inr (hl_answer L channel coin h2)))"

definition hl_handleMdUnsubscription :: "string \<Rightarrow> 'l HyperliquidExchange \<Rightarrow> 'l HyperliquidExchange" where
  "hl_handleMdUnsubscription coin h =
     (if x_symbols (hl_base h) coin = None then h
      else let before = hl_num_subscriptions h coin;
               h1 = h\<lparr>hl_num_subscriptions := (hl_num_subscriptions h)(coin := before - 1)\<rparr>
           in if before = 1 then h1\<lparr>hl_map_coin_feed := filter (\<lambda>(c, _). c \<noteq> coin) (hl_map_coin_feed h1)\<rparr> else h1)"

end
