(* ===== verification/Hyperliquid_Facts.thy ===== *)
theory Hyperliquid_Facts
  imports Hyperliquid_Exchange Coinbase_Facts
begin

text \<open>
  The Hyperliquid feed on an instrument. Its liquidity ranks by the event's time and not by a number
  drawn, so an instrument is in good order with a bound on the times in place of the priorities drawn
  so far.
\<close>

section \<open>Good order up to times\<close>

abbreviation bounded :: "nat \<Rightarrow> ('l, 'z) book \<Rightarrow> ('l, 'z) book" where
  "bounded N st \<equiv> st\<lparr>ob_next_priority := N\<rparr>"

definition hl_ok :: "'l l3_ops \<Rightarrow> ('l \<Rightarrow> bool) \<Rightarrow> nat \<Rightarrow> ('l, 'z) instrument \<Rightarrow> bool" where
  "hl_ok L binv N st \<longleftrightarrow> symbol_ok L binv {} (bounded N st)"

lemma bounded_sel [simp]:
  "queue L (bounded N st) s = queue L st s" "getMDLevelQty (bounded N st) = getMDLevelQty st"
  by (simp_all add: queue_def getMDLevelQty_def fun_eq_iff)

lemma obinv_bounded [simp]: "obinv L I P (bounded N st) = obinv L I P st"
  by (rule obinv_cong) simp_all

lemma hl_okD:
  assumes "hl_ok L binv N st"
  shows "obinv L binv {} st" "pool_exact {} st" "uncrossed L st" "engine_valid (sy_engine st)"
    "real_side s \<Longrightarrow> e \<in> set (queue L st s) \<Longrightarrow> en_id e < ob_next_order_id st \<and> en_prio e \<le> N \<and> en_price e \<noteq> NULL_PRICE"
  using assms by (auto simp: hl_ok_def symbol_ok_def pool_exact_def uncrossed_def drawn_def)

lemma symbol_hl_ok: "symbol_ok L binv {} st \<Longrightarrow> ob_next_priority st \<le> N \<Longrightarrow> hl_ok L binv N st"
  by (fastforce simp: hl_ok_def symbol_ok_def pool_exact_def uncrossed_def drawn_def)

lemma hl_ok_cong:
  assumes "ob_l3 st' = ob_l3 st" "ob_orders st' = ob_orders st" "ob_buffer st' = ob_buffer st" "ob_live st' = ob_live st"
    "ob_by_client st' = ob_by_client st" "ob_by_order st' = ob_by_order st" "ob_md_qty st' = ob_md_qty st"
    "ob_next_order_id st' = ob_next_order_id st" "sy_engine st' = sy_engine st"
  shows "hl_ok L binv N st' = hl_ok L binv N st"
proof -
  have "obinv L binv {} st' = obinv L binv {} st" by (rule obinv_cong) (simp_all add: assms)
  moreover have "queue L st' s = queue L st s" for s by (simp add: queue_def assms)
  ultimately show ?thesis by (simp add: hl_ok_def symbol_ok_def pool_exact_def uncrossed_def drawn_def assms)
qed

section \<open>The book does not read the counter\<close>

lemma notify_bounded: "notify (bounded N b) n = bounded N (notify b n)"
proof (cases n)
  case (OrderNote u)
  have f: "findOrder (ou_order_id u) (bounded N b) = findOrder (ou_order_id u) b" by (simp add: findOrder_def)
  show ?thesis by (simp add: OrderNote notify_def onOrderUpdate_def f Let_def set_order_def split: option.splits)
qed (simp add: notify_def)

lemma foldl_notify_bounded: "foldl notify (bounded N b) ns = bounded N (foldl notify b ns)"
  by (induction ns arbitrary: b) (simp_all add: notify_bounded)

lemma l3_apply_bounded: "l3_apply r (bounded N b) = (fst (l3_apply r b), bounded N (snd (l3_apply r b)))"
proof -
  obtain k l ns where r: "r = (k, l, ns)" by (cases r)
  have "(bounded N b)\<lparr>ob_l3 := l\<rparr> = bounded N (b\<lparr>ob_l3 := l\<rparr>)" by simp
  then show ?thesis by (simp only: r l3_apply_def prod.case foldl_notify_bounded fst_conv snd_conv)
qed

lemma base_bounded:
  "snd (base_addOrder L i s px q t prio seq lb (bounded N b)) = bounded N (snd (base_addOrder L i s px q t prio seq lb b))"
  "snd (base_modifyOrder L i px q t prio seq lb (bounded N b)) = bounded N (snd (base_modifyOrder L i px q t prio seq lb b))"
  by (simp_all add: base_addOrder_def base_modifyOrder_def l3_apply_bounded)

lemma reductions_bounded: "apply_reductions L px t seq ee rs (bounded N b) = bounded N (apply_reductions L px t seq ee rs b)"
  by (induction rs arbitrary: b) (simp_all add: base_bounded)

lemma choose_bounded: "choose_reductions (bounded N b) diff ods = choose_reductions b diff ods"
  by (induction ods arbitrary: diff) (simp_all add: findOrder_def Let_def)

section \<open>Matching\<close>

lemma hl_feed_match:
  fixes st :: "('l, 'z) instrument"
  assumes l3: "l3_book L binv" and ok: "hl_ok L binv N st" and s: "real_side s" and fit: "fits (queue L st (opposite_side s))" and q: "0 \<le> q"
    and spec: "engine_spec (sy_engine st) (crosses (opposite_side s) px) (\<lambda>_. False) q (queue L st (opposite_side s)) = (fs, cs, es', q')"
  obtains sms st' where "engine_match_feed L (sy_engine st) s aid px q t 0 st = Some (sms, q', st')" "hl_ok L binv N st'"
    "eng_frame st st'" "queue L st' (opposite_side s) = es'" "queue L st' s = queue L st s" "0 \<le> q'" "q = filled_qty fs + q'"
    "0 < q' \<longrightarrow> (\<forall>e\<in>set es'. \<not> crosses (opposite_side s) px (en_price e))" "legs sms = fill_legs fs"
    "ob_orders st' = orders_after (ob_orders st) (queue L st (opposite_side s)) es'"
proof -
  note k = hl_okD [OF ok] and eng = engine_contract [OF l3 hl_okD(4) [OF ok]]
  have so: "real_side (opposite_side s)" "opposite_side s = (if s = BUY then SELL else BUY)" "opposite_side (opposite_side s) = s"
    using s by (auto simp: real_side_def)
  have "hittable L None (opposite_side s) st" using k(5) so(1) by (auto simp: hittable_def)
  then have m: "matchable L binv None (opposite_side s) 0 st" using k(1) so(1) fit by (simp add: matchable_def)
  obtain ctx st' where r: "engine_match_feed L (sy_engine st) s aid px q t 0 st = Some (mc_summaries ctx, q', st')" "obinv L binv {} st'"
    "swept L None (opposite_side s) aid fs es' (new_context t 0) st ctx st'"
    using matching_engine.feed_matches [OF eng m so(2) q spec, of aid t] by blast
  note pl = matching_engine.spec_places [OF eng fit spec]
  have fr: "eng_frame st st'" "pool_kept st st'" using r(3) by (simp_all add: swept_def)
  have places: "place ` set (queue L st' s') \<subseteq> place ` set (queue L st s')" if "real_side s'" for s'
    using real_side_cases [OF so(1) that] r(3) pl by (auto simp: swept_def)
  have "drawn L (bounded N st')"
    by (rule drawn_places [of L "bounded N st"]) (use ok places fr in \<open>auto simp: hl_ok_def symbol_ok_def eng_frame_def\<close>)
  moreover have "uncrossed L st'" by (rule uncrossed_places [OF k(3) places])
  moreover have "pool_exact {} st'" using fr(2) k(2) by (simp add: pool_kept_def)
  moreover have "engine_valid (sy_engine st')" using fr(1) k(4) symbol_more [of st' st] by (simp add: eng_frame_def)
  ultimately have ok': "hl_ok L binv N st'" using r(2) by (simp add: hl_ok_def symbol_ok_def pool_exact_def uncrossed_def)
  have bal: "q = filled_qty fs + q'" "0 \<le> q'" using matching_engine.spec_balance [OF eng fit q spec] by simp_all
  have "\<not> crosses (opposite_side s) px (en_price e)" if "0 < q'" "e \<in> set es'" for e
  proof (rule nothing_crosses [OF _ _ that(2)])
    show "sorted_wrt (before (opposite_side s)) es'" using l3_book.queue_sorted [OF l3 r(2) so(1)] r(3) by (simp add: swept_def)
    show "es' = [] \<or> \<not> crosses (opposite_side s) px (en_price (hd es'))" by (rule matching_engine.spec_front [OF eng fit spec that(1)])
  qed
  then show thesis using that [OF r(1) ok' fr(1)] r(3) bal so(3) by (simp add: swept_def legs_def new_context_def)
qed

lemma hl_next_id:
  assumes "l3_book L binv" and "hl_ok L binv N st"
  shows "ob_orders st (ob_next_order_id st) = None" "real_side s \<Longrightarrow> ob_next_order_id st \<notin> en_id ` set (queue L st s)"
    "hl_ok L binv N (st\<lparr>ob_next_order_id := ob_next_order_id st + 1\<rparr>)"
proof -
  have ok: "symbol_ok L binv {} (bounded N st)" using assms(2) by (simp add: hl_ok_def)
  note n = next_id_unused [OF assms(1) ok]
  show "ob_orders st (ob_next_order_id st) = None" using n(1) by simp
  show "ob_next_order_id st \<notin> en_id ` set (queue L st s)" if "real_side s" using n(2) [OF that] by simp
  have e: "(bounded N st)\<lparr>ob_next_order_id := ob_next_order_id (bounded N st) + 1\<rparr> = bounded N (st\<lparr>ob_next_order_id := ob_next_order_id st + 1\<rparr>)" by simp
  show "hl_ok L binv N (st\<lparr>ob_next_order_id := ob_next_order_id st + 1\<rparr>)" using next_id_ok [OF ok] unfolding hl_ok_def e .
qed

text \<open>Resting the venue's liquidity at a price nothing on the other side reaches, under any priority within the bound.\<close>

lemma hl_phantom_rests:
  fixes st :: "('l, 'z) instrument"
  assumes l3: "l3_book L binv" and ok: "hl_ok L binv N st" and s: "real_side s" and q: "0 < q"
    and new: "ob_orders st i = None" "i \<notin> en_id ` set (queue L st BUY @ queue L st SELL)" "i < ob_next_order_id st"
    and prio: "eff_prio prio t \<le> N" and px: "px \<noteq> NULL_PRICE"
    and free: "\<forall>y\<in>set (queue L st (opposite_side s)). \<not> isPriceBetterOrEqual s px (en_price y)"
    and st': "st' = snd (base_addOrder L i s px q t prio 0 lb st)"
  shows "hl_ok L binv N st'" "same_frame st st'" "ob_buffer st' = ob_buffer st"
    "queue L st' s = insert_entry s \<lparr>en_price = px, en_id = i, en_qty = q, en_prio = eff_prio prio t\<rparr> (queue L st s)"
    "queue L st' (opposite_side s) = queue L st (opposite_side s)"
    "\<And>y. getMDLevelQty st' y = getMDLevelQty st y + (if y = px then q else 0)"
proof -
  have ok': "symbol_ok L binv {} (bounded N st)" using ok by (simp add: hl_ok_def)
  have b: "snd (base_addOrder L i s px q t prio 0 lb (bounded N st)) = bounded N st'" by (simp add: st' base_bounded)
  note r = phantom_rests_eff [OF l3 ok' s q, where i = i and prio = prio and t = t and px = px and seq = 0 and lb = lb, OF _ _ _ _ px _ _ b [symmetric]]
  show "hl_ok L binv N st'" using r(1) new prio free by (simp add: hl_ok_def)
  have "same_frame st st'" unfolding st' base_addOrder_def by (rule same_frame_apply)
  then show "same_frame st st'" .
  show "ob_buffer st' = ob_buffer st" using r(3) new prio free by simp
  show "queue L st' s = insert_entry s \<lparr>en_price = px, en_id = i, en_qty = q, en_prio = eff_prio prio t\<rparr> (queue L st s)"
    "queue L st' (opposite_side s) = queue L st (opposite_side s)" using r(4,5) new prio free by simp_all
  show "getMDLevelQty st' y = getMDLevelQty st y + (if y = px then q else 0)" for y using r(6) [where y = y] new prio free by simp
qed

text \<open>What a feed keeps on the way.\<close>

definition hl_done :: "'l l3_ops \<Rightarrow> ('l \<Rightarrow> bool) \<Rightarrow> nat \<Rightarrow> 'l Symbol \<times> 'l Exchange \<Rightarrow> 'l Symbol \<times> 'l Exchange \<Rightarrow> bool" where
  "hl_done L binv N v v' \<longleftrightarrow> hl_ok L binv N (fst v') \<and> history_ok (sy_trade_history (fst v')) \<and> x_frame (snd v) (snd v') \<and>
     ob_symbol (fst v') = ob_symbol (fst v) \<and> sy_engine (fst v') = sy_engine (fst v) \<and> ob_next_order_id (fst v) \<le> ob_next_order_id (fst v')"

lemma hl_match_and_rest_ok:
  fixes sy :: "'l Symbol"
  assumes l3: "l3_book L binv" and ok: "hl_ok L binv N sy" and hist: "history_ok (sy_trade_history sy)" and s: "real_side s" and q: "0 < q"
    and px: "px \<noteq> NULL_PRICE" and fit: "fits (queue L sy (opposite_side s))" and t: "t \<le> N"
    and spec: "engine_spec (sy_engine sy) (crosses (opposite_side s) px) (\<lambda>_. False) q (queue L sy (opposite_side s)) = (fs, cs, es', q')"
  obtains sy' x' where "hl_match_and_rest L s px q t (sy, x) = Some (sy', x')" "hl_done L binv N (sy, x) (sy', x')"
    "queue L sy' (opposite_side s) = es'"
    "queue L sy' s = (if 0 < q' then insert_entry s \<lparr>en_price = px, en_id = ob_next_order_id sy, en_qty = q', en_prio = t\<rparr> (queue L sy s) else queue L sy s)"
    "q = filled_qty fs + q'" "ob_next_priority sy' = ob_next_priority sy"
proof -
  let ?i = "ob_next_order_id sy" and ?o = "opposite_side s"
  define sy1 where "sy1 = sy\<lparr>ob_next_order_id := ?i + 1\<rparr>"
  note id = hl_next_id [OF l3 ok]
  have q1: "queue L sy1 s' = queue L sy s'" for s' by (simp add: sy1_def queue_def)
  have ok1: "hl_ok L binv N sy1" unfolding sy1_def by (rule id(3))
  have fit1: "fits (queue L sy1 ?o)" and sp1: "engine_spec (sy_engine sy1) (crosses ?o px) (\<lambda>_. False) q (queue L sy1 ?o) = (fs, cs, es', q')"
    unfolding q1 using fit spec by (simp_all add: sy1_def)
  obtain sms sy2 where m: "engine_match_feed L (sy_engine sy1) s ?i px q t 0 sy1 = Some (sms, q', sy2)" "hl_ok L binv N sy2"
    "eng_frame sy1 sy2" "queue L sy2 ?o = es'" "queue L sy2 s = queue L sy1 s" "0 \<le> q'" "q = filled_qty fs + q'"
    "0 < q' \<longrightarrow> (\<forall>e\<in>set es'. \<not> crosses ?o px (en_price e))" "ob_orders sy2 = orders_after (ob_orders sy1) (queue L sy1 ?o) es'"
    by (rule hl_feed_match [OF l3 ok1 s fit1 order_less_imp_le [OF q] sp1]) blast
  obtain sy3 x3 where p: "foldl publishTradeSummary (sy2, x) sms = (sy3, x3)" by fastforce
  note pf = publish_all_frame [OF p]
  obtain h where h: "sy3 = sy2\<lparr>sy_trade_history := h\<rparr>" using pf(1) by (auto simp: but_history_def)
  have ok3: "hl_ok L binv N sy3" using m(2) by (subst hl_ok_cong [of _ sy2]) (simp_all add: h)
  have nx: "ob_symbol sy3 = ob_symbol sy" "ob_next_order_id sy3 = ?i + 1" "ob_next_priority sy3 = ob_next_priority sy" "sy_engine sy3 = sy_engine sy"
    using m(3) symbol_more [of sy2 sy1] by (simp_all add: h eng_frame_def, simp_all add: sy1_def)
  have hist2: "sy_trade_history sy2 = sy_trade_history sy" using m(3) symbol_more [of sy2 sy1] by (simp add: eng_frame_def) (simp add: sy1_def)
  have hist3: "history_ok (sy_trade_history sy3)" using publish_all_frame [OF p] hist hist2 by simp
  have q3: "queue L sy3 s' = queue L sy2 s'" for s' by (simp add: h queue_def)
  have xf: "x_frame x x3" using publish_all_frame [OF p] by simp
  let ?sy4 = "hl_rest L ?i s px q' t sy3"
  have run: "hl_match_and_rest L s px q t (sy, x) = Some (?sy4, x3)"
    by (simp only: hl_match_and_rest_def hl_match_def nextOrderId_def Let_def prod.case fst_conv snd_conv sy1_def [symmetric] m(1)
        option.map option.case p)
  show thesis
  proof (cases "0 < q'")
    case False
    then have "?sy4 = sy3" by (simp add: hl_rest_def)
    moreover have "hl_done L binv N (sy, x) (sy3, x3)" using ok3 hist3 xf nx by (simp add: hl_done_def)
    ultimately show thesis using that [OF run] False m(4,5,7) q1 q3 nx(3) by simp
  next
    case True
    have eq: "?sy4 = snd (base_addOrder L ?i s px q' t 0 0 True sy3)" using True by (simp add: hl_rest_def)
    have sub: "en_id ` set es' \<subseteq> en_id ` set (queue L sy ?o)"
      using places_ids [OF matching_engine.spec_places [OF engine_contract [OF l3 hl_okD(4) [OF ok]] fit spec]] .
    have so: "real_side ?o" using s by (auto simp: real_side_def)
    have "?i \<notin> en_id ` set (queue L sy3 s)" "?i \<notin> en_id ` set (queue L sy3 ?o)"
      using id(2) [OF s] id(2) [OF so] subsetD [OF sub, of ?i] m(4,5) by (auto simp: q3 q1)
    then have ids: "?i \<notin> en_id ` set (queue L sy3 BUY @ queue L sy3 SELL)" using s by (auto simp: real_side_def)
    have none: "ob_orders sy3 ?i = None" using id(1) by (simp add: h m(9) orders_after_def restrict_map_def sy1_def)
    have free: "\<forall>y\<in>set (queue L sy3 ?o). \<not> isPriceBetterOrEqual s px (en_price y)"
      using True m(4,8) s px by (auto simp: q3 crosses_def isPriceBetterOrEqual_def real_side_def)
    have small: "?i < ob_next_order_id sy3" "eff_prio 0 t \<le> N" using nx t by (simp_all add: eff_prio_def)
    note r = hl_phantom_rests [OF l3 ok3 s True none ids small px free eq]
    have sf: "ob_symbol ?sy4 = ob_symbol sy3" "ob_next_order_id ?sy4 = ob_next_order_id sy3" "ob_next_priority ?sy4 = ob_next_priority sy3"
      "sy_trade_history ?sy4 = sy_trade_history sy3" "sy_engine ?sy4 = sy_engine sy3"
      using r(2) book_more [of ?sy4 sy3] symbol_more [of ?sy4 sy3] near_frame_symbol [OF near_frameI, of sy3 ?sy4]
      by (simp_all add: same_frame_def book_frame_def)
    have "hl_done L binv N (sy, x) (?sy4, x3)" using r(1) hist3 xf nx sf by (simp add: hl_done_def)
    then show thesis using that [OF run] True r(4,5) m(4,5,7) q1 q3 nx sf by (simp add: eff_prio_def)
  qed
qed

section \<open>Reconciling\<close>

lemma hl_add_liquidity:
  fixes st :: "('l, 'z) instrument"
  assumes l3: "l3_book L binv" and ok: "hl_ok L binv N st" and s: "real_side s" and q: "0 < q" and e: "e \<in> set (queue L st s)" "en_price e = px"
    and p: "ob_next_priority st < N" and st': "st' = addBookOrder L (fst (nextOrderId st)) s px q t 0 lb (snd (nextOrderId st))"
  shows "hl_ok L binv N st'" "level_frame L s px st st'" "getMDLevelQty st' px = getMDLevelQty st px + q"
proof -
  let ?i = "ob_next_order_id st" and ?b = "st\<lparr>ob_next_order_id := ob_next_order_id st + 1, ob_next_priority := ob_next_priority st + 1\<rparr>"
  note k = hl_okD [OF ok] and id = hl_next_id [OF l3 ok]
  have eq: "st' = snd (base_addOrder L ?i s px q t (ob_next_priority st + 1) 0 lb ?b)"
    by (simp add: st' addBookOrder_def nextOrderId_def nextOrderPriority_def)
  have qb: "queue L ?b s' = queue L st s'" for s' by (simp add: queue_def)
  have okb: "hl_ok L binv N ?b" using id(3) by (subst hl_ok_cong [of _ "st\<lparr>ob_next_order_id := ob_next_order_id st + 1\<rparr>"]) simp_all
  have ids: "?i \<notin> en_id ` set (queue L ?b BUY @ queue L ?b SELL)" unfolding qb using id(2) [of BUY] id(2) [of SELL] by (simp add: real_side_def image_Un)
  have px: "px \<noteq> NULL_PRICE" using k(5) [OF s e(1)] e(2) by simp
  have free: "\<forall>y\<in>set (queue L ?b (opposite_side s)). \<not> isPriceBetterOrEqual s px (en_price y)"
    unfolding qb using k(3) e by (fastforce simp: uncrossed_side [OF s])
  have side: "ob_orders ?b ?i = None" "?i < ob_next_order_id ?b" "eff_prio (ob_next_priority st + 1) t \<le> N" using id(1) p by (simp_all add: eff_prio_def)
  note r = hl_phantom_rests [OF l3 okb s q side(1) ids side(2,3) px free eq]
  show "hl_ok L binv N st'" by (rule r(1))
  show "getMDLevelQty st' px = getMDLevelQty st px + q" using r(6) [of px] by (simp add: getMDLevelQty_def)
  show "level_frame L s px st st'" using r(2,3,6) r(4,5) [unfolded qb] by (auto simp: level_frame_def same_frame_def getMDLevelQty_def)
qed

lemma take_bounded: "takeTradedQty s px t (bounded N st) = (fst (takeTradedQty s px t st), bounded N (snd (takeTradedQty s px t st)))"
  by (simp add: takeTradedQty_def Let_def split: option.splits prod.splits)

lemma hl_reconcile_ok:
  fixes st :: "('l, 'z) instrument"
  assumes l3: "l3_book L binv" and ok: "hl_ok L binv N st" and s: "real_side s" and tgt: "0 \<le> target"
    and lv: "l3_level_at L (ob_l3 st) s px = Some (level, k)" and p: "ob_next_priority st < N"
    and st': "st' = reconcilePhantomQty L s px target t 0 ee st"
  shows "hl_ok L binv N st'" "level_frame L s px st st'"
    "getMDLevelQty st' px = reconciled_qty target (credit_after t (credits_at s px st))"
proof -
  obtain u st1 where take: "takeTradedQty s px t st = (u, st1)" by fastforce
  obtain c where c: "st1 = st\<lparr>sy_credit := c\<rparr>" by (rule take_frame [OF take])
  have u: "u = credit_after t (credits_at s px st)" using credits_at_take(1) [OF take] s by (auto simp: real_side_def)
  have ok1: "hl_ok L binv N st1" using ok by (subst hl_ok_cong [of _ st]) (simp_all add: c)
  define tg where "tg = (if u > 0 then (if target > u then target - u else 0) else target)"
  define md where "md = getMDLevelQty st1 px"
  have tg: "tg = reconciled_qty target u" using tgt by (auto simp: tg_def reconciled_qty_def)
  have run: "st' = (if tg > md then addBookOrder L (fst (nextOrderId st1)) s px (tg - md) t 0 ee (snd (nextOrderId st1))
      else if tg < md then apply_reductions L px t 0 ee (choose_reductions st1 (md - tg) (rev (lv_orders level))) st1 else st1)"
    by (simp add: st' reconcilePhantomQty_def lv take tg_def md_def split_beta)
  have "hl_ok L binv N st' \<and> level_frame L s px st st' \<and> getMDLevelQty st' px = reconciled_qty target u"
  proof (cases "md < tg")
    case True
    have okb1: "symbol_ok L binv {} (bounded N st1)" using ok1 by (simp add: hl_ok_def)
    have "l3_level_at L (ob_l3 (bounded N st1)) s px = Some (level, k)" using lv by (simp add: c)
    note le = level_entries [OF l3 symbol_okD(1) [OF okb1] s this]
    have "filter (\<lambda>e. en_price e = px) (queue L (bounded N st1) s) \<noteq> []" using le(2,3) by (metis map_is_Nil_conv)
    then obtain e where e: "e \<in> set (queue L st1 s)" "en_price e = px" by (auto simp: filter_empty_conv)
    have "0 < tg - md" "ob_next_priority st1 < N" using True p by (simp_all add: c)
    from hl_add_liquidity [OF l3 ok1 s this(1) e this(2), of st' t ee] run True
    have "hl_ok L binv N st'" "level_frame L s px st1 st'" "getMDLevelQty st' px = tg" by (simp_all add: md_def)
    then show ?thesis by (simp add: tg level_frame_def c queue_def getMDLevelQty_def)
  next
    case False
    have okb: "symbol_ok L binv {} (bounded N st)" using ok by (simp add: hl_ok_def)
    have lvb: "l3_level_at L (ob_l3 (bounded N st)) s px = Some (level, k)" using lv by simp
    have "getMDLevelQty (bounded N st1) px = md" by (simp add: md_def)
    then have "reconcilePhantomQty L s px target t 0 ee (bounded N st) = bounded N st'"
      using False by (simp add: reconcilePhantomQty_def lv take take_bounded tg_def [symmetric] run choose_bounded reductions_bounded)
    note r = reconcile_ok [OF l3 okb s tgt lvb disjI1 [OF refl] this [symmetric]]
    show ?thesis using r by (simp add: hl_ok_def level_frame_def u credits_at_def)
  qed
  then show "hl_ok L binv N st'" "level_frame L s px st st'" "getMDLevelQty st' px = reconciled_qty target (credit_after t (credits_at s px st))"
    using u by simp_all
qed

text \<open>The counters move a step at most, and the rest of the instrument stays.\<close>

lemma hl_reconcile_frame:
  fixes sy :: "'l Symbol"
  assumes "sy' = reconcilePhantomQty L s px target t 0 ee sy"
  shows "feed_frame sy sy'" "ob_next_priority sy' \<le> ob_next_priority sy + 1" "sy_engine sy' = sy_engine sy"
proof -
  show "feed_frame sy sy'" unfolding assms by (rule feed_frame_reconcile)
  obtain u sy1 where take: "takeTradedQty s px t sy = (u, sy1)" by fastforce
  obtain c where c: "sy1 = sy\<lparr>sy_credit := c\<rparr>" by (rule take_frame [OF take])
  have red: "same_frame b (apply_reductions L px t 0 ee rs b)" for rs and b :: "'l Symbol"
  proof (induction rs arbitrary: b)
    case (Cons r rs)
    have "same_frame b (snd (base_modifyOrder L (pr_order_id r) px (pr_new_qty r) t (pr_priority r) 0 (ee \<and> rs = []) b))"
      unfolding base_modifyOrder_def by (rule same_frame_apply)
    then show ?case using Cons same_frame_trans by fastforce
  qed simp
  have add: "same_frame b (snd (base_addOrder L i s px q t pr 0 ee b))" for i q pr and b :: "'l Symbol"
    unfolding base_addOrder_def by (rule same_frame_apply)
  have same: "ob_next_priority b' = ob_next_priority b \<and> sy_engine b' = sy_engine b" if "same_frame b b'" for b b' :: "'l Symbol"
    using that near_frame_symbol [OF near_frameI, of b b'] by (simp add: same_frame_def book_frame_def)
  have "ob_next_priority sy' \<le> ob_next_priority sy + 1 \<and> sy_engine sy' = sy_engine sy"
    using same [OF red] same [OF add] unfolding assms
    by (auto simp: reconcilePhantomQty_def take c Let_def addBookOrder_def nextOrderId_def nextOrderPriority_def split: option.splits)
  then show "ob_next_priority sy' \<le> ob_next_priority sy + 1" "sy_engine sy' = sy_engine sy" by simp_all
qed

end
