(* ===== verification/Hyperliquid_Properties.thy ===== *)
theory Hyperliquid_Properties
  imports Hyperliquid_Facts Coinbase_Snapshot
begin

text \<open>The properties of the Hyperliquid exchange: a level is set exactly, and a whole diff is applied to the book and to the mirror of the venue's prices.\<close>

section \<open>Levels\<close>

lemma apply_phantom_ok:
  fixes sy :: "'l Symbol"
  assumes l3: "l3_book L binv" and ok: "hl_ok L binv N sy" and hist: "history_ok (sy_trade_history sy)" and s: "real_side s" and tgt: "0 \<le> target"
    and px: "px \<noteq> NULL_PRICE" and fit: "fits (queue L sy (opposite_side s))" and t: "t \<le> N" and p: "ob_next_priority sy < N"
    and spec: "engine_spec (sy_engine sy) (crosses (opposite_side s) px) (\<lambda>_. False) target (queue L sy (opposite_side s)) = (fs, cs, es', q')"
  obtains sy' x' where "applyPhantomLevelUpdate L s px target t (sy, x) = Some (sy', x')" "hl_done L binv N (sy, x) (sy', x')"
    "if l3_level_at L (ob_l3 sy) s px \<noteq> None
     then getMDLevelQty sy' px = reconciled_qty target (credit_after t (credits_at s px sy)) \<and> level_frame L s px sy sy'
     else if target = 0 then sy' = sy
     else queue L sy' (opposite_side s) = es' \<and> target = filled_qty fs + q' \<and>
       queue L sy' s = (if 0 < q' then insert_entry s \<lparr>en_price = px, en_id = ob_next_order_id sy, en_qty = q', en_prio = t\<rparr> (queue L sy s) else queue L sy s)"
proof (cases "l3_level_at L (ob_l3 sy) s px")
  case None
  show thesis
  proof (cases "target = 0")
    case True
    have "hl_done L binv N (sy, x) (sy, x)" using ok hist by (simp add: hl_done_def)
    then show thesis using that [of sy x] None True by (simp add: applyPhantomLevelUpdate_def)
  next
    case False
    then have q: "0 < target" using tgt by simp
    obtain sy' x' where r: "hl_match_and_rest L s px target t (sy, x) = Some (sy', x')" "hl_done L binv N (sy, x) (sy', x')"
      "queue L sy' (opposite_side s) = es'"
      "queue L sy' s = (if 0 < q' then insert_entry s \<lparr>en_price = px, en_id = ob_next_order_id sy, en_qty = q', en_prio = t\<rparr> (queue L sy s) else queue L sy s)"
      "target = filled_qty fs + q'"
      by (rule hl_match_and_rest_ok [OF l3 ok hist s q px fit t spec, of x])
    have "applyPhantomLevelUpdate L s px target t (sy, x) = Some (sy', x')" using None q r(1) by (simp add: applyPhantomLevelUpdate_def)
    then show thesis
      by (rule that [OF _ r(2)]) (simp only: None False simp_thms if_False if_True, intro conjI r(3-5))
  qed
next
  case (Some lk)
  then obtain level k where lv: "l3_level_at L (ob_l3 sy) s px = Some (level, k)" by (cases lk) auto
  let ?sy = "reconcilePhantomQty L s px target t 0 True sy"
  note r = hl_reconcile_ok [OF l3 ok s tgt lv p refl, of t True] and f = hl_reconcile_frame [where L = L and s = s and px = px and target = target and t = t and ee = True and sy = sy, OF refl]
  have "hl_done L binv N (sy, x) (?sy, x)" using r(1) f hist by (simp add: hl_done_def feed_frame_def)
  moreover have "applyPhantomLevelUpdate L s px target t (sy, x) = Some (?sy, x)" by (simp add: applyPhantomLevelUpdate_def lv)
  ultimately show thesis
    by (intro that [of ?sy x]) (assumption+, simp only: lv option.distinct not_False_eq_True if_True, intro conjI r(2,3))
qed

text \<open>
  What a level message does to the book, the rank of new liquidity included: it rests ranked by the time of the message. The code
  passes the priority 0, for which the L3 book takes the time, although order-book.md (lines 186 to 188) says that the
  venue's orders draw from the clients' counter and market_events.hpp (line 20) that the priority is never 0.
\<close>

theorem hyperliquid_level_ranked:
  fixes sy :: "'l Symbol"
  assumes "l3_book L binv" and "symbol_ok L binv {} sy" and "history_ok (sy_trade_history sy)" and "real_side s" and "0 \<le> target"
    and "px \<noteq> NULL_PRICE" and "fits (queue L sy (opposite_side s))" and "t \<le> N" and "ob_next_priority sy < N"
    and "engine_spec (sy_engine sy) (crosses (opposite_side s) px) (\<lambda>_. False) target (queue L sy (opposite_side s)) = (fs, cs, es', q')"
  shows "\<exists>sy' x'. applyPhantomLevelUpdate L s px target t (sy, x) = Some (sy', x') \<and>
    obinv L binv {} sy' \<and> pool_exact {} sy' \<and> uncrossed L sy' \<and>
    (if l3_level_at L (ob_l3 sy) s px \<noteq> None
     then getMDLevelQty sy' px = reconciled_qty target (credit_after t (credits_at s px sy)) \<and>
       queue L sy' (opposite_side s) = queue L sy (opposite_side s) \<and>
       (\<forall>e\<in>set (queue L sy s). ob_orders sy (en_id e) \<noteq> None \<or> en_price e \<noteq> px \<longrightarrow> e \<in> set (queue L sy' s))
     else if target = 0 then sy' = sy
     else queue L sy' (opposite_side s) = es' \<and> target = filled_qty fs + q' \<and>
       queue L sy' s = (if 0 < q' then insert_entry s \<lparr>en_price = px, en_id = ob_next_order_id sy, en_qty = q', en_prio = t\<rparr> (queue L sy s) else queue L sy s))"
proof -
  have ok: "hl_ok L binv N sy" using symbol_hl_ok [OF assms(2)] assms(9) by simp
  obtain sy' x' where r: "applyPhantomLevelUpdate L s px target t (sy, x) = Some (sy', x')" "hl_done L binv N (sy, x) (sy', x')"
    "if l3_level_at L (ob_l3 sy) s px \<noteq> None
     then getMDLevelQty sy' px = reconciled_qty target (credit_after t (credits_at s px sy)) \<and> level_frame L s px sy sy'
     else if target = 0 then sy' = sy
     else queue L sy' (opposite_side s) = es' \<and> target = filled_qty fs + q' \<and>
       queue L sy' s = (if 0 < q' then insert_entry s \<lparr>en_price = px, en_id = ob_next_order_id sy, en_qty = q', en_prio = t\<rparr> (queue L sy s) else queue L sy s)"
    by (rule apply_phantom_ok [OF assms(1) ok assms(3-10), of x])
  have "hl_ok L binv N sy'" using r(2) by (simp add: hl_done_def)
  note k = hl_okD(1-3) [OF this]
  have lf: "queue L sy' (opposite_side s) = queue L sy (opposite_side s) \<and>
      (\<forall>e\<in>set (queue L sy s). ob_orders sy (en_id e) \<noteq> None \<or> en_price e \<noteq> px \<longrightarrow> e \<in> set (queue L sy' s))"
    if "level_frame L s px sy sy'" using that by (simp add: level_frame_def)
  show ?thesis
  proof (cases "l3_level_at L (ob_l3 sy) s px = None")
    case True
    show ?thesis by (intro exI conjI, rule r(1), rule k, rule k, rule k, insert r(3), simp only: True simp_thms if_False)
  next
    case False
    have "getMDLevelQty sy' px = reconciled_qty target (credit_after t (credits_at s px sy)) \<and> level_frame L s px sy sy'"
      using r(3) False by (simp only: simp_thms if_True)
    note m = this [THEN conjunct1] lf [OF this [THEN conjunct2]]
    show ?thesis by (intro exI conjI, rule r(1), rule k, rule k, rule k, simp only: False simp_thms if_True) (intro conjI m)
  qed
qed

lemma last_branch_mono:
  assumes "if a then A else if b then B else C \<and> D \<and> E" and "E \<Longrightarrow> E'"
  shows "if a then A else if b then B else C \<and> D \<and> E'"
  using assms by (simp split: if_splits)

text \<open>
  C17. A level message sets the level. On a price the book has, the venue's own quantity becomes what the
  message says, less the traded quantity it cannot have seen, and nothing else moves; on a new price a
  quantity of nothing is ignored, and any other first takes what it crosses and rests with what is left,
  under a fresh number and some priority. The book stays consistent, uncrossed and free of leaks. The message has a side and a
  price, its quantity is not negative, and the other side of the book is within 64 bits. Which priority the code
  gives the new liquidity is stated apart, in \<open>hyperliquid_level_ranked\<close>, because it is not what order-book.md says.
\<close>

theorem hyperliquid_level_exact:
  fixes sy :: "'l Symbol"
  assumes "l3_book L binv" and "symbol_ok L binv {} sy" and "history_ok (sy_trade_history sy)" and "real_side s" and "0 \<le> target"
    and "px \<noteq> NULL_PRICE" and "fits (queue L sy (opposite_side s))" and "t \<le> N" and "ob_next_priority sy < N"
    and "engine_spec (sy_engine sy) (crosses (opposite_side s) px) (\<lambda>_. False) target (queue L sy (opposite_side s)) = (fs, cs, es', q')"
  shows "\<exists>sy' x'. applyPhantomLevelUpdate L s px target t (sy, x) = Some (sy', x') \<and>
    obinv L binv {} sy' \<and> pool_exact {} sy' \<and> uncrossed L sy' \<and>
    (if l3_level_at L (ob_l3 sy) s px \<noteq> None
     then getMDLevelQty sy' px = reconciled_qty target (credit_after t (credits_at s px sy)) \<and>
       queue L sy' (opposite_side s) = queue L sy (opposite_side s) \<and>
       (\<forall>e\<in>set (queue L sy s). ob_orders sy (en_id e) \<noteq> None \<or> en_price e \<noteq> px \<longrightarrow> e \<in> set (queue L sy' s))
     else if target = 0 then sy' = sy
     else queue L sy' (opposite_side s) = es' \<and> target = filled_qty fs + q' \<and>
       (if 0 < q' then \<exists>pr. queue L sy' s = insert_entry s \<lparr>en_price = px, en_id = ob_next_order_id sy, en_qty = q', en_prio = pr\<rparr> (queue L sy s)
        else queue L sy' s = queue L sy s))"
proof -
  obtain sy' x' where r: "applyPhantomLevelUpdate L s px target t (sy, x) = Some (sy', x')" "obinv L binv {} sy'" "pool_exact {} sy'" "uncrossed L sy'"
    "if l3_level_at L (ob_l3 sy) s px \<noteq> None
     then getMDLevelQty sy' px = reconciled_qty target (credit_after t (credits_at s px sy)) \<and>
       queue L sy' (opposite_side s) = queue L sy (opposite_side s) \<and>
       (\<forall>e\<in>set (queue L sy s). ob_orders sy (en_id e) \<noteq> None \<or> en_price e \<noteq> px \<longrightarrow> e \<in> set (queue L sy' s))
     else if target = 0 then sy' = sy
     else queue L sy' (opposite_side s) = es' \<and> target = filled_qty fs + q' \<and>
       queue L sy' s = (if 0 < q' then insert_entry s \<lparr>en_price = px, en_id = ob_next_order_id sy, en_qty = q', en_prio = t\<rparr> (queue L sy s) else queue L sy s)"
    using hyperliquid_level_ranked [OF assms, of x] by (elim exE conjE) (rule that)
  have rank: "if 0 < q' then \<exists>pr. queue L sy' s = insert_entry s \<lparr>en_price = px, en_id = ob_next_order_id sy, en_qty = q', en_prio = pr\<rparr> (queue L sy s)
      else queue L sy' s = queue L sy s"
    if "queue L sy' s = (if 0 < q' then insert_entry s \<lparr>en_price = px, en_id = ob_next_order_id sy, en_qty = q', en_prio = t\<rparr> (queue L sy s) else queue L sy s)"
    using that by (cases "0 < q'") auto
  show ?thesis
    by (rule exI [of _ sy'], rule exI [of _ x'], intro conjI r(1-4))
      (rule last_branch_mono [OF r(5) rank])
qed

theorem hyperliquid_level_exact_witness:
  "\<exists>sy' x'. applyPhantomLevelUpdate rf_ops SELL 99 2 5 (ex_work, ex_exchange) = Some (sy', x') \<and>
     queue rf_ops sy' BUY = [\<lparr>en_price = 100, en_id = 1, en_qty = 3, en_prio = 1\<rparr>] \<and> queue rf_ops sy' SELL = []"
proof -
  have spec: "engine_spec (sy_engine ex_work) (crosses (opposite_side SELL) 99) (\<lambda>_. False) 2 (queue rf_ops ex_work (opposite_side SELL)) =
      ([(\<lparr>en_price = 100, en_id = 1, en_qty = 5, en_prio = 1\<rparr>, 2)], [], [\<lparr>en_price = 100, en_id = 1, en_qty = 3, en_prio = 1\<rparr>], 0)"
    by (simp add: ex_resting ex_engine_sel crosses_def isPriceBetterOrEqual_def)
  have none: "l3_level_at rf_ops (ob_l3 ex_work) SELL 99 = None"
  proof -
    have "rf_queue (ob_l3 ex_work) SELL = []" using ex_rf_queue [of SELL] ex_engine_sel(4) by (simp add: ex_symbol_def)
    then show ?thesis by (simp add: rf_ops_def level_of_def del: rf_queue.simps)
  qed
  have q: "queue rf_ops ex_work SELL = []" "fits (queue rf_ops ex_work (opposite_side SELL))" by (simp_all add: ex_resting ex_engine_sel fits_def)
  have n: "ob_next_priority ex_work < 9" "(5::nat) \<le> 9" by simp_all
  have side: "real_side SELL" "(0::qty_t) \<le> 2" "(99::price_t) \<noteq> NULL_PRICE" by (simp_all add: real_side_def NULL_PRICE_def)
  from hyperliquid_level_exact [OF ref.l3_book_axioms ex_work_ok side q(2) n(2,1) spec, of ex_exchange] show ?thesis
    by (simp only: none if_False if_True simp_thms q(1) opposite_side.simps) auto
qed

text \<open>
  The rank by time is not the rank the book keeps for clients: a client order added later, under a
  drawn priority below the time, goes ahead of the liquidity that was there first.
\<close>

theorem later_client_ranks_first:
  assumes "x \<in> set es" and "en_price x = en_price e" and "en_prio e < en_prio x"
  shows "\<exists>as bs. insert_entry s e es = as @ e # bs \<and> x \<in> set bs"
proof -
  have "\<not> before s x e" using assms(2,3) by (simp add: before_def isPriceBetter_irrefl)
  then have "x \<in> set (dropWhile (\<lambda>x. before s x e) es)"
    using assms(1) by (metis Un_iff set_append set_takeWhileD takeWhile_dropWhile_id)
  then show ?thesis by (auto simp: insert_entry_def)
qed

end
