(* ===== verification/Md_Publisher.thy ===== *)
theory Md_Publisher
  imports Sim_Exchange Fixed_String
begin

text \<open>
  \<open>src/src/market_data_publisher/ws_md_publisher.cpp\<close> and what the publishers of the two venues share: a
  text member of a parsed message, the request a subscription sends the exchange, the walk over a set
  of sockets, and the batch loop over the market-data queue.
\<close>

text \<open>A member read with the empty text as default; reading something that is not text raises.\<close>

datatype text_member = Absent | TextMember string | OtherMember

fun text_value :: "text_member \<Rightarrow> string option" where
  "text_value Absent = Some []"
| "text_value (TextMember s) = Some s"
| "text_value OtherMember = None"

record md_request =
  mq_symbol :: string
  mq_subscribe :: bool
  mq_channel :: nat
  mq_client :: nat

text \<open>\<open>None\<close> is an exception or the use of a closed socket, which ends the walk.\<close>

fun serve_each :: "('a \<Rightarrow> 'p \<Rightarrow> 'p option) \<Rightarrow> 'a list \<Rightarrow> 'p \<Rightarrow> 'p option" where
  "serve_each f [] p = Some p"
| "serve_each f (ws # wss) p = Option.bind (f ws p) (serve_each f wss)"

text \<open>At most 1000 frames a turn of the event loop, and none after a whole book.\<close>

fun publish_loop :: "(MarketDataUpdate \<Rightarrow> 'p \<Rightarrow> 'p option) \<Rightarrow> MarketDataUpdate list \<Rightarrow> nat \<Rightarrow> nat \<times> 'p \<Rightarrow> (nat \<times> 'p) option" where
  "publish_loop pub frames 0 v = Some v"
| "publish_loop pub frames (Suc budget) (data_cursor, p) =
     (if data_cursor < length frames then
        (case pub (frames ! data_cursor) p of
           None \<Rightarrow> None
         | Some p1 \<Rightarrow>
             if md_type (frames ! data_cursor) = MD_SUB_RESPONSE \<or> md_type (frames ! data_cursor) = MD_BOOK_SNAPSHOT then Some (data_cursor + 1, p1)
             else publish_loop pub frames budget (data_cursor + 1, p1))
      else Some (data_cursor, p))"

text \<open>
  \<open>pub\<close> is \<open>publish_market_data_update\<close> of the venue's publisher, a virtual function; \<open>Event_Loop\<close> runs it with both of
  them. \<open>frames\<close> are the frames as the reader of the queue, a class of slick::queue, sees them.
\<close>

definition publish_processing :: "(MarketDataUpdate \<Rightarrow> 'p \<Rightarrow> 'p option) \<Rightarrow> MarketDataUpdate list \<Rightarrow> nat \<times> 'p \<Rightarrow> (nat \<times> 'p) option" where
  "publish_processing pub frames v = publish_loop pub frames 1000 v"

end
