(* ===== verification/Hyperliquid_Publisher.thy ===== *)
theory Hyperliquid_Publisher
  imports Hyperliquid_Exchange Md_Publisher
begin

text \<open>
  \<open>src/src/venues/hyperliquid/hyperliquid_publisher.cpp\<close> and \<open>hyperliquid_trade_encoder.cpp\<close>: the market-data
  side of the Hyperliquid venue, one event loop. Sockets are numbered, and closing one takes its data away. A message is seen through
  the members the publisher reads of the parsed document; frames are kept as values, per connection,
  and the compression of a diff is left to its libraries. An unordered set is a list without
  repetitions. \<open>None\<close> is an exception that leaves a handler or the use of a closed socket.
\<close>

section \<open>Messages and frames\<close>

record hp_subscription =
  hsub_type :: text_member
  hsub_coin :: text_member
  hsub_c :: text_member

text \<open>The subscription is absent, not an object, or one with those members.\<close>

datatype hp_message = BadJson string | NotObject | HpMessage text_member "hp_subscription option option"

record trade_row =
  tr_coin :: string
  tr_side :: string
  tr_px :: string
  tr_sz :: string
  tr_time_ms :: nat
  tr_tid :: nat

datatype hp_frame =
    HpPong
  | HpError string
  | HpL2Ack hp_subscription
  | HpL2Book string nat "l2_row list" "l2_row list"
  | HpL2Snapshot string nat "l2_row list" "l2_row list"
  | HpL2Diff string L2Diff nat
  | HpTrades "trade_row list"
  | HpSubscriptions "string list"
  | HpHeartbeatSubscribed
  | HpHeartbeat "64 word"
  | HpPing

definition encode_trade :: "string \<Rightarrow> nat \<Rightarrow> time_ns \<Rightarrow> price_t \<Rightarrow> qty_t \<Rightarrow> Side \<Rightarrow> trade_row" where
  "encode_trade coin tid t px q aggressor_side = \<lparr>tr_coin = coin, tr_side = (if aggressor_side = BUY then ''B'' else ''A''),
     tr_px = to_hyperliquid_number px, tr_sz = to_hyperliquid_number q, tr_time_ms = t div 1000000, tr_tid = tid\<rparr>"

definition encode_trade_summary :: "string \<Rightarrow> TradeSummary \<Rightarrow> hp_frame" where
  "encode_trade_summary coin summary = HpTrades [encode_trade coin (tm_trade_id summary) (tm_timestamp summary)
     (tm_price summary) (tm_qty summary) (tm_aggressor_side summary)]"

definition encode_trades :: "string \<Rightarrow> MDTrade list \<Rightarrow> hp_frame" where
  "encode_trades coin trades = HpTrades (map (\<lambda>tr. encode_trade coin (mt_trade_id tr) (mt_event_time tr) (mt_price tr) (mt_qty tr) (mt_side tr)) trades)"

section \<open>State\<close>

record SubInfo =
  si_active :: "string list"
  si_pending :: "string set"
  si_received :: "string list"

record HyperliquidPerSocketData =
  hs_last_pong :: nat
  hs_subscribed_heartbeat :: bool
  hs_subs :: "HyperliquidChannel \<Rightarrow> SubInfo"

record HyperliquidPublisher =
  hp_clients :: "nat list"
  hp_sockets :: "nat \<rightharpoonup> HyperliquidPerSocketData"
  hp_symbol_channel_client :: "string \<Rightarrow> (HyperliquidChannel \<times> nat) list"
  hp_subscription_info :: "HyperliquidChannel \<Rightarrow> string \<Rightarrow> nat list"
  hp_l2_diff_baseline :: "string \<rightharpoonup> L2Levels \<times> L2Levels"
  hp_heartbeat_count :: "64 word"
  hp_request_queue :: "md_request list"
  hp_sent :: "nat \<Rightarrow> hp_frame list"

definition new_hl_publisher :: HyperliquidPublisher where
  "new_hl_publisher = \<lparr>hp_clients = [], hp_sockets = Map.empty, hp_symbol_channel_client = (\<lambda>_. []), hp_subscription_info = (\<lambda>_ _. []),
     hp_l2_diff_baseline = Map.empty, hp_heartbeat_count = 0, hp_request_queue = [], hp_sent = (\<lambda>_. [])\<rparr>"

definition no_subs :: SubInfo where
  "no_subs = \<lparr>si_active = [], si_pending = {}, si_received = []\<rparr>"

section \<open>Sockets\<close>

definition hp_send :: "nat \<Rightarrow> hp_frame \<Rightarrow> HyperliquidPublisher \<Rightarrow> HyperliquidPublisher" where
  "hp_send ws frame p = p\<lparr>hp_sent := (hp_sent p)(ws := hp_sent p ws @ [frame])\<rparr>"

definition hp_set_socket :: "nat \<Rightarrow> HyperliquidPerSocketData \<Rightarrow> HyperliquidPublisher \<Rightarrow> HyperliquidPublisher" where
  "hp_set_socket ws d p = p\<lparr>hp_sockets := (hp_sockets p)(ws \<mapsto> d)\<rparr>"

text \<open>A new connection has been sent nothing.\<close>

definition hp_open :: "nat \<Rightarrow> nat \<Rightarrow> HyperliquidPublisher \<Rightarrow> HyperliquidPublisher" where
  "hp_open ws now p = (hp_set_socket ws \<lparr>hs_last_pong = now, hs_subscribed_heartbeat = False, hs_subs = (\<lambda>_. no_subs)\<rparr> p)
     \<lparr>hp_clients := List.insert ws (hp_clients p), hp_sent := (hp_sent p)(ws := [])\<rparr>"

definition hp_pong :: "nat \<Rightarrow> nat \<Rightarrow> HyperliquidPublisher \<Rightarrow> HyperliquidPublisher option" where
  "hp_pong ws now p = map_option (\<lambda>d. hp_set_socket ws (d\<lparr>hs_last_pong := now\<rparr>) p) (hp_sockets p ws)"

definition hp_send_error :: "nat \<Rightarrow> string \<Rightarrow> HyperliquidPublisher \<Rightarrow> HyperliquidPublisher" where
  "hp_send_error ws error_msg p = hp_send ws (HpError error_msg) p"

text \<open>The name in the request is the wire field's, the keys of the maps are the whole name.\<close>

definition subscribe_channel :: "nat \<Rightarrow> HyperliquidChannel \<Rightarrow> string \<Rightarrow> HyperliquidPublisher \<Rightarrow> HyperliquidPublisher option" where
  "subscribe_channel ws ch coin p = (case hp_sockets p ws of
      None \<Rightarrow> None
    | Some ud \<Rightarrow>
        (let request = \<lparr>mq_symbol = fs_view (fst (copy_wire_field 32 coin)), mq_subscribe = True, mq_channel = channel_number ch, mq_client = ws\<rparr>;
             sub = hs_subs ud ch;
             sub' = sub\<lparr>si_active := List.insert coin (si_active sub), si_pending := insert coin (si_pending sub)\<rparr>
         in Some ((hp_set_socket ws (ud\<lparr>hs_subs := (hs_subs ud)(ch := sub')\<rparr>) p)
              \<lparr>hp_request_queue := hp_request_queue p @ [request],
               hp_subscription_info := (hp_subscription_info p)(ch := (hp_subscription_info p ch)(coin := List.insert ws (hp_subscription_info p ch coin))),
               hp_symbol_channel_client := (hp_symbol_channel_client p)(coin := hp_symbol_channel_client p coin @ [(ch, ws)])\<rparr>)))"

definition subscribe_coin :: "nat \<Rightarrow> string \<Rightarrow> text_member \<Rightarrow> string \<Rightarrow> (string \<Rightarrow> HyperliquidPublisher \<Rightarrow> HyperliquidPublisher option) \<Rightarrow>
    HyperliquidPublisher \<Rightarrow> HyperliquidPublisher option" where
  "subscribe_coin ws meth member error_msg subscribe p = (case text_value member of
      None \<Rightarrow> None
    | Some coin \<Rightarrow>
        if coin = [] then Some (hp_send_error ws error_msg p)
        else if meth = ''subscribe'' then subscribe coin p else Some p)"

definition hp_handle_message :: "nat \<Rightarrow> hp_message \<Rightarrow> HyperliquidPublisher \<Rightarrow> HyperliquidPublisher option" where
  "hp_handle_message ws message p = (case message of
      BadJson e \<Rightarrow> Some (hp_send_error ws (''invalid JSON: '' @ e) p)
    | NotObject \<Rightarrow> None
    | HpMessage member sub \<Rightarrow>
       (case text_value member of None \<Rightarrow> None | Some meth \<Rightarrow>
        if meth = ''ping'' then Some (hp_send ws HpPong p)
        else if meth \<noteq> ''subscribe'' \<and> meth \<noteq> ''unsubscribe'' then Some (hp_send_error ws (''method `'' @ meth @ ''` is not supported'') p)
        else (case sub of
           None \<Rightarrow> Some (hp_send_error ws ''missing `subscription` field'' p)
         | Some None \<Rightarrow> None
         | Some (Some sub) \<Rightarrow>
            (case text_value (hsub_type sub) of None \<Rightarrow> None | Some type \<Rightarrow>
             if type = ''l2Book'' then
               subscribe_coin ws meth (hsub_coin sub) ''missing `coin` in subscription'' (subscribe_channel ws L2_BOOK) p
             else if type = ''trades'' then
               subscribe_coin ws meth (hsub_coin sub) ''missing `coin` in subscription'' (subscribe_channel ws TRADES) p
             else if type = ''l2'' then
               subscribe_coin ws meth (hsub_c sub) ''missing `c` in subscription''
                 (\<lambda>coin p. subscribe_channel ws L2 coin (hp_send ws (HpL2Ack sub) p)) p
             else if type = ''heartbeat'' then
               map_option (\<lambda>ud. hp_send ws HpHeartbeatSubscribed (hp_set_socket ws (ud\<lparr>hs_subscribed_heartbeat := True\<rparr>) p)) (hp_sockets p ws)
             else Some (hp_send_error ws (''subscription type `'' @ type @ ''` is not supported'') p)))))"

section \<open>Publishing\<close>

fun channel_of_number :: "nat \<Rightarrow> HyperliquidChannel option" where
  "channel_of_number n = (if n = 0 then Some L2_BOOK else if n = 1 then Some TRADES else if n = 2 then Some L2 else None)"

text \<open>One waiting subscriber: the snapshot, the newer trades if any, and the confirmation when it waits for nothing else.\<close>

definition serve_pending :: "HyperliquidChannel \<Rightarrow> string \<Rightarrow> hp_frame \<Rightarrow> hp_frame option \<Rightarrow> nat \<Rightarrow> HyperliquidPublisher \<Rightarrow> HyperliquidPublisher option" where
  "serve_pending ch coin snapshot_msg update_msg ws p = (case hp_sockets p ws of
      None \<Rightarrow> None
    | Some ud \<Rightarrow>
        (let sub = hs_subs ud ch
         in if coin \<in> si_pending sub then
              (let sub' = sub\<lparr>si_pending := si_pending sub - {coin}, si_received := si_received sub @ [coin]\<rparr>;
                   p1 = hp_send ws snapshot_msg (hp_set_socket ws (ud\<lparr>hs_subs := (hs_subs ud)(ch := sub')\<rparr>) p);
                   p2 = (case update_msg of None \<Rightarrow> p1 | Some m \<Rightarrow> hp_send ws m p1)
               in Some (if si_pending sub' = {} then hp_send ws (HpSubscriptions (si_received sub')) p2 else p2))
            else Some p))"

text \<open>Sending to a socket that is closed is a use after it was freed.\<close>

definition hp_send_open :: "hp_frame \<Rightarrow> nat \<Rightarrow> HyperliquidPublisher \<Rightarrow> HyperliquidPublisher option" where
  "hp_send_open frame ws p = (if hp_sockets p ws = None then None else Some (hp_send ws frame p))"

definition snapshot_levels :: "BookSnapshot \<Rightarrow> L2Levels \<times> L2Levels" where
  "snapshot_levels snapshot = snd (split_book_snapshot (snap_levels snapshot) (num_bid snapshot) (num_ask snapshot))"

definition snapshot_rows :: "BookSnapshot \<Rightarrow> l2_row list \<times> l2_row list" where
  "snapshot_rows snapshot = fst (split_book_snapshot (snap_levels snapshot) (num_bid snapshot) (num_ask snapshot))"

definition publish_subscription_response :: "nat \<Rightarrow> string \<Rightarrow> md_body \<Rightarrow> HyperliquidPublisher \<Rightarrow> HyperliquidPublisher option" where
  "publish_subscription_response time_ms coin bd p = (case bd of
      RejectBody n reason \<Rightarrow>
        Option.bind (channel_of_number n) (\<lambda>ch.
          if hp_subscription_info p ch coin = [] then Some p
          else if reason = SR_NONE then None
          else serve_each (hp_send_open (HpError (''subscription to `'' @ coin @ ''` rejected: '' @ to_string_MDSubscriptionRejectReason reason)))
            (hp_subscription_info p ch coin) p)
    | SubSnapshotBody n snapshot \<Rightarrow>
        Option.bind (channel_of_number n) (\<lambda>ch.
          let subscribers = hp_subscription_info p ch coin; (bids, asks) = snapshot_rows snapshot
          in if subscribers = [] then Some p
             else if ch = L2_BOOK then serve_each (serve_pending ch coin (HpL2Book coin time_ms bids asks) None) subscribers p
             else if ch = L2 then
               serve_each (serve_pending ch coin (HpL2Snapshot coin time_ms bids asks) None) subscribers
                 (p\<lparr>hp_l2_diff_baseline := (hp_l2_diff_baseline p)(coin \<mapsto> snapshot_levels snapshot)\<rparr>)
             else None)
    | TradeSnapshotBody n num_snapshot num_update trades \<Rightarrow>
        Option.bind (channel_of_number n) (\<lambda>ch.
          if hp_subscription_info p ch coin = [] then Some p
          else if ch = TRADES then
            serve_each (serve_pending ch coin (encode_trades coin (take num_snapshot trades))
                (if num_update = 0 then None else Some (encode_trades coin (take num_update (drop num_snapshot trades)))))
              (hp_subscription_info p ch coin) p
          else None)
    | _ \<Rightarrow> None)"

definition publish_book_snapshot :: "nat \<Rightarrow> string \<Rightarrow> BookSnapshot \<Rightarrow> HyperliquidPublisher \<Rightarrow> HyperliquidPublisher option" where
  "publish_book_snapshot time_ms coin snapshot p =
     (let has_l2book = hp_subscription_info p L2_BOOK coin \<noteq> [];
          has_l2 = hp_subscription_info p L2 coin \<noteq> [];
          (bids, asks) = snapshot_rows snapshot;
          (curr_bid, curr_ask) = snapshot_levels snapshot
      in case (if has_l2book then serve_each (hp_send_open (HpL2Book coin time_ms bids asks)) (hp_subscription_info p L2_BOOK coin) p else Some p) of
           None \<Rightarrow> None
         | Some p1 \<Rightarrow>
             if has_l2 then
               (let (prev_bid, prev_ask) = (case hp_l2_diff_baseline p1 coin of None \<Rightarrow> ([], []) | Some b \<Rightarrow> b);
                    diff = compute_l2_diff prev_bid prev_ask curr_bid curr_ask
                in serve_each (hp_send_open (HpL2Diff coin diff time_ms)) (hp_subscription_info p1 L2 coin)
                     (p1\<lparr>hp_l2_diff_baseline := (hp_l2_diff_baseline p1)(coin \<mapsto> (curr_bid, curr_ask))\<rparr>))
             else Some p1)"

definition publish_trade_summary :: "string \<Rightarrow> TradeSummary \<Rightarrow> HyperliquidPublisher \<Rightarrow> HyperliquidPublisher option" where
  "publish_trade_summary coin summary p = serve_each (hp_send_open (encode_trade_summary coin summary)) (hp_subscription_info p TRADES coin) p"

text \<open>A frame whose body is not the one its type announces would be read past its end.\<close>

definition publish_market_data_update :: "nat \<Rightarrow> MarketDataUpdate \<Rightarrow> HyperliquidPublisher \<Rightarrow> HyperliquidPublisher option" where
  "publish_market_data_update time_ms update p = (case md_type update of
      MD_SUB_RESPONSE \<Rightarrow> publish_subscription_response time_ms (md_symbol update) (md_body update) p
    | MD_BOOK_SNAPSHOT \<Rightarrow> (case md_body update of SnapshotBody snapshot \<Rightarrow> publish_book_snapshot time_ms (md_symbol update) snapshot p | _ \<Rightarrow> None)
    | MD_TRADE_SUMMARY \<Rightarrow> (case md_body update of TradeSummaryBody summary \<Rightarrow> publish_trade_summary (md_symbol update) summary p | _ \<Rightarrow> None)
    | _ \<Rightarrow> Some p)"

section \<open>Closing\<close>

text \<open>One subscription of a leaving socket.\<close>

definition drop_subscription :: "nat \<Rightarrow> HyperliquidChannel \<Rightarrow> string \<Rightarrow> HyperliquidPublisher \<Rightarrow> HyperliquidPublisher" where
  "drop_subscription ws ch coin p =
     (let request = \<lparr>mq_symbol = fs_view (fst (copy_wire_field 32 coin)), mq_subscribe = False, mq_channel = channel_number ch, mq_client = ws\<rparr>;
          coin_subs = removeAll ws (hp_subscription_info p ch coin)
      in p\<lparr>hp_request_queue := hp_request_queue p @ [request],
           hp_symbol_channel_client := (hp_symbol_channel_client p)(coin := remove1 (ch, ws) (hp_symbol_channel_client p coin)),
           hp_subscription_info := (hp_subscription_info p)(ch := (hp_subscription_info p ch)(coin := coin_subs)),
           hp_l2_diff_baseline := (if ch = L2 \<and> coin_subs = [] then (hp_l2_diff_baseline p)(coin := None) else hp_l2_diff_baseline p)\<rparr>)"

definition unsubscribe_md :: "nat \<Rightarrow> HyperliquidPerSocketData \<Rightarrow> HyperliquidPublisher \<Rightarrow> HyperliquidPublisher" where
  "unsubscribe_md ws ud p = foldl (\<lambda>p ch. foldl (\<lambda>p coin. drop_subscription ws ch coin p) p (si_active (hs_subs ud ch))) p [L2_BOOK, TRADES, L2]"

text \<open>The close handler; the connection's data is gone afterwards.\<close>

definition hp_handle_close :: "nat \<Rightarrow> HyperliquidPublisher \<Rightarrow> HyperliquidPublisher option" where
  "hp_handle_close ws p = (case hp_sockets p ws of
      None \<Rightarrow> None
    | Some ud \<Rightarrow> Some ((unsubscribe_md ws ud p)\<lparr>hp_clients := removeAll ws (hp_clients p), hp_sockets := (hp_sockets p)(ws := None)\<rparr>))"

text \<open>Whole seconds since the last pong, compared with 60.\<close>

definition hp_check_client :: "nat \<Rightarrow> nat \<Rightarrow> HyperliquidPublisher \<Rightarrow> HyperliquidPublisher option" where
  "hp_check_client now ws p = (case hp_sockets p ws of
      None \<Rightarrow> None
    | Some ud \<Rightarrow>
        if (now - hs_last_pong ud) div 1000000000 > 60 then hp_handle_close ws (p\<lparr>hp_clients := removeAll ws (hp_clients p)\<rparr>)
        else let p1 = (if hs_subscribed_heartbeat ud
                       then hp_send ws (HpHeartbeat (hp_heartbeat_count p)) (p\<lparr>hp_heartbeat_count := hp_heartbeat_count p + 1\<rparr>) else p)
             in Some (hp_send ws HpPing p1))"

definition hp_check_heartbeats :: "nat \<Rightarrow> HyperliquidPublisher \<Rightarrow> HyperliquidPublisher option" where
  "hp_check_heartbeats now p = serve_each (hp_check_client now) (hp_clients p) p"

end
