(* ===== verification/Publisher_Mirror.thy ===== *)
theory Publisher_Mirror
  imports Hyperliquid_Publisher
begin

text \<open>
  What a subscriber of the Hyperliquid incremental book channel can rebuild. A connection that applies
  every frame it is sent holds a copy of the book; the publisher computes the next diff from one
  baseline per coin. The two stay the same exactly as long as the baseline only moves with a frame
  every served subscriber gets.
\<close>

section \<open>A subscriber's copy\<close>

definition client_levels :: "(string \<Rightarrow> int) \<Rightarrow> Side \<Rightarrow> (string \<times> string) list \<times> nat list \<Rightarrow> L2Levels \<Rightarrow> L2Levels" where
  "client_levels read s d prev = map (\<lambda>px. (px, the (client_apply read d prev px))) (mirror_apply read s d (map fst prev))"

definition rows_levels :: "(string \<Rightarrow> int) \<Rightarrow> l2_row list \<Rightarrow> L2Levels" where
  "rows_levels read rows = map (\<lambda>(p, q, n). (read p, read q)) rows"

fun mirror_step :: "(string \<Rightarrow> int) \<Rightarrow> string \<Rightarrow> (L2Levels \<times> L2Levels) option \<Rightarrow> hp_frame \<Rightarrow> (L2Levels \<times> L2Levels) option" where
  "mirror_step read coin m (HpL2Snapshot c t bids asks) = (if c = coin then Some (rows_levels read bids, rows_levels read asks) else m)"
| "mirror_step read coin m (HpL2Diff c d t) = (if c = coin
     then map_option (\<lambda>(b, a). (client_levels read BUY (fst (dl d), fst (dr d)) b, client_levels read SELL (snd (dl d), snd (dr d)) a)) m else m)"
| "mirror_step read coin m _ = m"

definition mirror :: "(string \<Rightarrow> int) \<Rightarrow> string \<Rightarrow> hp_frame list \<Rightarrow> (L2Levels \<times> L2Levels) option" where
  "mirror read coin frames = foldl (mirror_step read coin) None frames"

lemma mirror_simps [simp]: "mirror read coin [] = None" "mirror read coin (fs @ [f]) = mirror_step read coin (mirror read coin fs) f"
  by (simp_all add: mirror_def)

lemma client_levels_diff:
  assumes "best_first s (map fst prev)" and "best_first s (map fst cur)" and "numbers_read read cur"
  shows "client_levels read s (diff_side prev cur d) prev = cur"
proof -
  note dist = best_first_distinct [OF assms(1)] best_first_distinct [OF assms(2)]
  have "map (\<lambda>px. (px, the (map_of cur px))) (map fst cur) = map id cur"
    unfolding map_map using dist(2) by (intro map_cong) (auto simp: map_of_eq_Some_iff)
  then show ?thesis unfolding client_levels_def diff_prices_applied [OF assms] diff_sizes_applied [OF dist assms(3)] by simp
qed

definition levels_ok :: "(string \<Rightarrow> int) \<Rightarrow> L2Levels \<times> L2Levels \<Rightarrow> bool" where
  "levels_ok read b \<longleftrightarrow> best_first BUY (map fst (fst b)) \<and> best_first SELL (map fst (snd b)) \<and> numbers_read read (fst b) \<and> numbers_read read (snd b)"

lemma mirror_step_diff:
  assumes "levels_ok read (pb, pa)" and "levels_ok read (cb, ca)"
  shows "mirror_step read coin (Some (pb, pa)) (HpL2Diff coin (compute_l2_diff pb pa cb ca) t) = Some (cb, ca)"
  using assms client_levels_diff [of BUY pb cb read True] client_levels_diff [of SELL pa ca read False]
  by (simp add: levels_ok_def compute_l2_diff_def case_prod_beta)

lemma rows_levels_snapshot:
  assumes "levels_ok read (snapshot_levels snapshot)"
  shows "(rows_levels read (fst (snapshot_rows snapshot)), rows_levels read (snd (snapshot_rows snapshot))) = snapshot_levels snapshot"
proof -
  have "rows_levels read (map (\<lambda>x. fst (emit (g x))) ls) = map (\<lambda>x. snd (emit (g x))) ls"
    if "numbers_read read (map (\<lambda>x. snd (emit (g x))) ls)" for g and ls :: "nat list"
    using that by (simp add: rows_levels_def numbers_read_def emit_def)
  then show ?thesis
    using assms by (simp add: levels_ok_def snapshot_levels_def snapshot_rows_def split_book_snapshot_def Let_def comp_def)
qed

section \<open>The walks in closed form\<close>

lemma serve_each_send:
  assumes "\<forall>ws\<in>set wss. hp_sockets p ws \<noteq> None" and "distinct wss"
  shows "serve_each (hp_send_open fr) wss p = Some (p\<lparr>hp_sent := (\<lambda>ws. hp_sent p ws @ (if ws \<in> set wss then [fr] else []))\<rparr>)"
  using assms
proof (induction wss arbitrary: p)
  case (Cons w wss)
  let ?p = "hp_send w fr p"
  have "serve_each (hp_send_open fr) (w # wss) p = serve_each (hp_send_open fr) wss ?p" using Cons.prems by (auto simp: hp_send_open_def)
  also have "\<dots> = Some (?p\<lparr>hp_sent := (\<lambda>ws. hp_sent ?p ws @ (if ws \<in> set wss then [fr] else []))\<rparr>)"
    by (rule Cons.IH) (use Cons.prems in \<open>simp_all add: hp_send_def\<close>)
  also have "?p\<lparr>hp_sent := (\<lambda>ws. hp_sent ?p ws @ (if ws \<in> set wss then [fr] else []))\<rparr> =
      p\<lparr>hp_sent := (\<lambda>ws. hp_sent p ws @ (if ws \<in> set (w # wss) then [fr] else []))\<rparr>"
    using Cons.prems(2) by (auto simp: hp_send_def intro!: arg_cong [of _ _ "\<lambda>f. hp_sent_update (\<lambda>_. f) p"])
  finally show ?case .
qed simp

definition served_socket :: "HyperliquidChannel \<Rightarrow> string \<Rightarrow> HyperliquidPerSocketData \<Rightarrow> HyperliquidPerSocketData" where
  "served_socket ch coin ud = (let sub = hs_subs ud ch
     in if coin \<in> si_pending sub
        then ud\<lparr>hs_subs := (hs_subs ud)(ch := sub\<lparr>si_pending := si_pending sub - {coin}, si_received := si_received sub @ [coin]\<rparr>)\<rparr> else ud)"

definition served_frames :: "HyperliquidChannel \<Rightarrow> string \<Rightarrow> hp_frame \<Rightarrow> hp_frame option \<Rightarrow> HyperliquidPerSocketData \<Rightarrow> hp_frame list" where
  "served_frames ch coin snapshot_msg update_msg ud = (let sub = hs_subs ud ch
     in if coin \<in> si_pending sub
        then snapshot_msg # (case update_msg of None \<Rightarrow> [] | Some m \<Rightarrow> [m]) @
          (if si_pending sub - {coin} = {} then [HpSubscriptions (si_received sub @ [coin])] else [])
        else [])"

lemma serve_pending_eq:
  assumes "hp_sockets p ws = Some ud"
  shows "serve_pending ch coin sm um ws p = Some (p\<lparr>hp_sockets := (hp_sockets p)(ws \<mapsto> served_socket ch coin ud),
    hp_sent := (hp_sent p)(ws := hp_sent p ws @ served_frames ch coin sm um ud)\<rparr>)"
proof (cases "coin \<in> si_pending (hs_subs ud ch)")
  case True
  then show ?thesis using assms
    by (simp add: serve_pending_def served_socket_def served_frames_def hp_send_def hp_set_socket_def Let_def split: option.split)
next
  case False
  then have "p\<lparr>hp_sockets := (hp_sockets p)(ws \<mapsto> ud), hp_sent := (hp_sent p)(ws := hp_sent p ws)\<rparr> = p" using assms by (simp add: map_upd_triv)
  then show ?thesis using False assms by (simp add: serve_pending_def served_socket_def served_frames_def Let_def)
qed

lemma serve_each_pending:
  assumes "\<forall>ws\<in>set wss. hp_sockets p ws \<noteq> None" and "distinct wss"
  shows "serve_each (serve_pending ch coin sm um) wss p =
    Some (p\<lparr>hp_sockets := (\<lambda>ws. if ws \<in> set wss then map_option (served_socket ch coin) (hp_sockets p ws) else hp_sockets p ws),
      hp_sent := (\<lambda>ws. hp_sent p ws @ (if ws \<in> set wss then served_frames ch coin sm um (the (hp_sockets p ws)) else []))\<rparr>)"
  using assms
proof (induction wss arbitrary: p)
  case (Cons w wss)
  then obtain ud where ud: "hp_sockets p w = Some ud" by auto
  let ?p = "p\<lparr>hp_sockets := (hp_sockets p)(w \<mapsto> served_socket ch coin ud), hp_sent := (hp_sent p)(w := hp_sent p w @ served_frames ch coin sm um ud)\<rparr>"
  have "serve_each (serve_pending ch coin sm um) (w # wss) p = serve_each (serve_pending ch coin sm um) wss ?p" by (simp add: serve_pending_eq [OF ud])
  also have "\<dots> = Some (?p\<lparr>hp_sockets := (\<lambda>ws. if ws \<in> set wss then map_option (served_socket ch coin) (hp_sockets ?p ws) else hp_sockets ?p ws),
      hp_sent := (\<lambda>ws. hp_sent ?p ws @ (if ws \<in> set wss then served_frames ch coin sm um (the (hp_sockets ?p ws)) else []))\<rparr>)"
    by (rule Cons.IH) (use Cons.prems in simp_all)
  also have "(\<lambda>ws. if ws \<in> set wss then map_option (served_socket ch coin) (hp_sockets ?p ws) else hp_sockets ?p ws) =
      (\<lambda>ws. if ws \<in> set (w # wss) then map_option (served_socket ch coin) (hp_sockets p ws) else hp_sockets p ws)"
    using Cons.prems(2) ud by (intro ext) auto
  also have "(\<lambda>ws. hp_sent ?p ws @ (if ws \<in> set wss then served_frames ch coin sm um (the (hp_sockets ?p ws)) else [])) =
      (\<lambda>ws. hp_sent p ws @ (if ws \<in> set (w # wss) then served_frames ch coin sm um (the (hp_sockets p ws)) else []))"
    using Cons.prems(2) ud by (intro ext) auto
  finally show ?case by simp
qed simp

end
