(* ===== verification/Publisher_Properties.thy ===== *)
theory Publisher_Properties
  imports Publisher_Mirror
begin

text \<open>
  The Hyperliquid publisher keeps its two tables of subscriptions in step, never touches a closed
  socket, and keeps the copies of its incremental subscribers equal to its baseline.
\<close>

section \<open>The invariant\<close>

definition coin_synced :: "(string \<Rightarrow> int) \<Rightarrow> HyperliquidPublisher \<Rightarrow> nat \<Rightarrow> SubInfo \<Rightarrow> string \<Rightarrow> bool" where
  "coin_synced read p ws sub coin \<longleftrightarrow>
     (coin \<notin> set (si_active sub) \<longrightarrow> mirror read coin (hp_sent p ws) = None) \<and>
     (mirror read coin (hp_sent p ws) \<noteq> None \<longrightarrow> mirror read coin (hp_sent p ws) = hp_l2_diff_baseline p coin) \<and>
     (coin \<in> set (si_active sub) \<and> coin \<notin> si_pending sub \<longrightarrow> mirror read coin (hp_sent p ws) \<noteq> None)"

definition socket_synced :: "(string \<Rightarrow> int) \<Rightarrow> HyperliquidPublisher \<Rightarrow> nat \<Rightarrow> HyperliquidPerSocketData \<Rightarrow> bool" where
  "socket_synced read p ws d \<longleftrightarrow> (\<forall>ch. si_pending (hs_subs d ch) \<subseteq> set (si_active (hs_subs d ch))) \<and> (\<forall>coin. coin_synced read p ws (hs_subs d L2) coin)"

definition hp_tables_ok :: "HyperliquidPublisher \<Rightarrow> bool" where
  "hp_tables_ok p \<longleftrightarrow> (\<forall>ch coin ws. ws \<in> set (hp_subscription_info p ch coin) \<longleftrightarrow> (\<exists>d. hp_sockets p ws = Some d \<and> coin \<in> set (si_active (hs_subs d ch)))) \<and>
     (\<forall>ch coin. distinct (hp_subscription_info p ch coin)) \<and> distinct (hp_clients p) \<and> (\<forall>ws\<in>set (hp_clients p). hp_sockets p ws \<noteq> None)"

definition hp_inv :: "(string \<Rightarrow> int) \<Rightarrow> HyperliquidPublisher \<Rightarrow> bool" where
  "hp_inv read p \<longleftrightarrow> hp_tables_ok p \<and> (\<forall>coin b. hp_l2_diff_baseline p coin = Some b \<longrightarrow> levels_ok read b) \<and>
     (\<forall>ws d. hp_sockets p ws = Some d \<longrightarrow> socket_synced read p ws d)"

lemma hp_invD:
  assumes "hp_inv read p"
  shows "hp_tables_ok p" "hp_l2_diff_baseline p coin = Some b \<Longrightarrow> levels_ok read b" "hp_sockets p ws = Some d \<Longrightarrow> socket_synced read p ws d"
  using assms unfolding hp_inv_def by blast+

lemma hp_inv_new [simp]: "hp_inv read new_hl_publisher"
  by (simp add: hp_inv_def hp_tables_ok_def new_hl_publisher_def)

lemma tables_subscribers:
  assumes "hp_tables_ok p"
  shows "\<forall>ws\<in>set (hp_subscription_info p ch coin). hp_sockets p ws \<noteq> None" "distinct (hp_subscription_info p ch coin)"
proof -
  show "\<forall>ws\<in>set (hp_subscription_info p ch coin). hp_sockets p ws \<noteq> None"
    using assms unfolding hp_tables_ok_def by (metis option.distinct(1))
  show "distinct (hp_subscription_info p ch coin)" using assms by (simp add: hp_tables_ok_def)
qed

text \<open>Frames that carry no book of the incremental channel leave every copy alone.\<close>

definition neutral :: "hp_frame \<Rightarrow> bool" where
  "neutral f = (case f of HpL2Snapshot _ _ _ _ \<Rightarrow> False | HpL2Diff _ _ _ \<Rightarrow> False | _ \<Rightarrow> True)"

lemma mirror_step_neutral: "neutral f \<Longrightarrow> mirror_step read coin m f = m"
  by (cases f) (simp_all add: neutral_def)

lemma mirror_neutral: "\<forall>f\<in>set gs. neutral f \<Longrightarrow> mirror read coin (fs @ gs) = mirror read coin fs"
proof (induction gs rule: rev_induct)
  case (snoc g gs)
  then show ?case using mirror_simps(2) [of read coin "fs @ gs" g] by (simp add: mirror_step_neutral)
qed simp

lemma inv_frames:
  assumes inv: "hp_inv read p" and neu: "\<And>ws f. f \<in> set (fs ws) \<Longrightarrow> neutral f" and eq: "\<And>ws. hp_sent p' ws = hp_sent p ws @ fs ws"
    and same: "hp_sockets p' = hp_sockets p" "hp_subscription_info p' = hp_subscription_info p" "hp_clients p' = hp_clients p"
      "hp_l2_diff_baseline p' = hp_l2_diff_baseline p"
  shows "hp_inv read p'"
proof -
  have "mirror read coin (hp_sent p' ws) = mirror read coin (hp_sent p ws)" for coin ws
    unfolding eq using neu by (intro mirror_neutral) blast
  then show ?thesis using inv by (simp add: hp_inv_def hp_tables_ok_def socket_synced_def coin_synced_def same)
qed

lemma inv_send:
  assumes "hp_inv read p" and "neutral f"
  shows "hp_inv read (hp_send ws f p)"
  by (rule inv_frames [OF assms(1), of "\<lambda>w. if w = ws then [f] else []"]) (use assms(2) in \<open>auto simp: hp_send_def split: if_splits\<close>)

lemma inv_socket:
  assumes inv: "hp_inv read p" and d: "hp_sockets p ws = Some d" "hs_subs d' = hs_subs d"
  shows "hp_inv read (hp_set_socket ws d' p)"
proof -
  note t = hp_invD(1) [OF inv]
  have "hp_tables_ok (hp_set_socket ws d' p)" using t d by (auto simp: hp_tables_ok_def hp_set_socket_def)
  moreover have "socket_synced read (hp_set_socket ws d' p) w e" if "hp_sockets (hp_set_socket ws d' p) w = Some e" for w e
    using that hp_invD(3) [OF inv, of w] d by (cases "w = ws") (auto simp: hp_set_socket_def socket_synced_def coin_synced_def)
  ultimately show ?thesis using inv by (simp add: hp_inv_def hp_set_socket_def)
qed

section \<open>Connections\<close>

lemma inv_open:
  assumes inv: "hp_inv read p" and new: "hp_sockets p ws = None"
  shows "hp_inv read (hp_open ws now p)"
proof -
  let ?p = "hp_open ws now p"
  have sent: "hp_sent ?p w = (if w = ws then [] else hp_sent p w)" for w by (simp add: hp_open_def)
  have socks: "hp_sockets ?p w = (if w = ws then Some \<lparr>hs_last_pong = now, hs_subscribed_heartbeat = False, hs_subs = (\<lambda>_. no_subs)\<rparr> else hp_sockets p w)" for w
    by (simp add: hp_open_def hp_set_socket_def)
  have same: "hp_l2_diff_baseline ?p = hp_l2_diff_baseline p" "hp_subscription_info ?p = hp_subscription_info p" "hp_clients ?p = List.insert ws (hp_clients p)"
    by (simp_all add: hp_open_def hp_set_socket_def)
  have "hp_tables_ok ?p" using hp_invD(1) [OF inv] new by (auto simp: hp_tables_ok_def socks same no_subs_def)
  moreover have "socket_synced read ?p w e" if "hp_sockets ?p w = Some e" for w e
    using that hp_invD(3) [OF inv, of w] by (cases "w = ws") (auto simp: socks sent same socket_synced_def coin_synced_def no_subs_def)
  ultimately show ?thesis using inv by (simp add: hp_inv_def same)
qed

lemma inv_pong:
  assumes "hp_inv read p" and "hp_sockets p ws \<noteq> None"
  obtains p' where "hp_pong ws now p = Some p'" "hp_inv read p'"
  using assms inv_socket [OF assms(1)] by (auto simp: hp_pong_def)

lemma inv_subscribe:
  assumes inv: "hp_inv read p" and ws: "hp_sockets p ws \<noteq> None"
  obtains p' where "subscribe_channel ws ch coin p = Some p'" "hp_inv read p'"
proof -
  obtain ud where ud: "hp_sockets p ws = Some ud" using ws by blast
  define ud' where "ud' = ud\<lparr>hs_subs := (hs_subs ud)(ch := (hs_subs ud ch)\<lparr>si_active := List.insert coin (si_active (hs_subs ud ch)), si_pending := insert coin (si_pending (hs_subs ud ch))\<rparr>)\<rparr>"
  obtain p' where p': "subscribe_channel ws ch coin p = Some p'" by (simp add: subscribe_channel_def ud Let_def)
  have eq: "hp_sockets p' = (hp_sockets p)(ws \<mapsto> ud')" "hp_sent p' = hp_sent p" "hp_l2_diff_baseline p' = hp_l2_diff_baseline p" "hp_clients p' = hp_clients p"
    "hp_subscription_info p' = (hp_subscription_info p)(ch := (hp_subscription_info p ch)(coin := List.insert ws (hp_subscription_info p ch coin)))"
    using p' by (auto simp: subscribe_channel_def ud Let_def hp_set_socket_def ud'_def)
  have act: "c \<in> set (si_active (hs_subs ud' h)) \<longleftrightarrow> c \<in> set (si_active (hs_subs ud h)) \<or> h = ch \<and> c = coin"
    and pend: "c \<in> si_pending (hs_subs ud' h) \<longleftrightarrow> c \<in> si_pending (hs_subs ud h) \<or> h = ch \<and> c = coin" for c h
    by (auto simp: ud'_def)
  have "hp_tables_ok p'" using hp_invD(1) [OF inv] ud unfolding hp_tables_ok_def eq by (auto simp: act)
  moreover have "socket_synced read p' w e" if e: "hp_sockets p' w = Some e" for w e
  proof (cases "w = ws")
    case True
    then have "e = ud'" using e eq(1) by simp
    have old: "si_pending (hs_subs ud h) \<subseteq> set (si_active (hs_subs ud h))" "coin_synced read p ws (hs_subs ud L2) c" for h c
      using hp_invD(3) [OF inv ud] by (simp_all add: socket_synced_def)
    have "coin_synced read p' ws (hs_subs ud' L2) c" for c using old(2) [of c] unfolding coin_synced_def act pend eq by blast
    moreover have "si_pending (hs_subs ud' h) \<subseteq> set (si_active (hs_subs ud' h))" for h using old(1) [of h] act pend by blast
    ultimately show ?thesis using True \<open>e = ud'\<close> by (simp add: socket_synced_def)
  next
    case False
    then show ?thesis using e hp_invD(3) [OF inv, of w e] by (simp add: socket_synced_def coin_synced_def eq)
  qed
  ultimately have "hp_inv read p'" using inv by (simp add: hp_inv_def eq)
  then show thesis using that p' by blast
qed

text \<open>A message that can be read: every member the handler reaches is text.\<close>

definition hp_readable :: "hp_message \<Rightarrow> bool" where
  "hp_readable m = (case m of BadJson _ \<Rightarrow> True | NotObject \<Rightarrow> False
     | HpMessage member sub \<Rightarrow> text_value member \<noteq> None \<and>
         (case sub of None \<Rightarrow> True | Some None \<Rightarrow> False
          | Some (Some s) \<Rightarrow> text_value (hsub_type s) \<noteq> None \<and> text_value (hsub_coin s) \<noteq> None \<and> text_value (hsub_c s) \<noteq> None))"

lemma inv_error: "hp_inv read p \<Longrightarrow> hp_inv read (hp_send_error ws e p)"
  by (simp add: hp_send_error_def inv_send neutral_def)

lemma inv_subscribe_coin:
  assumes inv: "hp_inv read p" and v: "text_value member \<noteq> None" and sub: "\<And>coin. \<exists>p'. f coin p = Some p' \<and> hp_inv read p'"
  shows "\<exists>p'. subscribe_coin ws meth member e f p = Some p' \<and> hp_inv read p'"
  using v inv inv_error [OF inv] sub by (auto simp: subscribe_coin_def)

lemma inv_message:
  assumes inv: "hp_inv read p" and ws: "hp_sockets p ws \<noteq> None" and m: "hp_readable m"
  shows "\<exists>p'. hp_handle_message ws m p = Some p' \<and> hp_inv read p'"
proof (cases m)
  case (HpMessage member sub)
  obtain meth where meth: "text_value member = Some meth" using m by (auto simp: hp_readable_def HpMessage)
  have send: "hp_inv read (hp_send ws f p)" if "neutral f" for f using inv_send [OF inv that] .
  have one: "\<exists>p'. subscribe_channel ws ch coin p = Some p' \<and> hp_inv read p'" for ch coin using inv_subscribe [OF inv ws] by metis
  have ack: "\<exists>p'. subscribe_channel ws L2 coin (hp_send ws (HpL2Ack s) p) = Some p' \<and> hp_inv read p'" for coin s
    using inv_subscribe [OF send, of "HpL2Ack s" ws L2 coin] ws by (auto simp: neutral_def hp_send_def)
  show ?thesis
  proof (cases "meth = ''subscribe'' \<or> meth = ''unsubscribe''")
    case False
    then show ?thesis using send inv_error [OF inv] by (auto simp: hp_handle_message_def HpMessage meth neutral_def)
  next
    case True
    then have np: "meth \<noteq> ''ping''" "\<not> (meth \<noteq> ''subscribe'' \<and> meth \<noteq> ''unsubscribe'')" by auto
    show ?thesis
    proof (cases sub)
      case None
      then show ?thesis using np inv_error [OF inv] by (simp add: hp_handle_message_def HpMessage meth)
    next
      case (Some so)
      then obtain s type where s: "so = Some s" "text_value (hsub_type s) = Some type" "text_value (hsub_coin s) \<noteq> None" "text_value (hsub_c s) \<noteq> None"
        using m by (auto simp: hp_readable_def HpMessage split: option.splits)
      note c = inv_subscribe_coin [where f = "subscribe_channel ws L2_BOOK", OF inv s(3) one]
        inv_subscribe_coin [where f = "subscribe_channel ws TRADES", OF inv s(3) one]
        inv_subscribe_coin [where f = "\<lambda>coin p. subscribe_channel ws L2 coin (hp_send ws (HpL2Ack s) p)", OF inv s(4) ack]
      obtain ud where ud: "hp_sockets p ws = Some ud" using ws by blast
      have hb: "hp_inv read (hp_send ws HpHeartbeatSubscribed (hp_set_socket ws (ud\<lparr>hs_subscribed_heartbeat := True\<rparr>) p))"
        by (intro inv_send inv_socket [OF inv ud]) (simp_all add: neutral_def)
      have run: "hp_handle_message ws m p =
          (if type = ''l2Book'' then subscribe_coin ws meth (hsub_coin s) ''missing `coin` in subscription'' (subscribe_channel ws L2_BOOK) p
           else if type = ''trades'' then subscribe_coin ws meth (hsub_coin s) ''missing `coin` in subscription'' (subscribe_channel ws TRADES) p
           else if type = ''l2'' then subscribe_coin ws meth (hsub_c s) ''missing `c` in subscription'' (\<lambda>coin p. subscribe_channel ws L2 coin (hp_send ws (HpL2Ack s) p)) p
           else if type = ''heartbeat'' then Some (hp_send ws HpHeartbeatSubscribed (hp_set_socket ws (ud\<lparr>hs_subscribed_heartbeat := True\<rparr>) p))
           else Some (hp_send_error ws (''subscription type `'' @ type @ ''` is not supported'') p))"
        unfolding hp_handle_message_def HpMessage Some s(1) hp_message.case option.case meth s(2) ud option.map using np by (simp only: if_False)
      have some: "\<exists>p'. Some q = Some p' \<and> hp_inv read p'" if "hp_inv read q" for q using that by blast
      show ?thesis unfolding run if_split [of "\<lambda>v. \<exists>p'. v = Some p' \<and> hp_inv read p'"] by (intro conjI impI c some hb inv_error inv)
    qed
  qed
qed (use m inv_error [OF inv] in \<open>simp_all add: hp_handle_message_def hp_readable_def\<close>)

section \<open>Publishing\<close>

lemma served_socket_subs [simp]:
  "si_active (hs_subs (served_socket ch coin d) h) = si_active (hs_subs d h)"
  "si_pending (hs_subs (served_socket ch coin d) h) = si_pending (hs_subs d h) - (if h = ch then {coin} else {})"
  by (auto simp: served_socket_def Let_def)

text \<open>Serving the waiting subscribers of a channel, with what follows from the frames for the copies left open.\<close>

lemma inv_served:
  assumes inv: "hp_inv read p" and base: "\<And>c b. base c = Some b \<Longrightarrow> levels_ok read b"
    and sync: "\<And>ws d c. hp_sockets p ws = Some d \<Longrightarrow> coin_synced read (p\<lparr>hp_l2_diff_baseline := base, hp_sent := (\<lambda>w. hp_sent p w @
        (if w \<in> set (hp_subscription_info p ch coin) then served_frames ch coin sm um (the (hp_sockets p w)) else []))\<rparr>) ws
        (if ws \<in> set (hp_subscription_info p ch coin) then hs_subs (served_socket ch coin d) L2 else hs_subs d L2) c"
  shows "\<exists>p'. serve_each (serve_pending ch coin sm um) (hp_subscription_info p ch coin) (p\<lparr>hp_l2_diff_baseline := base\<rparr>) = Some p' \<and> hp_inv read p'"
proof -
  let ?wss = "hp_subscription_info p ch coin" and ?p0 = "p\<lparr>hp_l2_diff_baseline := base\<rparr>"
  note t = hp_invD(1) [OF inv] and s = tables_subscribers [OF hp_invD(1) [OF inv], of ch coin]
  define p' where "p' = ?p0\<lparr>hp_sockets := (\<lambda>ws. if ws \<in> set ?wss then map_option (served_socket ch coin) (hp_sockets p ws) else hp_sockets p ws),
      hp_sent := (\<lambda>ws. hp_sent p ws @ (if ws \<in> set ?wss then served_frames ch coin sm um (the (hp_sockets p ws)) else []))\<rparr>"
  have same: "hp_sockets ?p0 = hp_sockets p" "hp_sent ?p0 = hp_sent p" by simp_all
  have "serve_each (serve_pending ch coin sm um) ?wss ?p0 = Some p'"
    unfolding p'_def by (rule serve_each_pending [of ?wss ?p0 ch coin sm um, unfolded same, OF s])
  moreover have "hp_tables_ok p'" using t by (auto simp: hp_tables_ok_def p'_def)
  moreover have "socket_synced read p' ws e" if "hp_sockets p' ws = Some e" for ws e
  proof -
    obtain d where d: "hp_sockets p ws = Some d" "e = (if ws \<in> set ?wss then served_socket ch coin d else d)"
      using \<open>hp_sockets p' ws = Some e\<close> by (auto simp: p'_def split: if_splits)
    have "coin_synced read p' ws (hs_subs e L2) c" for c
      using sync [OF d(1), of c] by (cases "ws \<in> set ?wss") (simp_all add: d(2) coin_synced_def p'_def)
    moreover have "si_pending (hs_subs d h) \<subseteq> set (si_active (hs_subs d h))" for h using hp_invD(3) [OF inv d(1)] by (simp add: socket_synced_def)
    ultimately show ?thesis by (auto simp: socket_synced_def d(2))
  qed
  ultimately show ?thesis using base by (auto simp: hp_inv_def p'_def)
qed

lemma served_frames_neutral:
  "neutral sm \<Longrightarrow> (\<forall>m. um = Some m \<longrightarrow> neutral m) \<Longrightarrow> f \<in> set (served_frames ch coin sm um d) \<Longrightarrow> neutral f"
  by (auto simp: served_frames_def Let_def neutral_def split: if_splits option.splits)

lemma inv_serve_other:
  assumes inv: "hp_inv read p" and ch: "ch \<noteq> L2" and n: "neutral sm" "\<forall>m. um = Some m \<longrightarrow> neutral m"
  shows "\<exists>p'. serve_each (serve_pending ch coin sm um) (hp_subscription_info p ch coin) p = Some p' \<and> hp_inv read p'"
proof -
  let ?fs = "\<lambda>w. if w \<in> set (hp_subscription_info p ch coin) then served_frames ch coin sm um (the (hp_sockets p w)) else []"
  have m: "mirror read c (hp_sent p w @ ?fs w) = mirror read c (hp_sent p w)" for c w
    using served_frames_neutral [OF n] by (intro mirror_neutral) auto
  have "\<exists>p'. serve_each (serve_pending ch coin sm um) (hp_subscription_info p ch coin) (p\<lparr>hp_l2_diff_baseline := hp_l2_diff_baseline p\<rparr>) = Some p' \<and> hp_inv read p'"
  proof (rule inv_served [OF inv])
    show "levels_ok read b" if "hp_l2_diff_baseline p c = Some b" for c b by (rule hp_invD(2) [OF inv that])
    fix ws d c assume "hp_sockets p ws = Some d"
    from hp_invD(3) [OF inv this] have "coin_synced read p ws (hs_subs d L2) c" by (simp add: socket_synced_def)
    then show "coin_synced read (p\<lparr>hp_l2_diff_baseline := hp_l2_diff_baseline p, hp_sent := (\<lambda>w. hp_sent p w @ ?fs w)\<rparr>) ws
        (if ws \<in> set (hp_subscription_info p ch coin) then hs_subs (served_socket ch coin d) L2 else hs_subs d L2) c"
      using ch by (simp add: coin_synced_def m)
  qed
  then show ?thesis by simp
qed

lemma inv_serve_l2:
  assumes inv: "hp_inv read p" and lv: "levels_ok read (snapshot_levels snapshot)"
    and agree: "\<And>ws d. ws \<in> set (hp_subscription_info p L2 coin) \<Longrightarrow> hp_sockets p ws = Some d \<Longrightarrow> coin \<notin> si_pending (hs_subs d L2) \<Longrightarrow>
      hp_l2_diff_baseline p coin = Some (snapshot_levels snapshot)"
  shows "\<exists>p'. serve_each (serve_pending L2 coin (HpL2Snapshot coin t (fst (snapshot_rows snapshot)) (snd (snapshot_rows snapshot))) None)
    (hp_subscription_info p L2 coin) (p\<lparr>hp_l2_diff_baseline := (hp_l2_diff_baseline p)(coin \<mapsto> snapshot_levels snapshot)\<rparr>) = Some p' \<and> hp_inv read p'"
proof (rule inv_served [OF inv])
  let ?sm = "HpL2Snapshot coin t (fst (snapshot_rows snapshot)) (snd (snapshot_rows snapshot))"
  show "levels_ok read b" if "((hp_l2_diff_baseline p)(coin \<mapsto> snapshot_levels snapshot)) c = Some b" for c b
    using that lv hp_invD(2) [OF inv, of c b] by (simp split: if_splits)
  fix ws d c assume d: "hp_sockets p ws = Some d"
  have old: "coin_synced read p ws (hs_subs d L2) c" using hp_invD(3) [OF inv d] by (simp add: socket_synced_def)
  have sub: "ws \<in> set (hp_subscription_info p L2 coin) \<longleftrightarrow> coin \<in> set (si_active (hs_subs d L2))"
    using hp_invD(1) [OF inv] d by (auto simp: hp_tables_ok_def)
  have pend: "si_pending (hs_subs d L2) \<subseteq> set (si_active (hs_subs d L2))" using hp_invD(3) [OF inv d] by (simp add: socket_synced_def)
  have m: "mirror read c (hp_sent p ws @ served_frames L2 coin ?sm None d) =
      (if c = coin \<and> coin \<in> si_pending (hs_subs d L2) then Some (snapshot_levels snapshot) else mirror read c (hp_sent p ws))"
    using rows_levels_snapshot [OF lv]
    by (simp add: served_frames_def Let_def mirror_def)
  show "coin_synced read (p\<lparr>hp_l2_diff_baseline := (hp_l2_diff_baseline p)(coin \<mapsto> snapshot_levels snapshot), hp_sent := (\<lambda>w. hp_sent p w @
      (if w \<in> set (hp_subscription_info p L2 coin) then served_frames L2 coin ?sm None (the (hp_sockets p w)) else []))\<rparr>) ws
      (if ws \<in> set (hp_subscription_info p L2 coin) then hs_subs (served_socket L2 coin d) L2 else hs_subs d L2) c"
  proof (cases "coin \<in> set (si_active (hs_subs d L2))")
    case True
    then show ?thesis using old agree [OF _ d] sub by (auto simp: coin_synced_def d m)
  next
    case False
    then show ?thesis using old sub by (auto simp: coin_synced_def)
  qed
qed

lemma inv_broadcast:
  assumes inv: "hp_inv read p" and n: "neutral fr"
  shows "\<exists>p'. serve_each (hp_send_open fr) (hp_subscription_info p ch coin) p = Some p' \<and> hp_inv read p' \<and>
    hp_subscription_info p' = hp_subscription_info p \<and> hp_sockets p' = hp_sockets p \<and> hp_l2_diff_baseline p' = hp_l2_diff_baseline p"
proof -
  let ?fs = "\<lambda>ws. if ws \<in> set (hp_subscription_info p ch coin) then [fr] else []"
  have "hp_inv read (p\<lparr>hp_sent := (\<lambda>ws. hp_sent p ws @ ?fs ws)\<rparr>)"
    by (rule inv_frames [OF inv, of ?fs]) (use n in \<open>auto split: if_splits\<close>)
  then show ?thesis using serve_each_send [OF tables_subscribers [OF hp_invD(1) [OF inv], of ch coin], of fr] by simp
qed

lemma inv_diff:
  assumes inv: "hp_inv read p" and lv: "levels_ok read (cb, ca)" and prev: "(case hp_l2_diff_baseline p coin of None \<Rightarrow> ([], []) | Some b \<Rightarrow> b) = (pb, pa)"
  shows "\<exists>p'. serve_each (hp_send_open (HpL2Diff coin (compute_l2_diff pb pa cb ca) t)) (hp_subscription_info p L2 coin)
      (p\<lparr>hp_l2_diff_baseline := (hp_l2_diff_baseline p)(coin \<mapsto> (cb, ca))\<rparr>) = Some p' \<and> hp_inv read p' \<and>
    hp_sockets p' = hp_sockets p \<and> hp_l2_diff_baseline p' coin = Some (cb, ca)"
proof -
  let ?fr = "HpL2Diff coin (compute_l2_diff pb pa cb ca) t" and ?wss = "hp_subscription_info p L2 coin"
  let ?p0 = "p\<lparr>hp_l2_diff_baseline := (hp_l2_diff_baseline p)(coin \<mapsto> (cb, ca))\<rparr>"
  note t = hp_invD(1) [OF inv]
  define p' where "p' = ?p0\<lparr>hp_sent := (\<lambda>ws. hp_sent p ws @ (if ws \<in> set ?wss then [?fr] else []))\<rparr>"
  have same: "hp_sockets ?p0 = hp_sockets p" "hp_sent ?p0 = hp_sent p" by simp_all
  have run: "serve_each (hp_send_open ?fr) ?wss ?p0 = Some p'"
    unfolding p'_def by (rule serve_each_send [of ?wss ?p0, unfolded same, OF tables_subscribers [OF t]])
  have "coin_synced read p' ws (hs_subs d L2) c" if d: "hp_sockets p ws = Some d" for ws d c
  proof -
    have old: "coin_synced read p ws (hs_subs d L2) c" using hp_invD(3) [OF inv d] by (simp add: socket_synced_def)
    have sub: "ws \<in> set ?wss \<longleftrightarrow> coin \<in> set (si_active (hs_subs d L2))" using t d by (auto simp: hp_tables_ok_def)
    have "mirror_step read coin m ?fr = map_option (\<lambda>_. (cb, ca)) m" if "m \<noteq> None \<longrightarrow> m = hp_l2_diff_baseline p coin" for m
    proof (cases m)
      case (Some b)
      then have b: "hp_l2_diff_baseline p coin = Some b" "b = (pb, pa)" using that prev by (simp, simp split: option.splits)
      then show ?thesis using mirror_step_diff [OF _ lv, of pb pa coin t] hp_invD(2) [OF inv, of coin] Some by (simp del: mirror_step.simps(2))
    qed simp
    then show ?thesis using old sub by (cases "c = coin") (auto simp: coin_synced_def p'_def)
  qed
  then have "socket_synced read p' ws d" if "hp_sockets p ws = Some d" for ws d
    using hp_invD(3) [OF inv that] that by (simp add: socket_synced_def)
  moreover have "levels_ok read b" if "hp_l2_diff_baseline p' c = Some b" for c b
    using that lv hp_invD(2) [OF inv, of c b] by (auto simp: p'_def split: if_splits)
  moreover have "hp_tables_ok p'" using t by (simp add: hp_tables_ok_def p'_def)
  ultimately have "hp_inv read p'" by (auto simp: hp_inv_def p'_def)
  then show ?thesis using run by (auto simp: p'_def)
qed

lemma inv_book_snapshot:
  assumes inv: "hp_inv read p" and lv: "levels_ok read (snapshot_levels snapshot)"
  shows "\<exists>p'. publish_book_snapshot t coin snapshot p = Some p' \<and> hp_inv read p' \<and> hp_sockets p' = hp_sockets p \<and>
    (hp_subscription_info p L2 coin \<noteq> [] \<longrightarrow> hp_l2_diff_baseline p' coin = Some (snapshot_levels snapshot))"
proof -
  obtain bids asks where rows: "snapshot_rows snapshot = (bids, asks)" by fastforce
  obtain cb ca where lev: "snapshot_levels snapshot = (cb, ca)" by fastforce
  let ?fr = "HpL2Book coin t bids asks"
  obtain p1 where p1: "(if hp_subscription_info p L2_BOOK coin \<noteq> [] then serve_each (hp_send_open ?fr) (hp_subscription_info p L2_BOOK coin) p else Some p) = Some p1"
    "hp_inv read p1" "hp_subscription_info p1 = hp_subscription_info p" "hp_sockets p1 = hp_sockets p"
  proof -
    have "(if hp_subscription_info p L2_BOOK coin \<noteq> [] then serve_each (hp_send_open ?fr) (hp_subscription_info p L2_BOOK coin) p else Some p) =
        serve_each (hp_send_open ?fr) (hp_subscription_info p L2_BOOK coin) p" by (cases "hp_subscription_info p L2_BOOK coin") simp_all
    then show thesis using inv_broadcast [OF inv, of ?fr L2_BOOK coin] that by (fastforce simp: neutral_def)
  qed
  obtain pb pa where prev: "(case hp_l2_diff_baseline p1 coin of None \<Rightarrow> ([], []) | Some b \<Rightarrow> b) = (pb, pa)" by fastforce
  have run: "publish_book_snapshot t coin snapshot p = (if hp_subscription_info p1 L2 coin \<noteq> []
      then serve_each (hp_send_open (HpL2Diff coin (compute_l2_diff pb pa cb ca) t)) (hp_subscription_info p1 L2 coin)
        (p1\<lparr>hp_l2_diff_baseline := (hp_l2_diff_baseline p1)(coin \<mapsto> (cb, ca))\<rparr>) else Some p1)"
    unfolding publish_book_snapshot_def rows lev Let_def prod.case unfolding p1(1) option.case unfolding p1(3) prev prod.case ..
  show ?thesis
  proof (cases "hp_subscription_info p1 L2 coin = []")
    case True
    then show ?thesis using run p1 by simp
  next
    case False
    then have "publish_book_snapshot t coin snapshot p = serve_each (hp_send_open (HpL2Diff coin (compute_l2_diff pb pa cb ca) t)) (hp_subscription_info p1 L2 coin)
        (p1\<lparr>hp_l2_diff_baseline := (hp_l2_diff_baseline p1)(coin \<mapsto> (cb, ca))\<rparr>)" using run by simp
    then show ?thesis using inv_diff [OF p1(2) lv [unfolded lev] prev, of t] unfolding p1(4) lev by metis
  qed
qed

text \<open>What the exchange puts on the queue: a body its type announces, a known channel, a readable book.\<close>

definition frame_ok :: "(string \<Rightarrow> int) \<Rightarrow> MarketDataUpdate \<Rightarrow> bool" where
  "frame_ok read u = (case md_type u of
      MD_SUB_RESPONSE \<Rightarrow> (case md_body u of
          RejectBody n reason \<Rightarrow> n < 3 \<and> reason \<noteq> SR_NONE
        | SubSnapshotBody n snapshot \<Rightarrow> (n = channel_number L2_BOOK \<or> n = channel_number L2) \<and> levels_ok read (snapshot_levels snapshot)
        | TradeSnapshotBody n _ _ _ \<Rightarrow> n = channel_number TRADES
        | _ \<Rightarrow> False)
    | MD_BOOK_SNAPSHOT \<Rightarrow> (case md_body u of SnapshotBody snapshot \<Rightarrow> levels_ok read (snapshot_levels snapshot) | _ \<Rightarrow> False)
    | MD_TRADE_SUMMARY \<Rightarrow> (case md_body u of TradeSummaryBody _ \<Rightarrow> True | _ \<Rightarrow> False)
    | _ \<Rightarrow> True)"

text \<open>A new incremental subscriber's snapshot is the book the served subscribers already have.\<close>

definition baseline_kept :: "MarketDataUpdate \<Rightarrow> HyperliquidPublisher \<Rightarrow> bool" where
  "baseline_kept u p = (case md_body u of
      SubSnapshotBody n snapshot \<Rightarrow> n = channel_number L2 \<longrightarrow> (\<forall>ws\<in>set (hp_subscription_info p L2 (md_symbol u)). \<forall>d.
        hp_sockets p ws = Some d \<and> md_symbol u \<notin> si_pending (hs_subs d L2) \<longrightarrow> hp_l2_diff_baseline p (md_symbol u) = Some (snapshot_levels snapshot))
    | _ \<Rightarrow> True)"

lemma channel_inverse [simp]: "channel_of_number (channel_number ch) = Some ch"
  by (cases ch) simp_all

lemma inv_response:
  assumes inv: "hp_inv read p" and ok: "frame_ok read u" "md_type u = MD_SUB_RESPONSE" and keep: "baseline_kept u p"
  shows "\<exists>p'. publish_subscription_response t (md_symbol u) (md_body u) p = Some p' \<and> hp_inv read p'"
proof (cases "md_body u")
  case (RejectBody n reason)
  then have n: "n = 0 \<or> n = 1 \<or> n = 2" "reason \<noteq> SR_NONE" using ok by (auto simp: frame_ok_def)
  then obtain ch where ch: "channel_of_number n = Some ch" "reason \<noteq> SR_NONE" by (cases "n = 0"; cases "n = 1") auto
  have err: "\<exists>p'. serve_each (hp_send_open (HpError e)) (hp_subscription_info p ch (md_symbol u)) p = Some p' \<and> hp_inv read p'" for e
    using inv_broadcast [OF inv, of "HpError e" ch "md_symbol u"] by (auto simp: neutral_def)
  show ?thesis
    unfolding publish_subscription_response_def RejectBody md_body.case ch(1) Option.bind.simps
    using inv err ch(2) by (cases "hp_subscription_info p ch (md_symbol u) = []") (simp_all only: if_True if_False simp_thms option.inject)
next
  case (SubSnapshotBody n snapshot)
  then have lv: "levels_ok read (snapshot_levels snapshot)" using ok by (simp add: frame_ok_def)
  obtain bids asks where rows: "snapshot_rows snapshot = (bids, asks)" by fastforce
  consider (book) "n = channel_number L2_BOOK" | (l2) "n = channel_number L2" using ok by (auto simp: frame_ok_def SubSnapshotBody)
  then show ?thesis
  proof cases
    case book
    have "neutral (HpL2Book (md_symbol u) t bids asks)" by (simp add: neutral_def)
    from inv_serve_other [OF inv _ this, of L2_BOOK None "md_symbol u"] show ?thesis using inv
      unfolding publish_subscription_response_def SubSnapshotBody md_body.case book channel_inverse Option.bind.simps Let_def rows prod.case
      by (cases "hp_subscription_info p L2_BOOK (md_symbol u) = []") simp_all
  next
    case l2
    have "hp_l2_diff_baseline p (md_symbol u) = Some (snapshot_levels snapshot)"
      if "ws \<in> set (hp_subscription_info p L2 (md_symbol u))" "hp_sockets p ws = Some d" "md_symbol u \<notin> si_pending (hs_subs d L2)" for ws d
      using keep that unfolding baseline_kept_def SubSnapshotBody md_body.case l2 by blast
    from inv_serve_l2 [where t = t, OF inv lv this] show ?thesis using inv
      unfolding publish_subscription_response_def SubSnapshotBody md_body.case l2 channel_inverse Option.bind.simps Let_def rows prod.case fst_conv snd_conv
      by (cases "hp_subscription_info p L2 (md_symbol u) = []") simp_all
  qed
next
  case (TradeSnapshotBody n ns nu trades)
  then have n: "n = channel_number TRADES" using ok by (simp add: frame_ok_def)
  let ?um = "if nu = 0 then None else Some (encode_trades (md_symbol u) (take nu (drop ns trades)))"
  have "neutral (encode_trades (md_symbol u) trs)" for trs by (simp add: neutral_def encode_trades_def)
  from inv_serve_other [OF inv _ this, of TRADES ?um "md_symbol u"] this show ?thesis using inv
    unfolding publish_subscription_response_def TradeSnapshotBody md_body.case n channel_inverse Option.bind.simps
    by (cases "hp_subscription_info p TRADES (md_symbol u) = []") (simp_all split: if_splits)
qed (use ok in \<open>simp_all add: frame_ok_def\<close>)

lemma inv_update:
  assumes inv: "hp_inv read p" and ok: "frame_ok read u" and keep: "baseline_kept u p"
  shows "\<exists>p'. publish_market_data_update t u p = Some p' \<and> hp_inv read p'"
proof (cases "md_type u")
  case MD_SUB_RESPONSE
  then show ?thesis using inv_response [OF inv ok MD_SUB_RESPONSE keep, of t] by (simp add: publish_market_data_update_def)
next
  case MD_BOOK_SNAPSHOT
  then obtain snapshot where s: "md_body u = SnapshotBody snapshot" "levels_ok read (snapshot_levels snapshot)"
    using ok by (auto simp: frame_ok_def split: md_body.splits)
  then show ?thesis using inv_book_snapshot [OF inv s(2), of t "md_symbol u"] MD_BOOK_SNAPSHOT by (auto simp: publish_market_data_update_def)
next
  case MD_TRADE_SUMMARY
  then obtain summary where s: "md_body u = TradeSummaryBody summary" using ok by (auto simp: frame_ok_def split: md_body.splits)
  have "neutral (encode_trade_summary (md_symbol u) summary)" by (simp add: neutral_def encode_trade_summary_def)
  from inv_broadcast [OF inv this, of TRADES "md_symbol u"] show ?thesis using MD_TRADE_SUMMARY s
    by (auto simp: publish_market_data_update_def publish_trade_summary_def)
qed (use inv in \<open>simp_all add: publish_market_data_update_def\<close>)

section \<open>Leaving\<close>

lemma drop_coins:
  "let p' = foldl (\<lambda>p coin. drop_subscription ws ch coin p) p coins in
   hp_sockets p' = hp_sockets p \<and> hp_sent p' = hp_sent p \<and> hp_clients p' = hp_clients p \<and>
   (\<forall>h c. hp_subscription_info p' h c = (if h = ch \<and> c \<in> set coins then removeAll ws (hp_subscription_info p h c) else hp_subscription_info p h c)) \<and>
   (\<forall>c. hp_l2_diff_baseline p' c = hp_l2_diff_baseline p c \<or> hp_l2_diff_baseline p' c = None \<and> removeAll ws (hp_subscription_info p L2 c) = [])"
proof (induction coins arbitrary: p)
  case (Cons coin coins)
  let ?p = "drop_subscription ws ch coin p"
  have "hp_sockets ?p = hp_sockets p" "hp_sent ?p = hp_sent p" "hp_clients ?p = hp_clients p"
    "hp_subscription_info ?p h c = (if h = ch \<and> c = coin then removeAll ws (hp_subscription_info p h c) else hp_subscription_info p h c)"
    "hp_l2_diff_baseline ?p c = hp_l2_diff_baseline p c \<or> hp_l2_diff_baseline ?p c = None \<and> removeAll ws (hp_subscription_info p L2 c) = []" for h c
    by (auto simp: drop_subscription_def Let_def)
  note one = this
  have rem: "removeAll ws (hp_subscription_info ?p h c) = removeAll ws (hp_subscription_info p h c)" for h c by (simp add: one(4) removeAll_filter_not_eq)
  from Cons.IH [of ?p] one rem show ?case by (auto simp: Let_def) metis+
qed (simp add: Let_def)

lemma unsubscribe_effect:
  fixes ud and ws and p :: HyperliquidPublisher
  defines "p' \<equiv> unsubscribe_md ws ud p"
  shows "hp_sockets p' = hp_sockets p" "hp_sent p' = hp_sent p" "hp_clients p' = hp_clients p"
    "hp_subscription_info p' h c = (if c \<in> set (si_active (hs_subs ud h)) then removeAll ws (hp_subscription_info p h c) else hp_subscription_info p h c)"
    "hp_l2_diff_baseline p' c = hp_l2_diff_baseline p c \<or> hp_l2_diff_baseline p' c = None \<and> removeAll ws (hp_subscription_info p L2 c) = []"
proof -
  let ?d = "\<lambda>ch p. foldl (\<lambda>p coin. drop_subscription ws ch coin p) p (si_active (hs_subs ud ch))"
  have p': "p' = ?d L2 (?d TRADES (?d L2_BOOK p))" by (simp add: p'_def unsubscribe_md_def)
  note a = drop_coins [of ws L2_BOOK p "si_active (hs_subs ud L2_BOOK)", unfolded Let_def]
    and b = drop_coins [of ws TRADES "?d L2_BOOK p" "si_active (hs_subs ud TRADES)", unfolded Let_def]
    and c = drop_coins [of ws L2 "?d TRADES (?d L2_BOOK p)" "si_active (hs_subs ud L2)", unfolded Let_def]
  show "hp_sockets p' = hp_sockets p" "hp_sent p' = hp_sent p" "hp_clients p' = hp_clients p" unfolding p' using a b c by simp_all
  have subs: "hp_subscription_info (?d ch q) h c = (if h = ch \<and> c \<in> set (si_active (hs_subs ud ch)) then removeAll ws (hp_subscription_info q h c) else hp_subscription_info q h c)"
    for ch q h c using drop_coins [of ws ch q "si_active (hs_subs ud ch)", unfolded Let_def] by blast
  show "hp_subscription_info p' h c = (if c \<in> set (si_active (hs_subs ud h)) then removeAll ws (hp_subscription_info p h c) else hp_subscription_info p h c)"
    unfolding p' subs by (cases h) simp_all
  show "hp_l2_diff_baseline p' c = hp_l2_diff_baseline p c \<or> hp_l2_diff_baseline p' c = None \<and> removeAll ws (hp_subscription_info p L2 c) = []"
    using a b c subs [of TRADES "?d L2_BOOK p" L2 c] subs [of L2_BOOK p L2 c] unfolding p' by (metis HyperliquidChannel.distinct(3,5))
qed

lemma inv_close:
  assumes inv: "hp_inv read p" and ud: "hp_sockets p ws = Some ud"
  shows "\<exists>p'. hp_handle_close ws p = Some p' \<and> hp_inv read p' \<and> hp_sockets p' = (hp_sockets p)(ws := None)"
proof -
  let ?u = "unsubscribe_md ws ud p"
  define p' where "p' = ?u\<lparr>hp_clients := removeAll ws (hp_clients p), hp_sockets := (hp_sockets p)(ws := None)\<rparr>"
  note u = unsubscribe_effect [where ws = ws and ud = ud and p = p] and t = hp_invD(1) [OF inv]
  have mem: "w \<in> set (hp_subscription_info p' h c) \<longleftrightarrow> w \<noteq> ws \<and> w \<in> set (hp_subscription_info p h c)" for w h c
    using t ud by (auto simp: p'_def u(4) hp_tables_ok_def)
  have "distinct (hp_subscription_info p' h c)" for h c using t by (simp add: p'_def u(4) hp_tables_ok_def distinct_removeAll)
  then have "hp_tables_ok p'" using t unfolding hp_tables_ok_def mem by (auto simp: p'_def distinct_removeAll)
  moreover have "socket_synced read p' w d" if d: "hp_sockets p' w = Some d" for w d
  proof -
    have w: "hp_sockets p w = Some d" "w \<noteq> ws" using d by (auto simp: p'_def split: if_splits)
    have old: "si_pending (hs_subs d h) \<subseteq> set (si_active (hs_subs d h))" "coin_synced read p w (hs_subs d L2) c" for h c
      using hp_invD(3) [OF inv w(1)] by (simp_all add: socket_synced_def)
    have "hp_l2_diff_baseline p' c = hp_l2_diff_baseline p c" if "c \<in> set (si_active (hs_subs d L2))" for c
    proof -
      have "w \<in> set (removeAll ws (hp_subscription_info p L2 c))" using t w that by (auto simp: hp_tables_ok_def)
      then have "removeAll ws (hp_subscription_info p L2 c) \<noteq> []" by (metis empty_iff empty_set)
      then show ?thesis using u(5) [of c] by (simp add: p'_def)
    qed
    then have "coin_synced read p' w (hs_subs d L2) c" for c using old(2) [of c] by (auto simp: coin_synced_def p'_def u(2))
    then show ?thesis using old(1) by (simp add: socket_synced_def)
  qed
  moreover have "levels_ok read b" if "hp_l2_diff_baseline p' c = Some b" for c b
    using that u(5) [of c] hp_invD(2) [OF inv, of c b] by (auto simp: p'_def)
  ultimately have "hp_inv read p'" by (auto simp: hp_inv_def)
  then show ?thesis by (simp add: hp_handle_close_def ud p'_def)
qed

lemma inv_heartbeats:
  assumes "hp_inv read p" and "\<forall>ws\<in>set wss. hp_sockets p ws \<noteq> None" and "distinct wss"
  shows "\<exists>p'. serve_each (hp_check_client now) wss p = Some p' \<and> hp_inv read p'"
  using assms
proof (induction wss arbitrary: p)
  case (Cons w wss)
  then obtain ud where ud: "hp_sockets p w = Some ud" by auto
  have "\<exists>p1. hp_check_client now w p = Some p1 \<and> hp_inv read p1 \<and> (\<forall>v. v \<noteq> w \<longrightarrow> hp_sockets p1 v = hp_sockets p v)"
  proof (cases "(now - hs_last_pong ud) div 1000000000 > 60")
    case True
    let ?p = "p\<lparr>hp_clients := removeAll w (hp_clients p)\<rparr>"
    have "hp_inv read ?p" using Cons.prems(1) by (simp add: hp_inv_def hp_tables_ok_def socket_synced_def coin_synced_def distinct_removeAll)
    then show ?thesis using inv_close [of read ?p w ud] ud True by (auto simp: hp_check_client_def)
  next
    case False
    let ?p = "if hs_subscribed_heartbeat ud then hp_send w (HpHeartbeat (hp_heartbeat_count p)) (p\<lparr>hp_heartbeat_count := hp_heartbeat_count p + 1\<rparr>) else p"
    have "hp_inv read (p\<lparr>hp_heartbeat_count := hp_heartbeat_count p + 1\<rparr>)"
      using Cons.prems(1) by (simp add: hp_inv_def hp_tables_ok_def socket_synced_def coin_synced_def)
    then have "hp_inv read (hp_send w HpPing ?p)" using Cons.prems(1) by (simp add: inv_send neutral_def)
    moreover have "hp_check_client now w p = Some (hp_send w HpPing ?p)" using False by (simp add: hp_check_client_def ud Let_def)
    ultimately show ?thesis by (auto simp: hp_send_def)
  qed
  then obtain p1 where p1: "hp_check_client now w p = Some p1" "hp_inv read p1" "\<And>v. v \<noteq> w \<Longrightarrow> hp_sockets p1 v = hp_sockets p v" by blast
  have "\<forall>ws\<in>set wss. hp_sockets p1 ws \<noteq> None" using Cons.prems(2,3) p1(3) by (metis distinct.simps(2) list.set_intros(2))
  from Cons.IH [OF p1(2) this] Cons.prems(3) p1(1) show ?case by simp
qed simp

section \<open>Histories\<close>

datatype hp_event = Opened nat nat | Received nat hp_message | Ponged nat nat | Closed nat | Heartbeats nat | Published nat MarketDataUpdate

fun hp_step :: "hp_event \<Rightarrow> HyperliquidPublisher \<Rightarrow> HyperliquidPublisher option" where
  "hp_step (Opened ws now) p = Some (hp_open ws now p)"
| "hp_step (Received ws m) p = hp_handle_message ws m p"
| "hp_step (Ponged ws now) p = hp_pong ws now p"
| "hp_step (Closed ws) p = hp_handle_close ws p"
| "hp_step (Heartbeats now) p = hp_check_heartbeats now p"
| "hp_step (Published t u) p = publish_market_data_update t u p"

fun hp_run :: "hp_event list \<Rightarrow> HyperliquidPublisher \<Rightarrow> HyperliquidPublisher option" where
  "hp_run [] p = Some p"
| "hp_run (e # es) p = Option.bind (hp_step e p) (hp_run es)"

text \<open>A connection is opened once, used while open, and sends readable messages; frames are as the exchange makes them.\<close>

fun hp_allowed :: "(string \<Rightarrow> int) \<Rightarrow> hp_event \<Rightarrow> HyperliquidPublisher \<Rightarrow> bool" where
  "hp_allowed read (Opened ws now) p \<longleftrightarrow> hp_sockets p ws = None"
| "hp_allowed read (Received ws m) p \<longleftrightarrow> hp_sockets p ws \<noteq> None \<and> hp_readable m"
| "hp_allowed read (Ponged ws now) p \<longleftrightarrow> hp_sockets p ws \<noteq> None"
| "hp_allowed read (Closed ws) p \<longleftrightarrow> hp_sockets p ws \<noteq> None"
| "hp_allowed read (Heartbeats now) p \<longleftrightarrow> True"
| "hp_allowed read (Published t u) p \<longleftrightarrow> frame_ok read u \<and> baseline_kept u p"

fun hp_all_allowed :: "(string \<Rightarrow> int) \<Rightarrow> hp_event list \<Rightarrow> HyperliquidPublisher \<Rightarrow> bool" where
  "hp_all_allowed read [] p \<longleftrightarrow> True"
| "hp_all_allowed read (e # es) p \<longleftrightarrow> hp_allowed read e p \<and> (case hp_step e p of None \<Rightarrow> True | Some p' \<Rightarrow> hp_all_allowed read es p')"

lemma hp_step_inv:
  assumes inv: "hp_inv read p" and "hp_allowed read e p"
  shows "\<exists>p'. hp_step e p = Some p' \<and> hp_inv read p'"
proof (cases e)
  case (Opened ws now)
  then show ?thesis using inv_open [OF inv] assms(2) by simp
next
  case (Received ws m)
  then show ?thesis using inv_message [OF inv] assms(2) by simp
next
  case (Ponged ws now)
  then show ?thesis using inv_pong [OF inv, of ws now] assms(2) by auto
next
  case (Closed ws)
  then show ?thesis using inv_close [OF inv, of ws] assms(2) by auto
next
  case (Heartbeats now)
  have "\<forall>ws\<in>set (hp_clients p). hp_sockets p ws \<noteq> None" "distinct (hp_clients p)" using hp_invD(1) [OF inv] by (simp_all add: hp_tables_ok_def)
  from inv_heartbeats [OF inv this] show ?thesis by (simp add: Heartbeats hp_check_heartbeats_def)
next
  case (Published t u)
  then show ?thesis using inv_update [OF inv] assms(2) by simp
qed

lemma hp_run_inv:
  assumes "hp_inv read p" and "hp_all_allowed read es p"
  shows "\<exists>p'. hp_run es p = Some p' \<and> hp_inv read p'"
  using assms
proof (induction es arbitrary: p)
  case (Cons e es)
  obtain p1 where "hp_step e p = Some p1" "hp_inv read p1" using hp_step_inv [OF Cons.prems(1)] Cons.prems(2) by auto
  then show ?case using Cons.IH [of p1] Cons.prems(2) by simp
qed simp

text \<open>
  C19. Subscribers of the incremental channel follow the book. In every history in which connections are
  opened, used and closed in order and a late subscriber's snapshot is the book the others have, no
  handler fails or touches a closed socket, and after a book update every subscriber that has had its
  snapshot and applied each diff since, whatever else it was sent, holds exactly the twenty best levels
  of each side of that book.
\<close>

theorem l2_subscribers_follow:
  assumes "hp_all_allowed read es new_hl_publisher" and "md_type u = MD_BOOK_SNAPSHOT" and "md_body u = SnapshotBody snapshot"
    and "levels_ok read (snapshot_levels snapshot)"
  shows "\<exists>p p'. hp_run es new_hl_publisher = Some p \<and> publish_market_data_update t u p = Some p' \<and>
    (\<forall>ws d. hp_sockets p ws = Some d \<and> md_symbol u \<in> set (si_active (hs_subs d L2)) \<and> md_symbol u \<notin> si_pending (hs_subs d L2) \<longrightarrow>
       mirror read (md_symbol u) (hp_sent p' ws) = Some (snapshot_levels snapshot))"
proof -
  obtain p where p: "hp_run es new_hl_publisher = Some p" "hp_inv read p" using hp_run_inv [OF hp_inv_new assms(1)] by blast
  obtain p' where p': "publish_book_snapshot t (md_symbol u) snapshot p = Some p'" "hp_inv read p'" "hp_sockets p' = hp_sockets p"
    "hp_subscription_info p L2 (md_symbol u) \<noteq> [] \<longrightarrow> hp_l2_diff_baseline p' (md_symbol u) = Some (snapshot_levels snapshot)"
    using inv_book_snapshot [OF p(2) assms(4)] by blast
  have "mirror read (md_symbol u) (hp_sent p' ws) = Some (snapshot_levels snapshot)"
    if d: "hp_sockets p ws = Some d" "md_symbol u \<in> set (si_active (hs_subs d L2))" "md_symbol u \<notin> si_pending (hs_subs d L2)" for ws d
  proof -
    have "ws \<in> set (hp_subscription_info p L2 (md_symbol u))" using hp_invD(1) [OF p(2)] d by (auto simp: hp_tables_ok_def)
    then have b: "hp_l2_diff_baseline p' (md_symbol u) = Some (snapshot_levels snapshot)" using p'(4) by (metis empty_iff empty_set)
    have "coin_synced read p' ws (hs_subs d L2) (md_symbol u)" using hp_invD(3) [OF p'(2)] p'(3) d(1) by (simp add: socket_synced_def)
    then show ?thesis using d b by (simp add: coin_synced_def)
  qed
  then show ?thesis using p(1) p'(1) assms(2,3) by (intro exI [of _ p] exI [of _ p']) (simp add: publish_market_data_update_def)
qed

text \<open>One bid; a subscriber; the bid's size changes.\<close>

definition ex_bid :: "qty_t \<Rightarrow> BookSnapshot" where
  "ex_bid q = \<lparr>num_bid = 1, num_ask = 0, snap_levels = [\<lparr>sl_price = 100, sl_qty = q, sl_num_orders = 1\<rparr>]\<rparr>"

definition ex_update :: "MDUpdateType \<Rightarrow> md_body \<Rightarrow> MarketDataUpdate" where
  "ex_update ty bd = \<lparr>md_symbol = ''BTC'', md_venue = HYPERLIQUID, md_type = ty, md_body = bd\<rparr>"

definition ex_join :: "nat \<Rightarrow> qty_t \<Rightarrow> hp_event list" where
  "ex_join ws q = [Opened ws 0,
     Received ws (HpMessage (TextMember ''subscribe'') (Some (Some \<lparr>hsub_type = TextMember ''l2'', hsub_coin = Absent, hsub_c = TextMember ''BTC''\<rparr>))),
     Published 0 (ex_update MD_SUB_RESPONSE (SubSnapshotBody 2 (ex_bid q)))]"

lemma ex_bid_levels: "snapshot_levels (ex_bid q) = ([(100, q)], [])" "snapshot_rows (ex_bid q) = ([(to_hyperliquid_number 100, to_hyperliquid_number q, 1)], [])"
  by (simp_all add: snapshot_levels_def snapshot_rows_def ex_bid_def split_book_snapshot_def L2_PUBLISH_DEPTH_def emit_def)

lemma ex_bid_ok: "int64_ok q \<Longrightarrow> levels_ok read_fixed (snapshot_levels (ex_bid q))"
  using number_reads [of 100] by (simp add: ex_bid_levels levels_ok_def numbers_read_def number_reads int64_ok_def [of 100])

lemmas ex_publisher = ex_join_def ex_update_def hp_handle_message_def subscribe_coin_def subscribe_channel_def hp_open_def hp_set_socket_def hp_send_def
  new_hl_publisher_def publish_market_data_update_def publish_subscription_response_def serve_pending_def no_subs_def Let_def ex_bid_levels

theorem l2_subscribers_follow_witness:
  "\<exists>p p'. hp_run (ex_join 1 5) new_hl_publisher = Some p \<and> publish_market_data_update 9 (ex_update MD_BOOK_SNAPSHOT (SnapshotBody (ex_bid 8))) p = Some p' \<and>
     mirror read_fixed ''BTC'' (hp_sent p' 1) = Some ([(100, 8)], [])"
proof -
  have ok: "levels_ok read_fixed (snapshot_levels (ex_bid 5))" "levels_ok read_fixed (snapshot_levels (ex_bid 8))"
    by (rule ex_bid_ok, simp add: int64_ok_def)+
  have a: "hp_all_allowed read_fixed (ex_join 1 5) new_hl_publisher"
    using ok(1) by (simp add: ex_publisher hp_readable_def frame_ok_def baseline_kept_def)
  obtain p where p: "hp_run (ex_join 1 5) new_hl_publisher = Some p" "\<exists>d. hp_sockets p 1 = Some d \<and> ''BTC'' \<in> set (si_active (hs_subs d L2)) \<and> ''BTC'' \<notin> si_pending (hs_subs d L2)"
    by (simp add: ex_publisher)
  let ?u = "ex_update MD_BOOK_SNAPSHOT (SnapshotBody (ex_bid 8))"
  have u: "md_type ?u = MD_BOOK_SNAPSHOT" "md_body ?u = SnapshotBody (ex_bid 8)" "md_symbol ?u = ''BTC''" by (simp_all add: ex_update_def)
  from l2_subscribers_follow [OF a u(1,2) ok(2), of 9] p show ?thesis unfolding u(3) ex_bid_levels by (metis option.inject)
qed

text \<open>
  A subscription that arrives after the book has changed without an update breaks the others: the second
  subscriber's snapshot replaces the shared baseline, the next diff is computed from a book the first
  never saw, and it is left with a size the book no longer has.
\<close>

theorem late_subscriber_desyncs:
  "\<exists>p p'. hp_run (ex_join 1 5 @ ex_join 2 8) new_hl_publisher = Some p \<and>
     publish_market_data_update 9 (ex_update MD_BOOK_SNAPSHOT (SnapshotBody (ex_bid 8))) p = Some p' \<and>
     mirror read_fixed ''BTC'' (hp_sent p' 2) = Some ([(100, 8)], []) \<and> mirror read_fixed ''BTC'' (hp_sent p' 1) = Some ([(100, 5)], [])"
proof -
  have r: "read_fixed (to_hyperliquid_number 100) = 100" "read_fixed (to_hyperliquid_number 5) = 5" "read_fixed (to_hyperliquid_number 8) = 8"
    by (simp_all add: number_reads int64_ok_def)
  have e: "client_levels read_fixed BUY ([], []) [(100, q)] = [(100, q)]" "client_levels read_fixed SELL ([], []) [] = []" for q
    by (simp_all add: client_levels_def mirror_apply_def client_apply_def resolve_removed_def drop_prices_def)
  show ?thesis
    by (simp add: ex_publisher publish_book_snapshot_def hp_send_open_def compute_l2_diff_def diff_side_def mirror_def rows_levels_def r e)
qed

end
