(* ===== verification/Coinbase_Publisher.thy ===== *)
theory Coinbase_Publisher
  imports Coinbase_Exchange Md_Publisher
begin

text \<open>
  \<open>src/src/venues/coinbase/coinbase_publisher.cpp\<close> and \<open>coinbase_trade_encoder.cpp\<close>: the market-data side of
  the Coinbase venue, one event loop. The numbers and names of the channels come from the Coinbase
  client library and are a parameter. Sockets are numbered, and closing one takes its data away; frames
  are kept as values, per connection, without the clock readings of their envelopes. An unordered set
  or multimap is a list. \<open>None\<close> is an exception that leaves a handler, an index out of an array, a
  failed assertion or the use of a closed socket.
\<close>

section \<open>Messages and frames\<close>

record cp_channels = channels +
  ch_ticker :: nat
  ch_user :: nat
  ch_count :: nat
  ch_name :: "nat \<Rightarrow> string"

text \<open>The type and channel of a message and its products.\<close>

datatype cp_message = CpBadJson string | CpNotObject | CpMessage text_member text_member "text_member list"

record cp_level =
  cl_side :: string
  cl_price_level :: string
  cl_new_quantity :: string
  cl_event_time :: "time_ns option"

record cp_trade =
  ct_trade_id :: string
  ct_product_id :: string
  ct_price :: string
  ct_size :: string
  ct_side :: string
  ct_time :: time_ns

datatype cp_frame =
    CpLevels string string "cp_level list"
  | CpTrades string "cp_trade list"
  | CpTicker
  | CpSubscriptions "(string \<times> string list) list"
  | CpHeartbeatsSubscribed
  | CpHeartbeat "64 word"

text \<open>A frame with its number, or one that has none.\<close>

datatype cp_sent = Numbered "64 word" cp_frame | CpError string | CpPing

definition cb_encode_trade :: "string \<Rightarrow> nat \<Rightarrow> time_ns \<Rightarrow> price_t \<Rightarrow> qty_t \<Rightarrow> Side \<Rightarrow> cp_trade" where
  "cb_encode_trade product_id tid t px q aggressor_side = \<lparr>ct_trade_id = to_string_nat tid, ct_product_id = product_id,
     ct_price = to_price_string px, ct_size = to_qty_string q, ct_side = to_string_Side aggressor_side, ct_time = t\<rparr>"

definition encode_market_trade :: "string \<Rightarrow> TradeSummary \<Rightarrow> cp_frame" where
  "encode_market_trade product_id summary = CpTrades ''update'' [cb_encode_trade product_id (tm_trade_id summary) (tm_timestamp summary)
     (tm_price summary) (tm_qty summary) (tm_aggressor_side summary)]"

definition encode_market_trades :: "string \<Rightarrow> string \<Rightarrow> MDTrade list \<Rightarrow> bool \<Rightarrow> cp_frame" where
  "encode_market_trades product_id event_type trades newest_first =
     (let num_trades = length trades
      in CpTrades event_type (map (\<lambda>i. let tr = trades ! (if newest_first then num_trades - 1 - i else i)
           in cb_encode_trade product_id (mt_trade_id tr) (mt_event_time tr) (mt_price tr) (mt_qty tr) (mt_side tr)) [0..<num_trades]))"

definition cp_level_row :: "string \<Rightarrow> SnapLevel \<Rightarrow> cp_level" where
  "cp_level_row s l = \<lparr>cl_side = s, cl_price_level = to_price_string (sl_price l), cl_new_quantity = to_qty_string (sl_qty l), cl_event_time = None\<rparr>"

definition snapshot_updates :: "BookSnapshot \<Rightarrow> cp_level list" where
  "snapshot_updates snapshot = map (\<lambda>i. cp_level_row ''bid'' (snap_levels snapshot ! i)) [0..<num_bid snapshot] @
     map (\<lambda>i. cp_level_row ''offer'' (snap_levels snapshot ! i)) [num_bid snapshot..<num_bid snapshot + num_ask snapshot]"

definition level_update_row :: "MDLevel \<Rightarrow> cp_level" where
  "level_update_row l = \<lparr>cl_side = (if ml_side l = BUY then ''bid'' else ''offer''), cl_price_level = to_price_string (ml_price l),
     cl_new_quantity = to_qty_string (ml_qty l), cl_event_time = Some (ml_event_time l)\<rparr>"

section \<open>State\<close>

record SubscriptionInfo =
  sn_active :: "string list"
  sn_pending :: "string set"
  sn_received :: "string list"

record CpSocketData =
  cs_seq_num :: "64 word"
  cs_last_pong :: nat
  cs_subscribed_heartbeat :: bool
  cs_subscription_info :: "nat \<Rightarrow> SubscriptionInfo"

record CoinbasePublisher =
  cp_clients :: "nat list"
  cp_sockets :: "nat \<rightharpoonup> CpSocketData"
  cp_symbol_channel_client :: "string \<Rightarrow> (nat \<times> nat) list"
  cp_subscription_info :: "nat \<Rightarrow> string \<Rightarrow> nat list"
  cp_heartbeat_count :: "64 word"
  cp_request_queue :: "md_request list"
  cp_sent_to :: "nat \<Rightarrow> cp_sent list"

definition new_cb_publisher :: CoinbasePublisher where
  "new_cb_publisher = \<lparr>cp_clients = [], cp_sockets = Map.empty, cp_symbol_channel_client = (\<lambda>_. []), cp_subscription_info = (\<lambda>_ _. []),
     cp_heartbeat_count = 0, cp_request_queue = [], cp_sent_to = (\<lambda>_. [])\<rparr>"

section \<open>Sockets\<close>

definition cp_send :: "nat \<Rightarrow> cp_sent \<Rightarrow> CoinbasePublisher \<Rightarrow> CoinbasePublisher" where
  "cp_send ws f p = p\<lparr>cp_sent_to := (cp_sent_to p)(ws := cp_sent_to p ws @ [f])\<rparr>"

definition cp_set_socket :: "nat \<Rightarrow> CpSocketData \<Rightarrow> CoinbasePublisher \<Rightarrow> CoinbasePublisher" where
  "cp_set_socket ws d p = p\<lparr>cp_sockets := (cp_sockets p)(ws \<mapsto> d)\<rparr>"

text \<open>\<open>send(render(seq_num++))\<close>; a closed socket has no data to count in.\<close>

definition cp_send_numbered :: "cp_frame \<Rightarrow> nat \<Rightarrow> CoinbasePublisher \<Rightarrow> CoinbasePublisher option" where
  "cp_send_numbered f ws p = map_option (\<lambda>d. cp_send ws (Numbered (cs_seq_num d) f) (cp_set_socket ws (d\<lparr>cs_seq_num := cs_seq_num d + 1\<rparr>) p)) (cp_sockets p ws)"

text \<open>\<open>seq0\<close> is the number the socket's data is made with: the open handler does not set it.\<close>

definition cp_open :: "nat \<Rightarrow> 64 word \<Rightarrow> nat \<Rightarrow> CoinbasePublisher \<Rightarrow> CoinbasePublisher" where
  "cp_open ws seq0 now p = (cp_set_socket ws \<lparr>cs_seq_num = seq0, cs_last_pong = now, cs_subscribed_heartbeat = False,
       cs_subscription_info = (\<lambda>_. \<lparr>sn_active = [], sn_pending = {}, sn_received = []\<rparr>)\<rparr> p)
     \<lparr>cp_clients := List.insert ws (cp_clients p), cp_sent_to := (cp_sent_to p)(ws := [])\<rparr>"

definition cp_pong :: "nat \<Rightarrow> nat \<Rightarrow> CoinbasePublisher \<Rightarrow> CoinbasePublisher option" where
  "cp_pong ws now p = map_option (\<lambda>d. cp_set_socket ws (d\<lparr>cs_last_pong := now\<rparr>) p) (cp_sockets p ws)"

definition cp_subscribe :: "nat \<Rightarrow> nat \<Rightarrow> string \<Rightarrow> CoinbasePublisher \<Rightarrow> CoinbasePublisher option" where
  "cp_subscribe ws ch name p = (case cp_sockets p ws of
      None \<Rightarrow> None
    | Some ud \<Rightarrow>
        (let request = \<lparr>mq_symbol = fs_view (fst (copy_wire_field 32 name)), mq_subscribe = True, mq_channel = ch, mq_client = ws\<rparr>;
             sub = cs_subscription_info ud ch;
             sub' = sub\<lparr>sn_active := List.insert name (sn_active sub), sn_pending := insert name (sn_pending sub)\<rparr>
         in Some ((cp_set_socket ws (ud\<lparr>cs_subscription_info := (cs_subscription_info ud)(ch := sub')\<rparr>) p)
              \<lparr>cp_request_queue := cp_request_queue p @ [request],
               cp_subscription_info := (cp_subscription_info p)(ch := (cp_subscription_info p ch)(name := List.insert ws (cp_subscription_info p ch name))),
               cp_symbol_channel_client := (cp_symbol_channel_client p)(name := cp_symbol_channel_client p name @ [(ch, ws)])\<rparr>)))"

text \<open>The products of a message, in order; one that is not text raises.\<close>

fun cp_subscribe_all :: "nat \<Rightarrow> nat \<Rightarrow> text_member list \<Rightarrow> CoinbasePublisher \<Rightarrow> CoinbasePublisher option" where
  "cp_subscribe_all ws ch [] p = Some p"
| "cp_subscribe_all ws ch (pd # prods) p = (case pd of
      TextMember name \<Rightarrow> Option.bind (cp_subscribe ws ch name p) (cp_subscribe_all ws ch prods)
    | _ \<Rightarrow> None)"

definition cp_send_error :: "nat \<Rightarrow> string \<Rightarrow> CoinbasePublisher \<Rightarrow> CoinbasePublisher" where
  "cp_send_error ws error_msg p = cp_send ws (CpError error_msg) p"

definition cp_handle_message :: "cp_channels \<Rightarrow> nat \<Rightarrow> cp_message \<Rightarrow> CoinbasePublisher \<Rightarrow> CoinbasePublisher option" where
  "cp_handle_message C ws message p = (case message of
      CpBadJson e \<Rightarrow> Some (cp_send_error ws (''Invalid JSON: '' @ e) p)
    | CpNotObject \<Rightarrow> None
    | CpMessage type channel prods \<Rightarrow>
        if type = TextMember ''subscribe'' then
          (case cp_sockets p ws of None \<Rightarrow> None | Some ud \<Rightarrow>
            (let p1 = (if ws \<notin> set (cp_clients p) then (cp_set_socket ws (ud\<lparr>cs_seq_num := 0\<rparr>) p)\<lparr>cp_clients := cp_clients p @ [ws]\<rparr> else p)
             in case channel of
                TextMember c \<Rightarrow>
                  if c = ''level2'' then cp_subscribe_all ws (ch_level2 C) prods p1
                  else if c = ''market_trades'' then cp_subscribe_all ws (ch_market_trades C) prods p1
                  else if c = ''ticker'' then cp_subscribe_all ws (ch_ticker C) prods p1
                  else if c = ''heartbeats'' then
                    Option.bind (cp_sockets p1 ws) (\<lambda>d. cp_send_numbered CpHeartbeatsSubscribed ws (cp_set_socket ws (d\<lparr>cs_subscribed_heartbeat := True\<rparr>) p1))
                  else Some (cp_send_error ws (''channel `'' @ c @ ''` is not supported'') p1)
              | _ \<Rightarrow> None))
        else (case text_value type of
            None \<Rightarrow> None
          | Some ty \<Rightarrow> Some (cp_send_error ws (''type `'' @ ty @ ''` is not supported'') p)))"

section \<open>Publishing\<close>

definition subscribers :: "nat \<Rightarrow> string \<Rightarrow> CoinbasePublisher \<Rightarrow> nat list" where
  "subscribers ch name p = map snd (filter (\<lambda>(c, _). c = ch) (cp_symbol_channel_client p name))"

definition cp_publish_level_snapshot :: "cp_channels \<Rightarrow> string \<Rightarrow> BookSnapshot \<Rightarrow> CoinbasePublisher \<Rightarrow> CoinbasePublisher option" where
  "cp_publish_level_snapshot C name snapshot p =
     serve_each (cp_send_numbered (CpLevels ''snapshot'' name (snapshot_updates snapshot))) (subscribers (ch_level2 C) name p) p"

definition cp_publish_level_update :: "cp_channels \<Rightarrow> string \<Rightarrow> MDLevel list \<Rightarrow> CoinbasePublisher \<Rightarrow> CoinbasePublisher option" where
  "cp_publish_level_update C name levels p =
     serve_each (cp_send_numbered (CpLevels ''update'' name (map level_update_row levels))) (subscribers (ch_level2 C) name p) p"

definition cp_publish_trade_summary :: "cp_channels \<Rightarrow> string \<Rightarrow> TradeSummary \<Rightarrow> CoinbasePublisher \<Rightarrow> CoinbasePublisher option" where
  "cp_publish_trade_summary C name summary p =
     serve_each (cp_send_numbered (encode_market_trade name summary)) (subscribers (ch_market_trades C) name p) p"

definition cp_publish_order_update :: "cp_channels \<Rightarrow> string \<Rightarrow> CoinbasePublisher \<Rightarrow> CoinbasePublisher option" where
  "cp_publish_order_update C name p = (if subscribers (ch_user C) name p = [] then Some p else None)"

text \<open>One waiting subscriber: the snapshot, the newer trades if any, and the list of what it is subscribed to once it waits for nothing else.\<close>

definition cp_confirmation :: "cp_channels \<Rightarrow> nat \<Rightarrow> CpSocketData \<Rightarrow> cp_frame" where
  "cp_confirmation C ch ud = CpSubscriptions ((ch_name C ch, sn_received (cs_subscription_info ud ch)) #
     map (\<lambda>i. (ch_name C i, sn_received (cs_subscription_info ud i)))
       (filter (\<lambda>i. i \<noteq> ch \<and> sn_received (cs_subscription_info ud i) \<noteq> []) [0..<ch_count C]))"

definition cp_serve_pending :: "cp_channels \<Rightarrow> nat \<Rightarrow> string \<Rightarrow> cp_frame \<Rightarrow> cp_frame option \<Rightarrow> nat \<Rightarrow> CoinbasePublisher \<Rightarrow> CoinbasePublisher option" where
  "cp_serve_pending C ch name snapshot_msg update_msg ws p = (case cp_sockets p ws of
      None \<Rightarrow> None
    | Some ud \<Rightarrow>
        (let sub = cs_subscription_info ud ch
         in if name \<in> sn_pending sub then
              (let sub' = sub\<lparr>sn_pending := sn_pending sub - {name}, sn_received := sn_received sub @ [name]\<rparr>;
                   ud' = ud\<lparr>cs_subscription_info := (cs_subscription_info ud)(ch := sub')\<rparr>
               in serve_each (\<lambda>f. cp_send_numbered f ws)
                    (snapshot_msg # (case update_msg of None \<Rightarrow> [] | Some m \<Rightarrow> [m]) @ (if sn_pending sub' = {} then [cp_confirmation C ch ud'] else []))
                    (cp_set_socket ws ud' p))
            else Some p))"

definition cp_send_error_open :: "string \<Rightarrow> nat \<Rightarrow> CoinbasePublisher \<Rightarrow> CoinbasePublisher option" where
  "cp_send_error_open e ws p = (if cp_sockets p ws = None then None else Some (cp_send_error ws e p))"

definition cp_publish_subscription_response :: "cp_channels \<Rightarrow> string \<Rightarrow> md_body \<Rightarrow> CoinbasePublisher \<Rightarrow> CoinbasePublisher option" where
  "cp_publish_subscription_response C name bd p =
     (let serve = (\<lambda>ch sm um. serve_each (cp_serve_pending C ch name sm um) (cp_subscription_info p ch name) p)
      in case bd of
        RejectBody n reason \<Rightarrow>
          if n \<ge> ch_count C then None
          else if cp_subscription_info p n name = [] then Some p
          else if reason = SR_NONE then None
          else serve_each (cp_send_error_open (''Subscription to '' @ name @ '' rejected: '' @ to_string_MDSubscriptionRejectReason reason))
            (cp_subscription_info p n name) p
      | SubSnapshotBody n snapshot \<Rightarrow>
          if n \<ge> ch_count C then None
          else if cp_subscription_info p n name = [] then Some p
          else if n = ch_level2 C then serve n (CpLevels ''snapshot'' name (snapshot_updates snapshot)) None
          else if n = ch_market_trades C then None
          else if n = ch_ticker C then serve n CpTicker None
          else Some p
      | TradeSnapshotBody n num_snapshot num_update trades \<Rightarrow>
          if n \<ge> ch_count C then None
          else if cp_subscription_info p n name = [] then Some p
          else if n = ch_level2 C then None
          else if n = ch_market_trades C then
            serve n (encode_market_trades name ''snapshot'' (take num_snapshot trades) True)
              (if num_update = 0 then None else Some (encode_market_trades name ''update'' (take num_update (drop num_snapshot trades)) False))
          else if n = ch_ticker C then serve n CpTicker None
          else Some p
      | _ \<Rightarrow> None)"

text \<open>A frame whose body is not the one its type announces would be read past its end.\<close>

definition cp_publish_market_data_update :: "cp_channels \<Rightarrow> MarketDataUpdate \<Rightarrow> CoinbasePublisher \<Rightarrow> CoinbasePublisher option" where
  "cp_publish_market_data_update C u p = (case md_type u of
      MD_LEVEL \<Rightarrow> (case md_body u of LevelBody levels \<Rightarrow> cp_publish_level_update C (md_symbol u) levels p | _ \<Rightarrow> None)
    | MD_ORDER \<Rightarrow> cp_publish_order_update C (md_symbol u) p
    | MD_SUB_RESPONSE \<Rightarrow> cp_publish_subscription_response C (md_symbol u) (md_body u) p
    | MD_BOOK_SNAPSHOT \<Rightarrow> (case md_body u of SnapshotBody snapshot \<Rightarrow> cp_publish_level_snapshot C (md_symbol u) snapshot p | _ \<Rightarrow> None)
    | MD_TRADE_SUMMARY \<Rightarrow> (case md_body u of TradeSummaryBody summary \<Rightarrow> cp_publish_trade_summary C (md_symbol u) summary p | _ \<Rightarrow> None)
    | _ \<Rightarrow> Some p)"

section \<open>Closing\<close>

text \<open>Only one of a socket's entries is erased, however often it subscribed.\<close>

definition cp_drop_subscription :: "nat \<Rightarrow> nat \<Rightarrow> string \<Rightarrow> CoinbasePublisher \<Rightarrow> CoinbasePublisher" where
  "cp_drop_subscription ws ch name p =
     p\<lparr>cp_request_queue := cp_request_queue p @
         [\<lparr>mq_symbol = fs_view (fst (copy_wire_field 32 name)), mq_subscribe = False, mq_channel = ch, mq_client = ws\<rparr>],
       cp_symbol_channel_client := (cp_symbol_channel_client p)(name := remove1 (ch, ws) (cp_symbol_channel_client p name)),
       cp_subscription_info := (cp_subscription_info p)(ch := (cp_subscription_info p ch)(name := removeAll ws (cp_subscription_info p ch name)))\<rparr>"

definition cp_unsubscribe_md :: "cp_channels \<Rightarrow> nat \<Rightarrow> CpSocketData \<Rightarrow> CoinbasePublisher \<Rightarrow> CoinbasePublisher" where
  "cp_unsubscribe_md C ws ud p =
     foldl (\<lambda>p ch. foldl (\<lambda>p name. cp_drop_subscription ws ch name p) p (sn_active (cs_subscription_info ud ch))) p [0..<ch_count C]"

text \<open>The close handler; the connection's data is gone afterwards.\<close>

definition cp_handle_close :: "cp_channels \<Rightarrow> nat \<Rightarrow> CoinbasePublisher \<Rightarrow> CoinbasePublisher option" where
  "cp_handle_close C ws p = map_option (\<lambda>ud.
     (cp_unsubscribe_md C ws ud p)\<lparr>cp_clients := removeAll ws (cp_clients p), cp_sockets := (cp_sockets p)(ws := None)\<rparr>) (cp_sockets p ws)"

definition cp_check_client :: "cp_channels \<Rightarrow> nat \<Rightarrow> nat \<Rightarrow> CoinbasePublisher \<Rightarrow> CoinbasePublisher option" where
  "cp_check_client C now ws p = (case cp_sockets p ws of
      None \<Rightarrow> None
    | Some ud \<Rightarrow>
        if (now - cs_last_pong ud) div 1000000000 > 60 then cp_handle_close C ws (p\<lparr>cp_clients := removeAll ws (cp_clients p)\<rparr>)
        else Option.bind (if cs_subscribed_heartbeat ud
            then cp_send_numbered (CpHeartbeat (cp_heartbeat_count p)) ws (p\<lparr>cp_heartbeat_count := cp_heartbeat_count p + 1\<rparr>) else Some p)
          (\<lambda>p1. Some (cp_send ws CpPing p1)))"

definition cp_check_heartbeats :: "cp_channels \<Rightarrow> nat \<Rightarrow> CoinbasePublisher \<Rightarrow> CoinbasePublisher option" where
  "cp_check_heartbeats C now p = serve_each (cp_check_client C now) (cp_clients p) p"

end
