(* ===== verification/Cb_Publisher_Properties.thy ===== *)
theory Cb_Publisher_Properties
  imports Coinbase_Publisher "HOL-Library.Multiset"
begin

text \<open>
  The Coinbase publisher numbers what it sends on a connection without a gap, keeps its tables of
  subscribers in step with the connections, and delivers each update once, as long as no connection
  subscribes twice to the same product of a channel.
\<close>

section \<open>The invariant\<close>

text \<open>What the code relies on of the channel numbers.\<close>

definition channels_ok :: "cp_channels \<Rightarrow> bool" where
  "channels_ok C \<longleftrightarrow> ch_level2 C < ch_count C \<and> ch_market_trades C < ch_count C \<and> ch_ticker C < ch_count C \<and>
     distinct [ch_level2 C, ch_market_trades C, ch_ticker C, ch_user C]"

fun number_of :: "cp_sent \<Rightarrow> 64 word list" where
  "number_of (Numbered n f) = [n]"
| "number_of _ = []"

definition numbers :: "cp_sent list \<Rightarrow> 64 word list" where
  "numbers fs = concat (map number_of fs)"

lemma numbers_simps [simp]: "numbers [] = []" "numbers (fs @ gs) = numbers fs @ numbers gs" "numbers [f] = number_of f"
  by (simp_all add: numbers_def)

definition in_step :: "CpSocketData \<Rightarrow> cp_sent list \<Rightarrow> bool" where
  "in_step d fs \<longleftrightarrow> numbers fs = map of_nat [0..<length (numbers fs)] \<and> cs_seq_num d = of_nat (length (numbers fs))"

definition holds :: "nat \<Rightarrow> string \<Rightarrow> nat \<Rightarrow> CoinbasePublisher \<Rightarrow> bool" where
  "holds ch name ws p \<longleftrightarrow> (\<exists>d. cp_sockets p ws = Some d \<and> name \<in> set (sn_active (cs_subscription_info d ch)))"

definition used_channel :: "cp_channels \<Rightarrow> nat \<Rightarrow> bool" where
  "used_channel C ch \<longleftrightarrow> ch = ch_level2 C \<or> ch = ch_market_trades C \<or> ch = ch_ticker C"

definition cp_inv :: "cp_channels \<Rightarrow> CoinbasePublisher \<Rightarrow> bool" where
  "cp_inv C p \<longleftrightarrow>
     (\<forall>ch name ws. ws \<in> set (cp_subscription_info p ch name) \<longleftrightarrow> holds ch name ws p) \<and>
     (\<forall>ch name ws. count (mset (cp_symbol_channel_client p name)) (ch, ws) = (if holds ch name ws p then 1 else 0)) \<and>
     (\<forall>ch name ws. holds ch name ws p \<longrightarrow> used_channel C ch) \<and>
     (\<forall>ws. ws \<in> set (cp_clients p) \<longleftrightarrow> cp_sockets p ws \<noteq> None) \<and> distinct (cp_clients p) \<and>
     (\<forall>ws d. cp_sockets p ws = Some d \<longrightarrow> in_step d (cp_sent_to p ws) \<and> (\<forall>ch. distinct (sn_active (cs_subscription_info d ch))))"

lemma cp_invD:
  assumes "cp_inv C p"
  shows "ws \<in> set (cp_subscription_info p ch name) \<longleftrightarrow> holds ch name ws p"
    "count (mset (cp_symbol_channel_client p name)) (ch, ws) = (if holds ch name ws p then 1 else 0)"
    "holds ch name ws p \<Longrightarrow> used_channel C ch" "ws \<in> set (cp_clients p) \<longleftrightarrow> cp_sockets p ws \<noteq> None" "distinct (cp_clients p)"
    "cp_sockets p ws = Some d \<Longrightarrow> in_step d (cp_sent_to p ws)" "cp_sockets p ws = Some d \<Longrightarrow> distinct (sn_active (cs_subscription_info d ch))"
  using assms unfolding cp_inv_def by blast+

lemma cp_inv_new [simp]: "cp_inv C new_cb_publisher"
  by (simp add: cp_inv_def new_cb_publisher_def holds_def)

lemma holds_open: "holds ch name ws p \<Longrightarrow> cp_sockets p ws \<noteq> None"
  by (auto simp: holds_def)

lemma subscribers_iff:
  assumes "cp_inv C p"
  shows "ws \<in> set (subscribers ch name p) \<longleftrightarrow> holds ch name ws p" "distinct (subscribers ch name p)"
proof -
  let ?xs = "cp_symbol_channel_client p name"
  have mem: "(ch, ws) \<in> set ?xs \<longleftrightarrow> holds ch name ws p" for ch ws
  proof -
    have "(ch, ws) \<in> set ?xs \<longleftrightarrow> 0 < count (mset ?xs) (ch, ws)" by (simp add: count_greater_zero_iff)
    then show ?thesis using cp_invD(2) [OF assms] by simp
  qed
  then show "ws \<in> set (subscribers ch name p) \<longleftrightarrow> holds ch name ws p" by (force simp: subscribers_def)
  have "distinct ?xs"
    unfolding distinct_count_atmost_1 using cp_invD(2) [OF assms, of name] mem by auto
  then have d: "distinct (filter (\<lambda>(c, _). c = ch) ?xs)" by (rule distinct_filter)
  show "distinct (subscribers ch name p)" unfolding subscribers_def distinct_map
    using d by (auto simp: inj_on_def)
qed

section \<open>Steps on one connection\<close>

definition local_step :: "nat \<Rightarrow> CoinbasePublisher \<Rightarrow> CoinbasePublisher \<Rightarrow> bool" where
  "local_step ws p p' \<longleftrightarrow> (\<exists>d d'. cp_sockets p ws = Some d \<and> cp_sockets p' = (cp_sockets p)(ws \<mapsto> d') \<and>
     (\<forall>ch. sn_active (cs_subscription_info d' ch) = sn_active (cs_subscription_info d ch)) \<and>
     (in_step d (cp_sent_to p ws) \<longrightarrow> in_step d' (cp_sent_to p' ws)) \<and> (\<forall>w. w \<noteq> ws \<longrightarrow> cp_sent_to p' w = cp_sent_to p w) \<and>
     cp_symbol_channel_client p' = cp_symbol_channel_client p \<and> cp_subscription_info p' = cp_subscription_info p \<and> cp_clients p' = cp_clients p)"

lemma local_stepI:
  assumes "cp_sockets p ws = Some d" and "cp_sockets p' = (cp_sockets p)(ws \<mapsto> d')"
    and "\<And>ch. sn_active (cs_subscription_info d' ch) = sn_active (cs_subscription_info d ch)"
    and "in_step d (cp_sent_to p ws) \<Longrightarrow> in_step d' (cp_sent_to p' ws)" and "\<And>w. w \<noteq> ws \<Longrightarrow> cp_sent_to p' w = cp_sent_to p w"
    and "cp_symbol_channel_client p' = cp_symbol_channel_client p" "cp_subscription_info p' = cp_subscription_info p" "cp_clients p' = cp_clients p"
  shows "local_step ws p p'"
  unfolding local_step_def by (intro exI [of _ d] exI [of _ d'] conjI allI impI assms) assumption+

lemma local_inv:
  assumes inv: "cp_inv C p" and l: "local_step ws p p'"
  shows "cp_inv C p'" "dom (cp_sockets p') = dom (cp_sockets p)" "holds ch name w p' = holds ch name w p"
proof -
  obtain d d' where d: "cp_sockets p ws = Some d" "cp_sockets p' = (cp_sockets p)(ws \<mapsto> d')"
    "\<And>ch. sn_active (cs_subscription_info d' ch) = sn_active (cs_subscription_info d ch)"
    "in_step d (cp_sent_to p ws) \<longrightarrow> in_step d' (cp_sent_to p' ws)" "\<And>w. w \<noteq> ws \<Longrightarrow> cp_sent_to p' w = cp_sent_to p w"
    "cp_symbol_channel_client p' = cp_symbol_channel_client p" "cp_subscription_info p' = cp_subscription_info p" "cp_clients p' = cp_clients p"
    using l unfolding local_step_def by blast
  have h: "holds ch name w p' = holds ch name w p" for ch name w using d(1-3) by (auto simp: holds_def)
  have step: "in_step e (cp_sent_to p' w) \<and> distinct (sn_active (cs_subscription_info e ch))" if "cp_sockets p' w = Some e" for w e ch
    using that cp_invD(6,7) [OF inv] d by (cases "w = ws") auto
  show "cp_inv C p'" using inv step unfolding cp_inv_def h d(2,6,7,8) using d(1) by auto
  show "dom (cp_sockets p') = dom (cp_sockets p)" using d(1,2) by auto
  show "holds ch name w p' = holds ch name w p" by (rule h)
qed

lemma local_trans: "local_step ws p q \<Longrightarrow> local_step ws q r \<Longrightarrow> local_step ws p r"
proof -
  assume "local_step ws p q" "local_step ws q r"
  then obtain d d1 e e1 where d: "cp_sockets p ws = Some d" "cp_sockets q = (cp_sockets p)(ws \<mapsto> d1)"
      "\<forall>ch. sn_active (cs_subscription_info d1 ch) = sn_active (cs_subscription_info d ch)"
      "in_step d (cp_sent_to p ws) \<longrightarrow> in_step d1 (cp_sent_to q ws)" "\<forall>w. w \<noteq> ws \<longrightarrow> cp_sent_to q w = cp_sent_to p w"
      "cp_symbol_channel_client q = cp_symbol_channel_client p" "cp_subscription_info q = cp_subscription_info p" "cp_clients q = cp_clients p"
    and e: "cp_sockets q ws = Some e" "cp_sockets r = (cp_sockets q)(ws \<mapsto> e1)"
      "\<forall>ch. sn_active (cs_subscription_info e1 ch) = sn_active (cs_subscription_info e ch)"
      "in_step e (cp_sent_to q ws) \<longrightarrow> in_step e1 (cp_sent_to r ws)" "\<forall>w. w \<noteq> ws \<longrightarrow> cp_sent_to r w = cp_sent_to q w"
      "cp_symbol_channel_client r = cp_symbol_channel_client q" "cp_subscription_info r = cp_subscription_info q" "cp_clients r = cp_clients q"
    unfolding local_step_def by (elim exE conjE) (rule that)
  have "e = d1" using d(2) e(1) by simp
  then show "local_step ws p r" using d e by (intro local_stepI [of p ws d r e1]) simp_all
qed

lemma serve_local:
  assumes "cp_inv C p" and "\<forall>ws\<in>set wss. cp_sockets p ws \<noteq> None"
    and step: "\<And>ws q. ws \<in> set wss \<Longrightarrow> cp_inv C q \<Longrightarrow> cp_sockets q ws \<noteq> None \<Longrightarrow> \<exists>q'. f ws q = Some q' \<and> local_step ws q q'"
  shows "\<exists>p'. serve_each f wss p = Some p' \<and> cp_inv C p'"
  using assms
proof (induction wss arbitrary: p)
  case (Cons w wss)
  obtain q where q: "f w p = Some q" "local_step w p q" using Cons.prems by fastforce
  note l = local_inv [OF Cons.prems(1) q(2)]
  have "\<forall>ws\<in>set wss. cp_sockets q ws \<noteq> None" using l(2) Cons.prems(2) by (auto simp: dom_def)
  from Cons.IH [OF l(1) this Cons.prems(3)] q(1) show ?case by simp
qed simp

lemma in_step_next: "in_step d fs \<Longrightarrow> in_step (d\<lparr>cs_seq_num := cs_seq_num d + 1\<rparr>) (fs @ [Numbered (cs_seq_num d) f])"
  by (simp add: in_step_def)

lemma local_send_numbered:
  assumes "cp_sockets p ws \<noteq> None"
  shows "\<exists>p'. cp_send_numbered f ws p = Some p' \<and> local_step ws p p'"
proof -
  obtain d where d: "cp_sockets p ws = Some d" using assms by blast
  let ?p = "cp_send ws (Numbered (cs_seq_num d) f) (cp_set_socket ws (d\<lparr>cs_seq_num := cs_seq_num d + 1\<rparr>) p)"
  have "local_step ws p ?p"
    by (rule local_stepI [OF d, of _ "d\<lparr>cs_seq_num := cs_seq_num d + 1\<rparr>"]) (simp_all add: cp_send_def cp_set_socket_def in_step_next)
  then show ?thesis by (simp add: cp_send_numbered_def d)
qed

lemma local_send_plain:
  assumes "cp_sockets p ws \<noteq> None" and "number_of f = []"
  shows "local_step ws p (cp_send ws f p)"
proof -
  obtain d where d: "cp_sockets p ws = Some d" using assms by blast
  show ?thesis by (rule local_stepI [OF d, of _ d]) (simp_all add: cp_send_def in_step_def assms(2) d map_upd_triv)
qed

lemma local_set_socket:
  assumes "cp_sockets p ws = Some d" and "cs_seq_num d' = cs_seq_num d" and "\<And>ch. sn_active (cs_subscription_info d' ch) = sn_active (cs_subscription_info d ch)"
  shows "local_step ws p (cp_set_socket ws d' p)"
  by (rule local_stepI [OF assms(1), of _ d']) (simp_all add: cp_set_socket_def in_step_def assms(2,3))

lemma local_open: "local_step ws p p' \<Longrightarrow> cp_sockets p' ws \<noteq> None"
  by (auto simp: local_step_def)

lemma local_send_each:
  assumes "cp_sockets p ws \<noteq> None" and "fs \<noteq> []"
  shows "\<exists>p'. serve_each (\<lambda>f. cp_send_numbered f ws) fs p = Some p' \<and> local_step ws p p'"
  using assms
proof (induction fs arbitrary: p)
  case (Cons f fs)
  obtain q where q: "cp_send_numbered f ws p = Some q" "local_step ws p q" using local_send_numbered [OF Cons.prems(1)] by blast
  show ?case
  proof (cases fs)
    case Nil
    then show ?thesis using q by simp
  next
    case (Cons g gs)
    then show ?thesis using Cons.IH [OF local_open [OF q(2)]] q local_trans by fastforce
  qed
qed simp

lemma local_serve_pending:
  assumes "cp_sockets p ws \<noteq> None"
  shows "\<exists>p'. cp_serve_pending C ch name sm um ws p = Some p' \<and> local_step ws p p'"
proof -
  obtain ud where ud: "cp_sockets p ws = Some ud" using assms by blast
  have self: "local_step ws p p" using local_set_socket [OF ud refl refl] ud by (simp add: cp_set_socket_def map_upd_triv)
  define sub where "sub = cs_subscription_info ud ch"
  define ud' where "ud' = ud\<lparr>cs_subscription_info := (cs_subscription_info ud)(ch := sub\<lparr>sn_pending := sn_pending sub - {name}, sn_received := sn_received sub @ [name]\<rparr>)\<rparr>"
  have set: "local_step ws p (cp_set_socket ws ud' p)" by (rule local_set_socket [OF ud]) (simp_all add: ud'_def sub_def)
  define fs where "fs = sm # (case um of None \<Rightarrow> [] | Some m \<Rightarrow> [m]) @ (if sn_pending sub - {name} = {} then [cp_confirmation C ch ud'] else [])"
  obtain q where q: "serve_each (\<lambda>f. cp_send_numbered f ws) fs (cp_set_socket ws ud' p) = Some q" "local_step ws (cp_set_socket ws ud' p) q"
    using local_send_each [OF local_open [OF set], of fs] by (auto simp: fs_def)
  have "cp_serve_pending C ch name sm um ws p = (if name \<in> sn_pending sub then Some q else Some p)"
    unfolding cp_serve_pending_def ud option.case Let_def sub_def [symmetric] ud'_def [symmetric] q(1) [symmetric] fs_def
    by (cases "name \<in> sn_pending sub") simp_all
  then show ?thesis using self local_trans [OF set q(2)] by auto
qed

section \<open>Connections\<close>

lemma cp_inv_open:
  assumes inv: "cp_inv C p" and new: "cp_sockets p ws = None"
  shows "cp_inv C (cp_open ws 0 now p)"
proof -
  let ?p = "cp_open ws 0 now p"
  have h: "holds ch name w ?p = holds ch name w p" for ch name w using new by (auto simp: holds_def cp_open_def cp_set_socket_def)
  have same: "cp_subscription_info ?p = cp_subscription_info p" "cp_symbol_channel_client ?p = cp_symbol_channel_client p"
    "cp_clients ?p = List.insert ws (cp_clients p)" by (simp_all add: cp_open_def cp_set_socket_def)
  have "in_step e (cp_sent_to ?p w) \<and> distinct (sn_active (cs_subscription_info e ch))" if "cp_sockets ?p w = Some e" for w e ch
    using that cp_invD(6,7) [OF inv, of w e] by (cases "w = ws") (auto simp: cp_open_def cp_set_socket_def in_step_def)
  moreover have "w \<in> set (cp_clients ?p) \<longleftrightarrow> cp_sockets ?p w \<noteq> None" for w
    using cp_invD(4) [OF inv, of w] by (simp add: same) (simp add: cp_open_def cp_set_socket_def)
  ultimately show ?thesis using inv unfolding cp_inv_def h same(1,2) by (simp add: same(3))
qed

lemma cp_inv_subscribe:
  assumes inv: "cp_inv C p" and ws: "cp_sockets p ws \<noteq> None" and ch: "used_channel C ch" and once: "\<not> holds ch name ws p"
  shows "\<exists>p'. cp_subscribe ws ch name p = Some p' \<and> cp_inv C p' \<and> cp_sockets p' ws \<noteq> None \<and>
    (\<forall>c n w. holds c n w p' \<longleftrightarrow> holds c n w p \<or> c = ch \<and> n = name \<and> w = ws)"
proof -
  obtain ud where ud: "cp_sockets p ws = Some ud" using ws by blast
  define ud' where "ud' = ud\<lparr>cs_subscription_info := (cs_subscription_info ud)(ch := (cs_subscription_info ud ch)
     \<lparr>sn_active := List.insert name (sn_active (cs_subscription_info ud ch)), sn_pending := insert name (sn_pending (cs_subscription_info ud ch))\<rparr>)\<rparr>"
  obtain p' where p': "cp_subscribe ws ch name p = Some p'" by (simp add: cp_subscribe_def ud Let_def)
  have eq: "cp_sockets p' = (cp_sockets p)(ws \<mapsto> ud')" "cp_sent_to p' = cp_sent_to p" "cp_clients p' = cp_clients p"
    "cp_subscription_info p' = (cp_subscription_info p)(ch := (cp_subscription_info p ch)(name := List.insert ws (cp_subscription_info p ch name)))"
    "cp_symbol_channel_client p' = (cp_symbol_channel_client p)(name := cp_symbol_channel_client p name @ [(ch, ws)])"
    using p' by (auto simp: cp_subscribe_def ud Let_def cp_set_socket_def ud'_def)
  have h: "holds c n w p' \<longleftrightarrow> holds c n w p \<or> c = ch \<and> n = name \<and> w = ws" for c n w using ud by (auto simp: holds_def eq ud'_def)
  have "count (mset (cp_symbol_channel_client p' n)) (c, w) = (if holds c n w p' then 1 else 0)" for c n w
    using cp_invD(2) [OF inv, of n c w] once unfolding h eq by (cases "n = name"; cases "(c, w) = (ch, ws)") (auto split: if_splits)
  moreover have "w \<in> set (cp_subscription_info p' c n) \<longleftrightarrow> holds c n w p'" for c n w using cp_invD(1) [OF inv] unfolding h by (auto simp: eq)
  moreover have "in_step e (cp_sent_to p' w) \<and> distinct (sn_active (cs_subscription_info e c))" if "cp_sockets p' w = Some e" for w e c
    using that cp_invD(6,7) [OF inv] ud by (cases "w = ws") (auto simp: eq ud'_def in_step_def)
  moreover have "w \<in> set (cp_clients p') \<longleftrightarrow> cp_sockets p' w \<noteq> None" for w using cp_invD(4) [OF inv] ud by (auto simp: eq)
  moreover have "used_channel C c" if "holds c n w p'" for c n w using that cp_invD(3) [OF inv] ch unfolding h by blast
  ultimately have "cp_inv C p'" using cp_invD(5) [OF inv] unfolding cp_inv_def by (simp add: eq(3))
  then show ?thesis using p' h eq(1) by simp
qed

fun text_of :: "text_member \<Rightarrow> string" where
  "text_of (TextMember s) = s"
| "text_of _ = []"

lemma cp_inv_subscribe_all:
  assumes "cp_inv C p" and "cp_sockets p ws \<noteq> None" and "used_channel C ch" and "\<forall>m\<in>set prods. \<exists>s. m = TextMember s"
    and "distinct prods" and "\<forall>m\<in>set prods. \<not> holds ch (text_of m) ws p"
  shows "\<exists>p'. cp_subscribe_all ws ch prods p = Some p' \<and> cp_inv C p'"
  using assms
proof (induction prods arbitrary: p)
  case (Cons m prods)
  obtain name where m: "m = TextMember name" using Cons.prems(4) by auto
  have "\<not> holds ch name ws p" using Cons.prems(6) m by simp
  then obtain q where q: "cp_subscribe ws ch name p = Some q" "cp_inv C q" "cp_sockets q ws \<noteq> None"
    "\<forall>c n w. holds c n w q \<longleftrightarrow> holds c n w p \<or> c = ch \<and> n = name \<and> w = ws"
    using cp_inv_subscribe [OF Cons.prems(1-3)] by blast
  have "\<forall>m\<in>set prods. \<not> holds ch (text_of m) ws q"
    using q(4) Cons.prems(4,5,6) m by (metis distinct.simps(2) list.set_intros(2) text_of.simps(1))
  then show ?case using Cons.IH [OF q(2,3) Cons.prems(3)] Cons.prems(4,5) m q(1) by simp
qed simp

text \<open>A message that can be read and asks for nothing the connection has already.\<close>

definition cp_readable :: "cp_channels \<Rightarrow> nat \<Rightarrow> CoinbasePublisher \<Rightarrow> cp_message \<Rightarrow> bool" where
  "cp_readable C ws p m = (case m of CpBadJson _ \<Rightarrow> True | CpNotObject \<Rightarrow> False
     | CpMessage type channel prods \<Rightarrow>
         if type = TextMember ''subscribe'' then (\<exists>c. channel = TextMember c) \<and> (\<forall>m\<in>set prods. \<exists>s. m = TextMember s) \<and> distinct prods \<and>
           (\<forall>ch. (channel = TextMember ''level2'' \<and> ch = ch_level2 C \<or> channel = TextMember ''market_trades'' \<and> ch = ch_market_trades C \<or>
                  channel = TextMember ''ticker'' \<and> ch = ch_ticker C) \<longrightarrow> (\<forall>m\<in>set prods. \<not> holds ch (text_of m) ws p))
         else text_value type \<noteq> None)"

lemma cp_inv_message:
  assumes inv: "cp_inv C p" and ws: "cp_sockets p ws \<noteq> None" and m: "cp_readable C ws p m"
  shows "\<exists>p'. cp_handle_message C ws m p = Some p' \<and> cp_inv C p'"
proof -
  have err: "cp_inv C (cp_send_error ws e p)" for e
    unfolding cp_send_error_def by (rule local_inv(1) [OF inv local_send_plain [OF ws]]) simp
  obtain ud where ud: "cp_sockets p ws = Some ud" using ws by blast
  have client: "ws \<in> set (cp_clients p)" using cp_invD(4) [OF inv] ws by simp
  show ?thesis
  proof (cases m)
    case (CpMessage type channel prods)
    show ?thesis
    proof (cases "type = TextMember ''subscribe''")
      case True
      then obtain c where c: "channel = TextMember c" and pr: "\<forall>m\<in>set prods. \<exists>s. m = TextMember s" "distinct prods"
        using m by (auto simp: cp_readable_def CpMessage)
      have new: "\<forall>m\<in>set prods. \<not> holds ch (text_of m) ws p"
        if "c = ''level2'' \<and> ch = ch_level2 C \<or> c = ''market_trades'' \<and> ch = ch_market_trades C \<or> c = ''ticker'' \<and> ch = ch_ticker C" for ch
        using m that by (auto simp: cp_readable_def CpMessage True c)
      have sub: "\<exists>p'. cp_subscribe_all ws ch prods p = Some p' \<and> cp_inv C p'"
        if "c = ''level2'' \<and> ch = ch_level2 C \<or> c = ''market_trades'' \<and> ch = ch_market_trades C \<or> c = ''ticker'' \<and> ch = ch_ticker C" for ch
        by (rule cp_inv_subscribe_all [OF inv ws _ pr new [OF that]]) (use that in \<open>auto simp: used_channel_def\<close>)
      have set: "local_step ws p (cp_set_socket ws (ud\<lparr>cs_subscribed_heartbeat := True\<rparr>) p)" by (rule local_set_socket [OF ud]) simp_all
      have hb: "\<exists>p'. cp_send_numbered CpHeartbeatsSubscribed ws (cp_set_socket ws (ud\<lparr>cs_subscribed_heartbeat := True\<rparr>) p) = Some p' \<and> cp_inv C p'"
        using local_send_numbered [OF local_open [OF set], of CpHeartbeatsSubscribed] local_inv(1) [OF inv local_trans [OF set]] by blast
      have some: "\<exists>p'. Some q = Some p' \<and> cp_inv C p'" if "cp_inv C q" for q using that by blast
      have run: "cp_handle_message C ws m p =
          (if c = ''level2'' then cp_subscribe_all ws (ch_level2 C) prods p
           else if c = ''market_trades'' then cp_subscribe_all ws (ch_market_trades C) prods p
           else if c = ''ticker'' then cp_subscribe_all ws (ch_ticker C) prods p
           else if c = ''heartbeats'' then cp_send_numbered CpHeartbeatsSubscribed ws (cp_set_socket ws (ud\<lparr>cs_subscribed_heartbeat := True\<rparr>) p)
           else Some (cp_send_error ws (''channel `'' @ c @ ''` is not supported'') p))"
        unfolding cp_handle_message_def CpMessage cp_message.case True ud option.case Let_def c text_member.case
        using client ud by (simp only: simp_thms if_True if_False Option.bind.simps)
      show ?thesis unfolding run if_split [of "\<lambda>v. \<exists>p'. v = Some p' \<and> cp_inv C p'"]
        by (intro conjI impI hb some err) (rule sub, blast)+
    next
      case False
      then obtain ty where "text_value type = Some ty" using m by (auto simp: cp_readable_def CpMessage)
      then show ?thesis using False err by (simp add: cp_handle_message_def CpMessage)
    qed
  qed (use m err in \<open>simp_all add: cp_handle_message_def cp_readable_def\<close>)
qed

section \<open>Publishing\<close>

lemma cp_inv_broadcast:
  assumes inv: "cp_inv C p"
  shows "\<exists>p'. serve_each (cp_send_numbered f) (subscribers ch name p) p = Some p' \<and> cp_inv C p'"
  by (rule serve_local [OF inv]) (use subscribers_iff(1) [OF inv] holds_open local_send_numbered in blast)+

lemma broadcast_frames:
  assumes "\<forall>ws\<in>set wss. cp_sockets p ws \<noteq> None" and "distinct wss"
  shows "\<exists>p'. serve_each (cp_send_numbered f) wss p = Some p' \<and>
    (\<forall>ws. cp_sent_to p' ws = cp_sent_to p ws @ (if ws \<in> set wss then [Numbered (cs_seq_num (the (cp_sockets p ws))) f] else []))"
  using assms
proof (induction wss arbitrary: p)
  case (Cons w wss)
  obtain d where d: "cp_sockets p w = Some d" using Cons.prems(1) by auto
  let ?q = "cp_send w (Numbered (cs_seq_num d) f) (cp_set_socket w (d\<lparr>cs_seq_num := cs_seq_num d + 1\<rparr>) p)"
  have q: "cp_send_numbered f w p = Some ?q" by (simp add: cp_send_numbered_def d)
  have "\<forall>ws\<in>set wss. cp_sockets ?q ws \<noteq> None" using Cons.prems(1) by (simp add: cp_send_def cp_set_socket_def)
  then obtain p' where p': "serve_each (cp_send_numbered f) wss ?q = Some p'"
    "\<forall>ws. cp_sent_to p' ws = cp_sent_to ?q ws @ (if ws \<in> set wss then [Numbered (cs_seq_num (the (cp_sockets ?q ws))) f] else [])"
    using Cons.IH [of ?q] Cons.prems(2) by auto
  have "cp_sent_to p' ws = cp_sent_to p ws @ (if ws \<in> set (w # wss) then [Numbered (cs_seq_num (the (cp_sockets p ws))) f] else [])" for ws
    using p'(2) [rule_format, of ws] d Cons.prems(2) by (auto simp: cp_send_def cp_set_socket_def)
  then show ?case using q p'(1) by simp
qed simp

definition cp_frame_ok :: "cp_channels \<Rightarrow> MarketDataUpdate \<Rightarrow> bool" where
  "cp_frame_ok C u = (case md_type u of
      MD_SUB_RESPONSE \<Rightarrow> (case md_body u of
          RejectBody n reason \<Rightarrow> n < ch_count C \<and> reason \<noteq> SR_NONE
        | SubSnapshotBody n _ \<Rightarrow> n = ch_level2 C
        | TradeSnapshotBody n _ _ _ \<Rightarrow> n = ch_market_trades C
        | _ \<Rightarrow> False)
    | MD_BOOK_SNAPSHOT \<Rightarrow> (case md_body u of SnapshotBody _ \<Rightarrow> True | _ \<Rightarrow> False)
    | MD_LEVEL \<Rightarrow> (case md_body u of LevelBody _ \<Rightarrow> True | _ \<Rightarrow> False)
    | MD_TRADE_SUMMARY \<Rightarrow> (case md_body u of TradeSummaryBody _ \<Rightarrow> True | _ \<Rightarrow> False)
    | _ \<Rightarrow> True)"

lemma cp_inv_response:
  assumes C: "channels_ok C" and inv: "cp_inv C p" and ok: "cp_frame_ok C u" "md_type u = MD_SUB_RESPONSE"
  shows "\<exists>p'. cp_publish_subscription_response C (md_symbol u) (md_body u) p = Some p' \<and> cp_inv C p'"
proof -
  have opened: "\<forall>ws\<in>set (cp_subscription_info p ch name). cp_sockets p ws \<noteq> None" for ch name using cp_invD(1) [OF inv] holds_open by blast
  have serve: "\<exists>p'. serve_each (cp_serve_pending C ch name sm um) (cp_subscription_info p ch name) p = Some p' \<and> cp_inv C p'" for ch name sm um
    by (rule serve_local [OF inv opened]) (rule local_serve_pending)
  have err: "\<exists>p'. serve_each (cp_send_error_open e) (cp_subscription_info p ch name) p = Some p' \<and> cp_inv C p'" for ch name e
    by (rule serve_local [OF inv opened]) (use local_send_plain in \<open>auto simp: cp_send_error_open_def cp_send_error_def\<close>)
  have nil: "\<exists>p'. serve_each f [] p = Some p' \<and> cp_inv C p'" for f :: "nat \<Rightarrow> CoinbasePublisher \<Rightarrow> CoinbasePublisher option" using inv by simp
  have lt: "ch_level2 C < ch_count C" "ch_market_trades C < ch_count C" "ch_market_trades C \<noteq> ch_level2 C" using C by (auto simp: channels_ok_def)
  show ?thesis
  proof (cases "md_body u")
    case (RejectBody n reason)
    then have n: "n < ch_count C" "reason \<noteq> SR_NONE" using ok by (simp_all add: cp_frame_ok_def)
    then have c: "(ch_count C \<le> n) = False" "(reason = SR_NONE) = False" by simp_all
    show ?thesis
    proof (cases "cp_subscription_info p n (md_symbol u) = []")
      case True
      then show ?thesis using inv by (simp add: cp_publish_subscription_response_def RejectBody c)
    next
      case False
      then show ?thesis unfolding cp_publish_subscription_response_def RejectBody md_body.case Let_def c by (simp only: if_False) (rule err)
    qed
  next
    case (SubSnapshotBody n snapshot)
    then have n: "n = ch_level2 C" using ok by (simp add: cp_frame_ok_def)
    show ?thesis unfolding cp_publish_subscription_response_def SubSnapshotBody md_body.case Let_def n
      using lt serve inv by (cases "cp_subscription_info p (ch_level2 C) (md_symbol u) = []") simp_all
  next
    case (TradeSnapshotBody n ns nu trades)
    then have n: "n = ch_market_trades C" using ok by (simp add: cp_frame_ok_def)
    show ?thesis unfolding cp_publish_subscription_response_def TradeSnapshotBody md_body.case Let_def n
      using lt serve inv by (cases "cp_subscription_info p (ch_market_trades C) (md_symbol u) = []") simp_all
  qed (use ok in \<open>simp_all add: cp_frame_ok_def\<close>)
qed

lemma cp_inv_update:
  assumes C: "channels_ok C" and inv: "cp_inv C p" and ok: "cp_frame_ok C u"
  shows "\<exists>p'. cp_publish_market_data_update C u p = Some p' \<and> cp_inv C p'"
proof -
  note b = cp_inv_broadcast [OF inv]
  have user: "subscribers (ch_user C) (md_symbol u) p = []"
  proof -
    have "\<not> used_channel C (ch_user C)" using C by (auto simp: channels_ok_def used_channel_def)
    then have "ws \<notin> set (subscribers (ch_user C) (md_symbol u) p)" for ws using subscribers_iff(1) [OF inv] cp_invD(3) [OF inv] by blast
    then show ?thesis by (metis last_in_set)
  qed
  show ?thesis
  proof (cases "md_type u")
    case MD_SUB_RESPONSE
    then show ?thesis using cp_inv_response [OF C inv ok] by (simp add: cp_publish_market_data_update_def)
  next
    case MD_LEVEL
    then show ?thesis using ok b by (auto simp: cp_publish_market_data_update_def cp_frame_ok_def cp_publish_level_update_def split: md_body.splits)
  next
    case MD_BOOK_SNAPSHOT
    then show ?thesis using ok b by (auto simp: cp_publish_market_data_update_def cp_frame_ok_def cp_publish_level_snapshot_def split: md_body.splits)
  next
    case MD_TRADE_SUMMARY
    then show ?thesis using ok b by (auto simp: cp_publish_market_data_update_def cp_frame_ok_def cp_publish_trade_summary_def split: md_body.splits)
  qed (use inv user in \<open>simp_all add: cp_publish_market_data_update_def cp_publish_order_update_def\<close>)
qed

section \<open>Leaving\<close>

lemma cp_drop_names:
  assumes "distinct names"
  shows "let p' = foldl (\<lambda>p name. cp_drop_subscription ws ch name p) p names in
    cp_sockets p' = cp_sockets p \<and> cp_sent_to p' = cp_sent_to p \<and> cp_clients p' = cp_clients p \<and>
    (\<forall>c n w. count (mset (cp_symbol_channel_client p' n)) (c, w) =
       count (mset (cp_symbol_channel_client p n)) (c, w) - (if c = ch \<and> w = ws \<and> n \<in> set names then 1 else 0)) \<and>
    (\<forall>c n w. w \<in> set (cp_subscription_info p' c n) \<longleftrightarrow> w \<in> set (cp_subscription_info p c n) \<and> \<not> (c = ch \<and> w = ws \<and> n \<in> set names))"
  using assms
proof (induction names arbitrary: p)
  case (Cons name names)
  let ?q = "cp_drop_subscription ws ch name p"
  have q: "cp_sockets ?q = cp_sockets p" "cp_sent_to ?q = cp_sent_to p" "cp_clients ?q = cp_clients p"
    "count (mset (cp_symbol_channel_client ?q n)) (c, w) = count (mset (cp_symbol_channel_client p n)) (c, w) - (if c = ch \<and> w = ws \<and> n = name then 1 else 0)"
    "w \<in> set (cp_subscription_info ?q c n) \<longleftrightarrow> w \<in> set (cp_subscription_info p c n) \<and> \<not> (c = ch \<and> w = ws \<and> n = name)" for c n w
    by (auto simp: cp_drop_subscription_def)
  from Cons.IH [of ?q] Cons.prems show ?case unfolding Let_def foldl_Cons q by auto
qed (simp add: Let_def)

lemma cp_unsubscribe_effect:
  assumes "\<And>ch. distinct (sn_active (cs_subscription_info ud ch))" and "distinct chs"
  shows "let p' = foldl (\<lambda>p ch. foldl (\<lambda>p name. cp_drop_subscription ws ch name p) p (sn_active (cs_subscription_info ud ch))) p chs in
    cp_sockets p' = cp_sockets p \<and> cp_sent_to p' = cp_sent_to p \<and> cp_clients p' = cp_clients p \<and>
    (\<forall>c n w. count (mset (cp_symbol_channel_client p' n)) (c, w) = count (mset (cp_symbol_channel_client p n)) (c, w) -
       (if c \<in> set chs \<and> w = ws \<and> n \<in> set (sn_active (cs_subscription_info ud c)) then 1 else 0)) \<and>
    (\<forall>c n w. w \<in> set (cp_subscription_info p' c n) \<longleftrightarrow> w \<in> set (cp_subscription_info p c n) \<and>
       \<not> (c \<in> set chs \<and> w = ws \<and> n \<in> set (sn_active (cs_subscription_info ud c))))"
  using assms(2)
proof (induction chs arbitrary: p)
  case (Cons ch chs)
  let ?q = "foldl (\<lambda>p name. cp_drop_subscription ws ch name p) p (sn_active (cs_subscription_info ud ch))"
  note q = cp_drop_names [OF assms(1) [of ch], of ws ch p, unfolded Let_def]
  from Cons.IH [of ?q] Cons.prems q show ?case unfolding Let_def foldl_Cons by auto
qed (simp add: Let_def)

lemma cp_inv_close:
  assumes C: "channels_ok C" and inv: "cp_inv C p" and ud: "cp_sockets p ws = Some ud"
    and clients: "cl = cp_clients p \<or> cl = removeAll ws (cp_clients p)"
  shows "\<exists>p'. cp_handle_close C ws (p\<lparr>cp_clients := cl\<rparr>) = Some p' \<and> cp_inv C p' \<and> cp_sockets p' = (cp_sockets p)(ws := None)"
proof -
  let ?p = "p\<lparr>cp_clients := cl\<rparr>" and ?u = "cp_unsubscribe_md C ws ud (p\<lparr>cp_clients := cl\<rparr>)"
  define p' where "p' = ?u\<lparr>cp_clients := removeAll ws cl, cp_sockets := (cp_sockets p)(ws := None)\<rparr>"
  note u = cp_unsubscribe_effect [where chs = "[0..<ch_count C]" and ws = ws and p = ?p, OF cp_invD(7) [OF inv ud] distinct_upt, unfolded cp_unsubscribe_md_def [symmetric] Let_def]
  have uc: "count (mset (cp_symbol_channel_client ?u n)) (c, w) = count (mset (cp_symbol_channel_client ?p n)) (c, w) -
       (if c \<in> set [0..<ch_count C] \<and> w = ws \<and> n \<in> set (sn_active (cs_subscription_info ud c)) then 1 else 0)" for c n w using u by blast
  have um: "w \<in> set (cp_subscription_info ?u c n) \<longleftrightarrow> w \<in> set (cp_subscription_info ?p c n) \<and>
       \<not> (c \<in> set [0..<ch_count C] \<and> w = ws \<and> n \<in> set (sn_active (cs_subscription_info ud c)))" for c n w using u by blast
  have us: "cp_sent_to ?u = cp_sent_to ?p" using u by blast
  have used: "holds c n w p \<Longrightarrow> c < ch_count C" for c n w using cp_invD(3) [OF inv] C by (auto simp: used_channel_def channels_ok_def)
  have act: "n \<in> set (sn_active (cs_subscription_info ud c)) \<longleftrightarrow> holds c n ws p" for c n by (simp add: holds_def ud)
  have h: "holds c n w p' \<longleftrightarrow> holds c n w p \<and> w \<noteq> ws" for c n w by (auto simp: holds_def p'_def)
  have tables: "cp_symbol_channel_client p' = cp_symbol_channel_client ?u" "cp_subscription_info p' = cp_subscription_info ?u"
    "cp_symbol_channel_client ?p = cp_symbol_channel_client p" "cp_subscription_info ?p = cp_subscription_info p" by (simp_all add: p'_def)
  have cnt: "count (mset (cp_symbol_channel_client p' n)) (c, w) = (if holds c n w p' then 1 else 0)" for c n w
    using used [of c n w] unfolding tables(1) uc act h tables(3) cp_invD(2) [OF inv] by (cases "holds c n w p"; cases "w = ws") simp_all
  have mem: "w \<in> set (cp_subscription_info p' c n) \<longleftrightarrow> holds c n w p'" for c n w
    using used [of c n w] unfolding tables(2) um act h tables(4) cp_invD(1) [OF inv] by (cases "holds c n w p"; cases "w = ws") simp_all
  have socks: "cp_sockets p' = (cp_sockets p)(ws := None)" "cp_clients p' = removeAll ws (cp_clients p)" "cp_sent_to p' = cp_sent_to p"
    using clients us by (auto simp: p'_def)
  have "w \<in> set (cp_clients p') \<longleftrightarrow> cp_sockets p' w \<noteq> None" for w using cp_invD(4) [OF inv] by (auto simp: socks)
  moreover have "in_step e (cp_sent_to p' w) \<and> distinct (sn_active (cs_subscription_info e c))" if "cp_sockets p' w = Some e" for w e c
    using that cp_invD(6,7) [OF inv, of w e] by (auto simp: socks split: if_splits)
  moreover have "used_channel C c" if "holds c n w p'" for c n w using that cp_invD(3) [OF inv] h by blast
  ultimately have "cp_inv C p'" using cnt mem cp_invD(5) [OF inv] unfolding cp_inv_def by (simp add: socks(2) distinct_removeAll)
  then show ?thesis by (simp add: cp_handle_close_def ud p'_def)
qed

lemma cp_inv_heartbeats:
  assumes C: "channels_ok C" and "cp_inv C p" and "\<forall>ws\<in>set wss. cp_sockets p ws \<noteq> None" and "distinct wss"
  shows "\<exists>p'. serve_each (cp_check_client C now) wss p = Some p' \<and> cp_inv C p'"
  using assms(2-)
proof (induction wss arbitrary: p)
  case (Cons w wss)
  then obtain ud where ud: "cp_sockets p w = Some ud" by auto
  have "\<exists>q. cp_check_client C now w p = Some q \<and> cp_inv C q \<and> (\<forall>v. v \<noteq> w \<longrightarrow> cp_sockets q v = cp_sockets p v)"
  proof (cases "(now - cs_last_pong ud) div 1000000000 > 60")
    case True
    then show ?thesis using cp_inv_close [OF C Cons.prems(1) ud disjI2 [OF refl]] by (auto simp: cp_check_client_def ud)
  next
    case False
    let ?b = "p\<lparr>cp_heartbeat_count := cp_heartbeat_count p + 1\<rparr>"
    have "local_step w p ?b" by (rule local_stepI [OF ud, of _ ud]) (simp_all add: ud map_upd_triv)
    moreover obtain q where q: "cp_send_numbered (CpHeartbeat (cp_heartbeat_count p)) w ?b = Some q" "local_step w ?b q"
      using local_send_numbered [of ?b w] ud by auto
    ultimately have l: "local_step w p q" using local_trans by blast
    have self: "local_step w p p" by (rule local_stepI [OF ud, of _ ud]) (simp_all add: ud map_upd_triv)
    let ?r = "if cs_subscribed_heartbeat ud then q else p"
    have r: "local_step w p ?r" using l self by simp
    have "local_step w p (cp_send w CpPing ?r)" by (rule local_trans [OF r local_send_plain [OF local_open [OF r]]]) simp
    moreover have "cp_check_client C now w p = Some (cp_send w CpPing ?r)" using False q(1) by (simp add: cp_check_client_def ud)
    moreover have "cp_sockets (cp_send w CpPing ?r) v = cp_sockets p v" if "v \<noteq> w" for v
      using r that by (auto simp: local_step_def cp_send_def)
    ultimately show ?thesis using local_inv(1) [OF Cons.prems(1)] by blast
  qed
  then obtain q where q: "cp_check_client C now w p = Some q" "cp_inv C q" "\<And>v. v \<noteq> w \<Longrightarrow> cp_sockets q v = cp_sockets p v" by blast
  have "\<forall>ws\<in>set wss. cp_sockets q ws \<noteq> None" using Cons.prems(2,3) q(3) by (metis distinct.simps(2) list.set_intros(2))
  from Cons.IH [OF q(2) this] Cons.prems(3) q(1) show ?case by simp
qed simp

section \<open>Histories\<close>

datatype cp_event = CpOpened nat "64 word" nat | CpReceived nat cp_message | CpPonged nat nat | CpClosed nat | CpHeartbeats nat | CpPublished MarketDataUpdate

fun cp_step :: "cp_channels \<Rightarrow> cp_event \<Rightarrow> CoinbasePublisher \<Rightarrow> CoinbasePublisher option" where
  "cp_step C (CpOpened ws seq0 now) p = Some (cp_open ws seq0 now p)"
| "cp_step C (CpReceived ws m) p = cp_handle_message C ws m p"
| "cp_step C (CpPonged ws now) p = cp_pong ws now p"
| "cp_step C (CpClosed ws) p = cp_handle_close C ws p"
| "cp_step C (CpHeartbeats now) p = cp_check_heartbeats C now p"
| "cp_step C (CpPublished u) p = cp_publish_market_data_update C u p"

fun cp_run :: "cp_channels \<Rightarrow> cp_event list \<Rightarrow> CoinbasePublisher \<Rightarrow> CoinbasePublisher option" where
  "cp_run C [] p = Some p"
| "cp_run C (e # es) p = Option.bind (cp_step C e p) (cp_run C es)"

text \<open>
  A connection is opened once with its data zeroed, used while open, and subscribes once to a product of a
  channel; frames are as the exchange makes them.
\<close>

fun cp_allowed :: "cp_channels \<Rightarrow> cp_event \<Rightarrow> CoinbasePublisher \<Rightarrow> bool" where
  "cp_allowed C (CpOpened ws seq0 now) p \<longleftrightarrow> cp_sockets p ws = None \<and> seq0 = 0"
| "cp_allowed C (CpReceived ws m) p \<longleftrightarrow> cp_sockets p ws \<noteq> None \<and> cp_readable C ws p m"
| "cp_allowed C (CpPonged ws now) p \<longleftrightarrow> cp_sockets p ws \<noteq> None"
| "cp_allowed C (CpClosed ws) p \<longleftrightarrow> cp_sockets p ws \<noteq> None"
| "cp_allowed C (CpHeartbeats now) p \<longleftrightarrow> True"
| "cp_allowed C (CpPublished u) p \<longleftrightarrow> cp_frame_ok C u"

fun cp_all_allowed :: "cp_channels \<Rightarrow> cp_event list \<Rightarrow> CoinbasePublisher \<Rightarrow> bool" where
  "cp_all_allowed C [] p \<longleftrightarrow> True"
| "cp_all_allowed C (e # es) p \<longleftrightarrow> cp_allowed C e p \<and> (case cp_step C e p of None \<Rightarrow> True | Some p' \<Rightarrow> cp_all_allowed C es p')"

lemma cp_step_inv:
  assumes C: "channels_ok C" and inv: "cp_inv C p" and e: "cp_allowed C e p"
  shows "\<exists>p'. cp_step C e p = Some p' \<and> cp_inv C p'"
proof (cases e)
  case (CpOpened ws seq0 now)
  then show ?thesis using cp_inv_open [OF inv] e by simp
next
  case (CpReceived ws m)
  then show ?thesis using cp_inv_message [OF inv] e by simp
next
  case (CpPonged ws now)
  then obtain d where d: "cp_sockets p ws = Some d" using e by auto
  have "local_step ws p (cp_set_socket ws (d\<lparr>cs_last_pong := now\<rparr>) p)" by (rule local_set_socket [OF d]) simp_all
  then show ?thesis using local_inv(1) [OF inv] d by (simp add: CpPonged cp_pong_def)
next
  case (CpClosed ws)
  then obtain d where d: "cp_sockets p ws = Some d" using e by auto
  show ?thesis using cp_inv_close [OF C inv d disjI1 [OF refl]] by (auto simp: CpClosed)
next
  case (CpHeartbeats now)
  have "\<forall>ws\<in>set (cp_clients p). cp_sockets p ws \<noteq> None" using cp_invD(4) [OF inv] by blast
  from cp_inv_heartbeats [OF C inv this cp_invD(5) [OF inv]] show ?thesis by (simp add: CpHeartbeats cp_check_heartbeats_def)
next
  case (CpPublished u)
  then show ?thesis using cp_inv_update [OF C inv] e by simp
qed

lemma cp_run_inv:
  assumes "channels_ok C" and "cp_inv C p" and "cp_all_allowed C es p"
  shows "\<exists>p'. cp_run C es p = Some p' \<and> cp_inv C p'"
  using assms(2,3)
proof (induction es arbitrary: p)
  case (Cons e es)
  obtain q where "cp_step C e p = Some q" "cp_inv C q" using cp_step_inv [OF assms(1) Cons.prems(1)] Cons.prems(2) by auto
  then show ?case using Cons.IH [of q] Cons.prems(2) by simp
qed simp

text \<open>
  C20. Each update once, in sequence. Take every history in which connections are opened once, with their counter at 0, and
  used while open, no connection subscribes twice to a product of a channel, every message is readable (bad JSON, or an
  object whose members are the texts the handler reads), and the exchange's frames have the bodies their types announce. Then
  no handler fails or touches a closed socket; what a connection has been sent carries the
  numbers 0, 1, 2 and so on; and a level update adds to it exactly one frame, with the next number and
  the levels of the update, if the connection subscribed to the product's level channel, and nothing
  otherwise. The source leaves the counter of a new connection uninitialised, so that it starts at 0 is an
  assumption; a message that is JSON but not an object raises an exception the handler does not catch, so that messages
  are readable is one too.
\<close>

theorem coinbase_updates_once:
  assumes "channels_ok C" and "cp_all_allowed C es new_cb_publisher" and "md_type u = MD_LEVEL" and "md_body u = LevelBody levels"
  shows "\<exists>p p'. cp_run C es new_cb_publisher = Some p \<and> cp_publish_market_data_update C u p = Some p' \<and>
    (\<forall>ws d. cp_sockets p ws = Some d \<longrightarrow>
       numbers (cp_sent_to p ws) = map of_nat [0..<length (numbers (cp_sent_to p ws))] \<and>
       cp_sent_to p' ws = cp_sent_to p ws @
         (if md_symbol u \<in> set (sn_active (cs_subscription_info d (ch_level2 C)))
          then [Numbered (of_nat (length (numbers (cp_sent_to p ws)))) (CpLevels ''update'' (md_symbol u) (map level_update_row levels))] else []))"
proof -
  obtain p where p: "cp_run C es new_cb_publisher = Some p" "cp_inv C p" using cp_run_inv [OF assms(1) cp_inv_new assms(2)] by blast
  let ?wss = "subscribers (ch_level2 C) (md_symbol u) p" and ?f = "CpLevels ''update'' (md_symbol u) (map level_update_row levels)"
  note s = subscribers_iff [OF p(2), where ch = "ch_level2 C" and name = "md_symbol u"]
  have "\<forall>ws\<in>set ?wss. cp_sockets p ws \<noteq> None" using s(1) holds_open by blast
  then obtain p' where p': "serve_each (cp_send_numbered ?f) ?wss p = Some p'"
    "\<forall>ws. cp_sent_to p' ws = cp_sent_to p ws @ (if ws \<in> set ?wss then [Numbered (cs_seq_num (the (cp_sockets p ws))) ?f] else [])"
    using broadcast_frames s(2) by blast
  have "cp_publish_market_data_update C u p = Some p'"
    using p'(1) by (simp add: cp_publish_market_data_update_def cp_publish_level_update_def assms(3,4))
  moreover have "numbers (cp_sent_to p ws) = map of_nat [0..<length (numbers (cp_sent_to p ws))]" "cs_seq_num d = of_nat (length (numbers (cp_sent_to p ws)))"
    "ws \<in> set ?wss \<longleftrightarrow> md_symbol u \<in> set (sn_active (cs_subscription_info d (ch_level2 C)))" if "cp_sockets p ws = Some d" for ws d
    using cp_invD(6) [OF p(2) that] s(1) [of ws] that by (auto simp: in_step_def holds_def)
  ultimately show ?thesis using p(1) p'(2) by (intro exI [of _ p] exI [of _ p']) simp
qed

definition ex_channels :: cp_channels where
  "ex_channels = \<lparr>ch_level2 = 0, ch_market_trades = 1, ch_heartbeats = 2, ch_ticker = 3, ch_user = 4, ch_count = 5, ch_name = (\<lambda>_. [])\<rparr>"

definition ex_subscribe :: "nat \<Rightarrow> cp_event" where
  "ex_subscribe ws = CpReceived ws (CpMessage (TextMember ''subscribe'') (TextMember ''level2'') [TextMember ''BTC-USD''])"

definition ex_level_update :: MarketDataUpdate where
  "ex_level_update = \<lparr>md_symbol = ''BTC-USD'', md_venue = COINBASE, md_type = MD_LEVEL, md_body = LevelBody []\<rparr>"

lemmas ex_cb_publisher = ex_subscribe_def ex_channels_def ex_level_update_def cp_open_def cp_set_socket_def cp_handle_message_def cp_subscribe_def
  new_cb_publisher_def Let_def cp_readable_def holds_def cp_publish_market_data_update_def cp_publish_level_update_def subscribers_def cp_send_numbered_def
  cp_send_def

theorem coinbase_updates_once_witness:
  "\<exists>p p'. cp_run ex_channels [CpOpened 1 0 0, CpOpened 2 0 0, ex_subscribe 1] new_cb_publisher = Some p \<and>
     cp_publish_market_data_update ex_channels ex_level_update p = Some p' \<and>
     cp_sent_to p' 1 = [Numbered 0 (CpLevels ''update'' ''BTC-USD'' [])] \<and> cp_sent_to p' 2 = []"
proof -
  let ?es = "[CpOpened 1 0 0, CpOpened 2 0 0, ex_subscribe 1]"
  have C: "channels_ok ex_channels" by (simp add: channels_ok_def ex_channels_def)
  have a: "cp_all_allowed ex_channels ?es new_cb_publisher" by (simp add: ex_cb_publisher)
  have u: "md_type ex_level_update = MD_LEVEL" "md_body ex_level_update = LevelBody []" "md_symbol ex_level_update = ''BTC-USD''"
    by (simp_all add: ex_level_update_def)
  obtain p p' where r: "cp_run ex_channels ?es new_cb_publisher = Some p" "cp_publish_market_data_update ex_channels ex_level_update p = Some p'"
    "\<forall>ws d. cp_sockets p ws = Some d \<longrightarrow> cp_sent_to p' ws = cp_sent_to p ws @ (if ''BTC-USD'' \<in> set (sn_active (cs_subscription_info d (ch_level2 ex_channels)))
       then [Numbered (of_nat (length (numbers (cp_sent_to p ws)))) (CpLevels ''update'' ''BTC-USD'' [])] else [])"
    using coinbase_updates_once [OF C a u(1,2)] u(3) by auto
  have p: "\<exists>d. cp_sockets p 1 = Some d \<and> ''BTC-USD'' \<in> set (sn_active (cs_subscription_info d (ch_level2 ex_channels)))"
    "\<exists>d. cp_sockets p 2 = Some d \<and> ''BTC-USD'' \<notin> set (sn_active (cs_subscription_info d (ch_level2 ex_channels)))"
    "cp_sent_to p 1 = []" "cp_sent_to p 2 = []" using r(1) by (auto simp: ex_cb_publisher)
  then show ?thesis using r by fastforce
qed

text \<open>
  A connection that subscribes twice is listed twice: it is sent every update twice, and when it closes only
  one entry is erased, so that the next update goes to a socket that no longer exists.
\<close>

theorem repeated_subscription_dangles:
  "\<exists>p p' q. cp_run ex_channels [CpOpened 1 0 0, ex_subscribe 1, ex_subscribe 1] new_cb_publisher = Some p \<and>
     cp_publish_market_data_update ex_channels ex_level_update p = Some p' \<and>
     cp_sent_to p' 1 = [Numbered 0 (CpLevels ''update'' ''BTC-USD'' []), Numbered 1 (CpLevels ''update'' ''BTC-USD'' [])] \<and>
     cp_handle_close ex_channels 1 p = Some q \<and> cp_publish_market_data_update ex_channels ex_level_update q = None"
  by (simp add: ex_cb_publisher cp_handle_close_def cp_unsubscribe_md_def cp_drop_subscription_def upt_rec)

end
