(* ===== verification/Sequenced_Message.thy ===== *)
theory Sequenced_Message
  imports Sim_Types "HOL-Library.Sublist"
begin

text \<open>
  \<open>src/src/market_data_publisher/sequenced_message.hpp\<close>: a payload serialised once and stamped with each
  subscriber's own number. The text of a document is the JSON library's, a parameter.
\<close>

section \<open>Definitions\<close>

definition sequence_key :: string where
  "sequence_key = CHR 0x22 # ''sequence_num'' @ [CHR 0x22, CHR '':'']"

text \<open>\<open>std::string::find\<close>.\<close>

fun find_text :: "string \<Rightarrow> string \<Rightarrow> nat \<Rightarrow> nat option" where
  "find_text key [] at = (if key = [] then Some at else None)"
| "find_text key (c # cs) at = (if prefix key (c # cs) then Some at else find_text key cs (at + 1))"

definition is_digit :: "char \<Rightarrow> bool" where
  "is_digit c \<longleftrightarrow> of_char c \<ge> (48 :: nat) \<and> of_char c \<le> (57 :: nat)"

record SequencedMessage =
  sm_prefix :: string
  sm_suffix :: string
  sm_sequenced :: bool

text \<open>\<open>text\<close> is the dump of the document with the number 0.\<close>

definition sequenced_message :: "string \<Rightarrow> SequencedMessage" where
  "sequenced_message text = (case find_text sequence_key text 0 of
      None \<Rightarrow> \<lparr>sm_prefix = text, sm_suffix = [], sm_sequenced = False\<rparr>
    | Some at \<Rightarrow>
        (let value_at = at + length sequence_key
         in \<lparr>sm_prefix = take value_at text, sm_suffix = dropWhile is_digit (drop value_at text), sm_sequenced = True\<rparr>))"

definition render :: "SequencedMessage \<Rightarrow> nat \<Rightarrow> string" where
  "render m sequence_num = (if \<not> sm_sequenced m then sm_prefix m else sm_prefix m @ to_string_nat sequence_num @ sm_suffix m)"

section \<open>Facts\<close>

lemma digit_char_is_digit: "d < 10 \<Longrightarrow> is_digit (digit_char d)"
  by (simp add: is_digit_def digit_char_def)

lemma to_string_digits: "c \<in> set (to_string_nat n) \<Longrightarrow> is_digit c"
proof (induction n rule: to_string_nat.induct)
  case (1 n)
  then show ?case by (subst (asm) (2) to_string_nat.simps) (auto simp: digit_char_is_digit split: if_splits)
qed

text \<open>An occurrence that starts in a text ending in a character the key does not have would lie in that text.\<close>

lemma no_overlap:
  assumes "last pre \<notin> set key" and "pre \<noteq> []" and "prefix key (pre @ rest)"
  shows "prefix key pre"
proof (rule ccontr)
  assume "\<not> prefix key pre"
  then have "prefix pre key" using assms(3) prefix_same_cases [of key "pre @ rest" pre] by auto
  then have "set pre \<subseteq> set key" by (auto simp: prefix_def)
  then show False using assms(1,2) last_in_set by blast
qed

lemma find_text_first:
  assumes "\<not> sublist key pre" and "pre = [] \<or> last pre \<notin> set key"
  shows "find_text key (pre @ key @ rest) at = Some (at + length pre)"
  using assms
proof (induction pre arbitrary: at)
  case Nil
  have "prefix key (key @ rest)" by simp
  then show ?case by (cases "key @ rest") simp_all
next
  case (Cons c pre)
  have "\<not> prefix key (c # pre)" using Cons.prems(1) by (meson prefix_imp_sublist)
  then have "\<not> prefix key ((c # pre) @ key @ rest)" using no_overlap [of "c # pre" key] Cons.prems(2) by blast
  moreover have "\<not> sublist key pre" using Cons.prems(1) by (meson sublist_order.order.trans sublist_Cons_right)
  moreover have "pre = [] \<or> last pre \<notin> set key" using Cons.prems(2) by (cases pre) auto
  ultimately show ?case using Cons.IH [of "Suc at"] by simp
qed

text \<open>
  C22. Stamping is serialising again. If the text of a document is what stands before its number, the key,
  the number and what stands after it, where the text before ends in a character that is not in the key
  and has no key of its own, and the text after does not start with a digit, then rendering the payload
  for any number gives the text the document has with that number; the twenty characters reserved for
  the digits are always enough.
\<close>

theorem render_equals_dump:
  assumes "\<forall>n. dump n = before @ sequence_key @ to_string_nat n @ after" and "\<not> sublist sequence_key before"
    and "before \<noteq> []" and "last before \<notin> set sequence_key" and "after \<noteq> [] \<longrightarrow> \<not> is_digit (hd after)" and "n < 2 ^ 64"
  shows "render (sequenced_message (dump 0)) n = dump n \<and> length (to_string_nat n) \<le> 20"
proof -
  have at: "find_text sequence_key (dump 0) 0 = Some (length before)"
    using find_text_first [of sequence_key before "to_string_nat 0 @ after" 0] assms(1-4) by simp
  have "dropWhile is_digit (to_string_nat 0 @ after) = after"
    using assms(5) to_string_digits [of _ 0] by (cases after) (auto simp: dropWhile_append2)
  then have "sequenced_message (dump 0) = \<lparr>sm_prefix = before @ sequence_key, sm_suffix = after, sm_sequenced = True\<rparr>"
    unfolding sequenced_message_def at option.case Let_def using assms(1) by simp
  then have "render (sequenced_message (dump 0)) n = dump n" using assms(1) by (simp add: render_def)
  moreover have "n < 10 ^ 20" using assms(6) by simp
  ultimately show ?thesis using to_string_length [of n 20] by simp
qed

theorem render_equals_dump_witness:
  "render (sequenced_message (CHR ''{'' # sequence_key @ ''0}'')) 417 = CHR ''{'' # sequence_key @ ''417}''"
proof -
  define dump where "dump n = ''{'' @ sequence_key @ to_string_nat n @ ''}''" for n
  have "\<forall>n. dump n = ''{'' @ sequence_key @ to_string_nat n @ ''}''" by (simp add: dump_def)
  from render_equals_dump [OF this, of 417] have "render (sequenced_message (dump 0)) 417 = dump 417"
    by (simp add: sequence_key_def is_digit_def sublist_Cons_right)
  moreover have "dump 0 = CHR ''{'' # sequence_key @ ''0}''" "dump 417 = CHR ''{'' # sequence_key @ ''417}''"
    by (simp_all add: dump_def digit_char_def to_string_nat.simps char_of_def bit_0)
  ultimately show ?thesis by simp
qed

end
