(* ===== verification/Rest_Wait.thy ===== *)
theory Rest_Wait
  imports Order_Store Fixed_String
begin

text \<open>
  What the REST order gateways share: a request is published, and the handler then polls the response
  queue from the index it took before. A wait is described by the responses published by its end, how
  many of them each poll can see, where it starts and how many polls its time allows; the clock and the
  pool slot of the request are the caller's.
\<close>

section \<open>The wait\<close>

record wait_env =
  we_now :: time_ns
  we_tag :: nat
  we_start :: nat
  we_queue :: "OrderResponse list"
  we_visible :: "nat \<Rightarrow> nat"
  we_polls :: nat

fun wait_loop :: "(OrderResponse \<Rightarrow> bool) \<Rightarrow> OrderResponse list \<Rightarrow> (nat \<Rightarrow> nat) \<Rightarrow> nat \<Rightarrow> nat \<Rightarrow> nat \<Rightarrow> OrderResponse option" where
  "wait_loop mine rs visible 0 i response_read_index = None"
| "wait_loop mine rs visible (Suc polls) i response_read_index =
     (if response_read_index < min (visible i) (length rs) then
        if mine (rs ! response_read_index) then Some (rs ! response_read_index)
        else wait_loop mine rs visible polls (i + 1) (response_read_index + 1)
      else wait_loop mine rs visible polls (i + 1) response_read_index)"

definition wait_for :: "(OrderResponse \<Rightarrow> bool) \<Rightarrow> nat \<Rightarrow> wait_env \<Rightarrow> OrderResponse option" where
  "wait_for mine polls e = wait_loop mine (we_queue e) (we_visible e) polls 0 (we_start e)"

text \<open>A text as the fixed field of a request or response holds it.\<close>

definition wire :: "nat \<Rightarrow> string \<Rightarrow> string" where
  "wire n s = fs_view (fst (copy_wire_field n s))"

section \<open>Facts\<close>

lemma wire_id: "NUL \<notin> set s \<Longrightarrow> length s < n \<Longrightarrow> wire n s = s"
  using fs_view_assign_id [of s n] by (simp add: wire_def fs_assign_def)

lemma wire_length: "0 < n \<Longrightarrow> length (wire n s) < n"
proof -
  assume "0 < n"
  have "wire n s = takeWhile (\<lambda>c. c \<noteq> NUL) (take (n - 1) s)" using fs_view_assign [of n s] by (simp add: wire_def fs_assign_def)
  then have "length (wire n s) \<le> length (take (n - 1) s)" by (metis length_takeWhile_le)
  moreover have "length (take (n - 1) s) \<le> n - 1" by simp
  ultimately show ?thesis using \<open>0 < n\<close> by linarith
qed

lemma wait_loop_sound:
  "wait_loop mine rs visible polls i k = Some r \<Longrightarrow> \<exists>j\<ge>k. j < length rs \<and> r = rs ! j \<and> mine r \<and> (\<forall>l. k \<le> l \<and> l < j \<longrightarrow> \<not> mine (rs ! l))"
proof (induction polls arbitrary: i k)
  case (Suc polls)
  show ?case
  proof (cases "k < min (visible i) (length rs) \<and> \<not> mine (rs ! k)")
    case True
    then have "wait_loop mine rs visible polls (i + 1) (k + 1) = Some r" using Suc.prems by simp
    from Suc.IH [OF this] obtain j where "j \<ge> k + 1" "j < length rs" "r = rs ! j" "mine r" "\<forall>l. k + 1 \<le> l \<and> l < j \<longrightarrow> \<not> mine (rs ! l)" by blast
    moreover have "\<not> mine (rs ! l)" if "k \<le> l" "l < j" for l using calculation(5) True that by (cases "l = k") auto
    ultimately show ?thesis by (intro exI [of _ j]) auto
  next
    case False
    then show ?thesis using Suc by (auto split: if_splits)
  qed
qed simp

text \<open>Once everything up to the answer is visible, one poll per response in between is enough.\<close>

lemma wait_loop_finds:
  assumes "j < length rs" and "mine (rs ! j)" and "\<forall>l. k \<le> l \<and> l < j \<longrightarrow> \<not> mine (rs ! l)" and "k \<le> j"
    and "\<forall>m\<ge>i0. j < visible m" and "i0 + (j - k) < i + polls" and "i0 \<ge> i \<or> j - k < polls"
  shows "wait_loop mine rs visible polls i k = Some (rs ! j)"
  using assms(3-)
proof (induction polls arbitrary: i k)
  case (Suc polls)
  show ?case
  proof (cases "k < min (visible i) (length rs)")
    case True
    show ?thesis
    proof (cases "k = j")
      case eq: True
      then show ?thesis using True assms(2) by simp
    next
      case False
      then have "\<not> mine (rs ! k)" "k + 1 \<le> j" using Suc.prems(1,2) by auto
      moreover have "wait_loop mine rs visible polls (i + 1) (k + 1) = Some (rs ! j)"
        by (rule Suc.IH) (use Suc.prems \<open>k + 1 \<le> j\<close> in auto)
      ultimately show ?thesis using True by simp
    qed
  next
    case False
    then have "i < i0" using Suc.prems(2,3) assms(1) by (metis leI le_less_trans min_less_iff_conj)
    then have "wait_loop mine rs visible polls (i + 1) k = Some (rs ! j)"
      by (intro Suc.IH) (use Suc.prems in auto)
    then show ?thesis using False by (simp only: wait_loop.simps if_False)
  qed
qed simp

end
