(* ===== verification/Coinbase_Rest_Gateway.thy ===== *)
theory Coinbase_Rest_Gateway
  imports Rest_Wait Coinbase_Ws_Gateway Md_Publisher
begin

text \<open>
  \<open>src/src/venues/coinbase/coinbase_rest_order_gateway.cpp\<close>: the Coinbase REST endpoints, one event loop
  whose handlers wait for the exchange. A request body is seen through the members the handler reads;
  the JWT decoder and the reading of a decimal text into a price or a quantity (\<open>std::stod\<close> and a
  floating-point rounding) are parameters, as are the comparisons of a product's floating-point
  increments. Replies are kept as values; the texts that quote floating-point numbers are left out, and
  so are the product listing and the transaction summary, which are passed through unchanged.
\<close>

section \<open>Messages\<close>

record order_cfg =
  oc_base_size :: text_member
  oc_limit_price :: text_member

record create_body =
  cb_product_id :: text_member
  cb_side :: text_member
  cb_client_order_id :: text_member
  cb_order_configuration :: "(string \<times> order_cfg) list"

record edit_body =
  eb_order_id :: text_member
  eb_price :: text_member
  eb_size :: text_member

text \<open>A body that is not JSON, or the members of one that is.\<close>

datatype 'b posted = NotJson | Json 'b

datatype rest_exception = JsonField | OtherError

datatype rest_reply =
    Unauthorized string
  | InvalidRequest
  | InvalidArgument
  | InternalError
  | OrderRefused string
  | GatewayTimeout
  | OrderCreated string string string string
  | OrdersListed "Order list"
  | CancelResults "(string \<times> bool \<times> string) list"
  | EditRefused string
  | Edited

section \<open>State\<close>

text \<open>The rules of a product: whether the price has a tick and the price, quantity and minimum keep to them.\<close>

record product_rules =
  pr_has_tick :: bool
  pr_tick_ok :: "price_t \<Rightarrow> bool"
  pr_below_min :: "qty_t \<Rightarrow> bool"
  pr_has_increment :: bool
  pr_increment_ok :: "qty_t \<Rightarrow> bool"

record CbRestGateway =
  rg_product_by_id :: "string \<rightharpoonup> product_rules"
  rg_orders :: OrderStore
  rg_order_id_to_symbol :: "string \<rightharpoonup> string"
  rg_request_queue :: "Request list"

section \<open>Helpers\<close>

definition matches_order_status :: "string \<Rightarrow> OrderStatus \<Rightarrow> bool" where
  "matches_order_status flt st =
     (if iequals flt ''OPEN''
      then st \<in> {OS_NEW, OS_PARTIALLY_FILLED, OS_PENDING_NEW, OS_PENDING_CANCEL, OS_PENDING_REPLACE, OS_REPLACED}
      else iequals flt (to_string_OrderStatus st))"

text \<open>\<open>decode\<close> gives the subject of a token, or nothing when it raises.\<close>

definition authenticate :: "(string \<Rightarrow> string option) \<Rightarrow> string \<Rightarrow> string \<Rightarrow> string + string" where
  "authenticate decode lower_header upper_header =
     (let auth_header = (if lower_header = [] then upper_header else lower_header)
      in if auth_header = [] then Inl ''Authorization header required''
         else if \<not> prefix ''Bearer '' auth_header then Inl ''Invalid auth token''
         else case decode (drop 7 auth_header) of
                None \<Rightarrow> Inl ''Invalid token''
              | Some sub \<Rightarrow> Inr (after_last_slash sub))"

definition validate_order :: "string \<Rightarrow> price_t \<Rightarrow> qty_t \<Rightarrow> OrderType \<Rightarrow> CbRestGateway \<Rightarrow> string option" where
  "validate_order product_id px q ty g = (case rg_product_by_id g product_id of
      None \<Rightarrow> Some ''INVALID_PRODUCT_ID''
    | Some rules \<Rightarrow>
        if ty \<noteq> OT_MARKET \<and> pr_has_tick rules \<and> \<not> pr_tick_ok rules px then Some ''INVALID_LIMIT_PRICE_POST_ONLY''
        else if pr_below_min rules q then Some ''INVALID_ORDER_CONFIG''
        else if pr_has_increment rules \<and> \<not> pr_increment_ok rules q then Some ''INVALID_ORDER_CONFIG''
        else None)"

text \<open>A member that has to be text; then the number it stands for.\<close>

fun get_text :: "text_member \<Rightarrow> rest_exception + string" where
  "get_text (TextMember s) = Inr s"
| "get_text _ = Inl JsonField"

definition get_number :: "(string \<Rightarrow> int option) \<Rightarrow> text_member \<Rightarrow> rest_exception + int" where
  "get_number stod m = (case get_text m of
      Inl e \<Rightarrow> Inl e
    | Inr s \<Rightarrow> (case stod s of None \<Rightarrow> Inl OtherError | Some v \<Rightarrow> Inr v))"

text \<open>The configuration decides type, time in force, price and quantity; \<open>Inr None\<close> is an unsupported one.\<close>

definition parse_configuration :: "(string \<Rightarrow> int option) \<Rightarrow> (string \<Rightarrow> int option) \<Rightarrow> (string \<times> order_cfg) list \<Rightarrow>
    rest_exception + (OrderType \<times> TimeInForce \<times> price_t \<times> qty_t) option" where
  "parse_configuration price_of qty_of order_config =
     (let with_price = (\<lambda>cfg tif. case get_number qty_of (oc_base_size cfg) of
            Inl e \<Rightarrow> Inl e
          | Inr qty \<Rightarrow> (case get_number price_of (oc_limit_price cfg) of Inl e \<Rightarrow> Inl e | Inr px \<Rightarrow> Inr (Some (OT_LIMIT, tif, px, qty))));
          without_price = (\<lambda>cfg tif. case get_number qty_of (oc_base_size cfg) of Inl e \<Rightarrow> Inl e | Inr qty \<Rightarrow> Inr (Some (OT_MARKET, tif, NULL_PRICE, qty)))
      in case map_of order_config ''limit_limit_gtc'' of
           Some cfg \<Rightarrow> with_price cfg TIF_GOOD_TILL_CANCEL
         | None \<Rightarrow> (case map_of order_config ''market_market_ioc'' of
             Some cfg \<Rightarrow> without_price cfg TIF_IMMEDIATE_OR_CANCEL
           | None \<Rightarrow> (case map_of order_config ''sor_limit_ioc'' of
               Some cfg \<Rightarrow> with_price cfg TIF_IMMEDIATE_OR_CANCEL
             | None \<Rightarrow> (case map_of order_config ''market_market_fok'' of
                 Some cfg \<Rightarrow> if oc_limit_price cfg = Absent then without_price cfg TIF_FILL_OR_KILL else with_price cfg TIF_FILL_OR_KILL
               | None \<Rightarrow> Inr None))))"

definition exception_reply :: "rest_exception \<Rightarrow> rest_reply" where
  "exception_reply e = (case e of JsonField \<Rightarrow> InvalidArgument | OtherError \<Rightarrow> InternalError)"

section \<open>Listing\<close>

text \<open>\<open>std::strtoull\<close> in base 10: blanks, a sign, digits; the value and what is left, or nothing without a digit.\<close>

definition strtoull :: "string \<Rightarrow> (nat \<times> string) option" where
  "strtoull s =
     (let s1 = dropWhile (\<lambda>c. c \<in> {CHR '' '', CHR 0x09, CHR 0x0A, CHR 0x0B, CHR 0x0C, CHR 0x0D}) s;
          neg = (s1 \<noteq> [] \<and> hd s1 = CHR ''-'');
          s2 = (if s1 \<noteq> [] \<and> (hd s1 = CHR ''-'' \<or> hd s1 = CHR ''+'') then tl s1 else s1);
          digit = (\<lambda>c. of_char c \<ge> (48 :: nat) \<and> of_char c \<le> (57 :: nat));
          ds = takeWhile digit s2;
          v = digits_value ds
      in if ds = [] then None
         else Some (if v \<ge> 2 ^ 64 then 2 ^ 64 - 1 else if neg then (2 ^ 64 - v) mod 2 ^ 64 else v, dropWhile digit s2))"

definition parse_limit :: "string \<Rightarrow> nat option" where
  "parse_limit limit_param =
     (if limit_param = [] then Some (2 ^ 64 - 1)
      else case strtoull limit_param of
             Some (v, []) \<Rightarrow> Some v
           | _ \<Rightarrow> None)"

definition listed :: "string \<Rightarrow> string \<Rightarrow> string \<Rightarrow> Order \<Rightarrow> bool" where
  "listed product_id order_side order_status order \<longleftrightarrow>
     (product_id = [] \<or> product_id = symbol order) \<and> (order_side = [] \<or> iequals order_side (to_string_Side (side order))) \<and>
     (order_status = [] \<or> matches_order_status order_status (status order))"

fun collect :: "(Order \<Rightarrow> bool) \<Rightarrow> nat \<Rightarrow> Order list \<Rightarrow> Order list \<Rightarrow> Order list" where
  "collect keep limit acc [] = acc"
| "collect keep limit acc (order # orders) =
     (if \<not> keep order then collect keep limit acc orders
      else if length acc \<ge> limit then acc
      else collect keep limit (acc @ [order]) orders)"

definition handle_get_orders :: "string + string \<Rightarrow> string \<Rightarrow> string \<Rightarrow> string \<Rightarrow> string \<Rightarrow> OrderResponse list \<Rightarrow> CbRestGateway \<Rightarrow> rest_reply \<times> CbRestGateway" where
  "handle_get_orders auth product_id order_side order_status limit_param rs g = (case auth of
      Inl e \<Rightarrow> (Unauthorized e, g)
    | Inr uid \<Rightarrow>
        (case parse_limit limit_param of
           None \<Rightarrow> (InvalidArgument, g)
         | Some limit \<Rightarrow>
             (let g1 = g\<lparr>rg_orders := drain 4096 rs (rg_orders g)\<rparr>
              in (OrdersListed (collect (listed product_id order_side order_status) limit [] (orders_of uid (rg_orders g1))), g1))))"

section \<open>Orders\<close>

definition new_order_request :: "wait_env \<Rightarrow> string \<Rightarrow> string \<Rightarrow> string \<Rightarrow> Side \<Rightarrow> OrderType \<Rightarrow> TimeInForce \<Rightarrow> price_t \<Rightarrow> qty_t \<Rightarrow> Request" where
  "new_order_request e product_id uid cloid s ty tif px q = \<lparr>time_stamp = we_now e, req_symbol = wire 32 product_id, req_request_tag = we_tag e,
     body = NEW_ORDER_SINGLE \<lparr>ao_user_id = wire 37 uid, ao_client_order_id = wire 37 cloid, ao_side = s, ao_type = ty,
       ao_time_in_force = tif, ao_price = px, ao_qty = q\<rparr>\<rparr>"

text \<open>
  A reply in time: the wait is 50000 polls, the five seconds in steps of 100 microseconds. The match asserts that the
  report is an execution report or a reject whose order is pending or rejected (lines 453 to 456). That is not a
  branch here; of the first report of a new order the exchange writes it holds.
\<close>

definition create_reply :: "string \<Rightarrow> string \<Rightarrow> string \<Rightarrow> OrderResponse option \<Rightarrow> rest_reply" where
  "create_reply product_id side_str cloid matched_response = (case matched_response of
      None \<Rightarrow> GatewayTimeout
    | Some r \<Rightarrow>
        if r_order_status r = OS_REJECTED then OrderRefused (to_string_OrdRejectReason (r_reject_reason r))
        else OrderCreated (r_order_id r) product_id side_str cloid)"

definition remember_symbol :: "string \<Rightarrow> OrderResponse option \<Rightarrow> CbRestGateway \<Rightarrow> CbRestGateway" where
  "remember_symbol product_id matched_response g = (case matched_response of
      Some r \<Rightarrow> if r_order_status r \<noteq> OS_REJECTED \<and> r_order_id r \<noteq> []
                 then g\<lparr>rg_order_id_to_symbol := (rg_order_id_to_symbol g)(r_order_id r \<mapsto> product_id)\<rparr> else g
    | None \<Rightarrow> g)"

definition create_order :: "(string \<Rightarrow> int option) \<Rightarrow> (string \<Rightarrow> int option) \<Rightarrow> wait_env \<Rightarrow> string \<Rightarrow> create_body \<Rightarrow> CbRestGateway \<Rightarrow>
    rest_exception + rest_reply \<times> CbRestGateway" where
  "create_order price_of qty_of e uid b g =
     (case get_text (cb_product_id b) of Inl x \<Rightarrow> Inl x | Inr product_id \<Rightarrow>
      case get_text (cb_side b) of Inl x \<Rightarrow> Inl x | Inr side_str \<Rightarrow>
      case get_text (cb_client_order_id b) of Inl x \<Rightarrow> Inl x | Inr cloid \<Rightarrow>
      case parse_configuration price_of qty_of (cb_order_configuration b) of
        Inl x \<Rightarrow> Inl x
      | Inr None \<Rightarrow> Inr (OrderRefused ''Unsupported order_configuration type'', g)
      | Inr (Some (ty, tif, px, qty)) \<Rightarrow>
          (case validate_order product_id (if px \<noteq> NULL_PRICE then px else 0) qty ty g of
             Some error_type \<Rightarrow> Inr (OrderRefused error_type, g)
           | None \<Rightarrow>
               (let s = (if side_str = ''BUY'' then BUY else SELL);
                    g1 = g\<lparr>rg_request_queue := rg_request_queue g @ [new_order_request e product_id uid cloid s ty tif px qty]\<rparr>;
                    matched_response = wait_for (\<lambda>r. r_user_id r = uid \<and> r_client_order_id r = cloid) 50000 e
                in Inr (create_reply product_id side_str cloid matched_response, remember_symbol product_id matched_response g1))))"

definition handle_create_order :: "(string \<Rightarrow> int option) \<Rightarrow> (string \<Rightarrow> int option) \<Rightarrow> wait_env \<Rightarrow> string + string \<Rightarrow> create_body posted \<Rightarrow>
    CbRestGateway \<Rightarrow> rest_reply \<times> CbRestGateway" where
  "handle_create_order price_of qty_of e auth request_body g = (case auth of
      Inl err \<Rightarrow> (Unauthorized err, g)
    | Inr uid \<Rightarrow>
        (case request_body of
           NotJson \<Rightarrow> (InvalidRequest, g)
         | Json b \<Rightarrow> (case create_order price_of qty_of e uid b g of Inl x \<Rightarrow> (exception_reply x, g) | Inr v \<Rightarrow> v)))"

section \<open>Cancelling\<close>

text \<open>One order of the batch: an unknown id is not submitted, and a wait that ends without an answer counts as success.\<close>

definition cancel_one :: "wait_env \<Rightarrow> string \<Rightarrow> string \<Rightarrow> CbRestGateway \<Rightarrow> (bool \<times> OrdRejectReason) \<times> CbRestGateway" where
  "cancel_one e uid oid g = (case rg_order_id_to_symbol g oid of
      None \<Rightarrow> ((False, RJ_NONE), g)
    | Some name \<Rightarrow>
        (let request = \<lparr>time_stamp = we_now e, req_symbol = wire 32 name, req_request_tag = we_tag e,
               body = ORDER_CANCEL_REQUEST \<lparr>co_user_id = wire 37 uid, co_order_id = wire 37 oid, co_client_order_id = []\<rparr>\<rparr>;
             answer = wait_for (\<lambda>r. r_user_id r = uid \<and> r_request_time r = we_now e) (we_polls e) e;
             reject_reason = (case answer of Some r \<Rightarrow> (if r_order_status r = OS_REJECTED then r_reject_reason r else RJ_NONE) | None \<Rightarrow> RJ_NONE)
         in ((True, reject_reason), g\<lparr>rg_request_queue := rg_request_queue g @ [request]\<rparr>)))"

fun cancel_each :: "(nat \<Rightarrow> wait_env) \<Rightarrow> string \<Rightarrow> nat \<Rightarrow> text_member list \<Rightarrow> CbRestGateway \<Rightarrow>
    (rest_exception \<times> CbRestGateway) + (string \<times> bool \<times> OrdRejectReason) list \<times> CbRestGateway" where
  "cancel_each env uid i [] g = Inr ([], g)"
| "cancel_each env uid i (m # ms) g = (case get_text m of
      Inl x \<Rightarrow> Inl (x, g)
    | Inr oid \<Rightarrow>
        (case cancel_one (env i) uid oid g of (entry, g1) \<Rightarrow>
          (case cancel_each env uid (i + 1) ms g1 of
             Inl x \<Rightarrow> Inl x
           | Inr (entries, g2) \<Rightarrow> Inr ((oid, entry) # entries, g2))))"

definition cancel_result :: "string \<times> bool \<times> OrdRejectReason \<Rightarrow> string \<times> bool \<times> string" where
  "cancel_result entry = (case entry of (oid, submitted, reject_reason) \<Rightarrow>
     if \<not> submitted then (oid, False, ''UNKNOWN_ORDER'')
     else if reject_reason \<noteq> RJ_NONE then (oid, False, to_string_OrdRejectReason reject_reason)
     else (oid, True, ''''))"

definition forget_cancelled :: "(string \<times> bool \<times> OrdRejectReason) list \<Rightarrow> CbRestGateway \<Rightarrow> CbRestGateway" where
  "forget_cancelled entries g =
     g\<lparr>rg_order_id_to_symbol := foldl (\<lambda>m (oid, submitted, reason). if submitted \<and> reason = RJ_NONE then m(oid := None) else m) (rg_order_id_to_symbol g) entries\<rparr>"

text \<open>The ids are absent or not an array, or the members of one.\<close>

definition handle_batch_cancel :: "(nat \<Rightarrow> wait_env) \<Rightarrow> string + string \<Rightarrow> text_member list option posted \<Rightarrow> CbRestGateway \<Rightarrow> rest_reply \<times> CbRestGateway" where
  "handle_batch_cancel env auth request_body g = (case auth of
      Inl err \<Rightarrow> (Unauthorized err, g)
    | Inr uid \<Rightarrow>
        (case request_body of
           NotJson \<Rightarrow> (InvalidRequest, g)
         | Json ids \<Rightarrow>
             if ids = None \<or> ids = Some [] then (InvalidArgument, g)
             else (case cancel_each env uid 0 (the ids) g of
                 Inl (x, g1) \<Rightarrow> (exception_reply x, g1)
               | Inr (entries, g1) \<Rightarrow> (CancelResults (map cancel_result entries), forget_cancelled entries g1))))"

section \<open>Editing\<close>

definition optional_number :: "(string \<Rightarrow> int option) \<Rightarrow> int \<Rightarrow> text_member \<Rightarrow> rest_exception + int" where
  "optional_number stod dflt m = (if m = Absent then Inr dflt else get_number stod m)"

definition edit_order :: "(string \<Rightarrow> int option) \<Rightarrow> (string \<Rightarrow> int option) \<Rightarrow> wait_env \<Rightarrow> string \<Rightarrow> edit_body \<Rightarrow> CbRestGateway \<Rightarrow>
    rest_exception + rest_reply \<times> CbRestGateway" where
  "edit_order price_of qty_of e uid b g =
     (case get_text (eb_order_id b) of Inl x \<Rightarrow> Inl x | Inr oid \<Rightarrow>
      case rg_order_id_to_symbol g oid of
        None \<Rightarrow> Inr (EditRefused ''UNKNOWN_ORDER'', g)
      | Some name \<Rightarrow>
          (case optional_number price_of NULL_PRICE (eb_price b) of Inl x \<Rightarrow> Inl x | Inr new_price \<Rightarrow>
           case optional_number qty_of 0 (eb_size b) of Inl x \<Rightarrow> Inl x | Inr new_qty \<Rightarrow>
           case (if new_price \<noteq> NULL_PRICE \<or> new_qty \<noteq> 0
                 then validate_order name (if new_price \<noteq> NULL_PRICE then new_price else 0) new_qty (if new_price \<noteq> NULL_PRICE then OT_LIMIT else OT_MARKET) g else None) of
             Some error_type \<Rightarrow> Inr (EditRefused error_type, g)
           | None \<Rightarrow>
               (let request = \<lparr>time_stamp = we_now e, req_symbol = wire 32 name, req_request_tag = we_tag e,
                      body = ORDER_REPLACE_REQUEST \<lparr>mo_user_id = wire 37 uid, mo_order_id = wire 37 oid, mo_client_order_id = [],
                        mo_new_price = new_price, mo_new_qty = new_qty\<rparr>\<rparr>;
                    answer = wait_for (\<lambda>r. r_user_id r = uid \<and> r_request_time r = we_now e) (we_polls e) e;
                    reject_reason = (case answer of None \<Rightarrow> RJ_UNKNOWN | Some r \<Rightarrow> if r_order_status r = OS_REJECTED then r_reject_reason r else RJ_NONE)
                in Inr (if reject_reason \<noteq> RJ_NONE then EditRefused (to_string_OrdRejectReason reject_reason) else Edited,
                     g\<lparr>rg_request_queue := rg_request_queue g @ [request]\<rparr>))))"

definition handle_edit_order :: "(string \<Rightarrow> int option) \<Rightarrow> (string \<Rightarrow> int option) \<Rightarrow> wait_env \<Rightarrow> string + string \<Rightarrow> edit_body posted \<Rightarrow>
    CbRestGateway \<Rightarrow> rest_reply \<times> CbRestGateway" where
  "handle_edit_order price_of qty_of e auth request_body g = (case auth of
      Inl err \<Rightarrow> (Unauthorized err, g)
    | Inr uid \<Rightarrow>
        (case request_body of
           NotJson \<Rightarrow> (InvalidRequest, g)
         | Json b \<Rightarrow> (case edit_order price_of qty_of e uid b g of Inl x \<Rightarrow> (exception_reply x, g) | Inr v \<Rightarrow> v)))"

end
