(* ===== verification/Rest_Properties.thy ===== *)
theory Rest_Properties
  imports Coinbase_Rest_Gateway
begin

text \<open>The properties of the Coinbase REST gateway: what it answers, publishes and remembers.\<close>

section \<open>Placing\<close>

lemma wait_for_finds:
  assumes "we_start e \<le> j" and "j < length (we_queue e)" and "mine (we_queue e ! j)" and "\<forall>l. we_start e \<le> l \<and> l < j \<longrightarrow> \<not> mine (we_queue e ! l)"
    and "\<forall>m\<ge>i0. j < we_visible e m" and "i0 + (j - we_start e) < polls"
  shows "wait_for mine polls e = Some (we_queue e ! j)"
  unfolding wait_for_def by (rule wait_loop_finds [OF assms(2,3,4,1,5)]) (use assms(6) in simp_all)

lemma create_order_eq:
  assumes "cb_product_id b = TextMember product" and "cb_side b = TextMember side_str" and "cb_client_order_id b = TextMember cloid"
    and "parse_configuration price_of qty_of (cb_order_configuration b) = Inr (Some (ty, tif, px, qty))"
    and "validate_order product (if px \<noteq> NULL_PRICE then px else 0) qty ty g = None"
    and "wait_for (\<lambda>r. r_user_id r = uid \<and> r_client_order_id r = cloid) 50000 e = answer"
  shows "handle_create_order price_of qty_of e (Inr uid) (Json b) g = (create_reply product side_str cloid answer,
    remember_symbol product answer (g\<lparr>rg_request_queue := rg_request_queue g @
      [new_order_request e product uid cloid (if side_str = ''BUY'' then BUY else SELL) ty tif px qty]\<rparr>))"
  unfolding handle_create_order_def sum.case posted.case create_order_def assms(1-3) get_text.simps assms(4) option.case prod.case assms(5,6) Let_def ..

text \<open>
  An order placed over REST is answered. A well-formed request of a known product whose ids fit their
  fields publishes exactly one request with the product, side, type, time in force, price and quantity
  of its configuration; and if the exchange's first answer to it can be seen early enough that the
  answers queued before it can be read within the fifty thousand polls of the wait, the reply is that
  answer: the refusal with its reason, or success with the exchange's order id, under which the product
  is remembered for cancelling and editing.
\<close>

theorem rest_order_answered:
  assumes "cb_product_id b = TextMember product" and "cb_side b = TextMember side_str" and "cb_client_order_id b = TextMember cloid"
    and "parse_configuration price_of qty_of (cb_order_configuration b) = Inr (Some (ty, tif, px, qty))"
    and "validate_order product (if px \<noteq> NULL_PRICE then px else 0) qty ty g = None"
    and "NUL \<notin> set uid" and "length uid < 37" and "NUL \<notin> set cloid" and "length cloid < 37"
    and "we_start e \<le> j" and "j < length (we_queue e)" and "r = we_queue e ! j" and "r_user_id r = wire 37 uid" and "r_client_order_id r = wire 37 cloid"
    and "\<forall>l. we_start e \<le> l \<and> l < j \<longrightarrow> \<not> (r_user_id (we_queue e ! l) = wire 37 uid \<and> r_client_order_id (we_queue e ! l) = wire 37 cloid)"
    and "\<forall>m\<ge>i0. j < we_visible e m" and "i0 + (j - we_start e) < 50000"
  shows "let (reply, g') = handle_create_order price_of qty_of e (Inr uid) (Json b) g in
    rg_request_queue g' = rg_request_queue g @ [new_order_request e product uid cloid (if side_str = ''BUY'' then BUY else SELL) ty tif px qty] \<and>
    (if r_order_status r = OS_REJECTED
     then reply = OrderRefused (to_string_OrdRejectReason (r_reject_reason r)) \<and> rg_order_id_to_symbol g' = rg_order_id_to_symbol g
     else reply = OrderCreated (r_order_id r) product side_str cloid \<and> (r_order_id r \<noteq> [] \<longrightarrow> rg_order_id_to_symbol g' (r_order_id r) = Some product)) \<and>
    (\<forall>i. i \<noteq> r_order_id r \<longrightarrow> rg_order_id_to_symbol g' i = rg_order_id_to_symbol g i) \<and>
    rg_orders g' = rg_orders g \<and> rg_product_by_id g' = rg_product_by_id g"
proof -
  have w: "wire 37 uid = uid" "wire 37 cloid = cloid" using assms(6-9) by (simp_all add: wire_id)
  have "wait_for (\<lambda>r. r_user_id r = uid \<and> r_client_order_id r = cloid) 50000 e = Some (we_queue e ! j)"
    by (rule wait_for_finds [OF assms(10,11) _ _ assms(16,17)]) (use assms(12-15) in \<open>simp_all add: w\<close>)
  then have wait: "wait_for (\<lambda>r. r_user_id r = uid \<and> r_client_order_id r = cloid) 50000 e = Some r" using assms(12) by simp
  show ?thesis unfolding create_order_eq [OF assms(1-5) wait] Let_def prod.case
    by (simp add: create_reply_def remember_symbol_def)
qed

definition ex_rules :: product_rules where
  "ex_rules = \<lparr>pr_has_tick = True, pr_tick_ok = (\<lambda>p. p mod 10 = 0), pr_below_min = (\<lambda>q. q < 1), pr_has_increment = False, pr_increment_ok = (\<lambda>_. True)\<rparr>"

definition ex_gateway :: CbRestGateway where
  "ex_gateway = \<lparr>rg_product_by_id = [''BTC-USD'' \<mapsto> ex_rules], rg_orders = new_store (Some 0), rg_order_id_to_symbol = Map.empty, rg_request_queue = []\<rparr>"

definition ex_body :: "string \<Rightarrow> create_body" where
  "ex_body cloid = \<lparr>cb_product_id = TextMember ''BTC-USD'', cb_side = TextMember ''SELL'', cb_client_order_id = TextMember cloid,
     cb_order_configuration = [(''limit_limit_gtc'', \<lparr>oc_base_size = TextMember ''2'', oc_limit_price = TextMember ''100''\<rparr>)]\<rparr>"

definition ex_number :: "string \<Rightarrow> int option" where
  "ex_number s = Some (int (digits_value s))"

definition ex_answer :: OrderResponse where
  "ex_answer = \<lparr>r_symbol = ''BTC-USD'', r_user_id = ''ann'', r_client_order_id = ''c1'', r_order_id = ''id-7'', r_error_message = [],
     r_response_type = MT_EXECUTION_REPORT, r_exec_type = ET_NEW, r_order_status = OS_PENDING_NEW, r_order_type = OT_LIMIT, r_time_in_force = TIF_GOOD_TILL_CANCEL,
     r_price = 100, r_last_fill_price = 0, r_avg_fill_price = 0, r_qty = 2, r_last_qty = 0, r_cum_qty = 0, r_leaves_qty = 2, r_reject_reason = RJ_NONE,
     r_creation_time = 1, r_request_time = 1, r_timestamp = 1, r_side = SELL, r_post_only = False, r_order_num = 1, r_request_tag = 0, r_aggressor = False\<rparr>"

definition ex_wait :: wait_env where
  "ex_wait = \<lparr>we_now = 1, we_tag = 0, we_start = 0, we_queue = [ex_answer], we_visible = (\<lambda>i. if i < 3 then 0 else 1), we_polls = 2000\<rparr>"

lemma ex_config: "parse_configuration ex_number ex_number (cb_order_configuration (ex_body c)) = Inr (Some (OT_LIMIT, TIF_GOOD_TILL_CANCEL, 100, 2))"
  by (simp add: parse_configuration_def ex_body_def get_number_def ex_number_def digits_value_def char_digit_def)

lemma ex_valid: "validate_order ''BTC-USD'' (if (100 :: price_t) \<noteq> NULL_PRICE then 100 else 0) 2 OT_LIMIT ex_gateway = None"
  by (simp add: validate_order_def ex_gateway_def ex_rules_def NULL_PRICE_def)

theorem rest_order_answered_witness:
  "let (reply, g') = handle_create_order ex_number ex_number ex_wait (Inr ''ann'') (Json (ex_body ''c1'')) ex_gateway in
   reply = OrderCreated ''id-7'' ''BTC-USD'' ''SELL'' ''c1'' \<and> length (rg_request_queue g') = 1 \<and> rg_order_id_to_symbol g' ''id-7'' = Some ''BTC-USD''"
proof -
  have b: "cb_product_id (ex_body ''c1'') = TextMember ''BTC-USD''" "cb_side (ex_body ''c1'') = TextMember ''SELL''" "cb_client_order_id (ex_body ''c1'') = TextMember ''c1''"
    by (simp_all add: ex_body_def)
  have ann: "wire 37 ''ann'' = ''ann''" by (rule wire_id) (simp_all add: NUL_def char_of_def)
  have c1: "wire 37 ''c1'' = ''c1''" by (rule wire_id) (simp_all add: NUL_def char_of_def)
  have r: "r_user_id ex_answer = wire 37 ''ann''" "r_client_order_id ex_answer = wire 37 ''c1''" "r_order_status ex_answer \<noteq> OS_REJECTED" "r_order_id ex_answer = ''id-7''"
    by (simp_all add: ex_answer_def ann c1)
  have e: "we_start ex_wait \<le> 0" "0 < length (we_queue ex_wait)" "ex_answer = we_queue ex_wait ! 0" "\<forall>m\<ge>3. 0 < we_visible ex_wait m" "3 + (0 - we_start ex_wait) < 50000"
    by (simp_all add: ex_wait_def)
  have q: "rg_request_queue ex_gateway = []" by (simp add: ex_gateway_def)
  from rest_order_answered [OF b ex_config ex_valid _ _ _ _ e(1,2,3) r(1,2) _ e(4,5)] r(3,4) show ?thesis
    unfolding Let_def q by (cases "handle_create_order ex_number ex_number ex_wait (Inr ''ann'') (Json (ex_body ''c1'')) ex_gateway") (simp add: NUL_def char_of_def)
qed

text \<open>
  A client order id that does not fit its field is sent cut off, but the answers are compared with the whole
  of it: the order is placed and the client is told that it timed out.
\<close>

theorem long_client_id_times_out:
  assumes "cb_product_id b = TextMember product" and "cb_side b = TextMember side_str" and "cb_client_order_id b = TextMember cloid"
    and "parse_configuration price_of qty_of (cb_order_configuration b) = Inr (Some (ty, tif, px, qty))"
    and "validate_order product (if px \<noteq> NULL_PRICE then px else 0) qty ty g = None"
    and "37 \<le> length cloid" and "\<forall>r\<in>set (we_queue e). \<exists>s. r_client_order_id r = wire 37 s"
  shows "let (reply, g') = handle_create_order price_of qty_of e (Inr uid) (Json b) g in
    reply = GatewayTimeout \<and> length (rg_request_queue g') = Suc (length (rg_request_queue g))"
proof -
  have wait: "wait_for (\<lambda>r. r_user_id r = uid \<and> r_client_order_id r = cloid) 50000 e = None"
  proof (rule ccontr)
    assume "wait_for (\<lambda>r. r_user_id r = uid \<and> r_client_order_id r = cloid) 50000 e \<noteq> None"
    then obtain r where "wait_for (\<lambda>r. r_user_id r = uid \<and> r_client_order_id r = cloid) 50000 e = Some r" by blast
    from wait_loop_sound [OF this [unfolded wait_for_def]] obtain k where "k < length (we_queue e)" "r = we_queue e ! k" "r_client_order_id r = cloid" by blast
    then obtain s where "cloid = wire 37 s" using assms(7) nth_mem by metis
    then show False using assms(6) wire_length [of 37 s] by simp
  qed
  show ?thesis unfolding create_order_eq [OF assms(1-5) wait] Let_def prod.case by (simp add: create_reply_def remember_symbol_def)
qed

section \<open>Listing\<close>

lemma collect_eq: "length acc \<le> limit \<Longrightarrow> collect keep limit acc os = acc @ take (limit - length acc) (filter keep os)"
proof (induction os arbitrary: acc)
  case (Cons ord os)
  show ?case
  proof (cases "keep ord \<and> length acc < limit")
    case True
    then have "limit - length acc = Suc (limit - length (acc @ [ord]))" by (simp add: Suc_diff_Suc)
    then show ?thesis using True Cons.IH [of "acc @ [ord]"] by simp
  next
    case False
    then show ?thesis using Cons by (auto simp: not_less)
  qed
qed simp

text \<open>
  A listing shows a client its own orders and nothing else. With a valid token the reply lists, newest
  first, exactly those orders of the token's user, as of the reports read up to now, that pass the
  filters given, up to the limit given; without one, or with a limit that is not a number, nothing is
  shown and nothing changes.
\<close>

theorem rest_listing_exact:
  "handle_get_orders (authenticate decode h1 h2) product_id order_side order_status limit_param rs g =
     (case authenticate decode h1 h2 of
        Inl e \<Rightarrow> (Unauthorized e, g)
      | Inr uid \<Rightarrow> (case parse_limit limit_param of
          None \<Rightarrow> (InvalidArgument, g)
        | Some limit \<Rightarrow> (OrdersListed (take limit (filter (listed product_id order_side order_status) (orders_of uid (drain 4096 rs (rg_orders g))))),
            g\<lparr>rg_orders := drain 4096 rs (rg_orders g)\<rparr>)))"
  by (simp add: handle_get_orders_def collect_eq Let_def split: sum.split option.split)

section \<open>Cancelling\<close>

definition refusal :: "wait_env \<Rightarrow> string \<Rightarrow> OrdRejectReason" where
  "refusal e uid = (case wait_for (\<lambda>r. r_user_id r = uid \<and> r_request_time r = we_now e) (we_polls e) e of
      Some r \<Rightarrow> if r_order_status r = OS_REJECTED then r_reject_reason r else RJ_NONE
    | None \<Rightarrow> RJ_NONE)"

definition cancel_request :: "wait_env \<Rightarrow> string \<Rightarrow> string \<Rightarrow> string \<Rightarrow> Request" where
  "cancel_request e uid oid name = \<lparr>time_stamp = we_now e, req_symbol = wire 32 name, req_request_tag = we_tag e,
     body = ORDER_CANCEL_REQUEST \<lparr>co_user_id = wire 37 uid, co_order_id = wire 37 oid, co_client_order_id = []\<rparr>\<rparr>"

lemma cancel_one_eq: "cancel_one e uid oid g = (case rg_order_id_to_symbol g oid of
    None \<Rightarrow> ((False, RJ_NONE), g)
  | Some name \<Rightarrow> ((True, refusal e uid), g\<lparr>rg_request_queue := rg_request_queue g @ [cancel_request e uid oid name]\<rparr>))"
  by (simp add: cancel_one_def refusal_def cancel_request_def Let_def split: option.split)

lemma cancel_each_eq:
  "cancel_each env uid i (map TextMember oids) g =
     Inr (map (\<lambda>(k, oid). (oid, (rg_order_id_to_symbol g oid \<noteq> None, if rg_order_id_to_symbol g oid = None then RJ_NONE else refusal (env k) uid))) (zip [i..<i + length oids] oids),
       g\<lparr>rg_request_queue := rg_request_queue g @
         concat (map (\<lambda>(k, oid). case rg_order_id_to_symbol g oid of None \<Rightarrow> [] | Some name \<Rightarrow> [cancel_request (env k) uid oid name]) (zip [i..<i + length oids] oids))\<rparr>)"
proof (induction oids arbitrary: i g)
  case (Cons oid oids)
  have z: "zip [i..<i + length (oid # oids)] (oid # oids) = (i, oid) # zip [Suc i..<Suc i + length oids] oids" by (simp add: upt_rec)
  show ?case using Cons.IH [of "Suc i"] unfolding z by (cases "rg_order_id_to_symbol g oid") (simp_all add: cancel_one_eq)
qed simp

lemma forget_lookup:
  "rg_order_id_to_symbol (forget_cancelled entries g) oid = (if (oid, True, RJ_NONE) \<in> set entries then None else rg_order_id_to_symbol g oid)"
proof -
  have "foldl (\<lambda>m (oid, submitted, reason). if submitted \<and> reason = RJ_NONE then m(oid := None) else m) m entries oid =
      (if (oid, True, RJ_NONE) \<in> set entries then None else m oid)" for m :: "string \<rightharpoonup> string"
    by (induction entries arbitrary: m) (auto split: prod.splits)
  then show ?thesis by (simp add: forget_cancelled_def)
qed

text \<open>
  C31. A batch is cancelled order by order. The reply has one result per id, in order: an id the gateway
  does not know fails and is not submitted, any other is submitted in its turn, under the name of its
  product and without a client order id, fails with the reason of the exchange if a refusal arrives
  within the wait, and succeeds otherwise. Exactly the ids that succeeded are forgotten.
\<close>

theorem rest_batch_cancelled:
  assumes "oids \<noteq> []"
  shows "let (reply, g') = handle_batch_cancel env (Inr uid) (Json (Some (map TextMember oids))) g;
             known = (\<lambda>oid. rg_order_id_to_symbol g oid \<noteq> None);
             ok = (\<lambda>k. known (oids ! k) \<and> refusal (env k) uid = RJ_NONE)
    in (\<exists>results. reply = CancelResults results \<and> length results = length oids \<and>
          (\<forall>k < length oids. results ! k = (oids ! k, ok k,
             if \<not> known (oids ! k) then ''UNKNOWN_ORDER'' else if ok k then '''' else to_string_OrdRejectReason (refusal (env k) uid)))) \<and>
       rg_request_queue g' = rg_request_queue g @ map (\<lambda>k. cancel_request (env k) uid (oids ! k) (the (rg_order_id_to_symbol g (oids ! k))))
         (filter (\<lambda>k. known (oids ! k)) [0..<length oids]) \<and>
       (\<forall>oid. rg_order_id_to_symbol g' oid = (if \<exists>k < length oids. oids ! k = oid \<and> ok k then None else rg_order_id_to_symbol g oid))"
proof -
  let ?z = "zip [0..<length oids] oids"
  let ?entry = "\<lambda>(k, oid). (oid, (rg_order_id_to_symbol g oid \<noteq> None, if rg_order_id_to_symbol g oid = None then RJ_NONE else refusal (env k) uid))"
  let ?reqs = "\<lambda>(k, oid). case rg_order_id_to_symbol g oid of None \<Rightarrow> [] | Some name \<Rightarrow> [cancel_request (env k) uid oid name]"
  have run: "handle_batch_cancel env (Inr uid) (Json (Some (map TextMember oids))) g =
      (CancelResults (map cancel_result (map ?entry ?z)), forget_cancelled (map ?entry ?z) (g\<lparr>rg_request_queue := rg_request_queue g @ concat (map ?reqs ?z)\<rparr>))"
    using assms cancel_each_eq [of env uid 0 oids g] by (simp add: handle_batch_cancel_def)
  have z: "?z = map (\<lambda>k. (k, oids ! k)) [0..<length oids]" by (rule nth_equalityI) simp_all
  have reqs: "concat (map ?reqs ?z) = map (\<lambda>k. cancel_request (env k) uid (oids ! k) (the (rg_order_id_to_symbol g (oids ! k))))
      (filter (\<lambda>k. rg_order_id_to_symbol g (oids ! k) \<noteq> None) [0..<length oids])"
  proof -
    have "concat (map ?reqs (map (\<lambda>k. (k, oids ! k)) ks)) = map (\<lambda>k. cancel_request (env k) uid (oids ! k) (the (rg_order_id_to_symbol g (oids ! k))))
        (filter (\<lambda>k. rg_order_id_to_symbol g (oids ! k) \<noteq> None) ks)" for ks by (induction ks) (auto split: option.splits)
    then show ?thesis unfolding z .
  qed
  have "(oid, True, RJ_NONE) \<in> set (map ?entry ?z) \<longleftrightarrow> (\<exists>k < length oids. oids ! k = oid \<and> rg_order_id_to_symbol g (oids ! k) \<noteq> None \<and> refusal (env k) uid = RJ_NONE)" for oid
    unfolding z by (auto split: if_splits)
  note mem = this
  define results where "results = map cancel_result (map ?entry ?z)"
  have "length results = length oids" by (simp add: results_def)
  moreover have "results ! k = (oids ! k, rg_order_id_to_symbol g (oids ! k) \<noteq> None \<and> refusal (env k) uid = RJ_NONE,
      if \<not> rg_order_id_to_symbol g (oids ! k) \<noteq> None then ''UNKNOWN_ORDER''
      else if rg_order_id_to_symbol g (oids ! k) \<noteq> None \<and> refusal (env k) uid = RJ_NONE then '''' else to_string_OrdRejectReason (refusal (env k) uid))"
    if "k < length oids" for k using that by (simp add: results_def cancel_result_def)
  ultimately have res: "\<exists>rs. CancelResults results = CancelResults rs \<and> length rs = length oids \<and> (\<forall>k < length oids. rs ! k =
      (oids ! k, rg_order_id_to_symbol g (oids ! k) \<noteq> None \<and> refusal (env k) uid = RJ_NONE,
       if \<not> rg_order_id_to_symbol g (oids ! k) \<noteq> None then ''UNKNOWN_ORDER''
       else if rg_order_id_to_symbol g (oids ! k) \<noteq> None \<and> refusal (env k) uid = RJ_NONE then '''' else to_string_OrdRejectReason (refusal (env k) uid)))" by blast
  have q: "rg_request_queue (forget_cancelled es h) = rg_request_queue h" for es h by (simp add: forget_cancelled_def)
  show ?thesis unfolding run results_def [symmetric] Let_def prod.case
  proof (intro conjI allI)
    show "rg_order_id_to_symbol (forget_cancelled (map ?entry ?z) (g\<lparr>rg_request_queue := rg_request_queue g @ concat (map ?reqs ?z)\<rparr>)) oid =
        (if \<exists>k < length oids. oids ! k = oid \<and> rg_order_id_to_symbol g (oids ! k) \<noteq> None \<and> refusal (env k) uid = RJ_NONE then None else rg_order_id_to_symbol g oid)" for oid
      unfolding forget_lookup mem by auto
  qed (rule res, unfold q reqs, simp)
qed

theorem rest_batch_cancelled_witness:
  "let g = ex_gateway\<lparr>rg_order_id_to_symbol := [''id-7'' \<mapsto> ''BTC-USD'']\<rparr>; (reply, g') = handle_batch_cancel (\<lambda>_. ex_wait) (Inr ''bob'') (Json (Some (map TextMember [''x'', ''id-7'']))) g
   in rg_order_id_to_symbol g' ''id-7'' = None \<and> length (rg_request_queue g') = 1"
proof -
  let ?g = "ex_gateway\<lparr>rg_order_id_to_symbol := [''id-7'' \<mapsto> ''BTC-USD'']\<rparr>" and ?ids = "[''x'', ''id-7'']"
  have "wait_loop (\<lambda>r. r_user_id r = ''bob'' \<and> P r) [ex_answer] (we_visible ex_wait) n i k = None" for P n i k
  proof (rule ccontr)
    assume "wait_loop (\<lambda>r. r_user_id r = ''bob'' \<and> P r) [ex_answer] (we_visible ex_wait) n i k \<noteq> None"
    then obtain r where "wait_loop (\<lambda>r. r_user_id r = ''bob'' \<and> P r) [ex_answer] (we_visible ex_wait) n i k = Some r" by blast
    from wait_loop_sound [OF this] have "r_user_id ex_answer = ''bob''" by auto
    then show False by (simp add: ex_answer_def)
  qed
  then have r: "refusal ex_wait ''bob'' = RJ_NONE" unfolding refusal_def wait_for_def by (simp add: ex_wait_def [THEN arg_cong, of we_queue])
  obtain reply g' where h: "handle_batch_cancel (\<lambda>_. ex_wait) (Inr ''bob'') (Json (Some (map TextMember ?ids))) ?g = (reply, g')" by fastforce
  have ne: "?ids \<noteq> []" by simp
  note t = rest_batch_cancelled [OF ne, of "\<lambda>_. ex_wait" "''bob''" ?g, unfolded h Let_def prod.case]
  note c = t [THEN conjunct2, THEN conjunct1] t [THEN conjunct2, THEN conjunct2, rule_format, of "''id-7''"]
  have "\<exists>k < length ?ids. ?ids ! k = ''id-7'' \<and> rg_order_id_to_symbol ?g (?ids ! k) \<noteq> None \<and> refusal ex_wait ''bob'' = RJ_NONE"
    by (rule exI [of _ 1]) (simp add: r)
  then have "rg_order_id_to_symbol g' ''id-7'' = None" unfolding c(2) by (simp only: if_True)
  moreover have "length (rg_request_queue g') = 1" unfolding c(1) by (simp add: upt_rec ex_gateway_def)
  ultimately show ?thesis unfolding Let_def h prod.case by blast
qed

end
