(* ===== verification/Hyperliquid_Rest_Gateway.thy ===== *)
theory Hyperliquid_Rest_Gateway
  imports Rest_Wait
begin

text \<open>
  \<open>src/src/venues/hyperliquid/hyperliquid_rest_order_gateway.cpp\<close>: the Hyperliquid exchange endpoint. An
  action is seen through the members the handler reads, \<open>MalformedAction\<close> being one that is no object or
  whose type is no text; each entry has the asset member \<open>a\<close>, without which the source is undefined. The asset table of the Hyperliquid client
  library, the reading of a decimal text into a price or a quantity and the clock are parameters. The
  slot of a request keeps what the handler does not write, so its earlier content is part of the
  environment. \<open>None\<close> as the result of a step is an exception, which the endpoint answers as an error.
\<close>

section \<open>Messages\<close>

datatype 'v member = Missing | Value 'v | WrongType

fun value_or :: "'v \<Rightarrow> 'v member \<Rightarrow> 'v option" where
  "value_or d Missing = Some d"
| "value_or d (Value v) = Some v"
| "value_or d WrongType = None"

datatype asset = AssetIndex int | AssetName string | AssetOther

text \<open>The type member \<open>t\<close>: absent, a limit with its time in force, a trigger, or neither.\<close>

datatype order_kind = NoKind | LimitKind "string member" | TriggerKind | OtherKind

record hl_order =
  ho_a :: asset
  ho_b :: "bool member"
  ho_p :: "string member"
  ho_s :: "string member"
  ho_r :: "bool member"
  ho_t :: order_kind
  ho_c :: "string member"

record hl_cancel =
  hc_a :: asset
  hc_o :: "int member"
  hc_c :: "string member"

record hl_modify =
  hm_oid :: "int member"
  hm_order :: "hl_order option"

datatype hl_action = OrderAction "hl_order list option" | CancelAction "hl_cancel list option" | CancelByCloidAction "hl_cancel list option"
  | BatchModifyAction "hl_modify list option" | UnsupportedAction string | MalformedAction | NoAction

datatype hr_status = StError string | StResting int | StSuccess int | StSuccessCloid string

datatype hr_reply = HrError string | HrOk string "hr_status list"

text \<open>
  The environment of a request: the wait, the clock read for a client order id of its own, and the ids its
  slot still holds.
\<close>

record rest_slot = wait_env +
  sl_cloid_time :: time_ns
  sl_order_id :: string
  sl_client_order_id :: string

section \<open>Helpers\<close>

text \<open>\<open>std::stoll\<close>: the leading number; it raises without one or when it does not fit.\<close>

definition stoll :: "string \<Rightarrow> int option" where
  "stoll s =
     (let s1 = dropWhile (\<lambda>c. c \<in> {CHR '' '', CHR 0x09, CHR 0x0A, CHR 0x0B, CHR 0x0C, CHR 0x0D}) s;
          s2 = (if s1 \<noteq> [] \<and> (hd s1 = CHR ''-'' \<or> hd s1 = CHR ''+'') then tl s1 else s1);
          ds = takeWhile (\<lambda>c. of_char c \<ge> (48 :: nat) \<and> of_char c \<le> (57 :: nat)) s2;
          v = (if s1 \<noteq> [] \<and> hd s1 = CHR ''-'' then - int (digits_value ds) else int (digits_value ds))
      in if ds = [] \<or> \<not> int64_ok v then None else Some v)"

text \<open>\<open>coins\<close> is the client library's table; the coin of an index it does not have is empty.\<close>

definition coin_for_asset :: "(string \<rightharpoonup> string) \<Rightarrow> int \<Rightarrow> string" where
  "coin_for_asset coins asset_index = (case coins (CHR ''@'' # to_string_int asset_index) of Some c \<Rightarrow> c | None \<Rightarrow> [])"

definition asset_idx :: "asset \<Rightarrow> int" where
  "asset_idx a = (case a of AssetIndex i \<Rightarrow> i | _ \<Rightarrow> - 1)"

fun is_string :: "asset \<Rightarrow> bool" where
  "is_string (AssetName n) = True"
| "is_string _ = False"

text \<open>The coin by its index, or else by its name.\<close>

definition coin_of :: "(string \<rightharpoonup> string) \<Rightarrow> asset \<Rightarrow> string" where
  "coin_of coins a = (let c = coin_for_asset coins (asset_idx a) in if c \<noteq> [] then c else case a of AssetName n \<Rightarrow> n | _ \<Rightarrow> [])"

definition extract_wallet :: "string \<Rightarrow> string member \<Rightarrow> string \<Rightarrow> string option" where
  "extract_wallet hdr vault_address default_wallet = (if hdr \<noteq> [] then Some hdr else value_or default_wallet vault_address)"

definition order_tif :: "order_kind \<Rightarrow> TimeInForce option" where
  "order_tif t = (case t of
      LimitKind m \<Rightarrow> map_option (\<lambda>tif_str. if tif_str = ''Ioc'' then TIF_IMMEDIATE_OR_CANCEL else TIF_GOOD_TILL_CANCEL) (value_or ''Gtc'' m)
    | _ \<Rightarrow> Some TIF_GOOD_TILL_CANCEL)"

section \<open>Orders\<close>

definition order_answer :: "OrderResponse option \<Rightarrow> hr_status option" where
  "order_answer resp = (case resp of
      None \<Rightarrow> Some (StError ''timeout'')
    | Some r \<Rightarrow>
        if r_order_status r = OS_REJECTED then Some (StError (to_string_OrdRejectReason (r_reject_reason r)))
        else if r_order_id r = [] then Some (StResting 0)
        else map_option StResting (stoll (r_order_id r)))"

text \<open>One order: its status and the request published for it. An exception may come before or after the request.\<close>

definition order_one :: "(string \<rightharpoonup> string) \<Rightarrow> (string \<Rightarrow> int option) \<Rightarrow> (string \<Rightarrow> int option) \<Rightarrow> rest_slot \<Rightarrow> string \<Rightarrow> hl_order \<Rightarrow>
    hr_status option \<times> Request list" where
  "order_one coins price_of qty_of e uid order =
     (case (value_or True (ho_b order), value_or ''0'' (ho_p order), value_or ''0'' (ho_s order), value_or False (ho_r order)) of
        (Some is_buy, Some price_str, Some size_str, Some _) \<Rightarrow>
          (let asset_index = asset_idx (ho_a order);
               coin0 = coin_for_asset coins asset_index
           in if coin0 = [] \<and> \<not> is_string (ho_a order) then (Some (StError (''unknown asset index '' @ to_string_int asset_index)), [])
              else case (price_of price_str, qty_of size_str, order_tif (ho_t order)) of
                (Some px, Some qty, Some tif) \<Rightarrow>
                  (let coin = (if coin0 = [] then (case ho_a order of AssetName n \<Rightarrow> n | _ \<Rightarrow> []) else coin0);
                       cloid = (case ho_c order of Value c \<Rightarrow> c | _ \<Rightarrow> ''hl_'' @ to_string_nat (sl_cloid_time e));
                       request = \<lparr>time_stamp = we_now e, req_symbol = wire 32 coin, req_request_tag = we_tag e,
                         body = NEW_ORDER_SINGLE \<lparr>ao_user_id = wire 37 uid, ao_client_order_id = wire 37 cloid, ao_side = (if is_buy then BUY else SELL),
                           ao_type = OT_LIMIT, ao_time_in_force = tif, ao_price = px, ao_qty = qty\<rparr>\<rparr>;
                       resp = wait_loop (\<lambda>r. r_user_id r = wire 37 uid \<and> r_client_order_id r = wire 37 cloid) (we_queue e) (we_visible e) (we_polls e) 0 (we_start e)
                   in (order_answer resp, [request]))
              | _ \<Rightarrow> (None, []))
      | _ \<Rightarrow> (None, []))"

section \<open>Cancelling and amending\<close>

definition cancel_by_oid :: "(string \<rightharpoonup> string) \<Rightarrow> rest_slot \<Rightarrow> string \<Rightarrow> hl_cancel \<Rightarrow> hr_status option \<times> Request list" where
  "cancel_by_oid coins e uid c =
     (let oid = (case hc_o c of Value o' \<Rightarrow> o' | _ \<Rightarrow> 0);
          coin = coin_of coins (hc_a c)
      in if coin = [] then (Some (StError ''unknown asset''), [])
         else (Some (StSuccess oid), [\<lparr>time_stamp = we_now e, req_symbol = wire 32 coin, req_request_tag = we_tag e,
           body = ORDER_CANCEL_REQUEST \<lparr>co_user_id = wire 37 uid, co_order_id = wire 37 (to_string_int oid), co_client_order_id = sl_client_order_id e\<rparr>\<rparr>]))"

definition cancel_by_cloid :: "(string \<rightharpoonup> string) \<Rightarrow> rest_slot \<Rightarrow> string \<Rightarrow> hl_cancel \<Rightarrow> hr_status option \<times> Request list" where
  "cancel_by_cloid coins e uid c = (case value_or [] (hc_c c) of
      None \<Rightarrow> (None, [])
    | Some cloid \<Rightarrow>
        (let coin = coin_of coins (hc_a c)
         in if coin = [] \<or> cloid = [] then (Some (StError ''invalid cancel request''), [])
            else (Some (StSuccessCloid cloid), [\<lparr>time_stamp = we_now e, req_symbol = wire 32 coin, req_request_tag = we_tag e,
              body = ORDER_CANCEL_REQUEST \<lparr>co_user_id = wire 37 uid, co_order_id = sl_order_id e, co_client_order_id = wire 37 cloid\<rparr>\<rparr>])))"

definition modify_one :: "(string \<rightharpoonup> string) \<Rightarrow> (string \<Rightarrow> int option) \<Rightarrow> (string \<Rightarrow> int option) \<Rightarrow> rest_slot \<Rightarrow> string \<Rightarrow> hl_modify \<Rightarrow>
    hr_status option \<times> Request list" where
  "modify_one coins price_of qty_of e uid m = (case value_or 0 (hm_oid m) of
      None \<Rightarrow> (None, [])
    | Some oid \<Rightarrow>
        (case hm_order m of
           None \<Rightarrow> (Some (StError ''missing order in modify''), [])
         | Some order \<Rightarrow>
             (case (value_or ''0'' (ho_p order), value_or ''0'' (ho_s order)) of
                (Some price_str, Some size_str) \<Rightarrow>
                  (let coin = coin_of coins (ho_a order)
                   in if coin = [] then (Some (StError ''unknown asset''), [])
                      else case (price_of price_str, qty_of size_str) of
                        (Some px, Some qty) \<Rightarrow> (Some (StSuccess oid), [\<lparr>time_stamp = we_now e, req_symbol = wire 32 coin, req_request_tag = we_tag e,
                           body = ORDER_REPLACE_REQUEST \<lparr>mo_user_id = wire 37 uid, mo_order_id = wire 37 (to_string_int oid), mo_client_order_id = sl_client_order_id e,
                             mo_new_price = px, mo_new_qty = qty\<rparr>\<rparr>])
                      | _ \<Rightarrow> (None, []))
              | _ \<Rightarrow> (None, []))))"

section \<open>The endpoint\<close>

text \<open>The entries of an action, each in its own environment; an exception ends the batch, with what was published so far.\<close>

fun process_each :: "(rest_slot \<Rightarrow> 'a \<Rightarrow> hr_status option \<times> Request list) \<Rightarrow> (nat \<Rightarrow> rest_slot) \<Rightarrow> nat \<Rightarrow> 'a list \<Rightarrow> hr_status list option \<times> Request list" where
  "process_each f env i [] = (Some [], [])"
| "process_each f env i (x # xs) = (case f (env i) x of
      (None, requests) \<Rightarrow> (None, requests)
    | (Some st, requests) \<Rightarrow> (case process_each f env (i + 1) xs of (statuses, rest) \<Rightarrow> (map_option ((#) st) statuses, requests @ rest)))"

definition action_reply :: "string \<Rightarrow> hr_status list option \<Rightarrow> hr_reply" where
  "action_reply ty statuses = (case statuses of None \<Rightarrow> HrError ''parse error'' | Some sts \<Rightarrow> HrOk ty sts)"

definition process_batch :: "string \<Rightarrow> string \<Rightarrow> (rest_slot \<Rightarrow> 'a \<Rightarrow> hr_status option \<times> Request list) \<Rightarrow> (nat \<Rightarrow> rest_slot) \<Rightarrow> 'a list option \<Rightarrow>
    hr_reply \<times> Request list" where
  "process_batch ty missing f env entries = (case entries of
      None \<Rightarrow> (HrError missing, [])
    | Some xs \<Rightarrow> (case process_each f env 0 xs of (statuses, requests) \<Rightarrow> (action_reply ty statuses, requests)))"

definition handle_exchange :: "(string \<rightharpoonup> string) \<Rightarrow> (string \<Rightarrow> int option) \<Rightarrow> (string \<Rightarrow> int option) \<Rightarrow> (nat \<Rightarrow> rest_slot) \<Rightarrow>
    string option \<Rightarrow> hl_action \<Rightarrow> hr_reply \<times> Request list" where
  "handle_exchange coins price_of qty_of env wallet action = (case wallet of
      None \<Rightarrow> (HrError ''parse error'', [])
    | Some uid \<Rightarrow>
        (case action of
           NoAction \<Rightarrow> (HrError ''missing action'', [])
         | MalformedAction \<Rightarrow> (HrError ''parse error'', [])
         | OrderAction orders \<Rightarrow> process_batch ''order'' ''missing orders array'' (\<lambda>e. order_one coins price_of qty_of e uid) env orders
         | CancelAction cancels \<Rightarrow> process_batch ''cancel'' ''missing cancels array'' (\<lambda>e. cancel_by_oid coins e uid) env cancels
         | CancelByCloidAction cancels \<Rightarrow> process_batch ''cancel'' ''missing cancels array'' (\<lambda>e. cancel_by_cloid coins e uid) env cancels
         | BatchModifyAction modifies \<Rightarrow> process_batch ''batchModify'' ''missing modifies array'' (\<lambda>e. modify_one coins price_of qty_of e uid) env modifies
         | UnsupportedAction ty \<Rightarrow> (HrError (''unsupported action type: '' @ ty), [])))"

end
