(* ===== verification/Hyperliquid_Rest_Properties.thy ===== *)
theory Hyperliquid_Rest_Properties
  imports Hyperliquid_Rest_Gateway
begin

text \<open>The properties of the Hyperliquid exchange endpoint: the orders of an action, their requests and their answers.\<close>

section \<open>One order\<close>

text \<open>What an order asks for, and how its members say it.\<close>

record ticket =
  tk_coin :: string
  tk_buy :: bool
  tk_price :: price_t
  tk_qty :: qty_t
  tk_tif :: TimeInForce
  tk_cloid :: string

definition asks_for :: "(string \<rightharpoonup> string) \<Rightarrow> (string \<Rightarrow> int option) \<Rightarrow> (string \<Rightarrow> int option) \<Rightarrow> hl_order \<Rightarrow> ticket \<Rightarrow> bool" where
  "asks_for coins price_of qty_of ord t \<longleftrightarrow>
     (case ho_a ord of AssetIndex a \<Rightarrow> coins (CHR ''@'' # to_string_int a) = Some (tk_coin t) | _ \<Rightarrow> False) \<and> tk_coin t \<noteq> [] \<and>
     ho_b ord = Value (tk_buy t) \<and> ho_r ord \<noteq> WrongType \<and>
     Option.bind (value_or ''0'' (ho_p ord)) price_of = Some (tk_price t) \<and> Option.bind (value_or ''0'' (ho_s ord)) qty_of = Some (tk_qty t) \<and>
     order_tif (ho_t ord) = Some (tk_tif t) \<and> ho_c ord = Value (tk_cloid t)"

definition ticket_request :: "rest_slot \<Rightarrow> string \<Rightarrow> ticket \<Rightarrow> Request" where
  "ticket_request e uid t = \<lparr>time_stamp = we_now e, req_symbol = wire 32 (tk_coin t), req_request_tag = we_tag e,
     body = NEW_ORDER_SINGLE \<lparr>ao_user_id = wire 37 uid, ao_client_order_id = wire 37 (tk_cloid t), ao_side = (if tk_buy t then BUY else SELL),
       ao_type = OT_LIMIT, ao_time_in_force = tk_tif t, ao_price = tk_price t, ao_qty = tk_qty t\<rparr>\<rparr>"

text \<open>The first response to the order, and that it can be seen while enough polls are left to read up to it.\<close>

definition answered_in_time :: "rest_slot \<Rightarrow> string \<Rightarrow> ticket \<Rightarrow> OrderResponse \<Rightarrow> bool" where
  "answered_in_time e uid t r \<longleftrightarrow> (\<exists>j i0. we_start e \<le> j \<and> j < length (we_queue e) \<and> r = we_queue e ! j \<and>
     r_user_id r = wire 37 uid \<and> r_client_order_id r = wire 37 (tk_cloid t) \<and>
     (\<forall>l. we_start e \<le> l \<and> l < j \<longrightarrow> \<not> (r_user_id (we_queue e ! l) = wire 37 uid \<and> r_client_order_id (we_queue e ! l) = wire 37 (tk_cloid t))) \<and>
     (\<forall>m\<ge>i0. j < we_visible e m) \<and> i0 + (j - we_start e) < we_polls e)"

lemma order_one_eq:
  assumes "asks_for coins price_of qty_of ord t"
  shows "order_one coins price_of qty_of e uid ord =
    (order_answer (wait_loop (\<lambda>r. r_user_id r = wire 37 uid \<and> r_client_order_id r = wire 37 (tk_cloid t)) (we_queue e) (we_visible e) (we_polls e) 0 (we_start e)),
     [ticket_request e uid t])"
proof -
  obtain a p s where m: "ho_a ord = AssetIndex a" "coins (CHR ''@'' # to_string_int a) = Some (tk_coin t)" "tk_coin t \<noteq> []" "ho_b ord = Value (tk_buy t)"
      "value_or ''0'' (ho_p ord) = Some p" "price_of p = Some (tk_price t)" "value_or ''0'' (ho_s ord) = Some s" "qty_of s = Some (tk_qty t)"
      "order_tif (ho_t ord) = Some (tk_tif t)" "ho_c ord = Value (tk_cloid t)"
    using assms by (auto simp: asks_for_def bind_eq_Some_conv split: asset.splits)
  moreover obtain ro where "value_or False (ho_r ord) = Some ro" using assms by (cases "ho_r ord") (auto simp: asks_for_def)
  ultimately show ?thesis by (simp add: order_one_def ticket_request_def coin_for_asset_def asset_idx_def Let_def)
qed

lemma order_one_answered:
  assumes "asks_for coins price_of qty_of ord t" and "answered_in_time e uid t r"
  shows "order_one coins price_of qty_of e uid ord = (order_answer (Some r), [ticket_request e uid t])"
proof -
  from assms(2) obtain j i0 where j: "we_start e \<le> j" "j < length (we_queue e)" "r = we_queue e ! j" "r_user_id r = wire 37 uid" "r_client_order_id r = wire 37 (tk_cloid t)"
      "\<forall>l. we_start e \<le> l \<and> l < j \<longrightarrow> \<not> (r_user_id (we_queue e ! l) = wire 37 uid \<and> r_client_order_id (we_queue e ! l) = wire 37 (tk_cloid t))"
      "\<forall>m\<ge>i0. j < we_visible e m" "i0 + (j - we_start e) < we_polls e" unfolding answered_in_time_def by blast
  have "wait_loop (\<lambda>r. r_user_id r = wire 37 uid \<and> r_client_order_id r = wire 37 (tk_cloid t)) (we_queue e) (we_visible e) (we_polls e) 0 (we_start e) = Some (we_queue e ! j)"
    by (rule wait_loop_finds [OF j(2) _ j(6,1,7)]) (use j(3,4,5,8) in simp_all)
  then show ?thesis unfolding order_one_eq [OF assms(1)] j(3) by simp
qed

section \<open>A batch\<close>

lemma process_each_all:
  assumes "\<forall>k < length xs. f (env (i + k)) (xs ! k) = (Some (st (i + k)), rq (i + k))"
  shows "process_each f env i xs = (Some (map st [i..<i + length xs]), concat (map rq [i..<i + length xs]))"
  using assms
proof (induction xs arbitrary: i)
  case (Cons x xs)
  have "\<forall>k < length xs. f (env (i + 1 + k)) (xs ! k) = (Some (st (i + 1 + k)), rq (i + 1 + k))"
  proof (intro allI impI)
    fix k assume "k < length xs"
    then show "f (env (i + 1 + k)) (xs ! k) = (Some (st (i + 1 + k)), rq (i + 1 + k))" using Cons.prems [rule_format, of "Suc k"] by simp
  qed
  moreover have "[i..<i + length (x # xs)] = i # [i + 1..<i + 1 + length xs]" by (simp add: upt_rec)
  ultimately show ?case using Cons.IH [of "i + 1"] Cons.prems [rule_format, of 0] by (simp del: upt_Suc)
qed simp

lemma process_each_raises:
  "f (env i) x = (None, rq) \<Longrightarrow> process_each f env i (x # xs) = (None, rq)"
  by simp

text \<open>
  C32. Every order of an action is placed and answered. When each entry names an asset of the venue's table
  and has a side and numbers that read, the requests published are exactly those the entries ask for, in
  their order, each with its coin, side, price, quantity and time in force; and when the first answer to each
  can be seen within its wait and has a numeric order id unless it is a refusal, the reply has one
  status per entry, in order: the refusal with its reason, or the id of the resting order. Client order
  ids of any length are covered, because the answers are compared with the id as it was sent.
\<close>

theorem hl_orders_answered:
  assumes "length tickets = length orders" and "length answers = length orders"
    and "\<forall>k < length orders. asks_for coins price_of qty_of (orders ! k) (tickets ! k)"
    and "\<forall>k < length orders. answered_in_time (env k) uid (tickets ! k) (answers ! k)"
    and "\<forall>k < length orders. r_order_status (answers ! k) = OS_REJECTED \<or> stoll (r_order_id (answers ! k)) = Some (oid k)"
  shows "handle_exchange coins price_of qty_of env (Some uid) (OrderAction (Some orders)) =
    (HrOk ''order'' (map (\<lambda>k. if r_order_status (answers ! k) = OS_REJECTED then StError (to_string_OrdRejectReason (r_reject_reason (answers ! k))) else StResting (oid k)) [0..<length orders]),
     map (\<lambda>k. ticket_request (env k) uid (tickets ! k)) [0..<length orders])"
proof -
  let ?st = "\<lambda>k. if r_order_status (answers ! k) = OS_REJECTED then StError (to_string_OrdRejectReason (r_reject_reason (answers ! k))) else StResting (oid k)"
  let ?rq = "\<lambda>k. [ticket_request (env k) uid (tickets ! k)]"
  have "order_one coins price_of qty_of (env k) uid (orders ! k) = (Some (?st k), ?rq k)" if k: "k < length orders" for k
    using order_one_answered [OF assms(3) [rule_format, OF k] assms(4) [rule_format, OF k]] assms(5) [rule_format, OF k]
    by (auto simp: order_answer_def stoll_def)
  then have "process_each (\<lambda>e. order_one coins price_of qty_of e uid) env 0 orders = (Some (map ?st [0..<length orders]), concat (map ?rq [0..<length orders]))"
    using process_each_all [where i = 0 and xs = orders and st = ?st and rq = ?rq and f = "\<lambda>e. order_one coins price_of qty_of e uid" and env = env] by simp
  then show ?thesis by (simp add: handle_exchange_def process_batch_def action_reply_def)
qed

definition hl_coins :: "string \<rightharpoonup> string" where
  "hl_coins = [''@7'' \<mapsto> ''HYPE/USDC'']"

definition hl_number :: "string \<Rightarrow> int option" where
  "hl_number s = Some (int (digits_value s))"

definition hl_ticket :: ticket where
  "hl_ticket = \<lparr>tk_coin = ''HYPE/USDC'', tk_buy = True, tk_price = 100, tk_qty = 2, tk_tif = TIF_IMMEDIATE_OR_CANCEL, tk_cloid = ''c1''\<rparr>"

definition hl_entry :: hl_order where
  "hl_entry = \<lparr>ho_a = AssetIndex 7, ho_b = Value True, ho_p = Value ''100'', ho_s = Value ''2'', ho_r = Missing, ho_t = LimitKind (Value ''Ioc''), ho_c = Value ''c1''\<rparr>"

definition hl_response :: "string \<Rightarrow> OrderResponse" where
  "hl_response oid = \<lparr>r_symbol = ''HYPE/USDC'', r_user_id = ''0xab'', r_client_order_id = ''c1'', r_order_id = oid, r_error_message = [],
     r_response_type = MT_EXECUTION_REPORT, r_exec_type = ET_NEW, r_order_status = OS_PENDING_NEW, r_order_type = OT_LIMIT, r_time_in_force = TIF_IMMEDIATE_OR_CANCEL,
     r_price = 100, r_last_fill_price = 0, r_avg_fill_price = 0, r_qty = 2, r_last_qty = 0, r_cum_qty = 0, r_leaves_qty = 2, r_reject_reason = RJ_NONE,
     r_creation_time = 1, r_request_time = 1, r_timestamp = 1, r_side = BUY, r_post_only = False, r_order_num = 1, r_request_tag = 0, r_aggressor = False\<rparr>"

definition hl_slot :: "string \<Rightarrow> rest_slot" where
  "hl_slot oid = \<lparr>we_now = 1, we_tag = 0, we_start = 0, we_queue = [hl_response oid], we_visible = (\<lambda>i. if i < 3 then 0 else 1), we_polls = 50000,
     sl_cloid_time = 1, sl_order_id = [], sl_client_order_id = []\<rparr>"

lemma hl_entry_asks: "asks_for hl_coins hl_number hl_number hl_entry hl_ticket"
  by (simp add: asks_for_def hl_coins_def hl_number_def hl_entry_def hl_ticket_def to_string_int_def to_string_nat.simps digit_char_def order_tif_def
      digits_value_def char_digit_def char_of_def bit_0)

lemma hl_slot_answers: "answered_in_time (hl_slot oid) ''0xab'' hl_ticket (hl_response oid)"
proof -
  have w: "wire 37 ''0xab'' = ''0xab''" "wire 37 ''c1'' = ''c1''" by (rule wire_id, simp_all add: NUL_def char_of_def)+
  show ?thesis unfolding answered_in_time_def
    by (rule exI [of _ 0], rule exI [of _ 3]) (simp add: hl_slot_def hl_response_def hl_ticket_def w)
qed

theorem hl_orders_answered_witness:
  "\<exists>requests. handle_exchange hl_coins hl_number hl_number (\<lambda>_. hl_slot ''42'') (Some ''0xab'') (OrderAction (Some [hl_entry])) = (HrOk ''order'' [StResting 42], requests) \<and>
     map req_symbol requests = [wire 32 ''HYPE/USDC'']"
proof -
  have oid: "stoll ''42'' = Some 42" by (simp add: stoll_def digits_value_def char_digit_def int64_ok_def Let_def)
  have "r_order_id (hl_response ''42'') = ''42''" "r_order_status (hl_response ''42'') \<noteq> OS_REJECTED" by (simp_all add: hl_response_def)
  then show ?thesis
    using hl_orders_answered [where tickets = "[hl_ticket]" and orders = "[hl_entry]" and answers = "[hl_response ''42'']" and oid = "\<lambda>_. 42" and env = "\<lambda>_. hl_slot ''42''",
        where coins = hl_coins and price_of = hl_number and qty_of = hl_number and uid = "''0xab''"] hl_entry_asks hl_slot_answers [of "''42''"] oid
    by (simp add: ticket_request_def hl_ticket_def)
qed

section \<open>Order ids\<close>

text \<open>
  The exchange's order ids are uuids. One that starts with a letter is no number for \<open>std::stoll\<close>: the order
  has been placed, but the client is told that its message did not parse, and the rest of the action is
  not looked at.
\<close>

theorem lettered_order_id_refused:
  assumes "asks_for coins price_of qty_of ord t" and "answered_in_time (env 0) uid t r" and "r_order_status r \<noteq> OS_REJECTED"
    and "r_order_id r = c # rest" and "of_char c \<ge> (97 :: nat)"
  shows "handle_exchange coins price_of qty_of env (Some uid) (OrderAction (Some (ord # orders))) = (HrError ''parse error'', [ticket_request (env 0) uid t])"
proof -
  have "c \<notin> {CHR '' '', CHR 0x09, CHR 0x0A, CHR 0x0B, CHR 0x0C, CHR 0x0D}" "c \<noteq> CHR ''-''" "c \<noteq> CHR ''+''" using assms(5) by auto
  moreover have "\<not> of_char c \<le> (57 :: nat)" using assms(5) by simp
  ultimately have "stoll (c # rest) = None" by (simp add: stoll_def Let_def)
  then have "order_one coins price_of qty_of (env 0) uid ord = (None, [ticket_request (env 0) uid t])"
    using order_one_answered [OF assms(1,2)] assms(3,4) by (simp add: order_answer_def)
  from process_each_raises [where f = "\<lambda>e. order_one coins price_of qty_of e uid" and env = env and i = 0, OF this]
  show ?thesis by (simp add: handle_exchange_def process_batch_def action_reply_def)
qed

lemma to_string_nat_code: "c \<in> set (to_string_nat n) \<Longrightarrow> 48 \<le> (of_char c :: nat)"
  using to_string_nat_digits [of c n] by (auto simp: digit_char_def)

lemma to_string_int_dash: "i < length (to_string_int v) \<Longrightarrow> 0 < i \<Longrightarrow> to_string_int v ! i \<noteq> CHR ''-''"
proof -
  have d: "c \<noteq> CHR ''-''" if "c \<in> set (to_string_nat n)" for c n
    using to_string_nat_code [OF that] by auto
  assume "i < length (to_string_int v)" "0 < i"
  then show ?thesis using d nth_mem by (cases i) (auto simp: to_string_int_def split: if_splits)
qed

text \<open>
  A cancel by order id never names an order: the id sent is a number in decimal, which has no dash after its
  first character, and every uuid has.
\<close>

theorem oid_cancel_names_no_order:
  assumes "cancel_by_oid coins e uid c = (st, [req])" and "req_body = body req" and "k < length uuid" and "0 < k" and "uuid ! k = CHR ''-''"
    and "hc_o c = Value oid" and "length (to_string_int oid) < 37"
  shows "\<exists>co. req_body = ORDER_CANCEL_REQUEST co \<and> co_order_id co \<noteq> uuid \<and> st = Some (StSuccess oid)"
proof -
  have "NUL \<notin> set (to_string_int oid)"
  proof
    assume "NUL \<in> set (to_string_int oid)"
    then have "NUL = CHR ''-'' \<or> (\<exists>n. NUL \<in> set (to_string_nat n))" by (auto simp: to_string_int_def split: if_splits)
    moreover have "of_char NUL = (0 :: nat)" by (simp add: NUL_def)
    ultimately show False using to_string_nat_code [of NUL] by (auto simp: NUL_def char_of_def)
  qed
  then have w: "wire 37 (to_string_int oid) = to_string_int oid" by (rule wire_id) (rule assms(7))
  have "to_string_int oid \<noteq> uuid" using to_string_int_dash [of k oid] assms(3-5) by auto
  then show ?thesis using assms(1,2,6) by (auto simp: cancel_by_oid_def w Let_def split: if_splits)
qed

end
