(* ===== verification/Json_Value.thy ===== *)
theory Json_Value
  imports Sim_Types "HOL-Library.AList"
begin

text \<open>
  JSON documents as the program reads them through the nlohmann library: values with an uninterpreted type
  of numbers, objects as association lists, and the reads the source performs. The library's
  \<open>merge_patch\<close> is a parameter of its users, with the recursion of RFC 7386 as its law.
\<close>

section \<open>Values\<close>

datatype 'n jvalue = JNull | JBool bool | JText string | JNum 'n | JArray "'n jvalue list" | JObject "(string \<times> 'n jvalue) list"

type_synonym 'n jobject = "(string \<times> 'n jvalue) list"

text \<open>\<open>contains\<close>: false for anything but an object.\<close>

fun jcontains :: "string \<Rightarrow> 'n jvalue \<Rightarrow> bool" where
  "jcontains k (JObject m) = (map_of m k \<noteq> None)"
| "jcontains k _ = False"

text \<open>\<open>value(k, true)\<close> of an object; \<open>None\<close> is the exception for a member that is no boolean.\<close>

definition jbool :: "string \<Rightarrow> 'n jobject \<Rightarrow> bool option" where
  "jbool k m = (case map_of m k of None \<Rightarrow> Some True | Some (JBool b) \<Rightarrow> Some b | _ \<Rightarrow> None)"

text \<open>\<open>m[k].get<std::string>()\<close>; \<open>None\<close> is the exception for a member that is missing or no text.\<close>

definition jtext :: "string \<Rightarrow> 'n jobject \<Rightarrow> string option" where
  "jtext k m = (case map_of m k of Some (JText s) \<Rightarrow> Some s | _ \<Rightarrow> None)"

section \<open>Merging\<close>

text \<open>What RFC 7386 says of every member of a patched object.\<close>

definition patched :: "('n jobject \<Rightarrow> 'n jobject \<Rightarrow> 'n jobject) \<Rightarrow> 'n jvalue option \<Rightarrow> 'n jvalue option \<Rightarrow> 'n jvalue option" where
  "patched merge_patch target patch = (case patch of
      None \<Rightarrow> target
    | Some JNull \<Rightarrow> None
    | Some (JObject q) \<Rightarrow> Some (JObject (merge_patch (case target of Some (JObject m) \<Rightarrow> m | _ \<Rightarrow> []) q))
    | Some v \<Rightarrow> Some v)"

definition merges :: "('n jobject \<Rightarrow> 'n jobject \<Rightarrow> 'n jobject) \<Rightarrow> bool" where
  "merges merge_patch \<longleftrightarrow> (\<forall>t p k. map_of (merge_patch t p) k = patched merge_patch (map_of t k) (map_of p k))"

text \<open>A function with that law.\<close>

function merged :: "'n jobject \<Rightarrow> 'n jobject \<Rightarrow> 'n jobject" where
  "merged t [] = t"
| "merged t ((k, v) # p) = (case v of
      JNull \<Rightarrow> AList.delete k (merged t p)
    | JObject q \<Rightarrow> AList.update k (JObject (merged (case map_of t k of Some (JObject m) \<Rightarrow> m | _ \<Rightarrow> []) q)) (merged t p)
    | _ \<Rightarrow> AList.update k v (merged t p))"
  by pat_completeness auto
termination by (relation "measure (\<lambda>(t, p). size (JObject p))") auto

lemma merged_lookup: "map_of (merged t p) k = patched merged (map_of t k) (map_of p k)"
  by (induction p) (auto simp: patched_def AList.update_conv' AList.delete_conv' split: jvalue.splits)

lemma merges_merged: "merges merged"
  by (simp add: merges_def merged_lookup)

end
