(* ===== verification/Venue_Startup.thy ===== *)
theory Venue_Startup
  imports Json_Value
begin

text \<open>
  How the program puts its exchanges together: the registry of venue adapters
  (\<open>src/src/exchange/exchange_registry.cpp\<close>), the expansion of a configuration entry into instances and
  the claims of shared resources (\<open>instance_expansion.hpp\<close>), and the loop of \<open>src/src/sim/main.cpp\<close> that
  builds and starts them. What an adapter builds from its configuration is a parameter; an exception
  of it carries its text.
\<close>

section \<open>The registry\<close>

record 'f registry_entry =
  re_key :: string
  re_venue :: Venue
  re_factory :: 'f

definition registry_add :: "string \<Rightarrow> Venue \<Rightarrow> 'f \<Rightarrow> 'f registry_entry list \<Rightarrow> 'f registry_entry list" where
  "registry_add key v factory es = es @ [\<lparr>re_key = key, re_venue = v, re_factory = factory\<rparr>]"

fun registry_find :: "string \<Rightarrow> 'f registry_entry list \<Rightarrow> 'f option" where
  "registry_find key [] = None"
| "registry_find key (e # es) = (if iequals (re_key e) key then Some (re_factory e) else registry_find key es)"

definition registry_keys :: "'f registry_entry list \<Rightarrow> string list" where
  "registry_keys es = map re_key es"

section \<open>Instances\<close>

datatype config_error = NotNonEmptyArray | NotAnObject nat | TypeError

definition with_name :: "string \<Rightarrow> 'n jobject \<Rightarrow> 'n jobject" where
  "with_name n m = (if map_of m ''name'' = None then AList.update ''name'' (JText n) m else m)"

definition make_instance :: "('n jobject \<Rightarrow> 'n jobject \<Rightarrow> 'n jobject) \<Rightarrow> ('n jobject \<Rightarrow> nat \<Rightarrow> string) \<Rightarrow> 'n jobject \<Rightarrow> nat \<Rightarrow> 'n jobject \<Rightarrow> 'n jobject" where
  "make_instance merge_patch default_name shared i patch = (let m = merge_patch shared patch in with_name (default_name m i) m)"

fun expand_loop :: "('n jobject \<Rightarrow> 'n jobject \<Rightarrow> 'n jobject) \<Rightarrow> ('n jobject \<Rightarrow> nat \<Rightarrow> string) \<Rightarrow> 'n jobject \<Rightarrow> nat \<Rightarrow> 'n jvalue list \<Rightarrow>
    config_error + 'n jobject list" where
  "expand_loop merge_patch default_name shared i [] = Inr []"
| "expand_loop merge_patch default_name shared i (v # vs) = (case v of
      JObject patch \<Rightarrow>
        (let m = make_instance merge_patch default_name shared i patch
         in case jbool ''enabled'' m of
              None \<Rightarrow> Inl TypeError
            | Some e \<Rightarrow> (case expand_loop merge_patch default_name shared (i + 1) vs of
                Inl x \<Rightarrow> Inl x
              | Inr out \<Rightarrow> Inr (if e then m # out else out)))
    | _ \<Rightarrow> Inl (NotAnObject i))"

definition expand_instances :: "('n jobject \<Rightarrow> 'n jobject \<Rightarrow> 'n jobject) \<Rightarrow> ('n jobject \<Rightarrow> nat \<Rightarrow> string) \<Rightarrow> string \<Rightarrow> string \<Rightarrow> 'n jobject \<Rightarrow>
    config_error + 'n jobject list" where
  "expand_instances merge_patch default_name venue key config = (case map_of config key of
      None \<Rightarrow> Inr [with_name venue config]
    | Some (JArray (v # vs)) \<Rightarrow> expand_loop merge_patch default_name (AList.delete key config) 0 (v # vs)
    | Some _ \<Rightarrow> Inl NotNonEmptyArray)"

section \<open>Claims\<close>

datatype claim_error = UsesTwice string | BothUse string string

definition claim :: "'t \<Rightarrow> string \<Rightarrow> ('t \<rightharpoonup> string) \<Rightarrow> claim_error + ('t \<rightharpoonup> string)" where
  "claim v owner claimed = (case claimed v of
      None \<Rightarrow> Inr (claimed(v \<mapsto> owner))
    | Some o' \<Rightarrow> Inl (if o' = owner then UsesTwice owner else BothUse o' owner))"

fun claim_all :: "('t \<times> string) list \<Rightarrow> ('t \<rightharpoonup> string) \<Rightarrow> claim_error + ('t \<rightharpoonup> string)" where
  "claim_all [] claimed = Inr claimed"
| "claim_all ((v, owner) # cs) claimed = (case claim v owner claimed of Inl e \<Rightarrow> Inl e | Inr m \<Rightarrow> claim_all cs m)"

section \<open>Starting\<close>

text \<open>How the start ends, with the exchanges that have been started by then. \<open>Uncaught\<close> is an exception no handler is around.\<close>

datatype 'x startup = Running "'x list" | NoAdapter string "'x list" | FactoryFailed string string "'x list" | Uncaught "'x list"

fun start_exchanges :: "('n jvalue \<Rightarrow> string + 'x list) registry_entry list \<Rightarrow> (string \<times> 'n jvalue) list \<Rightarrow> 'x list \<Rightarrow> 'x startup" where
  "start_exchanges registry [] exchanges = Running exchanges"
| "start_exchanges registry ((key, v) # entries) exchanges = (case v of
      JObject m \<Rightarrow>
        (case jbool ''enabled'' m of
           None \<Rightarrow> Uncaught exchanges
         | Some False \<Rightarrow> start_exchanges registry entries exchanges
         | Some True \<Rightarrow>
             (case registry_find key registry of
                None \<Rightarrow> NoAdapter key exchanges
              | Some factory \<Rightarrow>
                  (case factory v of
                     Inl what \<Rightarrow> FactoryFailed key what exchanges
                   | Inr created \<Rightarrow> start_exchanges registry entries (exchanges @ created))))
    | _ \<Rightarrow> Uncaught exchanges)"

section \<open>Facts on instances\<close>

lemma with_name_lookup: "map_of (with_name n m) k = (if k = ''name'' \<and> map_of m ''name'' = None then Some (JText n) else map_of m k)"
  by (simp add: with_name_def AList.update_conv')

lemma expand_loop_objects:
  assumes "\<forall>j < length patches. jbool ''enabled'' (make_instance mp dn shared (i + j) (patches ! j)) \<noteq> None"
  shows "expand_loop mp dn shared i (map JObject patches) =
    Inr (map (\<lambda>j. make_instance mp dn shared (i + j) (patches ! j))
      (filter (\<lambda>j. jbool ''enabled'' (make_instance mp dn shared (i + j) (patches ! j)) = Some True) [0..<length patches]))"
  using assms
proof (induction patches arbitrary: i)
  case (Cons p ps)
  have "\<forall>j < length ps. jbool ''enabled'' (make_instance mp dn shared (i + 1 + j) (ps ! j)) \<noteq> None"
  proof (intro allI impI)
    fix j assume "j < length ps"
    then show "jbool ''enabled'' (make_instance mp dn shared (i + 1 + j) (ps ! j)) \<noteq> None" using Cons.prems [rule_format, of "Suc j"] by simp
  qed
  note ih = Cons.IH [OF this]
  have up: "[0..<length (p # ps)] = 0 # map Suc [0..<length ps]" by (simp add: upt_conv_Cons map_Suc_upt del: upt_Suc)
  obtain b where b: "jbool ''enabled'' (make_instance mp dn shared i p) = Some b" using Cons.prems [rule_format, of 0] by auto
  show ?case unfolding up using ih b by (cases b) (simp_all add: filter_map comp_def Let_def del: upt_Suc)
qed simp

text \<open>
  A venue entry expands to its enabled instances. With a merge that keeps to RFC 7386, an entry that
  lists its instances as objects whose \<open>enabled\<close> members read gives exactly the enabled ones, in the
  order listed. Every instance has a name, its own or the default, and any other member is the
  instance's own if it lists one, is absent if it lists it as null, and is the entry's otherwise; the list
  itself is not handed down.
\<close>

theorem instances_expanded:
  assumes "merges mp" and "map_of config key = Some (JArray (map JObject patches))" and "patches \<noteq> []"
    and "inst = (\<lambda>i. make_instance mp dn (AList.delete key config) i (patches ! i))"
    and "\<forall>i < length patches. jbool ''enabled'' (inst i) \<noteq> None"
  shows "expand_instances mp dn venue key config = Inr (map inst (filter (\<lambda>i. jbool ''enabled'' (inst i) = Some True) [0..<length patches])) \<and>
    (\<forall>i < length patches. map_of (inst i) ''name'' \<noteq> None \<and>
      (\<forall>k. k \<noteq> ''name'' \<longrightarrow> map_of (inst i) k = patched mp (if k = key then None else map_of config k) (map_of (patches ! i) k)))"
proof -
  obtain p ps where "patches = p # ps" using assms(3) by (cases patches) auto
  then have "expand_instances mp dn venue key config = expand_loop mp dn (AList.delete key config) 0 (map JObject patches)"
    using assms(2) by (simp add: expand_instances_def)
  moreover have "expand_loop mp dn (AList.delete key config) 0 (map JObject patches) = Inr (map inst (filter (\<lambda>i. jbool ''enabled'' (inst i) = Some True) [0..<length patches]))"
    using expand_loop_objects [of patches mp dn "AList.delete key config" 0] assms(5) unfolding assms(4) by simp
  moreover have "map_of (inst i) ''name'' \<noteq> None" for i
    unfolding assms(4) make_instance_def Let_def with_name_lookup by simp
  moreover have "map_of (inst i) k = patched mp (if k = key then None else map_of config k) (map_of (patches ! i) k)" if "k \<noteq> ''name''" for i k
    using that assms(1) unfolding assms(4) make_instance_def Let_def with_name_lookup merges_def by (simp add: AList.delete_conv')
  ultimately show ?thesis by simp
qed

text \<open>An entry that is not an object stops the expansion, unless one before it already did.\<close>

theorem instance_must_be_object:
  assumes "\<forall>j < length patches. jbool ''enabled'' (make_instance mp dn shared (i + j) (patches ! j)) \<noteq> None" and "\<forall>m. v \<noteq> JObject m"
  shows "expand_loop mp dn shared i (map JObject patches @ v # vs) = Inl (NotAnObject (i + length patches))"
  using assms(1)
proof (induction patches arbitrary: i)
  case Nil
  then show ?case using assms(2) by (cases v) auto
next
  case (Cons p ps)
  have "\<forall>j < length ps. jbool ''enabled'' (make_instance mp dn shared (i + 1 + j) (ps ! j)) \<noteq> None"
  proof (intro allI impI)
    fix j assume "j < length ps"
    then show "jbool ''enabled'' (make_instance mp dn shared (i + 1 + j) (ps ! j)) \<noteq> None" using Cons.prems [rule_format, of "Suc j"] by simp
  qed
  from Cons.IH [OF this] Cons.prems [rule_format, of 0] show ?case by (auto simp: Let_def)
qed

section \<open>Claims are exclusive\<close>

text \<open>A series of claims is granted exactly when no value is claimed twice, by anybody, and then every value has its owner.\<close>

theorem claims_exclusive:
  "claim_all cs claimed = Inr m \<longleftrightarrow> distinct (map fst cs) \<and> (\<forall>v\<in>fst ` set cs. claimed v = None) \<and> m = claimed ++ map_of cs"
proof (induction cs arbitrary: claimed)
  case (Cons c cs)
  obtain v owner where c: "c = (v, owner)" by fastforce
  show ?case
  proof (cases "claimed v")
    case None
    have "claim_all (c # cs) claimed = Inr m \<longleftrightarrow> claim_all cs (claimed(v \<mapsto> owner)) = Inr m" using None by (simp add: c claim_def)
    also have "\<dots> \<longleftrightarrow> distinct (map fst cs) \<and> (\<forall>w\<in>fst ` set cs. (claimed(v \<mapsto> owner)) w = None) \<and> m = claimed(v \<mapsto> owner) ++ map_of cs" by (rule Cons.IH)
    also have "\<dots> \<longleftrightarrow> v \<notin> fst ` set cs \<and> distinct (map fst cs) \<and> (\<forall>w\<in>fst ` set cs. claimed w = None) \<and> m = (claimed ++ map_of cs)(v \<mapsto> owner)"
      by (cases "v \<in> fst ` set cs") (simp, blast, auto simp: map_add_upd_left dom_map_of_conv_image_fst)
    also have "(claimed ++ map_of cs)(v \<mapsto> owner) = claimed ++ map_of (c # cs)" by (simp add: c)
    finally show ?thesis using None unfolding c by (simp only: list.map list.set fst_conv distinct.simps image_insert ball_simps set_map) blast
  qed (auto simp: c claim_def)
qed auto

section \<open>Start-up\<close>

definition entry_ok :: "('n jvalue \<Rightarrow> string + 'x list) registry_entry list \<Rightarrow> string \<times> 'n jvalue \<Rightarrow> bool" where
  "entry_ok registry e = (case e of (key, JObject m) \<Rightarrow>
      (case jbool ''enabled'' m of
         None \<Rightarrow> False
       | Some False \<Rightarrow> True
       | Some True \<Rightarrow> (case registry_find key registry of Some f \<Rightarrow> (case f (JObject m) of Inr _ \<Rightarrow> True | Inl _ \<Rightarrow> False) | None \<Rightarrow> False))
    | _ \<Rightarrow> False)"

definition entry_makes :: "('n jvalue \<Rightarrow> string + 'x list) registry_entry list \<Rightarrow> string \<times> 'n jvalue \<Rightarrow> 'x list" where
  "entry_makes registry e = (case e of (key, JObject m) \<Rightarrow>
      if jbool ''enabled'' m = Some True
      then (case registry_find key registry of Some f \<Rightarrow> (case f (JObject m) of Inr xs \<Rightarrow> xs | Inl _ \<Rightarrow> []) | None \<Rightarrow> []) else []
    | _ \<Rightarrow> [])"

lemma registry_find_Some:
  "registry_find key es = Some f \<Longrightarrow> \<exists>e\<in>set es. iequals (re_key e) key \<and> f = re_factory e"
  by (induction es) (auto split: if_splits)

lemma start_step:
  "start_exchanges registry (e # entries) exchanges = (if entry_ok registry e then start_exchanges registry entries (exchanges @ entry_makes registry e)
     else start_exchanges registry [e] exchanges)"
  by (cases e; cases "snd e") (auto simp: entry_ok_def entry_makes_def split: option.splits bool.splits sum.splits)

lemma start_one_fails: "\<not> entry_ok registry e \<Longrightarrow> start_exchanges registry [e] exchanges \<noteq> Running xs"
  by (cases e; cases "snd e") (auto simp: entry_ok_def split: option.splits bool.splits sum.splits)

text \<open>
  C38. The simulator runs exactly when every entry of its configuration can be served. It comes up if and
  only if each entry is an object whose \<open>enabled\<close> member reads and each enabled one has an adapter that
  accepts it; a disabled entry needs no adapter. Then exactly the exchanges of the enabled entries
  run, in the order of the configuration. Otherwise the start ends at the first entry that fails, having
  started the exchanges of the entries before it and no others.
\<close>

theorem startup_all_or_first_failure:
  "(\<exists>xs. start_exchanges registry entries [] = Running xs) = list_all (entry_ok registry) entries \<and>
   start_exchanges registry entries [] =
     (let good = takeWhile (entry_ok registry) entries; started = concat (map (entry_makes registry) good)
      in case dropWhile (entry_ok registry) entries of
           [] \<Rightarrow> Running started
         | (key, v) # _ \<Rightarrow>
             (case v of
                JObject m \<Rightarrow> (if jbool ''enabled'' m = None then Uncaught started
                  else case registry_find key registry of
                    None \<Rightarrow> NoAdapter key started
                  | Some f \<Rightarrow> (case f v of Inl what \<Rightarrow> FactoryFailed key what started | Inr _ \<Rightarrow> Running started))
              | _ \<Rightarrow> Uncaught started))"
proof -
  have gen: "start_exchanges registry entries acc = (case dropWhile (entry_ok registry) entries of
      [] \<Rightarrow> Running (acc @ concat (map (entry_makes registry) entries))
    | e # _ \<Rightarrow> start_exchanges registry [e] (acc @ concat (map (entry_makes registry) (takeWhile (entry_ok registry) entries))))" for acc
  proof (induction entries arbitrary: acc)
    case (Cons e es)
    show ?case
    proof (cases "entry_ok registry e")
      case True
      then show ?thesis unfolding start_step [of registry e es acc] using Cons.IH [of "acc @ entry_makes registry e"]
        by (cases "dropWhile (entry_ok registry) es") (simp_all del: start_exchanges.simps(2) dropWhile_eq_Nil_conv)
    next
      case False
      then show ?thesis unfolding start_step [of registry e es acc] by (simp del: start_exchanges.simps(2))
    qed
  qed simp
  have one: "start_exchanges registry [(key, v)] acc = (case v of
      JObject m \<Rightarrow> (if jbool ''enabled'' m = None then Uncaught acc
        else case registry_find key registry of
          None \<Rightarrow> NoAdapter key acc
        | Some f \<Rightarrow> (case f v of Inl what \<Rightarrow> FactoryFailed key what acc | Inr _ \<Rightarrow> Running acc))
    | _ \<Rightarrow> Uncaught acc)" if "\<not> entry_ok registry (key, v)" for key v acc
    using that by (cases v) (auto simp: entry_ok_def split: option.splits bool.splits sum.splits)
  show ?thesis
  proof (cases "dropWhile (entry_ok registry) entries")
    case Nil
    then have "list_all (entry_ok registry) entries" "takeWhile (entry_ok registry) entries = entries" by (simp_all add: dropWhile_eq_Nil_conv list_all_iff takeWhile_eq_all_conv)
    then show ?thesis using gen [of "[]"] Nil by (simp add: Let_def del: dropWhile_eq_Nil_conv takeWhile_eq_all_conv)
  next
    case (Cons e es)
    then have bad: "\<not> entry_ok registry e" by (metis hd_dropWhile list.distinct(1) list.sel(1))
    then have "\<not> list_all (entry_ok registry) entries" using Cons by (metis dropWhile_eq_Nil_conv list.distinct(1) list_all_iff)
    moreover have "start_exchanges registry [e] acc \<noteq> Running xs" for acc xs by (rule start_one_fails [OF bad])
    moreover obtain key v where e: "e = (key, v)" by fastforce
    ultimately show ?thesis using gen [of "[]"] Cons one [of key v] bad by (simp add: Let_def del: start_exchanges.simps(2))
  qed
qed

text \<open>An entry with two segments, one of them disabled, and a simulator with one enabled entry and one that is not.\<close>

definition ex_patches :: "nat jobject list" where
  "ex_patches = [[(''port'', JNum 7), (''log'', JNull)], [(''enabled'', JBool False)]]"

definition ex_entry :: "nat jobject" where
  "ex_entry = [(''segments'', JArray (map JObject ex_patches)), (''port'', JNum 1), (''log'', JText ''info''), (''depth'', JNum 10)]"

theorem instances_expanded_witness:
  "\<exists>m. expand_instances merged (\<lambda>_ i. ''seg'' @ to_string_nat i) ''cme'' ''segments'' ex_entry = Inr [m] \<and>
     map_of m ''port'' = Some (JNum 7) \<and> map_of m ''log'' = None \<and> map_of m ''depth'' = Some (JNum 10) \<and> map_of m ''segments'' = None \<and> map_of m ''name'' \<noteq> None"
proof -
  let ?dn = "\<lambda>(_ :: nat jobject) i. ''seg'' @ to_string_nat i" and ?shared = "AList.delete ''segments'' ex_entry"
  define inst where "inst = (\<lambda>i. make_instance merged ?dn ?shared i (ex_patches ! i))"
  have cfg: "map_of ex_entry ''segments'' = Some (JArray (map JObject ex_patches))" by (simp add: ex_entry_def)
  have ne: "ex_patches \<noteq> []" and len: "length ex_patches = 2" by (simp_all add: ex_patches_def)
  have en: "jbool ''enabled'' (inst 0) = Some True" "jbool ''enabled'' (inst 1) = Some False"
    by (simp_all add: inst_def jbool_def make_instance_def Let_def with_name_lookup merged_lookup patched_def AList.delete_conv' ex_entry_def ex_patches_def)
  have e0: "\<forall>i < length ex_patches. jbool ''enabled'' (inst i) \<noteq> None" using en by (auto simp: len less_2_cases_iff)
  note t = instances_expanded [OF merges_merged cfg ne inst_def e0, of "''cme''"]
  have "filter (\<lambda>i. jbool ''enabled'' (inst i) = Some True) [0..<length ex_patches] = [0]" using en by (simp add: len upt_rec)
  then have "expand_instances merged ?dn ''cme'' ''segments'' ex_entry = Inr [inst 0]" using t by simp
  moreover have "map_of (inst 0) k = patched merged (if k = ''segments'' then None else map_of ex_entry k) (map_of (ex_patches ! 0) k)" if "k \<noteq> ''name''" for k
    using t that by (simp add: len)
  moreover have "map_of (inst 0) ''name'' \<noteq> None" using t by (simp add: len)
  ultimately show ?thesis by (intro exI [of _ "inst 0"]) (simp add: patched_def ex_entry_def ex_patches_def)
qed

end
