(* ===== verification/Symbol_Manager.thy ===== *)
theory Symbol_Manager
  imports Sim_Types Fixed_String
begin

text \<open>
  \<open>src/src/common/symbol_manager.hpp\<close>: the process-wide table of instruments. An instrument's address is its
  place in the deque, which never moves; its id is that place in 16 bits. The key of the lookup is the
  venue and the name as its 32 byte field holds it.
\<close>

section \<open>State and operations\<close>

type_synonym symid_t = "16 word"

type_synonym SymbolKey = "Venue \<times> string"

record managed_symbol =
  ms_id :: symid_t
  ms_symbol :: string
  ms_venue :: Venue

record SymbolManager =
  sm_symbols :: "managed_symbol list"
  sm_by_name :: "SymbolKey \<rightharpoonup> nat"

definition new_symbol_manager :: SymbolManager where
  "new_symbol_manager = \<lparr>sm_symbols = [], sm_by_name = Map.empty\<rparr>"

definition symbol_key :: "string \<Rightarrow> Venue \<Rightarrow> SymbolKey" where
  "symbol_key name v = (v, fs_view (fs_assign 32 name))"

definition getSymbol :: "string \<Rightarrow> Venue \<Rightarrow> SymbolManager \<Rightarrow> nat option" where
  "getSymbol name v m = sm_by_name m (symbol_key name v)"

definition getSymbolById :: "symid_t \<Rightarrow> SymbolManager \<Rightarrow> nat option" where
  "getSymbolById sid m = (if unat sid \<ge> length (sm_symbols m) then None else Some (unat sid))"

definition createSymbol :: "string \<Rightarrow> Venue \<Rightarrow> SymbolManager \<Rightarrow> nat \<times> SymbolManager" where
  "createSymbol name v m = (case sm_by_name m (symbol_key name v) of
      Some p \<Rightarrow> (p, m)
    | None \<Rightarrow>
        (let p = length (sm_symbols m)
         in (p, \<lparr>sm_symbols = sm_symbols m @ [\<lparr>ms_id = of_nat p, ms_symbol = fs_view (fs_assign 32 name), ms_venue = v\<rparr>],
                 sm_by_name = (sm_by_name m)(symbol_key name v \<mapsto> p)\<rparr>)))"

fun create_all :: "(string \<times> Venue) list \<Rightarrow> SymbolManager \<Rightarrow> SymbolManager" where
  "create_all [] m = m"
| "create_all ((name, v) # cs) m = create_all cs (snd (createSymbol name v m))"

section \<open>Invariant\<close>

definition key_of :: "managed_symbol \<Rightarrow> SymbolKey" where
  "key_of s = (ms_venue s, ms_symbol s)"

definition sm_inv :: "SymbolManager \<Rightarrow> bool" where
  "sm_inv m \<longleftrightarrow> (\<forall>k p. sm_by_name m k = Some p \<longleftrightarrow> p < length (sm_symbols m) \<and> key_of (sm_symbols m ! p) = k) \<and>
     (\<forall>p < length (sm_symbols m). ms_id (sm_symbols m ! p) = of_nat p)"

lemma sm_inv_new: "sm_inv new_symbol_manager"
  by (simp add: sm_inv_def new_symbol_manager_def)

lemma sm_inv_create: "sm_inv m \<Longrightarrow> sm_inv (snd (createSymbol name v m))"
proof (cases "sm_by_name m (symbol_key name v)")
  case None
  assume inv: "sm_inv m"
  let ?s = "\<lparr>ms_id = of_nat (length (sm_symbols m)), ms_symbol = fs_view (fs_assign 32 name), ms_venue = v\<rparr>"
  have key: "key_of ?s = symbol_key name v" by (simp add: key_of_def symbol_key_def)
  have fresh: "key_of (sm_symbols m ! p) \<noteq> symbol_key name v" if "p < length (sm_symbols m)" for p
    using inv None that unfolding sm_inv_def by (metis option.distinct(1))
  show ?thesis
    using inv key fresh None
    by (auto simp: sm_inv_def createSymbol_def Let_def nth_append less_Suc_eq)
qed (simp add: createSymbol_def)

lemma sm_inv_create_all: "sm_inv m \<Longrightarrow> sm_inv (create_all cs m)"
  by (induction cs m rule: create_all.induct) (simp_all add: sm_inv_create)

lemma create_extends: "\<exists>ys. sm_symbols (snd (createSymbol name v m)) = sm_symbols m @ ys"
  by (simp add: createSymbol_def Let_def split: option.split)

lemma create_all_extends: "\<exists>ys. sm_symbols (create_all cs m) = sm_symbols m @ ys"
proof (induction cs m rule: create_all.induct)
  case (2 name v cs m)
  then show ?case using create_extends [of name v m] by fastforce
qed simp

lemma create_finds: "getSymbol name v (snd (createSymbol name v m)) = Some (fst (createSymbol name v m))"
  by (simp add: createSymbol_def getSymbol_def Let_def split: option.split)

lemma get_dom_create:
  "sm_by_name (snd (createSymbol name v m)) k = None \<longleftrightarrow> sm_by_name m k = None \<and> k \<noteq> symbol_key name v"
  by (auto simp: createSymbol_def Let_def split: option.split)

lemma get_dom_all: "sm_by_name (create_all cs m) k = None \<longleftrightarrow> sm_by_name m k = None \<and> k \<notin> (\<lambda>(n, v). symbol_key n v) ` set cs"
  by (induction cs m rule: create_all.induct) (auto simp: get_dom_create)

text \<open>
  One instrument per venue and name, and it never moves. After any calls of \<open>createSymbol\<close>, an
  instrument is found under a venue and a name exactly when one was created under a name that agrees with
  it in its 32 byte field, it is the only one of that venue and name, it has that venue and that name,
  further calls leave it where it is, and, while there are at most 65536, its id leads back to it.
\<close>

theorem symbols_stable:
  fixes cs ds name v
  defines "m \<equiv> create_all cs new_symbol_manager"
  shows "(getSymbol name v m \<noteq> None) = (symbol_key name v \<in> (\<lambda>(n, w). symbol_key n w) ` set cs) \<and>
    (\<forall>p. getSymbol name v m = Some p \<longrightarrow>
       p < length (sm_symbols m) \<and> ms_venue (sm_symbols m ! p) = v \<and> ms_symbol (sm_symbols m ! p) = fs_view (fs_assign 32 name) \<and>
       (\<forall>q < length (sm_symbols m). key_of (sm_symbols m ! q) = symbol_key name v \<longrightarrow> q = p) \<and>
       getSymbol name v (create_all ds m) = Some p \<and> sm_symbols (create_all ds m) ! p = sm_symbols m ! p \<and>
       (length (sm_symbols m) \<le> 65536 \<longrightarrow> getSymbolById (ms_id (sm_symbols m ! p)) m = Some p))"
proof (intro conjI allI impI)
  have inv: "sm_inv m" unfolding m_def by (rule sm_inv_create_all [OF sm_inv_new])
  have inv2: "sm_inv (create_all ds m)" by (rule sm_inv_create_all [OF inv])
  obtain ys where ext: "sm_symbols (create_all ds m) = sm_symbols m @ ys" using create_all_extends by blast
  show "(getSymbol name v m \<noteq> None) = (symbol_key name v \<in> (\<lambda>(n, w). symbol_key n w) ` set cs)"
    unfolding m_def getSymbol_def get_dom_all by (simp add: new_symbol_manager_def)
  fix p assume g: "getSymbol name v m = Some p"
  then have p: "p < length (sm_symbols m)" "key_of (sm_symbols m ! p) = symbol_key name v" using inv unfolding sm_inv_def getSymbol_def by blast+
  show "p < length (sm_symbols m)" by (rule p(1))
  show "ms_venue (sm_symbols m ! p) = v" "ms_symbol (sm_symbols m ! p) = fs_view (fs_assign 32 name)" using p(2) by (simp_all add: key_of_def symbol_key_def)
  show "q = p" if "q < length (sm_symbols m)" "key_of (sm_symbols m ! q) = symbol_key name v" for q
    using inv that g unfolding sm_inv_def getSymbol_def by (metis option.inject)
  show "sm_symbols (create_all ds m) ! p = sm_symbols m ! p" using p(1) by (simp add: ext nth_append)
  then show "getSymbol name v (create_all ds m) = Some p" using inv2 p unfolding sm_inv_def getSymbol_def ext by (metis length_append trans_less_add1)
  show "getSymbolById (ms_id (sm_symbols m ! p)) m = Some p" if "length (sm_symbols m) \<le> 65536"
    using inv p(1) that by (simp add: sm_inv_def getSymbolById_def unat_of_nat)
qed

theorem symbols_stable_witness:
  "let m = create_all [(''BTC-USD'', COINBASE), (''BTC'', HYPERLIQUID)] new_symbol_manager; m' = create_all [(''ETH'', HYPERLIQUID)] m
   in getSymbol ''BTC'' HYPERLIQUID m' = Some 1 \<and> ms_venue (sm_symbols m' ! 1) = HYPERLIQUID \<and> getSymbolById (ms_id (sm_symbols m ! 1)) m = Some 1"
proof -
  let ?cs = "[(''BTC-USD'', COINBASE), (''BTC'', HYPERLIQUID)]"
  let ?m = "create_all ?cs new_symbol_manager"
  have g: "getSymbol ''BTC'' HYPERLIQUID ?m = Some 1" "length (sm_symbols ?m) = 2"
    by (simp_all add: createSymbol_def new_symbol_manager_def symbol_key_def getSymbol_def Let_def)
  from symbols_stable [of "''BTC''" HYPERLIQUID ?cs "[(''ETH'', HYPERLIQUID)]"] g
  show ?thesis unfolding Let_def by (simp del: create_all.simps)
qed

text \<open>The 65537th instrument is given the id of the first, and is never found under its id.\<close>

theorem symbol_ids_wrap:
  assumes "sm_inv m" and "65536 < length (sm_symbols m)"
  shows "ms_id (sm_symbols m ! 65536) = ms_id (sm_symbols m ! 0) \<and> getSymbolById sid m \<noteq> Some 65536"
proof -
  have ids: "\<forall>p < length (sm_symbols m). ms_id (sm_symbols m ! p) = of_nat p" using assms(1) unfolding sm_inv_def by blast
  have "ms_id (sm_symbols m ! 65536) = of_nat 65536" "ms_id (sm_symbols m ! 0) = of_nat 0" by (rule ids [rule_format], use assms(2) in linarith)+
  moreover have "unat sid < 65536" using unsigned_less [of sid, where ?'a = nat] by simp
  ultimately show ?thesis by (auto simp: getSymbolById_def)
qed

end
