(* ===== verification/Message_Parser.thy ===== *)
theory Message_Parser
  imports Sim_Order Fixed_String Json_Value "HOL-Library.Sublist"
begin

text \<open>
  The generic message layer: the conversions of \<open>src/src/order_gateway/message_parser.cpp\<close> and the JSON parser
  of \<open>json_parser.cpp\<close>, which collects the bytes of a connection until they look like a whole document. The
  parser of the nlohmann library, \<open>std::stod\<close> and the reading of its numbers are parameters. Error texts are
  kept up to the part the library words.
\<close>

section \<open>Conversions\<close>

definition parse_side :: "string \<Rightarrow> Side" where
  "parse_side s = (if s \<in> {''1'', ''B'', ''BUY'', ''buy''} then BUY else if s \<in> {''2'', ''S'', ''SELL'', ''sell''} then SELL else BUY)"

definition parse_order_type :: "string \<Rightarrow> OrderType" where
  "parse_order_type s =
     (if s \<in> {''1'', ''MARKET'', ''market''} then OT_MARKET else if s \<in> {''2'', ''LIMIT'', ''limit''} then OT_LIMIT
      else if s \<in> {''3'', ''STOP'', ''stop''} then OT_STOP else if s \<in> {''4'', ''STOP_LIMIT'', ''stop_limit''} then OT_STOP_LIMIT else OT_MARKET)"

definition parse_time_in_force :: "string \<Rightarrow> TimeInForce" where
  "parse_time_in_force s =
     (if s \<in> {''0'', ''DAY'', ''day''} then TIF_DAY else if s \<in> {''1'', ''GTC'', ''gtc''} then TIF_GOOD_TILL_CANCEL
      else if s \<in> {''3'', ''IOC'', ''ioc''} then TIF_IMMEDIATE_OR_CANCEL else if s \<in> {''4'', ''FOK'', ''fok''} then TIF_FILL_OR_KILL else TIF_DAY)"

text \<open>The underlying values of \<open>Side\<close> are 0, 1 and 2.\<close>

fun side_to_string :: "Side \<Rightarrow> string" where
  "side_to_string BUY = ''0''"
| "side_to_string SELL = ''1''"
| "side_to_string UNKNOWN_SIDE = ''2''"

definition order_type_to_string :: "OrderType \<Rightarrow> string" where
  "order_type_to_string t = [code_OrderType t]"

definition order_status_to_string :: "OrderStatus \<Rightarrow> string" where
  "order_status_to_string st = [code_OrderStatus st]"

section \<open>Choosing a parser\<close>

datatype ProtocolType = FIX | SBE | JSON | BINARY

definition json_can_handle :: "string \<Rightarrow> bool" where
  "json_can_handle data = (case dropWhile (\<lambda>c. c \<in> {CHR '' '', CHR 0x09, CHR 0x0A, CHR 0x0D}) (take 20 data) of
      [] \<Rightarrow> False
    | c # _ \<Rightarrow> c = CHR ''{'' \<or> c = CHR ''['')"

definition fix_can_handle :: "string \<Rightarrow> bool" where
  "fix_can_handle data = (length data \<ge> 10 \<and> prefix ''8=FIX'' (take 50 data))"

definition create_parser :: "ProtocolType \<Rightarrow> ProtocolType option" where
  "create_parser ty = (if ty = FIX \<or> ty = JSON then Some ty else None)"

definition create_parser_from_data :: "string \<Rightarrow> ProtocolType option" where
  "create_parser_from_data data =
     (if data = [] then None else if json_can_handle data then Some JSON else if fix_can_handle data then Some FIX else Some JSON)"

section \<open>The JSON parser\<close>

record ParseResult =
  pr_order :: "Order option"
  pr_error_message :: string
  pr_is_complete_message :: bool

definition no_result :: ParseResult where
  "no_result = \<lparr>pr_order = None, pr_error_message = [], pr_is_complete_message = False\<rparr>"

text \<open>The scan for a whole document: braces and brackets outside of texts, counted over the whole buffer.\<close>

record scan =
  sc_braces :: int
  sc_brackets :: int
  sc_in_string :: bool
  sc_escape_next :: bool

definition scan_start :: scan where
  "scan_start = \<lparr>sc_braces = 0, sc_brackets = 0, sc_in_string = False, sc_escape_next = False\<rparr>"

definition scan_char :: "scan \<Rightarrow> char \<Rightarrow> scan" where
  "scan_char s c =
     (if sc_escape_next s then s\<lparr>sc_escape_next := False\<rparr>
      else if c = CHR 0x5C \<and> sc_in_string s then s\<lparr>sc_escape_next := True\<rparr>
      else if c = CHR 0x22 then s\<lparr>sc_in_string := \<not> sc_in_string s\<rparr>
      else if sc_in_string s then s
      else if c = CHR ''{'' then s\<lparr>sc_braces := sc_braces s + 1\<rparr>
      else if c = CHR ''}'' then s\<lparr>sc_braces := sc_braces s - 1\<rparr>
      else if c = CHR ''['' then s\<lparr>sc_brackets := sc_brackets s + 1\<rparr>
      else if c = CHR '']'' then s\<lparr>sc_brackets := sc_brackets s - 1\<rparr>
      else s)"

definition is_complete_json_message :: "string \<Rightarrow> bool" where
  "is_complete_json_message buffer =
     (buffer \<noteq> [] \<and> (let s = foldl scan_char scan_start buffer in sc_braces s = 0 \<and> sc_brackets s = 0))"

text \<open>What is read of numbers: \<open>std::stod\<close> and \<open>std::stoull\<close> on a text, or a number of the document.\<close>

record 'n number_reads =
  nr_price_text :: "string \<Rightarrow> price_t option"
  nr_price_num :: "'n \<Rightarrow> price_t"
  nr_qty_text :: "string \<Rightarrow> qty_t option"
  nr_qty_num :: "'n \<Rightarrow> qty_t"

definition order_data :: "'n jobject \<Rightarrow> 'n jvalue" where
  "order_data m = (case map_of m ''params'' of
      Some v \<Rightarrow> v
    | None \<Rightarrow> (case map_of m ''data'' of Some v \<Rightarrow> v | None \<Rightarrow> JObject m))"

definition read_quantity :: "'n number_reads \<Rightarrow> 'n jvalue option \<Rightarrow> qty_t option" where
  "read_quantity nr v = (case v of Some (JText s) \<Rightarrow> nr_qty_text nr s | Some (JNum n) \<Rightarrow> Some (nr_qty_num nr n) | _ \<Rightarrow> None)"

text \<open>An absent price or one that is null leaves the order's 0.\<close>

definition read_order_price :: "'n number_reads \<Rightarrow> 'n jvalue option \<Rightarrow> price_t option" where
  "read_order_price nr v = (case v of
      None \<Rightarrow> Some 0
    | Some JNull \<Rightarrow> Some 0
    | Some (JText s) \<Rightarrow> nr_price_text nr s
    | Some (JNum n) \<Rightarrow> Some (nr_price_num nr n)
    | _ \<Rightarrow> None)"

definition read_order_tif :: "'n jvalue option \<Rightarrow> TimeInForce option" where
  "read_order_tif v = (case v of None \<Rightarrow> Some TIF_DAY | Some (JText s) \<Rightarrow> Some (parse_time_in_force s) | _ \<Rightarrow> None)"

text \<open>\<open>None\<close> is an exception of the library.\<close>

definition parse_new_order_json :: "'n number_reads \<Rightarrow> 'n jobject \<Rightarrow> int \<Rightarrow> Order option" where
  "parse_new_order_json nr m cid = (case order_data m of
      JObject d \<Rightarrow>
        (case (jtext ''clientOrderId'' d, jtext ''symbol'' d, jtext ''side'' d, jtext ''type'' d, read_quantity nr (map_of d ''quantity''),
               read_order_price nr (map_of d ''price''), read_order_tif (map_of d ''timeInForce'')) of
           (Some cloid, Some sy, Some side_str, Some type_str, Some q, Some px, Some tif) \<Rightarrow>
             Some (default_order\<lparr>client_id := cid, client_order_id := fs_view (fs_assign 37 cloid), symbol := fs_view (fs_assign 32 sy),
               side := parse_side side_str, otype := parse_order_type type_str, quantity := q, leaves_quantity := q,
               price := px, time_in_force := tif\<rparr>)
         | _ \<Rightarrow> None)
    | _ \<Rightarrow> None)"

definition order_result :: "'n number_reads \<Rightarrow> 'n jobject \<Rightarrow> int \<Rightarrow> ParseResult" where
  "order_result nr m cid = (case parse_new_order_json nr m cid of
      Some order \<Rightarrow> \<lparr>pr_order = Some order, pr_error_message = [], pr_is_complete_message = True\<rparr>
    | None \<Rightarrow> no_result\<lparr>pr_error_message := ''JSON processing error: ''\<rparr>)"

definition document_result :: "'n number_reads \<Rightarrow> 'n jvalue \<Rightarrow> int \<Rightarrow> ParseResult" where
  "document_result nr v cid =
     (let m = (case v of JObject m \<Rightarrow> m | _ \<Rightarrow> [])
      in if map_of m ''method'' \<noteq> None \<or> map_of m ''type'' \<noteq> None then
           (case jtext (if map_of m ''method'' \<noteq> None then ''method'' else ''type'') m of
              None \<Rightarrow> no_result\<lparr>pr_error_message := ''JSON processing error: ''\<rparr>
            | Some msg_type \<Rightarrow>
                if msg_type \<in> {''newOrder'', ''ORDER'', ''order.place''} then order_result nr m cid
                else no_result\<lparr>pr_error_message := ''Unknown JSON message type: '' @ msg_type\<rparr>)
         else if map_of m ''clientOrderId'' \<noteq> None \<and> map_of m ''symbol'' \<noteq> None then order_result nr m cid
         else no_result\<lparr>pr_error_message := ''Invalid JSON order format - missing required fields''\<rparr>)"

text \<open>The state is the buffer; \<open>json_parse\<close> gives nothing for a text the library refuses.\<close>

definition json_parse_message :: "(string \<Rightarrow> 'n jvalue option) \<Rightarrow> 'n number_reads \<Rightarrow> string \<Rightarrow> int \<Rightarrow> string \<Rightarrow> ParseResult \<times> string" where
  "json_parse_message json_parse nr data cid message_buffer =
     (let buffer = message_buffer @ data
      in if \<not> is_complete_json_message buffer then (no_result, buffer)
         else case json_parse buffer of
                None \<Rightarrow> (no_result\<lparr>pr_error_message := ''JSON parsing error: ''\<rparr>, [])
              | Some v \<Rightarrow> (document_result nr v cid, []))"

text \<open>The fields of an execution report; \<open>num\<close> is a number of the document, \<open>code\<close> the value of a reject reason.\<close>

definition create_execution_report_json :: "(nat \<Rightarrow> 'n) \<Rightarrow> (OrdRejectReason \<Rightarrow> nat) \<Rightarrow> OrderResponse \<Rightarrow> 'n jobject" where
  "create_execution_report_json num code r =
     [(''type'', JText ''executionReport''), (''clientOrderId'', JText (r_client_order_id r)), (''exchId'', JText (r_order_id r)),
      (''orderStatus'', JText (order_status_to_string (r_order_status r))), (''price'', JText (to_string_int (r_price r))),
      (''quantity'', JText (to_string_int (r_qty r))), (''cumQty'', JText (to_string_int (r_cum_qty r))),
      (''leavesQty'', JText (to_string_int (r_leaves_qty r))), (''timestamp'', JNum (num (r_timestamp r)))] @
     (if r_reject_reason r \<noteq> RJ_NONE then [(''rejectReason'', JNum (num (code (r_reject_reason r))))] else [])"

text \<open>A connection: the results of its packets, in order.\<close>

fun feed_json :: "(string \<Rightarrow> 'n jvalue option) \<Rightarrow> 'n number_reads \<Rightarrow> int \<Rightarrow> string \<Rightarrow> string list \<Rightarrow> ParseResult list \<times> string" where
  "feed_json json_parse nr cid buffer [] = ([], buffer)"
| "feed_json json_parse nr cid buffer (d # ds) = (case json_parse_message json_parse nr d cid buffer of
      (r, b) \<Rightarrow> (case feed_json json_parse nr cid b ds of (rs, b') \<Rightarrow> (r # rs, b')))"

section \<open>Fragments\<close>

text \<open>A text with one outermost object: in every prefix cut short an outer brace is still open.\<close>

definition one_document :: "string \<Rightarrow> bool" where
  "one_document doc \<longleftrightarrow> is_complete_json_message doc \<and>
     (\<forall>n. 0 < n \<and> n < length doc \<longrightarrow> 0 < sc_braces (foldl scan_char scan_start (take n doc)))"

lemma cut_short_incomplete:
  assumes "one_document doc" and "strict_prefix p doc"
  shows "\<not> is_complete_json_message p"
proof (cases "p = []")
  case False
  obtain q where "doc = p @ q" "q \<noteq> []" using assms(2) by (auto simp: strict_prefix_def prefix_def)
  then have "0 < length p \<and> length p < length doc" "take (length p) doc = p" using False by simp_all
  then have "0 < sc_braces (foldl scan_char scan_start p)" using assms(1) by (metis one_document_def)
  then show ?thesis by (simp add: is_complete_json_message_def Let_def)
qed (simp add: is_complete_json_message_def)

lemma feed_collects:
  assumes "one_document doc" and "doc = b @ concat ds @ d" and "d \<noteq> []"
  shows "feed_json json_parse nr cid b (ds @ [d]) = (replicate (length ds) no_result @ [fst (json_parse_message json_parse nr doc cid [])],
    snd (json_parse_message json_parse nr doc cid []))"
  using assms(2)
proof (induction ds arbitrary: b)
  case Nil
  then show ?case by (simp add: json_parse_message_def Let_def split: option.splits)
next
  case (Cons x xs)
  then have "strict_prefix (b @ x) doc" using assms(3) by (auto simp: strict_prefix_def prefix_def)
  from cut_short_incomplete [OF assms(1) this] have "json_parse_message json_parse nr x cid b = (no_result, b @ x)" by (simp add: json_parse_message_def)
  then show ?case using Cons.IH [of "b @ x"] Cons.prems by simp
qed

text \<open>
  A message may arrive in any pieces. However the text of one document is cut, every piece but the last
  is taken in without a result, the last one gives exactly the result the whole text would have given at once,
  and the buffer is empty afterwards.
\<close>

theorem json_fragments:
  assumes "one_document doc" and "doc = concat ds @ d" and "d \<noteq> []"
  shows "feed_json json_parse nr cid [] (ds @ [d]) = (replicate (length ds) no_result @
    [case json_parse doc of None \<Rightarrow> no_result\<lparr>pr_error_message := ''JSON parsing error: ''\<rparr> | Some v \<Rightarrow> document_result nr v cid], [])"
proof -
  have "is_complete_json_message doc" using assms(1) by (simp add: one_document_def)
  then show ?thesis using feed_collects [of doc "[]" ds d json_parse nr cid] assms by (simp add: json_parse_message_def split: option.splits)
qed

theorem json_fragments_witness:
  "feed_json (\<lambda>_. Some (JObject [(''type'', JText ''ping'')])) \<lparr>nr_price_text = (\<lambda>_. None), nr_price_num = int, nr_qty_text = (\<lambda>_. None), nr_qty_num = int\<rparr> 4 [] [''{'', ''}''] =
     ([no_result, no_result\<lparr>pr_error_message := ''Unknown JSON message type: ping''\<rparr>], [])"
proof -
  have doc: "one_document ''{}''"
  proof -
    have "0 < sc_braces (foldl scan_char scan_start (take n ''{}''))" if "0 < n" "n < length ''{}''" for n
    proof -
      have "n = 1" using that by simp
      then show ?thesis by (simp add: scan_start_def scan_char_def)
    qed
    then show ?thesis by (simp add: one_document_def is_complete_json_message_def scan_start_def scan_char_def Let_def)
  qed
  have cut: "''{}'' = concat [''{''] @ ''}''" and ne: "''}'' \<noteq> []" by simp_all
  from json_fragments [OF doc cut ne, of "\<lambda>_. Some (JObject [(''type'', JText ''ping'')])" "\<lparr>nr_price_text = (\<lambda>_. None), nr_price_num = int, nr_qty_text = (\<lambda>_. None), nr_qty_num = int\<rparr>" 4]
  show ?thesis by (simp add: document_result_def jtext_def Let_def)
qed

section \<open>What does not work\<close>

text \<open>Two messages that arrive together look like one document, which the library refuses: both are lost.\<close>

theorem joined_messages_lost:
  assumes "is_complete_json_message a" and "is_complete_json_message b"
    and "\<not> sc_in_string (foldl scan_char scan_start a)" and "\<not> sc_escape_next (foldl scan_char scan_start a)" and "json_parse (a @ b) = None"
  shows "json_parse_message json_parse nr (a @ b) cid [] = (no_result\<lparr>pr_error_message := ''JSON parsing error: ''\<rparr>, [])"
proof -
  have "foldl scan_char scan_start a = scan_start" using assms(1,3,4) by (simp add: is_complete_json_message_def Let_def scan_start_def scan.equality)
  then have "is_complete_json_message (a @ b)" using assms(1,2) by (simp add: is_complete_json_message_def)
  then show ?thesis using assms(5) by (simp add: json_parse_message_def)
qed

text \<open>
  An order sent as a bare object is never read: its type is taken for the type of the message, and without one
  the order lacks a required member.
\<close>

theorem bare_order_never_read:
  assumes "map_of m ''method'' = None" and "map_of m ''params'' = None" and "map_of m ''data'' = None"
    and "jtext ''type'' m \<notin> Some ` {''newOrder'', ''ORDER'', ''order.place''}"
  shows "pr_order (document_result nr (JObject m) cid) = None"
proof (cases "map_of m ''type''")
  case None
  then have "jtext ''type'' m = None" by (simp add: jtext_def)
  then have "parse_new_order_json nr m cid = None" using assms(2,3) by (simp add: parse_new_order_json_def order_data_def split: option.split)
  then show ?thesis using None assms(1) by (simp add: document_result_def order_result_def no_result_def)
next
  case (Some v)
  then show ?thesis using assms(1,4) by (cases "jtext ''type'' m") (auto simp: document_result_def no_result_def Let_def)
qed

text \<open>Order types survive printing and reading; sides do not, since a sell prints as what a buy is read from.\<close>

theorem order_type_roundtrip:
  "t \<in> {OT_MARKET, OT_LIMIT, OT_STOP, OT_STOP_LIMIT} \<Longrightarrow> parse_order_type (order_type_to_string t) = t"
  by (auto simp: parse_order_type_def order_type_to_string_def)

theorem sell_reads_back_as_buy: "parse_side (side_to_string SELL) = BUY"
  by (simp add: parse_side_def)

end
