(* ===== verification/Report_Facts.thy ===== *)
theory Report_Facts
  imports Exchange_Steps "HOL-Library.Sublist"
begin

text \<open>
  What the exchange thread adds to its response queue. The queue only grows, the identity fields of the
  pool's orders change only where a new order is filled in, and every report of the engines and the
  instrument carries the identity of an order of the pool. None of this needs the book's invariant.
\<close>

section \<open>Reports of orders\<close>

definition ids_of :: "('z) Order_scheme \<Rightarrow> string \<times> string \<times> string \<times> string" where
  "ids_of ord = (symbol ord, user_id ord, client_order_id ord, order_id ord)"

definition r_ids :: "OrderResponse \<Rightarrow> string \<times> string \<times> string \<times> string" where
  "r_ids r = (r_symbol r, r_user_id r, r_client_order_id r, r_order_id r)"

definition same_ids :: "('l, 'z) book \<Rightarrow> ('l, 'z) book \<Rightarrow> bool" where
  "same_ids b b' \<longleftrightarrow> ob_symbol b' = ob_symbol b \<and> (\<forall>p. ids_of (ob_buffer b' p) = ids_of (ob_buffer b p))"

definition reported :: "('l, 'z) engine \<Rightarrow> ('l, 'z) engine \<Rightarrow> bool" where
  "reported st st' \<longleftrightarrow> same_ids st st' \<and>
     (\<exists>rs. response_queue st' = response_queue st @ rs \<and> (\<forall>r\<in>set rs. \<exists>p. r_ids r = ids_of (ob_buffer st p)))"

text \<open>A step of the book: identities kept, nothing published.\<close>

definition unreported :: "('l, 'z) engine \<Rightarrow> ('l, 'z) engine \<Rightarrow> bool" where
  "unreported st st' \<longleftrightarrow> same_ids st st' \<and> response_queue st' = response_queue st"

lemma same_ids_refl [simp]: "same_ids b b"
  by (simp add: same_ids_def)

lemma same_ids_trans: "same_ids a b \<Longrightarrow> same_ids b c \<Longrightarrow> same_ids a c"
  by (simp add: same_ids_def)

lemma reported_refl [simp]: "reported st st"
  by (simp add: reported_def)

lemma reported_trans: "reported a b \<Longrightarrow> reported b c \<Longrightarrow> reported a c"
  unfolding reported_def same_ids_def by fastforce

lemma unreported_refl [simp]: "unreported st st"
  by (simp add: unreported_def)

lemma unreported_trans: "unreported a b \<Longrightarrow> unreported b c \<Longrightarrow> unreported a c"
  by (auto simp: unreported_def intro: same_ids_trans)

lemma unreported_reported: "unreported st st' \<Longrightarrow> reported st st'"
  by (simp add: unreported_def reported_def)

lemma reported_publish:
  assumes "\<And>r. r_ids (f r) = ids_of (ob_buffer st p)"
  shows "reported st (publish f st)"
  using assms by (auto simp: reported_def same_ids_def publish_def)

lemma report_ids [simp]:
  "r_ids (ack_report ord t r) = ids_of ord" "r_ids (execution_report ord a r) = ids_of ord" "r_ids (modify_report ord px q t r) = ids_of ord"
  "r_ids (cancel_report ord t r) = ids_of ord" "r_ids (pending_new_report ord t r) = ids_of ord" "r_ids (pending_replace_report ord t r) = ids_of ord"
  "r_ids (pending_cancel_report ord t r) = ids_of ord"
  by (simp_all add: r_ids_def ids_of_def setOrderIdentity_def ack_report_def execution_report_def modify_report_def cancel_report_def
      pending_new_report_def pending_replace_report_def pending_cancel_report_def)

lemma reported_publish_of:
  "reported st (publish (ack_report (ob_buffer st p) t) st)" "reported st (publish (execution_report (ob_buffer st p) a) st)"
  "reported st (publish (modify_report (ob_buffer st p) px q t) st)" "reported st (publish (cancel_report (ob_buffer st p) t) st)"
  by (rule reported_publish [where p = p], simp)+

lemmas publishing_defs = publishOrderAck_def publishOrderExecution_def publishOrderModify_def publishOrderCancel_def

section \<open>The book\<close>

lemma unreported_set_order: "(\<And>ord. ids_of (f ord) = ids_of ord) \<Longrightarrow> unreported st (set_order p f st)"
  by (simp add: unreported_def same_ids_def set_order_def)

lemma ids_of_updates [simp]:
  "ids_of (ord\<lparr>leaves_quantity := x1\<rparr>) = ids_of ord" "ids_of (ord\<lparr>priority := x2\<rparr>) = ids_of ord" "ids_of (ord\<lparr>price := x3\<rparr>) = ids_of ord"
  "ids_of (ord\<lparr>quantity := x4\<rparr>) = ids_of ord" "ids_of (ord\<lparr>last_update_time := x5\<rparr>) = ids_of ord" "ids_of (ord\<lparr>status := x6\<rparr>) = ids_of ord"
  "ids_of (ord\<lparr>request_tag := x7\<rparr>) = ids_of ord" "ids_of (Sim_Order.executeOrder px q t ord) = ids_of ord" "ids_of (applyReplace px' q' ord) = ids_of ord"
  by (simp_all add: ids_of_def executeOrder_def applyReplace_def Let_def)

lemma unreported_notify: "unreported st (notify st n)"
  by (cases n) (simp_all add: notify_def onOrderUpdate_def unreported_def same_ids_def set_order_def Let_def split: option.split)

lemma unreported_foldl_notify: "unreported st (foldl notify st ns)"
  by (induction ns arbitrary: st) (auto intro: unreported_trans unreported_notify)

lemma unreported_l3_apply: "unreported st (snd (l3_apply r st))"
proof -
  obtain ok l ns where r: "r = (ok, l, ns)" by (cases r)
  have "unreported st (st\<lparr>ob_l3 := l\<rparr>)" by (simp add: unreported_def same_ids_def)
  then show ?thesis using unreported_trans unreported_foldl_notify by (simp add: r l3_apply_def) blast
qed

lemma unreported_base:
  "unreported st (snd (base_addOrder L i s px q t prio seq lb st))" "unreported st (snd (base_modifyOrder L i px q t prio seq lb st))"
  "unreported st (snd (base_deleteOrder L i t seq lb st))" "unreported st (snd (base_executeOrder L i q t seq lb st))"
  by (simp_all add: base_addOrder_def base_modifyOrder_def base_deleteOrder_def base_executeOrder_def unreported_l3_apply)

lemma unreported_index:
  "unreported st (indexOrder p st)" "unreported st (eraseOrder p st)" "unreported st (freeOrder p st)" "unreported st (drawPriority p st)" "unreported st (dropOrder p st)"
  by (simp_all add: unreported_def same_ids_def indexOrder_def eraseOrder_def freeOrder_def drawPriority_def nextOrderPriority_def dropOrder_def set_order_def Let_def)

lemma unreported_book:
  "unreported st (addOrder L p t seq lb st)" "unreported st (deleteOrder L p t seq lb st)" "unreported st (addBookOrder L i s px q t seq lb st)"
proof -
  have "unreported st (indexOrder p (drawPriority p st))" by (rule unreported_trans [OF unreported_index(4) unreported_index(1)])
  from unreported_trans [OF this unreported_base(1)] show "unreported st (addOrder L p t seq lb st)" by (simp add: addOrder_def Let_def)
  show "unreported st (deleteOrder L p t seq lb st)" unfolding deleteOrder_def Let_def
    by (rule if_split [THEN iffD2], intro conjI impI) (rule unreported_base(3), rule unreported_trans [OF unreported_base(3) unreported_index(2)])
  have "unreported st (st\<lparr>ob_next_priority := n\<rparr>)" for n by (simp add: unreported_def same_ids_def)
  from unreported_trans [OF this unreported_base(1)] show "unreported st (addBookOrder L i s px q t seq lb st)"
    by (simp add: addBookOrder_def nextOrderPriority_def)
qed

lemma unreported_execute: "unreported st (snd (book_executeOrder L i q t seq lb st))"
proof (cases "seq > 0 \<and> seq < l3_last_seq L (ob_l3 st) \<or> findOrder i st = None")
  case True
  then show ?thesis by (auto simp: book_executeOrder_def unreported_base)
next
  case False
  then obtain p where p: "findOrder i st = Some p" by blast
  let ?st1 = "set_order p (Sim_Order.executeOrder (price (ob_buffer st p)) q t) st"
  have 1: "unreported st ?st1" by (rule unreported_set_order) simp
  obtain rt st2 where e: "base_executeOrder L i q t seq lb ?st1 = (rt, st2)" by fastforce
  have 2: "unreported st st2" using unreported_trans [OF 1 unreported_base(4) [of ?st1 L i q t seq lb]] by (simp add: e)
  have "unreported st2 ((eraseOrder p st2)\<lparr>ob_orders := m\<rparr>)" for m by (simp add: unreported_def same_ids_def eraseOrder_def Let_def)
  then show ?thesis using False p 2 unreported_trans [OF 2] by (auto simp: book_executeOrder_def e Let_def)
qed

lemma unreported_modify: "unreported st (modifyOrder L p px q t seq lb st)"
proof -
  have 1: "unreported st (drawPriority p (set_order p (\<lambda>order. order\<lparr>price := px\<rparr>) st))"
    by (rule unreported_trans [OF unreported_set_order unreported_index(4)]) simp
  define b1 where "b1 = (if \<not> ob_orders st (id_num (ob_buffer st p)) \<noteq> None then
      (let b' = drawPriority p (set_order p (\<lambda>order. order\<lparr>price := px\<rparr>) st) in if q \<noteq> 0 then indexOrder p b' else b')
    else if px \<noteq> price (ob_buffer st p) then drawPriority p (set_order p (\<lambda>order. order\<lparr>price := px\<rparr>) st) else st)"
  have 2: "unreported st b1" unfolding b1_def Let_def using 1 unreported_trans [OF 1 unreported_index(1), of p] by (auto split del: if_split split: if_split)
  have 3: "unreported st (set_order p (\<lambda>order. order\<lparr>quantity := q\<rparr>) b1)" by (rule unreported_trans [OF 2 unreported_set_order]) simp
  note 4 = unreported_trans [OF 3 unreported_base(2)]
  show ?thesis unfolding modifyOrder_def Let_def b1_def [symmetric, unfolded Let_def]
    by (rule if_split [THEN iffD2], intro conjI impI) (rule unreported_trans [OF 4 unreported_index(2)], rule 4)
qed

section \<open>The engines\<close>

lemma reported_cancel_of: "ids_of ord = ids_of (ob_buffer st p) \<Longrightarrow> reported st (publish (cancel_report ord t) st)"
  by (rule reported_publish [where p = p]) simp

lemma reported_self_match: "reported st (snd (handleSelfMatch L r rt t seq smp st))"
proof (cases smp)
  case SMP_CANCEL_RESTING
  have "reported st (publish (cancel_report (ob_buffer (deleteOrder L r t seq False st) r) rt) (deleteOrder L r t seq False st))"
    by (rule reported_trans [OF unreported_reported [OF unreported_book(2)] reported_publish_of(4)])
  from reported_trans [OF this unreported_reported [OF unreported_index(3)]]
  show ?thesis by (simp add: handleSelfMatch_def SMP_CANCEL_RESTING Let_def publishing_defs)
qed (simp_all add: handleSelfMatch_def)

lemma reported_prepare: "reported st (snd (prepareOrder L reach s p px q rt smp st))"
proof -
  let ?ord = "ob_buffer st p"
  define st1 where "st1 = (if status ?ord = OS_PENDING_NEW then publish (ack_report ?ord rt) st else st)"
  have 1: "reported st st1" "ob_buffer st1 = ob_buffer st" unfolding st1_def by (simp_all add: reported_publish_of(1))
  define st2 where "st2 = (if status ?ord = OS_PENDING_REPLACE then
      (let st' = set_order p (applyReplace px q) st1 in publish (modify_report (ob_buffer st' p) px q rt) st') else st1)"
  have "reported st1 (set_order p (applyReplace px q) st1)" by (rule unreported_reported, rule unreported_set_order) simp
  from reported_trans [OF this reported_publish_of(3)] have "reported st1 st2" unfolding st2_def Let_def by (rule if_split [THEN iffD2, OF conjI [OF impI impI]]) simp
  then have 2: "reported st st2" by (rule reported_trans [OF 1(1)])
  have "reported st (publish (cancel_report ?ord rt) st1)" by (rule reported_trans [OF 1(1) reported_cancel_of [where p = p]]) (simp add: 1(2))
  moreover have "reported st (publish (cancel_report (ob_buffer st2 p) rt) st2)" by (rule reported_trans [OF 2 reported_publish_of(4)])
  ultimately show ?thesis using 2
    unfolding prepareOrder_def publishing_defs Let_def st1_def [symmetric] st2_def [symmetric, unfolded Let_def]
    by (simp only: snd_conv if_distrib [of snd] split: if_split) simp
qed

lemma reported_resting: "reported st (reportResting owner st)"
proof (cases owner)
  case (Some r)
  have 1: "reported st (publish (execution_report (ob_buffer st r) False) st)" by (rule reported_publish_of)
  show ?thesis using 1 reported_trans [OF 1 unreported_reported [OF unreported_index(5)]] by (simp add: reportResting_def publishing_defs Some Let_def)
qed (simp add: reportResting_def)

lemma reported_record: "reported st (snd (recordTrade s a b px q ph ctx st))"
proof -
  have "reported st (st\<lparr>next_trade_id := n\<rparr>)" for n by (simp add: reported_def same_ids_def)
  then show ?thesis by (simp add: recordTrade_def nextTradeId_def Let_def)
qed

lemma reported_execute: "book_executeOrder L i q t seq lb st = (ok, st') \<Longrightarrow> reported st st'"
  using unreported_reported [OF unreported_execute [of st L i q t seq lb]] by simp

lemma reported_fill: "reported st (snd (snd (fillResting L s p i owner px q rem ctx st)))"
proof -
  let ?st1 = "set_order p (Sim_Order.executeOrder px q (mc_event_time ctx)) st"
  let ?st2 = "publish (execution_report (ob_buffer ?st1 p) True) ?st1"
  have "reported st ?st1" by (rule unreported_reported, rule unreported_set_order) simp
  then have 2: "reported st ?st2" by (rule reported_trans [OF _ reported_publish_of(2)])
  obtain ok st3 where e: "book_executeOrder L i q (mc_event_time ctx) (mc_seq_num ctx) (rem = 0) ?st2 = (ok, st3)" by fastforce
  note 3 = reported_trans [OF 2 reported_execute [OF e]]
  note 4 = reported_trans [OF reported_trans [OF 3 reported_resting] reported_record]
  show ?thesis using 3 4 unfolding fillResting_def publishing_defs Let_def e prod.case by (simp add: split_beta)
qed

lemma reported_fill_feed: "reported st (snd (snd (snd (fillRestingFromFeed L s a i px q qty ctx st))))"
proof -
  obtain ok st1 where e: "book_executeOrder L i q (mc_event_time ctx) (mc_seq_num ctx) (qty - q = 0) st = (ok, st1)" by fastforce
  note 1 = reported_execute [OF e]
  note 2 = reported_trans [OF reported_trans [OF 1 reported_resting] reported_record]
  show ?thesis using 1 2 unfolding fillRestingFromFeed_def Let_def e prod.case by (simp add: split_beta)
qed

lemma reported_fifo_order: "fifo_order_loop L s p px rt smp q ctx st = Some y \<Longrightarrow> reported st (snd (snd (snd y)))"
proof (erule fifo_order_loop.raw_induct [where P = "\<lambda>L s p px rt smp q ctx st y. reported st (snd (snd (snd y)))", rotated], goal_cases)
  case (1 f L s p px rt smp q ctx st y)
  have sm: "reported st st'" if "handleSelfMatch L r t1 t2 n m st = (c, st')" for r t1 t2 n m c st'
    using reported_self_match [of st L r t1 t2 n m] that by simp
  have fl: "reported st st'" if "fillResting L s p i ow lp tq rq ctx st = (c, ctx', st')" for i ow lp tq rq c ctx' st'
    using reported_fill [of st L s p i ow lp tq rq ctx] that by simp
  show ?case using 1(2)
    by (auto simp: Let_def split: if_splits option.splits list.splits prod.splits dest: 1(1) sm fl intro: reported_trans)
qed

lemma reported_fifo_feed: "fifo_feed_loop L s a px q ctx st = Some y \<Longrightarrow> reported st (snd (snd y))"
proof (erule fifo_feed_loop.raw_induct [where P = "\<lambda>L s a px q ctx st y. reported st (snd (snd y))", rotated], goal_cases)
  case (1 f L s a px q ctx st y)
  have fl: "reported st st'" if "fillRestingFromFeed L s a i lp tq rq ctx st = (c, q', ctx', st')" for i lp tq rq c q' ctx' st'
    using reported_fill_feed [of st L s a i lp tq rq ctx] that by simp
  show ?case using 1(2)
    by (auto simp: Let_def split: if_splits option.splits list.splits prod.splits dest: 1(1) fl intro: reported_trans)
qed

lemma reported_pr_cancel: "reported st (snd (snd (pr_cancel_own L p rt ctx smp as any st)))"
proof (induction as arbitrary: any st)
  case (Cons a as)
  obtain c st' where h: "handleSelfMatch L (the (al_order a)) rt (mc_event_time ctx) (mc_seq_num ctx) smp st = (c, st')" by fastforce
  then have "reported st st'" using reported_self_match [of st L "the (al_order a)" rt "mc_event_time ctx" "mc_seq_num ctx" smp] by simp
  then show ?case using Cons reported_trans [OF \<open>reported st st'\<close> Cons.IH] by (auto simp: h)
qed simp

lemma reported_pr_fill: "reported st (snd (snd (snd (pr_fill_order L s p lp ck as q ctx st))))"
proof (induction as arbitrary: q ctx st)
  case (Cons a as)
  let ?ow = "if ck then al_order a else findOrder (al_order_id a) st"
  obtain ok ctx' st' where h: "fillResting L s p (al_order_id a) ?ow lp (al_qty a) (q - al_qty a) ctx st = (ok, ctx', st')" by (metis prod_cases3)
  then have "reported st st'" using reported_fill [of st L s p "al_order_id a" ?ow lp "al_qty a" "q - al_qty a" ctx] by simp
  then show ?case using Cons reported_trans unfolding pr_fill_order.simps Let_def h prod.case by (simp split: if_split) blast
qed simp

lemma reported_pr_fill_feed: "reported st (snd (snd (snd (pr_fill_feed L s a lp as q ctx st))))"
proof (induction as arbitrary: q ctx st)
  case (Cons al as)
  obtain ok q' ctx' st' where h: "fillRestingFromFeed L s a (al_order_id al) lp (al_qty al) q ctx st = (ok, q', ctx', st')" by (metis prod_cases4)
  then have "reported st st'" using reported_fill_feed [of st L s a "al_order_id al" lp "al_qty al" q ctx] by simp
  then show ?case using Cons reported_trans unfolding pr_fill_feed.simps h prod.case by (simp split: if_split) blast
qed simp

lemma reported_pr_order: "pr_order_loop c L s p px rt smp q ctx st = Some y \<Longrightarrow> reported st (snd (snd (snd y)))"
proof (erule pr_order_loop.raw_induct [where P = "\<lambda>c L s p px rt smp q ctx st y. reported st (snd (snd (snd y)))", rotated], goal_cases)
  case (1 f c L s p px rt smp q ctx st y)
  have co: "reported st st'" if "pr_cancel_own L p rt ctx smp as any st = (go, any', st')" for as any go any' st'
    using reported_pr_cancel [of st L p rt ctx smp as any] that by simp
  have fl: "reported st1 st'" if "pr_fill_order L s p lp ck as q1 ctx st1 = (go, q', ctx', st')" for lp ck as q1 st1 go q' ctx' st'
    using reported_pr_fill [of st1 L s p lp ck as q1 ctx] that by simp
  show ?case using 1(2)
    by (auto simp: Let_def split: if_splits option.splits prod.splits dest!: 1(1) co fl intro: reported_trans)
qed

lemma reported_pr_feed: "pr_feed_loop c L s a px q ctx st = Some y \<Longrightarrow> reported st (snd (snd y))"
proof (erule pr_feed_loop.raw_induct [where P = "\<lambda>c L s a px q ctx st y. reported st (snd (snd y))", rotated], goal_cases)
  case (1 f c L s a px q ctx st y)
  have fl: "reported st st'" if "pr_fill_feed L s a lp as q1 ctx st = (go, q', ctx', st')" for lp as q1 go q' ctx' st'
    using reported_pr_fill_feed [of st L s a lp as q1 ctx] that by simp
  show ?case using 1(2)
    by (auto simp: Let_def split: if_splits option.splits prod.splits dest!: 1(1) fl intro: reported_trans)
qed

end
