(* ===== verification/Report_Types.thy ===== *)
theory Report_Types
  imports Report_Facts Fixed_String
begin

text \<open>
  The text fields of the exchange are well typed: every identity field of an order or a report fits the
  character array the source declares for it, with room for the terminator, and has no terminator inside, in
  every state the exchange can reach, whatever requests and feed events it is given.
\<close>

section \<open>The instrument\<close>

lemma reported_remainder: "reported st (cancelUnrestableRemainder p r rt st)"
  by (simp add: cancelUnrestableRemainder_def publishing_defs reported_publish_of)

text \<open>Both engines prepare the order, run their loop and cancel what cannot rest.\<close>

lemma reported_matched:
  assumes "\<And>q ctx st y. lp q ctx st = Some y \<Longrightarrow> reported st (snd (snd (snd y)))"
    and "(case prepareOrder L reach s p px q rt smp st of
        (Some r, st1) \<Rightarrow> Some (r, [], st1)
      | (None, st1) \<Rightarrow> (case lp (leaves_quantity (ob_buffer st1 p)) (new_context t seq) st1 of
          None \<Rightarrow> None
        | Some (go, q', ctx, st2) \<Rightarrow> if \<not> go then Some (RJ_SMP, mc_summaries ctx, st2)
            else Some (RJ_NONE, mc_summaries ctx, cancelUnrestableRemainder p q' rt st2))) = Some (rj, ts, st')"
  shows "reported st st'"
proof -
  obtain fin st1 where pr: "prepareOrder L reach s p px q rt smp st = (fin, st1)" by fastforce
  have 1: "reported st st1" using reported_prepare [of st L reach s p px q rt smp] pr by simp
  show ?thesis
  proof (cases fin)
    case None
    with assms(2) pr obtain go q' ctx st2 where l: "lp (leaves_quantity (ob_buffer st1 p)) (new_context t seq) st1 = Some (go, q', ctx, st2)"
      by (auto split: option.splits)
    have 2: "reported st st2" using reported_trans [OF 1 assms(1) [OF l]] by simp
    moreover have "st' = st2 \<or> st' = cancelUnrestableRemainder p q' rt st2" using assms(2) pr None l by (auto split: if_splits)
    ultimately show ?thesis using reported_trans [OF 2 reported_remainder] by blast
  next
    case (Some r)
    then show ?thesis using assms(2) pr 1 by simp
  qed
qed

lemma reported_match_order:
  assumes "engine_match_order L e p px q rt t seq smp st = Some (rj, ts, st')"
  shows "reported st st'"
proof (cases e)
  case FifoMatchingEngine
  show ?thesis
    by (rule reported_matched [where lp = "fifo_order_loop L (if side (ob_buffer st p) = BUY then SELL else BUY) p px rt smp", OF reported_fifo_order assms [unfolded engine_match_order_def FifoMatchingEngine engine_obj.case fifo_match_order_def fifo_matchOrder_def]])
next
  case (ProRataMatchingEngine c)
  show ?thesis
    by (rule reported_matched [where lp = "pr_order_loop c L (if side (ob_buffer st p) = BUY then SELL else BUY) p px rt smp", OF reported_pr_order assms [unfolded engine_match_order_def ProRataMatchingEngine engine_obj.case pr_match_order_def pr_matchOrder_def]])
qed

lemma reported_match_feed:
  assumes "engine_match_feed L e s i px q t seq st = Some (ts, q', st')"
  shows "reported st st'"
  using assms reported_fifo_feed reported_pr_feed
  by (cases e) (fastforce simp: engine_match_feed_def fifo_match_feed_def fifo_matchFeed_def pr_match_feed_def pr_matchFeed_def split: option.splits)+

lemma unreported_close: "unreported st (close_event st)"
  by (simp add: close_event_def unreported_def same_ids_def)

lemma reported_sym_add:
  assumes "sym_addOrder L p rt st = Some (rj, ts, st')"
  shows "reported st st'"
proof -
  from assms obtain st1 where m: "reported st st1" and "st' = addOrder L p (created_time (ob_buffer st1 p)) 0 True st1 \<or> st' = freeOrder p (close_event st1)"
    by (auto simp: sym_addOrder_def Let_def split: option.splits if_splits dest!: reported_match_order)
  then show ?thesis
    using reported_trans [OF m unreported_reported [OF unreported_book(1)]]
      reported_trans [OF m unreported_reported [OF unreported_trans [OF unreported_close unreported_index(3)]]] by blast
qed

lemma reported_sym_modify:
  assumes "sym_modifyOrder L p px q rt now st = Some (rj, ts, st')"
  shows "reported st st'"
proof -
  from assms obtain st1 where m: "reported st st1" and st': "st' = (let st2 = set_order p (\<lambda>ord. ord\<lparr>last_update_time := now\<rparr>) st1;
      st3 = (if rj = RJ_NONE then
        (let st'' = (if px \<noteq> price (ob_buffer st p) \<or> q > quantity (ob_buffer st p) then drawPriority p st2 else st2)
         in modifyOrder L p px (quantity (ob_buffer st'' p)) (last_update_time (ob_buffer st'' p)) 0 True st'') else st2)
      in if leaves_quantity (ob_buffer st3 p) = 0 then freeOrder p st3 else st3)"
    by (auto simp: sym_modifyOrder_def Let_def split: option.splits dest!: reported_match_order)
  define st2 where "st2 = set_order p (\<lambda>ord. ord\<lparr>last_update_time := now\<rparr>) st1"
  have 2: "unreported st1 st2" unfolding st2_def by (rule unreported_set_order) simp
  define st2' where "st2' = (if px \<noteq> price (ob_buffer st p) \<or> q > quantity (ob_buffer st p) then drawPriority p st2 else st2)"
  have dp: "unreported st1 st2'" unfolding st2'_def using 2 unreported_trans [OF 2 unreported_index(4), of p] by auto
  define st3 where "st3 = (if rj = RJ_NONE then modifyOrder L p px (quantity (ob_buffer st2' p)) (last_update_time (ob_buffer st2' p)) 0 True st2' else st2)"
  have 3: "unreported st1 st3" unfolding st3_def using 2 unreported_trans [OF dp unreported_modify] by auto
  have "st' = st3 \<or> st' = freeOrder p st3" unfolding st' st3_def st2'_def st2_def Let_def by auto
  then show ?thesis using reported_trans [OF m unreported_reported [OF 3]]
      reported_trans [OF m unreported_reported [OF unreported_trans [OF 3 unreported_index(3)]]] by blast
qed

lemma reported_sym_cancel: "reported st (sym_cancelOrder L p rt now st)"
proof -
  let ?st1 = "set_order p (\<lambda>ord. ord\<lparr>last_update_time := now\<rparr>) st"
  let ?st2 = "deleteOrder L p (last_update_time (ob_buffer ?st1 p)) 0 True ?st1"
  have "unreported st ?st2" by (rule unreported_trans [OF unreported_set_order unreported_book(2)]) simp
  from reported_trans [OF unreported_reported [OF this] reported_publish_of(4)]
  have "reported st (publish (cancel_report (ob_buffer ?st2 p) rt) ?st2)" .
  from reported_trans [OF this unreported_reported [OF unreported_index(3)]]
  show ?thesis by (simp add: sym_cancelOrder_def publishing_defs Let_def)
qed

lemma unreported_reductions: "unreported st (apply_reductions L px t seq ee rs st)"
  by (induction rs arbitrary: st) (auto intro: unreported_trans [OF unreported_base(2)])

lemma unreported_reconcile: "unreported st (reconcilePhantomQty L s px q t seq ee st)"
proof -
  have tk: "unreported st (snd (takeTradedQty s px t st))" by (simp add: takeTradedQty_def unreported_def same_ids_def Let_def split: option.splits prod.splits)
  obtain u st1 where e: "takeTradedQty s px t st = (u, st1)" by fastforce
  have 1: "unreported st st1" using tk by (simp add: e)
  have "unreported st1 (st1\<lparr>ob_next_order_id := n\<rparr>)" for n by (simp add: unreported_def same_ids_def)
  note 2 = unreported_trans [OF 1 unreported_trans [OF this unreported_book(3)]] and 3 = unreported_trans [OF 1 unreported_reductions]
  show ?thesis using 1 2 3 by (simp add: reconcilePhantomQty_def e nextOrderId_def Let_def split: option.splits)
qed

lemma unreported_reconcile_all: "unreported st (reconcile_all L s t us st)"
proof (induction us arbitrary: st)
  case (Cons u us)
  obtain px q where "u = (px, q)" by fastforce
  then show ?case using unreported_trans [OF unreported_reconcile Cons.IH] by simp
qed simp

section \<open>Fields that fit\<close>

definition text_fits :: "nat \<Rightarrow> string \<Rightarrow> bool" where
  "text_fits n s \<longleftrightarrow> length s < n \<and> NUL \<notin> set s"

fun ids_fit :: "string \<times> string \<times> string \<times> string \<Rightarrow> bool" where
  "ids_fit (sy, u, c, i) \<longleftrightarrow> text_fits 32 sy \<and> text_fits 37 u \<and> text_fits 37 c \<and> text_fits 37 i"

definition symbol_typed :: "'l Symbol \<Rightarrow> bool" where
  "symbol_typed sy \<longleftrightarrow> text_fits 32 (ob_symbol sy) \<and> (\<forall>p. ids_fit (ids_of (ob_buffer sy p))) \<and> (\<forall>r\<in>set (response_queue sy). ids_fit (r_ids r))"

definition texts_typed :: "'l Exchange \<Rightarrow> bool" where
  "texts_typed x \<longleftrightarrow>
     (\<forall>n sy. x_symbols x n = Some sy \<longrightarrow> text_fits 32 (ob_symbol sy) \<and> (\<forall>p. ids_fit (ids_of (ob_buffer sy p)))) \<and>
     (\<forall>r\<in>set (x_response_queue x). ids_fit (r_ids r))"

text \<open>What a request and its environment bring, as the character arrays of the request hold it.\<close>

definition request_typed :: "request_env \<Rightarrow> Request \<Rightarrow> bool" where
  "request_typed env request \<longleftrightarrow> text_fits 32 (req_symbol request) \<and> text_fits 37 (env_uuid env) \<and>
     (case body request of
        NEW_ORDER_SINGLE m \<Rightarrow> text_fits 37 (ao_user_id m) \<and> text_fits 37 (ao_client_order_id m)
      | ORDER_REPLACE_REQUEST m \<Rightarrow> text_fits 37 (mo_user_id m) \<and> text_fits 37 (mo_client_order_id m) \<and> text_fits 37 (mo_order_id m)
      | ORDER_CANCEL_REQUEST m \<Rightarrow> text_fits 37 (co_user_id m) \<and> text_fits 37 (co_client_order_id m) \<and> text_fits 37 (co_order_id m)
      | _ \<Rightarrow> True)"

section \<open>Steps keep them\<close>

definition sy_fine :: "'l Symbol \<Rightarrow> 'l Symbol \<Rightarrow> bool" where
  "sy_fine sy sy' \<longleftrightarrow> (symbol_typed sy \<longrightarrow> symbol_typed sy') \<and> prefix (response_queue sy) (response_queue sy')"

definition x_fine :: "'l Exchange \<Rightarrow> 'l Exchange \<Rightarrow> bool" where
  "x_fine x x' \<longleftrightarrow> (texts_typed x \<longrightarrow> texts_typed x') \<and> prefix (x_response_queue x) (x_response_queue x')"

lemma text_fits_Nil [simp]: "0 < n \<Longrightarrow> text_fits n []"
  by (simp add: text_fits_def)

lemma sy_fine_refl [simp]: "sy_fine sy sy"
  by (simp add: sy_fine_def)

lemma sy_fine_trans: "sy_fine a b \<Longrightarrow> sy_fine b c \<Longrightarrow> sy_fine a c"
  by (auto simp: sy_fine_def)

lemma x_fine_refl [simp]: "x_fine x x"
  by (simp add: x_fine_def)

lemma x_fine_trans: "x_fine a b \<Longrightarrow> x_fine b c \<Longrightarrow> x_fine a c"
  by (auto simp: x_fine_def)

lemma reported_fine: "reported sy sy' \<Longrightarrow> sy_fine sy sy'"
  by (fastforce simp: reported_def same_ids_def sy_fine_def symbol_typed_def)

lemmas unreported_fine = reported_fine [OF unreported_reported]

lemma publish_fine: "(\<And>r. ids_fit (r_ids (f r))) \<Longrightarrow> sy_fine sy (publish f sy)"
  by (auto simp: sy_fine_def symbol_typed_def publish_def)

lemma x_publish_fine: "(\<And>r. ids_fit (r_ids (f r))) \<Longrightarrow> x_fine x (x_publish f x)"
  by (auto simp: x_fine_def texts_typed_def x_publish_def)

lemma summaries_fine:
  assumes "foldl publishTradeSummary (sy, x) sms = (sy', x')"
  shows "sy_fine sy sy'" "x_symbols x' = x_symbols x"
  using publish_all_frame [OF assms] by (auto simp: sy_fine_def symbol_typed_def x_frame_def dest: but_historyD(2,8,11))

lemma flush_fine:
  assumes "flushMarketDataCaches (sy, x) = (sy', x')"
  shows "sy_fine sy sy'" "x_symbols x' = x_symbols x"
  using flush_frame(1,2) [OF assms] by (simp_all add: sy_fine_def symbol_typed_def x_frame_def)

lemma leave_fine:
  assumes "getSymbol n x = Some sy" and "sy_fine sy sy'" and "x_symbols x' = x_symbols x"
  shows "x_fine x (leave n (sy', x'))"
proof -
  obtain sy0 where s: "x_symbols x n = Some sy0" "sy = load x sy0" using assms(1) by (auto simp: getSymbol_def)
  have "symbol_typed sy" if "texts_typed x" using that s by (simp add: texts_typed_def symbol_typed_def)
  then show ?thesis using assms(2,3) s by (auto simp: x_fine_def sy_fine_def texts_typed_def symbol_typed_def)
qed

lemma leave_flushed_fine:
  assumes "getSymbol n x = Some sy" and "sy_fine sy sy'" and "x_symbols x' = x_symbols x"
  shows "x_fine x (leave n (flushMarketDataCaches (sy', x')))"
proof -
  obtain sy2 x2 where f: "flushMarketDataCaches (sy', x') = (sy2, x2)" by fastforce
  show ?thesis unfolding f by (rule leave_fine [OF assms(1) sy_fine_trans [OF assms(2) flush_fine(1) [OF f]]]) (simp add: flush_fine(2) [OF f] assms(3))
qed

section \<open>Requests\<close>

lemma reject_ids [simp]:
  "r_ids (new_reject request m reason now r) = (req_symbol request, ao_user_id m, ao_client_order_id m, [])"
  "r_ids (modify_reject request m' reason now r) = (req_symbol request, mo_user_id m', mo_client_order_id m', mo_order_id m')"
  "r_ids (cancel_reject request m'' reason now r) = (req_symbol request, co_user_id m'', co_client_order_id m'', co_order_id m'')"
  by (simp_all add: r_ids_def new_reject_def modify_reject_def cancel_reject_def reject_report_def)

text \<open>The new order in its slot, reported as pending.\<close>

definition placed :: "request_env \<Rightarrow> Request \<Rightarrow> AddOrderMessage \<Rightarrow> int \<Rightarrow> 'l Symbol \<Rightarrow> 'l Symbol" where
  "placed env request msg cid sy =
     (let sy2 = set_order (env_slot env) (fill_in (ob_symbol sy) request msg cid) (allocateOrder (env_slot env) (env_uuid env) (env_clock env 0) sy)
      in publish (pending_new_report (ob_buffer sy2 (env_slot env)) (time_stamp request)) sy2)"

lemma allocate_sel:
  "ob_symbol (allocateOrder p u now b) = ob_symbol b" "response_queue (allocateOrder p u now st) = response_queue st"
  "response_slot (allocateOrder p u now st) = response_slot st"
  "ids_of (ob_buffer (allocateOrder p u now b) p') = (if p' = p then (symbol (ob_buffer b p), user_id (ob_buffer b p), client_order_id (ob_buffer b p), u) else ids_of (ob_buffer b p'))"
  by (simp_all add: allocateOrder_def nextOrderId_def set_order_def ids_of_def resetFillAccounting_def)

lemma fill_in_ids: "ids_of (fill_in n request msg cid ord) = (n, ao_user_id msg, ao_client_order_id msg, order_id ord)"
  by (simp add: fill_in_def ids_of_def resetFillAccounting_def)

lemma placed_queue:
  "\<exists>r. response_queue (placed env request msg cid sy) = response_queue sy @ [r] \<and> r_order_status r = OS_PENDING_NEW \<and> r_request_time r = time_stamp request \<and>
     r_ids r = (ob_symbol sy, ao_user_id msg, ao_client_order_id msg, env_uuid env)"
proof -
  let ?a = "allocateOrder (env_slot env) (env_uuid env) (env_clock env 0) sy"
  let ?sy2 = "set_order (env_slot env) (fill_in (ob_symbol sy) request msg cid) ?a"
  let ?r = "pending_new_report (ob_buffer ?sy2 (env_slot env)) (time_stamp request) (response_slot ?sy2 (length (response_queue ?sy2)))"
  have "order_id (ob_buffer ?a (env_slot env)) = env_uuid env" using allocate_sel(4) [of "env_slot env" "env_uuid env" "env_clock env 0" sy "env_slot env"] by (simp add: ids_of_def)
  then have "r_ids ?r = (ob_symbol sy, ao_user_id msg, ao_client_order_id msg, env_uuid env)" by (simp add: set_order_def fill_in_ids)
  moreover have "response_queue (placed env request msg cid sy) = response_queue sy @ [?r]"
    by (simp add: placed_def publish_def set_order_def allocate_sel(2))
  moreover have "r_order_status ?r = OS_PENDING_NEW" "r_request_time ?r = time_stamp request" by (simp_all add: pending_new_report_def)
  ultimately show ?thesis by blast
qed

lemma placed_fine:
  assumes "text_fits 37 (ao_user_id msg)" and "text_fits 37 (ao_client_order_id msg)" and "text_fits 37 (env_uuid env)"
  shows "sy_fine sy (placed env request msg cid sy)"
proof -
  obtain r where r: "response_queue (placed env request msg cid sy) = response_queue sy @ [r]" "r_ids r = (ob_symbol sy, ao_user_id msg, ao_client_order_id msg, env_uuid env)"
    using placed_queue by blast
  have n: "ob_symbol (placed env request msg cid sy) = ob_symbol sy" by (simp add: placed_def publish_def set_order_def allocate_sel Let_def)
  have "ids_of (ob_buffer (placed env request msg cid sy) p) = (if p = env_slot env then (ob_symbol sy, ao_user_id msg, ao_client_order_id msg, env_uuid env) else ids_of (ob_buffer sy p))" for p
    using allocate_sel(4) [of "env_slot env" "env_uuid env" "env_clock env 0" sy p]
    by (auto simp: placed_def publish_def set_order_def fill_in_ids Let_def) (simp add: ids_of_def)
  then show ?thesis using assms r n by (simp add: sy_fine_def symbol_typed_def)
qed

lemma handleNew_run:
  assumes "getSymbol (req_symbol request) x = Some sy"
    and "\<not> (ao_client_order_id msg \<noteq> [] \<and> findOrderByClientOrderId (ao_client_order_id msg) sy \<noteq> None)"
    and "clientIdFor (ao_user_id msg) x = (cid, x1)"
  shows "handleNewOrderRequest L env request msg x = (case sym_addOrder L (env_slot env) (time_stamp request) (placed env request msg cid sy) of
      None \<Rightarrow> None
    | Some (rj, ts, sy4) \<Rightarrow>
        (let (sy5, x2) = foldl publishTradeSummary (sy4, x1) ts;
             sy6 = (if rj \<noteq> RJ_NONE \<and> rj \<noteq> RJ_FOK_CANNOT_FILL then publish (new_reject request msg rj (env_clock env 1)) sy5 else sy5)
         in Some (leave (req_symbol request) (flushMarketDataCaches (sy6, x2)))))"
  unfolding handleNewOrderRequest_def assms(1) option.case if_not_P [OF assms(2)] assms(3) prod.case Let_def placed_def ..

lemma handleNew_shape:
  assumes "handleNewOrderRequest L env request msg x = Some x'" and "getSymbol (req_symbol request) x = Some sy"
    and "\<not> (ao_client_order_id msg \<noteq> [] \<and> findOrderByClientOrderId (ao_client_order_id msg) sy \<noteq> None)"
  obtains cid sy6 x2 where "x' = leave (req_symbol request) (flushMarketDataCaches (sy6, x2))" and "x_symbols x2 = x_symbols x"
    and "prefix (response_queue (placed env request msg cid sy)) (response_queue sy6)"
    and "text_fits 32 (req_symbol request) \<Longrightarrow> text_fits 37 (ao_user_id msg) \<Longrightarrow> text_fits 37 (ao_client_order_id msg) \<Longrightarrow> sy_fine (placed env request msg cid sy) sy6"
proof -
  obtain cid x1 where c: "clientIdFor (ao_user_id msg) x = (cid, x1)" by fastforce
  note run = assms(1) [unfolded handleNew_run [OF assms(2,3) c]]
  from run obtain rj ts sy4 where a: "sym_addOrder L (env_slot env) (time_stamp request) (placed env request msg cid sy) = Some (rj, ts, sy4)"
    by (cases "sym_addOrder L (env_slot env) (time_stamp request) (placed env request msg cid sy)") auto
  obtain sy5 x2 where s: "foldl publishTradeSummary (sy4, x1) ts = (sy5, x2)" by fastforce
  define sy6 where "sy6 = (if rj \<noteq> RJ_NONE \<and> rj \<noteq> RJ_FOK_CANNOT_FILL then publish (new_reject request msg rj (env_clock env 1)) sy5 else sy5)"
  have 5: "sy_fine (placed env request msg cid sy) sy5"
    by (rule sy_fine_trans [OF reported_fine [OF reported_sym_add [OF a]] summaries_fine(1) [OF s]])
  show ?thesis
  proof (rule that)
    show "x' = leave (req_symbol request) (flushMarketDataCaches (sy6, x2))" using run unfolding a option.case prod.case s Let_def sy6_def by simp
    show "x_symbols x2 = x_symbols x" using summaries_fine(2) [OF s] clientIdFor_frame(1) [OF c] by simp
    show "prefix (response_queue (placed env request msg cid sy)) (response_queue sy6)" using 5 by (auto simp: sy6_def sy_fine_def publish_def)
    assume "text_fits 32 (req_symbol request)" "text_fits 37 (ao_user_id msg)" "text_fits 37 (ao_client_order_id msg)"
    then have "sy_fine sy5 sy6" unfolding sy6_def by (auto intro: publish_fine)
    with 5 show "sy_fine (placed env request msg cid sy) sy6" by (rule sy_fine_trans)
  qed
qed

lemma handleNew_fine:
  assumes "handleNewOrderRequest L env request msg x = Some x'" and "text_fits 32 (req_symbol request)" and "text_fits 37 (env_uuid env)"
    and "text_fits 37 (ao_user_id msg)" and "text_fits 37 (ao_client_order_id msg)"
  shows "x_fine x x'"
proof -
  have rj: "x_fine x (x_publish (new_reject request msg reason now) x)" for reason now by (rule x_publish_fine) (simp add: assms)
  show ?thesis
  proof (cases "getSymbol (req_symbol request) x")
    case None
    then show ?thesis using assms(1) rj by (auto simp: handleNewOrderRequest_def)
  next
    case (Some sy)
    show ?thesis
    proof (cases "ao_client_order_id msg \<noteq> [] \<and> findOrderByClientOrderId (ao_client_order_id msg) sy \<noteq> None")
      case True
      then show ?thesis using assms(1) rj by (auto simp: handleNewOrderRequest_def Some)
    next
      case False
      from handleNew_shape [OF assms(1) Some False] obtain cid sy6 x2 where s: "x' = leave (req_symbol request) (flushMarketDataCaches (sy6, x2))"
        "x_symbols x2 = x_symbols x" "sy_fine (placed env request msg cid sy) sy6" using assms by metis
      show ?thesis unfolding s(1) by (rule leave_flushed_fine [OF Some sy_fine_trans [OF placed_fine s(3)] s(2)]) (use assms in simp_all)
    qed
  qed
qed

text \<open>The first response to a new order: a refusal, or the pending order under its new id.\<close>

lemma handleNew_first:
  assumes "handleNewOrderRequest L env request msg x = Some x'"
  shows "\<exists>r rest. x_response_queue x' = x_response_queue x @ r # rest \<and> r_user_id r = ao_user_id msg \<and> r_client_order_id r = ao_client_order_id msg \<and>
    r_request_time r = time_stamp request \<and>
    (case getSymbol (req_symbol request) x of
       None \<Rightarrow> r_order_status r = OS_REJECTED \<and> r_reject_reason r = RJ_UNKNOWN_CONTRACT
     | Some sy \<Rightarrow>
         if ao_client_order_id msg \<noteq> [] \<and> findOrderByClientOrderId (ao_client_order_id msg) sy \<noteq> None
         then r_order_status r = OS_REJECTED \<and> r_reject_reason r = RJ_CLIENT_ORDER_ID_ALREADY_EXISTS
         else r_order_status r = OS_PENDING_NEW \<and> r_order_id r = env_uuid env)"
proof (cases "getSymbol (req_symbol request) x")
  case None
  then show ?thesis using assms by (auto simp: handleNewOrderRequest_def x_publish_def new_reject_def reject_report_def)
next
  case (Some sy)
  have q: "response_queue sy = x_response_queue x" using Some by (auto simp: getSymbol_def)
  show ?thesis
  proof (cases "ao_client_order_id msg \<noteq> [] \<and> findOrderByClientOrderId (ao_client_order_id msg) sy \<noteq> None")
    case True
    then show ?thesis using assms by (auto simp: handleNewOrderRequest_def Some x_publish_def new_reject_def reject_report_def)
  next
    case False
    from handleNew_shape [OF assms Some False] obtain cid sy6 x2 where s: "x' = leave (req_symbol request) (flushMarketDataCaches (sy6, x2))"
      "prefix (response_queue (placed env request msg cid sy)) (response_queue sy6)" by metis
    obtain sy7 x3 where f: "flushMarketDataCaches (sy6, x2) = (sy7, x3)" by fastforce
    have "x_response_queue x' = response_queue sy6" using flush_frame(1) [OF f] by (simp add: s(1) f)
    moreover obtain r where r: "response_queue (placed env request msg cid sy) = response_queue sy @ [r]" "r_order_status r = OS_PENDING_NEW"
      "r_request_time r = time_stamp request" "r_ids r = (ob_symbol sy, ao_user_id msg, ao_client_order_id msg, env_uuid env)" using placed_queue by blast
    moreover obtain rest where "response_queue sy6 = response_queue (placed env request msg cid sy) @ rest" using s(2) by (auto simp: prefix_def)
    ultimately show ?thesis unfolding Some option.case if_not_P [OF False] using q by (intro exI [of _ r] exI [of _ rest]) (simp add: r_ids_def)
  qed
qed

lemma handleModify_fine:
  assumes "handleModifyOrderRequest L env request msg x = Some x'" and "text_fits 32 (req_symbol request)"
    and "text_fits 37 (mo_user_id msg)" and "text_fits 37 (mo_client_order_id msg)" and "text_fits 37 (mo_order_id msg)"
  shows "x_fine x x'"
proof -
  have rj: "x_fine x (x_publish (modify_reject request msg reason now) x)" for reason now by (rule x_publish_fine) (simp add: assms)
  show ?thesis
  proof (cases "getSymbol (req_symbol request) x")
    case None
    then show ?thesis using assms(1) rj by (auto simp: handleModifyOrderRequest_def)
  next
    case (Some sy)
    show ?thesis
    proof (cases "lookup_order (mo_client_order_id msg) (mo_order_id msg) sy")
      case None
      then show ?thesis using assms(1) rj by (auto simp: handleModifyOrderRequest_def Some)
    next
      case lk: (Some p)
      let ?sy1 = "set_order p (\<lambda>order. order\<lparr>status := OS_PENDING_REPLACE, last_update_time := env_clock env 0, request_tag := req_request_tag request\<rparr>) sy"
      let ?sy2 = "publish (pending_replace_report (ob_buffer ?sy1 p) (time_stamp request)) ?sy1"
      have "unreported sy ?sy1" by (rule unreported_set_order) (simp add: ids_of_def)
      then have 2: "sy_fine sy ?sy2" by (rule sy_fine_trans [OF unreported_fine reported_fine [OF reported_publish [where p = p]]]) simp
      note run = assms(1) [unfolded handleModifyOrderRequest_def Some lk option.case Let_def]
      then obtain rr ts sy3 where m: "sym_modifyOrder L p (mo_new_price msg) (mo_new_qty msg) (time_stamp request) (env_clock env 1) ?sy2 = Some (rr, ts, sy3)"
        by (cases "sym_modifyOrder L p (mo_new_price msg) (mo_new_qty msg) (time_stamp request) (env_clock env 1) ?sy2") auto
      obtain sy4 x1 where s: "foldl publishTradeSummary (sy3, x) ts = (sy4, x1)" by fastforce
      define sy5 where "sy5 = (if rr \<noteq> RJ_NONE then publish (modify_reject request msg rr (env_clock env 2))
          (set_order p (\<lambda>order. order\<lparr>request_tag := request_tag (ob_buffer sy p)\<rparr>) sy4) else sy4)"
      have x': "x' = leave (req_symbol request) (flushMarketDataCaches (sy5, x1))" using run unfolding m option.case prod.case s sy5_def by simp
      have 4: "sy_fine sy sy4" by (rule sy_fine_trans [OF sy_fine_trans [OF 2 reported_fine [OF reported_sym_modify [OF m]]] summaries_fine(1) [OF s]])
      have st: "sy_fine sy4 (set_order p (\<lambda>order. order\<lparr>request_tag := request_tag (ob_buffer sy p)\<rparr>) sy4)" by (rule unreported_fine [OF unreported_set_order]) simp
      have "sy_fine sy4 sy5" unfolding sy5_def using assms by (auto intro!: sy_fine_trans [OF st publish_fine])
      from leave_flushed_fine [OF Some sy_fine_trans [OF 4 this] summaries_fine(2) [OF s]] show ?thesis unfolding x' .
    qed
  qed
qed

lemma handleCancel_fine:
  assumes "text_fits 32 (req_symbol request)" and "text_fits 37 (co_user_id msg)" and "text_fits 37 (co_client_order_id msg)" and "text_fits 37 (co_order_id msg)"
    and run: "handleCancelOrderRequest L env request msg x = Some x'"
  shows "x_fine x x'"
proof -
  have rj: "x_fine x (x_publish (cancel_reject request msg reason now) x)" for reason now by (rule x_publish_fine) (simp add: assms)
  show ?thesis
  proof (cases "getSymbol (req_symbol request) x")
    case None
    then show ?thesis using rj run by (auto simp: handleCancelOrderRequest_def)
  next
    case (Some sy)
    show ?thesis
    proof (cases "lookup_order (co_client_order_id msg) (co_order_id msg) sy")
      case None
      then show ?thesis using rj run by (auto simp: handleCancelOrderRequest_def Some)
    next
      case lk: (Some p)
      let ?sy1 = "set_order p (\<lambda>order. order\<lparr>status := OS_PENDING_CANCEL, request_tag := req_request_tag request\<rparr>) sy"
      let ?sy2 = "publish (pending_cancel_report (ob_buffer ?sy1 p) (time_stamp request)) ?sy1"
      have "unreported sy ?sy1" by (rule unreported_set_order) (simp add: ids_of_def)
      then have "sy_fine sy ?sy2" by (rule sy_fine_trans [OF unreported_fine reported_fine [OF reported_publish [where p = p]]]) simp
      from leave_flushed_fine [OF Some sy_fine_trans [OF this reported_fine [OF reported_sym_cancel]] refl]
      have "x_fine x (leave (req_symbol request) (flushMarketDataCaches (sym_cancelOrder L p (time_stamp request) (env_clock env 0) ?sy2, x)))" .
      moreover have "sendOrderCancelPending (env_asserts env) (ob_buffer ?sy1 p) (time_stamp request) ?sy1 \<in> {None, Some ?sy2}"
        unfolding sendOrderCancelPending_def by simp
      ultimately show ?thesis using run unfolding handleCancelOrderRequest_def Some lk option.case Let_def by (auto split: option.splits)
    qed
  qed
qed

lemma processRequest_fine:
  assumes "processRequest L env (Some request) x = Some x'" and "request_typed env request"
  shows "x_fine x x'"
  using assms by (cases "body request") (auto simp: processRequest_def request_typed_def intro: handleNew_fine handleModify_fine handleCancel_fine)

section \<open>Feed events\<close>

lemma rest_fine:
  assumes "restMarketOrder L ev (sy, x) = Some (sy', x')"
  shows "sy_fine sy sy' \<and> x_symbols x' = x_symbols x"
proof -
  from assms obtain ts q sy1 where m: "engine_match_feed L (sy_engine sy) (me_side ev) (me_book_order_id ev) (me_price ev) (me_qty ev) (me_transact_time ev) 0 sy = Some (ts, q, sy1)"
    by (auto simp: restMarketOrder_def split: option.splits)
  obtain sy2 x1 where s: "foldl publishTradeSummary (sy1, x) ts = (sy2, x1)" by fastforce
  note 2 = sy_fine_trans [OF reported_fine [OF reported_match_feed [OF m]] summaries_fine(1) [OF s]]
  note 3 = sy_fine_trans [OF 2 unreported_fine [OF unreported_base(1)]]
  show ?thesis using assms 2 3 summaries_fine(2) [OF s] by (auto simp: restMarketOrder_def m s split: if_splits)
qed

lemma marked_symbols [simp]: "x_symbols (markMarketChanged n x) = x_symbols x"
  by (simp add: markMarketChanged_def)

lemma market_order_fine:
  assumes "applyMarketOrder L ev (sy, x) = Some (sy', x')"
  shows "sy_fine sy sy' \<and> x_symbols x' = x_symbols x"
proof -
  have del: "sy_fine sy (snd (base_deleteOrder L i t n b sy))" and mod: "sy_fine sy (snd (base_modifyOrder L i px q t pr n b sy))" for i t n b px q pr
    by (rule unreported_fine, rule unreported_base)+
  have r: "sy_fine sy0 sy1 \<and> x_symbols x1 = x_symbols x" if "restMarketOrder L ev (sy0, x) = Some (sy1, x1)" for sy0 sy1 x1
    by (rule rest_fine [OF that])
  have d: "sy_fine sy sy1 \<and> x_symbols x1 = x_symbols x" if "restMarketOrder L ev (snd (base_deleteOrder L i t n b sy), x) = Some (sy1, x1)" for i t n b sy1 x1
    using rest_fine [OF that] sy_fine_trans [OF del] by blast
  show ?thesis
    using assms del mod
    by (cases "me_action ev") (auto simp: applyMarketOrder_def split: option.splits if_splits dest!: r d)
qed

lemma market_trade_fine:
  assumes "replayMarketTrade L tr (sy, x) = Some (sy', x')"
  shows "sy_fine sy sy' \<and> x_symbols x' = x_symbols x"
proof -
  let ?sy1 = "sy\<lparr>ob_next_order_id := ob_next_order_id sy + 1\<rparr>"
  have 1: "sy_fine sy ?sy1" by (simp add: sy_fine_def symbol_typed_def)
  from assms obtain ts q sy2 where m: "engine_match_feed L (sy_engine ?sy1) (mte_aggressor tr) (ob_next_order_id sy) (mte_price tr) (mte_qty tr) (mte_transact_time tr) 0 ?sy1 = Some (ts, q, sy2)"
    by (auto simp: replayMarketTrade_def nextOrderId_def split: option.splits)
  obtain sy3 x1 where s: "foldl publishTradeSummary (sy2, x) ts = (sy3, x1)" by fastforce
  note 3 = sy_fine_trans [OF sy_fine_trans [OF 1 reported_fine [OF reported_match_feed [OF m]]] summaries_fine(1) [OF s]]
  have "sy' = sy3 \<and> x' = markMarketChanged (ob_symbol sy3) x1" using assms m s by (auto simp: replayMarketTrade_def nextOrderId_def)
  then show ?thesis using 3 summaries_fine(2) [OF s] by simp
qed

lemma flush_symbol_fine: "x_fine x (flush_symbol x n)"
  by (cases "getSymbol n x") (simp_all add: flush_symbol_def leave_flushed_fine)

lemma flush_events_fine:
  fixes x :: "'l Exchange"
  shows "x_fine x (flushMarketEvents x)"
proof -
  have "x_fine x (foldl flush_symbol x ns)" for ns
  proof (induction ns arbitrary: x)
    case (Cons n ns)
    show ?case using x_fine_trans [OF flush_symbol_fine Cons.IH] by simp
  qed simp
  note f = this [of "x_market_changed x"]
  have "texts_typed (y\<lparr>x_market_changed := []\<rparr>) = texts_typed y" "x_response_queue (y\<lparr>x_market_changed := []\<rparr>) = x_response_queue y" for y :: "'l Exchange"
    by (simp_all add: texts_typed_def)
  then show ?thesis using f unfolding flushMarketEvents_def x_fine_def by metis
qed

section \<open>Runs\<close>

text \<open>
  The exchange thread once more, without any condition on what it is given but that the texts of a request
  and the name of a listing are those of character arrays of their sizes.
\<close>

inductive typed_step :: "'l l3_ops \<Rightarrow> 'l \<Rightarrow> 'l Exchange \<Rightarrow> 'l Exchange \<Rightarrow> bool" for L :: "'l l3_ops" and e0 :: 'l where
  Request: "request_typed env request \<Longrightarrow> processRequest L env (Some request) x = Some x' \<Longrightarrow> typed_step L e0 x x'"
| LevelUpdate: "getSymbol n x = Some sy \<Longrightarrow> typed_step L e0 x (leave n (flushMarketDataCaches (reconcile_all L s t us sy, x)))"
| MarketOrder: "getSymbol n x = Some sy \<Longrightarrow> applyMarketOrder L ev (sy, x) = Some v \<Longrightarrow> typed_step L e0 x (leave n v)"
| MarketTrade: "getSymbol n x = Some sy \<Longrightarrow> replayMarketTrade L tr (sy, x) = Some v \<Longrightarrow> typed_step L e0 x (leave n v)"
| Flush: "typed_step L e0 x (flushMarketEvents x)"
| Listing: "text_fits 32 n \<Longrightarrow> assignMatching (unbound e0 n i d x) x = Inr (sy, x') \<Longrightarrow> typed_step L e0 x (x'\<lparr>x_symbols := (x_symbols x')(n \<mapsto> sy)\<rparr>)"

lemma unbound_buffer: "ob_buffer (unbound e0 n i d x) p = default_order"
  by (simp add: unbound_def new_symbol_def new_engine_def new_book_def OrderBook.defs Engine.defs Symbol.defs)

lemma listing_fine:
  assumes "text_fits 32 n" and "assignMatching (unbound e0 n i d x) x = Inr (sy, x')"
  shows "x_fine x (x'\<lparr>x_symbols := (x_symbols x')(n \<mapsto> sy)\<rparr>)"
proof -
  have "ob_symbol sy = n" "ob_buffer sy p = default_order" "x_symbols x' = x_symbols x" "x_response_queue x' = x_response_queue x" for p
    using assms(2) by (auto simp: assignMatching_def unbound_buffer split: option.splits sum.splits)
  then show ?thesis using assms(1) by (auto simp: x_fine_def texts_typed_def ids_of_def default_order_def)
qed

lemma typed_step_fine: "typed_step L e0 x x' \<Longrightarrow> x_fine x x'"
proof (induction rule: typed_step.induct)
  case (Request env request x x')
  then show ?case using processRequest_fine by blast
next
  case (LevelUpdate n x sy s t us)
  show ?case by (rule leave_flushed_fine [OF LevelUpdate unreported_fine [OF unreported_reconcile_all] refl])
next
  case (MarketOrder n x sy ev v)
  obtain sy' x' where v: "v = (sy', x')" by fastforce
  show ?case unfolding v using leave_fine [OF MarketOrder(1)] market_order_fine MarketOrder(2) unfolding v by blast
next
  case (MarketTrade n x sy tr v)
  obtain sy' x' where v: "v = (sy', x')" by fastforce
  show ?case unfolding v using leave_fine [OF MarketTrade(1)] market_trade_fine MarketTrade(2) unfolding v by blast
next
  case (Flush x)
  show ?case by (rule flush_events_fine)
next
  case (Listing n i d x sy x')
  then show ?case by (rule listing_fine)
qed

lemma typed_steps_fine: "(typed_step L e0)\<^sup>*\<^sup>* x x' \<Longrightarrow> x_fine x x'"
  by (induction rule: rtranclp_induct) (auto intro: x_fine_trans typed_step_fine)

text \<open>
  C5. The exchange's text fields are well typed and its reports are never taken back. Whatever requests,
  feed events, flushes and listings it is given, in any order and admissible or not, as long as their own
  texts are those of arrays of the declared sizes: in every state reached, the symbol, user id, client order
  id and order id of every order of every pool and of every report fit their arrays with the terminator and
  have none inside, and the reports of an earlier state are the first reports of any later one.
\<close>

theorem texts_well_typed:
  assumes "new_exchange v config slots prio oid tid = Inr x0" and "(typed_step L e0)\<^sup>*\<^sup>* x0 x" and "(typed_step L e0)\<^sup>*\<^sup>* x x'"
  shows "texts_typed x \<and> texts_typed x' \<and> prefix (x_response_queue x) (x_response_queue x')"
proof -
  have "texts_typed x0" using new_exchange_sel [OF assms(1)] assms(1) by (auto simp: texts_typed_def new_exchange_def split: if_splits sum.splits)
  then show ?thesis using typed_steps_fine [OF assms(2)] typed_steps_fine [OF assms(3)] by (auto simp: x_fine_def)
qed

end
