(* ===== verification/Gateway_Round_Trip.thy ===== *)
theory Gateway_Round_Trip
  imports Rest_Properties Report_Types Exchange_Properties
begin

text \<open>
  A gateway and the exchange together. The REST gateway publishes a request and waits on the response queue; the
  exchange thread takes the request and answers. What the client is told is what the exchange did, provided
  the wait is long enough to read up to the answer.
\<close>

section \<open>A wait that covers the answer\<close>

text \<open>
  The queue the wait reads starts with \<open>rs\<close>, holds nothing that looks like the answer before position \<open>j\<close>, and
  shows position \<open>j\<close> while enough polls are left.
\<close>

definition wait_covers :: "(OrderResponse \<Rightarrow> bool) \<Rightarrow> nat \<Rightarrow> nat \<Rightarrow> OrderResponse list \<Rightarrow> wait_env \<Rightarrow> bool" where
  "wait_covers mine polls j rs e \<longleftrightarrow> prefix rs (we_queue e) \<and> we_start e \<le> j \<and>
     (\<forall>l. we_start e \<le> l \<and> l < j \<longrightarrow> \<not> mine (we_queue e ! l)) \<and>
     (\<exists>i0. (\<forall>m\<ge>i0. j < we_visible e m) \<and> i0 + (j - we_start e) < polls)"

lemma wait_covered:
  assumes "wait_covers mine polls (length old) (old @ r # rest) e" and "mine r"
  shows "wait_for mine polls e = Some r"
proof -
  from assms(1) obtain zs i0 where z: "we_queue e = (old @ r # rest) @ zs" "we_start e \<le> length old"
      "\<forall>l. we_start e \<le> l \<and> l < length old \<longrightarrow> \<not> mine (we_queue e ! l)" "\<forall>m\<ge>i0. length old < we_visible e m" "i0 + (length old - we_start e) < polls"
    unfolding wait_covers_def prefix_def by blast
  have n: "we_queue e ! length old = r" "length old < length (we_queue e)" by (simp_all add: z(1))
  show ?thesis using wait_for_finds [where j = "length old" and mine = mine, OF z(2) n(2) _ z(3,4,5)] assms(2) unfolding n(1) by blast
qed

section \<open>Placing\<close>

text \<open>
  C6. An order placed over REST and its answer are one transaction. On an exchange in good order the
  request the gateway publishes for a well-formed order runs to its end and leaves the exchange in good order;
  and a gateway whose wait covers the first report of that run tells its client exactly what the exchange decided:
  refused because the instrument is not listed, refused because the client order id is working, or created
  under the order id the exchange drew, which the gateway from then on knows by its product.
\<close>

theorem rest_order_round_trip:
  assumes "l3_book L binv" and "exchange_ok L binv x" and "request_ok L env request x"
    and "request = new_order_request e product uid cloid (if side_str = ''BUY'' then BUY else SELL) ty tif px qty"
    and "cb_product_id b = TextMember product" and "cb_side b = TextMember side_str" and "cb_client_order_id b = TextMember cloid"
    and "parse_configuration price_of qty_of (cb_order_configuration b) = Inr (Some (ty, tif, px, qty))"
    and "validate_order product (if px \<noteq> NULL_PRICE then px else 0) qty ty g = None"
    and "text_fits 37 uid" and "text_fits 37 cloid"
  shows "\<exists>x'. processRequest L env (Some request) x = Some x' \<and> exchange_ok L binv x' \<and>
    (wait_covers (\<lambda>r. r_user_id r = uid \<and> r_client_order_id r = cloid) 50000 (length (x_response_queue x)) (x_response_queue x') e \<longrightarrow>
     (let (reply, g') = handle_create_order price_of qty_of e (Inr uid) (Json b) g in
        rg_request_queue g' = rg_request_queue g @ [request] \<and>
        (case Sim_Exchange.getSymbol (wire 32 product) x of
           None \<Rightarrow> reply = OrderRefused (to_string_OrdRejectReason RJ_UNKNOWN_CONTRACT)
         | Some sy \<Rightarrow>
             if cloid \<noteq> [] \<and> findOrderByClientOrderId cloid sy \<noteq> None
             then reply = OrderRefused (to_string_OrdRejectReason RJ_CLIENT_ORDER_ID_ALREADY_EXISTS)
             else reply = OrderCreated (env_uuid env) product side_str cloid \<and>
               (env_uuid env \<noteq> [] \<longrightarrow> rg_order_id_to_symbol g' (env_uuid env) = Some product))))"
proof -
  let ?mine = "\<lambda>r. r_user_id r = uid \<and> r_client_order_id r = cloid"
  obtain x' where run: "processRequest L env (Some request) x = Some x'" and ok: "exchange_ok L binv x'" by (rule request_done [OF assms(1-3)])
    (simp add: cancel_unfilled_def assms(4) new_order_request_def)
  have w: "wire 37 uid = uid" "wire 37 cloid = cloid" using assms(10,11) by (simp_all add: text_fits_def wire_id)
  define msg where "msg = \<lparr>ao_user_id = uid, ao_client_order_id = cloid, ao_side = (if side_str = ''BUY'' then BUY else SELL), ao_type = ty,
      ao_time_in_force = tif, ao_price = px, ao_qty = qty\<rparr>"
  have rq: "body request = NEW_ORDER_SINGLE msg" "req_symbol request = wire 32 product" by (simp_all add: assms(4) new_order_request_def msg_def w)
  have m: "ao_user_id msg = uid" "ao_client_order_id msg = cloid" by (simp_all add: msg_def)
  have "handleNewOrderRequest L env request msg x = Some x'" using run by (simp add: processRequest_def rq)
  from handleNew_first [OF this] obtain r rest where r: "x_response_queue x' = x_response_queue x @ r # rest" "r_user_id r = uid" "r_client_order_id r = cloid"
    "case Sim_Exchange.getSymbol (wire 32 product) x of
       None \<Rightarrow> r_order_status r = OS_REJECTED \<and> r_reject_reason r = RJ_UNKNOWN_CONTRACT
     | Some sy \<Rightarrow>
         if cloid \<noteq> [] \<and> findOrderByClientOrderId cloid sy \<noteq> None
         then r_order_status r = OS_REJECTED \<and> r_reject_reason r = RJ_CLIENT_ORDER_ID_ALREADY_EXISTS
         else r_order_status r = OS_PENDING_NEW \<and> r_order_id r = env_uuid env" unfolding rq(2) m by blast
  have "let (reply, g') = handle_create_order price_of qty_of e (Inr uid) (Json b) g in
        rg_request_queue g' = rg_request_queue g @ [request] \<and>
        (case Sim_Exchange.getSymbol (wire 32 product) x of
           None \<Rightarrow> reply = OrderRefused (to_string_OrdRejectReason RJ_UNKNOWN_CONTRACT)
         | Some sy \<Rightarrow>
             if cloid \<noteq> [] \<and> findOrderByClientOrderId cloid sy \<noteq> None
             then reply = OrderRefused (to_string_OrdRejectReason RJ_CLIENT_ORDER_ID_ALREADY_EXISTS)
             else reply = OrderCreated (env_uuid env) product side_str cloid \<and>
               (env_uuid env \<noteq> [] \<longrightarrow> rg_order_id_to_symbol g' (env_uuid env) = Some product))"
    if cov: "wait_covers ?mine 50000 (length (x_response_queue x)) (x_response_queue x') e"
  proof -
    have "wait_for ?mine 50000 e = Some r" by (rule wait_covered [OF cov [unfolded r(1)]]) (simp add: r(2,3))
    from create_order_eq [OF assms(5-9) this] r(4)
    show ?thesis by (auto simp: Let_def assms(4) [symmetric] create_reply_def remember_symbol_def split: option.splits if_splits)
  qed
  then show ?thesis using run ok by blast
qed

definition ex_btc_gateway :: CbRestGateway where
  "ex_btc_gateway = ex_gateway\<lparr>rg_product_by_id := [''BTC'' \<mapsto> Rest_Properties.ex_rules], rg_order_id_to_symbol := [''u1'' \<mapsto> ''BTC'']\<rparr>"

definition ex_poll :: "OrderResponse list \<Rightarrow> wait_env" where
  "ex_poll rs = \<lparr>we_now = 6, we_tag = 4, we_start = 0, we_queue = rs, we_visible = (\<lambda>i. if i < 3 then 0 else 9), we_polls = 2000\<rparr>"

lemma ex_poll_covers: "5 \<le> polls \<Longrightarrow> wait_covers mine polls 0 rs (ex_poll rs)"
  by (auto simp: wait_covers_def ex_poll_def intro!: exI [of _ 3])

lemma ex_wire: "wire 32 ''BTC'' = ''BTC''" "wire 37 ''u1'' = ''u1''" "text_fits 37 ''ann''" "text_fits 37 ''c2''" "text_fits 32 ''BTC''"
  by (simp_all add: wire_id text_fits_def NUL_def char_of_def)

theorem rest_order_round_trip_witness:
  "\<exists>x' g'. processRequest rf_ops ex_env (Some (new_order_request (ex_poll []) ''BTC'' ''ann'' ''c2'' SELL OT_LIMIT TIF_GOOD_TILL_CANCEL 100 2)) ex_exchange = Some x' \<and>
     handle_create_order ex_number ex_number (ex_poll (x_response_queue x')) (Inr ''ann'') (Json (ex_body ''c2''\<lparr>cb_product_id := TextMember ''BTC''\<rparr>)) ex_btc_gateway =
       (OrderCreated ''u3'' ''BTC'' ''SELL'' ''c2'', g') \<and> rg_order_id_to_symbol g' ''u3'' = Some ''BTC''"
proof -
  let ?b = "ex_body ''c2''\<lparr>cb_product_id := TextMember ''BTC''\<rparr>"
  define rq where "rq e = new_order_request e ''BTC'' ''ann'' ''c2'' (if ''SELL'' = ''BUY'' then BUY else SELL) OT_LIMIT TIF_GOOD_TILL_CANCEL 100 2" for e
  have b: "cb_product_id ?b = TextMember ''BTC''" "cb_side ?b = TextMember ''SELL''" "cb_client_order_id ?b = TextMember ''c2''" by (simp_all add: ex_body_def)
  have c: "parse_configuration ex_number ex_number (cb_order_configuration ?b) = Inr (Some (OT_LIMIT, TIF_GOOD_TILL_CANCEL, 100, 2))" using Rest_Properties.ex_config by simp
  have v: "validate_order ''BTC'' (if (100 :: price_t) \<noteq> NULL_PRICE then 100 else 0) 2 OT_LIMIT ex_btc_gateway = None"
    by (simp add: validate_order_def ex_btc_gateway_def Rest_Properties.ex_rules_def NULL_PRICE_def)
  have ok: "request_ok rf_ops ex_env (rq e) ex_exchange" for e
    by (simp add: rq_def new_order_request_def ex_wire wire_id NUL_def char_of_def request_ok_def ex_getSymbol admissible_def ex_env_def ex_lookup ex_resting ex_live ex_engine_sel fits_def real_side_def)
  note t = rest_order_round_trip [OF ref.l3_book_axioms ex_exchange_ok ok rq_def b c v ex_wire(3,4)]
  have same: "rq (ex_poll rs) = rq (ex_poll [])" for rs by (simp add: rq_def new_order_request_def ex_poll_def)
  obtain x' where x': "processRequest rf_ops ex_env (Some (rq (ex_poll []))) ex_exchange = Some x'" using t [of "ex_poll []"] by blast
  obtain reply g' where h: "handle_create_order ex_number ex_number (ex_poll (x_response_queue x')) (Inr ''ann'') (Json ?b) ex_btc_gateway = (reply, g')" by fastforce
  have "reply = OrderCreated ''u3'' ''BTC'' ''SELL'' ''c2'' \<and> rg_order_id_to_symbol g' ''u3'' = Some ''BTC''"
    using t [of "ex_poll (x_response_queue x')"] ex_poll_covers [of 50000]
    unfolding same [of "x_response_queue x'"] x' h by (simp add: ex_wire ex_getSymbol findOrderByClientOrderId_def ex_lookup) (simp add: ex_env_def)
  then show ?thesis using x' h by (simp add: rq_def)
qed

section \<open>Cancelling\<close>

text \<open>
  C7. A cancel over REST takes the order off the book. For an order the gateway knows and that stands on
  the book of an exchange in good order under that id, the request the gateway publishes runs to its end, takes
  exactly that order out of its queue and the lookup and leaves the other side alone; and a gateway whose wait
  covers the first report of that run, the order being its client's own, reports success and forgets the id.
  In a program built with assertions the order must not have been filled in part, or the assertion at
  exchange.cpp:889 ends the program. The comment at coinbase_rest_order_gateway.cpp:598 that a successful cancel is never
  answered is out of date: the report the wait finds is the pending cancel.
\<close>

theorem rest_cancel_round_trip:
  assumes "l3_book L binv" and "exchange_ok L binv x" and "rg_order_id_to_symbol g oid = Some name"
    and "Sim_Exchange.getSymbol (wire 32 name) x = Some sy" and "findOrderByOrderId (wire 37 oid) sy = Some p" and "ord = ob_buffer sy p" and "user_id ord = uid"
    and "env_asserts env \<longrightarrow> leaves_quantity ord = quantity ord"
  shows "\<exists>x' sy'. processRequest L env (Some (cancel_request e uid oid name)) x = Some x' \<and> exchange_ok L binv x' \<and>
    x_symbols x' = (x_symbols x)(wire 32 name \<mapsto> sy') \<and> queue L sy' (side ord) = remove_entry (id_num ord) (queue L sy (side ord)) \<and>
    queue L sy' (opposite_side (side ord)) = queue L sy (opposite_side (side ord)) \<and> ob_orders sy' = (ob_orders sy)(id_num ord := None) \<and>
    (wait_covers (\<lambda>r. r_user_id r = uid \<and> r_request_time r = we_now e) (we_polls e) (length (x_response_queue x)) (x_response_queue x') e \<longrightarrow>
     (let (reply, g') = handle_batch_cancel (\<lambda>_. e) (Inr uid) (Json (Some [TextMember oid])) g in
        reply = CancelResults [(oid, True, '''')] \<and> rg_request_queue g' = rg_request_queue g @ [cancel_request e uid oid name] \<and>
        rg_order_id_to_symbol g' oid = None))"
proof -
  let ?mine = "\<lambda>r. r_user_id r = uid \<and> r_request_time r = we_now e" and ?rq = "cancel_request e uid oid name"
  define msg where "msg = \<lparr>co_user_id = wire 37 uid, co_order_id = wire 37 oid, co_client_order_id = []\<rparr>"
  have rq: "body ?rq = ORDER_CANCEL_REQUEST msg" "req_symbol ?rq = wire 32 name" "time_stamp ?rq = we_now e" by (simp_all add: cancel_request_def msg_def)
  have look: "lookup_order (co_client_order_id msg) (co_order_id msg) sy = Some p" using assms(5) by (simp add: lookup_order_def msg_def)
  let ?r = "pending_cancel_report (ord\<lparr>status := OS_PENDING_CANCEL, request_tag := req_request_tag ?rq\<rparr>) (time_stamp ?rq) (x_response_slot x (length (x_response_queue x)))"
  obtain x' sy' r2 where ret: "handleCancelOrderRequest L env ?rq msg x = Some x'" and s: "exchange_ok L binv x'" "x_symbols x' = (x_symbols x)(wire 32 name \<mapsto> sy')"
    "queue L sy' (side ord) = remove_entry (id_num ord) (queue L sy (side ord))"
    "queue L sy' (opposite_side (side ord)) = queue L sy (opposite_side (side ord))" "ob_orders sy' = (ob_orders sy)(id_num ord := None)"
    "x_response_queue x' = x_response_queue x @ [?r, r2]"
    by (rule handleCancel_ok [OF assms(1,2) assms(4) [folded rq(2)] look assms(6,8)]) (auto simp: rq(2))
  have run: "processRequest L env (Some ?rq) x = Some x'" by (simp add: processRequest_def rq(1) ret)
  have "let (reply, g') = handle_batch_cancel (\<lambda>_. e) (Inr uid) (Json (Some [TextMember oid])) g in
        reply = CancelResults [(oid, True, '''')] \<and> rg_request_queue g' = rg_request_queue g @ [?rq] \<and> rg_order_id_to_symbol g' oid = None"
    if cov: "wait_covers ?mine (we_polls e) (length (x_response_queue x)) (x_response_queue x') e"
  proof -
    have mine: "?mine ?r" using assms(7) by (simp add: pending_cancel_report_def setOrderIdentity_def rq(3))
    have "wait_for ?mine (we_polls e) e = Some ?r" by (rule wait_covered [OF cov [unfolded s(6)] mine])
    then have "Rest_Properties.refusal e uid = RJ_NONE" by (simp add: Rest_Properties.refusal_def pending_cancel_report_def)
    then show ?thesis by (simp add: handle_batch_cancel_def cancel_one_eq assms(3) cancel_result_def forget_cancelled_def)
  qed
  then show ?thesis using run s(1-5) by (intro exI [of _ x'] exI [of _ sy']) blast
qed

lemma ex_anonymous: "user_id (ob_buffer ex_engine 7) = []"
  by (simp add: ex_engine_def ex_rested) (simp add: ex_book_def allocateOrder_def nextOrderId_def new_book_def resetFillAccounting_def default_order_def)

theorem rest_cancel_round_trip_witness:
  "\<exists>x' g'. processRequest rf_ops ex_env (Some (cancel_request (ex_poll []) [] ''u1'' ''BTC'')) ex_exchange = Some x' \<and>
     handle_batch_cancel (\<lambda>_. ex_poll (x_response_queue x')) (Inr []) (Json (Some [TextMember ''u1''])) ex_btc_gateway =
       (CancelResults [(''u1'', True, [])], g') \<and> rg_order_id_to_symbol g' ''u1'' = None"
proof -
  let ?sy = "load ex_exchange (ex_symbol FifoMatchingEngine)"
  have g: "rg_order_id_to_symbol ex_btc_gateway ''u1'' = Some ''BTC''" by (simp add: ex_btc_gateway_def)
  have s: "Sim_Exchange.getSymbol (wire 32 ''BTC'') ex_exchange = Some ?sy" "findOrderByOrderId (wire 37 ''u1'') ?sy = Some 7" "user_id (ob_buffer ?sy 7) = []"
    using ex_lookup(1) [of FifoMatchingEngine "''u1''"] ex_resting(1) [of FifoMatchingEngine] ex_anonymous by (simp_all add: ex_wire ex_getSymbol findOrderByOrderId_def)
  have whole: "env_asserts ex_env \<longrightarrow> leaves_quantity (ob_buffer ?sy 7) = quantity (ob_buffer ?sy 7)" using ex_resting by simp
  note t = rest_cancel_round_trip [OF ref.l3_book_axioms ex_exchange_ok g s(1,2) refl s(3) whole]
  have same: "cancel_request (ex_poll rs) = cancel_request (ex_poll [])" for rs by (intro ext) (simp add: cancel_request_def ex_poll_def)
  obtain x' where x': "processRequest rf_ops ex_env (Some (cancel_request (ex_poll []) [] ''u1'' ''BTC'')) ex_exchange = Some x'" using t [of "ex_poll []"] by blast
  have polls: "we_polls (ex_poll rs) = 2000" for rs by (simp add: ex_poll_def)
  show ?thesis using t [of "ex_poll (x_response_queue x')"] ex_poll_covers [of 2000] unfolding same [of "x_response_queue x'"] polls x' by (auto simp: Let_def)
qed

section \<open>Text fields at a concrete run\<close>

text \<open>A listing, then an order on an instrument that is not listed: the refusal is a report.\<close>

theorem texts_well_typed_witness:
  "\<exists>x0 x x'. new_exchange COINBASE ex_config (\<lambda>_. blank_response) 0 1 1 = Inr x0 \<and> (typed_step rf_ops ref_empty)\<^sup>*\<^sup>* x0 x \<and> x_symbols x ''BTC'' \<noteq> None \<and>
     processRequest rf_ops ex_env (Some (ex_new ''ETH'' ''c1'')) x = Some x' \<and> length (x_response_queue x') = 1 \<and>
     texts_typed x' \<and> prefix (x_response_queue x) (x_response_queue x')"
proof -
  obtain x0 :: "ref_book Exchange" where x0: "new_exchange COINBASE ex_config (\<lambda>_. blank_response) 0 1 1 = Inr x0"
    and m: "x_matching x0 = \<lparr>mc_type = FIFO, mc_pro_rata = default_pro_rata\<rparr>"
    by (simp add: new_exchange_def Exchange_Properties.ex_config_def config_smp_mode_def)
  have "\<exists>sy x1. assignMatching (unbound ref_empty ''BTC'' 0 blank_trade x0) x0 = Inr (sy, x1)"
    by (simp add: assignMatching_def createMatchingEngine_def m split: option.splits)
  then obtain sy x1 where a: "assignMatching (unbound ref_empty ''BTC'' 0 blank_trade x0) x0 = Inr (sy, x1)" by blast
  define x where "x = x1\<lparr>x_symbols := (x_symbols x1)(''BTC'' \<mapsto> sy)\<rparr>"
  have q: "x_symbols x = [''BTC'' \<mapsto> sy]" "x_response_queue x = []"
    using a new_exchange_sel [OF x0] by (auto simp: x_def assignMatching_def split: option.splits sum.splits)
  have one: "(typed_step rf_ops ref_empty)\<^sup>*\<^sup>* x0 x" unfolding x_def by (rule r_into_rtranclp) (rule typed_step.Listing [OF ex_wire(5) a])
  have un: "Sim_Exchange.getSymbol ''ETH'' x = None" by (simp add: Sim_Exchange.getSymbol_def q)
  obtain x' where x': "processRequest rf_ops ex_env (Some (ex_new ''ETH'' ''c1'')) x = Some x'" "length (x_response_queue x') = 1"
    by (simp add: processRequest_def ex_new_def handleNewOrderRequest_def un x_publish_def q)
  have "request_typed ex_env (ex_new ''ETH'' ''c1'')" by (simp add: request_typed_def ex_new_def ex_env_def text_fits_def NUL_def char_of_def)
  then have two: "(typed_step rf_ops ref_empty)\<^sup>*\<^sup>* x x'" by (intro r_into_rtranclp typed_step.Request [OF _ x'(1)])
  have "x_symbols x ''BTC'' \<noteq> None" by (simp add: q(1))
  moreover from texts_well_typed [OF x0 one two] have "texts_typed x'" "prefix (x_response_queue x) (x_response_queue x')" by simp_all
  ultimately show ?thesis using x0 x' one by (intro exI [of _ x0] exI [of _ x] exI [of _ x'] conjI)
qed

end
