(* ===== verification/Timestamp.thy ===== *)
theory Timestamp
  imports Sim_Types "HOL-Library.Word"
begin

text \<open>
  \<open>src/src/utils/timestamp.hpp\<close>: instants as text. A time point is what \<open>system_clock\<close> keeps: a signed 64-bit count
  of ticks since 1970, the tick being the platform's, in nanoseconds: 1 with libstdc++, 100 on Windows, 1000 on macOS. The calendar of \<open>std::chrono\<close> and \<open>gmtime_r\<close> is written out: 400 Gregorian years are
  146097 days, and inside such an era years and months are counted off one by one. The formula by which POSIX
  defines the seconds since the epoch is the reference the texts are read back with.
\<close>

section \<open>The calendar of the standard library\<close>

definition leap :: "int \<Rightarrow> bool" where
  "leap y \<longleftrightarrow> 4 dvd y \<and> (\<not> 100 dvd y \<or> 400 dvd y)"

definition year_days :: "int \<Rightarrow> nat" where
  "year_days y = (if leap y then 366 else 365)"

definition month_days :: "int \<Rightarrow> nat \<Rightarrow> nat" where
  "month_days y m = (if m = 2 then if leap y then 29 else 28 else if m \<in> {4, 6, 9, 11} then 30 else 31)"

function year_loop :: "int \<Rightarrow> nat \<Rightarrow> int \<times> nat" where
  "year_loop y d = (if d < year_days y then (y, d) else year_loop (y + 1) (d - year_days y))"
  by pat_completeness auto
termination by (relation "measure snd") (auto simp: year_days_def)

function month_loop :: "int \<Rightarrow> nat \<Rightarrow> nat \<Rightarrow> nat \<times> nat" where
  "month_loop y m d = (if d < month_days y m \<or> 12 \<le> m then (m, d) else month_loop y (Suc m) (d - month_days y m))"
  by pat_completeness auto
termination by (relation "measure (\<lambda>(y, m, d). 12 - m)") auto

declare year_loop.simps [simp del] month_loop.simps [simp del]

definition civil_from_days :: "int \<Rightarrow> int \<times> nat \<times> nat" where
  "civil_from_days z =
     (let (y, yd) = year_loop 1970 (nat (z mod 146097)); (m, md) = month_loop y 1 yd
      in (y + 400 * (z div 146097), m, md + 1))"

section \<open>Rendering\<close>

definition zero_pad :: "nat \<Rightarrow> string \<Rightarrow> string" where
  "zero_pad n s = replicate (n - length s) CHR ''0'' @ s"

text \<open>A decimal with a minimal width, \<open>{:0nd}\<close>: the sign counts and stands in front of the zeros.\<close>

definition fmt_0d :: "nat \<Rightarrow> int \<Rightarrow> string" where
  "fmt_0d n v = (if v < 0 then CHR ''-'' # zero_pad (n - 1) (to_string_nat (nat (- v))) else zero_pad n (to_string_nat (nat v)))"

text \<open>\<open>%Y\<close> has at least four digits, its sign not counted.\<close>

definition fmt_year :: "int \<Rightarrow> string" where
  "fmt_year y = (if y < 0 then CHR ''-'' # zero_pad 4 (to_string_nat (nat (- y))) else zero_pad 4 (to_string_nat (nat y)))"

definition fmt_seconds :: "int \<Rightarrow> string" where
  "fmt_seconds s =
     (let (y, m, d) = civil_from_days (s div 86400); t = s mod 86400
      in fmt_year y @ ''-'' @ fmt_0d 2 (int m) @ ''-'' @ fmt_0d 2 (int d) @ ''T'' @
         fmt_0d 2 (t div 3600) @ '':'' @ fmt_0d 2 (t div 60 mod 60) @ '':'' @ fmt_0d 2 (t mod 60))"

text \<open>The tick of the clock and the count.\<close>

type_synonym time_point = "int \<times> 64 word"

text \<open>The instant in nanoseconds.\<close>

definition instant :: "time_point \<Rightarrow> int" where
  "instant tp = sint (snd tp) * fst tp"

text \<open>\<open>floor\<close> to seconds, then the rest, a count of ticks, cast to the unit of the digits.\<close>

definition format_timestamp_iso8601 :: "time_point \<Rightarrow> int \<Rightarrow> string" where
  "format_timestamp_iso8601 tp num_subsecond_digits =
     (let per_second = 1000000000 div fst tp; seconds = sint (snd tp) div per_second; rest = sint (snd tp) - seconds * per_second
      in if num_subsecond_digits > 6 then fmt_seconds seconds @ ''.'' @ fmt_0d 9 (rest * fst tp) @ ''Z''
         else if num_subsecond_digits > 3 then fmt_seconds seconds @ ''.'' @ fmt_0d 6 (rest * fst tp div 1000) @ ''Z''
         else if num_subsecond_digits > 0 then fmt_seconds seconds @ ''.'' @ fmt_0d 3 (rest * fst tp div 1000000) @ ''Z''
         else fmt_seconds seconds @ ''Z'')"

text \<open>
  An unsigned 64-bit time of unknown unit: small ones are milliseconds, larger ones microseconds, the rest
  nanoseconds, taken over into a signed count and cast to the clock's ticks, which rounds toward zero.
\<close>

definition cast_ticks :: "int \<Rightarrow> int \<Rightarrow> int" where
  "cast_ticks tick ns = (if ns < 0 then - ((- ns) div tick) else ns div tick)"

definition time_point_of :: "int \<Rightarrow> 64 word \<Rightarrow> time_point" where
  "time_point_of tick timestamp =
     (tick, word_of_int (cast_ticks tick
        (if timestamp < 4102444800000 then uint timestamp * 1000000
         else if timestamp < 4102444800000000 then uint timestamp * 1000
         else sint timestamp)))"

definition format_timestamp_u64 :: "int \<Rightarrow> 64 word \<Rightarrow> int \<Rightarrow> string" where
  "format_timestamp_u64 tick timestamp num_subsecond_digits = format_timestamp_iso8601 (time_point_of tick timestamp) num_subsecond_digits"

text \<open>\<open>duration_cast\<close> to seconds rounds toward zero.\<close>

definition cast_seconds :: "int \<Rightarrow> int" where
  "cast_seconds ns = (if ns < 0 then - ((- ns) div 1000000000) else ns div 1000000000)"

text \<open>
  The start time is a static local: the first call sets it before it reads the clock again. The readings are instants
  in nanoseconds, whatever the clock's tick.
\<close>

definition format_heatbeat_timestamp :: "int \<Rightarrow> int \<Rightarrow> int option \<Rightarrow> string \<times> int option" where
  "format_heatbeat_timestamp first_clock now start_time =
     (let start = (case start_time of Some t \<Rightarrow> t | None \<Rightarrow> first_clock);
          secs = cast_seconds now; (y, m, d) = civil_from_days (secs div 86400); t = secs mod 86400;
          elapsed = now - start; elapsed_seconds = cast_seconds elapsed
      in (fmt_0d 4 y @ ''-'' @ fmt_0d 2 (int m) @ ''-'' @ fmt_0d 2 (int d) @ '' '' @
          fmt_0d 2 (t div 3600) @ '':'' @ fmt_0d 2 (t div 60 mod 60) @ '':'' @ fmt_0d 2 (t mod 60) @ ''.'' @
          fmt_0d 9 (now - secs * 1000000000) @ '' +0000 UTC m=+'' @ to_string_int elapsed_seconds @ ''.'' @
          fmt_0d 9 (elapsed - elapsed_seconds * 1000000000), Some start))"

section \<open>Reading back\<close>

text \<open>Days before a year and before a month as POSIX counts them.\<close>

definition days_before_year :: "int \<Rightarrow> int" where
  "days_before_year y = 365 * (y - 1970) + (y - 1969) div 4 - (y - 1901) div 100 + (y - 1601) div 400"

definition days_before_month :: "int \<Rightarrow> nat \<Rightarrow> nat" where
  "days_before_month y m = [0, 31, 59, 90, 120, 151, 181, 212, 243, 273, 304, 334] ! (m - 1) + (if 2 < m \<and> leap y then 1 else 0)"

definition days_from_civil :: "int \<Rightarrow> nat \<Rightarrow> nat \<Rightarrow> int" where
  "days_from_civil y m d = days_before_year y + int (days_before_month y m) + int d - 1"

definition field :: "nat \<Rightarrow> nat \<Rightarrow> string \<Rightarrow> nat" where
  "field i n s = digits_value (take n (drop i s))"

definition read_seconds :: "string \<Rightarrow> int option" where
  "read_seconds s =
     (if [s ! 4, s ! 7, s ! 10, s ! 13, s ! 16] = ''--T::''
      then Some (days_from_civil (int (field 0 4 s)) (field 5 2 s) (field 8 2 s) * 86400 + int (field 11 2 s * 3600 + field 14 2 s * 60 + field 17 2 s))
      else None)"

definition read_iso8601 :: "string \<Rightarrow> int option" where
  "read_iso8601 s =
     (let frac = (if s ! 19 = CHR ''.'' then butlast (drop 20 s) else [])
      in if 19 < length s \<and> List.last s = CHR ''Z'' \<and> (s ! 19 = CHR ''.'' \<or> length s = 20)
         then map_option (\<lambda>t. t * 1000000000 + int (digits_value frac * 10 ^ (9 - length frac))) (read_seconds (take 19 s)) else None)"

definition subsecond_unit :: "int \<Rightarrow> int" where
  "subsecond_unit digits = (if digits > 6 then 1 else if digits > 3 then 1000 else if digits > 0 then 1000000 else 1000000000)"

section \<open>The calendar is the reference's\<close>

lemma div_suc: "0 < c \<Longrightarrow> (a + 1) div c = a div c + (if c dvd a + 1 then 1 else 0)" for a c :: int
proof -
  assume c: "0 < c"
  show ?thesis
  proof (cases "c dvd a + 1")
    case True
    then obtain k where "a + 1 = c * k" by blast
    then have "a = c * (k - 1) + (c - 1)" by (simp add: algebra_simps)
    then have "a div c = k - 1" using c by (simp add: div_pos_pos_trivial)
    then show ?thesis using c \<open>a + 1 = c * k\<close> by simp
  next
    case False
    have m: "a mod c < c" "0 \<le> a mod c" using c by simp_all
    have "a mod c + 1 \<noteq> c"
    proof
      assume "a mod c + 1 = c"
      moreover have "a + 1 = c * (a div c) + (a mod c + 1)" by simp
      ultimately show False using False by (metis dvd_add_times_triv_left_iff dvd_refl mult.commute add.commute)
    qed
    then have "(a mod c + 1) div c = 0" using m by (simp add: div_pos_pos_trivial)
    moreover have "(a + 1) div c = (a mod c + 1 + (a div c) * c) div c" by (simp add: algebra_simps)
    moreover have "(a mod c + 1 + (a div c) * c) div c = a div c + (a mod c + 1) div c" using c by (intro div_mult_self1) simp
    ultimately show ?thesis using False by simp
  qed
qed

lemma dvd_shift: "c dvd k \<Longrightarrow> c dvd y - k \<longleftrightarrow> c dvd y" "c dvd k \<Longrightarrow> c dvd y + k \<longleftrightarrow> c dvd y" for c y k :: int
  by (metis diff_add_cancel dvd_add dvd_diff, metis add_diff_cancel_right' dvd_add dvd_diff)

lemma days_before_next: "days_before_year (y + 1) = days_before_year y + int (year_days y)"
proof -
  have d: "4 dvd (y - 1969) + 1 \<longleftrightarrow> 4 dvd y" "100 dvd (y - 1901) + 1 \<longleftrightarrow> 100 dvd y" "400 dvd (y - 1601) + 1 \<longleftrightarrow> 400 dvd y"
    using dvd_shift(1) [of 4 1968 y] dvd_shift(1) [of 100 1900 y] dvd_shift(1) [of 400 1600 y] by simp_all
  have s: "y + 1 - 1969 = (y - 1969) + 1" "y + 1 - 1901 = (y - 1901) + 1" "y + 1 - 1601 = (y - 1601) + 1" by simp_all
  define A B C where k: "A \<longleftrightarrow> 4 dvd y" "B \<longleftrightarrow> 100 dvd y" "C \<longleftrightarrow> 400 dvd y"
  have i: "C \<Longrightarrow> B" "B \<Longrightarrow> A" unfolding k by (erule dvd_trans [rotated], simp)+
  have n: "int (year_days y) = 365 + ((if A then 1 else 0) - (if B then 1 else 0) + (if C then 1 else 0))"
    unfolding year_days_def leap_def k [symmetric] using i by (cases A; cases B; cases C) simp_all
  show ?thesis unfolding days_before_year_def s n by (simp only: div_suc zero_less_numeral d k [symmetric]) (simp add: algebra_simps)
qed

lemma year_loop_days: "year_loop y d = (y', d') \<Longrightarrow> days_before_year y + int d = days_before_year y' + int d' \<and> d' < year_days y' \<and> y \<le> y'"
proof (induction y d rule: year_loop.induct)
  case (1 y d)
  show ?case
  proof (cases "d < year_days y")
    case True
    then show ?thesis using "1.prems" by (simp add: year_loop.simps [of y d])
  next
    case False
    then have "year_loop (y + 1) (d - year_days y) = (y', d')" using "1.prems" by (simp add: year_loop.simps [of y d])
    from "1.IH" [OF False this] False show ?thesis by (simp add: days_before_next)
  qed
qed

lemma era_shift: "days_before_year (y + 400 * k) = days_before_year y + 146097 * k" "leap (y + 400 * k) = leap y"
proof -
  have "(y + 400 * k - 1969) div 4 = (y - 1969) div 4 + 100 * k" "(y + 400 * k - 1901) div 100 = (y - 1901) div 100 + 4 * k"
    "(y + 400 * k - 1601) div 400 = (y - 1601) div 400 + k"
    using div_mult_self1 [of 4 "y - 1969" "100 * k"] div_mult_self1 [of 100 "y - 1901" "4 * k"] div_mult_self1 [of 400 "y - 1601" k]
    by (simp_all add: algebra_simps)
  then show "days_before_year (y + 400 * k) = days_before_year y + 146097 * k" by (simp add: days_before_year_def)
  show "leap (y + 400 * k) = leap y" by (simp add: leap_def dvd_shift)
qed

lemma days_before_month_next: "1 \<le> m \<Longrightarrow> m < 12 \<Longrightarrow> days_before_month y (Suc m) = days_before_month y m + month_days y m"
proof -
  assume "1 \<le> m" "m < 12"
  then have "m = 1 \<or> m = 2 \<or> m = 3 \<or> m = 4 \<or> m = 5 \<or> m = 6 \<or> m = 7 \<or> m = 8 \<or> m = 9 \<or> m = 10 \<or> m = 11" by arith
  then show ?thesis by (auto simp: days_before_month_def month_days_def)
qed

lemma month_loop_days:
  "month_loop y m d = (m', d') \<Longrightarrow> 1 \<le> m \<Longrightarrow> m \<le> 12 \<Longrightarrow> days_before_month y m + d < year_days y \<Longrightarrow>
   days_before_month y m + d = days_before_month y m' + d' \<and> m \<le> m' \<and> m' \<le> 12 \<and> d' < month_days y m'"
proof (induction y m d rule: month_loop.induct)
  case (1 y m d)
  show ?case
  proof (cases "d < month_days y m \<or> 12 \<le> m")
    case True
    have "m = 12 \<Longrightarrow> d < month_days y m" using "1.prems"(4) by (auto simp: days_before_month_def month_days_def year_days_def split: if_splits)
    then show ?thesis using True "1.prems" by (auto simp: month_loop.simps [of y m d])
  next
    case False
    then have "month_loop y (Suc m) (d - month_days y m) = (m', d')" using "1.prems" by (simp add: month_loop.simps [of y m d])
    from "1.IH" [OF False this] False "1.prems" show ?thesis by (simp add: days_before_month_next)
  qed
qed

lemma civil_days:
  assumes "civil_from_days z = (y, m, d)"
  shows "days_from_civil y m d = z" "1 \<le> m" "m \<le> 12" "1 \<le> d" "d \<le> month_days y m"
proof -
  obtain y0 yd where a: "year_loop 1970 (nat (z mod 146097)) = (y0, yd)" by fastforce
  obtain m0 md where b: "month_loop y0 1 yd = (m0, md)" by fastforce
  have r: "y = y0 + 400 * (z div 146097)" "m = m0" "d = md + 1" using assms by (auto simp: civil_from_days_def a b [unfolded One_nat_def])
  have l: "leap y = leap y0" by (simp add: r(1) era_shift)
  note c = year_loop_days [OF a]
  have e: "days_before_month y0 1 + yd < year_days y0" using c by (simp add: days_before_month_def)
  note f = month_loop_days [OF b _ _ e]
  have "days_from_civil y m d = days_before_year y0 + 146097 * (z div 146097) + int (days_before_month y0 m0) + int md"
    by (simp add: days_from_civil_def r era_shift days_before_month_def)
  also have "\<dots> = days_before_year y0 + 146097 * (z div 146097) + int yd" using f by (simp add: days_before_month_def)
  also have "\<dots> = days_before_year 1970 + int (nat (z mod 146097)) + 146097 * (z div 146097)" using c by simp
  also have "\<dots> = z" by (simp add: days_before_year_def)
  finally show "days_from_civil y m d = z" .
  show "1 \<le> m" "m \<le> 12" "1 \<le> d" "d \<le> month_days y m" using f by (auto simp: r month_days_def l era_shift)
qed

lemma civil_year:
  assumes "civil_from_days z = (y, m, d)" and "0 \<le> z" and "z < 2932897"
  shows "0 \<le> y" "y \<le> 9999"
proof -
  have mono: "days_before_year a \<le> days_before_year b" if "a \<le> b" for a b
    using that by (induction b rule: int_ge_induct) (simp_all add: days_before_next)
  have m: "days_before_month y m < 335 + 1"
  proof -
    have "m = 1 \<or> m = 2 \<or> m = 3 \<or> m = 4 \<or> m = 5 \<or> m = 6 \<or> m = 7 \<or> m = 8 \<or> m = 9 \<or> m = 10 \<or> m = 11 \<or> m = 12"
      using civil_days(2,3) [OF assms(1)] by arith
    then show ?thesis by (auto simp: days_before_month_def)
  qed
  have d: "d \<le> 31" using civil_days(5) [OF assms(1)] by (simp add: month_days_def split: if_splits)
  have lo: "days_before_year y \<le> z" and hi: "z \<le> days_before_year y + 366"
    using civil_days(1,4) [OF assms(1)] m d by (simp_all add: days_from_civil_def)
  show "0 \<le> y" using mono [of y "-1"] hi assms(2) by (cases "0 \<le> y") (auto simp: days_before_year_def)
  show "y \<le> 9999" using mono [of 10000 y] lo assms(3) by (cases "y \<le> 9999") (auto simp: days_before_year_def)
qed

section \<open>The digits\<close>

lemma zero_pad_length: "length s \<le> n \<Longrightarrow> length (zero_pad n s) = n"
  by (simp add: zero_pad_def)

lemma digits_value_zeros: "digits_value (replicate k CHR ''0'' @ s) = digits_value s"
proof -
  have "digits_value (replicate k CHR ''0'') = 0" by (induction k) (simp_all add: digits_value_def char_digit_def)
  then show ?thesis by (simp add: digits_value_append)
qed

lemma fmt_0d_digits:
  assumes "0 \<le> v" and "nat v < 10 ^ n" and "0 < n"
  shows "length (fmt_0d n v) = n" "digits_value (fmt_0d n v) = nat v"
  using assms zero_pad_length [OF to_string_length [OF assms(2,3)]]
  by (simp_all add: fmt_0d_def zero_pad_def digits_value_zeros digits_value_to_string_nat)

lemma fmt_year_digits: "0 \<le> y \<Longrightarrow> y \<le> 9999 \<Longrightarrow> length (fmt_year y) = 4 \<and> digits_value (fmt_year y) = nat y"
  using fmt_0d_digits [of y 4] by (simp add: fmt_year_def fmt_0d_def)

lemma date_layout:
  assumes "length Y = 4" "length M = 2" "length D = 2" "length H = 2" "length I = 2" "length S = 2"
  defines "t \<equiv> Y @ ''-'' @ M @ ''-'' @ D @ ''T'' @ H @ '':'' @ I @ '':'' @ S"
  shows "length t = 19" and "[t ! 4, t ! 7, t ! 10, t ! 13, t ! 16] = ''--T::''"
    and "field 0 4 t = digits_value Y" "field 5 2 t = digits_value M" "field 8 2 t = digits_value D"
    and "field 11 2 t = digits_value H" "field 14 2 t = digits_value I" "field 17 2 t = digits_value S"
  using assms(1-6) unfolding t_def by (simp_all add: nth_append field_def)

lemma read_fmt_seconds:
  assumes "0 \<le> s" and "s < 253402300800"
  shows "length (fmt_seconds s) = 19" "read_seconds (fmt_seconds s) = Some s"
proof -
  obtain y m d where c: "civil_from_days (s div 86400) = (y, m, d)" by (metis surj_pair)
  define t where "t = s mod 86400"
  have t: "0 \<le> t" "t < 86400" by (simp_all add: t_def)
  note z = civil_days [OF c] and yr = civil_year [OF c]
  have y: "0 \<le> y" "y \<le> 9999" using yr assms by simp_all
  have "d \<le> 31" using z(5) by (simp add: month_days_def split: if_splits)
  then have n: "nat (int m) < 10 ^ 2" "nat (int d) < 10 ^ 2" "nat (t div 3600) < 10 ^ 2" "nat (t div 60 mod 60) < 10 ^ 2" "nat (t mod 60) < 10 ^ 2"
    using z(3) t by (simp_all add: nat_less_iff)
  have p: "0 \<le> int m" "0 \<le> int d" "0 \<le> t div 3600" "0 \<le> t div 60 mod 60" "0 \<le> t mod 60" using t by simp_all
  have two: "(0 :: nat) < 2" by simp
  note f = fmt_0d_digits [OF p(1) n(1) two] fmt_0d_digits [OF p(2) n(2) two] fmt_0d_digits [OF p(3) n(3) two] fmt_0d_digits [OF p(4) n(4) two] fmt_0d_digits [OF p(5) n(5) two]
  have ly: "length (fmt_year y) = 4" "digits_value (fmt_year y) = nat y" using fmt_year_digits [OF y] by simp_all
  have e: "fmt_seconds s = fmt_year y @ ''-'' @ fmt_0d 2 (int m) @ ''-'' @ fmt_0d 2 (int d) @ ''T'' @ fmt_0d 2 (t div 3600) @ '':'' @ fmt_0d 2 (t div 60 mod 60) @ '':'' @ fmt_0d 2 (t mod 60)"
    by (simp add: fmt_seconds_def c t_def Let_def)
  note l = date_layout [OF ly(1) f(1,3,5,7,9)]
  show "length (fmt_seconds s) = 19" unfolding e by (rule l(1))
  have "t div 3600 = t div 60 div 60" using zdiv_zmult2_eq [of 60 t 60] by simp
  then have "t div 3600 * 3600 + t div 60 mod 60 * 60 + t mod 60 = t div 60 div 60 * 3600 + t div 60 mod 60 * 60 + t mod 60" by (simp only:)
  also have "\<dots> = (t div 60 div 60 * 60 + t div 60 mod 60) * 60 + t mod 60"
  proof -
    have "a * 3600 + b * 60 + c = (a * 60 + b) * 60 + c" for a b c :: int by simp
    then show ?thesis .
  qed
  also have "\<dots> = t" by (simp only: div_mult_mod_eq)
  finally have "t div 3600 * 3600 + t div 60 mod 60 * 60 + t mod 60 = t" .
  then have hms: "int (nat (t div 3600) * 3600 + nat (t div 60 mod 60) * 60 + nat (t mod 60)) = t"
    using p by (simp only: of_nat_add of_nat_mult of_nat_numeral nat_0_le)
  have "s div 86400 * 86400 + t = s" unfolding t_def by (rule div_mult_mod_eq)
  then show "read_seconds (fmt_seconds s) = Some s"
    unfolding e read_seconds_def l(2-8) ly(2) f by (simp only: hms nat_int int_nat_eq y if_True z(1) simp_thms)
qed

lemma read_with_fraction:
  assumes "0 \<le> s" and "s < 253402300800" and "nat v < 10 ^ n" and "0 \<le> v" and "0 < n" and "n \<le> 9"
  shows "read_iso8601 (fmt_seconds s @ ''.'' @ fmt_0d n v @ ''Z'') = Some (s * 1000000000 + v * 10 ^ (9 - n))"
  using read_fmt_seconds [OF assms(1,2)] fmt_0d_digits [OF assms(4,3,5)] assms(4)
  by (simp add: read_iso8601_def nth_append butlast_append)

lemma read_whole:
  assumes "0 \<le> s" and "s < 253402300800"
  shows "read_iso8601 (fmt_seconds s @ ''Z'') = Some (s * 1000000000)"
  using read_fmt_seconds [OF assms] by (simp add: read_iso8601_def nth_append digits_value_def)

section \<open>Round trip\<close>

lemma cut_to_unit: "c dvd n \<Longrightarrow> tp div n * n + tp mod n div c * c = tp - tp mod c" for tp n c :: int
  by (simp add: minus_mod_eq_div_mult [symmetric] mod_mod_cancel)

text \<open>A tick that divides the microsecond: 1, 100 or 1000 nanoseconds.\<close>

lemma per_second:
  fixes c tick :: int
  assumes "0 < tick" and "tick dvd 1000"
  shows "c div (1000000000 div tick) = c * tick div 1000000000"
    "(c - c div (1000000000 div tick) * (1000000000 div tick)) * tick = c * tick mod 1000000000"
proof -
  obtain k where k: "1000 = tick * k" using assms(2) by blast
  have k0: "0 < k" using k assms(1) by (metis zero_less_mult_pos zero_less_numeral)
  have m: "(1000000000 :: int) = k * 1000000 * tick" using arg_cong [OF k, of "\<lambda>v. v * 1000000"] by (simp add: ac_simps)
  have n: "1000000000 div tick = k * 1000000" by (subst m) (use assms(1) in simp)
  have d: "c * tick div (k * 1000000 * tick) = c div (k * 1000000)" using assms(1) by simp
  show "c div (1000000000 div tick) = c * tick div 1000000000" unfolding n by (subst m) (simp only: d)
  show "(c - c div (1000000000 div tick) * (1000000000 div tick)) * tick = c * tick mod 1000000000"
    unfolding n minus_div_mult_eq_mod by (subst m) (simp only: mod_mult_mult2)
qed

lemma format_reads:
  assumes "0 < fst tp" and "fst tp dvd 1000" and "0 \<le> instant tp" and "instant tp < 253402300800 * 1000000000"
  shows "read_iso8601 (format_timestamp_iso8601 tp digits) = Some (instant tp - instant tp mod subsecond_unit digits)"
proof -
  let ?n = "instant tp"
  let ?s = "?n div 1000000000" and ?r = "?n mod 1000000000"
  have s: "0 \<le> ?s" "?s < 253402300800" using assms(3,4) by simp_all
  have p: "sint (snd tp) div (1000000000 div fst tp) = ?s"
    "(sint (snd tp) - ?s * (1000000000 div fst tp)) * fst tp = ?r"
    using per_second [OF assms(1,2), of "sint (snd tp)"] by (simp_all add: instant_def)
  have n: "nat ?r < 10 ^ 9" "nat (?r div 1000) < 10 ^ 6" "nat (?r div 1000000) < 10 ^ 3" by (simp_all add: nat_less_iff)
  have m: "?s * 1000000000 + ?r div 1000 * 1000 = ?n div 1000 * 1000" "?s * 1000000000 + ?r div 1000000 * 1000000 = ?n div 1000000 * 1000000"
    unfolding minus_mod_eq_div_mult [symmetric, of ?n 1000] minus_mod_eq_div_mult [symmetric, of ?n 1000000] by (rule cut_to_unit, simp)+
  have f: "read_iso8601 (fmt_seconds ?s @ ''.'' @ fmt_0d 9 ?r @ ''Z'') = Some (?n - ?n mod 1)"
    "read_iso8601 (fmt_seconds ?s @ ''.'' @ fmt_0d 6 (?r div 1000) @ ''Z'') = Some (?n - ?n mod 1000)"
    "read_iso8601 (fmt_seconds ?s @ ''.'' @ fmt_0d 3 (?r div 1000000) @ ''Z'') = Some (?n - ?n mod 1000000)"
    "read_iso8601 (fmt_seconds ?s @ ''Z'') = Some (?n - ?n mod 1000000000)"
    using read_with_fraction [OF s n(1)] read_with_fraction [OF s n(2)] read_with_fraction [OF s n(3)] read_whole [OF s]
    by (simp_all add: m minus_mod_eq_div_mult pos_imp_zdiv_nonneg_iff)
  show ?thesis unfolding format_timestamp_iso8601_def Let_def p subsecond_unit_def by (simp only: f split: if_split) blast
qed

text \<open>The instant of a time passed as a number, in whichever of the three units.\<close>

lemma time_point_units:
  assumes "0 < tick" and "tick dvd 1000" and "4102444800000000 \<le> n" and "n < 4102444800000000000"
  shows "instant (time_point_of tick (word_of_int n)) = n - n mod tick" "instant (time_point_of tick (word_of_int (n div 1000))) = n - n mod 1000"
    "instant (time_point_of tick (word_of_int (n div 1000000))) = n - n mod 1000000"
proof -
  have u: "uint (word_of_int v :: 64 word) = v" if "0 \<le> v" "v < 4102444800000000000" for v
    using that by (simp add: unsigned_of_int take_bit_int_eq_self)
  have s: "sint (word_of_int v :: 64 word) = v" if "0 \<le> v" "v < 4102444800000000000" for v
    using that by (simp add: signed_of_int signed_take_bit_int_eq_self)
  have le: "v div tick \<le> v" "0 \<le> v div tick" if "0 \<le> v" for v using that assms(1) zdiv_mono2 [of v 1 tick] by (simp_all add: pos_imp_zdiv_nonneg_iff)
  have cast: "instant (tick, word_of_int (cast_ticks tick v)) = v - v mod tick" if v: "0 \<le> v" "v < 4102444800000000000" for v
  proof -
    have c: "cast_ticks tick v = v div tick" using v by (simp add: cast_ticks_def)
    have "sint (word_of_int (v div tick) :: 64 word) = v div tick" by (rule s) (use le [OF v(1)] v in linarith)+
    then show ?thesis by (simp only: c instant_def fst_conv snd_conv minus_mod_eq_div_mult)
  qed
  have z: "v mod tick = 0" if "1000 dvd v" for v by (rule dvd_imp_mod_0 [OF dvd_trans [OF assms(2) that]])
  show "instant (time_point_of tick (word_of_int n)) = n - n mod tick"
    using assms(3,4) s [of n] u [of n] cast [of n] by (simp add: time_point_of_def word_less_def)
  show "instant (time_point_of tick (word_of_int (n div 1000))) = n - n mod 1000"
  proof -
    have b: "4102444800000 \<le> n div 1000" "n div 1000 < 4102444800000000" "0 \<le> n div 1000 * 1000" "n div 1000 * 1000 < 4102444800000000000"
      using assms(3,4) by linarith+
    have "time_point_of tick (word_of_int (n div 1000)) = (tick, word_of_int (cast_ticks tick (n div 1000 * 1000)))"
      using b u [of "n div 1000"] by (simp add: time_point_of_def word_less_def)
    then show ?thesis using cast [OF b(3,4)] z [of "n div 1000 * 1000"] by (simp add: minus_mod_eq_div_mult)
  qed
  show "instant (time_point_of tick (word_of_int (n div 1000000))) = n - n mod 1000000"
  proof -
    have b: "n div 1000000 < 4102444800000" "0 \<le> n div 1000000" "0 \<le> n div 1000000 * 1000000" "n div 1000000 * 1000000 < 4102444800000000000"
      using assms(3,4) by linarith+
    have "time_point_of tick (word_of_int (n div 1000000)) = (tick, word_of_int (cast_ticks tick (n div 1000000 * 1000000)))"
      using b u [of "n div 1000000"] by (simp add: time_point_of_def word_less_def)
    then show ?thesis using cast [OF b(3,4)] z [of "n div 1000000 * 1000000"] by (simp add: minus_mod_eq_div_mult)
  qed
qed

lemma cut_twice: "a dvd b \<or> b dvd a \<Longrightarrow> 0 < a \<Longrightarrow> 0 < b \<Longrightarrow> (n - n mod a) - (n - n mod a) mod b = n - n mod max a b" for a b n :: int
proof -
  assume d: "a dvd b \<or> b dvd a" and a: "0 < a" and b: "0 < b"
  have 1: "(n - n mod a) - (n - n mod a) mod b = n - n mod b" if ab: "a dvd b"
  proof -
    obtain c where c: "b = a * c" using ab by (rule dvdE)
    have c0: "0 < c" using a b c by (simp add: zero_less_mult_iff)
    have "(n div a * a) div b = n div b" unfolding c using a c0 by (simp add: zdiv_zmult2_eq mult.commute)
    then show ?thesis by (simp add: minus_mod_eq_div_mult)
  qed
  have 2: "(n - n mod a) - (n - n mod a) mod b = n - n mod a" if "b dvd a"
    using that by (simp add: minus_mod_eq_div_mult)
  show ?thesis
  proof (cases "a \<le> b")
    case True
    then show ?thesis using d 1 zdvd_antisym_nonneg [of a b] zdvd_imp_le [of b a] a b by (auto simp: max_def)
  next
    case False
    then show ?thesis using d 2 zdvd_imp_le [of a b] a b by (auto simp: max_def)
  qed
qed

text \<open>
  C40. A rendered timestamp reads back as the instant it was made from, cut to the digits asked for. The clock's tick is 1,
  100 or 1000 nanoseconds (any that divides a microsecond) and its count a signed 64-bit number. For every time point from
  1970 to the end of the year 9999 that the count can hold, the text reads back as the time point's own instant cut to the unit of the digits: the date is the
  right date of the Gregorian calendar and every field has its width. And an instant from the 48th day of 1970 to the end of 2099, passed as a
  64-bit count of nanoseconds, microseconds or milliseconds, reads back as that instant, cut to the coarsest of the unit of the
  digits, the unit it was passed in and, for nanoseconds, the clock's tick: digits finer than the tick are 0, so on macOS no digit after the
  sixth is kept.
\<close>

theorem timestamp_roundtrip:
  assumes "0 < fst tp" and "fst tp dvd 1000" and "0 \<le> instant tp" and "instant tp < 253402300800 * 1000000000"
    and "4102444800000000 \<le> n" and "n < 4102444800000000000"
  shows "read_iso8601 (format_timestamp_iso8601 tp digits) = Some (instant tp - instant tp mod subsecond_unit digits) \<and>
    read_iso8601 (format_timestamp_u64 (fst tp) (word_of_int n) digits) = Some (n - n mod max (fst tp) (subsecond_unit digits)) \<and>
    read_iso8601 (format_timestamp_u64 (fst tp) (word_of_int (n div 1000)) digits) = Some (n - n mod max 1000 (subsecond_unit digits)) \<and>
    read_iso8601 (format_timestamp_u64 (fst tp) (word_of_int (n div 1000000)) digits) = Some (n - n mod max 1000000 (subsecond_unit digits))"
proof -
  let ?u = "subsecond_unit digits"
  have read: "read_iso8601 (format_timestamp_u64 (fst tp) w digits) = Some (n - n mod max c ?u)"
    if w: "instant (time_point_of (fst tp) w) = n - n mod c" and c: "0 < c" "c dvd 1000 \<or> c = 1000000" for w c
  proof -
    have f: "fst (time_point_of (fst tp) w) = fst tp" by (simp add: time_point_of_def)
    have le: "n mod c \<le> n" "0 \<le> n mod c" using c assms(5) by (simp_all add: zmod_le_nonneg_dividend)
    have "read_iso8601 (format_timestamp_u64 (fst tp) w digits) = Some ((n - n mod c) - (n - n mod c) mod ?u)"
      unfolding format_timestamp_u64_def w [symmetric] by (rule format_reads) (use assms le in \<open>simp_all add: f w\<close>)
    moreover have "c dvd ?u \<or> ?u dvd c" "0 < ?u"
      using c(2) dvd_trans [of c 1000 1000000] dvd_trans [of c 1000 1000000000] by (auto simp: subsecond_unit_def)
    ultimately show ?thesis using cut_twice [OF _ c(1), of ?u n] by simp
  qed
  note u = time_point_units [OF assms(1,2,5,6)]
  show ?thesis
    by (intro conjI format_reads [OF assms(1-4)] read [OF u(1) assms(1) disjI1 [OF assms(2)]] read [OF u(2)] read [OF u(3)]) simp_all
qed

text \<open>The instant of the unit tests on a clock of microseconds, its time also passed in nanoseconds.\<close>

theorem timestamp_roundtrip_witness:
  "format_timestamp_iso8601 (1000, word_of_int 1700000000123456) 3 = ''2023-11-14T22:13:20.123Z'' \<and>
   read_iso8601 (format_timestamp_iso8601 (1000, word_of_int 1700000000123456) 3) = Some 1700000000123000000 \<and>
   read_iso8601 (format_timestamp_u64 1000 (word_of_int 1700000000123456789) 9) = Some 1700000000123456000"
proof -
  have i: "instant (1000, 1700000000123456) = 1700000000123456000" by (simp add: instant_def)
  have "format_timestamp_iso8601 (1000, word_of_int 1700000000123456) 3 = ''2023-11-14T22:13:20.123Z''"
    by (simp add: format_timestamp_iso8601_def signed_of_int signed_take_bit_int_eq_self fmt_seconds_def civil_from_days_def year_loop.simps month_loop.simps year_days_def leap_def
        month_days_def fmt_year_def fmt_0d_def zero_pad_def to_string_nat.simps digit_char_def char_of_def bit_0)
  then show ?thesis
    using timestamp_roundtrip [of "(1000, word_of_int 1700000000123456)" 1700000000123456789 3]
      timestamp_roundtrip [of "(1000, word_of_int 1700000000123456)" 1700000000123456789 9]
    by (simp add: i subsecond_unit_def)
qed

end
