(* ===== verification/Coinbase_Order_Json.thy ===== *)
theory Coinbase_Order_Json
  imports Coinbase_Rest_Gateway Json_Value Timestamp
begin

text \<open>
  \<open>src/src/venues/coinbase/coinbase_common.hpp\<close>: an order as the Coinbase gateways show it, in the listing over
  REST and in the snapshot over WebSocket. Numbers of the order are printed exactly from their fixed-point form;
  what goes through \<open>double\<close> and \<open>std::to_string\<close> is a parameter, as is what the JSON library makes of a pair of
  empty braces.
\<close>

section \<open>An order as JSON\<close>

fun to_coinbase_string :: "TimeInForce \<Rightarrow> string" where
  "to_coinbase_string TIF_GOOD_TILL_DATE = ''GOOD_UNTIL_DATE_TIME''"
| "to_coinbase_string TIF_GOOD_TILL_CANCEL = ''GOOD_UNTIL_CANCELLED''"
| "to_coinbase_string TIF_IMMEDIATE_OR_CANCEL = ''IMMEDIATE_OR_CANCEL''"
| "to_coinbase_string TIF_FILL_OR_KILL = ''FILL_OR_KILL''"
| "to_coinbase_string _ = ''UNKNOWN_TIME_IN_FORCE''"

text \<open>The member of the configuration the type and the time in force decide; any other pair leaves the null value.\<close>

definition order_config_json :: "Order \<Rightarrow> 'n jvalue" where
  "order_config_json order =
     (let base = (''base_size'', JText (to_qty_string (quantity order)));
          limit = (''limit_price'', JText (to_price_string (price order)))
      in if otype order = OT_MARKET then
           (if time_in_force order = TIF_IMMEDIATE_OR_CANCEL then JObject [(''market_market_ioc'', JObject [base])]
            else if time_in_force order = TIF_FILL_OR_KILL then JObject [(''market_market_fok'', JObject [base])]
            else JNull)
         else if otype order = OT_LIMIT then
           (if time_in_force order = TIF_GOOD_TILL_CANCEL
            then JObject [(''limit_limit_gtc'', JObject [base, limit, (''post_only'', JBool (post_only order))])]
            else if time_in_force order = TIF_IMMEDIATE_OR_CANCEL then JObject [(''sor_limit_ioc'', JObject [base, limit])]
            else if time_in_force order = TIF_FILL_OR_KILL then JObject [(''market_market_fok'', JObject [base, limit])]
            else JNull)
         else JNull)"

text \<open>The texts of the members that are \<open>double\<close>, and the two percentages.\<close>

record double_texts =
  dt_fee :: string
  dt_filled_value :: string
  dt_value_after_fees :: string
  dt_percentage :: "qty_t \<Rightarrow> qty_t \<Rightarrow> string"

definition to_json :: "double_texts \<Rightarrow> 'n jvalue \<Rightarrow> time_point \<Rightarrow> Order \<Rightarrow> 'n jobject" where
  "to_json dt braces now order =
     [(''order_id'', JText (order_id order)), (''product_id'', JText (symbol order)), (''user_id'', JText (user_id order)),
      (''order_configuration'', order_config_json order), (''side'', JText (to_string_Side (side order))),
      (''client_order_id'', JText (client_order_id order)), (''status'', JText (to_string_OrderStatus (status order))),
      (''time_in_force'', JText (to_coinbase_string (time_in_force order))),
      (''created_time'', JText (format_timestamp_iso8601 now 3)),
      (''completion_percentage'', JText (dt_percentage dt (cum_quantity order) (quantity order))),
      (''filled_size'', JText (to_qty_string (cum_quantity order))), (''average_filled_price'', JText (to_price_string (avg_fill_price order))),
      (''number_of_fills'', JText (to_string_nat (num_fills order))), (''fee'', JText (dt_fee dt)), (''filled_value'', JText (dt_filled_value dt)),
      (''pending_cancel'', JBool (pending_cancel order)), (''size_in_quote'', JBool False), (''total_fee'', JText (dt_fee dt)),
      (''size_inclusive_of_fees'', JBool False), (''total_value_after_fees'', JText (dt_value_after_fees dt)),
      (''trigger_status'', JText ''UNKNOWN_TRIGGER_STATUS''), (''order_type'', JText (to_string_OrderType (otype order))),
      (''reject_reason'', JText []), (''settled'', JBool False), (''product_type'', JText (to_string_ProductType (product_type order))),
      (''reject_message'', JText (reject_message order)), (''cancel_message'', JText (cancel_message order)),
      (''order_placement_source'', JText ''UNKNOWN_PLACEMENT_SOURCE''), (''outstanding_hold_amount'', JText []), (''is_liquidation'', JBool False),
      (''last_fill_time'', JText (case last_fill_time order of Some t \<Rightarrow> format_timestamp_u64 (fst now) (of_nat t) 3 | None \<Rightarrow> [])),
      (''edit_history'', JArray []), (''leverage'', JText []), (''margin_type'', JText ''CROSS''),
      (''attached_order_configuration'', braces), (''current_pending_replace'', braces), (''commission_detail_total'', braces),
      (''workable_size'', JText (to_qty_string (leaves_quantity order))),
      (''workable_size_completion_pct'', JText (dt_percentage dt (leaves_quantity order) (quantity order)))]"

section \<open>Placing a listed order again\<close>

text \<open>A configuration as the handler of new orders sees it when it is sent back.\<close>

definition member_of :: "string \<Rightarrow> 'n jobject \<Rightarrow> text_member" where
  "member_of k m = (case map_of m k of None \<Rightarrow> Absent | Some (JText s) \<Rightarrow> TextMember s | _ \<Rightarrow> OtherMember)"

fun config_of :: "'n jvalue \<Rightarrow> order_cfg" where
  "config_of (JObject m) = \<lparr>oc_base_size = member_of ''base_size'' m, oc_limit_price = member_of ''limit_price'' m\<rparr>"
| "config_of _ = \<lparr>oc_base_size = Absent, oc_limit_price = Absent\<rparr>"

fun configuration_of :: "'n jvalue option \<Rightarrow> (string \<times> order_cfg) list" where
  "configuration_of (Some (JObject m)) = map (\<lambda>(k, v). (k, config_of v)) m"
| "configuration_of _ = []"

text \<open>The pairs of type and time in force a client can place over REST.\<close>

definition placeable :: "OrderType \<Rightarrow> TimeInForce \<Rightarrow> bool" where
  "placeable ty tif \<longleftrightarrow> (ty, tif) \<in> {(OT_MARKET, TIF_IMMEDIATE_OR_CANCEL), (OT_MARKET, TIF_FILL_OR_KILL),
     (OT_LIMIT, TIF_GOOD_TILL_CANCEL), (OT_LIMIT, TIF_IMMEDIATE_OR_CANCEL), (OT_LIMIT, TIF_FILL_OR_KILL)}"

lemma listed_configuration: "map_of (to_json dt braces now order) ''order_configuration'' = Some (order_config_json order)"
  by (simp add: to_json_def)

text \<open>
  C39. What the gateway shows of an order is what a client would send to place it again. With a reading of
  decimals that is exact on the two printed numbers, the listed configuration of a market or limit order of a
  placeable time in force is read back as that type, time in force, price and quantity, the missing price of a
  market order as the null price; every other order shows no configuration and would be refused as
  unsupported. The sizes shown as filled and workable read back as the order's own.
\<close>

theorem listed_order_replaceable:
  assumes "qty_of (to_qty_string (quantity order)) = Some (quantity order)" and "price_of (to_price_string (price order)) = Some (price order)"
    and "int64_ok (cum_quantity order)" and "int64_ok (leaves_quantity order)"
  shows "parse_configuration price_of qty_of (configuration_of (map_of (to_json dt braces now order) ''order_configuration'')) =
      (if placeable (otype order) (time_in_force order)
       then Inr (Some (otype order, time_in_force order, if otype order = OT_MARKET then NULL_PRICE else price order, quantity order)) else Inr None) \<and>
    map_option read_fixed (jtext ''filled_size'' (to_json dt braces now order)) = Some (cum_quantity order) \<and>
    map_option read_fixed (jtext ''workable_size'' (to_json dt braces now order)) = Some (leaves_quantity order)"
proof (intro conjI)
  show "parse_configuration price_of qty_of (configuration_of (map_of (to_json dt braces now order) ''order_configuration'')) =
      (if placeable (otype order) (time_in_force order)
       then Inr (Some (otype order, time_in_force order, if otype order = OT_MARKET then NULL_PRICE else price order, quantity order)) else Inr None)"
    unfolding listed_configuration using assms(1,2)
    by (auto simp: order_config_json_def placeable_def parse_configuration_def member_of_def get_number_def Let_def)
  show "map_option read_fixed (jtext ''filled_size'' (to_json dt braces now order)) = Some (cum_quantity order)"
    "map_option read_fixed (jtext ''workable_size'' (to_json dt braces now order)) = Some (leaves_quantity order)"
    using assms(3,4) by (simp_all add: to_json_def jtext_def to_qty_string_def read_to_fixed_string)
qed

definition ex_limit_order :: Order where
  "ex_limit_order = default_order\<lparr>otype := OT_LIMIT, time_in_force := TIF_FILL_OR_KILL, price := 820000000, quantity := 500000000, leaves_quantity := 500000000\<rparr>"

definition ex_texts :: double_texts where
  "ex_texts = \<lparr>dt_fee = ''0.000000'', dt_filled_value = ''0.000000'', dt_value_after_fees = ''0.000000'', dt_percentage = (\<lambda>_ _. ''0.000000'')\<rparr>"

theorem listed_order_replaceable_witness:
  "parse_configuration (\<lambda>s. Some (read_fixed s)) (\<lambda>s. Some (read_fixed s))
     (configuration_of (map_of (to_json ex_texts (JArray [] :: nat jvalue) (1, 0) ex_limit_order) ''order_configuration'')) =
     Inr (Some (OT_LIMIT, TIF_FILL_OR_KILL, 820000000, 500000000))"
proof -
  have o: "quantity ex_limit_order = 500000000" "price ex_limit_order = 820000000" "cum_quantity ex_limit_order = 0" "leaves_quantity ex_limit_order = 500000000"
    "otype ex_limit_order = OT_LIMIT" "time_in_force ex_limit_order = TIF_FILL_OR_KILL" by (simp_all add: ex_limit_order_def default_order_def)
  have "Some (read_fixed (to_qty_string (quantity ex_limit_order))) = Some (quantity ex_limit_order)"
    "Some (read_fixed (to_price_string (price ex_limit_order))) = Some (price ex_limit_order)" "int64_ok (cum_quantity ex_limit_order)" "int64_ok (leaves_quantity ex_limit_order)"
    by (simp_all add: to_qty_string_def to_price_string_def read_to_fixed_string o int64_ok_def)
  from listed_order_replaceable [where qty_of = "\<lambda>s. Some (read_fixed s)" and price_of = "\<lambda>s. Some (read_fixed s)" and dt = ex_texts
      and braces = "JArray [] :: nat jvalue" and now = "(1, 0)", OF this]
  show ?thesis by (simp add: o placeable_def)
qed

section \<open>The time of an order\<close>

text \<open>The creation time shown is the time of the listing, whatever the order's own.\<close>

theorem created_time_is_now:
  "jtext ''created_time'' (to_json dt braces now (order\<lparr>created_time := t\<rparr>)) = Some (format_timestamp_iso8601 now 3)"
  by (simp add: to_json_def jtext_def)

end
