(* ===== verification/Event_Loop.thy ===== *)
theory Event_Loop
  imports Cb_Publisher_Properties Publisher_Properties Ws_Properties
begin

text \<open>
  The servers on an event loop of uWebSockets: \<open>src/src/market_data_publisher/ws_md_publisher.cpp\<close>,
  \<open>src/src/order_gateway/rest_ws_order_gateway.hpp\<close> and \<open>.cpp\<close>, and the part of
  \<open>src/src/venues/coinbase/coinbase_ws_order_gateway.hpp\<close> that starts, stops and schedules. The loop is a queue of
  deferred callbacks it runs in order; a callback that polls a queue puts itself back. What such a callback does
  to the server's own state is an argument of the loop, \<open>None\<close> being an exception; the properties are about the
  loop with the publishers and the gateway of this development in that place.
\<close>

section \<open>The servers\<close>

datatype task = CreateTimer | Work | CloseListen

record 's server =
  sv_running :: bool
  sv_listening :: bool
  sv_loop :: bool
  sv_timer :: bool
  sv_deferred :: "task list"
  sv_state :: 's

definition new_server :: "'s \<Rightarrow> 's server" where
  "new_server p = \<lparr>sv_running = False, sv_listening = False, sv_loop = False, sv_timer = False, sv_deferred = [], sv_state = p\<rparr>"

definition defer_task :: "task \<Rightarrow> 's server \<Rightarrow> 's server" where
  "defer_task t s = s\<lparr>sv_deferred := sv_deferred s @ [t]\<rparr>"

text \<open>The market data publisher. The listen callback runs on the loop, with a socket or without.\<close>

definition schedule_publish_processing :: "'s server \<Rightarrow> 's server" where
  "schedule_publish_processing s = (if \<not> sv_running s \<or> \<not> sv_loop s then s else defer_task Work s)"

definition pub_start :: "'s server \<Rightarrow> 's server" where
  "pub_start s = s\<lparr>sv_running := True\<rparr>"

definition pub_listen :: "bool \<Rightarrow> 's server \<Rightarrow> 's server" where
  "pub_listen listen_socket s =
     (let s1 = s\<lparr>sv_listening := listen_socket\<rparr>
      in if listen_socket then schedule_publish_processing (defer_task CreateTimer (s1\<lparr>sv_loop := True\<rparr>)) else s1)"

definition pub_stop :: "'s server \<Rightarrow> 's server" where
  "pub_stop s =
     (let s1 = s\<lparr>sv_running := False, sv_timer := False\<rparr>
      in if sv_listening s1 \<and> sv_loop s1 then defer_task CloseListen s1 else s1)"

text \<open>The base of the gateways; what a gateway does once it listens is an argument.\<close>

definition rest_listen :: "('s server \<Rightarrow> 's server) \<Rightarrow> bool \<Rightarrow> 's server \<Rightarrow> 's server" where
  "rest_listen on_listen_socket listen_socket s =
     (let s1 = s\<lparr>sv_listening := listen_socket\<rparr> in if listen_socket then on_listen_socket (s1\<lparr>sv_loop := True\<rparr>) else s1)"

definition rest_stop :: "'s server \<Rightarrow> 's server" where
  "rest_stop s = (if sv_listening s \<and> sv_loop s then defer_task CloseListen s else s)"

text \<open>The Coinbase WebSocket gateway; its clients are forgotten once the thread has ended.\<close>

definition schedule_response_processing :: "'s server \<Rightarrow> 's server" where
  "schedule_response_processing s = (if \<not> sv_running s \<or> \<not> sv_loop s then s else defer_task Work s)"

definition ws_server_start :: "'s server \<Rightarrow> 's server" where
  "ws_server_start s = s\<lparr>sv_running := True\<rparr>"

definition ws_on_listen_socket :: "'s server \<Rightarrow> 's server" where
  "ws_on_listen_socket s = schedule_response_processing (defer_task CreateTimer s)"

definition ws_server_stop :: "'s server \<Rightarrow> 's server" where
  "ws_server_stop s = rest_stop (s\<lparr>sv_running := False, sv_timer := False\<rparr>)"

definition ws_joined :: "WsGateway server \<Rightarrow> WsGateway server" where
  "ws_joined s = s\<lparr>sv_state := ws_stop (sv_state s)\<rparr>"

text \<open>One callback of the loop.\<close>

definition run_task :: "('s \<Rightarrow> 's option) \<Rightarrow> task \<Rightarrow> 's server \<Rightarrow> 's server option" where
  "run_task work t s = (case t of
      CreateTimer \<Rightarrow> Some (s\<lparr>sv_timer := True\<rparr>)
    | Work \<Rightarrow> map_option (\<lambda>p. schedule_publish_processing (s\<lparr>sv_state := p\<rparr>)) (work (sv_state s))
    | CloseListen \<Rightarrow> Some (if sv_listening s then s\<lparr>sv_listening := False\<rparr> else s))"

definition run_next :: "('s \<Rightarrow> 's option) \<Rightarrow> 's server \<Rightarrow> 's server option" where
  "run_next work s = (case sv_deferred s of [] \<Rightarrow> Some s | t # ts \<Rightarrow> run_task work t (s\<lparr>sv_deferred := ts\<rparr>))"

fun turns :: "('s \<Rightarrow> 's option) \<Rightarrow> nat \<Rightarrow> 's server \<Rightarrow> 's server option" where
  "turns work 0 s = Some s"
| "turns work (Suc n) s = Option.bind (run_next work s) (turns work n)"

text \<open>The gateway is the same machine as the publisher.\<close>

lemma gateway_is_publisher:
  "ws_server_start = pub_start" "ws_server_stop = pub_stop" "rest_listen ws_on_listen_socket = pub_listen" "schedule_response_processing = schedule_publish_processing"
  by (auto simp: fun_eq_iff ws_server_start_def pub_start_def ws_server_stop_def rest_stop_def pub_stop_def rest_listen_def ws_on_listen_socket_def
      pub_listen_def schedule_response_processing_def schedule_publish_processing_def Let_def)

section \<open>A life of a server\<close>

text \<open>
  After the start: the listen callback once, turns of the loop, other events of the loop (timers, sockets), which
  change only the server's own state, as \<open>happens\<close> says, and the stop from another thread, at any moment.
\<close>

inductive server_step :: "('s \<Rightarrow> 's option) \<Rightarrow> ('s \<Rightarrow> 's \<Rightarrow> bool) \<Rightarrow> 's server \<Rightarrow> 's server \<Rightarrow> bool"
  for work :: "'s \<Rightarrow> 's option" and happens :: "'s \<Rightarrow> 's \<Rightarrow> bool" where
  Listen: "\<not> sv_loop s \<Longrightarrow> server_step work happens s (pub_listen ok s)"
| Turn: "run_next work s = Some s' \<Longrightarrow> server_step work happens s s'"
| Event: "happens (sv_state s) p \<Longrightarrow> server_step work happens s (s\<lparr>sv_state := p\<rparr>)"
| Stop: "server_step work happens s (pub_stop s)"

definition pending :: "'s server \<Rightarrow> nat" where
  "pending s = count_list (sv_deferred s) Work"

definition loop_inv :: "'s server \<Rightarrow> bool" where
  "loop_inv s \<longleftrightarrow> pending s \<le> 1 \<and> (sv_running s \<and> sv_loop s \<longrightarrow> pending s = 1) \<and> (\<not> sv_loop s \<longrightarrow> sv_deferred s = [])"

lemmas loop_defs = pub_listen_def pub_stop_def pub_start_def schedule_publish_processing_def defer_task_def run_next_def run_task_def

lemma run_next_inv:
  assumes "loop_inv s" and "run_next work s = Some s'"
  shows "loop_inv s'"
proof (cases "sv_deferred s")
  case Nil
  then show ?thesis using assms by (simp add: run_next_def)
next
  case (Cons t ts)
  then show ?thesis using assms by (cases t; cases "sv_running s \<and> sv_loop s"; cases "sv_listening s") (auto simp: loop_defs loop_inv_def pending_def)
qed

lemma server_step_inv: "server_step work happens s s' \<Longrightarrow> loop_inv s \<Longrightarrow> loop_inv s'"
proof (induction rule: server_step.induct)
  case (Listen s ok)
  then show ?case by (auto simp: loop_defs loop_inv_def pending_def Let_def)
next
  case (Turn s s')
  then show ?case using run_next_inv by blast
next
  case (Event s p)
  then show ?case by (simp add: loop_inv_def pending_def)
next
  case (Stop s)
  then show ?case by (auto simp: loop_defs loop_inv_def pending_def Let_def)
qed

lemma reachable_inv: "(server_step work happens)\<^sup>*\<^sup>* (pub_start (new_server p)) s \<Longrightarrow> loop_inv s"
proof (induction rule: rtranclp_induct)
  case base
  show ?case by (simp add: loop_inv_def pending_def new_server_def pub_start_def)
next
  case (step s s')
  then show ?case using server_step_inv by blast
qed

section \<open>Work gets done\<close>

text \<open>
  The contract of a polling callback: in a good state it returns, and while something is left it takes some of it. The
  other events of the loop keep the state good.
\<close>

locale polling =
  fixes work :: "'s \<Rightarrow> 's option" and happens :: "'s \<Rightarrow> 's \<Rightarrow> bool" and left :: "'s \<Rightarrow> nat" and good :: "'s \<Rightarrow> bool"
  assumes takes_some: "good p \<Longrightarrow> \<exists>p'. work p = Some p' \<and> good p' \<and> (0 < left p \<longrightarrow> left p' < left p)"
    and stays_good: "good p \<Longrightarrow> happens p p' \<Longrightarrow> good p'"
begin

lemma run_next_good:
  assumes "good (sv_state s)" and "run_next work s = Some s'"
  shows "good (sv_state s')"
proof (cases "sv_deferred s")
  case Nil
  then show ?thesis using assms by (simp add: run_next_def)
next
  case (Cons t ts)
  then show ?thesis using assms takes_some [OF assms(1)]
    by (cases t; cases "sv_running s \<and> sv_loop s"; cases "sv_listening s") (auto simp: loop_defs)
qed

lemma step_good: "server_step work happens s s' \<Longrightarrow> good (sv_state s) \<Longrightarrow> good (sv_state s')"
proof (induction rule: server_step.induct)
  case (Listen s ok)
  then show ?case by (simp add: loop_defs Let_def)
next
  case (Turn s s')
  then show ?case using run_next_good by blast
next
  case (Event s p)
  then show ?case using stays_good by simp
next
  case (Stop s)
  then show ?case by (simp add: loop_defs Let_def)
qed

lemma reachable_good: "(server_step work happens)\<^sup>*\<^sup>* (pub_start (new_server p)) s \<Longrightarrow> good p \<Longrightarrow> good (sv_state s)"
proof (induction rule: rtranclp_induct)
  case base
  then show ?case by (simp add: new_server_def pub_start_def)
next
  case (step s s')
  then show ?case using step_good by blast
qed

lemma reaches_work:
  "sv_deferred s = ts @ Work # us \<Longrightarrow> Work \<notin> set ts \<Longrightarrow>
   \<exists>s'. turns work (length ts) s = Some s' \<and> sv_deferred s' = Work # us \<and> sv_state s' = sv_state s \<and> sv_running s' = sv_running s \<and> sv_loop s' = sv_loop s"
proof (induction ts arbitrary: s)
  case (Cons t ts)
  then obtain s1 where "run_next work s = Some s1" "sv_deferred s1 = ts @ Work # us" "sv_state s1 = sv_state s" "sv_running s1 = sv_running s" "sv_loop s1 = sv_loop s"
    by (cases t) (auto simp: run_next_def run_task_def)
  with Cons.IH [of s1] Cons.prems(2) show ?case by auto
qed simp

lemma turns_add: "turns work (m + n) s = Option.bind (turns work m s) (turns work n)"
  by (induction m arbitrary: s) (auto simp: bind_eq_Some_conv split: Option.bind_split)

lemma works:
  "sv_running s \<Longrightarrow> sv_loop s \<Longrightarrow> Work \<in> set (sv_deferred s) \<Longrightarrow> good (sv_state s) \<Longrightarrow>
   \<exists>n s'. turns work n s = Some s' \<and> left (sv_state s') = 0"
proof (induction "left (sv_state s)" arbitrary: s rule: less_induct)
  case less
  show ?case
  proof (cases "left (sv_state s) = 0")
    case True
    then show ?thesis by (intro exI [of _ 0] exI [of _ s]) simp
  next
    case False
    obtain ts us where "sv_deferred s = ts @ Work # us" "Work \<notin> set ts" using less.prems(3) by (meson split_list_first)
    from reaches_work [OF this] obtain s1 where s1: "turns work (length ts) s = Some s1" "sv_deferred s1 = Work # us" "sv_state s1 = sv_state s"
      "sv_running s1" "sv_loop s1" using less.prems(1,2) by auto
    obtain p where p: "work (sv_state s) = Some p" "good p" "left p < left (sv_state s)" using takes_some [OF less.prems(4)] False by auto
    define s2 where "s2 = s1\<lparr>sv_deferred := us @ [Work], sv_state := p\<rparr>"
    have "run_next work s1 = Some s2" using s1 p(1) by (simp add: run_next_def run_task_def schedule_publish_processing_def defer_task_def s2_def)
    then have t: "turns work (length ts + 1) s = Some s2" by (subst turns_add) (simp add: s1(1))
    obtain n s' where "turns work n s2 = Some s'" "left (sv_state s') = 0"
      using less.hyps [of s2] p s1 by (auto simp: s2_def)
    then have "turns work (length ts + 1 + n) s = Some s'" using t by (simp only: turns_add bind.bind_lunit)
    then show ?thesis using \<open>left (sv_state s') = 0\<close> by blast
  qed
qed

lemma never_stalls:
  assumes "(server_step work happens)\<^sup>*\<^sup>* (pub_start (new_server p)) s" and "good p" and "sv_running s" and "sv_loop s"
  shows "pending s = 1" "\<exists>n s'. turns work n s = Some s' \<and> left (sv_state s') = 0"
proof -
  show "pending s = 1" using reachable_inv [OF assms(1)] assms(3,4) by (simp add: loop_inv_def)
  then have "Work \<in> set (sv_deferred s)" unfolding pending_def by (metis count_notin zero_neq_one)
  then show "\<exists>n s'. turns work n s = Some s' \<and> left (sv_state s') = 0" by (rule works [OF assms(3,4) _ reachable_good [OF assms(1,2)]])
qed

lemma drains:
  "\<not> sv_running s \<Longrightarrow> good (sv_state s) \<Longrightarrow>
   \<exists>s'. turns work (length (sv_deferred s)) s = Some s' \<and> sv_deferred s' = [] \<and> good (sv_state s') \<and>
     (sv_timer s' \<longleftrightarrow> sv_timer s \<or> CreateTimer \<in> set (sv_deferred s)) \<and> (sv_listening s' \<longleftrightarrow> sv_listening s \<and> CloseListen \<notin> set (sv_deferred s))"
proof (induction "sv_deferred s" arbitrary: s)
  case (Cons t ts)
  obtain p where p: "work (sv_state s) = Some p" "good p" using takes_some [OF Cons.prems(2)] by blast
  define s1 where "s1 = (case t of CreateTimer \<Rightarrow> s\<lparr>sv_deferred := ts, sv_timer := True\<rparr> | Work \<Rightarrow> s\<lparr>sv_deferred := ts, sv_state := p\<rparr>
    | CloseListen \<Rightarrow> s\<lparr>sv_deferred := ts, sv_listening := False\<rparr>)"
  have r: "run_next work s = Some s1" using Cons.hyps(2) [symmetric] Cons.prems(1) p(1)
    by (cases t) (auto simp: run_next_def run_task_def s1_def schedule_publish_processing_def)
  have d: "sv_deferred s1 = ts" "\<not> sv_running s1" "good (sv_state s1)" using Cons.prems p(2) by (cases t; simp add: s1_def)+
  from Cons.hyps(1) [OF d(1) [symmetric] d(2,3)] show ?case unfolding Cons.hyps(2) [symmetric] using d(1) r by (cases t) (auto simp: s1_def)
qed simp

end

section \<open>The publishers and the gateway\<close>

text \<open>A batch of frames takes at least one, if the publisher, in a state it keeps, fails on none of them.\<close>

lemma publish_loop_takes:
  assumes "\<forall>u\<in>set frames. \<forall>p. I p \<longrightarrow> (\<exists>p'. pub u p = Some p' \<and> I p')"
  shows "I p \<Longrightarrow> \<exists>c' p'. publish_loop pub frames n (c, p) = Some (c', p') \<and> I p' \<and> c \<le> c' \<and> (0 < n \<and> c < length frames \<longrightarrow> c < c')"
proof (induction n arbitrary: c p)
  case (Suc n)
  show ?case
  proof (cases "c < length frames")
    case True
    obtain p1 where p1: "pub (frames ! c) p = Some p1" "I p1" using assms nth_mem [OF True] Suc.prems by blast
    from Suc.IH [OF p1(2), of "c + 1"] show ?thesis using True p1 by auto
  qed (use Suc.prems in simp)
qed simp

lemma publish_processing_takes:
  assumes "\<forall>u\<in>set frames. \<forall>p. I p \<longrightarrow> (\<exists>p'. pub u p = Some p' \<and> I p')" and "I (snd v)"
  shows "\<exists>v'. publish_processing pub frames v = Some v' \<and> I (snd v') \<and> (0 < length frames - fst v \<longrightarrow> length frames - fst v' < length frames - fst v)"
proof -
  obtain c p where v: "v = (c, p)" by fastforce
  have "I p" using assms(2) by (simp add: v)
  then obtain c' p' where "publish_loop pub frames 1000 (c, p) = Some (c', p')" "I p'" "0 < (1000 :: nat) \<and> c < length frames \<longrightarrow> c < c'"
    using publish_loop_takes [where I = I and pub = pub and frames = frames and n = 1000 and c = c and p = p, OF assms(1)] by blast
  then show ?thesis by (intro exI [of _ "(c', p')"]) (auto simp: v publish_processing_def)
qed

text \<open>
  The Coinbase publisher: the other events of its loop are the openings, messages, pongs and closings of its sockets and
  the heartbeat timer, as a history allows them.
\<close>

definition cb_happens :: "cp_channels \<Rightarrow> nat \<times> CoinbasePublisher \<Rightarrow> nat \<times> CoinbasePublisher \<Rightarrow> bool" where
  "cb_happens C v v' \<longleftrightarrow> fst v' = fst v \<and> (\<exists>e. (\<forall>u. e \<noteq> CpPublished u) \<and> cp_allowed C e (snd v) \<and> cp_step C e (snd v) = Some (snd v'))"

definition cb_good :: "cp_channels \<Rightarrow> MarketDataUpdate list \<Rightarrow> nat \<times> CoinbasePublisher \<Rightarrow> bool" where
  "cb_good C frames v \<longleftrightarrow> channels_ok C \<and> list_all (cp_frame_ok C) frames \<and> cp_inv C (snd v)"

interpretation cb_publisher: polling "publish_processing (cp_publish_market_data_update C) frames" "cb_happens C" "\<lambda>v. length frames - fst v"
  "cb_good C frames" for C frames
proof
  fix v :: "nat \<times> CoinbasePublisher"
  assume g: "cb_good C frames v"
  have "\<exists>p'. cp_publish_market_data_update C u p = Some p' \<and> cp_inv C p'" if "u \<in> set frames" "cp_inv C p" for u p
    using cp_inv_update [OF _ that(2)] g that(1) by (auto simp: cb_good_def list_all_iff)
  then have "\<forall>u\<in>set frames. \<forall>p. cp_inv C p \<longrightarrow> (\<exists>p'. cp_publish_market_data_update C u p = Some p' \<and> cp_inv C p')" by blast
  from publish_processing_takes [OF this, of v] g obtain v' where
    "publish_processing (cp_publish_market_data_update C) frames v = Some v'" "cp_inv C (snd v')"
    "0 < length frames - fst v \<longrightarrow> length frames - fst v' < length frames - fst v" unfolding cb_good_def by auto
  then show "\<exists>v'. publish_processing (cp_publish_market_data_update C) frames v = Some v' \<and> cb_good C frames v' \<and>
      (0 < length frames - fst v \<longrightarrow> length frames - fst v' < length frames - fst v)"
    using g by (intro exI [of _ v'] conjI) (simp_all add: cb_good_def)
next
  fix v v' :: "nat \<times> CoinbasePublisher"
  assume "cb_good C frames v" and "cb_happens C v v'"
  then show "cb_good C frames v'" using cp_step_inv [of C "snd v"] by (fastforce simp: cb_good_def cb_happens_def)
qed

text \<open>
  The Hyperliquid publisher, which stamps its frames with the clock, \<open>clock k\<close> being the reading for its frame number \<open>k\<close>. Its
  frames hold no first snapshot of the incremental channel, which would replace the baseline of the others.
\<close>

definition hl_publish :: "(nat \<Rightarrow> nat) \<Rightarrow> MarketDataUpdate \<Rightarrow> nat \<times> HyperliquidPublisher \<Rightarrow> (nat \<times> HyperliquidPublisher) option" where
  "hl_publish clock u v = map_option (Pair (fst v + 1)) (publish_market_data_update (clock (fst v)) u (snd v))"

definition hl_frame_ok :: "(string \<Rightarrow> int) \<Rightarrow> MarketDataUpdate \<Rightarrow> bool" where
  "hl_frame_ok read u \<longleftrightarrow> frame_ok read u \<and> (case md_body u of SubSnapshotBody n _ \<Rightarrow> n \<noteq> channel_number L2 | _ \<Rightarrow> True)"

definition hl_happens :: "(string \<Rightarrow> int) \<Rightarrow> nat \<times> nat \<times> HyperliquidPublisher \<Rightarrow> nat \<times> nat \<times> HyperliquidPublisher \<Rightarrow> bool" where
  "hl_happens read v v' \<longleftrightarrow> fst v' = fst v \<and> fst (snd v') = fst (snd v) \<and>
     (\<exists>e. (\<forall>t u. e \<noteq> Published t u) \<and> hp_allowed read e (snd (snd v)) \<and> hp_step e (snd (snd v)) = Some (snd (snd v')))"

definition hl_good :: "(string \<Rightarrow> int) \<Rightarrow> MarketDataUpdate list \<Rightarrow> nat \<times> nat \<times> HyperliquidPublisher \<Rightarrow> bool" where
  "hl_good read frames v \<longleftrightarrow> list_all (hl_frame_ok read) frames \<and> hp_inv read (snd (snd v))"

interpretation hl_publisher: polling "publish_processing (hl_publish clock) frames" "hl_happens read" "\<lambda>v. length frames - fst v"
  "hl_good read frames" for clock frames read
proof
  fix v :: "nat \<times> nat \<times> HyperliquidPublisher"
  assume g: "hl_good read frames v"
  have "\<exists>p'. hl_publish clock u p = Some p' \<and> hp_inv read (snd p')" if u: "u \<in> set frames" and p: "hp_inv read (snd p)" for u p
  proof -
    have "frame_ok read u" "baseline_kept u (snd p)" using g u by (auto simp: hl_good_def list_all_iff hl_frame_ok_def baseline_kept_def split: md_body.splits)
    from inv_update [OF p this, of "clock (fst p)"] show ?thesis by (auto simp: hl_publish_def)
  qed
  then have "\<forall>u\<in>set frames. \<forall>p. hp_inv read (snd p) \<longrightarrow> (\<exists>p'. hl_publish clock u p = Some p' \<and> hp_inv read (snd p'))" by blast
  from publish_processing_takes [where I = "\<lambda>p. hp_inv read (snd p)", OF this, of v] g obtain v' where
    "publish_processing (hl_publish clock) frames v = Some v'" "hp_inv read (snd (snd v'))"
    "0 < length frames - fst v \<longrightarrow> length frames - fst v' < length frames - fst v" unfolding hl_good_def by auto
  then show "\<exists>v'. publish_processing (hl_publish clock) frames v = Some v' \<and> hl_good read frames v' \<and>
      (0 < length frames - fst v \<longrightarrow> length frames - fst v' < length frames - fst v)"
    using g by (intro exI [of _ v'] conjI) (simp_all add: hl_good_def)
next
  fix v v' :: "nat \<times> nat \<times> HyperliquidPublisher"
  assume "hl_good read frames v" and "hl_happens read v v'"
  then show "hl_good read frames v'" using hp_step_inv [of read "snd (snd v)"] by (fastforce simp: hl_good_def hl_happens_def)
qed

text \<open>The order gateway.\<close>

definition ws_happens :: "(string \<Rightarrow> jwt_error + string) \<Rightarrow> WsGateway \<Rightarrow> WsGateway \<Rightarrow> bool" where
  "ws_happens decode g g' \<longleftrightarrow> (\<exists>e. (\<forall>q. e \<noteq> Poll q) \<and> event_ok decode g e \<and> ws_step decode e g = Some g')"

interpretation gateway: polling "process_all_responses rs" "ws_happens decode" "\<lambda>g. length rs - wg_response_read_index g" ws_inv for rs decode
proof
  fix g assume "ws_inv g"
  from responses_loop_inv [OF this, of 100 rs]
  show "\<exists>g'. process_all_responses rs g = Some g' \<and> ws_inv g' \<and>
      (0 < length rs - wg_response_read_index g \<longrightarrow> length rs - wg_response_read_index g' < length rs - wg_response_read_index g)"
    by (auto simp: process_all_responses_def Let_def)
next
  fix g g' assume "ws_inv g" and "ws_happens decode g g'"
  then show "ws_inv g'" using ws_step_inv [of g decode] by (fastforce simp: ws_happens_def)
qed



section \<open>Stopping\<close>

text \<open>Nothing of the server keeps its loop running, so that the thread can be joined.\<close>

definition loop_empty :: "'s server \<Rightarrow> bool" where
  "loop_empty s \<longleftrightarrow> \<not> sv_listening s \<and> \<not> sv_timer s \<and> sv_deferred s = []"

text \<open>A stop once the server listens and its timer runs lets the loop come to an end.\<close>

theorem stop_ends_loop:
  assumes "cb_good C frames (sv_state s)" and "sv_listening s" and "sv_loop s" and "CreateTimer \<notin> set (sv_deferred s)"
  shows "\<exists>n s'. turns (publish_processing (cp_publish_market_data_update C) frames) n (pub_stop s) = Some s' \<and> loop_empty s'"
proof -
  have d: "\<not> sv_running (pub_stop s)" "\<not> sv_timer (pub_stop s)" "sv_deferred (pub_stop s) = sv_deferred s @ [CloseListen]" "cb_good C frames (sv_state (pub_stop s))"
    using assms(1-3) by (simp_all add: pub_stop_def defer_task_def Let_def)
  from cb_publisher.drains [OF d(1,4)] obtain s' where
    t: "turns (publish_processing (cp_publish_market_data_update C) frames) (length (sv_deferred (pub_stop s))) (pub_stop s) = Some s'"
    and e: "sv_deferred s' = []" "sv_timer s' \<longleftrightarrow> sv_timer (pub_stop s) \<or> CreateTimer \<in> set (sv_deferred (pub_stop s))"
      "sv_listening s' \<longleftrightarrow> sv_listening (pub_stop s) \<and> CloseListen \<notin> set (sv_deferred (pub_stop s))" by blast
  have "loop_empty s'" using e d assms(4) by (simp add: loop_empty_def)
  then show ?thesis using t by blast
qed

text \<open>A stop that comes before the listen callback, or between it and the creation of the timer, does not.\<close>

theorem early_stop_leaves_socket:
  "\<exists>s'. turns work 1 (pub_listen True (pub_stop (pub_start (new_server v)))) = Some s' \<and>
    sv_deferred s' = [] \<and> sv_listening s' \<and> \<not> loop_empty s'"
  by (simp add: loop_defs new_server_def Let_def loop_empty_def)

theorem early_stop_leaves_timer:
  assumes "channels_ok C" and "list_all (cp_frame_ok C) frames"
  shows "\<exists>n s'. turns (publish_processing (cp_publish_market_data_update C) frames) n (pub_stop (pub_listen True (pub_start (new_server (c, new_cb_publisher))))) = Some s' \<and>
    sv_deferred s' = [] \<and> sv_timer s' \<and> \<not> loop_empty s'"
proof -
  let ?s = "pub_stop (pub_listen True (pub_start (new_server (c, new_cb_publisher))))"
  have d: "\<not> sv_running ?s" "sv_deferred ?s = [CreateTimer, Work, CloseListen]" "cb_good C frames (sv_state ?s)"
    using assms cp_inv_new by (simp_all add: loop_defs new_server_def Let_def cb_good_def)
  from cb_publisher.drains [OF d(1,3)] obtain s' where
    t: "turns (publish_processing (cp_publish_market_data_update C) frames) (length (sv_deferred ?s)) ?s = Some s'"
    and e: "sv_deferred s' = []" "sv_timer s' \<longleftrightarrow> sv_timer ?s \<or> CreateTimer \<in> set (sv_deferred ?s)"
      "sv_listening s' \<longleftrightarrow> sv_listening ?s \<and> CloseListen \<notin> set (sv_deferred ?s)" by blast
  have "sv_timer s'" using e(2) d(2) by simp
  then show ?thesis using t e(1) unfolding loop_empty_def by blast
qed

end
