(* ===== verification/Exchange_Lifecycle.thy ===== *)
theory Exchange_Lifecycle
  imports Venue_Startup
begin

text \<open>
  Starting and stopping: \<open>Exchange::start\<close> and \<open>stop\<close> of \<open>src/src/exchange/exchange.cpp\<close>, what the venues'
  constructors make of their configuration (\<open>coinbase_exchange.cpp\<close>, \<open>hyperliquid_exchange.cpp\<close>), the product list
  of \<open>coinbase_rest_order_gateway.cpp\<close>, and \<open>main\<close> around them. The parts of an exchange, the HTTP library, and the
  printing and parsing of JSON are parameters; what is modelled is which part is started and stopped, when and
  how often.
\<close>

section \<open>Start and stop of an exchange\<close>

datatype part = OrderGatewayPart nat | MdPublisherPart | MdFeedPart | MdFeedsPart nat

datatype life_event = Started part | ThreadStarted | ThreadJoined | Stopped part

record lifecycle =
  lc_enabled :: bool
  lc_run :: bool
  lc_matching_keys_unread :: bool
  lc_joinable :: bool
  lc_order_gateways :: nat
  lc_md_publisher :: bool
  lc_md_feed :: bool
  lc_md_feeds :: nat
  lc_events :: "life_event list"

text \<open>\<open>run_\<close> is initialised to true.\<close>

definition new_lifecycle :: "bool \<Rightarrow> bool \<Rightarrow> nat \<Rightarrow> bool \<Rightarrow> bool \<Rightarrow> nat \<Rightarrow> lifecycle" where
  "new_lifecycle enabled unread gateways publisher feed feeds = \<lparr>lc_enabled = enabled, lc_run = True, lc_matching_keys_unread = unread, lc_joinable = False,
     lc_order_gateways = gateways, lc_md_publisher = publisher, lc_md_feed = feed, lc_md_feeds = feeds, lc_events = []\<rparr>"

definition gateway_parts :: "lifecycle \<Rightarrow> part list" where
  "gateway_parts l = map OrderGatewayPart [0..<lc_order_gateways l]"

definition publisher_parts :: "lifecycle \<Rightarrow> part list" where
  "publisher_parts l = (if lc_md_publisher l then [MdPublisherPart] else [])"

definition feed_parts :: "lifecycle \<Rightarrow> part list" where
  "feed_parts l = (if lc_md_feed l then [MdFeedPart] else [])"

definition feeds_parts :: "lifecycle \<Rightarrow> part list" where
  "feeds_parts l = map MdFeedsPart [0..<lc_md_feeds l]"

definition exchange_start :: "lifecycle \<Rightarrow> lifecycle" where
  "exchange_start l =
     (if \<not> lc_enabled l then l
      else l\<lparr>lc_matching_keys_unread := False, lc_run := True, lc_joinable := True,
             lc_events := lc_events l @ map Started (gateway_parts l @ publisher_parts l @ feed_parts l @ feeds_parts l) @ [ThreadStarted]\<rparr>)"

definition exchange_stop :: "lifecycle \<Rightarrow> lifecycle" where
  "exchange_stop l =
     (if \<not> lc_run l then l
      else l\<lparr>lc_run := False, lc_joinable := False,
             lc_events := lc_events l @ (if lc_joinable l then [ThreadJoined] else []) @
               map Stopped (feeds_parts l @ feed_parts l @ gateway_parts l @ publisher_parts l)\<rparr>)"

section \<open>The venues' parts\<close>

definition jtext_or :: "string \<Rightarrow> string \<Rightarrow> 'n jobject \<Rightarrow> string option" where
  "jtext_or k d m = (case map_of m k of None \<Rightarrow> Some d | Some (JText s) \<Rightarrow> Some s | _ \<Rightarrow> None)"

text \<open>The entries of \<open>md_feeds\<close> of an object or array; \<open>None\<close> is the exception of a scalar, on which no member is read.\<close>

definition feed_configs :: "'n jobject \<Rightarrow> 'n jvalue list option" where
  "feed_configs config = (case map_of config ''md_feeds'' of
      None \<Rightarrow> Some []
    | Some JNull \<Rightarrow> Some []
    | Some (JArray vs) \<Rightarrow> Some vs
    | Some (JObject m) \<Rightarrow> Some (map snd m)
    | _ \<Rightarrow> None)"

fun coinbase_feeds :: "'n jvalue list \<Rightarrow> bool \<Rightarrow> bool option" where
  "coinbase_feeds [] use_live_feed = Some use_live_feed"
| "coinbase_feeds (v # vs) use_live_feed = (case v of
      JObject m \<Rightarrow> (case (jtext_or ''type'' [] m, jbool ''enabled'' m) of
          (Some ty, Some e) \<Rightarrow> coinbase_feeds vs (use_live_feed \<or> e \<and> ty = ''coinbase_live_ws'')
        | _ \<Rightarrow> None)
    | _ \<Rightarrow> None)"

datatype venue_error = MissingRest | VenueTypeError

text \<open>The gateways of the Coinbase exchange, and whether it subscribes to the live venue.\<close>

definition coinbase_parts :: "'n jobject \<Rightarrow> venue_error + (string list \<times> bool)" where
  "coinbase_parts config = (case map_of config ''order_gateway'' of
      Some og \<Rightarrow>
        if \<not> jcontains ''rest'' og then Inl MissingRest
        else (case Option.bind (feed_configs config) (\<lambda>vs. coinbase_feeds vs False) of
                None \<Rightarrow> Inl VenueTypeError
              | Some live \<Rightarrow> Inr (''REST'' # (if jcontains ''ws'' og then [''WS''] else []), live))
    | None \<Rightarrow> Inl MissingRest)"

fun text_list :: "'n jvalue list \<Rightarrow> string list option" where
  "text_list [] = Some []"
| "text_list (JText s # vs) = map_option ((#) s) (text_list vs)"
| "text_list (_ # vs) = None"

definition coins_of :: "'n jobject \<Rightarrow> string list option" where
  "coins_of m = (case map_of m ''coins'' of None \<Rightarrow> Some [] | Some (JArray vs) \<Rightarrow> text_list vs | _ \<Rightarrow> None)"

record hl_parts =
  hlp_use_live_feed :: bool
  hlp_base_url :: string
  hlp_feeds :: "(string \<times> string list) list"
  hlp_coin_feed :: "(string \<times> nat) list"

text \<open>\<open>emplace\<close> keeps an entry that is there.\<close>

definition emplace :: "string \<Rightarrow> nat \<Rightarrow> (string \<times> nat) list \<Rightarrow> (string \<times> nat) list" where
  "emplace coin feed m = (if map_of m coin = None then m @ [(coin, feed)] else m)"

definition add_feed :: "string \<Rightarrow> string list \<Rightarrow> hl_parts \<Rightarrow> hl_parts" where
  "add_feed url coins p = p\<lparr>hlp_use_live_feed := True, hlp_base_url := url, hlp_feeds := hlp_feeds p @ [(url, coins)],
     hlp_coin_feed := fold (\<lambda>c. emplace c (length (hlp_feeds p))) coins (hlp_coin_feed p)\<rparr>"

fun hyperliquid_feeds :: "'n jvalue list \<Rightarrow> hl_parts \<Rightarrow> hl_parts option" where
  "hyperliquid_feeds [] p = Some p"
| "hyperliquid_feeds (v # vs) p = (case v of
      JObject m \<Rightarrow>
        (case (jtext_or ''type'' [] m, jbool ''enabled'' m) of
           (Some ty, Some e) \<Rightarrow>
             if e \<and> ty = ''hyperliquid_live_ws'' then
               (case (jtext_or ''base_url'' (hlp_base_url p) m, coins_of m) of
                  (Some url, Some coins) \<Rightarrow> hyperliquid_feeds vs (add_feed url coins p)
                | _ \<Rightarrow> None)
             else hyperliquid_feeds vs p
         | _ \<Rightarrow> None)
    | _ \<Rightarrow> None)"

definition hyperliquid_parts :: "'n jobject \<Rightarrow> hl_parts option" where
  "hyperliquid_parts config = Option.bind (feed_configs config)
     (\<lambda>vs. hyperliquid_feeds vs \<lparr>hlp_use_live_feed = False, hlp_base_url = ''https://api.hyperliquid.xyz'', hlp_feeds = [], hlp_coin_feed = []\<rparr>)"

section \<open>Products\<close>

text \<open>
  The product list comes from the configuration or from the venue; each product is kept as its own text. An exception
  leaves the gateway unbuilt.
\<close>

definition products_text :: "(string \<Rightarrow> string option) \<Rightarrow> 'n jobject \<Rightarrow> string option" where
  "products_text http_get config = (case map_of config ''initial_products'' of
      Some (JText s) \<Rightarrow> Some s
    | Some _ \<Rightarrow> None
    | None \<Rightarrow> map_option (\<lambda>base_url. case http_get (base_url @ ''/api/v3/brokerage/market/products'') of Some t \<Rightarrow> t | None \<Rightarrow> [])
        (jtext_or ''base_url'' ''https://api.coinbase.com'' config))"

fun load_products :: "('n jvalue \<Rightarrow> string) \<Rightarrow> 'n jvalue list \<Rightarrow> (string \<rightharpoonup> string) \<Rightarrow> (string \<rightharpoonup> string) option" where
  "load_products dump [] product_by_id = Some product_by_id"
| "load_products dump (v # vs) product_by_id = (case v of
      JObject m \<Rightarrow> (case jtext ''product_id'' m of Some pid \<Rightarrow> load_products dump vs (product_by_id(pid \<mapsto> dump v)) | None \<Rightarrow> None)
    | _ \<Rightarrow> None)"

definition product_list :: "'n jvalue \<Rightarrow> 'n jvalue list option" where
  "product_list v = (case v of
      JObject m \<Rightarrow> (case map_of m ''products'' of None \<Rightarrow> Some [] | Some JNull \<Rightarrow> Some [] | Some (JArray vs) \<Rightarrow> Some vs | Some (JObject q) \<Rightarrow> Some (map snd q) | Some w \<Rightarrow> Some [w])
    | JNull \<Rightarrow> Some []
    | _ \<Rightarrow> None)"

definition rest_products :: "(string \<Rightarrow> 'n jvalue option) \<Rightarrow> ('n jvalue \<Rightarrow> string) \<Rightarrow> string \<Rightarrow> (string \<rightharpoonup> string) option" where
  "rest_products json_parse dump products =
     (if products = [] then Some Map.empty
      else Option.bind (json_parse products) (\<lambda>v. Option.bind (product_list v) (\<lambda>vs. load_products dump vs Map.empty)))"

datatype product_reply = ProductFound string | ProductUnknown

definition handle_get_product :: "(string \<rightharpoonup> string) \<Rightarrow> string \<Rightarrow> product_reply" where
  "handle_get_product product_by_id product_id = (case product_by_id product_id of Some t \<Rightarrow> ProductFound t | None \<Rightarrow> ProductUnknown)"

section \<open>The program\<close>

definition config_file :: "string list \<Rightarrow> string" where
  "config_file argv = (if length argv > 1 then argv ! 1 else ''slick-sim.json'')"

datatype 'x main_result = MissingFile | ParseFailed | MissingExchanges | Came "'x startup"

text \<open>The entries the loop walks; \<open>None\<close> is the exception of a value without keys.\<close>

definition exchange_entries :: "'n jvalue \<Rightarrow> (string \<times> 'n jvalue) list option" where
  "exchange_entries v = (case v of JObject m \<Rightarrow> Some m | JNull \<Rightarrow> Some [] | JArray [] \<Rightarrow> Some [] | _ \<Rightarrow> None)"

definition main_start :: "(string \<Rightarrow> string option) \<Rightarrow> (string \<Rightarrow> 'n jvalue option) \<Rightarrow> ('n jvalue \<Rightarrow> string + 'x list) registry_entry list \<Rightarrow> string list \<Rightarrow> 'x main_result" where
  "main_start read_file json_parse registry argv = (case read_file (config_file argv) of
      None \<Rightarrow> MissingFile
    | Some txt \<Rightarrow> (case json_parse txt of
        None \<Rightarrow> ParseFailed
      | Some (JObject config) \<Rightarrow>
          (case map_of config ''exchanges'' of
             None \<Rightarrow> MissingExchanges
           | Some v \<Rightarrow> Came (case (jtext_or ''log_level'' ''info'' config, exchange_entries v) of
               (Some _, Some entries) \<Rightarrow> start_exchanges registry entries []
             | _ \<Rightarrow> Uncaught []))
      | Some _ \<Rightarrow> MissingExchanges))"

section \<open>Facts\<close>

lemma stop_once: "0 < n \<Longrightarrow> (exchange_stop ^^ n) l = exchange_stop l"
proof (induction n)
  case (Suc n)
  have "exchange_stop (exchange_stop l) = exchange_stop l" by (simp add: exchange_stop_def)
  then show ?case using Suc.IH by (cases n) simp_all
qed simp

definition all_parts :: "lifecycle \<Rightarrow> part list" where
  "all_parts l = gateway_parts l @ publisher_parts l @ feed_parts l @ feeds_parts l"

definition part_counts :: "part \<Rightarrow> life_event list \<Rightarrow> nat \<times> nat" where
  "part_counts p es = (count_list es (Started p), count_list es (Stopped p))"

text \<open>
  Every part an enabled exchange has is started once and, however often it is stopped afterwards (by \<open>main\<close> and again by
  the destructor), stopped once; parts start before the exchange's thread and stop after it has been joined.
\<close>

theorem lifecycle_balanced:
  assumes "l = new_lifecycle True unread gateways publisher feed feeds" and "0 < n"
  shows "\<exists>down. lc_events ((exchange_stop ^^ n) (exchange_start l)) = map Started (all_parts l) @ [ThreadStarted, ThreadJoined] @ map Stopped down \<and>
    set down = set (all_parts l) \<and> distinct (all_parts l) \<and> distinct down"
proof -
  let ?down = "feeds_parts l @ feed_parts l @ gateway_parts l @ publisher_parts l"
  have parts: "gateway_parts (exchange_start l) = gateway_parts l" "publisher_parts (exchange_start l) = publisher_parts l"
    "feed_parts (exchange_start l) = feed_parts l" "feeds_parts (exchange_start l) = feeds_parts l" "lc_run (exchange_start l)" "lc_joinable (exchange_start l)"
    "lc_events (exchange_start l) = map Started (all_parts l) @ [ThreadStarted]"
    by (simp_all add: exchange_start_def assms(1) new_lifecycle_def gateway_parts_def publisher_parts_def feed_parts_def feeds_parts_def all_parts_def)
  have "lc_events ((exchange_stop ^^ n) (exchange_start l)) = map Started (all_parts l) @ [ThreadStarted, ThreadJoined] @ map Stopped ?down"
    unfolding stop_once [OF assms(2)] by (simp add: exchange_stop_def parts)
  moreover have "distinct (all_parts l)" "distinct ?down" "set ?down = set (all_parts l)"
    by (auto simp: all_parts_def gateway_parts_def publisher_parts_def feed_parts_def feeds_parts_def distinct_map inj_on_def)
  ultimately show ?thesis by blast
qed

text \<open>A disabled exchange starts nothing, but because \<open>run_\<close> starts out true its destructor stops parts that never ran.\<close>

theorem disabled_exchange_stopped:
  "let l = new_lifecycle False unread gateways True feed feeds in
     lc_events (exchange_start l) = [] \<and> Stopped MdPublisherPart \<in> set (lc_events (exchange_stop (exchange_start l)))"
  by (simp add: new_lifecycle_def exchange_start_def exchange_stop_def publisher_parts_def)

text \<open>The reply for a product is the text of the last entry of the list with that id, and none of any other.\<close>

lemma load_products_lookup:
  "load_products dump vs m = Some m' \<Longrightarrow>
   m' pid = (case filter (\<lambda>v. \<exists>o'. v = JObject o' \<and> jtext ''product_id'' o' = Some pid) vs of [] \<Rightarrow> m pid | ws \<Rightarrow> Some (dump (last ws)))"
proof (induction vs arbitrary: m)
  case (Cons v vs)
  then obtain o' p where v: "v = JObject o'" "jtext ''product_id'' o' = Some p" and r: "load_products dump vs (m(p \<mapsto> dump v)) = Some m'"
    by (auto split: jvalue.splits option.splits)
  from Cons.IH [OF r] show ?case using v by (auto split: list.splits)
qed simp

text \<open>A coin of the Hyperliquid configuration belongs to the first feed that names it.\<close>

lemma emplace_lookup: "map_of (emplace c i m) k = (if k = c \<and> map_of m c = None then Some i else map_of m k)"
  by (auto simp: emplace_def map_add_def split: option.splits)

lemma emplace_fold: "map_of (fold (\<lambda>c. emplace c i) cs m) k = (case map_of m k of Some j \<Rightarrow> Some j | None \<Rightarrow> if k \<in> set cs then Some i else None)"
  by (induction cs arbitrary: m) (auto simp: emplace_lookup split: option.splits)

end
