(* ===== verification/Fix_Parser.thy ===== *)
theory Fix_Parser
  imports Message_Parser Timestamp
begin

text \<open>
  \<open>src/src/order_gateway/fix_parser.cpp\<close>: the FIX side of the generic message layer. QuickFIX, which reads the
  text of a message, dispatches it and hands out its fields, is a parameter. The casts of the code are not
  checked, so an order read here holds the underlying values of its enumerations as they came; an
  exception is a missing value, and error texts are kept up to the part the library words.
\<close>

section \<open>QuickFIX\<close>

text \<open>Where \<open>crack\<close> ends: in the handler of \<open>NewOrderSingle\<close>, nowhere, or in an exception.\<close>

datatype cracked = ToNewOrderSingle | NotDispatched | UnsupportedMessageType

text \<open>
  The price is the field as \<open>to_price_t\<close> leaves it, the quantity the field as the cast to an integer leaves it.
\<close>

record 'm quickfix =
  qf_message :: "string \<Rightarrow> 'm option"
  qf_crack :: "'m \<Rightarrow> cracked"
  qf_cl_ord_id :: "'m \<Rightarrow> string option"
  qf_symbol :: "'m \<Rightarrow> string option"
  qf_side :: "'m \<Rightarrow> char option"
  qf_ord_type :: "'m \<Rightarrow> char option"
  qf_order_qty :: "'m \<Rightarrow> qty_t option"
  qf_price :: "'m \<Rightarrow> price_t option"
  qf_tif_set :: "'m \<Rightarrow> bool"
  qf_time_in_force :: "'m \<Rightarrow> char option"

section \<open>Orders\<close>

record FixOrder =
  fo_client_id :: int
  fo_client_order_id :: string
  fo_symbol :: string
  fo_side :: nat
  fo_type :: char
  fo_quantity :: qty_t
  fo_leaves_quantity :: qty_t
  fo_price :: price_t
  fo_time_in_force :: char

record FixResult =
  fr_order :: "FixOrder option"
  fr_error_message :: string
  fr_is_complete_message :: bool

definition fix_no_result :: FixResult where
  "fix_no_result = \<lparr>fr_order = None, fr_error_message = [], fr_is_complete_message = False\<rparr>"

definition parse_new_order_single :: "'m quickfix \<Rightarrow> 'm \<Rightarrow> int \<Rightarrow> FixOrder option" where
  "parse_new_order_single q message cid =
     (case (qf_cl_ord_id q message, qf_symbol q message, qf_side q message, qf_ord_type q message, qf_order_qty q message) of
        (Some cloid, Some name, Some sd, Some ty, Some qty) \<Rightarrow>
          (case (if ty = code_OrderType OT_LIMIT \<or> ty = code_OrderType OT_STOP_LIMIT then qf_price q message else Some 0,
                 if qf_tif_set q message then qf_time_in_force q message else Some (code_TimeInForce TIF_DAY)) of
             (Some px, Some tif) \<Rightarrow>
               Some \<lparr>fo_client_id = cid, fo_client_order_id = fs_view (fs_assign 37 cloid), fo_symbol = fs_view (fs_assign 32 name),
                 fo_side = of_char sd, fo_type = ty, fo_quantity = qty, fo_leaves_quantity = qty, fo_price = px, fo_time_in_force = tif\<rparr>
           | _ \<Rightarrow> None)
      | _ \<Rightarrow> None)"

definition onMessage :: "'m quickfix \<Rightarrow> 'm \<Rightarrow> int \<Rightarrow> FixResult" where
  "onMessage q message current_client_id = (case parse_new_order_single q message current_client_id of
      Some order \<Rightarrow> fix_no_result\<lparr>fr_order := Some order\<rparr>
    | None \<Rightarrow> fix_no_result\<lparr>fr_error_message := ''Error processing NewOrderSingle: ''\<rparr>)"

definition crack :: "'m quickfix \<Rightarrow> 'm \<Rightarrow> int \<Rightarrow> FixResult option" where
  "crack q message current_client_id = (case qf_crack q message of
      ToNewOrderSingle \<Rightarrow> Some (onMessage q message current_client_id)
    | NotDispatched \<Rightarrow> Some fix_no_result
    | UnsupportedMessageType \<Rightarrow> None)"

section \<open>The stream\<close>

definition SOH :: char where
  "SOH = CHR 0x01"

definition is_complete_fix_message :: "string \<Rightarrow> bool" where
  "is_complete_fix_message buffer \<longleftrightarrow> prefix ''8=FIX'' buffer \<and> List.last buffer = SOH"

text \<open>What stands up to the first delimiter, and what is left in the buffer.\<close>

definition cut_soh :: "string \<Rightarrow> (string \<times> string) option" where
  "cut_soh buffer = (if SOH \<in> set buffer
     then Some (takeWhile (\<lambda>c. c \<noteq> SOH) buffer @ [SOH], tl (dropWhile (\<lambda>c. c \<noteq> SOH) buffer)) else None)"

lemma cut_soh_eq: "cut_soh buffer = Some (t, rest) \<longleftrightarrow> (\<exists>v. SOH \<notin> set v \<and> t = v @ [SOH] \<and> buffer = v @ SOH # rest)"
proof
  assume "cut_soh buffer = Some (t, rest)"
  then have "SOH \<in> set buffer" and t: "t = takeWhile (\<lambda>c. c \<noteq> SOH) buffer @ [SOH]" "rest = tl (dropWhile (\<lambda>c. c \<noteq> SOH) buffer)"
    by (simp_all add: cut_soh_def split: if_splits)
  then obtain v w where "buffer = v @ SOH # w" "SOH \<notin> set v" by (meson split_list_first)
  moreover from this have "takeWhile (\<lambda>c. c \<noteq> SOH) buffer = v" "dropWhile (\<lambda>c. c \<noteq> SOH) buffer = SOH # w"
    by (simp_all add: takeWhile_append dropWhile_append takeWhile_tail)
  ultimately show "\<exists>v. SOH \<notin> set v \<and> t = v @ [SOH] \<and> buffer = v @ SOH # rest" using t by simp
next
  assume "\<exists>v. SOH \<notin> set v \<and> t = v @ [SOH] \<and> buffer = v @ SOH # rest"
  then show "cut_soh buffer = Some (t, rest)" by (auto simp: cut_soh_def takeWhile_append dropWhile_append takeWhile_tail)
qed

definition fix_failed :: "FixResult \<Rightarrow> FixResult" where
  "fix_failed result = result\<lparr>fr_error_message := ''FIX parsing error: ''\<rparr>"

function fix_loop :: "'m quickfix \<Rightarrow> int \<Rightarrow> FixResult \<Rightarrow> string \<Rightarrow> FixResult \<times> string" where
  "fix_loop q cid result message_buffer = (case cut_soh message_buffer of
      None \<Rightarrow> (result\<lparr>fr_is_complete_message := False\<rparr>, message_buffer)
    | Some (fix_message, rest) \<Rightarrow>
        if is_complete_fix_message fix_message then
          (case Option.bind (qf_message q fix_message) (\<lambda>m. crack q m cid) of
             None \<Rightarrow> (fix_failed result, rest)
           | Some last_result \<Rightarrow>
               (let result' = last_result\<lparr>fr_is_complete_message := True\<rparr>
                in if fr_order result' \<noteq> None then (result', rest) else fix_loop q cid result' rest))
        else fix_loop q cid result rest)"
  by pat_completeness auto
termination by (relation "measure (\<lambda>(q, cid, result, buffer). length buffer)") (auto simp: cut_soh_eq)

declare fix_loop.simps [simp del]

record FixParser =
  fp_message_buffer :: string
  fp_exec_id_counter :: "64 word"
  fp_current_client_id :: int

definition new_fix_parser :: FixParser where
  "new_fix_parser = \<lparr>fp_message_buffer = [], fp_exec_id_counter = 1, fp_current_client_id = - 1\<rparr>"

definition fix_parse_message :: "'m quickfix \<Rightarrow> string \<Rightarrow> int \<Rightarrow> FixParser \<Rightarrow> FixResult \<times> FixParser" where
  "fix_parse_message q data cid p = (case fix_loop q cid fix_no_result (fp_message_buffer p @ data) of
      (r, b) \<Rightarrow> (r, p\<lparr>fp_message_buffer := b, fp_current_client_id := cid\<rparr>))"

definition fix_reset :: "FixParser \<Rightarrow> FixParser" where
  "fix_reset p = p\<lparr>fp_message_buffer := [], fp_current_client_id := - 1\<rparr>"

definition generate_exec_id :: "FixParser \<Rightarrow> string \<times> FixParser" where
  "generate_exec_id p = (''FIX_EXEC'' @ zero_pad 8 (to_string_nat (unat (fp_exec_id_counter p))), p\<lparr>fp_exec_id_counter := fp_exec_id_counter p + 1\<rparr>)"

section \<open>Reports\<close>

text \<open>Fields by their tags; a fixed-point number stands for the double it is converted to.\<close>

datatype fix_value = FixText string | FixChar char | FixAmount int

definition create_execution_report :: "OrderResponse \<Rightarrow> (nat \<times> fix_value) list" where
  "create_execution_report response =
     [(37, FixText (r_client_order_id response)), (17, FixText (r_order_id response)),
      (150, FixChar (code_OrderStatus (r_order_status response))), (39, FixChar (code_OrderStatus (r_order_status response))),
      (54, FixChar (CHR ''1'')), (151, FixAmount (r_leaves_qty response)), (14, FixAmount (r_cum_qty response)), (6, FixAmount (r_price response))]"

text \<open>\<open>to_text\<close> is the library's rendering, which may throw.\<close>

definition fix_serialize_response :: "((nat \<times> fix_value) list \<Rightarrow> string option) \<Rightarrow> OrderResponse \<Rightarrow> string" where
  "fix_serialize_response to_text response = (case to_text (create_execution_report response) of Some s \<Rightarrow> s | None \<Rightarrow> [])"

text \<open>A connection: the results of its packets, in order.\<close>

fun feed_fix :: "'m quickfix \<Rightarrow> int \<Rightarrow> FixParser \<Rightarrow> string list \<Rightarrow> FixResult list \<times> FixParser" where
  "feed_fix q cid p [] = ([], p)"
| "feed_fix q cid p (d # ds) = (case fix_parse_message q d cid p of
      (r, p') \<Rightarrow> (case feed_fix q cid p' ds of (rs, p'') \<Rightarrow> (r # rs, p'')))"

section \<open>What the loop does\<close>

text \<open>A buffer of fields that are no start of a message is dropped up to the unfinished field at its end.\<close>

lemma fix_loop_unfinished: "SOH \<notin> set b \<Longrightarrow> fix_loop q cid r b = (r\<lparr>fr_is_complete_message := False\<rparr>, b)"
  by (simp add: fix_loop.simps [of q cid r b] cut_soh_def)

lemma fix_loop_skips:
  assumes "SOH \<notin> set v" and "\<not> prefix ''8=FIX'' v"
  shows "fix_loop q cid r (v @ SOH # rest) = fix_loop q cid r rest"
proof -
  have c: "cut_soh (v @ SOH # rest) = Some (v @ [SOH], rest)" using assms(1) cut_soh_eq by blast
  have "\<not> prefix ''8=FIX'' (v @ [SOH])" using assms(2) by (auto simp: prefix_snoc SOH_def)
  then have "\<not> is_complete_fix_message (v @ [SOH])" unfolding is_complete_fix_message_def by blast
  then show ?thesis by (simp add: fix_loop.simps [of q cid r "v @ SOH # rest"] c)
qed

lemma fix_loop_start:
  assumes "SOH \<notin> set v" and "qf_message q (''8=FIX'' @ v @ [SOH]) = None"
  shows "fix_loop q cid r (''8=FIX'' @ v @ SOH # rest) = (fix_failed r, rest)"
proof -
  have "SOH \<notin> set (''8=FIX'' @ v)" using assms(1) by (simp add: SOH_def)
  then have c: "cut_soh (''8=FIX'' @ v @ SOH # rest) = Some (''8=FIX'' @ v @ [SOH], rest)" unfolding cut_soh_eq by (intro exI [of _ "''8=FIX'' @ v"]) simp
  have "is_complete_fix_message (''8=FIX'' @ v @ [SOH])" by (simp add: is_complete_fix_message_def)
  then show ?thesis using assms(2) by (subst fix_loop.simps) (simp only: c option.case prod.case if_True, simp)
qed

text \<open>
  The law of QuickFIX the code runs into: a message has a begin string, a body length and a check sum, and a text
  of a single field is none.
\<close>

definition validates :: "'m quickfix \<Rightarrow> bool" where
  "validates q \<longleftrightarrow> (\<forall>v. SOH \<notin> set v \<longrightarrow> qf_message q (v @ [SOH]) = None)"

lemma fix_loop_no_order:
  assumes "validates q" and "fr_order r = None"
  shows "fr_order (fst (fix_loop q cid r b)) = None"
  using assms
proof (induction q cid r b rule: fix_loop.induct)
  case (1 q cid r b)
  show ?case
  proof (cases "cut_soh b")
    case None
    then show ?thesis using "1.prems"(2) by (simp add: fix_loop.simps [of q cid r b])
  next
    case (Some c)
    obtain t rest where c: "c = (t, rest)" by fastforce
    have b: "cut_soh b = Some (t, rest)" using Some c by simp
    then obtain v where "SOH \<notin> set v" "t = v @ [SOH]" unfolding cut_soh_eq by blast
    then have m: "qf_message q t = None" using "1.prems"(1) unfolding validates_def by simp
    show ?thesis
    proof (cases "is_complete_fix_message t")
      case True
      then show ?thesis using "1.prems"(2) by (simp add: fix_loop.simps [of q cid r b] b m fix_failed_def)
    next
      case False
      then show ?thesis using "1.IH"(2) [OF b refl False "1.prems"] by (simp add: fix_loop.simps [of q cid r b] b)
    qed
  qed
qed

lemma feed_fix_no_order: "validates q \<Longrightarrow> r \<in> set (fst (feed_fix q cid p ds)) \<Longrightarrow> fr_order r = None"
proof (induction ds arbitrary: p)
  case (Cons d ds)
  obtain r1 b where l: "fix_loop q cid fix_no_result (fp_message_buffer p @ d) = (r1, b)" by fastforce
  have "fr_order fix_no_result = None" by (simp add: fix_no_result_def)
  from fix_loop_no_order [OF Cons.prems(1) this, of cid "fp_message_buffer p @ d"] have "fr_order r1 = None" unfolding l by simp
  then show ?case using Cons.prems Cons.IH [of "p\<lparr>fp_message_buffer := b, fp_current_client_id := cid\<rparr>"]
    by (auto simp: fix_parse_message_def l split: prod.splits)
qed simp

text \<open>
  The FIX parser reads no order. It cuts its stream at every field delimiter and takes each single field
  for a message, so with a QuickFIX that refuses a text of one field no packets, however cut, give an
  order; a message whose bytes arrive in one packet is reported as an error at its first field and its
  other fields stay in the buffer, from which the next packet drops them without a word.
\<close>

theorem fix_orders_lost:
  assumes "validates q"
  shows "(\<forall>r\<in>set (fst (feed_fix q cid p ds)). fr_order r = None) \<and>
    (SOH \<notin> set v \<longrightarrow> fix_parse_message q (''8=FIX'' @ v @ SOH # rest) cid new_fix_parser =
       (fix_no_result\<lparr>fr_error_message := ''FIX parsing error: ''\<rparr>, new_fix_parser\<lparr>fp_message_buffer := rest, fp_current_client_id := cid\<rparr>))"
proof (intro conjI ballI impI)
  fix r assume "r \<in> set (fst (feed_fix q cid p ds))"
  then show "fr_order r = None" using assms feed_fix_no_order by blast
next
  assume v: "SOH \<notin> set v"
  then have "SOH \<notin> set (''8=FIX'' @ v)" by (simp add: SOH_def)
  then have "qf_message q ((''8=FIX'' @ v) @ [SOH]) = None" using assms unfolding validates_def by blast
  then have m: "qf_message q (''8=FIX'' @ v @ [SOH]) = None" by simp
  have "fp_message_buffer new_fix_parser = []" by (simp add: new_fix_parser_def)
  then show "fix_parse_message q (''8=FIX'' @ v @ SOH # rest) cid new_fix_parser =
      (fix_no_result\<lparr>fr_error_message := ''FIX parsing error: ''\<rparr>, new_fix_parser\<lparr>fp_message_buffer := rest, fp_current_client_id := cid\<rparr>)"
    unfolding fix_parse_message_def using fix_loop_start [OF v m, of cid fix_no_result rest] by (simp add: fix_failed_def)
qed

text \<open>A library that takes any text of at least three fields for an order to buy.\<close>

definition ex_quickfix :: "string quickfix" where
  "ex_quickfix = \<lparr>qf_message = (\<lambda>t. if length (filter (\<lambda>c. c = SOH) t) < 3 then None else Some t), qf_crack = (\<lambda>_. ToNewOrderSingle),
     qf_cl_ord_id = (\<lambda>_. Some ''c1''), qf_symbol = (\<lambda>_. Some ''BTC''), qf_side = (\<lambda>_. Some (CHR ''1'')), qf_ord_type = (\<lambda>_. Some (CHR ''2'')),
     qf_order_qty = (\<lambda>_. Some 5), qf_price = (\<lambda>_. Some 100), qf_tif_set = (\<lambda>_. False), qf_time_in_force = (\<lambda>_. None)\<rparr>"

theorem fix_orders_lost_witness:
  "(\<forall>r\<in>set (fst (feed_fix ex_quickfix 4 new_fix_parser [''8=FIX.4.4'', [SOH] @ ''9=5'' @ [SOH]])). fr_order r = None) \<and>
   fix_parse_message ex_quickfix (''8=FIX'' @ ''.4.4'' @ SOH # ''9=5'' @ [SOH]) 4 new_fix_parser =
     (fix_no_result\<lparr>fr_error_message := ''FIX parsing error: ''\<rparr>, new_fix_parser\<lparr>fp_message_buffer := ''9=5'' @ [SOH], fp_current_client_id := 4\<rparr>)"
proof -
  have "length (filter (\<lambda>c. c = SOH) (v @ [SOH])) < 3" if "SOH \<notin> set v" for v
  proof -
    have "filter (\<lambda>c. c = SOH) v = []" using that by (auto simp: filter_empty_conv)
    then show ?thesis by simp
  qed
  then have q: "validates ex_quickfix" by (simp add: validates_def ex_quickfix_def)
  have v: "SOH \<notin> set ''.4.4''" by (simp add: SOH_def)
  show ?thesis using fix_orders_lost [OF q, of 4 new_fix_parser "[''8=FIX.4.4'', [SOH] @ ''9=5'' @ [SOH]]" "''.4.4''" "''9=5'' @ [SOH]"] v by simp
qed

section \<open>Fields that do not survive\<close>

text \<open>The side of an order is the character of the field, 49 or 50, where the enumeration has 0, 1 and 2.\<close>

theorem fix_side_out_of_range:
  "parse_new_order_single q m cid = Some order \<Longrightarrow> qf_side q m \<in> {Some (CHR ''1''), Some (CHR ''2'')} \<Longrightarrow> fo_side order \<in> {49, 50}"
  by (auto simp: parse_new_order_single_def split: option.splits prod.splits if_splits)

text \<open>Order type and time in force are the values the enumerations have, so they read back.\<close>

theorem fix_type_read:
  "parse_new_order_single q m cid = Some order \<Longrightarrow> qf_ord_type q m = Some (code_OrderType t) \<Longrightarrow> fo_type order = code_OrderType t"
  by (auto simp: parse_new_order_single_def split: option.splits prod.splits if_splits)

text \<open>Every report is a report of a purchase, whatever the side of its order.\<close>

theorem fix_reports_buy: "map_of (create_execution_report response) 54 = Some (FixChar (CHR ''1''))"
  by (simp add: create_execution_report_def)

text \<open>The numbers in execution ids are the successive values of the counter.\<close>

theorem exec_id_number:
  "digits_value (drop 8 (fst (generate_exec_id p))) = unat (fp_exec_id_counter p) \<and> fp_exec_id_counter (snd (generate_exec_id p)) = fp_exec_id_counter p + 1"
  by (simp add: generate_exec_id_def zero_pad_def digits_value_zeros digits_value_to_string_nat)

end
