(* ===== verification/Live_Feed.thy ===== *)
theory Live_Feed
  imports Json_Value
begin

text \<open>
  The adapters of the live venues: \<open>src/src/venues/hyperliquid/hyperliquid_live_ws_feed.hpp\<close> and \<open>.cpp\<close>,
  \<open>src/src/venues/coinbase/coinbase_live_ws_feed.hpp\<close>, and the proxy of \<open>hyperliquid_info_proxy.hpp\<close>. The venues'
  client libraries are parameters: what they do on a subscription, and the decoding of a compressed message.
\<close>

section \<open>The client of Hyperliquid\<close>

datatype hl_channel = ChL2 | ChTrades

record 'i hl_client =
  hc_subscribe :: "'i \<Rightarrow> hl_channel \<Rightarrow> string \<Rightarrow> int \<times> 'i"
  hc_unsubscribe :: "'i \<Rightarrow> hl_channel \<Rightarrow> string \<Rightarrow> int \<Rightarrow> 'i"

section \<open>Subscriptions\<close>

record 'i HyperliquidLiveWSFeed =
  lf_info :: 'i
  lf_coins :: "string list"
  lf_sub_ids :: "(string \<times> int \<times> int) list"
  lf_started :: bool

definition new_live_feed :: "'i \<Rightarrow> string list \<Rightarrow> 'i HyperliquidLiveWSFeed" where
  "new_live_feed info coins = \<lparr>lf_info = info, lf_coins = coins, lf_sub_ids = [], lf_started = False\<rparr>"

definition subscribeCoin :: "'i hl_client \<Rightarrow> string \<Rightarrow> 'i HyperliquidLiveWSFeed \<Rightarrow> 'i HyperliquidLiveWSFeed" where
  "subscribeCoin C coin f =
     (let (l2_id, info1) = hc_subscribe C (lf_info f) ChL2 coin; (trades_id, info2) = hc_subscribe C info1 ChTrades coin
      in f\<lparr>lf_info := info2, lf_sub_ids := AList.update coin (l2_id, trades_id) (lf_sub_ids f)\<rparr>)"

definition lf_start :: "'i hl_client \<Rightarrow> 'i HyperliquidLiveWSFeed \<Rightarrow> 'i HyperliquidLiveWSFeed" where
  "lf_start C f = fold (subscribeCoin C) (lf_coins f) (f\<lparr>lf_started := True\<rparr>)"

definition lf_stop :: "'i hl_client \<Rightarrow> 'i HyperliquidLiveWSFeed \<Rightarrow> 'i HyperliquidLiveWSFeed" where
  "lf_stop C f = f\<lparr>lf_info := fold (\<lambda>(coin, l2_id, trades_id) info. hc_unsubscribe C (hc_unsubscribe C info ChL2 coin l2_id) ChTrades coin trades_id)
       (lf_sub_ids f) (lf_info f), lf_sub_ids := [], lf_started := False\<rparr>"

definition addCoin :: "'i hl_client \<Rightarrow> string \<Rightarrow> 'i HyperliquidLiveWSFeed \<Rightarrow> 'i HyperliquidLiveWSFeed" where
  "addCoin C coin f =
     (let f1 = (if coin \<in> set (lf_coins f) then f else f\<lparr>lf_coins := lf_coins f @ [coin]\<rparr>)
      in if lf_started f1 \<and> map_of (lf_sub_ids f1) coin = None then subscribeCoin C coin f1 else f1)"

text \<open>
  A message of the compressed book channel: what is handed to the book, if anything; \<open>decode\<close> gives nothing for a text
  that cannot be decoded, which is logged.
\<close>

definition jfind :: "string \<Rightarrow> 'n jvalue \<Rightarrow> 'n jvalue option" where
  "jfind k v = (case v of JObject m \<Rightarrow> map_of m k | _ \<Rightarrow> None)"

definition on_l2 :: "(string \<Rightarrow> 'n jvalue option) \<Rightarrow> 'n jvalue \<Rightarrow> 'n jvalue option" where
  "on_l2 decode_l2_diff msg = (case jfind ''data'' msg of
      None \<Rightarrow> None
    | Some data \<Rightarrow>
        (case jfind ''s'' data of
           Some snapshot \<Rightarrow> Some snapshot
         | None \<Rightarrow> (case jfind ''c'' data of Some (JText compressed) \<Rightarrow> decode_l2_diff compressed | _ \<Rightarrow> None)))"

section \<open>Coinbase\<close>

datatype cb_channel = CB_LEVEL2 | CB_MARKET_TRADES

datatype cb_client_call = CbSubscribe "string list" "cb_channel list" | CbUnsubscribe "string list" "cb_channel list"

definition cb_feed_start :: "string list \<Rightarrow> cb_client_call list" where
  "cb_feed_start symbols = (if symbols \<noteq> [] then [CbSubscribe symbols [CB_LEVEL2, CB_MARKET_TRADES]] else [])"

definition cb_feed_stop :: "string list \<Rightarrow> cb_client_call list" where
  "cb_feed_stop symbols = [CbUnsubscribe symbols [CB_LEVEL2, CB_MARKET_TRADES]]"

section \<open>The information proxy\<close>

record http_response =
  hr_result_code :: nat
  hr_reason :: string
  hr_result_text :: string

record ProxiedHttpResponse =
  px_status_line :: string
  px_body :: string

definition unreachable :: ProxiedHttpResponse where
  "unreachable = \<lparr>px_status_line = ''502 Bad Gateway'',
     px_body = ''{'' @ [CHR 0x22] @ ''status'' @ [CHR 0x22] @ '':'' @ [CHR 0x22] @ ''err'' @ [CHR 0x22] @ '','' @ [CHR 0x22] @ ''response'' @ [CHR 0x22] @ '':'' @
       [CHR 0x22] @ ''failed to reach upstream Hyperliquid API'' @ [CHR 0x22] @ ''}''\<rparr>"

definition build_proxied_response :: "(string \<Rightarrow> 'n jvalue option) \<Rightarrow> http_response \<Rightarrow> ProxiedHttpResponse" where
  "build_proxied_response json_parse rsp =
     (if json_parse (hr_result_text rsp) = None then unreachable
      else \<lparr>px_status_line = to_string_nat (hr_result_code rsp) @ '' '' @ (if hr_reason rsp = [] then ''OK'' else hr_reason rsp),
            px_body = hr_result_text rsp\<rparr>)"

text \<open>The chunks of a request body; the request goes out with the last one. The value is the buffer and the answer, if any.\<close>

fun proxy_on_data :: "(string \<Rightarrow> 'n jvalue option) \<Rightarrow> (string \<Rightarrow> string \<Rightarrow> http_response) \<Rightarrow> string \<Rightarrow> string \<Rightarrow> (string \<times> bool) list \<Rightarrow>
    string \<times> ProxiedHttpResponse list" where
  "proxy_on_data json_parse post upstream_base_url body_buffer [] = (body_buffer, [])"
| "proxy_on_data json_parse post upstream_base_url body_buffer ((chunk, is_last) # rest) =
     (let buffer = body_buffer @ chunk
      in if \<not> is_last then proxy_on_data json_parse post upstream_base_url buffer rest
         else (case proxy_on_data json_parse post upstream_base_url buffer rest of
                 (b, answers) \<Rightarrow> (b, build_proxied_response json_parse (post (upstream_base_url @ ''/info'') buffer) # answers)))"

section \<open>Facts\<close>

text \<open>
  What the code relies on of the client: a subscription is new and active until it is cancelled. \<open>active\<close> is the set of
  active subscriptions of a state of the client.
\<close>

definition client_ok :: "'i hl_client \<Rightarrow> ('i \<Rightarrow> (hl_channel \<times> string \<times> int) set) \<Rightarrow> bool" where
  "client_ok C active \<longleftrightarrow>
     (\<forall>i ch c. (ch, c, fst (hc_subscribe C i ch c)) \<notin> active i \<and> active (snd (hc_subscribe C i ch c)) = insert (ch, c, fst (hc_subscribe C i ch c)) (active i)) \<and>
     (\<forall>i ch c n. active (hc_unsubscribe C i ch c n) = active i - {(ch, c, n)})"

definition subscriptions :: "(string \<times> int \<times> int) list \<Rightarrow> (hl_channel \<times> string \<times> int) set" where
  "subscriptions ids = (\<Union>(c, l, t)\<in>set ids. {(ChL2, c, l), (ChTrades, c, t)})"

text \<open>The books of the adapter: started, it has one pair of subscriptions per coin; the client has these and those of others.\<close>

definition feed_inv :: "('i \<Rightarrow> (hl_channel \<times> string \<times> int) set) \<Rightarrow> (hl_channel \<times> string \<times> int) set \<Rightarrow> 'i HyperliquidLiveWSFeed \<Rightarrow> bool" where
  "feed_inv active others f \<longleftrightarrow> distinct (lf_coins f) \<and> distinct (map fst (lf_sub_ids f)) \<and>
     set (map fst (lf_sub_ids f)) = (if lf_started f then set (lf_coins f) else {}) \<and>
     active (lf_info f) = others \<union> subscriptions (lf_sub_ids f) \<and> others \<inter> subscriptions (lf_sub_ids f) = {}"

lemma subscriptions_snoc: "subscriptions (ids @ [(c, l, t)]) = subscriptions ids \<union> {(ChL2, c, l), (ChTrades, c, t)}"
  by (auto simp: subscriptions_def)

lemma update_new: "c \<notin> fst ` set al \<Longrightarrow> AList.update c v al = al @ [(c, v)]"
  by (induction al) auto

lemma subscribeCoin_new:
  assumes "client_ok C active" and "c \<notin> fst ` set (lf_sub_ids f)" and "active (lf_info f) = others \<union> subscriptions (lf_sub_ids f)"
    and "others \<inter> subscriptions (lf_sub_ids f) = {}"
  obtains l t where "lf_sub_ids (subscribeCoin C c f) = lf_sub_ids f @ [(c, l, t)]" "lf_coins (subscribeCoin C c f) = lf_coins f"
    "lf_started (subscribeCoin C c f) = lf_started f"
    "active (lf_info (subscribeCoin C c f)) = others \<union> subscriptions (lf_sub_ids f @ [(c, l, t)])" "others \<inter> subscriptions (lf_sub_ids f @ [(c, l, t)]) = {}"
proof -
  obtain l i1 where a: "hc_subscribe C (lf_info f) ChL2 c = (l, i1)" by fastforce
  obtain t i2 where b: "hc_subscribe C i1 ChTrades c = (t, i2)" by fastforce
  have e: "subscribeCoin C c f = f\<lparr>lf_info := i2, lf_sub_ids := lf_sub_ids f @ [(c, l, t)]\<rparr>" by (simp add: subscribeCoin_def a b update_new [OF assms(2)])
  have x: "(ChL2, c, l) \<notin> active (lf_info f)" "active i1 = insert (ChL2, c, l) (active (lf_info f))" "(ChTrades, c, t) \<notin> active i1" "active i2 = insert (ChTrades, c, t) (active i1)"
    using assms(1) a b unfolding client_ok_def by (metis fst_conv snd_conv)+
  have "active i2 = others \<union> subscriptions (lf_sub_ids f @ [(c, l, t)])" unfolding x subscriptions_snoc assms(3) by blast
  moreover have "others \<inter> subscriptions (lf_sub_ids f @ [(c, l, t)]) = {}" using x(1,3) unfolding subscriptions_snoc x(2) assms(3) using assms(4) by blast
  ultimately show thesis by (intro that [of l t]) (simp_all add: e)
qed

lemma addCoin_inv: "client_ok C active \<Longrightarrow> feed_inv active others f \<Longrightarrow> feed_inv active others (addCoin C c f) \<and> set (lf_coins (addCoin C c f)) = insert c (set (lf_coins f)) \<and> lf_started (addCoin C c f) = lf_started f"
proof -
  assume C: "client_ok C active" and f: "feed_inv active others f"
  define f1 where "f1 = (if c \<in> set (lf_coins f) then f else f\<lparr>lf_coins := lf_coins f @ [c]\<rparr>)"
  have f1: "lf_info f1 = lf_info f" "lf_sub_ids f1 = lf_sub_ids f" "lf_started f1 = lf_started f" "set (lf_coins f1) = insert c (set (lf_coins f))" "distinct (lf_coins f1)"
    using f by (auto simp: f1_def feed_inv_def)
  show ?thesis
  proof (cases "lf_started f \<and> map_of (lf_sub_ids f) c = None")
    case True
    then have e: "addCoin C c f = subscribeCoin C c f1" by (simp add: addCoin_def f1_def [symmetric] f1)
    have n: "c \<notin> fst ` set (lf_sub_ids f1)" using True by (simp add: f1 map_of_eq_None_iff)
    have k: "active (lf_info f1) = others \<union> subscriptions (lf_sub_ids f1)" "others \<inter> subscriptions (lf_sub_ids f1) = {}" using f by (simp_all add: f1 feed_inv_def)
    obtain l t where r: "lf_sub_ids (subscribeCoin C c f1) = lf_sub_ids f1 @ [(c, l, t)]" "lf_coins (subscribeCoin C c f1) = lf_coins f1"
      "lf_started (subscribeCoin C c f1) = lf_started f1" "active (lf_info (subscribeCoin C c f1)) = others \<union> subscriptions (lf_sub_ids f1 @ [(c, l, t)])"
      "others \<inter> subscriptions (lf_sub_ids f1 @ [(c, l, t)]) = {}" by (rule subscribeCoin_new [OF C n k])
    show ?thesis using f f1 r n True unfolding e by (auto simp: feed_inv_def)
  next
    case False
    then have e: "addCoin C c f = f1" by (auto simp: addCoin_def f1_def [symmetric] f1)
    have "c \<in> set (lf_coins f)" if "lf_started f"
    proof -
      have "c \<in> fst ` set (lf_sub_ids f)" using False that by (simp add: map_of_eq_None_iff)
      then show ?thesis using f that by (simp add: feed_inv_def)
    qed
    then show ?thesis using f f1 unfolding e by (auto simp: feed_inv_def)
  qed
qed

lemma addCoins_inv:
  "client_ok C active \<Longrightarrow> feed_inv active others f \<Longrightarrow>
   feed_inv active others (fold (addCoin C) cs f) \<and> set (lf_coins (fold (addCoin C) cs f)) = set cs \<union> set (lf_coins f) \<and> lf_started (fold (addCoin C) cs f) = lf_started f"
proof (induction cs arbitrary: f)
  case (Cons c cs)
  then show ?case using addCoin_inv [OF Cons.prems, of c] Cons.IH [of "addCoin C c f"] by auto
qed simp

lemma subscribe_each:
  assumes "client_ok C active"
  shows "distinct cs \<Longrightarrow> set cs \<inter> fst ` set (lf_sub_ids f) = {} \<Longrightarrow> distinct (map fst (lf_sub_ids f)) \<Longrightarrow> active (lf_info f) = others \<union> subscriptions (lf_sub_ids f) \<Longrightarrow>
    others \<inter> subscriptions (lf_sub_ids f) = {} \<Longrightarrow>
    (let g = fold (subscribeCoin C) cs f in distinct (map fst (lf_sub_ids g)) \<and> set (map fst (lf_sub_ids g)) = set cs \<union> fst ` set (lf_sub_ids f) \<and> lf_coins g = lf_coins f \<and>
      lf_started g = lf_started f \<and> active (lf_info g) = others \<union> subscriptions (lf_sub_ids g) \<and> others \<inter> subscriptions (lf_sub_ids g) = {})"
proof (induction cs arbitrary: f)
  case (Cons c cs)
  have n: "c \<notin> fst ` set (lf_sub_ids f)" using Cons.prems(2) by auto
  obtain l t where r: "lf_sub_ids (subscribeCoin C c f) = lf_sub_ids f @ [(c, l, t)]" "lf_coins (subscribeCoin C c f) = lf_coins f"
    "lf_started (subscribeCoin C c f) = lf_started f" "active (lf_info (subscribeCoin C c f)) = others \<union> subscriptions (lf_sub_ids f @ [(c, l, t)])"
    "others \<inter> subscriptions (lf_sub_ids f @ [(c, l, t)]) = {}" by (rule subscribeCoin_new [OF assms n Cons.prems(4,5)])
  have "distinct cs" "set cs \<inter> fst ` set (lf_sub_ids (subscribeCoin C c f)) = {}" "distinct (map fst (lf_sub_ids (subscribeCoin C c f)))"
    using Cons.prems n by (auto simp: r(1))
  from Cons.IH [OF this, unfolded r(1-4), OF refl r(5)] show ?case by (auto simp: Let_def)
qed (simp add: Let_def)

lemma lf_start_inv:
  assumes "client_ok C active" and "feed_inv active others f" and "\<not> lf_started f"
  shows "feed_inv active others (lf_start C f)" "lf_started (lf_start C f)" "lf_coins (lf_start C f) = lf_coins f"
proof -
  have e: "lf_sub_ids f = []" "distinct (lf_coins f)" using assms(2,3) by (simp_all add: feed_inv_def)
  have "active (lf_info f) = others" using assms(2) by (simp add: feed_inv_def e subscriptions_def)
  with subscribe_each [OF assms(1), of "lf_coins f" "f\<lparr>lf_started := True\<rparr>" others] e
  show "feed_inv active others (lf_start C f)" "lf_started (lf_start C f)" "lf_coins (lf_start C f) = lf_coins f"
    by (simp_all add: lf_start_def feed_inv_def Let_def subscriptions_def)
qed

lemma unsubscribe_each:
  "client_ok C active \<Longrightarrow>
   active (fold (\<lambda>(coin, l, t) info. hc_unsubscribe C (hc_unsubscribe C info ChL2 coin l) ChTrades coin t) ids i) = active i - subscriptions ids"
proof (induction ids arbitrary: i)
  case (Cons x ids)
  obtain c l t where x: "x = (c, l, t)" by (metis surj_pair)
  have "active (hc_unsubscribe C (hc_unsubscribe C i ChL2 c l) ChTrades c t) = active i - {(ChL2, c, l), (ChTrades, c, t)}"
    using Cons.prems unfolding client_ok_def by auto
  then show ?case using Cons by (auto simp: x subscriptions_def)
qed (simp add: subscriptions_def)

text \<open>
  The live feed keeps its subscriptions in balance. However coins are added, before or after the start, once started
  the adapter has exactly one pair of subscriptions, book and trades, for every coin it was made with or was
  given since, and no other; stopping cancels exactly these, so that the client is left with what it had before.
\<close>

theorem live_feed_balanced:
  assumes "client_ok C active" and "distinct coins" and "f = fold (addCoin C) later (lf_start C (fold (addCoin C) earlier (new_live_feed info coins)))"
  shows "distinct (map fst (lf_sub_ids f)) \<and> set (map fst (lf_sub_ids f)) = set coins \<union> set earlier \<union> set later \<and>
    active (lf_info f) = active info \<union> subscriptions (lf_sub_ids f) \<and> active (lf_info (lf_stop C f)) = active info"
proof -
  let ?n = "new_live_feed info coins" and ?others = "active info"
  have "feed_inv active ?others ?n" using assms(2) by (simp add: feed_inv_def new_live_feed_def subscriptions_def)
  from addCoins_inv [OF assms(1) this, of earlier]
  have 1: "feed_inv active ?others (fold (addCoin C) earlier ?n)" "set (lf_coins (fold (addCoin C) earlier ?n)) = set earlier \<union> set coins" "\<not> lf_started (fold (addCoin C) earlier ?n)"
    by (simp_all add: new_live_feed_def)
  note 2 = lf_start_inv [OF assms(1) 1(1,3)]
  from addCoins_inv [OF assms(1) 2(1), of later] have 3: "feed_inv active ?others f" "set (lf_coins f) = set later \<union> (set earlier \<union> set coins)" "lf_started f"
    using 1(2) 2(2,3) by (simp_all add: assms(3))
  have "active (lf_info (lf_stop C f)) = active (lf_info f) - subscriptions (lf_sub_ids f)" by (simp add: lf_stop_def unsubscribe_each [OF assms(1)])
  then show ?thesis using 3 by (auto simp: feed_inv_def)
qed

text \<open>A client that numbers its subscriptions and keeps those that are not cancelled.\<close>

type_synonym ex_subs = "(hl_channel \<times> string) option list"

definition ex_client :: "ex_subs hl_client" where
  "ex_client = \<lparr>hc_subscribe = (\<lambda>xs ch c. (int (length xs), xs @ [Some (ch, c)])),
     hc_unsubscribe = (\<lambda>xs ch c k. if 0 \<le> k \<and> nat k < length xs \<and> xs ! nat k = Some (ch, c) then xs[nat k := None] else xs)\<rparr>"

definition ex_active :: "ex_subs \<Rightarrow> (hl_channel \<times> string \<times> int) set" where
  "ex_active xs = {(ch, c, k). 0 \<le> k \<and> nat k < length xs \<and> xs ! nat k = Some (ch, c)}"

lemma ex_client_ok: "client_ok ex_client ex_active"
proof -
  have "(ch, c, int (length xs)) \<notin> ex_active xs \<and> ex_active (xs @ [Some (ch, c)]) = insert (ch, c, int (length xs)) (ex_active xs)" for xs ch c
    by (auto simp: ex_active_def nth_append less_Suc_eq split: if_splits)
  moreover have "ex_active (xs[nat k := None]) = ex_active xs - {(ch, c, k)}" if "0 \<le> k" "nat k < length xs" "xs ! nat k = Some (ch, c)" for xs ch c k
    using that by (auto simp: ex_active_def nth_list_update split: if_splits)
  moreover have "(ch, c, k) \<notin> ex_active xs" if "\<not> (0 \<le> k \<and> nat k < length xs \<and> xs ! nat k = Some (ch, c))" for xs ch c k
    using that by (simp add: ex_active_def)
  ultimately show ?thesis unfolding client_ok_def by (auto simp: ex_client_def)
qed

theorem live_feed_balanced_witness:
  "\<exists>f. f = fold (addCoin ex_client) [''SOL'', ''BTC''] (lf_start ex_client (fold (addCoin ex_client) [''ETH''] (new_live_feed [] [''BTC'']))) \<and>
     set (map fst (lf_sub_ids f)) = {''BTC'', ''ETH'', ''SOL''} \<and> ex_active (lf_info (lf_stop ex_client f)) = {}"
proof -
  have d: "distinct [''BTC'']" by simp
  have "ex_active [] = {}" by (simp add: ex_active_def)
  moreover have "set [''BTC''] \<union> set [''ETH''] \<union> set [''SOL'', ''BTC''] = {''BTC'', ''ETH'', ''SOL''}" by auto
  ultimately show ?thesis using live_feed_balanced [OF ex_client_ok d refl, of "[''SOL'', ''BTC'']" "[''ETH'']" "[]"] by metis
qed

section \<open>The proxy\<close>

text \<open>A request body in any pieces is sent once, whole, and its answer is the venue's own whenever that is JSON.\<close>

theorem proxy_sends_whole_body:
  "\<forall>c\<in>set cs. \<not> snd c \<Longrightarrow> proxy_on_data json_parse post url b (cs @ [(c, True)]) =
     (b @ concat (map fst cs) @ c, [build_proxied_response json_parse (post (url @ ''/info'') (b @ concat (map fst cs) @ c))])"
  by (induction cs arbitrary: b) (auto simp: Let_def)

theorem proxy_relays:
  "json_parse (hr_result_text rsp) \<noteq> None \<Longrightarrow> px_body (build_proxied_response json_parse rsp) = hr_result_text rsp"
  "json_parse (hr_result_text rsp) = None \<Longrightarrow> px_status_line (build_proxied_response json_parse rsp) = ''502 Bad Gateway''"
  by (auto simp: build_proxied_response_def unreachable_def)

text \<open>A snapshot is handed on as it came and never decoded.\<close>

theorem on_l2_snapshot: "on_l2 decode (JObject [(''data'', JObject ((''s'', snapshot) # rest))]) = Some snapshot"
  by (simp add: on_l2_def jfind_def)

text \<open>A feed of no products subscribes nothing but unsubscribes all the same.\<close>

theorem cb_feed_empty: "cb_feed_start [] = []" "cb_feed_stop [] = [CbUnsubscribe [] [CB_LEVEL2, CB_MARKET_TRADES]]"
  by (simp_all add: cb_feed_start_def cb_feed_stop_def)

end
