(* ===== verification/Symbol_Move.thy ===== *)
theory Symbol_Move
  imports Sim_Order "HOL-Library.AList"
begin

text \<open>
  The move operations of \<open>Symbol\<close> in \<open>src/src/exchange/symbol.hpp\<close>. Books are shared objects that keep a list of the
  instruments they notify, so the model has addresses: instruments at theirs, and for each book the instruments that
  observe it. The caches, the trade history and the credits move together and are one value; what a moved-from
  container holds is unspecified and is a parameter.
\<close>

section \<open>Objects\<close>

record ('e, 'c) sym_object =
  so_id :: nat
  so_venue :: Venue
  so_name :: string
  so_engine :: "'e option"
  so_book :: "nat option"
  so_subscriptions :: nat
  so_smp :: SelfMatchPreventionMode
  so_contents :: 'c

record ('e, 'c) sym_heap =
  sh_objects :: "nat \<rightharpoonup> ('e, 'c) sym_object"
  sh_observers :: "nat \<Rightarrow> nat list"

text \<open>What is left behind: the members that are exchanged, the name and the subscriptions, which are copied, and the rest.\<close>

definition moved_from :: "'c \<Rightarrow> ('e, 'c) sym_object \<Rightarrow> ('e, 'c) sym_object" where
  "moved_from leftover other = other\<lparr>so_id := 0, so_venue := UNKNOWN_VENUE, so_engine := None, so_book := None, so_contents := leftover\<rparr>"

definition move_construct :: "'c \<Rightarrow> nat \<Rightarrow> nat \<Rightarrow> ('e, 'c) sym_heap \<Rightarrow> ('e, 'c) sym_heap option" where
  "move_construct leftover this src h = (case sh_objects h src of
      None \<Rightarrow> None
    | Some other \<Rightarrow>
        (let objects = (sh_objects h)(src \<mapsto> moved_from leftover other, this \<mapsto> other\<lparr>so_smp := SMP_NONE\<rparr>)
         in Some (case so_book other of
              None \<Rightarrow> h\<lparr>sh_objects := objects\<rparr>
            | Some b \<Rightarrow> h\<lparr>sh_objects := objects, sh_observers := (sh_observers h)(b := removeAll src (sh_observers h b) @ [this])\<rparr>)))"

definition move_assign :: "'c \<Rightarrow> nat \<Rightarrow> nat \<Rightarrow> ('e, 'c) sym_heap \<Rightarrow> ('e, 'c) sym_heap option" where
  "move_assign leftover this src h = (case (sh_objects h this, sh_objects h src) of
      (Some old, Some other) \<Rightarrow>
        Some (if this = src then h
              else h\<lparr>sh_objects := (sh_objects h)(src \<mapsto> moved_from leftover other, this \<mapsto> other\<lparr>so_smp := so_smp old\<rparr>)\<rparr>)
    | _ \<Rightarrow> None)"

section \<open>Who is notified\<close>

text \<open>Every book with an instrument notifies exactly that instrument.\<close>

definition heap_ok :: "('e, 'c) sym_heap \<Rightarrow> bool" where
  "heap_ok h \<longleftrightarrow> (\<forall>b a. a \<in> set (sh_observers h b) \<longleftrightarrow> (\<exists>s. sh_objects h a = Some s \<and> so_book s = Some b))"

text \<open>Constructing by a move at a fresh address keeps that: the new instrument takes over the book and its notifications.\<close>

theorem move_construct_ok:
  assumes "heap_ok h" and "sh_objects h this = None" and "move_construct leftover this src h = Some h'"
  shows "heap_ok h'"
proof -
  obtain other where o': "sh_objects h src = Some other" using assms(3) by (auto simp: move_construct_def split: option.splits)
  then have ne: "this \<noteq> src" using assms(2) by auto
  have obs: "this \<notin> set (sh_observers h b)" for b using assms(1,2) unfolding heap_ok_def by fastforce
  have inv: "a \<in> set (sh_observers h b) \<longleftrightarrow> (\<exists>s. sh_objects h a = Some s \<and> so_book s = Some b)" for a b using assms(1) unfolding heap_ok_def by blast
  show ?thesis
  proof (cases "so_book other")
    case None
    then have h': "h' = h\<lparr>sh_objects := (sh_objects h)(src \<mapsto> moved_from leftover other, this \<mapsto> other\<lparr>so_smp := SMP_NONE\<rparr>)\<rparr>"
      using assms(3) o' by (simp add: move_construct_def)
    show ?thesis unfolding heap_ok_def h' using None ne obs by (auto simp: inv o' moved_from_def)
  next
    case (Some b)
    then have h': "h' = h\<lparr>sh_objects := (sh_objects h)(src \<mapsto> moved_from leftover other, this \<mapsto> other\<lparr>so_smp := SMP_NONE\<rparr>),
        sh_observers := (sh_observers h)(b := removeAll src (sh_observers h b) @ [this])\<rparr>"
      using assms(3) o' by (simp add: move_construct_def)
    show ?thesis unfolding heap_ok_def h' using Some ne obs by (auto simp: inv o' moved_from_def)
  qed
qed

text \<open>
  Assigning by a move does not: the book goes to the target, but it still notifies the instrument it was taken from, and
  not the one that has it now.
\<close>

theorem move_assign_notifies_source:
  assumes "heap_ok h" and "this \<noteq> src" and "sh_objects h this = Some old" and "so_book old \<noteq> Some b" and "sh_objects h src = Some other" and "so_book other = Some b"
  shows "\<exists>h' s. move_assign leftover this src h = Some h' \<and> sh_objects h' this = Some s \<and> so_book s = Some b \<and>
    src \<in> set (sh_observers h' b) \<and> this \<notin> set (sh_observers h' b) \<and> \<not> heap_ok h'"
proof -
  let ?h = "h\<lparr>sh_objects := (sh_objects h)(src \<mapsto> moved_from leftover other, this \<mapsto> other\<lparr>so_smp := so_smp old\<rparr>)\<rparr>"
  have inv: "a \<in> set (sh_observers h b) \<longleftrightarrow> (\<exists>s. sh_objects h a = Some s \<and> so_book s = Some b)" for a using assms(1) unfolding heap_ok_def by blast
  have r: "move_assign leftover this src h = Some ?h" using assms(2,3,5) by (simp add: move_assign_def)
  have o: "src \<in> set (sh_observers ?h b)" "this \<notin> set (sh_observers ?h b)" using assms(3-6) by (simp_all add: inv)
  have s: "sh_objects ?h this = Some (other\<lparr>so_smp := so_smp old\<rparr>)" "so_book (other\<lparr>so_smp := so_smp old\<rparr>) = Some b" using assms(6) by simp_all
  then have "\<not> heap_ok ?h" using o(2) unfolding heap_ok_def by blast
  then show ?thesis using r o s by (intro exI [of _ ?h] exI [of _ "other\<lparr>so_smp := so_smp old\<rparr>"]) simp
qed

text \<open>Neither carries the self-match prevention over.\<close>

theorem move_loses_smp:
  "move_construct leftover this src h = Some h' \<Longrightarrow> \<exists>s. sh_objects h' this = Some s \<and> so_smp s = SMP_NONE"
  by (auto simp: move_construct_def Let_def split: option.splits)

end
