(* ===== verification/Spec2Isabelle.thy ===== *)
theory Spec2Isabelle
  imports Fixed_String Feed_Properties Pro_Rata_Properties Order_Store Pending_Responses Cl_Ord_Id Retransmit_Ring Tcp_Gateway
    Hyperliquid_L2 Coinbase_Snapshot Multicast_Feed Ws_Properties Hyperliquid_Properties Publisher_Properties Cb_Publisher_Properties Sequenced_Message
    Rest_Properties Hyperliquid_Rest_Properties Venue_Startup Symbol_Manager Message_Parser Gateway_Round_Trip Coinbase_Order_Json
    Event_Loop Exchange_Lifecycle Fix_Parser Live_Feed Symbol_Move Timestamp
begin

text \<open>
  \<^bold>\<open>slick-sim, a simulator of exchanges.\<close> The program under \<open>src/src\<close> runs simulated exchanges beside live
  market data. Each exchange owns one thread. The thread takes order requests from a queue that the order
  gateways fill, takes market data from a venue feed, keeps one book per instrument in which the clients' orders
  and the venue's liquidity (called phantom) stand in one priority order, matches with the FIFO or the
  pro-rata engine, and writes execution reports to a response queue, which the gateways read, and market data
  frames to a third queue, which the publishers read. Prices and quantities are 64-bit integers scaled by
  10^8.

  \<^bold>\<open>Theories and the code they model.\<close>

  \<^item> \<open>Sim_Prelude\<close>, \<open>Sim_Types\<close>, \<open>Sim_Order\<close>, \<open>Fixed_Point\<close>, \<open>Fixed_String\<close>, \<open>Ring_Buffer\<close>, \<open>Timestamp\<close>: \<open>common/types.hpp\<close>,
    \<open>common/order.hpp\<close>, \<open>common/messages.hpp\<close>, \<open>common/market_data.hpp\<close> and \<open>utils/\<close>. Enumerations are datatypes,
    structs are records, text fields of fixed size are the texts they hold.
  \<^item> \<open>L3_Contract\<close>: the order-by-order book of the slick-orderbook library, which is not part of the repository.
    It is a record of operations that the model takes as an argument, with the locale \<open>l3_book\<close> for the behaviour
    the repository relies on; a list of queues interprets it, so no law is vacuous.
  \<^item> \<open>Order_Book\<close>, \<open>Book_Invariant\<close>, \<open>Book_Operations\<close>: \<open>order_book/order_book.hpp\<close>; pool, three lookups, phantom
    quantities, and the invariant every operation keeps.
  \<^item> \<open>Match_Common\<close>, \<open>Match_Facts\<close>, \<open>Sweep_Facts\<close>, \<open>Prepare_Facts\<close>, \<open>Match_Outcome\<close>, \<open>Fifo_Engine\<close>,
    \<open>Fifo_Properties\<close>: \<open>matching_engine/match_common.hpp\<close>, \<open>matching_engine.cpp\<close>, \<open>fifo_matching_engine.cpp\<close>. The
    specification is \<open>sweep\<close>, a function on one queue; the engines' loops refine it.
  \<^item> \<open>Pro_Rata_Alloc\<close>, \<open>Pro_Rata_Engine\<close>, \<open>Pro_Rata_Orders\<close>, \<open>Pro_Rata_Properties\<close>: \<open>matching_config.cpp\<close> and
    \<open>pro_rata_matching_engine.cpp\<close>; its specification is \<open>pr_sweep\<close>.
  \<^item> \<open>Engine_Contract\<close>: the locale \<open>matching_engine\<close> that the instrument uses, interpreted for both engines.
  \<^item> \<open>Sim_Symbol\<close>, \<open>Symbol_Facts\<close>, \<open>Symbol_Properties\<close>, \<open>Symbol_Amend\<close>, \<open>Symbol_Examples\<close>: \<open>exchange/symbol.cpp\<close>; \<open>Symbol_Move\<close>:
    the move operations of \<open>symbol.hpp\<close>, with addresses.
  \<^item> \<open>Sim_Exchange\<close>, \<open>Exchange_Facts\<close>, \<open>Exchange_Requests\<close>, \<open>Exchange_Feed\<close>, \<open>Feed_Reconcile\<close>, \<open>Feed_Mirror\<close>,
    \<open>Exchange_Steps\<close>, \<open>Exchange_Properties\<close>, \<open>Feed_Properties\<close>: \<open>exchange/exchange.cpp\<close>. The exchange thread is
    the step relation \<open>xstep\<close>. \<open>Report_Facts\<close>, \<open>Report_Types\<close>: the response queue and the text fields of orders and
    reports. \<open>Exchange_Lifecycle\<close>: start and stop, the venues' constructors, the product list and \<open>main\<close>.
  \<^item> \<open>Coinbase_Events\<close>, \<open>Coinbase_Exchange\<close>, \<open>Coinbase_Facts\<close>, \<open>Coinbase_Properties\<close>, \<open>Coinbase_Snapshot\<close>:
    \<open>venues/coinbase/coinbase_exchange.cpp\<close> and \<open>coinbase_feed_callbacks.cpp\<close>.
  \<^item> \<open>Hyperliquid_L2\<close>, \<open>Hyperliquid_Exchange\<close>, \<open>Hyperliquid_Facts\<close>, \<open>Hyperliquid_Properties\<close>:
    \<open>venues/hyperliquid/hyperliquid_l2_diff.cpp\<close> and \<open>hyperliquid_exchange.cpp\<close>.
  \<^item> \<open>Md_Publisher\<close>, \<open>Hyperliquid_Publisher\<close>, \<open>Publisher_Mirror\<close>, \<open>Publisher_Properties\<close>, \<open>Coinbase_Publisher\<close>,
    \<open>Cb_Publisher_Properties\<close>, \<open>Sequenced_Message\<close>: \<open>market_data_publisher/\<close>, the two \<open>*_publisher.cpp\<close> and the
    trade encoders.
  \<^item> \<open>Order_Store\<close>, \<open>Pending_Responses\<close>, \<open>Cl_Ord_Id\<close>, \<open>Retransmit_Ring\<close>, \<open>Tcp_Gateway\<close>: \<open>order_gateway/\<close>.
  \<^item> \<open>Coinbase_Ws_Gateway\<close>, \<open>Ws_Properties\<close>, \<open>Rest_Wait\<close>, \<open>Coinbase_Rest_Gateway\<close>, \<open>Rest_Properties\<close>,
    \<open>Hyperliquid_Rest_Gateway\<close>, \<open>Hyperliquid_Rest_Properties\<close>, \<open>Coinbase_Order_Json\<close>: the venues' order gateways.
  \<^item> \<open>Gateway_Round_Trip\<close>: the REST gateway and the exchange composed through the request and response queues.
  \<^item> \<open>Event_Loop\<close>: \<open>ws_md_publisher.cpp\<close>, \<open>rest_ws_order_gateway.cpp\<close> and the scheduling of
    \<open>coinbase_ws_order_gateway.hpp\<close> on a queue of deferred callbacks; the locale \<open>polling\<close> states what a polling
    callback promises and is interpreted for the Coinbase publisher, the Hyperliquid publisher and the order gateway as modelled.
  \<^item> \<open>Live_Feed\<close>: \<open>hyperliquid_live_ws_feed.hpp\<close>, \<open>coinbase_live_ws_feed.hpp\<close>, \<open>hyperliquid_info_proxy.hpp\<close>.
  \<^item> \<open>Multicast_Feed\<close>: \<open>md_feed/multicast_packet_feed.hpp\<close>, with the receiver threads, a delivery being three steps,
    and the exchange thread interleaved; how far the queue laps its reader is a parameter.
  \<^item> \<open>Json_Value\<close>, \<open>Venue_Startup\<close>, \<open>Symbol_Manager\<close>, \<open>Message_Parser\<close>, \<open>Fix_Parser\<close>: \<open>exchange/exchange_registry.cpp\<close>,
    \<open>instance_expansion.hpp\<close>, \<open>sim/main.cpp\<close>, \<open>common/symbol_manager.hpp\<close>, \<open>order_gateway/json_parser.cpp\<close>,
    \<open>message_parser.cpp\<close> and \<open>fix_parser.cpp\<close>.

  \<^bold>\<open>State and effects.\<close> An operation takes the state record and returns the new one. What a function draws from
  outside (clock, uuid, pool slot) is an argument. An exception is \<open>None\<close> or a left value; a
  dangling pointer, an index out of range or undefined behaviour is \<open>None\<close>, so a theorem that an operation returns shows their
  absence. Queues between threads are lists that grow, with read positions, but for the packet queue of
  \<open>Multicast_Feed\<close>, which may overwrite what was not read; the order of threads is the order
  of the steps. Reports and frames are values; where the source leaves fields of a recycled slot unwritten, the
  slot's earlier content is part of the model.

  \<^bold>\<open>Assertions.\<close> These are branches of the model with the value \<open>None\<close>: an empty level in the matching loops, the
  line of a multicast call and the time of \<open>add_line\<close>, and the pending cancel (exchange.cpp:889), which does fail, for
  orders filled in part. The last two concern builds with assertions only, which \<open>env_asserts\<close> and the argument \<open>asserts\<close>
  stand for; a Release build goes on. The pro-rata split carries what its final assertion checks as a second result. The
  others are not branches: they follow from what is proved or assumed where the function is used. They are the pending-new
  report (exchange.cpp:843), executed quantities (utils/order.hpp), the divisor of \<open>mul_div_floor\<close>, the capacity of a ring
  buffer, the entries of client order ids, the slots of the retransmission ring, the report a REST order is answered with,
  the priority, price and id of a venue order that rests (exchange.cpp:774 to 790), and that an instrument is created and bound
  to its engine once.

  \<^bold>\<open>Loops.\<close> The matching loops are partial functions into \<open>option\<close>, and the engines' properties prove that they
  return; the other loops are structural, or bounded as in the source: a poll of the gateways reads at most
  100 reports, a drain of the order store 4096, a REST wait 50000 polls (five seconds in steps of 100
  microseconds), a publisher its batch size. No fuel is invented.

  \<^bold>\<open>What the lemmas show.\<close> For the exchange: one invariant holds in every reachable state (books and indexes
  agree, no slot leaks, no crossed book, tapes and identities well formed), every admissible request ends and
  is answered, but for the assertion on pending cancels, and the outcome of placing, amending, cancelling and refusing is given on every branch. For
  matching: both engines refine their sweeps; fill-or-kill and self-match prevention are all or nothing; the
  pro-rata split is exact. For the feeds: events are dispatched in venue order exactly once, level updates and
  snapshots leave exactly the venue's quantities, less the trades they have not seen, and keep the clients'
  orders; multicast packets are handed over in order, and lost bytes are counted. For the publishers: subscribers rebuild the book from snapshots and diffs, frames are numbered without
  gaps and delivered once. For the gateways: reports reach their owner only, requests are answered within their
  wait, batches are processed entry by entry, byte streams are framed independently of how they are cut, client
  order ids are exclusive, retransmission windows and 32-bit ranges are exact. For gateway and exchange together: what
  a client is told is what the exchange did, the identity texts of orders and reports always fit their arrays, and
  reports are never taken back. For the event loops: the two publishers and the order
  gateway never fall asleep. Timestamps, to the precision of the platform's clock, and listed
  orders read back as what they were made from. For start-up: it succeeds or ends at the first entry that fails.

  Hypotheses beyond the invariants name what the surroundings promise: prices and quantities of requests are in
  range and positive, a pool slot drawn is not in use, a uuid drawn is new, times do not go back. Theorems that
  are not properties record where the code departs from its intent or from the documents; they stand beside the component they
  concern, for instance \<open>late_subscriber_desyncs\<close>, \<open>repeated_subscription_dangles\<close>, \<open>later_client_ranks_first\<close>,
  \<open>stale_client_used_after_close\<close>, \<open>long_client_id_times_out\<close>, \<open>lettered_order_id_refused\<close>,
  \<open>size_increase_requeues\<close>, \<open>snapshot_keeps_own_orders\<close>, \<open>empty_snapshot_undefined\<close>, \<open>hyperliquid_level_ranked\<close> and
  \<open>amend_reject_identity\<close>.

  \<^bold>\<open>Not modelled.\<close> Sockets, timers and the socket libraries as such (uWebSockets, slick::net, slick::socket): their
  callbacks are the operations of the model, and an event loop is its queue of deferred callbacks. Floating point
  (\<open>to_price_t\<close>, \<open>std::to_string\<close> on doubles, tick checks) and the parsing of decimal texts by \<open>std::stod\<close>: parameters, as
  are QuickFIX, the nlohmann parser and printer, JWT, HTTP, zlib and the venues' client libraries. JSON texts other than
  where a property is about the text itself: messages are values. The transaction summary, which forwards an
  answer of the venue; the debug print of a book; the registration macros; shared-memory names of queues; the
  signal handler and the waiting loop of \<open>main\<close>; logging.
\<close>

end
